(* ===== verification/Prelude.thy ===== *)
theory Prelude
  imports Complex_Main "HOL-Library.Log_Nat"
begin

text \<open>
  Shared vocabulary of the development: the collections that carry the proofs, the
  errors a Go function may return, the types of instants and durations, and generic
  facts on options, association lists and prefixes that several components use.
\<close>

section \<open>Collections\<close>

named_theorems float_simps \<open>evaluation rules of the float64 operations\<close>
named_theorems store_simps \<open>evaluation of the in-memory store's levels\<close>

section \<open>Types\<close>

text \<open>
  Instants are nanoseconds since the Unix epoch (\<open>time.Time\<close> through \<open>UnixNano\<close>),
  durations nanoseconds. Go strings are byte sequences, \<open>string\<close> is a list of bytes.
\<close>

type_synonym instant = int
type_synonym duration = int

abbreviation second :: duration where
  "second \<equiv> 1000000000"

text \<open>
  The errors the modelled functions return. The Go code builds most of them with
  \<open>fmt.Errorf\<close>; a constructor stands for one call site or one family of call sites, with
  the values the message names. \<open>ErrWrap\<close> is the \<open>%w\<close> wrapping of another error.
\<close>

datatype goerr =
    ErrResourceKeyRequired
  | ErrUnknownResource string
  | ErrUnsupportedCounter string
  | ErrCostNotFinite
  | ErrDeltaNotFinite nat
  | ErrDeltaNegative nat
  | ErrLimitNaN nat string
  | ErrOverLimit
  | ErrScopeEmpty string
  | ErrScopeChar string string
  | ErrScopeVersion string string
  | ErrKeyspaceVersion int
  | ErrKeyspaceService
  | ErrNoDualOps
  | ErrNoAcquirer
  | ErrAcquireTarget
  | ErrRecyclableIdempotencyKey
  | ErrSettleCost string
  | ErrNonDurableLedger string
  | ErrNoRecentActivityGuard string
  | ErrConfig string string
  | ErrUndeclared string string
  | ErrUnsettleable
  | ErrSettleRefused409
  | ErrSettleTransient
  | ErrSettlePermanent
  | ErrTierLookupFailed
  | ErrNoTier
  | ErrBackend string
  | ErrWrap string goerr

text \<open>Go's \<open>errors.Is\<close> follows the wrapping chain.\<close>

fun err_is :: "goerr \<Rightarrow> goerr \<Rightarrow> bool" where
  "err_is (ErrWrap m e) t = (ErrWrap m e = t \<or> err_is e t)"
| "err_is e t = (e = t)"

section \<open>Options, sums and maps\<close>

text \<open>A Go map read of a missing key gives the zero value.\<close>

definition map_get :: "'v \<Rightarrow> ('k \<rightharpoonup> 'v) \<Rightarrow> 'k \<Rightarrow> 'v" where
  "map_get z m k = (case m k of None \<Rightarrow> z | Some v \<Rightarrow> v)"

lemma map_get_None [simp]: "m k = None \<Longrightarrow> map_get z m k = z"
  by (simp add: map_get_def)

lemma map_get_Some [simp]: "m k = Some v \<Longrightarrow> map_get z m k = v"
  by (simp add: map_get_def)

lemma map_get_upd [simp]: "map_get z (m(k \<mapsto> v)) k' = (if k' = k then v else map_get z m k')"
  by (simp add: map_get_def)

text \<open>An association list seen as a Go map: later entries overwrite earlier ones.\<close>

definition map_of_last :: "('k \<times> 'v) list \<Rightarrow> 'k \<rightharpoonup> 'v" where
  "map_of_last kvs = map_of (rev kvs)"

lemma map_of_last_Nil [simp]: "map_of_last [] = Map.empty"
  by (simp add: map_of_last_def)

lemma map_of_last_snoc [simp]: "map_of_last (kvs @ [(k, v)]) = (map_of_last kvs)(k \<mapsto> v)"
  by (simp add: map_of_last_def)

lemma map_of_last_SomeD: "map_of_last kvs k = Some v \<Longrightarrow> (k, v) \<in> set kvs"
  unfolding map_of_last_def by (auto dest: map_of_SomeD)

lemma dom_map_of_last: "dom (map_of_last kvs) = fst ` set kvs"
  by (simp add: map_of_last_def dom_map_of_conv_image_fst)

lemma map_of_last_distinct:
  "distinct (map fst kvs) \<Longrightarrow> (k, v) \<in> set kvs \<Longrightarrow> map_of_last kvs k = Some v"
  unfolding map_of_last_def by (auto intro: map_of_is_SomeI simp: rev_map [symmetric])

section \<open>Strings\<close>

text \<open>\<open>strings.HasPrefix\<close>, \<open>strings.Split\<close> on one byte, \<open>strings.Join\<close>.\<close>

fun has_prefix :: "string \<Rightarrow> string \<Rightarrow> bool" where
  "has_prefix s [] = True"
| "has_prefix [] (p # ps) = False"
| "has_prefix (c # s) (p # ps) = (c = p \<and> has_prefix s ps)"

lemma has_prefix_append [simp]: "has_prefix (p @ s) p"
  by (induction p) auto

lemma has_prefix_iff: "has_prefix s p \<longleftrightarrow> (\<exists>t. s = p @ t)"
  by (induction s p rule: has_prefix.induct) auto

fun split_on :: "char \<Rightarrow> string \<Rightarrow> string list" where
  "split_on sep [] = [[]]"
| "split_on sep (c # s) =
     (if c = sep then [] # split_on sep s
      else (case split_on sep s of [] \<Rightarrow> [[c]] | w # ws \<Rightarrow> (c # w) # ws))"

fun join_with :: "string \<Rightarrow> string list \<Rightarrow> string" where
  "join_with sep [] = []"
| "join_with sep [w] = w"
| "join_with sep (w # v # ws) = w @ sep @ join_with sep (v # ws)"

lemma split_on_nonempty [simp]: "split_on sep s \<noteq> []"
  by (induction s) (auto split: list.splits)

lemma split_on_no_sep: "sep \<notin> set s \<Longrightarrow> split_on sep s = [s]"
  by (induction s) auto

lemma split_on_append_sep:
  "sep \<notin> set w \<Longrightarrow> split_on sep (w @ sep # s) = w # split_on sep s"
  by (induction w) auto

lemma split_join [simp]: "join_with [sep] (split_on sep s) = s"
proof (induction s)
  case Nil
  then show ?case by simp
next
  case (Cons c s)
  obtain w ws where ws: "split_on sep s = w # ws"
    by (cases "split_on sep s") auto
  from Cons ws show ?case by (cases ws) auto
qed

lemma join_split:
  assumes "ws \<noteq> []" and "\<forall>w \<in> set ws. sep \<notin> set w"
  shows "split_on sep (join_with [sep] ws) = ws"
  using assms
proof (induction ws rule: induct_list012)
  case (3 w v ws)
  then show ?case by (simp add: split_on_append_sep)
qed (auto simp: split_on_no_sep)

text \<open>Two byte strings that agree up to the first separator agree on both sides of it.\<close>

lemma sep_cancel:
  assumes "a @ c # b = a' @ c # b'" and "c \<notin> set a" and "c \<notin> set a'"
  shows "a = a' \<and> b = b'"
  using assms
proof (induction a arbitrary: a')
  case Nil
  then show ?case by (cases a') auto
next
  case (Cons x a)
  then show ?case by (cases a') auto
qed

end
