(* ===== verification/GoFloat.thy ===== *)
theory GoFloat
  imports Prelude "HOL-Library.Countable"
begin

text \<open>
  Go's \<open>float64\<close>: the finite values as rationals, the infinities and NaN, with the
  IEEE 754 binary64 rounding (to nearest, ties to even) written out. Every arithmetic
  operation computes the exact result and rounds it once. The sign of zero is not kept:
  no operation of the modelled code can tell the zeros apart.
\<close>

section \<open>Rounding to 53 bits\<close>

datatype f64 = Fin rat | PInf | NInf | NaN

text \<open>The exponent \<open>e\<close> with \<open>2\<^sup>e \<le> x < 2\<^sup>e\<^sup>+\<^sup>1\<close>, for \<open>x > 0\<close>.\<close>

definition ilog2 :: "rat \<Rightarrow> int" where
  "ilog2 x = (case quotient_of x of (p, q) \<Rightarrow>
     let e = bitlen p - bitlen q in if x < 2 powi e then e - 1 else e)"

text \<open>The unit in the last place of a magnitude \<open>x\<close>; subnormal numbers share the least one.\<close>

definition ulp :: "rat \<Rightarrow> rat" where
  "ulp x = 2 powi (max (ilog2 x - 52) (-1074))"

definition round_even :: "rat \<Rightarrow> int" where
  "round_even y = (let f = \<lfloor>y\<rfloor>; d = y - of_int f in
     if d < 1/2 then f else if d > 1/2 then f + 1 else if even f then f else f + 1)"

definition round_mag :: "rat \<Rightarrow> rat" where
  "round_mag a = (if a = 0 then 0 else of_int (round_even (a / ulp a)) * ulp a)"

text \<open>A rounded magnitude of \<open>2\<^sup>1\<^sup>0\<^sup>2\<^sup>4\<close> or more overflows to an infinity.\<close>

definition f64_bound :: rat where
  "f64_bound = 2 ^ 1024"

definition fround :: "rat \<Rightarrow> f64" where
  "fround x = (let r = round_mag \<bar>x\<bar> in
     if r < f64_bound then Fin (sgn x * r) else if x > 0 then PInf else NInf)"

section \<open>Operations\<close>

fun fneg :: "f64 \<Rightarrow> f64" where
  "fneg (Fin a) = Fin (- a)"
| "fneg PInf = NInf"
| "fneg NInf = PInf"
| "fneg NaN = NaN"

fun fadd :: "f64 \<Rightarrow> f64 \<Rightarrow> f64" where
  "fadd (Fin a) (Fin b) = fround (a + b)"
| "fadd NaN b = NaN"
| "fadd a NaN = NaN"
| "fadd PInf NInf = NaN"
| "fadd NInf PInf = NaN"
| "fadd PInf b = PInf"
| "fadd NInf b = NInf"
| "fadd a PInf = PInf"
| "fadd a NInf = NInf"

definition fsub :: "f64 \<Rightarrow> f64 \<Rightarrow> f64" where
  "fsub a b = fadd a (fneg b)"

definition signed_inf :: "rat \<Rightarrow> f64" where
  "signed_inf s = (if s = 0 then NaN else if s > 0 then PInf else NInf)"

fun fsgn :: "f64 \<Rightarrow> rat" where
  "fsgn (Fin a) = sgn a"
| "fsgn PInf = 1"
| "fsgn NInf = -1"
| "fsgn NaN = 0"

fun fmul :: "f64 \<Rightarrow> f64 \<Rightarrow> f64" where
  "fmul (Fin a) (Fin b) = fround (a * b)"
| "fmul NaN b = NaN"
| "fmul a NaN = NaN"
| "fmul a b = signed_inf (fsgn a * fsgn b)"

text \<open>Division; a zero divisor counts as positive zero.\<close>

fun fdiv :: "f64 \<Rightarrow> f64 \<Rightarrow> f64" where
  "fdiv (Fin a) (Fin b) = (if b = 0 then signed_inf (sgn a) else fround (a / b))"
| "fdiv NaN b = NaN"
| "fdiv a NaN = NaN"
| "fdiv (Fin a) b = Fin 0"
| "fdiv a (Fin b) = signed_inf (fsgn a * (if b < 0 then - 1 else 1))"
| "fdiv a b = NaN"

fun fabs :: "f64 \<Rightarrow> f64" where
  "fabs (Fin a) = Fin \<bar>a\<bar>"
| "fabs NaN = NaN"
| "fabs a = PInf"

text \<open>\<open>math.Ceil\<close>: an integer next to a binary64 number is itself one.\<close>

fun fceil :: "f64 \<Rightarrow> f64" where
  "fceil (Fin a) = Fin (of_int \<lceil>a\<rceil>)"
| "fceil a = a"

fun flt :: "f64 \<Rightarrow> f64 \<Rightarrow> bool" where
  "flt (Fin a) (Fin b) = (a < b)"
| "flt NaN b = False"
| "flt a NaN = False"
| "flt PInf b = False"
| "flt a NInf = False"
| "flt a b = True"

definition fle :: "f64 \<Rightarrow> f64 \<Rightarrow> bool" where
  "fle a b \<longleftrightarrow> a \<noteq> NaN \<and> b \<noteq> NaN \<and> \<not> flt b a"

definition feq :: "f64 \<Rightarrow> f64 \<Rightarrow> bool" where
  "feq a b \<longleftrightarrow> a = b \<and> a \<noteq> NaN"

abbreviation fgt :: "f64 \<Rightarrow> f64 \<Rightarrow> bool" where
  "fgt a b \<equiv> flt b a"

abbreviation fge :: "f64 \<Rightarrow> f64 \<Rightarrow> bool" where
  "fge a b \<equiv> fle b a"

definition finite_f :: "f64 \<Rightarrow> bool" where
  "finite_f a \<longleftrightarrow> (case a of Fin _ \<Rightarrow> True | _ \<Rightarrow> False)"

text \<open>\<open>float64(n)\<close> of a Go integer, and \<open>int(f)\<close>, which truncates; an amd64 conversion of a
  value outside the 64-bit range gives the least integer.\<close>

definition of_go_int :: "int \<Rightarrow> f64" where
  "of_go_int n = fround (of_int n)"

fun to_go_int :: "f64 \<Rightarrow> int" where
  "to_go_int (Fin a) =
     (let t = (if a < 0 then \<lceil>a\<rceil> else \<lfloor>a\<rfloor>) in if - (2^63) \<le> t \<and> t < 2^63 then t else - (2^63))"
| "to_go_int _ = - (2^63)"

text \<open>The values a \<open>float64\<close> can hold: rounding does not move them.\<close>

definition is_f64 :: "f64 \<Rightarrow> bool" where
  "is_f64 a \<longleftrightarrow> (case a of Fin r \<Rightarrow> fround r = Fin r | _ \<Rightarrow> True)"

section \<open>Facts about rounding\<close>

lemma quotient_of_pos:
  assumes "0 < x" and "quotient_of x = (p, q)"
  shows "0 < p" "0 < q" "x = of_int p / of_int q"
proof -
  show q: "0 < q" using assms(2) by (rule quotient_of_denom_pos)
  show x: "x = of_int p / of_int q" using assms(2) by (rule quotient_of_div)
  show "0 < p" using assms(1) q unfolding x by (simp add: zero_less_divide_iff)
qed

lemma bitlen_rat_bounds:
  assumes "0 < n"
  shows "(2::rat) powi (bitlen n - 1) \<le> of_int n" "(of_int n :: rat) < 2 powi bitlen n"
proof -
  from assms have b: "0 < bitlen n" by (metis bitlen_eq_zero_iff bitlen_nonneg order_le_less not_less)
  have lo: "2 ^ nat (bitlen n - 1) \<le> n" and hi: "n < 2 ^ nat (bitlen n)"
    using bitlen_bounds [of n] assms by auto
  have "(of_int (2 ^ nat (bitlen n - 1)) :: rat) \<le> of_int n" using lo by (simp only: of_int_le_iff)
  moreover have "(2::rat) powi (bitlen n - 1) = 2 ^ nat (bitlen n - 1)"
    using b by (simp add: power_int_def)
  ultimately show "(2::rat) powi (bitlen n - 1) \<le> of_int n" by simp
  have "(of_int n :: rat) < of_int (2 ^ nat (bitlen n))" using hi by (simp only: of_int_less_iff)
  then show "(of_int n :: rat) < 2 powi bitlen n"
    using b by (simp add: power_int_def)
qed

lemma ilog2_bounds:
  assumes "0 < x"
  shows "2 powi ilog2 x \<le> x" "x < 2 powi (ilog2 x + 1)"
proof -
  obtain p q where pq: "quotient_of x = (p, q)" by fastforce
  note qp = quotient_of_pos [OF assms pq]
  let ?e = "bitlen p - bitlen q"
  have lo: "2 powi (?e - 1) \<le> x"
  proof -
    have "(2::rat) powi (?e - 1) = 2 powi (bitlen p - 1) / 2 powi bitlen q"
      by (simp add: power_int_diff)
    also have "\<dots> \<le> of_int p / of_int q"
      using bitlen_rat_bounds [OF qp(1)] bitlen_rat_bounds [OF qp(2)] qp(1,2)
      by (intro frac_le) auto
    finally show ?thesis using qp(3) by simp
  qed
  have hi: "x < 2 powi (?e + 1)"
  proof -
    have "of_int p / of_int q < (2::rat) powi bitlen p / 2 powi (bitlen q - 1)"
      using bitlen_rat_bounds [OF qp(1)] bitlen_rat_bounds [OF qp(2)] qp(1,2)
      by (intro frac_less) auto
    also have "\<dots> = 2 powi (?e + 1)"
      by (simp add: power_int_diff power_int_add)
    finally show ?thesis using qp(3) by simp
  qed
  show "2 powi ilog2 x \<le> x" "x < 2 powi (ilog2 x + 1)"
    using lo hi by (auto simp: ilog2_def pq Let_def)
qed

lemma powi_mono: "a \<le> b \<Longrightarrow> (2::rat) powi a \<le> 2 powi b"
  by (simp add: power_int_increasing)

lemma powi_less_cancel: "(2::rat) powi a < 2 powi b \<Longrightarrow> a < b"
  by (meson not_less powi_mono)

lemma ilog2_unique:
  assumes "2 powi e \<le> x" and "x < 2 powi (e + 1)"
  shows "ilog2 x = e"
proof -
  have "0 < x" using assms(1) by (meson less_le_trans zero_less_numeral zero_less_power_int)
  note b = ilog2_bounds [OF this]
  have "ilog2 x < e + 1" by (rule powi_less_cancel) (use b assms in linarith)
  moreover have "e < ilog2 x + 1" by (rule powi_less_cancel) (use b assms in linarith)
  ultimately show ?thesis by simp
qed

lemma ilog2_mono: "0 < x \<Longrightarrow> x \<le> y \<Longrightarrow> ilog2 x \<le> ilog2 y"
  using ilog2_bounds [of x] ilog2_bounds [of y] powi_less_cancel [of "ilog2 x" "ilog2 y + 1"]
  by fastforce

lemma ulp_pos [simp]: "0 < ulp x"
  by (simp add: ulp_def)

lemma round_even_int [simp]: "round_even (of_int n) = n"
  by (simp add: round_even_def)

lemma round_even_mono: "x \<le> y \<Longrightarrow> round_even x \<le> round_even y"
proof -
  assume xy: "x \<le> y"
  then have f: "\<lfloor>x\<rfloor> \<le> \<lfloor>y\<rfloor>" by (rule floor_mono)
  have b: "round_even x \<le> \<lfloor>x\<rfloor> + 1" "\<lfloor>y\<rfloor> \<le> round_even y" by (auto simp: round_even_def Let_def)
  show ?thesis
  proof (cases "\<lfloor>x\<rfloor> = \<lfloor>y\<rfloor>")
    case True
    with xy show ?thesis by (auto simp: round_even_def Let_def)
  next
    case False
    with f b show ?thesis by linarith
  qed
qed

lemma round_even_le_int: "y \<le> of_int n \<Longrightarrow> round_even y \<le> n"
  using round_even_mono [of y "of_int n"] by simp

lemma round_even_ge_int: "of_int n \<le> y \<Longrightarrow> n \<le> round_even y"
  using round_even_mono [of "of_int n" y] by simp

lemma powi_nat: "0 \<le> k \<Longrightarrow> (2::rat) powi k = of_int (2 ^ nat k)"
  by (simp add: power_int_def)

text \<open>A power of two at or above the unit bounds the rounded magnitude as it bounds the exact one.\<close>

lemma round_mag_le_pow:
  assumes "0 < x" and "x \<le> 2 powi k" and "max (ilog2 x - 52) (-1074) \<le> k"
  shows "round_mag x \<le> 2 powi k"
proof -
  let ?m = "max (ilog2 x - 52) (-1074)"
  have d: "(2::rat) powi k / ulp x = of_int (2 ^ nat (k - ?m))"
    using assms(3) by (simp add: ulp_def power_int_diff [symmetric] powi_nat)
  have "x / ulp x \<le> of_int (2 ^ nat (k - ?m))"
    using assms(2) unfolding d [symmetric] by (intro divide_right_mono) (auto simp: less_imp_le)
  then have "round_even (x / ulp x) \<le> 2 ^ nat (k - ?m)" by (rule round_even_le_int)
  then have "of_int (round_even (x / ulp x)) \<le> (2::rat) powi k / ulp x"
    unfolding d by (simp only: of_int_le_iff)
  then have "of_int (round_even (x / ulp x)) * ulp x \<le> 2 powi k"
    by (simp add: field_simps)
  with assms(1) show ?thesis by (simp add: round_mag_def)
qed

lemma round_mag_ge_pow:
  assumes "0 < x" and "2 powi k \<le> x" and "max (ilog2 x - 52) (-1074) \<le> k"
  shows "2 powi k \<le> round_mag x"
proof -
  let ?m = "max (ilog2 x - 52) (-1074)"
  have d: "(2::rat) powi k / ulp x = of_int (2 ^ nat (k - ?m))"
    using assms(3) by (simp add: ulp_def power_int_diff [symmetric] powi_nat)
  have "of_int (2 ^ nat (k - ?m)) \<le> x / ulp x"
    using assms(2) unfolding d [symmetric] by (intro divide_right_mono) (auto simp: less_imp_le)
  then have "2 ^ nat (k - ?m) \<le> round_even (x / ulp x)" by (rule round_even_ge_int)
  then have "(2::rat) powi k / ulp x \<le> of_int (round_even (x / ulp x))"
    unfolding d by (simp only: of_int_le_iff)
  then have "2 powi k \<le> of_int (round_even (x / ulp x)) * ulp x"
    by (simp add: field_simps)
  with assms(1) show ?thesis by (simp add: round_mag_def)
qed

lemma round_mag_nonneg [simp]: "0 \<le> x \<Longrightarrow> 0 \<le> round_mag x"
proof -
  assume "0 \<le> x"
  then have "0 \<le> round_even (x / ulp x)"
    by (intro round_even_ge_int) (simp add: less_imp_le)
  then show ?thesis by (simp add: round_mag_def less_imp_le)
qed

lemma round_mag_mono:
  assumes "0 \<le> x" and "x \<le> y"
  shows "round_mag x \<le> round_mag y"
proof (cases "x = 0")
  case True
  with assms show ?thesis by (simp add: round_mag_def [of 0])
next
  case False
  with assms have x: "0 < x" and y: "0 < y" by auto
  have e: "ilog2 x \<le> ilog2 y" using x assms(2) by (rule ilog2_mono)
  show ?thesis
  proof (cases "ulp x = ulp y")
    case True
    have "x / ulp x \<le> y / ulp y"
      unfolding True using assms(2) by (intro divide_right_mono) (auto simp: less_imp_le)
    then have "round_even (x / ulp x) \<le> round_even (y / ulp y)" by (rule round_even_mono)
    with x y show ?thesis unfolding True by (simp add: round_mag_def True less_imp_le mult_right_mono)
  next
    case False
    then have "ilog2 x \<noteq> ilog2 y" by (auto simp: ulp_def)
    with e have lt: "ilog2 x < ilog2 y" by simp
    have m: "-1074 \<le> ilog2 y - 52"
      using False lt by (auto simp: ulp_def max_def split: if_splits)
    have "x \<le> 2 powi ilog2 y"
      using ilog2_bounds(2) [OF x] lt powi_mono [of "ilog2 x + 1" "ilog2 y"] by linarith
    then have "round_mag x \<le> 2 powi ilog2 y"
      using x lt m by (intro round_mag_le_pow) auto
    also have "\<dots> \<le> round_mag y"
      using y ilog2_bounds(1) [OF y] m by (intro round_mag_ge_pow) auto
    finally show ?thesis .
  qed
qed

text \<open>A multiple of a unit no smaller than its own unit is not moved.\<close>

lemma round_mag_multiple:
  assumes "0 < x" and "x = of_int n * 2 powi k" and "max (ilog2 x - 52) (-1074) \<le> k"
  shows "round_mag x = x"
proof -
  let ?m = "max (ilog2 x - 52) (-1074)"
  have "x / ulp x = of_int n * (2 powi k / ulp x)" by (subst assms(2)) simp
  also have "2 powi k / ulp x = of_int (2 ^ nat (k - ?m))"
    using assms(3) by (simp add: ulp_def power_int_diff [symmetric] powi_nat)
  finally have q: "x / ulp x = of_int (n * 2 ^ nat (k - ?m))" by simp
  have "of_int (round_even (x / ulp x)) = x / ulp x" unfolding q by (simp only: round_even_int)
  moreover have "ulp x \<noteq> 0" using ulp_pos [of x] by linarith
  ultimately show ?thesis using assms(1) by (simp add: round_mag_def)
qed

lemma round_mag_idem:
  assumes "0 \<le> x"
  shows "round_mag (round_mag x) = round_mag x"
proof (cases "round_mag x = 0")
  case True
  then show ?thesis by (simp add: round_mag_def)
next
  case False
  have "x \<noteq> 0" using False by (auto simp: round_mag_def)
  with assms have x: "0 < x" by simp
  from False have r: "0 < round_mag x" using round_mag_nonneg [OF assms] by linarith
  let ?m = "max (ilog2 x - 52) (-1074)"
  let ?k = "max (ilog2 x + 1) (-1074)"
  have eq: "round_mag x = of_int (round_even (x / ulp x)) * 2 powi ?m"
    using x by (simp add: round_mag_def ulp_def)
  have le: "round_mag x \<le> 2 powi ?k"
    using x ilog2_bounds(2) [OF x] powi_mono [of "ilog2 x + 1" ?k] by (intro round_mag_le_pow) auto
  show ?thesis
  proof (cases "round_mag x = 2 powi ?k")
    case True
    have "ilog2 (round_mag x) = ?k" unfolding True
      by (rule ilog2_unique) (auto simp: power_int_add)
    with r True show ?thesis by (intro round_mag_multiple [where n = 1 and k = ?k]) auto
  next
    case False
    with le have "round_mag x < 2 powi ?k" by simp
    with ilog2_bounds(1) [OF r] have "ilog2 (round_mag x) < ?k"
      by (intro powi_less_cancel) linarith
    with r eq show ?thesis by (intro round_mag_multiple [where k = ?m]) auto
  qed
qed

lemma round_mag_int:
  assumes "0 \<le> n" and "n \<le> 2 ^ 53"
  shows "round_mag (of_int n) = of_int n"
proof (cases "n = 0")
  case False
  with assms have n: "(0::rat) < of_int n" by simp
  show ?thesis
  proof (cases "n = 2 ^ 53")
    case True
    have "ilog2 (of_int n) = 53" unfolding True by (rule ilog2_unique) (simp_all add: power_int_def)
    with n True show ?thesis
      by (intro round_mag_multiple [where n = 1 and k = 53]) (simp_all add: power_int_def)
  next
    case False
    with assms(2) have "n < 2 ^ 53" by simp
    then have "(of_int n :: rat) < of_int (2 ^ 53)" by (simp only: of_int_less_iff)
    then have "(of_int n :: rat) < 2 powi 53" by (simp add: power_int_def)
    with ilog2_bounds(1) [OF n] have "ilog2 (of_int n) < 53" by (intro powi_less_cancel) linarith
    with n show ?thesis by (intro round_mag_multiple [where n = n and k = 0]) auto
  qed
qed (simp add: round_mag_def)

section \<open>Facts about \<^const>\<open>fround\<close>\<close>

lemma round_mag_0 [simp]: "round_mag 0 = 0"
  by (simp add: round_mag_def)

lemma f64_bound_pos [simp]: "0 < f64_bound"
  by (simp add: f64_bound_def)

lemma fround_0 [simp, float_simps]: "fround 0 = Fin 0"
  by (simp add: fround_def)

lemma fround_not_NaN [simp]: "fround x \<noteq> NaN"
  by (simp add: fround_def Let_def)

lemma fround_of_int [float_simps]:
  assumes "\<bar>n\<bar> \<le> 2 ^ 53"
  shows "fround (of_int n) = Fin (of_int n)"
proof -
  have "round_mag \<bar>of_int n\<bar> = \<bar>of_int n\<bar>"
    using round_mag_int [of "\<bar>n\<bar>"] assms by simp
  moreover have "(\<bar>of_int n\<bar> :: rat) < f64_bound"
  proof -
    have "(of_int \<bar>n\<bar> :: rat) \<le> of_int (2 ^ 53)" using assms by (simp only: of_int_le_iff)
    also have "(of_int (2 ^ 53) :: rat) < f64_bound" by (simp add: f64_bound_def)
    finally show ?thesis by simp
  qed
  ultimately show ?thesis by (simp add: fround_def abs_sgn mult.commute sgn_mult_abs)
qed

lemma fround_numeral [simp, float_simps]:
  "(numeral k :: int) \<le> 2 ^ 53 \<Longrightarrow> fround (numeral k) = Fin (numeral k)"
  "(numeral k :: int) \<le> 2 ^ 53 \<Longrightarrow> fround (- numeral k) = Fin (- numeral k)"
  using fround_of_int [of "numeral k"] fround_of_int [of "- numeral k"] by simp_all

lemma fround_1 [simp, float_simps]: "fround 1 = Fin 1" "fround (- 1) = Fin (- 1)"
  using fround_of_int [of 1] fround_of_int [of "-1"] by simp_all

lemma fround_nonneg:
  "0 \<le> x \<Longrightarrow> fround x = (if round_mag x < f64_bound then Fin (round_mag x) else PInf)"
  by (cases "x = 0") (auto simp: fround_def Let_def sgn_if)

lemma fround_neg: "fround (- x) = fneg (fround x)"
  by (cases "x = 0") (auto simp: fround_def Let_def sgn_if)

lemma fneg_fneg [simp]: "fneg (fneg a) = a"
  by (cases a) auto

lemma fle_fneg [simp]: "fle (fneg a) (fneg b) \<longleftrightarrow> fle b a"
  by (cases a; cases b) (auto simp: fle_def)

lemma fround_mono_nonneg: "0 \<le> x \<Longrightarrow> x \<le> y \<Longrightarrow> fle (fround x) (fround y)"
  using round_mag_mono [of x y] by (auto simp: fround_nonneg fle_def)

lemma fle_refl: "a \<noteq> NaN \<Longrightarrow> fle a a"
  by (cases a) (auto simp: fle_def)

lemma fle_trans: "fle a b \<Longrightarrow> fle b c \<Longrightarrow> fle a c"
  by (cases a; cases b; cases c) (auto simp: fle_def)

lemma fle_Fin [simp, float_simps]: "fle (Fin a) (Fin b) \<longleftrightarrow> a \<le> b"
  by (auto simp: fle_def)

lemma fround_mono:
  assumes "x \<le> y"
  shows "fle (fround x) (fround y)"
proof -
  consider "0 \<le> x" | "x < 0" "0 \<le> y" | "y < 0" by linarith
  then show ?thesis
  proof cases
    case 1
    then show ?thesis using assms by (rule fround_mono_nonneg)
  next
    case 2
    have "fle (fneg (fround 0)) (fneg (fround x))"
      unfolding fround_neg [symmetric] using 2 by (intro fround_mono_nonneg) auto
    then have "fle (fround x) (fround 0)" by (simp only: fle_fneg)
    moreover have "fle (fround 0) (fround y)" using 2 by (intro fround_mono_nonneg) auto
    ultimately show ?thesis by (rule fle_trans)
  next
    case 3
    have "fle (fneg (fround y)) (fneg (fround x))"
      unfolding fround_neg [symmetric] using 3 assms by (intro fround_mono_nonneg) auto
    then show ?thesis by simp
  qed
qed

lemma is_f64_fneg [simp]: "is_f64 (fneg a) \<longleftrightarrow> is_f64 a"
proof (cases a)
  case (Fin r)
  then show ?thesis by (cases "fround r") (auto simp: is_f64_def fround_neg)
qed (auto simp: is_f64_def)

lemma is_f64_fround_nonneg: "0 \<le> x \<Longrightarrow> is_f64 (fround x)"
  by (auto simp: is_f64_def fround_nonneg [of x] fround_nonneg [of "round_mag x"] round_mag_idem)

lemma is_f64_fround [simp]: "is_f64 (fround x)"
proof (cases "0 \<le> x")
  case False
  then have "is_f64 (fneg (fround x))"
    unfolding fround_neg [symmetric] by (intro is_f64_fround_nonneg) simp
  then show ?thesis by simp
qed (rule is_f64_fround_nonneg)

lemma is_f64_inf [simp]: "is_f64 PInf" "is_f64 NInf" "is_f64 NaN" "is_f64 (Fin 0)"
  by (simp_all add: is_f64_def)

lemma is_f64_fadd [simp]: "is_f64 (fadd a b)"
  by (cases "(a, b)" rule: fadd.cases) simp_all

lemma is_f64_fsub [simp]: "is_f64 (fsub a b)"
  by (simp add: fsub_def)

text \<open>Adding a non-negative amount never lowers a value, adding a non-positive one never raises it.\<close>

lemma fadd_ge:
  assumes "is_f64 a" and "a \<noteq> NaN" and "0 \<le> d"
  shows "fle a (fadd a (Fin d))"
proof (cases a)
  case (Fin r)
  with assms(1) have "fround r = Fin r" by (simp add: is_f64_def)
  with fround_mono [of r "r + d"] assms(3) Fin show ?thesis by simp
qed (use assms in \<open>auto simp: fle_def\<close>)

lemma fadd_mono: "a \<le> b \<Longrightarrow> fle (fadd (Fin a) (Fin d)) (fadd (Fin b) (Fin d))"
  by (simp add: fround_mono)

lemma fabs_nonneg: "fabs (Fin a) = Fin \<bar>a\<bar>" "0 \<le> a \<Longrightarrow> fabs (Fin a) = Fin a"
  by simp_all

text \<open>Small integers are exact: sums and differences of counts do not round.\<close>

lemma fadd_int [float_simps]:
  "\<bar>m + n\<bar> \<le> 2 ^ 53 \<Longrightarrow> fadd (Fin (of_int m)) (Fin (of_int n)) = Fin (of_int (m + n))"
  using fround_of_int [of "m + n"] by simp

lemma fsub_int [float_simps]:
  "\<bar>m - n\<bar> \<le> 2 ^ 53 \<Longrightarrow> fsub (Fin (of_int m)) (Fin (of_int n)) = Fin (of_int (m - n))"
  using fround_of_int [of "m - n"] by (simp add: fsub_def)

lemma of_go_int_small [float_simps]: "\<bar>n\<bar> \<le> 2 ^ 53 \<Longrightarrow> of_go_int n = Fin (of_int n)"
  by (simp add: of_go_int_def fround_of_int)

instance f64 :: countable
  by countable_datatype

end
