(* ===== verification/Config.thy ===== *)
theory Config
  imports GoFloat "HOL-Library.List_Lexorder" "HOL-Library.Char_ord"
begin

text \<open>
  Package \<open>config\<close>: the schema of \<open>quota-config.json\<close> after decoding, its validators, the
  warnings of shapes that load but fail open, the resolution of declared dependencies and
  the interpolation of environment references. A string-typed Go enumeration is a datatype
  with one constructor per declared constant and an \<open>Other\<close> constructor for every other
  string a document can hold. Money amounts (\<open>decimal.Decimal\<close>) are exact rationals. JSON
  objects keyed by name are association lists with distinct keys.
\<close>

section \<open>Resources\<close>

datatype counter_type = CounterGauge | CounterRate | CounterAccumulator | CounterOther string

datatype reset_period = ResetHourly | ResetDaily | ResetWeekly | ResetMonthly | ResetOther string

record resource_def =
  rd_Service :: string
  rd_ResourceKey :: string
  rd_DisplayName :: string
  rd_CounterType :: counter_type
  rd_Unit :: string
  rd_WindowSeconds :: int
  rd_ResetPeriod :: reset_period
  rd_Precision :: int

definition validate_resource :: "resource_def \<Rightarrow> goerr + resource_def" where
  "validate_resource r =
     (if rd_ResourceKey r = [] then Inl (ErrConfig ''resource_key required'' []) else
      let r = (if rd_DisplayName r = [] then r\<lparr>rd_DisplayName := rd_ResourceKey r\<rparr> else r) in
      case rd_CounterType r of
        CounterOther t \<Rightarrow>
          if t = [] then Inl (ErrConfig ''counter_type required'' (rd_ResourceKey r))
          else Inl (ErrConfig ''unknown counter_type'' (rd_ResourceKey r))
      | CounterRate \<Rightarrow>
          if rd_WindowSeconds r \<le> 0 then Inl (ErrConfig ''window_seconds required'' (rd_ResourceKey r))
          else Inr r
      | CounterAccumulator \<Rightarrow>
          if rd_ResetPeriod r = ResetOther [] then Inl (ErrConfig ''reset_period required'' (rd_ResourceKey r))
          else Inr r
      | CounterGauge \<Rightarrow> Inr r)"

section \<open>Tiers\<close>

datatype credit_trigger = TriggerSignup | TriggerSubscriptionInvoicePaid
  | TriggerScheduledPeriodStart | TriggerManual | TriggerWebhookAdmin | TriggerOther string

datatype credit_lifecycle = LifecyclePersistent | LifecycleUseItOrLoseIt
  | LifecycleRolloverCapped | LifecycleOther string

datatype credit_destination = DestCreditBalance | DestSubscriptionCredit | DestOther string

datatype dedup_policy = DedupPerUserPerTier | DedupPerOrgPerTier
  | DedupPerUserGlobal | DedupPerOrgGlobal | DedupOther string

datatype billing_model = ConsumptionOnly | SubscriptionUnlockOnly | SubscriptionWithCredits
  | MeteredBilling | OneTimePurchase | FreeTier | Enterprise | BillingOther string

definition is_experimental :: "billing_model \<Rightarrow> bool" where
  "is_experimental m = (case m of MeteredBilling \<Rightarrow> True | OneTimePurchase \<Rightarrow> True | _ \<Rightarrow> False)"

record price =
  pr_AmountPerPeriod :: rat
  pr_Currency :: string
  pr_Period :: string

record credit_grant =
  cg_Trigger :: credit_trigger
  cg_AmountPerPeriod :: rat
  cg_Currency :: string
  cg_Lifecycle :: credit_lifecycle
  cg_RolloverMaxPeriods :: "int option"
  cg_Destination :: credit_destination
  cg_ResetOnDowngrade :: bool
  cg_ResetOnUpgrade :: bool
  cg_Dedup :: dedup_policy

definition validate_credit_grant :: "credit_grant \<Rightarrow> goerr option" where
  "validate_credit_grant c =
     (if cg_Lifecycle c = LifecycleRolloverCapped \<and> cg_RolloverMaxPeriods c = None
        then Some (ErrConfig ''rollover_max_periods required'' [])
      else if cg_Lifecycle c \<noteq> LifecycleRolloverCapped \<and> cg_RolloverMaxPeriods c \<noteq> None
        then Some (ErrConfig ''rollover_max_periods only valid with rollover_capped'' [])
      else if cg_AmountPerPeriod c \<le> 0
        then Some (ErrConfig ''amount_per_period must be > 0'' [])
      else None)"

definition apply_defaults :: "credit_grant \<Rightarrow> credit_grant" where
  "apply_defaults c =
     (let c = (if cg_Currency c = [] then c\<lparr>cg_Currency := ''USD''\<rparr> else c);
          c = (if cg_Lifecycle c = LifecycleOther [] then c\<lparr>cg_Lifecycle := LifecycleUseItOrLoseIt\<rparr> else c);
          c = (if cg_Destination c = DestOther [] then c\<lparr>cg_Destination := DestSubscriptionCredit\<rparr> else c)
      in if cg_Dedup c = DedupOther [] then c\<lparr>cg_Dedup := DedupPerUserPerTier\<rparr> else c)"

record tier_limit =
  tl_Limit :: "f64 option"
  tl_WarningThreshold :: f64
  tl_CriticalThreshold :: f64
  tl_BurstAllowance :: f64
  tl_PerUserLimit :: "f64 option"

definition is_unlimited :: "tier_limit \<Rightarrow> bool" where
  "is_unlimited t \<longleftrightarrow> tl_Limit t = None"

text \<open>
  The three JSON shapes of a limit: \<open>null\<close>, a number, or an object in which a missing (or
  null) member leaves the default in place.
\<close>

datatype limit_json =
    LNull
  | LNumber f64
  | LObject "f64 option" "f64 option" "f64 option" "f64 option" "f64 option"

definition default_warning :: f64 where "default_warning = fround (80 / 100)"
definition default_critical :: f64 where "default_critical = fround (95 / 100)"

definition unmarshal_tier_limit :: "limit_json \<Rightarrow> tier_limit" where
  "unmarshal_tier_limit j =
     (let d = \<lparr>tl_Limit = None, tl_WarningThreshold = default_warning,
               tl_CriticalThreshold = default_critical, tl_BurstAllowance = Fin 0,
               tl_PerUserLimit = None\<rparr>
      in case j of
           LNull \<Rightarrow> d
         | LNumber f \<Rightarrow> d\<lparr>tl_Limit := Some f\<rparr>
         | LObject l w c b p \<Rightarrow>
             d\<lparr>tl_Limit := l,
               tl_WarningThreshold := (case w of None \<Rightarrow> tl_WarningThreshold d | Some x \<Rightarrow> x),
               tl_CriticalThreshold := (case c of None \<Rightarrow> tl_CriticalThreshold d | Some x \<Rightarrow> x),
               tl_BurstAllowance := (case b of None \<Rightarrow> tl_BurstAllowance d | Some x \<Rightarrow> x),
               tl_PerUserLimit := p\<rparr>)"

definition derive_per_user_limit :: "tier_limit \<Rightarrow> f64 \<Rightarrow> f64 option" where
  "derive_per_user_limit t fraction =
     (case tl_PerUserLimit t of
        Some p \<Rightarrow> Some p
      | None \<Rightarrow>
          (case tl_Limit t of
             None \<Rightarrow> None
           | Some l \<Rightarrow>
               if fle fraction (Fin 0) then None
               else let v = fceil (fmul l fraction) in
                    Some (if flt v (Fin 1) then Fin 1 else v)))"

record tier =
  t_TierID :: string
  t_DisplayName :: string
  t_Description :: string
  t_SortOrder :: int
  t_Features :: "string list"
  t_Limits :: "(string \<times> tier_limit) list"
  t_UpgradeURL :: string
  t_InitialCredit :: "rat option"
  t_CreditGrant :: "credit_grant option"
  t_DefaultPerUserFraction :: f64
  t_BillingModel :: billing_model
  t_Price :: "price option"

definition validate_billing_model :: "tier \<Rightarrow> goerr option" where
  "validate_billing_model t =
     (case t_BillingModel t of
        SubscriptionWithCredits \<Rightarrow>
          if t_Price t = None then Some (ErrConfig ''billing_model requires price'' (t_TierID t))
          else (case t_CreditGrant t of
                  None \<Rightarrow> Some (ErrConfig ''billing_model requires credit_grant'' (t_TierID t))
                | Some g \<Rightarrow>
                    if cg_Trigger g \<noteq> TriggerSubscriptionInvoicePaid
                    then Some (ErrConfig ''billing_model requires credit_grant'' (t_TierID t))
                    else None)
      | SubscriptionUnlockOnly \<Rightarrow>
          if t_CreditGrant t \<noteq> None then Some (ErrConfig ''billing_model forbids credit_grant'' (t_TierID t))
          else None
      | ConsumptionOnly \<Rightarrow>
          if t_Price t \<noteq> None then Some (ErrConfig ''billing_model forbids price'' (t_TierID t))
          else None
      | _ \<Rightarrow> None)"

text \<open>The legacy \<open>initial_credit\<close> becomes a signup grant, after the cross-field rules ran.\<close>

definition synthesize_grant :: "tier \<Rightarrow> tier" where
  "synthesize_grant t =
     (case (t_InitialCredit t, t_CreditGrant t) of
        (Some amount, None) \<Rightarrow>
          t\<lparr>t_CreditGrant := Some \<lparr>cg_Trigger = TriggerSignup, cg_AmountPerPeriod = amount,
             cg_Currency = [], cg_Lifecycle = LifecyclePersistent, cg_RolloverMaxPeriods = None,
             cg_Destination = DestCreditBalance, cg_ResetOnDowngrade = False,
             cg_ResetOnUpgrade = False, cg_Dedup = DedupPerUserPerTier\<rparr>\<rparr>
      | _ \<Rightarrow> t)"

definition validate_tier :: "bool \<Rightarrow> tier \<Rightarrow> goerr + tier" where
  "validate_tier experimentalAllowed t =
     (if t_TierID t = [] then Inl (ErrConfig ''tier_id required'' []) else
      let t = (if t_DisplayName t = [] then t\<lparr>t_DisplayName := t_TierID t\<rparr> else t) in
      if t_BillingModel t \<noteq> BillingOther [] \<and> is_experimental (t_BillingModel t) \<and> \<not> experimentalAllowed
      then Inl (ErrConfig ''billing_model is experimental'' (t_TierID t))
      else case validate_billing_model t of
        Some e \<Rightarrow> Inl e
      | None \<Rightarrow>
          let t = synthesize_grant t in
          (case t_CreditGrant t of
             None \<Rightarrow> Inr t
           | Some g \<Rightarrow>
               let g = apply_defaults g in
               (case validate_credit_grant g of
                  Some e \<Rightarrow> Inl (ErrWrap (t_TierID t) e)
                | None \<Rightarrow> Inr (t\<lparr>t_CreditGrant := Some g\<rparr>))))"

section \<open>Declared values and dependency resolution\<close>

text \<open>\<open>Declared[T]\<close>: the zero value is the absent key; an explicit null is told apart.\<close>

record 'a declared =
  d_set :: bool
  d_null :: bool
  d_val :: 'a

definition d_declare :: "'a \<Rightarrow> 'a declared" where
  "d_declare v = \<lparr>d_set = True, d_null = False, d_val = v\<rparr>"

definition d_is_absent :: "'a declared \<Rightarrow> bool" where
  "d_is_absent d \<longleftrightarrow> \<not> d_set d"

definition d_is_null :: "'a declared \<Rightarrow> bool" where
  "d_is_null d \<longleftrightarrow> d_set d \<and> d_null d"

definition d_get :: "'a declared \<Rightarrow> 'a option" where
  "d_get d = (if d_set d \<and> \<not> d_null d then Some (d_val d) else None)"

datatype requirement = Required | Optional

record spec =
  sp_ConfigKey :: string
  sp_Env :: "string list"
  sp_Requirement :: requirement
  sp_Code :: string

datatype source = SrcConfig string | SrcEnv string | SrcOffNull | SrcUnset

record resolved =
  rs_Value :: string
  rs_Source :: source

text \<open>\<open>strings.TrimSpace\<close> on the ASCII white space.\<close>

definition is_space :: "char \<Rightarrow> bool" where
  "is_space c \<longleftrightarrow> c \<in> {CHR '' '', CHR 0x09, CHR 0x0A, CHR 0x0B, CHR 0x0C, CHR 0x0D}"

definition trim_space :: "string \<Rightarrow> string" where
  "trim_space s = rev (dropWhile is_space (rev (dropWhile is_space s)))"

fun first_env :: "(string \<Rightarrow> string) \<Rightarrow> string list \<Rightarrow> (string \<times> string) option" where
  "first_env getenv [] = None"
| "first_env getenv (n # ns) =
     (let v = trim_space (getenv n) in if v \<noteq> [] then Some (n, v) else first_env getenv ns)"

definition resolve_string :: "(string \<Rightarrow> string) \<Rightarrow> string declared \<Rightarrow> spec \<Rightarrow> goerr + resolved" where
  "resolve_string getenv d spec =
     (case d_get d of
        Some (c # v) \<Rightarrow> Inr \<lparr>rs_Value = c # v, rs_Source = SrcConfig (sp_ConfigKey spec)\<rparr>
      | _ \<Rightarrow>
          (case first_env getenv (sp_Env spec) of
             Some (n, v) \<Rightarrow> Inr \<lparr>rs_Value = v, rs_Source = SrcEnv n\<rparr>
           | None \<Rightarrow>
               if sp_Requirement spec = Optional
               then (if d_is_null d then Inr \<lparr>rs_Value = [], rs_Source = SrcOffNull\<rparr>
                     else Inr \<lparr>rs_Value = [], rs_Source = SrcUnset\<rparr>)
               else Inl (ErrUndeclared (sp_Code spec)
                      (if d_is_null d then ''declared null''
                       else if \<not> d_is_absent d then ''declared empty'' else ''key absent''))))"

section \<open>The whole configuration\<close>

record storage_config =
  st_RedisURL :: "string declared"
  st_RedisKeyPrefix :: string
  st_KeyspaceVersion :: int
  st_KeyspaceDualWrite :: bool

record enforcement_config =
  ef_Enabled :: bool
  ef_ShadowMode :: bool
  ef_GlobalKillSwitch :: bool
  ef_LegacyIncrement :: string
  ef_UnknownBundle :: string

definition legacy_increment_mode :: "enforcement_config \<Rightarrow> string" where
  "legacy_increment_mode e = (if ef_LegacyIncrement e = ''enforce'' then ''enforce'' else ''count_and_alert'')"

definition unknown_bundle_allow_warn :: "enforcement_config \<Rightarrow> bool" where
  "unknown_bundle_allow_warn e \<longleftrightarrow> ef_UnknownBundle e = ''allow_warn''"

record config =
  c_ServiceName :: string
  c_EngineMode :: string
  c_Tiers :: "tier list"
  c_Resources :: "resource_def list"
  c_ResourceBundles :: "(string \<times> string list) list"
  c_Storage :: storage_config
  c_Enforcement :: enforcement_config

definition tier_by_id :: "config \<Rightarrow> string \<Rightarrow> tier option" where
  "tier_by_id c i = find (\<lambda>t. t_TierID t = i) (c_Tiers c)"

definition env_bool :: "string \<Rightarrow> bool \<Rightarrow> bool" where
  "env_bool v d =
     (if v \<in> {''1'', ''true'', ''True'', ''TRUE'', ''yes'', ''YES''} then True
      else if v \<in> {''0'', ''false'', ''False'', ''FALSE'', ''no'', ''NO''} then False else d)"

fun validate_tiers :: "bool \<Rightarrow> string list \<Rightarrow> tier list \<Rightarrow> goerr + tier list" where
  "validate_tiers ex seen [] = Inr []"
| "validate_tiers ex seen (t # ts) =
     (case validate_tier ex t of
        Inl e \<Rightarrow> Inl e
      | Inr t' \<Rightarrow>
          if t_TierID t' \<in> set seen then Inl (ErrConfig ''duplicate tier_id'' (t_TierID t'))
          else (case validate_tiers ex (t_TierID t' # seen) ts of
                  Inl e \<Rightarrow> Inl e
                | Inr ts' \<Rightarrow> Inr (t' # ts')))"

fun validate_resources :: "string list \<Rightarrow> resource_def list \<Rightarrow> goerr + resource_def list" where
  "validate_resources seen [] = Inr []"
| "validate_resources seen (r # rs) =
     (case validate_resource r of
        Inl e \<Rightarrow> Inl e
      | Inr r' \<Rightarrow>
          if rd_ResourceKey r' \<in> set seen
          then Inl (ErrConfig ''duplicate resource_key'' (rd_ResourceKey r'))
          else (case validate_resources (rd_ResourceKey r' # seen) rs of
                  Inl e \<Rightarrow> Inl e
                | Inr rs' \<Rightarrow> Inr (r' # rs')))"

fun validate_bundles :: "string list \<Rightarrow> (string \<times> string list) list \<Rightarrow> goerr option" where
  "validate_bundles seen [] = None"
| "validate_bundles seen ((b, ks) # bs) =
     (case find (\<lambda>k. k \<notin> set seen) ks of
        Some k \<Rightarrow> Some (ErrConfig ''resource_bundle references unknown resource_key'' k)
      | None \<Rightarrow> validate_bundles seen bs)"

text \<open>\<open>Config.Validate\<close>; the flag is the value of the experimental-models variable.\<close>

definition validate_config :: "bool \<Rightarrow> config \<Rightarrow> goerr + config" where
  "validate_config experimental c =
     (let c = (if c_EngineMode c \<notin> {'''', ''local'', ''byo_redis'', ''bridge''}
               then c\<lparr>c_EngineMode := ''local''\<rparr> else c);
          v = st_KeyspaceVersion (c_Storage c)
      in
      if c_EngineMode c = ''bridge'' then Inl (ErrConfig ''engine_mode is out of scope'' (c_EngineMode c))
      else if v \<noteq> 0 \<and> v \<noteq> 1 \<and> v \<noteq> 2 then Inl (ErrKeyspaceVersion v)
      else if (v = 2 \<or> st_KeyspaceDualWrite (c_Storage c)) \<and> c_ServiceName c = [] then Inl ErrKeyspaceService
      else if c_Tiers c = [] then Inl (ErrConfig ''tiers[] is required'' [])
      else case validate_tiers experimental [] (c_Tiers c) of
        Inl e \<Rightarrow> Inl e
      | Inr ts \<Rightarrow>
          (case validate_resources [] (c_Resources c) of
             Inl e \<Rightarrow> Inl e
           | Inr rs \<Rightarrow>
               (case validate_bundles (map rd_ResourceKey rs) (c_ResourceBundles c) of
                  Some e \<Rightarrow> Inl e
                | None \<Rightarrow> Inr (c\<lparr>c_Tiers := ts, c_Resources := rs\<rparr>))))"

section \<open>Warnings\<close>

datatype config_warning =
    WEnforcementDisabled
  | WResetPeriod string
  | WLimitUnknownResource string string
  | WBillingModel string
  | WTriggerMissing string
  | WTriggerUnknown string
  | WDedup string
  | WLifecycle string
  | WDestination string

definition grant_warnings :: "string \<Rightarrow> credit_grant \<Rightarrow> config_warning list" where
  "grant_warnings tid g =
     (case cg_Trigger g of
        TriggerOther s \<Rightarrow> if s = [] then [WTriggerMissing tid] else [WTriggerUnknown tid]
      | _ \<Rightarrow> [])
     @ (case cg_Dedup g of DedupOther _ \<Rightarrow> [WDedup tid] | _ \<Rightarrow> [])
     @ (case cg_Lifecycle g of LifecycleOther _ \<Rightarrow> [WLifecycle tid] | _ \<Rightarrow> [])
     @ (case cg_Destination g of DestOther _ \<Rightarrow> [WDestination tid] | _ \<Rightarrow> [])"

definition tier_warnings :: "string list \<Rightarrow> tier \<Rightarrow> config_warning list" where
  "tier_warnings resources t =
     map (WLimitUnknownResource (t_TierID t))
         (filter (\<lambda>k. k \<notin> set resources) (sort (map fst (t_Limits t))))
     @ (case t_BillingModel t of
          BillingOther s \<Rightarrow> if s = [] then [] else [WBillingModel (t_TierID t)]
        | _ \<Rightarrow> [])
     @ (case t_CreditGrant t of None \<Rightarrow> [] | Some g \<Rightarrow> grant_warnings (t_TierID t) g)"

definition resource_warnings :: "resource_def \<Rightarrow> config_warning list" where
  "resource_warnings r =
     (if rd_CounterType r = CounterAccumulator
      then (case rd_ResetPeriod r of ResetOther _ \<Rightarrow> [WResetPeriod (rd_ResourceKey r)] | _ \<Rightarrow> [])
      else [])"

definition config_warnings :: "config \<Rightarrow> config_warning list" where
  "config_warnings c =
     (if ef_Enabled (c_Enforcement c) then [] else [WEnforcementDisabled])
     @ concat (map resource_warnings (c_Resources c))
     @ concat (map (tier_warnings (map rd_ResourceKey (c_Resources c))) (c_Tiers c))"

section \<open>Loading: environment references and top-level keys\<close>

definition is_ident_start :: "char \<Rightarrow> bool" where
  "is_ident_start c \<longleftrightarrow> (CHR ''A'' \<le> c \<and> c \<le> CHR ''Z'') \<or> (CHR ''a'' \<le> c \<and> c \<le> CHR ''z'') \<or> c = CHR ''_''"

definition is_ident :: "char \<Rightarrow> bool" where
  "is_ident c \<longleftrightarrow> is_ident_start c \<or> (CHR ''0'' \<le> c \<and> c \<le> CHR ''9'')"

text \<open>
  One match of \<open>envRefRE\<close> right after its opening \<open>${\<close>: the variable, the default (empty when
  the reference has none) and the input after the closing brace.
\<close>

definition match_env_ref :: "string \<Rightarrow> (string \<times> string \<times> string) option" where
  "match_env_ref s =
     (let name = takeWhile is_ident s; rest = dropWhile is_ident s in
      if name = [] \<or> \<not> is_ident_start (hd name) then None
      else if has_prefix rest ''}'' then Some (name, [], drop 1 rest)
      else if has_prefix rest '':-'' then
        (let body = drop 2 rest; d = takeWhile (\<lambda>c. c \<noteq> CHR ''}'') body;
             after = dropWhile (\<lambda>c. c \<noteq> CHR ''}'') body
         in if after = [] then None else Some (name, d, drop 1 after))
      else None)"

definition expand_ref :: "(string \<Rightarrow> string option) \<Rightarrow> string \<Rightarrow> string \<Rightarrow> string" where
  "expand_ref lookupEnv name d =
     (if \<not> has_prefix name ''QUOTA_'' then d
      else case lookupEnv name of Some (c # v) \<Rightarrow> c # v | _ \<Rightarrow> d)"

lemma match_env_ref_length: "match_env_ref s = Some (n, d, r) \<Longrightarrow> length r < length s"
proof -
  have drop_le: "length (dropWhile P xs) \<le> length xs" for P and xs :: string
    by (rule length_dropWhile_le)
  assume "match_env_ref s = Some (n, d, r)"
  moreover have "takeWhile is_ident s \<noteq> [] \<Longrightarrow> length (dropWhile is_ident s) < length s"
    by (metis drop_le dropWhile_eq_self_iff le_neq_implies_less length_append length_0_conv
        takeWhile_dropWhile_id add_cancel_left_left takeWhile_eq_Nil_iff)
  ultimately show ?thesis
    using drop_le [of "\<lambda>c. c \<noteq> CHR ''}''" "drop 2 (dropWhile is_ident s)"]
    by (auto simp: match_env_ref_def Let_def split: if_splits)
qed

function interpolate_env :: "(string \<Rightarrow> string option) \<Rightarrow> string \<Rightarrow> string" where
  "interpolate_env lookupEnv s =
     (case s of
        [] \<Rightarrow> []
      | c # s' \<Rightarrow>
          if has_prefix s ''${'' then
            (case match_env_ref (drop 2 s) of
               Some (n, d, r) \<Rightarrow> expand_ref lookupEnv n d @ interpolate_env lookupEnv r
             | None \<Rightarrow> c # interpolate_env lookupEnv s')
          else c # interpolate_env lookupEnv s')"
  by pat_completeness auto
termination
  by (relation "measure (\<lambda>(l, s). length s)") (auto dest: match_env_ref_length)

declare interpolate_env.simps [simp del]

definition known_top_level_keys :: "string list" where
  "known_top_level_keys =
     [''$schema'', ''service_name'', ''engine_mode'', ''tiers'', ''resources'', ''resource_bundles'',
      ''tier_provider'', ''storage'', ''alerts'', ''enforcement'', ''billing_integration'',
      ''reconciliation'', ''pricing'', ''bridge_cache'']"

text \<open>The keys kept in \<open>Extra\<close>: not a \<open>$\<close> key and not known.\<close>

definition extra_keys :: "string list \<Rightarrow> string list" where
  "extra_keys loose = filter (\<lambda>k. k \<notin> set known_top_level_keys) (filter (\<lambda>k. \<not> has_prefix k ''$'') loose)"

section \<open>What validation promises\<close>

definition grant_ok :: "credit_grant \<Rightarrow> bool" where
  "grant_ok g \<longleftrightarrow>
     0 < cg_AmountPerPeriod g \<and> cg_Currency g \<noteq> [] \<and>
     (cg_Lifecycle g = LifecycleRolloverCapped \<longleftrightarrow> cg_RolloverMaxPeriods g \<noteq> None) \<and>
     cg_Lifecycle g \<noteq> LifecycleOther [] \<and> cg_Destination g \<noteq> DestOther [] \<and> cg_Dedup g \<noteq> DedupOther []"

definition tier_ok :: "bool \<Rightarrow> tier \<Rightarrow> bool" where
  "tier_ok ex t \<longleftrightarrow>
     t_TierID t \<noteq> [] \<and> t_DisplayName t \<noteq> [] \<and>
     (is_experimental (t_BillingModel t) \<longrightarrow> ex) \<and>
     (case t_CreditGrant t of None \<Rightarrow> t_InitialCredit t = None | Some g \<Rightarrow> grant_ok g) \<and>
     (t_BillingModel t = SubscriptionWithCredits \<longrightarrow> t_Price t \<noteq> None \<and>
        (\<exists>g. t_CreditGrant t = Some g \<and> cg_Trigger g = TriggerSubscriptionInvoicePaid)) \<and>
     (t_BillingModel t = ConsumptionOnly \<longrightarrow> t_Price t = None)"

definition resource_ok :: "resource_def \<Rightarrow> bool" where
  "resource_ok r \<longleftrightarrow>
     rd_ResourceKey r \<noteq> [] \<and> rd_DisplayName r \<noteq> [] \<and>
     (case rd_CounterType r of
        CounterGauge \<Rightarrow> True
      | CounterRate \<Rightarrow> 0 < rd_WindowSeconds r
      | CounterAccumulator \<Rightarrow> rd_ResetPeriod r \<noteq> ResetOther []
      | CounterOther _ \<Rightarrow> False)"

definition config_ok :: "bool \<Rightarrow> config \<Rightarrow> bool" where
  "config_ok ex c \<longleftrightarrow>
     c_Tiers c \<noteq> [] \<and> (\<forall>t \<in> set (c_Tiers c). tier_ok ex t) \<and> distinct (map t_TierID (c_Tiers c)) \<and>
     (\<forall>r \<in> set (c_Resources c). resource_ok r) \<and> distinct (map rd_ResourceKey (c_Resources c)) \<and>
     (\<forall>(b, ks) \<in> set (c_ResourceBundles c). set ks \<subseteq> rd_ResourceKey ` set (c_Resources c)) \<and>
     c_EngineMode c \<in> {'''', ''local'', ''byo_redis''} \<and>
     st_KeyspaceVersion (c_Storage c) \<in> {0, 1, 2} \<and>
     (st_KeyspaceVersion (c_Storage c) = 2 \<or> st_KeyspaceDualWrite (c_Storage c) \<longrightarrow> c_ServiceName c \<noteq> [])"

lemma apply_defaults_fields:
  "cg_Trigger (apply_defaults g) = cg_Trigger g"
  "cg_AmountPerPeriod (apply_defaults g) = cg_AmountPerPeriod g"
  "cg_Currency (apply_defaults g) \<noteq> []"
  "cg_Lifecycle (apply_defaults g) \<noteq> LifecycleOther []"
  "cg_Destination (apply_defaults g) \<noteq> DestOther []"
  "cg_Dedup (apply_defaults g) \<noteq> DedupOther []"
  by (simp_all add: apply_defaults_def Let_def)

lemma grant_validated: "validate_credit_grant (apply_defaults g) = None \<Longrightarrow> grant_ok (apply_defaults g)"
  using apply_defaults_fields [of g]
  by (auto simp: validate_credit_grant_def grant_ok_def split: if_splits)

lemma validate_resource_ok: "validate_resource r = Inr r' \<Longrightarrow> resource_ok r'"
  by (auto simp: validate_resource_def resource_ok_def Let_def split: if_splits counter_type.splits)

lemma synthesize_fields:
  "t_TierID (synthesize_grant t) = t_TierID t"
  "t_DisplayName (synthesize_grant t) = t_DisplayName t"
  "t_BillingModel (synthesize_grant t) = t_BillingModel t"
  "t_Price (synthesize_grant t) = t_Price t"
  "t_InitialCredit (synthesize_grant t) = t_InitialCredit t"
  "t_CreditGrant t = Some g \<Longrightarrow> t_CreditGrant (synthesize_grant t) = Some g"
  "t_CreditGrant (synthesize_grant t) = None \<longleftrightarrow> t_CreditGrant t = None \<and> t_InitialCredit t = None"
  by (auto simp: synthesize_grant_def split: option.splits)

lemma synthesize_idle [simp]: "t_InitialCredit t = None \<Longrightarrow> synthesize_grant t = t"
  by (simp add: synthesize_grant_def)

lemma validate_tier_ok:
  assumes "validate_tier ex t = Inr t'"
  shows "tier_ok ex t'"
proof -
  define u where "u = (if t_DisplayName t = [] then t\<lparr>t_DisplayName := t_TierID t\<rparr> else t)"
  have id: "t_TierID u = t_TierID t" "t_TierID t \<noteq> []" and dn: "t_DisplayName u \<noteq> []"
    using assms by (auto simp: validate_tier_def u_def split: if_splits)
  have ex: "is_experimental (t_BillingModel u) \<Longrightarrow> ex"
    using assms by (auto simp: validate_tier_def u_def is_experimental_def Let_def
        split: if_splits billing_model.splits)
  have bm: "validate_billing_model u = None"
    using assms by (auto simp: validate_tier_def u_def Let_def split: if_splits option.splits)
  have t': "t' = (case t_CreditGrant (synthesize_grant u) of None \<Rightarrow> synthesize_grant u
      | Some g \<Rightarrow> (synthesize_grant u)\<lparr>t_CreditGrant := Some (apply_defaults g)\<rparr>)"
    and val: "\<And>g. t_CreditGrant (synthesize_grant u) = Some g \<Longrightarrow> grant_ok (apply_defaults g)"
    using assms by (auto simp: validate_tier_def u_def [symmetric] Let_def
        split: if_splits option.splits intro: grant_validated)
  show ?thesis
    using id dn ex bm val unfolding t'
    by (auto simp: tier_ok_def validate_billing_model_def synthesize_fields apply_defaults_fields
        split: option.splits billing_model.splits if_splits)
qed

lemma validate_tiers_ok:
  "validate_tiers ex seen ts = Inr ts' \<Longrightarrow>
     (\<forall>t \<in> set ts'. tier_ok ex t) \<and> distinct (map t_TierID ts') \<and> set (map t_TierID ts') \<inter> set seen = {}
     \<and> length ts' = length ts"
proof (induction ts arbitrary: seen ts')
  case (Cons t ts)
  from Cons.prems obtain t1 ts1 where v: "validate_tier ex t = Inr t1" "t_TierID t1 \<notin> set seen"
    "validate_tiers ex (t_TierID t1 # seen) ts = Inr ts1" "ts' = t1 # ts1"
    by (auto split: sum.splits if_splits)
  from Cons.IH [OF v(3)] validate_tier_ok [OF v(1)] v(2,4) show ?case by auto
qed auto

lemma validate_resources_ok:
  "validate_resources seen rs = Inr rs' \<Longrightarrow>
     (\<forall>r \<in> set rs'. resource_ok r) \<and> distinct (map rd_ResourceKey rs')
     \<and> set (map rd_ResourceKey rs') \<inter> set seen = {}"
proof (induction rs arbitrary: seen rs')
  case (Cons r rs)
  from Cons.prems obtain r1 rs1 where v: "validate_resource r = Inr r1" "rd_ResourceKey r1 \<notin> set seen"
    "validate_resources (rd_ResourceKey r1 # seen) rs = Inr rs1" "rs' = r1 # rs1"
    by (auto split: sum.splits if_splits)
  from Cons.IH [OF v(3)] validate_resource_ok [OF v(1)] v(2,4) show ?case by auto
qed auto

lemma validate_bundles_ok:
  "validate_bundles seen bs = None \<Longrightarrow> \<forall>(b, ks) \<in> set bs. set ks \<subseteq> set seen"
  by (induction seen bs rule: validate_bundles.induct) (auto simp: find_None_iff split: option.splits)

section \<open>Small configurations for the witnesses\<close>

definition plain_limit :: "f64 \<Rightarrow> tier_limit" where
  "plain_limit l = unmarshal_tier_limit (LNumber l)"

definition plain_tier :: "string \<Rightarrow> (string \<times> tier_limit) list \<Rightarrow> tier" where
  "plain_tier i limits = \<lparr>t_TierID = i, t_DisplayName = i, t_Description = [], t_SortOrder = 0,
     t_Features = [], t_Limits = limits, t_UpgradeURL = [], t_InitialCredit = None, t_CreditGrant = None,
     t_DefaultPerUserFraction = Fin 0, t_BillingModel = BillingOther [], t_Price = None\<rparr>"

definition gauge_resource :: "string \<Rightarrow> resource_def" where
  "gauge_resource k = \<lparr>rd_Service = [], rd_ResourceKey = k, rd_DisplayName = k, rd_CounterType = CounterGauge,
     rd_Unit = [], rd_WindowSeconds = 0, rd_ResetPeriod = ResetOther [], rd_Precision = 0\<rparr>"

definition enforce_all :: enforcement_config where
  "enforce_all = \<lparr>ef_Enabled = True, ef_ShadowMode = False, ef_GlobalKillSwitch = False,
     ef_LegacyIncrement = [], ef_UnknownBundle = []\<rparr>"

definition small_config :: config where
  "small_config = \<lparr>c_ServiceName = ''svc'', c_EngineMode = ''local'',
     c_Tiers = [plain_tier ''free'' [(''box.live'', plain_limit (Fin 2))]],
     c_Resources = [gauge_resource ''box.live''], c_ResourceBundles = [(''desk'', [''box.live''])],
     c_Storage = \<lparr>st_RedisURL = d_declare ''memory://'', st_RedisKeyPrefix = ''quota'',
                  st_KeyspaceVersion = 1, st_KeyspaceDualWrite = False\<rparr>,
     c_Enforcement = enforce_all\<rparr>"

lemma small_config_valid: "validate_config False small_config = Inr small_config"
  by (simp add: validate_config_def small_config_def plain_tier_def gauge_resource_def validate_tier_def
      validate_billing_model_def synthesize_grant_def validate_resource_def is_experimental_def)

section \<open>Properties\<close>

text \<open>
  What \<open>Config.Validate\<close> accepts has passed every one of its checks in the form it hands back: tier ids and
  resource keys are present and unique, every resource has a known counter type with the window or reset
  period it needs, every credit grant is positive with filled defaults, bundles name declared resources,
  and a service is declared wherever the v2 shape is written.
\<close>

lemma validate_config_sound:
  assumes "validate_config ex c = Inr c'"
  shows "config_ok ex c'"
proof -
  define u where "u = (if c_EngineMode c \<notin> {'''', ''local'', ''byo_redis'', ''bridge''}
     then c\<lparr>c_EngineMode := ''local''\<rparr> else c)"
  obtain ts rs where
    ts: "validate_tiers ex [] (c_Tiers u) = Inr ts" and rs: "validate_resources [] (c_Resources u) = Inr rs"
    and bs: "validate_bundles (map rd_ResourceKey rs) (c_ResourceBundles u) = None"
    and c': "c' = u\<lparr>c_Tiers := ts, c_Resources := rs\<rparr>"
    and ne: "c_Tiers u \<noteq> []" and em: "c_EngineMode u \<noteq> ''bridge''"
    and ks: "st_KeyspaceVersion (c_Storage u) \<in> {0, 1, 2}"
      "\<not> ((st_KeyspaceVersion (c_Storage u) = 2 \<or> st_KeyspaceDualWrite (c_Storage u)) \<and> c_ServiceName u = [])"
    using assms unfolding validate_config_def u_def [symmetric] Let_def
    by (auto split: if_splits sum.splits option.splits)
  have "c_EngineMode u \<in> {'''', ''local'', ''byo_redis''}"
    using em by (auto simp: u_def split: if_splits)
  with validate_tiers_ok [OF ts] validate_resources_ok [OF rs] validate_bundles_ok [OF bs] ne ks
  show ?thesis unfolding c' config_ok_def by auto
qed

text \<open>
  The rule \<open>billing_model subscription_unlock_only forbids credit_grant\<close> does not bind a tier
  that uses the legacy \<open>initial_credit\<close>: the grant is synthesized after the rule was checked, so
  \<open>Tier.Validate\<close> accepts the tier, hands back one that carries a credit grant, and refuses
  that same tier when it is validated again.
\<close>

theorem unlock_only_grant_escapes:
  assumes "t_TierID t \<noteq> []" and "t_BillingModel t = SubscriptionUnlockOnly"
    and "t_CreditGrant t = None" and "t_InitialCredit t = Some amount" and "0 < amount"
  shows "\<exists>t' e. validate_tier ex t = Inr t' \<and> t_BillingModel t' = SubscriptionUnlockOnly
           \<and> t_CreditGrant t' \<noteq> None \<and> validate_tier ex t' = Inl e"
  using assms
  by (auto simp: validate_tier_def validate_billing_model_def synthesize_grant_def apply_defaults_def
      validate_credit_grant_def is_experimental_def Let_def)

theorem unlock_only_grant_escapes_witness:
  "\<exists>t' e. validate_tier False ((plain_tier ''pro'' [])\<lparr>t_BillingModel := SubscriptionUnlockOnly, t_InitialCredit := Some 10\<rparr>) = Inr t'
     \<and> t_BillingModel t' = SubscriptionUnlockOnly \<and> t_CreditGrant t' \<noteq> None \<and> validate_tier False t' = Inl e"
  by (rule unlock_only_grant_escapes [where amount = 10]) (simp_all add: plain_tier_def)

lemma per_user_share_bounds:
  assumes "0 < f" and "f \<le> 1" and "1 \<le> n" and "n \<le> 2 ^ 53"
  shows "\<exists>k. fceil (fmul (Fin (of_int n)) (Fin f)) = Fin (of_int k) \<and> 0 \<le> k \<and> k \<le> n"
proof -
  have n: "fround (of_int n) = Fin (of_int n)" using assms by (intro fround_of_int) auto
  have "(of_int n :: rat) * f \<le> of_int n * 1" using assms by (intro mult_left_mono) auto
  then have hi: "fle (fround (of_int n * f)) (Fin (of_int n))"
    using fround_mono [of "of_int n * f" "of_int n"] n by simp
  have lo: "fle (Fin 0) (fround (of_int n * f))"
    using fround_mono [of 0 "of_int n * f"] assms by simp
  obtain r where r: "fround (of_int n * f) = Fin r"
    using hi lo by (cases "fround (of_int n * f)") (auto simp: fle_def)
  then have "0 \<le> r" "r \<le> of_int n" using hi lo by simp_all
  then have "0 \<le> \<lceil>r\<rceil>" "\<lceil>r\<rceil> \<le> n" by (simp_all add: ceiling_le_iff)
  with r show ?thesis by auto
qed

text \<open>
  The derived per-user share of a whole-number limit: for a fraction in \<open>(0, 1]\<close> it is a
  whole number between 1 and the limit, rounding included; an explicit \<open>per_user_limit\<close> wins
  as it is, and without a fraction or a limit there is no share.
\<close>

theorem derive_per_user_limit_bounds:
  assumes "0 < f" and "f \<le> 1" and "1 \<le> n" and "n \<le> 2 ^ 53"
    and "tl_Limit t = Some (Fin (of_int n))" and "tl_PerUserLimit t = None"
  shows "\<exists>k. derive_per_user_limit t (Fin f) = Some (Fin (of_int k)) \<and> 1 \<le> k \<and> k \<le> n"
proof -
  obtain k where k: "fceil (fmul (Fin (of_int n)) (Fin f)) = Fin (of_int k)" "0 \<le> k" "k \<le> n"
    using per_user_share_bounds [OF assms(1-4)] by blast
  show ?thesis
  proof (cases "k < 1")
    case True
    with k assms show ?thesis
      by (intro exI [of _ 1]) (auto simp: derive_per_user_limit_def Let_def simp del: fceil.simps fmul.simps)
  next
    case False
    with k assms show ?thesis
      by (intro exI [of _ k]) (auto simp: derive_per_user_limit_def Let_def simp del: fceil.simps fmul.simps)
  qed
qed

theorem derive_per_user_limit_bounds_witness:
  "\<exists>k. derive_per_user_limit (plain_limit (Fin 5)) (Fin (1/2)) = Some (Fin (of_int k)) \<and> 1 \<le> k \<and> k \<le> 5"
  by (rule derive_per_user_limit_bounds [where n = 5])
     (simp_all add: plain_limit_def unmarshal_tier_limit_def)

end
