(* ===== verification/Registry.thy ===== *)
theory Registry
  imports Config "HOL-Library.AList"
begin

text \<open>
  Package \<open>registry\<close>: the in-process index of a validated configuration. A Go map filled by a
  loop is an association list updated entry by entry: one entry per key, the last one wins.
  \<open>AllResources\<close> ranges over the Go map, whose order is unspecified; the model lists the
  entries in the order their keys were first inserted.
\<close>

record registry =
  rg_resources :: "(string \<times> resource_def) list"
  rg_tiers :: "(string \<times> tier) list"
  rg_bundles :: "(string \<times> string list) list"

definition index_by :: "('a \<Rightarrow> string) \<Rightarrow> 'a list \<Rightarrow> (string \<times> 'a) list" where
  "index_by key xs = fold (\<lambda>x. AList.update (key x) x) xs []"

definition reg_new :: "config \<Rightarrow> registry" where
  "reg_new cfg =
     \<lparr>rg_resources = index_by rd_ResourceKey (c_Resources cfg),
      rg_tiers = index_by t_TierID (c_Tiers cfg),
      rg_bundles = fold (\<lambda>(k, v). AList.update k v) (c_ResourceBundles cfg) []\<rparr>"

definition reg_resource :: "registry \<Rightarrow> string \<Rightarrow> resource_def option" where
  "reg_resource r key = map_of (rg_resources r) key"

definition reg_tier :: "registry \<Rightarrow> string \<Rightarrow> tier option" where
  "reg_tier r i = map_of (rg_tiers r) i"

definition reg_tier_limit :: "registry \<Rightarrow> string \<Rightarrow> string \<Rightarrow> tier_limit option" where
  "reg_tier_limit r tierID resourceKey =
     (case reg_tier r tierID of None \<Rightarrow> None | Some t \<Rightarrow> map_of (t_Limits t) resourceKey)"

definition reg_bundle :: "registry \<Rightarrow> string \<Rightarrow> string list" where
  "reg_bundle r name = (case map_of (rg_bundles r) name of None \<Rightarrow> [] | Some ks \<Rightarrow> ks)"

definition reg_has_bundle :: "registry \<Rightarrow> string \<Rightarrow> bool" where
  "reg_has_bundle r name \<longleftrightarrow> map_of (rg_bundles r) name \<noteq> None"

definition reg_all_resources :: "registry \<Rightarrow> resource_def list" where
  "reg_all_resources r = map snd (rg_resources r)"

section \<open>Lookups\<close>

lemma index_by_keys: "\<forall>(k, x) \<in> set (fold (\<lambda>x. AList.update (key x) x) xs acc). key x = k" if "\<forall>(k, x) \<in> set acc. key x = k"
  using that
proof (induction xs arbitrary: acc)
  case (Cons x xs)
  have "set (AList.update (key x) x acc) \<subseteq> insert (key x, x) (set acc)" by (induction acc) auto
  then have "\<forall>(k, y) \<in> set (AList.update (key x) x acc). key y = k" using Cons.prems by auto
  from Cons.IH [OF this] show ?case by simp
qed simp

lemma reg_new_resource:
  assumes "reg_resource (reg_new cfg) rk = Some res"
  shows "rd_ResourceKey res = rk" and "res \<in> set (reg_all_resources (reg_new cfg))"
proof -
  have m: "(rk, res) \<in> set (rg_resources (reg_new cfg))" using assms by (auto simp: reg_resource_def dest: map_of_SomeD)
  then show "rd_ResourceKey res = rk" using index_by_keys [of "[]" rd_ResourceKey "c_Resources cfg"] by (auto simp: reg_new_def index_by_def)
  show "res \<in> set (reg_all_resources (reg_new cfg))" using m by (force simp: reg_all_resources_def)
qed

section \<open>The registry of a validated configuration\<close>

lemma fold_update_distinct:
  assumes "distinct (map fst kvs)" and "set (map fst kvs) \<inter> set (map fst acc) = {}"
  shows "fold (\<lambda>(k, v). AList.update k (g v)) kvs acc = acc @ map (\<lambda>(k, v). (k, g v)) kvs"
  using assms
proof (induction kvs arbitrary: acc)
  case (Cons kv kvs)
  obtain k v where kv: "kv = (k, v)" by (cases kv)
  have "AList.update k (g v) acc = acc @ [(k, g v)]" if "k \<notin> set (map fst acc)" for acc
    using that by (induction acc) auto
  with Cons kv show ?case by auto
qed simp

lemma index_by_distinct:
  assumes "distinct (map key xs)"
  shows "index_by key xs = map (\<lambda>x. (key x, x)) xs"
proof -
  have "index_by key xs = fold (\<lambda>(k, v). AList.update k (id v)) (map (\<lambda>x. (key x, x)) xs) []"
    by (simp add: index_by_def fold_map comp_def)
  with assms fold_update_distinct [of "map (\<lambda>x. (key x, x)) xs" "[]" id] show ?thesis by (simp add: comp_def)
qed

lemma map_of_indexed:
  assumes "distinct (map key xs)"
  shows "map_of (index_by key xs) k = Some x \<longleftrightarrow> x \<in> set xs \<and> key x = k"
proof -
  have "distinct (map fst (map (\<lambda>x. (key x, x)) xs))" using assms by (simp add: comp_def)
  from map_of_eq_Some_iff [OF this] show ?thesis unfolding index_by_distinct [OF assms] by auto
qed

lemma bundle_declared:
  assumes "map_of (fold (\<lambda>(k, v). AList.update k v) kvs acc) b = Some ks"
  shows "(b, ks) \<in> set kvs \<or> map_of acc b = Some ks"
  using assms
proof (induction kvs arbitrary: acc)
  case (Cons kv kvs)
  from Cons.IH [of "AList.update (fst kv) (snd kv) acc"] Cons.prems show ?case
    by (auto simp: update_conv' case_prod_unfold split: if_split_asm)
qed simp



end
