(* ===== verification/Periods.thy ===== *)
theory Periods
  imports Config
begin

text \<open>
  The period buckets of accumulators (\<open>counters.CurrentPeriod\<close>, \<open>counters.PeriodTTL\<close>) and the
  part of Go's calendar they use: the proleptic Gregorian date of a UTC instant, its hour and
  its ISO 8601 week, and the decimal formatting of the labels.
\<close>

section \<open>The calendar\<close>

definition day_number :: "instant \<Rightarrow> int" where
  "day_number t = t div (86400 * second)"

definition hour_of :: "instant \<Rightarrow> int" where
  "hour_of t = (t div (3600 * second)) mod 24"

text \<open>Year, month and day of a day number, and back; years are counted from the first of March
  in cycles of 400 years.\<close>

definition civil_from_days :: "int \<Rightarrow> int \<times> int \<times> int" where
  "civil_from_days z =
     (let z = z + 719468; era = z div 146097; doe = z mod 146097;
          yoe = (doe - doe div 1460 + doe div 36524 - doe div 146096) div 365;
          doy = doe - (365 * yoe + yoe div 4 - yoe div 100);
          mp = (5 * doy + 2) div 153;
          d = doy - (153 * mp + 2) div 5 + 1;
          m = (if mp < 10 then mp + 3 else mp - 9)
      in (yoe + era * 400 + (if m \<le> 2 then 1 else 0), m, d))"

definition days_from_civil :: "int \<Rightarrow> int \<Rightarrow> int \<Rightarrow> int" where
  "days_from_civil y m d =
     (let y = (if m \<le> 2 then y - 1 else y); era = y div 400; yoe = y mod 400;
          doy = (153 * (if m > 2 then m - 3 else m + 9) + 2) div 5 + d - 1;
          doe = yoe * 365 + yoe div 4 - yoe div 100 + doy
      in era * 146097 + doe - 719468)"

text \<open>\<open>Time.ISOWeek\<close>: the year and the number of the week that holds the Thursday of this week.\<close>

definition iso_week :: "int \<Rightarrow> int \<times> int" where
  "iso_week z =
     (let thursday = z - (z + 3) mod 7 + 3;
          y = fst (civil_from_days thursday);
          yday = thursday - days_from_civil y 1 1
      in (y, yday div 7 + 1))"

section \<open>Decimal labels\<close>

fun dec :: "nat \<Rightarrow> string" where
  "dec n = (if n < 10 then [char_of (48 + n)] else dec (n div 10) @ [char_of (48 + n mod 10)])"

declare dec.simps [simp del]

definition pad :: "nat \<Rightarrow> int \<Rightarrow> string" where
  "pad w n = (let s = dec (nat \<bar>n\<bar>); z = replicate (w - length s) (CHR ''0'') in
     (if n < 0 then ''-'' else []) @ z @ s)"

definition current_period :: "reset_period \<Rightarrow> instant \<Rightarrow> string" where
  "current_period reset now =
     (case civil_from_days (day_number now) of (y, m, d) \<Rightarrow>
        (case reset of
           ResetHourly \<Rightarrow> pad 4 y @ ''-'' @ pad 2 m @ ''-'' @ pad 2 d @ ''T'' @ pad 2 (hour_of now)
         | ResetDaily \<Rightarrow> pad 4 y @ ''-'' @ pad 2 m @ ''-'' @ pad 2 d
         | ResetWeekly \<Rightarrow> (case iso_week (day_number now) of (wy, w) \<Rightarrow> pad 0 wy @ ''-W'' @ pad 2 w)
         | ResetMonthly \<Rightarrow> pad 4 y @ ''-'' @ pad 2 m
         | ResetOther _ \<Rightarrow> ''all''))"

definition period_ttl :: "reset_period \<Rightarrow> duration" where
  "period_ttl reset =
     (let buffer = 86400 * second in
      case reset of
        ResetHourly \<Rightarrow> 3600 * second + buffer
      | ResetDaily \<Rightarrow> 86400 * second + buffer
      | ResetWeekly \<Rightarrow> 604800 * second + buffer
      | ResetMonthly \<Rightarrow> 2678400 * second + buffer
      | ResetOther _ \<Rightarrow> 0)"

end
