(* ===== verification/Keyspace.thy ===== *)
theory Keyspace
  imports Registry Periods
begin

text \<open>
  The counter keys: \<open>counters/keyspace.go\<close> (the versioned keyspace), \<open>counters/keys_python.go\<close>
  (the builders the engine uses) and the prefix builder of \<open>counters/counter.go\<close>. During a
  migration every counter has two keys, one per shape: a \<open>DualPair\<close>.
\<close>

section \<open>Scopes\<close>

definition is_digit :: "char \<Rightarrow> bool" where
  "is_digit c \<longleftrightarrow> CHR ''0'' \<le> c \<and> c \<le> CHR ''9''"

text \<open>\<open>^v[0-9]+$\<close>\<close>

fun versionish :: "string \<Rightarrow> bool" where
  "versionish (v # d # ds) = (v = CHR ''v'' \<and> list_all is_digit (d # ds))"
| "versionish _ = False"

definition forbidden_char :: "char \<Rightarrow> bool" where
  "forbidden_char c \<longleftrightarrow> c \<in> {CHR ''{'', CHR ''}'', CHR ''/'', CHR '':''}"

definition validate_scope :: "string \<Rightarrow> string \<Rightarrow> goerr option" where
  "validate_scope value what =
     (if value = [] then Some (ErrScopeEmpty what)
      else if list_ex forbidden_char value then Some (ErrScopeChar what value)
      else if versionish value then Some (ErrScopeVersion what value)
      else None)"

section \<open>The keyspace declaration\<close>

record keyspace =
  ks_Service :: string
  ks_Version :: int
  ks_DualWrite :: bool

definition ks_zero :: keyspace where
  "ks_zero = \<lparr>ks_Service = [], ks_Version = 0, ks_DualWrite = False\<rparr>"

definition new_keyspace :: "string \<Rightarrow> int \<Rightarrow> bool \<Rightarrow> goerr + keyspace" where
  "new_keyspace service version dualWrite =
     (let version = (if version = 0 then 1 else version) in
      if version \<noteq> 1 \<and> version \<noteq> 2 then Inl (ErrKeyspaceVersion version)
      else case (if service \<noteq> [] then validate_scope service ''service_name'' else None) of
        Some e \<Rightarrow> Inl e
      | None \<Rightarrow>
          if (version = 2 \<or> dualWrite) \<and> service = [] then Inl ErrKeyspaceService
          else Inr \<lparr>ks_Service = service, ks_Version = version, ks_DualWrite = dualWrite\<rparr>)"

definition ks_version :: "keyspace \<Rightarrow> int" where
  "ks_version k = (if ks_Version k = 0 then 1 else ks_Version k)"

definition ks_enabled :: "keyspace \<Rightarrow> bool" where
  "ks_enabled k \<longleftrightarrow> ks_version k = 2 \<or> ks_DualWrite k"

definition secondary_version :: "keyspace \<Rightarrow> int" where
  "secondary_version k = (if \<not> ks_DualWrite k then 0 else if ks_version k = 1 then 2 else 1)"

definition primary_is_v2 :: "keyspace \<Rightarrow> bool" where
  "primary_is_v2 k \<longleftrightarrow> ks_version k = 2"

definition prefix_v :: "keyspace \<Rightarrow> string \<Rightarrow> string \<Rightarrow> int \<Rightarrow> string" where
  "prefix_v k org rk version =
     (if version = 1 then ''quota:'' @ org @ '':'' @ rk
      else ''quota:v2:{'' @ ks_Service k @ ''/'' @ org @ ''}:'' @ rk)"

definition ks_prefix :: "keyspace \<Rightarrow> string \<Rightarrow> string \<Rightarrow> goerr + string" where
  "ks_prefix k org rk =
     (if ks_version k = 1 then Inr (''quota:'' @ org @ '':'' @ rk)
      else case validate_scope org ''org_id'' of
        Some e \<Rightarrow> Inl e
      | None \<Rightarrow> Inr (''quota:v2:{'' @ ks_Service k @ ''/'' @ org @ ''}:'' @ rk))"

section \<open>Key pairs\<close>

text \<open>\<open>DualPair\<close>: the authoritative key and, while both shapes are written, the other one.\<close>

record dual_pair =
  dp_P :: string
  dp_S :: string

definition ks_pair :: "keyspace \<Rightarrow> string \<Rightarrow> string \<Rightarrow> string \<Rightarrow> dual_pair" where
  "ks_pair k org rk suffix =
     \<lparr>dp_P = prefix_v k org rk (ks_version k) @ suffix,
      dp_S = (if secondary_version k \<noteq> 0 then prefix_v k org rk (secondary_version k) @ suffix else [])\<rparr>"

definition ks_gauge_pair :: "keyspace \<Rightarrow> string \<Rightarrow> string \<Rightarrow> dual_pair" where
  "ks_gauge_pair k org rk = ks_pair k org rk '':gauge''"

definition ks_user_pair :: "keyspace \<Rightarrow> string \<Rightarrow> string \<Rightarrow> string \<Rightarrow> dual_pair" where
  "ks_user_pair k org rk uid = ks_pair k org rk ('':gauge:user:'' @ uid)"

definition ks_seq_user_pair :: "keyspace \<Rightarrow> string \<Rightarrow> string \<Rightarrow> string \<Rightarrow> dual_pair" where
  "ks_seq_user_pair k org rk uid = ks_pair k org rk ('':gauge:seq:user:'' @ uid)"

definition ks_idem_pair :: "keyspace \<Rightarrow> string \<Rightarrow> string \<Rightarrow> string \<Rightarrow> dual_pair" where
  "ks_idem_pair k org rk key = ks_pair k org rk ('':idem:'' @ (if key = [] then ''__unused__'' else key))"

definition ks_acc_pair :: "keyspace \<Rightarrow> string \<Rightarrow> string \<Rightarrow> string \<Rightarrow> dual_pair" where
  "ks_acc_pair k org rk period = ks_pair k org rk ('':acc:'' @ period)"

definition ks_rate_pair :: "keyspace \<Rightarrow> string \<Rightarrow> string \<Rightarrow> dual_pair" where
  "ks_rate_pair k org rk = ks_pair k org rk '':rate''"

text \<open>\<open>KeyPrefix.Build\<close>: the parts joined by colons under an optional prefix.\<close>

definition key_prefix_build :: "string \<Rightarrow> string list \<Rightarrow> string" where
  "key_prefix_build p parts =
     (if p = [] then join_with '':'' parts else p @ '':'' @ join_with '':'' parts)"

definition deprecated_scope_key :: "string \<Rightarrow> string \<Rightarrow> string list \<Rightarrow> string" where
  "deprecated_scope_key prefix head parts = key_prefix_build prefix (head # parts)"

text \<open>The fields of \<open>Gauge\<close>, \<open>Accumulator\<close> and \<open>Rate\<close> that name keys.\<close>

record counter_ref =
  cr_Prefix :: string
  cr_ResourceKey :: string
  cr_Keyspace :: keyspace

definition single :: "string \<Rightarrow> dual_pair" where
  "single p = \<lparr>dp_P = p, dp_S = []\<rparr>"

definition gauge_org_pair :: "counter_ref \<Rightarrow> string \<Rightarrow> dual_pair" where
  "gauge_org_pair g orgID =
     (if ks_enabled (cr_Keyspace g) then ks_gauge_pair (cr_Keyspace g) orgID (cr_ResourceKey g)
      else single (key_prefix_build (cr_Prefix g) [orgID, cr_ResourceKey g, ''gauge'']))"

definition gauge_user_pair :: "counter_ref \<Rightarrow> string \<Rightarrow> string \<Rightarrow> dual_pair" where
  "gauge_user_pair g orgID userID =
     (if ks_enabled (cr_Keyspace g) then ks_user_pair (cr_Keyspace g) orgID (cr_ResourceKey g) userID
      else single (key_prefix_build (cr_Prefix g) [orgID, cr_ResourceKey g, ''gauge'', ''user'', userID]))"

definition gauge_seq_pair :: "counter_ref \<Rightarrow> string \<Rightarrow> string \<Rightarrow> dual_pair" where
  "gauge_seq_pair g orgID userID =
     (if ks_enabled (cr_Keyspace g) then ks_seq_user_pair (cr_Keyspace g) orgID (cr_ResourceKey g) userID
      else single (key_prefix_build (cr_Prefix g)
             [orgID, cr_ResourceKey g, ''gauge'', ''seq'', ''user'', userID]))"

definition gauge_idem_pair :: "counter_ref \<Rightarrow> string \<Rightarrow> string \<Rightarrow> dual_pair" where
  "gauge_idem_pair g orgID key =
     (if ks_enabled (cr_Keyspace g) then ks_idem_pair (cr_Keyspace g) orgID (cr_ResourceKey g) key
      else if key = [] then single (key_prefix_build (cr_Prefix g) [orgID, cr_ResourceKey g, ''idem'', ''__unused__''])
      else single (key_prefix_build (cr_Prefix g) [orgID, cr_ResourceKey g, ''idem'', key]))"

definition acc_period_pair :: "counter_ref \<Rightarrow> reset_period \<Rightarrow> string \<Rightarrow> instant \<Rightarrow> dual_pair" where
  "acc_period_pair a reset orgID now =
     (if ks_enabled (cr_Keyspace a)
      then ks_acc_pair (cr_Keyspace a) orgID (cr_ResourceKey a) (current_period reset now)
      else single (key_prefix_build (cr_Prefix a)
             [orgID, cr_ResourceKey a, ''acc'', current_period reset now]))"

definition rate_org_pair :: "counter_ref \<Rightarrow> string \<Rightarrow> dual_pair" where
  "rate_org_pair r orgID =
     (if ks_enabled (cr_Keyspace r) then ks_rate_pair (cr_Keyspace r) orgID (cr_ResourceKey r)
      else single (key_prefix_build (cr_Prefix r) [orgID, cr_ResourceKey r, ''rate'']))"

section \<open>The erroring builders of the keyspace\<close>

definition ks_key :: "keyspace \<Rightarrow> string \<Rightarrow> string \<Rightarrow> string \<Rightarrow> goerr + string" where
  "ks_key k org rk suffix = (case ks_prefix k org rk of Inl e \<Rightarrow> Inl e | Inr p \<Rightarrow> Inr (p @ suffix))"

definition gauge_key :: "keyspace \<Rightarrow> string \<Rightarrow> string \<Rightarrow> goerr + string" where
  "gauge_key k org rk = ks_key k org rk '':gauge''"

definition user_key :: "keyspace \<Rightarrow> string \<Rightarrow> string \<Rightarrow> string \<Rightarrow> goerr + string" where
  "user_key k org rk uid = ks_key k org rk ('':gauge:user:'' @ uid)"

definition user_seq_key :: "keyspace \<Rightarrow> string \<Rightarrow> string \<Rightarrow> string \<Rightarrow> goerr + string" where
  "user_seq_key k org rk uid = ks_key k org rk ('':gauge:seq:user:'' @ uid)"

definition idem_key :: "keyspace \<Rightarrow> string \<Rightarrow> string \<Rightarrow> string \<Rightarrow> goerr + string" where
  "idem_key k org rk key = ks_key k org rk ('':idem:'' @ (if key = [] then ''__unused__'' else key))"

definition idem_gen_key :: "keyspace \<Rightarrow> string \<Rightarrow> string \<Rightarrow> string \<Rightarrow> goerr + string" where
  "idem_gen_key k org rk key = ks_key k org rk ('':idemgen:'' @ (if key = [] then ''__unused__'' else key))"

definition acc_key :: "keyspace \<Rightarrow> string \<Rightarrow> string \<Rightarrow> string \<Rightarrow> goerr + string" where
  "acc_key k org rk period = ks_key k org rk ('':acc:'' @ period)"

definition rate_key :: "keyspace \<Rightarrow> string \<Rightarrow> string \<Rightarrow> goerr + string" where
  "rate_key k org rk = ks_key k org rk '':rate''"

definition recent_key :: "keyspace \<Rightarrow> string \<Rightarrow> goerr + string" where
  "recent_key k org =
     (if ks_version k = 1 then Inr (''quota:reconcile:recent:'' @ org)
      else case validate_scope org ''org_id'' of
        Some e \<Rightarrow> Inl e
      | None \<Rightarrow> Inr (''quota:v2:{'' @ ks_Service k @ ''/'' @ org @ ''}:reconcile:recent''))"

definition marker_key :: "string \<Rightarrow> string" where
  "marker_key service = ''quota:keyspace:meta:'' @ service"

definition tier_lkg_key :: "string \<Rightarrow> string" where
  "tier_lkg_key orgID = ''quota:tier:lkg:'' @ orgID"

section \<open>The classifier of v1 counter keys\<close>

definition classify_v1 :: "string \<Rightarrow> (string \<times> string \<times> string) option" where
  "classify_v1 key =
     (if \<not> has_prefix key ''quota:'' \<or> has_prefix key ''quota:v2:'' then None
      else let parts = split_on (CHR '':'') key in
        if length parts < 4 \<or> CHR ''.'' \<notin> set (parts ! 2) \<or> versionish (parts ! 1) then None
        else Some (parts ! 1, parts ! 2, join_with '':'' (drop 3 parts)))"

lemmas pair_defs = ks_gauge_pair_def ks_user_pair_def ks_seq_user_pair_def ks_idem_pair_def
  ks_acc_pair_def ks_rate_pair_def ks_pair_def

section \<open>Facts on scopes and shapes\<close>

lemma scope_valid_iff:
  "validate_scope v what = None \<longleftrightarrow>
     v \<noteq> [] \<and> \<not> versionish v \<and> CHR ''{'' \<notin> set v \<and> CHR ''}'' \<notin> set v \<and> CHR ''/'' \<notin> set v \<and> CHR '':'' \<notin> set v"
  by (auto simp: validate_scope_def list_ex_iff forbidden_char_def)

lemma not_v2 [simp]: "validate_scope v what = None \<Longrightarrow> v \<noteq> ''v2''"
  by (auto simp: scope_valid_iff is_digit_def less_eq_char_def)

lemma new_keyspace_ok:
  assumes "new_keyspace service version dw = Inr k"
  shows "ks_version k \<in> {1, 2}" and "ks_Version k = ks_version k" and "ks_DualWrite k = dw"
    and "ks_enabled k \<Longrightarrow> validate_scope (ks_Service k) what = None"
proof -
  note u = assms [unfolded new_keyspace_def Let_def]
  have k: "ks_Version k = (if version = 0 then 1 else version)" "ks_Service k = service" "ks_DualWrite k = dw"
    using u by (auto split: if_splits option.splits)
  show "ks_version k \<in> {1, 2}" "ks_Version k = ks_version k" "ks_DualWrite k = dw"
    using u k by (auto simp: ks_version_def split: if_splits option.splits)
  show "ks_enabled k \<Longrightarrow> validate_scope (ks_Service k) what = None"
    using u k by (auto simp: ks_enabled_def ks_version_def scope_valid_iff split: if_splits option.splits)
qed

text \<open>The v2 hash tag is delimited by bytes a valid scope cannot hold.\<close>

lemma v2_prefix_inject:
  assumes "prefix_v k org rk 2 @ x = prefix_v k' org' rk' 2 @ y"
    and "validate_scope (ks_Service k) w = None" "validate_scope (ks_Service k') w = None"
    and "validate_scope org w = None" "validate_scope org' w = None"
  shows "ks_Service k = ks_Service k' \<and> org = org' \<and> rk @ x = rk' @ y"
proof -
  have "ks_Service k @ CHR ''/'' # (org @ CHR ''}'' # CHR '':'' # rk @ x)
      = ks_Service k' @ CHR ''/'' # (org' @ CHR ''}'' # CHR '':'' # rk' @ y)"
    using assms(1) by (simp add: prefix_v_def)
  then have s: "ks_Service k = ks_Service k'"
    and o: "org @ CHR ''}'' # (CHR '':'' # rk @ x) = org' @ CHR ''}'' # (CHR '':'' # rk' @ y)"
    using sep_cancel assms(2,3) by (force simp: scope_valid_iff)+
  from sep_cancel [OF o] assms(4,5) s show ?thesis by (auto simp: scope_valid_iff)
qed

lemma key_tail_inject:
  assumes "rk @ CHR '':'' # x = rk' @ CHR '':'' # y" and "CHR '':'' \<notin> set rk" "CHR '':'' \<notin> set rk'"
  shows "rk = rk' \<and> x = y"
  by (rule sep_cancel [OF assms])

lemma shapes_differ:
  assumes "validate_scope org w = None"
  shows "prefix_v k org rk 1 @ x \<noteq> prefix_v k' org' rk' 2 @ y"
proof
  assume "prefix_v k org rk 1 @ x = prefix_v k' org' rk' 2 @ y"
  then have "org @ CHR '':'' # (rk @ x) = ''v2'' @ CHR '':'' # (CHR ''{'' # ks_Service k' @ CHR ''/'' # org' @ CHR ''}'' # CHR '':'' # rk' @ y)"
    by (simp add: prefix_v_def)
  from sep_cancel [OF this] assms have "org = ''v2''" by (auto simp: scope_valid_iff)
  with assms not_v2 show False by blast
qed

lemma ks_key_v2:
  assumes "ks_version k = 2"
  shows "ks_key k org rk suf = (case validate_scope org ''org_id'' of Some e \<Rightarrow> Inl e | None \<Rightarrow> Inr (prefix_v k org rk 2 @ suf))"
  using assms by (simp add: ks_key_def ks_prefix_def prefix_v_def split: option.splits)

text \<open>Every counter key of the keyspace is a prefix followed by a suffix that starts with a colon.\<close>

definition counter_suffixes :: "string \<Rightarrow> string \<Rightarrow> string \<Rightarrow> string list" where
  "counter_suffixes uid key period =
     ['':gauge'', '':gauge:user:'' @ uid, '':gauge:seq:user:'' @ uid,
      '':idem:'' @ (if key = [] then ''__unused__'' else key),
      '':idemgen:'' @ (if key = [] then ''__unused__'' else key), '':acc:'' @ period, '':rate'']"

definition counter_keys :: "keyspace \<Rightarrow> string \<Rightarrow> string \<Rightarrow> string \<Rightarrow> string \<Rightarrow> string \<Rightarrow> (goerr + string) list" where
  "counter_keys k org rk uid key period =
     [gauge_key k org rk, user_key k org rk uid, user_seq_key k org rk uid, idem_key k org rk key,
      idem_gen_key k org rk key, acc_key k org rk period, rate_key k org rk]"

lemmas key_defs = gauge_key_def user_key_def user_seq_key_def idem_key_def idem_gen_key_def acc_key_def rate_key_def

lemma counter_keys_suffixes:
  "counter_keys k org rk uid key period = map (ks_key k org rk) (counter_suffixes uid key period)"
  by (simp add: counter_keys_def counter_suffixes_def key_defs)

lemma counter_suffixes_colon: "suf \<in> set (counter_suffixes uid key period) \<Longrightarrow> \<exists>t. suf = CHR '':'' # t"
  by (auto simp: counter_suffixes_def)

lemma counter_suffixes_distinct: "distinct (counter_suffixes uid key period)"
  by (simp add: counter_suffixes_def)

section \<open>Properties\<close>

text \<open>
  C34. Isolation of the v2 keyspace. Take any two counter keys built by keyspaces that
  \<open>NewKeyspace\<close> accepted at version 2, for resource keys without a colon: if the builders
  accept both orgs and the keys are equal, then service, org and resource key are equal, and
  so is the rest of the key. No service reads another's counters and no org another's.
\<close>

theorem v2_counter_keys_isolated:
  assumes "new_keyspace svc 2 dw = Inr k" and "new_keyspace svc' 2 dw' = Inr k'"
    and "CHR '':'' \<notin> set rk" and "CHR '':'' \<notin> set rk'"
    and "Inr x \<in> set (counter_keys k org rk uid key period)"
    and "Inr x \<in> set (counter_keys k' org' rk' uid' key' period')"
  shows "ks_Service k = ks_Service k' \<and> org = org' \<and> rk = rk'
    \<and> (\<exists>suf \<in> set (counter_suffixes uid key period) \<inter> set (counter_suffixes uid' key' period').
         ks_key k org rk suf = Inr x)"
proof -
  have v: "ks_version k = 2" "ks_version k' = 2"
    using assms(1,2) by (auto simp: new_keyspace_def ks_version_def split: if_splits option.splits)
  then have sv: "validate_scope (ks_Service k) ''s'' = None" "validate_scope (ks_Service k') ''s'' = None"
    using new_keyspace_ok(4) [OF assms(1)] new_keyspace_ok(4) [OF assms(2)] by (auto simp: ks_enabled_def)
  obtain suf where suf: "suf \<in> set (counter_suffixes uid key period)" "ks_key k org rk suf = Inr x"
    using assms(5) by (auto simp: counter_keys_suffixes)
  obtain suf' where suf': "suf' \<in> set (counter_suffixes uid' key' period')" "ks_key k' org' rk' suf' = Inr x"
    using assms(6) by (auto simp: counter_keys_suffixes)
  have org: "validate_scope org ''s'' = None" "validate_scope org' ''s'' = None"
    and "prefix_v k org rk 2 @ suf = prefix_v k' org' rk' 2 @ suf'"
    using suf(2) suf'(2) v by (auto simp: ks_key_v2 scope_valid_iff split: option.splits)
  then have eq: "ks_Service k = ks_Service k'" "org = org'" "rk @ suf = rk' @ suf'"
    using v2_prefix_inject sv by blast+
  obtain t t' where t: "suf = CHR '':'' # t" "suf' = CHR '':'' # t'"
    using counter_suffixes_colon suf(1) suf'(1) by blast
  with eq(3) assms(3,4) key_tail_inject have "rk = rk' \<and> t = t'" by blast
  with eq t suf suf'(1) show ?thesis by auto
qed

theorem v2_counter_keys_isolated_witness:
  "\<exists>k. new_keyspace ''svc'' 2 False = Inr k \<and>
     Inr ''quota:v2:{svc/o1}:box.live:gauge'' \<in> set (counter_keys k ''o1'' ''box.live'' ''u'' [] ''p'') \<and>
     ks_Service k = ''svc''"
proof -
  let ?k = "\<lparr>ks_Service = ''svc'', ks_Version = 2, ks_DualWrite = False\<rparr>"
  have k: "new_keyspace ''svc'' 2 False = Inr ?k" by code_simp
  have m: "Inr ''quota:v2:{svc/o1}:box.live:gauge'' \<in> set (counter_keys ?k ''o1'' ''box.live'' ''u'' [] ''p'')"
    by code_simp
  have "ks_Service ?k = ks_Service ?k"
    using v2_counter_keys_isolated [OF k k _ _ m m] by simp
  with k m show ?thesis by auto
qed

text \<open>
  The two shapes of the migration never meet: for orgs the guard accepts, the key a counter
  has under one version is not the key any counter has under the other. So in a dual keyspace
  the two sides of a pair differ and mutating both never touches one counter twice.
\<close>

theorem dual_pair_disjoint:
  assumes "validate_scope org ''org_id'' = None" and "validate_scope org' ''org_id'' = None"
    and "new_keyspace svc version True = Inr k"
  shows "dp_P (ks_pair k org rk suf) \<noteq> dp_S (ks_pair k org' rk' suf')
    \<and> dp_S (ks_pair k org rk suf) \<noteq> []"
proof -
  have v: "ks_version k \<in> {1, 2}" and d: "ks_DualWrite k" using new_keyspace_ok [OF assms(3)] by auto
  have ne: "prefix_v k org rk v @ s \<noteq> []" for v s by (simp add: prefix_v_def)
  show ?thesis
  proof (cases "ks_version k = 1")
    case True
    with d assms(1) shapes_differ ne show ?thesis by (auto simp: ks_pair_def secondary_version_def)
  next
    case False
    with v have "ks_version k = 2" by simp
    with d shapes_differ [OF assms(2), where k = k and k' = k, symmetric] ne show ?thesis
      by (auto simp: ks_pair_def secondary_version_def)
  qed
qed

theorem dual_pair_disjoint_witness:
  "\<exists>k. new_keyspace ''svc'' 1 True = Inr k \<and>
     dp_P (ks_pair k ''o1'' ''box.live'' '':gauge'') \<noteq> dp_S (ks_pair k ''o2'' ''box.live'' '':gauge'')"
proof -
  let ?k = "\<lparr>ks_Service = ''svc'', ks_Version = 1, ks_DualWrite = True\<rparr>"
  have k: "new_keyspace ''svc'' 1 True = Inr ?k" by code_simp
  have o: "validate_scope ''o1'' ''org_id'' = None" "validate_scope ''o2'' ''org_id'' = None"
    by (simp_all add: validate_scope_def forbidden_char_def)
  from dual_pair_disjoint [OF o k] k show ?thesis by blast
qed

lemma classify_v1_sound:
  assumes "classify_v1 key = Some (org, rk, tail)"
  shows "key = ''quota:'' @ org @ '':'' @ rk @ '':'' @ tail"
proof -
  obtain rest where rest: "key = ''quota:'' @ rest"
    using assms by (auto simp: classify_v1_def has_prefix_iff split: if_splits)
  then have parts: "split_on (CHR '':'') key = ''quota'' # split_on (CHR '':'') rest"
    using split_on_append_sep [of "CHR '':''" "''quota''" rest] by simp
  let ?p = "split_on (CHR '':'') key"
  have len: "4 \<le> length ?p" and res: "org = ?p ! 1" "rk = ?p ! 2" "tail = join_with '':'' (drop 3 ?p)"
    using assms by (auto simp: classify_v1_def Let_def split: if_splits)
  then obtain a b c d ps where p: "?p = a # b # c # d # ps"
    by (auto simp: Suc_le_length_iff numeral_eq_Suc)
  with parts have "a = ''quota''" by simp
  have "key = join_with '':'' ?p" by simp
  also have "\<dots> = ''quota:'' @ org @ '':'' @ rk @ '':'' @ tail"
    unfolding res using p \<open>a = _\<close> by (simp add: numeral_eq_Suc)
  finally show ?thesis .
qed

text \<open>
  The classifier that the migration trusts inverts the v1 builder: the key of a counter of a
  valid org and a dotted, colon-free resource key is classified as exactly that org, resource key
  and tail; whatever is classified rebuilds to the key it came from; and no v2 key is ever
  classified as a v1 counter.
\<close>

theorem classify_v1_inverts_builder:
  assumes "validate_scope org w = None" and "CHR ''.'' \<in> set rk" and "CHR '':'' \<notin> set rk"
  shows "classify_v1 (prefix_v k org rk 1 @ '':'' @ tail) = Some (org, rk, tail)
    \<and> classify_v1 (prefix_v k org' rk' 2 @ x) = None
    \<and> (classify_v1 key = Some (org'', rk'', tail'') \<longrightarrow> prefix_v k org'' rk'' 1 @ '':'' @ tail'' = key)"
proof (intro conjI impI)
  let ?key = "prefix_v k org rk 1 @ '':'' @ tail"
  have key: "?key = ''quota'' @ CHR '':'' # org @ CHR '':'' # rk @ CHR '':'' # tail" by (simp add: prefix_v_def)
  have c: "CHR '':'' \<notin> set org" "\<not> versionish org" using assms(1) by (auto simp: scope_valid_iff)
  have sp: "split_on (CHR '':'') ?key = ''quota'' # org # rk # split_on (CHR '':'') tail"
    unfolding key using c assms(3) by (simp add: split_on_append_sep del: append.simps)
  have "\<not> has_prefix ?key ''quota:v2:''"
  proof
    assume "has_prefix ?key ''quota:v2:''"
    then obtain t where "org @ CHR '':'' # rk @ CHR '':'' # tail = ''v2'' @ CHR '':'' # t"
      unfolding key by (auto simp: has_prefix_iff)
    from sep_cancel [OF this] c assms(1) not_v2 show False by auto
  qed
  moreover have "has_prefix ?key ''quota:''" unfolding key by simp
  moreover have "1 \<le> length (split_on (CHR '':'') tail)" by (simp add: Suc_le_eq)
  ultimately show "classify_v1 ?key = Some (org, rk, tail)"
    unfolding classify_v1_def sp Let_def using c assms(2) by (simp add: numeral_eq_Suc)
  show "classify_v1 (prefix_v k org' rk' 2 @ x) = None"
    by (simp add: classify_v1_def prefix_v_def)
  show "prefix_v k org'' rk'' 1 @ '':'' @ tail'' = key" if "classify_v1 key = Some (org'', rk'', tail'')"
    using classify_v1_sound [OF that] by (simp add: prefix_v_def)
qed

theorem classify_v1_inverts_builder_witness:
  "classify_v1 (prefix_v ks_zero ''o1'' ''box.live'' 1 @ '':'' @ ''gauge'') = Some (''o1'', ''box.live'', ''gauge'')
    \<and> prefix_v ks_zero ''o1'' ''box.live'' 1 @ '':'' @ ''gauge'' = ''quota:o1:box.live:gauge''"
  using classify_v1_inverts_builder [of "''o1''" "''org_id''" "''box.live''" ks_zero "''gauge''" "''o1''" "''box.live''" "''x''"
      "''quota:o1:box.live:gauge''" "''o1''" "''box.live''" "''gauge''"]
  by (simp add: validate_scope_def forbidden_char_def prefix_v_def)

end
