(* ===== verification/CounterStore.thy ===== *)
theory CounterStore
  imports Keyspace
begin

text \<open>
  The storage interfaces of package \<open>counters\<close> (\<open>FloatStore\<close>, \<open>GaugeAcquirer\<close>, \<open>DualOps\<close>,
  \<open>RateStore\<close>) as records of functions over an abstract store state, and the in-process
  implementations \<open>InMemoryStore\<close> and \<open>MemoryRateStore\<close>. An operation holds the store's mutex
  for its whole body, so it is one step of the state; the clock is read once per operation.
\<close>

section \<open>Interfaces\<close>

text \<open>\<open>AcquireSpec\<close> and \<open>AcquireOutcome\<close>.\<close>

record acquire_spec =
  as_OrgKey :: string
  as_UserKey :: string
  as_SeqKey :: string
  as_HasUser :: bool
  as_Delta :: f64
  as_OrgLimit :: "f64 option"
  as_UserLimit :: "f64 option"
  as_OrgKey2 :: string
  as_UserKey2 :: string
  as_SeqKey2 :: string

record acquire_outcome =
  ao_Admitted :: bool
  ao_Dup :: bool
  ao_DeniedIndex :: nat

record 's dual_ops =
  do_SpendOrg :: "'s \<Rightarrow> dual_pair \<Rightarrow> f64 \<Rightarrow> bool \<Rightarrow> (goerr + f64) \<times> 's"
  do_SpendUser :: "'s \<Rightarrow> dual_pair \<Rightarrow> dual_pair \<Rightarrow> dual_pair \<Rightarrow> f64 \<Rightarrow> bool \<Rightarrow> (goerr + f64 \<times> f64) \<times> 's"
  do_DecrFloor :: "'s \<Rightarrow> dual_pair \<Rightarrow> f64 \<Rightarrow> bool \<Rightarrow> (goerr + f64) \<times> 's"
  do_AccAdd :: "'s \<Rightarrow> dual_pair \<Rightarrow> f64 \<Rightarrow> duration \<Rightarrow> bool \<Rightarrow> (goerr + f64) \<times> 's"
  do_AtomicAcquire ::
    "'s \<Rightarrow> dual_pair \<Rightarrow> bool \<Rightarrow> duration \<Rightarrow> bool \<Rightarrow> acquire_spec list \<Rightarrow> (goerr + acquire_outcome) \<times> 's"

text \<open>
  \<open>FloatStore\<close>; the last two fields are the type assertions to the optional interfaces, absent
  when the store does not implement them.
\<close>

record 's float_store =
  fs_IncrByFloat :: "'s \<Rightarrow> string \<Rightarrow> f64 \<Rightarrow> (goerr + f64) \<times> 's"
  fs_GetFloat :: "'s \<Rightarrow> string \<Rightarrow> (goerr + f64 \<times> bool) \<times> 's"
  fs_Set :: "'s \<Rightarrow> string \<Rightarrow> f64 \<Rightarrow> duration \<Rightarrow> goerr option \<times> 's"
  fs_Delete :: "'s \<Rightarrow> string list \<Rightarrow> goerr option \<times> 's"
  fs_Expire :: "'s \<Rightarrow> string \<Rightarrow> duration \<Rightarrow> goerr option \<times> 's"
  fs_SetIfAbsent :: "'s \<Rightarrow> string \<Rightarrow> string \<Rightarrow> duration \<Rightarrow> (goerr + bool) \<times> 's"
  fs_DecrByFloorZero :: "'s \<Rightarrow> string \<Rightarrow> f64 \<Rightarrow> (goerr + f64) \<times> 's"
  fs_acquirer ::
    "('s \<Rightarrow> string \<Rightarrow> bool \<Rightarrow> duration \<Rightarrow> acquire_spec list \<Rightarrow> (goerr + acquire_outcome) \<times> 's) option"
  fs_dual :: "'s dual_ops option"

record 'r rate_store =
  rt_Record :: "'r \<Rightarrow> string \<Rightarrow> instant \<Rightarrow> duration \<Rightarrow> string \<Rightarrow> goerr option \<times> 'r"
  rt_Count :: "'r \<Rightarrow> string \<Rightarrow> instant \<Rightarrow> duration \<Rightarrow> (goerr + int) \<times> 'r"
  rt_Trim :: "'r \<Rightarrow> string \<Rightarrow> instant \<Rightarrow> duration \<Rightarrow> goerr option \<times> 'r"

text \<open>\<open>GetFloatDual\<close>: the authoritative key first, the other one when it is absent.\<close>

definition get_float_dual :: "'s float_store \<Rightarrow> 's \<Rightarrow> dual_pair \<Rightarrow> (goerr + f64 \<times> bool) \<times> 's" where
  "get_float_dual F s k =
     (case fs_GetFloat F s (dp_P k) of
        (Inl e, s') \<Rightarrow> (Inl e, s')
      | (Inr (v, ok), s') \<Rightarrow>
          if ok \<or> dp_S k = [] then (Inr (v, ok), s') else fs_GetFloat F s' (dp_S k))"

section \<open>The in-memory float store\<close>

record mem_store =
  ms_floats :: "string \<rightharpoonup> f64"
  ms_strings :: "string \<rightharpoonup> string"
  ms_expiry :: "string \<rightharpoonup> instant"
  ms_now :: instant

definition mem_empty :: "instant \<Rightarrow> mem_store" where
  "mem_empty t = \<lparr>ms_floats = Map.empty, ms_strings = Map.empty, ms_expiry = Map.empty, ms_now = t\<rparr>"

definition mem_expired :: "mem_store \<Rightarrow> string \<Rightarrow> bool" where
  "mem_expired s k \<longleftrightarrow> (case ms_expiry s k of None \<Rightarrow> False | Some t \<Rightarrow> t < ms_now s)"

definition mem_sweep :: "mem_store \<Rightarrow> mem_store" where
  "mem_sweep s =
     s\<lparr>ms_floats := (\<lambda>k. if mem_expired s k then None else ms_floats s k),
       ms_strings := (\<lambda>k. if mem_expired s k then None else ms_strings s k),
       ms_expiry := (\<lambda>k. if mem_expired s k then None else ms_expiry s k)\<rparr>"

text \<open>Reading and writing one float of the map, with Go's zero value for a missing key.\<close>

definition mem_float :: "mem_store \<Rightarrow> string \<Rightarrow> f64" where
  "mem_float s k = map_get (Fin 0) (ms_floats s) k"

definition mem_put :: "mem_store \<Rightarrow> string \<Rightarrow> f64 \<Rightarrow> mem_store" where
  "mem_put s k v = s\<lparr>ms_floats := (ms_floats s)(k \<mapsto> v)\<rparr>"

definition mem_add :: "mem_store \<Rightarrow> string \<Rightarrow> f64 \<Rightarrow> mem_store" where
  "mem_add s k d = mem_put s k (fadd (mem_float s k) d)"

definition floor_zero :: "f64 \<Rightarrow> f64" where
  "floor_zero v = (if flt v (Fin 0) then Fin 0 else v)"

definition mem_incr :: "mem_store \<Rightarrow> string \<Rightarrow> f64 \<Rightarrow> (goerr + f64) \<times> mem_store" where
  "mem_incr s key delta = (let s' = mem_add (mem_sweep s) key delta in (Inr (mem_float s' key), s'))"

definition mem_decr_floor :: "mem_store \<Rightarrow> string \<Rightarrow> f64 \<Rightarrow> (goerr + f64) \<times> mem_store" where
  "mem_decr_floor s key amount =
     (let s' = mem_sweep s; v = floor_zero (fsub (mem_float s' key) amount) in (Inr v, mem_put s' key v))"

definition mem_get :: "mem_store \<Rightarrow> string \<Rightarrow> (goerr + f64 \<times> bool) \<times> mem_store" where
  "mem_get s key = (let s' = mem_sweep s in (Inr (mem_float s' key, ms_floats s' key \<noteq> None), s'))"

definition mem_set :: "mem_store \<Rightarrow> string \<Rightarrow> f64 \<Rightarrow> duration \<Rightarrow> goerr option \<times> mem_store" where
  "mem_set s key value ttl =
     (let s' = mem_put s key value in
      (None, if ttl > 0 then s'\<lparr>ms_expiry := (ms_expiry s')(key \<mapsto> ms_now s' + ttl)\<rparr> else s'))"

definition mem_delete1 :: "string \<Rightarrow> mem_store \<Rightarrow> mem_store" where
  "mem_delete1 k s =
     s\<lparr>ms_floats := (ms_floats s)(k := None), ms_strings := (ms_strings s)(k := None),
       ms_expiry := (ms_expiry s)(k := None)\<rparr>"

definition mem_delete :: "mem_store \<Rightarrow> string list \<Rightarrow> goerr option \<times> mem_store" where
  "mem_delete s keys = (None, fold mem_delete1 keys s)"

definition mem_expire :: "mem_store \<Rightarrow> string \<Rightarrow> duration \<Rightarrow> goerr option \<times> mem_store" where
  "mem_expire s key ttl =
     (if ttl \<le> 0 then (None, s\<lparr>ms_expiry := (ms_expiry s)(key := None)\<rparr>)
      else (None, s\<lparr>ms_expiry := (ms_expiry s)(key \<mapsto> ms_now s + ttl)\<rparr>))"

definition mem_set_if_absent :: "mem_store \<Rightarrow> string \<Rightarrow> string \<Rightarrow> duration \<Rightarrow> (goerr + bool) \<times> mem_store" where
  "mem_set_if_absent s key value ttl =
     (let s' = mem_sweep s in
      if ms_strings s' key \<noteq> None then (Inr False, s')
      else let s'' = s'\<lparr>ms_strings := (ms_strings s')(key \<mapsto> value)\<rparr> in
           (Inr True, if ttl > 0 then s''\<lparr>ms_expiry := (ms_expiry s'')(key \<mapsto> ms_now s'' + ttl)\<rparr> else s''))"

section \<open>The in-memory rate store\<close>

type_synonym mem_rates = "string \<rightharpoonup> int list"

definition mr_trim :: "mem_rates \<Rightarrow> string \<Rightarrow> instant \<Rightarrow> duration \<Rightarrow> mem_rates" where
  "mr_trim s key now window = s(key \<mapsto> filter (\<lambda>t. now - window \<le> t) (map_get [] s key))"

definition mr_record :: "mem_rates \<Rightarrow> string \<Rightarrow> instant \<Rightarrow> duration \<Rightarrow> string \<Rightarrow> goerr option \<times> mem_rates" where
  "mr_record s key now window member =
     (None, mr_trim (s(key \<mapsto> map_get [] s key @ [now])) key now window)"

definition mr_count :: "mem_rates \<Rightarrow> string \<Rightarrow> instant \<Rightarrow> duration \<Rightarrow> (goerr + int) \<times> mem_rates" where
  "mr_count s key now window =
     (let s' = mr_trim s key now window in (Inr (int (length (map_get [] s' key))), s'))"

definition mr_trim_op :: "mem_rates \<Rightarrow> string \<Rightarrow> instant \<Rightarrow> duration \<Rightarrow> goerr option \<times> mem_rates" where
  "mr_trim_op s key now window = (None, mr_trim s key now window)"

definition mem_rate_store :: "mem_rates rate_store" where
  "mem_rate_store = \<lparr>rt_Record = mr_record, rt_Count = mr_count, rt_Trim = mr_trim_op\<rparr>"

section \<open>The atomic bundle acquire\<close>

fun validate_specs :: "nat \<Rightarrow> acquire_spec list \<Rightarrow> goerr option" where
  "validate_specs i [] = None"
| "validate_specs i (sp # sps) =
     (if \<not> finite_f (as_Delta sp) then Some (ErrDeltaNotFinite (i + 1))
      else if flt (as_Delta sp) (Fin 0) then Some (ErrDeltaNegative (i + 1))
      else if as_OrgLimit sp = Some NaN then Some (ErrLimitNaN (i + 1) ''org'')
      else if as_HasUser sp \<and> as_UserLimit sp = Some NaN then Some (ErrLimitNaN (i + 1) ''user'')
      else validate_specs (i + 1) sps)"

definition over_limit :: "f64 \<Rightarrow> f64 \<Rightarrow> f64 option \<Rightarrow> bool" where
  "over_limit cur delta limit = (case limit of None \<Rightarrow> False | Some l \<Rightarrow> fgt (fadd cur delta) l)"

definition spec_exceeds :: "(string \<Rightarrow> f64) \<Rightarrow> acquire_spec \<Rightarrow> bool" where
  "spec_exceeds lv sp \<longleftrightarrow>
     over_limit (lv (as_OrgKey sp)) (as_Delta sp) (as_OrgLimit sp) \<or>
     (as_HasUser sp \<and> over_limit (lv (as_UserKey sp)) (as_Delta sp) (as_UserLimit sp))"

text \<open>The 1-based index of the first gauge that would exceed its limit, 0 when none would.\<close>

fun first_exceeding :: "(string \<Rightarrow> f64) \<Rightarrow> nat \<Rightarrow> acquire_spec list \<Rightarrow> nat" where
  "first_exceeding lv i [] = 0"
| "first_exceeding lv i (sp # sps) =
     (if spec_exceeds lv sp then i + 1 else first_exceeding lv (i + 1) sps)"

definition mem_spend_spec :: "acquire_spec \<Rightarrow> mem_store \<Rightarrow> mem_store" where
  "mem_spend_spec sp s =
     (let s = mem_add s (as_OrgKey sp) (as_Delta sp) in
      if as_HasUser sp
      then mem_add (mem_add s (as_SeqKey sp) (Fin 1)) (as_UserKey sp) (as_Delta sp)
      else s)"

definition mem_claim :: "string \<Rightarrow> duration \<Rightarrow> mem_store \<Rightarrow> mem_store" where
  "mem_claim k ttl s =
     (let s' = s\<lparr>ms_strings := (ms_strings s)(k \<mapsto> ''1'')\<rparr> in
      if ttl > 0 then s'\<lparr>ms_expiry := (ms_expiry s')(k \<mapsto> ms_now s' + ttl)\<rparr> else s')"

definition mem_atomic_acquire ::
  "mem_store \<Rightarrow> string \<Rightarrow> bool \<Rightarrow> duration \<Rightarrow> acquire_spec list \<Rightarrow> (goerr + acquire_outcome) \<times> mem_store" where
  "mem_atomic_acquire s idemKey hasIdem idemTTL specs =
     (case validate_specs 0 specs of
        Some e \<Rightarrow> (Inl e, s)
      | None \<Rightarrow>
          let s = mem_sweep s in
          if hasIdem \<and> ms_strings s idemKey \<noteq> None
          then (Inr \<lparr>ao_Admitted = True, ao_Dup = True, ao_DeniedIndex = 0\<rparr>, s)
          else let i = first_exceeding (mem_float s) 0 specs in
            if i \<noteq> 0 then (Inr \<lparr>ao_Admitted = False, ao_Dup = False, ao_DeniedIndex = i\<rparr>, s)
            else let s = (if hasIdem then mem_claim idemKey idemTTL s else s) in
                 (Inr \<lparr>ao_Admitted = True, ao_Dup = False, ao_DeniedIndex = 0\<rparr>, fold mem_spend_spec specs s))"

section \<open>Dual-keyspace operations\<close>

definition mem_seed :: "bool \<Rightarrow> dual_pair \<Rightarrow> mem_store \<Rightarrow> mem_store" where
  "mem_seed v2p k s =
     (if dp_S k = [] then s
      else let v2 = (if v2p then dp_P k else dp_S k); v1 = (if v2p then dp_S k else dp_P k) in
        (case (ms_floats s v2, ms_floats s v1) of
           (None, Some v) \<Rightarrow> mem_put s v2 v
         | _ \<Rightarrow> s))"

definition mem_dual_spend_org :: "mem_store \<Rightarrow> dual_pair \<Rightarrow> f64 \<Rightarrow> bool \<Rightarrow> (goerr + f64) \<times> mem_store" where
  "mem_dual_spend_org s org delta v2p =
     (let s = mem_seed v2p org (mem_sweep s);
          s = mem_add s (dp_P org) delta;
          s = (if dp_S org \<noteq> [] then mem_add s (dp_S org) delta else s)
      in (Inr (mem_float s (dp_P org)), s))"

definition mem_dual_spend_user ::
  "mem_store \<Rightarrow> dual_pair \<Rightarrow> dual_pair \<Rightarrow> dual_pair \<Rightarrow> f64 \<Rightarrow> bool \<Rightarrow> (goerr + f64 \<times> f64) \<times> mem_store" where
  "mem_dual_spend_user s org user seq delta v2p =
     (let s = fold (mem_seed v2p) [org, user, seq] (mem_sweep s);
          s = mem_add (mem_add s (dp_P org) delta) (dp_P user) delta;
          s = (if dp_S org \<noteq> [] then mem_add (mem_add s (dp_S org) delta) (dp_S user) delta else s)
      in (Inr (mem_float s (dp_P org), mem_float s (dp_P user)), s))"

definition mem_dec_key :: "string \<Rightarrow> f64 \<Rightarrow> mem_store \<Rightarrow> mem_store" where
  "mem_dec_key k amount s = mem_put s k (floor_zero (fsub (mem_float s k) amount))"

definition mem_dual_decr_floor :: "mem_store \<Rightarrow> dual_pair \<Rightarrow> f64 \<Rightarrow> bool \<Rightarrow> (goerr + f64) \<times> mem_store" where
  "mem_dual_decr_floor s key amount v2p =
     (let s = mem_dec_key (dp_P key) amount (mem_seed v2p key (mem_sweep s)); v = mem_float s (dp_P key)
      in (Inr v, if dp_S key \<noteq> [] then mem_dec_key (dp_S key) amount s else s))"

definition mem_dual_acc_add ::
  "mem_store \<Rightarrow> dual_pair \<Rightarrow> f64 \<Rightarrow> duration \<Rightarrow> bool \<Rightarrow> (goerr + f64) \<times> mem_store" where
  "mem_dual_acc_add s acc delta ttl v2p =
     (let exp = (\<lambda>k s. if ttl > 0 then s\<lparr>ms_expiry := (ms_expiry s)(k \<mapsto> ms_now s + ttl)\<rparr> else s);
          s = mem_seed v2p acc (mem_sweep s);
          s = exp (dp_P acc) (mem_add s (dp_P acc) delta);
          s = (if dp_S acc \<noteq> [] then exp (dp_S acc) (mem_add s (dp_S acc) delta) else s)
      in (Inr (mem_float s (dp_P acc)), s))"

definition org_pair :: "acquire_spec \<Rightarrow> dual_pair" where
  "org_pair sp = \<lparr>dp_P = as_OrgKey sp, dp_S = as_OrgKey2 sp\<rparr>"

definition user_pair :: "acquire_spec \<Rightarrow> dual_pair" where
  "user_pair sp = \<lparr>dp_P = as_UserKey sp, dp_S = as_UserKey2 sp\<rparr>"

definition seq_pair :: "acquire_spec \<Rightarrow> dual_pair" where
  "seq_pair sp = \<lparr>dp_P = as_SeqKey sp, dp_S = as_SeqKey2 sp\<rparr>"

definition mem_seed_spec :: "bool \<Rightarrow> acquire_spec \<Rightarrow> mem_store \<Rightarrow> mem_store" where
  "mem_seed_spec v2p sp s =
     (let s = mem_seed v2p (org_pair sp) s in
      if as_HasUser sp then mem_seed v2p (seq_pair sp) (mem_seed v2p (user_pair sp) s) else s)"

text \<open>The same gauge under its secondary keys.\<close>

definition second_shape :: "acquire_spec \<Rightarrow> acquire_spec" where
  "second_shape sp =
     sp\<lparr>as_OrgKey := as_OrgKey2 sp, as_UserKey := as_UserKey2 sp, as_SeqKey := as_SeqKey2 sp\<rparr>"

definition mem_dual_atomic_acquire ::
  "mem_store \<Rightarrow> dual_pair \<Rightarrow> bool \<Rightarrow> duration \<Rightarrow> bool \<Rightarrow> acquire_spec list \<Rightarrow>
     (goerr + acquire_outcome) \<times> mem_store" where
  "mem_dual_atomic_acquire s idem hasIdem idemTTL v2p specs =
     (case validate_specs 0 specs of
        Some e \<Rightarrow> (Inl e, s)
      | None \<Rightarrow>
          let dual = (dp_S idem \<noteq> []);
              s = fold (mem_seed_spec v2p) specs (mem_sweep s)
          in
          if hasIdem \<and> (ms_strings s (dp_P idem) \<noteq> None \<or> dual \<and> ms_strings s (dp_S idem) \<noteq> None)
          then (Inr \<lparr>ao_Admitted = True, ao_Dup = True, ao_DeniedIndex = 0\<rparr>, s)
          else let i = first_exceeding (mem_float s) 0 specs in
            if i \<noteq> 0 then (Inr \<lparr>ao_Admitted = False, ao_Dup = False, ao_DeniedIndex = i\<rparr>, s)
            else let ttl = (if idemTTL \<le> 0 then 86400 * second else idemTTL);
                     s = (if hasIdem
                          then (let s = mem_claim (dp_P idem) ttl s in
                                if dual then mem_claim (dp_S idem) ttl s else s)
                          else s)
                 in (Inr \<lparr>ao_Admitted = True, ao_Dup = False, ao_DeniedIndex = 0\<rparr>,
                     fold (\<lambda>sp s. let s = mem_spend_spec sp s in
                                  if dual then mem_spend_spec (second_shape sp) s else s) specs s))"

definition mem_dual_ops :: "mem_store dual_ops" where
  "mem_dual_ops =
     \<lparr>do_SpendOrg = mem_dual_spend_org, do_SpendUser = mem_dual_spend_user,
      do_DecrFloor = mem_dual_decr_floor, do_AccAdd = mem_dual_acc_add,
      do_AtomicAcquire = mem_dual_atomic_acquire\<rparr>"

text \<open>\<open>InMemoryStore\<close> implements \<open>FloatStore\<close> and both optional interfaces.\<close>

definition mem_float_store :: "mem_store float_store" where
  "mem_float_store =
     \<lparr>fs_IncrByFloat = mem_incr, fs_GetFloat = mem_get, fs_Set = mem_set, fs_Delete = mem_delete,
      fs_Expire = mem_expire, fs_SetIfAbsent = mem_set_if_absent, fs_DecrByFloorZero = mem_decr_floor,
      fs_acquirer = Some mem_atomic_acquire, fs_dual = Some mem_dual_ops\<rparr>"

section \<open>Accumulators and rates over the interfaces\<close>

definition accumulator_delta :: "f64 \<Rightarrow> goerr + f64" where
  "accumulator_delta delta = (if \<not> finite_f delta then Inl (ErrDeltaNotFinite 0) else Inr (fabs delta))"

text \<open>\<open>Accumulator.AddOrg\<close>; the flag tells which side of the pair is v2.\<close>

definition acc_add_org ::
  "'s float_store \<Rightarrow> 's \<Rightarrow> counter_ref \<Rightarrow> reset_period \<Rightarrow> string \<Rightarrow> instant \<Rightarrow> f64 \<Rightarrow> (goerr + f64) \<times> 's" where
  "acc_add_org F s a reset orgID now delta =
     (case accumulator_delta delta of
        Inl e \<Rightarrow> (Inl e, s)
      | Inr delta \<Rightarrow>
          let pair = acc_period_pair a reset orgID now in
          if dp_S pair \<noteq> [] then
            (case fs_dual F of
               None \<Rightarrow> (Inl ErrNoDualOps, s)
             | Some d \<Rightarrow> do_AccAdd d s pair delta (period_ttl reset) (primary_is_v2 (cr_Keyspace a)))
          else
            (case fs_IncrByFloat F s (dp_P pair) delta of
               (Inl e, s) \<Rightarrow> (Inl e, s)
             | (Inr v, s) \<Rightarrow>
                 (Inr v, if period_ttl reset > 0 then snd (fs_Expire F s (dp_P pair) (period_ttl reset)) else s)))"

definition acc_get_org ::
  "'s float_store \<Rightarrow> 's \<Rightarrow> counter_ref \<Rightarrow> reset_period \<Rightarrow> string \<Rightarrow> instant \<Rightarrow> (goerr + f64) \<times> 's" where
  "acc_get_org F s a reset orgID now =
     (case get_float_dual F s (acc_period_pair a reset orgID now) of
        (Inl e, s) \<Rightarrow> (Inl e, s)
      | (Inr (v, ok), s) \<Rightarrow> (Inr v, s))"

definition rate_record_org ::
  "'r rate_store \<Rightarrow> 'r \<Rightarrow> counter_ref \<Rightarrow> duration \<Rightarrow> string \<Rightarrow> instant \<Rightarrow> string \<Rightarrow> goerr option \<times> 'r" where
  "rate_record_org R s r window orgID now member =
     (let pair = rate_org_pair r orgID in
      case rt_Record R s (dp_P pair) now window member of
        (Some e, s) \<Rightarrow> (Some e, s)
      | (None, s) \<Rightarrow> if dp_S pair \<noteq> [] then rt_Record R s (dp_S pair) now window member else (None, s))"

definition rate_count_org ::
  "'r rate_store \<Rightarrow> 'r \<Rightarrow> counter_ref \<Rightarrow> duration \<Rightarrow> string \<Rightarrow> instant \<Rightarrow> (goerr + int) \<times> 'r" where
  "rate_count_org R s r window orgID now = rt_Count R s (dp_P (rate_org_pair r orgID)) now window"

section \<open>Levels\<close>

text \<open>What a caller can observe of a store: the live floats and the live claims.\<close>

definition mem_level :: "mem_store \<Rightarrow> string \<rightharpoonup> f64" where
  "mem_level s = ms_floats (mem_sweep s)"

declare mem_level_def [store_simps] mem_sweep_def [store_simps] mem_expired_def [store_simps] mem_empty_def [store_simps]

definition mem_claimed :: "mem_store \<Rightarrow> string \<Rightarrow> bool" where
  "mem_claimed s k \<longleftrightarrow> ms_strings (mem_sweep s) k \<noteq> None"

text \<open>A key without an expiry keeps its value however much time passes.\<close>

definition mem_lasting :: "mem_store \<Rightarrow> string \<Rightarrow> bool" where
  "mem_lasting s k \<longleftrightarrow> ms_expiry s k = None"

definition mem_swept :: "mem_store \<Rightarrow> bool" where
  "mem_swept s \<longleftrightarrow> (\<forall>k. \<not> mem_expired s k)"

lemma swept_sweep [simp]: "mem_swept (mem_sweep s)"
  by (auto simp: mem_swept_def mem_sweep_def mem_expired_def split: option.splits)

lemma sweep_swept [simp]: "mem_swept s \<Longrightarrow> mem_sweep s = s"
  by (simp add: mem_swept_def mem_sweep_def)

lemma put_fields [simp]:
  "ms_floats (mem_put s k v) = (ms_floats s)(k \<mapsto> v)" "ms_strings (mem_put s k v) = ms_strings s"
  "ms_expiry (mem_put s k v) = ms_expiry s" "ms_now (mem_put s k v) = ms_now s"
  by (simp_all add: mem_put_def)

lemma claim_fields [simp]:
  "ms_floats (mem_claim k ttl s) = ms_floats s" "ms_strings (mem_claim k ttl s) = (ms_strings s)(k \<mapsto> ''1'')"
  "ms_now (mem_claim k ttl s) = ms_now s"
  "ms_expiry (mem_claim k ttl s) = (if ttl > 0 then (ms_expiry s)(k \<mapsto> ms_now s + ttl) else ms_expiry s)"
  by (simp_all add: mem_claim_def Let_def)

lemma swept_put [simp]: "mem_swept (mem_put s k v) = mem_swept s"
  by (simp add: mem_swept_def mem_expired_def split: option.splits)

lemma swept_claim [simp]: "mem_swept s \<Longrightarrow> mem_swept (mem_claim k ttl s)"
  by (auto simp: mem_swept_def mem_expired_def split: option.splits if_splits)

lemma level_swept: "mem_swept s \<Longrightarrow> mem_level s = ms_floats s"
  by (simp add: mem_level_def)

lemma claimed_swept: "mem_swept s \<Longrightarrow> mem_claimed s k \<longleftrightarrow> ms_strings s k \<noteq> None"
  by (simp add: mem_claimed_def)

lemma sweep_now [simp]: "ms_now (mem_sweep s) = ms_now s"
  by (simp add: mem_sweep_def)

lemma mem_float_level: "mem_float (mem_sweep s) k = map_get (Fin 0) (mem_level s) k"
  by (simp add: mem_float_def mem_level_def)

lemma lasting_sweep: "mem_lasting s k \<Longrightarrow> mem_lasting (mem_sweep s) k"
  by (simp add: mem_lasting_def mem_sweep_def)

lemma level_lasting: "mem_lasting s k \<Longrightarrow> mem_level s k = ms_floats s k"
  by (simp add: mem_level_def mem_sweep_def mem_lasting_def mem_expired_def)

text \<open>The level of a pair: of its authoritative key, or of the other one while it alone exists.\<close>

definition pair_level :: "(string \<rightharpoonup> f64) \<Rightarrow> dual_pair \<Rightarrow> f64" where
  "pair_level lv p =
     (if lv (dp_P p) \<noteq> None \<or> dp_S p = [] then map_get (Fin 0) lv (dp_P p) else map_get (Fin 0) lv (dp_S p))"

lemma single_fields [simp]: "dp_P (single k) = k" "dp_S (single k) = []"
  by (simp_all add: single_def)

lemma legacy_pair_level [simp]: "dp_S p = [] \<Longrightarrow> pair_level lv p = map_get (Fin 0) lv (dp_P p)"
  by (simp add: pair_level_def)

text \<open>Adding to one level, and the spend of one gauge, on levels alone.\<close>

definition add_level :: "string \<Rightarrow> f64 \<Rightarrow> (string \<rightharpoonup> f64) \<Rightarrow> (string \<rightharpoonup> f64)" where
  "add_level k d lv = lv(k \<mapsto> fadd (map_get (Fin 0) lv k) d)"

definition spend_level :: "acquire_spec \<Rightarrow> (string \<rightharpoonup> f64) \<Rightarrow> (string \<rightharpoonup> f64)" where
  "spend_level sp lv =
     (let lv = add_level (as_OrgKey sp) (as_Delta sp) lv in
      if as_HasUser sp then add_level (as_UserKey sp) (as_Delta sp) (add_level (as_SeqKey sp) (Fin 1) lv) else lv)"

text \<open>The abstract acquire: all or nothing on the levels, at most once per claim.\<close>

definition abs_acquire ::
  "(string \<rightharpoonup> f64) \<Rightarrow> (string \<Rightarrow> bool) \<Rightarrow> string \<Rightarrow> bool \<Rightarrow> acquire_spec list \<Rightarrow>
     acquire_outcome \<times> (string \<rightharpoonup> f64) \<times> (string \<Rightarrow> bool)" where
  "abs_acquire lv cl idem hasIdem specs =
     (if hasIdem \<and> cl idem then (\<lparr>ao_Admitted = True, ao_Dup = True, ao_DeniedIndex = 0\<rparr>, lv, cl)
      else let i = first_exceeding (map_get (Fin 0) lv) 0 specs in
        if i \<noteq> 0 then (\<lparr>ao_Admitted = False, ao_Dup = False, ao_DeniedIndex = i\<rparr>, lv, cl)
        else (\<lparr>ao_Admitted = True, ao_Dup = False, ao_DeniedIndex = 0\<rparr>,
              fold spend_level specs lv, if hasIdem then cl(idem := True) else cl))"

lemma add_fields [simp]:
  "ms_floats (mem_add s k d) = add_level k d (ms_floats s)" "ms_strings (mem_add s k d) = ms_strings s"
  "ms_expiry (mem_add s k d) = ms_expiry s" "mem_swept (mem_add s k d) = mem_swept s" "ms_now (mem_add s k d) = ms_now s"
  by (simp_all add: mem_add_def add_level_def mem_float_def)

lemma spend_spec_fields [simp]:
  "ms_floats (mem_spend_spec sp s) = spend_level sp (ms_floats s)" "ms_strings (mem_spend_spec sp s) = ms_strings s"
  "ms_expiry (mem_spend_spec sp s) = ms_expiry s" "mem_swept (mem_spend_spec sp s) = mem_swept s"
  "ms_now (mem_spend_spec sp s) = ms_now s"
  by (simp_all add: mem_spend_spec_def spend_level_def Let_def)

lemma spend_specs_fields [simp]:
  "ms_floats (fold mem_spend_spec specs s) = fold spend_level specs (ms_floats s)"
  "ms_strings (fold mem_spend_spec specs s) = ms_strings s" "ms_expiry (fold mem_spend_spec specs s) = ms_expiry s"
  "mem_swept (fold mem_spend_spec specs s) = mem_swept s" "ms_now (fold mem_spend_spec specs s) = ms_now s"
  by (induction specs arbitrary: s) auto

section \<open>The store contract\<close>

text \<open>
  What the engine relies on of a \<open>FloatStore\<close>: an abstraction to levels, and for each
  operation that succeeds what it returns and how the levels move. \<open>lasting\<close> marks the keys
  that carry no expiry, the only ones a \<open>Set\<close> without a TTL is relied on for.
\<close>

locale float_store_laws =
  fixes F :: "'s float_store"
    and level :: "'s \<Rightarrow> string \<rightharpoonup> f64"
    and lasting :: "'s \<Rightarrow> string \<Rightarrow> bool"
  assumes incr_law: "fs_IncrByFloat F s k d = (Inr v, s') \<Longrightarrow>
      v = fadd (map_get (Fin 0) (level s) k) d \<and> level s' = (level s)(k \<mapsto> v) \<and> (\<forall>j. lasting s j \<longrightarrow> lasting s' j)"
    and decr_law: "fs_DecrByFloorZero F s k d = (Inr v, s') \<Longrightarrow>
      v = floor_zero (fsub (map_get (Fin 0) (level s) k) d) \<and> level s' = (level s)(k \<mapsto> v)
      \<and> (\<forall>j. lasting s j \<longrightarrow> lasting s' j)"
    and get_law: "fs_GetFloat F s k = (Inr (v, ok), s') \<Longrightarrow>
      v = map_get (Fin 0) (level s) k \<and> ok = (level s k \<noteq> None) \<and> level s' = level s
      \<and> (\<forall>j. lasting s j \<longrightarrow> lasting s' j)"
    and set_law: "fs_Set F s k v 0 = (None, s') \<Longrightarrow> lasting s k \<Longrightarrow>
      level s' = (level s)(k \<mapsto> v) \<and> (\<forall>j. lasting s j \<longrightarrow> lasting s' j)"

text \<open>A store that is up answers every call.\<close>

locale reliable_store = float_store_laws +
  assumes incr_total: "\<exists>v s'. fs_IncrByFloat F s k d = (Inr v, s')"
    and decr_total: "\<exists>v s'. fs_DecrByFloorZero F s k d = (Inr v, s')"
    and get_total: "\<exists>r s'. fs_GetFloat F s k = (Inr r, s')"
    and set_total: "\<exists>s'. fs_Set F s k v ttl = (None, s')"
begin

lemma incr_eq:
  obtains s' where "fs_IncrByFloat F s k d = (Inr (fadd (map_get (Fin 0) (level s) k) d), s')"
    and "level s' = (level s)(k \<mapsto> fadd (map_get (Fin 0) (level s) k) d)" and "\<And>j. lasting s j \<Longrightarrow> lasting s' j"
  using incr_total [of s k d] incr_law by metis

lemma decr_eq:
  obtains s' where "fs_DecrByFloorZero F s k d = (Inr (floor_zero (fsub (map_get (Fin 0) (level s) k) d)), s')"
    and "level s' = (level s)(k \<mapsto> floor_zero (fsub (map_get (Fin 0) (level s) k) d))"
    and "\<And>j. lasting s j \<Longrightarrow> lasting s' j"
  using decr_total [of s k d] decr_law by metis

lemma get_eq:
  obtains s' where "fs_GetFloat F s k = (Inr (map_get (Fin 0) (level s) k, level s k \<noteq> None), s')"
    and "level s' = level s" and "\<And>j. lasting s j \<Longrightarrow> lasting s' j"
proof -
  obtain v ok s' where "fs_GetFloat F s k = (Inr (v, ok), s')" using get_total [of s k] by auto
  with get_law [OF this] that show thesis by auto
qed

lemma set_eq:
  assumes "lasting s k"
  obtains s' where "fs_Set F s k v 0 = (None, s')" and "level s' = (level s)(k \<mapsto> v)"
    and "\<And>j. lasting s j \<Longrightarrow> lasting s' j"
  using set_total [of s k v 0] set_law assms by metis

text \<open>Reading a pair gives its level and leaves the levels alone.\<close>

lemma get_dual_ex:
  "\<exists>ok s'. get_float_dual F s p = (Inr (pair_level (level s) p, ok), s') \<and> level s' = level s
     \<and> (\<forall>j. lasting s j \<longrightarrow> lasting s' j)"
proof -
  obtain s1 where s1: "fs_GetFloat F s (dp_P p) = (Inr (map_get (Fin 0) (level s) (dp_P p), level s (dp_P p) \<noteq> None), s1)"
    "level s1 = level s" "\<And>j. lasting s j \<Longrightarrow> lasting s1 j" using get_eq [of s "dp_P p"] by blast
  obtain s2 where s2: "fs_GetFloat F s1 (dp_S p) = (Inr (map_get (Fin 0) (level s1) (dp_S p), level s1 (dp_S p) \<noteq> None), s2)"
    "level s2 = level s1" "\<And>j. lasting s1 j \<Longrightarrow> lasting s2 j" using get_eq [of s1 "dp_S p"] by blast
  show ?thesis
  proof (cases "level s (dp_P p) \<noteq> None \<or> dp_S p = []")
    case True
    with s1 show ?thesis by (auto simp: get_float_dual_def pair_level_def)
  next
    case False
    with s1 s2 show ?thesis by (auto simp: get_float_dual_def pair_level_def)
  qed
qed

end

text \<open>The optional acquire interface, against the abstract acquire.\<close>

locale acquiring_store = reliable_store +
  fixes acq :: "'a \<Rightarrow> string \<Rightarrow> bool \<Rightarrow> duration \<Rightarrow> acquire_spec list \<Rightarrow> (goerr + acquire_outcome) \<times> 'a"
    and claimed :: "'a \<Rightarrow> string \<Rightarrow> bool"
  assumes acq_law: "validate_specs 0 specs = None \<Longrightarrow>
      \<exists>out s'. acq s idem has ttl specs = (Inr out, s')
        \<and> abs_acquire (level s) (claimed s) idem has specs = (out, level s', claimed s')
        \<and> (\<forall>j. lasting s j \<and> (ttl \<le> 0 \<or> j \<noteq> idem) \<longrightarrow> lasting s' j)"
    and acq_refuse: "validate_specs 0 specs = Some e \<Longrightarrow> acq s idem has ttl specs = (Inl e, s)"
    and get_claimed: "claimed (snd (fs_GetFloat F s k)) = claimed s"
    and decr_claimed: "claimed (snd (fs_DecrByFloorZero F s k d)) = claimed s"

section \<open>The in-memory store fulfils the contract\<close>

lemma mem_incr_law:
  "mem_incr s k d = (Inr (fadd (map_get (Fin 0) (mem_level s) k) d), mem_add (mem_sweep s) k d)"
  by (simp add: mem_incr_def Let_def mem_float_level [symmetric])
     (simp add: mem_add_def mem_float_def)

lemma mem_decr_law:
  "mem_decr_floor s k d =
     (Inr (floor_zero (fsub (map_get (Fin 0) (mem_level s) k) d)),
      mem_put (mem_sweep s) k (floor_zero (fsub (map_get (Fin 0) (mem_level s) k) d)))"
  by (simp add: mem_decr_floor_def Let_def mem_float_level)

lemma mem_get_law:
  "mem_get s k = (Inr (map_get (Fin 0) (mem_level s) k, mem_level s k \<noteq> None), mem_sweep s)"
  by (simp add: mem_get_def Let_def mem_float_level) (simp add: mem_level_def)

lemma level_put_sweep [simp]: "mem_level (mem_put (mem_sweep s) k v) = (mem_level s)(k \<mapsto> v)"
  by (simp add: level_swept) (simp add: mem_level_def)

lemma level_add_sweep [simp]: "mem_level (mem_add (mem_sweep s) k d) = add_level k d (mem_level s)"
  by (simp add: level_swept) (simp add: mem_level_def)

lemma level_sweep [simp]: "mem_level (mem_sweep s) = mem_level s"
  by (simp add: mem_level_def)

lemma claimed_sweep [simp]: "mem_claimed (mem_sweep s) = mem_claimed s"
  by (simp add: mem_claimed_def fun_eq_iff)

lemma claimed_put_sweep [simp]: "mem_claimed (mem_put (mem_sweep s) k v) = mem_claimed s"
  by (simp add: mem_claimed_def fun_eq_iff)

lemma mem_set_law:
  assumes "mem_lasting s k"
  shows "mem_level (snd (mem_set s k v 0)) = (mem_level s)(k \<mapsto> v)"
proof
  fix j
  show "mem_level (snd (mem_set s k v 0)) j = ((mem_level s)(k \<mapsto> v)) j"
    using assms by (auto simp: mem_set_def mem_level_def mem_sweep_def mem_expired_def mem_lasting_def split: option.splits)
qed

text \<open>
  The concrete acquire is the abstract one on levels and claims, whatever the claim's TTL.
\<close>

lemma mem_acquire_law:
  assumes "validate_specs 0 specs = None"
  shows "\<exists>out s'. mem_atomic_acquire s idem has ttl specs = (Inr out, s')
    \<and> abs_acquire (mem_level s) (mem_claimed s) idem has specs = (out, mem_level s', mem_claimed s')
    \<and> (\<forall>j. mem_lasting s j \<and> (ttl \<le> 0 \<or> j \<noteq> idem) \<longrightarrow> mem_lasting s' j)"
proof -
  let ?s = "mem_sweep s"
  let ?i = "first_exceeding (map_get (Fin 0) (mem_level s)) 0 specs"
  let ?t = "if has then mem_claim idem ttl ?s else ?s"
  have lv: "mem_float ?s = map_get (Fin 0) (mem_level s)" by (simp add: fun_eq_iff mem_float_level)
  have cl: "mem_claimed s idem \<longleftrightarrow> ms_strings ?s idem \<noteq> None" by (simp add: mem_claimed_def)
  note unf = mem_atomic_acquire_def abs_acquire_def lv Let_def assms
  have las: "\<forall>j. mem_lasting s j \<and> (ttl \<le> 0 \<or> j \<noteq> idem) \<longrightarrow> mem_lasting ?t j"
    using lasting_sweep by (auto simp: mem_lasting_def)
  consider (dup) "has \<and> mem_claimed s idem" | (deny) "\<not> (has \<and> mem_claimed s idem)" "?i \<noteq> 0"
    | (admit) "\<not> (has \<and> mem_claimed s idem)" "?i = 0" by blast
  then show ?thesis
  proof cases
    case dup
    then show ?thesis using cl lasting_sweep by (auto simp: unf)
  next
    case deny
    then show ?thesis using cl lasting_sweep by (auto simp: unf)
  next
    case admit
    have sw: "mem_swept ?t" by simp
    have "mem_level (fold mem_spend_spec specs ?t) = fold spend_level specs (mem_level s)"
      using sw by (simp add: level_swept) (simp add: mem_level_def)
    moreover have "mem_claimed (fold mem_spend_spec specs ?t) = (if has then (mem_claimed s)(idem := True) else mem_claimed s)"
      using sw by (simp add: claimed_swept fun_eq_iff) (simp add: mem_claimed_def)
    ultimately show ?thesis using admit cl las by (auto simp: unf mem_lasting_def)
  qed
qed

interpretation ms: acquiring_store mem_float_store mem_level mem_lasting mem_atomic_acquire mem_claimed
proof unfold_locales
  show "mem_atomic_acquire s idem has ttl specs = (Inl e, s)" if "validate_specs 0 specs = Some e" for s idem has ttl specs e
    using that by (simp add: mem_atomic_acquire_def)
qed (use mem_set_law mem_acquire_law lasting_sweep in \<open>auto simp: mem_float_store_def mem_incr_law mem_decr_law mem_get_law add_level_def
       mem_lasting_def mem_set_def Let_def\<close>)

section \<open>Counters never turn negative\<close>

text \<open>A level is sound when it is at least zero, which also excludes NaN.\<close>

definition sound_floats :: "(string \<rightharpoonup> f64) \<Rightarrow> bool" where
  "sound_floats m \<longleftrightarrow> (\<forall>k v. m k = Some v \<longrightarrow> fle (Fin 0) v)"

definition amount_ok :: "f64 \<Rightarrow> bool" where
  "amount_ok d \<longleftrightarrow> finite_f d \<and> fle (Fin 0) d"

lemma fadd_nonneg: "fle (Fin 0) a \<Longrightarrow> fle (Fin 0) b \<Longrightarrow> fle (Fin 0) (fadd a b)"
  using fround_mono [of 0] by (cases a; cases b) (auto simp: fle_def)

lemma floor_zero_nonneg: "fle (Fin 0) a \<Longrightarrow> finite_f d \<Longrightarrow> fle (Fin 0) (floor_zero (fsub a d))"
  by (cases a; cases d) (auto simp: floor_zero_def fsub_def finite_f_def fle_def)

lemma sound_get: "sound_floats m \<Longrightarrow> fle (Fin 0) (map_get (Fin 0) m k)"
  by (cases "m k") (auto simp: sound_floats_def)

lemma sound_upd: "sound_floats m \<Longrightarrow> fle (Fin 0) v \<Longrightarrow> sound_floats (m(k \<mapsto> v))"
  by (simp add: sound_floats_def)

lemma sound_restrict: "sound_floats m \<Longrightarrow> sound_floats (\<lambda>k. if P k then None else m k)"
  by (simp add: sound_floats_def)

lemma sound_add: "sound_floats m \<Longrightarrow> fle (Fin 0) d \<Longrightarrow> sound_floats (add_level k d m)"
  by (simp add: add_level_def sound_upd fadd_nonneg sound_get)

lemma sound_spend: "sound_floats m \<Longrightarrow> fle (Fin 0) (as_Delta sp) \<Longrightarrow> sound_floats (spend_level sp m)"
  by (simp add: spend_level_def sound_add Let_def)

lemma sound_sweep [simp]: "sound_floats (ms_floats s) \<Longrightarrow> sound_floats (ms_floats (mem_sweep s))"
  by (simp add: mem_sweep_def sound_restrict)

lemma sound_level: "sound_floats (ms_floats s) \<Longrightarrow> sound_floats (mem_level s)"
  by (simp add: mem_level_def)

lemma sound_seed [simp]: "sound_floats (ms_floats s) \<Longrightarrow> sound_floats (ms_floats (mem_seed v2p p s))"
  by (auto simp: mem_seed_def Let_def sound_floats_def split: option.splits)

lemma sound_seed_spec [simp]: "sound_floats (ms_floats s) \<Longrightarrow> sound_floats (ms_floats (mem_seed_spec v2p sp s))"
  by (simp add: mem_seed_spec_def Let_def)

lemma sound_dec_key:
  "sound_floats (ms_floats s) \<Longrightarrow> finite_f d \<Longrightarrow> sound_floats (ms_floats (mem_dec_key k d s))"
  by (simp add: mem_dec_key_def mem_float_def sound_upd floor_zero_nonneg sound_get)

lemma validate_specs_amounts:
  "validate_specs i specs = None \<Longrightarrow> sp \<in> set specs \<Longrightarrow> amount_ok (as_Delta sp)"
  by (induction i specs rule: validate_specs.induct)
     (auto simp: amount_ok_def fle_def finite_f_def split: if_splits f64.splits)

lemma sound_fold:
  assumes "\<And>x s. x \<in> set xs \<Longrightarrow> sound_floats (ms_floats s) \<Longrightarrow> sound_floats (ms_floats (f x s))"
    and "sound_floats (ms_floats s)"
  shows "sound_floats (ms_floats (fold f xs s))"
  using assms by (induction xs arbitrary: s) auto

lemma second_shape_Delta [simp]: "as_Delta (second_shape sp) = as_Delta sp"
  by (simp add: second_shape_def)

text \<open>
  The operations of the store, with the arguments the engine passes: increments of a finite
  non-negative amount, decrements of a finite one, sets to a non-negative value. The atomic
  acquires check their own arguments. Time passes in between.
\<close>

inductive store_step :: "mem_store \<Rightarrow> mem_store \<Rightarrow> bool" where
  incr: "amount_ok d \<Longrightarrow> store_step s (snd (mem_incr s k d))"
| decr: "finite_f d \<Longrightarrow> store_step s (snd (mem_decr_floor s k d))"
| get: "store_step s (snd (mem_get s k))"
| set: "fle (Fin 0) v \<Longrightarrow> store_step s (snd (mem_set s k v ttl))"
| delete: "store_step s (snd (mem_delete s ks))"
| expire: "store_step s (snd (mem_expire s k ttl))"
| set_if_absent: "store_step s (snd (mem_set_if_absent s k str ttl))"
| acquire: "store_step s (snd (mem_atomic_acquire s idem has ttl specs))"
| dual_spend_org: "amount_ok d \<Longrightarrow> store_step s (snd (mem_dual_spend_org s p d v2p))"
| dual_spend_user: "amount_ok d \<Longrightarrow> store_step s (snd (mem_dual_spend_user s p q r d v2p))"
| dual_decr: "finite_f d \<Longrightarrow> store_step s (snd (mem_dual_decr_floor s p d v2p))"
| dual_acc_add: "amount_ok d \<Longrightarrow> store_step s (snd (mem_dual_acc_add s p d ttl v2p))"
| dual_acquire: "store_step s (snd (mem_dual_atomic_acquire s p has ttl v2p specs))"
| tick: "ms_now s \<le> t \<Longrightarrow> store_step s (s\<lparr>ms_now := t\<rparr>)"

lemma acquire_sound:
  assumes "sound_floats (ms_floats s)"
  shows "sound_floats (ms_floats (snd (mem_atomic_acquire s idem has ttl specs)))"
proof (cases "validate_specs 0 specs")
  case None
  then have "\<forall>sp \<in> set specs. fle (Fin 0) (as_Delta sp)"
    using validate_specs_amounts by (auto simp: amount_ok_def)
  then have "sound_floats (ms_floats (fold mem_spend_spec specs t))" if "sound_floats (ms_floats t)" for t
    using that by (intro sound_fold) (auto simp: sound_spend)
  with assms None show ?thesis by (auto simp: mem_atomic_acquire_def Let_def)
qed (use assms in \<open>simp add: mem_atomic_acquire_def\<close>)

lemma dual_acquire_sound:
  assumes "sound_floats (ms_floats s)"
  shows "sound_floats (ms_floats (snd (mem_dual_atomic_acquire s p has ttl v2p specs)))"
proof (cases "validate_specs 0 specs")
  case None
  let ?spend = "\<lambda>sp s. let s = mem_spend_spec sp s in if dp_S p \<noteq> [] then mem_spend_spec (second_shape sp) s else s"
  have "\<forall>sp \<in> set specs. fle (Fin 0) (as_Delta sp)"
    using None validate_specs_amounts by (auto simp: amount_ok_def)
  then have sp: "sound_floats (ms_floats (fold ?spend specs t))" if "sound_floats (ms_floats t)" for t
    using that by (intro sound_fold) (auto simp: sound_spend Let_def)
  have "sound_floats (ms_floats (fold (mem_seed_spec v2p) specs (mem_sweep s)))"
    using assms by (intro sound_fold) auto
  with sp None show ?thesis by (auto simp: mem_dual_atomic_acquire_def Let_def)
qed (use assms in \<open>simp add: mem_dual_atomic_acquire_def\<close>)

lemma store_step_sound:
  "store_step s s' \<Longrightarrow> sound_floats (ms_floats s) \<Longrightarrow> sound_floats (ms_floats s')"
proof (induction rule: store_step.induct)
  case (delete s ks)
  have "sound_floats (ms_floats (fold mem_delete1 ks s))"
    using delete by (intro sound_fold) (auto simp: mem_delete1_def sound_floats_def)
  then show ?case by (simp add: mem_delete_def)
next
  case (dual_spend_user d s p q r v2p)
  then show ?case by (simp add: mem_dual_spend_user_def Let_def amount_ok_def sound_add)
next
  case (decr d s k)
  then show ?case
    unfolding mem_decr_law snd_conv put_fields by (intro sound_upd floor_zero_nonneg sound_get sound_level sound_sweep)
qed (auto simp: mem_incr_def mem_get_def mem_set_def mem_expire_def mem_set_if_absent_def amount_ok_def
       mem_dual_spend_org_def mem_dual_decr_floor_def mem_dual_acc_add_def Let_def
       sound_add sound_upd sound_dec_key acquire_sound dual_acquire_sound)



section \<open>Admission\<close>

definition spec_keys :: "acquire_spec \<Rightarrow> string list" where
  "spec_keys sp = as_OrgKey sp # (if as_HasUser sp then [as_SeqKey sp, as_UserKey sp] else [])"

definition acquire_keys :: "acquire_spec list \<Rightarrow> string list" where
  "acquire_keys specs = concat (map spec_keys specs)"

lemma first_exceeding_none: "first_exceeding lv i specs = 0 \<longleftrightarrow> (\<forall>sp \<in> set specs. \<not> spec_exceeds lv sp)"
  by (induction specs arbitrary: i) auto

lemma first_exceeding_index:
  "first_exceeding lv i specs = Suc j \<Longrightarrow> i \<le> j \<and> j < i + length specs \<and> spec_exceeds lv (specs ! (j - i))"
proof (induction specs arbitrary: i)
  case (Cons sp specs)
  show ?case
  proof (cases "spec_exceeds lv sp")
    case False
    with Cons.prems have "first_exceeding lv (i + 1) specs = Suc j" by simp
    from Cons.IH [OF this] show ?thesis by (auto simp: nth_Cons')
  qed (use Cons.prems in auto)
qed simp

lemma spend_level_other: "k \<notin> set (spec_keys sp) \<Longrightarrow> spend_level sp lv k = lv k"
  by (auto simp: spend_level_def spec_keys_def add_level_def Let_def)

lemma spend_levels_other: "k \<notin> set (acquire_keys specs) \<Longrightarrow> fold spend_level specs lv k = lv k"
  by (induction specs arbitrary: lv) (auto simp: acquire_keys_def spend_level_other)

lemma acquire_keys_Cons:
  "distinct (acquire_keys (sp # specs)) \<longleftrightarrow> distinct (spec_keys sp) \<and> distinct (acquire_keys specs)
     \<and> set (spec_keys sp) \<inter> set (acquire_keys specs) = {}"
  by (simp add: acquire_keys_def)

text \<open>A key that a request names once gets one increment: the delta, or one on a sequence key.\<close>

definition key_delta :: "acquire_spec \<Rightarrow> string \<Rightarrow> f64" where
  "key_delta sp k = (if as_HasUser sp \<and> k = as_SeqKey sp then Fin 1 else as_Delta sp)"

lemma count_list_zero: "count_list xs k = 0 \<longleftrightarrow> k \<notin> set xs"
  by (induction xs) auto

lemma distinct_count: "distinct xs \<Longrightarrow> count_list xs k \<le> 1"
  by (induction xs) (auto simp: count_list_zero [symmetric])

lemma acquire_keys_count: "count_list (acquire_keys (sp # specs)) k = count_list (spec_keys sp) k + count_list (acquire_keys specs) k"
  by (simp add: acquire_keys_def)

lemma spend_level_once:
  "count_list (spec_keys sp) k = 1 \<Longrightarrow> spend_level sp lv k = Some (fadd (map_get (Fin 0) lv k) (key_delta sp k))"
  by (auto simp: spend_level_def spec_keys_def add_level_def key_delta_def map_get_def Let_def split: if_splits)

lemma spend_levels_once:
  assumes "count_list (acquire_keys specs) k \<le> 1" and "sp \<in> set specs" and "k \<in> set (spec_keys sp)"
  shows "fold spend_level specs lv k = Some (fadd (map_get (Fin 0) lv k) (key_delta sp k))"
  using assms
proof (induction specs arbitrary: lv)
  case (Cons sp' specs)
  have pos: "count_list (spec_keys sp) k \<ge> 1" using Cons.prems(3) count_list_zero by (metis One_nat_def Suc_leI neq0_conv)
  show ?case
  proof (cases "k \<in> set (spec_keys sp')")
    case True
    then have c: "count_list (spec_keys sp') k = 1" "count_list (acquire_keys specs) k = 0"
      using Cons.prems(1) count_list_zero [of "spec_keys sp'" k] by (auto simp: acquire_keys_count)
    then have "sp \<notin> set specs" using Cons.prems(3) by (auto simp: count_list_zero acquire_keys_def)
    then have "sp' = sp" using Cons.prems(2) by simp
    with c spend_level_once [of sp k lv] show ?thesis by (simp add: count_list_zero spend_levels_other)
  next
    case False
    with Cons.prems have "sp \<in> set specs" "count_list (acquire_keys specs) k \<le> 1" by (auto simp: acquire_keys_count)
    with Cons.IH [of "spend_level sp' lv"] Cons.prems(3) spend_level_other [OF False] show ?thesis by (simp add: map_get_def)
  qed
qed simp

text \<open>With distinct keys each gauge of a bundle gets its own delta exactly once.\<close>

lemma spend_levels_at:
  assumes "distinct (acquire_keys specs)" and "sp \<in> set specs" and "k \<in> set (spec_keys sp)"
  shows "fold spend_level specs lv k = spend_level sp lv k"
proof -
  have "distinct (spec_keys sp)" using assms(1,2) by (induction specs) (auto simp: acquire_keys_Cons)
  then have "count_list (spec_keys sp) k = 1" using assms(3) distinct_count [of "spec_keys sp" k] count_list_zero [of "spec_keys sp" k] by linarith
  then show ?thesis using spend_levels_once [OF distinct_count [OF assms(1)] assms(2,3)] spend_level_once by simp
qed

lemma spend_levels_gauge:
  assumes "distinct (acquire_keys specs)" and "sp \<in> set specs"
  shows "fold spend_level specs lv (as_OrgKey sp) = Some (fadd (map_get (Fin 0) lv (as_OrgKey sp)) (as_Delta sp))"
    and "as_HasUser sp \<Longrightarrow> fold spend_level specs lv (as_UserKey sp) = Some (fadd (map_get (Fin 0) lv (as_UserKey sp)) (as_Delta sp))"
proof -
  have dk: "distinct (spec_keys sp)" using assms by (induction specs) (auto simp: acquire_keys_Cons)
  note once = spend_levels_once [OF distinct_count [OF assms(1)] assms(2)]
  show "fold spend_level specs lv (as_OrgKey sp) = Some (fadd (map_get (Fin 0) lv (as_OrgKey sp)) (as_Delta sp))"
    using once [of "as_OrgKey sp"] dk by (auto simp: spec_keys_def key_delta_def)
  show "fold spend_level specs lv (as_UserKey sp) = Some (fadd (map_get (Fin 0) lv (as_UserKey sp)) (as_Delta sp))" if "as_HasUser sp"
    using once [of "as_UserKey sp"] dk that by (auto simp: spec_keys_def key_delta_def)
qed

lemma not_over_limit:
  assumes "\<not> over_limit cur d (Some l)" and "l \<noteq> NaN" and "fle (Fin 0) cur" and "amount_ok d"
  shows "fle (fadd cur d) l"
proof -
  have "fle (Fin 0) (fadd cur d)" using assms by (auto simp: amount_ok_def intro: fadd_nonneg)
  with assms show ?thesis by (auto simp: over_limit_def fle_def)
qed

lemma validate_specs_limits:
  "validate_specs i specs = None \<Longrightarrow> sp \<in> set specs \<Longrightarrow>
     as_OrgLimit sp \<noteq> Some NaN \<and> (as_HasUser sp \<longrightarrow> as_UserLimit sp \<noteq> Some NaN)"
  by (induction i specs rule: validate_specs.induct) (auto split: if_splits)

text \<open>An admitted acquire that was not a replay, on levels: nothing exceeded and all was spent.\<close>

lemma abs_acquire_admitted:
  assumes "abs_acquire lv cl idem has specs = (out, lv', cl')" and "ao_Admitted out" and "\<not> ao_Dup out"
  shows "lv' = fold spend_level specs lv \<and> (\<forall>sp \<in> set specs. \<not> spec_exceeds (map_get (Fin 0) lv) sp)"
  using assms by (auto simp: abs_acquire_def Let_def first_exceeding_none split: if_splits)

lemma abs_acquire_kept:
  assumes "abs_acquire lv cl idem has specs = (out, lv', cl')" and "\<not> ao_Admitted out \<or> ao_Dup out"
  shows "lv' = lv \<and> cl' = cl"
  using assms by (auto simp: abs_acquire_def Let_def split: if_splits)

definition within_limits :: "(string \<rightharpoonup> f64) \<Rightarrow> acquire_spec \<Rightarrow> bool" where
  "within_limits lv sp \<longleftrightarrow>
     (case as_OrgLimit sp of None \<Rightarrow> True | Some l \<Rightarrow> fle (map_get (Fin 0) lv (as_OrgKey sp)) l) \<and>
     (as_HasUser sp \<longrightarrow> (case as_UserLimit sp of None \<Rightarrow> True | Some l \<Rightarrow> fle (map_get (Fin 0) lv (as_UserKey sp)) l))"

lemma acquire_admitted_levels:
  assumes "mem_atomic_acquire s idem has ttl specs = (Inr out, s')" and "ao_Admitted out" and "\<not> ao_Dup out"
  shows "validate_specs 0 specs = None" and "mem_level s' = fold spend_level specs (mem_level s)"
    and "\<forall>sp \<in> set specs. \<not> spec_exceeds (map_get (Fin 0) (mem_level s)) sp"
proof -
  show v: "validate_specs 0 specs = None"
    using assms(1) ms.acq_refuse by (cases "validate_specs 0 specs") auto
  from ms.acq_law [OF this, of s idem has ttl] assms(1)
  have "abs_acquire (mem_level s) (mem_claimed s) idem has specs = (out, mem_level s', mem_claimed s')" by auto
  from abs_acquire_admitted [OF this assms(2,3)]
  show "mem_level s' = fold spend_level specs (mem_level s)"
    and "\<forall>sp \<in> set specs. \<not> spec_exceeds (map_get (Fin 0) (mem_level s)) sp" by auto
qed

lemma spent_within_limits:
  assumes "validate_specs 0 specs = None" and "distinct (acquire_keys specs)" and "sp \<in> set specs"
    and "\<not> spec_exceeds (map_get (Fin 0) lv) sp" and "sound_floats lv"
  shows "within_limits (fold spend_level specs lv) sp"
proof -
  note d = validate_specs_amounts [OF assms(1,3)] and l = validate_specs_limits [OF assms(1,3)]
  show ?thesis
    using assms(4) spend_levels_gauge [OF assms(2,3), of lv] not_over_limit [OF _ _ sound_get [OF assms(5)] d] l
    by (auto simp: within_limits_def spec_exceeds_def split: option.splits)
qed

text \<open>
  C3. Atomic admission. An admitted acquire of gauges with distinct keys that was not a replay leaves
  every gauge it names, the org level and, where the request carries a user, the user's level, at its
  old value plus the delta and within the limit that was asked for; the float comparison is the one the
  code makes, so no rounding slips a value past its limit.
\<close>

theorem atomic_acquire_within_limits:
  assumes "mem_atomic_acquire s idem has ttl specs = (Inr out, s')" and "ao_Admitted out" and "\<not> ao_Dup out"
    and "distinct (acquire_keys specs)" and "sound_floats (ms_floats s)" and "sp \<in> set specs"
  shows "mem_level s' (as_OrgKey sp) = Some (fadd (map_get (Fin 0) (mem_level s) (as_OrgKey sp)) (as_Delta sp))
    \<and> (as_HasUser sp \<longrightarrow> mem_level s' (as_UserKey sp) = Some (fadd (map_get (Fin 0) (mem_level s) (as_UserKey sp)) (as_Delta sp)))
    \<and> within_limits (mem_level s') sp"
proof -
  note a = acquire_admitted_levels [OF assms(1-3)]
  show ?thesis
    using a(2,3) spent_within_limits [OF a(1) assms(4,6) _ sound_level [OF assms(5)]] assms(6)
      spend_levels_gauge [OF assms(4,6)] by simp
qed

definition one_gauge :: "string \<Rightarrow> f64 \<Rightarrow> acquire_spec" where
  "one_gauge k l = \<lparr>as_OrgKey = k, as_UserKey = [], as_SeqKey = [], as_HasUser = False, as_Delta = Fin 1,
     as_OrgLimit = Some l, as_UserLimit = None, as_OrgKey2 = [], as_UserKey2 = [], as_SeqKey2 = []\<rparr>"

definition user_gauge :: acquire_spec where
  "user_gauge = (one_gauge ''g'' (Fin 2))\<lparr>as_UserKey := ''u'', as_SeqKey := ''q'', as_HasUser := True, as_UserLimit := Some (Fin 1)\<rparr>"

theorem atomic_acquire_within_limits_witness:
  "\<exists>s'. mem_atomic_acquire (mem_empty 0) ''i'' True 0 [user_gauge]
      = (Inr \<lparr>ao_Admitted = True, ao_Dup = False, ao_DeniedIndex = 0\<rparr>, s')
     \<and> mem_level s' ''g'' = Some (Fin 1) \<and> mem_level s' ''u'' = Some (Fin 1) \<and> within_limits (mem_level s') user_gauge"
proof -
  let ?r = "mem_atomic_acquire (mem_empty 0) ''i'' True 0 [user_gauge]"
  have r: "?r = (Inr \<lparr>ao_Admitted = True, ao_Dup = False, ao_DeniedIndex = 0\<rparr>, snd ?r)"
    by (simp add: mem_atomic_acquire_def user_gauge_def one_gauge_def finite_f_def mem_sweep_def mem_empty_def Let_def
        spec_exceeds_def over_limit_def mem_float_def map_get_def)
  have lv: "mem_level (mem_empty 0) = Map.empty" by (simp add: mem_level_def mem_empty_def mem_sweep_def fun_eq_iff)
  from atomic_acquire_within_limits [OF r, of user_gauge] r
  show ?thesis by (auto simp: acquire_keys_def spec_keys_def sound_floats_def mem_empty_def user_gauge_def one_gauge_def lv
      map_get_def lv [unfolded mem_empty_def])
qed

section \<open>Interleaved clients\<close>

lemma floor_zero_le: "is_f64 a \<Longrightarrow> fle (Fin 0) a \<Longrightarrow> amount_ok d \<Longrightarrow> fle (floor_zero (fsub a d)) a"
proof (cases a)
  case (Fin x)
  assume a: "is_f64 a" "fle (Fin 0) a" and d: "amount_ok d"
  then obtain y where y: "d = Fin y" "0 \<le> y" by (cases d) (auto simp: amount_ok_def finite_f_def)
  have "fle (fround (x - y)) (fround x)" using y by (intro fround_mono) simp
  with a Fin y show ?thesis by (auto simp: floor_zero_def fsub_def is_f64_def)
qed (auto simp: floor_zero_def fsub_def fle_def amount_ok_def finite_f_def split: f64.splits)

text \<open>A request that respects limit \<open>L\<close> of gauge \<open>k\<close>: wherever it names \<open>k\<close> it asks for \<open>L\<close>.\<close>

definition asks_limit :: "string \<Rightarrow> f64 \<Rightarrow> acquire_spec \<Rightarrow> bool" where
  "asks_limit k L sp \<longleftrightarrow>
     (as_OrgKey sp = k \<longrightarrow> as_OrgLimit sp = Some L) \<and>
     (as_HasUser sp \<longrightarrow> as_SeqKey sp \<noteq> k \<and> (as_UserKey sp = k \<longrightarrow> as_UserLimit sp = Some L))"

inductive gate_step :: "string \<Rightarrow> f64 \<Rightarrow> mem_store \<Rightarrow> mem_store \<Rightarrow> bool" for k L where
  acquire: "count_list (acquire_keys specs) k \<le> 1 \<Longrightarrow> list_all (asks_limit k L) specs \<Longrightarrow>
     gate_step k L s (snd (mem_atomic_acquire s idem has ttl specs))"
| release: "amount_ok d \<Longrightarrow> gate_step k L s (snd (mem_decr_floor s j d))"
| read: "gate_step k L s (snd (mem_get s j))"
| tick: "ms_now s \<le> t \<Longrightarrow> gate_step k L s (s\<lparr>ms_now := t\<rparr>)"

definition gate_ok :: "string \<Rightarrow> f64 \<Rightarrow> mem_store \<Rightarrow> bool" where
  "gate_ok k L s \<longleftrightarrow> sound_floats (ms_floats s) \<and> is_f64 (map_get (Fin 0) (mem_level s) k)
     \<and> fle (map_get (Fin 0) (mem_level s) k) L"

lemma level_tick: "ms_now s \<le> t \<Longrightarrow> mem_level (s\<lparr>ms_now := t\<rparr>) k \<in> {None, mem_level s k}"
  by (auto simp: mem_level_def mem_sweep_def mem_expired_def split: option.splits)

lemma spend_levels_is_f64:
  "is_f64 (map_get (Fin 0) lv k) \<Longrightarrow> is_f64 (map_get (Fin 0) (fold spend_level specs lv) k)"
proof (induction specs arbitrary: lv)
  case (Cons sp specs)
  have "is_f64 (map_get (Fin 0) (spend_level sp lv) k)"
    using Cons.prems by (auto simp: spend_level_def add_level_def Let_def)
  with Cons.IH show ?case by simp
qed simp

lemma asked_within:
  assumes "validate_specs 0 specs = None" and "count_list (acquire_keys specs) k \<le> 1" and "sp \<in> set specs" and "k \<in> set (spec_keys sp)"
    and "asks_limit k L sp" and "\<not> spec_exceeds (map_get (Fin 0) lv) sp" and "sound_floats lv"
  shows "fle (map_get (Fin 0) (fold spend_level specs lv) k) L"
proof -
  have u: "k = as_OrgKey sp \<and> as_OrgLimit sp = Some L \<or> as_HasUser sp \<and> k = as_UserKey sp \<and> as_UserLimit sp = Some L" "key_delta sp k = as_Delta sp"
    using assms(4,5) by (auto simp: asks_limit_def spec_keys_def key_delta_def split: if_splits)
  then have o: "\<not> over_limit (map_get (Fin 0) lv k) (as_Delta sp) (Some L)" "L \<noteq> NaN"
    using assms(6) validate_specs_limits [OF assms(1,3)] by (auto simp: spec_exceeds_def)
  from not_over_limit [OF o sound_get [OF assms(7)] validate_specs_amounts [OF assms(1,3)]]
  show ?thesis using spend_levels_once [OF assms(2-4), of lv] u(2) by (simp add: map_get_def)
qed

lemma gate_acquire:
  assumes "gate_ok k L s" and "count_list (acquire_keys specs) k \<le> 1" and "list_all (asks_limit k L) specs"
  shows "gate_ok k L (snd (mem_atomic_acquire s idem has ttl specs))"
proof (cases "validate_specs 0 specs")
  case None
  obtain out s' where acq: "mem_atomic_acquire s idem has ttl specs = (Inr out, s')"
    and abs: "abs_acquire (mem_level s) (mem_claimed s) idem has specs = (out, mem_level s', mem_claimed s')"
    using ms.acq_law [OF None, of s idem has ttl] by blast
  have sound: "sound_floats (ms_floats s')" using acquire_sound [of s idem has ttl specs] assms(1) acq by (simp add: gate_ok_def)
  show ?thesis
  proof (cases "ao_Admitted out \<and> \<not> ao_Dup out")
    case True
    note lv = abs_acquire_admitted [OF abs] and w = asked_within [OF None assms(2)]
    have "fle (map_get (Fin 0) (mem_level s') k) L"
    proof (cases "k \<in> set (acquire_keys specs)")
      case True
      then obtain sp where sp: "sp \<in> set specs" "k \<in> set (spec_keys sp)" by (auto simp: acquire_keys_def)
      with w [OF sp] lv \<open>ao_Admitted out \<and> _\<close> assms(1,3) sound_level show ?thesis by (auto simp: gate_ok_def list_all_iff)
    next
      case False
      with lv \<open>ao_Admitted out \<and> _\<close> assms(1) spend_levels_other [OF False] show ?thesis by (simp add: gate_ok_def map_get_def)
    qed
    with lv True sound assms(1) acq spend_levels_is_f64 show ?thesis by (auto simp: gate_ok_def)
  next
    case False
    with abs_acquire_kept [OF abs] sound assms(1) acq show ?thesis by (auto simp: gate_ok_def)
  qed
qed (use assms(1) ms.acq_refuse in \<open>auto simp: gate_ok_def\<close>)

lemma gate_step_ok:
  assumes "gate_step k L s s'" and "gate_ok k L s" and "fle (Fin 0) L"
  shows "gate_ok k L s'"
  using assms(1)
proof cases
  case (acquire specs idem has ttl)
  with assms(2) gate_acquire show ?thesis by auto
next
  case (release d j)
  let ?v = "floor_zero (fsub (map_get (Fin 0) (mem_level s) j) d)"
  have snd: "sound_floats (ms_floats s')"
    using release assms(2) store_step_sound [OF store_step.decr] by (auto simp: gate_ok_def amount_ok_def)
  have "is_f64 ?v" by (simp add: floor_zero_def)
  moreover have "j = k \<Longrightarrow> fle ?v L"
    using floor_zero_le fle_trans assms(2) release(2) sound_get [OF sound_level] unfolding gate_ok_def by metis
  ultimately show ?thesis using assms(2) snd release(1) unfolding gate_ok_def mem_decr_law snd_conv level_put_sweep by auto
next
  case (read j)
  with assms(2) show ?thesis by (simp add: gate_ok_def mem_get_law)
next
  case (tick t)
  with level_tick [OF tick(2), of k] assms(2,3) show ?thesis by (auto simp: gate_ok_def map_get_def)
qed

text \<open>
  C1. The limit holds under concurrency. Let any number of clients acquire, release and read
  through the in-memory store in any interleaving, with any claims and any passage of time, where
  each acquire names gauge \<open>k\<close> at most once, as a gauge, and then asks for the limit \<open>L\<close>, which is not
  negative, and releases are of finite amounts that are not negative. The gauge never exceeds
  \<open>L\<close>: no check-then-spend window exists. That a request names the gauge once is a condition on the
  callers, which the code does not enforce: one that names it twice is tested once per mention against
  the level before the spend and passes the limit.
\<close>

theorem limit_never_exceeded:
  assumes "(gate_step k L)\<^sup>*\<^sup>* (mem_empty t) s" and "fle (Fin 0) L"
  shows "fle (map_get (Fin 0) (mem_level s) k) L"
proof -
  have "gate_ok k L s"
    using assms(1)
  proof (induction rule: rtranclp_induct)
    case base
    then show ?case using assms(2)
      by (simp add: gate_ok_def sound_floats_def mem_empty_def mem_level_def mem_sweep_def map_get_def)
  next
    case (step s s')
    with gate_step_ok assms(2) show ?case by blast
  qed
  then show ?thesis by (simp add: gate_ok_def)
qed

theorem limit_never_exceeded_witness:
  "\<exists>s. (gate_step ''g'' (Fin 1))\<^sup>*\<^sup>* (mem_empty 0) s \<and> s \<noteq> mem_empty 0
     \<and> fle (map_get (Fin 0) (mem_level s) ''g'') (Fin 1)"
proof -
  let ?s = "snd (mem_atomic_acquire (mem_empty 0) ''i'' True 0 [one_gauge ''g'' (Fin 1)])"
  have "gate_step ''g'' (Fin 1) (mem_empty 0) ?s"
    by (rule gate_step.acquire) (simp_all add: acquire_keys_def spec_keys_def one_gauge_def asks_limit_def)
  then have r: "(gate_step ''g'' (Fin 1))\<^sup>*\<^sup>* (mem_empty 0) ?s" by simp
  have "ms_strings ?s ''i'' = Some ''1''"
    by (simp add: mem_atomic_acquire_def one_gauge_def finite_f_def mem_sweep_def mem_empty_def Let_def
        spec_exceeds_def over_limit_def mem_float_def map_get_def)
  then have "?s \<noteq> mem_empty 0" by (auto simp: mem_empty_def)
  with limit_never_exceeded [OF r] r show ?thesis by auto
qed

text \<open>
  C2. Refinement: seen through the live levels and claims, the in-memory acquire is the abstract
  one. A request with a bad amount or limit is refused with no effect; a replayed claim is
  admitted with no effect; a request with a gauge over its limit is denied with no effect, naming
  the first such gauge; otherwise all gauges are spent and the claim is taken, in one step.
\<close>

theorem atomic_acquire_refines:
  "case mem_atomic_acquire s idem has ttl specs of
     (Inl e, s') \<Rightarrow> validate_specs 0 specs = Some e \<and> s' = s
   | (Inr out, s') \<Rightarrow>
       validate_specs 0 specs = None \<and>
       abs_acquire (mem_level s) (mem_claimed s) idem has specs = (out, mem_level s', mem_claimed s')"
proof (cases "validate_specs 0 specs")
  case None
  then show ?thesis using ms.acq_law [OF None, of s idem has ttl] by auto
next
  case (Some e)
  then show ?thesis using ms.acq_refuse [OF Some] by simp
qed

text \<open>
  C4. Exactly once per claim: once an acquire with a claim was admitted, repeating it before the
  claim expires, with the same or any other valid request, is reported as a duplicate and
  spends nothing.
\<close>

theorem acquire_replay_spends_nothing:
  assumes "mem_atomic_acquire s idem True ttl specs = (Inr out, s1)" and "ao_Admitted out"
    and "mem_lasting s idem" and "ms_now s \<le> t"
    and "0 < ttl \<longrightarrow> t \<le> ms_now s + ttl" and "validate_specs 0 specs' = None"
  shows "\<exists>s2. mem_atomic_acquire (s1\<lparr>ms_now := t\<rparr>) idem True ttl' specs'
      = (Inr \<lparr>ao_Admitted = True, ao_Dup = True, ao_DeniedIndex = 0\<rparr>, s2)
    \<and> mem_level s2 = mem_level (s1\<lparr>ms_now := t\<rparr>)"
proof -
  have v: "validate_specs 0 specs = None" using assms(1) ms.acq_refuse by (cases "validate_specs 0 specs") auto
  have las: "ms_expiry (mem_sweep s) idem = None" using assms(3) lasting_sweep by (simp add: mem_lasting_def)
  have "ms_strings s1 idem \<noteq> None \<and> (\<forall>e. ms_expiry s1 idem = Some e \<longrightarrow> t \<le> e)"
    using assms(1,2,5) v las by (auto simp: mem_atomic_acquire_def Let_def split: if_splits)
  then have cl: "mem_claimed (s1\<lparr>ms_now := t\<rparr>) idem"
    by (auto simp: mem_claimed_def mem_sweep_def mem_expired_def split: option.splits)
  obtain out2 s2 where "mem_atomic_acquire (s1\<lparr>ms_now := t\<rparr>) idem True ttl' specs' = (Inr out2, s2)"
    and "abs_acquire (mem_level (s1\<lparr>ms_now := t\<rparr>)) (mem_claimed (s1\<lparr>ms_now := t\<rparr>)) idem True specs'
      = (out2, mem_level s2, mem_claimed s2)"
    using ms.acq_law [OF assms(6)] by blast
  with cl show ?thesis by (auto simp: abs_acquire_def)
qed

theorem acquire_replay_spends_nothing_witness:
  "\<exists>out s1 s2. mem_atomic_acquire (mem_empty 0) ''i'' True 10 [one_gauge ''g'' (Fin 1)] = (Inr out, s1)
     \<and> mem_atomic_acquire (s1\<lparr>ms_now := 5\<rparr>) ''i'' True 10 [one_gauge ''g'' (Fin 1)]
         = (Inr \<lparr>ao_Admitted = True, ao_Dup = True, ao_DeniedIndex = 0\<rparr>, s2)
     \<and> mem_level s2 = mem_level (s1\<lparr>ms_now := 5\<rparr>)"
proof -
  let ?sp = "[one_gauge ''g'' (Fin 1)]"
  let ?r = "mem_atomic_acquire (mem_empty 0) ''i'' True 10 ?sp"
  have r: "?r = (Inr \<lparr>ao_Admitted = True, ao_Dup = False, ao_DeniedIndex = 0\<rparr>, snd ?r)"
    by (simp add: mem_atomic_acquire_def one_gauge_def finite_f_def mem_sweep_def mem_empty_def Let_def
        spec_exceeds_def over_limit_def mem_float_def map_get_def)
  from acquire_replay_spends_nothing [OF r, of 5 ?sp 10] r show ?thesis
    by (auto simp: mem_lasting_def mem_empty_def one_gauge_def finite_f_def)
qed

section \<open>The sliding window\<close>

lemma mr_record_key:
  "map_get [] (snd (mr_record s key t w m)) key = filter (\<lambda>x. t - w \<le> x) (map_get [] s key @ [t])"
  by (simp add: mr_record_def mr_trim_def)

lemma records_window:
  assumes "\<forall>t \<in> set ts. t \<le> now"
  shows "filter (\<lambda>x. now - w \<le> x) (map_get [] (fold (\<lambda>t s. snd (mr_record s key t w m)) ts s) key)
    = filter (\<lambda>x. now - w \<le> x) (map_get [] s key @ ts)"
  using assms
proof (induction ts arbitrary: s)
  case (Cons t ts)
  have "filter (\<lambda>x. now - w \<le> x) (filter (\<lambda>x. t - w \<le> x) xs) = filter (\<lambda>x. now - w \<le> x) xs" for xs
    using Cons.prems by (induction xs) auto
  with Cons show ?case by (simp add: mr_record_key)
qed simp

text \<open>
  The rate counter is exact: after events recorded at any instants up to now, in any order,
  the count is the number of events inside the window that ends now. Trimming on every record
  never loses an event that a later count should see.
\<close>

theorem rate_count_exact:
  assumes "\<forall>t \<in> set ts. t \<le> now"
  shows "fst (mr_count (fold (\<lambda>t s. snd (mr_record s key t w m)) ts Map.empty) key now w)
    = Inr (int (length (filter (\<lambda>t. now - w \<le> t) ts)))"
  using records_window [OF assms, of w key m Map.empty] by (simp add: mr_count_def mr_trim_def Let_def)

theorem rate_count_exact_witness:
  "fst (mr_count (fold (\<lambda>t s. snd (mr_record s ''k'' t 10 [])) [1, 5, 12, 9] Map.empty) ''k'' 14 10) = Inr 3"
  using rate_count_exact [of "[1, 5, 12, 9]" 14 "''k''" 10 "[]"] by simp

section \<open>Both shapes during a migration\<close>

text \<open>
  A family of counters in a dual keyspace: no key serves two counters or both shapes of one.
\<close>

definition pairs_ok :: "dual_pair set \<Rightarrow> bool" where
  "pairs_ok PS \<longleftrightarrow> (\<forall>p \<in> PS. dp_S p \<noteq> [] \<and>
     (\<forall>q \<in> PS. dp_P p \<noteq> dp_S q \<and> (dp_P p = dp_P q \<longrightarrow> p = q) \<and> (dp_S p = dp_S q \<longrightarrow> p = q)))"

text \<open>The v2 key is not written yet, or it holds the v1 value.\<close>

definition shapes_agree :: "bool \<Rightarrow> (string \<rightharpoonup> f64) \<Rightarrow> dual_pair \<Rightarrow> bool" where
  "shapes_agree v2p m p \<longleftrightarrow> m (dp_P p) = m (dp_S p) \<or> m (if v2p then dp_P p else dp_S p) = None"

definition dual_ok :: "bool \<Rightarrow> dual_pair set \<Rightarrow> mem_store \<Rightarrow> bool" where
  "dual_ok v2p PS s \<longleftrightarrow> (\<forall>p \<in> PS. shapes_agree v2p (ms_floats s) p \<and> mem_lasting s (dp_P p) \<and> mem_lasting s (dp_S p))"

lemma add_level_views:
  assumes "pairs_ok PS" and "p \<in> PS" and "q \<in> PS"
  shows "add_level (dp_P p) d m (dp_P q) = (if q = p then Some (fadd (map_get (Fin 0) m (dp_P p)) d) else m (dp_P q))"
    and "add_level (dp_S p) d m (dp_S q) = (if q = p then Some (fadd (map_get (Fin 0) m (dp_S p)) d) else m (dp_S q))"
    and "add_level (dp_P p) d m (dp_S q) = m (dp_S q)" and "add_level (dp_S p) d m (dp_P q) = m (dp_P q)"
proof -
  have "dp_P p = dp_P q \<longleftrightarrow> p = q" "dp_S p = dp_S q \<longleftrightarrow> p = q" "dp_P p \<noteq> dp_S q" "dp_P q \<noteq> dp_S p"
    using assms by (auto simp: pairs_ok_def)
  then show "add_level (dp_P p) d m (dp_P q) = (if q = p then Some (fadd (map_get (Fin 0) m (dp_P p)) d) else m (dp_P q))"
    "add_level (dp_S p) d m (dp_S q) = (if q = p then Some (fadd (map_get (Fin 0) m (dp_S p)) d) else m (dp_S q))"
    "add_level (dp_P p) d m (dp_S q) = m (dp_S q)" "add_level (dp_S p) d m (dp_P q) = m (dp_P q)"
    by (auto simp: add_level_def)
qed

lemma map_get_cong: "m k = m' k' \<Longrightarrow> map_get z m k = map_get z m' k'"
  by (simp add: map_get_def)

text \<open>Sweeping does not touch counters that carry no expiry.\<close>

lemma sweep_lasting: "mem_lasting s k \<Longrightarrow> ms_floats (mem_sweep s) k = ms_floats s k"
  using level_lasting [of s k] by (simp add: mem_level_def)

lemma dual_ok_sweep: "dual_ok v2p PS s \<Longrightarrow> dual_ok v2p PS (mem_sweep s)"
  by (auto simp: dual_ok_def shapes_agree_def sweep_lasting lasting_sweep)

lemma seed_other:
  assumes "pairs_ok PS" and "p \<in> PS" and "q \<in> PS" and "q \<noteq> p"
  shows "ms_floats (mem_seed v2p p s) (dp_P q) = ms_floats s (dp_P q)"
    and "ms_floats (mem_seed v2p p s) (dp_S q) = ms_floats s (dp_S q)"
proof -
  have "dp_P p \<noteq> dp_P q" "dp_S p \<noteq> dp_S q" "dp_P p \<noteq> dp_S q" "dp_P q \<noteq> dp_S p"
    using assms by (auto simp: pairs_ok_def)
  then show "ms_floats (mem_seed v2p p s) (dp_P q) = ms_floats s (dp_P q)"
    "ms_floats (mem_seed v2p p s) (dp_S q) = ms_floats s (dp_S q)"
    by (auto simp: mem_seed_def Let_def split: option.splits)
qed

lemma seed_agrees:
  assumes "pairs_ok PS" and "p \<in> PS" and "shapes_agree v2p (ms_floats s) p"
  shows "ms_floats (mem_seed v2p p s) (dp_P p) = ms_floats (mem_seed v2p p s) (dp_S p)"
proof -
  have "dp_P p \<noteq> dp_S p" "dp_S p \<noteq> []" using assms by (auto simp: pairs_ok_def)
  with assms(3) show ?thesis by (auto simp: mem_seed_def shapes_agree_def Let_def split: option.splits if_splits)
qed

lemma seed_expiry [simp]: "ms_expiry (mem_seed v2p p s) = ms_expiry s"
  by (simp add: mem_seed_def Let_def split: option.splits)

lemma lasting_cong: "ms_expiry s = ms_expiry s' \<Longrightarrow> mem_lasting s = mem_lasting s'"
  by (simp add: mem_lasting_def fun_eq_iff)

text \<open>The pairs already brought to agreement, while an operation seeds the rest.\<close>

definition agreed :: "dual_pair set \<Rightarrow> mem_store \<Rightarrow> bool" where
  "agreed A s \<longleftrightarrow> (\<forall>p \<in> A. ms_floats s (dp_P p) = ms_floats s (dp_S p))"

lemma seed_step:
  assumes "pairs_ok PS" and "p \<in> PS" and "A \<subseteq> PS" and "dual_ok v2p PS s" and "agreed A s"
  shows "dual_ok v2p PS (mem_seed v2p p s)" and "agreed (insert p A) (mem_seed v2p p s)"
proof -
  have p: "ms_floats (mem_seed v2p p s) (dp_P p) = ms_floats (mem_seed v2p p s) (dp_S p)"
    using assms(4) by (intro seed_agrees [OF assms(1,2)]) (auto simp: dual_ok_def assms(2))
  have las: "mem_lasting (mem_seed v2p p s) = mem_lasting s" by (rule lasting_cong) simp
  show "dual_ok v2p PS (mem_seed v2p p s)"
    unfolding dual_ok_def las
  proof (intro ballI conjI)
    fix q assume q: "q \<in> PS"
    show "shapes_agree v2p (ms_floats (mem_seed v2p p s)) q"
      using p assms(4) q seed_other [OF assms(1,2) q] by (cases "q = p") (auto simp: dual_ok_def shapes_agree_def)
  qed (use assms(4) in \<open>auto simp: dual_ok_def\<close>)
  show "agreed (insert p A) (mem_seed v2p p s)"
    using p assms(3,5) seed_other [OF assms(1,2)] unfolding agreed_def by (metis insert_iff subsetD)
qed

text \<open>Adding the same amount under both keys of an agreed pair keeps every agreement.\<close>

definition add_pair :: "dual_pair \<Rightarrow> f64 \<Rightarrow> (string \<rightharpoonup> f64) \<Rightarrow> (string \<rightharpoonup> f64)" where
  "add_pair p d m = add_level (dp_S p) d (add_level (dp_P p) d m)"

lemma add_pair_agree:
  assumes "pairs_ok PS" and "p \<in> PS" and "q \<in> PS" and "m (dp_P p) = m (dp_S p)"
  shows "shapes_agree v2p m q \<Longrightarrow> shapes_agree v2p (add_pair p d m) q"
    and "m (dp_P q) = m (dp_S q) \<Longrightarrow> add_pair p d m (dp_P q) = add_pair p d m (dp_S q)"
proof -
  note v = add_level_views [OF assms(1,2,3)] add_level_views [OF assms(1,2,2)]
  have g: "map_get (Fin 0) (add_level (dp_P p) d m) (dp_S p) = map_get (Fin 0) m (dp_P p)"
    using v assms(4) by (simp add: map_get_def)
  show "shapes_agree v2p m q \<Longrightarrow> shapes_agree v2p (add_pair p d m) q"
    "m (dp_P q) = m (dp_S q) \<Longrightarrow> add_pair p d m (dp_P q) = add_pair p d m (dp_S q)"
    by (auto simp: add_pair_def shapes_agree_def v g)
qed

lemma add_level_commute:
  "k \<noteq> j \<Longrightarrow> add_level k d (add_level j e m) = add_level j e (add_level k d m)"
  by (simp add: add_level_def map_get_def fun_upd_twist)

lemma dual_ok_floats:
  assumes "dual_ok v2p PS s" and "ms_expiry s' = ms_expiry s"
    and "\<And>q. q \<in> PS \<Longrightarrow> shapes_agree v2p (ms_floats s) q \<Longrightarrow> shapes_agree v2p (ms_floats s') q"
  shows "dual_ok v2p PS s'"
  using assms by (simp add: dual_ok_def mem_lasting_def)

lemma dual_spend_org_ok:
  assumes "pairs_ok PS" and "p \<in> PS" and "dual_ok v2p PS s"
  shows "dual_ok v2p PS (snd (mem_dual_spend_org s p d v2p))"
proof -
  let ?s = "mem_seed v2p p (mem_sweep s)"
  have ok: "dual_ok v2p PS ?s" and ag: "agreed {p} ?s"
    using seed_step [OF assms(1,2), of "{}"] dual_ok_sweep [OF assms(3)] by (auto simp: agreed_def)
  have S: "dp_S p \<noteq> []" using assms(1,2) by (auto simp: pairs_ok_def)
  have "ms_floats (snd (mem_dual_spend_org s p d v2p)) = add_pair p d (ms_floats ?s)"
    using S by (simp add: mem_dual_spend_org_def add_pair_def Let_def)
  moreover have "ms_expiry (snd (mem_dual_spend_org s p d v2p)) = ms_expiry ?s"
    using S by (simp add: mem_dual_spend_org_def Let_def)
  ultimately show ?thesis
    using add_pair_agree(1) [OF assms(1,2)] ag by (intro dual_ok_floats [OF ok]) (auto simp: agreed_def)
qed

lemma dual_decr_ok:
  assumes "pairs_ok PS" and "p \<in> PS" and "dual_ok v2p PS s"
  shows "dual_ok v2p PS (snd (mem_dual_decr_floor s p d v2p))"
proof -
  let ?s = "mem_seed v2p p (mem_sweep s)"
  let ?s' = "snd (mem_dual_decr_floor s p d v2p)"
  have ok: "dual_ok v2p PS ?s" and ag: "ms_floats ?s (dp_P p) = ms_floats ?s (dp_S p)"
    using seed_step [OF assms(1,2), of "{}"] dual_ok_sweep [OF assms(3)] by (auto simp: agreed_def)
  have S: "dp_S p \<noteq> []" "dp_P p \<noteq> dp_S p" using assms(1,2) by (auto simp: pairs_ok_def)
  let ?v = "floor_zero (fsub (mem_float ?s (dp_P p)) d)"
  have fl: "ms_floats ?s' = (ms_floats ?s)(dp_P p \<mapsto> ?v, dp_S p \<mapsto> ?v)"
    using S ag by (simp add: mem_dual_decr_floor_def mem_dec_key_def Let_def mem_float_def map_get_def)
  have ex: "ms_expiry ?s' = ms_expiry ?s" using S by (simp add: mem_dual_decr_floor_def mem_dec_key_def Let_def)
  show ?thesis
  proof (rule dual_ok_floats [OF ok ex])
    fix q assume q: "q \<in> PS" "shapes_agree v2p (ms_floats ?s) q"
    have "dp_P q \<noteq> dp_S p" "dp_P p \<noteq> dp_S q" "q \<noteq> p \<Longrightarrow> dp_P q \<noteq> dp_P p \<and> dp_S q \<noteq> dp_S p"
      using assms(1,2) q(1) by (auto simp: pairs_ok_def)
    with q(2) show "shapes_agree v2p (ms_floats ?s') q"
      unfolding fl by (cases "q = p") (auto simp: shapes_agree_def)
  qed
qed

lemma dual_spend_user_ok:
  assumes "pairs_ok PS" and "p \<in> PS" "q \<in> PS" "r \<in> PS" and "dual_ok v2p PS s"
  shows "dual_ok v2p PS (snd (mem_dual_spend_user s p q r d v2p))"
proof -
  let ?s1 = "mem_seed v2p p (mem_sweep s)" let ?s2 = "mem_seed v2p q ?s1" let ?s = "mem_seed v2p r ?s2"
  let ?s' = "snd (mem_dual_spend_user s p q r d v2p)"
  note sd = seed_step [OF assms(1)]
  have 1: "dual_ok v2p PS ?s1" "agreed {p} ?s1"
    using sd [OF assms(2), of "{}"] dual_ok_sweep [OF assms(5)] by (auto simp: agreed_def)
  have 2: "dual_ok v2p PS ?s2" "agreed {q, p} ?s2"
    using sd [OF assms(3) _ 1] assms(2) by auto
  have 3: "dual_ok v2p PS ?s" "agreed {r, q, p} ?s"
    using sd [OF assms(4) _ 2] assms(2,3) by auto
  have S: "dp_S p \<noteq> []" "dp_P q \<noteq> dp_S p" using assms(1-3) by (auto simp: pairs_ok_def)
  have fl: "ms_floats ?s' = add_pair q d (add_pair p d (ms_floats ?s))"
    using S by (simp add: mem_dual_spend_user_def add_pair_def Let_def add_level_commute [of "dp_P q" "dp_S p"])
  have ex: "ms_expiry ?s' = ms_expiry ?s" using S by (simp add: mem_dual_spend_user_def Let_def)
  show ?thesis
  proof (rule dual_ok_floats [OF 3(1) ex])
    fix x assume x: "x \<in> PS" "shapes_agree v2p (ms_floats ?s) x"
    have p: "ms_floats ?s (dp_P p) = ms_floats ?s (dp_S p)" and q: "ms_floats ?s (dp_P q) = ms_floats ?s (dp_S q)"
      using 3(2) by (auto simp: agreed_def)
    note a = add_pair_agree [OF assms(1,2) _ p]
    show "shapes_agree v2p (ms_floats ?s') x"
      unfolding fl by (rule add_pair_agree(1) [OF assms(1,3) x(1) a(2) [OF assms(3) q] a(1) [OF x]])
  qed
qed

definition spec_pairs :: "acquire_spec \<Rightarrow> dual_pair set" where
  "spec_pairs sp = insert (org_pair sp) (if as_HasUser sp then {user_pair sp, seq_pair sp} else {})"

definition dual_spend :: "acquire_spec \<Rightarrow> (string \<rightharpoonup> f64) \<Rightarrow> (string \<rightharpoonup> f64)" where
  "dual_spend sp m = spend_level (second_shape sp) (spend_level sp m)"

lemma dual_spend_pairs:
  assumes "pairs_ok PS" and "spec_pairs sp \<subseteq> PS"
  shows "dual_spend sp m =
    (let m = add_pair (org_pair sp) (as_Delta sp) m in
     if as_HasUser sp then add_pair (user_pair sp) (as_Delta sp) (add_pair (seq_pair sp) (Fin 1) m) else m)"
proof (cases "as_HasUser sp")
  case True
  have "dp_P (seq_pair sp) \<noteq> dp_S (org_pair sp)" "dp_P (user_pair sp) \<noteq> dp_S (org_pair sp)"
    "dp_P (user_pair sp) \<noteq> dp_S (seq_pair sp)"
    using assms True unfolding pairs_ok_def spec_pairs_def by auto
  then have "as_SeqKey sp \<noteq> as_OrgKey2 sp" "as_UserKey sp \<noteq> as_OrgKey2 sp" "as_UserKey sp \<noteq> as_SeqKey2 sp"
    by (simp_all add: org_pair_def user_pair_def seq_pair_def)
  with True show ?thesis
    by (simp add: dual_spend_def spend_level_def add_pair_def second_shape_def org_pair_def user_pair_def seq_pair_def
        Let_def add_level_commute [of "as_SeqKey sp" "as_OrgKey2 sp"] add_level_commute [of "as_UserKey sp" "as_OrgKey2 sp"]
        add_level_commute [of "as_UserKey sp" "as_SeqKey2 sp"])
next
  case False
  then show ?thesis
    by (simp add: dual_spend_def spend_level_def add_pair_def second_shape_def org_pair_def Let_def)
qed

definition agreeing :: "bool \<Rightarrow> dual_pair set \<Rightarrow> dual_pair set \<Rightarrow> (string \<rightharpoonup> f64) \<Rightarrow> bool" where
  "agreeing v2p PS A m \<longleftrightarrow> (\<forall>q \<in> PS. shapes_agree v2p m q) \<and> (\<forall>q \<in> A. m (dp_P q) = m (dp_S q))"

lemma agreeing_add:
  assumes "pairs_ok PS" and "A \<subseteq> PS" and "p \<in> A" and "agreeing v2p PS A m"
  shows "agreeing v2p PS A (add_pair p d m)"
proof -
  have p: "p \<in> PS" "m (dp_P p) = m (dp_S p)" using assms by (auto simp: agreeing_def)
  show ?thesis
    using add_pair_agree [OF assms(1) p(1) _ p(2)] assms(2,4) unfolding agreeing_def by blast
qed

lemma agreeing_dual_spend:
  assumes "pairs_ok PS" and "A \<subseteq> PS" and "spec_pairs sp \<subseteq> A" and "agreeing v2p PS A m"
  shows "agreeing v2p PS A (dual_spend sp m)"
proof -
  note a = agreeing_add [OF assms(1,2)]
  have "spec_pairs sp \<subseteq> PS" using assms by auto
  with assms(3,4) show ?thesis
    unfolding dual_spend_pairs [OF assms(1) \<open>spec_pairs sp \<subseteq> PS\<close>] by (auto simp: spec_pairs_def Let_def intro!: a)
qed

lemma agreeing_dual_spends:
  assumes "pairs_ok PS" and "A \<subseteq> PS" and "\<forall>sp \<in> set specs. spec_pairs sp \<subseteq> A" and "agreeing v2p PS A m"
  shows "agreeing v2p PS A (fold dual_spend specs m)"
  using assms(3,4)
proof (induction specs arbitrary: m)
  case (Cons sp specs)
  with agreeing_dual_spend [OF assms(1,2)] show ?case by simp
qed simp

lemma seed_spec_step:
  assumes "pairs_ok PS" and "spec_pairs sp \<subseteq> PS" and "A \<subseteq> PS" and "dual_ok v2p PS s" and "agreed A s"
  shows "dual_ok v2p PS (mem_seed_spec v2p sp s)" and "agreed (spec_pairs sp \<union> A) (mem_seed_spec v2p sp s)"
proof -
  note sd = seed_step [OF assms(1)]
  have o: "dual_ok v2p PS (mem_seed v2p (org_pair sp) s)" "agreed (insert (org_pair sp) A) (mem_seed v2p (org_pair sp) s)"
    using sd [OF _ assms(3,4,5)] assms(2) by (auto simp: spec_pairs_def)
  show "dual_ok v2p PS (mem_seed_spec v2p sp s)" "agreed (spec_pairs sp \<union> A) (mem_seed_spec v2p sp s)"
  proof (atomize (full), cases "as_HasUser sp")
    case True
    let ?s1 = "mem_seed v2p (org_pair sp) s"
    have in1: "insert (org_pair sp) A \<subseteq> PS" "user_pair sp \<in> PS" "seq_pair sp \<in> PS"
      using assms(2,3) True by (auto simp: spec_pairs_def)
    note u = sd [OF in1(2,1) o]
    have "insert (user_pair sp) (insert (org_pair sp) A) \<subseteq> PS" using in1 by auto
    note q = sd [OF in1(3) this u]
    have "spec_pairs sp \<union> A = insert (seq_pair sp) (insert (user_pair sp) (insert (org_pair sp) A))"
      using True by (auto simp: spec_pairs_def)
    with q True show "dual_ok v2p PS (mem_seed_spec v2p sp s) \<and> agreed (spec_pairs sp \<union> A) (mem_seed_spec v2p sp s)"
      by (simp add: mem_seed_spec_def Let_def)
  next
    case False
    with o show "dual_ok v2p PS (mem_seed_spec v2p sp s) \<and> agreed (spec_pairs sp \<union> A) (mem_seed_spec v2p sp s)"
      by (simp add: mem_seed_spec_def spec_pairs_def)
  qed
qed

lemma seed_specs_step:
  assumes "pairs_ok PS" and "\<forall>sp \<in> set specs. spec_pairs sp \<subseteq> PS" and "A \<subseteq> PS" and "dual_ok v2p PS s" and "agreed A s"
  shows "dual_ok v2p PS (fold (mem_seed_spec v2p) specs s)
    \<and> agreed (\<Union>(spec_pairs ` set specs) \<union> A) (fold (mem_seed_spec v2p) specs s)"
  using assms(2-5)
proof (induction specs arbitrary: s A)
  case (Cons sp specs)
  note st = seed_spec_step [OF assms(1) _ Cons.prems(2,3,4), of sp]
  have "spec_pairs sp \<union> A \<subseteq> PS" using Cons.prems by auto
  with Cons.IH [of "spec_pairs sp \<union> A" "mem_seed_spec v2p sp s"] st Cons.prems(1) show ?case
    by (simp add: Un_assoc Un_left_commute)
qed simp

lemma dual_spends_fields:
  assumes "f = (\<lambda>sp s. let s = mem_spend_spec sp s in if dual then mem_spend_spec (second_shape sp) s else s)" and "dual"
  shows "ms_floats (fold f specs s) = fold dual_spend specs (ms_floats s)" and "ms_expiry (fold f specs s) = ms_expiry s"
  using assms by (induction specs arbitrary: s) (auto simp: dual_spend_def Let_def)

lemma dual_acquire_ok:
  assumes "pairs_ok PS" and "\<forall>sp \<in> set specs. spec_pairs sp \<subseteq> PS" and "dual_ok v2p PS s" and "dp_S idem \<noteq> []"
    and "\<forall>p \<in> PS. {dp_P p, dp_S p} \<inter> {dp_P idem, dp_S idem} = {}"
  shows "dual_ok v2p PS (snd (mem_dual_atomic_acquire s idem has ttl v2p specs))"
proof (cases "validate_specs 0 specs")
  case None
  let ?s = "fold (mem_seed_spec v2p) specs (mem_sweep s)" and ?A = "\<Union>(spec_pairs ` set specs)"
  let ?ttl = "if ttl \<le> 0 then 86400 * second else ttl"
  let ?t = "if has then mem_claim (dp_S idem) ?ttl (mem_claim (dp_P idem) ?ttl ?s) else ?s"
  have s: "dual_ok v2p PS ?s" "agreed ?A ?s"
    using seed_specs_step [OF assms(1,2), of "{}"] dual_ok_sweep [OF assms(3)] by (auto simp: agreed_def)
  have t: "dual_ok v2p PS ?t" using s(1) assms(5) by (auto simp: dual_ok_def mem_lasting_def)
  have "agreeing v2p PS ?A (ms_floats ?t)" using s by (auto simp: agreeing_def dual_ok_def agreed_def)
  then have "agreeing v2p PS ?A (fold dual_spend specs (ms_floats ?t))"
    using assms(2) by (intro agreeing_dual_spends [OF assms(1)]) auto
  then have "dual_ok v2p PS (fold (\<lambda>sp s. let s = mem_spend_spec sp s in
      if dp_S idem \<noteq> [] then mem_spend_spec (second_shape sp) s else s) specs ?t)"
    using dual_spends_fields [OF refl assms(4)] by (intro dual_ok_floats [OF t]) (simp_all add: agreeing_def)
  with s(1) None assms(4) show ?thesis by (auto simp: mem_dual_atomic_acquire_def Let_def)
qed (use assms(3) in \<open>simp add: mem_dual_atomic_acquire_def\<close>)

text \<open>The operations a dual keyspace runs on the counters \<open>PS\<close>, with latches apart from them.\<close>

inductive dual_step :: "bool \<Rightarrow> dual_pair set \<Rightarrow> mem_store \<Rightarrow> mem_store \<Rightarrow> bool" for v2p PS where
  spend_org: "p \<in> PS \<Longrightarrow> dual_step v2p PS s (snd (mem_dual_spend_org s p d v2p))"
| spend_user: "p \<in> PS \<Longrightarrow> q \<in> PS \<Longrightarrow> r \<in> PS \<Longrightarrow> dual_step v2p PS s (snd (mem_dual_spend_user s p q r d v2p))"
| decr: "p \<in> PS \<Longrightarrow> dual_step v2p PS s (snd (mem_dual_decr_floor s p d v2p))"
| acquire: "\<forall>sp \<in> set specs. spec_pairs sp \<subseteq> PS \<Longrightarrow> dp_S idem \<noteq> [] \<Longrightarrow>
    \<forall>p \<in> PS. {dp_P p, dp_S p} \<inter> {dp_P idem, dp_S idem} = {} \<Longrightarrow>
    dual_step v2p PS s (snd (mem_dual_atomic_acquire s idem has ttl v2p specs))"
| tick: "dual_step v2p PS s (s\<lparr>ms_now := t\<rparr>)"

text \<open>
  C6. Dual writes keep the shapes together. Start with counters that carry no expiry and whose v2 key is
  missing or equal to the v1 key; after any sequence of dual spends, releases and acquires, with
  whatever amounts (the adds of accumulators, which set an expiry, are not among them), every counter's
  v2 key is still missing or equal to its v1 key. Flipping the authoritative shape therefore never
  changes such a counter that was written since dual mode began.
\<close>

theorem dual_writes_keep_shapes_equal:
  assumes "(dual_step v2p PS)\<^sup>*\<^sup>* s s'" and "pairs_ok PS" and "dual_ok v2p PS s" and "p \<in> PS"
  shows "ms_floats s' (dp_P p) = ms_floats s' (dp_S p) \<or> ms_floats s' (if v2p then dp_P p else dp_S p) = None"
proof -
  have "dual_ok v2p PS s'"
    using assms(1)
  proof (induction rule: rtranclp_induct)
    case (step a b)
    from step(2) show ?case
    proof cases
      case (tick t)
      with step(3) show ?thesis by (simp add: dual_ok_def mem_lasting_def)
    qed (use step(3) assms(2) dual_spend_org_ok dual_spend_user_ok dual_decr_ok dual_acquire_ok in auto)
  qed (rule assms(3))
  with assms(4) show ?thesis by (auto simp: dual_ok_def shapes_agree_def)
qed

theorem dual_writes_keep_shapes_equal_witness:
  "\<exists>s'. (dual_step False {\<lparr>dp_P = ''a'', dp_S = ''b''\<rparr>})\<^sup>*\<^sup>* (mem_put (mem_empty 0) ''a'' (Fin 2)) s'
     \<and> ms_floats s' ''a'' = Some (Fin 3) \<and> ms_floats s' ''b'' = Some (Fin 3)"
proof -
  let ?p = "\<lparr>dp_P = ''a'', dp_S = ''b''\<rparr>" and ?s = "mem_put (mem_empty 0) ''a'' (Fin 2)"
  let ?s' = "snd (mem_dual_spend_org ?s ?p (Fin 1) False)"
  have r: "(dual_step False {?p})\<^sup>*\<^sup>* ?s ?s'" using dual_step.spend_org [of ?p "{?p}" False] by blast
  have a: "ms_floats ?s' ''a'' = Some (Fin 3)"
    by (simp add: mem_dual_spend_org_def mem_seed_def Let_def add_level_def mem_sweep_def mem_expired_def mem_empty_def map_get_def)
  have "ms_floats ?s' ''b'' \<noteq> None"
    by (simp add: mem_dual_spend_org_def Let_def add_level_def)
  moreover have "ms_floats ?s' ''a'' = ms_floats ?s' ''b'' \<or> ms_floats ?s' ''b'' = None"
    using dual_writes_keep_shapes_equal [OF r, of ?p]
    by (simp add: pairs_ok_def dual_ok_def shapes_agree_def mem_lasting_def mem_empty_def)
  ultimately show ?thesis using r a by auto
qed

end
