(* ===== verification/Activations.thy ===== *)
theory Activations
  imports Registry
begin

text \<open>
  Package \<open>activations\<close>: the record of one activation, the store contract and the in-memory
  store. Timestamps are the RFC 3339 strings the code writes; the store's own clock reading
  (\<open>nowISO\<close>) is a field of its state. A Go map of rows is an association list with distinct
  ids. \<open>sort.Slice\<close> orders by the timestamp string; rows with equal timestamps keep the
  order of the list.
\<close>

datatype act_state = StateOpen | StateReleased | StateSettled

record activation =
  ac_ActivationID :: string
  ac_OrgID :: string
  ac_UserID :: "string option"
  ac_ResourceKey :: string
  ac_Cost :: "string option"
  ac_OpenedAt :: string
  ac_State :: act_state
  ac_Spend :: "(string \<times> f64) list"
  ac_ReleasedAt :: "string option"
  ac_SettledAt :: "string option"

record 'a act_store =
  at_PutOpen :: "'a \<Rightarrow> activation \<Rightarrow> goerr option \<times> 'a"
  at_Get :: "'a \<Rightarrow> string \<Rightarrow> goerr + activation option"
  at_MarkReleased :: "'a \<Rightarrow> string \<Rightarrow> (goerr + activation option) \<times> 'a"
  at_MarkSettled :: "'a \<Rightarrow> string \<Rightarrow> string \<Rightarrow> (goerr + activation option) \<times> 'a"
  at_ListOpen :: "'a \<Rightarrow> string \<Rightarrow> int \<Rightarrow> goerr + activation list"
  at_CountOpen :: "'a \<Rightarrow> string \<Rightarrow> goerr + nat"
  at_Durable :: "bool option"

section \<open>The id\<close>

definition hex_digit :: "nat \<Rightarrow> char" where
  "hex_digit n = (''0123456789abcdef'' ! (n mod 16))"

definition hex_encode :: "nat list \<Rightarrow> string" where
  "hex_encode bs = concat (map (\<lambda>b. [hex_digit (b div 16), hex_digit b]) bs)"

text \<open>\<open>MintActivationID\<close> of the 16 random bytes it drew.\<close>

definition mint_activation_id :: "nat list \<Rightarrow> string" where
  "mint_activation_id bs = ''act_'' @ hex_encode bs"

section \<open>The in-memory store\<close>

record mem_acts =
  ma_rows :: "(string \<times> activation) list"
  ma_nowISO :: string

definition ma_put_open :: "mem_acts \<Rightarrow> activation \<Rightarrow> goerr option \<times> mem_acts" where
  "ma_put_open s a =
     (if map_of (ma_rows s) (ac_ActivationID a) = None
      then (None, s\<lparr>ma_rows := ma_rows s @ [(ac_ActivationID a, a)]\<rparr>) else (None, s))"

definition ma_get :: "mem_acts \<Rightarrow> string \<Rightarrow> goerr + activation option" where
  "ma_get s i = Inr (map_of (ma_rows s) i)"

definition ma_mark_released :: "mem_acts \<Rightarrow> string \<Rightarrow> (goerr + activation option) \<times> mem_acts" where
  "ma_mark_released s i =
     (case map_of (ma_rows s) i of
        None \<Rightarrow> (Inr None, s)
      | Some r \<Rightarrow>
          if ac_State r \<noteq> StateOpen then (Inr None, s)
          else let r' = r\<lparr>ac_State := StateReleased, ac_ReleasedAt := Some (ma_nowISO s)\<rparr> in
               (Inr (Some r'), s\<lparr>ma_rows := AList.update i r' (ma_rows s)\<rparr>))"

definition ma_mark_settled :: "mem_acts \<Rightarrow> string \<Rightarrow> string \<Rightarrow> (goerr + activation option) \<times> mem_acts" where
  "ma_mark_settled s i cost =
     (case map_of (ma_rows s) i of
        None \<Rightarrow> (Inr None, s)
      | Some r \<Rightarrow>
          if ac_State r = StateSettled then (Inr None, s)
          else let r' = r\<lparr>ac_State := StateSettled, ac_Cost := Some cost, ac_SettledAt := Some (ma_nowISO s)\<rparr> in
               (Inr (Some r'), s\<lparr>ma_rows := AList.update i r' (ma_rows s)\<rparr>))"

definition open_rows :: "mem_acts \<Rightarrow> string \<Rightarrow> activation list" where
  "open_rows s orgID = filter (\<lambda>r. ac_OrgID r = orgID \<and> ac_State r = StateOpen) (map snd (ma_rows s))"

definition ma_list_open :: "mem_acts \<Rightarrow> string \<Rightarrow> int \<Rightarrow> goerr + activation list" where
  "ma_list_open s orgID limit =
     (let out = sort_key ac_OpenedAt (open_rows s orgID) in
      Inr (if limit > 0 \<and> int (length out) > limit then take (nat limit) out else out))"

definition ma_count_open :: "mem_acts \<Rightarrow> string \<Rightarrow> goerr + nat" where
  "ma_count_open s orgID = Inr (length (open_rows s orgID))"

definition mem_act_store :: "mem_acts act_store" where
  "mem_act_store =
     \<lparr>at_PutOpen = ma_put_open, at_Get = ma_get, at_MarkReleased = ma_mark_released,
      at_MarkSettled = ma_mark_settled, at_ListOpen = ma_list_open, at_CountOpen = ma_count_open,
      at_Durable = Some False\<rparr>"

text \<open>\<open>StaleOpen\<close>, with \<open>time.Parse\<close> of the stored timestamp as an argument.\<close>

definition stale_open :: "(string \<Rightarrow> instant option) \<Rightarrow> activation list \<Rightarrow> duration \<Rightarrow> instant \<Rightarrow> activation list" where
  "stale_open parse opens olderThan now =
     filter (\<lambda>a. case parse (ac_OpenedAt a) of None \<Rightarrow> False | Some t \<Rightarrow> now - t \<ge> olderThan) opens"

section \<open>The ledger contract\<close>

text \<open>
  What the engine relies on of an activation store: the rows it holds, seen as a map from ids,
  and how each operation that succeeds moves them. A row is written once and then only leaves
  the open state.
\<close>

locale ledger =
  fixes T :: "'a act_store" and row :: "'a \<Rightarrow> string \<rightharpoonup> activation"
  assumes put_law: "at_PutOpen T s a = (None, s') \<Longrightarrow>
      row s' = (if row s (ac_ActivationID a) = None then (row s)(ac_ActivationID a \<mapsto> a) else row s)"
    and put_err: "at_PutOpen T s a = (Some e, s') \<Longrightarrow> row s' = row s"
    and get_law: "at_Get T s i = Inr r \<Longrightarrow> r = row s i"
    and release_law: "at_MarkReleased T s i = (Inr r, s') \<Longrightarrow>
      (case row s i of
         None \<Rightarrow> r = None \<and> row s' = row s
       | Some x \<Rightarrow>
           if ac_State x = StateOpen
           then (\<exists>ts. r = Some (x\<lparr>ac_State := StateReleased, ac_ReleasedAt := Some ts\<rparr>)) \<and> row s' = (row s)(i := r)
           else r = None \<and> row s' = row s)"
    and release_err: "at_MarkReleased T s i = (Inl e, s') \<Longrightarrow> row s' = row s"
    and settle_law: "at_MarkSettled T s i c = (Inr r, s') \<Longrightarrow>
      (case row s i of
         None \<Rightarrow> r = None \<and> row s' = row s
       | Some x \<Rightarrow>
           if ac_State x \<noteq> StateSettled
           then (\<exists>ts. r = Some (x\<lparr>ac_State := StateSettled, ac_Cost := Some c, ac_SettledAt := Some ts\<rparr>))
                \<and> row s' = (row s)(i := r)
           else r = None \<and> row s' = row s)"
    and settle_err: "at_MarkSettled T s i c = (Inl e, s') \<Longrightarrow> row s' = row s"

text \<open>One call of the store's mutating interface, by anyone.\<close>

inductive ledger_step :: "'a act_store \<Rightarrow> 'a \<Rightarrow> 'a \<Rightarrow> bool" for T where
  put: "at_PutOpen T s a = (r, s') \<Longrightarrow> ledger_step T s s'"
| release: "at_MarkReleased T s i = (r, s') \<Longrightarrow> ledger_step T s s'"
| settle: "at_MarkSettled T s i c = (r, s') \<Longrightarrow> ledger_step T s s'"

text \<open>How a row may change: what it names and spent stays; an open row may close, a released one
  may settle, a settled one keeps its cost for good.\<close>

definition row_le :: "activation option \<Rightarrow> activation option \<Rightarrow> bool" where
  "row_le x y \<longleftrightarrow>
     (case x of
        None \<Rightarrow> True
      | Some a \<Rightarrow>
          (case y of
             None \<Rightarrow> False
           | Some b \<Rightarrow>
               ac_ActivationID b = ac_ActivationID a \<and> ac_OrgID b = ac_OrgID a \<and> ac_UserID b = ac_UserID a \<and>
               ac_ResourceKey b = ac_ResourceKey a \<and> ac_Spend b = ac_Spend a \<and> ac_OpenedAt b = ac_OpenedAt a \<and>
               (ac_State a \<noteq> StateOpen \<longrightarrow> ac_State b \<noteq> StateOpen) \<and>
               (ac_State a = StateSettled \<longrightarrow> ac_State b = StateSettled \<and> ac_Cost b = ac_Cost a)))"

lemma row_le_refl [simp]: "row_le x x"
  by (simp add: row_le_def split: option.splits)

lemma row_le_trans: "row_le x y \<Longrightarrow> row_le y z \<Longrightarrow> row_le x z"
  by (auto simp: row_le_def split: option.splits)

context ledger
begin

lemma step_row_le:
  assumes "ledger_step T s s'"
  shows "row_le (row s i) (row s' i)"
  using assms
proof cases
  case (put a r)
  then show ?thesis using put_law [of s a s'] put_err by (cases r) (auto simp: row_le_def split: option.splits if_splits)
next
  case (release j r)
  then show ?thesis
  proof (cases r)
    case (Inr x)
    with release have "at_MarkReleased T s j = (Inr x, s')" by simp
    from release_law [OF this] show ?thesis by (auto simp: row_le_def split: option.splits if_splits)
  qed (use release release_err in auto)
next
  case (settle j c r)
  then show ?thesis
  proof (cases r)
    case (Inr x)
    with settle have "at_MarkSettled T s j c = (Inr x, s')" by simp
    from settle_law [OF this] show ?thesis by (auto simp: row_le_def split: option.splits if_splits)
  qed (use settle settle_err in auto)
qed

lemma steps_row_le: "(ledger_step T)\<^sup>*\<^sup>* s s' \<Longrightarrow> row_le (row s i) (row s' i)"
  by (induction rule: rtranclp_induct) (auto intro: row_le_trans step_row_le)

lemma released_once:
  assumes "at_MarkReleased T s i = (Inr (Some x), s1)" and "(ledger_step T)\<^sup>*\<^sup>* s1 s2"
    and "at_MarkReleased T s2 i = (Inr r, s3)"
  shows "r = None \<and> row s3 = row s2"
proof -
  obtain y where y: "row s1 i = Some y" "ac_State y \<noteq> StateOpen"
    using release_law [OF assms(1)] by (auto split: option.splits if_splits)
  then obtain z where "row s2 i = Some z" "ac_State z \<noteq> StateOpen"
    using steps_row_le [OF assms(2), of i] by (auto simp: row_le_def split: option.splits)
  with release_law [OF assms(3)] show ?thesis by simp
qed

lemma settled_cost_final:
  assumes "at_MarkSettled T s i c = (Inr (Some x), s1)" and "(ledger_step T)\<^sup>*\<^sup>* s1 s2" and "at_Get T s2 i = Inr r"
  shows "\<exists>y. r = Some y \<and> ac_State y = StateSettled \<and> ac_Cost y = Some c"
proof -
  obtain y where y: "row s1 i = Some y" "ac_State y = StateSettled" "ac_Cost y = Some c"
    using settle_law [OF assms(1)] by (auto split: option.splits if_splits)
  then show ?thesis
    using steps_row_le [OF assms(2), of i] get_law [OF assms(3)] by (auto simp: row_le_def split: option.splits)
qed

end

section \<open>The in-memory store fulfils the contract\<close>

definition ma_row :: "mem_acts \<Rightarrow> string \<rightharpoonup> activation" where
  "ma_row s = map_of (ma_rows s)"

lemma map_of_snoc_new: "map_of (xs @ [(k, v)]) = (if map_of xs k = None then (map_of xs)(k \<mapsto> v) else map_of xs)"
  by (auto simp: map_add_def fun_eq_iff split: option.splits)

lemma ma_release_none: "ma_mark_released s i = (Inr None, s') \<Longrightarrow> s' = s"
  by (auto simp: ma_mark_released_def Let_def split: option.splits if_splits)

lemma ma_release_again: "ma_mark_released s i = (Inr (Some x), s1) \<Longrightarrow> ma_mark_released s1 i = (Inr None, s1)"
  by (auto simp: ma_mark_released_def Let_def update_conv' split: option.splits if_splits)

lemma ma_release_total: "\<exists>y s'. ma_mark_released s i = (Inr y, s')"
  by (simp add: ma_mark_released_def Let_def split: option.splits)

interpretation ma: ledger mem_act_store ma_row
proof unfold_locales
  fix s a s'
  assume "at_PutOpen mem_act_store s a = (None, s')"
  then show "ma_row s' = (if ma_row s (ac_ActivationID a) = None then (ma_row s)(ac_ActivationID a \<mapsto> a) else ma_row s)"
    using map_of_snoc_new [of "ma_rows s" "ac_ActivationID a" a]
    by (auto simp: mem_act_store_def ma_put_open_def ma_row_def simp del: map_of_append split: if_splits)
qed (auto simp: mem_act_store_def ma_put_open_def ma_get_def ma_mark_released_def ma_mark_settled_def ma_row_def
       Let_def update_conv' split: option.splits if_splits)

section \<open>Reachable ledgers\<close>

definition acts_ok :: "mem_acts \<Rightarrow> bool" where
  "acts_ok s \<longleftrightarrow> distinct (map fst (ma_rows s)) \<and> (\<forall>(i, r) \<in> set (ma_rows s). ac_ActivationID r = i)"

lemma update_subset: "set (AList.update i r xs) \<subseteq> insert (i, r) (set xs)"
  by (induction xs) auto

lemma acts_ok_update:
  "acts_ok s \<Longrightarrow> ac_ActivationID r = i \<Longrightarrow> acts_ok (s\<lparr>ma_rows := AList.update i r (ma_rows s)\<rparr>)"
  using update_subset [of i r "ma_rows s"] by (auto simp: acts_ok_def distinct_update)

lemma acts_ok_row: "acts_ok s \<Longrightarrow> map_of (ma_rows s) i = Some r \<Longrightarrow> ac_ActivationID r = i"
  by (auto simp: acts_ok_def dest: map_of_SomeD)

lemma acts_ok_step:
  assumes "ledger_step mem_act_store s s'" and "acts_ok s"
  shows "acts_ok s'"
  using assms(1)
proof cases
  case (put a r)
  then show ?thesis using assms(2)
    by (auto simp: mem_act_store_def ma_put_open_def acts_ok_def map_of_eq_None_iff split: if_splits)
next
  case (release i r)
  then show ?thesis using assms(2) acts_ok_row
    by (auto simp: mem_act_store_def ma_mark_released_def Let_def intro!: acts_ok_update split: option.splits if_splits)
next
  case (settle i c r)
  then show ?thesis using assms(2) acts_ok_row
    by (auto simp: mem_act_store_def ma_mark_settled_def Let_def intro!: acts_ok_update split: option.splits if_splits)
qed

definition ma_empty :: "string \<Rightarrow> mem_acts" where
  "ma_empty ts = \<lparr>ma_rows = [], ma_nowISO = ts\<rparr>"

lemma reachable_acts_ok: "(ledger_step mem_act_store)\<^sup>*\<^sup>* (ma_empty ts) s \<Longrightarrow> acts_ok s"
  by (induction rule: rtranclp_induct) (auto intro: acts_ok_step, simp add: acts_ok_def ma_empty_def)

lemma open_rows_set:
  assumes "acts_ok s"
  shows "set (open_rows s org) = {r. \<exists>i. ma_row s i = Some r \<and> ac_OrgID r = org \<and> ac_State r = StateOpen}"
  using assms by (auto simp: open_rows_def ma_row_def acts_ok_def image_iff intro: map_of_is_SomeI dest: map_of_SomeD) force+

lemma open_rows_distinct:
  assumes "acts_ok s"
  shows "distinct (map ac_ActivationID (open_rows s org))"
proof -
  have "map ac_ActivationID (map snd (ma_rows s)) = map fst (ma_rows s)" using assms by (auto simp: acts_ok_def)
  then have "distinct (map ac_ActivationID (map snd (ma_rows s)))" using assms unfolding acts_ok_def by metis
  then show ?thesis unfolding open_rows_def by (rule distinct_map_filter)
qed

section \<open>Properties\<close>

text \<open>
  An activation is released at most once. Once a call has released it, then whatever anyone
  does to the ledger afterwards, further releases of the same id report nothing to do, so the
  gauges it holds are returned once.
\<close>

theorem activation_released_once:
  assumes "ma_mark_released s i = (Inr (Some x), s1)" and "(ledger_step mem_act_store)\<^sup>*\<^sup>* s1 s2"
  shows "ma_mark_released s2 i = (Inr None, s2)"
proof -
  have r: "at_MarkReleased mem_act_store = ma_mark_released" by (simp add: mem_act_store_def)
  obtain y s3 where y: "ma_mark_released s2 i = (Inr y, s3)" using ma_release_total by blast
  with ma.released_once [unfolded r, OF assms y] ma_release_none show ?thesis by blast
qed

definition sample_act :: activation where
  "sample_act = \<lparr>ac_ActivationID = ''act_1'', ac_OrgID = ''o1'', ac_UserID = None, ac_ResourceKey = ''box.live'',
     ac_Cost = None, ac_OpenedAt = ''2026-01-01T00:00:00Z'', ac_State = StateOpen, ac_Spend = [(''box.live'', Fin 1)],
     ac_ReleasedAt = None, ac_SettledAt = None\<rparr>"

definition sample_ledger :: mem_acts where
  "sample_ledger = \<lparr>ma_rows = [(''act_1'', sample_act)], ma_nowISO = ''2026-01-01T01:00:00Z''\<rparr>"

theorem activation_released_once_witness:
  "\<exists>x s1. ma_mark_released sample_ledger ''act_1'' = (Inr (Some x), s1)
     \<and> ma_mark_released s1 ''act_1'' = (Inr None, s1)"
proof -
  obtain x s1 where r: "ma_mark_released sample_ledger ''act_1'' = (Inr (Some x), s1)"
    by (simp add: ma_mark_released_def sample_ledger_def sample_act_def Let_def)
  from activation_released_once [OF r rtranclp.rtrancl_refl] r show ?thesis by blast
qed

text \<open>
  The first settlement is final: once a cost was recorded for an activation, then whatever
  anyone does to the ledger afterwards, the activation stays settled at that cost.
\<close>

theorem settled_cost_is_final:
  assumes "ma_mark_settled s i c = (Inr (Some x), s1)" and "(ledger_step mem_act_store)\<^sup>*\<^sup>* s1 s2"
  shows "\<exists>y. ma_get s2 i = Inr (Some y) \<and> ac_State y = StateSettled \<and> ac_Cost y = Some c"
  using ma.settled_cost_final [of s i c x s1 s2] assms by (auto simp: mem_act_store_def ma_get_def)

theorem settled_cost_is_final_witness:
  "\<exists>x s1 s2 y. ma_mark_settled sample_ledger ''act_1'' ''1.50'' = (Inr (Some x), s1)
     \<and> ma_mark_settled s1 ''act_1'' ''9.99'' = (Inr None, s2)
     \<and> ma_get s2 ''act_1'' = Inr (Some y) \<and> ac_Cost y = Some ''1.50''"
proof -
  obtain x s1 where r: "ma_mark_settled sample_ledger ''act_1'' ''1.50'' = (Inr (Some x), s1)"
    by (simp add: ma_mark_settled_def sample_ledger_def sample_act_def Let_def)
  have s2: "ma_mark_settled s1 ''act_1'' ''9.99'' = (Inr None, s1)"
    using r by (auto simp: ma_mark_settled_def sample_ledger_def sample_act_def Let_def)
  from settled_cost_is_final [OF r rtranclp.rtrancl_refl] r s2 show ?thesis by blast
qed

text \<open>
  Listing is exact: for every ledger reachable from the empty one, \<open>ListOpen\<close> without a limit
  returns exactly the org's open activations, each once, in the order of their opening stamps,
  a limit keeps the oldest ones, and \<open>CountOpen\<close> is the length of the full list.
\<close>

theorem open_listing_exact:
  assumes "(ledger_step mem_act_store)\<^sup>*\<^sup>* (ma_empty ts) s"
  shows "\<exists>rs. ma_list_open s org 0 = Inr rs
    \<and> set rs = {r. \<exists>i. ma_get s i = Inr (Some r) \<and> ac_OrgID r = org \<and> ac_State r = StateOpen}
    \<and> distinct (map ac_ActivationID rs) \<and> sorted (map ac_OpenedAt rs) \<and> ma_count_open s org = Inr (length rs)
    \<and> (\<forall>n. 0 < n \<longrightarrow> ma_list_open s org n = Inr (take (nat n) rs))"
proof -
  note ok = reachable_acts_ok [OF assms]
  let ?rs = "sort_key ac_OpenedAt (open_rows s org)"
  have "distinct (map ac_ActivationID ?rs)"
    using open_rows_distinct [OF ok, of org] by (simp add: distinct_map)
  moreover have "ma_list_open s org n = Inr (take (nat n) ?rs)" if "0 < n" for n
    using that by (auto simp: ma_list_open_def Let_def)
  ultimately show ?thesis
    using open_rows_set [OF ok, of org]
    by (intro exI [of _ ?rs]) (auto simp: ma_list_open_def ma_count_open_def ma_get_def ma_row_def Let_def)
qed

theorem open_listing_exact_witness:
  "\<exists>s rs. (ledger_step mem_act_store)\<^sup>*\<^sup>* (ma_empty ''t'') s \<and> ma_list_open s ''o1'' 0 = Inr rs
     \<and> ma_count_open s ''o1'' = Inr (length rs) \<and> sample_act \<in> set rs"
proof -
  let ?s = "snd (ma_put_open (ma_empty ''t'') sample_act)"
  have "ledger_step mem_act_store (ma_empty ''t'') ?s"
    by (rule ledger_step.put [of _ _ sample_act "fst (ma_put_open (ma_empty ''t'') sample_act)"]) (simp add: mem_act_store_def)
  then have r: "(ledger_step mem_act_store)\<^sup>*\<^sup>* (ma_empty ''t'') ?s" by simp
  have "ma_get ?s ''act_1'' = Inr (Some sample_act)" "ac_OrgID sample_act = ''o1''" "ac_State sample_act = StateOpen"
    by (simp_all add: ma_get_def ma_put_open_def ma_empty_def sample_act_def)
  with open_listing_exact [OF r, of "''o1''"] r show ?thesis by fast
qed

end
