(* ===== verification/Idempotency.thy ===== *)
theory Idempotency
  imports CounterStore Activations
begin

text \<open>
  \<open>counters/idempotency.go\<close> (request-level claims keyed by a hash of the caller's key; the
  SHA-256 digest is an argument) and \<open>counters/idempotency_guard.go\<close> (the shape guard against
  recyclable keys; its regular expressions are written out as matchers over suffixes).
\<close>

section \<open>Claims\<close>

definition hash_key :: "(string \<Rightarrow> string) \<Rightarrow> string \<Rightarrow> string" where
  "hash_key sha256hex s = (let s = trim_space s in if s = [] then [] else sha256hex s)"

definition idem_store_key :: "string \<Rightarrow> string \<Rightarrow> string" where
  "idem_store_key prefix hash = deprecated_scope_key prefix ''idempotency'' [hash]"

definition idem_claim ::
  "(string \<Rightarrow> string) \<Rightarrow> 's float_store \<Rightarrow> string \<Rightarrow> 's \<Rightarrow> string \<Rightarrow> string \<Rightarrow> duration \<Rightarrow> (goerr + bool) \<times> 's" where
  "idem_claim sha F prefix s key value ttl =
     (let hash = hash_key sha key in
      if hash = [] then (Inr True, s) else fs_SetIfAbsent F s (idem_store_key prefix hash) value ttl)"

definition idem_release ::
  "(string \<Rightarrow> string) \<Rightarrow> 's float_store \<Rightarrow> string \<Rightarrow> 's \<Rightarrow> string \<Rightarrow> goerr option \<times> 's" where
  "idem_release sha F prefix s key =
     (let hash = hash_key sha key in
      if hash = [] then (None, s) else fs_Delete F s [idem_store_key prefix hash])"

section \<open>The shape guard\<close>

definition is_hex :: "char \<Rightarrow> bool" where
  "is_hex c \<longleftrightarrow> is_digit c \<or> (CHR ''a'' \<le> c \<and> c \<le> CHR ''f'') \<or> (CHR ''A'' \<le> c \<and> c \<le> CHR ''F'')"

fun suffixes_of :: "'a list \<Rightarrow> 'a list list" where
  "suffixes_of [] = [[]]"
| "suffixes_of (x # xs) = (x # xs) # suffixes_of xs"

text \<open>\<open>n\<close> hex digits, and the input after them.\<close>

definition hex_run :: "nat \<Rightarrow> string \<Rightarrow> string option" where
  "hex_run n s = (if length s \<ge> n \<and> list_all is_hex (take n s) then Some (drop n s) else None)"

fun hex_groups :: "nat list \<Rightarrow> string \<Rightarrow> bool" where
  "hex_groups [] s = True"
| "hex_groups [n] s = (hex_run n s \<noteq> None)"
| "hex_groups (n # m # ns) s =
     (case hex_run n s of Some (CHR ''-'' # r) \<Rightarrow> hex_groups (m # ns) r | _ \<Rightarrow> False)"

definition matches_uuid :: "string \<Rightarrow> bool" where
  "matches_uuid key \<longleftrightarrow> list_ex (hex_groups [8, 4, 4, 4, 12]) (suffixes_of key)"

definition matches_evt :: "string \<Rightarrow> bool" where
  "matches_evt key \<longleftrightarrow> has_prefix key ''evt:'' \<or> list_ex (\<lambda>s. has_prefix s '':evt:'') (suffixes_of key)"

definition digits_segment :: "string \<Rightarrow> bool" where
  "digits_segment s \<longleftrightarrow>
     takeWhile is_digit s \<noteq> [] \<and> (case dropWhile is_digit s of [] \<Rightarrow> True | c # _ \<Rightarrow> c = CHR '':'')"

definition gen_segment :: "string \<Rightarrow> bool" where
  "gen_segment s \<longleftrightarrow> digits_segment s \<or> (has_prefix s ''gen:'' \<and> digits_segment (drop 4 s))"

definition matches_gen :: "string \<Rightarrow> bool" where
  "matches_gen key \<longleftrightarrow>
     gen_segment key \<or> list_ex (\<lambda>s. case s of [] \<Rightarrow> False | c # r \<Rightarrow> c = CHR '':'' \<and> gen_segment r) (suffixes_of key)"

definition matches_opaque :: "string \<Rightarrow> bool" where
  "matches_opaque key \<longleftrightarrow> list_ex (\<lambda>s. hex_run 24 s \<noteq> None) (suffixes_of key)"

definition has_unique_component :: "string \<Rightarrow> bool" where
  "has_unique_component key \<longleftrightarrow>
     key = [] \<or> matches_uuid key \<or> matches_evt key \<or> matches_gen key \<or> matches_opaque key"

definition to_lower :: "string \<Rightarrow> string" where
  "to_lower s = map (\<lambda>c. if CHR ''A'' \<le> c \<and> c \<le> CHR ''Z'' then char_of ((of_char c :: nat) + 32) else c) s"

definition strict_enforcement :: "string \<Rightarrow> bool" where
  "strict_enforcement env \<longleftrightarrow> to_lower (trim_space env) \<in> {''1'', ''true'', ''yes''}"

text \<open>\<open>GuardIdempotencyKey\<close>, given the value of the strict-mode variable.\<close>

definition guard_idempotency_key :: "string \<Rightarrow> string \<Rightarrow> goerr option" where
  "guard_idempotency_key env key =
     (if key = [] \<or> has_unique_component key then None
      else if strict_enforcement env then Some ErrRecyclableIdempotencyKey
      else None)"

section \<open>Facts\<close>

lemma hex_digit_is_hex: "is_hex (hex_digit n)"
proof -
  have "n mod 16 < 16" by simp
  then consider "n mod 16 < 10" | "n mod 16 = 10" | "n mod 16 = 11" | "n mod 16 = 12" | "n mod 16 = 13"
    | "n mod 16 = 14" | "n mod 16 = 15" by linarith
  then show ?thesis
  proof cases
    case 1
    then have "n mod 16 \<in> {0, 1, 2, 3, 4, 5, 6, 7, 8, 9}" by auto
    then show ?thesis by (auto simp: hex_digit_def is_hex_def is_digit_def less_eq_char_def)
  qed (simp_all add: hex_digit_def is_hex_def is_digit_def less_eq_char_def)
qed

lemma hex_encode_length [simp]: "length (hex_encode bs) = 2 * length bs"
  by (induction bs) (simp_all add: hex_encode_def)

lemma hex_encode_hex: "list_all is_hex (hex_encode bs)"
  by (induction bs) (simp_all add: hex_encode_def hex_digit_is_hex)

lemma suffixes_append: "s \<in> set (suffixes_of (p @ s))"
  by (induction p) (auto, cases s, auto)

lemma opaque_suffix: "list_all is_hex s \<Longrightarrow> 24 \<le> length s \<Longrightarrow> matches_opaque (p @ s)"
  using suffixes_append [of s p]
  by (auto simp: matches_opaque_def list_ex_iff hex_run_def list_all_iff dest: in_set_takeD)

section \<open>Properties\<close>

text \<open>
  The shape guard never refuses the library's own release key: \<open>release:\<close> followed by an
  activation id minted from 16 random bytes, or any dedup key built on such an id, passes even
  in strict mode.
\<close>

theorem minted_id_passes_guard:
  assumes "12 \<le> length bs"
  shows "guard_idempotency_key env (p @ mint_activation_id bs) = None"
proof -
  have "matches_opaque ((p @ ''act_'') @ hex_encode bs)"
    using assms by (intro opaque_suffix hex_encode_hex) simp
  then show ?thesis by (simp add: guard_idempotency_key_def has_unique_component_def mint_activation_id_def)
qed

theorem minted_id_passes_guard_witness:
  "guard_idempotency_key ''1'' (''release:'' @ mint_activation_id [0,1,2,3,4,5,6,7,8,9,10,11,12,13,14,15]) = None
   \<and> guard_idempotency_key ''1'' ''counter:lifecycle:end:desktop-abc123'' = Some ErrRecyclableIdempotencyKey"
  by (intro conjI minted_id_passes_guard) (simp, code_simp)

text \<open>
  A request key is claimed by one caller at a time: after a successful claim every further
  claim of a key with the same digest fails as long as the clock has not passed the claim's
  expiry, and releasing it makes it claimable again.
\<close>

theorem idem_claim_exclusive:
  assumes "hash_key sha key \<noteq> []" and "hash_key sha key' = hash_key sha key"
    and "idem_claim sha mem_float_store prefix s key v ttl = (Inr True, s1)"
    and "mem_lasting s (idem_store_key prefix (hash_key sha key))"
    and "ms_now s \<le> t" and "0 < ttl \<longrightarrow> t \<le> ms_now s + ttl"
  shows "fst (idem_claim sha mem_float_store prefix (s1\<lparr>ms_now := t\<rparr>) key' v' ttl') = Inr False
    \<and> fst (idem_claim sha mem_float_store prefix
         (snd (idem_release sha mem_float_store prefix (s1\<lparr>ms_now := t\<rparr>) key)) key' v' ttl') = Inr True"
proof -
  let ?k = "idem_store_key prefix (hash_key sha key)"
  have cl: "mem_set_if_absent s ?k v ttl = (Inr True, s1)"
    using assms(1,3) by (simp add: idem_claim_def mem_float_store_def Let_def)
  have "ms_expiry (mem_sweep s) ?k = None" using assms(4) lasting_sweep by (simp add: mem_lasting_def)
  with cl assms(6) have s1: "ms_strings s1 ?k = Some v \<and> (\<forall>e. ms_expiry s1 ?k = Some e \<longrightarrow> t \<le> e)"
    by (auto simp: mem_set_if_absent_def Let_def split: if_splits)
  let ?s = "s1\<lparr>ms_now := t\<rparr>"
  have held: "ms_strings (mem_sweep ?s) ?k \<noteq> None"
    using s1 by (auto simp: mem_sweep_def mem_expired_def split: option.splits)
  have "ms_strings (mem_sweep (mem_delete1 ?k ?s)) ?k = None" by (simp add: mem_sweep_def mem_delete1_def)
  with held assms(1,2) show ?thesis
    by (simp add: idem_claim_def idem_release_def mem_float_store_def mem_set_if_absent_def mem_delete_def Let_def)
qed

theorem idem_claim_exclusive_witness:
  "\<exists>s1. idem_claim (\<lambda>s. s) mem_float_store ''p'' (mem_empty 0) ''req-1'' ''v'' 10 = (Inr True, s1)
     \<and> fst (idem_claim (\<lambda>s. s) mem_float_store ''p'' (s1\<lparr>ms_now := 5\<rparr>) '' req-1 '' ''w'' 10) = Inr False"
proof -
  let ?r = "idem_claim (\<lambda>s. s) mem_float_store ''p'' (mem_empty 0) ''req-1'' ''v'' 10"
  have h: "hash_key (\<lambda>s. s) ''req-1'' = ''req-1''" "hash_key (\<lambda>s. s) '' req-1 '' = ''req-1''" by code_simp+
  have r: "?r = (Inr True, snd ?r)"
    by (simp add: idem_claim_def h mem_float_store_def mem_set_if_absent_def mem_sweep_def mem_empty_def Let_def)
  from idem_claim_exclusive [of "\<lambda>s. s" "''req-1''" "'' req-1 ''", OF _ _ r, of 5] h r show ?thesis
    by (auto simp: mem_lasting_def mem_empty_def)
qed

end
