(* ===== verification/Engine.thy ===== *)
theory Engine
  imports Idempotency
begin

text \<open>
  Package \<open>engine\<close>: the decision of \<open>Check\<close>, the counting of \<open>Spend\<close> and \<open>Release\<close>, the
  recount of a denied request and the on-demand reconciliation (\<open>engine/engine.go\<close>,
  \<open>engine/events.go\<close>, \<open>engine/recount_20260810.go\<close>). The engine's collaborators are fields:
  the tier provider, the truth sources and the message templates are functions, the stores
  are the interfaces of \<open>CounterStore\<close> and \<open>Activations\<close>. The state threads the store states,
  the touch and throttle maps, and the events handed to the observability sinks.
\<close>

section \<open>Results, events, inputs\<close>

datatype decision = Allow | Deny | ShadowAllow | Warn | Critical | UnknownTier

record result =
  r_Decision :: decision
  r_Reason :: string
  r_Resource :: string
  r_TierID :: string
  r_Used :: f64
  r_Limit :: "f64 option"
  r_Burst :: f64
  r_Threshold :: f64
  r_Warning :: bool
  r_Critical :: bool
  r_Message :: string
  r_UpgradeURL :: string
  r_OrgID :: string

definition r_zero :: result where
  "r_zero = \<lparr>r_Decision = Allow, r_Reason = [], r_Resource = [], r_TierID = [], r_Used = Fin 0,
     r_Limit = None, r_Burst = Fin 0, r_Threshold = Fin 0, r_Warning = False, r_Critical = False,
     r_Message = [], r_UpgradeURL = [], r_OrgID = []\<rparr>"

definition allowed :: "result \<Rightarrow> bool" where
  "allowed r \<longleftrightarrow> r_Decision r \<noteq> Deny"

datatype event_kind = OverLimitAdmitted | TierNotInConfig | SettleConflict | OverLimitResolved

record quota_event =
  ev_Kind :: event_kind
  ev_OrgID :: string
  ev_UserID :: string
  ev_ResourceKey :: string
  ev_Scope :: string
  ev_Level :: f64
  ev_Limit :: f64

record drift_info =
  di_OrgID :: string
  di_ResourceKey :: string
  di_Source :: string
  di_ResourceType :: counter_type
  di_Before :: f64
  di_After :: f64

record check_input =
  ci_UserID :: string
  ci_OrgID :: string
  ci_ResourceKey :: string
  ci_Cost :: f64

text \<open>The message builder: the placeholders each template receives.\<close>

record vars =
  v_Resource :: string
  v_Limit :: "f64 option"
  v_Used :: "f64 option"
  v_Tier :: string
  v_UpgradeURL :: string

record messages =
  m_Denied :: "vars \<Rightarrow> string"
  m_OverBurst :: "vars \<Rightarrow> string"
  m_Warning :: "vars \<Rightarrow> string"
  m_Critical :: "vars \<Rightarrow> string"
  m_UnknownTier :: "vars \<Rightarrow> string"
  m_ShadowAllowed :: "vars \<Rightarrow> string"

section \<open>The engine and its state\<close>

record ('f, 'r, 'a) engine =
  en_Cfg :: "config option"
  en_Reg :: registry
  en_Provider :: "string \<Rightarrow> string \<Rightarrow> goerr + string"
  en_Prefix :: string
  en_Keyspace :: keyspace
  en_Floats :: "'f float_store"
  en_Rates :: "'r rate_store"
  en_Activations :: "'a act_store"
  en_Messages :: messages
  en_ObservedUsage :: "(string \<Rightarrow> goerr + (string \<rightharpoonup> int)) option"
  en_AccumulatorUsage :: "(string \<Rightarrow> goerr + (string \<rightharpoonup> f64)) option"
  en_ReadRepairThrottle :: duration
  en_StrictEnv :: string

record ('f, 'r, 'a) estate =
  es_floats :: 'f
  es_rates :: 'r
  es_acts :: 'a
  es_touches :: "string \<rightharpoonup> instant"
  es_rrLast :: "string \<rightharpoonup> instant"
  es_now :: instant
  es_events :: "quota_event list"
  es_drifts :: "drift_info list"
  es_resolved :: "(string \<times> string) list"

definition emit :: "quota_event \<Rightarrow> ('f, 'r, 'a) estate \<Rightarrow> ('f, 'r, 'a) estate" where
  "emit ev st = st\<lparr>es_events := es_events st @ [ev]\<rparr>"

definition crossed_up :: "f64 \<Rightarrow> f64 \<Rightarrow> f64 \<Rightarrow> bool" where
  "crossed_up newVal delta limit \<longleftrightarrow> fgt newVal limit \<and> fle (fsub newVal delta) limit"

definition crossed_down :: "f64 \<Rightarrow> f64 \<Rightarrow> f64 \<Rightarrow> bool" where
  "crossed_down newVal delta limit \<longleftrightarrow> fle newVal limit \<and> fgt (fadd newVal delta) limit"

definition record_touch :: "string \<Rightarrow> string \<Rightarrow> ('f, 'r, 'a) estate \<Rightarrow> ('f, 'r, 'a) estate" where
  "record_touch org rk st = st\<lparr>es_touches := (es_touches st)(org @ ''|'' @ rk \<mapsto> es_now st)\<rparr>"

definition recently_touched :: "('f, 'r, 'a) estate \<Rightarrow> string \<Rightarrow> string \<Rightarrow> duration \<Rightarrow> bool" where
  "recently_touched st org rk window =
     (case es_touches st (org @ ''|'' @ rk) of None \<Rightarrow> False | Some t \<Rightarrow> es_now st - t < window)"

definition partition_org :: "string \<Rightarrow> string \<Rightarrow> string" where
  "partition_org userID orgID = (if orgID \<noteq> [] then orgID else userID)"

definition ks_guard :: "('f, 'r, 'a) engine \<Rightarrow> string \<Rightarrow> goerr option" where
  "ks_guard E org = (if \<not> ks_enabled (en_Keyspace E) then None else validate_scope org ''org_id'')"

definition counter_of :: "('f, 'r, 'a) engine \<Rightarrow> string \<Rightarrow> counter_ref" where
  "counter_of E rk = \<lparr>cr_Prefix = en_Prefix E, cr_ResourceKey = rk, cr_Keyspace = en_Keyspace E\<rparr>"

text \<open>The enforcement flags; a missing configuration enforces.\<close>

definition kill_switch :: "('f, 'r, 'a) engine \<Rightarrow> bool" where
  "kill_switch E = (case en_Cfg E of None \<Rightarrow> False | Some c \<Rightarrow> ef_GlobalKillSwitch (c_Enforcement c))"

definition enforcement_on :: "('f, 'r, 'a) engine \<Rightarrow> bool" where
  "enforcement_on E = (case en_Cfg E of None \<Rightarrow> True | Some c \<Rightarrow> ef_Enabled (c_Enforcement c))"

definition shadow_mode :: "('f, 'r, 'a) engine \<Rightarrow> bool" where
  "shadow_mode E = (case en_Cfg E of None \<Rightarrow> False | Some c \<Rightarrow> ef_ShadowMode (c_Enforcement c))"

definition legacy_enforce :: "('f, 'r, 'a) engine \<Rightarrow> bool" where
  "legacy_enforce E =
     (case en_Cfg E of None \<Rightarrow> False | Some c \<Rightarrow> legacy_increment_mode (c_Enforcement c) = ''enforce'')"

text \<open>A call on the float store inside the engine's state.\<close>

definition with_floats ::
  "('f \<Rightarrow> 'b \<times> 'f) \<Rightarrow> ('f, 'r, 'a) estate \<Rightarrow> 'b \<times> ('f, 'r, 'a) estate" where
  "with_floats f st = (case f (es_floats st) of (b, s) \<Rightarrow> (b, st\<lparr>es_floats := s\<rparr>))"

definition with_rates ::
  "('r \<Rightarrow> 'b \<times> 'r) \<Rightarrow> ('f, 'r, 'a) estate \<Rightarrow> 'b \<times> ('f, 'r, 'a) estate" where
  "with_rates f st = (case f (es_rates st) of (b, s) \<Rightarrow> (b, st\<lparr>es_rates := s\<rparr>))"

definition with_acts ::
  "('a \<Rightarrow> 'b \<times> 'a) \<Rightarrow> ('f, 'r, 'a) estate \<Rightarrow> 'b \<times> ('f, 'r, 'a) estate" where
  "with_acts f st = (case f (es_acts st) of (b, s) \<Rightarrow> (b, st\<lparr>es_acts := s\<rparr>))"

text \<open>\<open>gaugeLimit\<close>: the org and per-user limits, absent when the tier is unresolved, unknown or
  has no finite limit for the resource.\<close>

definition gauge_limit :: "('f, 'r, 'a) engine \<Rightarrow> string \<Rightarrow> string \<Rightarrow> string \<Rightarrow> f64 option \<times> f64 option" where
  "gauge_limit E orgID userID rk =
     (case en_Provider E userID orgID of
        Inl e \<Rightarrow> (None, None)
      | Inr tierID \<Rightarrow>
          if tierID = [] then (None, None)
          else (case reg_tier (en_Reg E) tierID of
                  None \<Rightarrow> (None, None)
                | Some t \<Rightarrow>
                    (case map_of (t_Limits t) rk of
                       None \<Rightarrow> (None, None)
                     | Some lm \<Rightarrow>
                         if is_unlimited lm then (None, None)
                         else (tl_Limit lm,
                               if userID \<noteq> [] then derive_per_user_limit lm (t_DefaultPerUserFraction t)
                               else None))))"

definition decr_floor ::
  "('f, 'r, 'a) engine \<Rightarrow> ('f, 'r, 'a) estate \<Rightarrow> dual_pair \<Rightarrow> f64 \<Rightarrow> (goerr + f64) \<times> ('f, 'r, 'a) estate" where
  "decr_floor E st pair amount =
     (if dp_S pair = [] then with_floats (\<lambda>s. fs_DecrByFloorZero (en_Floats E) s (dp_P pair) amount) st
      else case fs_dual (en_Floats E) of
        None \<Rightarrow> (Inl ErrNoDualOps, st)
      | Some d \<Rightarrow> with_floats (\<lambda>s. do_DecrFloor d s pair amount (primary_is_v2 (en_Keyspace E))) st)"

definition window_of :: "resource_def \<Rightarrow> duration" where
  "window_of r = rd_WindowSeconds r * second"

definition current_usage ::
  "('f, 'r, 'a) engine \<Rightarrow> ('f, 'r, 'a) estate \<Rightarrow> resource_def \<Rightarrow> string \<Rightarrow> (goerr + f64) \<times> ('f, 'r, 'a) estate" where
  "current_usage E st res org =
     (let c = counter_of E (rd_ResourceKey res) in
      case rd_CounterType res of
        CounterAccumulator \<Rightarrow>
          with_floats (\<lambda>s. acc_get_org (en_Floats E) s c (rd_ResetPeriod res) org (es_now st)) st
      | CounterGauge \<Rightarrow>
          (case with_floats (\<lambda>s. get_float_dual (en_Floats E) s (gauge_org_pair c org)) st of
             (Inl e, st) \<Rightarrow> (Inl e, st)
           | (Inr (v, ok), st) \<Rightarrow> (Inr v, st))
      | CounterRate \<Rightarrow>
          (case with_rates (\<lambda>s. rate_count_org (en_Rates E) s c (window_of res) org (es_now st)) st of
             (Inl e, st) \<Rightarrow> (Inl e, st)
           | (Inr n, st) \<Rightarrow> (Inr (of_go_int n), st))
      | CounterOther t \<Rightarrow> (Inl (ErrUnsupportedCounter t), st))"

section \<open>The decision\<close>

definition decide_org ::
  "messages \<Rightarrow> string \<Rightarrow> string \<Rightarrow> tier \<Rightarrow> tier_limit \<Rightarrow> f64 \<Rightarrow> f64 \<Rightarrow> f64 \<Rightarrow> result" where
  "decide_org M resourceKey tierID t limit cap used cost =
     (let burst = tl_BurstAllowance limit;
          proposed = fadd used cost;
          hard = fadd cap burst;
          threshold = (if fgt cap (Fin 0) then fdiv proposed cap else Fin 0);
          base = r_zero\<lparr>r_Resource := resourceKey, r_TierID := tierID, r_Used := used,
                   r_Limit := tl_Limit limit, r_Burst := burst, r_UpgradeURL := t_UpgradeURL t,
                   r_Threshold := threshold\<rparr>;
          v = \<lparr>v_Resource = resourceKey, v_Limit = Some cap, v_Used = Some used, v_Tier = tierID,
               v_UpgradeURL = []\<rparr>
      in
      if fgt proposed hard then
        base\<lparr>r_Decision := Deny, r_Reason := ''exceeded'',
             r_Message := m_Denied M (v\<lparr>v_UpgradeURL := t_UpgradeURL t\<rparr>)\<rparr>
      else if fgt proposed cap then
        base\<lparr>r_Decision := Allow, r_Reason := ''burst_consumed'', r_Warning := True,
             r_Message := m_OverBurst M v\<rparr>
      else if fgt (tl_CriticalThreshold limit) (Fin 0) \<and> fge threshold (tl_CriticalThreshold limit) then
        base\<lparr>r_Decision := Critical, r_Reason := ''near_critical'', r_Critical := True,
             r_Message := m_Critical M v\<rparr>
      else if fgt (tl_WarningThreshold limit) (Fin 0) \<and> fge threshold (tl_WarningThreshold limit) then
        base\<lparr>r_Decision := Warn, r_Reason := ''near_warning'', r_Warning := True,
             r_Message := m_Warning M v\<rparr>
      else base\<lparr>r_Decision := Allow, r_Reason := ''under_limit''\<rparr>)"

section \<open>Recounting\<close>

definition drift_eps :: f64 where
  "drift_eps = fround (1 / 10 ^ 9)"

definition drifted :: "f64 \<Rightarrow> f64 \<Rightarrow> bool" where
  "drifted a b \<longleftrightarrow> fgt (fabs (fsub a b)) drift_eps"

definition has_truth_source :: "('f, 'r, 'a) engine \<Rightarrow> resource_def \<Rightarrow> bool" where
  "has_truth_source E res =
     (case rd_CounterType res of
        CounterGauge \<Rightarrow> en_ObservedUsage E \<noteq> None
      | CounterAccumulator \<Rightarrow> en_AccumulatorUsage E \<noteq> None
      | _ \<Rightarrow> False)"

definition source_for :: "resource_def \<Rightarrow> string" where
  "source_for res = (if rd_CounterType res = CounterAccumulator then ''ledger'' else ''provider'')"

text \<open>\<open>recomputeTrueUsage\<close>: an error, no observation, or the true value.\<close>

definition recompute_true_usage :: "('f, 'r, 'a) engine \<Rightarrow> string \<Rightarrow> resource_def \<Rightarrow> goerr + f64 option" where
  "recompute_true_usage E orgID res =
     (case rd_CounterType res of
        CounterGauge \<Rightarrow>
          (case en_ObservedUsage E of
             None \<Rightarrow> Inr None
           | Some obs \<Rightarrow>
               (case obs orgID of
                  Inl e \<Rightarrow> Inl e
                | Inr m \<Rightarrow> Inr (map_option of_go_int (m (rd_ResourceKey res)))))
      | CounterAccumulator \<Rightarrow>
          (case en_AccumulatorUsage E of
             None \<Rightarrow> Inr None
           | Some acc \<Rightarrow>
               (case acc orgID of Inl e \<Rightarrow> Inl e | Inr m \<Rightarrow> Inr (m (rd_ResourceKey res))))
      | _ \<Rightarrow> Inr None)"

text \<open>Setting a counter under both of its keys, as the repair paths do.\<close>

definition set_pair :: "'s float_store \<Rightarrow> 's \<Rightarrow> dual_pair \<Rightarrow> f64 \<Rightarrow> duration \<Rightarrow> goerr option \<times> 's" where
  "set_pair F s pair v ttl =
     (case fs_Set F s (dp_P pair) v ttl of
        (Some e, s) \<Rightarrow> (Some e, s)
      | (None, s) \<Rightarrow> if dp_S pair \<noteq> [] then fs_Set F s (dp_S pair) v ttl else (None, s))"

definition repair_counter_to_truth ::
  "('f, 'r, 'a) engine \<Rightarrow> ('f, 'r, 'a) estate \<Rightarrow> resource_def \<Rightarrow> string \<Rightarrow> f64 \<Rightarrow> goerr option \<times> ('f, 'r, 'a) estate" where
  "repair_counter_to_truth E st res orgID trueVal =
     (let c = counter_of E (rd_ResourceKey res) in
      case rd_CounterType res of
        CounterGauge \<Rightarrow> with_floats (\<lambda>s. set_pair (en_Floats E) s (gauge_org_pair c orgID) trueVal 0) st
      | CounterAccumulator \<Rightarrow>
          with_floats (\<lambda>s. set_pair (en_Floats E) s (acc_period_pair c (rd_ResetPeriod res) orgID (es_now st))
                             trueVal (period_ttl (rd_ResetPeriod res))) st
      | _ \<Rightarrow> (None, st))"

definition emit_drift ::
  "string \<Rightarrow> resource_def \<Rightarrow> string \<Rightarrow> f64 \<Rightarrow> f64 \<Rightarrow> ('f, 'r, 'a) estate \<Rightarrow> ('f, 'r, 'a) estate" where
  "emit_drift orgID res source before after st =
     st\<lparr>es_drifts := es_drifts st @ [\<lparr>di_OrgID = orgID, di_ResourceKey = rd_ResourceKey res, di_Source = source,
        di_ResourceType = rd_CounterType res, di_Before = before, di_After = after\<rparr>]\<rparr>"

definition emit_provider_unreachable ::
  "string \<Rightarrow> resource_def \<Rightarrow> ('f, 'r, 'a) estate \<Rightarrow> ('f, 'r, 'a) estate" where
  "emit_provider_unreachable orgID res = emit_drift orgID res ''provider_unreachable'' (Fin 0) (Fin 0)"

definition recount_before_deny ::
  "('f, 'r, 'a) engine \<Rightarrow> ('f, 'r, 'a) estate \<Rightarrow> check_input \<Rightarrow> resource_def \<Rightarrow> tier \<Rightarrow> tier_limit \<Rightarrow> f64 \<Rightarrow>
     string \<Rightarrow> f64 \<Rightarrow> result \<Rightarrow> result \<times> ('f, 'r, 'a) estate" where
  "recount_before_deny E st inp res t limit cap tierID cachedUsed denied =
     (if rd_CounterType res = CounterRate \<or> \<not> has_truth_source E res then (denied, st)
      else
       let org = partition_org (ci_UserID inp) (ci_OrgID inp) in
       case recompute_true_usage E (ci_OrgID inp) res of
         Inl e \<Rightarrow>
           let st = emit_provider_unreachable org res st in
           if rd_CounterType res = CounterAccumulator
           then (denied\<lparr>r_Reason := ''recount_source_unavailable_kept_deny''\<rparr>, st)
           else (denied\<lparr>r_Decision := Allow, r_Reason := ''recount_fail_open'', r_Used := cachedUsed,
                        r_Warning := False, r_Critical := False, r_Message := []\<rparr>, st)
       | Inr None \<Rightarrow> (denied, st)
       | Inr (Some trueUsed) \<Rightarrow>
           let st = (if drifted trueUsed cachedUsed
                     then (case repair_counter_to_truth E st res org trueUsed of
                             (Some e, st) \<Rightarrow> st
                           | (None, st) \<Rightarrow> emit_drift org res (source_for res) cachedUsed trueUsed st)
                     else st);
               repaired = decide_org (en_Messages E) (ci_ResourceKey inp) tierID t limit cap trueUsed (ci_Cost inp)
           in (if r_Decision repaired = Deny then repaired\<lparr>r_Reason := ''exceeded_recounted''\<rparr>
               else if drifted trueUsed cachedUsed then repaired\<lparr>r_Reason := ''recount_repaired_allow''\<rparr>
               else repaired, st))"

section \<open>Check\<close>

definition unknown_tier_msg :: "('f, 'r, 'a) engine \<Rightarrow> string \<Rightarrow> string" where
  "unknown_tier_msg E tierID =
     m_UnknownTier (en_Messages E)
       \<lparr>v_Resource = [], v_Limit = None, v_Used = None, v_Tier = tierID, v_UpgradeURL = []\<rparr>"

text \<open>The per-user test of a gauge: \<open>Some\<close> of a result stops the check.\<close>

definition check_per_user ::
  "('f, 'r, 'a) engine \<Rightarrow> ('f, 'r, 'a) estate \<Rightarrow> check_input \<Rightarrow> resource_def \<Rightarrow> tier \<Rightarrow> tier_limit \<Rightarrow> string \<Rightarrow>
     string \<Rightarrow> f64 \<Rightarrow> (goerr + result option) \<times> ('f, 'r, 'a) estate" where
  "check_per_user E st inp res t limit tierID org used =
     (if rd_CounterType res = CounterGauge \<and> ci_UserID inp \<noteq> [] then
        (case derive_per_user_limit limit (t_DefaultPerUserFraction t) of
           None \<Rightarrow> (Inr None, st)
         | Some pul \<Rightarrow>
             (case with_floats (\<lambda>s. get_float_dual (en_Floats E) s
                     (gauge_user_pair (counter_of E (rd_ResourceKey res)) org (ci_UserID inp))) st of
                (Inl e, st) \<Rightarrow> (Inl (ErrWrap ''engine: per-user usage lookup'' e), st)
              | (Inr (userUsed, ok), st) \<Rightarrow>
                  if fgt (fadd userUsed (ci_Cost inp)) pul then
                    (let r = r_zero\<lparr>r_Resource := ci_ResourceKey inp, r_TierID := tierID, r_Used := used,
                           r_Limit := tl_Limit limit, r_Decision := Deny, r_Reason := ''per_user_exceeded'',
                           r_Message := m_Denied (en_Messages E)
                             \<lparr>v_Resource = ci_ResourceKey inp, v_Limit = Some pul, v_Used = Some userUsed,
                              v_Tier = tierID, v_UpgradeURL = t_UpgradeURL t\<rparr>,
                           r_UpgradeURL := t_UpgradeURL t\<rparr>
                     in (Inr (Some (if shadow_mode E
                                    then r\<lparr>r_Decision := ShadowAllow, r_Reason := ''shadow_would_deny_per_user''\<rparr>
                                    else r)), st))
                  else (Inr None, st)))
      else (Inr None, st))"

definition shadow_convert :: "('f, 'r, 'a) engine \<Rightarrow> string \<Rightarrow> f64 \<Rightarrow> result \<Rightarrow> result" where
  "shadow_convert E rk cap r =
     (if r_Decision r = Deny \<and> shadow_mode E then
        r\<lparr>r_Decision := ShadowAllow, r_Reason := ''shadow_would_deny'',
          r_Message := m_ShadowAllowed (en_Messages E)
            \<lparr>v_Resource = rk, v_Limit = Some cap, v_Used = Some (r_Used r), v_Tier = [], v_UpgradeURL = []\<rparr>\<rparr>
      else r)"

text \<open>The check once the tier has a finite limit \<open>cap\<close> for the resource.\<close>

definition check_limited ::
  "('f, 'r, 'a) engine \<Rightarrow> ('f, 'r, 'a) estate \<Rightarrow> check_input \<Rightarrow> resource_def \<Rightarrow> tier \<Rightarrow> tier_limit \<Rightarrow> f64 \<Rightarrow> string \<Rightarrow>
     (goerr + result) \<times> ('f, 'r, 'a) estate" where
  "check_limited E st inp res t limit cap tierID =
     (let org = partition_org (ci_UserID inp) (ci_OrgID inp) in
      case ks_guard E org of
        Some e \<Rightarrow> (Inl e, st)
      | None \<Rightarrow>
          (case current_usage E st res org of
             (Inl e, st) \<Rightarrow> (Inl (ErrWrap ''engine: usage lookup'' e), st)
           | (Inr used, st) \<Rightarrow>
               (case check_per_user E st inp res t limit tierID org used of
                  (Inl e, st) \<Rightarrow> (Inl e, st)
                | (Inr (Some r), st) \<Rightarrow> (Inr r, st)
                | (Inr None, st) \<Rightarrow>
                    let r = decide_org (en_Messages E) (ci_ResourceKey inp) tierID t limit cap used (ci_Cost inp) in
                    (case (if r_Decision r = Deny
                           then recount_before_deny E st inp res t limit cap tierID used r else (r, st)) of
                       (r, st) \<Rightarrow> (Inr (shadow_convert E (ci_ResourceKey inp) cap r), st)))))"

definition check0 ::
  "('f, 'r, 'a) engine \<Rightarrow> ('f, 'r, 'a) estate \<Rightarrow> check_input \<Rightarrow> (goerr + result) \<times> ('f, 'r, 'a) estate" where
  "check0 E st inp0 =
     (let rk = ci_ResourceKey inp0;
          inp = (if ci_Cost inp0 = Fin 0 then inp0\<lparr>ci_Cost := Fin 1\<rparr> else inp0)
      in
      if rk = [] then (Inl ErrResourceKeyRequired, st)
      else if kill_switch E then
        (Inr (r_zero\<lparr>r_Decision := Deny, r_Reason := ''global_kill_switch'', r_Resource := rk,
                     r_Message := ''Quota enforcement halted by global kill switch.''\<rparr>), st)
      else if \<not> enforcement_on E then
        (Inr (r_zero\<lparr>r_Decision := Allow, r_Reason := ''enforcement_disabled'', r_Resource := rk\<rparr>), st)
      else case reg_resource (en_Reg E) rk of
        None \<Rightarrow> (Inl (ErrUnknownResource rk), st)
      | Some res \<Rightarrow>
          let got = en_Provider E (ci_UserID inp) (ci_OrgID inp);
              tierID = (case got of Inl e \<Rightarrow> [] | Inr tid \<Rightarrow> tid)
          in
          if tierID = [] then
            (Inr (r_zero\<lparr>r_Decision := UnknownTier, r_Reason := ''tier_unresolved'', r_Resource := rk,
                         r_TierID := tierID, r_Message := unknown_tier_msg E tierID\<rparr>), st)
          else (case reg_tier (en_Reg E) tierID of
            None \<Rightarrow>
              (Inr (r_zero\<lparr>r_Decision := Deny, r_Reason := ''tier_not_in_config'', r_Resource := rk,
                           r_TierID := tierID, r_Message := unknown_tier_msg E tierID\<rparr>),
               emit \<lparr>ev_Kind = TierNotInConfig, ev_OrgID = partition_org (ci_UserID inp) (ci_OrgID inp),
                     ev_UserID = [], ev_ResourceKey = rk, ev_Scope = [], ev_Level = Fin 0, ev_Limit = Fin 0\<rparr> st)
          | Some t \<Rightarrow>
              let unlimited = (Inr (r_zero\<lparr>r_Decision := Allow, r_Reason := ''unlimited'', r_Resource := rk,
                                           r_TierID := tierID\<rparr>), st)
              in
              (case map_of (t_Limits t) rk of
                 None \<Rightarrow> unlimited
               | Some limit \<Rightarrow>
                   (case tl_Limit limit of
                      None \<Rightarrow> unlimited
                    | Some cap \<Rightarrow> check_limited E st inp res t limit cap tierID))))"

definition check ::
  "('f, 'r, 'a) engine \<Rightarrow> ('f, 'r, 'a) estate \<Rightarrow> check_input \<Rightarrow> (goerr + result) \<times> ('f, 'r, 'a) estate" where
  "check E st inp =
     (case check0 E st inp of
        (Inl e, st) \<Rightarrow> (Inl e, st)
      | (Inr r, st) \<Rightarrow> (Inr (r\<lparr>r_OrgID := ci_OrgID inp\<rparr>), st))"

section \<open>Spend\<close>

definition spend_spec :: "('f, 'r, 'a) engine \<Rightarrow> string \<Rightarrow> string \<Rightarrow> string \<Rightarrow> f64 \<Rightarrow> f64 option \<Rightarrow> acquire_spec" where
  "spend_spec E rk org user delta orgLimit =
     (let g = counter_of E rk; op = gauge_org_pair g org;
          up = gauge_user_pair g org user; sq = gauge_seq_pair g org user; has = (user \<noteq> [])
      in \<lparr>as_OrgKey = dp_P op, as_UserKey = (if has then dp_P up else []), as_SeqKey = (if has then dp_P sq else []),
          as_HasUser = has, as_Delta = delta, as_OrgLimit = orgLimit, as_UserLimit = None,
          as_OrgKey2 = dp_S op, as_UserKey2 = (if has then dp_S up else []),
          as_SeqKey2 = (if has then dp_S sq else [])\<rparr>)"

text \<open>The opt-in \<open>legacy_increment=enforce\<close> branch: check and spend in one atomic step.\<close>

definition spend_enforced ::
  "('f, 'r, 'a) engine \<Rightarrow> ('f, 'r, 'a) estate \<Rightarrow> string \<Rightarrow> string \<Rightarrow> string \<Rightarrow> f64 \<Rightarrow> f64 option \<Rightarrow>
     ('f \<Rightarrow> string \<Rightarrow> bool \<Rightarrow> duration \<Rightarrow> acquire_spec list \<Rightarrow> (goerr + acquire_outcome) \<times> 'f) \<Rightarrow>
     (goerr + f64) \<times> ('f, 'r, 'a) estate" where
  "spend_enforced E st rk org user cost orgLimit acq =
     (let g = counter_of E rk; op = gauge_org_pair g org; specs = [spend_spec E rk org user cost orgLimit] in
      case (if dp_S op \<noteq> [] then
              (case fs_dual (en_Floats E) of
                 None \<Rightarrow> (Inl ErrNoDualOps, st)
               | Some d \<Rightarrow> with_floats (\<lambda>s. do_AtomicAcquire d s (gauge_idem_pair g org []) False 0
                                   (primary_is_v2 (en_Keyspace E)) specs) st)
            else with_floats (\<lambda>s. acq s [] False 0 specs) st) of
        (Inl e, st) \<Rightarrow> (Inl e, st)
      | (Inr out, st) \<Rightarrow>
          if \<not> ao_Admitted out then (Inl ErrOverLimit, st)
          else (case with_floats (\<lambda>s. fs_GetFloat (en_Floats E) s (dp_P op)) st of
                  (Inl e, st) \<Rightarrow> (Inr (Fin 0), st)
                | (Inr (v, ok), st) \<Rightarrow> (Inr v, st)))"

text \<open>The default branch counts the org gauge and the user partition: new values, or an error
  with the org value already applied.\<close>

definition spend_counted ::
  "('f, 'r, 'a) engine \<Rightarrow> ('f, 'r, 'a) estate \<Rightarrow> string \<Rightarrow> string \<Rightarrow> string \<Rightarrow> f64 \<Rightarrow>
     (goerr + f64 \<times> f64) \<times> ('f, 'r, 'a) estate" where
  "spend_counted E st rk org user cost =
     (let g = counter_of E rk; op = gauge_org_pair g org; F = en_Floats E; v2p = primary_is_v2 (en_Keyspace E) in
      if dp_S op \<noteq> [] then
        (case fs_dual F of
           None \<Rightarrow> (Inl ErrNoDualOps, st)
         | Some d \<Rightarrow>
             (case (if user \<noteq> []
                    then with_floats (\<lambda>s. do_SpendUser d s op (gauge_user_pair g org user) (gauge_seq_pair g org user) cost v2p) st
                    else (case with_floats (\<lambda>s. do_SpendOrg d s op cost v2p) st of
                            (Inl e, st) \<Rightarrow> (Inl e, st)
                          | (Inr v, st) \<Rightarrow> (Inr (v, Fin 0), st))) of
                (Inl e, st) \<Rightarrow> (Inl e, st)
              | (Inr vs, st) \<Rightarrow> (Inr vs, record_touch org rk st)))
      else
        (case with_floats (\<lambda>s. fs_IncrByFloat F s (dp_P op) cost) st of
           (Inl e, st) \<Rightarrow> (Inl e, st)
         | (Inr newVal, st) \<Rightarrow>
             let st = record_touch org rk st in
             if user = [] then (Inr (newVal, Fin 0), st)
             else (case with_floats (\<lambda>s. fs_IncrByFloat F s (dp_P (gauge_user_pair g org user)) cost) st of
                     (Inl e, st) \<Rightarrow> (Inl (ErrWrap ''engine: user partition increment'' e), st)
                   | (Inr uv, st) \<Rightarrow> (Inr (newVal, uv), st))))"

definition over_limit_event :: "string \<Rightarrow> string \<Rightarrow> string \<Rightarrow> string \<Rightarrow> f64 \<Rightarrow> f64 \<Rightarrow> event_kind \<Rightarrow> quota_event" where
  "over_limit_event org user rk scope level limit kind =
     \<lparr>ev_Kind = kind, ev_OrgID = org, ev_UserID = user, ev_ResourceKey = rk, ev_Scope = scope,
      ev_Level = level, ev_Limit = limit\<rparr>"

definition alert_up ::
  "string \<Rightarrow> string \<Rightarrow> string \<Rightarrow> string \<Rightarrow> f64 \<Rightarrow> f64 \<Rightarrow> f64 option \<Rightarrow> ('f, 'r, 'a) estate \<Rightarrow> ('f, 'r, 'a) estate" where
  "alert_up org user rk scope newVal cost limit st =
     (case limit of
        None \<Rightarrow> st
      | Some l \<Rightarrow> if crossed_up newVal cost l
                  then emit (over_limit_event org user rk scope newVal l OverLimitAdmitted) st else st)"

definition spend_gauge ::
  "('f, 'r, 'a) engine \<Rightarrow> ('f, 'r, 'a) estate \<Rightarrow> string \<Rightarrow> string \<Rightarrow> string \<Rightarrow> f64 \<Rightarrow> (goerr + f64) \<times> ('f, 'r, 'a) estate" where
  "spend_gauge E st rk org user cost =
     (case gauge_limit E org user rk of (orgLimit, userLimit) \<Rightarrow>
        (case (if legacy_enforce E \<and> orgLimit \<noteq> None then fs_acquirer (en_Floats E) else None) of
           Some acq \<Rightarrow> spend_enforced E st rk org user cost orgLimit acq
         | None \<Rightarrow>
             (case spend_counted E st rk org user cost of
                (Inl e, st) \<Rightarrow> (Inl e, st)
              | (Inr (newVal, userVal), st) \<Rightarrow>
                  let st = alert_up org [] rk ''org'' newVal cost orgLimit st;
                      st = (if user \<noteq> [] then alert_up org user rk ''user'' userVal cost userLimit st else st)
                  in (Inr newVal, st))))"

text \<open>The events of a rate spend; every member of one call carries the same instant.\<close>

fun record_events ::
  "('f, 'r, 'a) engine \<Rightarrow> ('f, 'r, 'a) estate \<Rightarrow> resource_def \<Rightarrow> string \<Rightarrow> nat \<Rightarrow> goerr option \<times> ('f, 'r, 'a) estate" where
  "record_events E st res org 0 = (None, st)"
| "record_events E st res org (Suc n) =
     (case record_events E st res org n of
        (Some e, st) \<Rightarrow> (Some e, st)
      | (None, st) \<Rightarrow>
          with_rates (\<lambda>s. rate_record_org (en_Rates E) s (counter_of E (rd_ResourceKey res)) (window_of res)
             org (es_now st) (pad 0 (es_now st) @ '':'' @ dec n)) st)"

definition spend_rate ::
  "('f, 'r, 'a) engine \<Rightarrow> ('f, 'r, 'a) estate \<Rightarrow> resource_def \<Rightarrow> string \<Rightarrow> f64 \<Rightarrow> (goerr + f64) \<times> ('f, 'r, 'a) estate" where
  "spend_rate E st res org rawCost =
     (case record_events E st res org (nat (to_go_int rawCost)) of
        (Some e, st) \<Rightarrow> (Inl e, st)
      | (None, st) \<Rightarrow>
          (case with_rates (\<lambda>s. rate_count_org (en_Rates E) s (counter_of E (rd_ResourceKey res))
                  (window_of res) org (es_now st)) st of
             (Inl e, st) \<Rightarrow> (Inl e, st)
           | (Inr n, st) \<Rightarrow> (Inr (of_go_int n), st)))"

definition spend ::
  "('f, 'r, 'a) engine \<Rightarrow> ('f, 'r, 'a) estate \<Rightarrow> check_input \<Rightarrow> (goerr + f64) \<times> ('f, 'r, 'a) estate" where
  "spend E st inp =
     (let rawCost = (if ci_Cost inp = Fin 0 then Fin 1 else ci_Cost inp); cost = fabs rawCost;
          rk = ci_ResourceKey inp; org = partition_org (ci_UserID inp) (ci_OrgID inp)
      in
      if \<not> finite_f rawCost then (Inl ErrCostNotFinite, st)
      else case reg_resource (en_Reg E) rk of
        None \<Rightarrow> (Inl (ErrUnknownResource rk), st)
      | Some res \<Rightarrow>
          (case ks_guard E org of
             Some e \<Rightarrow> (Inl e, st)
           | None \<Rightarrow>
               (case rd_CounterType res of
                  CounterAccumulator \<Rightarrow>
                    with_floats (\<lambda>s. acc_add_org (en_Floats E) s (counter_of E (rd_ResourceKey res))
                                   (rd_ResetPeriod res) org (es_now st) cost) st
                | CounterGauge \<Rightarrow> spend_gauge E st (rd_ResourceKey res) org (ci_UserID inp) cost
                | CounterRate \<Rightarrow> spend_rate E st res org rawCost
                | CounterOther ct \<Rightarrow> (Inl (ErrUnsupportedCounter ct), st))))"

section \<open>Release\<close>

definition alert_down ::
  "string \<Rightarrow> string \<Rightarrow> string \<Rightarrow> string \<Rightarrow> f64 \<Rightarrow> f64 \<Rightarrow> f64 option \<Rightarrow> ('f, 'r, 'a) estate \<Rightarrow> ('f, 'r, 'a) estate" where
  "alert_down org user rk scope newVal cost limit st =
     (case limit of
        None \<Rightarrow> st
      | Some l \<Rightarrow> if crossed_down newVal cost l
                  then emit (over_limit_event org user rk scope newVal l OverLimitResolved) st else st)"

definition release ::
  "('f, 'r, 'a) engine \<Rightarrow> ('f, 'r, 'a) estate \<Rightarrow> check_input \<Rightarrow> goerr option \<times> ('f, 'r, 'a) estate" where
  "release E st inp =
     (let rawCost = (if ci_Cost inp = Fin 0 then Fin 1 else ci_Cost inp); cost = fabs rawCost;
          rk = ci_ResourceKey inp; user = ci_UserID inp; org = partition_org user (ci_OrgID inp)
      in
      if \<not> finite_f rawCost then (Some ErrCostNotFinite, st)
      else case reg_resource (en_Reg E) rk of
        None \<Rightarrow> (Some (ErrUnknownResource rk), st)
      | Some res \<Rightarrow>
          if rd_CounterType res \<noteq> CounterGauge then (None, st)
          else case ks_guard E org of
            Some e \<Rightarrow> (Some e, st)
          | None \<Rightarrow>
              let g = counter_of E (rd_ResourceKey res) in
              (case gauge_limit E org user (rd_ResourceKey res) of (orgLimit, userLimit) \<Rightarrow>
                 (case decr_floor E st (gauge_org_pair g org) cost of
                    (Inl e, st) \<Rightarrow> (Some e, st)
                  | (Inr newOrg, st) \<Rightarrow>
                      let st = alert_down org [] (rd_ResourceKey res) ''org'' newOrg cost orgLimit st in
                      if user = [] then (None, st)
                      else (case decr_floor E st (gauge_user_pair g org user) cost of
                              (Inl e, st) \<Rightarrow> (Some (ErrWrap ''engine: user partition decrement'' e), st)
                            | (Inr newUser, st) \<Rightarrow>
                                (None, alert_down org user (rd_ResourceKey res) ''user'' newUser cost userLimit st)))))"

section \<open>Lifting the store contract\<close>

text \<open>With the legacy keyspace every counter has one key.\<close>

lemma legacy_pairs [simp]:
  assumes "\<not> ks_enabled (cr_Keyspace c)"
  shows "dp_S (gauge_org_pair c org) = []" "dp_S (gauge_user_pair c org u) = []" "dp_S (gauge_seq_pair c org u) = []"
    "dp_S (gauge_idem_pair c org k) = []" "dp_S (acc_period_pair c rp org now) = []" "dp_S (rate_org_pair c org) = []"
  using assms by (simp_all add: gauge_org_pair_def gauge_user_pair_def gauge_seq_pair_def gauge_idem_pair_def
      acc_period_pair_def rate_org_pair_def)

lemma counter_of_fields [simp]:
  "cr_Keyspace (counter_of E rk) = en_Keyspace E" "cr_Prefix (counter_of E rk) = en_Prefix E"
  "cr_ResourceKey (counter_of E rk) = rk"
  by (simp_all add: counter_of_def)

lemma emit_fields [simp]:
  "es_floats (emit ev st) = es_floats st" "es_rates (emit ev st) = es_rates st" "es_acts (emit ev st) = es_acts st"
  "es_touches (emit ev st) = es_touches st" "es_now (emit ev st) = es_now st"
  by (simp_all add: emit_def)

lemma alert_up_fields [simp]:
  "es_floats (alert_up o' u rk sc v c l st) = es_floats st" "es_acts (alert_up o' u rk sc v c l st) = es_acts st"
  "es_touches (alert_up o' u rk sc v c l st) = es_touches st" "es_now (alert_up o' u rk sc v c l st) = es_now st"
  by (simp_all add: alert_up_def split: option.splits)

lemma alert_down_fields [simp]:
  "es_floats (alert_down o' u rk sc v c l st) = es_floats st" "es_acts (alert_down o' u rk sc v c l st) = es_acts st"
  by (simp_all add: alert_down_def split: option.splits)

lemma touch_fields [simp]:
  "es_floats (record_touch o' rk st) = es_floats st" "es_acts (record_touch o' rk st) = es_acts st"
  "es_now (record_touch o' rk st) = es_now st"
  by (simp_all add: record_touch_def)

context reliable_store
begin

lemma usage_gauge:
  assumes "en_Floats E = F" and "rd_CounterType res = CounterGauge"
  shows "\<exists>s'. current_usage E st res org =
      (Inr (pair_level (level (es_floats st)) (gauge_org_pair (counter_of E (rd_ResourceKey res)) org)), st\<lparr>es_floats := s'\<rparr>)
    \<and> level s' = level (es_floats st) \<and> (\<forall>j. lasting (es_floats st) j \<longrightarrow> lasting s' j)"
  using get_dual_ex [of "es_floats st" "gauge_org_pair (counter_of E (rd_ResourceKey res)) org"] assms
  by (auto simp: current_usage_def with_floats_def)

end

text \<open>The verdict of the per-user test on levels.\<close>

definition user_over :: "('f, 'r, 'a) engine \<Rightarrow> check_input \<Rightarrow> resource_def \<Rightarrow> tier \<Rightarrow> tier_limit \<Rightarrow> string \<Rightarrow> (string \<rightharpoonup> f64) \<Rightarrow> bool" where
  "user_over E inp res t limit org lv \<longleftrightarrow>
     rd_CounterType res = CounterGauge \<and> ci_UserID inp \<noteq> [] \<and>
     (case derive_per_user_limit limit (t_DefaultPerUserFraction t) of
        None \<Rightarrow> False
      | Some pul \<Rightarrow>
          fgt (fadd (pair_level lv (gauge_user_pair (counter_of E (rd_ResourceKey res)) org (ci_UserID inp))) (ci_Cost inp)) pul)"

context reliable_store
begin

lemma per_user_pass:
  assumes "en_Floats E = F" and "\<not> user_over E inp res t limit org (level (es_floats st))"
  shows "\<exists>s'. check_per_user E st inp res t limit tid org used = (Inr None, st\<lparr>es_floats := s'\<rparr>)
    \<and> level s' = level (es_floats st) \<and> (\<forall>j. lasting (es_floats st) j \<longrightarrow> lasting s' j)"
proof (cases "rd_CounterType res = CounterGauge \<and> ci_UserID inp \<noteq> [] \<and> derive_per_user_limit limit (t_DefaultPerUserFraction t) \<noteq> None")
  case False
  then have "check_per_user E st inp res t limit tid org used = (Inr None, st)"
    by (auto simp: check_per_user_def split: option.splits)
  then show ?thesis by (intro exI [of _ "es_floats st"]) simp
next
  case True
  then show ?thesis
    using get_dual_ex [of "es_floats st" "gauge_user_pair (counter_of E (rd_ResourceKey res)) org (ci_UserID inp)"] assms
    by (auto simp: check_per_user_def with_floats_def user_over_def)
qed

lemma per_user_stop:
  assumes "en_Floats E = F" and "user_over E inp res t limit org (level (es_floats st))"
  shows "\<exists>r s'. check_per_user E st inp res t limit tid org used = (Inr (Some r), st\<lparr>es_floats := s'\<rparr>)
    \<and> r_Decision r = (if shadow_mode E then ShadowAllow else Deny) \<and> r_Used r = used
    \<and> level s' = level (es_floats st) \<and> (\<forall>j. lasting (es_floats st) j \<longrightarrow> lasting s' j)"
proof -
  obtain pul where "derive_per_user_limit limit (t_DefaultPerUserFraction t) = Some pul"
    using assms(2) by (auto simp: user_over_def split: option.splits)
  then show ?thesis
    using get_dual_ex [of "es_floats st" "gauge_user_pair (counter_of E (rd_ResourceKey res)) org (ci_UserID inp)"] assms
    by (auto simp: check_per_user_def with_floats_def user_over_def Let_def)
qed

end

section \<open>The limit in force\<close>

text \<open>
  What \<open>Check\<close> resolves before it reads a counter: the resource, the tier with its id, and the
  finite limit with its cap. \<open>None\<close> when a gate answers first.
\<close>

definition limit_in_force :: "('f, 'r, 'a) engine \<Rightarrow> check_input \<Rightarrow> (resource_def \<times> tier \<times> tier_limit \<times> f64 \<times> string) option" where
  "limit_in_force E inp =
     (let rk = ci_ResourceKey inp in
      if rk = [] \<or> kill_switch E \<or> \<not> enforcement_on E
         \<or> ks_guard E (partition_org (ci_UserID inp) (ci_OrgID inp)) \<noteq> None then None
      else case reg_resource (en_Reg E) rk of
        None \<Rightarrow> None
      | Some res \<Rightarrow>
          (case en_Provider E (ci_UserID inp) (ci_OrgID inp) of
             Inl e \<Rightarrow> None
           | Inr tid \<Rightarrow>
               if tid = [] then None
               else (case reg_tier (en_Reg E) tid of
                       None \<Rightarrow> None
                     | Some t \<Rightarrow>
                         (case map_of (t_Limits t) rk of
                            None \<Rightarrow> None
                          | Some limit \<Rightarrow>
                              (case tl_Limit limit of None \<Rightarrow> None | Some cap \<Rightarrow> Some (res, t, limit, cap, tid))))))"

definition charged :: "check_input \<Rightarrow> check_input" where
  "charged inp = (if ci_Cost inp = Fin 0 then inp\<lparr>ci_Cost := Fin 1\<rparr> else inp)"

definition org_of :: "check_input \<Rightarrow> string" where
  "org_of inp = partition_org (ci_UserID inp) (ci_OrgID inp)"

lemma charged_fields [simp]:
  "ci_UserID (charged inp) = ci_UserID inp" "ci_OrgID (charged inp) = ci_OrgID inp"
  "ci_ResourceKey (charged inp) = ci_ResourceKey inp"
  by (simp_all add: charged_def)

lemma org_of_charged [simp]: "org_of (charged inp) = org_of inp"
  by (simp add: org_of_def)

lemma check0_limited:
  assumes "limit_in_force E inp = Some (res, t, limit, cap, tid)"
  shows "check0 E st inp = check_limited E st (charged inp) res t limit cap tid"
    and "ks_guard E (org_of inp) = None"
  using assms
  by (auto simp: limit_in_force_def check0_def charged_def [symmetric] org_of_def Let_def
      split: if_splits option.splits sum.splits)

lemma check_limited_org:
  "check_limited E st (charged inp) res t limit cap tid =
     (case ks_guard E (org_of inp) of
        Some e \<Rightarrow> (Inl e, st)
      | None \<Rightarrow>
          (case current_usage E st res (org_of inp) of
             (Inl e, st) \<Rightarrow> (Inl (ErrWrap ''engine: usage lookup'' e), st)
           | (Inr used, st) \<Rightarrow>
               (case check_per_user E st (charged inp) res t limit tid (org_of inp) used of
                  (Inl e, st) \<Rightarrow> (Inl e, st)
                | (Inr (Some r), st) \<Rightarrow> (Inr r, st)
                | (Inr None, st) \<Rightarrow>
                    let r = decide_org (en_Messages E) (ci_ResourceKey inp) tid t limit cap used (ci_Cost (charged inp)) in
                    (case (if r_Decision r = Deny
                           then recount_before_deny E st (charged inp) res t limit cap tid used r else (r, st)) of
                       (r, st) \<Rightarrow> (Inr (shadow_convert E (ci_ResourceKey inp) cap r), st)))))"
  unfolding check_limited_def org_of_def charged_fields Let_def by (rule refl)

lemma decide_org_deny: "r_Decision (decide_org M rk tid t limit cap used cost) = Deny
    \<longleftrightarrow> fgt (fadd used cost) (fadd cap (tl_BurstAllowance limit))"
  by (simp add: decide_org_def Let_def)

lemma decide_org_not_shadow: "r_Decision (decide_org M rk tid t limit cap used cost) \<notin> {ShadowAllow, UnknownTier}"
  by (simp add: decide_org_def Let_def r_zero_def)

lemma shadow_convert_denies: "r_Decision (shadow_convert E rk cap r) = Deny \<longleftrightarrow> r_Decision r = Deny \<and> \<not> shadow_mode E"
  by (auto simp: shadow_convert_def)

definition org_over :: "('f, 'r, 'a) engine \<Rightarrow> check_input \<Rightarrow> resource_def \<Rightarrow> tier_limit \<Rightarrow> f64 \<Rightarrow> (string \<rightharpoonup> f64) \<Rightarrow> bool" where
  "org_over E inp res limit cap lv \<longleftrightarrow>
     fgt (fadd (pair_level lv (gauge_org_pair (counter_of E (rd_ResourceKey res)) (org_of inp))) (ci_Cost inp))
         (fadd cap (tl_BurstAllowance limit))"

context reliable_store
begin

text \<open>A gauge check up to the point where the org verdict is known.\<close>

lemma check_gauge_prefix:
  assumes "en_Floats E = F" and "limit_in_force E inp = Some (res, t, limit, cap, tid)"
    and "rd_CounterType res = CounterGauge"
    and "\<not> user_over E (charged inp) res t limit (org_of inp) (level (es_floats st))"
  shows "\<exists>s'. level s' = level (es_floats st) \<and> (\<forall>j. lasting (es_floats st) j \<longrightarrow> lasting s' j) \<and>
    check0 E st inp =
      (let used = pair_level (level (es_floats st)) (gauge_org_pair (counter_of E (rd_ResourceKey res)) (org_of inp));
           r = decide_org (en_Messages E) (ci_ResourceKey inp) tid t limit cap used (ci_Cost (charged inp))
       in (case (if r_Decision r = Deny
                 then recount_before_deny E (st\<lparr>es_floats := s'\<rparr>) (charged inp) res t limit cap tid used r
                 else (r, st\<lparr>es_floats := s'\<rparr>)) of
             (r, st) \<Rightarrow> (Inr (shadow_convert E (ci_ResourceKey inp) cap r), st)))"
proof -
  note c = check0_limited [OF assms(2)]
  obtain s1 where s1: "current_usage E st res (org_of inp) =
      (Inr (pair_level (level (es_floats st)) (gauge_org_pair (counter_of E (rd_ResourceKey res)) (org_of inp))), st\<lparr>es_floats := s1\<rparr>)"
    "level s1 = level (es_floats st)" "\<forall>j. lasting (es_floats st) j \<longrightarrow> lasting s1 j"
    using usage_gauge [OF assms(1,3)] by blast
  let ?used = "pair_level (level (es_floats st)) (gauge_org_pair (counter_of E (rd_ResourceKey res)) (org_of inp))"
  have nu: "\<not> user_over E (charged inp) res t limit (org_of inp) (level (es_floats (st\<lparr>es_floats := s1\<rparr>)))"
    using assms(4) s1(2) by simp
  obtain s2 where s2: "check_per_user E (st\<lparr>es_floats := s1\<rparr>) (charged inp) res t limit tid (org_of inp) ?used
      = (Inr None, st\<lparr>es_floats := s2\<rparr>)" "level s2 = level s1" "\<forall>j. lasting s1 j \<longrightarrow> lasting s2 j"
    using per_user_pass [OF assms(1) nu, of tid ?used] by auto
  have "check0 E st inp = (let r = decide_org (en_Messages E) (ci_ResourceKey inp) tid t limit cap ?used (ci_Cost (charged inp))
       in (case (if r_Decision r = Deny
                 then recount_before_deny E (st\<lparr>es_floats := s2\<rparr>) (charged inp) res t limit cap tid ?used r
                 else (r, st\<lparr>es_floats := s2\<rparr>)) of
             (r, st) \<Rightarrow> (Inr (shadow_convert E (ci_ResourceKey inp) cap r), st)))"
    unfolding c(1) check_limited_org by (simp add: c(2) s1(1) s2(1))
  with s1 s2 show ?thesis by (intro exI [of _ s2]) (auto simp: Let_def)
qed

lemma check_gauge_user_stop:
  assumes "en_Floats E = F" and "limit_in_force E inp = Some (res, t, limit, cap, tid)"
    and "rd_CounterType res = CounterGauge"
    and "user_over E (charged inp) res t limit (org_of inp) (level (es_floats st))"
  shows "\<exists>r s'. check0 E st inp = (Inr r, st\<lparr>es_floats := s'\<rparr>) \<and> level s' = level (es_floats st)
    \<and> r_Decision r = (if shadow_mode E then ShadowAllow else Deny)"
proof -
  note c = check0_limited [OF assms(2)]
  obtain s1 where s1: "current_usage E st res (org_of inp) =
      (Inr (pair_level (level (es_floats st)) (gauge_org_pair (counter_of E (rd_ResourceKey res)) (org_of inp))), st\<lparr>es_floats := s1\<rparr>)"
    "level s1 = level (es_floats st)" using usage_gauge [OF assms(1,3)] by blast
  let ?used = "pair_level (level (es_floats st)) (gauge_org_pair (counter_of E (rd_ResourceKey res)) (org_of inp))"
  have "user_over E (charged inp) res t limit (org_of inp) (level (es_floats (st\<lparr>es_floats := s1\<rparr>)))"
    using assms(4) s1(2) by simp
  then obtain r s2 where s2: "check_per_user E (st\<lparr>es_floats := s1\<rparr>) (charged inp) res t limit tid (org_of inp) ?used
      = (Inr (Some r), st\<lparr>es_floats := s2\<rparr>)" "level s2 = level s1"
    "r_Decision r = (if shadow_mode E then ShadowAllow else Deny)"
    using per_user_stop [OF assms(1), of "charged inp" res t limit "org_of inp" "st\<lparr>es_floats := s1\<rparr>" tid ?used] by auto
  have "check0 E st inp = (Inr r, st\<lparr>es_floats := s2\<rparr>)"
    unfolding c(1) check_limited_org by (simp add: c(2) s1(1) s2(1))
  with s1(2) s2(2,3) show ?thesis by auto
qed

lemma set_pair_ex:
  assumes "lasting s (dp_P p)" and "dp_S p \<noteq> [] \<longrightarrow> lasting s (dp_S p)"
  shows "\<exists>s'. set_pair F s p v 0 = (None, s')
    \<and> level s' = (if dp_S p = [] then (level s)(dp_P p \<mapsto> v) else (level s)(dp_P p \<mapsto> v, dp_S p \<mapsto> v))
    \<and> (\<forall>j. lasting s j \<longrightarrow> lasting s' j)"
proof -
  obtain s1 where s1: "fs_Set F s (dp_P p) v 0 = (None, s1)" "level s1 = (level s)(dp_P p \<mapsto> v)"
    "\<And>j. lasting s j \<Longrightarrow> lasting s1 j" using set_eq [OF assms(1)] by blast
  show ?thesis
  proof (cases "dp_S p = []")
    case True
    with s1 show ?thesis by (auto simp: set_pair_def)
  next
    case False
    then obtain s2 where "fs_Set F s1 (dp_S p) v 0 = (None, s2)" "level s2 = (level s1)(dp_S p \<mapsto> v)"
      "\<And>j. lasting s1 j \<Longrightarrow> lasting s2 j" using set_eq [of s1 "dp_S p"] s1(3) assms(2) by blast
    with s1 False show ?thesis by (auto simp: set_pair_def)
  qed
qed

end

lemma pair_level_set:
  "pair_level (if dp_S p = [] then lv(dp_P p \<mapsto> v) else lv(dp_P p \<mapsto> v, dp_S p \<mapsto> v)) p = v"
  by (auto simp: pair_level_def map_get_def)

section \<open>A small engine for the witnesses\<close>

definition no_messages :: messages where
  "no_messages = \<lparr>m_Denied = (\<lambda>_. []), m_OverBurst = (\<lambda>_. []), m_Warning = (\<lambda>_. []), m_Critical = (\<lambda>_. []),
     m_UnknownTier = (\<lambda>_. []), m_ShadowAllowed = (\<lambda>_. [])\<rparr>"

definition small_engine :: "(mem_store, mem_rates, mem_acts) engine" where
  "small_engine = \<lparr>en_Cfg = Some small_config, en_Reg = reg_new small_config, en_Provider = (\<lambda>_ _. Inr ''free''),
     en_Prefix = ''quota'', en_Keyspace = ks_zero, en_Floats = mem_float_store, en_Rates = mem_rate_store,
     en_Activations = mem_act_store, en_Messages = no_messages, en_ObservedUsage = None, en_AccumulatorUsage = None,
     en_ReadRepairThrottle = 0, en_StrictEnv = []\<rparr>"

definition small_state :: "(mem_store, mem_rates, mem_acts) estate" where
  "small_state = \<lparr>es_floats = mem_empty 0, es_rates = Map.empty, es_acts = ma_empty ''t'', es_touches = Map.empty,
     es_rrLast = Map.empty, es_now = 0, es_events = [], es_drifts = [], es_resolved = []\<rparr>"

definition small_input :: check_input where
  "small_input = \<lparr>ci_UserID = [], ci_OrgID = ''o1'', ci_ResourceKey = ''box.live'', ci_Cost = Fin 1\<rparr>"

definition free_tier :: tier where
  "free_tier = plain_tier ''free'' [(''box.live'', plain_limit (Fin 2))]"

lemma small_flags [simp]:
  "kill_switch small_engine = False" "enforcement_on small_engine = True" "shadow_mode small_engine = False"
  "legacy_enforce small_engine = False" "en_Floats small_engine = mem_float_store"
  "en_ObservedUsage small_engine = None" "en_AccumulatorUsage small_engine = None" "en_Keyspace small_engine = ks_zero"
  "en_Activations small_engine = mem_act_store" "en_Prefix small_engine = ''quota''" "en_Rates small_engine = mem_rate_store"
  by (simp_all add: small_engine_def small_config_def enforce_all_def kill_switch_def enforcement_on_def
      shadow_mode_def legacy_enforce_def legacy_increment_mode_def)

lemma small_ks [simp]: "ks_enabled ks_zero = False"
  by (simp add: ks_enabled_def ks_version_def ks_zero_def)

lemma small_reg [simp]:
  "reg_resource (en_Reg small_engine) ''box.live'' = Some (gauge_resource ''box.live'')"
  "reg_tier (en_Reg small_engine) ''free'' = Some free_tier"
  "en_Provider small_engine u o' = Inr ''free''"
  by (simp_all add: small_engine_def small_config_def reg_resource_def reg_tier_def reg_new_def index_by_def
      gauge_resource_def plain_tier_def free_tier_def)

lemma small_limit:
  "limit_in_force small_engine (small_input\<lparr>ci_Cost := c\<rparr>) =
     Some (gauge_resource ''box.live'', free_tier, plain_limit (Fin 2), Fin 2, ''free'')"
  by (simp add: limit_in_force_def small_input_def ks_guard_def Let_def)
     (simp add: free_tier_def plain_tier_def plain_limit_def unmarshal_tier_limit_def)

section \<open>Properties of Check\<close>

text \<open>
  \<open>Check\<close> decides a gauge by the counters and nothing else. With a limit in force and no truth
  source wired, it allows the request exactly when shadow mode is on, or the user is within the
  derived share and the org's level plus the cost is within cap plus burst. It never moves a
  level, leaves no touch and emits nothing.
\<close>

theorem check_gauge_verdict:
  assumes "en_Floats E = mem_float_store" and "limit_in_force E inp = Some (res, t, limit, cap, tid)"
    and "rd_CounterType res = CounterGauge" and "en_ObservedUsage E = None"
  shows "\<exists>r s'. check E st inp = (Inr r, st\<lparr>es_floats := s'\<rparr>) \<and> mem_level s' = mem_level (es_floats st)
    \<and> (allowed r \<longleftrightarrow> shadow_mode E \<or>
         \<not> user_over E (charged inp) res t limit (org_of inp) (mem_level (es_floats st))
         \<and> \<not> org_over E (charged inp) res limit cap (mem_level (es_floats st)))"
proof (cases "user_over E (charged inp) res t limit (org_of inp) (mem_level (es_floats st))")
  case True
  from ms.check_gauge_user_stop [OF assms(1-3) True] True show ?thesis
    by (auto simp: check_def allowed_def)
next
  case False
  have nt: "\<not> has_truth_source E res" using assms(3,4) by (simp add: has_truth_source_def)
  from ms.check_gauge_prefix [OF assms(1-3) False]
  obtain s' where "mem_level s' = mem_level (es_floats st)" and "check0 E st inp =
      (Inr (shadow_convert E (ci_ResourceKey inp) cap (decide_org (en_Messages E) (ci_ResourceKey inp) tid t limit cap
         (pair_level (mem_level (es_floats st)) (gauge_org_pair (counter_of E (rd_ResourceKey res)) (org_of inp)))
         (ci_Cost (charged inp)))), st\<lparr>es_floats := s'\<rparr>)"
    using nt by (auto simp: recount_before_deny_def Let_def split: if_splits)
  with False show ?thesis
    by (auto simp: check_def allowed_def shadow_convert_denies decide_org_deny org_over_def org_of_def)
qed

theorem check_gauge_verdict_witness:
  "\<exists>r s'. check small_engine small_state (small_input\<lparr>ci_Cost := Fin 3\<rparr>) = (Inr r, small_state\<lparr>es_floats := s'\<rparr>) \<and> \<not> allowed r"
proof -
  have "org_over small_engine (charged (small_input\<lparr>ci_Cost := Fin 3\<rparr>)) (gauge_resource ''box.live'') (plain_limit (Fin 2)) (Fin 2)
      (mem_level (es_floats small_state))"
    by (simp add: org_over_def charged_def small_input_def small_state_def store_simps
        map_get_def plain_limit_def unmarshal_tier_limit_def)
  with check_gauge_verdict [OF _ small_limit, of small_state "Fin 3"] show ?thesis
    by (auto simp: gauge_resource_def)
qed

text \<open>
  Shadow mode only observes. Whatever the stores answer, a check in shadow mode never denies on a
  limit: the two denials it can return are the global kill switch and a tier id that the
  configuration does not know.
\<close>

theorem shadow_mode_never_denies:
  assumes "shadow_mode E" and "check E st inp = (Inr r, st')" and "r_Decision r = Deny"
  shows "r_Reason r = ''global_kill_switch'' \<and> kill_switch E \<or> r_Reason r = ''tier_not_in_config''"
proof -
  have lim: "r_Decision r' \<noteq> Deny" if "check_limited E st inp' res t limit cap tid = (Inr r', st'')" for inp' res t limit cap tid r' st''
    using that assms(1)
    by (auto simp: check_limited_def check_per_user_def shadow_convert_def Let_def
        split: option.splits prod.splits sum.splits if_splits)
  obtain r0 where r0: "check0 E st inp = (Inr r0, st')" "r = r0\<lparr>r_OrgID := ci_OrgID inp\<rparr>"
    using assms(2) by (auto simp: check_def split: prod.splits sum.splits)
  with assms(3) have "r_Decision r0 = Deny" by simp
  with r0(1) lim have "r_Reason r0 = ''global_kill_switch'' \<and> kill_switch E \<or> r_Reason r0 = ''tier_not_in_config''"
    by (fastforce simp: check0_def Let_def r_zero_def split: if_splits option.splits sum.splits)
  with r0(2) show ?thesis by simp
qed

definition shadow_engine :: "(mem_store, mem_rates, mem_acts) engine" where
  "shadow_engine = small_engine\<lparr>en_Cfg := Some (small_config\<lparr>c_Enforcement := enforce_all\<lparr>ef_ShadowMode := True\<rparr>\<rparr>),
     en_Provider := (\<lambda>_ _. Inr ''gone'')\<rparr>"

theorem shadow_mode_never_denies_witness:
  "\<exists>r st'. shadow_mode shadow_engine \<and> check shadow_engine small_state small_input = (Inr r, st')
     \<and> r_Decision r = Deny \<and> r_Reason r = ''tier_not_in_config''"
proof -
  have s: "shadow_mode shadow_engine" "kill_switch shadow_engine = False" "enforcement_on shadow_engine"
    by (simp_all add: shadow_engine_def shadow_mode_def kill_switch_def enforcement_on_def small_config_def enforce_all_def)
  have "reg_tier (en_Reg shadow_engine) ''gone'' = None"
    by (simp add: shadow_engine_def small_engine_def small_config_def reg_tier_def reg_new_def index_by_def plain_tier_def)
  moreover have "reg_resource (en_Reg shadow_engine) ''box.live'' = Some (gauge_resource ''box.live'')"
    using small_reg(1) by (simp add: shadow_engine_def)
  ultimately obtain r st' where r: "check shadow_engine small_state small_input = (Inr r, st')" "r_Decision r = Deny"
    using s by (simp add: check_def check0_def small_input_def Let_def shadow_engine_def)
  from shadow_mode_never_denies [OF s(1) r] s r show ?thesis by auto
qed

section \<open>Recounting before a denial\<close>

text \<open>The tolerance does not matter to whole numbers: they drift exactly when they differ.\<close>

lemma fle_flt_trans: "fle a b \<Longrightarrow> flt b c \<Longrightarrow> flt a c"
  by (cases a; cases b; cases c) (auto simp: fle_def)

lemma flt_fle_trans: "flt a b \<Longrightarrow> fle b c \<Longrightarrow> flt a c"
  by (cases a; cases b; cases c) (auto simp: fle_def)

lemma flt_NaN [simp]: "\<not> flt a NaN"
  by (cases a) auto

lemma drift_eps_small: "flt drift_eps (Fin 1)"
proof -
  have half: "fround (1 / 2) = Fin (1 / 2)" by code_simp
  have "fle drift_eps (fround (1 / 2))" unfolding drift_eps_def by (rule fround_mono) simp
  then have "fle drift_eps (Fin (1 / 2))" unfolding half .
  then show ?thesis by (rule fle_flt_trans) simp
qed

lemma drift_eps_nonneg: "\<not> flt drift_eps (Fin 0)"
  using fround_mono [of 0 "1 / 10 ^ 9"] unfolding drift_eps_def by (auto simp: fle_def)

lemma drifted_refl [simp]: "\<not> drifted a a"
  using drift_eps_nonneg by (cases a) (auto simp: drifted_def fsub_def)

lemma drifted_int:
  assumes "\<bar>m - n\<bar> \<le> 2 ^ 53"
  shows "drifted (Fin (of_int m)) (Fin (of_int n)) \<longleftrightarrow> m \<noteq> n"
proof (cases "m = n")
  case False
  have "fabs (fsub (Fin (of_int m)) (Fin (of_int n))) = Fin (of_int \<bar>m - n\<bar>)" using fsub_int [OF assms] by simp
  moreover have "fle (Fin 1) (Fin (of_int \<bar>m - n\<bar>))" using False by simp
  ultimately show ?thesis
    using flt_fle_trans [OF drift_eps_small] False unfolding drifted_def by simp
qed simp

lemma emit_drift_fields [simp]:
  "es_floats (emit_drift o' res' src b a st) = es_floats st" "es_events (emit_drift o' res' src b a st) = es_events st"
  "es_floats (emit_provider_unreachable o' res' st) = es_floats st"
  by (simp_all add: emit_drift_def emit_provider_unreachable_def)

context reliable_store
begin

lemma repair_gauge_ex:
  assumes "en_Floats E = F" and "rd_CounterType res = CounterGauge"
    and "lasting (es_floats st) (dp_P (gauge_org_pair (counter_of E (rd_ResourceKey res)) org))"
    and "dp_S (gauge_org_pair (counter_of E (rd_ResourceKey res)) org) \<noteq> [] \<longrightarrow>
      lasting (es_floats st) (dp_S (gauge_org_pair (counter_of E (rd_ResourceKey res)) org))"
  shows "\<exists>s'. repair_counter_to_truth E st res org v = (None, st\<lparr>es_floats := s'\<rparr>)
    \<and> pair_level (level s') (gauge_org_pair (counter_of E (rd_ResourceKey res)) org) = v"
  using set_pair_ex [OF assms(3,4), of v] assms(1,2) pair_level_set
  by (auto simp: repair_counter_to_truth_def with_floats_def Let_def)

end

text \<open>What the truth source says of a gauge decides the denied request.\<close>

lemma recount_gauge_cases:
  assumes "rd_CounterType res = CounterGauge" and "en_ObservedUsage E = Some obs"
  shows "obs (ci_OrgID inp) = Inl e \<Longrightarrow>
      \<exists>r st'. recount_before_deny E st inp res t limit cap tid used d = (r, st')
        \<and> r_Decision r = Allow \<and> r_Reason r = ''recount_fail_open'' \<and> es_floats st' = es_floats st"
    and "obs (ci_OrgID inp) = Inr m \<Longrightarrow> m (rd_ResourceKey res) = None \<Longrightarrow>
      recount_before_deny E st inp res t limit cap tid used d = (d, st)"
    and "obs (ci_OrgID inp) = Inr m \<Longrightarrow> m (rd_ResourceKey res) = Some n \<Longrightarrow>
      \<exists>r st'. recount_before_deny E st inp res t limit cap tid used d = (r, st')
        \<and> (r_Decision r = Deny \<longleftrightarrow> fgt (fadd (of_go_int n) (ci_Cost inp)) (fadd cap (tl_BurstAllowance limit)))"
  using assms decide_org_deny
  by (auto simp: recount_before_deny_def has_truth_source_def recompute_true_usage_def Let_def)

text \<open>
  A gauge is never denied on a stale cache. When the cached level would deny a request and a
  truth source is wired: if the source cannot answer the request is allowed with the levels
  untouched; if it has no observation of the resource the denial stands; if it answers \<open>n\<close>,
  the verdict is the one for \<open>n\<close>, and a cache that had drifted is set to \<open>n\<close>, under both keys of
  a dual keyspace.
\<close>

theorem recount_decides_by_truth:
  assumes "en_Floats E = mem_float_store" and "limit_in_force E inp = Some (res, t, limit, cap, tid)"
    and "rd_CounterType res = CounterGauge" and "en_ObservedUsage E = Some obs" and "\<not> shadow_mode E"
    and "\<not> user_over E (charged inp) res t limit (org_of inp) (mem_level (es_floats st))"
    and "org_over E (charged inp) res limit cap (mem_level (es_floats st))"
    and "pair = gauge_org_pair (counter_of E (rd_ResourceKey res)) (org_of inp)"
    and "mem_lasting (es_floats st) (dp_P pair)" and "dp_S pair \<noteq> [] \<longrightarrow> mem_lasting (es_floats st) (dp_S pair)"
  shows "\<exists>r st'. check E st inp = (Inr r, st') \<and>
    (case obs (ci_OrgID inp) of
       Inl e \<Rightarrow> allowed r \<and> mem_level (es_floats st') = mem_level (es_floats st)
     | Inr m \<Rightarrow>
         (case m (rd_ResourceKey res) of
            None \<Rightarrow> \<not> allowed r \<and> mem_level (es_floats st') = mem_level (es_floats st)
          | Some n \<Rightarrow>
              (allowed r \<longleftrightarrow> \<not> fgt (fadd (of_go_int n) (ci_Cost (charged inp))) (fadd cap (tl_BurstAllowance limit))) \<and>
              (drifted (of_go_int n) (pair_level (mem_level (es_floats st)) pair) \<longrightarrow>
                 pair_level (mem_level (es_floats st')) pair = of_go_int n)))"
proof -
  let ?used = "pair_level (mem_level (es_floats st)) pair"
  let ?d = "decide_org (en_Messages E) (ci_ResourceKey inp) tid t limit cap ?used (ci_Cost (charged inp))"
  have deny: "r_Decision ?d = Deny" using assms(7,8) by (simp add: decide_org_deny org_over_def)
  obtain s' where s': "mem_level s' = mem_level (es_floats st)" "\<forall>j. mem_lasting (es_floats st) j \<longrightarrow> mem_lasting s' j"
    and c0: "check0 E st inp = (case recount_before_deny E (st\<lparr>es_floats := s'\<rparr>) (charged inp) res t limit cap tid ?used ?d of
       (r, st) \<Rightarrow> (Inr (shadow_convert E (ci_ResourceKey inp) cap r), st))"
    using ms.check_gauge_prefix [OF assms(1-3,6)] deny assms(8) by (auto simp: Let_def)
  let ?st = "st\<lparr>es_floats := s'\<rparr>"
  have sc: "shadow_convert E rk c r = r" for rk c r using assms(5) by (simp add: shadow_convert_def)
  have c: "check E st inp = (case recount_before_deny E ?st (charged inp) res t limit cap tid ?used ?d of
       (r, st') \<Rightarrow> (Inr (r\<lparr>r_OrgID := ci_OrgID inp\<rparr>), st'))"
    by (simp add: check_def c0 sc split: prod.splits)
  note cases = recount_gauge_cases [OF assms(3,4), where inp = "charged inp", simplified]
  show ?thesis
  proof (cases "obs (ci_OrgID inp)")
    case (Inl e)
    from cases(1) [OF Inl, of ?st t limit cap tid ?used ?d] Inl c s'(1) show ?thesis by (auto simp: allowed_def)
  next
    case (Inr m)
    show ?thesis
    proof (cases "m (rd_ResourceKey res)")
      case None
      from cases(2) [OF Inr None, of ?st t limit cap tid ?used ?d] Inr None c s'(1) deny show ?thesis
        by (auto simp: allowed_def)
    next
      case (Some n)
      obtain r st' where r: "recount_before_deny E ?st (charged inp) res t limit cap tid ?used ?d = (r, st')"
        "r_Decision r = Deny \<longleftrightarrow> fgt (fadd (of_go_int n) (ci_Cost (charged inp))) (fadd cap (tl_BurstAllowance limit))"
        using cases(3) [OF Inr Some, of ?st t limit cap tid ?used ?d] by auto
      obtain s'' where s'': "repair_counter_to_truth E ?st res (org_of inp) (of_go_int n) = (None, st\<lparr>es_floats := s''\<rparr>)"
        "pair_level (mem_level s'') pair = of_go_int n"
        using ms.repair_gauge_ex [OF assms(1,3), of ?st "org_of inp" "of_go_int n"] s'(2) assms(8-10) by auto
      have "drifted (of_go_int n) ?used \<Longrightarrow> es_floats st' = s''"
        using r(1) s''(1) assms(3,4) Inr Some
        by (auto simp: recount_before_deny_def has_truth_source_def recompute_true_usage_def org_of_def Let_def)
      with r s''(2) Inr Some c show ?thesis by (auto simp: allowed_def)
    qed
  qed
qed

definition recount_engine :: "(mem_store, mem_rates, mem_acts) engine" where
  "recount_engine = small_engine\<lparr>en_ObservedUsage := Some (\<lambda>_. Inr [''box.live'' \<mapsto> 1])\<rparr>"

definition stale_state :: "(mem_store, mem_rates, mem_acts) estate" where
  "stale_state = small_state\<lparr>es_floats := mem_put (mem_empty 0) ''quota:o1:box.live:gauge'' (Fin 2)\<rparr>"

lemma limit_in_force_observed [simp]: "limit_in_force (E\<lparr>en_ObservedUsage := o'\<rparr>) inp = limit_in_force E inp"
  by (simp add: limit_in_force_def kill_switch_def enforcement_on_def ks_guard_def Let_def
      cong: if_cong option.case_cong sum.case_cong)

lemma small_org_key [simp]: "gauge_org_pair (counter_of small_engine ''box.live'') ''o1'' = single ''quota:o1:box.live:gauge''"
  by (simp add: gauge_org_pair_def key_prefix_build_def)

lemma counter_of_observed [simp]: "counter_of (E\<lparr>en_ObservedUsage := o'\<rparr>) rk = counter_of E rk"
  by (simp add: counter_of_def)

lemma stale_level [simp]: "mem_level (es_floats stale_state) = [''quota:o1:box.live:gauge'' \<mapsto> Fin 2]"
  by (auto simp: stale_state_def store_simps fun_eq_iff)

theorem recount_decides_by_truth_witness:
  "\<exists>r st'. check recount_engine stale_state small_input = (Inr r, st') \<and> allowed r
     \<and> pair_level (mem_level (es_floats st')) (single ''quota:o1:box.live:gauge'') = Fin 1"
proof -
  let ?i = "small_input\<lparr>ci_Cost := Fin 1\<rparr>"
  have i: "?i = small_input" "charged small_input = small_input" "org_of small_input = ''o1''"
    "ci_OrgID small_input = ''o1''" "ci_UserID small_input = []" "ci_Cost small_input = Fin 1"
    by (simp_all add: small_input_def charged_def org_of_def partition_org_def)
  have lim: "limit_in_force recount_engine small_input =
      Some (gauge_resource ''box.live'', free_tier, plain_limit (Fin 2), Fin 2, ''free'')"
    using small_limit [of "Fin 1"] unfolding i(1) recount_engine_def by simp
  have g: "rd_CounterType (gauge_resource ''box.live'') = CounterGauge" "rd_ResourceKey (gauge_resource ''box.live'') = ''box.live''"
    by (simp_all add: gauge_resource_def)
  have b: "tl_BurstAllowance (plain_limit (Fin 2)) = Fin 0" by (simp add: plain_limit_def unmarshal_tier_limit_def)
  have e: "counter_of recount_engine ''box.live'' = counter_of small_engine ''box.live''"
    "shadow_mode recount_engine = False" "en_Floats recount_engine = mem_float_store"
    "en_ObservedUsage recount_engine = Some (\<lambda>_. Inr [''box.live'' \<mapsto> 1])"
    using small_flags(3) by (simp_all add: recount_engine_def shadow_mode_def)
  have n: "\<not> user_over recount_engine (charged small_input) (gauge_resource ''box.live'') free_tier (plain_limit (Fin 2))
      (org_of small_input) (mem_level (es_floats stale_state))" by (simp add: user_over_def i)
  have o: "org_over recount_engine (charged small_input) (gauge_resource ''box.live'') (plain_limit (Fin 2)) (Fin 2)
      (mem_level (es_floats stale_state))" by (simp add: org_over_def i g e b map_get_def)
  have one: "of_go_int 1 = Fin 1" by (simp add: of_go_int_def)
  have dr: "drifted (Fin 1) (Fin 2)" using drifted_int [of 1 2] by simp
  have las: "mem_lasting (es_floats stale_state) k" for k by (simp add: mem_lasting_def stale_state_def mem_empty_def)
  from recount_decides_by_truth [OF e(3) lim g(1) e(4) _ n o refl las] show ?thesis
    using dr by (auto simp: i g e b one map_get_def)
qed

text \<open>
  For money the direction is the other one: when the ledger behind an accumulator cannot
  answer, a request that the cached total denies stays denied, whatever the store, and no counter
  is written.
\<close>

theorem accumulator_recount_keeps_deny:
  assumes "limit_in_force E inp = Some (res, t, limit, cap, tid)" and "rd_CounterType res = CounterAccumulator"
    and "en_AccumulatorUsage E = Some src" and "src (ci_OrgID inp) = Inl e" and "\<not> shadow_mode E"
    and "current_usage E st res (org_of inp) = (Inr used, st1)"
    and "fgt (fadd used (ci_Cost (charged inp))) (fadd cap (tl_BurstAllowance limit))"
  shows "\<exists>r st'. check E st inp = (Inr r, st') \<and> \<not> allowed r
    \<and> r_Reason r = ''recount_source_unavailable_kept_deny'' \<and> es_floats st' = es_floats st1"
proof -
  note c = check0_limited [OF assms(1)]
  let ?d = "decide_org (en_Messages E) (ci_ResourceKey inp) tid t limit cap used (ci_Cost (charged inp))"
  have pu: "check_per_user E st1 (charged inp) res t limit tid (org_of inp) used = (Inr None, st1)"
    using assms(2) by (simp add: check_per_user_def)
  have d: "r_Decision ?d = Deny" using assms(7) by (simp add: decide_org_deny)
  have rc: "recount_before_deny E st1 (charged inp) res t limit cap tid used ?d =
      (?d\<lparr>r_Reason := ''recount_source_unavailable_kept_deny''\<rparr>, emit_provider_unreachable (org_of inp) res st1)"
    using assms(2-4) by (simp add: recount_before_deny_def has_truth_source_def recompute_true_usage_def org_of_def)
  have "check0 E st inp = (Inr (?d\<lparr>r_Reason := ''recount_source_unavailable_kept_deny''\<rparr>), emit_provider_unreachable (org_of inp) res st1)"
    unfolding c(1) check_limited_org using d assms(5) by (simp add: c(2) assms(6) pu rc shadow_convert_def)
  with d show ?thesis by (simp add: check_def allowed_def)
qed

definition meter_resource :: resource_def where
  "meter_resource = (gauge_resource ''gb.month'')\<lparr>rd_CounterType := CounterAccumulator, rd_ResetPeriod := ResetMonthly\<rparr>"

definition meter_engine :: "(mem_store, mem_rates, mem_acts) engine" where
  "meter_engine = small_engine\<lparr>
     en_Reg := reg_new (small_config\<lparr>c_Resources := [meter_resource],
                 c_Tiers := [plain_tier ''free'' [(''gb.month'', plain_limit (Fin 2))]]\<rparr>),
     en_AccumulatorUsage := Some (\<lambda>_. Inl (ErrBackend ''ledger down''))\<rparr>"

theorem accumulator_recount_keeps_deny_witness:
  "\<exists>r st'. check meter_engine small_state (small_input\<lparr>ci_ResourceKey := ''gb.month'', ci_Cost := Fin 3\<rparr>) = (Inr r, st')
     \<and> \<not> allowed r \<and> r_Reason r = ''recount_source_unavailable_kept_deny''"
proof -
  let ?i = "small_input\<lparr>ci_ResourceKey := ''gb.month'', ci_Cost := Fin 3\<rparr>"
  let ?t = "plain_tier ''free'' [(''gb.month'', plain_limit (Fin 2))]"
  have f: "kill_switch meter_engine = False" "enforcement_on meter_engine" "shadow_mode meter_engine = False"
    using small_flags(1-3) by (simp_all add: meter_engine_def kill_switch_def enforcement_on_def shadow_mode_def)
  have lim: "limit_in_force meter_engine ?i = Some (meter_resource, ?t, plain_limit (Fin 2), Fin 2, ''free'')"
    using f by (simp add: limit_in_force_def small_input_def ks_guard_def meter_engine_def reg_resource_def reg_tier_def
        reg_new_def index_by_def meter_resource_def gauge_resource_def small_config_def Let_def)
      (simp add: plain_tier_def plain_limit_def unmarshal_tier_limit_def)
  have m: "rd_CounterType meter_resource = CounterAccumulator" by (simp add: meter_resource_def)
  obtain ok s' where "get_float_dual mem_float_store (mem_empty 0) (acc_period_pair (counter_of meter_engine ''gb.month'') ResetMonthly ''o1'' 0)
      = (Inr (pair_level (mem_level (mem_empty 0)) (acc_period_pair (counter_of meter_engine ''gb.month'') ResetMonthly ''o1'' 0), ok), s')"
    using ms.get_dual_ex by blast
  moreover have lv: "mem_level (mem_empty 0) = Map.empty" by (simp add: store_simps fun_eq_iff)
  moreover have "en_Floats meter_engine = mem_float_store" by (simp add: meter_engine_def)
  ultimately have u: "current_usage meter_engine small_state meter_resource (org_of ?i) = (Inr (Fin 0), small_state\<lparr>es_floats := s'\<rparr>)"
    by (simp add: current_usage_def with_floats_def acc_get_org_def small_state_def org_of_def partition_org_def small_input_def
        meter_resource_def gauge_resource_def pair_level_def map_get_def Let_def)
  have b: "tl_BurstAllowance (plain_limit (Fin 2)) = Fin 0" by (simp add: plain_limit_def unmarshal_tier_limit_def)
  have src: "en_AccumulatorUsage meter_engine = Some (\<lambda>_. Inl (ErrBackend ''ledger down''))" by (simp add: meter_engine_def)
  from accumulator_recount_keeps_deny [OF lim m src _ _ u] f b show ?thesis
    by (auto simp: charged_def small_input_def)
qed

section \<open>Spend and Release\<close>

definition dec_level :: "string \<Rightarrow> f64 \<Rightarrow> (string \<rightharpoonup> f64) \<Rightarrow> (string \<rightharpoonup> f64)" where
  "dec_level k d lv = lv(k \<mapsto> floor_zero (fsub (map_get (Fin 0) lv k) d))"

definition amount_of :: "check_input \<Rightarrow> f64" where
  "amount_of inp = fabs (ci_Cost (charged inp))"

definition org_key :: "('f, 'r, 'a) engine \<Rightarrow> check_input \<Rightarrow> string" where
  "org_key E inp = dp_P (gauge_org_pair (counter_of E (ci_ResourceKey inp)) (org_of inp))"

definition user_key_of :: "('f, 'r, 'a) engine \<Rightarrow> check_input \<Rightarrow> string" where
  "user_key_of E inp = dp_P (gauge_user_pair (counter_of E (ci_ResourceKey inp)) (org_of inp) (ci_UserID inp))"

text \<open>A request on a gauge of a legacy keyspace with a finite cost.\<close>

definition gauge_request :: "('f, 'r, 'a) engine \<Rightarrow> check_input \<Rightarrow> bool" where
  "gauge_request E inp \<longleftrightarrow> finite_f (ci_Cost (charged inp)) \<and> \<not> ks_enabled (en_Keyspace E) \<and>
     (case reg_resource (en_Reg E) (ci_ResourceKey inp) of
        None \<Rightarrow> False
      | Some res \<Rightarrow> rd_CounterType res = CounterGauge \<and> rd_ResourceKey res = ci_ResourceKey inp)"

lemma charged_cost: "ci_Cost (charged inp) = (if ci_Cost inp = Fin 0 then Fin 1 else ci_Cost inp)"
  by (simp add: charged_def)

lemma spend_gauge_eq:
  "gauge_request E inp \<Longrightarrow> spend E st inp = spend_gauge E st (ci_ResourceKey inp) (org_of inp) (ci_UserID inp) (amount_of inp)"
  by (auto simp: spend_def gauge_request_def org_of_def amount_of_def charged_cost ks_guard_def Let_def split: option.splits)

lemma release_gauge_eq:
  assumes "gauge_request E inp" and "rk = ci_ResourceKey inp" and "user = ci_UserID inp" and "org = org_of inp"
  shows "release E st inp =
    (case gauge_limit E org user rk of (orgLimit, userLimit) \<Rightarrow>
       (case decr_floor E st (gauge_org_pair (counter_of E rk) org) (amount_of inp) of
          (Inl e, st) \<Rightarrow> (Some e, st)
        | (Inr newOrg, st) \<Rightarrow>
            let st = alert_down org [] rk ''org'' newOrg (amount_of inp) orgLimit st in
            if user = [] then (None, st)
            else (case decr_floor E st (gauge_user_pair (counter_of E rk) org user) (amount_of inp) of
                    (Inl e, st) \<Rightarrow> (Some (ErrWrap ''engine: user partition decrement'' e), st)
                  | (Inr newUser, st) \<Rightarrow> (None, alert_down org user rk ''user'' newUser (amount_of inp) userLimit st))))"
proof -
  obtain res where res: "reg_resource (en_Reg E) (ci_ResourceKey inp) = Some res" "rd_CounterType res = CounterGauge"
    "rd_ResourceKey res = ci_ResourceKey inp" and fin: "finite_f (ci_Cost (charged inp))" and ks: "ks_guard E org = None"
    using assms(1) by (auto simp: gauge_request_def ks_guard_def split: option.splits)
  show ?thesis
    unfolding release_def Let_def charged_cost [symmetric] org_of_def [symmetric] amount_of_def [symmetric]
      assms(2-4) res(1) option.case res(3)
    using fin ks assms(4) by (simp add: res(2))
qed

context reliable_store
begin

lemma spend_counted_ex:
  assumes "en_Floats E = F" and "\<not> ks_enabled (en_Keyspace E)"
    and "ok = dp_P (gauge_org_pair (counter_of E rk) org)" and "uk = dp_P (gauge_user_pair (counter_of E rk) org user)"
  shows "\<exists>uv st'. spend_counted E st rk org user c = (Inr (fadd (map_get (Fin 0) (level (es_floats st)) ok) c, uv), st')
    \<and> es_touches st' = (es_touches st)(org @ ''|'' @ rk \<mapsto> es_now st) \<and> es_now st' = es_now st
    \<and> level (es_floats st') = (if user = [] then add_level ok c (level (es_floats st)) else add_level uk c (add_level ok c (level (es_floats st))))"
proof -
  obtain s1 where s1: "fs_IncrByFloat F (es_floats st) ok c = (Inr (fadd (map_get (Fin 0) (level (es_floats st)) ok) c), s1)"
    "level s1 = add_level ok c (level (es_floats st))"
    using incr_eq [of "es_floats st" ok c] unfolding add_level_def by blast
  obtain s2 where s2: "fs_IncrByFloat F s1 uk c = (Inr (fadd (map_get (Fin 0) (level s1) uk) c), s2)"
    "level s2 = add_level uk c (level s1)"
    using incr_eq [of s1 uk c] unfolding add_level_def by blast
  show ?thesis
    using assms s1 s2 by (cases "user = []") (auto simp: spend_counted_def with_floats_def record_touch_def Let_def)
qed

lemma decr_floor_ex:
  assumes "en_Floats E = F" and "dp_S p = []"
  shows "\<exists>v s'. decr_floor E st p d = (Inr v, st\<lparr>es_floats := s'\<rparr>) \<and> level s' = dec_level (dp_P p) d (level (es_floats st))"
proof -
  obtain s' where "fs_DecrByFloorZero F (es_floats st) (dp_P p) d =
      (Inr (floor_zero (fsub (map_get (Fin 0) (level (es_floats st)) (dp_P p)) d)), s')"
    "level s' = dec_level (dp_P p) d (level (es_floats st))"
    using decr_eq [of "es_floats st" "dp_P p" d] unfolding dec_level_def by blast
  with assms show ?thesis by (auto simp: decr_floor_def with_floats_def)
qed

lemma spend_ex:
  assumes "en_Floats E = F" and "gauge_request E inp" and "\<not> legacy_enforce E"
  shows "\<exists>st'. spend E st inp = (Inr (fadd (map_get (Fin 0) (level (es_floats st)) (org_key E inp)) (amount_of inp)), st')
    \<and> es_touches st' = (es_touches st)(org_of inp @ ''|'' @ ci_ResourceKey inp \<mapsto> es_now st) \<and> es_now st' = es_now st
    \<and> level (es_floats st') = (if ci_UserID inp = [] then add_level (org_key E inp) (amount_of inp) (level (es_floats st))
         else add_level (user_key_of E inp) (amount_of inp) (add_level (org_key E inp) (amount_of inp) (level (es_floats st))))"
proof -
  have ks: "\<not> ks_enabled (en_Keyspace E)" using assms(2) by (simp add: gauge_request_def)
  from spend_counted_ex [OF assms(1) ks, OF refl refl, of st "ci_ResourceKey inp" "org_of inp" "ci_UserID inp" "amount_of inp"]
  show ?thesis unfolding spend_gauge_eq [OF assms(2)] using assms(3)
    by (auto simp: spend_gauge_def org_key_def user_key_of_def Let_def split: prod.splits)
qed

lemma release_ex:
  assumes "en_Floats E = F" and "gauge_request E inp"
  shows "\<exists>st'. release E st inp = (None, st')
    \<and> level (es_floats st') = (if ci_UserID inp = [] then dec_level (org_key E inp) (amount_of inp) (level (es_floats st))
         else dec_level (user_key_of E inp) (amount_of inp) (dec_level (org_key E inp) (amount_of inp) (level (es_floats st))))"
proof -
  let ?c = "counter_of E (ci_ResourceKey inp)"
  have ks: "\<not> ks_enabled (cr_Keyspace ?c)" using assms(2) by (simp add: gauge_request_def)
  obtain v s1 where s1: "decr_floor E st (gauge_org_pair ?c (org_of inp)) (amount_of inp) = (Inr v, st\<lparr>es_floats := s1\<rparr>)"
    "level s1 = dec_level (org_key E inp) (amount_of inp) (level (es_floats st))"
    using decr_floor_ex [OF assms(1) legacy_pairs(1) [OF ks]] unfolding org_key_def by blast
  obtain ol ul where lim: "gauge_limit E (org_of inp) (ci_UserID inp) (ci_ResourceKey inp) = (ol, ul)" by fastforce
  let ?st = "alert_down (org_of inp) [] (ci_ResourceKey inp) ''org'' v (amount_of inp) ol (st\<lparr>es_floats := s1\<rparr>)"
  obtain w s2 where s2: "decr_floor E ?st (gauge_user_pair ?c (org_of inp) (ci_UserID inp)) (amount_of inp) = (Inr w, ?st\<lparr>es_floats := s2\<rparr>)"
    "level s2 = dec_level (user_key_of E inp) (amount_of inp) (level (es_floats ?st))"
    using decr_floor_ex [OF assms(1) legacy_pairs(2) [OF ks]] unfolding user_key_of_def by blast
  show ?thesis
    unfolding release_gauge_eq [OF assms(2) refl refl refl] using s1 s2 lim by (auto simp: Let_def)
qed

end

lemma build_user_key: "key_prefix_build p [a, b, ''gauge'', ''user'', u] = key_prefix_build p [a, b, ''gauge''] @ '':user:'' @ u"
  by (simp add: key_prefix_build_def)

lemma org_user_keys_differ: "\<not> ks_enabled (en_Keyspace E) \<Longrightarrow> user_key_of E inp \<noteq> org_key E inp"
  by (simp add: org_key_def user_key_of_def gauge_org_pair_def gauge_user_pair_def build_user_key)

text \<open>
  \<open>Spend\<close> counts, it never refuses. In the default mode a spend on a gauge adds the magnitude of
  the cost, and 1 for a zero cost, to the org level and to the user's partition, returns the new
  org level and changes no other counter, even past the limit. The gauge counts as recently
  touched afterwards, so the reconciler leaves it alone.
\<close>

theorem spend_counts_exactly:
  assumes "en_Floats E = mem_float_store" and "gauge_request E inp" and "\<not> legacy_enforce E"
  shows "\<exists>st'. spend E st inp = (Inr (fadd (map_get (Fin 0) (mem_level (es_floats st)) (org_key E inp)) (amount_of inp)), st')
    \<and> mem_level (es_floats st') (org_key E inp)
        = Some (fadd (map_get (Fin 0) (mem_level (es_floats st)) (org_key E inp)) (amount_of inp))
    \<and> (ci_UserID inp \<noteq> [] \<longrightarrow> mem_level (es_floats st') (user_key_of E inp)
        = Some (fadd (map_get (Fin 0) (mem_level (es_floats st)) (user_key_of E inp)) (amount_of inp)))
    \<and> (\<forall>k. k \<noteq> org_key E inp \<and> (ci_UserID inp = [] \<or> k \<noteq> user_key_of E inp)
         \<longrightarrow> mem_level (es_floats st') k = mem_level (es_floats st) k)
    \<and> (0 < w \<longrightarrow> recently_touched st' (org_of inp) (ci_ResourceKey inp) w)"
proof -
  have "user_key_of E inp \<noteq> org_key E inp"
    using assms(2) by (intro org_user_keys_differ) (simp add: gauge_request_def)
  with ms.spend_ex [OF assms, of st] show ?thesis by (auto simp: add_level_def map_get_def recently_touched_def)
qed

lemma small_request [simp]: "gauge_request small_engine small_input"
  by (simp add: gauge_request_def charged_def small_input_def finite_f_def gauge_resource_def)

theorem spend_counts_exactly_witness:
  "\<exists>st'. spend small_engine small_state small_input = (Inr (Fin 1), st')
     \<and> mem_level (es_floats st') ''quota:o1:box.live:gauge'' = Some (Fin 1)"
proof -
  have a: "amount_of small_input = Fin 1" "org_key small_engine small_input = ''quota:o1:box.live:gauge''"
    by (simp_all add: amount_of_def charged_def small_input_def org_key_def org_of_def partition_org_def)
  have lv: "mem_level (es_floats small_state) = Map.empty"
    by (simp add: small_state_def store_simps fun_eq_iff)
  from spend_counts_exactly [of small_engine small_input small_state] show ?thesis by (auto simp: a lv map_get_def)
qed

text \<open>
  Release undoes Spend. For whole-number levels and a whole-number cost, as gauges have them,
  releasing what was just spent brings the org level and the user's level back to where they
  were, and every other counter is as it was.
\<close>

theorem release_undoes_spend:
  assumes "en_Floats E = mem_float_store" and "gauge_request E inp" and "\<not> legacy_enforce E"
    and "amount_of inp = Fin (of_int c)" and "\<bar>c\<bar> \<le> 2 ^ 52"
    and "mem_level (es_floats st) (org_key E inp) = Some (Fin (of_int m))" and "0 \<le> m" and "m \<le> 2 ^ 52"
    and "mem_level (es_floats st) (user_key_of E inp) = Some (Fin (of_int u))" and "0 \<le> u" and "u \<le> 2 ^ 52"
    and "spend E st inp = (v, st1)"
  shows "\<exists>st2. release E st1 inp = (None, st2) \<and> mem_level (es_floats st2) = mem_level (es_floats st)"
proof -
  have ne: "user_key_of E inp \<noteq> org_key E inp"
    using assms(2) by (intro org_user_keys_differ) (simp add: gauge_request_def)
  have restore: "floor_zero (fsub (fadd (Fin (of_int n)) (Fin (of_int c))) (Fin (of_int c))) = Fin (of_int n)"
    if "0 \<le> n" "n \<le> 2 ^ 52" for n
  proof -
    have "fadd (Fin (of_int n)) (Fin (of_int c)) = Fin (of_int (n + c))" using that assms(5) by (intro fadd_int) simp
    moreover have "fsub (Fin (of_int (n + c))) (Fin (of_int c)) = Fin (of_int (n + c - c))" using that by (intro fsub_int) simp
    ultimately show ?thesis using that by (simp add: floor_zero_def)
  qed
  from ms.spend_ex [OF assms(1-3), of st] assms(12)
  have l1: "mem_level (es_floats st1) = (if ci_UserID inp = [] then add_level (org_key E inp) (amount_of inp) (mem_level (es_floats st))
       else add_level (user_key_of E inp) (amount_of inp) (add_level (org_key E inp) (amount_of inp) (mem_level (es_floats st))))"
    by auto
  obtain st2 where st2: "release E st1 inp = (None, st2)"
    "mem_level (es_floats st2) = (if ci_UserID inp = [] then dec_level (org_key E inp) (amount_of inp) (mem_level (es_floats st1))
       else dec_level (user_key_of E inp) (amount_of inp) (dec_level (org_key E inp) (amount_of inp) (mem_level (es_floats st1))))"
    using ms.release_ex [OF assms(1,2), of st1] by blast
  have "mem_level (es_floats st2) k = mem_level (es_floats st) k" for k
    using restore [OF assms(7,8)] restore [OF assms(10,11)] assms(4,6,9) ne unfolding st2(2) l1
    by (auto simp: dec_level_def add_level_def map_get_def simp del: fadd.simps)
  with st2(1) show ?thesis by blast
qed

definition busy_state :: "(mem_store, mem_rates, mem_acts) estate" where
  "busy_state = small_state\<lparr>es_floats := mem_put (mem_put (mem_empty 0) ''quota:o1:box.live:gauge'' (Fin (of_int 2)))
     ''quota:o1:box.live:gauge:user:u1'' (Fin (of_int 1))\<rparr>"

theorem release_undoes_spend_witness:
  "\<exists>st1 st2. spend small_engine busy_state (small_input\<lparr>ci_UserID := ''u1''\<rparr>) = (Inr (Fin 3), st1)
     \<and> release small_engine st1 (small_input\<lparr>ci_UserID := ''u1''\<rparr>) = (None, st2)
     \<and> mem_level (es_floats st2) = mem_level (es_floats busy_state)"
proof -
  let ?i = "small_input\<lparr>ci_UserID := ''u1''\<rparr>"
  have r: "gauge_request small_engine ?i"
    by (simp add: gauge_request_def charged_def small_input_def finite_f_def gauge_resource_def)
  have a: "amount_of ?i = Fin (of_int 1)" "org_key small_engine ?i = ''quota:o1:box.live:gauge''"
    "user_key_of small_engine ?i = ''quota:o1:box.live:gauge:user:u1''"
    by (simp_all add: amount_of_def charged_def small_input_def org_key_def user_key_of_def org_of_def partition_org_def
        gauge_user_pair_def key_prefix_build_def)
  have lv: "mem_level (es_floats busy_state) =
      [''quota:o1:box.live:gauge'' \<mapsto> Fin (of_int 2), ''quota:o1:box.live:gauge:user:u1'' \<mapsto> Fin (of_int 1)]"
    by (auto simp: busy_state_def store_simps fun_eq_iff)
  obtain st1 where st1: "spend small_engine busy_state ?i = (Inr (Fin 3), st1)"
    using ms.spend_ex [OF small_flags(5) r, of busy_state] by (auto simp: a lv map_get_def)
  from release_undoes_spend [OF small_flags(5) r _ a(1) _ _ _ _ _ _ _ st1, of 2 1] st1 show ?thesis
    by (auto simp: a lv)
qed

text \<open>
  Bad amounts change nothing. Whatever the stores, a NaN or infinite cost is refused by \<open>Spend\<close>
  and \<open>Release\<close> before any store is called; and the sign of a finite cost does not matter to a gauge
  or an accumulator, so a negative cost can never erase usage.
\<close>

theorem spend_refuses_bad_amounts:
  "(\<not> finite_f (ci_Cost inp) \<longrightarrow>
      spend E st inp = (Inl ErrCostNotFinite, st) \<and> release E st inp = (Some ErrCostNotFinite, st))
   \<and> ((\<forall>res. reg_resource (en_Reg E) (ci_ResourceKey inp) = Some res \<longrightarrow> rd_CounterType res \<noteq> CounterRate) \<longrightarrow>
      spend E st (inp\<lparr>ci_Cost := Fin (- a)\<rparr>) = spend E st (inp\<lparr>ci_Cost := Fin a\<rparr>)
      \<and> release E st (inp\<lparr>ci_Cost := Fin (- a)\<rparr>) = release E st (inp\<lparr>ci_Cost := Fin a\<rparr>))"
proof (intro conjI impI)
  assume "\<not> finite_f (ci_Cost inp)"
  then have "\<not> finite_f (if ci_Cost inp = Fin 0 then Fin 1 else ci_Cost inp)" by (auto simp: finite_f_def)
  then show "spend E st inp = (Inl ErrCostNotFinite, st)" "release E st inp = (Some ErrCostNotFinite, st)"
    by (simp_all add: spend_def release_def Let_def)
next
  assume nr: "\<forall>res. reg_resource (en_Reg E) (ci_ResourceKey inp) = Some res \<longrightarrow> rd_CounterType res \<noteq> CounterRate"
  show "spend E st (inp\<lparr>ci_Cost := Fin (- a)\<rparr>) = spend E st (inp\<lparr>ci_Cost := Fin a\<rparr>)"
    using nr by (auto simp: spend_def finite_f_def Let_def split: option.splits counter_type.splits)
  show "release E st (inp\<lparr>ci_Cost := Fin (- a)\<rparr>) = release E st (inp\<lparr>ci_Cost := Fin a\<rparr>)"
  proof -
    have e: "ci_Cost (inp\<lparr>ci_Cost := x\<rparr>) = x" "ci_UserID (inp\<lparr>ci_Cost := x\<rparr>) = ci_UserID inp"
      "ci_OrgID (inp\<lparr>ci_Cost := x\<rparr>) = ci_OrgID inp" "ci_ResourceKey (inp\<lparr>ci_Cost := x\<rparr>) = ci_ResourceKey inp" for x
      by simp_all
    have f: "fabs (if Fin (- a) = Fin 0 then Fin 1 else Fin (- a)) = fabs (if Fin a = Fin 0 then Fin 1 else Fin a)"
      "finite_f (if Fin (- a) = Fin 0 then Fin 1 else Fin (- a)) = finite_f (if Fin a = Fin 0 then Fin 1 else Fin a)"
      by (simp_all add: finite_f_def)
    show ?thesis unfolding release_def Let_def e f by (rule refl)
  qed
qed

theorem spend_refuses_bad_amounts_witness:
  "spend small_engine small_state (small_input\<lparr>ci_Cost := NaN\<rparr>) = (Inl ErrCostNotFinite, small_state)
   \<and> spend small_engine small_state (small_input\<lparr>ci_Cost := Fin (- 3)\<rparr>)
      = spend small_engine small_state (small_input\<lparr>ci_Cost := Fin 3\<rparr>)"
  using spend_refuses_bad_amounts [of "small_input\<lparr>ci_Cost := NaN\<rparr>" small_engine small_state 3]
  by (simp add: finite_f_def) (simp add: small_input_def gauge_resource_def)

end
