(* ===== verification/EngineActivation.thy ===== *)
theory EngineActivation
  imports Engine
begin

text \<open>
  The activation API of \<open>engine/activation.go\<close> (\<open>Acquire\<close>, \<open>ReleaseActivation\<close>, \<open>Settle\<close>) and
  the recount entry points of \<open>engine/recount_20260810.go\<close> (\<open>ReconcileOrg\<close>,
  \<open>MaybeReadRepair\<close>). The minted id, the opening timestamp and \<open>strconv.ParseFloat\<close> are
  arguments.
\<close>

section \<open>Acquire\<close>

record acquire_input =
  ai_OrgID :: string
  ai_UserID :: string
  ai_BundleName :: string
  ai_ResourceKey :: string
  ai_IdempotencyKey :: string

record acquire_result =
  ar_Admitted :: bool
  ar_ActivationID :: string
  ar_DeniedResource :: string
  ar_Reason :: string
  ar_Values :: "(string \<times> f64) list"

definition ar_zero :: acquire_result where
  "ar_zero = \<lparr>ar_Admitted = False, ar_ActivationID = [], ar_DeniedResource = [], ar_Reason = [], ar_Values = []\<rparr>"

definition ar_denied :: "string \<Rightarrow> string \<Rightarrow> acquire_result" where
  "ar_denied label reason = ar_zero\<lparr>ar_DeniedResource := label, ar_Reason := reason\<rparr>"

text \<open>What is acquired: its label, the resource keys, and whether the name is unknown.\<close>

definition acquire_target :: "('f, 'r, 'a) engine \<Rightarrow> acquire_input \<Rightarrow> (string \<times> string list \<times> bool) option" where
  "acquire_target E inp =
     (if ai_BundleName inp \<noteq> [] then
        Some (ai_BundleName inp, reg_bundle (en_Reg E) (ai_BundleName inp),
              \<not> reg_has_bundle (en_Reg E) (ai_BundleName inp))
      else if ai_ResourceKey inp \<noteq> [] then
        Some (ai_ResourceKey inp, [ai_ResourceKey inp], reg_resource (en_Reg E) (ai_ResourceKey inp) = None)
      else None)"

definition tier_misconfigured :: "('f, 'r, 'a) engine \<Rightarrow> string \<Rightarrow> string \<Rightarrow> bool" where
  "tier_misconfigured E user org =
     (case en_Provider E user org of
        Inl e \<Rightarrow> False
      | Inr tierID \<Rightarrow> tierID \<noteq> [] \<and> reg_tier (en_Reg E) tierID = None)"

definition allow_unknown :: "('f, 'r, 'a) engine \<Rightarrow> bool" where
  "allow_unknown E =
     (case en_Cfg E of
        None \<Rightarrow> False
      | Some c \<Rightarrow> \<not> ef_Enabled (c_Enforcement c) \<or> ef_ShadowMode (c_Enforcement c)
                  \<or> unknown_bundle_allow_warn (c_Enforcement c))"

text \<open>The gauges of the target with their limits; other counter types are not gated.\<close>

definition gauge_spec :: "('f, 'r, 'a) engine \<Rightarrow> acquire_input \<Rightarrow> string \<Rightarrow> acquire_spec" where
  "gauge_spec E inp rk =
     (case gauge_limit E (ai_OrgID inp) (ai_UserID inp) rk of (orgLimit, userLimit) \<Rightarrow>
        (spend_spec E rk (ai_OrgID inp) (ai_UserID inp) (Fin 1) orgLimit)\<lparr>as_UserLimit := userLimit\<rparr>)"

definition is_gauge :: "('f, 'r, 'a) engine \<Rightarrow> string \<Rightarrow> bool" where
  "is_gauge E rk =
     (case reg_resource (en_Reg E) rk of None \<Rightarrow> False | Some rd \<Rightarrow> rd_CounterType rd = CounterGauge)"

definition gauge_specs :: "('f, 'r, 'a) engine \<Rightarrow> acquire_input \<Rightarrow> string list \<Rightarrow> (string \<times> acquire_spec) list" where
  "gauge_specs E inp rks = map (\<lambda>rk. (rk, gauge_spec E inp rk)) (filter (is_gauge E) rks)"

definition clear_limits :: "acquire_spec \<Rightarrow> acquire_spec" where
  "clear_limits sp = sp\<lparr>as_OrgLimit := None, as_UserLimit := None\<rparr>"

text \<open>\<open>runAcquire\<close>: the atomic step on one shape, or on both while the keyspace is dual.\<close>

definition run_acquire ::
  "('f, 'r, 'a) engine \<Rightarrow> ('f \<Rightarrow> string \<Rightarrow> bool \<Rightarrow> duration \<Rightarrow> acquire_spec list \<Rightarrow> (goerr + acquire_outcome) \<times> 'f) \<Rightarrow>
     dual_pair \<Rightarrow> bool \<Rightarrow> acquire_spec list \<Rightarrow> ('f, 'r, 'a) estate \<Rightarrow> (goerr + acquire_outcome) \<times> ('f, 'r, 'a) estate" where
  "run_acquire E acq idemPair hasIdem specs st =
     (if dp_S idemPair \<noteq> [] then
        (case fs_dual (en_Floats E) of
           None \<Rightarrow> (Inl ErrNoDualOps, st)
         | Some d \<Rightarrow> with_floats (\<lambda>s. do_AtomicAcquire d s idemPair hasIdem 0 (primary_is_v2 (en_Keyspace E)) specs) st)
      else with_floats (\<lambda>s. acq s (dp_P idemPair) hasIdem 0 specs) st)"

definition get_or_zero :: "('f, 'r, 'a) engine \<Rightarrow> ('f, 'r, 'a) estate \<Rightarrow> string \<Rightarrow> f64 \<times> ('f, 'r, 'a) estate" where
  "get_or_zero E st k =
     (case with_floats (\<lambda>s. fs_GetFloat (en_Floats E) s k) st of
        (Inl e, st) \<Rightarrow> (Fin 0, st)
      | (Inr (v, ok), st) \<Rightarrow> (v, st))"

definition gauge_def :: "string \<Rightarrow> resource_def" where
  "gauge_def rk = \<lparr>rd_Service = [], rd_ResourceKey = rk, rd_DisplayName = [], rd_CounterType = CounterGauge,
     rd_Unit = [], rd_WindowSeconds = 0, rd_ResetPeriod = ResetOther [], rd_Precision = 0\<rparr>"

text \<open>Repairing the cached gauges to the observed counts; the flag says whether one was repaired.\<close>

fun repair_gauges ::
  "('f, 'r, 'a) engine \<Rightarrow> string \<Rightarrow> (string \<rightharpoonup> int) \<Rightarrow> (string \<times> acquire_spec) list \<Rightarrow> bool \<Rightarrow>
     ('f, 'r, 'a) estate \<Rightarrow> bool \<times> ('f, 'r, 'a) estate" where
  "repair_gauges E org obs [] repaired st = (repaired, st)"
| "repair_gauges E org obs ((rk, sp) # gs) repaired st =
     (case obs rk of
        None \<Rightarrow> repair_gauges E org obs gs repaired st
      | Some n \<Rightarrow>
          (case get_or_zero E st (as_OrgKey sp) of (cur, st) \<Rightarrow>
             if drifted (of_go_int n) cur then
               (case repair_counter_to_truth E st (gauge_def rk) org (of_go_int n) of
                  (Some e, st) \<Rightarrow> repair_gauges E org obs gs repaired st
                | (None, st) \<Rightarrow> repair_gauges E org obs gs True (emit_drift org (gauge_def rk) ''provider'' cur (of_go_int n) st))
             else repair_gauges E org obs gs repaired st))"

text \<open>
  The recount of a denied acquire: an error, or the outcome of the retry when there was one.
  The retry runs with the limits cleared when the provider cannot answer.
\<close>

definition recount_acquire ::
  "('f, 'r, 'a) engine \<Rightarrow> (acquire_spec list \<Rightarrow> ('f, 'r, 'a) estate \<Rightarrow> (goerr + acquire_outcome) \<times> ('f, 'r, 'a) estate) \<Rightarrow>
     string \<Rightarrow> string \<Rightarrow> (string \<times> acquire_spec) list \<Rightarrow> acquire_spec list \<Rightarrow> ('f, 'r, 'a) estate \<Rightarrow>
     (goerr + acquire_outcome option) \<times> ('f, 'r, 'a) estate" where
  "recount_acquire E run org label gs specs st =
     (case (if enforcement_on E then en_ObservedUsage E else None) of
        None \<Rightarrow> (Inr None, st)
      | Some observe \<Rightarrow>
          (case observe org of
             Inl e \<Rightarrow>
               (case run (map clear_limits specs) (emit_provider_unreachable org (gauge_def label) st) of
                  (Inl e, st) \<Rightarrow> (Inl e, st)
                | (Inr out, st) \<Rightarrow> (Inr (Some out), st))
           | Inr obs \<Rightarrow>
               (case repair_gauges E org obs gs False st of (repaired, st) \<Rightarrow>
                  if \<not> repaired then (Inr None, st)
                  else (case run specs st of
                          (Inl e, st) \<Rightarrow> (Inl e, st)
                        | (Inr out, st) \<Rightarrow> (Inr (Some out), st)))))"

text \<open>
  The admission of the gauges: an error, a denial naming a resource, or the outcome that
  admitted. A denial in shadow mode is repeated with the limits cleared.
\<close>

definition admit ::
  "('f, 'r, 'a) engine \<Rightarrow> (acquire_spec list \<Rightarrow> ('f, 'r, 'a) estate \<Rightarrow> (goerr + acquire_outcome) \<times> ('f, 'r, 'a) estate) \<Rightarrow>
     string \<Rightarrow> string \<Rightarrow> (string \<times> acquire_spec) list \<Rightarrow> ('f, 'r, 'a) estate \<Rightarrow>
     (goerr + string + acquire_outcome) \<times> ('f, 'r, 'a) estate" where
  "admit E run org label gs st =
     (let specs = map snd gs;
          specs = (if enforcement_on E then specs else map clear_limits specs)
      in
      case run specs st of
        (Inl e, st) \<Rightarrow> (Inl e, st)
      | (Inr out, st) \<Rightarrow>
          if ao_Admitted out then (Inr (Inr out), st)
          else
            let i = ao_DeniedIndex out;
                denied = (if 1 \<le> i \<and> i \<le> length gs then fst (gs ! (i - 1)) else label)
            in
            if shadow_mode E then
              (case run (map clear_limits specs) st of
                 (Inl e, st) \<Rightarrow> (Inl e, st)
               | (Inr out, st) \<Rightarrow> (Inr (Inr out), st))
            else
              (case recount_acquire E run org label gs specs st of
                 (Inl e, st) \<Rightarrow> (Inl e, st)
               | (Inr None, st) \<Rightarrow> (Inr (Inl denied), st)
               | (Inr (Some out), st) \<Rightarrow>
                   if ao_Admitted out then (Inr (Inr out), st) else (Inr (Inl denied), st)))"

text \<open>The values after the spend, with one touch per gauge.\<close>

fun read_values ::
  "('f, 'r, 'a) engine \<Rightarrow> string \<Rightarrow> (string \<times> acquire_spec) list \<Rightarrow> (string \<times> f64) list \<Rightarrow>
     ('f, 'r, 'a) estate \<Rightarrow> (string \<times> f64) list \<times> ('f, 'r, 'a) estate" where
  "read_values E org [] vs st = (vs, st)"
| "read_values E org ((rk, sp) # gs) vs st =
     (case get_or_zero E st (as_OrgKey sp) of (v, st) \<Rightarrow>
        read_values E org gs (AList.update rk v vs) (record_touch org rk st))"

definition new_activation :: "string \<Rightarrow> string \<Rightarrow> acquire_input \<Rightarrow> string \<Rightarrow> (string \<times> acquire_spec) list \<Rightarrow> activation" where
  "new_activation aid openedAt inp label gs =
     \<lparr>ac_ActivationID = aid, ac_OrgID = ai_OrgID inp,
      ac_UserID = (if ai_UserID inp \<noteq> [] then Some (ai_UserID inp) else None),
      ac_ResourceKey = label, ac_Cost = None, ac_OpenedAt = openedAt, ac_State = StateOpen,
      ac_Spend = fold (\<lambda>(rk, sp). AList.update rk (as_Delta sp)) gs [],
      ac_ReleasedAt = None, ac_SettledAt = None\<rparr>"

text \<open>Acquire past the gates: the atomic step, then the OPEN record of what was spent.\<close>

definition acquire_gauges ::
  "('f, 'r, 'a) engine \<Rightarrow> ('f, 'r, 'a) estate \<Rightarrow> acquire_input \<Rightarrow> string \<Rightarrow> (string \<times> acquire_spec) list \<Rightarrow> string \<Rightarrow> string \<Rightarrow>
     (goerr option \<times> acquire_result) \<times> ('f, 'r, 'a) estate" where
  "acquire_gauges E st inp label gs aid openedAt =
     (case fs_acquirer (en_Floats E) of
        None \<Rightarrow> ((Some ErrNoAcquirer, ar_zero), st)
      | Some acq \<Rightarrow>
          (case guard_idempotency_key (en_StrictEnv E) (ai_IdempotencyKey inp) of
             Some e \<Rightarrow> ((Some e, ar_zero), st)
           | None \<Rightarrow>
               let idemPair = gauge_idem_pair (counter_of E (fst (hd gs))) (ai_OrgID inp) (ai_IdempotencyKey inp);
                   run = run_acquire E acq idemPair (ai_IdempotencyKey inp \<noteq> [])
               in
               (case admit E run (ai_OrgID inp) label gs st of
                  (Inl e, st) \<Rightarrow> ((Some e, ar_zero), st)
                | (Inr (Inl denied), st) \<Rightarrow> ((None, ar_denied denied ''denied''), st)
                | (Inr (Inr out), st) \<Rightarrow>
                    (case read_values E (ai_OrgID inp) gs [] st of (values, st) \<Rightarrow>
                       if ao_Dup out then
                         ((None, ar_zero\<lparr>ar_Admitted := True, ar_Reason := ''dup'', ar_Values := values\<rparr>), st)
                       else
                         (case with_acts (\<lambda>s. at_PutOpen (en_Activations E) s (new_activation aid openedAt inp label gs)) st of
                            (Some e, st) \<Rightarrow>
                              ((Some (ErrWrap ''engine: acquire persist failed'' e), ar_denied label ''persist_failed''), st)
                          | (None, st) \<Rightarrow>
                              ((None, ar_zero\<lparr>ar_Admitted := True, ar_ActivationID := aid, ar_Reason := ''ok'',
                                             ar_Values := values\<rparr>), st))))))"

definition acquire ::
  "('f, 'r, 'a) engine \<Rightarrow> ('f, 'r, 'a) estate \<Rightarrow> acquire_input \<Rightarrow> string \<Rightarrow> string \<Rightarrow>
     (goerr option \<times> acquire_result) \<times> ('f, 'r, 'a) estate" where
  "acquire E st inp aid openedAt =
     (case acquire_target E inp of
        None \<Rightarrow> ((Some ErrAcquireTarget, ar_zero), st)
      | Some (label, rks, unknown) \<Rightarrow>
          if kill_switch E then ((None, ar_denied label ''global_kill_switch''), st)
          else if enforcement_on E \<and> tier_misconfigured E (ai_UserID inp) (ai_OrgID inp) then
            ((None, ar_denied label ''tier_not_in_config''),
             emit \<lparr>ev_Kind = TierNotInConfig, ev_OrgID = partition_org (ai_UserID inp) (ai_OrgID inp),
                   ev_UserID = [], ev_ResourceKey = label, ev_Scope = [], ev_Level = Fin 0, ev_Limit = Fin 0\<rparr> st)
          else if unknown \<and> \<not> allow_unknown E then ((None, ar_denied label ''unknown_bundle''), st)
          else case ks_guard E (ai_OrgID inp) of
            Some e \<Rightarrow> ((Some e, ar_zero), st)
          | None \<Rightarrow>
              let gs = gauge_specs E inp (if unknown then [] else rks) in
              if gs = [] then ((None, ar_zero\<lparr>ar_Admitted := True, ar_Reason := ''ok''\<rparr>), st)
              else acquire_gauges E st inp label gs aid openedAt)"

section \<open>Release and settle\<close>

text \<open>The decrements of a released row; an error stops them.\<close>

fun release_spends ::
  "('f, 'r, 'a) engine \<Rightarrow> string \<Rightarrow> string option \<Rightarrow> (string \<times> f64) list \<Rightarrow> ('f, 'r, 'a) estate \<Rightarrow>
     goerr option \<times> ('f, 'r, 'a) estate" where
  "release_spends E org user [] st = (None, st)"
| "release_spends E org user ((rk, delta) # sps) st =
     (if \<not> is_gauge E rk then release_spends E org user sps st
      else case decr_floor E st (gauge_org_pair (counter_of E rk) org) delta of
        (Inl e, st) \<Rightarrow> (Some e, st)
      | (Inr v, st) \<Rightarrow>
          (case user of
             Some (c # u) \<Rightarrow>
               (case decr_floor E st (gauge_user_pair (counter_of E rk) org (c # u)) delta of
                  (Inl e, st) \<Rightarrow> (Some e, st)
                | (Inr v, st) \<Rightarrow> release_spends E org user sps st)
           | _ \<Rightarrow> release_spends E org user sps st))"

definition release_activation ::
  "('f, 'r, 'a) engine \<Rightarrow> ('f, 'r, 'a) estate \<Rightarrow> string \<Rightarrow> (bool \<times> goerr option) \<times> ('f, 'r, 'a) estate" where
  "release_activation E st aid =
     (case with_acts (\<lambda>s. at_MarkReleased (en_Activations E) s aid) st of
        (Inl e, st) \<Rightarrow> ((False, Some e), st)
      | (Inr None, st) \<Rightarrow> ((False, None), st)
      | (Inr (Some row), st) \<Rightarrow>
          (case release_spends E (ac_OrgID row) (ac_UserID row) (ac_Spend row) st of
             (e, st) \<Rightarrow> ((True, e), st)))"

definition settle ::
  "(string \<Rightarrow> f64 option) \<Rightarrow> ('f, 'r, 'a) engine \<Rightarrow> ('f, 'r, 'a) estate \<Rightarrow> string \<Rightarrow> string \<Rightarrow>
     (bool \<times> goerr option) \<times> ('f, 'r, 'a) estate" where
  "settle parseFloat E st aid cost =
     (case parseFloat (trim_space cost) of
        None \<Rightarrow> ((False, Some (ErrSettleCost cost)), st)
      | Some f \<Rightarrow>
          if \<not> finite_f f \<or> flt f (Fin 0) then ((False, Some (ErrSettleCost cost)), st)
          else (case with_acts (\<lambda>s. at_MarkSettled (en_Activations E) s aid cost) st of
                  (Inl e, st) \<Rightarrow> ((False, Some e), st)
                | (Inr (Some row), st) \<Rightarrow> ((True, None), st)
                | (Inr None, st) \<Rightarrow>
                    (case at_Get (en_Activations E) (es_acts st) aid of
                       Inr (Some ex) \<Rightarrow>
                         (case ac_Cost ex of
                            Some c \<Rightarrow>
                              if c \<noteq> cost then
                                ((False, None),
                                 emit \<lparr>ev_Kind = SettleConflict, ev_OrgID = ac_OrgID ex, ev_UserID = [],
                                       ev_ResourceKey = ac_ResourceKey ex, ev_Scope = [], ev_Level = Fin 0,
                                       ev_Limit = Fin 0\<rparr> st)
                              else ((False, None), st)
                          | None \<Rightarrow> ((False, None), st))
                     | _ \<Rightarrow> ((False, None), st))))"

definition open_activations ::
  "('f, 'r, 'a) engine \<Rightarrow> ('f, 'r, 'a) estate \<Rightarrow> string \<Rightarrow> int \<Rightarrow> goerr + activation list" where
  "open_activations E st orgID limit = at_ListOpen (en_Activations E) (es_acts st) orgID limit"

section \<open>On-demand reconciliation\<close>

record reconcile_entry =
  re_CounterType :: counter_type
  re_Before :: f64
  re_After :: f64
  re_Changed :: bool
  re_Source :: string
  re_Status :: string

type_synonym reconcile_report = "(string \<times> reconcile_entry) list"

definition re_new :: "resource_def \<Rightarrow> string \<Rightarrow> reconcile_entry" where
  "re_new res status = \<lparr>re_CounterType = rd_CounterType res, re_Before = Fin 0, re_After = Fin 0,
     re_Changed = False, re_Source = [], re_Status = status\<rparr>"

text \<open>One resource of the pass: its entry, or the error that stops the pass.\<close>

definition reconcile_one ::
  "('f, 'r, 'a) engine \<Rightarrow> ('f, 'r, 'a) estate \<Rightarrow> string \<Rightarrow> resource_def \<Rightarrow> (goerr + reconcile_entry) \<times> ('f, 'r, 'a) estate" where
  "reconcile_one E st orgID res =
     (if rd_CounterType res = CounterRate then (Inr (re_new res ''skipped_rate''), st)
      else if \<not> has_truth_source E res then (Inr (re_new res ''no_truth_source''), st)
      else case current_usage E st res orgID of
        (Inl e, st) \<Rightarrow> (Inl e, st)
      | (Inr before, st) \<Rightarrow>
          let entry = (re_new res [])\<lparr>re_Before := before, re_After := before\<rparr> in
          (case recompute_true_usage E orgID res of
             Inl e \<Rightarrow> (Inr (entry\<lparr>re_Status := ''truth_unavailable''\<rparr>), st)
           | Inr None \<Rightarrow> (Inr (entry\<lparr>re_Status := ''no_observation''\<rparr>), st)
           | Inr (Some trueVal) \<Rightarrow>
               let entry = entry\<lparr>re_Source := source_for res, re_After := trueVal\<rparr> in
               if drifted trueVal before then
                 (case repair_counter_to_truth E st res orgID trueVal of
                    (Some e, st) \<Rightarrow> (Inl e, st)
                  | (None, st) \<Rightarrow>
                      (Inr (entry\<lparr>re_Changed := True, re_Status := ''repaired''\<rparr>),
                       emit_drift orgID res (source_for res) before trueVal st))
               else (Inr (entry\<lparr>re_Status := ''in_sync''\<rparr>),
                     st\<lparr>es_resolved := es_resolved st @ [(orgID, rd_ResourceKey res)]\<rparr>)))"

fun reconcile_defs ::
  "('f, 'r, 'a) engine \<Rightarrow> string \<Rightarrow> resource_def list \<Rightarrow> reconcile_report \<Rightarrow> ('f, 'r, 'a) estate \<Rightarrow>
     (goerr option \<times> reconcile_report) \<times> ('f, 'r, 'a) estate" where
  "reconcile_defs E orgID [] report st = ((None, report), st)"
| "reconcile_defs E orgID (res # defs) report st =
     (case reconcile_one E st orgID res of
        (Inl e, st) \<Rightarrow> ((Some e, report), st)
      | (Inr entry, st) \<Rightarrow> reconcile_defs E orgID defs (AList.update (rd_ResourceKey res) entry report) st)"

definition reconcile_org ::
  "('f, 'r, 'a) engine \<Rightarrow> ('f, 'r, 'a) estate \<Rightarrow> string \<Rightarrow> string \<Rightarrow>
     (goerr option \<times> reconcile_report) \<times> ('f, 'r, 'a) estate" where
  "reconcile_org E st orgID resourceKey =
     (if resourceKey \<noteq> [] then
        (case reg_resource (en_Reg E) resourceKey of
           None \<Rightarrow> ((Some (ErrUnknownResource resourceKey), []), st)
         | Some rd \<Rightarrow> reconcile_defs E orgID [rd] [] st)
      else reconcile_defs E orgID (reg_all_resources (en_Reg E)) [] st)"

definition maybe_read_repair ::
  "('f, 'r, 'a) engine \<Rightarrow> ('f, 'r, 'a) estate \<Rightarrow> string \<Rightarrow> ('f, 'r, 'a) estate" where
  "maybe_read_repair E st orgID =
     (if en_ObservedUsage E = None \<and> en_AccumulatorUsage E = None then st
      else if en_ReadRepairThrottle E > 0 then
        (if (case es_rrLast st orgID of None \<Rightarrow> False | Some prev \<Rightarrow> es_now st - prev < en_ReadRepairThrottle E)
         then st
         else snd (reconcile_org E (st\<lparr>es_rrLast := (es_rrLast st)(orgID \<mapsto> es_now st)\<rparr>) orgID []))
      else snd (reconcile_org E st orgID []))"

section \<open>Admission on levels\<close>

lemma clear_limits_fields [simp]:
  "as_OrgKey (clear_limits sp) = as_OrgKey sp" "as_UserKey (clear_limits sp) = as_UserKey sp"
  "as_SeqKey (clear_limits sp) = as_SeqKey sp" "as_HasUser (clear_limits sp) = as_HasUser sp"
  "as_Delta (clear_limits sp) = as_Delta sp" "as_OrgLimit (clear_limits sp) = None" "as_UserLimit (clear_limits sp) = None"
  by (simp_all add: clear_limits_def)

lemma spend_level_clear [simp]: "spend_level (clear_limits sp) = spend_level sp"
  by (simp add: spend_level_def fun_eq_iff Let_def)

lemma spend_levels_clear [simp]: "fold spend_level (map clear_limits specs) = fold spend_level specs"
  by (induction specs) auto

lemma validate_clear: "validate_specs i specs = None \<Longrightarrow> validate_specs i (map clear_limits specs) = None"
  by (induction i specs rule: validate_specs.induct) (auto split: if_splits)

lemma cleared_never_exceeds [simp]: "first_exceeding lv i (map clear_limits specs) = 0"
  by (simp add: first_exceeding_none spec_exceeds_def over_limit_def)

context acquiring_store
begin

lemma run_acquire_ex:
  assumes "dp_S idem = []"
  shows "(case validate_specs 0 specs of
     Some e \<Rightarrow> run_acquire E acq idem has specs st = (Inl e, st)
   | None \<Rightarrow> (\<exists>out s'. run_acquire E acq idem has specs st = (Inr out, st\<lparr>es_floats := s'\<rparr>)
       \<and> abs_acquire (level (es_floats st)) (claimed (es_floats st)) (dp_P idem) has specs = (out, level s', claimed s')))"
proof (cases "validate_specs 0 specs")
  case None
  with acq_law [OF None, of "es_floats st" "dp_P idem" has 0] assms show ?thesis
    by (auto simp: run_acquire_def with_floats_def)
next
  case (Some e)
  with acq_refuse [OF Some] assms show ?thesis by (simp add: run_acquire_def with_floats_def)
qed

text \<open>Without a truth source the admission is one atomic acquire, or two in shadow mode.\<close>

lemma admit_ex:
  assumes "dp_S idem = []" and "en_ObservedUsage E = None"
    and "specs = (if enforcement_on E then map snd gs else map clear_limits (map snd gs))"
    and "admit E (run_acquire E acq idem has) org label gs st = (r, st')"
  shows "\<exists>s'. st' = st\<lparr>es_floats := s'\<rparr> \<and>
    (case r of
       Inl e \<Rightarrow> level s' = level (es_floats st)
     | Inr (Inl d) \<Rightarrow> level s' = level (es_floats st) \<and> claimed s' = claimed (es_floats st)
         \<and> \<not> shadow_mode E \<and> first_exceeding (map_get (Fin 0) (level (es_floats st))) 0 specs \<noteq> 0
     | Inr (Inr out) \<Rightarrow> validate_specs 0 specs = None \<and> ao_Admitted out \<and>
         (if ao_Dup out then level s' = level (es_floats st)
          else level s' = fold spend_level (map snd gs) (level (es_floats st)) \<and>
            (shadow_mode E \<or> (\<forall>sp \<in> set specs. \<not> spec_exceeds (map_get (Fin 0) (level (es_floats st))) sp))))"
proof (cases "validate_specs 0 specs")
  case (Some e)
  with run_acquire_ex [OF assms(1), where specs = specs and E = E and has = has and st = st] have "run_acquire E acq idem has specs st = (Inl e, st)" by simp
  with assms(4) show ?thesis unfolding admit_def Let_def assms(3) [symmetric]
    by (intro exI [of _ "es_floats st"]) auto
next
  case None
  obtain out s1 where run: "run_acquire E acq idem has specs st = (Inr out, st\<lparr>es_floats := s1\<rparr>)"
    and abs: "abs_acquire (level (es_floats st)) (claimed (es_floats st)) (dp_P idem) has specs = (out, level s1, claimed s1)"
    using run_acquire_ex [OF assms(1), where specs = specs and E = E and has = has and st = st] None by auto
  have sl: "fold spend_level specs = fold spend_level (map snd gs)" using assms(3) by (simp del: map_map)
  note adm = assms(4) [unfolded admit_def Let_def assms(3) [symmetric], unfolded run prod.case sum.case]
  show ?thesis
  proof (cases "ao_Admitted out")
    case True
    then have r: "r = Inr (Inr out)" "st' = st\<lparr>es_floats := s1\<rparr>" using adm by simp_all
    then show ?thesis
      using True None abs_acquire_admitted [OF abs True] abs_acquire_kept [OF abs] sl
      by (intro exI [of _ s1]) auto
  next
    case False
    then have k: "level s1 = level (es_floats st)" "claimed s1 = claimed (es_floats st)" using abs_acquire_kept [OF abs] by auto
    have ex: "first_exceeding (map_get (Fin 0) (level (es_floats st))) 0 specs \<noteq> 0" and nd: "\<not> (has \<and> claimed (es_floats st) (dp_P idem))"
      using abs False by (auto simp: abs_acquire_def Let_def split: if_splits)
    show ?thesis
    proof (cases "shadow_mode E")
      case True
      let ?cl = "map clear_limits specs"
      obtain out2 s2 where run2: "run_acquire E acq idem has ?cl (st\<lparr>es_floats := s1\<rparr>) = (Inr out2, st\<lparr>es_floats := s2\<rparr>)"
        and abs2: "abs_acquire (level s1) (claimed s1) (dp_P idem) has ?cl = (out2, level s2, claimed s2)"
        using run_acquire_ex [OF assms(1), where specs = ?cl and E = E and has = has and st = "st\<lparr>es_floats := s1\<rparr>"] validate_clear [OF None] by auto
      have "ao_Admitted out2 \<and> \<not> ao_Dup out2" using abs2 k(2) nd by (auto simp: abs_acquire_def)
      moreover have "r = Inr (Inr out2)" "st' = st\<lparr>es_floats := s2\<rparr>" using adm False True run2 by simp_all
      ultimately show ?thesis
        using abs_acquire_admitted [OF abs2] k(1) None True sl by (intro exI [of _ s2]) auto
    next
      case f: False
      have "recount_acquire E (run_acquire E acq idem has) org label gs specs (st\<lparr>es_floats := s1\<rparr>) = (Inr None, st\<lparr>es_floats := s1\<rparr>)"
        using assms(2) by (simp add: recount_acquire_def)
      with adm False f k ex show ?thesis by (intro exI [of _ s1]) (auto split: prod.splits)
    qed
  qed
qed

lemma read_values_ex:
  assumes "en_Floats E = F"
  shows "\<exists>vs' st'. read_values E org gs vs st = (vs', st') \<and> level (es_floats st') = level (es_floats st) \<and> es_acts st' = es_acts st"
proof (induction gs arbitrary: vs st)
  case (Cons g gs)
  obtain rk sp where g: "g = (rk, sp)" by (cases g)
  obtain s' where s': "fs_GetFloat F (es_floats st) (as_OrgKey sp) = (Inr (map_get (Fin 0) (level (es_floats st)) (as_OrgKey sp),
      level (es_floats st) (as_OrgKey sp) \<noteq> None), s')" "level s' = level (es_floats st)"
    using get_eq by blast
  obtain v where v: "get_or_zero E st (as_OrgKey sp) = (v, st\<lparr>es_floats := s'\<rparr>)"
    using s'(1) assms by (simp add: get_or_zero_def with_floats_def)
  from Cons.IH [of "AList.update rk v vs" "record_touch org rk (st\<lparr>es_floats := s'\<rparr>)"] s'(2) g v
  show ?case by auto
qed auto

end

text \<open>The gauges an input asks for.\<close>

definition asked :: "('f, 'r, 'a) engine \<Rightarrow> acquire_input \<Rightarrow> (string \<times> acquire_spec) list" where
  "asked E inp =
     (case acquire_target E inp of
        None \<Rightarrow> []
      | Some (label, rks, unknown) \<Rightarrow> gauge_specs E inp (if unknown then [] else rks))"

definition label_of :: "acquire_input \<Rightarrow> string" where
  "label_of inp = (if ai_BundleName inp \<noteq> [] then ai_BundleName inp else ai_ResourceKey inp)"

lemma acquire_target_label: "acquire_target E inp = Some (label, rks, unknown) \<Longrightarrow> label = label_of inp"
  by (auto simp: acquire_target_def label_of_def split: if_splits)

text \<open>Either a gate answers and nothing happens to counters and ledger, or the gauges are acquired.\<close>

lemma acquire_cases:
  assumes "acquire E st inp aid ts = ((e, res), st')"
  shows "es_floats st' = es_floats st \<and> es_acts st' = es_acts st \<and> ar_ActivationID res = []
      \<and> (ar_Admitted res \<longrightarrow> asked E inp = [])
    \<or> acquire_gauges E st inp (label_of inp) (asked E inp) aid ts = ((e, res), st') \<and> asked E inp \<noteq> [] \<and> \<not> kill_switch E"
proof (cases "acquire_target E inp")
  case None
  with assms show ?thesis by (auto simp: acquire_def ar_zero_def)
next
  case (Some t)
  obtain label rks unknown where t: "t = (label, rks, unknown)" by (cases t)
  note tgt = Some [unfolded t] and lab = acquire_target_label [OF Some [unfolded t]]
  from assms tgt lab show ?thesis
    by (auto simp: acquire_def asked_def ar_denied_def ar_zero_def Let_def split: if_splits option.splits)
qed

lemma mem_acquirer: "fs_acquirer mem_float_store = Some mem_atomic_acquire"
  by (simp add: mem_float_store_def)

lemma put_open_total: "fst (ma_put_open s a) = None"
  by (simp add: ma_put_open_def)

text \<open>The admitted branch of an acquire on the in-memory stores.\<close>

definition mem_engine :: "(mem_store, 'r, mem_acts) engine \<Rightarrow> bool" where
  "mem_engine E \<longleftrightarrow> en_Floats E = mem_float_store \<and> en_Activations E = mem_act_store \<and> \<not> ks_enabled (en_Keyspace E)
     \<and> en_ObservedUsage E = None"

lemma acquire_gauges_cases:
  assumes "mem_engine E" and "acquire_gauges E st inp label gs aid ts = ((e, res), st')"
  shows "mem_level (es_floats st') = mem_level (es_floats st) \<and> es_acts st' = es_acts st \<and> ar_ActivationID res = []
      \<and> (ar_Admitted res \<longrightarrow> ar_Reason res = ''dup'')
    \<or> e = None \<and> ar_Admitted res \<and> ar_Reason res = ''ok'' \<and> ar_ActivationID res = aid
      \<and> mem_level (es_floats st') = fold spend_level (map snd gs) (mem_level (es_floats st))
      \<and> es_acts st' = snd (ma_put_open (es_acts st) (new_activation aid ts inp label gs))
      \<and> (enforcement_on E \<and> \<not> shadow_mode E \<longrightarrow> validate_specs 0 (map snd gs) = None
           \<and> (\<forall>sp \<in> set (map snd gs). \<not> spec_exceeds (map_get (Fin 0) (mem_level (es_floats st))) sp))"
proof (cases "guard_idempotency_key (en_StrictEnv E) (ai_IdempotencyKey inp)")
  case (Some err)
  with assms show ?thesis by (auto simp: acquire_gauges_def mem_engine_def mem_acquirer ar_zero_def)
next
  case None
  define idem where "idem = gauge_idem_pair (counter_of E (fst (hd gs))) (ai_OrgID inp) (ai_IdempotencyKey inp)"
  define has where "has = (ai_IdempotencyKey inp \<noteq> [])"
  define specs where "specs = (if enforcement_on E then map snd gs else map clear_limits (map snd gs))"
  have d: "dp_S idem = []" using assms(1) by (simp add: idem_def mem_engine_def)
  have F: "en_Floats E = mem_float_store" and T: "en_Activations E = mem_act_store" and O: "en_ObservedUsage E = None"
    using assms(1) by (simp_all add: mem_engine_def)
  obtain r st1 where adm: "admit E (run_acquire E mem_atomic_acquire idem has) (ai_OrgID inp) label gs st = (r, st1)"
    by (metis surj_pair)
  obtain s1 where st1: "st1 = st\<lparr>es_floats := s1\<rparr>"
    and res: "case r of
       Inl e \<Rightarrow> mem_level s1 = mem_level (es_floats st)
     | Inr (Inl d) \<Rightarrow> mem_level s1 = mem_level (es_floats st) \<and> mem_claimed s1 = mem_claimed (es_floats st)
         \<and> \<not> shadow_mode E \<and> first_exceeding (map_get (Fin 0) (mem_level (es_floats st))) 0 specs \<noteq> 0
     | Inr (Inr out) \<Rightarrow> validate_specs 0 specs = None \<and> ao_Admitted out \<and>
         (if ao_Dup out then mem_level s1 = mem_level (es_floats st)
          else mem_level s1 = fold spend_level (map snd gs) (mem_level (es_floats st)) \<and>
            (shadow_mode E \<or> (\<forall>sp \<in> set specs. \<not> spec_exceeds (map_get (Fin 0) (mem_level (es_floats st))) sp)))"
    using ms.admit_ex [OF d O specs_def adm] by blast
  note acq = assms(2) [unfolded acquire_gauges_def F mem_acquirer option.case None Let_def,
      folded idem_def, folded has_def, unfolded adm prod.case]
  show ?thesis
  proof (cases r)
    case (Inl err)
    with acq res st1 show ?thesis by (auto simp: ar_zero_def)
  next
    case (Inr r')
    show ?thesis
    proof (cases r')
      case (Inl den)
      with Inr acq res st1 show ?thesis by (auto simp: ar_denied_def ar_zero_def)
    next
      case (Inr out)
      note rr = \<open>r = Inr r'\<close> Inr
      obtain vs st2 where rv: "read_values E (ai_OrgID inp) gs [] st1 = (vs, st2)"
        "mem_level (es_floats st2) = mem_level s1" "es_acts st2 = es_acts st"
        using ms.read_values_ex [OF F, of "ai_OrgID inp" gs "[]" st1] st1 by auto
      show ?thesis
      proof (cases "ao_Dup out")
        case True
        with acq rr rv res show ?thesis by (auto simp: ar_zero_def)
      next
        case False
        obtain s3 where "ma_put_open (es_acts st) (new_activation aid ts inp label gs) = (None, s3)"
          using put_open_total by (metis prod.collapse)
        moreover have "enforcement_on E \<and> \<not> shadow_mode E \<longrightarrow> validate_specs 0 (map snd gs) = None
           \<and> (\<forall>sp \<in> set (map snd gs). \<not> spec_exceeds (map_get (Fin 0) (mem_level (es_floats st))) sp)"
          using res rr False unfolding specs_def by (auto simp del: set_map)
        ultimately show ?thesis using False acq rr rv res T
          by (intro disjI2) (auto simp: ar_zero_def with_acts_def mem_act_store_def simp del: set_map)
      qed
    qed
  qed
qed

section \<open>Keys of the legacy shape\<close>

lemma key_prefix_build_inject:
  assumes "key_prefix_build p xs = key_prefix_build p ys" and "xs \<noteq> []" "ys \<noteq> []"
    and "\<forall>w \<in> set xs. CHR '':'' \<notin> set w" "\<forall>w \<in> set ys. CHR '':'' \<notin> set w"
  shows "xs = ys"
proof -
  have "join_with '':'' xs = join_with '':'' ys" using assms(1) by (simp add: key_prefix_build_def split: if_splits)
  then show ?thesis using join_split [OF assms(2,4)] join_split [OF assms(3,5)] by metis
qed

definition colon_free :: "string \<Rightarrow> bool" where
  "colon_free s \<longleftrightarrow> CHR '':'' \<notin> set s"

text \<open>The parts of the keys of one gauge spec of an engine on the legacy keyspace.\<close>

lemma gauge_spec_keys:
  assumes "\<not> ks_enabled (en_Keyspace E)"
  shows "spec_keys (gauge_spec E inp rk) = map (key_prefix_build (en_Prefix E))
     ([ai_OrgID inp, rk, ''gauge''] #
      (if ai_UserID inp \<noteq> [] then [[ai_OrgID inp, rk, ''gauge'', ''seq'', ''user'', ai_UserID inp],
                                   [ai_OrgID inp, rk, ''gauge'', ''user'', ai_UserID inp]] else []))"
  using assms by (simp add: gauge_spec_def spec_keys_def spend_spec_def gauge_org_pair_def gauge_user_pair_def gauge_seq_pair_def
      Let_def split: prod.splits)

lemma asked_keys_distinct:
  assumes "\<not> ks_enabled (en_Keyspace E)" and "distinct rks" and "\<forall>rk \<in> set rks. colon_free rk"
    and "colon_free (ai_OrgID inp)" and "colon_free (ai_UserID inp)"
  shows "distinct (acquire_keys (map snd (gauge_specs E inp rks)))"
proof -
  define parts where "parts rk = [ai_OrgID inp, rk, ''gauge''] #
      (if ai_UserID inp \<noteq> [] then [[ai_OrgID inp, rk, ''gauge'', ''seq'', ''user'', ai_UserID inp],
                                   [ai_OrgID inp, rk, ''gauge'', ''user'', ai_UserID inp]] else [])" for rk
  have keys: "acquire_keys (map snd (gauge_specs E inp rks)) = map (key_prefix_build (en_Prefix E)) (concat (map parts (filter (is_gauge E) rks)))"
    using gauge_spec_keys [OF assms(1)]
    by (simp add: acquire_keys_def gauge_specs_def map_concat parts_def comp_def cong: map_cong)
  have d: "distinct (concat (map parts qs))" if "distinct qs" for qs
    using that by (induction qs) (auto simp: parts_def split: if_splits)
  have "inj_on (key_prefix_build (en_Prefix E)) (set (concat (map parts (filter (is_gauge E) rks))))"
  proof (rule inj_onI)
    fix xs ys
    assume m: "xs \<in> set (concat (map parts (filter (is_gauge E) rks)))" "ys \<in> set (concat (map parts (filter (is_gauge E) rks)))"
      and eq: "key_prefix_build (en_Prefix E) xs = key_prefix_build (en_Prefix E) ys"
    have "zs \<noteq> [] \<and> (\<forall>w \<in> set zs. CHR '':'' \<notin> set w)" if "zs \<in> set (concat (map parts (filter (is_gauge E) rks)))" for zs
      using that assms(3-5) by (auto simp: parts_def colon_free_def split: if_splits)
    with m key_prefix_build_inject [OF eq] show "xs = ys" by blast
  qed
  then show ?thesis unfolding keys distinct_map using d assms(2) by simp
qed

section \<open>Releasing what was acquired\<close>

text \<open>Updates that each touch and read only their own keys do not disturb one another.\<close>

lemma fold_local:
  assumes other: "\<And>x m k. k \<notin> set (K x) \<Longrightarrow> f x m k = m k"
    and own: "\<And>x m m' k. \<forall>j \<in> set (K x). m j = m' j \<Longrightarrow> k \<in> set (K x) \<Longrightarrow> f x m k = f x m' k"
    and "distinct (concat (map K xs))" and "x \<in> set xs" and "k \<in> set (K x)"
  shows "fold f xs m k = f x m k"
  using assms(3-5)
proof (induction xs arbitrary: m)
  case (Cons y ys)
  show ?case
  proof (cases "x \<in> set ys")
    case True
    then have "set (K x) \<inter> set (K y) = {}" using Cons.prems(1) by auto
    then have "\<forall>j \<in> set (K x). f y m j = m j" using other by blast
    then have "f x (f y m) k = f x m k" using own Cons.prems(3) by blast
    then show ?thesis using Cons True by auto
  next
    case False
    then have "x = y" using Cons.prems(2) by simp
    have "k \<notin> set (K z)" if "z \<in> set ys" for z
      using that Cons.prems(1,3) \<open>x = y\<close> by auto
    then have "fold f ys m' k = m' k" for m' using other by (induction ys arbitrary: m') auto
    then show ?thesis using \<open>x = y\<close> by simp
  qed
qed simp

definition unspend_level :: "acquire_spec \<Rightarrow> (string \<rightharpoonup> f64) \<Rightarrow> (string \<rightharpoonup> f64)" where
  "unspend_level sp lv =
     (let lv = dec_level (as_OrgKey sp) (as_Delta sp) lv in
      if as_HasUser sp then dec_level (as_UserKey sp) (as_Delta sp) lv else lv)"

lemma unspend_level_other: "k \<notin> set (spec_keys sp) \<Longrightarrow> unspend_level sp lv k = lv k"
  by (auto simp: unspend_level_def spec_keys_def dec_level_def Let_def)

lemma unspend_level_own:
  "\<forall>j \<in> set (spec_keys sp). m j = m' j \<Longrightarrow> k \<in> set (spec_keys sp) \<Longrightarrow> unspend_level sp m k = unspend_level sp m' k"
  by (auto simp: unspend_level_def spec_keys_def dec_level_def map_get_def Let_def)

lemma unspend_levels_other: "k \<notin> set (acquire_keys specs) \<Longrightarrow> fold unspend_level specs lv k = lv k"
  by (induction specs arbitrary: lv) (auto simp: acquire_keys_def unspend_level_other)

text \<open>Whole levels, far below the point where adding one would round.\<close>

definition whole :: "f64 \<Rightarrow> bool" where
  "whole v \<longleftrightarrow> (case v of Fin x \<Rightarrow> x = of_int \<lfloor>x\<rfloor> \<and> 0 \<le> x \<and> x \<le> 2 ^ 52 | _ \<Rightarrow> False)"

lemma whole_inc_dec: "whole v \<Longrightarrow> floor_zero (fsub (fadd v (Fin 1)) (Fin 1)) = v"
proof -
  assume "whole v"
  then obtain x where x: "v = Fin x" "x = of_int \<lfloor>x\<rfloor>" "0 \<le> x" "x \<le> 2 ^ 52" by (auto simp: whole_def split: f64.splits)
  let ?n = "\<lfloor>x\<rfloor>"
  have n: "0 \<le> ?n" "?n \<le> 2 ^ 52" using x(3,4) by (simp_all add: floor_le_iff)
  have "fadd (Fin (of_int ?n)) (Fin (of_int 1)) = Fin (of_int (?n + 1))" using n by (intro fadd_int) simp
  moreover have "fsub (Fin (of_int (?n + 1))) (Fin (of_int 1)) = Fin (of_int (?n + 1 - 1))" using n by (intro fsub_int) simp
  ultimately show ?thesis using x(1,2) n by (simp add: floor_zero_def)
qed

lemma unspend_spend:
  assumes "distinct (acquire_keys specs)" and "\<forall>sp \<in> set specs. as_Delta sp = Fin 1"
    and "\<forall>k. whole (map_get (Fin 0) lv k)" and "\<forall>sp \<in> set specs. as_HasUser sp \<longrightarrow> k \<noteq> as_SeqKey sp"
  shows "map_get (Fin 0) (fold unspend_level specs (fold spend_level specs lv)) k = map_get (Fin 0) lv k"
proof (cases "k \<in> set (acquire_keys specs)")
  case True
  then obtain sp where sp: "sp \<in> set specs" "k \<in> set (spec_keys sp)" by (auto simp: acquire_keys_def)
  have dk: "distinct (spec_keys sp)" using assms(1) sp(1) by (induction specs) (auto simp: acquire_keys_Cons)
  have one: "as_Delta sp = Fin 1" using assms(2) sp(1) by blast
  let ?m = "fold spend_level specs lv"
  have "fold unspend_level specs ?m k = unspend_level sp ?m k"
    using assms(1) sp by (intro fold_local [where K = spec_keys])
      (auto simp: acquire_keys_def unspend_level_other intro: unspend_level_own)
  also have "\<dots> = unspend_level sp (spend_level sp lv) k"
    using sp spend_levels_at [OF assms(1) sp(1)] by (intro unspend_level_own) auto
  also have "map_get (Fin 0) (unspend_level sp (spend_level sp lv)) k = map_get (Fin 0) lv k"
    using sp dk one assms(3,4) whole_inc_dec
    by (auto simp: unspend_level_def spend_level_def dec_level_def add_level_def spec_keys_def Let_def)
  ultimately show ?thesis by (simp add: map_get_def)
next
  case False
  then show ?thesis by (simp add: map_get_def spend_levels_other unspend_levels_other)
qed

context reliable_store
begin

lemma release_spends_ex:
  assumes "en_Floats E = F" and "\<not> ks_enabled (en_Keyspace E)" and "\<forall>rk \<in> set rks. is_gauge E rk"
    and "user = (if ai_UserID inp \<noteq> [] then Some (ai_UserID inp) else None)"
  shows "\<exists>st'. release_spends E (ai_OrgID inp) user (map (\<lambda>rk. (rk, Fin 1)) rks) st = (None, st')
    \<and> level (es_floats st') = fold unspend_level (map (gauge_spec E inp) rks) (level (es_floats st)) \<and> es_acts st' = es_acts st"
  using assms(3)
proof (induction rks arbitrary: st)
  case (Cons rk rks)
  have ks: "\<not> ks_enabled (cr_Keyspace (counter_of E rk))" using assms(2) by simp
  have sp: "as_OrgKey (gauge_spec E inp rk) = dp_P (gauge_org_pair (counter_of E rk) (ai_OrgID inp))"
    "as_HasUser (gauge_spec E inp rk) = (ai_UserID inp \<noteq> [])" "as_Delta (gauge_spec E inp rk) = Fin 1"
    "ai_UserID inp \<noteq> [] \<Longrightarrow> as_UserKey (gauge_spec E inp rk) = dp_P (gauge_user_pair (counter_of E rk) (ai_OrgID inp) (ai_UserID inp))"
    by (simp_all add: gauge_spec_def spend_spec_def Let_def split: prod.splits)
  obtain v s1 where s1: "decr_floor E st (gauge_org_pair (counter_of E rk) (ai_OrgID inp)) (Fin 1) = (Inr v, st\<lparr>es_floats := s1\<rparr>)"
    "level s1 = dec_level (as_OrgKey (gauge_spec E inp rk)) (Fin 1) (level (es_floats st))"
    using decr_floor_ex [OF assms(1) legacy_pairs(1) [OF ks]] sp(1) by metis
  obtain w s2 where s2: "decr_floor E (st\<lparr>es_floats := s1\<rparr>) (gauge_user_pair (counter_of E rk) (ai_OrgID inp) (ai_UserID inp)) (Fin 1)
      = (Inr w, st\<lparr>es_floats := s2\<rparr>)"
    "level s2 = dec_level (dp_P (gauge_user_pair (counter_of E rk) (ai_OrgID inp) (ai_UserID inp))) (Fin 1) (level s1)"
    using decr_floor_ex [OF assms(1) legacy_pairs(2) [OF ks], of "st\<lparr>es_floats := s1\<rparr>" "ai_OrgID inp" "ai_UserID inp" "Fin 1"] by auto
  have g: "is_gauge E rk" "\<forall>rk \<in> set rks. is_gauge E rk" using Cons.prems by auto
  show ?case
  proof (cases "ai_UserID inp")
    case Nil
    then show ?thesis using Cons.IH [OF g(2), of "st\<lparr>es_floats := s1\<rparr>"] s1 sp g(1) assms(4)
      by (auto simp: unspend_level_def)
  next
    case (Cons c u)
    then show ?thesis using Cons.IH [OF g(2), of "st\<lparr>es_floats := s2\<rparr>"] s1 s2 sp g(1) assms(4)
      by (auto simp: unspend_level_def)
  qed
qed simp

end

lemma gauge_spec_Delta [simp]: "as_Delta (gauge_spec E inp rk) = Fin 1"
  by (simp add: gauge_spec_def spend_spec_def Let_def split: prod.splits)

text \<open>The row an acquire of distinct gauges writes.\<close>

lemma new_activation_spend:
  assumes "distinct rks"
  shows "ac_Spend (new_activation aid ts inp label (gauge_specs E inp rks)) = map (\<lambda>rk. (rk, Fin 1)) (filter (is_gauge E) rks)"
proof -
  have "map fst (gauge_specs E inp rks) = filter (is_gauge E) rks" by (simp add: gauge_specs_def comp_def)
  with assms fold_update_distinct [of "gauge_specs E inp rks" "[]" as_Delta] show ?thesis
    by (simp add: new_activation_def gauge_specs_def comp_def)
qed

lemma put_open_row: "ma_row s (ac_ActivationID a) = None \<Longrightarrow> ma_row (snd (ma_put_open s a)) (ac_ActivationID a) = Some a"
  by (simp add: ma_put_open_def ma_row_def map_add_def)

lemma mark_released_row:
  assumes "ma_row s i = Some a" and "ac_State a = StateOpen"
  shows "\<exists>a' s'. ma_mark_released s i = (Inr (Some a'), s') \<and> ac_OrgID a' = ac_OrgID a \<and> ac_UserID a' = ac_UserID a
    \<and> ac_Spend a' = ac_Spend a"
  using assms by (simp add: ma_mark_released_def ma_row_def Let_def)

text \<open>Gauges asked for with distinct keys are distinct, and the row has one entry for each.\<close>

lemma asked_distinct:
  assumes "distinct (acquire_keys (map snd (asked E inp)))"
  shows "distinct (map fst (asked E inp))"
proof -
  obtain qs where qs: "asked E inp = map (\<lambda>rk. (rk, gauge_spec E inp rk)) qs"
    by (cases "acquire_target E inp") (auto simp: asked_def gauge_specs_def split: prod.splits)
  have "distinct (acquire_keys (map (gauge_spec E inp) qs)) \<Longrightarrow> distinct qs"
    by (induction qs) (auto simp: acquire_keys_def spec_keys_def)
  with assms show ?thesis by (simp add: qs comp_def)
qed

lemma asked_row:
  assumes "distinct (acquire_keys (map snd (asked E inp)))"
  shows "ac_Spend (new_activation aid ts inp label (asked E inp)) = map (\<lambda>(rk, sp). (rk, as_Delta sp)) (asked E inp)"
  using fold_update_distinct [OF asked_distinct [OF assms], of "[]" as_Delta] by (simp add: new_activation_def)

lemma put_open_other: "i \<noteq> ac_ActivationID a \<Longrightarrow> ma_row (snd (ma_put_open s a)) i = ma_row s i"
  by (simp add: ma_put_open_def ma_row_def map_add_def split: option.split)

text \<open>What an admitted acquire leaves: the gauges raised, the rest as it was, and the receipt in the ledger.\<close>

definition acquired :: "(mem_store, 'r, mem_acts) engine \<Rightarrow> acquire_input \<Rightarrow> string \<Rightarrow> (string \<rightharpoonup> f64) \<Rightarrow> mem_acts \<Rightarrow> (string \<rightharpoonup> f64) \<Rightarrow> mem_acts \<Rightarrow> bool" where
  "acquired E inp aid lv acts lv' acts' \<longleftrightarrow>
     (\<forall>sp \<in> set (map snd (asked E inp)).
        lv' (as_OrgKey sp) = Some (fadd (map_get (Fin 0) lv (as_OrgKey sp)) (as_Delta sp))
        \<and> (as_HasUser sp \<longrightarrow> lv' (as_UserKey sp) = Some (fadd (map_get (Fin 0) lv (as_UserKey sp)) (as_Delta sp))))
     \<and> (\<forall>k. k \<notin> set (acquire_keys (map snd (asked E inp))) \<longrightarrow> lv' k = lv k)
     \<and> (\<exists>row. ma_row acts' aid = Some row \<and> ac_State row = StateOpen \<and> ac_OrgID row = ai_OrgID inp
          \<and> ac_UserID row = (if ai_UserID inp \<noteq> [] then Some (ai_UserID inp) else None) \<and> ac_ResourceKey row = label_of inp \<and> ac_Cost row = None
          \<and> ac_Spend row = map (\<lambda>(rk, sp). (rk, as_Delta sp)) (asked E inp))
     \<and> (\<forall>i. i \<noteq> aid \<longrightarrow> ma_row acts' i = ma_row acts i)"

lemma spent_acquired:
  assumes "distinct (acquire_keys (map snd (asked E inp)))" and "ma_row acts aid = None"
  shows "acquired E inp aid lv acts (fold spend_level (map snd (asked E inp)) lv)
    (snd (ma_put_open acts (new_activation aid ts inp (label_of inp) (asked E inp))))"
proof -
  let ?a = "new_activation aid ts inp (label_of inp) (asked E inp)"
  have i: "ac_ActivationID ?a = aid" by (simp add: new_activation_def)
  have row: "ma_row (snd (ma_put_open acts ?a)) aid = Some ?a" using put_open_row [of acts ?a] assms(2) i by simp
  have other: "\<forall>j. j \<noteq> aid \<longrightarrow> ma_row (snd (ma_put_open acts ?a)) j = ma_row acts j" using put_open_other [of _ ?a acts] i by simp
  show ?thesis unfolding acquired_def row
    using spend_levels_gauge [OF assms(1)] spend_levels_other [of _ "map snd (asked E inp)"] asked_row [OF assms(1)] other
    by (auto simp: new_activation_def)
qed



section \<open>What fits is admitted\<close>

text \<open>The idempotency latch of an input, and that it is free.\<close>

definition idem_of :: "('f, 'r, 'a) engine \<Rightarrow> acquire_input \<Rightarrow> dual_pair" where
  "idem_of E inp = gauge_idem_pair (counter_of E (fst (hd (asked E inp)))) (ai_OrgID inp) (ai_IdempotencyKey inp)"

definition latch_free :: "(mem_store, 'r, 'a) engine \<Rightarrow> acquire_input \<Rightarrow> mem_store \<Rightarrow> bool" where
  "latch_free E inp s \<longleftrightarrow> guard_idempotency_key (en_StrictEnv E) (ai_IdempotencyKey inp) = None
     \<and> (ai_IdempotencyKey inp \<noteq> [] \<longrightarrow> \<not> mem_claimed s (dp_P (idem_of E inp)))"

text \<open>The gates before the counters let the input through.\<close>

definition passes_gates :: "('f, 'r, 'a) engine \<Rightarrow> acquire_input \<Rightarrow> bool" where
  "passes_gates E inp \<longleftrightarrow> \<not> kill_switch E \<and> \<not> (enforcement_on E \<and> tier_misconfigured E (ai_UserID inp) (ai_OrgID inp))
     \<and> (\<exists>label rks. acquire_target E inp = Some (label, rks, False))"

lemma acquire_admits:
  assumes "mem_engine E" and "passes_gates E inp" and "asked E inp \<noteq> []" and "latch_free E inp (es_floats st)"
    and "validate_specs 0 (map snd (asked E inp)) = None"
    and "\<forall>sp \<in> set (map snd (asked E inp)). \<not> spec_exceeds (map_get (Fin 0) (mem_level (es_floats st))) sp"
  shows "\<exists>res st'. acquire E st inp aid ts = ((None, res), st') \<and> ar_Admitted res \<and> ar_Reason res = ''ok'' \<and> ar_ActivationID res = aid"
proof -
  define gs where "gs = asked E inp"
  define idem where "idem = idem_of E inp"
  define has where "has = (ai_IdempotencyKey inp \<noteq> [])"
  define specs where "specs = (if enforcement_on E then map snd gs else map clear_limits (map snd gs))"
  have F: "en_Floats E = mem_float_store" and T: "en_Activations E = mem_act_store" and ks: "\<not> ks_enabled (en_Keyspace E)"
    using assms(1) by (simp_all add: mem_engine_def)
  have d: "dp_S idem = []" using ks by (simp add: idem_def idem_of_def)
  have v: "validate_specs 0 specs = None" using assms(5) validate_clear by (simp add: specs_def gs_def del: map_map)
  have x: "first_exceeding (map_get (Fin 0) (mem_level (es_floats st))) 0 specs = 0"
    using assms(6) by (simp add: specs_def gs_def first_exceeding_none spec_exceeds_def over_limit_def)
  obtain out s where r: "run_acquire E mem_atomic_acquire idem has specs st = (Inr out, st\<lparr>es_floats := s\<rparr>)"
    and abs: "abs_acquire (mem_level (es_floats st)) (mem_claimed (es_floats st)) (dp_P idem) has specs = (out, mem_level s, mem_claimed s)"
    using ms.run_acquire_ex [OF d, where specs = specs and E = E and has = has and st = st] v by auto
  have ad: "ao_Admitted out" "\<not> ao_Dup out"
    using abs x assms(4) by (auto simp: abs_acquire_def latch_free_def has_def idem_def Let_def split: if_splits)
  have adm: "admit E (run_acquire E mem_atomic_acquire idem has) (ai_OrgID inp) (label_of inp) gs st = (Inr (Inr out), st\<lparr>es_floats := s\<rparr>)"
    unfolding admit_def Let_def specs_def [symmetric] using r ad by simp
  obtain vs st2 where rv: "read_values E (ai_OrgID inp) gs [] (st\<lparr>es_floats := s\<rparr>) = (vs, st2)" by (metis surj_pair)
  have acq: "acquire E st inp aid ts = acquire_gauges E st inp (label_of inp) gs aid ts"
    using assms(2,3) ks by (auto simp: passes_gates_def acquire_def asked_def gs_def ks_guard_def dest: acquire_target_label)
  have g: "guard_idempotency_key (en_StrictEnv E) (ai_IdempotencyKey inp) = None" using assms(4) by (simp add: latch_free_def)
  have i: "gauge_idem_pair (counter_of E (fst (hd gs))) (ai_OrgID inp) (ai_IdempotencyKey inp) = idem"
    by (simp add: idem_def idem_of_def gs_def)
  show ?thesis unfolding acq acquire_gauges_def F mem_acquirer option.case g Let_def i has_def [symmetric] adm prod.case sum.case rv
    using ad(2) T by (simp add: with_acts_def mem_act_store_def ma_put_open_def ar_zero_def split: prod.splits)
qed

text \<open>A gauge has room when its level with the delta is at most the limit, on the org and, with a user, on the user.\<close>

definition fits :: "(string \<Rightarrow> f64) \<Rightarrow> acquire_spec \<Rightarrow> bool" where
  "fits lv sp \<longleftrightarrow>
     (\<forall>l. as_OrgLimit sp = Some l \<longrightarrow> fle (fadd (lv (as_OrgKey sp)) (as_Delta sp)) l)
     \<and> (as_HasUser sp \<longrightarrow> (\<forall>l. as_UserLimit sp = Some l \<longrightarrow> fle (fadd (lv (as_UserKey sp)) (as_Delta sp)) l))"

lemma fits_not_exceeds: "fits lv sp \<Longrightarrow> \<not> spec_exceeds lv sp"
  by (auto simp: fits_def spec_exceeds_def over_limit_def fle_def split: option.splits)

lemma fits_limits: "fits lv sp \<Longrightarrow> as_OrgLimit sp \<noteq> Some NaN \<and> (as_HasUser sp \<longrightarrow> as_UserLimit sp \<noteq> Some NaN)"
  by (auto simp: fits_def fle_def)

lemma fits_valid:
  assumes "\<forall>sp \<in> set specs. fits lv sp \<and> as_Delta sp = Fin 1"
  shows "validate_specs i specs = None"
  using assms by (induction specs arbitrary: i) (auto simp: finite_f_def dest: fits_limits)

lemma asked_Delta: "sp \<in> set (map snd (asked E inp)) \<Longrightarrow> as_Delta sp = Fin 1"
  by (cases "acquire_target E inp") (auto simp: asked_def gauge_specs_def split: prod.splits)


section \<open>A concrete acquire\<close>

definition live_input :: acquire_input where
  "live_input = \<lparr>ai_OrgID = ''o1'', ai_UserID = [], ai_BundleName = [], ai_ResourceKey = ''box.live'', ai_IdempotencyKey = []\<rparr>"

definition live_spec :: acquire_spec where
  "live_spec = gauge_spec small_engine live_input ''box.live''"

lemma live_asked: "asked small_engine live_input = [(''box.live'', live_spec)]"
  by (simp add: asked_def acquire_target_def live_input_def gauge_specs_def is_gauge_def gauge_resource_def live_spec_def)

lemma live_spec_fields [simp]:
  "as_OrgKey live_spec = ''quota:o1:box.live:gauge''" "as_HasUser live_spec = False" "as_Delta live_spec = Fin 1"
  "as_OrgLimit live_spec = Some (Fin 2)" "as_UserLimit live_spec = None"
  by (simp_all add: live_spec_def gauge_spec_def spend_spec_def live_input_def gauge_limit_def
      Let_def free_tier_def plain_tier_def plain_limit_def is_unlimited_def unmarshal_tier_limit_def split: prod.splits)

lemma live_idem: "dp_S (gauge_idem_pair (counter_of small_engine rk) org k) = []"
  by simp

lemma small_mem_engine [simp]: "mem_engine small_engine"
  by (simp add: mem_engine_def)

lemma small_level: "mem_level (es_floats small_state) = Map.empty"
  by (auto simp: small_state_def store_simps fun_eq_iff)

lemma live_ready:
  "passes_gates small_engine live_input" "asked small_engine live_input \<noteq> []"
  "latch_free small_engine live_input (es_floats small_state)"
  "validate_specs 0 (map snd (asked small_engine live_input)) = None"
  "\<forall>sp \<in> set (map snd (asked small_engine live_input)). \<not> spec_exceeds (map_get (Fin 0) (mem_level (es_floats small_state))) sp"
  subgoal by (simp add: passes_gates_def live_input_def acquire_target_def tier_misconfigured_def)
  subgoal by (simp add: live_asked)
  subgoal by (simp add: latch_free_def live_input_def guard_idempotency_key_def)
  by (simp_all add: live_asked finite_f_def spec_exceeds_def over_limit_def map_get_def small_level)

lemma live_acquired:
  "\<exists>res st'. acquire small_engine small_state live_input ''act_1'' ''t'' = ((None, res), st') \<and> ar_ActivationID res = ''act_1''"
  using acquire_admits [OF small_mem_engine live_ready] by blast

text \<open>The last unit of a limit of two.\<close>

definition half_full :: "(mem_store, mem_rates, mem_acts) estate" where
  "half_full = small_state\<lparr>es_floats := mem_put (mem_empty 0) ''quota:o1:box.live:gauge'' (Fin 1)\<rparr>"




section \<open>What the counter paths leave alone\<close>

text \<open>Whatever the counter store does, the paths that only talk to it keep the ledger, the read-repair
  times and the clock.\<close>

definition keeps :: "('f, 'r, 'a) estate \<Rightarrow> ('f, 'r, 'a) estate \<Rightarrow> bool" where
  "keeps st st' \<longleftrightarrow> es_acts st' = es_acts st \<and> es_rrLast st' = es_rrLast st \<and> es_now st' = es_now st"

lemma keeps_refl [simp]: "keeps st st"
  by (simp add: keeps_def)

lemma keeps_trans: "keeps st1 st2 \<Longrightarrow> keeps st2 st3 \<Longrightarrow> keeps st1 st3"
  by (simp add: keeps_def)

lemma keeps_updates [simp]:
  "keeps st0 (st\<lparr>es_floats := s\<rparr>) = keeps st0 st" "keeps st0 (st\<lparr>es_rates := r\<rparr>) = keeps st0 st"
  "keeps st0 (emit_drift org res src b a st) = keeps st0 st" "keeps st0 (record_touch org rk st) = keeps st0 st"
  "keeps st0 (emit_provider_unreachable org res st) = keeps st0 st" "keeps st0 (st\<lparr>es_resolved := x\<rparr>) = keeps st0 st"
  by (simp_all add: keeps_def emit_drift_def emit_provider_unreachable_def record_touch_def)

lemma with_floats_keeps: "with_floats f st = (b, st') \<Longrightarrow> keeps st st'"
  by (auto simp: with_floats_def split: prod.splits)

lemma with_rates_keeps: "with_rates f st = (b, st') \<Longrightarrow> keeps st st'"
  by (auto simp: with_rates_def split: prod.splits)

lemma get_or_zero_keeps: "get_or_zero E st k = (v, st') \<Longrightarrow> keeps st st'"
  by (auto simp: get_or_zero_def split: prod.splits sum.splits dest: with_floats_keeps)

lemma repair_keeps: "repair_counter_to_truth E st res org v = (e, st') \<Longrightarrow> keeps st st'"
  by (auto simp: repair_counter_to_truth_def Let_def split: counter_type.splits dest: with_floats_keeps)

lemma run_acquire_keeps: "run_acquire E acq idem has specs st = (r, st') \<Longrightarrow> keeps st st'"
  by (auto simp: run_acquire_def split: if_splits option.splits dest: with_floats_keeps)

lemma current_usage_keeps: "current_usage E st res org = (r, st') \<Longrightarrow> keeps st st'"
  by (auto simp: current_usage_def Let_def split: counter_type.splits prod.splits sum.splits
      dest: with_floats_keeps with_rates_keeps)

lemma repair_gauges_keeps: "repair_gauges E org obs gs b st = (r, st') \<Longrightarrow> keeps st st'"
proof (induction gs arbitrary: b st)
  case (Cons g gs)
  obtain rk sp where g: "g = (rk, sp)" by (cases g)
  show ?case
  proof (cases "obs rk")
    case None
    with Cons g show ?thesis by simp
  next
    case (Some n)
    obtain cur st1 where cur: "get_or_zero E st (as_OrgKey sp) = (cur, st1)" by (metis surj_pair)
    obtain e st2 where rp: "repair_counter_to_truth E st1 (gauge_def rk) org (of_go_int n) = (e, st2)" by (metis surj_pair)
    note k = get_or_zero_keeps [OF cur] repair_keeps [OF rp]
    from Cons.prems g Some cur rp have
      "(\<exists>b'. repair_gauges E org obs gs b' st1 = (r, st')) \<or> (\<exists>b'. repair_gauges E org obs gs b' st2 = (r, st'))
        \<or> (\<exists>b'. repair_gauges E org obs gs b' (emit_drift org (gauge_def rk) ''provider'' cur (of_go_int n) st2) = (r, st'))"
      by (auto split: if_splits option.splits)
    then have "keeps st1 st' \<or> keeps st2 st' \<or> keeps (emit_drift org (gauge_def rk) ''provider'' cur (of_go_int n) st2) st'"
      using Cons.IH by blast
    moreover have "keeps (emit_drift org (gauge_def rk) ''provider'' cur (of_go_int n) st2) st' = keeps st2 st'"
      by (simp add: keeps_def emit_drift_def)
    ultimately show ?thesis using k by (blast intro: keeps_trans)
  qed
qed simp

lemma read_values_keeps: "read_values E org gs vs st = (r, st') \<Longrightarrow> keeps st st'"
proof (induction E org gs vs st arbitrary: r st' rule: read_values.induct)
  case (2 E org rk sp gs vs st)
  obtain v st1 where g: "get_or_zero E st (as_OrgKey sp) = (v, st1)" by (metis surj_pair)
  with 2 have "keeps (record_touch org rk st1) st'" by simp
  then have "keeps st1 st'" by (simp add: keeps_def record_touch_def)
  with get_or_zero_keeps [OF g] show ?case by (rule keeps_trans)
qed simp

lemma recount_acquire_keeps:
  assumes "recount_acquire E (run_acquire E acq idem has) org label gs specs st = (r, st')"
  shows "keeps st st'"
proof (cases "if enforcement_on E then en_ObservedUsage E else None")
  case None
  with assms show ?thesis by (simp add: recount_acquire_def)
next
  case (Some observe)
  show ?thesis
  proof (cases "observe org")
    case (Inl e)
    let ?st1 = "emit_provider_unreachable org (gauge_def label) st"
    obtain x st2 where "run_acquire E acq idem has (map clear_limits specs) ?st1 = (x, st2)" by (metis surj_pair)
    moreover from run_acquire_keeps [OF this] have "keeps st st2" by (auto intro: keeps_trans [of st ?st1])
    ultimately show ?thesis using assms unfolding recount_acquire_def Some by (auto simp: Inl split: sum.splits)
  next
    case (Inr obs)
    obtain b st1 where rp: "repair_gauges E org obs gs False st = (b, st1)" by (metis surj_pair)
    obtain x st2 where run: "run_acquire E acq idem has specs st1 = (x, st2)" by (metis surj_pair)
    from assms repair_gauges_keeps [OF rp] run_acquire_keeps [OF run] show ?thesis
      unfolding recount_acquire_def Some by (auto simp: Inr rp run split: sum.splits if_splits intro: keeps_trans)
  qed
qed

lemma admit_keeps:
  assumes "admit E (run_acquire E acq idem has) org label gs st = (r, st')"
  shows "keeps st st'"
proof -
  define specs where "specs = (if enforcement_on E then map snd gs else map clear_limits (map snd gs))"
  obtain x st1 where run: "run_acquire E acq idem has specs st = (x, st1)" by (metis surj_pair)
  obtain y st2 where shadow: "run_acquire E acq idem has (map clear_limits specs) st1 = (y, st2)" by (metis surj_pair)
  obtain z st3 where rec: "recount_acquire E (run_acquire E acq idem has) org label gs specs st1 = (z, st3)" by (metis surj_pair)
  note k = run_acquire_keeps [OF run] run_acquire_keeps [OF shadow] recount_acquire_keeps [OF rec]
  from assms show ?thesis unfolding admit_def Let_def specs_def [symmetric]
    using k by (auto simp: run shadow rec split: sum.splits option.splits if_splits intro: keeps_trans)
qed

lemma reconcile_one_keeps: "reconcile_one E st org res = (r, st') \<Longrightarrow> keeps st st'"
proof -
  assume r: "reconcile_one E st org res = (r, st')"
  obtain x st1 where u: "current_usage E st res org = (x, st1)" by (metis surj_pair)
  have rp: "keeps st st2" if "repair_counter_to_truth E st1 res org v = (e, st2)" for v e st2
    using repair_keeps [OF that] current_usage_keeps [OF u] by (rule keeps_trans [rotated])
  from r current_usage_keeps [OF u] show ?thesis
    by (auto simp: reconcile_one_def u Let_def split: if_splits sum.splits option.splits prod.splits dest: rp)
qed

lemma reconcile_defs_keeps: "reconcile_defs E org defs rep st = (r, st') \<Longrightarrow> keeps st st'"
proof (induction defs arbitrary: rep st)
  case (Cons res defs)
  obtain x st1 where o: "reconcile_one E st org res = (x, st1)" by (metis surj_pair)
  from Cons o reconcile_one_keeps [OF o] show ?case by (auto split: sum.splits intro: keeps_trans)
qed simp

lemma reconcile_org_keeps: "keeps st (snd (reconcile_org E st org rk))"
proof -
  obtain r st' where r: "reconcile_org E st org rk = (r, st')" by (metis surj_pair)
  then have "keeps st st'"
    by (auto simp: reconcile_org_def simp del: reconcile_defs.simps split: if_splits option.splits dest: reconcile_defs_keeps)
  with r show ?thesis by simp
qed

section \<open>Properties that hold for every store\<close>

text \<open>
  C9. No id without a receipt. Whatever counter store and ledger the engine runs on, an acquire
  returns an activation id only when the ledger accepted the open row of exactly the gauges asked
  for, in the ledger as the call found it; a call admitted for some gauges either carries that id
  or is reported as a replay; and when the ledger refuses the row the call is not admitted unless
  it is a replay.
\<close>

theorem acquire_needs_receipt:
  assumes "acquire E st inp aid ts = ((e, res), st')" and "asked E inp \<noteq> []"
  shows "(ar_ActivationID res \<noteq> [] \<longrightarrow> e = None \<and> ar_Admitted res \<and> ar_ActivationID res = aid
      \<and> at_PutOpen (en_Activations E) (es_acts st) (new_activation aid ts inp (label_of inp) (asked E inp)) = (None, es_acts st'))
    \<and> (ar_Admitted res \<longrightarrow> ar_ActivationID res = aid \<or> ar_Reason res = ''dup'' \<and> es_acts st' = es_acts st)
    \<and> (fst (at_PutOpen (en_Activations E) (es_acts st) (new_activation aid ts inp (label_of inp) (asked E inp))) \<noteq> None
         \<longrightarrow> \<not> ar_Admitted res \<or> ar_Reason res = ''dup'')"
proof (cases "acquire_gauges E st inp (label_of inp) (asked E inp) aid ts = ((e, res), st')")
  case False
  with acquire_cases [OF assms(1)] assms(2) show ?thesis by auto
next
  case True
  define a where "a = new_activation aid ts inp (label_of inp) (asked E inp)"
  show ?thesis
  proof (cases "fs_acquirer (en_Floats E)")
    case None
    with True show ?thesis by (auto simp: acquire_gauges_def ar_zero_def)
  next
    case (Some acq)
    show ?thesis
    proof (cases "guard_idempotency_key (en_StrictEnv E) (ai_IdempotencyKey inp)")
      case (Some err)
      with True \<open>fs_acquirer (en_Floats E) = Some acq\<close> show ?thesis by (auto simp: acquire_gauges_def ar_zero_def)
    next
      case None
      define run where "run = run_acquire E acq (gauge_idem_pair (counter_of E (fst (hd (asked E inp)))) (ai_OrgID inp)
        (ai_IdempotencyKey inp)) (ai_IdempotencyKey inp \<noteq> [])"
      obtain r st1 where adm: "admit E run (ai_OrgID inp) (label_of inp) (asked E inp) st = (r, st1)" by (metis surj_pair)
      obtain vs st2 where rv: "read_values E (ai_OrgID inp) (asked E inp) [] st1 = (vs, st2)" by (metis surj_pair)
      have acts: "es_acts st1 = es_acts st" "es_acts st2 = es_acts st"
        using admit_keeps [of E acq _ _ _ _ _ st r st1] read_values_keeps [OF rv] adm
        by (auto simp: run_def keeps_def)
      from True acts show ?thesis
        unfolding acquire_gauges_def Some option.case None Let_def run_def [symmetric] adm prod.case a_def [symmetric]
        by (auto simp: rv ar_zero_def ar_denied_def with_acts_def split: sum.splits if_splits prod.splits option.splits)
    qed
  qed
qed

text \<open>The small engine on a ledger that refuses every row.\<close>

definition deaf_engine :: "(mem_store, mem_rates, mem_acts) engine" where
  "deaf_engine = small_engine\<lparr>en_Activations := mem_act_store\<lparr>at_PutOpen := (\<lambda>s a. (Some ErrAcquireTarget, s))\<rparr>\<rparr>"

theorem acquire_needs_receipt_witness:
  "\<exists>e res st'. acquire deaf_engine small_state live_input ''act_1'' ''t'' = ((e, res), st')
     \<and> ar_ActivationID res = [] \<and> (ar_Admitted res \<longrightarrow> ar_Reason res = ''dup'')"
proof -
  obtain e res st' where a: "acquire deaf_engine small_state live_input ''act_1'' ''t'' = ((e, res), st')" by (metis surj_pair)
  have n: "asked deaf_engine live_input \<noteq> []" 
    by (simp add: deaf_engine_def asked_def acquire_target_def gauge_specs_def is_gauge_def live_input_def gauge_resource_def)
  from acquire_needs_receipt [OF a n] have "ar_ActivationID res = [] \<and> (ar_Admitted res \<longrightarrow> ar_Reason res = ''dup'')"
    by (auto simp: deaf_engine_def)
  with a show ?thesis by blast
qed

text \<open>The kill switch fails closed in \<open>Check\<close> and \<open>Acquire\<close>, in shadow mode too, and moves no state.\<close>

lemma kill_switch_denies:
  assumes "kill_switch E" and "ci_ResourceKey inp \<noteq> []" and "label_of ainp \<noteq> []"
  shows "(\<exists>r. check E st inp = (Inr r, st) \<and> r_Decision r = Deny \<and> r_Reason r = ''global_kill_switch'')
    \<and> acquire E st ainp aid ts = ((None, ar_denied (label_of ainp) ''global_kill_switch''), st)"
  using assms by (auto simp: check_def check0_def acquire_def acquire_target_def label_of_def)

text \<open>
  Read repair is throttled: with a positive throttle, a second call for the same org at the same
  instant does nothing, whatever the truth sources and the stores answer.
\<close>

theorem read_repair_throttled:
  assumes "0 < en_ReadRepairThrottle E"
  shows "maybe_read_repair E (maybe_read_repair E st org) org = maybe_read_repair E st org"
proof (cases "maybe_read_repair E st org = st")
  case False
  let ?st = "st\<lparr>es_rrLast := (es_rrLast st)(org \<mapsto> es_now st)\<rparr>"
  have m: "maybe_read_repair E st org = snd (reconcile_org E ?st org [])"
    using False assms by (auto simp: maybe_read_repair_def split: if_splits)
  have "keeps ?st (maybe_read_repair E st org)" unfolding m by (rule reconcile_org_keeps)
  then show ?thesis using assms by (simp add: maybe_read_repair_def [of E "maybe_read_repair E st org"] keeps_def)
qed simp

theorem read_repair_throttled_witness:
  "let E = recount_engine\<lparr>en_ReadRepairThrottle := 5\<rparr> in
   maybe_read_repair E (maybe_read_repair E stale_state ''o1'') ''o1'' = maybe_read_repair E stale_state ''o1''"
  unfolding Let_def by (rule read_repair_throttled) simp

section \<open>Reconciling a gauge\<close>

definition pair_lasting :: "('s \<Rightarrow> string \<Rightarrow> bool) \<Rightarrow> 's \<Rightarrow> dual_pair \<Rightarrow> bool" where
  "pair_lasting lasting s p \<longleftrightarrow> lasting s (dp_P p) \<and> (dp_S p \<noteq> [] \<longrightarrow> lasting s (dp_S p))"

definition set_level :: "dual_pair \<Rightarrow> f64 \<Rightarrow> (string \<rightharpoonup> f64) \<Rightarrow> (string \<rightharpoonup> f64)" where
  "set_level p v lv = (if dp_S p = [] then lv(dp_P p \<mapsto> v) else lv(dp_P p \<mapsto> v, dp_S p \<mapsto> v))"

lemma set_level_pair [simp]: "pair_level (set_level p v lv) p = v"
  by (simp add: set_level_def pair_level_set)

lemma set_level_other: "k \<noteq> dp_P p \<Longrightarrow> k \<noteq> dp_S p \<Longrightarrow> set_level p v lv k = lv k"
  by (simp add: set_level_def)

context reliable_store
begin

text \<open>One gauge of the pass, with a truth source that observed it.\<close>

lemma reconcile_gauge_ex:
  assumes "en_Floats E = F" and "rd_CounterType res = CounterGauge" and "en_ObservedUsage E = Some obs"
    and "obs org = Inr m" and "m (rd_ResourceKey res) = Some n"
    and p: "p = gauge_org_pair (counter_of E (rd_ResourceKey res)) org" and "pair_lasting lasting (es_floats st) p"
  defines "before \<equiv> pair_level (level (es_floats st)) p"
  shows "\<exists>st'. reconcile_one E st org res =
      (Inr \<lparr>re_CounterType = CounterGauge, re_Before = before, re_After = of_go_int n, re_Changed = drifted (of_go_int n) before,
            re_Source = ''provider'', re_Status = (if drifted (of_go_int n) before then ''repaired'' else ''in_sync'')\<rparr>, st')
    \<and> level (es_floats st') =
        (if drifted (of_go_int n) before then set_level p (of_go_int n) (level (es_floats st)) else level (es_floats st))
    \<and> pair_lasting lasting (es_floats st') p \<and> keeps st st'"
proof -
  obtain s1 where s1: "current_usage E st res org = (Inr before, st\<lparr>es_floats := s1\<rparr>)" "level s1 = level (es_floats st)"
    "\<forall>j. lasting (es_floats st) j \<longrightarrow> lasting s1 j"
    using usage_gauge [OF assms(1,2), of st org] unfolding before_def p by blast
  have l1: "pair_lasting lasting s1 p" using assms(7) s1(3) by (simp add: pair_lasting_def)
  obtain s2 where s2: "set_pair F s1 p (of_go_int n) 0 = (None, s2)" "level s2 = set_level p (of_go_int n) (level (es_floats st))"
    "\<forall>j. lasting s1 j \<longrightarrow> lasting s2 j"
    using set_pair_ex [of s1 p "of_go_int n"] l1 s1(2) unfolding pair_lasting_def set_level_def by auto
  have l2: "pair_lasting lasting s2 p" using l1 s2(3) by (simp add: pair_lasting_def)
  have t: "has_truth_source E res" "recompute_true_usage E org res = Inr (Some (of_go_int n))"
    using assms(2-5) by (simp_all add: has_truth_source_def recompute_true_usage_def)
  have rp: "repair_counter_to_truth E (st\<lparr>es_floats := s1\<rparr>) res org (of_go_int n) = (None, st\<lparr>es_floats := s2\<rparr>)"
    using assms(1,2) s2(1) p by (simp add: repair_counter_to_truth_def with_floats_def)
  show ?thesis
  proof (cases "drifted (of_go_int n) before")
    case True
    with s1(1) t rp assms(2) s2(2) l2 show ?thesis
      by (simp add: reconcile_one_def re_new_def source_for_def)
  next
    case False
    with s1 t assms(2) l1 show ?thesis
      by (simp add: reconcile_one_def re_new_def source_for_def)
  qed
qed

end

text \<open>
  Reconciling a gauge converges in one pass. When the truth source reports \<open>n\<close> of a gauge,
  \<open>ReconcileOrg\<close> of that resource reports the level it found and \<open>n\<close>, repairs the level to \<open>n\<close>
  (under both keys of a dual keyspace) exactly when it had drifted, touches no other level, and a
  second pass finds it in sync and changes nothing. The counter's keys must carry no expiry.
\<close>

theorem reconcile_converges:
  assumes "en_Floats E = mem_float_store" and "rk \<noteq> []" and "reg_resource (en_Reg E) rk = Some res"
    and "rd_ResourceKey res = rk" and "rd_CounterType res = CounterGauge" and "en_ObservedUsage E = Some obs"
    and "obs org = Inr m" and "m rk = Some n" and "p = gauge_org_pair (counter_of E rk) org"
    and "pair_lasting mem_lasting (es_floats st) p" and "before = pair_level (mem_level (es_floats st)) p"
  shows "\<exists>entry st'. reconcile_org E st org rk = ((None, [(rk, entry)]), st')
    \<and> re_Before entry = before \<and> re_After entry = of_go_int n
    \<and> re_Changed entry = drifted (of_go_int n) before
    \<and> (re_Changed entry \<longrightarrow> pair_level (mem_level (es_floats st')) p = of_go_int n)
    \<and> (\<not> re_Changed entry \<longrightarrow> mem_level (es_floats st') = mem_level (es_floats st))
    \<and> (\<forall>k. k \<noteq> dp_P p \<and> k \<noteq> dp_S p \<longrightarrow> mem_level (es_floats st') k = mem_level (es_floats st) k)
    \<and> (\<exists>entry2 st2. reconcile_org E st' org rk = ((None, [(rk, entry2)]), st2) \<and> \<not> re_Changed entry2
         \<and> re_Status entry2 = ''in_sync'' \<and> mem_level (es_floats st2) = mem_level (es_floats st'))"
proof -
  have m: "m (rd_ResourceKey res) = Some n" and p: "p = gauge_org_pair (counter_of E (rd_ResourceKey res)) org"
    using assms(4,8,9) by simp_all
  note one = ms.reconcile_gauge_ex [OF assms(1,5,6,7) m p]
  have org: "reconcile_org E st0 org rk = ((None, [(rk, en)]), st1)" if "reconcile_one E st0 org res = (Inr en, st1)" for st0 en st1
    using that assms(2,3,4) by (simp add: reconcile_org_def)
  obtain en st' where r: "reconcile_one E st org res = (Inr en, st')"
    and en: "re_Before en = before" "re_After en = of_go_int n" "re_Changed en = drifted (of_go_int n) before"
    and lv: "mem_level (es_floats st') =
        (if drifted (of_go_int n) before then set_level p (of_go_int n) (mem_level (es_floats st)) else mem_level (es_floats st))"
    and l: "pair_lasting mem_lasting (es_floats st') p"
    using one [OF assms(10)] unfolding assms(11) [symmetric] by auto
  have s: "\<not> drifted (of_go_int n) (pair_level (mem_level (es_floats st')) p)" using lv assms(11) by auto
  have again: "\<exists>entry2 st2. reconcile_org E st' org rk = ((None, [(rk, entry2)]), st2) \<and> \<not> re_Changed entry2
       \<and> re_Status entry2 = ''in_sync'' \<and> mem_level (es_floats st2) = mem_level (es_floats st')"
    using one [OF l] s org by fastforce
  show ?thesis
    by (rule exI [of _ en], rule exI [of _ st'], intro conjI again org r) (use en lv in \<open>auto simp: set_level_other\<close>)
qed

theorem reconcile_converges_witness:
  "\<exists>entry st'. reconcile_org recount_engine stale_state ''o1'' ''box.live'' = ((None, [(''box.live'', entry)]), st')
     \<and> re_Changed entry \<and> map_get (Fin 0) (mem_level (es_floats st')) ''quota:o1:box.live:gauge'' = Fin 1"
proof -
  let ?p = "single ''quota:o1:box.live:gauge''"
  have p: "?p = gauge_org_pair (counter_of recount_engine ''box.live'') ''o1''" by (simp add: recount_engine_def)
  have l: "pair_lasting mem_lasting (es_floats stale_state) ?p"
    by (simp add: pair_lasting_def mem_lasting_def stale_state_def mem_empty_def)
  have e: "en_Floats recount_engine = mem_float_store" "reg_resource (en_Reg recount_engine) ''box.live'' = Some (gauge_resource ''box.live'')"
    "en_ObservedUsage recount_engine = Some (\<lambda>_. Inr [''box.live'' \<mapsto> 1])" by (simp_all add: recount_engine_def)
  have v: "pair_level (mem_level (es_floats stale_state)) ?p = Fin 2" by (simp add: map_get_def)
  have n: "of_go_int 1 = Fin 1" using of_go_int_small [of 1] by simp
  have d: "drifted (of_go_int 1) (Fin 2)" using drifted_int [of 1 2] n by simp
  have g: "rd_ResourceKey (gauge_resource ''box.live'') = ''box.live''" "rd_CounterType (gauge_resource ''box.live'') = CounterGauge"
    by (simp_all add: gauge_resource_def)
  from reconcile_converges [OF e(1) _ e(2) g e(3) refl _ p l v [symmetric], of 1] d n show ?thesis by auto
qed

section \<open>Settlement\<close>

lemma ma_settle_first:
  assumes "ma_row s i = Some a" and "ac_State a \<noteq> StateSettled"
  shows "\<exists>b s'. ma_mark_settled s i c = (Inr (Some b), s') \<and> ma_row s' = (ma_row s)(i \<mapsto> b) \<and> ac_State b = StateSettled
    \<and> ac_Cost b = Some c \<and> ac_OrgID b = ac_OrgID a \<and> ac_ResourceKey b = ac_ResourceKey a"
  using assms by (auto simp: ma_mark_settled_def ma_row_def update_conv' Let_def)

lemma ma_settle_again: "ma_row s i = Some a \<Longrightarrow> ac_State a = StateSettled \<Longrightarrow> ma_mark_settled s i c = (Inr None, s)"
  by (simp add: ma_mark_settled_def ma_row_def)

lemma ma_release_closed: "ma_row s i = Some a \<Longrightarrow> ac_State a \<noteq> StateOpen \<Longrightarrow> ma_mark_released s i = (Inr None, s)"
  by (simp add: ma_mark_released_def ma_row_def)

text \<open>What \<open>Settle\<close> accepts as a cost, given \<open>strconv.ParseFloat\<close>.\<close>

definition valid_cost :: "(string \<Rightarrow> f64 option) \<Rightarrow> string \<Rightarrow> bool" where
  "valid_cost parseFloat cost \<longleftrightarrow>
     (case parseFloat (trim_space cost) of None \<Rightarrow> False | Some f \<Rightarrow> finite_f f \<and> fle (Fin 0) f)"

lemma settle_valid: "valid_cost pf cost \<Longrightarrow> \<exists>f. pf (trim_space cost) = Some f \<and> finite_f f \<and> \<not> flt f (Fin 0)"
  by (cases "pf (trim_space cost)") (auto simp: valid_cost_def finite_f_def split: f64.splits)

lemma settle_invalid: "\<not> valid_cost pf cost \<Longrightarrow> settle pf E st aid cost = ((False, Some (ErrSettleCost cost)), st)"
  by (auto simp: valid_cost_def settle_def finite_f_def split: option.splits f64.splits)

lemma settle_mem:
  assumes "en_Activations E = mem_act_store" and "valid_cost pf cost" and "ma_row (es_acts st) aid = Some a"
  shows "ac_State a \<noteq> StateSettled \<Longrightarrow> \<exists>b s'. settle pf E st aid cost = ((True, None), st\<lparr>es_acts := s'\<rparr>)
      \<and> ma_row s' = (ma_row (es_acts st))(aid \<mapsto> b) \<and> ac_State b = StateSettled \<and> ac_Cost b = Some cost
      \<and> ac_OrgID b = ac_OrgID a \<and> ac_ResourceKey b = ac_ResourceKey a"
    and "ac_State a = StateSettled \<Longrightarrow> ac_Cost a = Some c \<Longrightarrow> settle pf E st aid cost = ((False, None),
      if c \<noteq> cost then emit \<lparr>ev_Kind = SettleConflict, ev_OrgID = ac_OrgID a, ev_UserID = [], ev_ResourceKey = ac_ResourceKey a,
        ev_Scope = [], ev_Level = Fin 0, ev_Limit = Fin 0\<rparr> st else st)"
proof -
  obtain f where f: "pf (trim_space cost) = Some f" "finite_f f" "\<not> flt f (Fin 0)" using settle_valid [OF assms(2)] by blast
  show "\<exists>b s'. settle pf E st aid cost = ((True, None), st\<lparr>es_acts := s'\<rparr>)
      \<and> ma_row s' = (ma_row (es_acts st))(aid \<mapsto> b) \<and> ac_State b = StateSettled \<and> ac_Cost b = Some cost
      \<and> ac_OrgID b = ac_OrgID a \<and> ac_ResourceKey b = ac_ResourceKey a" if unsettled: "ac_State a \<noteq> StateSettled"
  proof -
    obtain b s' where b: "ma_mark_settled (es_acts st) aid cost = (Inr (Some b), s')"
      "ma_row s' = (ma_row (es_acts st))(aid \<mapsto> b)" "ac_State b = StateSettled" "ac_Cost b = Some cost"
      "ac_OrgID b = ac_OrgID a" "ac_ResourceKey b = ac_ResourceKey a" using ma_settle_first [OF assms(3) unsettled, of cost] by blast
    with f assms(1) have "settle pf E st aid cost = ((True, None), st\<lparr>es_acts := s'\<rparr>)"
      by (simp add: settle_def with_acts_def mem_act_store_def)
    with b show ?thesis by blast
  qed
  show "settle pf E st aid cost = ((False, None),
      if c \<noteq> cost then emit \<lparr>ev_Kind = SettleConflict, ev_OrgID = ac_OrgID a, ev_UserID = [], ev_ResourceKey = ac_ResourceKey a,
        ev_Scope = [], ev_Level = Fin 0, ev_Limit = Fin 0\<rparr> st else st)" if "ac_State a = StateSettled" "ac_Cost a = Some c"
    using ma_settle_again [OF assms(3) that(1), of cost] f assms(1,3) that(2)
    by (auto simp: settle_def with_acts_def mem_act_store_def ma_get_def ma_row_def)
qed

text \<open>
  Settlement: a cost that is not a finite non-negative number is refused with nothing changed;
  the first valid cost of a known activation is recorded and moves no counter; every later
  settlement is answered \<open>false\<close>, leaves the recorded cost, and raises one conflict event exactly
  when the cost differs.
\<close>

theorem settle_first_wins:
  assumes "en_Activations E = mem_act_store" and "ma_row (es_acts st) aid = Some a" and "ac_State a \<noteq> StateSettled"
    and "valid_cost pf cost" and "valid_cost pf cost2" and "\<not> valid_cost pf junk"
  shows "settle pf E st aid junk = ((False, Some (ErrSettleCost junk)), st)
    \<and> (\<exists>b st1. settle pf E st aid cost = ((True, None), st1) \<and> es_floats st1 = es_floats st
         \<and> at_Get (en_Activations E) (es_acts st1) aid = Inr (Some b) \<and> ac_State b = StateSettled \<and> ac_Cost b = Some cost
         \<and> (\<exists>st2. settle pf E st1 aid cost2 = ((False, None), st2) \<and> es_acts st2 = es_acts st1 \<and> es_floats st2 = es_floats st1
              \<and> length (es_events st2) = length (es_events st1) + (if cost2 = cost then 0 else 1)))"
proof -
  obtain b s' where s: "settle pf E st aid cost = ((True, None), st\<lparr>es_acts := s'\<rparr>)"
    "ma_row s' = (ma_row (es_acts st))(aid \<mapsto> b)" "ac_State b = StateSettled" "ac_Cost b = Some cost"
    using settle_mem(1) [OF assms(1,4,2,3)] by blast
  let ?st1 = "st\<lparr>es_acts := s'\<rparr>"
  have row: "ma_row (es_acts ?st1) aid = Some b" using s(2) by simp
  have g: "at_Get (en_Activations E) (es_acts ?st1) aid = Inr (Some b)"
    using row assms(1) by (simp add: mem_act_store_def ma_get_def ma_row_def)
  have "\<exists>st2. settle pf E ?st1 aid cost2 = ((False, None), st2) \<and> es_acts st2 = es_acts ?st1 \<and> es_floats st2 = es_floats ?st1
      \<and> length (es_events st2) = length (es_events ?st1) + (if cost2 = cost then 0 else 1)"
    using settle_mem(2) [OF assms(1,5) row s(3,4)] by (auto simp: emit_def)
  with s g settle_invalid [OF assms(6)] show ?thesis by fastforce
qed

definition tiny_parse :: "string \<Rightarrow> f64 option" where
  "tiny_parse s = (if s = ''1.50'' then Some (Fin (3 / 2)) else if s = ''2'' then Some (Fin 2) else if s = ''NaN'' then Some NaN else None)"

definition held_state :: "(mem_store, mem_rates, mem_acts) estate" where
  "held_state = small_state\<lparr>es_floats := mem_put (mem_empty 0) ''quota:o1:box.live:gauge'' (Fin 1), es_acts := sample_ledger\<rparr>"

lemma held_row: "ma_row (es_acts held_state) ''act_1'' = Some sample_act" "ac_State sample_act = StateOpen"
  by (simp_all add: held_state_def ma_row_def sample_ledger_def sample_act_def)

lemma tiny_costs: "valid_cost tiny_parse ''1.50''" "valid_cost tiny_parse ''2''" "\<not> valid_cost tiny_parse ''NaN''"
  by code_simp+

theorem settle_first_wins_witness:
  "\<exists>st1 st2. settle tiny_parse small_engine held_state ''act_1'' ''NaN'' = ((False, Some (ErrSettleCost ''NaN'')), held_state)
     \<and> settle tiny_parse small_engine held_state ''act_1'' ''1.50'' = ((True, None), st1)
     \<and> settle tiny_parse small_engine st1 ''act_1'' ''2'' = ((False, None), st2)
     \<and> length (es_events st2) = length (es_events st1) + 1"
proof -
  have "ac_State sample_act \<noteq> StateSettled" using held_row(2) by simp
  from settle_first_wins [OF small_flags(9) held_row(1) this tiny_costs] show ?thesis by auto
qed

text \<open>
  A settlement of an activation that is still open strands its gauges: \<open>MarkSettled\<close> takes the
  row out of the open state without a release, and \<open>ReleaseActivation\<close> then finds nothing to do, so
  the levels the activation holds are not returned by any later release of it.
\<close>

theorem settle_open_strands_gauges:
  assumes "en_Activations E = mem_act_store" and "ma_row (es_acts st) aid = Some a" and "ac_State a = StateOpen"
    and "valid_cost pf cost"
  shows "\<exists>st1. settle pf E st aid cost = ((True, None), st1) \<and> es_floats st1 = es_floats st
    \<and> release_activation E st1 aid = ((False, None), st1)"
proof -
  have "ac_State a \<noteq> StateSettled" using assms(3) by simp
  from settle_mem(1) [OF assms(1,4,2) this]
  obtain b s' where s: "settle pf E st aid cost = ((True, None), st\<lparr>es_acts := s'\<rparr>)"
    "ma_row s' = (ma_row (es_acts st))(aid \<mapsto> b)" "ac_State b = StateSettled" by blast
  have "ma_mark_released s' aid = (Inr None, s')" using s(2,3) by (intro ma_release_closed [of _ _ b]) auto
  then have "release_activation E (st\<lparr>es_acts := s'\<rparr>) aid = ((False, None), st\<lparr>es_acts := s'\<rparr>)"
    using assms(1) by (simp add: release_activation_def with_acts_def mem_act_store_def)
  with s(1) show ?thesis by auto
qed

theorem settle_open_strands_gauges_witness:
  "\<exists>st1. settle tiny_parse small_engine held_state ''act_1'' ''2'' = ((True, None), st1)
     \<and> release_activation small_engine st1 ''act_1'' = ((False, None), st1)
     \<and> mem_level (es_floats st1) ''quota:o1:box.live:gauge'' = Some (Fin 1)"
proof -
  have "mem_level (es_floats held_state) ''quota:o1:box.live:gauge'' = Some (Fin 1)"
    by (simp add: held_state_def store_simps)
  with settle_open_strands_gauges [OF small_flags(9) held_row tiny_costs(2)] show ?thesis by auto
qed

section \<open>Where the gate and the counters disagree\<close>

lemma spend_twice_level:
  assumes "\<not> as_HasUser sp"
  shows "fold spend_level [sp, sp] lv (as_OrgKey sp) = Some (fadd (fadd (map_get (Fin 0) lv (as_OrgKey sp)) (as_Delta sp)) (as_Delta sp))"
  using assms by (simp add: spend_level_def add_level_def map_get_def)

text \<open>
  C36. A bundle that names the same gauge twice passes its limit: each of the two specs is tested
  against the level before the spend, both are added, and the receipt, keyed by resource, records
  only one of them. With the level one below a whole limit the acquire is admitted, the level ends
  one above the limit, and the release of the activation returns one of the two.
\<close>

theorem duplicate_gauge_passes_limit:
  assumes "mem_engine E" and "passes_gates E inp" and "latch_free E inp (es_floats st)" and "aid \<noteq> []"
    and "acquire_target E inp = Some (label, [rk, rk], False)" and "is_gauge E rk" and "ai_UserID inp = []"
    and "gauge_limit E (ai_OrgID inp) [] rk = (Some (Fin (of_int L)), None)" and "0 \<le> L" and "L \<le> 2 ^ 52"
    and "k = as_OrgKey (gauge_spec E inp rk)" and "mem_level (es_floats st) k = Some (Fin (of_int (L - 1)))"
  shows "\<exists>res st'. acquire E st inp aid ts = ((None, res), st') \<and> ar_Admitted res
    \<and> mem_level (es_floats st') k = Some (Fin (of_int (L + 1)))
    \<and> ac_Spend (new_activation aid ts inp (label_of inp) (asked E inp)) = [(rk, Fin 1)]"
proof -
  let ?sp = "gauge_spec E inp rk"
  have sp: "\<not> as_HasUser ?sp" "as_OrgLimit ?sp = Some (Fin (of_int L))"
    using assms(7,8) by (simp_all add: gauge_spec_def spend_spec_def Let_def)
  have asked: "asked E inp = [(rk, ?sp), (rk, ?sp)]" using assms(5,6) by (simp add: asked_def gauge_specs_def)
  have lv: "map_get (Fin 0) (mem_level (es_floats st)) (as_OrgKey ?sp) = Fin (of_int (L - 1))"
    using assms(11,12) by (simp add: map_get_def)
  have add: "fadd (Fin (of_int (L - 1))) (Fin 1) = Fin (of_int L)" "fadd (Fin (of_int L)) (Fin 1) = Fin (of_int (L + 1))"
    using fadd_int [of "L - 1" 1] fadd_int [of L 1] assms(9,10) by simp_all
  have ne: "asked E inp \<noteq> []" and v: "validate_specs 0 (map snd (asked E inp)) = None"
    and x: "\<forall>sp \<in> set (map snd (asked E inp)). \<not> spec_exceeds (map_get (Fin 0) (mem_level (es_floats st))) sp"
    using sp lv add(1) by (simp_all add: asked finite_f_def spec_exceeds_def over_limit_def)
  obtain res st' where a: "acquire E st inp aid ts = ((None, res), st')" "ar_Admitted res" "ar_ActivationID res = aid"
    using acquire_admits [OF assms(1,2) ne assms(3) v x] by blast
  have "mem_level (es_floats st') = fold spend_level [?sp, ?sp] (mem_level (es_floats st))"
    using acquire_cases [OF a(1)] acquire_gauges_cases [OF assms(1)] assms(4) a(3) asked by fastforce
  then have "mem_level (es_floats st') k = Some (Fin (of_int (L + 1)))"
    using spend_twice_level [OF sp(1)] lv add assms(11) by simp
  moreover have "ac_Spend (new_activation aid ts inp (label_of inp) (asked E inp)) = [(rk, Fin 1)]"
    by (simp add: new_activation_def asked)
  ultimately show ?thesis using a by blast
qed

definition twin_engine :: "(mem_store, mem_rates, mem_acts) engine" where
  "twin_engine = small_engine\<lparr>en_Reg := (en_Reg small_engine)\<lparr>rg_bundles := [(''twin'', [''box.live'', ''box.live''])]\<rparr>\<rparr>"

definition twin_input :: acquire_input where
  "twin_input = live_input\<lparr>ai_BundleName := ''twin''\<rparr>"

theorem duplicate_gauge_passes_limit_witness:
  "\<exists>res st'. acquire twin_engine held_state twin_input ''act_2'' ''t'' = ((None, res), st') \<and> ar_Admitted res
     \<and> gauge_limit twin_engine ''o1'' [] ''box.live'' = (Some (Fin 2), None)
     \<and> mem_level (es_floats st') ''quota:o1:box.live:gauge'' = Some (Fin 3)"
proof -
  have e: "mem_engine twin_engine" "kill_switch twin_engine = False" "en_Provider twin_engine u o' = Inr ''free''"
    "reg_tier (en_Reg twin_engine) ''free'' = Some free_tier" "en_Prefix twin_engine = ''quota''" "en_Keyspace twin_engine = ks_zero"
    "reg_resource (en_Reg twin_engine) ''box.live'' = Some (gauge_resource ''box.live'')" for u o'
    using small_mem_engine small_flags(1) small_reg
    by (simp_all add: twin_engine_def mem_engine_def kill_switch_def reg_tier_def reg_resource_def)
  have i: "ai_OrgID twin_input = ''o1''" "ai_UserID twin_input = []" "ai_BundleName twin_input = ''twin''" "ai_IdempotencyKey twin_input = []"
    by (simp_all add: twin_input_def live_input_def)
  have t: "acquire_target twin_engine twin_input = Some (''twin'', [''box.live'', ''box.live''], False)"
    by (simp add: acquire_target_def i twin_engine_def reg_bundle_def reg_has_bundle_def)
  have g: "passes_gates twin_engine twin_input" using e t by (simp add: passes_gates_def tier_misconfigured_def)
  have l: "latch_free twin_engine twin_input (es_floats held_state)" by (simp add: latch_free_def i guard_idempotency_key_def)
  have b: "is_gauge twin_engine ''box.live''" using e by (simp add: is_gauge_def gauge_resource_def)
  have lim: "gauge_limit twin_engine (ai_OrgID twin_input) [] ''box.live'' = (Some (Fin (of_int 2)), None)"
    by (simp add: gauge_limit_def e free_tier_def plain_tier_def plain_limit_def is_unlimited_def unmarshal_tier_limit_def)
  have k: "''quota:o1:box.live:gauge'' = as_OrgKey (gauge_spec twin_engine twin_input ''box.live'')"
    by (simp add: gauge_spec_def spend_spec_def gauge_org_pair_def counter_of_def key_prefix_build_def e i Let_def split: prod.splits)
  have h: "mem_level (es_floats held_state) ''quota:o1:box.live:gauge'' = Some (Fin (of_int (2 - 1)))"
    by (simp add: held_state_def store_simps)
  from duplicate_gauge_passes_limit [where aid = "''act_2''" and ts = "''t''", OF e(1) g l _ t b i(2) lim _ _ k h] lim i(1) show ?thesis by auto
qed

text \<open>
  An org-less request is counted in one place and checked in another: with an empty org id,
  \<open>Acquire\<close> of a gauge raises the counter of the empty org, while \<open>Check\<close> reads the partition named
  after the user, whose usage no such acquire changes, so that checks never see what was acquired.
\<close>

theorem orgless_acquire_unseen_by_check:
  assumes "mem_engine E" and "ai_OrgID inp = []" and "ai_UserID inp \<noteq> []" and "colon_free (ai_UserID inp)"
    and "ai_BundleName inp = []" and "ai_ResourceKey inp = rk" and "rk \<noteq> []" and "colon_free rk"
    and "reg_resource (en_Reg E) rk = Some res" and "rd_ResourceKey res = rk" and "rd_CounterType res = CounterGauge"
    and "acquire E st inp aid ts = ((e, out), st')" and "aid \<noteq> []"
  shows "fst (current_usage E st' res (partition_org (ai_UserID inp) (ai_OrgID inp)))
      = fst (current_usage E st res (partition_org (ai_UserID inp) (ai_OrgID inp)))
    \<and> (ar_ActivationID out = aid \<longrightarrow> mem_level (es_floats st') (key_prefix_build (en_Prefix E) [[], rk, ''gauge''])
          = Some (fadd (map_get (Fin 0) (mem_level (es_floats st)) (key_prefix_build (en_Prefix E) [[], rk, ''gauge''])) (Fin 1)))"
proof -
  have F: "en_Floats E = mem_float_store" and ks: "\<not> ks_enabled (en_Keyspace E)" using assms(1) by (simp_all add: mem_engine_def)
  have asked: "asked E inp = [(rk, gauge_spec E inp rk)]"
    using assms(5-7,9,11) by (simp add: asked_def acquire_target_def gauge_specs_def is_gauge_def)
  let ?k = "key_prefix_build (en_Prefix E) [ai_UserID inp, rk, ''gauge'']"
  have keys: "spec_keys (gauge_spec E inp rk) = map (key_prefix_build (en_Prefix E)) [[[], rk, ''gauge''],
      [[], rk, ''gauge'', ''seq'', ''user'', ai_UserID inp], [[], rk, ''gauge'', ''user'', ai_UserID inp]]"
    using gauge_spec_keys [OF ks, of inp rk] assms(2,3) by simp
  have "?k \<notin> set (spec_keys (gauge_spec E inp rk))"
    using assms(3,4,8) unfolding keys colon_free_def by (auto dest!: key_prefix_build_inject)
  moreover have lv: "mem_level (es_floats st') = mem_level (es_floats st) \<and> ar_ActivationID out = []
      \<or> mem_level (es_floats st') = spend_level (gauge_spec E inp rk) (mem_level (es_floats st))"
    using acquire_cases [OF assms(12)] acquire_gauges_cases [OF assms(1)] asked by fastforce
  ultimately have same: "mem_level (es_floats st') ?k = mem_level (es_floats st) ?k" using spend_level_other by metis
  have use: "fst (current_usage E s res (ai_UserID inp)) = Inr (map_get (Fin 0) (mem_level (es_floats s)) ?k)" for s
    using ms.usage_gauge [OF F assms(11), of s "ai_UserID inp"] ks assms(10) by (auto simp: gauge_org_pair_def)
  have "distinct (spec_keys (gauge_spec E inp rk))"
    unfolding keys using assms(3,4,8) by (auto simp: colon_free_def dest!: key_prefix_build_inject)
  then have "spend_level (gauge_spec E inp rk) lv (as_OrgKey (gauge_spec E inp rk)) =
      Some (fadd (map_get (Fin 0) lv (as_OrgKey (gauge_spec E inp rk))) (Fin 1))" for lv
    by (auto simp: spend_level_def spec_keys_def add_level_def Let_def split: if_splits)
  moreover have "as_OrgKey (gauge_spec E inp rk) = key_prefix_build (en_Prefix E) [[], rk, ''gauge'']"
    using keys by (simp add: spec_keys_def)
  ultimately show ?thesis using lv same use assms(2,13) by (auto simp: partition_org_def map_get_def)
qed

definition orgless_input :: acquire_input where
  "orgless_input = live_input\<lparr>ai_OrgID := [], ai_UserID := ''u1''\<rparr>"

theorem orgless_acquire_unseen_by_check_witness:
  "fst (current_usage small_engine (snd (acquire small_engine small_state orgless_input ''act_1'' ''t'')) (gauge_resource ''box.live'') ''u1'')
     = fst (current_usage small_engine small_state (gauge_resource ''box.live'') ''u1'')"
proof -
  obtain e out st' where a: "acquire small_engine small_state orgless_input ''act_1'' ''t'' = ((e, out), st')" by (metis surj_pair)
  have i: "ai_OrgID orgless_input = []" "ai_UserID orgless_input = ''u1''" "ai_BundleName orgless_input = []"
    "ai_ResourceKey orgless_input = ''box.live''" by (simp_all add: orgless_input_def live_input_def)
  have g: "rd_ResourceKey (gauge_resource ''box.live'') = ''box.live''" "rd_CounterType (gauge_resource ''box.live'') = CounterGauge"
    by (simp_all add: gauge_resource_def)
  from orgless_acquire_unseen_by_check [OF small_mem_engine i(1) _ _ i(3,4) _ _ small_reg(1) g a] a i show ?thesis
    by (simp add: partition_org_def colon_free_def)
qed

section \<open>Touches\<close>

text \<open>The stamp under which the recent-activity guard finds a gauge.\<close>

definition touch_key :: "string \<Rightarrow> string \<Rightarrow> string" where
  "touch_key org rk = org @ ''|'' @ rk"

lemma read_values_touches:
  assumes "read_values E org gs vs st = (vs', st')"
  shows "es_touches st' = (\<lambda>k. if k \<in> touch_key org ` fst ` set gs then Some (es_now st) else es_touches st k)"
  using assms
proof (induction gs arbitrary: vs st)
  case (Cons g gs)
  obtain rk sp where g: "g = (rk, sp)" by (cases g)
  obtain v st1 where v: "get_or_zero E st (as_OrgKey sp) = (v, st1)" by (metis surj_pair)
  have st1: "es_touches st1 = es_touches st" "es_now st1 = es_now st"
    using v by (auto simp: get_or_zero_def with_floats_def split: prod.splits sum.splits)
  from Cons.IH [of "AList.update rk v vs" "record_touch org rk st1"] Cons.prems g v st1 show ?case
    by (auto simp: record_touch_def touch_key_def fun_eq_iff)
qed simp

lemma acquire_touches:
  assumes "acquire E st inp aid ts = ((e, res), st')" and "ar_Admitted res" and "(rk, sp) \<in> set (asked E inp)"
  shows "es_touches st' (touch_key (ai_OrgID inp) rk) = Some (es_now st)"
proof -
  have ne: "asked E inp \<noteq> []" using assms(3) by auto
  have a: "acquire_gauges E st inp (label_of inp) (asked E inp) aid ts = ((e, res), st')"
    using acquire_cases [OF assms(1)] assms(2) ne by blast
  obtain acq where F: "fs_acquirer (en_Floats E) = Some acq"
    using a assms(2) by (cases "fs_acquirer (en_Floats E)") (auto simp: acquire_gauges_def ar_zero_def)
  have G: "guard_idempotency_key (en_StrictEnv E) (ai_IdempotencyKey inp) = None"
    using a assms(2) F by (cases "guard_idempotency_key (en_StrictEnv E) (ai_IdempotencyKey inp)") (auto simp: acquire_gauges_def ar_zero_def)
  define run where "run = run_acquire E acq (gauge_idem_pair (counter_of E (fst (hd (asked E inp)))) (ai_OrgID inp)
    (ai_IdempotencyKey inp)) (ai_IdempotencyKey inp \<noteq> [])"
  obtain r st1 where adm: "admit E run (ai_OrgID inp) (label_of inp) (asked E inp) st = (r, st1)" by (metis surj_pair)
  obtain vs st2 where rv: "read_values E (ai_OrgID inp) (asked E inp) [] st1 = (vs, st2)" by (metis surj_pair)
  have now: "es_now st1 = es_now st" using admit_keeps [of E acq _ _ _ _ _ st r st1] adm by (auto simp: run_def keeps_def)
  have "es_touches st' = es_touches st2"
    using a assms(2) unfolding acquire_gauges_def F option.case G Let_def run_def [symmetric] adm prod.case
    by (auto simp: rv ar_zero_def ar_denied_def with_acts_def split: sum.splits if_splits prod.splits option.splits)
  with read_values_touches [OF rv] now assms(3) show ?thesis by (force simp: image_iff)
qed

end
