(* ===== verification/Reconcile.thy ===== *)
theory Reconcile
  imports EngineActivation
begin

text \<open>
  Package \<open>reconcile\<close>: the background reconciler and its precedence law. The observed-usage
  provider says what exists, the activation ledger says what was acquired, the counter is a
  cache that is set to the one that wins.
\<close>

record drift_alert =
  da_OrgID :: string
  da_ResourceKey :: string
  da_Source :: string
  da_CounterWas :: f64
  da_ConvergedTo :: f64
  da_UnsettleableLive :: int

record ('f, 'a) reconciler =
  rc_Store :: "'a act_store"
  rc_Floats :: "'f float_store"
  rc_Prefix :: string
  rc_Keyspace :: keyspace
  rc_Reg :: registry
  rc_Provider :: "(string \<Rightarrow> goerr + (string \<rightharpoonup> int)) option"
  rc_RecentlyTouched :: "(string \<Rightarrow> string \<Rightarrow> bool) option"

text \<open>The state: the counters and the ledger, with the alerts and clean signals sent out.\<close>

record ('f, 'a) rstate =
  rs_floats :: 'f
  rs_acts :: 'a
  rs_alerts :: "drift_alert list"
  rs_clean :: "(string \<times> string) list"

definition rc_durability :: "('f, 'a) reconciler \<Rightarrow> goerr option" where
  "rc_durability R =
     (case at_Durable (rc_Store R) of
        None \<Rightarrow> Some (ErrNonDurableLedger ''activation store does not report durability'')
      | Some d \<Rightarrow> if d then None else Some (ErrNonDurableLedger ''activation store is not durable''))"

definition rc_guard_ok :: "('f, 'a) reconciler \<Rightarrow> goerr option" where
  "rc_guard_ok R =
     (case rc_RecentlyTouched R of
        None \<Rightarrow> Some (ErrNoRecentActivityGuard ''no recent-activity guard'')
      | Some g \<Rightarrow> None)"

text \<open>The open activations that hold each resource key.\<close>

definition open_by_rk :: "activation list \<Rightarrow> string \<Rightarrow> int" where
  "open_by_rk opens rk = int (length (filter (\<lambda>a. rk \<in> fst ` set (ac_Spend a)) opens))"

definition rc_emit :: "drift_alert \<Rightarrow> ('f, 'a) rstate \<Rightarrow> ('f, 'a) rstate" where
  "rc_emit a st = st\<lparr>rs_alerts := rs_alerts st @ [a]\<rparr>"

definition alert0 :: "string \<Rightarrow> string \<Rightarrow> string \<Rightarrow> drift_alert" where
  "alert0 org rk source = \<lparr>da_OrgID = org, da_ResourceKey = rk, da_Source = source,
     da_CounterWas = Fin 0, da_ConvergedTo = Fin 0, da_UnsettleableLive = 0\<rparr>"

text \<open>What a gauge converges to: \<open>None\<close> when the provider made no observation of it, else the
  target, the source that won and the number of live resources without an activation.\<close>

definition rc_target :: "(string \<rightharpoonup> int) option \<Rightarrow> int \<Rightarrow> string \<Rightarrow> (f64 \<times> string \<times> int) option" where
  "rc_target observed openN rk =
     (case observed of
        None \<Rightarrow> Some (of_go_int openN, ''activations'', 0)
      | Some m \<Rightarrow>
          (case m rk of
             None \<Rightarrow> None
           | Some n \<Rightarrow>
               if n \<noteq> openN then Some (of_go_int n, ''provider'', if n > openN then n - openN else 0)
               else Some (of_go_int openN, ''activations'', 0)))"

definition rc_pair :: "('f, 'a) reconciler \<Rightarrow> string \<Rightarrow> string \<Rightarrow> dual_pair" where
  "rc_pair R org rk =
     gauge_org_pair \<lparr>cr_Prefix = rc_Prefix R, cr_ResourceKey = rk, cr_Keyspace = rc_Keyspace R\<rparr> org"

text \<open>One gauge: its cached level is read (an error reads as zero) and set to the target unless
  it is there already.\<close>

definition rc_converge ::
  "('f, 'a) reconciler \<Rightarrow> string \<Rightarrow> string \<Rightarrow> f64 \<Rightarrow> string \<Rightarrow> int \<Rightarrow> ('f, 'a) rstate \<Rightarrow> goerr option \<times> ('f, 'a) rstate" where
  "rc_converge R org rk target source unsettleable st =
     (let pair = rc_pair R org rk in
      case get_float_dual (rc_Floats R) (rs_floats st) pair of (got, s) \<Rightarrow>
        let cur = (case got of Inl e \<Rightarrow> Fin 0 | Inr (v, ok) \<Rightarrow> v); st = st\<lparr>rs_floats := s\<rparr> in
        if feq cur target \<and> unsettleable = 0
        then (None, st\<lparr>rs_clean := rs_clean st @ [(org, rk)]\<rparr>)
        else (case set_pair (rc_Floats R) s pair target 0 of
                (Some e, s) \<Rightarrow> (Some e, st\<lparr>rs_floats := s\<rparr>)
              | (None, s) \<Rightarrow>
                  (None, rc_emit \<lparr>da_OrgID = org, da_ResourceKey = rk, da_Source = source, da_CounterWas = cur,
                                 da_ConvergedTo = target, da_UnsettleableLive = unsettleable\<rparr>
                               (st\<lparr>rs_floats := s\<rparr>))))"

fun rc_gauges ::
  "('f, 'a) reconciler \<Rightarrow> string \<Rightarrow> bool \<Rightarrow> (string \<rightharpoonup> int) option \<Rightarrow> activation list \<Rightarrow> resource_def list \<Rightarrow>
     ('f, 'a) rstate \<Rightarrow> goerr option \<times> ('f, 'a) rstate" where
  "rc_gauges R org failed observed opens [] st = (None, st)"
| "rc_gauges R org failed observed opens (res # rest) st =
     (let rk = rd_ResourceKey res in
      if rd_CounterType res \<noteq> CounterGauge then rc_gauges R org failed observed opens rest st
      else if (case rc_RecentlyTouched R of None \<Rightarrow> False | Some g \<Rightarrow> g org rk)
      then rc_gauges R org failed observed opens rest st
      else if failed
      then rc_gauges R org failed observed opens rest (rc_emit (alert0 org rk ''provider_unreachable'') st)
      else (case rc_target observed (open_by_rk opens rk) rk of
              None \<Rightarrow> rc_gauges R org failed observed opens rest (rc_emit (alert0 org rk ''provider_absent'') st)
            | Some (target, source, unsettleable) \<Rightarrow>
                (case rc_converge R org rk target source unsettleable st of
                   (Some e, st) \<Rightarrow> (Some e, st)
                 | (None, st) \<Rightarrow> rc_gauges R org failed observed opens rest st)))"

definition rc_reconcile_org ::
  "('f, 'a) reconciler \<Rightarrow> string \<Rightarrow> ('f, 'a) rstate \<Rightarrow> goerr option \<times> ('f, 'a) rstate" where
  "rc_reconcile_org R org st =
     (case rc_durability R of
        Some e \<Rightarrow> (Some e, st)
      | None \<Rightarrow>
          (case rc_guard_ok R of
             Some e \<Rightarrow> (Some e, st)
           | None \<Rightarrow>
               (case at_ListOpen (rc_Store R) (rs_acts st) org 100000 of
                  Inl e \<Rightarrow> (Some e, st)
                | Inr opens \<Rightarrow>
                    (case rc_Provider R of
                       None \<Rightarrow> rc_gauges R org False None opens (reg_all_resources (rc_Reg R)) st
                     | Some provide \<Rightarrow>
                         (case provide org of
                            Inl e \<Rightarrow> rc_gauges R org True (Some Map.empty) opens (reg_all_resources (rc_Reg R)) st
                          | Inr m \<Rightarrow> rc_gauges R org False (Some m) opens (reg_all_resources (rc_Reg R)) st)))))"

text \<open>One pass of the loop over the consumer's orgs; an error of one org is logged, not fatal.\<close>

definition rc_pass :: "('f, 'a) reconciler \<Rightarrow> string list \<Rightarrow> ('f, 'a) rstate \<Rightarrow> ('f, 'a) rstate" where
  "rc_pass R orgs st = fold (\<lambda>org st. snd (rc_reconcile_org R org st)) orgs st"

section \<open>The pass on levels\<close>

definition is_gauge_res :: "resource_def \<Rightarrow> bool" where
  "is_gauge_res res \<longleftrightarrow> rd_CounterType res = CounterGauge"

text \<open>What a pass makes of one gauge: nothing to do when it was touched or not observed.\<close>

definition rc_goal ::
  "('f, 'a) reconciler \<Rightarrow> string \<Rightarrow> (string \<rightharpoonup> int) option \<Rightarrow> activation list \<Rightarrow> resource_def \<Rightarrow> (f64 \<times> string \<times> int) option" where
  "rc_goal R org observed opens res =
     (if (case rc_RecentlyTouched R of None \<Rightarrow> False | Some g \<Rightarrow> g org (rd_ResourceKey res)) then None
      else rc_target observed (open_by_rk opens (rd_ResourceKey res)) (rd_ResourceKey res))"

definition pair_keys :: "dual_pair \<Rightarrow> string list" where
  "pair_keys p = dp_P p # (if dp_S p = [] then [] else [dp_S p])"

definition rc_key_pair :: "('f, 'a) reconciler \<Rightarrow> string \<Rightarrow> resource_def \<Rightarrow> dual_pair" where
  "rc_key_pair R org res = rc_pair R org (rd_ResourceKey res)"

definition conv_level ::
  "('f, 'a) reconciler \<Rightarrow> string \<Rightarrow> (string \<rightharpoonup> int) option \<Rightarrow> activation list \<Rightarrow> resource_def \<Rightarrow>
     (string \<rightharpoonup> f64) \<Rightarrow> (string \<rightharpoonup> f64)" where
  "conv_level R org observed opens res lv =
     (case rc_goal R org observed opens res of
        None \<Rightarrow> lv
      | Some (t, source, u) \<Rightarrow>
          if feq (pair_level lv (rc_key_pair R org res)) t \<and> u = 0 then lv
          else set_level (rc_key_pair R org res) t lv)"

lemma feq_eq: "feq a b \<Longrightarrow> a = b"
  by (cases a; cases b) (auto simp: feq_def)

lemma conv_level_other: "k \<notin> set (pair_keys (rc_key_pair R org res)) \<Longrightarrow> conv_level R org observed opens res lv k = lv k"
  by (auto simp: conv_level_def pair_keys_def set_level_def split: option.splits)

lemma pair_level_cong: "\<forall>k \<in> set (pair_keys p). lv k = lv' k \<Longrightarrow> pair_level lv p = pair_level lv' p"
  by (auto simp: pair_level_def pair_keys_def map_get_def)

lemma conv_level_own:
  assumes "\<forall>k \<in> set (pair_keys (rc_key_pair R org res)). lv k = lv' k" and "k \<in> set (pair_keys (rc_key_pair R org res))"
  shows "conv_level R org observed opens res lv k = conv_level R org observed opens res lv' k"
  using assms pair_level_cong [OF assms(1)]
  by (auto simp: conv_level_def set_level_def pair_keys_def split: option.splits if_splits)

lemma conv_level_goal:
  "rc_goal R org observed opens res = Some (t, source, u) \<Longrightarrow> pair_level (conv_level R org observed opens res lv) (rc_key_pair R org res) = t"
  by (auto simp: conv_level_def dest: feq_eq)

lemma set_level_idem: "set_level p t (set_level p t lv) = set_level p t lv"
  by (auto simp: set_level_def fun_eq_iff)

lemma conv_level_idem:
  "conv_level R org observed opens res (conv_level R org observed opens res lv) = conv_level R org observed opens res lv"
  by (auto simp: conv_level_def set_level_idem split: option.splits)

definition gauges_lasting :: "('s \<Rightarrow> string \<Rightarrow> bool) \<Rightarrow> ('s, 'a) reconciler \<Rightarrow> string \<Rightarrow> resource_def list \<Rightarrow> 's \<Rightarrow> bool" where
  "gauges_lasting lasting R org defs s \<longleftrightarrow> (\<forall>res \<in> set defs. is_gauge_res res \<longrightarrow> pair_lasting lasting s (rc_key_pair R org res))"

context reliable_store
begin

lemma rc_converge_ex:
  assumes "rc_Floats R = F" and "pair_lasting lasting (rs_floats st) (rc_pair R org rk)"
  shows "\<exists>st'. rc_converge R org rk t source u st = (None, st')
    \<and> level (rs_floats st') = (if feq (pair_level (level (rs_floats st)) (rc_pair R org rk)) t \<and> u = 0 then level (rs_floats st)
         else set_level (rc_pair R org rk) t (level (rs_floats st)))
    \<and> (\<forall>j. lasting (rs_floats st) j \<longrightarrow> lasting (rs_floats st') j) \<and> rs_acts st' = rs_acts st"
proof -
  let ?p = "rc_pair R org rk"
  obtain ok s1 where s1: "get_float_dual F (rs_floats st) ?p = (Inr (pair_level (level (rs_floats st)) ?p, ok), s1)"
    "level s1 = level (rs_floats st)" "\<forall>j. lasting (rs_floats st) j \<longrightarrow> lasting s1 j" using get_dual_ex by blast
  obtain s2 where s2: "set_pair F s1 ?p t 0 = (None, s2)" "level s2 = set_level ?p t (level (rs_floats st))"
    "\<forall>j. lasting s1 j \<longrightarrow> lasting s2 j"
    using set_pair_ex [of s1 ?p t] s1(2,3) assms(2) unfolding pair_lasting_def set_level_def by auto
  show ?thesis using s1 s2 assms(1) by (auto simp: rc_converge_def rc_emit_def Let_def)
qed

text \<open>The loop over the gauges refines the fold of the abstract convergence.\<close>

lemma rc_gauges_ex:
  assumes "rc_Floats R = F" and "gauges_lasting lasting R org defs (rs_floats st)"
  shows "\<exists>st'. rc_gauges R org False observed opens defs st = (None, st')
    \<and> level (rs_floats st') = fold (conv_level R org observed opens) (filter is_gauge_res defs) (level (rs_floats st))
    \<and> (\<forall>j. lasting (rs_floats st) j \<longrightarrow> lasting (rs_floats st') j) \<and> rs_acts st' = rs_acts st"
  using assms(2)
proof (induction defs arbitrary: st)
  case (Cons res defs)
  let ?rk = "rd_ResourceKey res"
  have l: "gauges_lasting lasting R org defs (rs_floats st)" using Cons.prems by (simp add: gauges_lasting_def)
  show ?case
  proof (cases "is_gauge_res res \<and> rc_goal R org observed opens res \<noteq> None")
    case False
    have e: "conv_level R org observed opens res = id" if "is_gauge_res res"
      using that False by (cases "rc_goal R org observed opens res") (auto simp: conv_level_def fun_eq_iff)
    have "gauges_lasting lasting R org defs (rs_floats (rc_emit a st))" for a using l by (simp add: rc_emit_def)
    note IH = Cons.IH [OF l] Cons.IH [OF this]
    show ?thesis
    proof (cases "is_gauge_res res")
      case True
      then have g: "rc_goal R org observed opens res = None" "rd_CounterType res = CounterGauge" using False unfolding is_gauge_res_def by blast+
      then have "rc_gauges R org False observed opens (res # defs) st \<in> {rc_gauges R org False observed opens defs st,
          rc_gauges R org False observed opens defs (rc_emit (alert0 org ?rk ''provider_absent'') st)}"
        by (auto simp: rc_goal_def Let_def split: if_splits option.splits)
      then show ?thesis using IH(1) IH(2) [of "alert0 org ?rk ''provider_absent''"] e [OF True] True
        by (auto simp: rc_emit_def)
    next
      case f: False
      then show ?thesis using IH(1) by (simp add: is_gauge_res_def)
    qed
  next
    case True
    then obtain t source u where g: "rc_goal R org observed opens res = Some (t, source, u)" "is_gauge_res res" by auto
    have pl: "pair_lasting lasting (rs_floats st) (rc_pair R org ?rk)"
      using Cons.prems g(2) by (simp add: gauges_lasting_def rc_key_pair_def)
    obtain st1 where st1: "rc_converge R org ?rk t source u st = (None, st1)"
      "level (rs_floats st1) = conv_level R org observed opens res (level (rs_floats st))"
      "\<forall>j. lasting (rs_floats st) j \<longrightarrow> lasting (rs_floats st1) j" "rs_acts st1 = rs_acts st"
      using rc_converge_ex [OF assms(1) pl, of t source u] g(1) by (auto simp: conv_level_def rc_key_pair_def)
    have "gauges_lasting lasting R org defs (rs_floats st1)" using l st1(3) by (auto simp: gauges_lasting_def pair_lasting_def)
    from Cons.IH [OF this] st1 g show ?thesis
      by (auto simp: rc_goal_def is_gauge_res_def Let_def split: if_splits)
  qed
qed simp

end

text \<open>On disjoint keys the fold does to each gauge what it does alone, so a second one changes nothing.\<close>

lemma conv_fold_at:
  assumes "distinct (concat (map (\<lambda>res. pair_keys (rc_key_pair R org res)) defs))" and "res \<in> set defs"
    and "k \<in> set (pair_keys (rc_key_pair R org res))"
  shows "fold (conv_level R org observed opens) defs lv k = conv_level R org observed opens res lv k"
  using assms by (intro fold_local [where K = "\<lambda>res. pair_keys (rc_key_pair R org res)"])
    (auto simp: conv_level_other intro: conv_level_own)

lemma conv_fold_other:
  assumes "\<forall>res \<in> set defs. k \<notin> set (pair_keys (rc_key_pair R org res))"
  shows "fold (conv_level R org observed opens) defs lv k = lv k"
  using assms by (induction defs arbitrary: lv) (auto simp: conv_level_other)

lemma conv_fold_idem:
  fixes R :: "('f, 'a) reconciler" and org :: string and observed :: "(string \<rightharpoonup> int) option" and opens :: "activation list"
    and defs :: "resource_def list"
  assumes "distinct (concat (map (\<lambda>res. pair_keys (rc_key_pair R org res)) defs))"
  defines "f \<equiv> fold (conv_level R org observed opens) defs"
  shows "f (f lv) = f lv"
proof
  fix k
  show "f (f lv) k = f lv k"
  proof (cases "\<exists>res \<in> set defs. k \<in> set (pair_keys (rc_key_pair R org res))")
    case True
    then obtain res where r: "res \<in> set defs" "k \<in> set (pair_keys (rc_key_pair R org res))" by blast
    note at = conv_fold_at [OF assms(1) r(1), of _ observed opens, folded f_def]
    have "f (f lv) k = conv_level R org observed opens res (f lv) k" using at r(2) by blast
    also have "\<dots> = conv_level R org observed opens res (conv_level R org observed opens res lv) k"
      using at r(2) by (intro conv_level_own) auto
    also have "\<dots> = f lv k" using at [OF r(2)] by (simp add: conv_level_idem)
    finally show ?thesis .
  next
    case False
    then show ?thesis unfolding f_def by (intro conv_fold_other) auto
  qed
qed

lemma rc_gauges_failed: "rs_floats (snd (rc_gauges R org True observed opens defs st)) = rs_floats st"
  by (induction defs arbitrary: st) (auto simp: rc_emit_def Let_def)

text \<open>Whatever happens in a pass, the levels are those of some convergence, or unchanged.\<close>

context reliable_store
begin

lemma rc_org_levels:
  assumes "rc_Floats R = F" and "gauges_lasting lasting R org (reg_all_resources (rc_Reg R)) (rs_floats st)"
  shows "\<exists>observed opens. level (rs_floats (snd (rc_reconcile_org R org st)))
    \<in> {level (rs_floats st), fold (conv_level R org observed opens) (filter is_gauge_res (reg_all_resources (rc_Reg R))) (level (rs_floats st))}"
proof (cases "rc_reconcile_org R org st = (fst (rc_reconcile_org R org st), st)
    \<or> (\<exists>observed opens. rc_reconcile_org R org st = rc_gauges R org True observed opens (reg_all_resources (rc_Reg R)) st)")
  case True
  then have "rs_floats (snd (rc_reconcile_org R org st)) = rs_floats st" using rc_gauges_failed by (metis snd_conv)
  then show ?thesis by simp
next
  case False
  then obtain observed opens where "rc_reconcile_org R org st = rc_gauges R org False observed opens (reg_all_resources (rc_Reg R)) st"
    by (auto simp: rc_reconcile_org_def split: option.splits sum.splits)
  with rc_gauges_ex [OF assms, of observed opens] show ?thesis by (intro exI [of _ observed] exI [of _ opens]) auto
qed

lemma touched_gauge_kept:
  assumes "rc_Floats R = F" and "gauges_lasting lasting R org (reg_all_resources (rc_Reg R)) (rs_floats st)"
    and "distinct (concat (map (\<lambda>res. pair_keys (rc_key_pair R org res)) (filter is_gauge_res (reg_all_resources (rc_Reg R)))))"
    and "res \<in> set (reg_all_resources (rc_Reg R))" and "is_gauge_res res" and "rc_RecentlyTouched R = Some g"
    and "g org (rd_ResourceKey res)" and "k \<in> set (pair_keys (rc_key_pair R org res))"
  shows "level (rs_floats (snd (rc_reconcile_org R org st))) k = level (rs_floats st) k"
proof -
  have m: "res \<in> set (filter is_gauge_res (reg_all_resources (rc_Reg R)))" using assms(4,5) by simp
  have "rc_goal R org observed opens res = None" for observed opens using assms(6,7) by (simp add: rc_goal_def)
  then have "fold (conv_level R org observed opens) (filter is_gauge_res (reg_all_resources (rc_Reg R))) lv k = lv k" for observed opens lv
    using conv_fold_at [OF assms(3) m assms(8)] by (simp add: conv_level_def)
  with rc_org_levels [OF assms(1,2)] show ?thesis by force
qed

end

section \<open>Properties\<close>

text \<open>
  The reconciler never acts on a partial view. On any counter store and any ledger: when the
  ledger is not known to be durable, when no recent-activity guard is wired, when the ledger cannot
  list its open activations or when the provider cannot answer, a pass over an org leaves the
  counters as they are; the refusals also send nothing.
\<close>

theorem reconciler_refuses_partial_view:
  assumes "rc_durability R \<noteq> None \<or> rc_guard_ok R \<noteq> None \<or> (\<exists>e. at_ListOpen (rc_Store R) (rs_acts st) org 100000 = Inl e)
      \<or> (\<exists>provide e. rc_Provider R = Some provide \<and> provide org = Inl e)"
  shows "rs_floats (snd (rc_reconcile_org R org st)) = rs_floats st
    \<and> (rc_durability R \<noteq> None \<or> rc_guard_ok R \<noteq> None \<longrightarrow>
         fst (rc_reconcile_org R org st) \<noteq> None \<and> snd (rc_reconcile_org R org st) = st)"
  using assms rc_gauges_failed by (auto simp: rc_reconcile_org_def split: option.splits sum.splits)

text \<open>
  C32. One pass converges. With a durable ledger, a guard and a provider that answers (or none), on a
  counter store that is up, a pass ends without error and: every gauge that was not touched and was
  observed holds its target, the provider's number or, without a provider, the number of open
  activations; a gauge that was recently touched or that the provider did not mention keeps its
  level; no other key changes; and a second pass changes no level. The gauges' keys must be
  distinct and carry no expiry.
\<close>

theorem reconciler_converges:
  assumes "rc_Floats R = mem_float_store" and "rc_durability R = None" and "rc_guard_ok R = None"
    and "at_ListOpen (rc_Store R) (rs_acts st) org 100000 = Inr opens"
    and "(case rc_Provider R of None \<Rightarrow> observed = None | Some provide \<Rightarrow> \<exists>m. provide org = Inr m \<and> observed = Some m)"
    and "gs = filter is_gauge_res (reg_all_resources (rc_Reg R))"
    and "distinct (concat (map (\<lambda>res. pair_keys (rc_key_pair R org res)) gs))"
    and "gauges_lasting mem_lasting R org (reg_all_resources (rc_Reg R)) (rs_floats st)"
  shows "\<exists>st'. rc_reconcile_org R org st = (None, st')
    \<and> (\<forall>res \<in> set gs. case rc_goal R org observed opens res of
          None \<Rightarrow> \<forall>k \<in> set (pair_keys (rc_key_pair R org res)). mem_level (rs_floats st') k = mem_level (rs_floats st) k
        | Some (target, _) \<Rightarrow> pair_level (mem_level (rs_floats st')) (rc_key_pair R org res) = target)
    \<and> (\<forall>k. (\<forall>res \<in> set gs. k \<notin> set (pair_keys (rc_key_pair R org res))) \<longrightarrow> mem_level (rs_floats st') k = mem_level (rs_floats st) k)
    \<and> (\<exists>st2. rc_reconcile_org R org st' = (None, st2) \<and> mem_level (rs_floats st2) = mem_level (rs_floats st'))"
proof -
  let ?f = "fold (conv_level R org observed opens) gs" and ?defs = "reg_all_resources (rc_Reg R)"
  have pass: "\<exists>st2. rc_reconcile_org R org st1 = (None, st2) \<and> mem_level (rs_floats st2) = ?f (mem_level (rs_floats st1))
      \<and> gauges_lasting mem_lasting R org ?defs (rs_floats st2) \<and> rs_acts st2 = rs_acts st1"
    if "gauges_lasting mem_lasting R org ?defs (rs_floats st1)" "rs_acts st1 = rs_acts st" for st1
  proof -
    have "rc_reconcile_org R org st1 = rc_gauges R org False observed opens ?defs st1"
      using assms(2-5) that(2) by (auto simp: rc_reconcile_org_def split: option.splits)
    with ms.rc_gauges_ex [OF assms(1) that(1), of observed opens] that(1) assms(6) show ?thesis
      by (auto simp: gauges_lasting_def pair_lasting_def)
  qed
  obtain st' where st': "rc_reconcile_org R org st = (None, st')" "mem_level (rs_floats st') = ?f (mem_level (rs_floats st))"
    "gauges_lasting mem_lasting R org ?defs (rs_floats st')" "rs_acts st' = rs_acts st" using pass [OF assms(8) refl] by blast
  obtain st2 where st2: "rc_reconcile_org R org st' = (None, st2)" "mem_level (rs_floats st2) = ?f (mem_level (rs_floats st'))"
    using pass [OF st'(3,4)] by blast
  have same: "mem_level (rs_floats st2) = mem_level (rs_floats st')" using st2(2) st'(2) conv_fold_idem [OF assms(7)] by metis
  have at: "mem_level (rs_floats st') k = conv_level R org observed opens res (mem_level (rs_floats st)) k"
    if "res \<in> set gs" "k \<in> set (pair_keys (rc_key_pair R org res))" for res k
    using conv_fold_at [OF assms(7) that] st'(2) by simp
  have goal: "case rc_goal R org observed opens res of
          None \<Rightarrow> \<forall>k \<in> set (pair_keys (rc_key_pair R org res)). mem_level (rs_floats st') k = mem_level (rs_floats st) k
        | Some (target, _) \<Rightarrow> pair_level (mem_level (rs_floats st')) (rc_key_pair R org res) = target" if "res \<in> set gs" for res
  proof (cases "rc_goal R org observed opens res")
    case None
    with at [OF that] show ?thesis by (auto simp: conv_level_def)
  next
    case (Some g)
    obtain t source u where g: "rc_goal R org observed opens res = Some (t, source, u)" using Some by (cases g) auto
    have "pair_level (mem_level (rs_floats st')) (rc_key_pair R org res)
        = pair_level (conv_level R org observed opens res (mem_level (rs_floats st))) (rc_key_pair R org res)"
      using at [OF that] by (intro pair_level_cong) blast
    with conv_level_goal [OF g] g show ?thesis by simp
  qed
  have "\<forall>k. (\<forall>res \<in> set gs. k \<notin> set (pair_keys (rc_key_pair R org res))) \<longrightarrow> mem_level (rs_floats st') k = mem_level (rs_floats st) k"
    using conv_fold_other st'(2) by metis
  with st'(1) st2(1) same goal show ?thesis by blast
qed

definition small_reconciler :: "(mem_store, mem_acts) reconciler" where
  "small_reconciler = \<lparr>rc_Store = mem_act_store\<lparr>at_Durable := Some True\<rparr>, rc_Floats = mem_float_store, rc_Prefix = ''quota'',
     rc_Keyspace = ks_zero, rc_Reg = \<lparr>rg_resources = [(''box.live'', gauge_resource ''box.live'')], rg_tiers = [], rg_bundles = []\<rparr>,
     rc_Provider = Some (\<lambda>_. Inr [''box.live'' \<mapsto> 1]), rc_RecentlyTouched = Some (\<lambda>_ _. False)\<rparr>"

definition drifted_rstate :: "(mem_store, mem_acts) rstate" where
  "drifted_rstate = \<lparr>rs_floats = mem_put (mem_empty 0) ''quota:o1:box.live:gauge'' (Fin 2), rs_acts = ma_empty ''t'', rs_alerts = [], rs_clean = []\<rparr>"

lemma small_rc_pair: "rc_key_pair small_reconciler ''o1'' (gauge_resource ''box.live'') = single ''quota:o1:box.live:gauge''"
  by (simp add: rc_key_pair_def rc_pair_def small_reconciler_def gauge_resource_def gauge_org_pair_def key_prefix_build_def)

theorem reconciler_refuses_partial_view_witness:
  "rs_floats (snd (rc_reconcile_org (small_reconciler\<lparr>rc_Provider := Some (\<lambda>_. Inl ErrAcquireTarget)\<rparr>) ''o1'' drifted_rstate))
     = rs_floats drifted_rstate
   \<and> snd (rc_reconcile_org (small_reconciler\<lparr>rc_Store := mem_act_store\<rparr>) ''o1'' drifted_rstate) = drifted_rstate"
proof -
  have d: "rc_durability (small_reconciler\<lparr>rc_Store := mem_act_store\<rparr>) \<noteq> None" by (simp add: rc_durability_def mem_act_store_def)
  from reconciler_refuses_partial_view [of "small_reconciler\<lparr>rc_Provider := Some (\<lambda>_. Inl ErrAcquireTarget)\<rparr>" drifted_rstate "''o1''"]
    reconciler_refuses_partial_view [of "small_reconciler\<lparr>rc_Store := mem_act_store\<rparr>" drifted_rstate "''o1''"] d
  show ?thesis by simp
qed

theorem reconciler_converges_witness:
  "\<exists>st'. rc_reconcile_org small_reconciler ''o1'' drifted_rstate = (None, st')
     \<and> map_get (Fin 0) (mem_level (rs_floats st')) ''quota:o1:box.live:gauge'' = Fin 1"
proof -
  let ?R = small_reconciler and ?res = "gauge_resource ''box.live''"
  have r: "rc_Floats ?R = mem_float_store" "rc_durability ?R = None" "rc_guard_ok ?R = None"
    by (simp_all add: small_reconciler_def rc_durability_def rc_guard_ok_def)
  have o: "at_ListOpen (rc_Store ?R) (rs_acts drifted_rstate) ''o1'' 100000 = Inr []"
    by (simp add: small_reconciler_def mem_act_store_def drifted_rstate_def ma_list_open_def open_rows_def ma_empty_def)
  have p: "case rc_Provider ?R of None \<Rightarrow> Some [''box.live'' \<mapsto> 1] = None
      | Some provide \<Rightarrow> \<exists>m. provide ''o1'' = Inr m \<and> Some [''box.live'' \<mapsto> 1] = Some m" by (simp add: small_reconciler_def)
  have all: "reg_all_resources (rc_Reg ?R) = [?res]" by (simp add: reg_all_resources_def small_reconciler_def)
  have g: "[?res] = filter is_gauge_res (reg_all_resources (rc_Reg ?R))"
    unfolding all by (simp add: is_gauge_res_def gauge_resource_def)
  have d: "distinct (concat (map (\<lambda>res. pair_keys (rc_key_pair ?R ''o1'' res)) [?res]))" by (simp add: small_rc_pair pair_keys_def)
  have l: "gauges_lasting mem_lasting ?R ''o1'' (reg_all_resources (rc_Reg ?R)) (rs_floats drifted_rstate)"
    unfolding all by (simp add: gauges_lasting_def pair_lasting_def small_rc_pair drifted_rstate_def mem_lasting_def mem_empty_def)
  have n: "of_go_int 1 = Fin 1" using of_go_int_small [of 1] by simp
  have goal: "rc_goal ?R ''o1'' (Some [''box.live'' \<mapsto> 1]) [] ?res = Some (Fin 1, ''provider'', 1)"
    by (simp add: rc_goal_def rc_target_def small_reconciler_def gauge_resource_def open_by_rk_def n)
  from reconciler_converges [OF r o p g d l] goal show ?thesis by (auto simp: small_rc_pair)
qed

end
