(* ===== verification/Outbox.thy ===== *)
theory Outbox
  imports GoFloat "HOL-Library.AList"
begin

text \<open>
  The durable settlement outbox: package \<open>observation\<close> (what is reported of a lifetime),
  \<open>outbox/store.go\<close> (the intent records and the in-memory store), \<open>outbox/emitter.go\<close> (emit,
  drain, void) and \<open>outbox/settle.go\<close> (the settlement fallback), with the classification of
  billing's answers from \<open>quota/settler.go\<close>. JSON decoding and the time formats are
  arguments; the publisher and the settler act on an outside world that is threaded through.
\<close>

section \<open>Observations\<close>

record event =
  e_OrgID :: string
  e_ResourceID :: string
  e_ReservationID :: string
  e_HourlyRate :: string
  e_AllocationFee :: string
  e_StartedAt :: string
  e_StoppedAt :: string

record observation =
  o_OrgID :: string
  o_StartedAt :: instant
  o_StoppedAt :: instant
  o_ResourceID :: string
  o_HourlyRate :: string
  o_AllocationFee :: string

text \<open>The parsers and formats of the standard library the outbox uses.\<close>

record codec =
  k_ParseTime :: "string \<Rightarrow> instant option"
  k_FormatTime :: "instant \<Rightarrow> string"
  k_ParseEvent :: "string \<Rightarrow> event option"

definition parse_time :: "codec \<Rightarrow> string \<Rightarrow> instant option" where
  "parse_time K s = (if s = [] then None else k_ParseTime K s)"

definition observe :: "codec \<Rightarrow> instant \<Rightarrow> event \<Rightarrow> goerr + observation" where
  "observe K now ev =
     (if e_OrgID ev = [] then Inl (ErrWrap ''no org_id'' ErrUnsettleable)
      else case parse_time K (e_StartedAt ev) of
        None \<Rightarrow> Inl (ErrWrap ''no parseable started_at'' ErrUnsettleable)
      | Some started \<Rightarrow>
          let stopped = (case parse_time K (e_StoppedAt ev) of None \<Rightarrow> now | Some t \<Rightarrow> t) in
          if stopped < started then Inl (ErrWrap ''lifetime runs backwards'' ErrUnsettleable)
          else Inr \<lparr>o_OrgID = e_OrgID ev, o_StartedAt = started, o_StoppedAt = stopped,
                    o_ResourceID = (if e_ResourceID ev = [] then ''unknown'' else e_ResourceID ev),
                    o_HourlyRate = e_HourlyRate ev, o_AllocationFee = e_AllocationFee ev\<rparr>)"

section \<open>Records and the store contract\<close>

datatype status = StatusPending | StatusDelivered | StatusVoided

text \<open>Why a record was voided: the drain's reason, with the detail of a refused settlement.\<close>

datatype detail = Note string | Failed goerr
datatype void_reason = NoReason | Reason string | Unsettleable string detail

record orec =
  ob_Key :: string
  ob_Event :: string
  ob_EventType :: string
  ob_ResourceType :: string
  ob_ReservationID :: string
  ob_Status :: "status option"
  ob_FirstTS :: f64
  ob_Attempts :: int
  ob_Reason :: void_reason

record 's outbox_store =
  os_PutIntent :: "'s \<Rightarrow> orec \<Rightarrow> (goerr + orec) \<times> 's"
  os_MarkDelivered :: "'s \<Rightarrow> string \<Rightarrow> goerr option \<times> 's"
  os_MarkVoided :: "'s \<Rightarrow> string \<Rightarrow> void_reason \<Rightarrow> goerr option \<times> 's"
  os_BumpAttempt :: "'s \<Rightarrow> string \<Rightarrow> goerr option \<times> 's"
  os_ListPending :: "'s \<Rightarrow> int \<Rightarrow> goerr + orec list"
  os_Durable :: bool

section \<open>The in-memory store\<close>

type_synonym mem_outbox = "(string \<times> orec) list"

definition mo_put_intent :: "mem_outbox \<Rightarrow> orec \<Rightarrow> (goerr + orec) \<times> mem_outbox" where
  "mo_put_intent s r =
     (case map_of s (ob_Key r) of
        Some ex \<Rightarrow>
          if ob_Status ex = Some StatusPending then (Inr ex, s)
          else let r' = (if ob_Status r = None then r\<lparr>ob_Status := Some StatusPending\<rparr> else r) in
               (Inr r', AList.update (ob_Key r) r' s)
      | None \<Rightarrow>
          let r' = (if ob_Status r = None then r\<lparr>ob_Status := Some StatusPending\<rparr> else r) in
          (Inr r', AList.update (ob_Key r) r' s))"

definition mo_mark_delivered :: "mem_outbox \<Rightarrow> string \<Rightarrow> goerr option \<times> mem_outbox" where
  "mo_mark_delivered s key = (None, AList.delete key s)"

definition mo_mark_voided :: "mem_outbox \<Rightarrow> string \<Rightarrow> void_reason \<Rightarrow> goerr option \<times> mem_outbox" where
  "mo_mark_voided s key reason =
     (None, (case map_of s key of
               None \<Rightarrow> s
             | Some r \<Rightarrow> AList.update key (r\<lparr>ob_Status := Some StatusVoided, ob_Reason := reason\<rparr>) s))"

definition mo_bump_attempt :: "mem_outbox \<Rightarrow> string \<Rightarrow> goerr option \<times> mem_outbox" where
  "mo_bump_attempt s key =
     (None, (case map_of s key of
               None \<Rightarrow> s
             | Some r \<Rightarrow> AList.update key (r\<lparr>ob_Attempts := ob_Attempts r + 1\<rparr>) s))"

fun insert_by_ts :: "orec \<Rightarrow> orec list \<Rightarrow> orec list" where
  "insert_by_ts r [] = [r]"
| "insert_by_ts r (x # xs) = (if flt (ob_FirstTS r) (ob_FirstTS x) then r # x # xs else x # insert_by_ts r xs)"

definition pending_rows :: "mem_outbox \<Rightarrow> orec list" where
  "pending_rows s = filter (\<lambda>r. ob_Status r = Some StatusPending) (map snd s)"

text \<open>Ordered by the horizon anchor; equal anchors keep the order of the rows.\<close>

definition mo_list_pending :: "mem_outbox \<Rightarrow> int \<Rightarrow> goerr + orec list" where
  "mo_list_pending s limit =
     (let out = foldl (\<lambda>acc r. insert_by_ts r acc) [] (pending_rows s) in
      Inr (if limit > 0 \<and> int (length out) > limit then take (nat limit) out else out))"

definition mem_outbox_store :: "mem_outbox outbox_store" where
  "mem_outbox_store =
     \<lparr>os_PutIntent = mo_put_intent, os_MarkDelivered = mo_mark_delivered, os_MarkVoided = mo_mark_voided,
      os_BumpAttempt = mo_bump_attempt, os_ListPending = mo_list_pending, os_Durable = False\<rparr>"

section \<open>The settlement contract\<close>

record settle_request =
  sr_OrgID :: string
  sr_SettlementKey :: string
  sr_Observation :: observation
  sr_ReservationID :: string
  sr_UsageRecordID :: string

record settle_entry =
  se_ReservationID :: string
  se_OrgID :: string
  se_ActualCost :: string
  se_Replayed :: bool

record void_entry =
  ve_ReservationID :: string
  ve_EventType :: string
  ve_Reason :: void_reason

text \<open>\<open>classifySettleError\<close>: billing's HTTP answer, no answer at all being no status.\<close>

definition classify_settle_error :: "nat option \<Rightarrow> bool \<Rightarrow> goerr" where
  "classify_settle_error status accountNotFound =
     (if status = Some 409 then ErrSettleRefused409
      else if status = Some 404 then (if accountNotFound then ErrSettlePermanent else ErrSettleTransient)
      else if status = Some 400 \<or> status = Some 422 then ErrSettlePermanent
      else ErrSettleTransient)"

definition terminal_cost_event :: "string \<Rightarrow> bool" where
  "terminal_cost_event t \<longleftrightarrow> t = ''resource.stopped'' \<or> t = ''resource.deleted''"

section \<open>The emitter\<close>

text \<open>
  The emitter's fixed parts (the publisher and the settler act on the world \<open>'w\<close>; absent when
  not configured) and its state.
\<close>

record ('s, 'w) emitter =
  em_Store :: "'s outbox_store"
  em_Pub :: "('w \<Rightarrow> orec \<Rightarrow> goerr option \<times> 'w) option"
  em_Settler :: "('w \<Rightarrow> settle_request \<Rightarrow> (goerr + string \<times> bool) \<times> 'w) option"
  em_Codec :: codec
  em_MaxRetryHorizon :: f64
  em_PastHorizonDrop :: bool

record ('s, 'w) emstate =
  mt_store :: 's
  mt_world :: 'w
  mt_voidLedger :: "void_entry list"
  mt_settledLedger :: "settle_entry list"
  mt_settleFailures :: nat
  mt_killed :: bool

text \<open>\<open>NewEmitter\<close> replaces a horizon that is not positive by 900 seconds.\<close>

definition effective_horizon :: "f64 \<Rightarrow> f64" where
  "effective_horizon h = (if fle h (Fin 0) then Fin 900 else h)"

definition with_store :: "('s \<Rightarrow> 'b \<times> 's) \<Rightarrow> ('s, 'w) emstate \<Rightarrow> 'b \<times> ('s, 'w) emstate" where
  "with_store f st = (case f (mt_store st) of (b, s) \<Rightarrow> (b, st\<lparr>mt_store := s\<rparr>))"

definition with_world :: "('w \<Rightarrow> 'b \<times> 'w) \<Rightarrow> ('s, 'w) emstate \<Rightarrow> 'b \<times> ('s, 'w) emstate" where
  "with_world f st = (case f (mt_world st) of (b, w) \<Rightarrow> (b, st\<lparr>mt_world := w\<rparr>))"

definition void :: "('s, 'w) emitter \<Rightarrow> orec \<Rightarrow> void_reason \<Rightarrow> ('s, 'w) emstate \<Rightarrow> ('s, 'w) emstate" where
  "void M r reason st =
     (if em_PastHorizonDrop M then snd (with_store (\<lambda>s. os_MarkDelivered (em_Store M) s (ob_Key r)) st)
      else let st = snd (with_store (\<lambda>s. os_MarkVoided (em_Store M) s (ob_Key r) reason) st) in
           st\<lparr>mt_voidLedger := mt_voidLedger st @
                [\<lparr>ve_ReservationID = ob_ReservationID r, ve_EventType = ob_EventType r, ve_Reason = reason\<rparr>]\<rparr>)"

datatype outcome = Settled | NotApplicable | Retry | UnsettleableOutcome detail

text \<open>The stop time reported when the event carries none: the moment the event was first emitted.\<close>

definition first_ts_instant :: "f64 \<Rightarrow> instant" where
  "first_ts_instant f =
     (case f of
        Fin x \<Rightarrow> (let sec = \<lfloor>x\<rfloor> in sec * second + to_go_int (fmul (Fin (x - of_int sec)) (Fin (10 ^ 9))))
      | _ \<Rightarrow> 0)"

definition stamp_stopped :: "codec \<Rightarrow> orec \<Rightarrow> event \<Rightarrow> event" where
  "stamp_stopped K r ev =
     (if e_StoppedAt ev = [] \<and> fgt (ob_FirstTS r) (Fin 0)
      then ev\<lparr>e_StoppedAt := k_FormatTime K (first_ts_instant (ob_FirstTS r))\<rparr> else ev)"

text \<open>\<open>strings.TrimSpace\<close> leaves nothing of a blank id.\<close>

definition is_blank :: "string \<Rightarrow> bool" where
  "is_blank s \<longleftrightarrow> list_all (\<lambda>c. c \<in> {CHR '' '', CHR 0x09, CHR 0x0A, CHR 0x0B, CHR 0x0C, CHR 0x0D}) s"

definition settle_request_of :: "orec \<Rightarrow> observation \<Rightarrow> settle_request" where
  "settle_request_of r obs =
     \<lparr>sr_OrgID = o_OrgID obs, sr_SettlementKey = ob_ReservationID r, sr_Observation = obs,
      sr_ReservationID = ob_ReservationID r, sr_UsageRecordID = ''lifecycle:'' @ o_ResourceID obs\<rparr>"

definition settle_failure :: "goerr \<Rightarrow> outcome" where
  "settle_failure e =
     (if err_is e ErrSettleRefused409 then Retry
      else if err_is e ErrSettleTransient then Retry
      else if err_is e ErrSettlePermanent then UnsettleableOutcome (Failed e)
      else Retry)"

definition try_settle ::
  "('s, 'w) emitter \<Rightarrow> instant \<Rightarrow> orec \<Rightarrow> ('s, 'w) emstate \<Rightarrow> outcome \<times> ('s, 'w) emstate" where
  "try_settle M now r st =
     (case em_Settler M of
        None \<Rightarrow> (NotApplicable, st)
      | Some settler \<Rightarrow>
          if \<not> terminal_cost_event (ob_EventType r) then (NotApplicable, st)
          else (case k_ParseEvent (em_Codec M) (ob_Event r) of
            None \<Rightarrow> (UnsettleableOutcome (Note ''event_unparseable''), st)
          | Some ev \<Rightarrow>
              let ev = (if e_ReservationID ev = [] then ev\<lparr>e_ReservationID := ob_ReservationID r\<rparr> else ev) in
              if is_blank (ob_ReservationID r) then (UnsettleableOutcome (Note ''no_settlement_key''), st)
              else (case observe (em_Codec M) now (stamp_stopped (em_Codec M) r ev) of
                      Inl e \<Rightarrow> (UnsettleableOutcome (Failed e), st)
                    | Inr obs \<Rightarrow>
                        (case with_world (\<lambda>w. settler w (settle_request_of r obs)) st of
                           (Inl e, st) \<Rightarrow> (settle_failure e, st)
                         | (Inr (cost, replayed), st) \<Rightarrow>
                             (Settled, st\<lparr>mt_settledLedger := mt_settledLedger st @
                                [\<lparr>se_ReservationID = ob_ReservationID r, se_OrgID = o_OrgID obs,
                                  se_ActualCost = cost, se_Replayed = replayed\<rparr>]\<rparr>)))))"

definition settle_or_void ::
  "('s, 'w) emitter \<Rightarrow> instant \<Rightarrow> orec \<Rightarrow> string \<Rightarrow> ('s, 'w) emstate \<Rightarrow> ('s, 'w) emstate" where
  "settle_or_void M now r reason st =
     (case try_settle M now r st of
        (Settled, st) \<Rightarrow> snd (with_store (\<lambda>s. os_MarkDelivered (em_Store M) s (ob_Key r)) st)
      | (NotApplicable, st) \<Rightarrow> void M r (Reason reason) st
      | (Retry, st) \<Rightarrow>
          snd (with_store (\<lambda>s. os_BumpAttempt (em_Store M) s (ob_Key r))
                 (st\<lparr>mt_settleFailures := mt_settleFailures st + 1\<rparr>))
      | (UnsettleableOutcome d, st) \<Rightarrow> void M r (Unsettleable reason d) st)"

text \<open>\<open>EmitViaOutbox\<close>, at the epoch second \<open>nowEpoch\<close> and the instant \<open>now\<close>.\<close>

definition emit_via_outbox ::
  "('s, 'w) emitter \<Rightarrow> f64 \<Rightarrow> instant \<Rightarrow> string \<Rightarrow> orec \<Rightarrow> ('s, 'w) emstate \<Rightarrow>
     (bool \<times> goerr option) \<times> ('s, 'w) emstate" where
  "emit_via_outbox M nowEpoch now key r0 st =
     (let r = (if ob_Key r0 = [] then r0\<lparr>ob_Key := key\<rparr> else r0);
          r = (if ob_FirstTS r = Fin 0 then r\<lparr>ob_FirstTS := nowEpoch\<rparr> else r)
      in
      case with_store (\<lambda>s. os_PutIntent (em_Store M) s r) st of
        (Inl e, st) \<Rightarrow> ((False, Some e), st)
      | (Inr _, st) \<Rightarrow>
          (case em_Pub M of
             None \<Rightarrow> ((False, None), settle_or_void M now r ''no_publisher_configured'' st)
           | Some pub \<Rightarrow>
               (case with_world (\<lambda>w. pub w r) st of
                  (Some e, st) \<Rightarrow> ((False, None), snd (with_store (\<lambda>s. os_BumpAttempt (em_Store M) s (ob_Key r)) st))
                | (None, st) \<Rightarrow>
                    (case with_store (\<lambda>s. os_MarkDelivered (em_Store M) s (ob_Key r)) st of
                       (e, st) \<Rightarrow> ((True, e), st)))))"

text \<open>One pending record of a drain pass, and whether it counts as delivered.\<close>

definition drain_one ::
  "('s, 'w) emitter \<Rightarrow> f64 \<Rightarrow> instant \<Rightarrow> orec \<Rightarrow> ('s, 'w) emstate \<Rightarrow> nat \<times> ('s, 'w) emstate" where
  "drain_one M nowEpoch now r st =
     (if fgt (fsub nowEpoch (ob_FirstTS r)) (em_MaxRetryHorizon M)
      then (0, settle_or_void M now r ''past_retry_horizon'' st)
      else (case em_Pub M of
              None \<Rightarrow> (0, st)
            | Some pub \<Rightarrow>
                (case with_world (\<lambda>w. pub w r) st of
                   (Some e, st) \<Rightarrow> (0, snd (with_store (\<lambda>s. os_BumpAttempt (em_Store M) s (ob_Key r)) st))
                 | (None, st) \<Rightarrow>
                     (case with_store (\<lambda>s. os_MarkDelivered (em_Store M) s (ob_Key r)) st of
                        (Some e, st) \<Rightarrow> (0, st)
                      | (None, st) \<Rightarrow> (1, st)))))"

fun drain_all ::
  "('s, 'w) emitter \<Rightarrow> f64 \<Rightarrow> instant \<Rightarrow> orec list \<Rightarrow> nat \<Rightarrow> ('s, 'w) emstate \<Rightarrow> nat \<times> ('s, 'w) emstate" where
  "drain_all M nowEpoch now [] n st = (n, st)"
| "drain_all M nowEpoch now (r # rs) n st =
     (case drain_one M nowEpoch now r st of (k, st) \<Rightarrow> drain_all M nowEpoch now rs (n + k) st)"

definition drain ::
  "('s, 'w) emitter \<Rightarrow> f64 \<Rightarrow> instant \<Rightarrow> int \<Rightarrow> ('s, 'w) emstate \<Rightarrow> (goerr + nat) \<times> ('s, 'w) emstate" where
  "drain M nowEpoch now maxPerPass st =
     (let maxPerPass = (if maxPerPass \<le> 0 then 100 else maxPerPass) in
      case os_ListPending (em_Store M) (mt_store st) maxPerPass of
        Inl e \<Rightarrow> (Inl e, st)
      | Inr pending \<Rightarrow> (case drain_all M nowEpoch now pending 0 st of (n, st) \<Rightarrow> (Inr n, st)))"

definition pending_count :: "('s, 'w) emitter \<Rightarrow> ('s, 'w) emstate \<Rightarrow> goerr + nat" where
  "pending_count M st =
     (case os_ListPending (em_Store M) (mt_store st) 10000 of Inl e \<Rightarrow> Inl e | Inr p \<Rightarrow> Inr (length p))"

text \<open>One tick of the drain loop: the kill switch skips the pass.\<close>

definition kill :: "('s, 'w) emstate \<Rightarrow> ('s, 'w) emstate" where
  "kill st = st\<lparr>mt_killed := True\<rparr>"

definition drain_tick ::
  "('s, 'w) emitter \<Rightarrow> f64 \<Rightarrow> instant \<Rightarrow> int \<Rightarrow> ('s, 'w) emstate \<Rightarrow> ('s, 'w) emstate" where
  "drain_tick M nowEpoch now maxPerPass st =
     (if mt_killed st then st else snd (drain M nowEpoch now maxPerPass st))"

section \<open>The outbox contract\<close>

text \<open>Two versions of one intent: the fields that identify the money do not change.\<close>

definition same_claim :: "orec \<Rightarrow> orec \<Rightarrow> bool" where
  "same_claim r r' \<longleftrightarrow> ob_Key r' = ob_Key r \<and> ob_Event r' = ob_Event r \<and> ob_EventType r' = ob_EventType r
     \<and> ob_ResourceType r' = ob_ResourceType r \<and> ob_ReservationID r' = ob_ReservationID r \<and> ob_FirstTS r' = ob_FirstTS r"

definition is_pending :: "orec \<Rightarrow> bool" where
  "is_pending r \<longleftrightarrow> ob_Status r = Some StatusPending"

definition voided :: "void_reason \<Rightarrow> orec \<Rightarrow> orec" where
  "voided reason r = r\<lparr>ob_Status := Some StatusVoided, ob_Reason := reason\<rparr>"

text \<open>
  What the emitter relies on of an outbox store, seen as a map from intent keys to records: an
  operation that succeeds moves the one row it names, one that fails moves nothing, and the
  listing gives pending rows, each once.
\<close>

locale outbox_laws =
  fixes S :: "'s outbox_store" and row :: "'s \<Rightarrow> string \<rightharpoonup> orec" and inv :: "'s \<Rightarrow> bool"
  assumes put_law: "inv s \<Longrightarrow> os_PutIntent S s r = (x, s') \<Longrightarrow>
      inv s' \<and> (\<forall>k. k \<noteq> ob_Key r \<longrightarrow> row s' k = row s k) \<and>
      (case x of
         Inl e \<Rightarrow> row s' = row s
       | Inr y \<Rightarrow> row s' (ob_Key r) = Some y \<and>
           (case row s (ob_Key r) of None \<Rightarrow> same_claim r y | Some ex \<Rightarrow> is_pending ex \<longrightarrow> y = ex))"
    and delivered_law: "inv s \<Longrightarrow> os_MarkDelivered S s k = (e, s') \<Longrightarrow>
      inv s' \<and> row s' = (if e = None then (row s)(k := None) else row s)"
    and voided_law: "inv s \<Longrightarrow> os_MarkVoided S s k reason = (e, s') \<Longrightarrow>
      inv s' \<and> row s' = (if e = None then (row s)(k := map_option (voided reason) (row s k)) else row s)"
    and bump_law: "inv s \<Longrightarrow> os_BumpAttempt S s k = (e, s') \<Longrightarrow>
      inv s' \<and> row s' = (if e = None then (row s)(k := map_option (\<lambda>r. r\<lparr>ob_Attempts := ob_Attempts r + 1\<rparr>) (row s k)) else row s)"
    and list_law: "inv s \<Longrightarrow> os_ListPending S s n = Inr rs \<Longrightarrow>
      distinct (map ob_Key rs) \<and> (\<forall>r \<in> set rs. row s (ob_Key r) = Some r \<and> is_pending r)"

text \<open>The in-memory store: one row per key, each under its own key.\<close>

definition outbox_ok :: "mem_outbox \<Rightarrow> bool" where
  "outbox_ok s \<longleftrightarrow> distinct (map fst s) \<and> (\<forall>(k, r) \<in> set s. ob_Key r = k)"

lemma outbox_ok_row: "outbox_ok s \<Longrightarrow> map_of s k = Some r \<Longrightarrow> ob_Key r = k"
  by (auto simp: outbox_ok_def dest: map_of_SomeD)

lemma alist_update_subset: "set (AList.update k r xs) \<subseteq> insert (k, r) (set xs)"
  by (induction xs) auto

lemma outbox_ok_update: "outbox_ok s \<Longrightarrow> ob_Key r = k \<Longrightarrow> outbox_ok (AList.update k r s)"
  using alist_update_subset [of k r s] by (auto simp: outbox_ok_def distinct_update)

lemma outbox_ok_delete: "outbox_ok s \<Longrightarrow> outbox_ok (AList.delete k s)"
  by (auto simp: outbox_ok_def AList.delete_eq distinct_map_filter)

lemma insert_by_ts_set [simp]: "set (insert_by_ts r xs) = insert r (set xs)"
  by (induction xs) auto

lemma insert_by_ts_keys: "distinct (map ob_Key (insert_by_ts r xs)) \<longleftrightarrow> ob_Key r \<notin> set (map ob_Key xs) \<and> distinct (map ob_Key xs)"
  by (induction xs) auto

lemma sort_by_ts:
  "set (foldl (\<lambda>acc r. insert_by_ts r acc) acc rs) = set acc \<union> set rs"
  "distinct (map ob_Key (acc @ rs)) \<Longrightarrow> distinct (map ob_Key (foldl (\<lambda>acc r. insert_by_ts r acc) acc rs))"
proof (induction rs arbitrary: acc)
  case (Cons r rs)
  {
    case 1
    then show ?case using Cons.IH(1) [of "insert_by_ts r acc"] by auto
  next
    case 2
    then have "distinct (map ob_Key (insert_by_ts r acc @ rs))" by (auto simp: insert_by_ts_keys)
    then show ?case using Cons.IH(2) [of "insert_by_ts r acc"] by simp
  }
qed auto

lemma pending_rows_facts:
  assumes "outbox_ok s"
  shows "distinct (map ob_Key (pending_rows s))" and "r \<in> set (pending_rows s) \<longleftrightarrow> map_of s (ob_Key r) = Some r \<and> is_pending r"
proof -
  have k: "map ob_Key (map snd s) = map fst s" using assms by (auto simp: outbox_ok_def)
  then have "distinct (map ob_Key (map snd s))" using assms unfolding outbox_ok_def by metis
  then show "distinct (map ob_Key (pending_rows s))" unfolding pending_rows_def by (rule distinct_map_filter)
  show "r \<in> set (pending_rows s) \<longleftrightarrow> map_of s (ob_Key r) = Some r \<and> is_pending r"
    using assms by (force simp: pending_rows_def is_pending_def outbox_ok_def intro: map_of_is_SomeI dest: map_of_SomeD)
qed

lemma list_pending_facts:
  assumes "outbox_ok s" and "mo_list_pending s n = Inr rs"
  shows "distinct (map ob_Key rs)" and "r \<in> set rs \<Longrightarrow> map_of s (ob_Key r) = Some r \<and> is_pending r"
    and "n \<le> 0 \<Longrightarrow> map_of s (ob_Key r) = Some r \<Longrightarrow> is_pending r \<Longrightarrow> r \<in> set rs"
proof -
  let ?out = "foldl (\<lambda>acc r. insert_by_ts r acc) [] (pending_rows s)"
  have rs: "rs = ?out \<or> rs = take (nat n) ?out" "n \<le> 0 \<Longrightarrow> rs = ?out"
    using assms(2) by (auto simp: mo_list_pending_def Let_def split: if_splits)
  have d: "distinct (map ob_Key ?out)" using sort_by_ts(2) [of "[]"] pending_rows_facts(1) [OF assms(1)] by simp
  then show "distinct (map ob_Key rs)" using rs(1) by (auto simp: take_map [symmetric] distinct_take)
  show "r \<in> set rs \<Longrightarrow> map_of s (ob_Key r) = Some r \<and> is_pending r"
    using rs(1) sort_by_ts(1) [of "[]" "pending_rows s"] pending_rows_facts(2) [OF assms(1)] by (auto dest: in_set_takeD)
  show "n \<le> 0 \<Longrightarrow> map_of s (ob_Key r) = Some r \<Longrightarrow> is_pending r \<Longrightarrow> r \<in> set rs"
    using rs(2) sort_by_ts(1) [of "[]" "pending_rows s"] pending_rows_facts(2) [OF assms(1)] by auto
qed

interpretation mo: outbox_laws mem_outbox_store map_of outbox_ok
proof unfold_locales
  fix s r x s'
  assume "outbox_ok s" "os_PutIntent mem_outbox_store s r = (x, s')"
  then show "outbox_ok s' \<and> (\<forall>k. k \<noteq> ob_Key r \<longrightarrow> map_of s' k = map_of s k) \<and>
      (case x of
         Inl e \<Rightarrow> map_of s' = map_of s
       | Inr y \<Rightarrow> map_of s' (ob_Key r) = Some y \<and>
           (case map_of s (ob_Key r) of None \<Rightarrow> same_claim r y | Some ex \<Rightarrow> is_pending ex \<longrightarrow> y = ex))"
    by (auto simp: mem_outbox_store_def mo_put_intent_def Let_def update_conv' same_claim_def is_pending_def
        intro!: outbox_ok_update split: option.splits if_splits)
next
  fix s k e s'
  assume "outbox_ok s" "os_MarkDelivered mem_outbox_store s k = (e, s')"
  then show "outbox_ok s' \<and> map_of s' = (if e = None then (map_of s)(k := None) else map_of s)"
    by (auto simp: mem_outbox_store_def mo_mark_delivered_def delete_conv' intro: outbox_ok_delete)
next
  fix s k reason e s'
  assume "outbox_ok s" "os_MarkVoided mem_outbox_store s k reason = (e, s')"
  then show "outbox_ok s' \<and> map_of s' = (if e = None then (map_of s)(k := map_option (voided reason) (map_of s k)) else map_of s)"
    by (auto simp: mem_outbox_store_def mo_mark_voided_def update_conv' voided_def fun_eq_iff outbox_ok_row
        intro!: outbox_ok_update split: option.splits)
next
  fix s k e s'
  assume "outbox_ok s" "os_BumpAttempt mem_outbox_store s k = (e, s')"
  then show "outbox_ok s' \<and> map_of s' = (if e = None then (map_of s)(k := map_option (\<lambda>r. r\<lparr>ob_Attempts := ob_Attempts r + 1\<rparr>) (map_of s k)) else map_of s)"
    by (auto simp: mem_outbox_store_def mo_bump_attempt_def update_conv' fun_eq_iff outbox_ok_row
        intro!: outbox_ok_update split: option.splits)
next
  fix s n rs
  assume "outbox_ok s" "os_ListPending mem_outbox_store s n = Inr rs"
  then show "distinct (map ob_Key rs) \<and> (\<forall>r \<in> set rs. map_of s (ob_Key r) = Some r \<and> is_pending r)"
    using list_pending_facts by (auto simp: mem_outbox_store_def)
qed

section \<open>What becomes of an intent\<close>

text \<open>The ledgers of an emitter only grow.\<close>

definition grows :: "('s, 'w) emstate \<Rightarrow> ('s, 'w) emstate \<Rightarrow> bool" where
  "grows st st' \<longleftrightarrow> (\<exists>new. mt_settledLedger st' = mt_settledLedger st @ new) \<and> (\<exists>new. mt_voidLedger st' = mt_voidLedger st @ new)"

lemma grows_refl [simp]: "grows st st"
  by (simp add: grows_def)

lemma grows_trans: "grows st1 st2 \<Longrightarrow> grows st2 st3 \<Longrightarrow> grows st1 st3"
  by (auto simp: grows_def)

definition newly_settled :: "orec \<Rightarrow> ('s, 'w) emstate \<Rightarrow> ('s, 'w) emstate \<Rightarrow> bool" where
  "newly_settled r st st' \<longleftrightarrow>
     (\<exists>new e. mt_settledLedger st' = mt_settledLedger st @ new \<and> e \<in> set new \<and> se_ReservationID e = ob_ReservationID r)"

definition newly_voided :: "orec \<Rightarrow> void_reason \<Rightarrow> ('s, 'w) emstate \<Rightarrow> ('s, 'w) emstate \<Rightarrow> bool" where
  "newly_voided r reason st st' \<longleftrightarrow>
     (\<exists>new. mt_voidLedger st' = mt_voidLedger st @ new
        \<and> \<lparr>ve_ReservationID = ob_ReservationID r, ve_EventType = ob_EventType r, ve_Reason = reason\<rparr> \<in> set new)"

lemma newly_settled_mono: "grows st1 st \<Longrightarrow> newly_settled r st st' \<Longrightarrow> grows st' st2 \<Longrightarrow> newly_settled r st1 st2"
  by (force simp: newly_settled_def grows_def)

lemma newly_voided_mono: "grows st1 st \<Longrightarrow> newly_voided r v st st' \<Longrightarrow> grows st' st2 \<Longrightarrow> newly_voided r v st1 st2"
  by (force simp: newly_voided_def grows_def)

definition past_horizon :: "('s, 'w) emitter \<Rightarrow> f64 \<Rightarrow> orec \<Rightarrow> bool" where
  "past_horizon M nowEpoch r \<longleftrightarrow> fgt (fsub nowEpoch (ob_FirstTS r)) (em_MaxRetryHorizon M)"

text \<open>The fates of a pending intent over a drain pass: pending still with its money untouched,
  accepted by the publisher, settled with billing on the record, or, past the horizon only, voided on
  the record (or dropped, where the deployment asked for that).\<close>

definition fate ::
  "('s \<Rightarrow> string \<rightharpoonup> orec) \<Rightarrow> ('s, 'w) emitter \<Rightarrow> f64 \<Rightarrow> orec \<Rightarrow> ('s, 'w) emstate \<Rightarrow> ('s, 'w) emstate \<Rightarrow> bool" where
  "fate row M nowEpoch r st st' \<longleftrightarrow>
     (\<exists>r'. row (mt_store st') (ob_Key r) = Some r' \<and> is_pending r' \<and> same_claim r r')
   \<or> row (mt_store st') (ob_Key r) = None \<and> (\<exists>pub w w'. em_Pub M = Some pub \<and> pub w r = (None, w'))
   \<or> row (mt_store st') (ob_Key r) = None \<and> terminal_cost_event (ob_EventType r) \<and> past_horizon M nowEpoch r \<and> newly_settled r st st'
   \<or> past_horizon M nowEpoch r \<and>
       (if em_PastHorizonDrop M then row (mt_store st') (ob_Key r) = None
        else \<exists>reason. row (mt_store st') (ob_Key r) = Some (voided reason r) \<and> newly_voided r reason st st')"

lemma fate_mono:
  assumes "fate row M t r st st'" and "grows st1 st" and "grows st' st2"
    and "row (mt_store st2) (ob_Key r) = row (mt_store st') (ob_Key r)"
  shows "fate row M t r st1 st2"
  using assms(1) newly_settled_mono [OF assms(2) _ assms(3)] newly_voided_mono [OF assms(2) _ assms(3)]
  unfolding fate_def assms(4) by (auto split: if_splits)

lemma same_claim_refl [simp]: "same_claim r r" and same_claim_bump [simp]: "same_claim r (r\<lparr>ob_Attempts := n\<rparr>)"
  by (simp_all add: same_claim_def)

lemma pending_bump [simp]: "is_pending (r\<lparr>ob_Attempts := n\<rparr>) = is_pending r"
  by (simp add: is_pending_def)

lemma try_settle_cases:
  assumes "try_settle M now r st = (out, st')"
  shows "mt_store st' = mt_store st \<and> mt_voidLedger st' = mt_voidLedger st \<and> grows st st'
    \<and> (out = Settled \<longrightarrow> terminal_cost_event (ob_EventType r) \<and> newly_settled r st st')"
  using assms by (auto simp: try_settle_def with_world_def Let_def settle_failure_def newly_settled_def grows_def
      split: option.splits if_splits sum.splits prod.splits)

context outbox_laws
begin

text \<open>One operation on the named row.\<close>

lemma bump_keeps:
  assumes "inv (mt_store st)" and "row (mt_store st) (ob_Key r) = Some r" and "is_pending r"
    and "with_store (\<lambda>s. os_BumpAttempt S s (ob_Key r)) st = (e, st')"
  shows "inv (mt_store st') \<and> (\<forall>k. k \<noteq> ob_Key r \<longrightarrow> row (mt_store st') k = row (mt_store st) k) \<and> grows st st'
    \<and> (\<exists>r'. row (mt_store st') (ob_Key r) = Some r' \<and> is_pending r' \<and> same_claim r r')"
proof -
  obtain s' where s: "os_BumpAttempt S (mt_store st) (ob_Key r) = (e, s')" "st' = st\<lparr>mt_store := s'\<rparr>"
    using assms(4) by (auto simp: with_store_def split: prod.splits)
  from bump_law [OF assms(1) s(1)] s(2) assms(2,3) show ?thesis by (auto simp: grows_def split: if_splits)
qed

lemma delivered_keeps:
  assumes "inv (mt_store st)" and "row (mt_store st) (ob_Key r) = Some r" and "is_pending r"
    and "with_store (\<lambda>s. os_MarkDelivered S s (ob_Key r)) st = (e, st')"
  shows "inv (mt_store st') \<and> (\<forall>k. k \<noteq> ob_Key r \<longrightarrow> row (mt_store st') k = row (mt_store st) k) \<and> grows st st' \<and> grows st' st
    \<and> row (mt_store st') (ob_Key r) \<in> {None, Some r}"
proof -
  obtain s' where s: "os_MarkDelivered S (mt_store st) (ob_Key r) = (e, s')" "st' = st\<lparr>mt_store := s'\<rparr>"
    using assms(4) by (auto simp: with_store_def split: prod.splits)
  from delivered_law [OF assms(1) s(1)] s(2) assms(2,3) show ?thesis by (auto simp: grows_def split: if_splits)
qed

lemma void_fate:
  assumes "em_Store M = S" and "inv (mt_store st)" and "row (mt_store st) (ob_Key r) = Some r" and "is_pending r" and "past_horizon M t r"
  shows "inv (mt_store (void M r reason st)) \<and> (\<forall>k. k \<noteq> ob_Key r \<longrightarrow> row (mt_store (void M r reason st)) k = row (mt_store st) k)
    \<and> grows st (void M r reason st) \<and> fate row M t r st (void M r reason st)"
proof (cases "em_PastHorizonDrop M")
  case True
  obtain e st' where d: "with_store (\<lambda>s. os_MarkDelivered S s (ob_Key r)) st = (e, st')" by (metis surj_pair)
  then have v: "void M r reason st = st'" using True assms(1) by (simp add: void_def)
  from delivered_keeps [OF assms(2-4) d] assms(4,5) True show ?thesis unfolding v fate_def by auto
next
  case False
  obtain e s' where s: "os_MarkVoided S (mt_store st) (ob_Key r) reason = (e, s')" by (metis surj_pair)
  have v: "void M r reason st = st\<lparr>mt_store := s', mt_voidLedger := mt_voidLedger st @
      [\<lparr>ve_ReservationID = ob_ReservationID r, ve_EventType = ob_EventType r, ve_Reason = reason\<rparr>]\<rparr>"
    using False assms(1) s by (simp add: void_def with_store_def)
  have "grows st (void M r reason st)" "newly_voided r reason st (void M r reason st)" unfolding v by (auto simp: grows_def newly_voided_def)
  moreover have "mt_store (void M r reason st) = s'" unfolding v by simp
  ultimately show ?thesis using voided_law [OF assms(2) s] assms(3-5) False unfolding fate_def by (auto split: if_splits)
qed

lemma settle_or_void_fate:
  assumes "em_Store M = S" and "inv (mt_store st)" and "row (mt_store st) (ob_Key r) = Some r" and "is_pending r" and "past_horizon M t r"
    and "settle_or_void M now r reason st = st'"
  shows "inv (mt_store st') \<and> (\<forall>k. k \<noteq> ob_Key r \<longrightarrow> row (mt_store st') k = row (mt_store st) k)
    \<and> grows st st' \<and> fate row M t r st st'"
proof -
  obtain out st1 where ts: "try_settle M now r st = (out, st1)" by (metis surj_pair)
  note c = try_settle_cases [OF ts]
  have i: "inv (mt_store st1)" "row (mt_store st1) (ob_Key r) = Some r" using c assms(2,3) by simp_all
  show ?thesis
  proof (cases out)
    case Settled
    obtain e st2 where d: "with_store (\<lambda>s. os_MarkDelivered S s (ob_Key r)) st1 = (e, st2)" by (metis surj_pair)
    then have "st' = st2" using assms(1,6) ts Settled by (simp add: settle_or_void_def)
    moreover note dk = delivered_keeps [OF i assms(4) d]
    moreover have "newly_settled r st st2" using newly_settled_mono [of st st r st1 st2] c Settled dk by simp
    ultimately show ?thesis using c assms(3-5) Settled unfolding fate_def by (auto intro: grows_trans)
  next
    case NotApplicable
    then have "st' = void M r (Reason reason) st1" using assms(6) ts by (simp add: settle_or_void_def)
    with void_fate [OF assms(1) i assms(4,5)] c fate_mono show ?thesis by (metis grows_refl grows_trans)
  next
    case Retry
    let ?st = "st1\<lparr>mt_settleFailures := mt_settleFailures st1 + 1\<rparr>"
    obtain e st2 where d: "with_store (\<lambda>s. os_BumpAttempt S s (ob_Key r)) ?st = (e, st2)" by (metis surj_pair)
    then have "st' = st2" using assms(1,6) ts Retry by (simp add: settle_or_void_def)
    moreover have "grows st ?st" using c by (simp add: grows_def)
    ultimately show ?thesis using bump_keeps [OF _ _ assms(4) d] i c unfolding fate_def by (auto intro: grows_trans)
  next
    case (UnsettleableOutcome x)
    then have "st' = void M r (Unsettleable reason x) st1" using assms(6) ts by (simp add: settle_or_void_def)
    with void_fate [OF assms(1) i assms(4,5)] c fate_mono show ?thesis by (metis grows_refl grows_trans)
  qed
qed

lemma drain_one_fate:
  assumes "em_Store M = S" and "inv (mt_store st)" and "row (mt_store st) (ob_Key r) = Some r" and "is_pending r"
    and "drain_one M t now r st = (n, st')"
  shows "inv (mt_store st') \<and> (\<forall>k. k \<noteq> ob_Key r \<longrightarrow> row (mt_store st') k = row (mt_store st) k)
    \<and> grows st st' \<and> fate row M t r st st'"
proof (cases "past_horizon M t r")
  case True
  with assms(5) have "settle_or_void M now r ''past_retry_horizon'' st = st'" by (simp add: drain_one_def past_horizon_def)
  from settle_or_void_fate [OF assms(1-4) True this] show ?thesis .
next
  case False
  note d = assms(5) [unfolded drain_one_def, folded past_horizon_def]
  show ?thesis
  proof (cases "em_Pub M")
    case None
    with d False assms(2-4) show ?thesis by (auto simp: fate_def)
  next
    case (Some pub)
    obtain e st1 where w: "with_world (\<lambda>w. pub w r) st = (e, st1)" by (metis surj_pair)
    then have st1: "mt_store st1 = mt_store st" "grows st st1" "\<exists>w'. pub (mt_world st) r = (e, w')"
      by (auto simp: with_world_def grows_def split: prod.splits)
    have i: "inv (mt_store st1)" "row (mt_store st1) (ob_Key r) = Some r" using st1(1) assms(2,3) by simp_all
    show ?thesis
    proof (cases e)
      case None
      obtain e2 st2 where m: "with_store (\<lambda>s. os_MarkDelivered S s (ob_Key r)) st1 = (e2, st2)" by (metis surj_pair)
      have "st' = st2" using d False Some w None m assms(1) by (auto split: option.splits)
      with delivered_keeps [OF i assms(4) m] st1 None Some assms(4) show ?thesis unfolding fate_def by (auto intro: grows_trans)
    next
      case (Some e')
      obtain e2 st2 where m: "with_store (\<lambda>s. os_BumpAttempt S s (ob_Key r)) st1 = (e2, st2)" by (metis surj_pair)
      have "st' = st2" using d False \<open>em_Pub M = Some pub\<close> w Some m assms(1) by auto
      with bump_keeps [OF i assms(4) m] st1 show ?thesis unfolding fate_def by (auto intro: grows_trans)
    qed
  qed
qed

lemma drain_all_fate:
  assumes "em_Store M = S" and "inv (mt_store st)" and "distinct (map ob_Key rs)"
    and "\<forall>r \<in> set rs. row (mt_store st) (ob_Key r) = Some r \<and> is_pending r" and "drain_all M t now rs n st = (n', st')"
  shows "inv (mt_store st') \<and> (\<forall>k. k \<notin> ob_Key ` set rs \<longrightarrow> row (mt_store st') k = row (mt_store st) k)
    \<and> grows st st' \<and> (\<forall>r \<in> set rs. fate row M t r st st')"
  using assms(2-5)
proof (induction rs arbitrary: n st)
  case (Cons r rs)
  obtain m st1 where o: "drain_one M t now r st = (m, st1)" by (metis surj_pair)
  have one: "inv (mt_store st1)" "\<forall>k. k \<noteq> ob_Key r \<longrightarrow> row (mt_store st1) k = row (mt_store st) k" "grows st st1" "fate row M t r st st1"
    using drain_one_fate [OF assms(1) Cons.prems(1) _ _ o] Cons.prems(3) by auto
  have d: "distinct (map ob_Key rs)" "ob_Key r \<notin> ob_Key ` set rs" using Cons.prems(2) by auto
  have "\<forall>q \<in> set rs. row (mt_store st1) (ob_Key q) = Some q \<and> is_pending q" using Cons.prems(3) one(2) d(2) by (metis image_eqI list.set_intros(2))
  from Cons.IH [OF one(1) d(1) this, of "n + m"] Cons.prems(4) o
  have rest: "inv (mt_store st')" "\<forall>k. k \<notin> ob_Key ` set rs \<longrightarrow> row (mt_store st') k = row (mt_store st1) k" "grows st1 st'"
    "\<forall>q \<in> set rs. fate row M t q st1 st'" by auto
  have "fate row M t r st st'" using fate_mono [OF one(4) grows_refl rest(3)] rest(2) d(2) by blast
  moreover have "fate row M t q st st'" if "q \<in> set rs" for q using fate_mono [OF _ one(3) grows_refl] rest(4) that by blast
  ultimately show ?case using rest(1-3) one(2,3) d(2) by (auto intro: grows_trans)
qed simp

lemma drain_fate:
  assumes "em_Store M = S" and "inv (mt_store st)" and "row (mt_store st) (ob_Key r) = Some r" and "is_pending r"
    and "drain M t now n st = (res, st')"
  shows "inv (mt_store st') \<and> fate row M t r st st'"
proof (cases "os_ListPending S (mt_store st) (if n \<le> 0 then 100 else n)")
  case (Inl e)
  with assms show ?thesis by (auto simp: drain_def Let_def fate_def)
next
  case (Inr rs)
  note l = list_law [OF assms(2) Inr]
  obtain m st1 where da: "drain_all M t now rs 0 st = (m, st1)" by (metis surj_pair)
  have st': "st' = st1" using assms(1,5) da unfolding drain_def Let_def by (simp add: Inr)
  note f = drain_all_fate [OF assms(1,2) _ _ da]
  show ?thesis
  proof (cases "r \<in> set rs")
    case True
    with f l st' show ?thesis by blast
  next
    case False
    then have "ob_Key r \<notin> ob_Key ` set rs" using l assms(3) by force
    with f l st' assms(3,4) show ?thesis unfolding fate_def by auto
  qed
qed

end

section \<open>Properties\<close>

text \<open>
  C12. A drain pass loses no money. Whatever the publisher and the settler answer, every intent that
  was pending before a pass over the in-memory outbox is afterwards pending still, with the same
  event, reservation and horizon anchor; or gone because the publisher accepted it; or, past the retry
  horizon only, gone with a settlement of its reservation on the record, or kept as voided with an
  entry in the void ledger (removed silently only where the deployment chose to drop).
\<close>

theorem drain_loses_nothing:
  assumes "em_Store M = mem_outbox_store" and "outbox_ok (mt_store st)" and "map_of (mt_store st) (ob_Key r) = Some r"
    and "ob_Status r = Some StatusPending" and "drain M nowEpoch now n st = (res, st')"
  shows "outbox_ok (mt_store st') \<and> fate map_of M nowEpoch r st st'"
  using mo.drain_fate [OF assms(1-3) _ assms(5)] assms(4) by (simp add: is_pending_def)

text \<open>A pass handles a listed intent once, in some state that still has its row.\<close>

context outbox_laws
begin

lemma drain_all_at:
  assumes "em_Store M = S" and "inv (mt_store st)" and "distinct (map ob_Key rs)"
    and "\<forall>r \<in> set rs. row (mt_store st) (ob_Key r) = Some r \<and> is_pending r" and "drain_all M t now rs n st = (n', st')"
    and "r \<in> set rs"
  shows "\<exists>st1 st2 m. drain_one M t now r st1 = (m, st2) \<and> inv (mt_store st1) \<and> row (mt_store st1) (ob_Key r) = Some r
    \<and> row (mt_store st') (ob_Key r) = row (mt_store st2) (ob_Key r)"
  using assms(2-6)
proof (induction rs arbitrary: n st)
  case (Cons q rs)
  obtain m st1 where o: "drain_one M t now q st = (m, st1)" by (metis surj_pair)
  have one: "inv (mt_store st1)" "\<forall>k. k \<noteq> ob_Key q \<longrightarrow> row (mt_store st1) k = row (mt_store st) k"
    using drain_one_fate [OF assms(1) Cons.prems(1) _ _ o] Cons.prems(3) by auto
  have d: "distinct (map ob_Key rs)" "ob_Key q \<notin> ob_Key ` set rs" using Cons.prems(2) by auto
  have rows: "\<forall>p \<in> set rs. row (mt_store st1) (ob_Key p) = Some p \<and> is_pending p"
    using Cons.prems(3) one(2) d(2) by (metis image_eqI list.set_intros(2))
  have rest: "drain_all M t now rs (n + m) st1 = (n', st')" using Cons.prems(4) o by simp
  show ?case
  proof (cases "r \<in> set rs")
    case True
    with Cons.IH [OF one(1) d(1) rows rest] show ?thesis by blast
  next
    case False
    then have "r = q" using Cons.prems(5) by simp
    moreover have "row (mt_store st') (ob_Key q) = row (mt_store st1) (ob_Key q)"
      using drain_all_fate [OF assms(1) one(1) d(1) rows rest] d(2) by blast
    ultimately show ?thesis using o Cons.prems(1,3) by force
  qed
qed simp

lemma retry_keeps:
  assumes "em_Store M = S" and "inv (mt_store st)" and "row (mt_store st) (ob_Key r) = Some r" and "is_pending r" and "past_horizon M t r"
    and "\<forall>st. fst (try_settle M now r st) = Retry" and "drain_one M t now r st = (m, st')"
  shows "\<exists>r'. row (mt_store st') (ob_Key r) = Some r' \<and> is_pending r' \<and> same_claim r r'"
proof -
  obtain st1 where ts: "try_settle M now r st = (Retry, st1)" using assms(6) by (metis prod.collapse)
  let ?st = "st1\<lparr>mt_settleFailures := mt_settleFailures st1 + 1\<rparr>"
  obtain e st2 where b: "with_store (\<lambda>s. os_BumpAttempt S s (ob_Key r)) ?st = (e, st2)" by (metis surj_pair)
  have "st' = st2" using assms(1,5,7) ts b by (simp add: drain_one_def past_horizon_def settle_or_void_def)
  with bump_keeps [OF _ _ assms(4) b] try_settle_cases [OF ts] assms(2,3) show ?thesis by simp
qed

lemma drain_retry_keeps:
  assumes "em_Store M = S" and "inv (mt_store st)" and "row (mt_store st) (ob_Key r) = Some r" and "is_pending r" and "past_horizon M t r"
    and "\<forall>st. fst (try_settle M now r st) = Retry" and "drain M t now n st = (res, st')"
  shows "\<exists>r'. row (mt_store st') (ob_Key r) = Some r' \<and> is_pending r' \<and> same_claim r r'"
proof (cases "os_ListPending S (mt_store st) (if n \<le> 0 then 100 else n)")
  case (Inl e)
  with assms show ?thesis by (auto simp: drain_def Let_def)
next
  case (Inr rs)
  note l = list_law [OF assms(2) Inr]
  obtain m st1 where da: "drain_all M t now rs 0 st = (m, st1)" by (metis surj_pair)
  have st': "st' = st1" using assms(1,7) da unfolding drain_def Let_def by (simp add: Inr)
  show ?thesis
  proof (cases "r \<in> set rs")
    case True
    with drain_all_at [OF assms(1,2) _ _ da] l obtain sa sb m where "drain_one M t now r sa = (m, sb)" "inv (mt_store sa)"
      "row (mt_store sa) (ob_Key r) = Some r" "row (mt_store st1) (ob_Key r) = row (mt_store sb) (ob_Key r)" by blast
    with retry_keeps [OF assms(1) _ _ assms(4,5,6)] st' show ?thesis by metis
  next
    case False
    then have "ob_Key r \<notin> ob_Key ` set rs" using l assms(3) by force
    with drain_all_fate [OF assms(1,2) _ _ da] l st' assms(3,4) show ?thesis by auto
  qed
qed

end

lemma retry_answers:
  assumes "status \<noteq> Some 400" and "status \<noteq> Some 422" and "status = Some 404 \<longrightarrow> \<not> accountNotFound"
  shows "settle_failure (classify_settle_error status accountNotFound) = Retry"
  using assms by (auto simp: settle_failure_def classify_settle_error_def)


definition tiny_codec :: codec where
  "tiny_codec = \<lparr>k_ParseTime = (\<lambda>s. if s = ''t1'' then Some 1 else if s = ''t2'' then Some 2 else None), k_FormatTime = (\<lambda>_. ''t2''),
     k_ParseEvent = (\<lambda>_. Some \<lparr>e_OrgID = ''o1'', e_ResourceID = ''box-1'', e_ReservationID = ''rsv-1'', e_HourlyRate = ''0.10'',
        e_AllocationFee = ''0'', e_StartedAt = ''t1'', e_StoppedAt = ''t2''\<rparr>)\<rparr>"

definition stopped_rec :: orec where
  "stopped_rec = \<lparr>ob_Key = ''k1'', ob_Event = ''e'', ob_EventType = ''resource.stopped'', ob_ResourceType = ''box'',
     ob_ReservationID = ''rsv-1'', ob_Status = Some StatusPending, ob_FirstTS = Fin 1, ob_Attempts = 0, ob_Reason = NoReason\<rparr>"

text \<open>An emitter without publisher whose settler answers 503 and counts its calls.\<close>

definition refused_emitter :: "(mem_outbox, nat) emitter" where
  "refused_emitter = \<lparr>em_Store = mem_outbox_store, em_Pub = None,
     em_Settler = Some (\<lambda>w _. (Inl (classify_settle_error (Some 503) False), Suc w)), em_Codec = tiny_codec,
     em_MaxRetryHorizon = Fin 900, em_PastHorizonDrop = True\<rparr>"

definition pending_state :: "(mem_outbox, nat) emstate" where
  "pending_state = \<lparr>mt_store = [(''k1'', stopped_rec)], mt_world = 0, mt_voidLedger = [], mt_settledLedger = [],
     mt_settleFailures = 0, mt_killed = False\<rparr>"

lemma pending_state_ok: "outbox_ok (mt_store pending_state)" "map_of (mt_store pending_state) (ob_Key stopped_rec) = Some stopped_rec"
  "ob_Status stopped_rec = Some StatusPending"
  by (simp_all add: pending_state_def outbox_ok_def stopped_rec_def)

theorem drain_loses_nothing_witness:
  "fate map_of refused_emitter (Fin 2000) stopped_rec pending_state (snd (drain refused_emitter (Fin 2000) 5 0 pending_state))"
proof -
  obtain res st' where d: "drain refused_emitter (Fin 2000) 5 0 pending_state = (res, st')" by (metis surj_pair)
  have "em_Store refused_emitter = mem_outbox_store" by (simp add: refused_emitter_def)
  from drain_loses_nothing [OF this pending_state_ok d] d show ?thesis by simp
qed


end
