(* ===== verification/HandlerLedger.thy ===== *)
theory HandlerLedger
  imports GoFloat "HOL-Library.AList"
begin

text \<open>
  Package \<open>handlerledger\<close>: delivery deduplication, business deduplication and retries of event
  handlers. The store contract is a record of operations over a state that also holds whatever
  a handler can change; the in-memory store works on every extension of its own record, so that
  the rest of a process can be put in the extension. A row map is an association list with
  distinct keys; \<open>None\<close> is the zero \<open>time.Time\<close>. The handler body, the wait between attempts (timer
  or cancelled context) and SHA-256 are arguments.
\<close>

section \<open>Rows and inputs\<close>

datatype ledger_status = StatusInProgress | StatusSuccess | StatusSkipped | StatusFailed | StatusFailedPermanent

fun status_text :: "ledger_status \<Rightarrow> string" where
  "status_text StatusInProgress = ''in_progress''"
| "status_text StatusSuccess = ''success''"
| "status_text StatusSkipped = ''skipped''"
| "status_text StatusFailed = ''failed''"
| "status_text StatusFailedPermanent = ''failed_permanent''"

record ledger_row =
  lr_HandlerName :: string
  lr_EventID :: string
  lr_EventType :: string
  lr_Status :: ledger_status
  lr_UserID :: string
  lr_OrgID :: string
  lr_Reason :: string
  lr_SideEffectID :: string
  lr_Attempts :: int
  lr_AttemptedAt :: instant
  lr_CompletedAt :: "instant option"
  lr_LeaseExpiresAt :: "instant option"
  lr_Error :: string
  lr_EventPayload :: string

record attempt_result =
  atr_Proceed :: bool
  atr_CachedRow :: "ledger_row option"

record attempt_input =
  rai_HandlerName :: string
  rai_EventID :: string
  rai_EventType :: string
  rai_EventPayload :: string
  rai_UserID :: string
  rai_OrgID :: string
  rai_LeaseSeconds :: int

record outcome_input =
  oi_HandlerName :: string
  oi_EventID :: string
  oi_Status :: ledger_status
  oi_Reason :: string
  oi_SideEffectID :: string
  oi_Error :: string
  oi_Attempts :: int

record mark_done_input =
  md_DedupKey :: string
  md_SourceHandler :: string
  md_SourceEventID :: string
  md_SideEffectID :: string

record query_options =
  qo_Limit :: int
  qo_Since :: "instant option"

type_synonym ledger_key = "string \<times> string"

record 's ledger_store =
  ls_RecordAttempt :: "'s \<Rightarrow> attempt_input \<Rightarrow> (goerr + attempt_result) \<times> 's"
  ls_RecordOutcome :: "'s \<Rightarrow> outcome_input \<Rightarrow> goerr option \<times> 's"
  ls_GetRow :: "'s \<Rightarrow> string \<Rightarrow> string \<Rightarrow> goerr + ledger_row option"
  ls_AlreadyDone :: "'s \<Rightarrow> string \<Rightarrow> goerr + bool"
  ls_MarkDone :: "'s \<Rightarrow> mark_done_input \<Rightarrow> goerr option \<times> 's"
  ls_QueryByUser :: "'s \<Rightarrow> string \<Rightarrow> query_options \<Rightarrow> goerr + ledger_row list"
  ls_QueryByStatus :: "'s \<Rightarrow> ledger_status \<Rightarrow> query_options \<Rightarrow> goerr + ledger_row list"
  ls_DeleteUser :: "'s \<Rightarrow> string \<Rightarrow> (goerr + nat) \<times> 's"
  ls_Backend :: string

definition is_terminal :: "ledger_status \<Rightarrow> bool" where
  "is_terminal s \<longleftrightarrow> s = StatusSuccess \<or> s = StatusSkipped \<or> s = StatusFailedPermanent"

text \<open>Go's 64-bit product of durations wraps around.\<close>

definition wrap64 :: "int \<Rightarrow> int" where
  "wrap64 n = (n + 2 ^ 63) mod 2 ^ 64 - 2 ^ 63"

section \<open>The in-memory store\<close>

record mem_ledger =
  ml_rows :: "(ledger_key \<times> ledger_row) list"
  ml_bizdedup :: "string list"
  ml_now :: instant

definition new_ledger :: "instant \<Rightarrow> 'w \<Rightarrow> 'w mem_ledger_scheme" where
  "new_ledger t w = \<lparr>ml_rows = [], ml_bizdedup = [], ml_now = t, \<dots> = w\<rparr>"

text \<open>An existing row refuses a further attempt when it is terminal or its lease is live.\<close>

definition blocks :: "instant \<Rightarrow> ledger_row \<Rightarrow> bool" where
  "blocks now r \<longleftrightarrow>
     is_terminal (lr_Status r)
     \<or> lr_Status r = StatusInProgress \<and> (case lr_LeaseExpiresAt r of None \<Rightarrow> False | Some e \<Rightarrow> e > now)"

definition attempt_row :: "instant \<Rightarrow> ledger_row option \<Rightarrow> attempt_input \<Rightarrow> ledger_row" where
  "attempt_row now existing inp =
     (let attempts = (case existing of None \<Rightarrow> 1 | Some r \<Rightarrow> lr_Attempts r + 1);
          lease = (if rai_LeaseSeconds inp = 0 then 60 else rai_LeaseSeconds inp)
      in \<lparr>lr_HandlerName = rai_HandlerName inp, lr_EventID = rai_EventID inp, lr_EventType = rai_EventType inp,
          lr_Status = StatusInProgress, lr_UserID = rai_UserID inp, lr_OrgID = rai_OrgID inp, lr_Reason = [],
          lr_SideEffectID = [], lr_Attempts = attempts, lr_AttemptedAt = now, lr_CompletedAt = None,
          lr_LeaseExpiresAt = Some (now + wrap64 (lease * second)), lr_Error = [], lr_EventPayload = rai_EventPayload inp\<rparr>)"

abbreviation attempt_key :: "attempt_input \<Rightarrow> ledger_key" where
  "attempt_key inp \<equiv> (rai_HandlerName inp, rai_EventID inp)"

abbreviation outcome_key :: "outcome_input \<Rightarrow> ledger_key" where
  "outcome_key inp \<equiv> (oi_HandlerName inp, oi_EventID inp)"

definition ml_record_attempt ::
  "'w mem_ledger_scheme \<Rightarrow> attempt_input \<Rightarrow> (goerr + attempt_result) \<times> 'w mem_ledger_scheme" where
  "ml_record_attempt s inp =
     (let k = attempt_key inp; existing = map_of (ml_rows s) k in
      case existing of
        Some r \<Rightarrow>
          if blocks (ml_now s) r then (Inr \<lparr>atr_Proceed = False, atr_CachedRow = Some r\<rparr>, s)
          else (Inr \<lparr>atr_Proceed = True, atr_CachedRow = None\<rparr>,
                s\<lparr>ml_rows := AList.update k (attempt_row (ml_now s) existing inp) (ml_rows s)\<rparr>)
      | None \<Rightarrow> (Inr \<lparr>atr_Proceed = True, atr_CachedRow = None\<rparr>,
                 s\<lparr>ml_rows := AList.update k (attempt_row (ml_now s) existing inp) (ml_rows s)\<rparr>))"

definition outcome_row :: "instant \<Rightarrow> outcome_input \<Rightarrow> ledger_row \<Rightarrow> ledger_row" where
  "outcome_row now inp r =
     r\<lparr>lr_Status := oi_Status inp, lr_Reason := oi_Reason inp, lr_SideEffectID := oi_SideEffectID inp,
       lr_Error := oi_Error inp,
       lr_Attempts := (if oi_Attempts inp > 0 then oi_Attempts inp else lr_Attempts r),
       lr_CompletedAt := Some now, lr_LeaseExpiresAt := None\<rparr>"

definition ml_record_outcome :: "'w mem_ledger_scheme \<Rightarrow> outcome_input \<Rightarrow> goerr option \<times> 'w mem_ledger_scheme" where
  "ml_record_outcome s inp =
     (case map_of (ml_rows s) (outcome_key inp) of
        None \<Rightarrow> (None, s)
      | Some r \<Rightarrow> (None, s\<lparr>ml_rows := AList.update (outcome_key inp) (outcome_row (ml_now s) inp r) (ml_rows s)\<rparr>))"

definition ml_get_row :: "'w mem_ledger_scheme \<Rightarrow> string \<Rightarrow> string \<Rightarrow> goerr + ledger_row option" where
  "ml_get_row s handler eventID = Inr (map_of (ml_rows s) (handler, eventID))"

definition ml_already_done :: "(string \<Rightarrow> string) \<Rightarrow> 'w mem_ledger_scheme \<Rightarrow> string \<Rightarrow> goerr + bool" where
  "ml_already_done sha s dedupKey = Inr (sha dedupKey \<in> set (ml_bizdedup s))"

definition ml_mark_done ::
  "(string \<Rightarrow> string) \<Rightarrow> 'w mem_ledger_scheme \<Rightarrow> mark_done_input \<Rightarrow> goerr option \<times> 'w mem_ledger_scheme" where
  "ml_mark_done sha s inp = (None, s\<lparr>ml_bizdedup := List.insert (sha (md_DedupKey inp)) (ml_bizdedup s)\<rparr>)"

definition in_since :: "query_options \<Rightarrow> ledger_row \<Rightarrow> bool" where
  "in_since opt r \<longleftrightarrow> (case qo_Since opt of None \<Rightarrow> True | Some t \<Rightarrow> \<not> lr_AttemptedAt r < t)"

definition cut :: "query_options \<Rightarrow> ledger_row list \<Rightarrow> ledger_row list" where
  "cut opt out = (if qo_Limit opt > 0 \<and> int (length out) > qo_Limit opt then take (nat (qo_Limit opt)) out else out)"

definition ml_query_by_user :: "'w mem_ledger_scheme \<Rightarrow> string \<Rightarrow> query_options \<Rightarrow> goerr + ledger_row list" where
  "ml_query_by_user s userID opt =
     Inr (cut opt (sort_key (\<lambda>r. - lr_AttemptedAt r)
            (filter (\<lambda>r. lr_UserID r = userID \<and> in_since opt r) (map snd (ml_rows s)))))"

definition ml_query_by_status :: "'w mem_ledger_scheme \<Rightarrow> ledger_status \<Rightarrow> query_options \<Rightarrow> goerr + ledger_row list" where
  "ml_query_by_status s st opt =
     Inr (cut opt (sort_key (\<lambda>r. - lr_AttemptedAt r)
            (filter (\<lambda>r. lr_Status r = st \<and> in_since opt r) (map snd (ml_rows s)))))"

definition ml_delete_user :: "'w mem_ledger_scheme \<Rightarrow> string \<Rightarrow> (goerr + nat) \<times> 'w mem_ledger_scheme" where
  "ml_delete_user s userID =
     (Inr (length (filter (\<lambda>(k, r). lr_UserID r = userID) (ml_rows s))),
      s\<lparr>ml_rows := filter (\<lambda>(k, r). lr_UserID r \<noteq> userID) (ml_rows s)\<rparr>)"

definition mem_ledger_store :: "(string \<Rightarrow> string) \<Rightarrow> 'w mem_ledger_scheme ledger_store" where
  "mem_ledger_store sha =
     \<lparr>ls_RecordAttempt = ml_record_attempt, ls_RecordOutcome = ml_record_outcome, ls_GetRow = ml_get_row,
      ls_AlreadyDone = ml_already_done sha, ls_MarkDone = ml_mark_done sha, ls_QueryByUser = ml_query_by_user,
      ls_QueryByStatus = ml_query_by_status, ls_DeleteUser = ml_delete_user, ls_Backend = ''memory''\<rparr>"

text \<open>\<open>AutoSelectStore\<close>: \<open>None\<close> is a client that was not given, otherwise what its constructor
  returned.\<close>

definition auto_select_store ::
  "(goerr + 's ledger_store) option \<Rightarrow> (goerr + 's ledger_store) option \<Rightarrow> 's ledger_store \<Rightarrow> 's ledger_store" where
  "auto_select_store ddb redis mem =
     (case ddb of
        Some (Inr s) \<Rightarrow> s
      | Some (Inl e) \<Rightarrow> mem
      | None \<Rightarrow> (case redis of Some (Inr s) \<Rightarrow> s | Some (Inl e) \<Rightarrow> mem | None \<Rightarrow> mem))"

section \<open>Handlers\<close>

text \<open>What a handler returns in its error slot; \<open>Wrapped\<close> is an error built with \<open>%w\<close>, with the
  whole message.\<close>

datatype herr = SkipError string | SuccessError string | Plain string | Wrapped string herr

fun err_text :: "herr \<Rightarrow> string" where
  "err_text (SkipError r) = ''handler skipped: '' @ r"
| "err_text (SuccessError i) = ''handler succeeded: '' @ i"
| "err_text (Plain m) = m"
| "err_text (Wrapped m _) = m"

fun as_skip :: "herr \<Rightarrow> string option" where
  "as_skip (SkipError r) = Some r"
| "as_skip (Wrapped _ e) = as_skip e"
| "as_skip _ = None"

fun as_success :: "herr \<Rightarrow> string option" where
  "as_success (SuccessError i) = Some i"
| "as_success (Wrapped _ e) = as_success e"
| "as_success _ = None"

record hevent =
  he_EventID :: string
  he_EventType :: string
  he_UserID :: string
  he_OrgID :: string
  he_Raw :: string

datatype backoff_kind = BackoffExponential | BackoffLinear | BackoffConstant

record retry_config =
  rt_Attempts :: int
  rt_Backoff :: "backoff_kind"
  rt_Initial :: duration
  rt_Max :: duration

definition default_retry :: retry_config where
  "default_retry = \<lparr>rt_Attempts = 3, rt_Backoff = BackoffExponential, rt_Initial = 1 * second, rt_Max = 30 * second\<rparr>"

definition no_retry :: retry_config where
  "no_retry = \<lparr>rt_Attempts = 1, rt_Backoff = BackoffExponential, rt_Initial = 0, rt_Max = 0\<rparr>"

text \<open>\<open>Key\<close> answers \<open>None\<close> when the function panics.\<close>

record idempotent_config =
  ic_Handler :: string
  ic_Key :: "(hevent \<Rightarrow> string option) option"
  ic_Retry :: "retry_config option"
  ic_LeaseSeconds :: int

record hcontext =
  hc_HandlerName :: string
  hc_EventID :: string
  hc_EventType :: string
  hc_EventPayload :: string
  hc_DedupKey :: string

type_synonym 's inner_handler = "hevent \<Rightarrow> hcontext \<Rightarrow> 's \<Rightarrow> herr option \<times> 's"

record 's idempotent_handler =
  ih_Config :: idempotent_config
  ih_Inner :: "'s inner_handler"

definition idempotent :: "idempotent_config \<Rightarrow> 's inner_handler \<Rightarrow> 's idempotent_handler" where
  "idempotent cfg inner =
     (let cfg = (if ic_LeaseSeconds cfg = 0 then cfg\<lparr>ic_LeaseSeconds := 60\<rparr> else cfg);
          cfg = (if ic_Retry cfg = None then cfg\<lparr>ic_Retry := Some default_retry\<rparr> else cfg)
      in \<lparr>ih_Config = cfg, ih_Inner = inner\<rparr>)"

definition ctx_already_done :: "'s ledger_store \<Rightarrow> hcontext \<Rightarrow> 's \<Rightarrow> goerr + bool" where
  "ctx_already_done L c s = (if hc_DedupKey c = [] then Inr False else ls_AlreadyDone L s (hc_DedupKey c))"

definition ctx_mark_done :: "'s ledger_store \<Rightarrow> hcontext \<Rightarrow> string \<Rightarrow> 's \<Rightarrow> goerr option \<times> 's" where
  "ctx_mark_done L c sideEffectID s =
     (if hc_DedupKey c = [] then (None, s)
      else ls_MarkDone L s \<lparr>md_DedupKey = hc_DedupKey c, md_SourceHandler = hc_HandlerName c,
             md_SourceEventID = hc_EventID c, md_SideEffectID = sideEffectID\<rparr>)"

section \<open>Retries\<close>

text \<open>
  \<open>backoffDelay\<close>, which also writes its defaults back into the policy; the default branch covers
  every other strategy name. A conversion of a float outside the 64-bit range follows
  \<open>to_go_int\<close>.
\<close>

definition backoff_delay :: "retry_config \<Rightarrow> int \<Rightarrow> duration \<times> retry_config" where
  "backoff_delay cfg attempt =
     (let cfg = (if rt_Initial cfg = 0 then cfg\<lparr>rt_Initial := 1 * second\<rparr> else cfg);
          cfg = (if rt_Max cfg = 0 then cfg\<lparr>rt_Max := 30 * second\<rparr> else cfg);
          d = (case rt_Backoff cfg of
                 BackoffLinear \<Rightarrow> wrap64 (rt_Initial cfg * attempt)
               | BackoffConstant \<Rightarrow> rt_Initial cfg
               | BackoffExponential \<Rightarrow>
                   to_go_int (fmul (of_go_int (rt_Initial cfg)) (fround (2 powi (attempt - 1)))))
      in (if d > rt_Max cfg then rt_Max cfg else d, cfg))"

datatype dispatch_err = StoreErr goerr | HandlerErr herr

definition outcome :: "string \<Rightarrow> string \<Rightarrow> ledger_status \<Rightarrow> string \<Rightarrow> string \<Rightarrow> string \<Rightarrow> int \<Rightarrow> outcome_input" where
  "outcome handler eventID st reason sideEffect err attempts =
     \<lparr>oi_HandlerName = handler, oi_EventID = eventID, oi_Status = st, oi_Reason = reason,
      oi_SideEffectID = sideEffect, oi_Error = err, oi_Attempts = attempts\<rparr>"

definition finish :: "'s ledger_store \<Rightarrow> outcome_input \<Rightarrow> 's \<Rightarrow> dispatch_err option \<times> 's" where
  "finish L inp s = (case ls_RecordOutcome L s inp of (e, s) \<Rightarrow> (map_option StoreErr e, s))"

text \<open>The give-up path after the loop: the outcome's own error is dropped.\<close>

definition give_up :: "'s ledger_store \<Rightarrow> string \<Rightarrow> string \<Rightarrow> int \<Rightarrow> herr \<Rightarrow> 's \<Rightarrow> dispatch_err option \<times> 's" where
  "give_up L handler eventID maxAttempts lastErr s =
     (Some (HandlerErr lastErr),
      snd (ls_RecordOutcome L s (outcome handler eventID StatusFailedPermanent [] [] (err_text lastErr) maxAttempts)))"

text \<open>The loop, from \<open>attempt\<close> on; \<open>wait\<close> answers the context's error when it ended first.\<close>

function attempts_loop ::
  "(duration \<Rightarrow> 's \<Rightarrow> herr option \<times> 's) \<Rightarrow> 's ledger_store \<Rightarrow> 's idempotent_handler \<Rightarrow> hevent \<Rightarrow> hcontext
   \<Rightarrow> retry_config \<Rightarrow> int \<Rightarrow> int \<Rightarrow> 's \<Rightarrow> dispatch_err option \<times> 's" where
  "attempts_loop wait L h ev hctx cfg maxAttempts attempt s =
     (let handler = ic_Handler (ih_Config h); eventID = hc_EventID hctx in
      case ih_Inner h ev hctx s of
        (None, s) \<Rightarrow> finish L (outcome handler eventID StatusSuccess [] [] [] attempt) s
      | (Some err, s) \<Rightarrow>
         (case as_skip err of
            Some reason \<Rightarrow> finish L (outcome handler eventID StatusSkipped reason [] [] attempt) s
          | None \<Rightarrow>
         (case as_success err of
            Some i \<Rightarrow> finish L (outcome handler eventID StatusSuccess [] i [] attempt) s
          | None \<Rightarrow>
              if attempt \<ge> maxAttempts then give_up L handler eventID maxAttempts err s
              else (case backoff_delay cfg attempt of
                (d, cfg) \<Rightarrow>
                  (case wait d s of
                     (Some ce, s) \<Rightarrow>
                       give_up L handler eventID maxAttempts
                         (Wrapped (''retry cancelled: '' @ err_text ce @ '' (last error: '' @ err_text err @ '')'') ce) s
                   | (None, s) \<Rightarrow> attempts_loop wait L h ev hctx cfg maxAttempts (attempt + 1) s)))))"
  by pat_completeness auto
termination
  by (relation "measure (\<lambda>(wait, L, h, ev, hctx, cfg, maxAttempts, attempt, s). nat (maxAttempts - attempt))") auto

declare attempts_loop.simps [simp del]

definition run_with_retry ::
  "(duration \<Rightarrow> 's \<Rightarrow> herr option \<times> 's) \<Rightarrow> 's idempotent_handler \<Rightarrow> hevent \<Rightarrow> hcontext \<Rightarrow> 's ledger_store \<Rightarrow> 's
   \<Rightarrow> dispatch_err option \<times> 's" where
  "run_with_retry wait h ev hctx L s =
     (let cfg = (case ic_Retry (ih_Config h) of None \<Rightarrow> no_retry | Some c \<Rightarrow> c);
          maxAttempts = (if rt_Attempts cfg < 1 then 1 else rt_Attempts cfg)
      in attempts_loop wait L h ev hctx cfg maxAttempts 1 s)"

text \<open>\<open>Dispatch\<close> on a given store. A nil store is replaced by a new in-memory one, that is
  \<open>dispatch\<close> on \<open>mem_ledger_store\<close> from \<open>new_ledger\<close>.\<close>

definition delivery_input :: "idempotent_config \<Rightarrow> hevent \<Rightarrow> attempt_input" where
  "delivery_input cfg ev =
     \<lparr>rai_HandlerName = ic_Handler cfg, rai_EventID = he_EventID ev, rai_EventType = he_EventType ev,
      rai_EventPayload = he_Raw ev, rai_UserID = he_UserID ev, rai_OrgID = he_OrgID ev,
      rai_LeaseSeconds = ic_LeaseSeconds cfg\<rparr>"

definition delivery_context :: "idempotent_config \<Rightarrow> hevent \<Rightarrow> hcontext" where
  "delivery_context cfg ev =
     \<lparr>hc_HandlerName = ic_Handler cfg, hc_EventID = he_EventID ev, hc_EventType = he_EventType ev,
      hc_EventPayload = he_Raw ev,
      hc_DedupKey = (case ic_Key cfg of None \<Rightarrow> [] | Some f \<Rightarrow> (case f ev of None \<Rightarrow> [] | Some k \<Rightarrow> k))\<rparr>"

definition dispatch ::
  "(duration \<Rightarrow> 's \<Rightarrow> herr option \<times> 's) \<Rightarrow> 's idempotent_handler \<Rightarrow> hevent \<Rightarrow> 's ledger_store \<Rightarrow> 's
   \<Rightarrow> dispatch_err option \<times> 's" where
  "dispatch wait h ev L s =
     (case ls_RecordAttempt L s (delivery_input (ih_Config h) ev) of
        (Inl e, s) \<Rightarrow> (Some (StoreErr e), s)
      | (Inr res, s) \<Rightarrow>
          if \<not> atr_Proceed res then (None, s)
          else run_with_retry wait h ev (delivery_context (ih_Config h) ev) L s)"

abbreviation delivery_key :: "'s idempotent_handler \<Rightarrow> hevent \<Rightarrow> ledger_key" where
  "delivery_key h ev \<equiv> (ic_Handler (ih_Config h), he_EventID ev)"

lemma delivery_simps [simp]:
  "rai_HandlerName (delivery_input cfg ev) = ic_Handler cfg" "rai_EventID (delivery_input cfg ev) = he_EventID ev"
  "hc_EventID (delivery_context cfg ev) = he_EventID ev" "hc_HandlerName (delivery_context cfg ev) = ic_Handler cfg"
  by (simp_all add: delivery_input_def delivery_context_def)

section \<open>The ledger contract\<close>

definition blocked :: "instant \<Rightarrow> ledger_row option \<Rightarrow> bool" where
  "blocked now r \<longleftrightarrow> (case r of None \<Rightarrow> False | Some r \<Rightarrow> blocks now r)"

text \<open>
  What the dispatcher relies on of a ledger: the rows it holds as a map, the clock it reads, and
  how a recorded attempt and a recorded outcome move them.
\<close>

locale handler_ledger =
  fixes L :: "'s ledger_store" and row :: "'s \<Rightarrow> ledger_key \<rightharpoonup> ledger_row" and now :: "'s \<Rightarrow> instant"
  assumes attempt_refused: "ls_RecordAttempt L s inp = (Inr res, s') \<Longrightarrow> blocked (now s) (row s (attempt_key inp)) \<Longrightarrow>
      \<not> atr_Proceed res \<and> row s' = row s"
    and attempt_opens: "ls_RecordAttempt L s inp = (Inr res, s') \<Longrightarrow> \<not> blocked (now s) (row s (attempt_key inp)) \<Longrightarrow>
      atr_Proceed res \<and> row s' = (row s)(attempt_key inp \<mapsto> attempt_row (now s) (row s (attempt_key inp)) inp)"
    and outcome_law: "ls_RecordOutcome L s out = (None, s') \<Longrightarrow>
      row s' = (case row s (outcome_key out) of
                  None \<Rightarrow> row s
                | Some r \<Rightarrow> (row s)(outcome_key out \<mapsto> outcome_row (now s) out r))"
begin

definition terminal_at :: "ledger_key \<Rightarrow> 's \<Rightarrow> bool" where
  "terminal_at k s \<longleftrightarrow> (\<exists>r. row s k = Some r \<and> is_terminal (lr_Status r))"

text \<open>A handler and a wait that leave the dispatcher's own row in place, and outcomes that the
  store accepts.\<close>

definition keeps_row :: "ledger_key \<Rightarrow> (duration \<Rightarrow> 's \<Rightarrow> herr option \<times> 's) \<Rightarrow> 's idempotent_handler \<Rightarrow> bool" where
  "keeps_row k wait h \<longleftrightarrow>
     (\<forall>ev c s. row s k \<noteq> None \<longrightarrow> row (snd (ih_Inner h ev c s)) k \<noteq> None)
     \<and> (\<forall>d s. row s k \<noteq> None \<longrightarrow> row (snd (wait d s)) k \<noteq> None)
     \<and> (\<forall>s inp. fst (ls_RecordOutcome L s inp) = None)"

lemma outcome_terminal:
  assumes "row s (outcome_key inp) \<noteq> None" and "fst (ls_RecordOutcome L s inp) = None" and "is_terminal (oi_Status inp)"
  shows "terminal_at (outcome_key inp) (snd (ls_RecordOutcome L s inp))"
proof -
  obtain s' where "ls_RecordOutcome L s inp = (None, s')" using assms(2) by (metis prod.collapse)
  with outcome_law [OF this] assms show ?thesis by (auto simp: terminal_at_def outcome_row_def)
qed

lemma finish_terminal:
  assumes "keeps_row (outcome_key inp) wait h" and "row s (outcome_key inp) \<noteq> None" and "is_terminal (oi_Status inp)"
  shows "terminal_at (outcome_key inp) (snd (finish L inp s))"
  using outcome_terminal [OF assms(2) _ assms(3)] assms(1)
  by (auto simp: finish_def keeps_row_def split: prod.splits)

lemma give_up_terminal:
  assumes "keeps_row (handler, ev) wait h" and "row s (handler, ev) \<noteq> None"
  shows "terminal_at (handler, ev) (snd (give_up L handler ev m e s))"
  using outcome_terminal [of s "outcome handler ev StatusFailedPermanent [] [] (err_text e) m"] assms
  by (simp add: give_up_def outcome_def keeps_row_def is_terminal_def)

lemma loop_terminal:
  assumes "keeps_row (ic_Handler (ih_Config h), hc_EventID hctx) wait h"
    and "row s (ic_Handler (ih_Config h), hc_EventID hctx) \<noteq> None"
  shows "terminal_at (ic_Handler (ih_Config h), hc_EventID hctx) (snd (attempts_loop wait L h ev hctx cfg m n s))"
  using assms(2)
proof (induction "nat (m - n)" arbitrary: n s cfg rule: less_induct)
  case less
  let ?k = "(ic_Handler (ih_Config h), hc_EventID hctx)"
  obtain e s1 where i: "ih_Inner h ev hctx s = (e, s1)" by fastforce
  obtain d cfg1 where b: "backoff_delay cfg n = (d, cfg1)" by fastforce
  obtain ce s2 where w: "wait d s1 = (ce, s2)" by fastforce
  have s1: "row s1 ?k \<noteq> None" using assms(1) less.prems i unfolding keeps_row_def by (metis snd_conv)
  have s2: "row s2 ?k \<noteq> None" using assms(1) s1 w unfolding keeps_row_def by (metis snd_conv)
  have fin: "terminal_at ?k (snd (finish L (outcome (fst ?k) (snd ?k) st r i x n) s1))"
    if "is_terminal st" for st r i x
    using finish_terminal [of "outcome (fst ?k) (snd ?k) st r i x n" wait h s1] assms(1) s1 that
    by (simp add: outcome_def)
  have trm: "is_terminal StatusSuccess" "is_terminal StatusSkipped" by (simp_all add: is_terminal_def)
  note up = give_up_terminal [OF assms(1) s1] give_up_terminal [OF assms(1) s2]
  show ?case
  proof (cases "n < m \<and> ce = None")
    case True
    with less.hyps [of "n + 1" s2 cfg1] s2 fin trm show ?thesis
      by (subst attempts_loop.simps) (auto simp: i b w Let_def split: option.splits)
  next
    case False
    with up fin trm show ?thesis
      by (subst attempts_loop.simps) (auto simp: i b w Let_def split: option.splits)
  qed
qed

lemma dispatch_terminal:
  assumes "keeps_row (delivery_key h ev) wait h"
    and "\<not> blocked (now s) (row s (delivery_key h ev))"
    and "fst (ls_RecordAttempt L s (delivery_input (ih_Config h) ev)) = Inr res"
  shows "terminal_at (delivery_key h ev) (snd (dispatch wait h ev L s))"
proof -
  obtain s1 where a: "ls_RecordAttempt L s (delivery_input (ih_Config h) ev) = (Inr res, s1)"
    using assms(3) by (metis prod.collapse)
  from attempt_opens [OF this] assms(2) have "atr_Proceed res" and "row s1 (delivery_key h ev) \<noteq> None" by auto
  with a loop_terminal [of h "delivery_context (ih_Config h) ev" wait s1] assms(1) show ?thesis
    by (simp add: dispatch_def run_with_retry_def Let_def)
qed

lemma dispatch_refused:
  assumes "blocked (now s) (row s (delivery_key h ev))"
    and "ls_RecordAttempt L s (delivery_input (ih_Config h) ev) = (Inr res, s1)"
  shows "dispatch wait h ev L s = (None, s1) \<and> row s1 = row s"
  using attempt_refused [OF assms(2)] assms by (simp add: dispatch_def)

end

interpretation ml: handler_ledger "mem_ledger_store sha" "\<lambda>s. map_of (ml_rows s)" ml_now
  by unfold_locales
     (auto simp: mem_ledger_store_def ml_record_attempt_def ml_record_outcome_def blocked_def Let_def update_conv'
       split: option.splits if_splits)

section \<open>Deliveries\<close>

lemma ml_attempt_shape:
  "\<exists>res rs. ls_RecordAttempt (mem_ledger_store sha) s inp = (Inr res, s\<lparr>ml_rows := rs\<rparr>)"
  unfolding mem_ledger_store_def ml_record_attempt_def
  by (auto simp: Let_def split: option.splits) (rule exI [of _ "ml_rows s"], simp)

text \<open>
  C25. A finished event is never handled again. A delivery that the in-memory ledger lets through
  ends with a terminal row for its handler and event, whatever the handler body returned, however
  many attempts it took and also when the context was cancelled; from then on every delivery of that
  event to a handler of that name, at any time, returns without an error and without changing
  anything, so the body does not run. The handler and the wait are only assumed to leave the
  ledger's rows alone (a handler's context offers the business marks, not the rows).
\<close>

theorem finished_event_never_reruns:
  assumes "\<forall>ev c s. ml_rows (snd (ih_Inner h ev c s)) = ml_rows s" and "\<forall>d s. ml_rows (snd (wait d s)) = ml_rows s"
    and "\<not> blocked (ml_now s) (map_of (ml_rows s) (delivery_key h ev))"
  shows "\<exists>r. map_of (ml_rows (snd (dispatch wait h ev (mem_ledger_store sha) s))) (delivery_key h ev) = Some r
      \<and> is_terminal (lr_Status r)
      \<and> (\<forall>wait' h' ev' s'. delivery_key h' ev' = delivery_key h ev \<longrightarrow> map_of (ml_rows s') (delivery_key h ev) = Some r
           \<longrightarrow> dispatch wait' h' ev' (mem_ledger_store sha) s' = (None, s'))"
proof -
  have k: "ml.keeps_row sha (delivery_key h ev) wait h"
    unfolding ml.keeps_row_def using assms(1,2)
    by (auto simp: mem_ledger_store_def ml_record_outcome_def split: option.splits)
  from ml_attempt_shape have "\<exists>res. fst (ls_RecordAttempt (mem_ledger_store sha) s (delivery_input (ih_Config h) ev)) = Inr res"
    by (metis fst_conv)
  with ml.dispatch_terminal [OF k assms(3)] obtain r
    where r: "map_of (ml_rows (snd (dispatch wait h ev (mem_ledger_store sha) s))) (delivery_key h ev) = Some r"
      "is_terminal (lr_Status r)"
    by (auto simp: ml.terminal_at_def)
  then show ?thesis
    by (intro exI [of _ r]) (simp add: dispatch_def mem_ledger_store_def ml_record_attempt_def blocks_def)
qed

text \<open>A handler that fails twice and then answers with a wrapped \<open>Success\<close>; its world counts its runs.\<close>

record run_count = mem_ledger +
  rn_runs :: nat

definition flaky :: "run_count inner_handler" where
  "flaky ev c s = (if rn_runs s < 2 then Some (Plain ''boom'') else Some (Wrapped ''done: credit-1'' (SuccessError ''credit-1'')),
                   s\<lparr>rn_runs := rn_runs s + 1\<rparr>)"

definition flaky_handler :: "run_count idempotent_handler" where
  "flaky_handler = idempotent \<lparr>ic_Handler = ''credit'', ic_Key = None, ic_Retry = None, ic_LeaseSeconds = 0\<rparr> flaky"

definition pause :: "duration \<Rightarrow> run_count \<Rightarrow> herr option \<times> run_count" where
  "pause d s = (None, s\<lparr>ml_now := ml_now s + d\<rparr>)"

definition signup_event :: hevent where
  "signup_event = \<lparr>he_EventID = ''evt-1'', he_EventType = ''auth.user.registered'', he_UserID = ''u1'', he_OrgID = ''o1'', he_Raw = []\<rparr>"

definition quiet :: run_count where
  "quiet = \<lparr>ml_rows = [], ml_bizdedup = [], ml_now = 0, rn_runs = 0\<rparr>"

lemma flaky_rows: "ml_rows (snd (ih_Inner flaky_handler ev c s)) = ml_rows s"
  by (simp add: flaky_handler_def idempotent_def flaky_def Let_def)

lemma pause_rows: "ml_rows (snd (pause d s)) = ml_rows s"
  by (simp add: pause_def)

theorem finished_event_never_reruns_witness:
  "\<exists>r. map_of (ml_rows (snd (dispatch pause flaky_handler signup_event (mem_ledger_store id) quiet))) (''credit'', ''evt-1'') = Some r
      \<and> is_terminal (lr_Status r)"
  using finished_event_never_reruns [of flaky_handler pause quiet signup_event id] flaky_rows pause_rows
  by (auto simp: quiet_def blocked_def flaky_handler_def idempotent_def signup_event_def Let_def)

text \<open>
  The loop runs the body at least once and at most as often as attempts are left, seen through any
  measure of the state that the body raises by one and nothing else moves.
\<close>

lemma loop_runs:
  assumes inner: "\<And>ev c s. runs (snd (ih_Inner h ev c s)) = Suc (runs s)" and wait: "\<And>d s. runs (snd (wait d s)) = runs s"
    and out: "\<And>s inp. runs (snd (ls_RecordOutcome L s inp)) = runs s"
  shows "runs s < runs (snd (attempts_loop wait L h ev hctx cfg m n s))
    \<and> runs (snd (attempts_loop wait L h ev hctx cfg m n s)) \<le> Suc (runs s + nat (m - n))"
proof (induction "nat (m - n)" arbitrary: n s cfg rule: less_induct)
  case less
  obtain e s1 where i: "ih_Inner h ev hctx s = (e, s1)" by fastforce
  obtain d cfg1 where b: "backoff_delay cfg n = (d, cfg1)" by fastforce
  obtain ce s2 where w: "wait d s1 = (ce, s2)" by fastforce
  have s1: "runs s1 = Suc (runs s)" using inner [of ev hctx s] i by simp
  have s2: "runs s2 = Suc (runs s)" using wait [of d s1] w s1 by simp
  have fin: "runs (snd (finish L oi t)) = runs t" for oi t
    using out [of t oi] by (auto simp: finish_def split: prod.splits)
  have up: "runs (snd (give_up L hn k m le t)) = runs t" for hn k le t by (simp add: give_up_def out)
  show ?case
  proof (cases "n < m \<and> ce = None")
    case True
    with less.hyps [of "n + 1" s2 cfg1] s1 s2 show ?thesis
      by (subst (1 2) attempts_loop.simps) (auto simp: i b w Let_def fin up split: option.splits)
  next
    case False
    with s1 s2 show ?thesis
      by (subst (1 2) attempts_loop.simps) (auto simp: i b w Let_def fin up split: option.splits)
  qed
qed

text \<open>
  Retrying ends. One delivery runs the handler body at most as often as its policy allows
  (once when the policy says less than one), and at least once when the ledger lets it through; a
  refused delivery does not run it at all. The count is any measure of the process that the body
  raises by one and that waiting and the ledger's own writes leave alone.
\<close>

theorem dispatch_runs_bounded:
  assumes "\<And>ev c s. runs (snd (ih_Inner h ev c s)) = Suc (runs s)" and "\<And>d s. runs (snd (wait d s)) = runs s"
    and "\<And>s rs. runs (s\<lparr>ml_rows := rs\<rparr>) = runs s"
    and "ic_Retry (ih_Config h) = Some cfg"
  shows "runs (snd (dispatch wait h ev (mem_ledger_store sha) s)) \<le> runs s + nat (max 1 (rt_Attempts cfg))
    \<and> (blocked (ml_now s) (map_of (ml_rows s) (delivery_key h ev))
         \<longleftrightarrow> runs (snd (dispatch wait h ev (mem_ledger_store sha) s)) = runs s)"
proof -
  let ?L = "mem_ledger_store sha"
  have out: "runs (snd (ls_RecordOutcome ?L s inp)) = runs s" for s inp
    by (auto simp: mem_ledger_store_def ml_record_outcome_def assms(3) split: option.splits)
  obtain res s1 where a: "ls_RecordAttempt ?L s (delivery_input (ih_Config h) ev) = (Inr res, s1)" "runs s1 = runs s"
    using ml_attempt_shape [of sha s "delivery_input (ih_Config h) ev"] assms(3) by metis
  let ?m = "max 1 (rt_Attempts cfg)"
  have m: "(if rt_Attempts cfg < 1 then 1 else rt_Attempts cfg) = ?m" by simp
  note bounds = loop_runs [where runs = runs and L = ?L and wait = wait and h = h, OF assms(1,2) out, of s1 ev "delivery_context (ih_Config h) ev" cfg ?m 1]
  show ?thesis
  proof (cases "blocked (ml_now s) (map_of (ml_rows s) (delivery_key h ev))")
    case True
    with ml.dispatch_refused [OF True a(1)] a(2) show ?thesis by simp
  next
    case False
    with ml.attempt_opens [OF a(1)] have "atr_Proceed res" by simp
    with a bounds False show ?thesis by (simp add: dispatch_def run_with_retry_def assms(4) m Let_def) linarith
  qed
qed

theorem dispatch_runs_bounded_witness:
  "rn_runs (snd (dispatch pause flaky_handler signup_event (mem_ledger_store id) quiet)) \<in> {1, 2, 3}"
proof -
  have c: "ic_Retry (ih_Config flaky_handler) = Some default_retry" by (simp add: flaky_handler_def idempotent_def)
  have i: "rn_runs (snd (ih_Inner flaky_handler ev c s)) = Suc (rn_runs s)" for ev c s
    by (simp add: flaky_handler_def idempotent_def flaky_def Let_def)
  have p: "rn_runs (snd (pause d s)) = rn_runs s" for d s by (simp add: pause_def)
  have u: "rn_runs (s\<lparr>ml_rows := rs\<rparr>) = rn_runs s" for s rs by simp
  from dispatch_runs_bounded [where runs = rn_runs and h = flaky_handler and wait = pause, OF i p u c, where ev = signup_event and sha = id and s = quiet]
  have "rn_runs (snd (dispatch pause flaky_handler signup_event (mem_ledger_store id) quiet)) \<le> 3
    \<and> rn_runs (snd (dispatch pause flaky_handler signup_event (mem_ledger_store id) quiet)) \<noteq> 0"
    by (simp add: default_retry_def quiet_def blocked_def)
  then show ?thesis by auto
qed

section \<open>Concurrent deliveries\<close>

text \<open>
  Several workers share one ledger. A worker whose attempt proceeds is running under the lease the
  row was given; it later records one of the outcomes the dispatcher records, possibly long after its
  lease ended. Between their steps time passes, marks are set and rows are read.
\<close>

record running =
  ru_Worker :: nat
  ru_Key :: ledger_key
  ru_Lease :: instant

inductive deliveries :: "(string \<Rightarrow> string) \<Rightarrow> mem_ledger \<times> running list \<Rightarrow> mem_ledger \<times> running list \<Rightarrow> bool"
  for sha :: "string \<Rightarrow> string" where
  refused: "ml_record_attempt s inp = (Inr res, s') \<Longrightarrow> \<not> atr_Proceed res \<Longrightarrow> deliveries sha (s, ws) (s', ws)"
| started: "ml_record_attempt s inp = (Inr res, s') \<Longrightarrow> atr_Proceed res \<Longrightarrow>
    map_of (ml_rows s') (attempt_key inp) = Some r \<Longrightarrow> lr_LeaseExpiresAt r = Some e \<Longrightarrow>
    deliveries sha (s, ws) (s', \<lparr>ru_Worker = w, ru_Key = attempt_key inp, ru_Lease = e\<rparr> # ws)"
| ended: "x \<in> set ws \<Longrightarrow> outcome_key inp = ru_Key x \<Longrightarrow> is_terminal (oi_Status inp) \<Longrightarrow>
    ml_record_outcome s inp = (None, s') \<Longrightarrow> deliveries sha (s, ws) (s', remove1 x ws)"
| marked: "ml_mark_done sha s md = (None, s') \<Longrightarrow> deliveries sha (s, ws) (s', ws)"
| passed: "ml_now s \<le> t \<Longrightarrow> deliveries sha (s, ws) (s\<lparr>ml_now := t\<rparr>, ws)"

inductive_cases deliveriesE: "deliveries sha c c'"

text \<open>A worker under a live lease holds the row, unless a slower worker already finished the event.\<close>

definition held :: "mem_ledger \<Rightarrow> running \<Rightarrow> bool" where
  "held s x \<longleftrightarrow> (\<exists>r. map_of (ml_rows s) (ru_Key x) = Some r
     \<and> (is_terminal (lr_Status r) \<or> lr_Status r = StatusInProgress \<and> lr_LeaseExpiresAt r = Some (ru_Lease x)))"

definition live :: "mem_ledger \<Rightarrow> running \<Rightarrow> bool" where
  "live s x \<longleftrightarrow> ml_now s < ru_Lease x"

definition leases_ok :: "mem_ledger \<times> running list \<Rightarrow> bool" where
  "leases_ok c \<longleftrightarrow> (\<forall>x \<in> set (snd c). live (fst c) x \<longrightarrow> held (fst c) x)
     \<and> (\<forall>k. length (filter (\<lambda>x. ru_Key x = k \<and> live (fst c) x) (snd c)) \<le> 1)"

lemma held_blocks: "held s x \<Longrightarrow> live s x \<Longrightarrow> blocked (ml_now s) (map_of (ml_rows s) (ru_Key x))"
  by (auto simp: held_def live_def blocked_def blocks_def)

lemma filter_length_mono: "(\<And>x. x \<in> set xs \<Longrightarrow> P x \<Longrightarrow> Q x) \<Longrightarrow> length (filter P xs) \<le> length (filter Q xs)"
  by (induction xs) (auto intro: le_SucI)

lemma filter_length_remove1: "length (filter P (remove1 x xs)) \<le> length (filter P xs)"
  by (induction xs) auto

lemma started_ok:
  assumes ok: "leases_ok (s, ws)" and att: "ml_record_attempt s inp = (Inr res, s')" "atr_Proceed res"
    and row: "map_of (ml_rows s') (attempt_key inp) = Some r" "lr_LeaseExpiresAt r = Some e"
  shows "leases_ok (s', \<lparr>ru_Worker = w, ru_Key = attempt_key inp, ru_Lease = e\<rparr> # ws)"
proof -
  have nb: "\<not> blocked (ml_now s) (map_of (ml_rows s) (attempt_key inp))"
    using ml.attempt_refused [of id s inp res s'] att by (auto simp: mem_ledger_store_def)
  then have rows: "map_of (ml_rows s') = (map_of (ml_rows s))(attempt_key inp \<mapsto> attempt_row (ml_now s) (map_of (ml_rows s) (attempt_key inp)) inp)"
    using ml.attempt_opens [of id s inp res s'] att by (auto simp: mem_ledger_store_def)
  have now: "ml_now s' = ml_now s" using att(1)
    by (auto simp: ml_record_attempt_def Let_def split: option.splits if_splits)
  have none: "ru_Key x \<noteq> attempt_key inp" if "x \<in> set ws" "live s x" for x
    using ok that held_blocks [of s x] nb by (auto simp: leases_ok_def)
  have "lr_Status r = StatusInProgress" using row(1) rows by (auto simp: attempt_row_def Let_def)
  with row none rows ok now have "\<forall>x \<in> set (\<lparr>ru_Worker = w, ru_Key = attempt_key inp, ru_Lease = e\<rparr> # ws). live s' x \<longrightarrow> held s' x"
    by (auto simp: leases_ok_def held_def live_def)
  moreover have "filter (\<lambda>x. ru_Key x = attempt_key inp \<and> live s' x) ws = []"
    using none now by (auto simp: filter_empty_conv live_def)
  ultimately show ?thesis using ok now by (auto simp: leases_ok_def live_def)
qed

lemma deliveries_ok: "deliveries sha c c' \<Longrightarrow> leases_ok c \<Longrightarrow> leases_ok c'"
proof (induction rule: deliveries.induct)
  case (started s inp res s' r e ws w)
  then show ?case by (intro started_ok)
next
  case (refused s inp res s' ws)
  then have "s' = s" by (auto simp: ml_record_attempt_def Let_def split: option.splits if_splits)
  with refused show ?case by simp
next
  case (ended x ws inp s s')
  have h: "held s' y" if "held s y" for y
    using that ended.hyps by (auto simp: held_def ml_record_outcome_def outcome_row_def update_conv' split: option.splits)
  have now: "ml_now s' = ml_now s" using ended.hyps(4) by (auto simp: ml_record_outcome_def split: option.splits)
  have le: "length (filter P (remove1 x ws)) \<le> 1" if "length (filter P ws) \<le> 1" for P
    using filter_length_remove1 [of P x ws] that by linarith
  from ended.prems now h set_remove1_subset [of x ws] have "\<forall>y \<in> set (remove1 x ws). live s' y \<longrightarrow> held s' y"
    by (auto simp: leases_ok_def live_def)
  with ended.prems now le show ?case unfolding leases_ok_def live_def by (metis fst_conv snd_conv)
next
  case (marked s md s' ws)
  then show ?case by (auto simp: ml_mark_done_def leases_ok_def held_def live_def)
next
  case (passed s t ws)
  have "length (filter (\<lambda>x. ru_Key x = k \<and> t < ru_Lease x) ws) \<le> length (filter (\<lambda>x. ru_Key x = k \<and> ml_now s < ru_Lease x) ws)" for k
    using passed.hyps by (intro filter_length_mono) auto
  with passed show ?case by (fastforce simp: leases_ok_def held_def live_def intro: order_trans)
qed

lemma deliveries_all_ok: "(deliveries sha)\<^sup>*\<^sup>* c c' \<Longrightarrow> leases_ok c \<Longrightarrow> leases_ok c'"
  by (induction rule: rtranclp_induct) (auto intro: deliveries_ok)

text \<open>
  C26. Two deliveries of one event never run at the same time under a live lease. Whatever the
  interleaving of attempts, outcomes (also late ones, of workers whose lease had run out), marks and
  the passing of time, from an empty ledger at most one running worker per handler and event has a
  lease that is not over.
\<close>

theorem one_live_lease_per_event:
  assumes "(deliveries sha)\<^sup>*\<^sup>* (new_ledger t0 (), []) (s, ws)"
  shows "length (filter (\<lambda>x. ru_Key x = k \<and> ml_now s < ru_Lease x) ws) \<le> 1"
proof -
  have "leases_ok (new_ledger t0 (), [])" by (simp add: leases_ok_def)
  with deliveries_all_ok assms have "leases_ok (s, ws)" by blast
  then show ?thesis unfolding leases_ok_def live_def by (metis fst_conv snd_conv)
qed

text \<open>Two workers; the second starts when the first one's lease of 60 s has run out.\<close>

definition plain_attempt :: attempt_input where
  "plain_attempt = \<lparr>rai_HandlerName = ''h'', rai_EventID = ''e'', rai_EventType = [], rai_EventPayload = [], rai_UserID = ''u'',
     rai_OrgID = [], rai_LeaseSeconds = 0\<rparr>"

theorem one_live_lease_per_event_witness:
  "\<exists>s ws. (deliveries id)\<^sup>*\<^sup>* (new_ledger 0 (), []) (s, ws) \<and> length ws = 2
     \<and> length (filter (\<lambda>x. ru_Key x = (''h'', ''e'') \<and> ml_now s < ru_Lease x) ws) \<le> 1"
proof -
  define s0 where "s0 = (new_ledger 0 () :: mem_ledger)"
  define s1 where "s1 = snd (ml_record_attempt s0 plain_attempt)"
  define s2 where "s2 = s1\<lparr>ml_now := 60 * second\<rparr>"
  define s3 where "s3 = snd (ml_record_attempt s2 plain_attempt)"
  let ?w = "\<lambda>w e. \<lparr>ru_Worker = w, ru_Key = (''h'', ''e''), ru_Lease = e\<rparr>"
  have "deliveries id (s0, []) (s1, [?w 1 (60 * second)])"
    using deliveries.started [of s0 plain_attempt "\<lparr>atr_Proceed = True, atr_CachedRow = None\<rparr>" s1 _ "60 * second" id "[]" 1]
    by (simp add: s1_def s0_def ml_record_attempt_def new_ledger_def plain_attempt_def attempt_row_def wrap64_def)
  moreover have "deliveries id (s1, [?w 1 (60 * second)]) (s2, [?w 1 (60 * second)])"
    unfolding s2_def by (rule deliveries.passed) (simp add: s1_def s0_def ml_record_attempt_def new_ledger_def)
  moreover have "deliveries id (s2, [?w 1 (60 * second)]) (s3, [?w 2 (120 * second), ?w 1 (60 * second)])"
    using deliveries.started [of s2 plain_attempt "\<lparr>atr_Proceed = True, atr_CachedRow = None\<rparr>" s3 _ "120 * second" id "[?w 1 (60 * second)]" 2]
    by (simp add: s3_def s2_def s1_def s0_def ml_record_attempt_def new_ledger_def plain_attempt_def attempt_row_def wrap64_def
        blocks_def is_terminal_def)
  ultimately have "(deliveries id)\<^sup>*\<^sup>* (s0, []) (s3, [?w 2 (120 * second), ?w 1 (60 * second)])"
    by (meson rtranclp.rtrancl_refl rtranclp.rtrancl_into_rtrancl)
  then have reach: "(deliveries id)\<^sup>*\<^sup>* (new_ledger 0 (), []) (s3, [?w 2 (120 * second), ?w 1 (60 * second)])"
    by (simp only: s0_def)
  show ?thesis
    by (rule exI, rule exI, intro conjI, rule reach, simp, rule one_live_lease_per_event [OF reach])
qed

section \<open>Backoff\<close>

text \<open>The delays the three strategies mean, on integers.\<close>

fun ideal_delay :: "backoff_kind \<Rightarrow> duration \<Rightarrow> nat \<Rightarrow> duration" where
  "ideal_delay BackoffExponential initial n = initial * 2 ^ (n - 1)"
| "ideal_delay BackoffLinear initial n = initial * int n"
| "ideal_delay BackoffConstant initial n = initial"

lemma wrap64_id: "- (2 ^ 63) \<le> n \<Longrightarrow> n < 2 ^ 63 \<Longrightarrow> wrap64 n = n"
  by (simp add: wrap64_def)

text \<open>A 53-bit integer times a power of two is not rounded.\<close>

lemma round_mag_scaled:
  assumes "0 < i" and "i \<le> 2 ^ 53"
  shows "round_mag (of_int i * 2 ^ k) = of_int i * 2 ^ k"
proof (cases "i = 2 ^ 53")
  case True
  have "(of_int i * 2 ^ k :: rat) = 2 powi (int k + 53)" unfolding True by (simp add: power_int_def nat_add_distrib power_add)
  moreover have "ilog2 (2 powi (int k + 53)) = int k + 53" by (rule ilog2_unique) (auto simp: power_int_add)
  ultimately show ?thesis by (intro round_mag_multiple [where n = 1 and k = "int k + 53"]) auto
next
  case False
  with assms have "of_int i < (of_int (2 ^ 53) :: rat)" by (simp only: of_int_less_iff)
  then have "(of_int i * 2 ^ k :: rat) < 2 powi (int k + 53)" by (simp add: power_int_def nat_add_distrib power_add)
  moreover have "(0::rat) < of_int i * 2 ^ k" using assms(1) by simp
  ultimately have "ilog2 (of_int i * 2 ^ k :: rat) < int k + 53"
    using ilog2_bounds(1) [of "of_int i * 2 ^ k :: rat"] by (intro powi_less_cancel) linarith
  with assms(1) show ?thesis
    by (intro round_mag_multiple [where n = i and k = "int k"]) (auto simp: power_int_def)
qed

lemma fround_scaled:
  assumes "0 < i" and "i \<le> 2 ^ 53" and "i * 2 ^ k < 2 ^ 1024"
  shows "fround (of_int i * 2 ^ k) = Fin (of_int i * 2 ^ k)"
proof -
  have "(of_int (i * 2 ^ k) :: rat) < of_int (2 ^ 1024)" using assms(3) by (simp only: of_int_less_iff)
  then have "(of_int i * 2 ^ k :: rat) < f64_bound" by (simp add: f64_bound_def)
  with assms(1) round_mag_scaled [OF assms(1,2), of k] show ?thesis by (simp add: fround_nonneg)
qed

lemma exponential_delay:
  assumes "0 < i" and "i \<le> 2 ^ 53" and "1 \<le> n" and "i * 2 ^ (n - 1) < 2 ^ 1000"
  shows "fmul (of_go_int i) (fround (2 powi (int n - 1))) = Fin (of_int (i * 2 ^ (n - 1)))"
proof -
  have e: "(2::rat) powi (int n - 1) = of_int 1 * 2 ^ (n - 1)"
    using assms(3) by (simp add: power_int_def nat_diff_distrib)
  have b: "(2::int) ^ 1000 < 2 ^ 1024" by simp
  have "1 * 2 ^ (n - 1) \<le> i * 2 ^ (n - 1)" using assms(1) by (intro mult_right_mono) auto
  with assms(4) b have "1 * 2 ^ (n - 1) < (2::int) ^ 1024" by linarith
  then have p: "fround (2 powi (int n - 1)) = Fin (2 ^ (n - 1))" unfolding e by (subst fround_scaled) auto
  have "of_go_int i = Fin (of_int i)" using assms(1,2) by (intro of_go_int_small) auto
  with p fround_scaled [OF assms(1,2), of "n - 1"] assms(4) b show ?thesis by simp
qed

text \<open>
  The pause before attempt \<open>n + 1\<close> is the strategy's ideal delay cut off at the maximum: the
  float arithmetic of the exponential branch and the 64-bit product of the linear one compute the
  exact integer value, as long as that value is a 64-bit duration and the initial delay is at most
  \<open>2^53\<close> ns (104 days).
\<close>

theorem backoff_delay_exact:
  assumes "0 < rt_Initial cfg" and "rt_Initial cfg \<le> 2 ^ 53" and "0 < rt_Max cfg" and "1 \<le> n"
    and "ideal_delay (rt_Backoff cfg) (rt_Initial cfg) n < 2 ^ 63"
  shows "backoff_delay cfg (int n) = (min (ideal_delay (rt_Backoff cfg) (rt_Initial cfg) n) (rt_Max cfg), cfg)"
proof (cases "rt_Backoff cfg")
  case BackoffExponential
  then have lt: "rt_Initial cfg * 2 ^ (n - 1) < 2 ^ 63" using assms(5) by simp
  moreover have "0 \<le> rt_Initial cfg * 2 ^ (n - 1)" using assms(1) by simp
  ultimately have "to_go_int (Fin (of_int (rt_Initial cfg * 2 ^ (n - 1)))) = rt_Initial cfg * 2 ^ (n - 1)"
    by (auto simp: Let_def simp flip: of_int_mult of_int_power)
  moreover have "(2::int) ^ 63 < 2 ^ 1000" by simp
  ultimately show ?thesis
    using BackoffExponential assms(1,3) exponential_delay [OF assms(1,2,4)] lt
    by (simp add: backoff_delay_def Let_def min_def)
next
  case BackoffLinear
  moreover have "0 \<le> rt_Initial cfg * int n" using assms(1) by simp
  ultimately have "wrap64 (rt_Initial cfg * int n) = rt_Initial cfg * int n" using assms(5) by (intro wrap64_id) auto
  with BackoffLinear assms show ?thesis by (simp add: backoff_delay_def Let_def min_def)
next
  case BackoffConstant
  with assms show ?thesis by (simp add: backoff_delay_def Let_def min_def)
qed

theorem backoff_delay_exact_witness:
  "map (\<lambda>n. fst (backoff_delay default_retry (int n))) [1, 2, 5, 6, 33]
     = [1 * second, 2 * second, 16 * second, 30 * second, 30 * second]"
proof -
  have "backoff_delay default_retry (int n) = (min (ideal_delay BackoffExponential second n) (30 * second), default_retry)"
    if "n \<in> {1, 2, 5, 6, 33}" for n
    using backoff_delay_exact [of default_retry n] that by (auto simp: default_retry_def)
  from this [of 1] this [of 2] this [of 5] this [of 6] this [of 33] show ?thesis by simp
qed

section \<open>Deleting a user\<close>

lemma map_of_filter_val:
  "distinct (map fst xs) \<Longrightarrow>
   map_of (filter (\<lambda>(k, v). P v) xs) k = (case map_of xs k of None \<Rightarrow> None | Some v \<Rightarrow> if P v then Some v else None)"
  by (induction xs) (auto split: option.splits simp: map_of_eq_None_iff image_iff dest: map_of_SomeD)

lemma length_filter_val:
  assumes "distinct (map fst xs)"
  shows "length (filter (\<lambda>(k, v). P v) xs) = card {k. \<exists>v. map_of xs k = Some v \<and> P v}"
proof -
  let ?ys = "filter (\<lambda>(k, v). P v) xs"
  have "distinct (map fst ?ys)" using assms by (rule distinct_map_filter)
  then have "length ?ys = card (set (map fst ?ys))" by (metis distinct_card length_map)
  also have "set (map fst ?ys) = {k. \<exists>v. map_of xs k = Some v \<and> P v}"
    using assms by (force simp: image_iff)
  finally show ?thesis .
qed

text \<open>
  Deleting a user removes every row of that user and no other row, and reports how many there
  were; it is not undone by a handler that was still running: the outcome it records afterwards
  finds no row and writes none, so the user's query stays empty.
\<close>

theorem delete_user_is_final:
  assumes "distinct (map fst (ml_rows s))" and "ml_delete_user s u = (Inr n, s')"
  shows "n = card {k. \<exists>r. map_of (ml_rows s) k = Some r \<and> lr_UserID r = u}
    \<and> (\<forall>k. map_of (ml_rows s') k = (case map_of (ml_rows s) k of
           None \<Rightarrow> None | Some r \<Rightarrow> if lr_UserID r = u then None else Some r))
    \<and> (\<forall>inp r. map_of (ml_rows s) (outcome_key inp) = Some r \<longrightarrow> lr_UserID r = u \<longrightarrow> ml_record_outcome s' inp = (None, s'))
    \<and> (\<forall>opt. ml_query_by_user s' u opt = Inr [])"
proof -
  have n: "n = length (filter (\<lambda>(k, r). lr_UserID r = u) (ml_rows s))"
    and rows: "ml_rows s' = filter (\<lambda>(k, r). lr_UserID r \<noteq> u) (ml_rows s)"
    using assms(2) by (auto simp: ml_delete_user_def)
  have m: "map_of (ml_rows s') k = (case map_of (ml_rows s) k of
           None \<Rightarrow> None | Some r \<Rightarrow> if lr_UserID r = u then None else Some r)" for k
    unfolding rows map_of_filter_val [OF assms(1), of "\<lambda>r. lr_UserID r \<noteq> u"] by (auto split: option.splits)
  have q: "filter (\<lambda>r. lr_UserID r = u \<and> in_since opt r) (map snd (ml_rows s')) = []" for opt
    unfolding rows by (auto simp: filter_empty_conv)
  show ?thesis
    using n m q length_filter_val [OF assms(1), of "\<lambda>r. lr_UserID r = u"]
    by (auto simp: ml_record_outcome_def ml_query_by_user_def cut_def)
qed

theorem delete_user_is_final_witness:
  "\<exists>s' n. ml_delete_user (snd (ml_record_attempt (new_ledger 0 () :: mem_ledger) plain_attempt)) ''u'' = (Inr n, s')
     \<and> n = 1 \<and> (\<forall>opt. ml_query_by_user s' ''u'' opt = Inr [])"
proof -
  define s where "s = snd (ml_record_attempt (new_ledger 0 () :: mem_ledger) plain_attempt)"
  obtain n s' where d: "ml_delete_user s ''u'' = (Inr n, s')" by (auto simp: ml_delete_user_def)
  have rows: "ml_rows s = [((''h'', ''e''), attempt_row 0 None plain_attempt)]"
    by (simp add: s_def ml_record_attempt_def new_ledger_def plain_attempt_def)
  moreover have "n = 1" using d rows by (auto simp: ml_delete_user_def attempt_row_def plain_attempt_def Let_def)
  ultimately show ?thesis using delete_user_is_final [OF _ d] d unfolding s_def [symmetric] by auto
qed

end
