(* ===== verification/Providers.thy ===== *)
theory Providers
  imports Keyspace
begin

text \<open>
  Package \<open>providers\<close>: who is on which tier. The static, JWT and mesh providers, the TTL cache with
  its last-known-good records, and the durable last-known-good record in Redis. A provider answers
  a tier and an error together and may act on a world that is threaded through; the request
  context is the bearer token it carries. Base64 and JSON decoding, the mesh lookup and the Redis
  client are arguments. \<open>GetTier\<close> of the cache reads its clock once; its error-level log line, which
  is what the sustained-failure detection produces, is a list in the state.
\<close>

section \<open>The providers\<close>

record tier_provider_config =
  tp_Type :: string
  tp_JWTClaimKey :: string
  tp_DefaultTier :: string
  tp_Mapping :: "string \<rightharpoonup> string"
  tp_CacheTTLSec :: int

type_synonym tier_answer = "string \<times> goerr option"
type_synonym 'w provider = "string option \<Rightarrow> string \<Rightarrow> string \<Rightarrow> 'w \<Rightarrow> tier_answer \<times> 'w"

definition static_get_tier :: "(string \<rightharpoonup> string) \<Rightarrow> string \<Rightarrow> string \<Rightarrow> tier_answer" where
  "static_get_tier mapping defaultTier userID =
     (case mapping userID of
        Some v \<Rightarrow> if v \<noteq> [] then (v, None)
                  else if defaultTier \<noteq> [] then (defaultTier, None) else ([], Some ErrNoTier)
      | None \<Rightarrow> if defaultTier \<noteq> [] then (defaultTier, None) else ([], Some ErrNoTier))"

text \<open>The decoders the JWT provider uses: raw URL-safe and padded base64, and the JSON object, whose
  string members are \<open>Some\<close>.\<close>

record jwt_codec =
  jc_RawURL :: "string \<Rightarrow> string option"
  jc_Std :: "string \<Rightarrow> string option"
  jc_Claims :: "string \<Rightarrow> (string \<rightharpoonup> string option) option"

definition jwt_claim_key :: "tier_provider_config \<Rightarrow> string" where
  "jwt_claim_key cfg = (if tp_JWTClaimKey cfg = [] then ''tier'' else tp_JWTClaimKey cfg)"

definition jwt_fallback :: "string \<Rightarrow> string \<Rightarrow> tier_answer" where
  "jwt_fallback defaultTier reason =
     (if defaultTier \<noteq> [] then (defaultTier, None) else ([], Some (ErrBackend (''jwt provider: '' @ reason))))"

definition get_tier_from_token :: "jwt_codec \<Rightarrow> string \<Rightarrow> string \<Rightarrow> string \<Rightarrow> tier_answer" where
  "get_tier_from_token K claimKey defaultTier token =
     (case split_on (CHR ''.'') token of
        [_, body, _] \<Rightarrow>
          (case (case jc_RawURL K body of Some p \<Rightarrow> Some p | None \<Rightarrow> jc_Std K body) of
             None \<Rightarrow> jwt_fallback defaultTier ''undecodable jwt payload''
           | Some payload \<Rightarrow>
               (case jc_Claims K payload of
                  None \<Rightarrow> jwt_fallback defaultTier ''non-json jwt payload''
                | Some claims \<Rightarrow>
                    (case claims claimKey of
                       Some (Some v) \<Rightarrow> if v = [] then jwt_fallback defaultTier ''claim missing'' else (v, None)
                     | _ \<Rightarrow> jwt_fallback defaultTier ''claim missing'')))
      | _ \<Rightarrow> jwt_fallback defaultTier ''malformed jwt'')"

text \<open>\<open>TokenFrom\<close>: an empty token counts as none.\<close>

definition token_from :: "string option \<Rightarrow> string option" where
  "token_from ctx = (case ctx of Some v \<Rightarrow> if v = [] then None else Some v | None \<Rightarrow> None)"

definition jwt_get_tier :: "jwt_codec \<Rightarrow> string \<Rightarrow> string \<Rightarrow> string option \<Rightarrow> tier_answer" where
  "jwt_get_tier K claimKey defaultTier ctx =
     (case token_from ctx of
        None \<Rightarrow> if defaultTier \<noteq> [] then (defaultTier, None)
                else ([], Some (ErrBackend ''jwt provider: no token in context''))
      | Some tok \<Rightarrow> get_tier_from_token K claimKey defaultTier tok)"

text \<open>The mesh provider; the lookup is \<open>None\<close> until \<open>SetLookup\<close>.\<close>

definition mesh_get_tier ::
  "(string \<Rightarrow> string \<Rightarrow> 'w \<Rightarrow> (goerr + string) \<times> 'w) option \<Rightarrow> string \<Rightarrow> string \<Rightarrow> string \<Rightarrow> 'w \<Rightarrow> tier_answer \<times> 'w" where
  "mesh_get_tier lookup defaultTier userID orgID w =
     (case lookup of
        None \<Rightarrow> ((if defaultTier \<noteq> [] then (defaultTier, None)
                  else ([], Some (ErrBackend ''mesh provider: no Lookup wired (call SetLookup at startup)''))), w)
      | Some f \<Rightarrow>
          (case f userID orgID w of
             (Inl e, w) \<Rightarrow> ((defaultTier, Some (ErrWrap ''mesh: tier lookup failed'' ErrTierLookupFailed)), w)
           | (Inr tier, w) \<Rightarrow> ((tier, None), w)))"

text \<open>\<open>New\<close>: the provider the configuration names; the mesh provider starts without a lookup.\<close>

definition new_provider :: "jwt_codec \<Rightarrow> tier_provider_config \<Rightarrow> goerr + 'w provider" where
  "new_provider K cfg =
     (if tp_Type cfg = ''jwt'' then
        Inr (\<lambda>ctx u org w. (jwt_get_tier K (jwt_claim_key cfg) (tp_DefaultTier cfg) ctx, w))
      else if tp_Type cfg = ''static'' then
        Inr (\<lambda>ctx u org w. (static_get_tier (tp_Mapping cfg) (tp_DefaultTier cfg) u, w))
      else if tp_Type cfg = ''mesh'' then
        Inr (\<lambda>ctx u org w. mesh_get_tier None (tp_DefaultTier cfg) u org w)
      else if tp_Type cfg = [] then Inl (ErrConfig ''tier_provider.type'' ''required'')
      else Inl (ErrConfig ''tier_provider.type'' (tp_Type cfg)))"

section \<open>The durable record\<close>

record 'w lkg_store =
  lg_GetLKG :: "'w \<Rightarrow> string \<Rightarrow> (string \<times> instant) option"
  lg_SetLKG :: "'w \<Rightarrow> string \<Rightarrow> string \<Rightarrow> instant \<Rightarrow> 'w"

text \<open>The Redis client's \<open>GET\<close> (a missing key and an error both give \<open>None\<close>) and \<open>SET\<close>, and the JSON
  text of the payload: the tier and the seconds as a float.\<close>

record 'w redis_kv =
  kv_Get :: "'w \<Rightarrow> string \<Rightarrow> string option"
  kv_Set :: "'w \<Rightarrow> string \<Rightarrow> string \<Rightarrow> 'w"

record lkg_codec =
  lc_Marshal :: "string \<Rightarrow> f64 \<Rightarrow> string option"
  lc_Unmarshal :: "string \<Rightarrow> (string \<times> f64) option"

definition redis_get_lkg :: "lkg_codec \<Rightarrow> 'w redis_kv \<Rightarrow> 'w \<Rightarrow> string \<Rightarrow> (string \<times> instant) option" where
  "redis_get_lkg K R w orgID =
     (if orgID = [] then None
      else case kv_Get R w (tier_lkg_key orgID) of
        None \<Rightarrow> None
      | Some raw \<Rightarrow>
          (case lc_Unmarshal K raw of
             None \<Rightarrow> None
           | Some (tier, ts) \<Rightarrow>
               if tier = [] then None
               else let sec = to_go_int ts;
                        nsec = to_go_int (fmul (fsub ts (of_go_int sec)) (Fin (of_int second)))
                    in Some (tier, sec * second + nsec)))"

definition redis_set_lkg :: "lkg_codec \<Rightarrow> 'w redis_kv \<Rightarrow> 'w \<Rightarrow> string \<Rightarrow> string \<Rightarrow> instant \<Rightarrow> 'w" where
  "redis_set_lkg K R w orgID tier ts =
     (if orgID = [] \<or> tier = [] then w
      else case lc_Marshal K tier (fdiv (of_go_int ts) (Fin (of_int second))) of
        None \<Rightarrow> w
      | Some payload \<Rightarrow> kv_Set R w (tier_lkg_key orgID) payload)"

definition redis_lkg_store :: "lkg_codec \<Rightarrow> 'w redis_kv \<Rightarrow> 'w lkg_store" where
  "redis_lkg_store K R = \<lparr>lg_GetLKG = redis_get_lkg K R, lg_SetLKG = redis_set_lkg K R\<rparr>"

section \<open>The cache\<close>

record cache_entry =
  ce_tier :: string
  ce_exp :: instant

record lkg_entry =
  lk_tier :: string
  lk_ts :: instant

record 'w cache_config =
  cc_inner :: "'w provider"
  cc_ttl :: duration
  cc_lkgMaxAge :: duration
  cc_durable :: "'w lkg_store option"
  cc_threshold :: int

record 'w cache =
  ca_items :: "string \<rightharpoonup> cache_entry"
  ca_lastGood :: "string \<rightharpoonup> lkg_entry"
  ca_failureStreaks :: "string \<rightharpoonup> int"
  ca_now :: instant
  ca_escalations :: "(string \<times> string \<times> int) list"
  ca_world :: 'w

definition with_cache :: "instant \<Rightarrow> 'w \<Rightarrow> 'w cache" where
  "with_cache now w = \<lparr>ca_items = Map.empty, ca_lastGood = Map.empty, ca_failureStreaks = Map.empty, ca_now = now,
     ca_escalations = [], ca_world = w\<rparr>"

definition cache_key :: "string \<Rightarrow> string \<Rightarrow> string" where
  "cache_key userID orgID = userID @ ''|'' @ orgID"

definition consecutive_failures :: "'w cache \<Rightarrow> string \<Rightarrow> string \<Rightarrow> int" where
  "consecutive_failures s userID orgID = map_get 0 (ca_failureStreaks s) (cache_key userID orgID)"

definition note_fetch_failure :: "'w cache_config \<Rightarrow> string \<Rightarrow> string \<Rightarrow> 'w cache \<Rightarrow> 'w cache" where
  "note_fetch_failure C userID orgID s =
     (let threshold = (if cc_threshold C < 2 then 2 else cc_threshold C);
          streak = map_get 0 (ca_failureStreaks s) (cache_key userID orgID) + 1;
          s = s\<lparr>ca_failureStreaks := (ca_failureStreaks s)(cache_key userID orgID \<mapsto> streak)\<rparr>
      in if streak \<ge> threshold \<and> streak mod threshold = 0
         then s\<lparr>ca_escalations := ca_escalations s @ [(userID, orgID, streak)]\<rparr> else s)"

definition reset_failure_streak :: "string \<Rightarrow> string \<Rightarrow> 'w cache \<Rightarrow> 'w cache" where
  "reset_failure_streak userID orgID s =
     s\<lparr>ca_failureStreaks := (ca_failureStreaks s)(cache_key userID orgID := None)\<rparr>"

definition lookup_last_good :: "'w cache_config \<Rightarrow> 'w cache \<Rightarrow> string \<Rightarrow> lkg_entry option" where
  "lookup_last_good C s key =
     (case ca_lastGood s key of
        None \<Rightarrow> None
      | Some lg \<Rightarrow> if cc_lkgMaxAge C > 0 \<and> ca_now s - lk_ts lg > cc_lkgMaxAge C then None else Some lg)"

definition lookup_durable_last_good :: "'w cache_config \<Rightarrow> 'w cache \<Rightarrow> string \<Rightarrow> lkg_entry option" where
  "lookup_durable_last_good C s orgID =
     (case cc_durable C of
        None \<Rightarrow> None
      | Some D \<Rightarrow>
          (case lg_GetLKG D (ca_world s) orgID of
             None \<Rightarrow> None
           | Some (tier, ts) \<Rightarrow>
               if tier = [] then None
               else if cc_lkgMaxAge C > 0 \<and> ca_now s - ts > cc_lkgMaxAge C then None
               else Some \<lparr>lk_tier = tier, lk_ts = ts\<rparr>))"

text \<open>\<open>errors.Is(err, ErrTierLookupFailed)\<close> with a fallback tier beside it.\<close>

definition usable_fallback :: "string \<Rightarrow> goerr \<Rightarrow> bool" where
  "usable_fallback tier err \<longleftrightarrow> err_is err ErrTierLookupFailed \<and> tier \<noteq> []"

text \<open>The failure branch of \<open>GetTier\<close>: the record in the process, the durable one, the fallback.\<close>

definition serve_without_fetch :: "'w cache_config \<Rightarrow> string \<Rightarrow> string \<Rightarrow> string \<Rightarrow> goerr \<Rightarrow> 'w cache \<Rightarrow> tier_answer \<times> 'w cache" where
  "serve_without_fetch C userID orgID tier err s =
     (let key = cache_key userID orgID in
      case lookup_last_good C s key of
        Some lg \<Rightarrow> ((lk_tier lg, None), s)
      | None \<Rightarrow>
         (case lookup_durable_last_good C s orgID of
            Some lg \<Rightarrow> ((lk_tier lg, None), s\<lparr>ca_lastGood := (ca_lastGood s)(key \<mapsto> lg)\<rparr>)
          | None \<Rightarrow> (if usable_fallback tier err then (tier, None) else (tier, Some err), s)))"

definition cache_get_tier ::
  "'w cache_config \<Rightarrow> string option \<Rightarrow> string \<Rightarrow> string \<Rightarrow> 'w cache \<Rightarrow> tier_answer \<times> 'w cache" where
  "cache_get_tier C ctx userID orgID s =
     (if cc_ttl C \<le> 0 then
        (case cc_inner C ctx userID orgID (ca_world s) of
           ((tier, Some err), w) \<Rightarrow>
             let s = note_fetch_failure C userID orgID (s\<lparr>ca_world := w\<rparr>) in
             (if usable_fallback tier err then (tier, None) else (tier, Some err), s)
         | ((tier, None), w) \<Rightarrow> ((tier, None), reset_failure_streak userID orgID (s\<lparr>ca_world := w\<rparr>)))
      else
        let key = cache_key userID orgID in
        case (case ca_items s key of Some e \<Rightarrow> if ca_now s < ce_exp e then Some e else None | None \<Rightarrow> None) of
          Some e \<Rightarrow> ((ce_tier e, None), s)
        | None \<Rightarrow>
           (case cc_inner C ctx userID orgID (ca_world s) of
              ((tier, Some err), w) \<Rightarrow>
                serve_without_fetch C userID orgID tier err (note_fetch_failure C userID orgID (s\<lparr>ca_world := w\<rparr>))
            | ((tier, None), w) \<Rightarrow>
                let now = ca_now s;
                    w = (case cc_durable C of None \<Rightarrow> w | Some D \<Rightarrow> lg_SetLKG D w orgID tier now)
                in ((tier, None),
                    s\<lparr>ca_items := (ca_items s)(key \<mapsto> \<lparr>ce_tier = tier, ce_exp = now + cc_ttl C\<rparr>),
                      ca_lastGood := (ca_lastGood s)(key \<mapsto> \<lparr>lk_tier = tier, lk_ts = now\<rparr>),
                      ca_failureStreaks := (ca_failureStreaks s)(key := None),
                      ca_world := w\<rparr>)))"

definition invalidate :: "string \<Rightarrow> string \<Rightarrow> 'w cache \<Rightarrow> 'w cache" where
  "invalidate userID orgID s = s\<lparr>ca_items := (ca_items s)(cache_key userID orgID := None)\<rparr>"

section \<open>Histories of a cache\<close>

text \<open>The tier a call confirms: the one a fetch of the inner provider answers without an error.\<close>

definition fresh :: "'w cache \<Rightarrow> string \<Rightarrow> bool" where
  "fresh s key \<longleftrightarrow> (case ca_items s key of Some e \<Rightarrow> ca_now s < ce_exp e | None \<Rightarrow> False)"

definition confirmed :: "'w cache_config \<Rightarrow> string option \<Rightarrow> string \<Rightarrow> string \<Rightarrow> 'w cache \<Rightarrow> string option" where
  "confirmed C ctx u org s =
     (if fresh s (cache_key u org) then None
      else case fst (cc_inner C ctx u org (ca_world s)) of (tier, None) \<Rightarrow> Some tier | (_, Some _) \<Rightarrow> None)"

text \<open>Any use of a cache, with the last confirmed tier of every key beside it: calls, invalidations,
  the passing of time and changes of the world by others.\<close>

inductive cache_step :: "'w cache_config \<Rightarrow> 'w cache \<times> (string \<rightharpoonup> string) \<Rightarrow> 'w cache \<times> (string \<rightharpoonup> string) \<Rightarrow> bool"
  for C :: "'w cache_config" where
  asked: "cache_get_tier C ctx u org s = (a, s') \<Longrightarrow>
    cache_step C (s, h) (s', case confirmed C ctx u org s of None \<Rightarrow> h | Some t \<Rightarrow> h(cache_key u org \<mapsto> t))"
| invalidated: "cache_step C (s, h) (invalidate u org s, h)"
| passed: "ca_now s \<le> t \<Longrightarrow> cache_step C (s, h) (s\<lparr>ca_now := t\<rparr>, h)"
| world: "cache_step C (s, h) (s\<lparr>ca_world := w\<rparr>, h)"

definition remembers :: "'w cache \<times> (string \<rightharpoonup> string) \<Rightarrow> bool" where
  "remembers c \<longleftrightarrow> (\<forall>key.
     (\<forall>t. snd c key = Some t \<longrightarrow> (\<exists>lg. ca_lastGood (fst c) key = Some lg \<and> lk_tier lg = t))
     \<and> (\<forall>e. ca_items (fst c) key = Some e \<longrightarrow> snd c key = Some (ce_tier e)))"

lemma note_fetch_failure_simps [simp]:
  "ca_items (note_fetch_failure C u org s) = ca_items s"
  "ca_lastGood (note_fetch_failure C u org s) = ca_lastGood s"
  "ca_now (note_fetch_failure C u org s) = ca_now s"
  "ca_world (note_fetch_failure C u org s) = ca_world s"
  by (simp_all add: note_fetch_failure_def Let_def)

lemma get_tier_fresh:
  assumes "0 < cc_ttl C" and "fresh s (cache_key u org)"
  shows "\<exists>e. ca_items s (cache_key u org) = Some e \<and> cache_get_tier C ctx u org s = ((ce_tier e, None), s)"
  using assms by (auto simp: fresh_def cache_get_tier_def Let_def split: option.splits)

lemma get_tier_confirmed:
  assumes "0 < cc_ttl C" and "confirmed C ctx u org s = Some t"
  shows "\<exists>w. cache_get_tier C ctx u org s = ((t, None), s\<lparr>
      ca_items := (ca_items s)(cache_key u org \<mapsto> \<lparr>ce_tier = t, ce_exp = ca_now s + cc_ttl C\<rparr>),
      ca_lastGood := (ca_lastGood s)(cache_key u org \<mapsto> \<lparr>lk_tier = t, lk_ts = ca_now s\<rparr>),
      ca_failureStreaks := (ca_failureStreaks s)(cache_key u org := None), ca_world := w\<rparr>)"
proof -
  obtain a w where i: "cc_inner C ctx u org (ca_world s) = (a, w)" by fastforce
  with assms(2) have a: "a = (t, None)" "\<not> fresh s (cache_key u org)"
    by (auto simp: confirmed_def split: if_splits prod.splits option.splits)
  then have "(case ca_items s (cache_key u org) of Some e \<Rightarrow> if ca_now s < ce_exp e then Some e else None | None \<Rightarrow> None) = None"
    by (auto simp: fresh_def split: option.splits)
  with a(1) i assms(1) show ?thesis by (simp add: cache_get_tier_def Let_def) blast
qed

lemma get_tier_failed:
  assumes "0 < cc_ttl C" and "\<not> fresh s (cache_key u org)" and "confirmed C ctx u org s = None"
  shows "\<exists>tier err w. cc_inner C ctx u org (ca_world s) = ((tier, Some err), w)
    \<and> cache_get_tier C ctx u org s = serve_without_fetch C u org tier err (note_fetch_failure C u org (s\<lparr>ca_world := w\<rparr>))"
proof -
  obtain tier x w where i: "cc_inner C ctx u org (ca_world s) = ((tier, x), w)" by (metis surj_pair)
  with assms(2,3) obtain err where x: "x = Some err"
    by (cases x) (auto simp: confirmed_def)
  have m: "(case ca_items s (cache_key u org) of Some e \<Rightarrow> if ca_now s < ce_exp e then Some e else None | None \<Rightarrow> None) = None"
    using assms(2) by (auto simp: fresh_def split: option.splits)
  show ?thesis using assms(1) by (simp add: cache_get_tier_def Let_def m i x)
qed

lemma lookup_unbounded: "cc_lkgMaxAge C \<le> 0 \<Longrightarrow> lookup_last_good C s key = ca_lastGood s key"
  by (auto simp: lookup_last_good_def split: option.splits)

lemma remembers_served:
  assumes "cc_lkgMaxAge C \<le> 0" and "remembers (s, h)" and "serve_without_fetch C u org tier err s = (a, s')"
  shows "remembers (s', h)"
  using assms(2,3) unfolding serve_without_fetch_def lookup_unbounded [OF assms(1)] Let_def
  by (fastforce simp: remembers_def split: option.splits if_splits)

lemma remembers_asked:
  assumes "0 < cc_ttl C" and "cc_lkgMaxAge C \<le> 0" and "remembers (s, h)" and "cache_get_tier C ctx u org s = (a, s')"
  shows "remembers (s', case confirmed C ctx u org s of None \<Rightarrow> h | Some t \<Rightarrow> h(cache_key u org \<mapsto> t))"
proof (cases "fresh s (cache_key u org)")
  case True
  from get_tier_fresh [OF assms(1) True, of ctx] assms(4) have "s' = s" by auto
  with True assms(3) show ?thesis by (simp add: confirmed_def)
next
  case False
  show ?thesis
  proof (cases "confirmed C ctx u org s")
    case None
    obtain tier err w where "cache_get_tier C ctx u org s =
        serve_without_fetch C u org tier err (note_fetch_failure C u org (s\<lparr>ca_world := w\<rparr>))"
      using get_tier_failed [OF assms(1) False None] by blast
    moreover have "remembers (note_fetch_failure C u org (s\<lparr>ca_world := w\<rparr>), h)" using assms(3) by (simp add: remembers_def)
    ultimately show ?thesis using remembers_served [OF assms(2), of _ h u org tier err a s'] assms(4) None by simp
  next
    case (Some t)
    from get_tier_confirmed [OF assms(1) Some] assms(3,4) Some show ?thesis
      by (auto simp: remembers_def)
  qed
qed

lemma remembers_step:
  assumes "0 < cc_ttl C" and "cc_lkgMaxAge C \<le> 0" and "cache_step C c c'" and "remembers c"
  shows "remembers c'"
  using assms(3)
proof cases
  case (asked ctx u org s a s' h)
  with remembers_asked [OF assms(1,2)] assms(4) show ?thesis by simp
qed (use assms(4) in \<open>auto simp: remembers_def invalidate_def\<close>)

lemma remembers_steps:
  assumes "(cache_step C)\<^sup>*\<^sup>* c c'" and "0 < cc_ttl C" and "cc_lkgMaxAge C \<le> 0" and "remembers c"
  shows "remembers c'"
  using assms(1,4) by (induction rule: rtranclp_induct) (auto intro: remembers_step [OF assms(2,3)])

text \<open>
  C30. A lookup outage never changes a customer's tier. In every history of a cache (calls of any
  users, invalidations, time, any world behind the provider), once a fetch for a user and org has
  been confirmed, each later call for them answers without an error, with the tier this call's own
  fetch confirms, or else with the last confirmed one: never with the provider's fallback default
  and never with another user's tier. It needs the cache to be on and the last-known-good records
  not to age out, the default.
\<close>

theorem outage_never_downgrades:
  assumes "0 < cc_ttl C" and "cc_lkgMaxAge C \<le> 0"
    and "(cache_step C)\<^sup>*\<^sup>* (with_cache t0 w0, Map.empty) (s, h)" and "h (cache_key u org) = Some t"
  shows "fst (cache_get_tier C ctx u org s) = (case confirmed C ctx u org s of Some t' \<Rightarrow> (t', None) | None \<Rightarrow> (t, None))"
proof -
  have "remembers (with_cache t0 w0, Map.empty)" by (simp add: remembers_def with_cache_def)
  with remembers_steps [OF assms(3,1,2)] have r: "remembers (s, h)" .
  show ?thesis
  proof (cases "fresh s (cache_key u org)")
    case True
    from get_tier_fresh [OF assms(1) True, of ctx] r assms(4) True show ?thesis
      by (auto simp: remembers_def confirmed_def)
  next
    case False
    show ?thesis
    proof (cases "confirmed C ctx u org s")
      case None
      obtain lg where "ca_lastGood s (cache_key u org) = Some lg" "lk_tier lg = t"
        using r assms(4) by (auto simp: remembers_def)
      with get_tier_failed [OF assms(1) False None] None show ?thesis
        by (auto simp: serve_without_fetch_def lookup_unbounded [OF assms(2)])
    next
      case (Some t')
      from get_tier_confirmed [OF assms(1) Some] Some show ?thesis by auto
    qed
  qed
qed

text \<open>A provider that answers \<open>pro\<close> at its first call and then fails beside its fallback.\<close>

definition blinking :: "nat cache_config" where
  "blinking = \<lparr>cc_inner = (\<lambda>ctx u org n. (if n = 0 then (''pro'', None)
       else (''free'', Some (ErrWrap ''mesh: tier lookup failed'' ErrTierLookupFailed)), n + 1)),
     cc_ttl = 10, cc_lkgMaxAge = 0, cc_durable = None, cc_threshold = 5\<rparr>"

lemma blinking_simps [simp]:
  "cc_inner blinking ctx u org n = (if n = 0 then (''pro'', None)
     else (''free'', Some (ErrWrap ''mesh: tier lookup failed'' ErrTierLookupFailed)), n + 1)"
  "cc_ttl blinking = 10" "cc_lkgMaxAge blinking = 0" "cc_durable blinking = None"
  by (simp_all add: blinking_def)

theorem outage_never_downgrades_witness:
  "\<exists>s h. (cache_step blinking)\<^sup>*\<^sup>* (with_cache 0 0, Map.empty) (s, h) \<and> h ''u|o'' = Some ''pro'' \<and> ca_now s = 99
     \<and> confirmed blinking None ''u'' ''o'' s = None \<and> fst (cache_get_tier blinking None ''u'' ''o'' s) = (''pro'', None)"
proof -
  define s1 where "s1 = snd (cache_get_tier blinking None ''u'' ''o'' (with_cache 0 0))"
  define s2 where "s2 = s1\<lparr>ca_now := 99\<rparr>"
  have k: "cache_key ''u'' ''o'' = ''u|o''" by (simp add: cache_key_def)
  have s1: "ca_now s1 = 0" "ca_world s1 = 1" "ca_items s1 = [''u|o'' \<mapsto> \<lparr>ce_tier = ''pro'', ce_exp = 10\<rparr>]"
    by (simp_all add: s1_def cache_get_tier_def with_cache_def Let_def k)
  have "confirmed blinking None ''u'' ''o'' (with_cache 0 0) = Some ''pro''" by (simp add: confirmed_def fresh_def with_cache_def)
  then have "cache_step blinking (with_cache 0 0, Map.empty) (s1, [''u|o'' \<mapsto> ''pro''])"
    using cache_step.asked [of blinking None "''u''" "''o''" "with_cache 0 0" _ s1 Map.empty]
    by (simp add: s1_def k prod_eq_iff)
  moreover have "cache_step blinking (s1, [''u|o'' \<mapsto> ''pro'']) (s2, [''u|o'' \<mapsto> ''pro''])"
    unfolding s2_def by (rule cache_step.passed) (simp add: s1)
  ultimately have r: "(cache_step blinking)\<^sup>*\<^sup>* (with_cache 0 0, Map.empty) (s2, [''u|o'' \<mapsto> ''pro''])" by auto
  have c: "confirmed blinking None ''u'' ''o'' s2 = None" by (simp add: confirmed_def fresh_def s2_def s1 k)
  from outage_never_downgrades [OF _ _ r, of "''u''" "''o''" "''pro''" None] c r show ?thesis
    by (intro exI [of _ s2] exI [of _ "[''u|o'' \<mapsto> ''pro'']"]) (simp add: k s2_def)
qed

text \<open>
  The guarantee survives a restart. After a fetch that was confirmed in one process, a new
  process with an empty cache on the same Redis, whose own lookups fail from the start, serves that
  tier for every user of the org, through the record \<open>quota:tier:lkg:{org}\<close>. Of Redis it is used that a
  \<open>GET\<close> returns what was \<open>SET\<close>, and of the JSON codec that it reads back the tier it wrote.
\<close>

theorem restart_keeps_tier:
  assumes redis: "\<And>w k v. kv_Get R (kv_Set R w k v) k = Some v"
    and codec: "\<And>tier ts. \<exists>p ts'. lc_Marshal K tier ts = Some p \<and> lc_Unmarshal K p = Some (tier, ts')"
    and C: "cc_durable C = Some (redis_lkg_store K R)" "0 < cc_ttl C" "cc_lkgMaxAge C \<le> 0"
    and first: "confirmed C ctx u org s = Some tier" "tier \<noteq> []" "org \<noteq> []"
    and s1: "s1 = snd (cache_get_tier C ctx u org s)"
    and outage: "cc_inner C ctx' u' org (ca_world s1) = ((d, Some err), wo)"
      "kv_Get R wo (tier_lkg_key org) = kv_Get R (ca_world s1) (tier_lkg_key org)"
  shows "fst (cache_get_tier C ctx' u' org (with_cache t1 (ca_world s1))) = (tier, None)"
proof -
  obtain a w where i: "cc_inner C ctx u org (ca_world s) = (a, w)" by fastforce
  with first(1) have a: "a = (tier, None)" "\<not> fresh s (cache_key u org)"
    by (auto simp: confirmed_def split: if_splits prod.splits option.splits)
  then have m: "(case ca_items s (cache_key u org) of Some e \<Rightarrow> if ca_now s < ce_exp e then Some e else None | None \<Rightarrow> None) = None"
    by (auto simp: fresh_def split: option.splits)
  let ?ts = "fdiv (of_go_int (ca_now s)) (Fin (of_int second))"
  obtain p ts where p: "lc_Marshal K tier ?ts = Some p" "lc_Unmarshal K p = Some (tier, ts)" using codec by blast
  have "ca_world s1 = kv_Set R w (tier_lkg_key org) p"
    using i a m C first p(1) by (simp add: s1 cache_get_tier_def Let_def redis_lkg_store_def redis_set_lkg_def)
  then have g: "kv_Get R wo (tier_lkg_key org) = Some p" using outage(2) redis by simp
  obtain ts' where "redis_get_lkg K R wo org = Some (tier, ts')"
    using g p(2) first by (simp add: redis_get_lkg_def Let_def)
  with C first outage(1) show ?thesis
    by (simp add: cache_get_tier_def with_cache_def serve_without_fetch_def lookup_last_good_def lookup_durable_last_good_def
        redis_lkg_store_def Let_def)
qed

text \<open>A Redis with one database and payloads that hold the tier only; the world also says whether the
  lookup is up.\<close>

definition bare_codec :: lkg_codec where
  "bare_codec = \<lparr>lc_Marshal = (\<lambda>tier ts. Some tier), lc_Unmarshal = (\<lambda>p. Some (p, Fin 0))\<rparr>"

definition map_kv :: "(bool \<times> (string \<rightharpoonup> string)) redis_kv" where
  "map_kv = \<lparr>kv_Get = (\<lambda>w k. snd w k), kv_Set = (\<lambda>w k v. (fst w, (snd w)(k \<mapsto> v)))\<rparr>"

definition tiered :: "(bool \<times> (string \<rightharpoonup> string)) cache_config" where
  "tiered = \<lparr>cc_inner = (\<lambda>ctx u org w. (if fst w then (''pro'', None) else (''free'', Some ErrTierLookupFailed), (False, snd w))),
     cc_ttl = 10, cc_lkgMaxAge = 0, cc_durable = Some (redis_lkg_store bare_codec map_kv), cc_threshold = 5\<rparr>"

theorem restart_keeps_tier_witness:
  "confirmed tiered None ''u'' ''o'' (with_cache 0 (True, Map.empty)) = Some ''pro''
   \<and> fst (cache_get_tier tiered None ''v'' ''o'' (with_cache 5 (ca_world
       (snd (cache_get_tier tiered None ''u'' ''o'' (with_cache 0 (True, Map.empty))))))) = (''pro'', None)"
proof -
  let ?s = "with_cache 0 (True, Map.empty)"
  have c: "confirmed tiered None ''u'' ''o'' ?s = Some ''pro''"
    by (simp add: confirmed_def fresh_def with_cache_def tiered_def)
  have w: "ca_world (snd (cache_get_tier tiered None ''u'' ''o'' ?s)) = (False, [''quota:tier:lkg:o'' \<mapsto> ''pro''])"
    by (simp add: cache_get_tier_def with_cache_def tiered_def redis_lkg_store_def redis_set_lkg_def bare_codec_def map_kv_def
        tier_lkg_key_def Let_def)
  show ?thesis
    by (intro conjI c restart_keeps_tier [where R = map_kv and K = bare_codec and d = "''free''" and err = ErrTierLookupFailed
          and wo = "(False, [''quota:tier:lkg:o'' \<mapsto> ''pro''])", OF _ _ _ _ _ c _ _ refl])
      (simp_all add: w, simp_all add: map_kv_def bare_codec_def tiered_def)
qed

lemma failing_call:
  assumes "0 < cc_ttl C" and "\<And>w. snd (fst (cc_inner C ctx u org w)) \<noteq> None"
    and "ca_items s (cache_key u org) = None"
  defines "s' \<equiv> snd (cache_get_tier C ctx u org s)"
  shows "\<exists>w. ca_items s' = ca_items s
    \<and> ca_failureStreaks s' = ca_failureStreaks (note_fetch_failure C u org (s\<lparr>ca_world := w\<rparr>))
    \<and> ca_escalations s' = ca_escalations (note_fetch_failure C u org (s\<lparr>ca_world := w\<rparr>))"
proof -
  have "\<not> fresh s (cache_key u org)" "confirmed C ctx u org s = None"
    using assms(2) [of "ca_world s"] assms(3) by (auto simp: fresh_def confirmed_def split: prod.splits option.splits)
  from get_tier_failed [OF assms(1) this] obtain tier err w
    where "cache_get_tier C ctx u org s = serve_without_fetch C u org tier err (note_fetch_failure C u org (s\<lparr>ca_world := w\<rparr>))"
    by blast
  then show ?thesis by (auto simp: s'_def serve_without_fetch_def Let_def split: option.splits)
qed

lemma div_Suc_step: "0 < m \<Longrightarrow> Suc n div m = (if m dvd Suc n then Suc (n div m) else n div m)"
  by (simp add: div_Suc dvd_eq_mod_eq_0)

definition calls :: "'w cache_config \<Rightarrow> string option \<Rightarrow> string \<Rightarrow> string \<Rightarrow> nat \<Rightarrow> 'w cache \<Rightarrow> 'w cache" where
  "calls C ctx u org n = (\<lambda>s. snd (cache_get_tier C ctx u org s)) ^^ n"

lemma calls_simps [simp]:
  "calls C ctx u org 0 s = s" "calls C ctx u org (Suc n) s = snd (cache_get_tier C ctx u org (calls C ctx u org n s))"
  by (simp_all add: calls_def)

text \<open>
  A sustained outage is reported. When every lookup of a user and org fails, \<open>n\<close> calls give a streak
  of \<open>n\<close> and one escalation per full threshold (at least two), so an outage hidden by the records
  that are served is still visible; a confirmed fetch after that sets the streak back to zero.
\<close>

theorem outage_is_escalated:
  assumes "0 < cc_ttl C" and "\<And>w. snd (fst (cc_inner C ctx u org w)) \<noteq> None"
    and "s = calls C ctx u org n (with_cache t0 w0)"
  shows "consecutive_failures s u org = int n
    \<and> length (ca_escalations s) = n div nat (max 2 (cc_threshold C))
    \<and> (\<forall>ctx' s'. confirmed C ctx' u org s' \<noteq> None \<longrightarrow> consecutive_failures (snd (cache_get_tier C ctx' u org s')) u org = 0)"
proof -
  let ?m = "nat (max 2 (cc_threshold C))"
  have "consecutive_failures s u org = int n \<and> length (ca_escalations s) = n div ?m \<and> ca_items s (cache_key u org) = None"
    unfolding assms(3)
  proof (induction n)
    case 0
    then show ?case by (simp add: with_cache_def consecutive_failures_def)
  next
    case (Suc n)
    let ?s = "calls C ctx u org n (with_cache t0 w0)"
    from Suc have it: "ca_items ?s (cache_key u org) = None" by blast
    from failing_call [OF assms(1,2) it] obtain w where
      w: "ca_items (snd (cache_get_tier C ctx u org ?s)) = ca_items ?s"
        "ca_failureStreaks (snd (cache_get_tier C ctx u org ?s)) = ca_failureStreaks (note_fetch_failure C u org (?s\<lparr>ca_world := w\<rparr>))"
        "ca_escalations (snd (cache_get_tier C ctx u org ?s)) = ca_escalations (note_fetch_failure C u org (?s\<lparr>ca_world := w\<rparr>))"
      by blast
    have dv: "(int n + 1) mod (max 2 (cc_threshold C)) = 0 \<longleftrightarrow> ?m dvd Suc n"
      by (metis dvd_eq_mod_eq_0 int_dvd_int_iff int_nat_eq of_nat_Suc add.commute max.coboundedI1 zero_le_numeral)
    have th: "(if cc_threshold C < 2 then 2 else cc_threshold C) = max 2 (cc_threshold C)" by simp
    have le: "max 2 (cc_threshold C) \<le> int n + 1" if "?m dvd Suc n"
      using dvd_imp_le [OF that] by linarith
    show ?case using Suc w it dv le
      by (auto simp: consecutive_failures_def note_fetch_failure_def Let_def th div_Suc_step)
  qed
  moreover have "consecutive_failures (snd (cache_get_tier C ctx' u org s')) u org = 0"
    if "confirmed C ctx' u org s' \<noteq> None" for ctx' s'
    using get_tier_confirmed [OF assms(1), of ctx' u org s'] that by (auto simp: consecutive_failures_def)
  ultimately show ?thesis by blast
qed

theorem outage_is_escalated_witness:
  "length (ca_escalations (calls (blinking\<lparr>cc_inner := \<lambda>ctx u org n. (([], Some ErrNoTier), n)\<rparr>) None ''u'' ''o'' 17 (with_cache 0 0))) = 3"
proof -
  let ?C = "blinking\<lparr>cc_inner := \<lambda>ctx u org n. (([], Some ErrNoTier), n)\<rparr>"
  have "cc_threshold ?C = 5" by (simp add: blinking_def)
  with outage_is_escalated [of ?C None "''u''" "''o''" _ 17 0 0] show ?thesis by simp
qed

text \<open>
  The never-cache-a-fallback rule holds for the mesh provider only. The JWT provider answers its
  default tier without an error when a request carries no token, so the cache takes it for a
  confirmed fetch: with no fresh entry such a request replaces a last-known-good tier by the default,
  in the process and in the durable record of the whole org.
\<close>

theorem jwt_default_overwrites_last_good:
  assumes "new_provider K cfg = Inr prov" and "tp_Type cfg = ''jwt''" and "tp_DefaultTier cfg \<noteq> []"
    and "cc_inner C = prov" and "0 < cc_ttl C" and "\<not> fresh s (cache_key u org)"
  shows "fst (cache_get_tier C None u org s) = (tp_DefaultTier cfg, None)
    \<and> ca_lastGood (snd (cache_get_tier C None u org s)) (cache_key u org) = Some \<lparr>lk_tier = tp_DefaultTier cfg, lk_ts = ca_now s\<rparr>
    \<and> (\<forall>D. cc_durable C = Some D \<longrightarrow>
         ca_world (snd (cache_get_tier C None u org s)) = lg_SetLKG D (ca_world s) org (tp_DefaultTier cfg) (ca_now s))"
proof -
  have i: "cc_inner C None u org w = ((tp_DefaultTier cfg, None), w)" for w
    using assms(1-4) by (auto simp: new_provider_def jwt_get_tier_def token_from_def)
  have m: "(case ca_items s (cache_key u org) of Some e \<Rightarrow> if ca_now s < ce_exp e then Some e else None | None \<Rightarrow> None) = None"
    using assms(6) by (auto simp: fresh_def split: option.splits)
  show ?thesis using assms(5) by (simp add: cache_get_tier_def Let_def m i split: option.splits)
qed

definition jwt_config :: tier_provider_config where
  "jwt_config = \<lparr>tp_Type = ''jwt'', tp_JWTClaimKey = [], tp_DefaultTier = ''free'', tp_Mapping = Map.empty, tp_CacheTTLSec = 60\<rparr>"

definition no_codec :: jwt_codec where
  "no_codec = \<lparr>jc_RawURL = Some, jc_Std = Some, jc_Claims = (\<lambda>_. None)\<rparr>"

theorem jwt_default_overwrites_last_good_witness:
  "\<exists>prov. new_provider no_codec jwt_config = Inr prov
     \<and> map_option lk_tier (ca_lastGood (snd (cache_get_tier (tiered\<lparr>cc_inner := prov\<rparr>) None ''u'' ''o''
          ((with_cache 0 (True, Map.empty))\<lparr>ca_lastGood := [''u|o'' \<mapsto> \<lparr>lk_tier = ''pro'', lk_ts = 0\<rparr>]\<rparr>))) ''u|o'') = Some ''free''"
proof -
  let ?s = "(with_cache 0 (True, Map.empty :: string \<rightharpoonup> string))\<lparr>ca_lastGood := [''u|o'' \<mapsto> \<lparr>lk_tier = ''pro'', lk_ts = 0\<rparr>]\<rparr>"
  obtain prov :: "(bool \<times> (string \<rightharpoonup> string)) provider" where p: "new_provider no_codec jwt_config = Inr prov"
    by (simp add: new_provider_def jwt_config_def)
  have "tp_Type jwt_config = ''jwt''" "tp_DefaultTier jwt_config = ''free''" by (simp_all add: jwt_config_def)
  moreover have "\<not> fresh ?s (cache_key ''u'' ''o'')" "cc_ttl (tiered\<lparr>cc_inner := prov\<rparr>) = 10"
    by (simp_all add: fresh_def with_cache_def tiered_def)
  moreover have "cache_key ''u'' ''o'' = ''u|o''" by (simp add: cache_key_def)
  ultimately show ?thesis
    using jwt_default_overwrites_last_good [OF p, of "tiered\<lparr>cc_inner := prov\<rparr>" ?s "''u''" "''o''"] p by auto
qed

end
