(* ===== verification/Alerts.thy ===== *)
theory Alerts
  imports Engine "HOL-Library.Word"
begin

text \<open>
  Package \<open>alerts\<close>: the manager with its cooldowns and its sustained-drift counters, the fan-out of
  \<open>Multi\<close>, the Redis metric counters and the address guard of the webhook dispatcher. What is
  dispatched and what the metric sinks receive are lists in the manager's state; each method holds
  the mutex around its decision and is one step. URL parsing, name resolution and the HTTP request
  are arguments.
\<close>

section \<open>The manager\<close>

datatype level = LevelWarning | LevelCritical

record alerts_config =
  al_Enabled :: bool
  al_CooldownSeconds :: int
  al_WebhookURL :: string
  al_WarningThreshold :: f64
  al_CriticalThreshold :: f64
  al_DriftSustainedThreshold :: int

record metric =
  me_Name :: string
  me_OrgID :: string
  me_ResourceKey :: string
  me_ResourceType :: string
  me_CounterBefore :: f64
  me_CounterAfter :: f64
  me_Delta :: f64
  me_Source :: string

record manager =
  mg_Cfg :: alerts_config
  mg_HasDispatcher :: bool
  mg_HasSinks :: bool
  mg_DriftSustainedThreshold :: int
  mg_lastSent :: "string \<rightharpoonup> instant"
  mg_driftSustained :: "string \<rightharpoonup> int"
  mg_now :: instant
  mg_sent :: "(instant \<times> level \<times> result) list"
  mg_metrics :: "metric list"

definition new_manager :: "alerts_config \<Rightarrow> bool \<Rightarrow> instant \<Rightarrow> manager" where
  "new_manager cfg hasDispatcher now =
     (let cfg = (if al_CooldownSeconds cfg = 0 then cfg\<lparr>al_CooldownSeconds := 3600\<rparr> else cfg);
          cfg = (if feq (al_WarningThreshold cfg) (Fin 0) then cfg\<lparr>al_WarningThreshold := fround (8 / 10)\<rparr> else cfg);
          cfg = (if feq (al_CriticalThreshold cfg) (Fin 0) then cfg\<lparr>al_CriticalThreshold := fround (95 / 100)\<rparr> else cfg)
      in \<lparr>mg_Cfg = cfg, mg_HasDispatcher = hasDispatcher, mg_HasSinks = False,
          mg_DriftSustainedThreshold = (if al_DriftSustainedThreshold cfg \<le> 0 then 3 else al_DriftSustainedThreshold cfg),
          mg_lastSent = Map.empty, mg_driftSustained = Map.empty, mg_now = now, mg_sent = [], mg_metrics = []\<rparr>)"

definition alerting :: "manager \<Rightarrow> bool" where
  "alerting m \<longleftrightarrow> al_Enabled (mg_Cfg m) \<and> mg_HasDispatcher m"

definition cooldown :: "manager \<Rightarrow> duration" where
  "cooldown m = al_CooldownSeconds (mg_Cfg m) * second"

text \<open>The cooldown every method applies under its key: \<open>seen && time.Since(last) < cool\<close>, otherwise the
  time is noted and the alert sent.\<close>

definition cooling :: "manager \<Rightarrow> string \<Rightarrow> bool" where
  "cooling m key \<longleftrightarrow> (case mg_lastSent m key of None \<Rightarrow> False | Some t \<Rightarrow> mg_now m - t < cooldown m)"

definition send :: "level \<Rightarrow> result \<Rightarrow> manager \<Rightarrow> manager" where
  "send l r m = m\<lparr>mg_sent := mg_sent m @ [(mg_now m, l, r)]\<rparr>"

definition send_cooled :: "string \<Rightarrow> level \<Rightarrow> result \<Rightarrow> manager \<Rightarrow> manager" where
  "send_cooled key l r m =
     (if cooling m key then m else send l r (m\<lparr>mg_lastSent := (mg_lastSent m)(key \<mapsto> mg_now m)\<rparr>))"

fun level_name :: "level \<Rightarrow> string" where
  "level_name LevelWarning = ''warning''"
| "level_name LevelCritical = ''critical''"

fun kind_name :: "event_kind \<Rightarrow> string" where
  "kind_name OverLimitAdmitted = ''over_limit_admitted''"
| "kind_name TierNotInConfig = ''tier_not_in_config''"
| "kind_name SettleConflict = ''settle_conflict''"
| "kind_name OverLimitResolved = ''over_limit_resolved''"

definition notify_key :: "level \<Rightarrow> result \<Rightarrow> string" where
  "notify_key l r = level_name l @ '':'' @ r_Resource r @ '':'' @ r_TierID r @ '':'' @ r_OrgID r"

definition notify :: "result \<Rightarrow> manager \<Rightarrow> manager" where
  "notify r m =
     (if \<not> alerting m then m
      else case r_Decision r of
        Critical \<Rightarrow> send_cooled (notify_key LevelCritical r) LevelCritical r m
      | Warn \<Rightarrow> send_cooled (notify_key LevelWarning r) LevelWarning r m
      | _ \<Rightarrow> m)"

definition quota_event_key :: "quota_event \<Rightarrow> string" where
  "quota_event_key ev = kind_name (ev_Kind ev) @ '':'' @ ev_ResourceKey ev @ '':'' @ ev_Scope ev @ '':'' @ ev_OrgID ev @ '':'' @ ev_UserID ev"

definition notify_quota_event :: "quota_event \<Rightarrow> manager \<Rightarrow> manager" where
  "notify_quota_event ev m =
     (if \<not> alerting m then m
      else send_cooled (quota_event_key ev) (if ev_Kind ev = OverLimitResolved then LevelWarning else LevelCritical)
             (r_zero\<lparr>r_Resource := ev_ResourceKey ev, r_Used := ev_Level ev, r_Reason := kind_name (ev_Kind ev),
                r_Message := kind_name (ev_Kind ev) @ '' scope='' @ ev_Scope ev, r_OrgID := ev_OrgID ev\<rparr>) m)"

definition drift_key :: "string \<Rightarrow> string \<Rightarrow> string \<Rightarrow> string" where
  "drift_key orgID resourceKey source = ''drift:'' @ resourceKey @ '':'' @ source @ '':'' @ orgID"

definition notify_drift :: "string \<Rightarrow> string \<Rightarrow> string \<Rightarrow> int \<Rightarrow> manager \<Rightarrow> manager" where
  "notify_drift orgID resourceKey source unsettleableLive m =
     (if \<not> alerting m then m
      else send_cooled (drift_key orgID resourceKey source) (if unsettleableLive > 0 then LevelCritical else LevelWarning)
             (r_zero\<lparr>r_Resource := resourceKey, r_Reason := ''drift_'' @ source,
                r_Message := ''reconciler converged '' @ resourceKey @ '' (source='' @ source @ '')''\<rparr>) m)"

definition emit_metric :: "metric \<Rightarrow> manager \<Rightarrow> manager" where
  "emit_metric x m = m\<lparr>mg_metrics := mg_metrics m @ (if mg_HasSinks m then [x] else [])\<rparr>"

definition pair_key :: "string \<Rightarrow> string \<Rightarrow> string" where
  "pair_key orgID resourceKey = orgID @ '':'' @ resourceKey"

definition drift_metric :: "string \<Rightarrow> string \<Rightarrow> string \<Rightarrow> string \<Rightarrow> f64 \<Rightarrow> f64 \<Rightarrow> metric" where
  "drift_metric orgID resourceKey source resourceType before after =
     \<lparr>me_Name = ''quota.drift_detected'', me_OrgID = orgID, me_ResourceKey = resourceKey, me_ResourceType = resourceType,
      me_CounterBefore = before, me_CounterAfter = after, me_Delta = fsub after before, me_Source = source\<rparr>"

definition sustained_alert_key :: "string \<Rightarrow> string \<Rightarrow> string" where
  "sustained_alert_key orgID resourceKey = ''drift_sustained:'' @ pair_key orgID resourceKey"

definition sustained_result :: "string \<Rightarrow> string \<Rightarrow> string \<Rightarrow> result" where
  "sustained_result orgID resourceKey source =
     r_zero\<lparr>r_Resource := resourceKey, r_Reason := ''drift_sustained'',
       r_Message := ''quota_drift_sustained org='' @ orgID @ '' resource='' @ resourceKey @ '' source='' @ source\<rparr>"

text \<open>\<open>RecordDriftTyped\<close>; \<open>RecordDrift\<close> is the call with an empty type. The prose of the message ends
  after the names it interpolates.\<close>

definition record_drift_typed :: "string \<Rightarrow> string \<Rightarrow> string \<Rightarrow> string \<Rightarrow> f64 \<Rightarrow> f64 \<Rightarrow> manager \<Rightarrow> manager" where
  "record_drift_typed orgID resourceKey source resourceType before after m =
     (let m = emit_metric (drift_metric orgID resourceKey source resourceType before after) m;
          key = pair_key orgID resourceKey;
          n = map_get 0 (mg_driftSustained m) key + 1;
          m = m\<lparr>mg_driftSustained := (mg_driftSustained m)(key \<mapsto> n)\<rparr>
      in if n < mg_DriftSustainedThreshold m \<or> \<not> alerting m then m
         else send_cooled (sustained_alert_key orgID resourceKey) LevelCritical (sustained_result orgID resourceKey source) m)"

definition record_drift :: "string \<Rightarrow> string \<Rightarrow> string \<Rightarrow> f64 \<Rightarrow> f64 \<Rightarrow> manager \<Rightarrow> manager" where
  "record_drift orgID resourceKey source before after m = record_drift_typed orgID resourceKey source [] before after m"

definition record_drift_resolved :: "string \<Rightarrow> string \<Rightarrow> manager \<Rightarrow> manager" where
  "record_drift_resolved orgID resourceKey m =
     (let key = pair_key orgID resourceKey; was = map_get 0 (mg_driftSustained m) key;
          m = (if was > 0 then m\<lparr>mg_driftSustained := (mg_driftSustained m)(key := None)\<rparr> else m)
      in if was = 0 then m
         else emit_metric \<lparr>me_Name = ''quota.drift_resolved'', me_OrgID = orgID, me_ResourceKey = resourceKey,
                me_ResourceType = [], me_CounterBefore = Fin 0, me_CounterAfter = Fin 0, me_Delta = Fin 0,
                me_Source = ''resolved''\<rparr> m)"

definition invariant_key :: "string \<Rightarrow> string" where
  "invariant_key capability = ''invariant:'' @ capability"

definition notify_invariant_violated :: "string \<Rightarrow> string \<Rightarrow> manager \<Rightarrow> manager" where
  "notify_invariant_violated capability detail m =
     (if \<not> alerting m then m
      else send_cooled (invariant_key capability) LevelCritical
             (r_zero\<lparr>r_Resource := capability, r_Reason := ''infrastructure_invariant_violated'',
                r_Message := ''infrastructure_invariant_violated capability='' @ capability @ '' detail='' @ detail\<rparr>) m)"

definition notify_invariant_restored :: "string \<Rightarrow> manager \<Rightarrow> manager" where
  "notify_invariant_restored capability m =
     (if \<not> alerting m then m
      else send LevelWarning
             (r_zero\<lparr>r_Resource := capability, r_Reason := ''infrastructure_invariant_restored'',
                r_Message := ''infrastructure_invariant_restored capability='' @ capability @ '' (D-75)''\<rparr>)
             (m\<lparr>mg_lastSent := (mg_lastSent m)(invariant_key capability := None)\<rparr>))"

definition void_key :: "string \<Rightarrow> string \<Rightarrow> string" where
  "void_key reservationID eventType = ''void:'' @ reservationID @ '':'' @ eventType"

definition notify_void :: "string \<Rightarrow> string \<Rightarrow> string \<Rightarrow> manager \<Rightarrow> manager" where
  "notify_void reservationID eventType reason m =
     (if \<not> alerting m then m
      else send_cooled (void_key reservationID eventType) LevelCritical
             (r_zero\<lparr>r_Resource := eventType, r_Reason := ''settlement_voided_'' @ reason,
                r_Message := ''settlement VOIDED reservation='' @ reservationID @ '' reason='' @ reason\<rparr>) m)"

text \<open>\<open>Multi\<close>: the children act on a world; the first error stops the fan-out.\<close>

fun multi_send :: "(level \<Rightarrow> result \<Rightarrow> 'w \<Rightarrow> goerr option \<times> 'w) list \<Rightarrow> level \<Rightarrow> result \<Rightarrow> 'w \<Rightarrow> goerr option \<times> 'w" where
  "multi_send [] l r w = (None, w)"
| "multi_send (d # ds) l r w = (case d l r w of (Some e, w) \<Rightarrow> (Some e, w) | (None, w) \<Rightarrow> multi_send ds l r w)"

section \<open>The Redis metric counters\<close>

text \<open>\<open>INCR\<close> and \<open>DEL\<close> of the client, each with its error.\<close>

record 'w redis_counters =
  rk_Incr :: "string \<Rightarrow> 'w \<Rightarrow> goerr option \<times> 'w"
  rk_Del :: "string \<Rightarrow> 'w \<Rightarrow> goerr option \<times> 'w"

definition metric_prefix :: "string \<Rightarrow> string" where
  "metric_prefix prefix = (if prefix = [] then ''quota:metrics'' else prefix)"

definition sustained_key :: "string \<Rightarrow> string \<Rightarrow> string \<Rightarrow> string" where
  "sustained_key prefix org rk = prefix @ '':drift:'' @ org @ '':'' @ rk @ '':sustained''"

definition redis_emit :: "'w redis_counters \<Rightarrow> string \<Rightarrow> metric \<Rightarrow> 'w \<Rightarrow> 'w" where
  "redis_emit R prefix x w =
     (if me_Name x = ''quota.drift_detected'' then
        let w = snd (rk_Incr R (prefix @ '':drift_detected:total'') w);
            w = snd (rk_Incr R (prefix @ '':drift_detected:'' @ me_OrgID x @ '':'' @ me_ResourceKey x) w)
        in snd (rk_Incr R (sustained_key prefix (me_OrgID x) (me_ResourceKey x)) w)
      else if me_Name x = ''quota.drift_resolved'' then
        let w = snd (rk_Incr R (prefix @ '':drift_resolved:total'') w)
        in snd (rk_Del R (sustained_key prefix (me_OrgID x) (me_ResourceKey x)) w)
      else w)"

section \<open>The webhook's address guard\<close>

unbundle bit_operations_syntax

text \<open>\<open>NewWebhookDispatcher\<close>: whether it refuses the URL, whose scheme \<open>url.Parse\<close> gives.\<close>

definition new_webhook_dispatcher :: "(string \<Rightarrow> string option) \<Rightarrow> string \<Rightarrow> goerr option" where
  "new_webhook_dispatcher scheme url =
     (if url = [] then Some (ErrBackend ''webhook: URL required'')
      else case scheme url of
        None \<Rightarrow> Some (ErrBackend ''webhook: bad URL'')
      | Some sc \<Rightarrow> if sc \<noteq> ''http'' \<and> sc \<noteq> ''https'' then Some (ErrBackend ''webhook: scheme rejected'') else None)"

datatype ip = IP4 "32 word" | IP6 "128 word"

text \<open>\<open>net.IP\<close>'s classification, and \<open>IPNet.Contains\<close> of an IPv4 network.\<close>

definition in_net :: "32 word \<Rightarrow> nat \<Rightarrow> 32 word \<Rightarrow> bool" where
  "in_net net bits a \<longleftrightarrow> drop_bit (32 - bits) a = drop_bit (32 - bits) net"

fun is_loopback :: "ip \<Rightarrow> bool" where
  "is_loopback (IP4 a) = (drop_bit 24 a = 127)"
| "is_loopback (IP6 a) = (a = 1)"

fun is_link_local_unicast :: "ip \<Rightarrow> bool" where
  "is_link_local_unicast (IP4 a) = (drop_bit 16 a = 0xA9FE)"
| "is_link_local_unicast (IP6 a) = (drop_bit 118 a = 0x3FA)"

fun is_link_local_multicast :: "ip \<Rightarrow> bool" where
  "is_link_local_multicast (IP4 a) = (drop_bit 8 a = 0xE00000)"
| "is_link_local_multicast (IP6 a) = (drop_bit 120 a = 0xFF \<and> (drop_bit 112 a AND 0xF) = 2)"

text \<open>The parsed CIDR blocks \<open>10.0.0.0/8\<close>, \<open>172.16.0.0/12\<close>, \<open>192.168.0.0/16\<close>, \<open>169.254.0.0/16\<close>.\<close>

definition private_nets :: "(32 word \<times> nat) list" where
  "private_nets = [(0x0A000000, 8), (0xAC100000, 12), (0xC0A80000, 16), (0xA9FE0000, 16)]"

fun is_private :: "ip \<Rightarrow> bool" where
  "is_private (IP4 a) = list_ex (\<lambda>(net, bits). in_net net bits a) private_nets"
| "is_private (IP6 a) = False"

definition refused_ip :: "ip \<Rightarrow> bool" where
  "refused_ip a \<longleftrightarrow> is_loopback a \<or> is_link_local_unicast a \<or> is_link_local_multicast a \<or> is_private a"

text \<open>\<open>checkSSRF\<close>: \<open>parse\<close> gives the URL's host name, \<open>lookup\<close> its addresses (\<open>None\<close> when it cannot be
  resolved).\<close>

definition check_ssrf ::
  "(string \<Rightarrow> string option) \<Rightarrow> (string \<Rightarrow> ip list option) \<Rightarrow> bool \<Rightarrow> (string \<Rightarrow> string) \<Rightarrow> string \<Rightarrow> goerr option" where
  "check_ssrf parse lookup allowPrivate lower url =
     (if allowPrivate then None
      else case parse url of
        None \<Rightarrow> Some (ErrBackend ''webhook: bad URL'')
      | Some host \<Rightarrow>
          if host = [] then Some (ErrBackend ''webhook: empty host'')
          else if lower host = ''localhost'' then Some (ErrBackend ''webhook: SSRF guard rejected localhost'')
          else case lookup host of
            None \<Rightarrow> None
          | Some ips \<Rightarrow> if list_ex refused_ip ips then Some (ErrBackend ''webhook: SSRF guard rejected'') else None)"

text \<open>\<open>Send\<close> of the webhook: the guard, then the POST, whose status or error the argument gives.\<close>

definition webhook_send ::
  "goerr option \<Rightarrow> ('w \<Rightarrow> (goerr + int) \<times> 'w) \<Rightarrow> 'w \<Rightarrow> goerr option \<times> 'w" where
  "webhook_send guard post w =
     (case guard of
        Some e \<Rightarrow> (Some e, w)
      | None \<Rightarrow>
          (case post w of
             (Inl e, w) \<Rightarrow> (Some (ErrWrap ''webhook'' e), w)
           | (Inr st, w) \<Rightarrow> (if st \<ge> 400 then Some (ErrBackend ''webhook: HTTP'') else None, w)))"

section \<open>Histories of a manager\<close>

text \<open>The calls a manager receives, in any order, and the time between them.\<close>

datatype alert_op =
    OpNotify result
  | OpQuotaEvent quota_event
  | OpDrift string string string int
  | OpRecordDrift string string string string f64 f64
  | OpDriftResolved string string
  | OpViolated string string
  | OpRestored string
  | OpVoid string string string
  | OpPass nat

fun alert_step :: "alert_op \<Rightarrow> manager \<Rightarrow> manager" where
  "alert_step (OpNotify r) m = notify r m"
| "alert_step (OpQuotaEvent ev) m = notify_quota_event ev m"
| "alert_step (OpDrift org rk src n) m = notify_drift org rk src n m"
| "alert_step (OpRecordDrift org rk src ty b a) m = record_drift_typed org rk src ty b a m"
| "alert_step (OpDriftResolved org rk) m = record_drift_resolved org rk m"
| "alert_step (OpViolated c d) m = notify_invariant_violated c d m"
| "alert_step (OpRestored c) m = notify_invariant_restored c m"
| "alert_step (OpVoid r ty why) m = notify_void r ty why m"
| "alert_step (OpPass d) m = m\<lparr>mg_now := mg_now m + int d\<rparr>"

text \<open>The cooldown key of a call.\<close>

fun op_key :: "alert_op \<Rightarrow> string option" where
  "op_key (OpNotify r) = (case r_Decision r of Critical \<Rightarrow> Some (notify_key LevelCritical r)
     | Warn \<Rightarrow> Some (notify_key LevelWarning r) | _ \<Rightarrow> None)"
| "op_key (OpQuotaEvent ev) = Some (quota_event_key ev)"
| "op_key (OpDrift org rk src n) = Some (drift_key org rk src)"
| "op_key (OpRecordDrift org rk src ty b a) = Some (sustained_alert_key org rk)"
| "op_key (OpViolated c d) = Some (invariant_key c)"
| "op_key (OpVoid r ty why) = Some (void_key r ty)"
| "op_key _ = None"

definition sends :: "alert_op \<Rightarrow> manager \<Rightarrow> bool" where
  "sends op m \<longleftrightarrow> mg_sent (alert_step op m) \<noteq> mg_sent m"

text \<open>When the alerts under one key go out.\<close>

fun sent_at :: "string \<Rightarrow> alert_op list \<Rightarrow> manager \<Rightarrow> instant list" where
  "sent_at k [] m = []"
| "sent_at k (op # ops) m = (if op_key op = Some k \<and> sends op m then [mg_now m] else []) @ sent_at k ops (alert_step op m)"

lemma send_cooled_simps:
  "cooling m k \<Longrightarrow> send_cooled k l r m = m"
  "\<not> cooling m k \<Longrightarrow> mg_lastSent (send_cooled k l r m) = (mg_lastSent m)(k \<mapsto> mg_now m)"
  "\<not> cooling m k \<Longrightarrow> mg_sent (send_cooled k l r m) = mg_sent m @ [(mg_now m, l, r)]"
  "mg_now (send_cooled k l r m) = mg_now m" "mg_Cfg (send_cooled k l r m) = mg_Cfg m"
  "mg_driftSustained (send_cooled k l r m) = mg_driftSustained m" "mg_metrics (send_cooled k l r m) = mg_metrics m"
  by (simp_all add: send_cooled_def send_def)

text \<open>What one call does to the cooldowns: nothing and no alert, or one alert under its key.\<close>

definition quiet_or_keyed :: "string option \<Rightarrow> manager \<Rightarrow> manager \<Rightarrow> bool" where
  "quiet_or_keyed ko m m' \<longleftrightarrow> mg_now m' = mg_now m \<and> mg_Cfg m' = mg_Cfg m
     \<and> (mg_lastSent m' = mg_lastSent m \<and> mg_sent m' = mg_sent m
        \<or> (\<exists>k. ko = Some k \<and> \<not> cooling m k \<and> mg_lastSent m' = (mg_lastSent m)(k \<mapsto> mg_now m) \<and> mg_sent m' \<noteq> mg_sent m))"

lemma quiet_refl: "quiet_or_keyed ko m m"
  by (simp add: quiet_or_keyed_def)

lemma quiet_send: "quiet_or_keyed (Some k) m (send_cooled k l r m)"
  by (cases "cooling m k") (simp_all add: quiet_or_keyed_def send_cooled_simps)

lemma quiet_other:
  "quiet_or_keyed ko (m\<lparr>mg_metrics := x, mg_driftSustained := d\<rparr>) m' \<Longrightarrow> quiet_or_keyed ko m m'"
  by (auto simp: quiet_or_keyed_def cooling_def cooldown_def split: option.splits)

lemma step_quiet:
  assumes "\<forall>c. op \<noteq> OpRestored c" and "\<forall>d. op \<noteq> OpPass d"
  shows "quiet_or_keyed (op_key op) m (alert_step op m)"
proof (cases op)
  case (OpRecordDrift org rk src ty b a)
  define m1 where "m1 = m\<lparr>mg_metrics := mg_metrics m @ (if mg_HasSinks m then [drift_metric org rk src ty b a] else []),
      mg_driftSustained := (mg_driftSustained m)(pair_key org rk \<mapsto> map_get 0 (mg_driftSustained m) (pair_key org rk) + 1)\<rparr>"
  have "alert_step op m = m1 \<or> alert_step op m = send_cooled (sustained_alert_key org rk) LevelCritical (sustained_result org rk src) m1"
    by (simp add: OpRecordDrift record_drift_typed_def emit_metric_def Let_def m1_def)
  then have "quiet_or_keyed (op_key op) m1 (alert_step op m)"
    using quiet_send quiet_refl by (auto simp: OpRecordDrift)
  then show ?thesis unfolding m1_def by (rule quiet_other)
next
  case (OpDriftResolved org rk)
  then show ?thesis by (simp add: record_drift_resolved_def emit_metric_def Let_def quiet_or_keyed_def)
qed (use assms in \<open>auto simp: notify_def notify_quota_event_def notify_drift_def notify_invariant_violated_def notify_void_def
      quiet_refl quiet_send split: decision.splits\<close>)

lemma sent_at_spaced:
  assumes "\<forall>c. invariant_key c = k \<longrightarrow> OpRestored c \<notin> set ops" and "0 \<le> al_CooldownSeconds (mg_Cfg m)"
  shows "sorted_wrt (\<lambda>a b. a + cooldown m \<le> b) (sent_at k ops m)
    \<and> (\<forall>t x. mg_lastSent m k = Some t \<longrightarrow> x \<in> set (sent_at k ops m) \<longrightarrow> t + cooldown m \<le> x)"
  using assms
proof (induction ops arbitrary: m)
  case Nil
  then show ?case by simp
next
  case (Cons op ops)
  let ?m = "alert_step op m"
  have c: "mg_Cfg ?m = mg_Cfg m" "cooldown ?m = cooldown m"
    and cases: "mg_lastSent ?m k = mg_lastSent m k \<and> \<not> (op_key op = Some k \<and> sends op m)
      \<or> \<not> cooling m k \<and> mg_lastSent ?m k = Some (mg_now m)"
  proof -
    have "mg_Cfg ?m = mg_Cfg m \<and> (mg_lastSent ?m k = mg_lastSent m k \<and> \<not> (op_key op = Some k \<and> sends op m)
      \<or> \<not> cooling m k \<and> mg_lastSent ?m k = Some (mg_now m))"
    proof (cases "(\<exists>c. op = OpRestored c) \<or> (\<exists>d. op = OpPass d)")
      case True
      then show ?thesis using Cons.prems(1) by (auto simp: notify_invariant_restored_def send_def)
    next
      case False
      then have "quiet_or_keyed (op_key op) m ?m" by (intro step_quiet) auto
      then show ?thesis by (auto simp: quiet_or_keyed_def sends_def)
    qed
    then show "mg_Cfg ?m = mg_Cfg m" "cooldown ?m = cooldown m" "mg_lastSent ?m k = mg_lastSent m k \<and> \<not> (op_key op = Some k \<and> sends op m)
      \<or> \<not> cooling m k \<and> mg_lastSent ?m k = Some (mg_now m)"
      by (auto simp: cooldown_def)
  qed
  have nn: "0 \<le> cooldown m" using Cons.prems(2) by (simp add: cooldown_def)
  have IH: "sorted_wrt (\<lambda>a b. a + cooldown m \<le> b) (sent_at k ops ?m)"
    "\<And>t x. mg_lastSent ?m k = Some t \<Longrightarrow> x \<in> set (sent_at k ops ?m) \<Longrightarrow> t + cooldown m \<le> x"
    using Cons.IH [of ?m] Cons.prems c by auto
  from cases show ?case
  proof
    assume "mg_lastSent ?m k = mg_lastSent m k \<and> \<not> (op_key op = Some k \<and> sends op m)"
    then show ?thesis using IH by auto
  next
    assume k: "\<not> cooling m k \<and> mg_lastSent ?m k = Some (mg_now m)"
    then have later: "mg_now m + cooldown m \<le> x" if "x \<in> set (sent_at k ops ?m)" for x using IH(2) that by blast
    have "t + cooldown m \<le> mg_now m" if "mg_lastSent m k = Some t" for t using k that by (simp add: cooling_def)
    with later nn IH(1) show ?thesis by (fastforce simp: intro: order_trans)
  qed
qed

text \<open>
  Bursts are deduplicated without silencing anything else. In every history of calls, two
  alerts under the same key (kind, resource, tier or scope, tenant) are at least one cooldown apart,
  unless the violation of an infrastructure invariant was reported as restored in between.
\<close>

theorem alerts_spaced_by_cooldown:
  assumes "0 < al_CooldownSeconds cfg" and "\<forall>c. invariant_key c = k \<longrightarrow> OpRestored c \<notin> set ops"
  shows "sorted_wrt (\<lambda>a b. a + al_CooldownSeconds cfg * second \<le> b) (sent_at k ops (new_manager cfg True t0))"
proof -
  have "mg_Cfg (new_manager cfg True t0) = cfg\<lparr>al_WarningThreshold := al_WarningThreshold (mg_Cfg (new_manager cfg True t0)),
      al_CriticalThreshold := al_CriticalThreshold (mg_Cfg (new_manager cfg True t0))\<rparr>"
    using assms(1) by (auto simp: new_manager_def Let_def)
  then have c: "al_CooldownSeconds (mg_Cfg (new_manager cfg True t0)) = al_CooldownSeconds cfg"
    by (metis alerts_config.select_convs(2) alerts_config.surjective alerts_config.update_convs(4,5))
  from sent_at_spaced [OF assms(2), of "new_manager cfg True t0"] assms(1) show ?thesis
    by (simp add: cooldown_def c)
qed

theorem alerts_spaced_by_cooldown_witness:
  "let cfg = \<lparr>al_Enabled = True, al_CooldownSeconds = 60, al_WebhookURL = [], al_WarningThreshold = Fin 1, al_CriticalThreshold = Fin 1,
        al_DriftSustainedThreshold = 3\<rparr>;
       ops = [OpVoid ''r'' ''stop'' ''x'', OpVoid ''r'' ''stop'' ''y'', OpPass 60000000000, OpVoid ''r'' ''stop'' ''z'']
   in sent_at (void_key ''r'' ''stop'') ops (new_manager cfg True 0) = [0, 60 * second]
     \<and> sorted_wrt (\<lambda>a b. a + 60 * second \<le> b) (sent_at (void_key ''r'' ''stop'') ops (new_manager cfg True 0))"
proof -
  let ?cfg = "\<lparr>al_Enabled = True, al_CooldownSeconds = 60, al_WebhookURL = [], al_WarningThreshold = Fin 1, al_CriticalThreshold = Fin 1,
        al_DriftSustainedThreshold = 3\<rparr>"
  let ?ops = "[OpVoid ''r'' ''stop'' ''x'', OpVoid ''r'' ''stop'' ''y'', OpPass 60000000000, OpVoid ''r'' ''stop'' ''z'']"
  have "sent_at (void_key ''r'' ''stop'') ?ops (new_manager ?cfg True 0) = [0, 60 * second]"
    by (simp add: new_manager_def feq_def sends_def notify_void_def alerting_def send_cooled_def send_def cooling_def cooldown_def Let_def)
  with alerts_spaced_by_cooldown [of ?cfg "void_key ''r'' ''stop''" ?ops 0] show ?thesis by (simp add: Let_def)
qed

section \<open>Drift\<close>

text \<open>
  A money incident can be muted by a smaller one. The cooldown key of a drift alert does not hold
  its level, so once a drift without unsettleable usage was reported for an org, a resource and a
  source, the critical report that usage runs which cannot be settled is dropped for a whole
  cooldown.
\<close>

theorem unsettleable_drift_muted:
  assumes "alerting m" and "\<not> cooling m (drift_key org rk src)" and "n \<le> 0" and "0 \<le> d" and "d < cooldown m" and "0 < u"
  shows "mg_sent (notify_drift org rk src u ((notify_drift org rk src n m)\<lparr>mg_now := mg_now m + d\<rparr>))
       = mg_sent m @ [(mg_now m, LevelWarning, r_zero\<lparr>r_Resource := rk, r_Reason := ''drift_'' @ src,
            r_Message := ''reconciler converged '' @ rk @ '' (source='' @ src @ '')''\<rparr>)]"
proof -
  define m1 where "m1 = notify_drift org rk src n m"
  have m1: "mg_lastSent m1 (drift_key org rk src) = Some (mg_now m)" "cooldown m1 = cooldown m"
    "mg_sent m1 = mg_sent m @ [(mg_now m, LevelWarning, r_zero\<lparr>r_Resource := rk, r_Reason := ''drift_'' @ src,
            r_Message := ''reconciler converged '' @ rk @ '' (source='' @ src @ '')''\<rparr>)]"
    using assms by (simp_all add: m1_def notify_drift_def send_cooled_simps cooldown_def)
  have "cooling (m1\<lparr>mg_now := mg_now m + d\<rparr>) (drift_key org rk src)"
    using m1(1,2) assms(5) by (simp add: cooling_def cooldown_def)
  then show ?thesis
    by (fold m1_def) (simp add: notify_drift_def send_cooled_simps m1(3))
qed

definition hourly_manager :: manager where
  "hourly_manager = (new_manager \<lparr>al_Enabled = True, al_CooldownSeconds = 0, al_WebhookURL = [], al_WarningThreshold = Fin 1,
     al_CriticalThreshold = Fin 1, al_DriftSustainedThreshold = 0\<rparr> True 0)\<lparr>mg_HasSinks := True\<rparr>"

lemma hourly_manager_simps [simp]:
  "alerting hourly_manager" "cooldown hourly_manager = 3600 * second" "\<not> cooling hourly_manager k" "mg_sent hourly_manager = []"
  "mg_now hourly_manager = 0" "mg_HasSinks hourly_manager" "mg_DriftSustainedThreshold hourly_manager = 3"
  "mg_driftSustained hourly_manager k = None" "mg_metrics hourly_manager = []"
  by (simp_all add: hourly_manager_def new_manager_def feq_def alerting_def cooldown_def cooling_def Let_def)

theorem unsettleable_drift_muted_witness:
  "map (\<lambda>(t, l, r). l) (mg_sent (notify_drift ''o'' ''gpu'' ''provider'' 7
      ((notify_drift ''o'' ''gpu'' ''provider'' 0 hourly_manager)\<lparr>mg_now := 1800 * second\<rparr>))) = [LevelWarning]"
  using unsettleable_drift_muted [of hourly_manager "''o''" "''gpu''" "''provider''" 0 "1800 * second" 7] by simp

text \<open>One heal after another of the same org and resource.\<close>

fun heals :: "string \<Rightarrow> string \<Rightarrow> (string \<times> string \<times> f64 \<times> f64) list \<Rightarrow> manager \<Rightarrow> manager" where
  "heals org rk [] m = m"
| "heals org rk ((src, ty, b, a) # hs) m = heals org rk hs (record_drift_typed org rk src ty b a m)"

lemma heals_append: "heals org rk (hs @ [(src, ty, b, a)]) m = record_drift_typed org rk src ty b a (heals org rk hs m)"
  by (induction org rk hs m rule: heals.induct) auto

lemma record_drift_metrics:
  "mg_metrics (record_drift_typed org rk src ty b a m) = mg_metrics m @ (if mg_HasSinks m then [drift_metric org rk src ty b a] else [])"
  "mg_driftSustained (record_drift_typed org rk src ty b a m) =
     (mg_driftSustained m)(pair_key org rk \<mapsto> map_get 0 (mg_driftSustained m) (pair_key org rk) + 1)"
  "mg_now (record_drift_typed org rk src ty b a m) = mg_now m" "mg_Cfg (record_drift_typed org rk src ty b a m) = mg_Cfg m"
  "mg_HasSinks (record_drift_typed org rk src ty b a m) = mg_HasSinks m"
  "mg_HasDispatcher (record_drift_typed org rk src ty b a m) = mg_HasDispatcher m"
  "mg_DriftSustainedThreshold (record_drift_typed org rk src ty b a m) = mg_DriftSustainedThreshold m"
  by (simp_all add: record_drift_typed_def emit_metric_def send_cooled_def send_def Let_def)

lemma record_drift_page:
  assumes "alerting m" and "n = map_get 0 (mg_driftSustained m) (pair_key org rk) + 1"
  shows "mg_sent (record_drift_typed org rk src ty b a m) = mg_sent m @
      (if mg_DriftSustainedThreshold m \<le> n \<and> \<not> cooling m (sustained_alert_key org rk)
       then [(mg_now m, LevelCritical, sustained_result org rk src)] else [])"
    and "mg_lastSent (record_drift_typed org rk src ty b a m) =
      (if mg_DriftSustainedThreshold m \<le> n \<and> \<not> cooling m (sustained_alert_key org rk)
       then (mg_lastSent m)(sustained_alert_key org rk \<mapsto> mg_now m) else mg_lastSent m)"
  using assms
  by (auto simp: record_drift_typed_def emit_metric_def send_cooled_def send_def Let_def alerting_def cooling_def cooldown_def
      split: option.splits)

lemma heals_state:
  assumes "alerting m" and "mg_HasSinks m" and "mg_driftSustained m (pair_key org rk) = None"
    and "\<not> cooling m (sustained_alert_key org rk)" and "0 < cooldown m" and "1 \<le> mg_DriftSustainedThreshold m"
  shows "mg_metrics (heals org rk hs m) = mg_metrics m @ map (\<lambda>(src, ty, b, a). drift_metric org rk src ty b a) hs
    \<and> map_get 0 (mg_driftSustained (heals org rk hs m)) (pair_key org rk) = int (length hs)
    \<and> alerting (heals org rk hs m) \<and> mg_HasSinks (heals org rk hs m) \<and> mg_now (heals org rk hs m) = mg_now m
    \<and> mg_Cfg (heals org rk hs m) = mg_Cfg m \<and> mg_DriftSustainedThreshold (heals org rk hs m) = mg_DriftSustainedThreshold m
    \<and> (if int (length hs) < mg_DriftSustainedThreshold m
       then mg_sent (heals org rk hs m) = mg_sent m \<and> mg_lastSent (heals org rk hs m) = mg_lastSent m
       else (\<exists>src. mg_sent (heals org rk hs m) = mg_sent m @ [(mg_now m, LevelCritical, sustained_result org rk src)])
          \<and> mg_lastSent (heals org rk hs m) (sustained_alert_key org rk) = Some (mg_now m))"
proof (induction hs rule: rev_induct)
  case Nil
  then show ?case using assms by simp
next
  case (snoc h hs)
  obtain src ty b a where h: "h = (src, ty, b, a)" by (cases h)
  let ?m = "heals org rk hs m"
  have cool: "cooling ?m (sustained_alert_key org rk) \<longleftrightarrow> \<not> int (length hs) < mg_DriftSustainedThreshold m"
    using snoc assms(4,5) by (auto simp: cooling_def cooldown_def split: if_splits option.splits)
  have al: "alerting (record_drift_typed org rk src ty b a ?m) = alerting ?m" by (simp add: alerting_def record_drift_metrics)
  from snoc cool al show ?case
    unfolding h heals_append
    by (auto simp: record_drift_metrics record_drift_page split: if_splits)
qed

text \<open>
  Recurring drift is counted every time and paged once. A sequence of heals of one org and resource
  emits one metric per heal, whatever the cooldown; it raises exactly one critical alert, when the
  number of heals reaches the threshold, and none below it. Reporting the drift as resolved then
  clears the count and emits one metric, or does nothing at all when there was no drift.
\<close>

theorem sustained_drift_pages_once:
  assumes "alerting m" and "mg_HasSinks m" and "mg_driftSustained m (pair_key org rk) = None"
    and "\<not> cooling m (sustained_alert_key org rk)" and "0 < cooldown m" and "1 \<le> mg_DriftSustainedThreshold m"
  shows "mg_metrics (heals org rk hs m) = mg_metrics m @ map (\<lambda>(src, ty, b, a). drift_metric org rk src ty b a) hs
    \<and> length (mg_sent (heals org rk hs m)) = length (mg_sent m) + (if int (length hs) < mg_DriftSustainedThreshold m then 0 else 1)
    \<and> length (mg_metrics (record_drift_resolved org rk (heals org rk hs m)))
        = length (mg_metrics m) + length hs + (if hs = [] then 0 else 1)
    \<and> map_get 0 (mg_driftSustained (record_drift_resolved org rk (heals org rk hs m))) (pair_key org rk) = 0"
  using heals_state [OF assms, of hs]
  by (auto simp: record_drift_resolved_def emit_metric_def Let_def split: if_splits)

theorem sustained_drift_pages_once_witness:
  "length (mg_sent (heals ''o'' ''gpu'' (replicate 5 (''provider'', ''gauge'', Fin 3, Fin 2)) hourly_manager)) = 1
   \<and> length (mg_sent (heals ''o'' ''gpu'' (replicate 2 (''provider'', ''gauge'', Fin 3, Fin 2)) hourly_manager)) = 0"
  using sustained_drift_pages_once [of hourly_manager "''o''" "''gpu''" "replicate 5 (''provider'', ''gauge'', Fin 3, Fin 2)"]
    sustained_drift_pages_once [of hourly_manager "''o''" "''gpu''" "replicate 2 (''provider'', ''gauge'', Fin 3, Fin 2)"] by simp

section \<open>Addresses\<close>

lemma drop_bit_word_eq: "(drop_bit n a = (b :: 'a::len word)) \<longleftrightarrow> unat a div 2 ^ n = unat b"
  unfolding word_unat_eq_iff unat_drop_bit_eq by (simp add: drop_bit_eq_div)

lemma refused_ip4:
  "refused_ip (IP4 a) \<longleftrightarrow> unat a div 2 ^ 24 \<in> {10, 127} \<or> unat a div 2 ^ 20 = 172 * 16 + 1
      \<or> unat a div 2 ^ 16 \<in> {192 * 256 + 168, 169 * 256 + 254} \<or> unat a div 2 ^ 8 = 224 * 65536"
proof -
  have n: "drop_bit 24 (0x0A000000 :: 32 word) = 10" "drop_bit 20 (0xAC100000 :: 32 word) = 0xAC1"
    "drop_bit 16 (0xC0A80000 :: 32 word) = 0xC0A8" "drop_bit 16 (0xA9FE0000 :: 32 word) = 0xA9FE"
    by simp_all
  show ?thesis
    by (auto simp: refused_ip_def private_nets_def in_net_def n drop_bit_word_eq)
qed

lemma unique_local_not_refused:
  assumes "drop_bit 121 a = (0x7E :: 128 word)"
  shows "\<not> refused_ip (IP6 a)"
proof -
  have d: "unat a div 2 ^ 121 = 126" using assms by (simp add: drop_bit_word_eq)
  have "unat a div 2 ^ 118 div 2 ^ 3 = 126" "unat a div 2 ^ 120 div 2 ^ 1 = 126"
    using d by (simp_all flip: div_mult2_eq)
  then show ?thesis using d
    by (auto simp: refused_ip_def drop_bit_word_eq)
qed

text \<open>
  The webhook guard refuses exactly the IPv4 ranges it means to: loopback, the three private
  blocks, link-local and link-local multicast; a URL it accepts without the private-network switch
  resolves to none of them when it resolves. Two ranges it does not cover are reachable: the
  unspecified address \<open>0.0.0.0\<close> and IPv6 unique local addresses (\<open>fc00::/7\<close>).
\<close>

theorem ssrf_guard_ranges:
  "(\<forall>a. refused_ip (IP4 a) \<longleftrightarrow> unat a div 2 ^ 24 \<in> {10, 127} \<or> unat a div 2 ^ 20 = 172 * 16 + 1
      \<or> unat a div 2 ^ 16 \<in> {192 * 256 + 168, 169 * 256 + 254} \<or> unat a div 2 ^ 8 = 224 * 65536)
   \<and> (\<forall>parse lookup lower url host ips. check_ssrf parse lookup False lower url = None \<longrightarrow> parse url = Some host
      \<longrightarrow> lookup host = Some ips \<longrightarrow> \<not> list_ex refused_ip ips)
   \<and> \<not> refused_ip (IP4 0) \<and> (\<forall>a. drop_bit 121 a = 0x7E \<longrightarrow> \<not> refused_ip (IP6 a))"
proof (intro conjI allI impI)
  show "refused_ip (IP4 a) \<longleftrightarrow> unat a div 2 ^ 24 \<in> {10, 127} \<or> unat a div 2 ^ 20 = 172 * 16 + 1
      \<or> unat a div 2 ^ 16 \<in> {192 * 256 + 168, 169 * 256 + 254} \<or> unat a div 2 ^ 8 = 224 * 65536" for a
    by (rule refused_ip4)
  show "\<not> refused_ip (IP4 0)" unfolding refused_ip4 by simp
qed (auto simp: check_ssrf_def unique_local_not_refused split: if_splits)

theorem ssrf_guard_ranges_witness:
  "check_ssrf Some (\<lambda>_. Some [IP4 0x08080808]) False id ''hooks.example'' = None \<and> \<not> refused_ip (IP4 0x08080808)"
proof -
  have c: "check_ssrf Some (\<lambda>_. Some [IP4 0x08080808]) False id ''hooks.example'' = None"
    by (simp add: check_ssrf_def refused_ip4)
  have "\<not> list_ex refused_ip [IP4 0x08080808]"
    using ssrf_guard_ranges c by blast
  with c show ?thesis by simp
qed

end
