(* ===== verification/Migration.thy ===== *)
theory Migration
  imports Keyspace
begin

text \<open>
  \<open>counters/keyspace_migration.go\<close>: the migration of one service from the v1 to the v2 shape of the
  counter keys (dual-on, backfill, verify, flip, reap), the straggler check and the boot guards. The
  Redis client is a record of the commands the code issues, acting on a database that is threaded
  through; the replies of a \<open>SCAN\<close> iteration, page by page, are an argument, and so are the JSON codec
  of the marker and \<open>strconv.ParseFloat\<close>. The Lua seed script is its commands in order.
\<close>

section \<open>The marker\<close>

record marker =
  mk_HighWater :: string
  mk_Phase :: string
  mk_DualSince :: f64
  mk_UpdatedAt :: f64
  mk_By :: string

definition marker_zero :: marker where
  "marker_zero = \<lparr>mk_HighWater = [], mk_Phase = [], mk_DualSince = Fin 0, mk_UpdatedAt = Fin 0, mk_By = []\<rparr>"

record 'w redis_db =
  db_Get :: "'w \<Rightarrow> string \<Rightarrow> goerr + string option"
  db_Set :: "'w \<Rightarrow> string \<Rightarrow> string \<Rightarrow> goerr option \<times> 'w"
  db_Exists :: "'w \<Rightarrow> string \<Rightarrow> goerr + bool"
  db_PTTL :: "'w \<Rightarrow> string \<Rightarrow> goerr + int"
  db_PExpire :: "'w \<Rightarrow> string \<Rightarrow> int \<Rightarrow> goerr option \<times> 'w"
  db_Del :: "'w \<Rightarrow> string \<Rightarrow> (goerr + nat) \<times> 'w"

record marker_codec =
  mc_Marshal :: "marker \<Rightarrow> string"
  mc_Unmarshal :: "string \<Rightarrow> marker option"

datatype gate_refusal = NotInDualPhase | TooYoung f64 f64 | NotVerified

datatype mig_error =
    MigrationError string
  | FlipRefused gate_refusal
  | KeyspaceConfigError string
  | DbError goerr

definition read_marker :: "marker_codec \<Rightarrow> 'w redis_db \<Rightarrow> string \<Rightarrow> 'w \<Rightarrow> mig_error + marker option" where
  "read_marker J D service w =
     (case db_Get D w (marker_key service) of
        Inl e \<Rightarrow> Inl (DbError e)
      | Inr None \<Rightarrow> Inr None
      | Inr (Some raw) \<Rightarrow>
          (case mc_Unmarshal J raw of
             None \<Rightarrow> Inl (DbError (ErrBackend ''keyspace marker unparseable''))
           | Some m \<Rightarrow> Inr (Some m)))"

section \<open>The migrator\<close>

record 'w migrator =
  mi_C :: "'w redis_db"
  mi_Codec :: marker_codec
  mi_ParseFloat :: "string \<Rightarrow> f64"
  mi_Service :: string
  mi_MaxRateWindowSeconds :: int

record 'w mig_state =
  mt_verifiedOK :: bool
  mt_now :: instant
  mt_db :: 'w

definition mig_now :: "'w mig_state \<Rightarrow> f64" where
  "mig_now s = fdiv (of_go_int (mt_now s)) (Fin (of_int second))"

definition mig_ks :: "'w migrator \<Rightarrow> keyspace" where
  "mig_ks M = \<lparr>ks_Service = mi_Service M, ks_Version = 2, ks_DualWrite = False\<rparr>"

definition stamp_marker :: "f64 \<Rightarrow> marker \<Rightarrow> marker" where
  "stamp_marker now m =
     m\<lparr>mk_UpdatedAt := now, mk_By := (if mk_By m = [] then ''ab0t-quota-go keyspace migrator'' else mk_By m)\<rparr>"

definition write_marker :: "'w migrator \<Rightarrow> (marker \<Rightarrow> marker) \<Rightarrow> 'w mig_state \<Rightarrow> (mig_error + marker) \<times> 'w mig_state" where
  "write_marker M mutate s =
     (case read_marker (mi_Codec M) (mi_C M) (mi_Service M) (mt_db s) of
        Inl e \<Rightarrow> (Inl e, s)
      | Inr cur \<Rightarrow>
          let cur = stamp_marker (mig_now s) (mutate (case cur of None \<Rightarrow> marker_zero | Some m \<Rightarrow> m)) in
             (case db_Set (mi_C M) (mt_db s) (marker_key (mi_Service M)) (mc_Marshal (mi_Codec M) cur) of
                (Some e, w) \<Rightarrow> (Inl (DbError e), s\<lparr>mt_db := w\<rparr>)
              | (None, w) \<Rightarrow> (Inr cur, s\<lparr>mt_db := w\<rparr>)))"

definition in_dual :: "marker option \<Rightarrow> bool" where
  "in_dual m \<longleftrightarrow> (case m of None \<Rightarrow> False | Some m \<Rightarrow> mk_Phase m = ''dual'' \<or> mk_Phase m = ''flipped'')"

definition is_final :: "marker option \<Rightarrow> bool" where
  "is_final m \<longleftrightarrow> (case m of None \<Rightarrow> False | Some m \<Rightarrow> mk_HighWater m = ''v2-final'')"

definition dual_on :: "'w migrator \<Rightarrow> 'w mig_state \<Rightarrow> (mig_error + marker) \<times> 'w mig_state" where
  "dual_on M s =
     (case read_marker (mi_Codec M) (mi_C M) (mi_Service M) (mt_db s) of
        Inl e \<Rightarrow> (Inl e, s)
      | Inr cur \<Rightarrow>
          if is_final cur then (Inl (MigrationError ''keyspace regression''), s)
          else if in_dual cur then (Inr (the cur), s)
          else write_marker M (\<lambda>m. m\<lparr>mk_Phase := ''dual'', mk_HighWater := ''dual'', mk_DualSince := mig_now s\<rparr>) s)"

section \<open>Scanning\<close>

text \<open>A callback may stop the scan with an error, or when the budget of a backfill is spent.\<close>

datatype scan_stop = StopErr mig_error | Budget

fun scan_page ::
  "string list \<Rightarrow> (string \<Rightarrow> string \<Rightarrow> string \<Rightarrow> string \<Rightarrow> 's \<Rightarrow> scan_stop option \<times> 's) \<Rightarrow> string list \<Rightarrow> 's \<Rightarrow> scan_stop option \<times> 's" where
  "scan_page tails fn [] s = (None, s)"
| "scan_page tails fn (k # ks) s =
     (case classify_v1 k of
        None \<Rightarrow> scan_page tails fn ks s
      | Some (org, rk, tail) \<Rightarrow>
          if takeWhile (\<lambda>c. c \<noteq> CHR '':'') tail \<notin> set tails then scan_page tails fn ks s
          else (case fn k org rk tail s of
                  (Some e, s) \<Rightarrow> (Some e, s)
                | (None, s) \<Rightarrow> scan_page tails fn ks s))"

fun scan_v1 ::
  "string list \<Rightarrow> (string \<Rightarrow> string \<Rightarrow> string \<Rightarrow> string \<Rightarrow> 's \<Rightarrow> scan_stop option \<times> 's) \<Rightarrow> (goerr + string list) list \<Rightarrow> 's \<Rightarrow> scan_stop option \<times> 's" where
  "scan_v1 tails fn [] s = (None, s)"
| "scan_v1 tails fn (Inl e # ps) s = (Some (StopErr (DbError e)), s)"
| "scan_v1 tails fn (Inr ks # ps) s =
     (case scan_page tails fn ks s of (Some e, s) \<Rightarrow> (Some e, s) | (None, s) \<Rightarrow> scan_v1 tails fn ps s)"

definition backfill_tails :: "string list" where
  "backfill_tails = [''gauge'', ''acc'']"

definition reap_tails :: "string list" where
  "reap_tails = [''gauge'', ''acc'', ''rate'', ''idem'', ''idemgen'']"

definition v2_twin :: "'w migrator \<Rightarrow> string \<Rightarrow> string \<Rightarrow> string \<Rightarrow> string" where
  "v2_twin M org rk tail = prefix_v (mig_ks M) org rk 2 @ '':'' @ tail"

section \<open>Backfill\<close>

text \<open>\<open>migrationSeedScript\<close>; an error of a command aborts the script.\<close>

definition seed_script :: "'w redis_db \<Rightarrow> string \<Rightarrow> string \<Rightarrow> 'w \<Rightarrow> (goerr + int) \<times> 'w" where
  "seed_script D k1 k2 w =
     (case db_Exists D w k2 of
        Inl e \<Rightarrow> (Inl e, w)
      | Inr True \<Rightarrow> (Inr 0, w)
      | Inr False \<Rightarrow>
          (case db_Get D w k1 of
             Inl e \<Rightarrow> (Inl e, w)
           | Inr None \<Rightarrow> (Inr 0, w)
           | Inr (Some v) \<Rightarrow>
               (case db_Set D w k2 v of
                  (Some e, w) \<Rightarrow> (Inl e, w)
                | (None, w) \<Rightarrow>
                    (case db_PTTL D w k1 of
                       Inl e \<Rightarrow> (Inl e, w)
                     | Inr t \<Rightarrow>
                         if t > 0 then (case db_PExpire D w k2 t of (Some e, w) \<Rightarrow> (Inl e, w) | (None, w) \<Rightarrow> (Inr 1, w))
                         else (Inr 1, w)))))"

record 'w fill_state =
  fi_scanned :: int
  fi_seeded :: int
  fi_db :: 'w

definition backfill_one :: "'w migrator \<Rightarrow> int \<Rightarrow> string \<Rightarrow> string \<Rightarrow> string \<Rightarrow> string \<Rightarrow> 'w fill_state \<Rightarrow> scan_stop option \<times> 'w fill_state" where
  "backfill_one M budget key org rk tail s =
     (let s = s\<lparr>fi_scanned := fi_scanned s + 1\<rparr> in
      case seed_script (mi_C M) key (v2_twin M org rk tail) (fi_db s) of
        (Inl e, w) \<Rightarrow> (Some (StopErr (DbError e)), s\<lparr>fi_db := w\<rparr>)
      | (Inr n, w) \<Rightarrow>
          let s = s\<lparr>fi_seeded := fi_seeded s + n, fi_db := w\<rparr> in
          if budget > 0 \<and> fi_seeded s \<ge> budget then (Some Budget, s) else (None, s))"

definition backfill ::
  "'w migrator \<Rightarrow> int \<Rightarrow> (goerr + string list) list \<Rightarrow> 'w mig_state \<Rightarrow> (int \<times> int \<times> mig_error option) \<times> 'w mig_state" where
  "backfill M budget pages s =
     (case read_marker (mi_Codec M) (mi_C M) (mi_Service M) (mt_db s) of
        Inl e \<Rightarrow> ((0, 0, Some e), s)
      | Inr marker \<Rightarrow>
          if \<not> in_dual marker then ((0, 0, Some (MigrationError ''backfill requires dual-on first'')), s)
          else (case scan_v1 backfill_tails (backfill_one M budget) pages \<lparr>fi_scanned = 0, fi_seeded = 0, fi_db = mt_db s\<rparr> of
                  (stop, f) \<Rightarrow>
                    ((fi_scanned f, fi_seeded f, (case stop of Some (StopErr e) \<Rightarrow> Some e | _ \<Rightarrow> None)),
                     s\<lparr>mt_db := fi_db f\<rparr>)))"

section \<open>Verify\<close>

record verify_result =
  vr_OK :: bool
  vr_Compared :: int
  vr_Divergent :: "string list"

definition migration_eps :: f64 where
  "migration_eps = fround (1 / 10 ^ 9)"

definition verify_one :: "'w migrator \<Rightarrow> f64 \<Rightarrow> 'w \<Rightarrow> string \<Rightarrow> string \<Rightarrow> string \<Rightarrow> string \<Rightarrow> verify_result \<Rightarrow> scan_stop option \<times> verify_result" where
  "verify_one M tolerance w key org rk tail out =
     (let out = out\<lparr>vr_Compared := vr_Compared out + 1\<rparr> in
      case db_Get (mi_C M) w key of
        Inl e \<Rightarrow> (Some (StopErr (DbError e)), out)
      | Inr v1 \<Rightarrow>
          (case db_Get (mi_C M) w (v2_twin M org rk tail) of
             Inl e \<Rightarrow> (Some (StopErr (DbError e)), out)
           | Inr v2 \<Rightarrow>
               let f1 = mi_ParseFloat M (case v1 of None \<Rightarrow> [] | Some s \<Rightarrow> s);
                   f2 = mi_ParseFloat M (case v2 of None \<Rightarrow> [] | Some s \<Rightarrow> s)
               in (None, if v2 = None \<or> fgt (fabs (fsub f1 f2)) tolerance
                         then out\<lparr>vr_OK := False, vr_Divergent := vr_Divergent out @ [key]\<rparr> else out)))"

definition verify :: "'w migrator \<Rightarrow> f64 \<Rightarrow> (goerr + string list) list \<Rightarrow> 'w mig_state \<Rightarrow> (verify_result \<times> mig_error option) \<times> 'w mig_state" where
  "verify M tolerance pages s =
     (let tolerance = (if fle tolerance (Fin 0) then migration_eps else tolerance) in
      case scan_v1 backfill_tails (verify_one M tolerance (mt_db s)) pages \<lparr>vr_OK = True, vr_Compared = 0, vr_Divergent = []\<rparr> of
        (Some (StopErr e), out) \<Rightarrow> ((out, Some e), s)
      | (_, out) \<Rightarrow> ((out, None), s\<lparr>mt_verifiedOK := vr_OK out\<rparr>))"

section \<open>Flip and reap\<close>

definition flip_gate :: "'w migrator \<Rightarrow> 'w mig_state \<Rightarrow> marker option \<Rightarrow> gate_refusal option" where
  "flip_gate M s marker =
     (if \<not> in_dual marker then Some NotInDualPhase
      else
        let m = the marker;
            wait = of_go_int 86400;
            w = of_go_int (mi_MaxRateWindowSeconds M);
            wait = (if fgt w wait then w else wait);
            age = (if feq (mk_DualSince m) (Fin 0) then Fin 0 else fsub (mig_now s) (mk_DualSince m))
        in if flt age wait then Some (TooYoung age wait)
           else if \<not> mt_verifiedOK s then Some NotVerified else None)"

definition flip :: "'w migrator \<Rightarrow> 'w mig_state \<Rightarrow> (mig_error + marker) \<times> 'w mig_state" where
  "flip M s =
     (case read_marker (mi_Codec M) (mi_C M) (mi_Service M) (mt_db s) of
        Inl e \<Rightarrow> (Inl e, s)
      | Inr marker \<Rightarrow>
          (case flip_gate M s marker of
             Some r \<Rightarrow> (Inl (FlipRefused r), s)
           | None \<Rightarrow> write_marker M (\<lambda>m. m\<lparr>mk_Phase := ''flipped'', mk_HighWater := ''flipped''\<rparr>) s))"

definition reap_one :: "'w redis_db \<Rightarrow> string \<Rightarrow> string \<Rightarrow> string \<Rightarrow> string \<Rightarrow> nat \<times> 'w \<Rightarrow> scan_stop option \<times> nat \<times> 'w" where
  "reap_one D key org rk tail s =
     (case db_Del D (snd s) key of
        (Inl e, w) \<Rightarrow> (Some (StopErr (DbError e)), fst s, w)
      | (Inr n, w) \<Rightarrow> (None, fst s + n, w))"

definition reap ::
  "'w migrator \<Rightarrow> bool \<Rightarrow> (goerr + string list) list \<Rightarrow> 'w mig_state \<Rightarrow> (nat \<times> mig_error option) \<times> 'w mig_state" where
  "reap M confirm pages s =
     (case read_marker (mi_Codec M) (mi_C M) (mi_Service M) (mt_db s) of
        Inl e \<Rightarrow> ((0, Some e), s)
      | Inr marker \<Rightarrow>
          if (case marker of None \<Rightarrow> True | Some m \<Rightarrow> mk_Phase m \<noteq> ''flipped'' \<and> mk_Phase m \<noteq> ''reaped'')
          then ((0, Some (MigrationError ''reap refused: flip has not been recorded'')), s)
          else if \<not> mt_verifiedOK s then ((0, Some (MigrationError ''reap refused: verify has not passed in this run'')), s)
          else if \<not> confirm then ((0, Some (MigrationError ''reap refused: v1 counter keys carry no service scope'')), s)
          else (case write_marker M (\<lambda>m. m\<lparr>mk_HighWater := ''v2-final'', mk_Phase := ''reaped''\<rparr>) s of
                  (Inl e, s) \<Rightarrow> ((0, Some e), s)
                | (Inr _, s) \<Rightarrow>
                    (case scan_v1 reap_tails (reap_one (mi_C M)) pages (0, mt_db s) of
                       (stop, deleted, w) \<Rightarrow>
                         ((deleted, (case stop of Some (StopErr e) \<Rightarrow> Some e | _ \<Rightarrow> None)), s\<lparr>mt_db := w\<rparr>))))"

section \<open>Status, stragglers and the boot guards\<close>

definition all_v1 :: "string list \<Rightarrow> string list" where
  "all_v1 ks = filter (\<lambda>k. classify_v1 k \<noteq> None) ks"

fun status_scan :: "(goerr + string list) list \<Rightarrow> nat \<Rightarrow> nat \<Rightarrow> goerr + nat \<times> nat" where
  "status_scan [] n1 n2 = Inr (n1, n2)"
| "status_scan (Inl e # ps) n1 n2 = Inl e"
| "status_scan (Inr ks # ps) n1 n2 =
     status_scan ps (n1 + length (filter (\<lambda>k. \<not> has_prefix k ''quota:v2:'' \<and> classify_v1 k \<noteq> None) ks))
       (n2 + length (filter (\<lambda>k. has_prefix k ''quota:v2:'') ks))"

definition mig_status ::
  "'w migrator \<Rightarrow> (goerr + string list) list \<Rightarrow> 'w mig_state \<Rightarrow> mig_error + marker option \<times> nat \<times> nat" where
  "mig_status M pages s =
     (case status_scan pages 0 0 of
        Inl e \<Rightarrow> Inl (DbError e)
      | Inr (n1, n2) \<Rightarrow>
          (case read_marker (mi_Codec M) (mi_C M) (mi_Service M) (mt_db s) of
             Inl e \<Rightarrow> Inl e
           | Inr m \<Rightarrow> Inr (m, n1, n2)))"

text \<open>The straggler scan stops after the page on which it has seen 50.\<close>

fun straggler_scan :: "(goerr + string list) list \<Rightarrow> string list \<Rightarrow> goerr + string list" where
  "straggler_scan [] acc = Inr acc"
| "straggler_scan (Inl e # ps) acc = (if length acc < 50 then Inl e else Inr acc)"
| "straggler_scan (Inr ks # ps) acc = (if length acc < 50 then straggler_scan ps (acc @ all_v1 ks) else Inr acc)"

text \<open>The count, and the alert that is raised after a flip: the count and a sample of five.\<close>

definition check_v1_stragglers ::
  "marker_codec \<Rightarrow> 'w redis_db \<Rightarrow> string \<Rightarrow> (goerr + string list) list \<Rightarrow> 'w \<Rightarrow> mig_error + nat \<times> (nat \<times> string list) option" where
  "check_v1_stragglers J D service pages w =
     (case read_marker J D service w of
        Inl e \<Rightarrow> Inl e
      | Inr marker \<Rightarrow>
          let postFlip = (case marker of None \<Rightarrow> False | Some m \<Rightarrow> mk_Phase m = ''flipped'' \<or> mk_Phase m = ''reaped'') in
          (case straggler_scan pages [] of
             Inl e \<Rightarrow> Inl (DbError e)
           | Inr found \<Rightarrow>
               Inr (length found, if postFlip \<and> found \<noteq> [] then Some (length found, take 5 found) else None)))"

fun find_v1 :: "(goerr + string list) list \<Rightarrow> goerr + string option" where
  "find_v1 [] = Inr None"
| "find_v1 (Inl e # ps) = Inl e"
| "find_v1 (Inr ks # ps) = (case all_v1 ks of [] \<Rightarrow> find_v1 ps | k # _ \<Rightarrow> Inr (Some k))"

definition check_boot_keyspace ::
  "marker_codec \<Rightarrow> 'w redis_db \<Rightarrow> keyspace \<Rightarrow> (goerr + string list) list \<Rightarrow> 'w \<Rightarrow> mig_error + marker option" where
  "check_boot_keyspace J D k pages w =
     (if ks_Service k = [] then Inr None
      else case read_marker J D (ks_Service k) w of
        Inl e \<Rightarrow> Inl e
      | Inr marker \<Rightarrow>
          if is_final marker \<and> (ks_version k = 1 \<or> ks_DualWrite k) then Inl (KeyspaceConfigError ''QUOTA-CFG-011'')
          else if ks_version k = 2 \<and> \<not> ks_DualWrite k \<and> \<not> is_final marker then
            (case find_v1 pages of
               Inl e \<Rightarrow> Inl (DbError e)
             | Inr (Some _) \<Rightarrow> Inl (KeyspaceConfigError ''QUOTA-CFG-012'')
             | Inr None \<Rightarrow> Inr marker)
          else Inr marker)"

section \<open>What the code relies on of Redis\<close>

text \<open>
  The contents of a database as a map from keys to values: a reply that is no error tells them, a
  command that succeeds changes its own key only, and one that fails did or did not take effect.
\<close>

definition redis_laws :: "'w redis_db \<Rightarrow> ('w \<Rightarrow> string \<rightharpoonup> string) \<Rightarrow> bool" where
  "redis_laws D kv \<longleftrightarrow>
     (\<forall>w k r. db_Get D w k = Inr r \<longrightarrow> r = kv w k)
     \<and> (\<forall>w k b. db_Exists D w k = Inr b \<longrightarrow> b = (kv w k \<noteq> None))
     \<and> (\<forall>w k v e w'. db_Set D w k v = (e, w') \<longrightarrow> kv w' = (kv w)(k \<mapsto> v) \<or> e \<noteq> None \<and> kv w' = kv w)
     \<and> (\<forall>w k t e w'. db_PExpire D w k t = (e, w') \<longrightarrow> kv w' = kv w)
     \<and> (\<forall>w k r w'. db_Del D w k = (r, w') \<longrightarrow> kv w' = (kv w)(k := None) \<or> (\<exists>e. r = Inl e) \<and> kv w' = kv w)"

lemma redis_lawsD:
  assumes "redis_laws D kv"
  shows "db_Get D w k = Inr r \<Longrightarrow> r = kv w k"
    and "db_Exists D w k = Inr b \<Longrightarrow> b = (kv w k \<noteq> None)"
    and "db_Set D w k v = (e, w') \<Longrightarrow> kv w' = (kv w)(k \<mapsto> v) \<or> e \<noteq> None \<and> kv w' = kv w"
    and "db_PExpire D w k t = (e, w') \<Longrightarrow> kv w' = kv w"
    and "db_Del D w k = (rd, w') \<Longrightarrow> kv w' = (kv w)(k := None) \<or> (\<exists>e. rd = Inl e) \<and> kv w' = kv w"
  using assms unfolding redis_laws_def by blast+

text \<open>A \<open>SCAN\<close> iteration answers every key that is there throughout.\<close>

definition scan_complete :: "(goerr + string list) list \<Rightarrow> (string \<rightharpoonup> string) \<Rightarrow> bool" where
  "scan_complete pages m \<longleftrightarrow> (\<forall>k. m k \<noteq> None \<longrightarrow> has_prefix k ''quota:'' \<longrightarrow> (\<exists>ks. Inr ks \<in> set pages \<and> k \<in> set ks))"

definition selected :: "string list \<Rightarrow> string \<Rightarrow> bool" where
  "selected tails k \<longleftrightarrow> (case classify_v1 k of
     None \<Rightarrow> False | Some (org, rk, tail) \<Rightarrow> takeWhile (\<lambda>c. c \<noteq> CHR '':'') tail \<in> set tails)"

lemma selected_prefix: "selected tails k \<Longrightarrow> has_prefix k ''quota:''"
  by (auto simp: selected_def classify_v1_def split: if_splits option.splits)

text \<open>An invariant of a scan, indexed by the keys whose callback has returned.\<close>

definition scan_step ::
  "string list \<Rightarrow> (string \<Rightarrow> string \<Rightarrow> string \<Rightarrow> string \<Rightarrow> 's \<Rightarrow> scan_stop option \<times> 's) \<Rightarrow> (string set \<Rightarrow> 's \<Rightarrow> bool) \<Rightarrow> bool" where
  "scan_step tails fn P \<longleftrightarrow> (\<forall>A k org rk tail s r s'. classify_v1 k = Some (org, rk, tail) \<longrightarrow> selected tails k \<longrightarrow> P A s
     \<longrightarrow> fn k org rk tail s = (r, s') \<longrightarrow> P (if r = None then insert k A else A) s')"

lemma scan_page_inv:
  assumes "scan_step tails fn P"
    and "P A s" and "scan_page tails fn ks s = (r, s')"
  shows "\<exists>B. P B s' \<and> A \<subseteq> B \<and> (r = None \<longrightarrow> {k \<in> set ks. selected tails k} \<subseteq> B)"
  using assms(2,3)
proof (induction ks arbitrary: A s)
  case Nil
  then show ?case by auto
next
  case (Cons k ks)
  show ?case
  proof (cases "selected tails k")
    case False
    then have "scan_page tails fn (k # ks) s = scan_page tails fn ks s"
      by (auto simp: selected_def split: option.splits)
    with Cons.prems(2) have "scan_page tails fn ks s = (r, s')" by simp
    from Cons.IH [OF Cons.prems(1) this] False show ?thesis by (auto simp: subset_iff)
  next
    case True
    then obtain org rk tail where c: "classify_v1 k = Some (org, rk, tail)" "takeWhile (\<lambda>c. c \<noteq> CHR '':'') tail \<in> set tails"
      by (auto simp: selected_def split: option.splits)
    obtain r1 s1 where f: "fn k org rk tail s = (r1, s1)" by fastforce
    have p: "P (if r1 = None then insert k A else A) s1"
      using assms(1) c(1) True Cons.prems(1) f unfolding scan_step_def by blast
    show ?thesis
    proof (cases r1)
      case None
      with Cons.prems(2) c f have "scan_page tails fn ks s1 = (r, s')" by simp
      from Cons.IH [OF p this] None show ?thesis by auto
    next
      case (Some e)
      with Cons.prems(2) c f p show ?thesis by auto
    qed
  qed
qed

lemma scan_v1_inv:
  assumes "scan_step tails fn P"
    and "P A s" and "scan_v1 tails fn pages s = (r, s')"
  shows "\<exists>B. P B s' \<and> A \<subseteq> B \<and> (r = None \<longrightarrow> {k. \<exists>ks. Inr ks \<in> set pages \<and> k \<in> set ks \<and> selected tails k} \<subseteq> B)"
  using assms(2,3)
proof (induction pages arbitrary: A s)
  case Nil
  then show ?case by auto
next
  case (Cons p ps)
  show ?case
  proof (cases p)
    case (Inl e)
    with Cons.prems show ?thesis by auto
  next
    case (Inr ks)
    obtain r1 s1 where g: "scan_page tails fn ks s = (r1, s1)" by fastforce
    obtain B where B: "P B s1" "A \<subseteq> B" "r1 = None \<longrightarrow> {k \<in> set ks. selected tails k} \<subseteq> B"
      using scan_page_inv [OF assms(1) Cons.prems(1) g] by blast
    show ?thesis
    proof (cases r1)
      case None
      with Cons.prems(2) Inr g have "scan_v1 tails fn ps s1 = (r, s')" by simp
      from Cons.IH [OF B(1) this] obtain B' where "P B' s'" "B \<subseteq> B'"
        "r = None \<longrightarrow> {k. \<exists>ks. Inr ks \<in> set ps \<and> k \<in> set ks \<and> selected tails k} \<subseteq> B'" by blast
      with B None Inr show ?thesis by (intro exI [of _ B']) auto
    next
      case (Some e)
      with Cons.prems(2) Inr g B show ?thesis by auto
    qed
  qed
qed

text \<open>A scan stops with what a callback or a failed page stopped it with.\<close>

lemma scan_stop_from:
  assumes "scan_v1 tails fn pages s = (Some e, s')"
  shows "(\<exists>g. e = StopErr (DbError g)) \<or> (\<exists>k org rk tail x y. fn k org rk tail x = (Some e, y))"
proof -
  have pg: "scan_page tails fn ks s = (Some e, s') \<Longrightarrow> \<exists>k org rk tail x y. fn k org rk tail x = (Some e, y)" for ks s s'
    by (induction ks arbitrary: s) (auto split: option.splits prod.splits if_splits, blast)
  from assms show ?thesis
  proof (induction pages arbitrary: s)
    case (Cons p ps)
    show ?case
    proof (cases p)
      case (Inr ks)
      then show ?thesis using Cons pg [of ks s] by (auto split: option.splits prod.splits)
    qed (use Cons.prems in auto)
  qed simp
qed

section \<open>Facts on keys\<close>

lemma twin_not_v1 [simp]: "classify_v1 (v2_twin M org rk tail) = None"
  by (simp add: classify_v1_def v2_twin_def prefix_v_def)

lemma marker_not_v1 [simp]: "classify_v1 (marker_key service) = None"
proof -
  have "split_on (CHR '':'') (''quota:keyspace:meta:'' @ service) = ''quota'' # ''keyspace'' # ''meta'' # split_on (CHR '':'') service"
    using split_on_append_sep [of "CHR '':''" "''quota''" "''keyspace:meta:'' @ service"]
      split_on_append_sep [of "CHR '':''" "''keyspace''" "''meta:'' @ service"]
      split_on_append_sep [of "CHR '':''" "''meta''" service] by simp
  then show ?thesis by (simp add: classify_v1_def marker_key_def Let_def)
qed

lemma marker_not_twin: "marker_key service \<noteq> v2_twin M org rk tail"
  by (simp add: marker_key_def v2_twin_def prefix_v_def)

lemma classify_no_colon:
  assumes "classify_v1 k = Some (org, rk, tail)"
  shows "CHR '':'' \<notin> set org" and "CHR '':'' \<notin> set rk"
proof -
  have sub: "\<forall>p \<in> set (split_on c x). c \<notin> set p" for c x
    by (induction x) (auto split: list.splits)
  have "org \<in> set (split_on (CHR '':'') k) \<and> rk \<in> set (split_on (CHR '':'') k)"
    using assms by (auto simp: classify_v1_def Let_def split: if_splits)
  with sub show "CHR '':'' \<notin> set org" "CHR '':'' \<notin> set rk" by blast+
qed

text \<open>Distinct v1 keys have distinct twins.\<close>

lemma twin_inject:
  assumes "classify_v1 k = Some (org, rk, tail)" and "classify_v1 k' = Some (org', rk', tail')"
    and "v2_twin M org rk tail = v2_twin M org' rk' tail'"
  shows "k = k'"
proof -
  have "(org @ ''}'') @ CHR '':'' # (rk @ CHR '':'' # tail) = (org' @ ''}'') @ CHR '':'' # (rk' @ CHR '':'' # tail')"
    using assms(3) by (simp add: v2_twin_def prefix_v_def)
  from sep_cancel [OF this] classify_no_colon [OF assms(1)] classify_no_colon [OF assms(2)]
  have "org = org'" and r: "rk @ CHR '':'' # tail = rk' @ CHR '':'' # tail'" by auto
  with sep_cancel [OF r] classify_no_colon [OF assms(1)] classify_no_colon [OF assms(2)]
    classify_v1_sound [OF assms(1)] classify_v1_sound [OF assms(2)] show ?thesis by simp
qed

section \<open>Backfill\<close>

text \<open>A database that has only gained twins, each with the value of its v1 key.\<close>

definition only_seeded :: "'w migrator \<Rightarrow> (string \<rightharpoonup> string) \<Rightarrow> (string \<rightharpoonup> string) \<Rightarrow> bool" where
  "only_seeded M m m' \<longleftrightarrow> (\<forall>k. m' k = m k
     \<or> m k = None \<and> (\<exists>k1 org rk tail v. classify_v1 k1 = Some (org, rk, tail) \<and> k = v2_twin M org rk tail \<and> m k1 = Some v \<and> m' k = Some v))"

lemma only_seeded_refl [simp]: "only_seeded M m m"
  by (simp add: only_seeded_def)

lemma only_seeded_v1: "only_seeded M m m' \<Longrightarrow> classify_v1 k \<noteq> None \<Longrightarrow> m' k = m k"
  by (auto simp: only_seeded_def)

lemma only_seeded_kept: "only_seeded M m m' \<Longrightarrow> m k = Some v \<Longrightarrow> m' k = Some v"
  unfolding only_seeded_def by (metis option.distinct(1))

lemma seed_script_effect:
  assumes "redis_laws D kv" and "seed_script D k1 k2 w = (r, w')"
  shows "(kv w' = kv w \<or> (\<exists>v. kv w k1 = Some v \<and> kv w k2 = None \<and> kv w' = (kv w)(k2 \<mapsto> v)))
    \<and> (\<forall>n. r = Inr n \<longrightarrow> kv w k1 \<noteq> None \<longrightarrow> kv w' k2 \<noteq> None)"
proof -
  note laws = redis_lawsD [OF assms(1)]
  show ?thesis using assms(2) unfolding seed_script_def
    by (auto split: sum.splits bool.splits option.splits prod.splits if_splits dest!: laws)
qed

lemma only_seeded_step:
  assumes "only_seeded M m0 m" and "classify_v1 k1 = Some (org, rk, tail)"
    and "m' = m \<or> (\<exists>v. m k1 = Some v \<and> m (v2_twin M org rk tail) = None \<and> m' = m(v2_twin M org rk tail \<mapsto> v))"
  shows "only_seeded M m0 m'"
  using assms(3)
proof
  assume "\<exists>v. m k1 = Some v \<and> m (v2_twin M org rk tail) = None \<and> m' = m(v2_twin M org rk tail \<mapsto> v)"
  then obtain v where v: "m k1 = Some v" "m (v2_twin M org rk tail) = None" "m' = m(v2_twin M org rk tail \<mapsto> v)" by blast
  have "m0 k1 = Some v" using only_seeded_v1 [OF assms(1)] assms(2) v(1) by simp
  moreover have "m0 (v2_twin M org rk tail) = None"
    using only_seeded_kept [OF assms(1), of "v2_twin M org rk tail"] v(2) by (cases "m0 (v2_twin M org rk tail)") auto
  ultimately show ?thesis using assms(1,2) v(3) unfolding only_seeded_def by auto
qed (use assms(1) in simp)

definition seeded_upto :: "'w migrator \<Rightarrow> (string \<rightharpoonup> string) \<Rightarrow> string set \<Rightarrow> (string \<rightharpoonup> string) \<Rightarrow> bool" where
  "seeded_upto M m0 A m \<longleftrightarrow> only_seeded M m0 m
     \<and> (\<forall>k org rk tail. k \<in> A \<longrightarrow> classify_v1 k = Some (org, rk, tail) \<longrightarrow> m0 k \<noteq> None \<longrightarrow> m (v2_twin M org rk tail) \<noteq> None)"

lemma backfill_one_step:
  assumes "redis_laws (mi_C M) kv"
  shows "scan_step tails (backfill_one M budget) (\<lambda>A f. seeded_upto M m0 (if 0 < budget then {} else A) (kv (fi_db f)))"
  unfolding scan_step_def
proof (intro allI impI)
  fix A k org rk tail f r f'
  assume c: "classify_v1 k = Some (org, rk, tail)"
    and p: "seeded_upto M m0 (if 0 < budget then {} else A) (kv (fi_db f))"
    and e: "backfill_one M budget k org rk tail f = (r, f')"
  let ?t = "v2_twin M org rk tail"
  obtain x w where x: "seed_script (mi_C M) k ?t (fi_db f) = (x, w)" by fastforce
  have w: "fi_db f' = w" and r: "r = None \<Longrightarrow> \<exists>n. x = Inr n"
    using e x by (auto simp: backfill_one_def Let_def split: sum.splits if_splits)
  note seed = seed_script_effect [OF assms x]
  from p c seed have o: "only_seeded M m0 (kv w)"
    by (auto simp: seeded_upto_def intro: only_seeded_step)
  have mono: "kv (fi_db f) k' \<noteq> None \<Longrightarrow> kv w k' \<noteq> None" for k' using seed by auto
  have "kv w ?t \<noteq> None" if "r = None" "m0 k \<noteq> None"
  proof -
    from that(2) obtain v where "m0 k = Some v" by auto
    with p have "kv (fi_db f) k \<noteq> None" using only_seeded_kept by (fastforce simp: seeded_upto_def)
    with seed r [OF that(1)] show ?thesis by blast
  qed
  with p o mono c show "seeded_upto M m0 (if 0 < budget then {} else if r = None then insert k A else A) (kv (fi_db f'))"
    unfolding w seeded_upto_def by (auto split: if_splits)
qed

lemma scan_no_budget:
  assumes "budget \<le> 0"
  shows "scan_v1 tails (backfill_one M budget) ps g \<noteq> (Some Budget, g')"
proof
  have nb: "backfill_one M budget k org rk tail x \<noteq> (Some Budget, y)" for k org rk tail x y
  proof -
    obtain r w where "seed_script (mi_C M) k (v2_twin M org rk tail) (fi_db x) = (r, w)" by fastforce
    with assms show ?thesis by (cases r) (auto simp: backfill_one_def Let_def)
  qed
  assume "scan_v1 tails (backfill_one M budget) ps g = (Some Budget, g')"
  from scan_stop_from [OF this] nb show False by blast
qed

text \<open>
  Backfill copies every value and overwrites nothing. A pass without a budget that ends without
  an error, on a \<open>SCAN\<close> that answered every key, leaves each v1 gauge and accumulator as it was and
  gives its v2 twin the same value, unless the twin was there already, which keeps its own; every
  key that existed keeps its value, so a pass can be repeated or resumed after a partial one.
\<close>

theorem backfill_copies_every_value:
  assumes "redis_laws (mi_C M) kv" and "backfill M budget pages s = ((scanned, seeded, None), s')" and "budget \<le> 0"
    and "scan_complete pages (kv (mt_db s))"
  shows "(\<forall>k org rk tail v. selected backfill_tails k \<longrightarrow> classify_v1 k = Some (org, rk, tail) \<longrightarrow> kv (mt_db s) k = Some v \<longrightarrow>
      kv (mt_db s') (v2_twin M org rk tail) = Some (case kv (mt_db s) (v2_twin M org rk tail) of Some x \<Rightarrow> x | None \<Rightarrow> v))
    \<and> (\<forall>k v. kv (mt_db s) k = Some v \<longrightarrow> kv (mt_db s') k = Some v)"
proof -
  let ?m = "kv (mt_db s)"
  let ?f = "\<lparr>fi_scanned = 0, fi_seeded = 0, fi_db = mt_db s\<rparr>"
  obtain stop f where sc: "scan_v1 backfill_tails (backfill_one M budget) pages ?f = (stop, f)" by fastforce
  have db: "mt_db s' = fi_db f" and stop: "stop = None"
    using assms(2) sc scan_no_budget [OF assms(3), of backfill_tails M pages ?f] by (auto simp: backfill_def split: sum.splits if_splits option.splits scan_stop.splits)
  have "seeded_upto M ?m (if 0 < budget then {} else {}) (kv (fi_db ?f))" by (simp add: seeded_upto_def)
  from scan_v1_inv [OF backfill_one_step [OF assms(1)] this sc] stop assms(3)
  obtain B where B: "seeded_upto M ?m B (kv (fi_db f))"
    "{k. \<exists>ks. Inr ks \<in> set pages \<and> k \<in> set ks \<and> selected backfill_tails k} \<subseteq> B" by auto
  have o: "only_seeded M ?m (kv (mt_db s'))" using B(1) db by (simp add: seeded_upto_def)
  show ?thesis
  proof (intro conjI allI impI)
    fix k v assume "?m k = Some v"
    then show "kv (mt_db s') k = Some v" using only_seeded_kept [OF o] by blast
  next
    fix k org rk tail v
    assume k: "selected backfill_tails k" "classify_v1 k = Some (org, rk, tail)" "?m k = Some v"
    let ?t = "v2_twin M org rk tail"
    have "k \<in> B" using k assms(4) selected_prefix [OF k(1)] B(2) by (fastforce simp: scan_complete_def)
    then have t: "kv (mt_db s') ?t \<noteq> None" using B(1) k db by (auto simp: seeded_upto_def)
    show "kv (mt_db s') ?t = Some (case ?m ?t of Some x \<Rightarrow> x | None \<Rightarrow> v)"
    proof (cases "?m ?t")
      case None
      with o t obtain k1 org1 rk1 tail1 v1 where k1: "classify_v1 k1 = Some (org1, rk1, tail1)" "?t = v2_twin M org1 rk1 tail1"
        "?m k1 = Some v1" "kv (mt_db s') ?t = Some v1"
        unfolding only_seeded_def by metis
      have "k = k1" using twin_inject [OF k(2) k1(1,2)] .
      with k1 k(3) None show ?thesis by simp
    next
      case (Some x)
      with only_seeded_kept [OF o] show ?thesis by simp
    qed
  qed
qed

text \<open>A database that is its own contents, without expiries and without errors.\<close>

definition map_db :: "(string \<rightharpoonup> string) redis_db" where
  "map_db = \<lparr>db_Get = (\<lambda>w k. Inr (w k)), db_Set = (\<lambda>w k v. (None, w(k \<mapsto> v))), db_Exists = (\<lambda>w k. Inr (w k \<noteq> None)),
     db_PTTL = (\<lambda>w k. Inr (-1)), db_PExpire = (\<lambda>w k t. (None, w)),
     db_Del = (\<lambda>w k. (Inr (if w k = None then 0 else 1), w(k := None)))\<rparr>"

lemma map_db_laws: "redis_laws map_db (\<lambda>w. w)"
  by (auto simp: redis_laws_def map_db_def)

text \<open>Markers are written as their phase; amounts as their number of bytes.\<close>

definition phase_codec :: marker_codec where
  "phase_codec = \<lparr>mc_Marshal = mk_Phase,
     mc_Unmarshal = (\<lambda>p. Some (marker_zero\<lparr>mk_Phase := p, mk_HighWater := (if p = ''reaped'' then ''v2-final'' else p)\<rparr>))\<rparr>"

definition small_migrator :: "(string \<rightharpoonup> string) migrator" where
  "small_migrator = \<lparr>mi_C = map_db, mi_Codec = phase_codec, mi_ParseFloat = (\<lambda>s. Fin (of_nat (length s))), mi_Service = ''svc'',
     mi_MaxRateWindowSeconds = 60\<rparr>"

definition one_gauge :: "string \<Rightarrow> string \<rightharpoonup> string" where
  "one_gauge phase = [''quota:keyspace:meta:svc'' \<mapsto> phase, ''quota:o1:box.live:gauge'' \<mapsto> ''xxx'']"

definition one_page :: "(goerr + string list) list" where
  "one_page = [Inr [''quota:keyspace:meta:svc'', ''quota:o1:box.live:gauge'']]"

lemma one_gauge_key: "classify_v1 ''quota:o1:box.live:gauge'' = Some (''o1'', ''box.live'', ''gauge'')"
  "selected backfill_tails ''quota:o1:box.live:gauge''" "classify_v1 ''quota:keyspace:meta:svc'' = None"
  by code_simp+

lemma one_page_complete: "scan_complete one_page (one_gauge phase)"
  by (auto simp: scan_complete_def one_page_def one_gauge_def split: if_splits)

theorem backfill_copies_every_value_witness:
  "\<exists>scanned seeded s'. backfill small_migrator 0 one_page \<lparr>mt_verifiedOK = False, mt_now = 0, mt_db = one_gauge ''dual''\<rparr>
       = ((scanned, seeded, None), s') \<and> mt_db s' ''quota:v2:{svc/o1}:box.live:gauge'' = Some ''xxx''"
proof -
  let ?s = "\<lparr>mt_verifiedOK = False, mt_now = 0, mt_db = one_gauge ''dual''\<rparr>"
  have m: "mi_C small_migrator = map_db" "mi_Codec small_migrator = phase_codec" "mi_Service small_migrator = ''svc''"
    by (simp_all add: small_migrator_def)
  have t: "v2_twin small_migrator ''o1'' ''box.live'' ''gauge'' = ''quota:v2:{svc/o1}:box.live:gauge''" by code_simp
  obtain a b s' where b: "backfill small_migrator 0 one_page ?s = ((a, b, None), s')"
    by (simp add: backfill_def m read_marker_def map_db_def phase_codec_def marker_key_def one_gauge_def one_page_def in_dual_def
        one_gauge_key backfill_tails_def backfill_one_def seed_script_def t Let_def)
  have "redis_laws (mi_C small_migrator) (\<lambda>w. w)" by (simp add: m map_db_laws)
  from backfill_copies_every_value [OF this b] one_page_complete one_gauge_key t b show ?thesis
    by (auto simp: one_gauge_def)
qed

section \<open>Verify and reap\<close>

definition near :: "'w migrator \<Rightarrow> f64 \<Rightarrow> string \<Rightarrow> string \<Rightarrow> bool" where
  "near M tolerance v1 v2 \<longleftrightarrow> \<not> fgt (fabs (fsub (mi_ParseFloat M v1) (mi_ParseFloat M v2))) tolerance"

definition verified :: "'w migrator \<Rightarrow> f64 \<Rightarrow> (string \<rightharpoonup> string) \<Rightarrow> string \<Rightarrow> bool" where
  "verified M tolerance m k \<longleftrightarrow> (\<forall>org rk tail v. classify_v1 k = Some (org, rk, tail) \<longrightarrow> m k = Some v \<longrightarrow>
     (\<exists>v2. m (v2_twin M org rk tail) = Some v2 \<and> near M tolerance v v2))"

lemma verify_one_step:
  assumes "redis_laws (mi_C M) kv"
  shows "scan_step tails (verify_one M tolerance w) (\<lambda>A out. vr_OK out \<longrightarrow> (\<forall>k \<in> A. verified M tolerance (kv w) k))"
  unfolding scan_step_def
proof (intro allI impI)
  fix A k org rk tail out r out'
  assume c: "classify_v1 k = Some (org, rk, tail)"
    and p: "vr_OK out \<longrightarrow> (\<forall>k \<in> A. verified M tolerance (kv w) k)"
    and e: "verify_one M tolerance w k org rk tail out = (r, out')" and ok: "vr_OK out'"
  note get = redis_lawsD(1) [OF assms]
  from e ok have "vr_OK out" by (auto simp: verify_one_def Let_def split: sum.splits if_splits)
  moreover have "verified M tolerance (kv w) k" if "r = None"
    using e ok that c unfolding verify_one_def verified_def near_def
    by (auto simp: Let_def split: sum.splits if_splits dest!: get)
  ultimately show "\<forall>k \<in> (if r = None then insert k A else A). verified M tolerance (kv w) k" using p by auto
qed

text \<open>A verify that passes has compared every value of a complete scan with its twin.\<close>

lemma verify_sound:
  assumes "redis_laws (mi_C M) kv" and "verify M tolerance pages s = ((out, None), s')" and "scan_complete pages (kv (mt_db s))"
  shows "mt_verifiedOK s' = vr_OK out \<and> mt_db s' = mt_db s \<and> mt_now s' = mt_now s
    \<and> (vr_OK out \<longrightarrow> (\<forall>k. selected backfill_tails k \<longrightarrow>
         verified M (if fle tolerance (Fin 0) then migration_eps else tolerance) (kv (mt_db s)) k))"
proof -
  let ?t = "if fle tolerance (Fin 0) then migration_eps else tolerance"
  let ?o = "\<lparr>vr_OK = True, vr_Compared = 0, vr_Divergent = []\<rparr>"
  obtain stop out1 where sc: "scan_v1 backfill_tails (verify_one M ?t (mt_db s)) pages ?o = (stop, out1)" by fastforce
  have nb: "verify_one M tol w k org rk tail x \<noteq> (Some Budget, y)" for tol w k org rk tail x y
    by (auto simp: verify_one_def Let_def split: sum.splits)
  have "stop \<noteq> Some Budget"
    using scan_stop_from [of backfill_tails "verify_one M ?t (mt_db s)" pages ?o Budget out1] sc nb by auto
  with assms(2) sc have s': "s' = s\<lparr>mt_verifiedOK := vr_OK out\<rparr>" "out1 = out" "stop = None"
    by (auto simp: verify_def Let_def split: option.splits scan_stop.splits)
  have "vr_OK ?o \<longrightarrow> (\<forall>k \<in> {}. verified M ?t (kv (mt_db s)) k)" by simp
  from scan_v1_inv [OF verify_one_step [OF assms(1)] this sc] s'
  obtain B where "vr_OK out \<longrightarrow> (\<forall>k \<in> B. verified M ?t (kv (mt_db s)) k)"
    "{k. \<exists>ks. Inr ks \<in> set pages \<and> k \<in> set ks \<and> selected backfill_tails k} \<subseteq> B" by auto
  moreover have "verified M ?t (kv (mt_db s)) k" if "kv (mt_db s) k = None" for k
    using that by (simp add: verified_def)
  ultimately have "vr_OK out \<longrightarrow> (\<forall>k. selected backfill_tails k \<longrightarrow> verified M ?t (kv (mt_db s)) k)"
    using assms(3) selected_prefix unfolding scan_complete_def by blast
  with s' show ?thesis by simp
qed

lemma write_marker_effect:
  assumes "redis_laws (mi_C M) kv" and "write_marker M f s = (r, s')"
  shows "mt_verifiedOK s' = mt_verifiedOK s \<and> mt_now s' = mt_now s
    \<and> (\<forall>k. k \<noteq> marker_key (mi_Service M) \<longrightarrow> kv (mt_db s') k = kv (mt_db s) k)
    \<and> (\<forall>m. r = Inr m \<longrightarrow> (\<exists>cur. read_marker (mi_Codec M) (mi_C M) (mi_Service M) (mt_db s) = Inr cur
         \<and> m = stamp_marker (mig_now s) (f (case cur of None \<Rightarrow> marker_zero | Some m \<Rightarrow> m))
         \<and> kv (mt_db s') (marker_key (mi_Service M)) = Some (mc_Marshal (mi_Codec M) m)))"
proof (cases "read_marker (mi_Codec M) (mi_C M) (mi_Service M) (mt_db s)")
  case (Inl e)
  with assms(2) show ?thesis by (auto simp: write_marker_def)
next
  case (Inr cur)
  define m where "m = stamp_marker (mig_now s) (f (case cur of None \<Rightarrow> marker_zero | Some m \<Rightarrow> m))"
  obtain e w where w: "db_Set (mi_C M) (mt_db s) (marker_key (mi_Service M)) (mc_Marshal (mi_Codec M) m) = (e, w)" by fastforce
  have "write_marker M f s = (case e of Some e \<Rightarrow> (Inl (DbError e), s\<lparr>mt_db := w\<rparr>) | None \<Rightarrow> (Inr m, s\<lparr>mt_db := w\<rparr>))"
    using w by (simp add: write_marker_def Inr Let_def m_def split: option.splits)
  with assms(2) redis_lawsD(3) [OF assms(1) w] show ?thesis
    by (cases e) (auto simp: Inr m_def)
qed

lemma reap_one_step:
  assumes "redis_laws D kv"
  shows "scan_step tails (reap_one D) (\<lambda>A x. \<forall>k. kv (snd x) k = base k \<or> selected tails k \<and> kv (snd x) k = None)"
  unfolding scan_step_def
  by (auto simp: reap_one_def split: sum.splits prod.splits dest!: redis_lawsD(5) [OF assms] split: if_splits)

lemma reap_scan_effect:
  assumes "redis_laws D kv" and "scan_v1 tails (reap_one D) pages (n0, w) = (stop, n, w')"
  shows "kv w' k = kv w k \<or> selected tails k \<and> kv w' k = None"
proof -
  have "\<forall>k. kv (snd (n0, w)) k = kv w k \<or> selected tails k \<and> kv (snd (n0, w)) k = None" by simp
  from scan_v1_inv [where A = "{}", OF reap_one_step [OF assms(1), where base = "kv w"] this assms(2)]
  have "\<forall>k. kv (snd (n, w')) k = kv w k \<or> selected tails k \<and> kv (snd (n, w')) k = None" by blast
  then show ?thesis by simp
qed

text \<open>
  C31. Reap loses no gauge and no accumulator. Take a verify without an error on a \<open>SCAN\<close> that answered
  every key, then a reap on the same database. Either the reap changes nothing but the marker, or the
  verify had passed and still every v1 gauge and accumulator that was there has a v2 twin whose value is
  within the tolerance; a reap deletes no key but v1 counters, also when it fails half-way. Among those
  are the rate windows and the idempotency latches, which a verify does not compare and for which no
  twin is promised: they are written in both shapes and expire. By then the marker says
  \<open>v2-final\<close>, so that no v1 engine boots on what is left.
\<close>

theorem reap_loses_nothing:
  assumes "redis_laws (mi_C M) kv"
    and "verify M tolerance pages s0 = ((out, None), s1)" and "scan_complete pages (kv (mt_db s0))"
    and "reap M confirm pages' s1 = (r, s2)"
  shows "(\<forall>k. k \<noteq> marker_key (mi_Service M) \<longrightarrow> kv (mt_db s2) k = kv (mt_db s0) k)
    \<or> confirm \<and> (\<forall>k org rk tail v. selected backfill_tails k \<longrightarrow> classify_v1 k = Some (org, rk, tail) \<longrightarrow> kv (mt_db s0) k = Some v \<longrightarrow>
         (\<exists>v2. kv (mt_db s2) (v2_twin M org rk tail) = Some v2
            \<and> near M (if fle tolerance (Fin 0) then migration_eps else tolerance) v v2))
      \<and> (\<forall>k. k \<noteq> marker_key (mi_Service M) \<longrightarrow> kv (mt_db s2) k \<noteq> kv (mt_db s0) k \<longrightarrow> selected reap_tails k \<and> kv (mt_db s2) k = None)
      \<and> (\<exists>m. mk_HighWater m = ''v2-final'' \<and> mk_Phase m = ''reaped''
           \<and> kv (mt_db s2) (marker_key (mi_Service M)) = Some (mc_Marshal (mi_Codec M) m))"
proof -
  let ?K = "marker_key (mi_Service M)"
  let ?f = "\<lambda>m. m\<lparr>mk_HighWater := ''v2-final'', mk_Phase := ''reaped''\<rparr>"
  have s1: "mt_db s1 = mt_db s0" and ok: "mt_verifiedOK s1 = vr_OK out"
    and ver: "vr_OK out \<Longrightarrow> selected backfill_tails k \<Longrightarrow>
      verified M (if fle tolerance (Fin 0) then migration_eps else tolerance) (kv (mt_db s0)) k" for k
    using verify_sound [OF assms(1-3)] by auto
  obtain wr s1' where w: "write_marker M ?f s1 = (wr, s1')" by fastforce
  note wm = write_marker_effect [OF assms(1) w]
  consider (same) "s2 = s1" | (wrote) e where "wr = Inl e" "s2 = s1'"
    | (reaped) m stop n x where "wr = Inr m" "vr_OK out" "confirm"
        "scan_v1 reap_tails (reap_one (mi_C M)) pages' (0, mt_db s1') = (stop, n, x)" "mt_db s2 = x"
    using assms(4) w ok unfolding reap_def by (auto split: sum.splits if_splits prod.splits)
  then show ?thesis
  proof cases
    case same
    then show ?thesis using s1 by simp
  next
    case wrote
    then show ?thesis using wm s1 by auto
  next
    case (reaped m stop n x)
    let ?m = "kv (mt_db s1')"
    note x = reap_scan_effect [OF assms(1) reaped(4)]
    have un: "\<not> selected reap_tails (v2_twin M org rk tail)" "\<not> selected reap_tails ?K" for org rk tail
      by (simp_all add: selected_def)
    have m: "mk_HighWater m = ''v2-final''" "mk_Phase m = ''reaped''" "?m ?K = Some (mc_Marshal (mi_Codec M) m)"
      using wm reaped(1) by (auto simp: stamp_marker_def)
    have tw: "kv x (v2_twin M org rk tail) = kv (mt_db s0) (v2_twin M org rk tail)" for org rk tail
      using x [of "v2_twin M org rk tail"] un(1) wm marker_not_twin [of "mi_Service M" M org rk tail] s1 by metis
    have "\<exists>v2. kv x (v2_twin M org rk tail) = Some v2 \<and> near M (if fle tolerance (Fin 0) then migration_eps else tolerance) v v2"
      if "selected backfill_tails k" "classify_v1 k = Some (org, rk, tail)" "kv (mt_db s0) k = Some v" for k org rk tail v
      using ver [OF reaped(2) that(1)] that(2,3) unfolding verified_def tw by blast
    moreover have "selected reap_tails k \<and> kv x k = None" if "k \<noteq> ?K" "kv x k \<noteq> kv (mt_db s0) k" for k
      using x [of k] that wm s1 by auto
    moreover have "kv x ?K = Some (mc_Marshal (mi_Codec M) m)" using x [of ?K] un(2) m(3) by auto
    ultimately show ?thesis using reaped(3,5) m(1,2) by blast
  qed
qed

definition migrated :: "string \<rightharpoonup> string" where
  "migrated = (one_gauge ''flipped'')(''quota:v2:{svc/o1}:box.live:gauge'' \<mapsto> ''yyy'')"

definition migrated_state :: "(string \<rightharpoonup> string) mig_state" where
  "migrated_state = \<lparr>mt_verifiedOK = False, mt_now = 0, mt_db = migrated\<rparr>"

lemma small_twin: "v2_twin small_migrator ''o1'' ''box.live'' ''gauge'' = ''quota:v2:{svc/o1}:box.live:gauge''"
  by code_simp

lemma small_simps [simp]:
  "mi_C small_migrator = map_db" "mi_Codec small_migrator = phase_codec" "mi_Service small_migrator = ''svc''"
  "mi_ParseFloat small_migrator = (\<lambda>s. Fin (of_nat (length s)))"
  by (simp_all add: small_migrator_def)

definition migrated_pages :: "(goerr + string list) list" where
  "migrated_pages = [Inr [''quota:o1:box.live:gauge'', ''quota:v2:{svc/o1}:box.live:gauge''], Inr [''quota:keyspace:meta:svc'']]"

lemma migrated_pages_complete: "scan_complete migrated_pages migrated"
proof -
  have "k = ''quota:o1:box.live:gauge'' \<or> k = ''quota:v2:{svc/o1}:box.live:gauge'' \<or> k = ''quota:keyspace:meta:svc''"
    if "migrated k \<noteq> None" for k
    using that unfolding migrated_def one_gauge_def by (metis fun_upd_other)
  moreover have "Inr [''quota:o1:box.live:gauge'', ''quota:v2:{svc/o1}:box.live:gauge''] \<in> set migrated_pages"
    "Inr [''quota:keyspace:meta:svc''] \<in> set migrated_pages" by (simp_all add: migrated_pages_def)
  ultimately show ?thesis unfolding scan_complete_def by (metis list.set_intros)
qed

lemma migrated_keys: "classify_v1 ''quota:v2:{svc/o1}:box.live:gauge'' = None"
  by code_simp

lemma migrated_verify:
  "verify small_migrator (Fin 1) migrated_pages migrated_state
     = ((\<lparr>vr_OK = True, vr_Compared = 1, vr_Divergent = []\<rparr>, None), migrated_state\<lparr>mt_verifiedOK := True\<rparr>)"
proof -
  have g: "migrated ''quota:o1:box.live:gauge'' = Some ''xxx''" "migrated ''quota:v2:{svc/o1}:box.live:gauge'' = Some ''yyy''"
    by (simp_all add: migrated_def one_gauge_def)
  have o: "verify_one small_migrator (Fin 1) migrated ''quota:o1:box.live:gauge'' ''o1'' ''box.live'' ''gauge''
      \<lparr>vr_OK = True, vr_Compared = 0, vr_Divergent = []\<rparr> = (None, \<lparr>vr_OK = True, vr_Compared = 1, vr_Divergent = []\<rparr>)"
    by (simp add: verify_one_def small_twin map_db_def g fsub_def)
  show ?thesis
    by (simp add: verify_def migrated_pages_def one_gauge_key migrated_keys backfill_tails_def migrated_state_def o)
qed

theorem reap_loses_nothing_witness:
  "\<exists>out n s2. verify small_migrator (Fin 1) migrated_pages migrated_state = ((out, None), migrated_state\<lparr>mt_verifiedOK := True\<rparr>)
     \<and> reap small_migrator True migrated_pages (migrated_state\<lparr>mt_verifiedOK := True\<rparr>) = ((n, None), s2)
     \<and> mt_db s2 ''quota:o1:box.live:gauge'' = None
     \<and> (\<exists>v2. mt_db s2 ''quota:v2:{svc/o1}:box.live:gauge'' = Some v2 \<and> near small_migrator (Fin 1) ''xxx'' v2)"
proof -
  let ?s1 = "migrated_state\<lparr>mt_verifiedOK := True\<rparr>"
  note v = migrated_verify
  obtain n s2 where r: "reap small_migrator True migrated_pages ?s1 = ((n, None), s2)"
    and d: "mt_db s2 ''quota:o1:box.live:gauge'' = None"
    by (simp add: reap_def read_marker_def write_marker_def map_db_def phase_codec_def marker_key_def migrated_state_def migrated_def
        one_gauge_def migrated_pages_def one_gauge_key migrated_keys reap_tails_def reap_one_def stamp_marker_def Let_def)
  have l: "redis_laws (mi_C small_migrator) (\<lambda>w. w)" by (simp add: map_db_laws)
  have db: "mt_db migrated_state = migrated" "migrated ''quota:o1:box.live:gauge'' = Some ''xxx''"
    by (simp_all add: migrated_state_def migrated_def one_gauge_def)
  have "\<not> (\<forall>k. k \<noteq> marker_key (mi_Service small_migrator) \<longrightarrow> mt_db s2 k = mt_db migrated_state k)"
    using d db by (auto simp: marker_key_def intro!: exI [of _ "''quota:o1:box.live:gauge''"])
  with reap_loses_nothing [OF l v, of True migrated_pages "(n, None)" s2] r migrated_pages_complete db one_gauge_key
  have "\<exists>v2. mt_db s2 (v2_twin small_migrator ''o1'' ''box.live'' ''gauge'') = Some v2 \<and> near small_migrator (Fin 1) ''xxx'' v2"
    by (auto simp: fle_def)
  with v r d show ?thesis unfolding small_twin by blast
qed

lemma read_marker_written:
  assumes "redis_laws D kv" and "kv w (marker_key service) = Some (mc_Marshal J m)" and "mc_Unmarshal J (mc_Marshal J m) = Some m"
    and "read_marker J D service w = Inr cur"
  shows "cur = Some m"
  using assms(4,2,3) unfolding read_marker_def
  by (auto split: sum.splits option.splits dest!: redis_lawsD(1) [OF assms(1)])

lemma gate_open:
  assumes "flip_gate M s (Some cur) = None"
  shows "mk_Phase cur \<in> {''dual'', ''flipped''} \<and> mt_verifiedOK s
      \<and> \<not> flt (fsub (mig_now s) (mk_DualSince cur)) (of_go_int 86400)
      \<and> \<not> flt (fsub (mig_now s) (mk_DualSince cur)) (of_go_int (mi_MaxRateWindowSeconds M))"
proof -
  let ?w = "of_go_int (mi_MaxRateWindowSeconds M)" and ?i = "of_go_int 86400"
  let ?age = "if feq (mk_DualSince cur) (Fin 0) then Fin 0 else fsub (mig_now s) (mk_DualSince cur)"
  let ?wait = "if fgt ?w ?i then ?w else ?i"
  have i: "?i = Fin 86400" by (simp add: of_go_int_small)
  have p: "mk_Phase cur \<in> {''dual'', ''flipped''}" "mt_verifiedOK s" "\<not> flt ?age ?wait"
    using assms by (auto simp: flip_gate_def in_dual_def Let_def split: if_splits)
  have lt: "flt a x" if "flt a y" "y = ?w \<or> y = ?i" "x = ?wait" for a x y
    using that i by (cases ?w; cases a) (auto split: if_splits)
  have "\<not> feq (mk_DualSince cur) (Fin 0)"
  proof
    assume "feq (mk_DualSince cur) (Fin 0)"
    with p(3) lt [of "Fin 0" ?i ?wait] i show False by simp
  qed
  with p(3) lt [of "fsub (mig_now s) (mk_DualSince cur)" ?i ?wait] lt [of "fsub (mig_now s) (mk_DualSince cur)" ?w ?wait]
  have "\<not> flt (fsub (mig_now s) (mk_DualSince cur)) ?i \<and> \<not> flt (fsub (mig_now s) (mk_DualSince cur)) ?w" by auto
  with p show ?thesis by blast
qed

text \<open>
  The order of the phases is enforced. A flip succeeds only from a recorded dual phase, when at
  least 24 hours and the longest rate window have passed since the first dual-on and the verify of
  this run has passed; it keeps the start of the dual window. Repeating dual-on never moves that
  start, and no dual-on succeeds once a reap was recorded.
\<close>

theorem phases_in_order:
  assumes "redis_laws (mi_C M) kv" and "mc_Unmarshal (mi_Codec M) (mc_Marshal (mi_Codec M) cur) = Some cur"
    and "kv (mt_db s) (marker_key (mi_Service M)) = Some (mc_Marshal (mi_Codec M) cur)"
  shows "(\<forall>m s'. flip M s = (Inr m, s') \<longrightarrow> mk_Phase cur \<in> {''dual'', ''flipped''} \<and> mt_verifiedOK s
      \<and> \<not> flt (fsub (mig_now s) (mk_DualSince cur)) (of_go_int 86400)
      \<and> \<not> flt (fsub (mig_now s) (mk_DualSince cur)) (of_go_int (mi_MaxRateWindowSeconds M))
      \<and> mk_Phase m = ''flipped'' \<and> mk_DualSince m = mk_DualSince cur)
    \<and> (\<forall>m s'. dual_on M s = (Inr m, s') \<longrightarrow> mk_HighWater cur \<noteq> ''v2-final''
      \<and> (mk_Phase cur \<in> {''dual'', ''flipped''} \<longrightarrow> m = cur \<and> s' = s))"
proof -
  have rd: "read_marker (mi_Codec M) (mi_C M) (mi_Service M) (mt_db s) = Inr c \<Longrightarrow> c = Some cur" for c
    using read_marker_written [OF assms(1,3) assms(2)] .
  have "mk_Phase cur \<in> {''dual'', ''flipped''} \<and> mt_verifiedOK s
      \<and> \<not> flt (fsub (mig_now s) (mk_DualSince cur)) (of_go_int 86400)
      \<and> \<not> flt (fsub (mig_now s) (mk_DualSince cur)) (of_go_int (mi_MaxRateWindowSeconds M))
      \<and> mk_Phase m = ''flipped'' \<and> mk_DualSince m = mk_DualSince cur" if f: "flip M s = (Inr m, s')" for m s'
  proof -
    have r: "read_marker (mi_Codec M) (mi_C M) (mi_Service M) (mt_db s) = Inr (Some cur)"
      and g: "flip_gate M s (Some cur) = None"
      and w: "write_marker M (\<lambda>m. m\<lparr>mk_Phase := ''flipped'', mk_HighWater := ''flipped''\<rparr>) s = (Inr m, s')"
      using f rd by (auto simp: flip_def split: sum.splits option.splits)
    from write_marker_effect [OF assms(1) w] r have "mk_Phase m = ''flipped'' \<and> mk_DualSince m = mk_DualSince cur"
      by (auto simp: stamp_marker_def)
    with g gate_open show ?thesis by blast
  qed
  moreover have "mk_HighWater cur \<noteq> ''v2-final'' \<and> (mk_Phase cur \<in> {''dual'', ''flipped''} \<longrightarrow> m = cur \<and> s' = s)"
    if "dual_on M s = (Inr m, s')" for m s'
    using that rd by (auto simp: dual_on_def is_final_def in_dual_def split: sum.splits if_splits)
  ultimately show ?thesis by blast
qed

definition dual_marker :: marker where
  "dual_marker = \<lparr>mk_HighWater = ''dual'', mk_Phase = ''dual'', mk_DualSince = Fin 1, mk_UpdatedAt = Fin 1, mk_By = ''op''\<rparr>"

definition dual_migrator :: "(string \<rightharpoonup> string) migrator" where
  "dual_migrator = small_migrator\<lparr>mi_Codec := \<lparr>mc_Marshal = mk_Phase, mc_Unmarshal = (\<lambda>p. Some dual_marker)\<rparr>\<rparr>"

definition dual_state :: "(string \<rightharpoonup> string) mig_state" where
  "dual_state = \<lparr>mt_verifiedOK = True, mt_now = 100000 * second, mt_db = one_gauge ''dual''\<rparr>"

theorem phases_in_order_witness:
  "\<exists>m s'. flip dual_migrator dual_state = (Inr m, s') \<and> mk_Phase m = ''flipped'' \<and> mk_DualSince m = Fin 1"
proof -
  have n: "mig_now dual_state = Fin 100000"
    by (simp add: mig_now_def dual_state_def of_go_int_small)
  have M: "mi_C dual_migrator = map_db" "mi_Service dual_migrator = ''svc''" "mi_MaxRateWindowSeconds dual_migrator = 60"
    "mc_Marshal (mi_Codec dual_migrator) = mk_Phase" "mc_Unmarshal (mi_Codec dual_migrator) p = Some dual_marker" for p
    by (simp_all add: dual_migrator_def small_migrator_def)
  have kv: "mt_db dual_state (marker_key ''svc'') = Some ''dual''" "mk_Phase dual_marker = ''dual''"
    by (simp_all add: dual_state_def one_gauge_def marker_key_def dual_marker_def)
  have g: "flip_gate dual_migrator dual_state (Some dual_marker) = None"
    by (simp add: flip_gate_def in_dual_def n M dual_marker_def of_go_int_small feq_def fsub_def Let_def)
      (simp add: dual_state_def)
  obtain m s' where f: "flip dual_migrator dual_state = (Inr m, s')"
    by (simp add: flip_def read_marker_def M kv map_db_def g write_marker_def Let_def)
  have "redis_laws (mi_C dual_migrator) (\<lambda>w. w)" by (simp add: M map_db_laws)
  from phases_in_order [OF this, of dual_marker dual_state] f M kv show ?thesis by (auto simp: dual_marker_def)
qed

section \<open>Booting\<close>

lemma find_v1_none: "find_v1 pages = Inr None \<Longrightarrow> Inr ks \<in> set pages \<Longrightarrow> k \<in> set ks \<Longrightarrow> classify_v1 k = None"
proof (induction pages)
  case (Cons p ps)
  obtain ks' where p: "p = Inr ks'" "all_v1 ks' = []" "find_v1 ps = Inr None"
    using Cons.prems(1) by (cases p) (auto split: list.splits)
  then have "\<forall>x \<in> set ks'. classify_v1 x = None" unfolding all_v1_def filter_empty_conv by blast
  with Cons p show ?case by auto
qed simp

lemma v1_key_prefix: "classify_v1 k \<noteq> None \<Longrightarrow> has_prefix k ''quota:''"
  by (auto simp: classify_v1_def split: if_splits)

text \<open>
  An engine boots only where it reads what was counted. When the guard lets a scoped service
  start, a completed migration is read by a pure v2 engine only, and a pure v2 engine starts without
  one only on a database that holds no v1 counter.
\<close>

theorem boot_reads_what_was_counted:
  assumes "redis_laws D kv" and "check_boot_keyspace J D k pages w = Inr m" and "ks_Service k \<noteq> []"
    and "ks_version k \<in> {1, 2}" and "scan_complete pages (kv w)"
  shows "read_marker J D (ks_Service k) w = Inr m
    \<and> (is_final m \<longrightarrow> ks_version k = 2 \<and> \<not> ks_DualWrite k)
    \<and> (ks_version k = 2 \<and> \<not> ks_DualWrite k \<longrightarrow> is_final m \<or> (\<forall>key. kv w key \<noteq> None \<longrightarrow> classify_v1 key = None))"
proof -
  have r: "read_marker J D (ks_Service k) w = Inr m" and f: "is_final m \<longrightarrow> ks_version k = 2 \<and> \<not> ks_DualWrite k"
    and n: "ks_version k = 2 \<and> \<not> ks_DualWrite k \<and> \<not> is_final m \<longrightarrow> find_v1 pages = Inr None"
    using assms(2-4) by (auto simp: check_boot_keyspace_def split: sum.splits if_splits option.splits)
  have "classify_v1 key = None" if "find_v1 pages = Inr None" "kv w key \<noteq> None" for key
    using find_v1_none [OF that(1)] that(2) v1_key_prefix assms(5) unfolding scan_complete_def by blast
  with r f n show ?thesis by blast
qed

theorem boot_reads_what_was_counted_witness:
  "(\<exists>m. check_boot_keyspace phase_codec map_db \<lparr>ks_Service = ''svc'', ks_Version = 1, ks_DualWrite = False\<rparr> migrated_pages migrated = Inr m
      \<and> \<not> is_final m)
   \<and> check_boot_keyspace phase_codec map_db \<lparr>ks_Service = ''svc'', ks_Version = 2, ks_DualWrite = False\<rparr> migrated_pages migrated
      = Inl (KeyspaceConfigError ''QUOTA-CFG-012'')"
proof -
  let ?k = "\<lambda>v. \<lparr>ks_Service = ''svc'', ks_Version = v, ks_DualWrite = False\<rparr>"
  have r: "read_marker phase_codec map_db ''svc'' migrated = Inr (Some (marker_zero\<lparr>mk_Phase := ''flipped'', mk_HighWater := ''flipped''\<rparr>))"
    by (simp add: read_marker_def map_db_def marker_key_def migrated_def one_gauge_def phase_codec_def)
  then obtain m where m: "check_boot_keyspace phase_codec map_db (?k 1) migrated_pages migrated = Inr m"
    by (simp add: check_boot_keyspace_def ks_version_def is_final_def)
  have "find_v1 migrated_pages = Inr (Some ''quota:o1:box.live:gauge'')" by code_simp
  with r have "check_boot_keyspace phase_codec map_db (?k 2) migrated_pages migrated = Inl (KeyspaceConfigError ''QUOTA-CFG-012'')"
    by (simp add: check_boot_keyspace_def ks_version_def is_final_def)
  with boot_reads_what_was_counted [OF map_db_laws m] m migrated_pages_complete show ?thesis by (auto simp: ks_version_def)
qed

section \<open>Counters the classifier does not see\<close>

lemma dotless_not_v1:
  assumes "CHR ''.'' \<notin> set rk" and "CHR '':'' \<notin> set rk" and "CHR '':'' \<notin> set org"
  shows "classify_v1 (prefix_v k org rk 1 @ '':'' @ tail) = None"
proof -
  have key: "prefix_v k org rk 1 @ '':'' @ tail = ''quota'' @ CHR '':'' # org @ CHR '':'' # rk @ CHR '':'' # tail"
    by (simp add: prefix_v_def)
  have "split_on (CHR '':'') (prefix_v k org rk 1 @ '':'' @ tail) = ''quota'' # org # rk # split_on (CHR '':'') tail"
    unfolding key using assms by (simp add: split_on_append_sep del: append.simps)
  then show ?thesis using assms(1) by (simp add: classify_v1_def Let_def)
qed

definition no_v1 :: "(goerr + string list) list \<Rightarrow> bool" where
  "no_v1 pages \<longleftrightarrow> (\<forall>p \<in> set pages. \<exists>ks. p = Inr ks \<and> (\<forall>k \<in> set ks. classify_v1 k = None))"

lemma scan_page_skips: "\<forall>k \<in> set ks. classify_v1 k = None \<Longrightarrow> scan_page tails fn ks s = (None, s)"
  by (induction ks) auto

lemma scan_skips: "no_v1 pages \<Longrightarrow> scan_v1 tails fn pages s = (None, s)"
  by (induction pages) (auto simp: no_v1_def scan_page_skips)

lemma find_skips: "no_v1 pages \<Longrightarrow> find_v1 pages = Inr None"
proof (induction pages)
  case (Cons p ps)
  then obtain ks where ks: "p = Inr ks" "\<forall>k \<in> set ks. classify_v1 k = None" by (auto simp: no_v1_def)
  then have "all_v1 ks = []" by (simp add: all_v1_def filter_empty_conv)
  with ks(1) Cons show ?case by (simp add: no_v1_def)
qed simp

text \<open>
  A resource key without a dot is migrated by nobody. The configuration accepts it and the engine
  counts on it, but the classifier takes its v1 key for something else: with no other counter in
  Redis a backfill in the dual phase copies nothing, the verify passes over the missing twin, and
  the boot guard lets a pure v2 engine start that reads the gauge as absent.
\<close>

theorem dotless_counter_never_migrated:
  assumes "validate_resource r = Inr r'" and "CHR ''.'' \<notin> set (rd_ResourceKey r)" and "CHR '':'' \<notin> set (rd_ResourceKey r)"
    and "validate_scope org ''org_id'' = None"
    and "key = prefix_v ks_zero org (rd_ResourceKey r) 1 @ '':gauge''"
    and "\<forall>p \<in> set pages. \<exists>ks. p = Inr ks \<and> set ks \<subseteq> {key, marker_key (mi_Service M)}"
    and "read_marker (mi_Codec M) (mi_C M) (mi_Service M) (mt_db s) = Inr (Some m)" and "mk_Phase m = ''dual''" and "mk_HighWater m = ''dual''"
    and "mi_Service M \<noteq> []"
  shows "backfill M 0 pages s = ((0, 0, None), s)
    \<and> verify M tolerance pages s = ((\<lparr>vr_OK = True, vr_Compared = 0, vr_Divergent = []\<rparr>, None), s\<lparr>mt_verifiedOK := True\<rparr>)
    \<and> check_boot_keyspace (mi_Codec M) (mi_C M) \<lparr>ks_Service = mi_Service M, ks_Version = 2, ks_DualWrite = False\<rparr> pages (mt_db s)
        = Inr (Some m)"
proof -
  have "classify_v1 key = None"
    using dotless_not_v1 [of "rd_ResourceKey r" org ks_zero "''gauge''"] assms(2-5) by (simp add: scope_valid_iff)
  then have "no_v1 pages" using assms(6) unfolding no_v1_def by fastforce
  with assms(7-10) show ?thesis
    by (simp add: backfill_def in_dual_def verify_def check_boot_keyspace_def is_final_def ks_version_def scan_skips find_skips Let_def)
qed

theorem dotless_counter_never_migrated_witness:
  "\<exists>r r'. validate_resource r = Inr r' \<and> rd_ResourceKey r = ''seats''
     \<and> fst (backfill small_migrator 0 [Inr [''quota:o1:seats:gauge'', ''quota:keyspace:meta:svc'']]
         \<lparr>mt_verifiedOK = False, mt_now = 0, mt_db = [''quota:keyspace:meta:svc'' \<mapsto> ''dual'', ''quota:o1:seats:gauge'' \<mapsto> ''5'']\<rparr>) = (0, 0, None)"
proof -
  let ?r = "gauge_resource ''seats''"
  let ?s = "\<lparr>mt_verifiedOK = False, mt_now = 0, mt_db = [''quota:keyspace:meta:svc'' \<mapsto> ''dual'', ''quota:o1:seats:gauge'' \<mapsto> ''5'']\<rparr>"
  let ?m = "marker_zero\<lparr>mk_Phase := ''dual'', mk_HighWater := ''dual''\<rparr>"
  have r: "validate_resource ?r = Inr ?r" "rd_ResourceKey ?r = ''seats''" by (simp_all add: validate_resource_def gauge_resource_def)
  have k: "''quota:o1:seats:gauge'' = prefix_v ks_zero ''o1'' (rd_ResourceKey ?r) 1 @ '':gauge''" "marker_key ''svc'' = ''quota:keyspace:meta:svc''"
    by (simp_all add: r prefix_v_def marker_key_def)
  have o: "validate_scope ''o1'' ''org_id'' = None" by (simp add: validate_scope_def forbidden_char_def)
  have m: "read_marker (mi_Codec small_migrator) (mi_C small_migrator) (mi_Service small_migrator) (mt_db ?s) = Inr (Some ?m)"
    by (simp add: read_marker_def map_db_def k phase_codec_def)
  have pg: "\<forall>p \<in> set [Inr [''quota:o1:seats:gauge'', ''quota:keyspace:meta:svc'']].
      \<exists>ks. p = Inr ks \<and> set ks \<subseteq> {''quota:o1:seats:gauge'', marker_key (mi_Service small_migrator)}"
    by (simp add: k)
  from dotless_counter_never_migrated [OF r(1) _ _ o k(1) pg m, of "Fin 1"] r show ?thesis by (intro exI [of _ ?r]) simp
qed

end
