(* ===== verification/GoText.thy ===== *)
theory GoText
  imports Prelude
begin

text \<open>
  Decimal text: \<open>strconv.Itoa\<close> and \<open>strconv.Atoi\<close> of Go's 64-bit \<open>int\<close>, and lists laid out in
  blocks of equal length, which the scripts of the Redis stores read by index.
\<close>

section \<open>Itoa and Atoi\<close>

definition digit :: "nat \<Rightarrow> char" where
  "digit d = char_of (48 + d)"

fun nat_text :: "nat \<Rightarrow> string" where
  "nat_text n = (if n < 10 then [digit n] else nat_text (n div 10) @ [digit (n mod 10)])"

declare nat_text.simps [simp del]

definition itoa :: "int \<Rightarrow> string" where
  "itoa n = (if n < 0 then CHR ''-'' # nat_text (nat (- n)) else nat_text (nat n))"

definition is_digit :: "char \<Rightarrow> bool" where
  "is_digit c \<longleftrightarrow> 48 \<le> (of_char c :: nat) \<and> (of_char c :: nat) \<le> 57"

definition digits_value :: "string \<Rightarrow> nat" where
  "digits_value s = foldl (\<lambda>acc c. 10 * acc + (of_char c - 48)) 0 s"

text \<open>An optional sign and at least one digit, within the range of \<open>int64\<close>.\<close>

definition atoi :: "string \<Rightarrow> int option" where
  "atoi s =
     (let neg = (case s of [] \<Rightarrow> False | c # _ \<Rightarrow> c = CHR ''-'');
          ds = (case s of [] \<Rightarrow> [] | c # cs \<Rightarrow> if c = CHR ''-'' \<or> c = CHR ''+'' then cs else s);
          v = (if neg then - int (digits_value ds) else int (digits_value ds))
      in if ds = [] \<or> \<not> list_all is_digit ds \<or> v < - (2 ^ 63) \<or> 2 ^ 63 \<le> v then None else Some v)"

lemma digit_char: "d < 10 \<Longrightarrow> of_char (digit d) = 48 + d" "d < 10 \<Longrightarrow> is_digit (digit d)"
  by (simp_all add: digit_def is_digit_def)

lemma nat_text_nonempty [simp]: "nat_text n \<noteq> []"
  by (subst nat_text.simps) simp

lemma nat_text_digits: "list_all is_digit (nat_text n)"
  by (induction n rule: nat_text.induct) (subst nat_text.simps, simp add: digit_char)

lemma nat_text_value: "digits_value (nat_text n) = n"
  by (induction n rule: nat_text.induct)
     (subst nat_text.simps, auto simp: digits_value_def digit_char)

lemma nat_text_first: "\<exists>c cs. nat_text n = c # cs \<and> is_digit c"
  using nat_text_digits [of n] nat_text_nonempty [of n] by (cases "nat_text n") auto

lemma sign_not_digit: "is_digit c \<Longrightarrow> c \<noteq> CHR ''-'' \<and> c \<noteq> CHR ''+''"
  by (auto simp: is_digit_def)

lemma atoi_itoa: "- (2 ^ 63) \<le> n \<Longrightarrow> n < 2 ^ 63 \<Longrightarrow> atoi (itoa n) = Some n"
proof (cases "n < 0")
  case False
  assume b: "n < 2 ^ 63"
  obtain c cs where c: "nat_text (nat n) = c # cs" "is_digit c" using nat_text_first by blast
  have "digits_value (c # cs) = nat n" "list_all is_digit (c # cs)"
    using nat_text_value [of "nat n"] nat_text_digits [of "nat n"] c(1) by simp_all
  with False b c sign_not_digit [OF c(2)] show ?thesis by (simp add: itoa_def atoi_def)
qed (simp add: itoa_def atoi_def nat_text_value nat_text_digits)

lemma itoa_inj: "itoa m = itoa n \<longleftrightarrow> m = n"
proof
  assume a: "itoa m = itoa n"
  have s: "itoa x ! 0 = CHR ''-'' \<longleftrightarrow> x < 0" for x
    using nat_text_first [of "nat x"] sign_not_digit by (auto simp: itoa_def)
  then have "m < 0 \<longleftrightarrow> n < 0" using a by metis
  then have "nat_text (nat \<bar>m\<bar>) = nat_text (nat \<bar>n\<bar>)" using a by (auto simp: itoa_def split: if_splits)
  then have "nat \<bar>m\<bar> = nat \<bar>n\<bar>" by (metis nat_text_value)
  with \<open>m < 0 \<longleftrightarrow> n < 0\<close> show "m = n" by linarith
qed simp

lemma itoa_nonempty [simp]: "itoa n \<noteq> []"
  by (simp add: itoa_def)

lemma itoa_small: "itoa 0 = ''0''" "itoa 1 = ''1''"
  by (simp_all add: itoa_def nat_text.simps digit_def char_of_def bit_0)

text \<open>The integer a decimal text denotes, without a range.\<close>

definition text_int :: "string \<Rightarrow> int" where
  "text_int s = (if s \<noteq> [] \<and> hd s = CHR ''-'' then - int (digits_value (tl s)) else int (digits_value s))"

lemma text_int_itoa [simp]: "text_int (itoa n) = n"
proof (cases "n < 0")
  case False
  obtain c cs where "nat_text (nat n) = c # cs" "is_digit c" using nat_text_first by blast
  with sign_not_digit [of c] nat_text_value [of "nat n"] False show ?thesis by (simp add: text_int_def itoa_def)
qed (simp add: text_int_def itoa_def nat_text_value)

section \<open>Lists in blocks\<close>

lemma length_blocks: "(\<And>x. length (f x) = m) \<Longrightarrow> length (concat (map f xs)) = m * length xs"
  by (induction xs) simp_all

lemma nth_blocks:
  assumes "\<And>x. length (f x) = m" and "i < length xs" and "j < m"
  shows "concat (map f xs) ! (i * m + j) = f (xs ! i) ! j"
  using assms(2)
proof (induction xs arbitrary: i)
  case (Cons x xs)
  then show ?case
    using assms(1,3) by (cases i) (auto simp: nth_append add.assoc)
qed simp

end
