(* ===== verification/RedisStore.thy ===== *)
theory RedisStore
  imports CounterStore GoText
begin

text \<open>
  The Redis side of package \<open>counters\<close>: \<open>redisFloatStore\<close> and \<open>redisRateStore\<close>
  (\<open>counters/store_redis.go\<close>), the acquire script (\<open>counters/acquire.go\<close>) and the dual-shape
  scripts (\<open>counters/dual.go\<close>). The server's commands, the Lua conversions between text and
  numbers, and \<open>strconv\<close>'s conversions of floats are a parameter, the record \<open>redis\<close>. A script is
  its commands in order on the \<open>KEYS\<close> and \<open>ARGV\<close> that the Go code lays out; a command that fails
  aborts the script and what it did before stays done, as the server has it.
\<close>

section \<open>Scripts\<close>

type_synonym ('w, 'a) script = "'w \<Rightarrow> (goerr + 'a) \<times> 'w"

definition sret :: "'a \<Rightarrow> ('w, 'a) script" where
  "sret a w = (Inr a, w)"

definition sfail :: "string \<Rightarrow> ('w, 'a) script" where
  "sfail m w = (Inl (ErrBackend m), w)"

definition sbind :: "('w, 'a) script \<Rightarrow> ('a \<Rightarrow> ('w, 'b) script) \<Rightarrow> ('w, 'b) script" where
  "sbind m f w = (case m w of (Inl e, w) \<Rightarrow> (Inl e, w) | (Inr a, w) \<Rightarrow> f a w)"

definition sseq :: "('w, 'a) script \<Rightarrow> ('w, 'b) script \<Rightarrow> ('w, 'b) script" where
  "sseq m n = sbind m (\<lambda>_. n)"

text \<open>A \<open>for\<close> loop over its index values; the body may return from the script.\<close>

fun sfor :: "nat list \<Rightarrow> (nat \<Rightarrow> ('w, 'r option) script) \<Rightarrow> ('w, 'r option) script" where
  "sfor [] body = sret None"
| "sfor (i # is) body = sbind (body i) (\<lambda>r. case r of Some x \<Rightarrow> sret (Some x) | None \<Rightarrow> sfor is body)"

text \<open>Replies as the client hands them to Go.\<close>

datatype reply = RStr string | RBytes string | RInt int | RArr "reply list"

section \<open>The server and the client\<close>

text \<open>
  \<open>sv_\<close>: commands inside a script, with their textual arguments. \<open>cl_\<close>: methods of the client;
  \<open>cl_Run\<close> sends a script. \<open>tx_\<close>: \<open>strconv.FormatFloat(f, 'f', -1, 64)\<close> and \<open>ParseFloat\<close>.
  \<open>lu_\<close>: Lua's \<open>tonumber\<close>, the text of a number passed to \<open>redis.call\<close>, and \<open>tostring\<close> of a loop index.
\<close>

record 'w redis =
  sv_GET :: "string \<Rightarrow> ('w, string option) script"
  sv_EXISTS :: "string \<Rightarrow> ('w, int) script"
  sv_SET :: "string \<Rightarrow> string \<Rightarrow> ('w, unit) script"
  sv_SETNXEX :: "string \<Rightarrow> string \<Rightarrow> string \<Rightarrow> ('w, bool) script"
  sv_INCRBYFLOAT :: "string \<Rightarrow> string \<Rightarrow> ('w, string) script"
  sv_INCR :: "string \<Rightarrow> ('w, int) script"
  sv_EXPIRE :: "string \<Rightarrow> string \<Rightarrow> ('w, int) script"
  cl_Get :: "string \<Rightarrow> ('w, string option) script"
  cl_Set :: "string \<Rightarrow> string \<Rightarrow> duration \<Rightarrow> ('w, unit) script"
  cl_SetNX :: "string \<Rightarrow> string \<Rightarrow> duration \<Rightarrow> ('w, bool) script"
  cl_IncrByFloat :: "string \<Rightarrow> f64 \<Rightarrow> ('w, f64) script"
  cl_Del :: "string list \<Rightarrow> ('w, unit) script"
  cl_Expire :: "string \<Rightarrow> duration \<Rightarrow> ('w, unit) script"
  cl_Persist :: "string \<Rightarrow> ('w, unit) script"
  cl_ZAdd :: "string \<Rightarrow> f64 \<Rightarrow> string \<Rightarrow> ('w, unit) script"
  cl_ZRemRangeByScore :: "string \<Rightarrow> string \<Rightarrow> string \<Rightarrow> ('w, unit) script"
  cl_ZCard :: "string \<Rightarrow> ('w, int) script"
  cl_Tx :: "('w, unit) script \<Rightarrow> ('w, unit) script"
  cl_Run :: "('w, reply) script \<Rightarrow> ('w, reply) script"
  tx_Format :: "f64 \<Rightarrow> string"
  tx_Parse :: "string \<Rightarrow> goerr + f64"
  lu_tonumber :: "string \<Rightarrow> f64 option"
  lu_numarg :: "f64 \<Rightarrow> string"
  lu_tostring :: "nat \<Rightarrow> string"

text \<open>Lua's 1-based tables; a missing entry is \<open>nil\<close>, which \<open>redis.call\<close> and arithmetic refuse.\<close>

definition tab :: "string list \<Rightarrow> nat \<Rightarrow> string option" where
  "tab xs i = (if 1 \<le> i \<and> i \<le> length xs then Some (xs ! (i - 1)) else None)"

definition need :: "string option \<Rightarrow> (string \<Rightarrow> ('w, 'a) script) \<Rightarrow> ('w, 'a) script" where
  "need x f = (case x of None \<Rightarrow> sfail ''Lua redis lib command arguments must be strings or integers'' | Some k \<Rightarrow> f k)"

definition num :: "'w redis \<Rightarrow> string option \<Rightarrow> (f64 \<Rightarrow> ('w, 'a) script) \<Rightarrow> ('w, 'a) script" where
  "num R x f = (case Option.bind x (lu_tonumber R) of None \<Rightarrow> sfail ''attempt to perform arithmetic on a nil value'' | Some v \<Rightarrow> f v)"

text \<open>The index values of \<open>for i=1,n\<close>.\<close>

fun upto_num :: "f64 \<Rightarrow> nat list" where
  "upto_num (Fin q) = [1..<Suc (nat \<lfloor>q\<rfloor>)]"
| "upto_num _ = []"

section \<open>The float store\<close>

text \<open>An increment floored at zero, as \<open>decrFloorSrc\<close> and \<open>incrfloorboth\<close> have it: the text of the new value.\<close>

definition incrfloor :: "'w redis \<Rightarrow> string \<Rightarrow> string \<Rightarrow> ('w, string) script" where
  "incrfloor R k d =
     sbind (sv_INCRBYFLOAT R k d) (\<lambda>v. num R (Some v) (\<lambda>x.
       if flt x (Fin 0) then sseq (sv_SET R k ''0'') (sret ''0'') else sret v))"

definition decr_floor_script :: "'w redis \<Rightarrow> string list \<Rightarrow> string list \<Rightarrow> ('w, reply) script" where
  "decr_floor_script R KEYS ARGV =
     need (tab KEYS 1) (\<lambda>k. need (tab ARGV 1) (\<lambda>d. sbind (incrfloor R k d) (\<lambda>v. sret (RStr v))))"

definition sparse :: "'w redis \<Rightarrow> string \<Rightarrow> ('w, f64) script" where
  "sparse R t w = (tx_Parse R t, w)"

definition red_decr_floor :: "'w redis \<Rightarrow> 'w \<Rightarrow> string \<Rightarrow> f64 \<Rightarrow> (goerr + f64) \<times> 'w" where
  "red_decr_floor R w key amount =
     sbind (cl_Run R (decr_floor_script R [key] [tx_Format R (fneg amount)])) (\<lambda>res.
       case res of RStr t \<Rightarrow> sparse R t | _ \<Rightarrow> sfail ''decrFloor: unexpected reply type'') w"

definition red_incr :: "'w redis \<Rightarrow> 'w \<Rightarrow> string \<Rightarrow> f64 \<Rightarrow> (goerr + f64) \<times> 'w" where
  "red_incr R w key delta = cl_IncrByFloat R key delta w"

definition red_get :: "'w redis \<Rightarrow> 'w \<Rightarrow> string \<Rightarrow> (goerr + f64 \<times> bool) \<times> 'w" where
  "red_get R w key =
     sbind (cl_Get R key) (\<lambda>v. case v of
       None \<Rightarrow> sret (Fin 0, False)
     | Some t \<Rightarrow> sbind (sparse R t) (\<lambda>f. sret (f, True))) w"

text \<open>Methods that return an error only.\<close>

definition only_err :: "(goerr + unit) \<times> 'w \<Rightarrow> goerr option \<times> 'w" where
  "only_err r = (case r of (Inl e, w) \<Rightarrow> (Some e, w) | (Inr _, w) \<Rightarrow> (None, w))"

definition red_set :: "'w redis \<Rightarrow> 'w \<Rightarrow> string \<Rightarrow> f64 \<Rightarrow> duration \<Rightarrow> goerr option \<times> 'w" where
  "red_set R w key value ttl = only_err (cl_Set R key (tx_Format R value) ttl w)"

definition red_delete :: "'w redis \<Rightarrow> 'w \<Rightarrow> string list \<Rightarrow> goerr option \<times> 'w" where
  "red_delete R w keys = (if keys = [] then (None, w) else only_err (cl_Del R keys w))"

definition red_expire :: "'w redis \<Rightarrow> 'w \<Rightarrow> string \<Rightarrow> duration \<Rightarrow> goerr option \<times> 'w" where
  "red_expire R w key ttl = only_err (if ttl \<le> 0 then cl_Persist R key w else cl_Expire R key ttl w)"

definition red_set_if_absent :: "'w redis \<Rightarrow> 'w \<Rightarrow> string \<Rightarrow> string \<Rightarrow> duration \<Rightarrow> (goerr + bool) \<times> 'w" where
  "red_set_if_absent R w key value ttl = cl_SetNX R key value (if ttl < 0 then 0 else ttl) w"

section \<open>The acquire script\<close>

definition fmt_limit :: "'w redis \<Rightarrow> f64 option \<Rightarrow> string" where
  "fmt_limit R l = (case l of None \<Rightarrow> [] | Some f \<Rightarrow> tx_Format R f)"

text \<open>Body of the checking loop: \<open>kb\<close> and \<open>ab\<close> are the bases of gauge \<open>i\<close> in \<open>KEYS\<close> and \<open>ARGV\<close>.\<close>

definition verdict :: "'w redis \<Rightarrow> bool \<Rightarrow> nat \<Rightarrow> reply" where
  "verdict R ok i = (if ok then RArr [RStr ''1'', RStr ''ok''] else RArr [RStr ''0'', RStr (lu_tostring R i)])"

definition dup_reply :: reply where
  "dup_reply = RArr [RStr ''1'', RStr ''dup'']"

definition acq_check :: "'w redis \<Rightarrow> nat \<Rightarrow> string list \<Rightarrow> string list \<Rightarrow> nat \<Rightarrow> ('w, reply option) script" where
  "acq_check R argbase KEYS ARGV i =
     (let kb = 1 + (i - 1) * 3; ab = argbase + (i - 1) * 4;
          has_user = tab ARGV (ab + 1); org_limit = tab ARGV (ab + 3); user_limit = tab ARGV (ab + 4);
          test = (\<lambda>cur limit delta next.
            num R (Some (case cur of None \<Rightarrow> ''0'' | Some t \<Rightarrow> t)) (\<lambda>c. num R limit (\<lambda>l.
              if fgt (fadd c delta) l then sret (Some (verdict R False i)) else next)));
          user = (\<lambda>delta. if has_user = Some ''1'' \<and> user_limit \<noteq> Some []
                   then need (tab KEYS (kb + 2)) (\<lambda>k. sbind (sv_GET R k) (\<lambda>ucur. test ucur user_limit delta (sret None)))
                   else sret None)
      in num R (tab ARGV (ab + 2)) (\<lambda>delta.
           need (tab KEYS (kb + 1)) (\<lambda>k. sbind (sv_GET R k) (\<lambda>ocur.
             if org_limit \<noteq> Some [] then test ocur org_limit delta (user delta) else user delta))))"

text \<open>Body of the spending loop.\<close>

definition acq_spend :: "'w redis \<Rightarrow> string list \<Rightarrow> string list \<Rightarrow> nat \<Rightarrow> ('w, reply option) script" where
  "acq_spend R KEYS ARGV i =
     (let kb = 1 + (i - 1) * 3; ab = 3 + (i - 1) * 4 in
      num R (tab ARGV (ab + 2)) (\<lambda>delta.
        need (tab KEYS (kb + 1)) (\<lambda>org. sseq (sv_INCRBYFLOAT R org (lu_numarg R delta))
          (if tab ARGV (ab + 1) = Some ''1''
           then need (tab KEYS (kb + 3)) (\<lambda>seq. sseq (sv_INCR R seq)
                  (need (tab KEYS (kb + 2)) (\<lambda>user. sseq (sv_INCRBYFLOAT R user (lu_numarg R delta)) (sret None))))
           else sret None))))"

definition acquire_script :: "'w redis \<Rightarrow> string list \<Rightarrow> string list \<Rightarrow> ('w, reply) script" where
  "acquire_script R KEYS ARGV =
     num R (tab ARGV 3) (\<lambda>n.
       let has_idem = (tab ARGV 1 = Some ''1'');
           claim = (\<lambda>next. if has_idem
             then need (tab KEYS 1) (\<lambda>k. need (tab ARGV 2) (\<lambda>ttl. sbind (sv_SETNXEX R k ''1'' ttl) (\<lambda>ok.
                    if ok then next else sret dup_reply)))
             else next);
           rest = sbind (sfor (upto_num n) (acq_check R 3 KEYS ARGV)) (\<lambda>r. case r of
               Some x \<Rightarrow> sret x
             | None \<Rightarrow> claim (sseq (sfor (upto_num n) (acq_spend R KEYS ARGV)) (sret (verdict R True 0))))
       in if has_idem
          then need (tab KEYS 1) (\<lambda>k. sbind (sv_GET R k) (\<lambda>v. if v \<noteq> None then sret dup_reply else rest))
          else rest)"

text \<open>\<open>Duration.Seconds\<close>, and the TTL that a claim gets, in whole seconds.\<close>

definition dur_seconds :: "duration \<Rightarrow> f64" where
  "dur_seconds d =
     (let q = (if d < 0 then - (- d div second) else d div second); r = d - q * second
      in fadd (of_go_int q) (fdiv (of_go_int r) (Fin (of_int second))))"

definition idem_seconds :: "duration \<Rightarrow> int" where
  "idem_seconds d = (let ttl = to_go_int (dur_seconds d) in if ttl \<le> 0 then 86400 else ttl)"

definition flag :: "bool \<Rightarrow> string" where
  "flag b = (if b then ''1'' else ''0'')"

definition to_str :: "reply \<Rightarrow> string" where
  "to_str v = (case v of RStr t \<Rightarrow> t | RBytes t \<Rightarrow> t | RInt i \<Rightarrow> itoa i | RArr _ \<Rightarrow> [])"

definition primary_keys :: "acquire_spec \<Rightarrow> string list" where
  "primary_keys sp =
     (if as_HasUser sp then [as_OrgKey sp, as_UserKey sp, as_SeqKey sp] else [as_OrgKey sp, as_OrgKey sp, as_OrgKey sp])"

definition secondary_keys :: "acquire_spec \<Rightarrow> string list" where
  "secondary_keys sp =
     (if as_HasUser sp then [as_OrgKey2 sp, as_UserKey2 sp, as_SeqKey2 sp] else [as_OrgKey2 sp, as_OrgKey2 sp, as_OrgKey2 sp])"

definition spec_args :: "'w redis \<Rightarrow> acquire_spec \<Rightarrow> string list" where
  "spec_args R sp = [flag (as_HasUser sp), tx_Format R (as_Delta sp), fmt_limit R (as_OrgLimit sp), fmt_limit R (as_UserLimit sp)]"

text \<open>
  Reading the reply. An outcome's \<open>DeniedIndex\<close> is a Go \<open>int\<close>; the script only produces
  non-negative ones, and \<open>nat\<close> would read a negative index as 0.
\<close>

definition read_acquire_reply :: "reply \<Rightarrow> goerr + acquire_outcome" where
  "read_acquire_reply res =
     (case res of
        RArr [a, b] \<Rightarrow>
          (let admitted = (to_str a = ''1''); reason = to_str b in
           if reason = ''dup'' then Inr \<lparr>ao_Admitted = admitted, ao_Dup = True, ao_DeniedIndex = 0\<rparr>
           else if reason = ''ok'' then Inr \<lparr>ao_Admitted = admitted, ao_Dup = False, ao_DeniedIndex = 0\<rparr>
           else (case atoi reason of
                   None \<Rightarrow> if admitted then Inr \<lparr>ao_Admitted = True, ao_Dup = False, ao_DeniedIndex = 0\<rparr>
                           else Inl (ErrBackend ''counters: unexpected acquire script reason'')
                 | Some idx \<Rightarrow> Inr \<lparr>ao_Admitted = admitted, ao_Dup = False, ao_DeniedIndex = nat idx\<rparr>))
      | _ \<Rightarrow> Inl (ErrBackend ''counters: unexpected acquire script reply''))"

definition run_acquire :: "'w redis \<Rightarrow> ('w, reply) script \<Rightarrow> 'w \<Rightarrow> (goerr + acquire_outcome) \<times> 'w" where
  "run_acquire R m w = sbind (cl_Run R m) (\<lambda>res w. (read_acquire_reply res, w)) w"

definition red_atomic_acquire ::
  "'w redis \<Rightarrow> 'w \<Rightarrow> string \<Rightarrow> bool \<Rightarrow> duration \<Rightarrow> acquire_spec list \<Rightarrow> (goerr + acquire_outcome) \<times> 'w" where
  "red_atomic_acquire R w idemKey hasIdem idemTTL specs =
     (case validate_specs 0 specs of
        Some e \<Rightarrow> (Inl e, w)
      | None \<Rightarrow>
          run_acquire R (acquire_script R (idemKey # concat (map primary_keys specs))
            ([flag hasIdem, itoa (idem_seconds idemTTL), itoa (int (length specs))] @ concat (map (spec_args R) specs))) w)"

section \<open>The dual-shape scripts\<close>

text \<open>What \<open>DualLua\<close> puts in front of a body: the number of primary keys and the two flags.\<close>

record dual_env =
  de_KEYS :: "string list"
  de_ARGV :: "string list"
  de_NK :: nat
  de_DUAL :: bool
  de_V2P :: bool

definition dual_lua :: "nat \<Rightarrow> nat \<Rightarrow> string list \<Rightarrow> string list \<Rightarrow> dual_env" where
  "dual_lua nk dualArgv KEYS ARGV =
     \<lparr>de_KEYS = KEYS, de_ARGV = ARGV, de_NK = nk, de_DUAL = (tab ARGV dualArgv = Some ''1''),
      de_V2P = (tab ARGV (dualArgv + 1) = Some ''1'')\<rparr>"

definition dkey :: "dual_env \<Rightarrow> nat \<Rightarrow> (string \<Rightarrow> ('w, 'a) script) \<Rightarrow> ('w, 'a) script" where
  "dkey E i = need (tab (de_KEYS E) i)"

definition seedv2 :: "'w redis \<Rightarrow> dual_env \<Rightarrow> nat \<Rightarrow> ('w, unit) script" where
  "seedv2 R E i =
     (if \<not> de_DUAL E then sret ()
      else let dst = (if de_V2P E then i else de_NK E + i); src = (if de_V2P E then de_NK E + i else i) in
        dkey E dst (\<lambda>d. sbind (sv_EXISTS R d) (\<lambda>e.
          if e = 0 then dkey E src (\<lambda>s. sbind (sv_GET R s) (\<lambda>v. case v of None \<Rightarrow> sret () | Some x \<Rightarrow> sv_SET R d x))
          else sret ())))"

definition idem_dup :: "'w redis \<Rightarrow> dual_env \<Rightarrow> nat \<Rightarrow> ('w, bool) script" where
  "idem_dup R E i =
     dkey E i (\<lambda>k. sbind (sv_GET R k) (\<lambda>v.
       if v \<noteq> None then sret True
       else if de_DUAL E then dkey E (de_NK E + i) (\<lambda>k. sbind (sv_GET R k) (\<lambda>v. sret (v \<noteq> None)))
       else sret False))"

definition idem_claim_both :: "'w redis \<Rightarrow> dual_env \<Rightarrow> nat \<Rightarrow> ('w, unit) script" where
  "idem_claim_both R E i =
     need (tab (de_ARGV E) 2) (\<lambda>ttl.
       sseq (dkey E i (\<lambda>k. sv_SETNXEX R k ''1'' ttl))
         (if de_DUAL E then sseq (dkey E (de_NK E + i) (\<lambda>k. sv_SETNXEX R k ''1'' ttl)) (sret ()) else sret ()))"

definition incrboth :: "'w redis \<Rightarrow> dual_env \<Rightarrow> nat \<Rightarrow> string \<Rightarrow> ('w, string) script" where
  "incrboth R E i d =
     sbind (dkey E i (\<lambda>k. sv_INCRBYFLOAT R k d)) (\<lambda>v.
       if de_DUAL E then sseq (dkey E (de_NK E + i) (\<lambda>k. sv_INCRBYFLOAT R k d)) (sret v) else sret v)"

definition incrfloorboth :: "'w redis \<Rightarrow> dual_env \<Rightarrow> nat \<Rightarrow> string \<Rightarrow> ('w, string) script" where
  "incrfloorboth R E i d =
     sbind (dkey E i (\<lambda>k. incrfloor R k d)) (\<lambda>v.
       if de_DUAL E then sseq (dkey E (de_NK E + i) (\<lambda>k. incrfloor R k d)) (sret v) else sret v)"

definition incrintboth :: "'w redis \<Rightarrow> dual_env \<Rightarrow> nat \<Rightarrow> ('w, unit) script" where
  "incrintboth R E i =
     sseq (dkey E i (sv_INCR R)) (if de_DUAL E then sseq (dkey E (de_NK E + i) (sv_INCR R)) (sret ()) else sret ())"

definition expboth :: "'w redis \<Rightarrow> dual_env \<Rightarrow> nat \<Rightarrow> string \<Rightarrow> ('w, unit) script" where
  "expboth R E i t =
     sseq (dkey E i (\<lambda>k. sv_EXPIRE R k t))
       (if de_DUAL E then sseq (dkey E (de_NK E + i) (\<lambda>k. sv_EXPIRE R k t)) (sret ()) else sret ())"

definition dual_spend_org_script :: "'w redis \<Rightarrow> string list \<Rightarrow> string list \<Rightarrow> ('w, reply) script" where
  "dual_spend_org_script R KEYS ARGV =
     (let E = dual_lua 1 2 KEYS ARGV in
      sseq (seedv2 R E 1) (need (tab ARGV 1) (\<lambda>d. sbind (incrboth R E 1 d) (\<lambda>v. sret (RStr v)))))"

definition dual_spend_user_script :: "'w redis \<Rightarrow> string list \<Rightarrow> string list \<Rightarrow> ('w, reply) script" where
  "dual_spend_user_script R KEYS ARGV =
     (let E = dual_lua 3 2 KEYS ARGV in
      sseq (seedv2 R E 1) (sseq (seedv2 R E 2) (sseq (seedv2 R E 3)
        (need (tab ARGV 1) (\<lambda>d. sbind (incrboth R E 1 d) (\<lambda>v. sbind (incrboth R E 2 d) (\<lambda>u.
           sret (RArr [RStr v, RStr u]))))))))"

definition dual_decr_floor_script :: "'w redis \<Rightarrow> string list \<Rightarrow> string list \<Rightarrow> ('w, reply) script" where
  "dual_decr_floor_script R KEYS ARGV =
     (let E = dual_lua 1 2 KEYS ARGV in
      sseq (seedv2 R E 1) (need (tab ARGV 1) (\<lambda>d. sbind (incrfloorboth R E 1 (CHR ''-'' # d)) (\<lambda>v. sret (RStr v)))))"

definition dual_acc_add_script :: "'w redis \<Rightarrow> string list \<Rightarrow> string list \<Rightarrow> ('w, reply) script" where
  "dual_acc_add_script R KEYS ARGV =
     (let E = dual_lua 1 3 KEYS ARGV in
      sseq (seedv2 R E 1) (need (tab ARGV 1) (\<lambda>d. sbind (incrboth R E 1 d) (\<lambda>v.
        num R (tab ARGV 2) (\<lambda>t.
          sseq (if fgt t (Fin 0) then need (tab ARGV 2) (expboth R E 1) else sret ()) (sret (RStr v)))))))"

definition dual_seed_gauge :: "'w redis \<Rightarrow> dual_env \<Rightarrow> nat \<Rightarrow> ('w, reply option) script" where
  "dual_seed_gauge R E i =
     (let kb = 1 + (i - 1) * 3; ab = 5 + (i - 1) * 4 in
      sseq (seedv2 R E (kb + 1))
        (if tab (de_ARGV E) (ab + 1) = Some ''1''
         then sseq (seedv2 R E (kb + 2)) (sseq (seedv2 R E (kb + 3)) (sret None)) else sret None))"

definition dual_acq_spend :: "'w redis \<Rightarrow> dual_env \<Rightarrow> nat \<Rightarrow> ('w, reply option) script" where
  "dual_acq_spend R E i =
     (let kb = 1 + (i - 1) * 3; ab = 5 + (i - 1) * 4 in
      num R (tab (de_ARGV E) (ab + 2)) (\<lambda>delta.
        sseq (incrboth R E (kb + 1) (lu_numarg R delta))
          (if tab (de_ARGV E) (ab + 1) = Some ''1''
           then sseq (incrintboth R E (kb + 3)) (sseq (incrboth R E (kb + 2) (lu_numarg R delta)) (sret None))
           else sret None)))"

definition dual_acquire_script :: "'w redis \<Rightarrow> string list \<Rightarrow> string list \<Rightarrow> ('w, reply) script" where
  "dual_acquire_script R KEYS ARGV =
     num R (tab ARGV 3) (\<lambda>n.
       let E = dual_lua (1 + length (upto_num n) * 3) 4 KEYS ARGV;
           has_idem = (tab ARGV 1 = Some ''1'');
           rest = sbind (sfor (upto_num n) (acq_check R 5 KEYS ARGV)) (\<lambda>r. case r of
               Some x \<Rightarrow> sret x
             | None \<Rightarrow> sseq (if has_idem then idem_claim_both R E 1 else sret ())
                        (sseq (sfor (upto_num n) (dual_acq_spend R E)) (sret (verdict R True 0))))
       in sseq (sfor (upto_num n) (dual_seed_gauge R E))
            (if has_idem then sbind (idem_dup R E 1) (\<lambda>dup. if dup then sret dup_reply else rest) else rest))"

section \<open>The dual-shape operations\<close>

definition pair_list :: "dual_pair \<Rightarrow> string list" where
  "pair_list k = dp_P k # (if dp_S k \<noteq> [] then [dp_S k] else [])"

definition dual_flags :: "dual_pair \<Rightarrow> bool \<Rightarrow> string list" where
  "dual_flags k v2p = [flag (dp_S k \<noteq> []), flag v2p]"

definition parse_lua_float :: "'w redis \<Rightarrow> reply \<Rightarrow> ('w, f64) script" where
  "parse_lua_float R res =
     (case res of
        RStr t \<Rightarrow> sparse R t
      | RBytes t \<Rightarrow> sparse R t
      | RInt i \<Rightarrow> sret (of_go_int i)
      | RArr _ \<Rightarrow> sfail ''unexpected Lua numeric reply'')"

definition red_dual_spend_org :: "'w redis \<Rightarrow> 'w \<Rightarrow> dual_pair \<Rightarrow> f64 \<Rightarrow> bool \<Rightarrow> (goerr + f64) \<times> 'w" where
  "red_dual_spend_org R w org delta v2p =
     sbind (cl_Run R (dual_spend_org_script R (pair_list org) (tx_Format R delta # dual_flags org v2p))) (parse_lua_float R) w"

definition red_dual_spend_user ::
  "'w redis \<Rightarrow> 'w \<Rightarrow> dual_pair \<Rightarrow> dual_pair \<Rightarrow> dual_pair \<Rightarrow> f64 \<Rightarrow> bool \<Rightarrow> (goerr + f64 \<times> f64) \<times> 'w" where
  "red_dual_spend_user R w org user seq delta v2p =
     sbind (cl_Run R (dual_spend_user_script R
         ([dp_P org, dp_P user, dp_P seq] @ (if dp_S org \<noteq> [] then [dp_S org, dp_S user, dp_S seq] else []))
         (tx_Format R delta # dual_flags org v2p)))
       (\<lambda>res. case res of
          RArr [a, b] \<Rightarrow> sbind (parse_lua_float R a) (\<lambda>v. sbind (parse_lua_float R b) (\<lambda>u. sret (v, u)))
        | _ \<Rightarrow> sfail ''DualSpendUser: unexpected reply'') w"

definition red_dual_decr_floor :: "'w redis \<Rightarrow> 'w \<Rightarrow> dual_pair \<Rightarrow> f64 \<Rightarrow> bool \<Rightarrow> (goerr + f64) \<times> 'w" where
  "red_dual_decr_floor R w key amount v2p =
     sbind (cl_Run R (dual_decr_floor_script R (pair_list key) (tx_Format R amount # dual_flags key v2p))) (parse_lua_float R) w"

definition red_dual_acc_add ::
  "'w redis \<Rightarrow> 'w \<Rightarrow> dual_pair \<Rightarrow> f64 \<Rightarrow> duration \<Rightarrow> bool \<Rightarrow> (goerr + f64) \<times> 'w" where
  "red_dual_acc_add R w acc delta ttl v2p =
     sbind (cl_Run R (dual_acc_add_script R (pair_list acc)
       ([tx_Format R delta, itoa (to_go_int (dur_seconds ttl))] @ dual_flags acc v2p))) (parse_lua_float R) w"

definition red_dual_atomic_acquire ::
  "'w redis \<Rightarrow> 'w \<Rightarrow> dual_pair \<Rightarrow> bool \<Rightarrow> duration \<Rightarrow> bool \<Rightarrow> acquire_spec list \<Rightarrow> (goerr + acquire_outcome) \<times> 'w" where
  "red_dual_atomic_acquire R w idem hasIdem idemTTL v2p specs =
     (case validate_specs 0 specs of
        Some e \<Rightarrow> (Inl e, w)
      | None \<Rightarrow>
          run_acquire R (dual_acquire_script R
            (dp_P idem # concat (map primary_keys specs)
               @ (if dp_S idem \<noteq> [] then dp_S idem # concat (map secondary_keys specs) else []))
            ([flag hasIdem, itoa (idem_seconds idemTTL), itoa (int (length specs))] @ dual_flags idem v2p
               @ concat (map (spec_args R) specs))) w)"

definition red_dual_ops :: "'w redis \<Rightarrow> 'w dual_ops" where
  "red_dual_ops R =
     \<lparr>do_SpendOrg = red_dual_spend_org R, do_SpendUser = red_dual_spend_user R, do_DecrFloor = red_dual_decr_floor R,
      do_AccAdd = red_dual_acc_add R, do_AtomicAcquire = red_dual_atomic_acquire R\<rparr>"

text \<open>\<open>NewRedisStore\<close>: no client, no store.\<close>

definition red_float_store :: "'w redis \<Rightarrow> 'w float_store" where
  "red_float_store R =
     \<lparr>fs_IncrByFloat = red_incr R, fs_GetFloat = red_get R, fs_Set = red_set R, fs_Delete = red_delete R,
      fs_Expire = red_expire R, fs_SetIfAbsent = red_set_if_absent R, fs_DecrByFloorZero = red_decr_floor R,
      fs_acquirer = Some (red_atomic_acquire R), fs_dual = Some (red_dual_ops R)\<rparr>"

definition new_redis_store :: "'w redis option \<Rightarrow> goerr + 'w float_store" where
  "new_redis_store c = (case c of None \<Rightarrow> Inl (ErrBackend ''redis backend requested but no client supplied'') | Some R \<Rightarrow> Inr (red_float_store R))"

section \<open>The rate store\<close>

definition epoch_seconds :: "instant \<Rightarrow> f64" where
  "epoch_seconds t = fdiv (of_go_int t) (Fin (of_int second))"

definition cutoff_str :: "'w redis \<Rightarrow> instant \<Rightarrow> duration \<Rightarrow> string" where
  "cutoff_str R now window = CHR ''('' # tx_Format R (epoch_seconds (now - window))"

definition red_trim :: "'w redis \<Rightarrow> 'w \<Rightarrow> string \<Rightarrow> instant \<Rightarrow> duration \<Rightarrow> goerr option \<times> 'w" where
  "red_trim R w key now window = only_err (cl_ZRemRangeByScore R key ''-inf'' (cutoff_str R now window) w)"

text \<open>\<open>tok\<close> is the random token drawn for the member.\<close>

definition red_record ::
  "'w redis \<Rightarrow> ('w \<Rightarrow> string) \<Rightarrow> 'w \<Rightarrow> string \<Rightarrow> instant \<Rightarrow> duration \<Rightarrow> string \<Rightarrow> goerr option \<times> 'w" where
  "red_record R tok w key now window member =
     (let member = (if member = [] then itoa now else member) @ '':'' @ tok w in
      only_err (cl_Tx R (sseq (cl_ZAdd R key (epoch_seconds now) member)
        (sseq (cl_ZRemRangeByScore R key ''-inf'' (cutoff_str R now window)) (cl_Expire R key (window + 60 * second)))) w))"

definition red_count :: "'w redis \<Rightarrow> 'w \<Rightarrow> string \<Rightarrow> instant \<Rightarrow> duration \<Rightarrow> (goerr + int) \<times> 'w" where
  "red_count R w key now window =
     (case red_trim R w key now window of (Some e, w) \<Rightarrow> (Inl e, w) | (None, w) \<Rightarrow> cl_ZCard R key w)"

definition red_rate_store :: "'w redis \<Rightarrow> ('w \<Rightarrow> string) \<Rightarrow> 'w rate_store" where
  "red_rate_store R tok = \<lparr>rt_Record = red_record R tok, rt_Count = red_count R, rt_Trim = red_trim R\<rparr>"

end
