(* ===== verification/RedisRefine.thy ===== *)
theory RedisRefine
  imports RedisStore
begin

text \<open>
  The Redis store of \<open>RedisStore\<close> against the in-memory store of \<open>CounterStore\<close>. What is relied on of
  the server is \<open>redis_laws\<close>: the documented effect of each command on the strings a client can read,
  for whole numbers that a \<open>float64\<close> holds exactly (\<open>INCRBYFLOAT\<close> computes in extended precision, so
  nothing is assumed of fractions). The scripts are evaluated once and for all against these laws, and
  every operation of the store is shown to answer as the in-memory one does.
\<close>

section \<open>Evaluating scripts on the readable strings\<close>

type_synonym strings = "string \<rightharpoonup> string"
type_synonym counts = "string \<rightharpoonup> int"

text \<open>From every state with the view \<open>v\<close>, the script answers \<open>r\<close> and leaves the view \<open>v'\<close>.\<close>

definition runs :: "('w \<Rightarrow> 'v) \<Rightarrow> ('w, 'a) script \<Rightarrow> 'v \<Rightarrow> 'a \<Rightarrow> 'v \<Rightarrow> bool" where
  "runs kv m v r v' \<longleftrightarrow> (\<forall>w. kv w = v \<longrightarrow> (\<exists>w'. m w = (Inr r, w') \<and> kv w' = v'))"

lemma runs_ret [intro, simp]: "runs kv (sret a) v a v"
  by (simp add: runs_def sret_def)

lemma runs_bind: "runs kv m v a v' \<Longrightarrow> runs kv (f a) v' r v'' \<Longrightarrow> runs kv (sbind m f) v r v''"
  by (fastforce simp: runs_def sbind_def)

lemma runs_seq: "runs kv m v a v' \<Longrightarrow> runs kv n v' r v'' \<Longrightarrow> runs kv (sseq m n) v r v''"
  unfolding sseq_def by (rule runs_bind)

lemma runs_app: "runs kv m (kv w) r v' \<Longrightarrow> \<exists>w'. m w = (Inr r, w') \<and> kv w' = v'"
  by (simp add: runs_def)

lemma need_Some [simp]: "need (Some k) f = f k"
  by (simp add: need_def)

text \<open>A loop whose bodies all fall through, and one whose bodies read only and may return.\<close>

lemma runs_for:
  assumes "\<And>j. i \<le> j \<Longrightarrow> j < n \<Longrightarrow> runs kv (body (Suc j)) (V j) None (V (Suc j))" and "i \<le> n"
  shows "runs kv (sfor [Suc i..<Suc n] body) (V i) None (V n)"
  using assms
proof (induction "n - i" arbitrary: i)
  case (Suc d)
  then have up: "[Suc i..<Suc n] = Suc i # [Suc (Suc i)..<Suc n]" by (intro upt_conv_Cons) simp
  have "runs kv (body (Suc i)) (V i) None (V (Suc i))" using Suc.prems Suc.hyps(2) by simp
  moreover have "runs kv (sfor [Suc (Suc i)..<Suc n] body) (V (Suc i)) None (V n)"
    using Suc by (intro Suc.hyps(1)) auto
  ultimately show ?case unfolding up by (auto intro: runs_bind)
qed simp

section \<open>What is relied on of the server\<close>

definition counts_as :: "strings \<Rightarrow> string \<Rightarrow> int \<Rightarrow> bool" where
  "counts_as v k n \<longleftrightarrow> v k = Some (itoa n) \<or> v k = None \<and> n = 0"

text \<open>A whole number as text, possibly with a sign in front of a zero.\<close>

definition spells :: "string \<Rightarrow> int \<Rightarrow> bool" where
  "spells t d \<longleftrightarrow> t = itoa d \<or> d \<le> 0 \<and> t = CHR ''-'' # itoa (- d)"

definition exact :: "int \<Rightarrow> bool" where
  "exact n \<longleftrightarrow> \<bar>n\<bar> \<le> 2 ^ 53"

text \<open>Reading and writing the keys of \<open>K\<close>, while none of them expires.\<close>

definition command_laws :: "string set \<Rightarrow> 'w redis \<Rightarrow> ('w \<Rightarrow> strings) \<Rightarrow> bool" where
  "command_laws K R kv \<longleftrightarrow> (\<forall>v. \<forall>k \<in> K.
       runs kv (sv_GET R k) v (v k) v \<and> runs kv (cl_Get R k) v (v k) v
     \<and> runs kv (sv_EXISTS R k) v (if v k = None then 0 else 1) v
     \<and> (\<forall>x. runs kv (sv_SET R k x) v () (v(k \<mapsto> x)))
     \<and> (\<forall>x ttl. 0 \<le> ttl \<longrightarrow> runs kv (cl_Set R k x ttl) v () (v(k \<mapsto> x)))
     \<and> (\<forall>x s. 0 < s \<longrightarrow> runs kv (sv_SETNXEX R k x (itoa s)) v (v k = None) (if v k = None then v(k \<mapsto> x) else v))
     \<and> (\<forall>x ttl. 0 \<le> ttl \<longrightarrow> runs kv (cl_SetNX R k x ttl) v (v k = None) (if v k = None then v(k \<mapsto> x) else v))
     \<and> (\<forall>n d t. counts_as v k n \<longrightarrow> exact n \<longrightarrow> exact (n + d) \<longrightarrow> spells t d \<longrightarrow>
          runs kv (sv_INCRBYFLOAT R k t) v (itoa (n + d)) (v(k \<mapsto> itoa (n + d))))
     \<and> (\<forall>n d. counts_as v k n \<longrightarrow> exact n \<longrightarrow> exact (n + d) \<longrightarrow>
          runs kv (cl_IncrByFloat R k (Fin (of_int d))) v (Fin (of_int (n + d))) (v(k \<mapsto> itoa (n + d))))
     \<and> (\<forall>n. counts_as v k n \<longrightarrow> exact n \<longrightarrow> exact (n + 1) \<longrightarrow>
          runs kv (sv_INCR R k) v (n + 1) (v(k \<mapsto> itoa (n + 1))))
     \<and> (\<forall>s. 0 < s \<longrightarrow> (\<exists>r. runs kv (sv_EXPIRE R k (itoa s)) v r v)))"

text \<open>
  Text and numbers: \<open>FormatFloat\<close> with precision \<open>-1\<close> is read back exactly, whole numbers are their
  digits, and a script's reply reaches the caller.
\<close>

definition text_laws :: "'w redis \<Rightarrow> bool" where
  "text_laws R \<longleftrightarrow>
     (\<forall>n. exact n \<longrightarrow> tx_Format R (Fin (of_int n)) = itoa n \<and> tx_Parse R (itoa n) = Inr (Fin (of_int n))
        \<and> lu_tonumber R (itoa n) = Some (Fin (of_int n)) \<and> lu_numarg R (Fin (of_int n)) = itoa n)
   \<and> (\<forall>q. is_f64 (Fin q) \<longrightarrow> lu_tonumber R (tx_Format R (Fin q)) = Some (Fin q) \<and> tx_Format R (Fin q) \<noteq> [])
   \<and> (\<forall>i < 10 ^ 14. lu_tostring R i = itoa (int i))
   \<and> (\<forall>m. cl_Run R m = m)"

definition redis_laws :: "string set \<Rightarrow> 'w redis \<Rightarrow> ('w \<Rightarrow> strings) \<Rightarrow> bool" where
  "redis_laws K R kv \<longleftrightarrow> command_laws K R kv \<and> text_laws R"

section \<open>Counts\<close>

text \<open>The counters as whole numbers: their texts in Redis, their levels as floats.\<close>

definition texts :: "counts \<Rightarrow> strings" where
  "texts c k = map_option itoa (c k)"

definition flts :: "counts \<Rightarrow> (string \<rightharpoonup> f64)" where
  "flts c k = map_option (\<lambda>n. Fin (of_int n)) (c k)"

definition small :: "int \<Rightarrow> counts \<Rightarrow> bool" where
  "small B c \<longleftrightarrow> (\<forall>k n. c k = Some n \<longrightarrow> \<bar>n\<bar> \<le> B)"

definition add_count :: "string \<Rightarrow> int \<Rightarrow> counts \<Rightarrow> counts" where
  "add_count k d c = c(k \<mapsto> map_get 0 c k + d)"

lemma texts_upd: "texts (c(k \<mapsto> n)) = (texts c)(k \<mapsto> itoa n)"
  by (simp add: texts_def fun_eq_iff)

lemma flts_upd: "flts (c(k \<mapsto> n)) = (flts c)(k \<mapsto> Fin (of_int n))"
  by (simp add: flts_def fun_eq_iff)

lemma flts_get: "map_get (Fin 0) (flts c) k = Fin (of_int (map_get 0 c k))"
  by (simp add: map_get_def flts_def split: option.splits)

lemma counts_as_texts: "counts_as (texts c) k (map_get 0 c k)"
  by (simp add: counts_as_def texts_def map_get_def split: option.splits)

lemma small_get: "small B c \<Longrightarrow> 0 \<le> B \<Longrightarrow> \<bar>map_get 0 c k\<bar> \<le> B"
  by (simp add: small_def map_get_def split: option.splits)

lemma small_upd: "small B c \<Longrightarrow> \<bar>n\<bar> \<le> B \<Longrightarrow> small B (c(k \<mapsto> n))"
  by (simp add: small_def)

lemma small_mono: "small B c \<Longrightarrow> B \<le> B' \<Longrightarrow> small B' c"
  unfolding small_def by fastforce

lemma small_add:
  assumes "small B c" and "0 \<le> B" and "\<bar>d\<bar> \<le> D"
  shows "small (B + D) (add_count k d c)"
  unfolding add_count_def using assms small_get [OF assms(1,2), of k]
  by (intro small_upd small_mono [OF assms(1)]) linarith+

lemma flts_add:
  assumes "small B c" and "0 \<le> B" and "B + \<bar>d\<bar> \<le> 2 ^ 53"
  shows "flts (add_count k d c) = add_level k (Fin (of_int d)) (flts c)"
  using small_get [OF assms(1,2), of k] assms(3) fadd_int [of "map_get 0 c k" d]
  by (simp add: add_count_def flts_upd add_level_def flts_get)

lemma add_count_commute: "add_count k a (add_count j b c) = add_count j b (add_count k a c)"
  by (auto simp: add_count_def fun_eq_iff)

section \<open>Commands on counts\<close>

lemma run_reads:
  assumes "redis_laws K R kv" and "k \<in> K"
  shows "runs kv (sv_GET R k) v (v k) v" "runs kv (cl_Get R k) v (v k) v"
    "runs kv (sv_EXISTS R k) v (if v k = None then 0 else 1) v"
  using assms by (simp_all add: redis_laws_def command_laws_def)

lemma run_writes:
  assumes "redis_laws K R kv" and "k \<in> K"
  shows "runs kv (sv_SET R k x) v () (v(k \<mapsto> x))" "0 \<le> ttl \<Longrightarrow> runs kv (cl_Set R k x ttl) v () (v(k \<mapsto> x))"
    "0 < s \<Longrightarrow> runs kv (sv_SETNXEX R k x (itoa s)) v (v k = None) (if v k = None then v(k \<mapsto> x) else v)"
    "0 \<le> ttl \<Longrightarrow> runs kv (cl_SetNX R k x ttl) v (v k = None) (if v k = None then v(k \<mapsto> x) else v)"
    "0 < s \<Longrightarrow> \<exists>r. runs kv (sv_EXPIRE R k (itoa s)) v r v"
  using assms by (simp_all add: redis_laws_def command_laws_def)

lemma exact_get: "small B c \<Longrightarrow> 0 \<le> B \<Longrightarrow> B + \<bar>d\<bar> \<le> 2 ^ 53 \<Longrightarrow> exact (map_get 0 c k) \<and> exact (map_get 0 c k + d)"
  using small_get [of B c k] unfolding exact_def by (intro conjI) linarith+

lemma run_incrs:
  assumes "redis_laws K R kv" and "k \<in> K" and "small B c" and "0 \<le> B" and "B + \<bar>d\<bar> \<le> 2 ^ 53"
  shows "spells t d \<Longrightarrow> runs kv (sv_INCRBYFLOAT R k t) (texts c) (itoa (map_get 0 c k + d)) (texts (add_count k d c))"
    "runs kv (cl_IncrByFloat R k (Fin (of_int d))) (texts c) (Fin (of_int (map_get 0 c k + d))) (texts (add_count k d c))"
    "d = 1 \<Longrightarrow> runs kv (sv_INCR R k) (texts c) (map_get 0 c k + 1) (texts (add_count k 1 c))"
  using assms(1,2) exact_get [OF assms(3-5), of k] counts_as_texts [of c k]
  unfolding redis_laws_def command_laws_def add_count_def texts_upd by blast+

lemma text_rules:
  assumes "redis_laws K R kv"
  shows "exact n \<Longrightarrow> tx_Format R (Fin (of_int n)) = itoa n" "exact n \<Longrightarrow> tx_Parse R (itoa n) = Inr (Fin (of_int n))"
    "exact n \<Longrightarrow> num R (Some (itoa n)) f = f (Fin (of_int n))" "exact n \<Longrightarrow> lu_numarg R (Fin (of_int n)) = itoa n"
    "is_f64 (Fin q) \<Longrightarrow> num R (Some (tx_Format R (Fin q))) f = f (Fin q)" "is_f64 (Fin q) \<Longrightarrow> tx_Format R (Fin q) \<noteq> []"
    "i < 10 ^ 14 \<Longrightarrow> lu_tostring R i = itoa (int i)" "cl_Run R m = m"
  using assms by (simp_all add: redis_laws_def text_laws_def num_def)

lemma exact_small [simp]: "exact 0" "exact 1"
  by (simp_all add: exact_def)

lemma spells_itoa [simp]: "spells (itoa d) d"
  by (simp add: spells_def)

lemma run_incrfloor:
  assumes L: "redis_laws K R kv" and k: "k \<in> K" and b: "small B c" "0 \<le> B" "B + \<bar>d\<bar> \<le> 2 ^ 53" and t: "spells t d"
  shows "runs kv (incrfloor R k t) (texts c) (itoa (max 0 (map_get 0 c k + d))) (texts (c(k \<mapsto> max 0 (map_get 0 c k + d))))"
proof -
  let ?n = "map_get 0 c k + d"
  note e = exact_get [OF b, of k]
  have z: "runs kv (sv_SET R k ''0'') (texts (c(k \<mapsto> ?n))) () (texts (c(k \<mapsto> 0)))"
    using run_writes(1) [OF L k, of "''0''" "texts (c(k \<mapsto> ?n))"] by (simp add: texts_upd itoa_small)
  have "runs kv (num R (Some (itoa ?n)) (\<lambda>x. if flt x (Fin 0) then sseq (sv_SET R k ''0'') (sret ''0'') else sret (itoa ?n)))
      (texts (c(k \<mapsto> ?n))) (itoa (max 0 ?n)) (texts (c(k \<mapsto> max 0 ?n)))"
    using e z by (auto simp: text_rules [OF L] itoa_small max_def not_less intro: runs_seq)
  with run_incrs(1) [OF L k b t] show ?thesis unfolding incrfloor_def add_count_def by (rule runs_bind)
qed

section \<open>The dual helpers on counts\<close>

text \<open>Position \<open>i\<close> of the script's keys holds the pair \<open>p\<close>.\<close>

definition at_pair :: "dual_env \<Rightarrow> nat \<Rightarrow> dual_pair \<Rightarrow> bool" where
  "at_pair E i p \<longleftrightarrow> tab (de_KEYS E) i = Some (dp_P p) \<and> (de_DUAL E \<longleftrightarrow> dp_S p \<noteq> [])
     \<and> (de_DUAL E \<longrightarrow> tab (de_KEYS E) (de_NK E + i) = Some (dp_S p))"

definition pair_in :: "string set \<Rightarrow> dual_pair \<Rightarrow> bool" where
  "pair_in K p \<longleftrightarrow> dp_P p \<in> K \<and> (dp_S p \<noteq> [] \<longrightarrow> dp_S p \<in> K)"

definition both :: "dual_pair \<Rightarrow> (string \<Rightarrow> 's \<Rightarrow> 's) \<Rightarrow> 's \<Rightarrow> 's" where
  "both p f c = (if dp_S p \<noteq> [] then f (dp_S p) (f (dp_P p) c) else f (dp_P p) c)"

definition seed_count :: "bool \<Rightarrow> dual_pair \<Rightarrow> counts \<Rightarrow> counts" where
  "seed_count v2p p c =
     (if dp_S p = [] then c
      else let v2 = (if v2p then dp_P p else dp_S p); v1 = (if v2p then dp_S p else dp_P p) in
        (case (c v2, c v1) of (None, Some n) \<Rightarrow> c(v2 \<mapsto> n) | _ \<Rightarrow> c))"

definition floor_count :: "int \<Rightarrow> string \<Rightarrow> counts \<Rightarrow> counts" where
  "floor_count d k c = c(k \<mapsto> max 0 (map_get 0 c k - d))"

lemma texts_None: "texts c k = None \<longleftrightarrow> c k = None" "c k = None \<Longrightarrow> texts c k = None" "c k = Some n \<Longrightarrow> texts c k = Some (itoa n)"
  by (simp_all add: texts_def)

lemma small_seed: "small B c \<Longrightarrow> small B (seed_count v2p p c)"
  by (auto simp: seed_count_def Let_def small_def split: option.splits)

lemma small_floor: "small B c \<Longrightarrow> 0 \<le> B \<Longrightarrow> 0 \<le> d \<Longrightarrow> small B (floor_count d k c)"
  unfolding floor_count_def using small_get [of B c k] by (intro small_upd) auto

lemma run_seedv2:
  assumes L: "redis_laws K R kv" and p: "at_pair E i p" "pair_in K p"
  shows "runs kv (seedv2 R E i) (texts c) () (texts (seed_count (de_V2P E) p c))"
proof (cases "de_DUAL E")
  case True
  define d where "d = (if de_V2P E then dp_P p else dp_S p)"
  define s where "s = (if de_V2P E then dp_S p else dp_P p)"
  have S: "dp_S p \<noteq> []" and K: "d \<in> K" "s \<in> K"
    using p True by (auto simp: at_pair_def pair_in_def d_def s_def)
  have eq: "seedv2 R E i = sbind (sv_EXISTS R d) (\<lambda>e. if e = 0
      then sbind (sv_GET R s) (\<lambda>v. case v of None \<Rightarrow> sret () | Some x \<Rightarrow> sv_SET R d x) else sret ())"
    using p True by (auto simp: seedv2_def dkey_def at_pair_def d_def s_def cong: if_cong option.case_cong)
  have sc: "seed_count (de_V2P E) p c = (case (c d, c s) of (None, Some n) \<Rightarrow> c(d \<mapsto> n) | _ \<Rightarrow> c)"
    using S by (simp add: seed_count_def d_def s_def Let_def split: option.split)
  have get: "runs kv (sbind (sv_GET R s) (\<lambda>v. case v of None \<Rightarrow> sret () | Some x \<Rightarrow> sv_SET R d x)) (texts c) ()
      (texts (case c s of None \<Rightarrow> c | Some n \<Rightarrow> c(d \<mapsto> n)))"
    by (rule runs_bind [OF run_reads(1) [OF L K(2)]])
       (cases "c s"; simp add: texts_None texts_upd run_writes(1) [OF L K(1)])
  show ?thesis
    unfolding eq sc by (rule runs_bind [OF run_reads(3) [OF L K(1)]]) (use get in \<open>cases "c d"; simp add: texts_None\<close>)
qed (use p in \<open>auto simp: seedv2_def at_pair_def seed_count_def\<close>)

lemma small_both_add:
  assumes "small B c" and "0 \<le> B"
  shows "small (B + 2 * \<bar>d\<bar>) (both p (\<lambda>k. add_count k d) c)"
  using small_add [OF assms order_refl, of d "dp_P p"] small_add [OF small_add [OF assms order_refl, of d "dp_P p"] _ order_refl, of d "dp_S p"] assms(2)
  by (auto simp: both_def algebra_simps intro: small_mono)

lemma run_incrboth:
  assumes L: "redis_laws K R kv" and p: "at_pair E i p" "pair_in K p"
    and b: "small B c" "0 \<le> B" "B + 2 * \<bar>d\<bar> \<le> 2 ^ 53"
  shows "runs kv (incrboth R E i (itoa d)) (texts c) (itoa (map_get 0 c (dp_P p) + d)) (texts (both p (\<lambda>k. add_count k d) c))"
proof -
  have K: "dp_P p \<in> K" and eq: "dkey E i f = f (dp_P p)" for f :: "string \<Rightarrow> ('a, string) script"
    using p by (auto simp: pair_in_def at_pair_def dkey_def)
  have b2: "B + \<bar>d\<bar> \<le> 2 ^ 53" "0 \<le> B + \<bar>d\<bar>" "B + \<bar>d\<bar> + \<bar>d\<bar> \<le> 2 ^ 53" using b by linarith+
  note first = run_incrs(1) [OF L K b(1,2) b2(1) spells_itoa]
  show ?thesis
  proof (cases "de_DUAL E")
    case True
    then have K2: "dp_S p \<in> K" and S: "dp_S p \<noteq> []" and eq2: "dkey E (de_NK E + i) f = f (dp_S p)"
      for f :: "string \<Rightarrow> ('a, string) script" using p by (auto simp: pair_in_def at_pair_def dkey_def)
    note second = run_incrs(1) [OF L K2 small_add [OF b(1,2) order_refl] b2(2,3) spells_itoa]
    show ?thesis
      using first second S by (auto simp: incrboth_def eq eq2 True both_def intro: runs_bind runs_seq)
  qed (use first p in \<open>auto simp: incrboth_def eq both_def at_pair_def intro: runs_bind\<close>)
qed

lemma run_incrfloorboth:
  assumes L: "redis_laws K R kv" and p: "at_pair E i p" "pair_in K p"
    and b: "small B c" "0 \<le> B" "B + d \<le> 2 ^ 53" "0 \<le> d"
  shows "runs kv (incrfloorboth R E i (CHR ''-'' # itoa d)) (texts c) (itoa (max 0 (map_get 0 c (dp_P p) - d)))
    (texts (both p (floor_count d) c))"
proof -
  have K: "dp_P p \<in> K" and eq: "dkey E i f = f (dp_P p)" for f :: "string \<Rightarrow> ('a, string) script"
    using p by (auto simp: pair_in_def at_pair_def dkey_def)
  have t: "spells (CHR ''-'' # itoa d) (- d)" and d: "B + \<bar>- d\<bar> \<le> 2 ^ 53" using b(3,4) by (simp_all add: spells_def)
  have f: "small B c' \<Longrightarrow> k \<in> K \<Longrightarrow> runs kv (incrfloor R k (CHR ''-'' # itoa d)) (texts c')
      (itoa (max 0 (map_get 0 c' k - d))) (texts (floor_count d k c'))" for c' k
    using run_incrfloor [OF L _ _ b(2) d t, of k c'] by (simp add: floor_count_def)
  show ?thesis
  proof (cases "de_DUAL E")
    case True
    then have K2: "dp_S p \<in> K" and S: "dp_S p \<noteq> []" and eq2: "dkey E (de_NK E + i) f = f (dp_S p)"
      for f :: "string \<Rightarrow> ('a, string) script" using p by (auto simp: pair_in_def at_pair_def dkey_def)
    show ?thesis
      using f [OF b(1) K] f [OF small_floor [OF b(1,2,4)] K2] S
      by (auto simp: incrfloorboth_def eq eq2 True both_def intro: runs_bind runs_seq)
  qed (use f [OF b(1) K] p in \<open>auto simp: incrfloorboth_def eq both_def at_pair_def intro: runs_bind\<close>)
qed

section \<open>The in-memory store on counts\<close>

text \<open>
  The in-memory store holds the same counts: floats under the counter keys, claims under the keys
  that \<open>latch\<close> marks, and nothing has expired.
\<close>

definition mirrors :: "(string \<Rightarrow> bool) \<Rightarrow> counts \<Rightarrow> mem_store \<Rightarrow> bool" where
  "mirrors latch c s \<longleftrightarrow> mem_swept s \<and> (\<forall>k. \<not> latch k \<longrightarrow> ms_floats s k = flts c k)
     \<and> (\<forall>k. latch k \<longrightarrow> (ms_strings s k \<noteq> None \<longleftrightarrow> c k \<noteq> None))"

lemma mirrors_sweep: "mirrors latch c s \<Longrightarrow> mem_sweep s = s"
  by (simp add: mirrors_def)

lemma mirrors_float: "mirrors latch c s \<Longrightarrow> \<not> latch k \<Longrightarrow> mem_float s k = Fin (of_int (map_get 0 c k))"
  unfolding mirrors_def mem_float_def flts_get [symmetric] by (simp add: map_get_def)

lemma mirrors_put: "mirrors latch c s \<Longrightarrow> \<not> latch k \<Longrightarrow> mirrors latch (c(k \<mapsto> n)) (mem_put s k (Fin (of_int n)))"
  by (auto simp: mirrors_def flts_upd)

lemma mirrors_add:
  assumes "mirrors latch c s" and "\<not> latch k" and "small B c" and "0 \<le> B" and "B + \<bar>d\<bar> \<le> 2 ^ 53"
  shows "mirrors latch (add_count k d c) (mem_add s k (Fin (of_int d)))"
proof -
  have "fadd (mem_float s k) (Fin (of_int d)) = Fin (of_int (map_get 0 c k + d))"
    using mirrors_float [OF assms(1,2)] fadd_int [of "map_get 0 c k" d] small_get [OF assms(3,4), of k] assms(5) by simp
  then show ?thesis using mirrors_put [OF assms(1,2), of "map_get 0 c k + d"] by (simp add: mem_add_def add_count_def)
qed

lemma mirrors_floor:
  assumes "mirrors latch c s" and "\<not> latch k" and "small B c" and "0 \<le> B" and "B + d \<le> 2 ^ 53" and "0 \<le> d"
  shows "mirrors latch (floor_count d k c) (mem_dec_key k (Fin (of_int d)) s)"
    "floor_zero (fsub (mem_float s k) (Fin (of_int d))) = Fin (of_int (max 0 (map_get 0 c k - d)))"
proof -
  have "\<bar>map_get 0 c k - d\<bar> \<le> 2 ^ 53" using small_get [OF assms(3,4), of k] assms(5,6) by linarith
  then show f: "floor_zero (fsub (mem_float s k) (Fin (of_int d))) = Fin (of_int (max 0 (map_get 0 c k - d)))"
    using mirrors_float [OF assms(1,2)] fsub_int [of "map_get 0 c k" d] by (auto simp: floor_zero_def max_def of_int_diff [symmetric] simp del: of_int_diff)
  show "mirrors latch (floor_count d k c) (mem_dec_key k (Fin (of_int d)) s)"
    unfolding mem_dec_key_def f floor_count_def using assms(1,2) by (rule mirrors_put)
qed

lemma mirrors_claim: "mirrors latch c s \<Longrightarrow> latch k \<Longrightarrow> mirrors latch (c(k \<mapsto> 1)) (mem_claim k ttl s)"
  by (auto simp: mirrors_def flts_upd)

lemma mirrors_expire: "mirrors latch c s \<Longrightarrow> 0 < ttl \<Longrightarrow> mirrors latch c (s\<lparr>ms_expiry := (ms_expiry s)(k \<mapsto> ms_now s + ttl)\<rparr>)"
  by (simp add: mirrors_def mem_swept_def mem_expired_def cong: option.case_cong)

definition counter_pair :: "(string \<Rightarrow> bool) \<Rightarrow> dual_pair \<Rightarrow> bool" where
  "counter_pair latch p \<longleftrightarrow> \<not> latch (dp_P p) \<and> (dp_S p \<noteq> [] \<longrightarrow> \<not> latch (dp_S p))"

lemma mirrors_seed:
  assumes "mirrors latch c s" and "counter_pair latch p"
  shows "mirrors latch (seed_count v2p p c) (mem_seed v2p p s)"
proof (cases "dp_S p = []")
  case False
  define d where "d = (if v2p then dp_P p else dp_S p)"
  define o1 where "o1 = (if v2p then dp_S p else dp_P p)"
  have l: "\<not> latch d" "\<not> latch o1" using assms(2) False by (auto simp: counter_pair_def d_def o1_def)
  have m: "mem_seed v2p p s = (case (ms_floats s d, ms_floats s o1) of (None, Some v) \<Rightarrow> mem_put s d v | _ \<Rightarrow> s)"
    and c: "seed_count v2p p c = (case (c d, c o1) of (None, Some n) \<Rightarrow> c(d \<mapsto> n) | _ \<Rightarrow> c)"
    using False by (simp_all add: mem_seed_def seed_count_def d_def o1_def Let_def split: option.split)
  have "ms_floats s d = map_option (\<lambda>n. Fin (of_int n)) (c d)" "ms_floats s o1 = map_option (\<lambda>n. Fin (of_int n)) (c o1)"
    using assms(1) l by (simp_all add: mirrors_def flts_def)
  then show ?thesis
    unfolding m c using mirrors_put [OF assms(1) l(1)] assms(1) by (cases "c d"; cases "c o1") simp_all
qed (use assms in \<open>simp add: mem_seed_def seed_count_def\<close>)

section \<open>Plain operations of both stores\<close>

text \<open>The states of the two stores hold the same counts, all of them below the bound.\<close>

definition same :: "(string \<Rightarrow> bool) \<Rightarrow> ('w \<Rightarrow> strings) \<Rightarrow> int \<Rightarrow> counts \<Rightarrow> mem_store \<Rightarrow> 'w \<Rightarrow> bool" where
  "same latch kv B c s w \<longleftrightarrow> mirrors latch c s \<and> kv w = texts c \<and> small B c \<and> 0 \<le> B"

text \<open>The two calls give the same answer and leave the same counts.\<close>

definition agree ::
  "(string \<Rightarrow> bool) \<Rightarrow> ('w \<Rightarrow> strings) \<Rightarrow> int \<Rightarrow> 'a \<times> mem_store \<Rightarrow> 'a \<times> 'w \<Rightarrow> bool" where
  "agree latch kv B a b \<longleftrightarrow> fst a = fst b \<and> (\<exists>c. same latch kv B c (snd a) (snd b))"

lemma agreeI:
  assumes "runs kv m (texts c) r (texts c')" and "kv w = texts c" and "mirrors latch c' s'" and "small B c'" and "0 \<le> B"
  shows "agree latch kv B (Inr r, s') (m w)"
  using runs_app [of kv m w r "texts c'"] assms by (auto simp: agree_def same_def)

lemma run_sparse: "redis_laws K R kv \<Longrightarrow> exact n \<Longrightarrow> runs kv (sparse R (itoa n)) v (Fin (of_int n)) v"
  by (simp add: sparse_def runs_def text_rules(2))

lemma run_parse:
  assumes "redis_laws K R kv" and "runs kv m v (RStr (itoa n)) v'" and "exact n"
  shows "runs kv (sbind (cl_Run R m) (parse_lua_float R)) v (Fin (of_int n)) v'"
  using assms(2,3) text_rules(2,8) [OF assms(1)]
  by (auto simp: parse_lua_float_def sparse_def runs_def sbind_def)

lemma run_parse_pair:
  assumes "redis_laws K R kv" and "runs kv m v (RArr [RStr (itoa i), RStr (itoa j)]) v'" and "exact i" and "exact j"
  shows "runs kv (sbind (cl_Run R m) (\<lambda>res. case res of
          RArr [a, b] \<Rightarrow> sbind (parse_lua_float R a) (\<lambda>v. sbind (parse_lua_float R b) (\<lambda>u. sret (v, u)))
        | _ \<Rightarrow> sfail ''DualSpendUser: unexpected reply'')) v (Fin (of_int i), Fin (of_int j)) v'"
proof -
  have "runs kv (sbind (sparse R (itoa i)) (\<lambda>v. sbind (sparse R (itoa j)) (\<lambda>u. sret (v, u)))) v' (Fin (of_int i), Fin (of_int j)) v'"
    by (rule runs_bind [OF run_sparse [OF assms(1,3)] runs_bind [OF run_sparse [OF assms(1,4)] runs_ret]])
  then show ?thesis
    unfolding text_rules(8) [OF assms(1)] by (intro runs_bind [OF assms(2)]) (simp add: parse_lua_float_def)
qed

lemma incr_agrees:
  assumes L: "redis_laws K R kv" and S: "same latch kv B c s w" and k: "k \<in> K" "\<not> latch k" and b: "B + \<bar>d\<bar> \<le> 2 ^ 53"
  shows "agree latch kv (B + \<bar>d\<bar>) (mem_incr s k (Fin (of_int d))) (red_incr R w k (Fin (of_int d)))"
proof -
  have m: "mirrors latch c s" "kv w = texts c" "small B c" "0 \<le> B" using S by (simp_all add: same_def)
  let ?s = "mem_add s k (Fin (of_int d))"
  have mi: "mirrors latch (add_count k d c) ?s" by (rule mirrors_add [OF m(1) k(2) m(3,4) b])
  then have "mem_incr s k (Fin (of_int d)) = (Inr (Fin (of_int (map_get 0 c k + d))), ?s)"
    using mirrors_float [OF mi k(2)] by (simp add: mem_incr_def mirrors_sweep [OF m(1)] Let_def add_count_def)
  then show ?thesis
    using agreeI [OF run_incrs(2) [OF L k(1) m(3,4) b] m(2) mi small_add [OF m(3,4) order_refl]] m(4)
    by (simp add: red_incr_def)
qed

lemma decr_agrees:
  assumes L: "redis_laws K R kv" and S: "same latch kv B c s w" and k: "k \<in> K" "\<not> latch k" and b: "B + d \<le> 2 ^ 53" "0 \<le> d"
  shows "agree latch kv B (mem_decr_floor s k (Fin (of_int d))) (red_decr_floor R w k (Fin (of_int d)))"
proof -
  have m: "mirrors latch c s" "kv w = texts c" "small B c" "0 \<le> B" using S by (simp_all add: same_def)
  let ?n = "max 0 (map_get 0 c k - d)"
  have e: "exact ?n" "exact (- d)" and a: "B + \<bar>- d\<bar> \<le> 2 ^ 53" using small_get [OF m(3,4), of k] b m(4) by (auto simp: exact_def)
  have mem: "mem_decr_floor s k (Fin (of_int d)) = (Inr (Fin (of_int ?n)), mem_dec_key k (Fin (of_int d)) s)"
    using mirrors_floor(2) [OF m(1) k(2) m(3,4) b] by (simp add: mem_decr_floor_def mem_dec_key_def mirrors_sweep [OF m(1)] Let_def)
  have "runs kv (decr_floor_script R [k] [itoa (- d)]) (texts c) (RStr (itoa ?n)) (texts (floor_count d k c))"
    using run_incrfloor [OF L k(1) m(3,4) a spells_itoa]
    by (auto simp: decr_floor_script_def tab_def floor_count_def intro: runs_bind)
  then have run: "runs kv (sbind (cl_Run R (decr_floor_script R [k] [itoa (- d)]))
      (\<lambda>res. case res of RStr t \<Rightarrow> sparse R t | _ \<Rightarrow> sfail ''decrFloor: unexpected reply type''))
      (texts c) (Fin (of_int ?n)) (texts (floor_count d k c))"
    unfolding text_rules(8) [OF L] by (rule runs_bind) (simp add: run_sparse [OF L e(1), simplified])
  have "tx_Format R (fneg (Fin (of_int d))) = itoa (- d)" using text_rules(1) [OF L e(2)] by simp
  then show ?thesis
    unfolding mem red_decr_floor_def
    using agreeI [OF run m(2) mirrors_floor(1) [OF m(1) k(2) m(3,4) b] small_floor [OF m(3,4) b(2)] m(4)] by simp
qed

lemma get_agrees:
  assumes L: "redis_laws K R kv" and S: "same latch kv B c s w" and k: "k \<in> K" "\<not> latch k" and b: "B \<le> 2 ^ 53"
  shows "agree latch kv B (mem_get s k) (red_get R w k)"
proof -
  have m: "mirrors latch c s" "kv w = texts c" "small B c" "0 \<le> B" using S by (simp_all add: same_def)
  have e: "exact (map_get 0 c k)" using small_get [OF m(3,4), of k] b by (simp add: exact_def)
  have run: "runs kv (sbind (cl_Get R k) (\<lambda>v. case v of None \<Rightarrow> sret (Fin 0, False) | Some t \<Rightarrow> sbind (sparse R t) (\<lambda>f. sret (f, True))))
      (texts c) (Fin (of_int (map_get 0 c k)), c k \<noteq> None) (texts c)"
  proof (rule runs_bind [OF run_reads(2) [OF L k(1)]], cases "c k")
    case (Some n)
    then have "runs kv (sparse R (itoa n)) (texts c) (Fin (of_int n)) (texts c)"
      using e by (simp add: sparse_def runs_def text_rules(2) [OF L])
    then show "runs kv (case texts c k of None \<Rightarrow> sret (Fin 0, False) | Some t \<Rightarrow> sbind (sparse R t) (\<lambda>f. sret (f, True)))
      (texts c) (Fin (of_int (map_get 0 c k)), c k \<noteq> None) (texts c)"
      using Some by (auto simp: texts_None intro: runs_bind)
  qed (simp add: texts_None)
  have "mem_get s k = (Inr (Fin (of_int (map_get 0 c k)), c k \<noteq> None), s)"
    using m(1) k(2) mirrors_float [OF m(1) k(2)] by (simp add: mem_get_def mirrors_sweep [OF m(1)] mirrors_def flts_def)
  then show ?thesis using agreeI [OF run m(2,1,3,4)] by (simp add: red_get_def)
qed

lemma set_agrees:
  assumes L: "redis_laws K R kv" and S: "same latch kv B c s w" and k: "k \<in> K" "\<not> latch k" and b: "\<bar>n\<bar> \<le> B" "B \<le> 2 ^ 53" and t: "0 \<le> ttl"
  shows "agree latch kv B (mem_set s k (Fin (of_int n)) ttl) (red_set R w k (Fin (of_int n)) ttl)"
proof -
  have m: "mirrors latch c s" "kv w = texts c" "small B c" "0 \<le> B" using S by (simp_all add: same_def)
  have f: "tx_Format R (Fin (of_int n)) = itoa n" using text_rules(1) [OF L] b by (simp add: exact_def)
  obtain w' where w': "cl_Set R k (itoa n) ttl w = (Inr (), w')" "kv w' = texts (c(k \<mapsto> n))"
    using runs_app [OF run_writes(2) [OF L k(1) t, of "itoa n" "kv w"]] m(2) by (auto simp: texts_upd)
  have "mirrors latch (c(k \<mapsto> n)) (snd (mem_set s k (Fin (of_int n)) ttl))"
    using mirrors_put [OF m(1) k(2), of n] mirrors_expire [OF mirrors_put [OF m(1) k(2), of n], of ttl k]
    by (simp add: mem_set_def Let_def)
  moreover have "fst (mem_set s k (Fin (of_int n)) ttl) = None" by (simp add: mem_set_def Let_def)
  ultimately show ?thesis
    using w' small_upd [OF m(3) b(1)] m(4) by (auto simp: agree_def same_def red_set_def only_err_def f)
qed

lemma claim_agrees:
  assumes L: "redis_laws K R kv" and S: "same latch kv B c s w" and k: "k \<in> K" "latch k" and b: "1 \<le> B" and t: "0 \<le> ttl"
  shows "agree latch kv B (mem_set_if_absent s k ''1'' ttl) (red_set_if_absent R w k ''1'' ttl)"
proof -
  have m: "mirrors latch c s" "kv w = texts c" "small B c" "0 \<le> B" using S by (simp_all add: same_def)
  obtain w' where w': "cl_SetNX R k ''1'' ttl w = (Inr (c k = None), w')"
    "kv w' = texts (if c k = None then c(k \<mapsto> 1) else c)"
    using runs_app [OF run_writes(4) [OF L k(1) t, of "''1''" "kv w"]] m(2)
    by (auto simp: texts_None texts_upd itoa_small)
  have cl: "ms_strings s k \<noteq> None \<longleftrightarrow> c k \<noteq> None" using m(1) k(2) by (simp add: mirrors_def)
  have mem: "mem_set_if_absent s k ''1'' ttl = (Inr (c k = None), if c k = None then mem_claim k ttl s else s)"
    using cl by (auto simp: mem_set_if_absent_def mirrors_sweep [OF m(1)] mem_claim_def Let_def)
  have "mirrors latch (if c k = None then c(k \<mapsto> 1) else c) (if c k = None then mem_claim k ttl s else s)"
    using mirrors_claim [OF m(1) k(2)] m(1) by simp
  moreover have "small B (if c k = None then c(k \<mapsto> 1) else c)" using small_upd [OF m(3)] m(3) b by simp
  ultimately show ?thesis unfolding mem using w' t m(4) by (auto simp: agree_def same_def red_set_if_absent_def)
qed

section \<open>Dual operations of both stores\<close>

lemma flag_1 [simp]: "flag b = ''1'' \<longleftrightarrow> b"
  by (simp add: flag_def)

lemma one_pair_env:
  "at_pair (dual_lua 1 2 (pair_list p) (t # dual_flags p v2p)) 1 p"
  "de_V2P (dual_lua 1 2 (pair_list p) (t # dual_flags p v2p)) = v2p"
  "at_pair (dual_lua 1 3 (pair_list p) (t # u # dual_flags p v2p)) 1 p"
  "de_V2P (dual_lua 1 3 (pair_list p) (t # u # dual_flags p v2p)) = v2p"
  by (simp_all add: at_pair_def dual_lua_def tab_def pair_list_def dual_flags_def numeral_eq_Suc)

lemma mirrors_both_add:
  assumes "mirrors latch c s" and "counter_pair latch p" and "small B c" and "0 \<le> B" and "B + 2 * \<bar>d\<bar> \<le> 2 ^ 53"
  shows "mirrors latch (both p (\<lambda>k. add_count k d) c) (both p (\<lambda>k s. mem_add s k (Fin (of_int d))) s)"
proof -
  have b: "B + \<bar>d\<bar> \<le> 2 ^ 53" "0 \<le> B + \<bar>d\<bar>" "B + \<bar>d\<bar> + \<bar>d\<bar> \<le> 2 ^ 53" using assms(4,5) by linarith+
  have P: "\<not> latch (dp_P p)" using assms(2) by (simp add: counter_pair_def)
  note one = mirrors_add [OF assms(1) P assms(3,4) b(1)]
  show ?thesis
    using one mirrors_add [OF one _ small_add [OF assms(3,4) order_refl] b(2,3)] assms(2) by (auto simp: both_def counter_pair_def)
qed

lemma both_first: "dp_P p \<noteq> dp_S p \<Longrightarrow> map_get 0 (both p (\<lambda>k. add_count k d) c) (dp_P p) = map_get 0 c (dp_P p) + d"
  by (simp add: both_def add_count_def)

lemma dual_spend_org_agrees:
  assumes L: "redis_laws K R kv" and S: "same latch kv B c s w" and p: "pair_in K p" "counter_pair latch p" "dp_P p \<noteq> dp_S p"
    and b: "B + 2 * \<bar>d\<bar> \<le> 2 ^ 53"
  shows "agree latch kv (B + 2 * \<bar>d\<bar>) (mem_dual_spend_org s p (Fin (of_int d)) v2p) (red_dual_spend_org R w p (Fin (of_int d)) v2p)"
proof -
  have m: "mirrors latch c s" "kv w = texts c" "small B c" "0 \<le> B" using S by (simp_all add: same_def)
  let ?c = "seed_count v2p p c" and ?s = "mem_seed v2p p s"
  let ?c' = "both p (\<lambda>k. add_count k d) ?c" and ?s' = "both p (\<lambda>k s. mem_add s k (Fin (of_int d))) ?s"
  let ?n = "map_get 0 ?c (dp_P p) + d" and ?E = "dual_lua 1 2 (pair_list p) (itoa d # dual_flags p v2p)"
  have sm: "small B ?c" by (rule small_seed [OF m(3)])
  have e: "exact ?n" "exact d" using small_get [OF sm m(4), of "dp_P p"] b m(4) by (auto simp: exact_def)
  have mi: "mirrors latch ?c' ?s'" by (rule mirrors_both_add [OF mirrors_seed [OF m(1) p(2)] p(2) sm m(4) b])
  have nl: "\<not> latch (dp_P p)" using p(2) by (simp add: counter_pair_def)
  have "mem_dual_spend_org s p (Fin (of_int d)) v2p = (Inr (mem_float ?s' (dp_P p)), ?s')"
    by (simp add: mem_dual_spend_org_def mirrors_sweep [OF m(1)] Let_def both_def)
  then have mem: "mem_dual_spend_org s p (Fin (of_int d)) v2p = (Inr (Fin (of_int ?n)), ?s')"
    unfolding mirrors_float [OF mi nl] both_first [OF p(3)] .
  have env: "at_pair ?E 1 p" "de_V2P ?E = v2p" by (rule one_pair_env)+
  have "runs kv (dual_spend_org_script R (pair_list p) (itoa d # dual_flags p v2p)) (texts c) (RStr (itoa ?n)) (texts ?c')"
    using run_seedv2 [OF L env(1) p(1), of c, unfolded env(2)] run_incrboth [OF L env(1) p(1) sm m(4) b]
    by (auto simp: dual_spend_org_script_def Let_def tab_def intro!: runs_seq runs_bind)
  then have "runs kv (sbind (cl_Run R (dual_spend_org_script R (pair_list p) (itoa d # dual_flags p v2p))) (parse_lua_float R))
      (texts c) (Fin (of_int ?n)) (texts ?c')" by (rule run_parse [OF L _ e(1)])
  from agreeI [OF this m(2) mi small_both_add [OF sm m(4)]] m(4) show ?thesis
    unfolding mem by (simp add: red_dual_spend_org_def text_rules(1) [OF L e(2)])
qed

lemma mirrors_both_floor:
  assumes "mirrors latch c s" and "counter_pair latch p" and "small B c" and "0 \<le> B" and "B + d \<le> 2 ^ 53" and "0 \<le> d"
  shows "mirrors latch (both p (floor_count d) c) (both p (\<lambda>k. mem_dec_key k (Fin (of_int d))) s)"
proof -
  have P: "\<not> latch (dp_P p)" using assms(2) by (simp add: counter_pair_def)
  note one = mirrors_floor(1) [OF assms(1) P assms(3-6)]
  show ?thesis
    using one mirrors_floor(1) [OF one _ small_floor [OF assms(3,4,6)] assms(4-6)] assms(2) by (auto simp: both_def counter_pair_def)
qed

lemma dual_decr_agrees:
  assumes L: "redis_laws K R kv" and S: "same latch kv B c s w" and p: "pair_in K p" "counter_pair latch p"
    and b: "B + d \<le> 2 ^ 53" "0 \<le> d"
  shows "agree latch kv B (mem_dual_decr_floor s p (Fin (of_int d)) v2p) (red_dual_decr_floor R w p (Fin (of_int d)) v2p)"
proof -
  have m: "mirrors latch c s" "kv w = texts c" "small B c" "0 \<le> B" using S by (simp_all add: same_def)
  let ?c = "seed_count v2p p c" and ?s = "mem_seed v2p p s"
  let ?c' = "both p (floor_count d) ?c" and ?s' = "both p (\<lambda>k. mem_dec_key k (Fin (of_int d))) ?s"
  let ?n = "max 0 (map_get 0 ?c (dp_P p) - d)" and ?E = "dual_lua 1 2 (pair_list p) (itoa d # dual_flags p v2p)"
  have sm: "small B ?c" by (rule small_seed [OF m(3)])
  have e: "exact ?n" "exact d" using small_get [OF sm m(4), of "dp_P p"] b m(4) by (auto simp: exact_def)
  have ms: "mirrors latch ?c ?s" by (rule mirrors_seed [OF m(1) p(2)])
  have mi: "mirrors latch ?c' ?s'" by (rule mirrors_both_floor [OF ms p(2) sm m(4) b])
  have nl: "\<not> latch (dp_P p)" using p(2) by (simp add: counter_pair_def)
  have mem: "mem_dual_decr_floor s p (Fin (of_int d)) v2p = (Inr (Fin (of_int ?n)), ?s')"
    using mirrors_floor [OF ms nl sm m(4) b] mirrors_float [OF mirrors_floor(1) [OF ms nl sm m(4) b] nl]
    by (simp add: mem_dual_decr_floor_def mirrors_sweep [OF m(1)] Let_def) (simp add: both_def floor_count_def)
  have sm': "small B ?c'" using small_floor [OF sm m(4) b(2)] small_floor [OF small_floor [OF sm m(4) b(2)] m(4) b(2)] by (simp add: both_def)
  have env: "at_pair ?E 1 p" "de_V2P ?E = v2p" by (rule one_pair_env)+
  have run: "runs kv (dual_decr_floor_script R (pair_list p) (itoa d # dual_flags p v2p)) (texts c) (RStr (itoa ?n)) (texts ?c')"
    using run_seedv2 [OF L env(1) p(1), of c, unfolded env(2)] run_incrfloorboth [OF L env(1) p(1) sm m(4) b]
    by (auto simp: dual_decr_floor_script_def Let_def tab_def intro!: runs_seq runs_bind)
  show ?thesis
    unfolding mem red_dual_decr_floor_def text_rules(1) [OF L e(2)]
    by (rule agreeI [OF run_parse [OF L run e(1)] m(2) mi sm' m(4)])
qed

lemma run_expboth:
  assumes "redis_laws K R kv" and "at_pair E i p" and "pair_in K p" and "0 < t"
  shows "runs kv (expboth R E i (itoa t)) v () v"
proof -
  have eq: "dkey E i f = f (dp_P p)" for f :: "string \<Rightarrow> ('a, int) script" using assms(2) by (simp add: at_pair_def dkey_def)
  have P: "dp_P p \<in> K" using assms(3) by (simp add: pair_in_def)
  obtain r where r: "runs kv (sv_EXPIRE R (dp_P p) (itoa t)) v r v" using run_writes(5) [OF assms(1) P assms(4)] by blast
  show ?thesis
  proof (cases "de_DUAL E")
    case True
    then have S: "dp_S p \<in> K" and eq2: "dkey E (de_NK E + i) f = f (dp_S p)" for f :: "string \<Rightarrow> ('a, int) script"
      using assms(2,3) by (auto simp: at_pair_def dkey_def pair_in_def)
    obtain r2 where "runs kv (sv_EXPIRE R (dp_S p) (itoa t)) v r2 v" using run_writes(5) [OF assms(1) S assms(4)] by blast
    with r True show ?thesis by (auto simp: expboth_def eq eq2 intro!: runs_seq)
  qed (use r in \<open>auto simp: expboth_def eq intro!: runs_seq\<close>)
qed

lemma add_expiry: "mem_add (s\<lparr>ms_expiry := e\<rparr>) k d = (mem_add s k d)\<lparr>ms_expiry := e\<rparr>" "mem_float (s\<lparr>ms_expiry := e\<rparr>) k = mem_float s k"
  by (simp_all add: mem_add_def mem_put_def mem_float_def)

lemma dual_acc_add_agrees:
  assumes L: "redis_laws K R kv" and S: "same latch kv B c s w" and p: "pair_in K p" "counter_pair latch p" "dp_P p \<noteq> dp_S p"
    and b: "B + 2 * \<bar>d\<bar> \<le> 2 ^ 53" and t: "exact (to_go_int (dur_seconds ttl))"
  shows "agree latch kv (B + 2 * \<bar>d\<bar>) (mem_dual_acc_add s p (Fin (of_int d)) ttl v2p) (red_dual_acc_add R w p (Fin (of_int d)) ttl v2p)"
proof -
  have m: "mirrors latch c s" "kv w = texts c" "small B c" "0 \<le> B" using S by (simp_all add: same_def)
  let ?c = "seed_count v2p p c" and ?s = "mem_seed v2p p s" and ?t = "to_go_int (dur_seconds ttl)"
  let ?c' = "both p (\<lambda>k. add_count k d) ?c" and ?s' = "both p (\<lambda>k s. mem_add s k (Fin (of_int d))) ?s"
  let ?n = "map_get 0 ?c (dp_P p) + d" and ?A = "itoa d # itoa ?t # dual_flags p v2p"
  let ?E = "dual_lua 1 3 (pair_list p) ?A"
  let ?x = "\<lambda>k s. if ttl > 0 then s\<lparr>ms_expiry := (ms_expiry s)(k \<mapsto> ms_now s + ttl)\<rparr> else s"
  have sm: "small B ?c" by (rule small_seed [OF m(3)])
  have e: "exact ?n" "exact d" using small_get [OF sm m(4), of "dp_P p"] b m(4) by (auto simp: exact_def)
  have mi: "mirrors latch ?c' ?s'" by (rule mirrors_both_add [OF mirrors_seed [OF m(1) p(2)] p(2) sm m(4) b])
  have nl: "\<not> latch (dp_P p)" using p(2) by (simp add: counter_pair_def)
  have x: "mirrors latch c s \<Longrightarrow> mirrors latch c (?x k s)" for c s k using mirrors_expire by simp
  have "mem_dual_acc_add s p (Fin (of_int d)) ttl v2p
      = (Inr (mem_float ?s' (dp_P p)), if dp_S p \<noteq> [] then ?x (dp_S p) (?x (dp_P p) ?s') else ?x (dp_P p) ?s')"
    by (simp add: mem_dual_acc_add_def mirrors_sweep [OF m(1)] Let_def both_def add_expiry)
  then have mem: "mem_dual_acc_add s p (Fin (of_int d)) ttl v2p
      = (Inr (Fin (of_int ?n)), if dp_S p \<noteq> [] then ?x (dp_S p) (?x (dp_P p) ?s') else ?x (dp_P p) ?s')"
    unfolding mirrors_float [OF mi nl] both_first [OF p(3)] .
  have env: "at_pair ?E 1 p" "de_V2P ?E = v2p" by (rule one_pair_env)+
  have ex: "0 < ?t \<Longrightarrow> runs kv (expboth R ?E 1 (itoa ?t)) (texts ?c') () (texts ?c')" by (rule run_expboth [OF L env(1) p(1)])
  have "runs kv (dual_acc_add_script R (pair_list p) ?A) (texts c) (RStr (itoa ?n)) (texts ?c')"
    using run_seedv2 [OF L env(1) p(1), of c, unfolded env(2)] run_incrboth [OF L env(1) p(1) sm m(4) b] ex
    by (auto simp: dual_acc_add_script_def Let_def tab_def text_rules(3) [OF L t] intro!: runs_seq runs_bind)
  from agreeI [OF run_parse [OF L this e(1)] m(2) _ small_both_add [OF sm m(4)]] mi x [OF mi] x [OF x [OF mi]] m(4) show ?thesis
    unfolding mem by (simp add: red_dual_acc_add_def text_rules(1) [OF L e(2)])
qed

text \<open>Several additions of the same amount.\<close>

lemma small_adds: "small B c \<Longrightarrow> 0 \<le> B \<Longrightarrow> small (B + int (length ks) * \<bar>d\<bar>) (fold (\<lambda>k. add_count k d) ks c)"
proof (induction ks arbitrary: B c)
  case (Cons k ks)
  then show ?case
    using Cons.IH [OF small_add [OF Cons.prems order_refl, of d k]] by (simp add: algebra_simps)
qed simp

lemma mirrors_adds:
  assumes "mirrors latch c s" and "\<forall>k \<in> set ks. \<not> latch k" and "small B c" and "0 \<le> B" and "B + int (length ks) * \<bar>d\<bar> \<le> 2 ^ 53"
  shows "mirrors latch (fold (\<lambda>k. add_count k d) ks c) (fold (\<lambda>k s. mem_add s k (Fin (of_int d))) ks s)"
  using assms
proof (induction ks arbitrary: B c s)
  case (Cons k ks)
  have b: "B + \<bar>d\<bar> \<le> 2 ^ 53" "B + \<bar>d\<bar> + int (length ks) * \<bar>d\<bar> \<le> 2 ^ 53"
  proof -
    have "0 \<le> int (length ks) * \<bar>d\<bar>" "int (length (k # ks)) * \<bar>d\<bar> = \<bar>d\<bar> + int (length ks) * \<bar>d\<bar>"
      by (simp_all add: distrib_right)
    with Cons.prems(5) show "B + \<bar>d\<bar> \<le> 2 ^ 53" "B + \<bar>d\<bar> + int (length ks) * \<bar>d\<bar> \<le> 2 ^ 53"
      by linarith+
  qed
  have "mirrors latch (add_count k d c) (mem_add s k (Fin (of_int d)))"
    using Cons.prems(2) by (intro mirrors_add [OF Cons.prems(1) _ Cons.prems(3,4) b(1)]) simp
  then show ?case
    using Cons.prems(2,4) by (auto intro!: Cons.IH [OF _ _ small_add [OF Cons.prems(3,4) order_refl] _ b(2)])
qed simp

lemma fold_add_get: "distinct ks \<Longrightarrow> map_get 0 (fold (\<lambda>k. add_count k d) ks c) k = map_get 0 c k + (if k \<in> set ks then d else 0)"
  by (induction ks arbitrary: c) (auto simp: add_count_def)

definition user_keys :: "dual_pair \<Rightarrow> dual_pair \<Rightarrow> string list" where
  "user_keys org user = [dp_P org, dp_P user] @ (if dp_S org \<noteq> [] then [dp_S org, dp_S user] else [])"

lemma fold_user_keys:
  "(dp_S org \<noteq> [] \<longleftrightarrow> dp_S user \<noteq> []) \<Longrightarrow>
     fold (\<lambda>k. add_count k d) (user_keys org user) c = both user (\<lambda>k. add_count k d) (both org (\<lambda>k. add_count k d) c)"
  using add_count_commute [of "dp_P user" d "dp_S org" d] by (simp add: user_keys_def both_def)

lemma dual_spend_user_agrees:
  assumes L: "redis_laws K R kv" and S: "same latch kv B c s w"
    and p: "\<forall>p \<in> {org, user, seq}. pair_in K p \<and> counter_pair latch p \<and> (dp_S p \<noteq> [] \<longleftrightarrow> dp_S org \<noteq> [])"
    and dis: "distinct (user_keys org user)" and b: "B + 4 * \<bar>d\<bar> \<le> 2 ^ 53"
  shows "agree latch kv (B + 4 * \<bar>d\<bar>) (mem_dual_spend_user s org user seq (Fin (of_int d)) v2p)
    (red_dual_spend_user R w org user seq (Fin (of_int d)) v2p)"
proof -
  have m: "mirrors latch c s" "kv w = texts c" "small B c" "0 \<le> B" using S by (simp_all add: same_def)
  have po: "pair_in K org" "counter_pair latch org" and pu: "pair_in K user" "counter_pair latch user"
    and ps: "pair_in K seq" "counter_pair latch seq" and du: "dp_S org \<noteq> [] \<longleftrightarrow> dp_S user \<noteq> []" "dp_S org \<noteq> [] \<longleftrightarrow> dp_S seq \<noteq> []"
    using p by auto
  let ?c = "fold (seed_count v2p) [org, user, seq] c" and ?s = "fold (mem_seed v2p) [org, user, seq] s"
  let ?c' = "fold (\<lambda>k. add_count k d) (user_keys org user) ?c" and ?s' = "fold (\<lambda>k s. mem_add s k (Fin (of_int d))) (user_keys org user) ?s"
  let ?o = "map_get 0 ?c (dp_P org) + d" and ?u = "map_get 0 ?c (dp_P user) + d"
  let ?KS = "[dp_P org, dp_P user, dp_P seq] @ (if dp_S org \<noteq> [] then [dp_S org, dp_S user, dp_S seq] else [])"
  let ?A = "itoa d # dual_flags org v2p" and ?E = "dual_lua 3 2 ([dp_P org, dp_P user, dp_P seq]
    @ (if dp_S org \<noteq> [] then [dp_S org, dp_S user, dp_S seq] else [])) (itoa d # dual_flags org v2p)"
  have sm: "small B ?c" using m(3) by (simp add: small_seed)
  have e: "exact ?o" "exact ?u" "exact d"
    using small_get [OF sm m(4), of "dp_P org"] small_get [OF sm m(4), of "dp_P user"] b m(4) by (auto simp: exact_def)
  have len: "int (length (user_keys org user)) * \<bar>d\<bar> \<le> 4 * \<bar>d\<bar>" by (simp add: user_keys_def)
  have nl: "\<forall>k \<in> set (user_keys org user). \<not> latch k" using po pu du by (auto simp: user_keys_def counter_pair_def)
  have ms: "mirrors latch ?c ?s" using m(1) po pu ps by (simp add: mirrors_seed)
  have "B + int (length (user_keys org user)) * \<bar>d\<bar> \<le> 2 ^ 53" using len b by linarith
  from mirrors_adds [OF ms nl sm m(4) this] have mi: "mirrors latch ?c' ?s'" .
  have sm': "small (B + 4 * \<bar>d\<bar>) ?c'" by (rule small_mono [OF small_adds [OF sm m(4)]]) (use len in simp)
  have v: "mem_float ?s' (dp_P org) = Fin (of_int ?o)" "mem_float ?s' (dp_P user) = Fin (of_int ?u)"
    using mirrors_float [OF mi] nl fold_add_get [OF dis] by (simp_all add: user_keys_def)
  have "mem_dual_spend_user s org user seq (Fin (of_int d)) v2p = (Inr (mem_float ?s' (dp_P org), mem_float ?s' (dp_P user)), ?s')"
    by (simp add: mem_dual_spend_user_def mirrors_sweep [OF m(1)] Let_def user_keys_def)
  then have mem: "mem_dual_spend_user s org user seq (Fin (of_int d)) v2p = (Inr (Fin (of_int ?o), Fin (of_int ?u)), ?s')" unfolding v .
  have env: "at_pair ?E 1 org" "at_pair ?E 2 user" "at_pair ?E 3 seq" "de_V2P ?E = v2p"
    using du by (simp_all add: at_pair_def dual_lua_def tab_def dual_flags_def numeral_eq_Suc)
  have b1: "B + 2 * \<bar>d\<bar> \<le> 2 ^ 53" "0 \<le> B + 2 * \<bar>d\<bar>" "B + 2 * \<bar>d\<bar> + 2 * \<bar>d\<bar> \<le> 2 ^ 53" using b m(4) by linarith+
  have u: "map_get 0 (both org (\<lambda>k. add_count k d) ?c) (dp_P user) = map_get 0 ?c (dp_P user)"
    using dis by (auto simp: both_def add_count_def user_keys_def)
  have "runs kv (dual_spend_user_script R ?KS ?A) (texts c) (RArr [RStr (itoa ?o), RStr (itoa ?u)]) (texts ?c')"
    using run_seedv2 [OF L env(1) po(1), of c, unfolded env(4)]
      run_seedv2 [OF L env(2) pu(1), of "seed_count v2p org c", unfolded env(4)]
      run_seedv2 [OF L env(3) ps(1), of "seed_count v2p user (seed_count v2p org c)", unfolded env(4)]
      run_incrboth [OF L env(1) po(1) sm m(4) b1(1)]
      run_incrboth [OF L env(2) pu(1) small_both_add [OF sm m(4)] b1(2,3), of org, unfolded u]
    unfolding fold_user_keys [OF du(1)] dual_spend_user_script_def Let_def
    by (auto simp: tab_def intro!: runs_seq runs_bind)
  from agreeI [OF run_parse_pair [OF L this e(1,2)] m(2) mi sm'] m(4) show ?thesis
    unfolding mem red_dual_spend_user_def text_rules(1) [OF L e(3)] by simp
qed

section \<open>The acquire script on counts\<close>

definition whole_delta :: "acquire_spec \<Rightarrow> int" where
  "whole_delta sp = (case as_Delta sp of Fin q \<Rightarrow> \<lfloor>q\<rfloor> | _ \<Rightarrow> 0)"

definition limit_ok :: "f64 option \<Rightarrow> bool" where
  "limit_ok l \<longleftrightarrow> (case l of None \<Rightarrow> True | Some x \<Rightarrow> finite_f x \<and> is_f64 x)"

text \<open>A request for whole units under finite limits, on counter keys of \<open>K\<close>.\<close>

definition whole_spec :: "string set \<Rightarrow> (string \<Rightarrow> bool) \<Rightarrow> acquire_spec \<Rightarrow> bool" where
  "whole_spec K latch sp \<longleftrightarrow> as_Delta sp = Fin (of_int (whole_delta sp)) \<and> 0 \<le> whole_delta sp
     \<and> limit_ok (as_OrgLimit sp) \<and> limit_ok (as_UserLimit sp)
     \<and> (\<forall>k \<in> set (primary_keys sp). k \<in> K \<and> \<not> latch k)"

definition weight :: "acquire_spec list \<Rightarrow> int" where
  "weight specs = sum_list (map (\<lambda>sp. 2 * whole_delta sp + 1) specs)"

definition spend_count :: "acquire_spec \<Rightarrow> counts \<Rightarrow> counts" where
  "spend_count sp c =
     (let c = add_count (as_OrgKey sp) (whole_delta sp) c in
      if as_HasUser sp then add_count (as_UserKey sp) (whole_delta sp) (add_count (as_SeqKey sp) 1 c) else c)"

definition count_acquire :: "counts \<Rightarrow> string \<Rightarrow> bool \<Rightarrow> acquire_spec list \<Rightarrow> acquire_outcome \<times> counts" where
  "count_acquire c idem has specs =
     (if has \<and> c idem \<noteq> None then (\<lparr>ao_Admitted = True, ao_Dup = True, ao_DeniedIndex = 0\<rparr>, c)
      else let i = first_exceeding (map_get (Fin 0) (flts c)) 0 specs in
        if i \<noteq> 0 then (\<lparr>ao_Admitted = False, ao_Dup = False, ao_DeniedIndex = i\<rparr>, c)
        else (\<lparr>ao_Admitted = True, ao_Dup = False, ao_DeniedIndex = 0\<rparr>, fold spend_count specs (if has then c(idem \<mapsto> 1) else c)))"

text \<open>The layout the Go code gives to \<open>KEYS\<close> and \<open>ARGV\<close>, as the loops of the script read it.\<close>

definition laid :: "'w redis \<Rightarrow> nat \<Rightarrow> string list \<Rightarrow> string list \<Rightarrow> acquire_spec list \<Rightarrow> bool" where
  "laid R base KEYS ARGV specs \<longleftrightarrow> (\<forall>j < length specs.
       (\<forall>i < 3. tab KEYS (2 + j * 3 + i) = Some (primary_keys (specs ! j) ! i))
     \<and> (\<forall>i < 4. tab ARGV (base + 1 + j * 4 + i) = Some (spec_args R (specs ! j) ! i)))"

lemma tab_append: "i \<le> length xs \<Longrightarrow> tab (xs @ ys) i = tab xs i" "length xs < i \<Longrightarrow> tab (xs @ ys) i = tab ys (i - length xs)"
  by (auto simp: tab_def nth_append)

lemma tab_blocks:
  assumes "\<And>x. length (f x) = m" and "j < length xs" and "i < m"
  shows "tab (concat (map f xs)) (1 + j * m + i) = Some (f (xs ! j) ! i)"
proof -
  have "j * m + i < m * length xs"
    using assms(2,3) mult_le_mono1 [of "Suc j" "length xs" m] by (simp add: mult.commute)
  then show ?thesis using nth_blocks [OF assms] length_blocks [of f m xs] assms(1) by (simp add: tab_def)
qed

lemma primary_length [simp]: "length (primary_keys sp) = 3" "length (secondary_keys sp) = 3" "length (spec_args R sp) = 4"
  by (simp_all add: primary_keys_def secondary_keys_def spec_args_def)

lemma laid_layout:
  assumes "length pre = base"
  shows "laid R base (idem # concat (map primary_keys specs) @ post) (pre @ concat (map (spec_args R) specs)) specs"
  unfolding laid_def
proof (intro allI impI conjI)
  fix j i assume j: "j < length specs" and i: "i < (3::nat)"
  have "tab (concat (map primary_keys specs)) (1 + j * 3 + i) = Some (primary_keys (specs ! j) ! i)"
    by (rule tab_blocks) (use i j in simp_all)
  then show "tab (idem # concat (map primary_keys specs) @ post) (2 + j * 3 + i) = Some (primary_keys (specs ! j) ! i)"
    by (auto simp: tab_def nth_append nth_Cons' split: if_splits)
next
  fix j i assume j: "j < length specs" and i: "i < (4::nat)"
  have "tab (concat (map (spec_args R) specs)) (1 + j * 4 + i) = Some (spec_args R (specs ! j) ! i)"
    by (rule tab_blocks) (use i j in simp_all)
  then show "tab (pre @ concat (map (spec_args R) specs)) (base + 1 + j * 4 + i) = Some (spec_args R (specs ! j) ! i)"
    using assms by (subst tab_append(2)) (simp_all add: algebra_simps)
qed

lemma laid_at:
  assumes "laid R base KEYS ARGV specs" and "j < length specs"
  shows "tab KEYS (1 + j * 3 + 1) = Some (as_OrgKey (specs ! j))"
    "as_HasUser (specs ! j) \<Longrightarrow> tab KEYS (1 + j * 3 + 2) = Some (as_UserKey (specs ! j))"
    "as_HasUser (specs ! j) \<Longrightarrow> tab KEYS (1 + j * 3 + 3) = Some (as_SeqKey (specs ! j))"
    "tab ARGV (base + j * 4 + 1) = Some (flag (as_HasUser (specs ! j)))"
    "tab ARGV (base + j * 4 + 2) = Some (tx_Format R (as_Delta (specs ! j)))"
    "tab ARGV (base + j * 4 + 3) = Some (fmt_limit R (as_OrgLimit (specs ! j)))"
    "tab ARGV (base + j * 4 + 4) = Some (fmt_limit R (as_UserLimit (specs ! j)))"
proof -
  have "\<forall>i < 3. tab KEYS (2 + j * 3 + i) = Some (primary_keys (specs ! j) ! i)"
    and "\<forall>i < 4. tab ARGV (base + 1 + j * 4 + i) = Some (spec_args R (specs ! j) ! i)"
    using assms unfolding laid_def by blast+
  then show "tab KEYS (1 + j * 3 + 1) = Some (as_OrgKey (specs ! j))"
    "as_HasUser (specs ! j) \<Longrightarrow> tab KEYS (1 + j * 3 + 2) = Some (as_UserKey (specs ! j))"
    "as_HasUser (specs ! j) \<Longrightarrow> tab KEYS (1 + j * 3 + 3) = Some (as_SeqKey (specs ! j))"
    "tab ARGV (base + j * 4 + 1) = Some (flag (as_HasUser (specs ! j)))"
    "tab ARGV (base + j * 4 + 2) = Some (tx_Format R (as_Delta (specs ! j)))"
    "tab ARGV (base + j * 4 + 3) = Some (fmt_limit R (as_OrgLimit (specs ! j)))"
    "tab ARGV (base + j * 4 + 4) = Some (fmt_limit R (as_UserLimit (specs ! j)))"
    by (auto simp: primary_keys_def spec_args_def numeral_eq_Suc All_less_Suc)
qed

lemma cur_text: "(case texts c k of None \<Rightarrow> ''0'' | Some t \<Rightarrow> t) = itoa (map_get 0 c k)"
  by (cases "c k") (simp_all add: texts_None itoa_small)

lemma limit_text:
  assumes "redis_laws K R kv" and "limit_ok (Some l)"
  shows "fmt_limit R (Some l) \<noteq> []" "num R (Some (fmt_limit R (Some l))) f = f l"
proof -
  obtain q where "l = Fin q" "is_f64 (Fin q)" using assms(2) by (cases l) (auto simp: limit_ok_def finite_f_def)
  then show "fmt_limit R (Some l) \<noteq> []" "num R (Some (fmt_limit R (Some l))) f = f l"
    using text_rules(5,6) [OF assms(1)] by (simp_all add: fmt_limit_def)
qed

text \<open>One comparison of the checking loop.\<close>

lemma run_test:
  assumes L: "redis_laws K R kv" and "limit_ok l" and "l \<noteq> None" and "exact (map_get 0 c k)"
    and "runs kv next (texts c) r (texts c)"
  shows "runs kv (num R (Some (case texts c k of None \<Rightarrow> ''0'' | Some t \<Rightarrow> t)) (\<lambda>x. num R (Some (fmt_limit R l)) (\<lambda>y.
      if fgt (fadd x d) y then sret (Some z) else next)))
    (texts c) (if over_limit (map_get (Fin 0) (flts c) k) d l then Some z else r) (texts c)"
proof -
  obtain x where x: "l = Some x" using assms(3) by blast
  with assms(2) have "limit_ok (Some x)" by simp
  with x show ?thesis
    using assms(5) by (simp add: cur_text text_rules(3) [OF L assms(4)] limit_text(2) [OF L] over_limit_def flts_get)
qed

lemma run_check:
  assumes L: "redis_laws K R kv" and la: "laid R base KEYS ARGV specs" "j < length specs"
    and sp: "whole_spec K latch (specs ! j)" and b: "small B c" "0 \<le> B" "B + whole_delta (specs ! j) \<le> 2 ^ 53"
  shows "runs kv (acq_check R base KEYS ARGV (Suc j)) (texts c)
    (if spec_exceeds (map_get (Fin 0) (flts c)) (specs ! j) then Some (verdict R False (Suc j)) else None) (texts c)"
proof -
  define sp' where "sp' = specs ! j"
  note at = laid_at [OF la, folded sp'_def]
  have w: "as_Delta sp' = Fin (of_int (whole_delta sp'))" "limit_ok (as_OrgLimit sp')" "limit_ok (as_UserLimit sp')"
    and d: "exact (whole_delta sp')" and ex: "exact (map_get 0 c k)" for k
    using sp b small_get [OF b(1,2), of k] by (auto simp: whole_spec_def exact_def sp'_def)
  have K: "as_OrgKey sp' \<in> K" "as_HasUser sp' \<Longrightarrow> as_UserKey sp' \<in> K"
    using sp by (auto simp: whole_spec_def primary_keys_def sp'_def)
  have org: "fmt_limit R (as_OrgLimit sp') = [] \<longleftrightarrow> as_OrgLimit sp' = None"
    and usr: "fmt_limit R (as_UserLimit sp') = [] \<longleftrightarrow> as_UserLimit sp' = None"
    using limit_text(1) [OF L] w(2,3) by (cases "as_OrgLimit sp'"; cases "as_UserLimit sp'"; simp add: fmt_limit_def)+
  let ?test = "\<lambda>cur limit next. num R (Some (case cur of None \<Rightarrow> ''0'' | Some t \<Rightarrow> t)) (\<lambda>x. num R (Some (fmt_limit R limit)) (\<lambda>y.
      if fgt (fadd x (as_Delta sp')) y then sret (Some (verdict R False (Suc j))) else next))"
  define user where "user = (if as_HasUser sp' \<and> as_UserLimit sp' \<noteq> None
      then sbind (sv_GET R (as_UserKey sp')) (\<lambda>ucur. ?test ucur (as_UserLimit sp') (sret None)) else sret None)"
  have u: "runs kv user (texts c)
      (if as_HasUser sp' \<and> over_limit (map_get (Fin 0) (flts c) (as_UserKey sp')) (as_Delta sp') (as_UserLimit sp')
       then Some (verdict R False (Suc j)) else None) (texts c)"
  proof (cases "as_HasUser sp' \<and> as_UserLimit sp' \<noteq> None")
    case True
    have "runs kv user (texts c)
      (if over_limit (map_get (Fin 0) (flts c) (as_UserKey sp')) (as_Delta sp') (as_UserLimit sp')
       then Some (verdict R False (Suc j)) else None) (texts c)"
      unfolding user_def if_P [OF True]
      by (rule runs_bind [OF run_reads(1) [OF L K(2)]], simp add: True, rule run_test [OF L w(3) _ ex runs_ret]) (simp add: True)
    with True show ?thesis by simp
  qed (auto simp: user_def over_limit_def)
  have "acq_check R base KEYS ARGV (Suc j) = sbind (sv_GET R (as_OrgKey sp')) (\<lambda>ocur.
      if as_OrgLimit sp' \<noteq> None then ?test ocur (as_OrgLimit sp') user else user)"
    unfolding acq_check_def user_def using at
    by (simp add: Let_def org usr w(1) text_rules(1) [OF L d] text_rules(3) [OF L d] cong: if_cong)
  moreover have "runs kv (sbind (sv_GET R (as_OrgKey sp')) (\<lambda>ocur.
      if as_OrgLimit sp' \<noteq> None then ?test ocur (as_OrgLimit sp') user else user)) (texts c)
      (if spec_exceeds (map_get (Fin 0) (flts c)) sp' then Some (verdict R False (Suc j)) else None) (texts c)"
  proof (rule runs_bind [OF run_reads(1) [OF L K(1)]], cases "as_OrgLimit sp' = None")
    case True
    then have "spec_exceeds (map_get (Fin 0) (flts c)) sp' \<longleftrightarrow>
        as_HasUser sp' \<and> over_limit (map_get (Fin 0) (flts c) (as_UserKey sp')) (as_Delta sp') (as_UserLimit sp')"
      by (simp add: spec_exceeds_def over_limit_def)
    with u True show "runs kv (if as_OrgLimit sp' \<noteq> None then ?test (texts c (as_OrgKey sp')) (as_OrgLimit sp') user else user) (texts c)
        (if spec_exceeds (map_get (Fin 0) (flts c)) sp' then Some (verdict R False (Suc j)) else None) (texts c)" by (simp only: if_False not_True_eq_False simp_thms)
  next
    case False
    have "(if spec_exceeds (map_get (Fin 0) (flts c)) sp' then Some (verdict R False (Suc j)) else None)
      = (if over_limit (map_get (Fin 0) (flts c) (as_OrgKey sp')) (as_Delta sp') (as_OrgLimit sp') then Some (verdict R False (Suc j))
         else if as_HasUser sp' \<and> over_limit (map_get (Fin 0) (flts c) (as_UserKey sp')) (as_Delta sp') (as_UserLimit sp')
         then Some (verdict R False (Suc j)) else None)" unfolding spec_exceeds_def by argo
    then show "runs kv (if as_OrgLimit sp' \<noteq> None then ?test (texts c (as_OrgKey sp')) (as_OrgLimit sp') user else user) (texts c)
        (if spec_exceeds (map_get (Fin 0) (flts c)) sp' then Some (verdict R False (Suc j)) else None) (texts c)"
      unfolding if_P [OF False] using run_test [OF L w(2) False ex u] by (simp only:)
  qed
  ultimately show ?thesis unfolding sp'_def by (simp only:)
qed

lemma run_checks:
  assumes L: "redis_laws K R kv" and la: "laid R base KEYS ARGV specs" and sp: "\<forall>sp \<in> set specs. whole_spec K latch sp"
    and b: "small B c" "0 \<le> B" "\<forall>sp \<in> set specs. B + whole_delta sp \<le> 2 ^ 53" and i: "i \<le> length specs"
  shows "runs kv (sfor [Suc i..<Suc (length specs)] (acq_check R base KEYS ARGV)) (texts c)
    (let f = first_exceeding (map_get (Fin 0) (flts c)) i (drop i specs) in if f = 0 then None else Some (verdict R False f)) (texts c)"
  using i
proof (induction "length specs - i" arbitrary: i)
  case (Suc n)
  then have lt: "i < length specs" by simp
  then have dr: "drop i specs = specs ! i # drop (Suc i) specs" and up: "[Suc i..<Suc (length specs)] = Suc i # [Suc (Suc i)..<Suc (length specs)]"
    by (simp_all add: Cons_nth_drop_Suc upt_conv_Cons)
  have mem: "specs ! i \<in> set specs" using lt by simp
  have rest: "runs kv (sfor [Suc (Suc i)..<Suc (length specs)] (acq_check R base KEYS ARGV)) (texts c)
    (let f = first_exceeding (map_get (Fin 0) (flts c)) (Suc i) (drop (Suc i) specs) in if f = 0 then None else Some (verdict R False f)) (texts c)"
    using Suc.hyps(2) lt by (intro Suc.hyps(1)) simp_all
  have "runs kv (acq_check R base KEYS ARGV (Suc i)) (texts c)
      (if spec_exceeds (map_get (Fin 0) (flts c)) (specs ! i) then Some (verdict R False (Suc i)) else None) (texts c)"
    using sp b(3) mem by (intro run_check [OF L la lt _ b(1,2)]) auto
  with rest show ?case
    unfolding dr up by (cases "spec_exceeds (map_get (Fin 0) (flts c)) (specs ! i)") (auto simp: Let_def intro!: runs_bind)
qed simp

lemma small_spend:
  assumes "small B c" and "0 \<le> B" and "0 \<le> whole_delta sp"
  shows "small (B + (2 * whole_delta sp + 1)) (spend_count sp c)"
proof -
  let ?d = "whole_delta sp"
  have d: "\<bar>?d\<bar> \<le> ?d" "\<bar>1 :: int\<bar> \<le> 1" using assms(3) by simp_all
  have o: "small (B + ?d) (add_count (as_OrgKey sp) ?d c)" by (rule small_add [OF assms(1,2) d(1)])
  have "small (B + ?d + 1) (add_count (as_SeqKey sp) 1 (add_count (as_OrgKey sp) ?d c))"
    using assms by (intro small_add [OF o _ d(2)]) simp
  then have "small (B + ?d + 1 + ?d) (add_count (as_UserKey sp) ?d (add_count (as_SeqKey sp) 1 (add_count (as_OrgKey sp) ?d c)))"
    using assms by (intro small_add [OF _ _ d(1)]) simp_all
  with small_mono [OF o] assms(3) show ?thesis by (simp add: spend_count_def Let_def algebra_simps)
qed

lemma weight_Cons [simp]: "weight [] = 0" "weight (sp # sps) = 2 * whole_delta sp + 1 + weight sps"
  by (simp_all add: weight_def)

lemma weight_nonneg: "\<forall>sp \<in> set specs. 0 \<le> whole_delta sp \<Longrightarrow> 0 \<le> weight specs"
  by (induction specs) auto

lemma weight_mem: "\<forall>sp \<in> set specs. 0 \<le> whole_delta sp \<Longrightarrow> sp \<in> set specs \<Longrightarrow> 2 * whole_delta sp + 1 \<le> weight specs"
  by (induction specs) (use weight_nonneg in fastforce)+

lemma weight_length: "\<forall>sp \<in> set specs. 0 \<le> whole_delta sp \<Longrightarrow> int (length specs) \<le> weight specs"
  by (induction specs) auto

lemma small_spends:
  "small B c \<Longrightarrow> 0 \<le> B \<Longrightarrow> \<forall>sp \<in> set specs. 0 \<le> whole_delta sp \<Longrightarrow> small (B + weight specs) (fold spend_count specs c)"
proof (induction specs arbitrary: B c)
  case (Cons sp specs)
  then show ?case
    using Cons.IH [OF small_spend [OF Cons.prems(1,2), of sp]] by (simp add: algebra_simps)
qed simp

lemma weight_take: "\<forall>sp \<in> set specs. 0 \<le> whole_delta sp \<Longrightarrow> j < length specs \<Longrightarrow>
    weight (take j specs) + (2 * whole_delta (specs ! j) + 1) \<le> weight specs"
proof (induction specs arbitrary: j)
  case (Cons sp specs)
  show ?case
  proof (cases j)
    case (Suc n)
    then have "weight (take n specs) + (2 * whole_delta (specs ! n) + 1) \<le> weight specs" using Cons by simp
    with Suc show ?thesis by simp
  qed (use Cons.prems weight_nonneg [of specs] in simp)
qed simp

lemma run_spend:
  assumes L: "redis_laws K R kv" and la: "laid R 3 KEYS ARGV specs" "j < length specs"
    and sp: "whole_spec K latch (specs ! j)" and b: "small B c" "0 \<le> B" "B + (2 * whole_delta (specs ! j) + 1) \<le> 2 ^ 53"
  shows "runs kv (acq_spend R KEYS ARGV (Suc j)) (texts c) None (texts (spend_count (specs ! j) c))"
proof -
  define sp' where "sp' = specs ! j"
  let ?d = "whole_delta sp'"
  note at = laid_at [OF la, folded sp'_def]
  have w: "as_Delta sp' = Fin (of_int ?d)" "0 \<le> ?d" and K: "as_OrgKey sp' \<in> K" "as_HasUser sp' \<Longrightarrow> as_UserKey sp' \<in> K \<and> as_SeqKey sp' \<in> K"
    using sp by (auto simp: whole_spec_def primary_keys_def sp'_def)
  have e: "exact ?d" and bs: "B + \<bar>?d\<bar> \<le> 2 ^ 53" "0 \<le> B + ?d" "B + ?d + \<bar>1\<bar> \<le> 2 ^ 53" "0 \<le> B + ?d + 1" "B + ?d + 1 + \<bar>?d\<bar> \<le> 2 ^ 53" "\<bar>?d\<bar> \<le> ?d"
    using w(2) b by (simp_all add: exact_def sp'_def)
  note t = text_rules(1,3,4) [OF L e]
  let ?c1 = "add_count (as_OrgKey sp') ?d c" and ?c2 = "add_count (as_SeqKey sp') 1 (add_count (as_OrgKey sp') ?d c)"
  have s1: "small (B + ?d) ?c1" by (rule small_add [OF b(1,2) bs(6)])
  have s2: "small (B + ?d + 1) ?c2" by (rule small_add [OF s1 bs(2)]) simp
  have eq: "acq_spend R KEYS ARGV (Suc j) = sseq (sv_INCRBYFLOAT R (as_OrgKey sp') (itoa ?d))
      (if as_HasUser sp' then sseq (sv_INCR R (as_SeqKey sp')) (sseq (sv_INCRBYFLOAT R (as_UserKey sp') (itoa ?d)) (sret None)) else sret None)"
    using at by (simp add: acq_spend_def Let_def w(1) t cong: if_cong)
  have o: "runs kv (sv_INCRBYFLOAT R (as_OrgKey sp') (itoa ?d)) (texts c) (itoa (map_get 0 c (as_OrgKey sp') + ?d)) (texts ?c1)"
    by (rule run_incrs(1) [OF L K(1) b(1,2) bs(1) spells_itoa])
  show ?thesis
  proof (cases "as_HasUser sp'")
    case True
    have q: "runs kv (sv_INCR R (as_SeqKey sp')) (texts ?c1) (map_get 0 ?c1 (as_SeqKey sp') + 1) (texts ?c2)"
      using K(2) True by (intro run_incrs(3) [OF L _ s1 bs(2,3)]) simp_all
    have u: "runs kv (sv_INCRBYFLOAT R (as_UserKey sp') (itoa ?d)) (texts ?c2) (itoa (map_get 0 ?c2 (as_UserKey sp') + ?d))
        (texts (add_count (as_UserKey sp') ?d ?c2))"
      using K(2) True by (intro run_incrs(1) [OF L _ s2 bs(4,5) spells_itoa]) simp
    show ?thesis
      unfolding eq spend_count_def sp'_def [symmetric] Let_def if_P [OF True]
      by (rule runs_seq [OF o runs_seq [OF q runs_seq [OF u runs_ret]]])
  next
    case False
    show ?thesis
      unfolding eq spend_count_def sp'_def [symmetric] Let_def if_not_P [OF False] by (rule runs_seq [OF o runs_ret])
  qed
qed

lemma run_spends:
  assumes L: "redis_laws K R kv" and body: "\<And>j c B. j < length specs \<Longrightarrow> small B c \<Longrightarrow> 0 \<le> B \<Longrightarrow>
        B + a * (2 * whole_delta (specs ! j) + 1) \<le> 2 ^ 53 \<Longrightarrow>
        runs kv (body (Suc j)) (texts c) None (texts (f (specs ! j) c)) \<and> small (B + a * (2 * whole_delta (specs ! j) + 1)) (f (specs ! j) c)"
    and a: "0 \<le> a" and d: "\<forall>sp \<in> set specs. 0 \<le> whole_delta sp" and b: "small B c" "0 \<le> B" "B + a * weight specs \<le> 2 ^ 53"
  shows "runs kv (sfor [1..<Suc (length specs)] body) (texts c) None (texts (fold f specs c))"
proof -
  define V where "V = (\<lambda>j. fold f (take j specs) c)"
  have bd: "B + a * weight (take j specs) + a * (2 * whole_delta (specs ! j) + 1) \<le> 2 ^ 53" "0 \<le> B + a * weight (take j specs)"
    if j: "j < length specs" for j
  proof -
    have "a * (weight (take j specs) + (2 * whole_delta (specs ! j) + 1)) \<le> a * weight specs"
      by (rule mult_left_mono [OF weight_take [OF d j] a])
    with b(3) show "B + a * weight (take j specs) + a * (2 * whole_delta (specs ! j) + 1) \<le> 2 ^ 53"
      unfolding distrib_left [of a "weight (take j specs)"] by linarith
    have "0 \<le> weight (take j specs)" using d by (intro weight_nonneg) (auto dest: in_set_takeD)
    then show "0 \<le> B + a * weight (take j specs)" using a b(2) by simp
  qed
  have V: "V (Suc j) = f (specs ! j) (V j)"
    "weight (take (Suc j) specs) = weight (take j specs) + (2 * whole_delta (specs ! j) + 1)" if "j < length specs" for j
    using that by (simp_all add: V_def weight_def take_Suc_conv_app_nth)
  have s: "j \<le> length specs \<Longrightarrow> small (B + a * weight (take j specs)) (V j)" for j
  proof (induction j)
    case (Suc j)
    then have "small (B + a * weight (take j specs) + a * (2 * whole_delta (specs ! j) + 1)) (f (specs ! j) (V j))"
      using body [OF _ _ bd(2,1)] by simp
    then show ?case using Suc.prems by (simp add: V distrib_left add.assoc)
  qed (simp add: V_def b(1))
  have "runs kv (body (Suc j)) (texts (V j)) None (texts (V (Suc j)))" if j: "j < length specs" for j
    using body [OF j s bd(2,1)] j by (simp add: V)
  then have "runs kv (sfor [Suc 0..<Suc (length specs)] body) (texts (V 0)) None (texts (V (length specs)))"
    by (intro runs_for [where V = "\<lambda>j. texts (V j)"]) simp_all
  then show ?thesis by (simp add: V_def)
qed

lemma upto_length: "upto_num (Fin (of_int (int n))) = [1..<Suc n]"
  by simp

lemma idem_seconds_pos: "0 < idem_seconds d"
  by (simp add: idem_seconds_def Let_def)

lemma itoa_not_word: "itoa n \<noteq> ''dup''" "itoa n \<noteq> ''ok''"
  using nat_text_first [of "nat n"] by (auto simp: itoa_def is_digit_def)

lemma read_verdicts:
  "read_acquire_reply dup_reply = Inr \<lparr>ao_Admitted = True, ao_Dup = True, ao_DeniedIndex = 0\<rparr>"
  "read_acquire_reply (verdict R True i) = Inr \<lparr>ao_Admitted = True, ao_Dup = False, ao_DeniedIndex = 0\<rparr>"
  "redis_laws K R kv \<Longrightarrow> i < 10 ^ 14 \<Longrightarrow> read_acquire_reply (verdict R False i) = Inr \<lparr>ao_Admitted = False, ao_Dup = False, ao_DeniedIndex = i\<rparr>"
proof -
  assume L: "redis_laws K R kv" and i: "i < 10 ^ 14"
  have "atoi (itoa (int i)) = Some (int i)" using i by (intro atoi_itoa) simp_all
  with itoa_not_word [of "int i"] text_rules(7) [OF L i]
  show "read_acquire_reply (verdict R False i) = Inr \<lparr>ao_Admitted = False, ao_Dup = False, ao_DeniedIndex = i\<rparr>"
    by (simp add: read_acquire_reply_def verdict_def to_str_def Let_def)
qed (simp_all add: read_acquire_reply_def dup_reply_def verdict_def to_str_def Let_def)

lemma first_exceeding_le: "first_exceeding lv i specs \<le> i + length specs"
proof (induction specs arbitrary: i)
  case (Cons sp specs)
  then show ?case using Cons.IH [of "Suc i"] by simp
qed simp

lemma first_exceeding_cong:
  "\<forall>sp \<in> set specs. lv (as_OrgKey sp) = lv' (as_OrgKey sp) \<and> (as_HasUser sp \<longrightarrow> lv (as_UserKey sp) = lv' (as_UserKey sp)) \<Longrightarrow>
   first_exceeding lv i specs = first_exceeding lv' i specs"
  by (induction specs arbitrary: i) (auto simp: spec_exceeds_def)

text \<open>The requests of one call: whole, on counter keys, and not so large that a count would lose exactness.\<close>

definition fits :: "string set \<Rightarrow> (string \<Rightarrow> bool) \<Rightarrow> int \<Rightarrow> acquire_spec list \<Rightarrow> bool" where
  "fits K latch B specs \<longleftrightarrow> validate_specs 0 specs = None \<and> (\<forall>sp \<in> set specs. whole_spec K latch sp)
     \<and> 1 \<le> B \<and> B + weight specs \<le> 2 ^ 53 \<and> length specs < 10 ^ 14"

lemma fits_bounds:
  assumes "fits K latch B specs"
  shows "\<forall>sp \<in> set specs. 0 \<le> whole_delta sp" "\<forall>sp \<in> set specs. B + whole_delta sp \<le> 2 ^ 53" "exact (int (length specs))"
proof -
  show d: "\<forall>sp \<in> set specs. 0 \<le> whole_delta sp" using assms by (auto simp: fits_def whole_spec_def)
  show "\<forall>sp \<in> set specs. B + whole_delta sp \<le> 2 ^ 53"
  proof
    fix sp assume "sp \<in> set specs"
    with weight_mem [OF d this] d assms show "B + whole_delta sp \<le> 2 ^ 53" by (auto simp: fits_def)
  qed
  show "exact (int (length specs))" using assms by (simp add: fits_def exact_def)
qed

lemma run_acquire_script:
  assumes L: "redis_laws K R kv" and f: "fits K latch B specs" and b: "small B c" and i: "idem \<in> K"
  shows "\<exists>r. runs kv (acquire_script R (idem # concat (map primary_keys specs))
        ([flag has, itoa (idem_seconds ttl), itoa (int (length specs))] @ concat (map (spec_args R) specs)))
      (texts c) r (texts (snd (count_acquire c idem has specs)))
    \<and> read_acquire_reply r = Inr (fst (count_acquire c idem has specs))"
proof -
  let ?KEYS = "idem # concat (map primary_keys specs) @ []"
  let ?ARGV = "[flag has, itoa (idem_seconds ttl), itoa (int (length specs))] @ concat (map (spec_args R) specs)"
  define n where "n = first_exceeding (map_get (Fin 0) (flts c)) 0 specs"
  let ?c = "if has then c(idem \<mapsto> 1) else c"
  note fb = fits_bounds [OF f]
  have B: "1 \<le> B" "0 \<le> B" "B + weight specs \<le> 2 ^ 53" and n: "n < 10 ^ 14"
    using f first_exceeding_le [of "map_get (Fin 0) (flts c)" 0 specs] by (auto simp: fits_def n_def)
  have sp: "\<forall>sp \<in> set specs. whole_spec K latch sp" using f by (simp add: fits_def)
  have la: "laid R 3 ?KEYS ?ARGV specs" by (rule laid_layout) simp
  have tabs: "tab ?KEYS 1 = Some idem" "tab ?ARGV 1 = Some (flag has)" "tab ?ARGV 2 = Some (itoa (idem_seconds ttl))"
    "tab ?ARGV 3 = Some (itoa (int (length specs)))" by (simp_all add: tab_def numeral_eq_Suc)
  have check: "runs kv (sfor [1..<Suc (length specs)] (acq_check R 3 ?KEYS ?ARGV)) (texts c)
      (if n = 0 then None else Some (verdict R False n)) (texts c)"
    using run_checks [OF L la sp b B(2) fb(2) le0] unfolding n_def Let_def drop_0 One_nat_def .
  have sm: "small B ?c" using b B(1) by (auto intro: small_upd)
  have spend: "runs kv (sseq (sfor [1..<Suc (length specs)] (acq_spend R ?KEYS ?ARGV)) (sret (verdict R True 0))) (texts ?c)
      (verdict R True 0) (texts (fold spend_count specs ?c))"
  proof (rule runs_seq [OF run_spends [OF L, where a = 1] runs_ret])
    fix j c' B' assume j: "j < length specs" and s: "small B' c'" "0 \<le> B'" "B' + 1 * (2 * whole_delta (specs ! j) + 1) \<le> 2 ^ 53"
    have "whole_spec K latch (specs ! j)" "0 \<le> whole_delta (specs ! j)" using sp fb(1) j by simp_all
    then show "runs kv (acq_spend R ?KEYS ?ARGV (Suc j)) (texts c') None (texts (spend_count (specs ! j) c'))
        \<and> small (B' + 1 * (2 * whole_delta (specs ! j) + 1)) (spend_count (specs ! j) c')"
      using run_spend [OF L la j _ s(1,2)] small_spend [OF s(1,2)] s(3) by simp
  qed (use fb(1) sm B in simp_all)
  have claim: "runs kv (sv_SETNXEX R idem ''1'' (itoa (idem_seconds ttl))) (texts c) True (texts (c(idem \<mapsto> 1)))" if "c idem = None"
    using run_writes(3) [OF L i idem_seconds_pos, of "''1''" ttl "texts c"] that by (simp add: texts_None texts_upd itoa_small)
  let ?claim = "\<lambda>next. if has then sbind (sv_SETNXEX R idem ''1'' (itoa (idem_seconds ttl))) (\<lambda>ok. if ok then next else sret dup_reply) else next"
  let ?rest = "sbind (sfor [1..<Suc (length specs)] (acq_check R 3 ?KEYS ?ARGV)) (\<lambda>r. case r of Some x \<Rightarrow> sret x
     | None \<Rightarrow> ?claim (sseq (sfor [1..<Suc (length specs)] (acq_spend R ?KEYS ?ARGV)) (sret (verdict R True 0))))"
  have eq: "acquire_script R ?KEYS ?ARGV =
     (if has then sbind (sv_GET R idem) (\<lambda>v. if v \<noteq> None then sret dup_reply else ?rest) else ?rest)"
    unfolding acquire_script_def tabs text_rules(3) [OF L fb(3)] upto_length Let_def by (simp only: need_Some flag_1 option.inject)
  have rest: "runs kv ?rest (texts c) (if n = 0 then verdict R True 0 else verdict R False n)
      (texts (if n = 0 then fold spend_count specs ?c else c))" if "has \<longrightarrow> c idem = None"
  proof (rule runs_bind [OF check], cases "n = 0")
    case True
    show "runs kv (case if n = 0 then None else Some (verdict R False n) of Some x \<Rightarrow> sret x
     | None \<Rightarrow> ?claim (sseq (sfor [1..<Suc (length specs)] (acq_spend R ?KEYS ?ARGV)) (sret (verdict R True 0))))
      (texts c) (if n = 0 then verdict R True 0 else verdict R False n) (texts (if n = 0 then fold spend_count specs ?c else c))"
    proof (cases has)
      case has: True
      show ?thesis unfolding if_P [OF True] option.case if_P [OF has]
        by (rule runs_bind [OF claim]) (use that has spend in simp_all)
    qed (use True spend in simp)
  qed simp
  define Z where "Z = ?rest"
  note eq' = eq [folded Z_def] and rest' = rest [folded Z_def]
  show ?thesis
  proof (cases "has \<and> c idem \<noteq> None")
    case True
    then have "runs kv (acquire_script R ?KEYS ?ARGV) (texts c) dup_reply (texts c)"
      unfolding eq' using run_reads(1) [OF L i, of "texts c"] by (auto simp: texts_None intro!: runs_bind)
    with True show ?thesis by (auto simp: count_acquire_def read_verdicts)
  next
    case False
    then have "runs kv (acquire_script R ?KEYS ?ARGV) (texts c) (if n = 0 then verdict R True 0 else verdict R False n)
      (texts (if n = 0 then fold spend_count specs ?c else c))"
    proof (cases has)
      case True
      with False have no: "texts c idem = None" by (simp add: texts_None)
      show ?thesis unfolding eq' if_P [OF True]
        by (rule runs_bind [OF run_reads(1) [OF L i]]) (use rest' False no True in \<open>auto split: if_splits\<close>)
    next
      case has: False
      show ?thesis unfolding eq' if_not_P [OF has] using rest' has by (auto split: if_splits)
    qed
    moreover have "count_acquire c idem has specs = (if n = 0
        then (\<lparr>ao_Admitted = True, ao_Dup = False, ao_DeniedIndex = 0\<rparr>, fold spend_count specs ?c)
        else (\<lparr>ao_Admitted = False, ao_Dup = False, ao_DeniedIndex = n\<rparr>, c))"
      using False by (auto simp: count_acquire_def n_def Let_def)
    ultimately show ?thesis using read_verdicts(3) [OF L n] by (auto simp: read_verdicts(1,2))
  qed
qed

lemma spec_delta: "whole_spec K latch sp \<Longrightarrow> as_Delta sp = Fin (of_int (whole_delta sp))"
  by (simp add: whole_spec_def)

lemma mirrors_spend:
  assumes "mirrors latch c s" and sp: "whole_spec K latch sp" and b: "small B c" "0 \<le> B" "B + (2 * whole_delta sp + 1) \<le> 2 ^ 53"
  shows "mirrors latch (spend_count sp c) (mem_spend_spec sp s)"
proof -
  let ?d = "whole_delta sp"
  have w: "as_Delta sp = Fin (of_int ?d)" "0 \<le> ?d" and nl: "\<not> latch (as_OrgKey sp)" "as_HasUser sp \<Longrightarrow> \<not> latch (as_UserKey sp) \<and> \<not> latch (as_SeqKey sp)"
    using sp by (auto simp: whole_spec_def primary_keys_def)
  have bs: "B + \<bar>?d\<bar> \<le> 2 ^ 53" "0 \<le> B + ?d" "B + ?d + \<bar>1\<bar> \<le> 2 ^ 53" "0 \<le> B + ?d + 1" "B + ?d + 1 + \<bar>?d\<bar> \<le> 2 ^ 53" "\<bar>?d\<bar> \<le> ?d"
    using w(2) b by simp_all
  let ?c1 = "add_count (as_OrgKey sp) ?d c"
  have s1: "small (B + ?d) ?c1" by (rule small_add [OF b(1,2) bs(6)])
  have s2: "small (B + ?d + 1) (add_count (as_SeqKey sp) 1 ?c1)" by (rule small_add [OF s1 bs(2)]) simp
  have m1: "mirrors latch ?c1 (mem_add s (as_OrgKey sp) (Fin (of_int ?d)))" by (rule mirrors_add [OF assms(1) nl(1) b(1,2) bs(1)])
  show ?thesis
  proof (cases "as_HasUser sp")
    case True
    have m2: "mirrors latch (add_count (as_SeqKey sp) 1 ?c1) (mem_add (mem_add s (as_OrgKey sp) (Fin (of_int ?d))) (as_SeqKey sp) (Fin (of_int 1)))"
      using nl(2) True by (intro mirrors_add [OF m1 _ s1 bs(2,3)]) simp
    show ?thesis
      using mirrors_add [OF m2 _ s2 bs(4,5)] nl(2) True by (simp add: spend_count_def mem_spend_spec_def w(1) Let_def)
  qed (use m1 in \<open>simp add: spend_count_def mem_spend_spec_def w(1) Let_def\<close>)
qed

lemma mirrors_spends:
  assumes "mirrors latch c s" and "\<forall>sp \<in> set specs. whole_spec K latch sp" and "small B c" and "0 \<le> B" and "B + weight specs \<le> 2 ^ 53"
  shows "mirrors latch (fold spend_count specs c) (fold mem_spend_spec specs s)"
  using assms
proof (induction specs arbitrary: B c s)
  case (Cons sp specs)
  have d: "0 \<le> whole_delta sp" "\<forall>sp \<in> set specs. 0 \<le> whole_delta sp" using Cons.prems(2) by (auto simp: whole_spec_def)
  have b: "B + (2 * whole_delta sp + 1) \<le> 2 ^ 53" "B + (2 * whole_delta sp + 1) + weight specs \<le> 2 ^ 53" "0 \<le> B + (2 * whole_delta sp + 1)"
    using Cons.prems(4,5) weight_nonneg [OF d(2)] d(1) by simp_all
  have "mirrors latch (spend_count sp c) (mem_spend_spec sp s)"
    using Cons.prems(2) by (intro mirrors_spend [OF Cons.prems(1) _ Cons.prems(3,4) b(1), of K]) simp
  from Cons.IH [OF this _ small_spend [OF Cons.prems(3,4) d(1)] b(3,2)] Cons.prems(2) show ?case by simp
qed simp

lemma mirrors_check:
  assumes "mirrors latch c s" and "\<forall>sp \<in> set specs. whole_spec K latch sp"
  shows "first_exceeding (mem_float s) i specs = first_exceeding (map_get (Fin 0) (flts c)) i specs"
proof (rule first_exceeding_cong, intro ballI conjI impI)
  fix sp assume "sp \<in> set specs"
  then have "whole_spec K latch sp" using assms(2) by blast
  then show "mem_float s (as_OrgKey sp) = map_get (Fin 0) (flts c) (as_OrgKey sp)"
    "as_HasUser sp \<Longrightarrow> mem_float s (as_UserKey sp) = map_get (Fin 0) (flts c) (as_UserKey sp)"
    using mirrors_float [OF assms(1)] by (auto simp: whole_spec_def primary_keys_def flts_get)
qed

lemma small_count_acquire:
  assumes "small B c" and "1 \<le> B" and "\<forall>sp \<in> set specs. 0 \<le> whole_delta sp"
  shows "small (B + weight specs) (snd (count_acquire c idem has specs))"
proof -
  have "small B (if has then c(idem \<mapsto> 1) else c)" using assms(1,2) by (auto intro: small_upd)
  from small_spends [OF this _ assms(3)] assms(2) small_mono [OF assms(1)] weight_nonneg [OF assms(3)] show ?thesis
    by (auto simp: count_acquire_def Let_def)
qed

lemma acquire_agrees:
  assumes L: "redis_laws K R kv" and S: "same latch kv B c s w" and f: "fits K latch B specs" and i: "idem \<in> K" "latch idem"
  shows "agree latch kv (B + weight specs) (mem_atomic_acquire s idem has ttl specs) (red_atomic_acquire R w idem has ttl specs)"
proof -
  have m: "mirrors latch c s" "kv w = texts c" "small B c" "0 \<le> B" using S by (simp_all add: same_def)
  let ?out = "fst (count_acquire c idem has specs)" and ?c' = "snd (count_acquire c idem has specs)"
  note fb = fits_bounds [OF f]
  have v: "validate_specs 0 specs = None" and sp: "\<forall>sp \<in> set specs. whole_spec K latch sp" and B: "1 \<le> B" "B + weight specs \<le> 2 ^ 53"
    using f by (simp_all add: fits_def)
  obtain r where r: "runs kv (acquire_script R (idem # concat (map primary_keys specs))
        ([flag has, itoa (idem_seconds ttl), itoa (int (length specs))] @ concat (map (spec_args R) specs))) (texts c) r (texts ?c')"
    "read_acquire_reply r = Inr ?out" using run_acquire_script [OF L f m(3) i(1)] by blast
  obtain w' where w': "red_atomic_acquire R w idem has ttl specs = (Inr ?out, w')" "kv w' = texts ?c'"
    using runs_app [of kv _ w r "texts ?c'"] r m(2)
    by (fastforce simp: red_atomic_acquire_def v run_acquire_def text_rules(8) [OF L] sbind_def)
  have cl: "ms_strings s idem \<noteq> None \<longleftrightarrow> c idem \<noteq> None" using m(1) i(2) by (simp add: mirrors_def)
  let ?s = "if has then mem_claim idem ttl s else s" and ?c = "if has then c(idem \<mapsto> 1) else c"
  have "mirrors latch ?c ?s" using m(1) mirrors_claim [OF m(1) i(2)] by simp
  moreover have "small B ?c" using m(3) B(1) by (auto intro: small_upd)
  ultimately have sp': "mirrors latch (fold spend_count specs ?c) (fold mem_spend_spec specs ?s)"
    using mirrors_spends [OF _ sp _ m(4) B(2)] by blast
  have "fst (mem_atomic_acquire s idem has ttl specs) = Inr ?out \<and> mirrors latch ?c' (snd (mem_atomic_acquire s idem has ttl specs))"
    using cl m(1) sp' by (auto simp: mem_atomic_acquire_def count_acquire_def v mirrors_sweep [OF m(1)] mirrors_check [OF m(1) sp] Let_def)
  then show ?thesis
    using w' small_count_acquire [OF m(3) B(1) fb(1)] m(4) weight_nonneg [OF fb(1)] by (auto simp: agree_def same_def)
qed

section \<open>The dual acquire script on counts\<close>

text \<open>The secondary keys of a request: all present or all absent.\<close>

definition dual_spec :: "string set \<Rightarrow> (string \<Rightarrow> bool) \<Rightarrow> bool \<Rightarrow> acquire_spec \<Rightarrow> bool" where
  "dual_spec K latch dual sp \<longleftrightarrow> (\<forall>k \<in> set (secondary_keys sp). (k \<noteq> [] \<longleftrightarrow> dual) \<and> (dual \<longrightarrow> k \<in> K \<and> \<not> latch k))"

definition seed_spec_count :: "bool \<Rightarrow> acquire_spec \<Rightarrow> counts \<Rightarrow> counts" where
  "seed_spec_count v2p sp c =
     (let c = seed_count v2p (org_pair sp) c in
      if as_HasUser sp then seed_count v2p (seq_pair sp) (seed_count v2p (user_pair sp) c) else c)"

definition dual_spend_count :: "bool \<Rightarrow> acquire_spec \<Rightarrow> counts \<Rightarrow> counts" where
  "dual_spend_count dual sp c = (let c = spend_count sp c in if dual then spend_count (second_shape sp) c else c)"

definition claim_count :: "dual_pair \<Rightarrow> counts \<Rightarrow> counts" where
  "claim_count idem = both idem (\<lambda>k c. c(k \<mapsto> 1))"

definition count_dual_acquire :: "counts \<Rightarrow> dual_pair \<Rightarrow> bool \<Rightarrow> bool \<Rightarrow> acquire_spec list \<Rightarrow> acquire_outcome \<times> counts" where
  "count_dual_acquire c idem has v2p specs =
     (let c = fold (seed_spec_count v2p) specs c in
      if has \<and> (c (dp_P idem) \<noteq> None \<or> dp_S idem \<noteq> [] \<and> c (dp_S idem) \<noteq> None)
      then (\<lparr>ao_Admitted = True, ao_Dup = True, ao_DeniedIndex = 0\<rparr>, c)
      else let i = first_exceeding (map_get (Fin 0) (flts c)) 0 specs in
        if i \<noteq> 0 then (\<lparr>ao_Admitted = False, ao_Dup = False, ao_DeniedIndex = i\<rparr>, c)
        else (\<lparr>ao_Admitted = True, ao_Dup = False, ao_DeniedIndex = 0\<rparr>,
              fold (dual_spend_count (dp_S idem \<noteq> [])) specs (if has then claim_count idem c else c)))"

lemma run_idem_dup:
  assumes L: "redis_laws K R kv" and p: "at_pair E i p" "pair_in K p"
  shows "runs kv (idem_dup R E i) (texts c) (c (dp_P p) \<noteq> None \<or> dp_S p \<noteq> [] \<and> c (dp_S p) \<noteq> None) (texts c)"
proof -
  have K: "dp_P p \<in> K" "dp_S p \<noteq> [] \<Longrightarrow> dp_S p \<in> K" and eq: "dkey E i f = f (dp_P p)" "de_DUAL E \<longleftrightarrow> dp_S p \<noteq> []"
    "dp_S p \<noteq> [] \<Longrightarrow> dkey E (de_NK E + i) f = f (dp_S p)" for f :: "string \<Rightarrow> ('a, bool) script"
    using p by (auto simp: pair_in_def at_pair_def dkey_def)
  have second: "runs kv (sbind (sv_GET R (dp_S p)) (\<lambda>v. sret (v \<noteq> None))) (texts c) (c (dp_S p) \<noteq> None) (texts c)" if "dp_S p \<noteq> []"
    using runs_bind [OF run_reads(1) [OF L K(2) [OF that], of "texts c"], of "\<lambda>v. sret (v \<noteq> None)"] by (simp add: texts_None(1))
  show ?thesis
    unfolding idem_dup_def eq(1)
    by (rule runs_bind [OF run_reads(1) [OF L K(1)]]) (use second in \<open>auto simp: texts_None(1) eq(2,3)\<close>)
qed

lemma run_claim_both:
  assumes L: "redis_laws K R kv" and p: "at_pair E i p" "pair_in K p" and t: "tab (de_ARGV E) 2 = Some (itoa s)" "0 < s"
    and none: "c (dp_P p) = None" "dp_S p \<noteq> [] \<Longrightarrow> c (dp_S p) = None"
  shows "runs kv (idem_claim_both R E i) (texts c) () (texts (claim_count p c))"
proof -
  have K: "dp_P p \<in> K" "dp_S p \<noteq> [] \<Longrightarrow> dp_S p \<in> K" and eq: "dkey E i f = f (dp_P p)" "de_DUAL E \<longleftrightarrow> dp_S p \<noteq> []"
    "dp_S p \<noteq> [] \<Longrightarrow> dkey E (de_NK E + i) f = f (dp_S p)" for f :: "string \<Rightarrow> ('a, bool) script"
    using p by (auto simp: pair_in_def at_pair_def dkey_def)
  have claim: "\<exists>r. runs kv (sv_SETNXEX R k ''1'' (itoa s)) (texts c') r (texts (c'(k \<mapsto> 1)))"
    if "k \<in> K" "c' k = None \<or> c' k = Some 1" for k c'
    using run_writes(3) [OF L that(1) t(2), of "''1''" "texts c'"] that(2)
    by (cases "c' k") (auto simp: texts_None texts_upd itoa_small fun_upd_idem)
  obtain r where r: "runs kv (sv_SETNXEX R (dp_P p) ''1'' (itoa s)) (texts c) r (texts (c(dp_P p \<mapsto> 1)))"
    using claim [OF K(1)] none(1) by blast
  show ?thesis
  proof (cases "dp_S p = []")
    case False
    then obtain r2 where "runs kv (sv_SETNXEX R (dp_S p) ''1'' (itoa s)) (texts (c(dp_P p \<mapsto> 1))) r2 (texts (c(dp_P p \<mapsto> 1, dp_S p \<mapsto> 1)))"
      using claim [OF K(2), of "c(dp_P p \<mapsto> 1)"] none(2) by (cases "dp_P p = dp_S p") auto
    with r False show ?thesis by (auto simp: idem_claim_both_def t(1) eq claim_count_def both_def intro!: runs_seq)
  qed (use r in \<open>auto simp: idem_claim_both_def t(1) eq claim_count_def both_def intro!: runs_seq\<close>)
qed

lemma run_incrintboth:
  assumes L: "redis_laws K R kv" and p: "at_pair E i p" "pair_in K p" and b: "small B c" "0 \<le> B" "B + 2 * 1 \<le> 2 ^ 53"
  shows "runs kv (incrintboth R E i) (texts c) () (texts (both p (\<lambda>k. add_count k 1) c))"
proof -
  have K: "dp_P p \<in> K" "dp_S p \<noteq> [] \<Longrightarrow> dp_S p \<in> K" and eq: "dkey E i f = f (dp_P p)" "de_DUAL E \<longleftrightarrow> dp_S p \<noteq> []"
    "dp_S p \<noteq> [] \<Longrightarrow> dkey E (de_NK E + i) f = f (dp_S p)" for f :: "string \<Rightarrow> ('a, int) script"
    using p by (auto simp: pair_in_def at_pair_def dkey_def)
  have bs: "B + \<bar>1\<bar> \<le> 2 ^ 53" "0 \<le> B + 1" "B + 1 + \<bar>1\<bar> \<le> 2 ^ 53" using b by simp_all
  have s: "small (B + 1) (add_count (dp_P p) 1 c)" by (rule small_add [OF b(1,2)]) simp
  note one = run_incrs(3) [OF L K(1) b(1,2) bs(1) refl]
  show ?thesis
  proof (cases "dp_S p = []")
    case False
    note two = run_incrs(3) [OF L K(2) s bs(2,3) refl, OF False]
    from one two False show ?thesis by (auto simp: incrintboth_def eq both_def intro!: runs_seq)
  qed (use one in \<open>auto simp: incrintboth_def eq both_def intro!: runs_seq\<close>)
qed

lemma second_fields [simp]:
  "as_OrgKey (second_shape sp) = as_OrgKey2 sp" "as_UserKey (second_shape sp) = as_UserKey2 sp"
  "as_SeqKey (second_shape sp) = as_SeqKey2 sp" "as_HasUser (second_shape sp) = as_HasUser sp"
  "whole_delta (second_shape sp) = whole_delta sp"
  by (simp_all add: second_shape_def whole_delta_def)

lemma both_spend:
  assumes "dual_spec K latch dual sp"
  shows "dual_spend_count dual sp c =
    (let c = both (org_pair sp) (\<lambda>k. add_count k (whole_delta sp)) c in
     if as_HasUser sp then both (user_pair sp) (\<lambda>k. add_count k (whole_delta sp)) (both (seq_pair sp) (\<lambda>k. add_count k 1) c) else c)"
proof -
  have "as_OrgKey2 sp \<noteq> [] \<longleftrightarrow> dual" "as_HasUser sp \<Longrightarrow> (as_UserKey2 sp \<noteq> [] \<longleftrightarrow> dual) \<and> (as_SeqKey2 sp \<noteq> [] \<longleftrightarrow> dual)"
    using assms by (auto simp: dual_spec_def secondary_keys_def)
  then show ?thesis
    by (cases dual; cases "as_HasUser sp")
       (auto simp: dual_spend_count_def spend_count_def both_def org_pair_def user_pair_def seq_pair_def Let_def
          add_count_commute [of "as_OrgKey2 sp"] add_count_commute [of "as_SeqKey2 sp" _ "as_UserKey sp"])
qed

text \<open>The environment of the dual acquire script, and the pairs at its positions.\<close>

definition acquire_env :: "'w redis \<Rightarrow> dual_pair \<Rightarrow> bool \<Rightarrow> duration \<Rightarrow> bool \<Rightarrow> acquire_spec list \<Rightarrow> dual_env" where
  "acquire_env R idem has ttl v2p specs = dual_lua (1 + length specs * 3) 4
     (dp_P idem # concat (map primary_keys specs) @ (if dp_S idem \<noteq> [] then dp_S idem # concat (map secondary_keys specs) else []))
     ([flag has, itoa (idem_seconds ttl), itoa (int (length specs))] @ dual_flags idem v2p @ concat (map (spec_args R) specs))"

lemma env_fields:
  "de_DUAL (acquire_env R idem has ttl v2p specs) \<longleftrightarrow> dp_S idem \<noteq> []" "de_V2P (acquire_env R idem has ttl v2p specs) = v2p"
  "de_NK (acquire_env R idem has ttl v2p specs) = 1 + length specs * 3"
  "tab (de_ARGV (acquire_env R idem has ttl v2p specs)) 2 = Some (itoa (idem_seconds ttl))"
  by (simp_all add: acquire_env_def dual_lua_def tab_def dual_flags_def numeral_eq_Suc)

lemma env_laid: "laid R 5 (de_KEYS (acquire_env R idem has ttl v2p specs)) (de_ARGV (acquire_env R idem has ttl v2p specs)) specs"
proof -
  have "laid R 5 (dp_P idem # concat (map primary_keys specs) @ post)
     (([flag has, itoa (idem_seconds ttl), itoa (int (length specs))] @ dual_flags idem v2p) @ concat (map (spec_args R) specs)) specs" for post
    by (rule laid_layout) (simp add: dual_flags_def)
  then show ?thesis by (simp add: acquire_env_def dual_lua_def)
qed

lemma env_second:
  assumes "dp_S idem \<noteq> []" and "1 \<le> i"
  shows "tab (de_KEYS (acquire_env R idem has ttl v2p specs)) (1 + length specs * 3 + i) = tab (dp_S idem # concat (map secondary_keys specs)) i"
proof -
  have "length (dp_P idem # concat (map primary_keys specs)) = 1 + length specs * 3"
    using length_blocks [of primary_keys 3 specs] by simp
  then show ?thesis
    using assms tab_append(2) [of "dp_P idem # concat (map primary_keys specs)" "1 + length specs * 3 + i"]
    by (simp add: acquire_env_def dual_lua_def)
qed

lemma env_idem: "at_pair (acquire_env R idem has ttl v2p specs) 1 idem"
proof -
  have "tab (de_KEYS (acquire_env R idem has ttl v2p specs)) 1 = Some (dp_P idem)" by (simp add: acquire_env_def dual_lua_def tab_def)
  moreover have "dp_S idem \<noteq> [] \<Longrightarrow> tab (de_KEYS (acquire_env R idem has ttl v2p specs)) (1 + length specs * 3 + 1) = Some (dp_S idem)"
    by (subst env_second) (simp_all add: tab_def)
  ultimately show ?thesis by (simp add: at_pair_def env_fields)
qed

lemma env_pairs:
  assumes "j < length specs" and "dual_spec K latch (dp_S idem \<noteq> []) (specs ! j)"
  shows "at_pair (acquire_env R idem has ttl v2p specs) (1 + j * 3 + 1) (org_pair (specs ! j))"
    "as_HasUser (specs ! j) \<Longrightarrow> at_pair (acquire_env R idem has ttl v2p specs) (1 + j * 3 + 2) (user_pair (specs ! j))"
    "as_HasUser (specs ! j) \<Longrightarrow> at_pair (acquire_env R idem has ttl v2p specs) (1 + j * 3 + 3) (seq_pair (specs ! j))"
proof -
  let ?E = "acquire_env R idem has ttl v2p specs"
  have gen: "at_pair ?E k \<lparr>dp_P = primary_keys (specs ! j) ! i, dp_S = secondary_keys (specs ! j) ! i\<rparr>"
    if i: "i < 3" and k: "k = 1 + j * 3 + Suc i" for i k
  proof -
    have "tab (concat (map secondary_keys specs)) (1 + j * 3 + i) = Some (secondary_keys (specs ! j) ! i)"
      by (rule tab_blocks) (use assms(1) i in simp_all)
    then have "tab (de_KEYS ?E) (1 + length specs * 3 + k) = Some (secondary_keys (specs ! j) ! i)" if "dp_S idem \<noteq> []"
      using k by (subst env_second [OF that]) (auto simp: tab_def split: if_splits)
    moreover have "tab (de_KEYS ?E) k = Some (primary_keys (specs ! j) ! i)"
      using env_laid [of R idem has ttl v2p specs] assms(1) i k by (simp add: laid_def)
    moreover have "secondary_keys (specs ! j) ! i \<in> set (secondary_keys (specs ! j))" using i by simp
    then have "secondary_keys (specs ! j) ! i \<noteq> [] \<longleftrightarrow> dp_S idem \<noteq> []" using assms(2) unfolding dual_spec_def by blast
    ultimately show ?thesis by (simp add: at_pair_def env_fields)
  qed
  show "at_pair ?E (1 + j * 3 + 1) (org_pair (specs ! j))"
    using gen [of 0 "1 + j * 3 + 1"] by (simp add: org_pair_def primary_keys_def secondary_keys_def split: if_splits)
  show "as_HasUser (specs ! j) \<Longrightarrow> at_pair ?E (1 + j * 3 + 2) (user_pair (specs ! j))"
    using gen [of 1 "1 + j * 3 + 2"] by (simp add: user_pair_def primary_keys_def secondary_keys_def)
  show "as_HasUser (specs ! j) \<Longrightarrow> at_pair ?E (1 + j * 3 + 3) (seq_pair (specs ! j))"
    using gen [of 2 "1 + j * 3 + 3"] by (simp add: seq_pair_def primary_keys_def secondary_keys_def numeral_2_eq_2)
qed

lemma spec_pairs_in:
  assumes "whole_spec K latch sp" and "dual_spec K latch dual sp"
  shows "pair_in K (org_pair sp)" "counter_pair latch (org_pair sp)"
    "as_HasUser sp \<Longrightarrow> pair_in K (user_pair sp) \<and> counter_pair latch (user_pair sp) \<and> pair_in K (seq_pair sp) \<and> counter_pair latch (seq_pair sp)"
  using assms by (auto simp: whole_spec_def dual_spec_def pair_in_def counter_pair_def org_pair_def user_pair_def seq_pair_def
      primary_keys_def secondary_keys_def)

lemma run_seed_gauge:
  assumes L: "redis_laws K R kv" and j: "j < length specs" and sp: "whole_spec K latch (specs ! j)" "dual_spec K latch (dp_S idem \<noteq> []) (specs ! j)"
  shows "runs kv (dual_seed_gauge R (acquire_env R idem has ttl v2p specs) (Suc j)) (texts c) None (texts (seed_spec_count v2p (specs ! j) c))"
proof -
  let ?E = "acquire_env R idem has ttl v2p specs" and ?sp = "specs ! j"
  note p = env_pairs [OF j sp(2), of R has ttl v2p] and q = spec_pairs_in [OF sp]
  have eq: "dual_seed_gauge R ?E (Suc j) = sseq (seedv2 R ?E (1 + j * 3 + 1))
      (if as_HasUser ?sp then sseq (seedv2 R ?E (1 + j * 3 + 2)) (sseq (seedv2 R ?E (1 + j * 3 + 3)) (sret None)) else sret None)"
    using laid_at(4) [OF env_laid [of R idem has ttl v2p specs] j] by (simp add: dual_seed_gauge_def Let_def)
  note o = run_seedv2 [OF L p(1) q(1), unfolded env_fields(2)]
  show ?thesis
  proof (cases "as_HasUser ?sp")
    case True
    note u = run_seedv2 [OF L p(2) [OF True], unfolded env_fields(2)] and s = run_seedv2 [OF L p(3) [OF True], unfolded env_fields(2)]
    have "pair_in K (user_pair ?sp)" "pair_in K (seq_pair ?sp)" using q(3) True by simp_all
    then show ?thesis
      unfolding eq seed_spec_count_def Let_def if_P [OF True] by (intro runs_seq [OF o runs_seq [OF u runs_seq [OF s runs_ret]]])
  next
    case False
    show ?thesis unfolding eq seed_spec_count_def Let_def if_not_P [OF False] by (rule runs_seq [OF o runs_ret])
  qed
qed

lemma small_seed_spec: "small B c \<Longrightarrow> small B (seed_spec_count v2p sp c)"
  by (simp add: seed_spec_count_def Let_def small_seed)

lemma small_seed_specs: "small B c \<Longrightarrow> small B (fold (seed_spec_count v2p) specs c)"
  by (induction specs arbitrary: c) (simp_all add: small_seed_spec)

lemma run_seeds:
  assumes L: "redis_laws K R kv" and sp: "\<forall>sp \<in> set specs. whole_spec K latch sp \<and> dual_spec K latch (dp_S idem \<noteq> []) sp"
  shows "runs kv (sfor [1..<Suc (length specs)] (dual_seed_gauge R (acquire_env R idem has ttl v2p specs))) (texts c) None
    (texts (fold (seed_spec_count v2p) specs c))"
proof -
  let ?V = "\<lambda>j. texts (fold (seed_spec_count v2p) (take j specs) c)"
  have "runs kv (sfor [Suc 0..<Suc (length specs)] (dual_seed_gauge R (acquire_env R idem has ttl v2p specs))) (?V 0) None (?V (length specs))"
  proof (rule runs_for)
    fix j assume j: "j < length specs"
    then have m: "specs ! j \<in> set specs" by simp
    show "runs kv (dual_seed_gauge R (acquire_env R idem has ttl v2p specs) (Suc j)) (?V j) None (?V (Suc j))"
      using run_seed_gauge [OF L j, of latch idem has ttl v2p] sp m j by (simp add: take_Suc_conv_app_nth)
  qed simp
  then show ?thesis by simp
qed

lemma run_dual_spend:
  assumes L: "redis_laws K R kv" and j: "j < length specs" and sp: "whole_spec K latch (specs ! j)" "dual_spec K latch (dp_S idem \<noteq> []) (specs ! j)"
    and b: "small B c" "0 \<le> B" "B + 2 * (2 * whole_delta (specs ! j) + 1) \<le> 2 ^ 53"
  shows "runs kv (dual_acq_spend R (acquire_env R idem has ttl v2p specs) (Suc j)) (texts c) None
      (texts (dual_spend_count (dp_S idem \<noteq> []) (specs ! j) c))"
    "small (B + 2 * (2 * whole_delta (specs ! j) + 1)) (dual_spend_count (dp_S idem \<noteq> []) (specs ! j) c)"
proof -
  let ?E = "acquire_env R idem has ttl v2p specs" and ?sp = "specs ! j" and ?d = "whole_delta (specs ! j)"
  let ?add = "\<lambda>p d. both p (\<lambda>k. add_count k d)"
  note p = env_pairs [OF j sp(2), of R has ttl v2p] and q = spec_pairs_in [OF sp]
  note at = laid_at [OF env_laid [of R idem has ttl v2p specs] j]
  have d: "0 \<le> ?d" "as_Delta ?sp = Fin (of_int ?d)" and e: "exact ?d" using sp(1) b by (auto simp: whole_spec_def exact_def)
  have bs: "B + 2 * \<bar>?d\<bar> \<le> 2 ^ 53" "0 \<le> B + 2 * \<bar>?d\<bar>" "B + 2 * \<bar>?d\<bar> + 2 * 1 \<le> 2 ^ 53" "0 \<le> B + 2 * \<bar>?d\<bar> + 2 * \<bar>1\<bar>"
    "B + 2 * \<bar>?d\<bar> + 2 * \<bar>1\<bar> + 2 * \<bar>?d\<bar> \<le> 2 ^ 53" using d(1) b by simp_all
  let ?c1 = "?add (org_pair ?sp) ?d c" and ?c2 = "?add (seq_pair ?sp) 1 (?add (org_pair ?sp) ?d c)"
  have s1: "small (B + 2 * \<bar>?d\<bar>) ?c1" by (rule small_both_add [OF b(1,2)])
  have s2: "small (B + 2 * \<bar>?d\<bar> + 2 * \<bar>1\<bar>) ?c2" by (rule small_both_add [OF s1 bs(2)])
  have s3: "small (B + 2 * \<bar>?d\<bar> + 2 * \<bar>1\<bar> + 2 * \<bar>?d\<bar>) (?add (user_pair ?sp) ?d ?c2)" by (rule small_both_add [OF s2 bs(4)])
  have eq: "dual_acq_spend R ?E (Suc j) = sseq (incrboth R ?E (1 + j * 3 + 1) (itoa ?d))
      (if as_HasUser ?sp then sseq (incrintboth R ?E (1 + j * 3 + 3)) (sseq (incrboth R ?E (1 + j * 3 + 2) (itoa ?d)) (sret None)) else sret None)"
    using at by (simp add: dual_acq_spend_def Let_def d(2) text_rules(1,3,4) [OF L e])
  note o = run_incrboth [OF L p(1) q(1) b(1,2) bs(1)]
  show "runs kv (dual_acq_spend R ?E (Suc j)) (texts c) None (texts (dual_spend_count (dp_S idem \<noteq> []) ?sp c))"
  proof (cases "as_HasUser ?sp")
    case True
    have "pair_in K (user_pair ?sp)" "pair_in K (seq_pair ?sp)" using q(3) True by simp_all
    note u = run_incrboth [OF L p(2) [OF True] this(1) s2 bs(4,5)] and s = run_incrintboth [OF L p(3) [OF True] this(2) s1 bs(2,3)]
    show ?thesis
      unfolding eq both_spend [OF sp(2)] Let_def if_P [OF True] by (rule runs_seq [OF o runs_seq [OF s runs_seq [OF u runs_ret]]])
  next
    case False
    show ?thesis unfolding eq both_spend [OF sp(2)] Let_def if_not_P [OF False] by (rule runs_seq [OF o runs_ret])
  qed
  show "small (B + 2 * (2 * ?d + 1)) (dual_spend_count (dp_S idem \<noteq> []) ?sp c)"
    unfolding both_spend [OF sp(2)] Let_def using small_mono [OF s1] small_mono [OF s3] d(1) by simp
qed

definition dual_fits :: "string set \<Rightarrow> (string \<Rightarrow> bool) \<Rightarrow> int \<Rightarrow> dual_pair \<Rightarrow> acquire_spec list \<Rightarrow> bool" where
  "dual_fits K latch B idem specs \<longleftrightarrow> fits K latch B specs \<and> B + 2 * weight specs \<le> 2 ^ 53
     \<and> (\<forall>sp \<in> set specs. dual_spec K latch (dp_S idem \<noteq> []) sp)
     \<and> pair_in K idem \<and> latch (dp_P idem) \<and> (dp_S idem \<noteq> [] \<longrightarrow> latch (dp_S idem))"

lemma run_dual_acquire_script:
  assumes L: "redis_laws K R kv" and f: "dual_fits K latch B idem specs" and b: "small B c"
  shows "\<exists>r. runs kv (dual_acquire_script R (de_KEYS (acquire_env R idem has ttl v2p specs)) (de_ARGV (acquire_env R idem has ttl v2p specs)))
      (texts c) r (texts (snd (count_dual_acquire c idem has v2p specs)))
    \<and> read_acquire_reply r = Inr (fst (count_dual_acquire c idem has v2p specs))"
proof -
  define E where "E = acquire_env R idem has ttl v2p specs"
  define c1 where "c1 = fold (seed_spec_count v2p) specs c"
  define n where "n = first_exceeding (map_get (Fin 0) (flts c1)) 0 specs"
  let ?dup = "c1 (dp_P idem) \<noteq> None \<or> dp_S idem \<noteq> [] \<and> c1 (dp_S idem) \<noteq> None"
  let ?c = "if has then claim_count idem c1 else c1" and ?dual = "dp_S idem \<noteq> []" and ?L = "[1..<Suc (length specs)]"
  have ff: "fits K latch B specs" and idem: "pair_in K idem" and B: "1 \<le> B" "0 \<le> B" "B + 2 * weight specs \<le> 2 ^ 53"
    and sp: "\<forall>sp \<in> set specs. whole_spec K latch sp" "\<forall>sp \<in> set specs. dual_spec K latch ?dual sp"
    using f by (auto simp: dual_fits_def fits_def)
  note fb = fits_bounds [OF ff]
  have n: "n < 10 ^ 14" using ff first_exceeding_le [of "map_get (Fin 0) (flts c1)" 0 specs] by (auto simp: fits_def n_def)
  have sm: "small B c1" unfolding c1_def by (rule small_seed_specs [OF b])
  have smc: "small B ?c" using sm B(1) by (auto simp: claim_count_def both_def intro!: small_upd)
  have la: "laid R 5 (de_KEYS E) (de_ARGV E) specs" and at: "at_pair E 1 idem" unfolding E_def by (rule env_laid env_idem)+
  have tabs: "tab (de_ARGV E) 1 = Some (flag has)" "tab (de_ARGV E) 3 = Some (itoa (int (length specs)))" "tab (de_ARGV E) 2 = Some (itoa (idem_seconds ttl))"
    by (simp_all add: E_def acquire_env_def dual_lua_def tab_def numeral_eq_Suc)
  have env: "dual_lua (1 + length ?L * 3) 4 (de_KEYS E) (de_ARGV E) = E"
    by (simp add: E_def acquire_env_def dual_lua_def del: upt_Suc)
  have seed: "runs kv (sfor ?L (dual_seed_gauge R E)) (texts c) None (texts c1)"
    unfolding E_def c1_def using sp by (intro run_seeds [OF L]) blast
  have dup: "runs kv (idem_dup R E 1) (texts c1) ?dup (texts c1)" by (rule run_idem_dup [OF L at idem])
  have check: "runs kv (sfor ?L (acq_check R 5 (de_KEYS E) (de_ARGV E))) (texts c1) (if n = 0 then None else Some (verdict R False n)) (texts c1)"
    using run_checks [OF L la sp(1) sm B(2) fb(2) le0] unfolding n_def Let_def drop_0 One_nat_def .
  have spend: "runs kv (sseq (sfor ?L (dual_acq_spend R E)) (sret (verdict R True 0))) (texts ?c)
      (verdict R True 0) (texts (fold (dual_spend_count ?dual) specs ?c))"
  proof (rule runs_seq [OF run_spends [OF L, where a = 2] runs_ret])
    fix j c' B' assume j: "j < length specs" and s: "small B' c'" "0 \<le> B'" "B' + 2 * (2 * whole_delta (specs ! j) + 1) \<le> 2 ^ 53"
    have "whole_spec K latch (specs ! j)" "dual_spec K latch ?dual (specs ! j)" using sp j by simp_all
    from run_dual_spend [OF L j this s] show "runs kv (dual_acq_spend R E (Suc j)) (texts c') None (texts (dual_spend_count ?dual (specs ! j) c'))
        \<and> small (B' + 2 * (2 * whole_delta (specs ! j) + 1)) (dual_spend_count ?dual (specs ! j) c')" unfolding E_def by blast
  qed (use fb(1) smc B in simp_all)
  have claim: "runs kv (if has then idem_claim_both R E 1 else sret ()) (texts c1) () (texts ?c)" if "has \<longrightarrow> \<not> ?dup"
    using run_claim_both [OF L at idem tabs(3) idem_seconds_pos, of c1] that by auto
  define rest where "rest = sbind (sfor ?L (acq_check R 5 (de_KEYS E) (de_ARGV E))) (\<lambda>r. case r of Some x \<Rightarrow> sret x
     | None \<Rightarrow> sseq (if has then idem_claim_both R E 1 else sret ()) (sseq (sfor ?L (dual_acq_spend R E)) (sret (verdict R True 0))))"
  have eq: "dual_acquire_script R (de_KEYS E) (de_ARGV E) = sseq (sfor ?L (dual_seed_gauge R E))
      (if has then sbind (idem_dup R E 1) (\<lambda>dup. if dup then sret dup_reply else rest) else rest)"
    unfolding dual_acquire_script_def tabs text_rules(3) [OF L fb(3)] upto_length Let_def env rest_def by (simp only: flag_1 option.inject)
  have r: "runs kv rest (texts c1) (if n = 0 then verdict R True 0 else verdict R False n)
      (texts (if n = 0 then fold (dual_spend_count ?dual) specs ?c else c1))" if nd: "has \<longrightarrow> \<not> ?dup"
    unfolding rest_def
  proof (rule runs_bind [OF check], cases "n = 0")
    case True
    show "runs kv (case if n = 0 then None else Some (verdict R False n) of Some x \<Rightarrow> sret x
     | None \<Rightarrow> sseq (if has then idem_claim_both R E 1 else sret ()) (sseq (sfor ?L (dual_acq_spend R E)) (sret (verdict R True 0))))
      (texts c1) (if n = 0 then verdict R True 0 else verdict R False n) (texts (if n = 0 then fold (dual_spend_count ?dual) specs ?c else c1))"
      unfolding if_P [OF True] option.case by (rule runs_seq [OF claim [OF nd] spend])
  qed simp
  show ?thesis
  proof (cases "has \<and> ?dup")
    case True
    have "runs kv (dual_acquire_script R (de_KEYS E) (de_ARGV E)) (texts c) dup_reply (texts c1)"
      unfolding eq by (rule runs_seq [OF seed]) (use True dup in \<open>auto intro!: runs_bind\<close>)
    moreover have "count_dual_acquire c idem has v2p specs = (\<lparr>ao_Admitted = True, ao_Dup = True, ao_DeniedIndex = 0\<rparr>, c1)"
      using True by (auto simp: count_dual_acquire_def c1_def Let_def)
    ultimately show ?thesis using read_verdicts(1) unfolding E_def by auto
  next
    case False
    have "runs kv (dual_acquire_script R (de_KEYS E) (de_ARGV E)) (texts c) (if n = 0 then verdict R True 0 else verdict R False n)
      (texts (if n = 0 then fold (dual_spend_count ?dual) specs ?c else c1))"
      unfolding eq
    proof (rule runs_seq [OF seed], cases has)
      case True
      show "runs kv (if has then sbind (idem_dup R E 1) (\<lambda>dup. if dup then sret dup_reply else rest) else rest) (texts c1)
        (if n = 0 then verdict R True 0 else verdict R False n) (texts (if n = 0 then fold (dual_spend_count ?dual) specs ?c else c1))"
        unfolding if_P [OF True] by (rule runs_bind [OF dup]) (use r False True in \<open>auto split: if_splits\<close>)
    qed (use r False in simp)
    moreover have "count_dual_acquire c idem has v2p specs = (if n = 0
        then (\<lparr>ao_Admitted = True, ao_Dup = False, ao_DeniedIndex = 0\<rparr>, fold (dual_spend_count ?dual) specs ?c)
        else (\<lparr>ao_Admitted = False, ao_Dup = False, ao_DeniedIndex = n\<rparr>, c1))"
      using False by (auto simp: count_dual_acquire_def n_def c1_def Let_def)
    ultimately show ?thesis using read_verdicts(3) [OF L n] unfolding E_def by (auto simp: read_verdicts(1,2))
  qed
qed

lemma mirrors_seed_spec:
  assumes "mirrors latch c s" and "whole_spec K latch sp" and "dual_spec K latch dual sp"
  shows "mirrors latch (seed_spec_count v2p sp c) (mem_seed_spec v2p sp s)"
  using spec_pairs_in [OF assms(2,3)] assms(1)
  by (auto simp: seed_spec_count_def mem_seed_spec_def Let_def intro!: mirrors_seed)

lemma mirrors_seed_specs:
  assumes "mirrors latch c s" and "\<forall>sp \<in> set specs. whole_spec K latch sp \<and> dual_spec K latch dual sp"
  shows "mirrors latch (fold (seed_spec_count v2p) specs c) (fold (mem_seed_spec v2p) specs s)"
  using assms by (induction specs arbitrary: c s) (auto intro!: mirrors_seed_spec)

lemma second_whole:
  "whole_spec K latch sp \<Longrightarrow> dual_spec K latch True sp \<Longrightarrow> whole_spec K latch (second_shape sp)"
  by (auto simp: whole_spec_def dual_spec_def primary_keys_def secondary_keys_def second_shape_def whole_delta_def)

lemma mirrors_dual_spends:
  assumes "mirrors latch c s" and "\<forall>sp \<in> set specs. whole_spec K latch sp \<and> dual_spec K latch dual sp"
    and "small B c" and "0 \<le> B" and "B + 2 * weight specs \<le> 2 ^ 53"
  shows "mirrors latch (fold (dual_spend_count dual) specs c)
      (fold (\<lambda>sp s. let s = mem_spend_spec sp s in if dual then mem_spend_spec (second_shape sp) s else s) specs s)
    \<and> small (B + 2 * weight specs) (fold (dual_spend_count dual) specs c)"
  using assms
proof (induction specs arbitrary: B c s)
  case (Cons sp specs)
  let ?w = "2 * whole_delta sp + 1"
  have sp: "whole_spec K latch sp" "dual_spec K latch dual sp" and d: "0 \<le> whole_delta sp" "\<forall>sp \<in> set specs. 0 \<le> whole_delta sp"
    using Cons.prems(2) by (auto simp: whole_spec_def)
  have b: "B + ?w \<le> 2 ^ 53" "0 \<le> B + ?w" "B + ?w + ?w \<le> 2 ^ 53" "0 \<le> B + 2 * ?w" "B + 2 * ?w + 2 * weight specs \<le> 2 ^ 53"
    using Cons.prems(4,5) weight_nonneg [OF d(2)] d(1) by simp_all
  have one: "mirrors latch (spend_count sp c) (mem_spend_spec sp s)" "small (B + ?w) (spend_count sp c)"
    by (rule mirrors_spend [OF Cons.prems(1) sp(1) Cons.prems(3,4) b(1)], rule small_spend [OF Cons.prems(3,4) d(1)])
  have two: "mirrors latch (dual_spend_count dual sp c)
      (let s = mem_spend_spec sp s in if dual then mem_spend_spec (second_shape sp) s else s)"
    using one mirrors_spend [OF one(1) second_whole [OF sp(1)] one(2) b(2), simplified] b(3) sp(2)
    by (auto simp: dual_spend_count_def Let_def)
  have "small (B + ?w + ?w) (dual_spend_count dual sp c)"
    using small_spend [OF one(2) b(2), of "second_shape sp"] d(1) small_mono [OF one(2), of "B + ?w + ?w"]
    by (auto simp: dual_spend_count_def Let_def)
  then have sm: "small (B + 2 * ?w) (dual_spend_count dual sp c)" by (simp add: algebra_simps)
  from Cons.IH [OF two _ sm b(4,5)] Cons.prems(2) show ?case by (simp add: algebra_simps)
qed simp

lemma mirrors_claim_both:
  assumes "mirrors latch c s" and "latch (dp_P idem)" and "dp_S idem \<noteq> [] \<longrightarrow> latch (dp_S idem)"
  shows "mirrors latch (claim_count idem c)
    (let s = mem_claim (dp_P idem) ttl s in if dp_S idem \<noteq> [] then mem_claim (dp_S idem) ttl s else s)"
  using mirrors_claim [OF assms(1,2)] mirrors_claim [OF mirrors_claim [OF assms(1,2)]] assms(3)
  by (auto simp: claim_count_def both_def Let_def)

lemma dual_acquire_agrees:
  assumes L: "redis_laws K R kv" and S: "same latch kv B c s w" and f: "dual_fits K latch B idem specs"
  shows "agree latch kv (B + 2 * weight specs) (mem_dual_atomic_acquire s idem has ttl v2p specs) (red_dual_atomic_acquire R w idem has ttl v2p specs)"
proof -
  have m: "mirrors latch c s" "kv w = texts c" "small B c" "0 \<le> B" using S by (simp_all add: same_def)
  let ?E = "acquire_env R idem has ttl v2p specs"
  let ?out = "fst (count_dual_acquire c idem has v2p specs)" and ?c' = "snd (count_dual_acquire c idem has v2p specs)"
  have ff: "fits K latch B specs" and lt: "latch (dp_P idem)" "dp_S idem \<noteq> [] \<longrightarrow> latch (dp_S idem)" and B: "1 \<le> B" "B + 2 * weight specs \<le> 2 ^ 53"
    and v: "validate_specs 0 specs = None" and sp: "\<forall>sp \<in> set specs. whole_spec K latch sp \<and> dual_spec K latch (dp_S idem \<noteq> []) sp"
    using f by (auto simp: dual_fits_def fits_def)
  then have sp1: "\<forall>sp \<in> set specs. whole_spec K latch sp" by blast
  note fb = fits_bounds [OF ff]
  obtain r where r: "runs kv (dual_acquire_script R (de_KEYS ?E) (de_ARGV ?E)) (texts c) r (texts ?c')" "read_acquire_reply r = Inr ?out"
    using run_dual_acquire_script [OF L f m(3)] by blast
  have "red_dual_atomic_acquire R w idem has ttl v2p specs = run_acquire R (dual_acquire_script R (de_KEYS ?E) (de_ARGV ?E)) w"
    by (simp add: red_dual_atomic_acquire_def v acquire_env_def dual_lua_def)
  then obtain w' where w': "red_dual_atomic_acquire R w idem has ttl v2p specs = (Inr ?out, w')" "kv w' = texts ?c'"
    using runs_app [of kv _ w r "texts ?c'"] r m(2) by (fastforce simp: run_acquire_def text_rules(8) [OF L] sbind_def)
  let ?c1 = "fold (seed_spec_count v2p) specs c" and ?s1 = "fold (mem_seed_spec v2p) specs s"
  have m1: "mirrors latch ?c1 ?s1" by (rule mirrors_seed_specs [OF m(1) sp])
  have sm: "small B ?c1" by (rule small_seed_specs [OF m(3)])
  have cl: "ms_strings ?s1 (dp_P idem) \<noteq> None \<longleftrightarrow> ?c1 (dp_P idem) \<noteq> None"
    "dp_S idem \<noteq> [] \<Longrightarrow> ms_strings ?s1 (dp_S idem) \<noteq> None \<longleftrightarrow> ?c1 (dp_S idem) \<noteq> None"
    using m1 lt by (simp_all add: mirrors_def)
  let ?t = "if ttl \<le> 0 then 86400 * second else ttl"
  let ?s = "if has then (let s = mem_claim (dp_P idem) ?t ?s1 in if dp_S idem \<noteq> [] then mem_claim (dp_S idem) ?t s else s) else ?s1"
  let ?c = "if has then claim_count idem ?c1 else ?c1"
  let ?f = "fold (\<lambda>sp s. let s = mem_spend_spec sp s in if dp_S idem \<noteq> [] then mem_spend_spec (second_shape sp) s else s) specs"
  have "mirrors latch ?c ?s" using mirrors_claim_both [OF m1 lt, of ?t] m1 by simp
  moreover have "small B ?c" using sm B(1) by (auto simp: claim_count_def both_def intro!: small_upd)
  ultimately have sd: "mirrors latch (fold (dual_spend_count (dp_S idem \<noteq> [])) specs ?c) (?f ?s)"
      "small (B + 2 * weight specs) (fold (dual_spend_count (dp_S idem \<noteq> [])) specs ?c)"
    using mirrors_dual_spends [OF _ sp _ m(4) B(2)] by blast+
  have sc: "small (B + 2 * weight specs) ?c'"
    using sd(2) small_mono [OF sm] weight_nonneg [OF fb(1)] by (auto simp: count_dual_acquire_def Let_def)
  have mem: "mem_dual_atomic_acquire s idem has ttl v2p specs =
      (if has \<and> (?c1 (dp_P idem) \<noteq> None \<or> dp_S idem \<noteq> [] \<and> ?c1 (dp_S idem) \<noteq> None)
       then (Inr \<lparr>ao_Admitted = True, ao_Dup = True, ao_DeniedIndex = 0\<rparr>, ?s1)
       else let i = first_exceeding (map_get (Fin 0) (flts ?c1)) 0 specs in
         if i \<noteq> 0 then (Inr \<lparr>ao_Admitted = False, ao_Dup = False, ao_DeniedIndex = i\<rparr>, ?s1)
         else (Inr \<lparr>ao_Admitted = True, ao_Dup = False, ao_DeniedIndex = 0\<rparr>, ?f ?s))"
    using cl by (auto simp: mem_dual_atomic_acquire_def v mirrors_sweep [OF m(1)] mirrors_check [OF m1 sp1] Let_def)
  define s2 where "s2 = ?f ?s"
  define c2 where "c2 = fold (dual_spend_count (dp_S idem \<noteq> [])) specs ?c"
  have cnt: "count_dual_acquire c idem has v2p specs =
      (if has \<and> (?c1 (dp_P idem) \<noteq> None \<or> dp_S idem \<noteq> [] \<and> ?c1 (dp_S idem) \<noteq> None)
       then (\<lparr>ao_Admitted = True, ao_Dup = True, ao_DeniedIndex = 0\<rparr>, ?c1)
       else let i = first_exceeding (map_get (Fin 0) (flts ?c1)) 0 specs in
         if i \<noteq> 0 then (\<lparr>ao_Admitted = False, ao_Dup = False, ao_DeniedIndex = i\<rparr>, ?c1)
         else (\<lparr>ao_Admitted = True, ao_Dup = False, ao_DeniedIndex = 0\<rparr>, c2))"
    unfolding count_dual_acquire_def Let_def c2_def by (rule refl)
  have "fst (mem_dual_atomic_acquire s idem has ttl v2p specs) = Inr ?out \<and> mirrors latch ?c' (snd (mem_dual_atomic_acquire s idem has ttl v2p specs))"
    unfolding mem [folded s2_def] cnt using m1 sd(1) [folded s2_def c2_def] by (auto simp: Let_def)
  then show ?thesis using w' sc m(4) weight_nonneg [OF fb(1)] by (auto simp: agree_def same_def)
qed

section \<open>Any sequence of calls\<close>

text \<open>The calls a client can make through the interface \<open>FloatStore\<close> and its two optional extensions.\<close>

datatype store_op =
    OIncr string int
  | ODecr string int
  | OGet string
  | OSet string int duration
  | OClaim string duration
  | OAcquire string bool duration "acquire_spec list"
  | ODualSpend dual_pair int bool
  | ODualSpendUser dual_pair dual_pair dual_pair int bool
  | ODualDecr dual_pair int bool
  | ODualAcc dual_pair int duration bool
  | ODualAcquire dual_pair bool duration bool "acquire_spec list"

datatype op_reply =
    Number "goerr + f64"
  | Reading "goerr + f64 \<times> bool"
  | Done "goerr option"
  | Won "goerr + bool"
  | Numbers "goerr + f64 \<times> f64"
  | Outcome "goerr + acquire_outcome"
  | Unsupported

fun run_op :: "'s float_store \<Rightarrow> store_op \<Rightarrow> 's \<Rightarrow> op_reply \<times> 's" where
  "run_op F (OIncr k d) s = map_prod Number id (fs_IncrByFloat F s k (Fin (of_int d)))"
| "run_op F (ODecr k d) s = map_prod Number id (fs_DecrByFloorZero F s k (Fin (of_int d)))"
| "run_op F (OGet k) s = map_prod Reading id (fs_GetFloat F s k)"
| "run_op F (OSet k n ttl) s = map_prod Done id (fs_Set F s k (Fin (of_int n)) ttl)"
| "run_op F (OClaim k ttl) s = map_prod Won id (fs_SetIfAbsent F s k ''1'' ttl)"
| "run_op F (OAcquire idem has ttl specs) s =
     (case fs_acquirer F of None \<Rightarrow> (Unsupported, s) | Some acq \<Rightarrow> map_prod Outcome id (acq s idem has ttl specs))"
| "run_op F (ODualSpend p d v2p) s =
     (case fs_dual F of None \<Rightarrow> (Unsupported, s) | Some D \<Rightarrow> map_prod Number id (do_SpendOrg D s p (Fin (of_int d)) v2p))"
| "run_op F (ODualSpendUser org user seq d v2p) s =
     (case fs_dual F of None \<Rightarrow> (Unsupported, s) | Some D \<Rightarrow> map_prod Numbers id (do_SpendUser D s org user seq (Fin (of_int d)) v2p))"
| "run_op F (ODualDecr p d v2p) s =
     (case fs_dual F of None \<Rightarrow> (Unsupported, s) | Some D \<Rightarrow> map_prod Number id (do_DecrFloor D s p (Fin (of_int d)) v2p))"
| "run_op F (ODualAcc p d ttl v2p) s =
     (case fs_dual F of None \<Rightarrow> (Unsupported, s) | Some D \<Rightarrow> map_prod Number id (do_AccAdd D s p (Fin (of_int d)) ttl v2p))"
| "run_op F (ODualAcquire idem has ttl v2p specs) s =
     (case fs_dual F of None \<Rightarrow> (Unsupported, s) | Some D \<Rightarrow> map_prod Outcome id (do_AtomicAcquire D s idem has ttl v2p specs))"

fun run_ops :: "'s float_store \<Rightarrow> store_op list \<Rightarrow> 's \<Rightarrow> op_reply list \<times> 's" where
  "run_ops F [] s = ([], s)"
| "run_ops F (op # ops) s = (case run_op F op s of (r, s) \<Rightarrow> case run_ops F ops s of (rs, s) \<Rightarrow> (r # rs, s))"

text \<open>How much a call can add to a count.\<close>

fun op_cost :: "store_op \<Rightarrow> int" where
  "op_cost (OIncr k d) = \<bar>d\<bar>"
| "op_cost (ODecr k d) = \<bar>d\<bar>"
| "op_cost (OGet k) = 0"
| "op_cost (OSet k n ttl) = \<bar>n\<bar>"
| "op_cost (OClaim k ttl) = 0"
| "op_cost (OAcquire idem has ttl specs) = weight specs"
| "op_cost (ODualSpend p d v2p) = 2 * \<bar>d\<bar>"
| "op_cost (ODualSpendUser org user seq d v2p) = 4 * \<bar>d\<bar>"
| "op_cost (ODualDecr p d v2p) = \<bar>d\<bar>"
| "op_cost (ODualAcc p d ttl v2p) = 2 * \<bar>d\<bar>"
| "op_cost (ODualAcquire idem has ttl v2p specs) = 2 * weight specs"

text \<open>
  The calls the code makes: counter keys and claim keys do not mix, decrements and TTLs are not
  negative, the two shapes of a counter have different keys, requests are valid.
\<close>

definition pair_ok :: "string set \<Rightarrow> (string \<Rightarrow> bool) \<Rightarrow> dual_pair \<Rightarrow> bool" where
  "pair_ok K latch p \<longleftrightarrow> pair_in K p \<and> counter_pair latch p \<and> dp_P p \<noteq> dp_S p"

definition specs_ok :: "string set \<Rightarrow> (string \<Rightarrow> bool) \<Rightarrow> acquire_spec list \<Rightarrow> bool" where
  "specs_ok K latch specs \<longleftrightarrow> validate_specs 0 specs = None \<and> (\<forall>sp \<in> set specs. whole_spec K latch sp) \<and> length specs < 10 ^ 14"

fun op_ok :: "string set \<Rightarrow> (string \<Rightarrow> bool) \<Rightarrow> store_op \<Rightarrow> bool" where
  "op_ok K latch (OIncr k d) \<longleftrightarrow> k \<in> K \<and> \<not> latch k"
| "op_ok K latch (ODecr k d) \<longleftrightarrow> k \<in> K \<and> \<not> latch k \<and> 0 \<le> d"
| "op_ok K latch (OGet k) \<longleftrightarrow> k \<in> K \<and> \<not> latch k"
| "op_ok K latch (OSet k n ttl) \<longleftrightarrow> k \<in> K \<and> \<not> latch k \<and> 0 \<le> ttl"
| "op_ok K latch (OClaim k ttl) \<longleftrightarrow> k \<in> K \<and> latch k \<and> 0 \<le> ttl"
| "op_ok K latch (OAcquire idem has ttl specs) \<longleftrightarrow> idem \<in> K \<and> latch idem \<and> specs_ok K latch specs"
| "op_ok K latch (ODualSpend p d v2p) \<longleftrightarrow> pair_ok K latch p"
| "op_ok K latch (ODualSpendUser org user seq d v2p) \<longleftrightarrow>
     (\<forall>p \<in> {org, user, seq}. pair_ok K latch p \<and> (dp_S p \<noteq> [] \<longleftrightarrow> dp_S org \<noteq> [])) \<and> distinct (user_keys org user)"
| "op_ok K latch (ODualDecr p d v2p) \<longleftrightarrow> pair_ok K latch p \<and> 0 \<le> d"
| "op_ok K latch (ODualAcc p d ttl v2p) \<longleftrightarrow> pair_ok K latch p \<and> exact (to_go_int (dur_seconds ttl))"
| "op_ok K latch (ODualAcquire idem has ttl v2p specs) \<longleftrightarrow> specs_ok K latch specs
     \<and> (\<forall>sp \<in> set specs. dual_spec K latch (dp_S idem \<noteq> []) sp)
     \<and> pair_in K idem \<and> latch (dp_P idem) \<and> (dp_S idem \<noteq> [] \<longrightarrow> latch (dp_S idem))"

lemma op_cost_nonneg: "op_ok K latch op \<Longrightarrow> 0 \<le> op_cost op"
  by (cases op) (auto simp: specs_ok_def whole_spec_def intro!: weight_nonneg)

lemma same_mono: "same latch kv B c s w \<Longrightarrow> B \<le> B' \<Longrightarrow> same latch kv B' c s w"
  using small_mono by (auto simp: same_def)

lemma agree_mono: "agree latch kv B a b \<Longrightarrow> B \<le> B' \<Longrightarrow> agree latch kv B' a b"
  unfolding agree_def by (metis same_mono)

lemma agree_map: "agree latch kv B a b \<Longrightarrow> agree latch kv B (map_prod f id a) (map_prod f id b)"
  by (cases a; cases b) (auto simp: agree_def)

lemma op_agrees:
  assumes L: "redis_laws K R kv" and S: "same latch kv B c s w" and ok: "op_ok K latch op" and b: "1 \<le> B" "B + op_cost op \<le> 2 ^ 53"
  shows "agree latch kv (B + op_cost op) (run_op mem_float_store op s) (run_op (red_float_store R) op w)"
proof -
  note store = mem_float_store_def red_float_store_def mem_dual_ops_def red_dual_ops_def
  show ?thesis
  proof (cases op)
    case (OIncr k d)
    with incr_agrees [OF L S] ok b show ?thesis by (auto simp: store intro!: agree_map)
  next
    case (ODecr k d)
    with ok b show ?thesis by (auto simp: store intro!: agree_map agree_mono [OF decr_agrees [OF L S]])
  next
    case (OGet k)
    with get_agrees [OF L S] ok b show ?thesis by (auto simp: store intro!: agree_map)
  next
    case (OSet k n ttl)
    with set_agrees [OF L same_mono [OF S]] ok b show ?thesis by (auto simp: store intro!: agree_map)
  next
    case (OClaim k ttl)
    with claim_agrees [OF L S] ok b show ?thesis by (auto simp: store intro!: agree_map)
  next
    case (OAcquire idem has ttl specs)
    with acquire_agrees [OF L S] ok b show ?thesis by (auto simp: store fits_def specs_ok_def intro!: agree_map)
  next
    case (ODualSpend p d v2p)
    with dual_spend_org_agrees [OF L S] ok b show ?thesis by (auto simp: store pair_ok_def intro!: agree_map)
  next
    case (ODualSpendUser org user seq d v2p)
    with dual_spend_user_agrees [OF L S] ok b show ?thesis by (auto simp: store pair_ok_def intro!: agree_map)
  next
    case (ODualDecr p d v2p)
    with ok b show ?thesis by (auto simp: store pair_ok_def intro!: agree_map agree_mono [OF dual_decr_agrees [OF L S]])
  next
    case (ODualAcc p d ttl v2p)
    with dual_acc_add_agrees [OF L S] ok b show ?thesis by (auto simp: store pair_ok_def intro!: agree_map)
  next
    case (ODualAcquire idem has ttl v2p specs)
    then have "0 \<le> weight specs" using op_cost_nonneg [OF ok] by simp
    then have "dual_fits K latch B idem specs" using ODualAcquire ok b by (auto simp: dual_fits_def fits_def specs_ok_def)
    from dual_acquire_agrees [OF L S this] ODualAcquire show ?thesis by (auto simp: store intro!: agree_map)
  qed
qed

lemma ops_agree:
  assumes L: "redis_laws K R kv"
  shows "same latch kv B c s w \<Longrightarrow> \<forall>op \<in> set ops. op_ok K latch op \<Longrightarrow> 1 \<le> B \<Longrightarrow> B + sum_list (map op_cost ops) \<le> 2 ^ 53 \<Longrightarrow>
    agree latch kv (B + sum_list (map op_cost ops)) (run_ops mem_float_store ops s) (run_ops (red_float_store R) ops w)"
proof (induction ops arbitrary: B c s w)
  case Nil
  then show ?case by (auto simp: agree_def)
next
  case (Cons op ops)
  have nn: "0 \<le> op_cost op" "0 \<le> sum_list (map op_cost ops)"
    using Cons.prems(2) by (auto intro!: sum_list_nonneg op_cost_nonneg [of K latch])
  have ok: "op_ok K latch op" "B + op_cost op \<le> 2 ^ 53" using Cons.prems(2,4) nn by simp_all
  obtain r s1 w1 c1 where step: "run_op mem_float_store op s = (r, s1)" "run_op (red_float_store R) op w = (r, w1)"
    "same latch kv (B + op_cost op) c1 s1 w1"
    using op_agrees [OF L Cons.prems(1) ok(1) Cons.prems(3) ok(2)] by (cases "run_op mem_float_store op s"; cases "run_op (red_float_store R) op w") (auto simp: agree_def)
  have "agree latch kv (B + op_cost op + sum_list (map op_cost ops)) (run_ops mem_float_store ops s1) (run_ops (red_float_store R) ops w1)"
    using Cons.prems nn by (intro Cons.IH [OF step(3)]) simp_all
  then show ?case
    using step by (cases "run_ops mem_float_store ops s1"; cases "run_ops (red_float_store R) ops w1") (auto simp: agree_def add.assoc)
qed

section \<open>The Redis store is the in-memory store\<close>

text \<open>
  C14. The two implementations of \<open>FloatStore\<close>, \<open>GaugeAcquirer\<close> and \<open>DualOps\<close> are interchangeable. Against
  a server that obeys its documented commands, any sequence of calls (increments, floored
  decrements, reads, writes, claims, atomic acquires, and the same in both key shapes; deletions and
  changes of an expiry are not among them) gets the same
  replies from the Redis store, whose scripts read the keys and arguments laid out by the Go code, as
  from the in-memory store, and leaves the same counts, as long as counts are whole numbers that
  stay exact in a \<open>float64\<close> and no key expires in between.
\<close>

theorem redis_equals_memory:
  assumes "redis_laws K R kv" and "\<forall>op \<in> set ops. op_ok K latch op"
    and "mirrors latch c s" and "kv w = texts c" and "small B c" and "1 \<le> B" and "B + sum_list (map op_cost ops) \<le> 2 ^ 53"
  shows "fst (run_ops (red_float_store R) ops w) = fst (run_ops mem_float_store ops s)
    \<and> (\<exists>c'. mirrors latch c' (snd (run_ops mem_float_store ops s)) \<and> kv (snd (run_ops (red_float_store R) ops w)) = texts c')"
proof -
  have "same latch kv B c s w" using assms(3-6) by (simp add: same_def)
  from ops_agree [OF assms(1) this assms(2,6,7)] show ?thesis by (auto simp: agree_def same_def)
qed

text \<open>A server as a map from keys to strings that obeys the laws.\<close>

definition int_text :: "string \<Rightarrow> int" where
  "int_text t = (case t of [] \<Rightarrow> 0 | c # cs \<Rightarrow> if c = CHR ''-'' then - int (digits_value cs) else int (digits_value t))"

definition num_text :: "string \<Rightarrow> f64" where
  "num_text t = (case dropWhile (\<lambda>c. c \<noteq> CHR ''/'') t of
       [] \<Rightarrow> Fin (of_int (int_text t))
     | _ # ds \<Rightarrow> Fin (of_int (int_text (takeWhile (\<lambda>c. c \<noteq> CHR ''/'') t)) / of_int (int_text ds)))"

definition text_num :: "f64 \<Rightarrow> string" where
  "text_num f = (case f of Fin q \<Rightarrow> (case quotient_of q of (p, d) \<Rightarrow> if d = 1 then itoa p else itoa p @ CHR ''/'' # itoa d) | _ \<Rightarrow> ''NaN'')"

definition map_add :: "string \<Rightarrow> int \<Rightarrow> strings \<Rightarrow> int \<times> strings" where
  "map_add k d w = (let n = (case w k of None \<Rightarrow> 0 | Some t \<Rightarrow> int_text t) + d in (n, w(k \<mapsto> itoa n)))"

definition map_nx :: "string \<Rightarrow> string \<Rightarrow> (strings, bool) script" where
  "map_nx k x w = (Inr (w k = None), if w k = None then w(k \<mapsto> x) else w)"

definition map_redis :: "strings redis" where
  "map_redis =
     \<lparr>sv_GET = \<lambda>k w. (Inr (w k), w), sv_EXISTS = \<lambda>k w. (Inr (if w k = None then 0 else 1), w),
      sv_SET = \<lambda>k x w. (Inr (), w(k \<mapsto> x)), sv_SETNXEX = \<lambda>k x t. map_nx k x,
      sv_INCRBYFLOAT = \<lambda>k t w. (case map_add k (int_text t) w of (n, w) \<Rightarrow> (Inr (itoa n), w)),
      sv_INCR = \<lambda>k w. (case map_add k 1 w of (n, w) \<Rightarrow> (Inr n, w)), sv_EXPIRE = \<lambda>k t w. (Inr 1, w),
      cl_Get = \<lambda>k w. (Inr (w k), w), cl_Set = \<lambda>k x ttl w. (Inr (), w(k \<mapsto> x)), cl_SetNX = \<lambda>k x ttl. map_nx k x,
      cl_IncrByFloat = \<lambda>k f w. (case map_add k (case f of Fin q \<Rightarrow> \<lfloor>q\<rfloor> | _ \<Rightarrow> 0) w of (n, w) \<Rightarrow> (Inr (Fin (of_int n)), w)),
      cl_Del = \<lambda>ks w. (Inr (), w |` (- set ks)), cl_Expire = \<lambda>k ttl w. (Inr (), w), cl_Persist = \<lambda>k w. (Inr (), w),
      cl_ZAdd = \<lambda>k f m w. (Inr (), w), cl_ZRemRangeByScore = \<lambda>k a b w. (Inr (), w), cl_ZCard = \<lambda>k w. (Inr 0, w),
      cl_Tx = id, cl_Run = id, tx_Format = text_num, tx_Parse = \<lambda>t. Inr (num_text t), lu_tonumber = \<lambda>t. Some (num_text t),
      lu_numarg = text_num, lu_tostring = \<lambda>i. itoa (int i)\<rparr>"

lemma int_text_itoa: "int_text (itoa n) = n" "d \<le> 0 \<Longrightarrow> int_text (CHR ''-'' # itoa (- d)) = d"
proof -
  show "int_text (itoa n) = n"
  proof (cases "n < 0")
    case False
    obtain c cs where c: "nat_text (nat n) = c # cs" "is_digit c" using nat_text_first by blast
    with nat_text_value [of "nat n"] sign_not_digit [OF c(2)] False show ?thesis by (simp add: itoa_def int_text_def)
  qed (simp add: itoa_def int_text_def nat_text_value)
qed (simp add: int_text_def itoa_def nat_text_value)

lemma no_slash: "CHR ''/'' \<notin> set (itoa n)"
proof -
  have "CHR ''/'' \<notin> set (nat_text m)" for m
    using nat_text_digits [of m] by (auto simp: list_all_iff is_digit_def)
  then show ?thesis by (simp add: itoa_def)
qed

lemma num_text_num: "num_text (text_num (Fin q)) = Fin q" "text_num (Fin q) \<noteq> []"
  "text_num (Fin (of_int n)) = itoa n" "num_text (itoa n) = Fin (of_int n)"
proof -
  show int: "num_text (itoa n) = Fin (of_int n)" for n
  proof -
    have "dropWhile (\<lambda>c. c \<noteq> CHR ''/'') (itoa n) = []" using no_slash [of n] by (auto simp: dropWhile_eq_Nil_conv)
    then show ?thesis unfolding num_text_def int_text_itoa by (simp only: list.case)
  qed
  obtain p d where q: "quotient_of q = (p, d)" by fastforce
  have "dropWhile (\<lambda>c. c \<noteq> CHR ''/'') (itoa p @ CHR ''/'' # itoa d) = CHR ''/'' # itoa d"
    "takeWhile (\<lambda>c. c \<noteq> CHR ''/'') (itoa p @ CHR ''/'' # itoa d) = itoa p"
    using no_slash [of p] by (subst dropWhile_append2 takeWhile_append2; auto)+
  then have "num_text (itoa p @ CHR ''/'' # itoa d) = Fin (of_int p / of_int d)"
    unfolding num_text_def by (simp only: list.case int_text_itoa)
  then have "num_text (text_num (Fin q)) = Fin (of_int p / of_int d)" using int by (simp add: text_num_def q)
  then show "num_text (text_num (Fin q)) = Fin q" unfolding quotient_of_div [OF q, symmetric] .
  show "text_num (Fin q) \<noteq> []" by (simp add: text_num_def q)
  show "text_num (Fin (of_int n)) = itoa n" using quotient_of_int [of n] by (simp add: text_num_def)
qed

lemma map_add_counts: "counts_as v k n \<Longrightarrow> map_add k d v = (n + d, v(k \<mapsto> itoa (n + d)))"
  by (auto simp: counts_as_def map_add_def int_text_itoa Let_def)

lemma map_redis_laws: "redis_laws UNIV map_redis (\<lambda>w. w)"
proof -
  have "spells t d \<Longrightarrow> int_text t = d" for t d using int_text_itoa by (auto simp: spells_def)
  then have "command_laws UNIV map_redis (\<lambda>w. w)"
    by (auto simp: command_laws_def map_redis_def runs_def map_nx_def map_add_counts)
  moreover have "text_laws map_redis" by (simp add: text_laws_def map_redis_def num_text_num)
  ultimately show ?thesis by (simp add: redis_laws_def)
qed

definition two_seats :: acquire_spec where
  "two_seats = \<lparr>as_OrgKey = ''g'', as_UserKey = ''u'', as_SeqKey = ''q'', as_HasUser = True, as_Delta = Fin 2, as_OrgLimit = Some (Fin 5),
     as_UserLimit = None, as_OrgKey2 = [], as_UserKey2 = [], as_SeqKey2 = []\<rparr>"

theorem redis_equals_memory_witness:
  "let ops = [OIncr ''g'' 3, OAcquire ''i'' True second [two_seats], OAcquire ''i'' True second [two_seats], ODualAcquire (single ''j'') True 0 False [two_seats],
              ODualSpend \<lparr>dp_P = ''g'', dp_S = ''g2''\<rparr> 1 False, ODecr ''g'' 9, OGet ''g'']
   in fst (run_ops (red_float_store map_redis) ops Map.empty) = fst (run_ops mem_float_store ops (mem_empty 0))"
proof -
  let ?ops = "[OIncr ''g'' 3, OAcquire ''i'' True second [two_seats], OAcquire ''i'' True second [two_seats], ODualAcquire (single ''j'') True 0 False [two_seats],
              ODualSpend \<lparr>dp_P = ''g'', dp_S = ''g2''\<rparr> 1 False, ODecr ''g'' 9, OGet ''g'']"
  let ?latch = "\<lambda>k. k \<in> {''i'', ''j''}"
  have f: "is_f64 (Fin 5)" by (simp add: is_f64_def)
  have ok: "\<forall>op \<in> set ?ops. op_ok UNIV ?latch op"
    using f by (simp add: specs_ok_def two_seats_def whole_spec_def whole_delta_def limit_ok_def finite_f_def primary_keys_def pair_ok_def
      pair_in_def counter_pair_def single_def dual_spec_def secondary_keys_def)
  have m: "mirrors ?latch Map.empty (mem_empty 0)" by (auto simp: mirrors_def mem_swept_def mem_expired_def mem_empty_def flts_def)
  have t: "Map.empty = texts Map.empty" "small 1 Map.empty" by (simp_all add: texts_def small_def fun_eq_iff)
  have b: "1 + sum_list (map op_cost ?ops) \<le> 2 ^ 53" by (simp add: weight_def two_seats_def whole_delta_def)
  have "fst (run_ops (red_float_store map_redis) ?ops Map.empty) = fst (run_ops mem_float_store ?ops (mem_empty 0))"
    using redis_equals_memory [of UNIV map_redis "\<lambda>w. w" ?ops ?latch Map.empty "mem_empty 0" Map.empty 1] map_redis_laws ok m t b by blast
  then show ?thesis by (simp only: Let_def)
qed

end
