(* ===== verification/HttpClient.thy ===== *)
theory HttpClient
  imports Idempotency
begin

text \<open>
  Package \<open>internal/httpx\<close>: the HTTP client of the billing and payment packages. The transport
  (\<open>http.Client.Do\<close> of one request) is an argument that acts on a threaded world, as are the JSON
  decoder of a reply and the URL check of \<open>http.NewRequest\<close>. The redirect policy is the function the
  transport consults before every hop; \<open>followed\<close> are the chains of requests it lets happen. Case is
  folded on ASCII letters, the alphabet of schemes and of host names on the wire.
\<close>

section \<open>JSON values\<close>

text \<open>What \<open>encoding/json\<close> puts into an \<open>any\<close>.\<close>

datatype json = JNull | JBool bool | JNum f64 | JStr string | JArr "json list" | JObj "(string \<times> json) list"

fun json_str :: "json option \<Rightarrow> string option" where
  "json_str (Some (JStr s)) = Some s"
| "json_str _ = None"

section \<open>Errors\<close>

datatype client_err =
    EncodeFailed
  | BuildFailed string
  | TransportFailed string string
  | ReadFailed string
  | ResponseTooLarge string
  | HttpError int string string
  | DecodeFailed string
  | BadPathSegment string string
  | TooManyRedirects
  | RedirectRefused string string
  | ClientErr string string
  | ClientWrap string client_err

fun is_status :: "client_err \<Rightarrow> int \<Rightarrow> bool" where
  "is_status (HttpError s _ _) status = (s = status)"
| "is_status (ClientWrap _ e) status = is_status e status"
| "is_status _ _ = False"

section \<open>Origins and redirects\<close>

record url =
  u_Scheme :: string
  u_Host :: string

text \<open>\<open>URL.Hostname\<close> and \<open>URL.Port\<close>: the host is cut at its last colon when only digits follow it,
  then freed of the brackets of an IPv6 address.\<close>

definition split_host_port :: "string \<Rightarrow> string \<times> string" where
  "split_host_port hp =
     (let port = rev (takeWhile (\<lambda>c. c \<noteq> CHR '':'') (rev hp));
          cut = (CHR '':'' \<in> set hp \<and> list_all is_digit port);
          host = (if cut then take (length hp - length port - 1) hp else hp);
          host = (if host \<noteq> [] \<and> hd host = CHR ''['' \<and> length host \<ge> 2 \<and> last host = CHR '']''
                  then butlast (tl host) else host)
      in (host, if cut then port else []))"

definition hostname :: "url \<Rightarrow> string" where
  "hostname u = fst (split_host_port (u_Host u))"

definition url_port :: "url \<Rightarrow> string" where
  "url_port u = snd (split_host_port (u_Host u))"

definition join_host_port :: "string \<Rightarrow> string \<Rightarrow> string" where
  "join_host_port host port =
     (if CHR '':'' \<in> set host then ''['' @ host @ '']:'' @ port else host @ '':'' @ port)"

definition equal_fold :: "string \<Rightarrow> string \<Rightarrow> bool" where
  "equal_fold a b \<longleftrightarrow> to_lower a = to_lower b"

definition origin :: "url \<Rightarrow> string option" where
  "origin u =
     (if u_Host u = [] then None else
      let scheme = to_lower (u_Scheme u); port = url_port u in
      if scheme \<noteq> ''http'' \<and> scheme \<noteq> ''https'' then None
      else
        let port = (if scheme = ''https'' \<and> port = [] then ''443''
                    else if scheme = ''http'' \<and> port = [] then ''80'' else port)
        in Some (scheme @ ''://'' @ join_host_port (to_lower (hostname u)) port))"

text \<open>\<open>sameOriginRedirectsOnly\<close>: \<open>req\<close> is the hop asked for, \<open>via\<close> the requests made so far, oldest
  first.\<close>

definition same_origin_redirects_only :: "url \<Rightarrow> url list \<Rightarrow> client_err option" where
  "same_origin_redirects_only req via =
     (if length via \<ge> 10 then Some TooManyRedirects
      else if via = [] then None
      else
        let text = case_option [] id;
            from = text (origin (hd via)); prev = text (origin (last via)); to = text (origin req);
            ok = (origin req \<noteq> None);
            sameHost = (ok \<and> equal_fold (hostname req) (hostname (hd via)));
            upgrade = (sameHost \<and> equal_fold (u_Scheme (last via)) ''http'' \<and> equal_fold (u_Scheme req) ''https'')
        in if \<not> ok \<or> \<not> sameHost \<or> (to \<noteq> prev \<and> \<not> upgrade)
           then Some (RedirectRefused from (u_Scheme req @ ''://'' @ u_Host req)) else None)"

text \<open>The requests one call makes, oldest first: the first is the caller's, every further one was
  let through.\<close>

inductive followed :: "url list \<Rightarrow> bool" where
  first: "followed [u]"
| hop: "followed via \<Longrightarrow> same_origin_redirects_only u via = None \<Longrightarrow> followed (via @ [u])"

section \<open>Path segments\<close>

definition upper_hex :: "nat \<Rightarrow> char" where
  "upper_hex n = (''0123456789ABCDEF'' ! n)"

text \<open>\<open>url.PathEscape\<close>: the unreserved characters and those a segment may hold stay.\<close>

definition keeps_segment :: "char \<Rightarrow> bool" where
  "keeps_segment c \<longleftrightarrow> (CHR ''a'' \<le> c \<and> c \<le> CHR ''z'') \<or> (CHR ''A'' \<le> c \<and> c \<le> CHR ''Z'') \<or> is_digit c
     \<or> c \<in> set ''-_.~$&+=:@''"

definition escape_char :: "char \<Rightarrow> string" where
  "escape_char c = (if keeps_segment c then [c]
     else [CHR ''%'', upper_hex (of_char c div 16), upper_hex (of_char c mod 16)])"

definition path_escape :: "string \<Rightarrow> string" where
  "path_escape s = concat (map escape_char s)"

definition path_segment :: "string \<Rightarrow> string \<Rightarrow> client_err + string" where
  "path_segment what s =
     (let t = trim_space s in
      if t = [] \<or> t = ''.'' \<or> t = ''..'' then Inl (BadPathSegment what s) else Inr (path_escape s))"

section \<open>Requests\<close>

record http_request =
  hq_Method :: string
  hq_URL :: string
  hq_Body :: "string option"
  hq_Header :: "string \<rightharpoonup> string"

text \<open>\<open>None\<close> for the body is a connection that broke while it was read.\<close>

record http_response =
  hr_Status :: int
  hr_Body :: "string option"

record 'w httpx_client =
  hx_BaseURL :: string
  hx_Token :: string
  hx_Build :: "string \<Rightarrow> string \<Rightarrow> bool"
  hx_Do :: "http_request \<Rightarrow> 'w \<Rightarrow> http_response option \<times> 'w"

definition max_response_bytes :: nat where
  "max_response_bytes = 10 * 2 ^ 20"

definition authorize :: "string \<Rightarrow> http_request \<Rightarrow> http_request" where
  "authorize token req =
     (if token = [] then req
      else if has_prefix token ''ab0t_sk_'' then req\<lparr>hq_Header := (hq_Header req)(''X-API-Key'' \<mapsto> token)\<rparr>
      else req\<lparr>hq_Header := (hq_Header req)(''Authorization'' \<mapsto> ''Bearer '' @ token)\<rparr>)"

text \<open>\<open>do\<close>: \<open>out\<close> is the value the caller passed in and the decoder of a reply into it, absent for a
  nil \<open>out\<close>.\<close>

definition do_request ::
  "'w httpx_client \<Rightarrow> 'a \<Rightarrow> (string \<Rightarrow> 'a option) option \<Rightarrow> http_request \<Rightarrow> 'w \<Rightarrow> (client_err + 'a) \<times> 'w" where
  "do_request c out decode req w =
     (let req = authorize (hx_Token c) req; u = hq_URL req in
      case hx_Do c req w of
        (None, w) \<Rightarrow> (Inl (TransportFailed (hq_Method req) u), w)
      | (Some resp, w) \<Rightarrow>
         (case hr_Body resp of
            None \<Rightarrow> (Inl (ReadFailed u), w)
          | Some body \<Rightarrow>
              let body = take (max_response_bytes + 1) body in
              if length body > max_response_bytes then (Inl (ResponseTooLarge u), w)
              else if hr_Status resp \<ge> 400 then (Inl (HttpError (hr_Status resp) u body), w)
              else
                (case decode of
                   None \<Rightarrow> (Inr out, w)
                 | Some d \<Rightarrow>
                     if body = [] then (Inr out, w)
                     else case d body of None \<Rightarrow> (Inl (DecodeFailed u), w) | Some v \<Rightarrow> (Inr v, w))))"

definition send_request ::
  "'w httpx_client \<Rightarrow> string \<Rightarrow> string \<Rightarrow> string option \<Rightarrow> 'a \<Rightarrow> (string \<Rightarrow> 'a option) option \<Rightarrow> 'w
   \<Rightarrow> (client_err + 'a) \<times> 'w" where
  "send_request c meth path body out decode w =
     (let u = hx_BaseURL c @ path in
      if \<not> hx_Build c meth u then (Inl (BuildFailed meth), w)
      else do_request c out decode
             \<lparr>hq_Method = meth, hq_URL = u, hq_Body = body,
              hq_Header = (if body = None then Map.empty else [''Content-Type'' \<mapsto> ''application/json''])\<rparr> w)"

definition httpx_GET where
  "httpx_GET c path out decode w = send_request c ''GET'' path None out decode w"

definition httpx_DELETE where
  "httpx_DELETE c path out decode w = send_request c ''DELETE'' path None out decode w"

text \<open>\<open>sendJSON\<close> of an encoded argument; \<open>None\<close> is an encoder that failed.\<close>

definition send_json ::
  "'w httpx_client \<Rightarrow> string \<Rightarrow> string \<Rightarrow> string option \<Rightarrow> 'a \<Rightarrow> (string \<Rightarrow> 'a option) option \<Rightarrow> 'w
   \<Rightarrow> (client_err + 'a) \<times> 'w" where
  "send_json c meth path body out decode w =
     (case body of None \<Rightarrow> (Inl EncodeFailed, w) | Some b \<Rightarrow> send_request c meth path (Some b) out decode w)"

definition httpx_POST where
  "httpx_POST c path body out decode w = send_json c ''POST'' path body out decode w"

definition httpx_PUT where
  "httpx_PUT c path body out decode w = send_json c ''PUT'' path body out decode w"

section \<open>Where the key travels\<close>

lemma origin_scheme:
  assumes "origin u = Some k"
  shows "to_lower (u_Scheme u) = (if take 5 k = ''https'' then ''https'' else ''http'')"
  using assms by (auto simp: origin_def Let_def split: if_splits)

lemma to_lower_http [simp]: "to_lower ''http'' = ''http''" "to_lower ''https'' = ''https''"
  by (simp_all add: to_lower_def)

text \<open>What one admitted hop says of its neighbours.\<close>

lemma hop_let_through:
  assumes "same_origin_redirects_only u via = None" and "via \<noteq> []"
  shows "length via < 10 \<and> to_lower (hostname u) = to_lower (hostname (hd via))
    \<and> origin u \<noteq> None
    \<and> (to_lower (u_Scheme (last via)) \<noteq> ''http'' \<longrightarrow> origin u = origin (last via))"
proof -
  from assms obtain k where k: "origin u = Some k" "length via < 10" "to_lower (hostname u) = to_lower (hostname (hd via))"
    and or: "k = case_option [] id (origin (last via)) \<or> to_lower (u_Scheme (last via)) = ''http''"
    by (auto simp: same_origin_redirects_only_def Let_def equal_fold_def split: if_splits option.splits)
  have "k \<noteq> []" using k(1) by (auto simp: origin_def Let_def split: if_splits)
  with or have "to_lower (u_Scheme (last via)) \<noteq> ''http'' \<longrightarrow> origin u = origin (last via)"
    using k(1) by (auto split: option.splits)
  with k show ?thesis by simp
qed

text \<open>
  C33. The key in \<open>X-API-Key\<close> never leaves its host and never loses its encryption. Whatever servers
  answer, a call makes at most ten requests; each goes to an absolute HTTP or HTTPS URL on the host
  of the caller's request, and once a request of the chain was made over HTTPS every later one goes to
  exactly its origin, the same port included.
\<close>

theorem redirects_never_leak_key:
  assumes "followed us" and "origin (hd us) \<noteq> None"
  shows "length us \<le> 10
    \<and> (\<forall>u \<in> set us. to_lower (hostname u) = to_lower (hostname (hd us)) \<and> origin u \<noteq> None)
    \<and> (\<forall>i j. i \<le> j \<longrightarrow> j < length us \<longrightarrow> to_lower (u_Scheme (us ! i)) = ''https'' \<longrightarrow> origin (us ! j) = origin (us ! i))"
  using assms
proof (induction rule: followed.induct)
  case (first u)
  then show ?case by simp
next
  case (hop via u)
  have ne: "via \<noteq> []" using hop.hyps(1) by (auto elim: followed.cases)
  note ok = hop_let_through [OF hop.hyps(2) ne]
  have h: "origin (hd via) \<noteq> None" using hop.prems ne by simp
  have IH: "length via \<le> 10"
    "\<forall>v \<in> set via. to_lower (hostname v) = to_lower (hostname (hd via)) \<and> origin v \<noteq> None"
    "\<And>i j. i \<le> j \<Longrightarrow> j < length via \<Longrightarrow> to_lower (u_Scheme (via ! i)) = ''https'' \<Longrightarrow> origin (via ! j) = origin (via ! i)"
    using hop.IH [OF h] by blast+
  have lst: "last via = via ! (length via - 1)" using ne by (rule last_conv_nth)
  have step: "origin u = origin (via ! i)" if i: "i < length via" "to_lower (u_Scheme (via ! i)) = ''https''" for i
  proof -
    have o: "origin (last via) = origin (via ! i)" using IH(3) [of i "length via - 1"] i lst by simp
    show ?thesis
    proof (cases "to_lower (u_Scheme (last via)) = ''http''")
      case False
      with ok o show ?thesis by simp
    next
      case True
      obtain k where "origin (via ! i) = Some k" using IH(2) i(1) by (meson not_None_eq nth_mem)
      with origin_scheme [of "via ! i" k] origin_scheme [of "last via" k] o i True show ?thesis by auto
    qed
  qed
  have later: "origin ((via @ [u]) ! j) = origin ((via @ [u]) ! i)"
    if le: "i \<le> j" and lt: "j < length (via @ [u])" and sec: "to_lower (u_Scheme ((via @ [u]) ! i)) = ''https''" for i j
  proof (cases "i = length via")
    case True
    with le lt have "j = i" by simp
    then show ?thesis by simp
  next
    case False
    with le lt have i: "i < length via" by simp
    then have "(via @ [u]) ! i = via ! i" by (simp add: nth_append)
    moreover have "(via @ [u]) ! j = (if j < length via then via ! j else u)" using lt by (simp add: nth_append)
    ultimately show ?thesis using IH(3) [OF le] step [OF i] sec by simp
  qed
  have all: "\<forall>v \<in> set (via @ [u]). to_lower (hostname v) = to_lower (hostname (hd (via @ [u]))) \<and> origin v \<noteq> None"
    unfolding set_append ball_Un hd_append2 [OF ne] using ok IH(2) by (metis empty_iff insert_iff empty_set list.set(2))
  have "length (via @ [u]) \<le> 10" using ok by simp
  with all later show ?case by blast
qed

text \<open>A billing host that upgrades its callers to HTTPS, and then moves them to another path.\<close>

definition upgraded_call :: "url list" where
  "upgraded_call = [\<lparr>u_Scheme = ''http'', u_Host = ''Billing.svc:80''\<rparr>, \<lparr>u_Scheme = ''https'', u_Host = ''billing.svc''\<rparr>,
     \<lparr>u_Scheme = ''HTTPS'', u_Host = ''billing.svc:443''\<rparr>]"

lemmas url_eval = origin_def hostname_def url_port_def split_host_port_def join_host_port_def to_lower_def equal_fold_def
  is_digit_def Let_def

lemma upgraded_call_followed: "followed upgraded_call"
proof -
  let ?a = "upgraded_call ! 0" and ?b = "upgraded_call ! 1" and ?c = "upgraded_call ! 2"
  have 1: "same_origin_redirects_only ?b [?a] = None" and 2: "same_origin_redirects_only ?c [?a, ?b] = None"
    by (code_simp, code_simp)
  from followed.hop [OF followed.hop [OF followed.first 1]] 2 show ?thesis by (simp add: upgraded_call_def)
qed

theorem redirects_never_leak_key_witness:
  "length upgraded_call \<le> 10 \<and> origin (upgraded_call ! 2) = Some ''https://billing.svc:443''
   \<and> same_origin_redirects_only \<lparr>u_Scheme = ''http'', u_Host = ''billing.svc''\<rparr> upgraded_call \<noteq> None"
proof -
  have o: "origin (hd upgraded_call) \<noteq> None" by code_simp
  from redirects_never_leak_key [OF upgraded_call_followed o] have "length upgraded_call \<le> 10"
    and "\<And>i j. i \<le> j \<Longrightarrow> j < length upgraded_call \<Longrightarrow> to_lower (u_Scheme (upgraded_call ! i)) = ''https'' \<Longrightarrow> origin (upgraded_call ! j) = origin (upgraded_call ! i)"
    by simp_all
  note j = this(2) [of 1 2]
  have "to_lower (u_Scheme (upgraded_call ! 1)) = ''https''" "length upgraded_call = 3"
    "origin (upgraded_call ! 1) = Some ''https://billing.svc:443''"
    "same_origin_redirects_only \<lparr>u_Scheme = ''http'', u_Host = ''billing.svc''\<rparr> upgraded_call \<noteq> None"
    by (code_simp+)
  with j show ?thesis by simp
qed

section \<open>Segments\<close>

text \<open>The decoder of a server: \<open>url.PathUnescape\<close>.\<close>

definition hex_val :: "char \<Rightarrow> nat" where
  "hex_val c = (if is_digit c then of_char c - 48
     else if CHR ''a'' \<le> c \<and> c \<le> CHR ''f'' then of_char c - 87 else of_char c - 55)"

fun path_unescape :: "string \<Rightarrow> string option" where
  "path_unescape [] = Some []"
| "path_unescape (c # cs) =
     (if c = CHR ''%'' then
        (case cs of
           a # b # ds \<Rightarrow> if is_hex a \<and> is_hex b
             then map_option (\<lambda>s. char_of (16 * hex_val a + hex_val b) # s) (path_unescape ds) else None
         | _ \<Rightarrow> None)
      else map_option (\<lambda>s. c # s) (path_unescape cs))"

lemma upper_hex_digit:
  assumes "n < 16"
  shows "is_hex (upper_hex n)" "hex_val (upper_hex n) = n" "upper_hex n \<noteq> CHR ''/''"
proof -
  have "n \<in> {0, 1, 2, 3, 4, 5, 6, 7, 8, 9, 10, 11, 12, 13, 14, 15}" using assms by (simp; presburger)
  then show "is_hex (upper_hex n)" "hex_val (upper_hex n) = n" "upper_hex n \<noteq> CHR ''/''"
    by (elim insertE; simp add: upper_hex_def is_hex_def hex_val_def is_digit_def less_eq_char_def)+
qed

lemma escape_char_back: "path_unescape (escape_char c @ s) = map_option (\<lambda>t. c # t) (path_unescape s)"
proof -
  have "(of_char c :: nat) < 256" by simp
  then have b: "of_char c div 16 < (16::nat)" "of_char c mod 16 < (16::nat)" by (simp_all add: div_less_iff_less_mult)
  have k: "keeps_segment c \<Longrightarrow> c \<noteq> CHR ''%''"
    by (auto simp: keeps_segment_def is_digit_def less_eq_char_def)
  have v: "char_of (16 * (of_char c div 16) + of_char c mod 16 :: nat) = c" by simp
  show ?thesis using upper_hex_digit [OF b(1)] upper_hex_digit [OF b(2)] k v by (auto simp: escape_char_def)
qed

lemma path_escape_back: "path_unescape (path_escape s) = Some s"
  by (induction s) (simp_all add: path_escape_def escape_char_back)

lemma escape_char_safe: "c' \<in> set (escape_char c) \<Longrightarrow> c' \<notin> set ''/?#;,''"
proof -
  assume c': "c' \<in> set (escape_char c)"
  have b: "of_char c div 16 < (16::nat)" "of_char c mod 16 < (16::nat)" by (simp_all add: div_less_iff_less_mult)
  have h: "is_hex x \<Longrightarrow> x \<notin> set ''/?#;,''" for x by (auto simp: is_hex_def is_digit_def less_eq_char_def)
  have k: "keeps_segment c \<Longrightarrow> c \<notin> set ''/?#;,''"
    by (auto simp: keeps_segment_def is_digit_def less_eq_char_def)
  show ?thesis using c' k h upper_hex_digit(1) [OF b(1)] upper_hex_digit(1) [OF b(2)]
    by (auto simp: escape_char_def split: if_splits)
qed

text \<open>
  An id in a URL is one segment and nothing else. What \<open>PathSegment\<close> accepts is neither empty nor a
  dot segment, holds no character that ends a segment, a path or a query, and decodes to the id it
  was made from, so two ids never share a route and no id reaches a route above its own.
\<close>

theorem segment_stays_segment:
  assumes "path_segment what s = Inr v"
  shows "v \<notin> {[], ''.'', ''..''} \<and> set v \<inter> set ''/?#;,'' = {} \<and> path_unescape v = Some s"
proof -
  have v: "v = path_escape s" and s: "trim_space s \<notin> {[], ''.'', ''..''}"
    using assms by (auto simp: path_segment_def Let_def split: if_splits)
  have un: "path_unescape v = Some s" unfolding v by (rule path_escape_back)
  have "v \<notin> {[], ''.'', ''..''}" using un s by (auto simp: trim_space_def is_space_def)
  moreover have "set v \<inter> set ''/?#;,'' = {}" unfolding v path_escape_def using escape_char_safe by fastforce
  ultimately show ?thesis using un by blast
qed

theorem segment_stays_segment_witness:
  "path_segment ''org id'' ''a/../b'' = Inr ''a%2F..%2Fb'' \<and> path_unescape ''a%2F..%2Fb'' = Some ''a/../b''
   \<and> (\<exists>e. path_segment ''org id'' '' ..'' = Inl e)"
proof -
  have e: "path_segment ''org id'' ''a/../b'' = Inr ''a%2F..%2Fb''" and r: "\<exists>e. path_segment ''org id'' '' ..'' = Inl e"
    by (code_simp, simp add: path_segment_def trim_space_def is_space_def)
  from segment_stays_segment [OF e] e r show ?thesis by simp
qed

end
