(* ===== verification/AuthEvents.thy ===== *)
theory AuthEvents
  imports HandlerLedger HttpClient
begin

text \<open>
  Package \<open>authevents\<close>: the events of the auth service (\<open>event.go\<close>), their signatures (\<open>hmac.go\<close>), the
  handler registry (\<open>registry.go\<close>), the webhook receiver (\<open>receiver.go\<close>), the pin stores
  (\<open>pinstore.go\<close>), the key shapes (\<open>primitives.go\<close>) and the default handler that turns a sign-up into a
  credit grant (\<open>default_handler.go\<close>, \<open>idempotent.go\<close>). SHA-256, HMAC, the JSON decoder of an event and
  the wait between retries are arguments. The state of a process extends the in-memory ledger; what
  a handler does to the outside is a world that is threaded through.
\<close>

section \<open>Events\<close>

text \<open>An instant is the wall clock of a \<open>time.Time\<close>; the zero time is year 1.\<close>

record aevent =
  ae_EventType :: string
  ae_EventID :: string
  ae_Type :: string
  ae_ID :: string
  ae_OccurredAt :: instant
  ae_Timestamp :: instant
  ae_Data :: "(string \<times> json) list"
  ae_TenantID :: string
  ae_UserIDTop :: string
  ae_ActorID :: string
  ae_ResourceID :: string
  ae_ResourceType :: string
  ae_Metadata :: "(string \<times> json) list"
  ae_CorrelationID :: string
  ae_CausationID :: string
  ae_raw :: string

definition content_hash :: "(string \<Rightarrow> string) \<Rightarrow> string \<Rightarrow> string" where
  "content_hash sha b = take 32 (sha b)"

definition get_event_id :: "(string \<Rightarrow> string) \<Rightarrow> aevent \<Rightarrow> string" where
  "get_event_id sha e =
     (if ae_EventID e \<noteq> [] then ae_EventID e else if ae_ID e \<noteq> [] then ae_ID e else content_hash sha (ae_raw e))"

definition get_event_type :: "aevent \<Rightarrow> string" where
  "get_event_type e = (if ae_EventType e \<noteq> [] then ae_EventType e else ae_Type e)"

abbreviation data_str :: "aevent \<Rightarrow> string \<Rightarrow> string option" where
  "data_str e k \<equiv> json_str (map_of (ae_Data e) k)"

definition get_user_id :: "aevent \<Rightarrow> string" where
  "get_user_id e = (case data_str e ''user_id'' of Some v \<Rightarrow> v | None \<Rightarrow> ae_UserIDTop e)"

definition get_org_id :: "aevent \<Rightarrow> string" where
  "get_org_id e =
     (case data_str e ''org_id'' of
        Some v \<Rightarrow> v
      | None \<Rightarrow> (case data_str e ''organization_id'' of Some v \<Rightarrow> v | None \<Rightarrow> ae_TenantID e))"

definition get_email :: "aevent \<Rightarrow> string" where
  "get_email e = (case data_str e ''email'' of Some v \<Rightarrow> v | None \<Rightarrow> [])"

text \<open>The event as the ledger's interface sees it.\<close>

definition ledger_event :: "(string \<Rightarrow> string) \<Rightarrow> aevent \<Rightarrow> hevent" where
  "ledger_event sha e =
     \<lparr>he_EventID = get_event_id sha e, he_EventType = get_event_type e, he_UserID = get_user_id e,
      he_OrgID = get_org_id e, he_Raw = ae_raw e\<rparr>"

section \<open>Signatures\<close>

text \<open>\<open>hex.DecodeString\<close> and \<open>hex.EncodeToString\<close> on bytes.\<close>

fun hex_decode :: "string \<Rightarrow> string option" where
  "hex_decode [] = Some []"
| "hex_decode [a] = None"
| "hex_decode (a # b # s) =
     (if is_hex a \<and> is_hex b then map_option (\<lambda>t. char_of (16 * hex_val a + hex_val b) # t) (hex_decode s) else None)"

definition hex_text :: "string \<Rightarrow> string" where
  "hex_text s = hex_encode (map of_char s)"

definition verify_hmac :: "(string \<Rightarrow> string \<Rightarrow> string) \<Rightarrow> string \<Rightarrow> string \<Rightarrow> string \<Rightarrow> bool" where
  "verify_hmac mac body signature secret =
     (if signature = [] \<or> secret = [] then False
      else
        let sig = (if has_prefix signature ''sha256='' then drop 7 signature else signature) in
        case hex_decode sig of None \<Rightarrow> False | Some provided \<Rightarrow> provided = mac secret body)"

definition sign_body :: "(string \<Rightarrow> string \<Rightarrow> string) \<Rightarrow> string \<Rightarrow> string \<Rightarrow> string" where
  "sign_body mac body secret = hex_text (mac secret body)"

section \<open>The registry\<close>

text \<open>
  A handler value as \<open>reflect\<close> sees it (its kind and, for a function or a pointer, its address) with
  what it does. An idempotent handler's body receives the event itself besides the ledger's view of
  it, so its assertion that the event is an auth event always holds.
\<close>

datatype handler_kind = KindFunc | KindPtr | KindOther

datatype 's handler_body =
    HPlain "aevent \<Rightarrow> 's \<Rightarrow> herr option \<times> 's"
  | HIdempotent idempotent_config "aevent \<Rightarrow> 's inner_handler"

record 's handler =
  hd_Kind :: handler_kind
  hd_Ptr :: nat
  hd_Body :: "'s handler_body"

type_synonym 's hregistry = "(string \<times> 's handler list) list"

definition handlers_equal :: "'s handler \<Rightarrow> 's handler \<Rightarrow> bool" where
  "handlers_equal a b \<longleftrightarrow>
     hd_Kind a = hd_Kind b \<and> (case hd_Kind a of KindFunc \<Rightarrow> hd_Ptr a = hd_Ptr b | KindPtr \<Rightarrow> hd_Ptr a = hd_Ptr b | KindOther \<Rightarrow> False)"

definition handlers_of :: "'s hregistry \<Rightarrow> string \<Rightarrow> 's handler list" where
  "handlers_of r t = (case map_of r t of None \<Rightarrow> [] | Some hs \<Rightarrow> hs)"

definition on_auth_event :: "'s hregistry \<Rightarrow> string \<Rightarrow> 's handler \<Rightarrow> 's hregistry" where
  "on_auth_event r t h =
     (let l = handlers_of r t in
      if list_ex (\<lambda>x. handlers_equal x h) l then r else AList.update t (l @ [h]) r)"

fun remove_first :: "('a \<Rightarrow> bool) \<Rightarrow> 'a list \<Rightarrow> 'a list" where
  "remove_first P [] = []"
| "remove_first P (x # xs) = (if P x then xs else x # remove_first P xs)"

definition unregister :: "'s hregistry \<Rightarrow> string \<Rightarrow> 's handler \<Rightarrow> bool \<times> 's hregistry" where
  "unregister r t h =
     (let l = handlers_of r t in
      if list_ex (\<lambda>x. handlers_equal x h) l then (True, AList.update t (remove_first (\<lambda>x. handlers_equal x h) l) r)
      else (False, r))"

definition event_types :: "'s hregistry \<Rightarrow> string list" where
  "event_types r = sort (map fst (filter (\<lambda>(k, v). v \<noteq> []) r))"

section \<open>The receiver\<close>

text \<open>\<open>wr_Broken\<close> is a connection that fails after the bytes of \<open>wr_Body\<close>; a header that is absent reads
  as the empty string.\<close>

record webhook_request =
  wr_Path :: string
  wr_Method :: string
  wr_Header :: "string \<Rightarrow> string"
  wr_Body :: string
  wr_Broken :: bool

record webhook_response =
  wp_Code :: nat
  wp_Allow :: string
  wp_JSON :: "(string \<times> json) list"

record 's receiver_config =
  rv_Secret :: string
  rv_Registry :: "'s hregistry"
  rv_LedgerStore :: "'s ledger_store option"
  rv_PreviousSecrets :: "string list"
  rv_MaxBodyBytes :: int

definition webhook_path :: string where
  "webhook_path = ''/_webhooks/auth''"

definition has_suffix :: "string \<Rightarrow> string \<Rightarrow> bool" where
  "has_suffix s p \<longleftrightarrow> has_prefix (rev s) (rev p)"

definition is_webhook_path :: "string \<Rightarrow> bool" where
  "is_webhook_path p \<longleftrightarrow> p = webhook_path \<or> has_suffix p webhook_path"

definition write_json :: "nat \<Rightarrow> (string \<times> json) list \<Rightarrow> webhook_response" where
  "write_json code body = \<lparr>wp_Code = code, wp_Allow = [], wp_JSON = body\<rparr>"

text \<open>The parameters of the receiver that the standard library provides.\<close>

record 's runtime =
  rn_mac :: "string \<Rightarrow> string \<Rightarrow> string"
  rn_sha :: "string \<Rightarrow> string"
  rn_decode :: "string \<Rightarrow> aevent option"
  rn_wait :: "duration \<Rightarrow> 's \<Rightarrow> herr option \<times> 's"

text \<open>\<open>Dispatch\<close> with a nil store makes a ledger for this one call and drops it.\<close>

definition dispatch_nil ::
  "'w mem_ledger_scheme runtime \<Rightarrow> 'w mem_ledger_scheme idempotent_handler \<Rightarrow> hevent \<Rightarrow> 'w mem_ledger_scheme
   \<Rightarrow> dispatch_err option \<times> 'w mem_ledger_scheme" where
  "dispatch_nil T h ev s =
     (case dispatch (rn_wait T) h ev (mem_ledger_store (rn_sha T)) (s\<lparr>ml_rows := [], ml_bizdedup := []\<rparr>) of
        (e, s') \<Rightarrow> (e, s'\<lparr>ml_rows := ml_rows s, ml_bizdedup := ml_bizdedup s\<rparr>))"

definition dispatch_one ::
  "'w mem_ledger_scheme runtime \<Rightarrow> 'w mem_ledger_scheme ledger_store option \<Rightarrow> 'w mem_ledger_scheme handler \<Rightarrow> aevent
   \<Rightarrow> 'w mem_ledger_scheme \<Rightarrow> dispatch_err option \<times> 'w mem_ledger_scheme" where
  "dispatch_one T store h ev s =
     (case hd_Body h of
        HIdempotent cfg inner \<Rightarrow>
          (let ih = idempotent cfg (inner ev); le = ledger_event (rn_sha T) ev in
           case store of
             None \<Rightarrow> dispatch_nil T ih le s
           | Some L \<Rightarrow> dispatch (rn_wait T) ih le L s)
      | HPlain f \<Rightarrow> (case f ev s of (e, s) \<Rightarrow> (map_option HandlerErr e, s)))"

fun run_handlers ::
  "'w mem_ledger_scheme runtime \<Rightarrow> 'w mem_ledger_scheme ledger_store option \<Rightarrow> aevent \<Rightarrow> 'w mem_ledger_scheme handler list
   \<Rightarrow> nat \<Rightarrow> 'w mem_ledger_scheme \<Rightarrow> nat \<times> 'w mem_ledger_scheme" where
  "run_handlers T store ev [] n s = (n, s)"
| "run_handlers T store ev (h # hs) n s =
     (case dispatch_one T store h ev s of
        (Some _, s) \<Rightarrow> run_handlers T store ev hs n s
      | (None, s) \<Rightarrow> run_handlers T store ev hs (Suc n) s)"

definition receiver_secrets :: "'s receiver_config \<Rightarrow> string list" where
  "receiver_secrets cfg = rv_Secret cfg # filter (\<lambda>s. s \<noteq> []) (rv_PreviousSecrets cfg)"

definition max_body :: "'s receiver_config \<Rightarrow> int" where
  "max_body cfg = (if rv_MaxBodyBytes cfg \<le> 0 then 2 ^ 20 else rv_MaxBodyBytes cfg)"

definition request_signature :: "webhook_request \<Rightarrow> string" where
  "request_signature r =
     (let sig = wr_Header r ''X-Event-Signature'' in if sig = [] then wr_Header r ''X-Webhook-Signature'' else sig)"

definition make_router ::
  "'w mem_ledger_scheme runtime \<Rightarrow> 'w mem_ledger_scheme receiver_config \<Rightarrow> webhook_request \<Rightarrow> 'w mem_ledger_scheme
   \<Rightarrow> webhook_response \<times> 'w mem_ledger_scheme" where
  "make_router T cfg r s =
     (if \<not> is_webhook_path (wr_Path r) then (\<lparr>wp_Code = 404, wp_Allow = [], wp_JSON = []\<rparr>, s)
      else if wr_Method r \<noteq> ''POST'' then (\<lparr>wp_Code = 405, wp_Allow = ''POST'', wp_JSON = []\<rparr>, s)
      else if int (length (wr_Body r)) > max_body cfg then (write_json 413 [(''detail'', JStr ''body too large'')], s)
      else if wr_Broken r then (write_json 400 [(''detail'', JStr ''invalid body'')], s)
      else if \<not> list_ex (\<lambda>k. verify_hmac (rn_mac T) (wr_Body r) (request_signature r) k) (receiver_secrets cfg)
      then (write_json 401 [(''detail'', JStr ''invalid signature'')], s)
      else
        (case rn_decode T (wr_Body r) of
           None \<Rightarrow> (write_json 400 [(''detail'', JStr ''invalid json'')], s)
         | Some event \<Rightarrow>
             let event = event\<lparr>ae_raw := wr_Body r\<rparr>; evtType = get_event_type event;
                 handlers = handlers_of (rv_Registry cfg) evtType
             in if handlers = [] then (write_json 200 [(''status'', JStr ''ignored''), (''event_type'', JStr evtType)], s)
                else (case run_handlers T (rv_LedgerStore cfg) event handlers 0 s of
                  (n, s) \<Rightarrow>
                    (write_json 200 [(''status'', JStr ''ok''), (''ran'', JNum (Fin (of_nat n))), (''event_type'', JStr evtType)], s))))"

section \<open>Pins\<close>

record 'p pin_store =
  ps_Get :: "'p \<Rightarrow> string \<Rightarrow> goerr + string"
  ps_Set :: "'p \<Rightarrow> string \<Rightarrow> string \<Rightarrow> string \<Rightarrow> goerr option \<times> 'p"

definition noop_pin_store :: "'p pin_store" where
  "noop_pin_store = \<lparr>ps_Get = (\<lambda>_ _. Inr []), ps_Set = (\<lambda>p _ _ _. (None, p))\<rparr>"

text \<open>Both Go maps read as the empty string where they have no entry.\<close>

record pins =
  pn_values :: "string \<Rightarrow> string"
  pn_source :: "string \<Rightarrow> string"

definition new_memory_pin_store :: pins where
  "new_memory_pin_store = \<lparr>pn_values = (\<lambda>_. []), pn_source = (\<lambda>_. [])\<rparr>"

definition mp_get :: "pins \<Rightarrow> string \<Rightarrow> goerr + string" where
  "mp_get p userID = Inr (pn_values p userID)"

definition mp_set :: "pins \<Rightarrow> string \<Rightarrow> string \<Rightarrow> string \<Rightarrow> goerr option \<times> pins" where
  "mp_set p userID orgID source =
     (if pn_source p userID = ''operator'' \<and> source = ''auto'' then (None, p)
      else (None, p\<lparr>pn_values := (pn_values p)(userID := orgID), pn_source := (pn_source p)(userID := source)\<rparr>))"

definition memory_pin_store :: "pins pin_store" where
  "memory_pin_store = \<lparr>ps_Get = mp_get, ps_Set = mp_set\<rparr>"

section \<open>Keys of a grant\<close>

fun trigger_text :: "credit_trigger \<Rightarrow> string" where
  "trigger_text TriggerSignup = ''signup''"
| "trigger_text TriggerSubscriptionInvoicePaid = ''subscription_invoice_paid''"
| "trigger_text TriggerScheduledPeriodStart = ''scheduled_period_start''"
| "trigger_text TriggerManual = ''manual''"
| "trigger_text TriggerWebhookAdmin = ''webhook_admin''"
| "trigger_text (TriggerOther s) = s"

fun lifecycle_text :: "credit_lifecycle \<Rightarrow> string" where
  "lifecycle_text LifecyclePersistent = ''persistent''"
| "lifecycle_text LifecycleUseItOrLoseIt = ''use_it_or_lose_it''"
| "lifecycle_text LifecycleRolloverCapped = ''rollover_capped''"
| "lifecycle_text (LifecycleOther s) = s"

fun destination_text :: "credit_destination \<Rightarrow> string" where
  "destination_text DestCreditBalance = ''credit_balance''"
| "destination_text DestSubscriptionCredit = ''subscription_credit''"
| "destination_text (DestOther s) = s"

fun dedup_text :: "dedup_policy \<Rightarrow> string" where
  "dedup_text DedupPerUserPerTier = ''per_user_per_tier''"
| "dedup_text DedupPerOrgPerTier = ''per_org_per_tier''"
| "dedup_text DedupPerUserGlobal = ''per_user_global''"
| "dedup_text DedupPerOrgGlobal = ''per_org_global''"
| "dedup_text (DedupOther s) = s"

definition compose_credit_dedup_key :: "string \<Rightarrow> string \<Rightarrow> string \<Rightarrow> string \<Rightarrow> string" where
  "compose_credit_dedup_key policy userID orgID tierID =
     (let prefix = ''credit_granted'' in
      if policy = ''per_org_per_tier'' then prefix @ '':org:'' @ orgID @ '':'' @ tierID
      else if policy = ''per_user_global'' then prefix @ '':user:'' @ userID
      else if policy = ''per_org_global'' then prefix @ '':org:'' @ orgID
      else prefix @ '':user:'' @ userID @ '':'' @ tierID)"

definition billing_idempotency_key :: "string \<Rightarrow> string \<Rightarrow> string \<Rightarrow> string \<Rightarrow> string" where
  "billing_idempotency_key policy userID orgID tierID =
     (if policy = ''per_org_per_tier'' then ''org:'' @ orgID @ '':initial_credit:'' @ tierID
      else if policy = ''per_user_global'' then ''user:'' @ userID @ '':initial_credit''
      else if policy = ''per_org_global'' then ''org:'' @ orgID @ '':initial_credit''
      else ''user:'' @ userID @ '':initial_credit:'' @ tierID)"

section \<open>The default handler\<close>

record credit_request =
  cq_UserID :: string
  cq_OrgID :: string
  cq_TierID :: string
  cq_Amount :: rat
  cq_Currency :: string
  cq_EventID :: string
  cq_GrantedAt :: string
  cq_Source :: string
  cq_Trigger :: string
  cq_IdempotencyKey :: string
  cq_DedupKey :: string
  cq_Destination :: string
  cq_Lifecycle :: string
  cq_RolloverMax :: "rat option"

datatype hook = OnSkipped string aevent | OnGranted credit_request | OnFailed herr aevent

text \<open>
  The process of the handler: its ledger, the pins, the world of the tier provider and the granter,
  and what can be observed of it: every call of the granter with its answer, and every hook.
\<close>

record ('p, 'w) credit_state = mem_ledger +
  cr_pins :: 'p
  cr_world :: 'w
  cr_calls :: "(credit_request \<times> herr option) list"
  cr_hooks :: "hook list"

record ('p, 'w) credit_deps =
  cd_Config :: "config option"
  cd_TierProvider :: "(string \<Rightarrow> string \<Rightarrow> 'w \<Rightarrow> (herr + string) \<times> 'w) option"
  cd_PinStore :: "'p pin_store option"
  cd_Granter :: "(credit_request \<Rightarrow> 'w \<Rightarrow> herr option \<times> 'w) option"

text \<open>\<open>Format("2006-01-02T15:04:05Z")\<close> of a UTC time.\<close>

definition format_utc :: "instant \<Rightarrow> string" where
  "format_utc t =
     (case civil_from_days (day_number t) of (y, m, d) \<Rightarrow>
        pad 4 y @ ''-'' @ pad 2 m @ ''-'' @ pad 2 d @ ''T'' @ pad 2 (hour_of t) @ '':''
        @ pad 2 ((t div (60 * second)) mod 60) @ '':'' @ pad 2 ((t div second) mod 60) @ ''Z'')"

abbreviation hooked :: "hook \<Rightarrow> ('p, 'w) credit_state \<Rightarrow> ('p, 'w) credit_state" where
  "hooked h s \<equiv> s\<lparr>cr_hooks := cr_hooks s @ [h]\<rparr>"

definition skipped :: "string \<Rightarrow> string \<Rightarrow> aevent \<Rightarrow> ('p, 'w) credit_state \<Rightarrow> herr option \<times> ('p, 'w) credit_state" where
  "skipped note reason ev s = (Some (SkipError reason), hooked (OnSkipped note ev) s)"

text \<open>The org of the event, else the pinned one; a known org is pinned.\<close>

definition resolve_org :: "'p pin_store \<Rightarrow> string \<Rightarrow> string \<Rightarrow> ('p, 'w) credit_state \<Rightarrow> string \<times> ('p, 'w) credit_state" where
  "resolve_org P userID orgID s =
     (let orgID = (if orgID = [] then (case ps_Get P (cr_pins s) userID of Inl _ \<Rightarrow> [] | Inr pinned \<Rightarrow> pinned) else orgID) in
      (orgID, if orgID \<noteq> [] then s\<lparr>cr_pins := snd (ps_Set P (cr_pins s) userID orgID ''auto'')\<rparr> else s))"

definition grant_request ::
  "(string \<Rightarrow> string) \<Rightarrow> aevent \<Rightarrow> string \<Rightarrow> string \<Rightarrow> string \<Rightarrow> credit_grant \<Rightarrow> string \<Rightarrow> credit_request" where
  "grant_request sha ev userID orgID tierID g policy =
     \<lparr>cq_UserID = userID, cq_OrgID = orgID, cq_TierID = tierID, cq_Amount = cg_AmountPerPeriod g, cq_Currency = cg_Currency g,
      cq_EventID = get_event_id sha ev, cq_GrantedAt = format_utc (ae_OccurredAt ev), cq_Source = ''auth_event'',
      cq_Trigger = trigger_text (cg_Trigger g), cq_IdempotencyKey = billing_idempotency_key policy userID orgID tierID,
      cq_DedupKey = compose_credit_dedup_key policy userID orgID tierID, cq_Destination = destination_text (cg_Destination g),
      cq_Lifecycle = lifecycle_text (cg_Lifecycle g),
      cq_RolloverMax = (if cg_Lifecycle g = LifecycleRolloverCapped
         then map_option (\<lambda>n. cg_AmountPerPeriod g * of_int n) (cg_RolloverMaxPeriods g) else None)\<rparr>"

text \<open>From the business dedup on: the check, the grant, the mark.\<close>

definition grant_once ::
  "(string \<Rightarrow> string) \<Rightarrow> ('p, 'w) credit_state ledger_store \<Rightarrow> (credit_request \<Rightarrow> 'w \<Rightarrow> herr option \<times> 'w) \<Rightarrow> aevent
   \<Rightarrow> credit_request \<Rightarrow> hcontext \<Rightarrow> ('p, 'w) credit_state \<Rightarrow> herr option \<times> ('p, 'w) credit_state" where
  "grant_once sha L granter ev req hctx s =
     (let hctx = hctx\<lparr>hc_DedupKey := cq_DedupKey req\<rparr> in
      case ctx_already_done L hctx s of
        Inl e \<Rightarrow> (Some (Plain ''dedup check''), s)
      | Inr True \<Rightarrow> skipped (''business dedup hit: '' @ cq_DedupKey req) (''already granted: '' @ cq_DedupKey req) ev s
      | Inr False \<Rightarrow>
          (case granter req (cr_world s) of
             (Some e, w) \<Rightarrow>
               (Some (Wrapped (''grant credit: '' @ err_text e) e),
                hooked (OnFailed e ev) (s\<lparr>cr_world := w, cr_calls := cr_calls s @ [(req, Some e)]\<rparr>))
           | (None, w) \<Rightarrow>
               let s = s\<lparr>cr_world := w, cr_calls := cr_calls s @ [(req, None)]\<rparr>;
                   s = snd (ctx_mark_done L hctx (get_event_id sha ev) s)
               in (Some (SuccessError (cq_EventID req)), hooked (OnGranted req) s)))"

definition credit_inner ::
  "(string \<Rightarrow> string) \<Rightarrow> ('p, 'w) credit_state ledger_store \<Rightarrow> config
   \<Rightarrow> (string \<Rightarrow> string \<Rightarrow> 'w \<Rightarrow> (herr + string) \<times> 'w) \<Rightarrow> 'p pin_store \<Rightarrow> (credit_request \<Rightarrow> 'w \<Rightarrow> herr option \<times> 'w)
   \<Rightarrow> aevent \<Rightarrow> ('p, 'w) credit_state inner_handler" where
  "credit_inner sha L cfg tierProvider P granter ev hev hctx s =
     (let userID = get_user_id ev in
      if userID = [] then skipped ''missing user_id'' ''missing user_id'' ev s
      else case resolve_org P userID (get_org_id ev) s of (orgID, s) \<Rightarrow>
       (case tierProvider userID orgID (cr_world s) of
          (Inl e, w) \<Rightarrow> (Some (Wrapped (''tier provider: '' @ err_text e) e), hooked (OnFailed e ev) (s\<lparr>cr_world := w\<rparr>))
        | (Inr tierID, w) \<Rightarrow>
            let s = s\<lparr>cr_world := w\<rparr> in
            if tierID = [] then skipped ''tier_provider returned empty tier_id'' ''no tier for user'' ev s
            else case tier_by_id cfg tierID of
              None \<Rightarrow> skipped (''tier not in config: '' @ tierID) (''tier not in config: '' @ tierID) ev s
            | Some tier \<Rightarrow>
               (case t_CreditGrant tier of
                  None \<Rightarrow> skipped (''no credit_grant for tier: '' @ tierID) ''no credit_grant for tier'' ev s
                | Some g \<Rightarrow>
                    if cg_AmountPerPeriod g \<le> 0
                    then skipped (''no credit_grant for tier: '' @ tierID) ''no credit_grant for tier'' ev s
                    else if trigger_text (cg_Trigger g) \<noteq> ''signup'' \<and> trigger_text (cg_Trigger g) \<noteq> []
                    then (let reason = ''credit_grant trigger is '' @ trigger_text (cg_Trigger g) @ '', not signup: '' @ tierID
                          in skipped reason reason ev s)
                    else
                      let policy = (if dedup_text (cg_Dedup g) = [] then ''per_user_per_tier'' else dedup_text (cg_Dedup g))
                      in grant_once sha L granter ev (grant_request sha ev userID orgID tierID g policy) hctx s)))"

definition credit_handler_config :: idempotent_config where
  "credit_handler_config = \<lparr>ic_Handler = ''default_credit_grant'', ic_Key = None, ic_Retry = Some default_retry, ic_LeaseSeconds = 60\<rparr>"

text \<open>\<open>BuildDefaultCreditGrantHandler\<close>; the ledger is the one the dispatcher passes in the handler's
  context, \<open>addr\<close> the address of the new handler.\<close>

definition build_default_credit_grant_handler ::
  "(string \<Rightarrow> string) \<Rightarrow> ('p, 'w) credit_state ledger_store \<Rightarrow> nat \<Rightarrow> ('p, 'w) credit_deps
   \<Rightarrow> goerr + ('p, 'w) credit_state handler" where
  "build_default_credit_grant_handler sha L addr deps =
     (case cd_Config deps of
        None \<Rightarrow> Inl (ErrConfig ''default credit-grant handler'' ''Config required'')
      | Some cfg \<Rightarrow>
     (case cd_TierProvider deps of
        None \<Rightarrow> Inl (ErrConfig ''default credit-grant handler'' ''TierProvider required'')
      | Some tp \<Rightarrow>
     (case cd_Granter deps of
        None \<Rightarrow> Inl (ErrConfig ''default credit-grant handler'' ''Granter required'')
      | Some granter \<Rightarrow>
          let P = (case cd_PinStore deps of None \<Rightarrow> noop_pin_store | Some P \<Rightarrow> P) in
          Inr \<lparr>hd_Kind = KindPtr, hd_Ptr = addr, hd_Body = HIdempotent credit_handler_config (credit_inner sha L cfg tp P granter)\<rparr>)))"

definition register_default_credit_grant_handler ::
  "(string \<Rightarrow> string) \<Rightarrow> ('p, 'w) credit_state ledger_store \<Rightarrow> nat \<Rightarrow> ('p, 'w) credit_deps
   \<Rightarrow> ('p, 'w) credit_state hregistry \<Rightarrow> goerr + ('p, 'w) credit_state hregistry" where
  "register_default_credit_grant_handler sha L addr deps r =
     (case build_default_credit_grant_handler sha L addr deps of
        Inl e \<Rightarrow> Inl e
      | Inr h \<Rightarrow> Inr (on_auth_event (on_auth_event r ''org.created'' h) ''user.org_assigned'' h))"

section \<open>Authentic events\<close>

lemma hex_digit_facts: "is_hex (hex_digit n)" "hex_val (hex_digit n) = n mod 16"
proof -
  define m where "m = n mod 16"
  have "m < 16" by (simp add: m_def)
  then have m: "m \<in> {0, 1, 2, 3, 4, 5, 6, 7, 8, 9, 10, 11, 12, 13, 14, 15}" by (simp; presburger)
  have "is_hex (''0123456789abcdef'' ! m) \<and> hex_val (''0123456789abcdef'' ! m) = m"
    using m by (elim insertE) (simp_all add: is_hex_def hex_val_def is_digit_def less_eq_char_def)
  then show "is_hex (hex_digit n)" "hex_val (hex_digit n) = n mod 16" by (simp_all add: hex_digit_def m_def)
qed

lemma hex_decode_text: "hex_decode (hex_text s) = Some s"
proof (induction s)
  case (Cons c s)
  have "(of_char c :: nat) div 16 mod 16 = of_char c div 16" by (simp add: div_less_iff_less_mult)
  then have "char_of (16 * (of_char c div 16 mod 16) + of_char c mod 16 :: nat) = c" by (simp del: mod_mod_trivial)
  with Cons show ?case by (simp add: hex_text_def hex_encode_def hex_digit_facts)
qed (simp add: hex_text_def hex_encode_def)

text \<open>The signature a sender computes is accepted, bare and in the canonical form.\<close>

lemma signed_body_verifies:
  assumes "secret \<noteq> []" and "mac secret body \<noteq> []"
  shows "verify_hmac mac body (sign_body mac body secret) secret" "verify_hmac mac body (''sha256='' @ sign_body mac body secret) secret"
proof -
  obtain c cs where m: "mac secret body = c # cs" using assms(2) by (cases "mac secret body") auto
  have "hex_text (c # cs) = hex_digit (of_char c div 16) # hex_digit (of_char c) # hex_text cs"
    by (simp add: hex_text_def hex_encode_def)
  moreover have "hex_digit (of_char c div 16) \<noteq> CHR ''s''"
    using hex_digit_facts(1) [of "of_char c div 16"] by (auto simp: is_hex_def is_digit_def less_eq_char_def)
  ultimately have "sign_body mac body secret \<noteq> []" "\<not> has_prefix (sign_body mac body secret) ''sha256=''"
    by (simp_all add: sign_body_def m)
  then show "verify_hmac mac body (sign_body mac body secret) secret" "verify_hmac mac body (''sha256='' @ sign_body mac body secret) secret"
    using assms(1) hex_decode_text by (simp_all add: verify_hmac_def sign_body_def)
qed

text \<open>The bytes of a signature header, with or without its prefix.\<close>

definition signature_bytes :: "string \<Rightarrow> string option" where
  "signature_bytes sig = hex_decode (if has_prefix sig ''sha256='' then drop 7 sig else sig)"

lemma verify_hmac_iff:
  "verify_hmac mac body sig secret \<longleftrightarrow> sig \<noteq> [] \<and> secret \<noteq> [] \<and> signature_bytes sig = Some (mac secret body)"
  by (auto simp: verify_hmac_def signature_bytes_def Let_def split: option.splits)

text \<open>
  C24. A forged event changes nothing. Whatever is sent to the receiver, unless the signature header holds
  the MAC of exactly the received bytes under one of the configured secrets that is not empty, no
  handler runs, the process is left as it was and the answer is an error, never 200. In
  particular a receiver configured with an empty secret accepts nothing.
\<close>

theorem forged_event_changes_nothing:
  assumes "\<forall>k \<in> set (rv_Secret cfg # rv_PreviousSecrets cfg). k \<noteq> [] \<longrightarrow>
      signature_bytes (request_signature r) \<noteq> Some (rn_mac T k (wr_Body r))"
  shows "snd (make_router T cfg r s) = s \<and> wp_Code (fst (make_router T cfg r s)) \<in> {400, 401, 404, 405, 413}"
proof -
  have "\<not> list_ex (\<lambda>k. verify_hmac (rn_mac T) (wr_Body r) (request_signature r) k) (receiver_secrets cfg)"
    using assms by (auto simp: list_ex_iff receiver_secrets_def verify_hmac_iff)
  then show ?thesis by (simp add: make_router_def write_json_def)
qed

text \<open>
  An authentic event is acknowledged. A well-formed request that is signed under the current or a
  previous secret and holds an event gets 200, whatever its handlers do: their errors are not
  reported to the sender, which would only send the event again.
\<close>

lemma authentic_event_acknowledged:
  assumes "is_webhook_path (wr_Path r)" and "wr_Method r = ''POST''" and "int (length (wr_Body r)) \<le> max_body cfg"
    and "\<not> wr_Broken r" and "k \<in> set (rv_Secret cfg # rv_PreviousSecrets cfg)" and "k \<noteq> []"
    and "rn_mac T k (wr_Body r) \<noteq> []" and "request_signature r = sign_body (rn_mac T) (wr_Body r) k"
    and "rn_decode T (wr_Body r) \<noteq> None"
  shows "wp_Code (fst (make_router T cfg r s)) = 200"
proof -
  have "list_ex (\<lambda>k. verify_hmac (rn_mac T) (wr_Body r) (request_signature r) k) (receiver_secrets cfg)"
    using signed_body_verifies(1) [where mac = "rn_mac T", OF assms(6,7)] assms(5,6,8) by (auto simp: list_ex_iff receiver_secrets_def)
  with assms show ?thesis by (auto simp: make_router_def write_json_def Let_def split: option.splits prod.splits)
qed

section \<open>What a delivery preserves\<close>

text \<open>A property that the body, the wait and the ledger's writes keep is kept by a whole delivery.\<close>

lemma loop_preserves:
  assumes inner: "\<And>c s. P s \<Longrightarrow> P (snd (ih_Inner h ev c s))" and wait: "\<And>d s. P s \<Longrightarrow> P (snd (wait d s))"
    and out: "\<And>s inp. P s \<Longrightarrow> P (snd (ls_RecordOutcome L s inp))" and "P s"
  shows "P (snd (attempts_loop wait L h ev hctx cfg m n s))"
  using assms(4)
proof (induction "nat (m - n)" arbitrary: n s cfg rule: less_induct)
  case less
  obtain e s1 where i: "ih_Inner h ev hctx s = (e, s1)" by fastforce
  obtain d cfg1 where b: "backoff_delay cfg n = (d, cfg1)" by fastforce
  obtain ce s2 where w: "wait d s1 = (ce, s2)" by fastforce
  have s1: "P s1" using inner [OF less.prems, of hctx] i by simp
  have s2: "P s2" using wait [OF s1, of d] w by simp
  have fin: "P t \<Longrightarrow> P (snd (finish L oi t))" for oi t
    using out [of t oi] by (auto simp: finish_def split: prod.splits)
  have up: "P t \<Longrightarrow> P (snd (give_up L hn k m le t))" for hn k le t by (simp add: give_up_def out)
  show ?case
  proof (cases "n < m \<and> ce = None")
    case True
    with less.hyps [of "n + 1" s2 cfg1] s1 s2 fin up show ?thesis
      by (subst attempts_loop.simps) (auto simp: i b w Let_def split: option.splits)
  next
    case False
    with s1 s2 fin up show ?thesis
      by (subst attempts_loop.simps) (auto simp: i b w Let_def split: option.splits)
  qed
qed

lemma dispatch_preserves:
  assumes "\<And>c s. P s \<Longrightarrow> P (snd (ih_Inner h ev c s))" and "\<And>d s. P s \<Longrightarrow> P (snd (wait d s))"
    and rows: "\<And>s rs. P s \<Longrightarrow> P (s\<lparr>ml_rows := rs\<rparr>)" and "P s"
  shows "P (snd (dispatch wait h ev (mem_ledger_store sha) s))"
proof -
  let ?L = "mem_ledger_store sha"
  have out: "P t \<Longrightarrow> P (snd (ls_RecordOutcome ?L t inp))" for t inp
    by (auto simp: mem_ledger_store_def ml_record_outcome_def rows split: option.splits)
  obtain res s1 where a: "ls_RecordAttempt ?L s (delivery_input (ih_Config h) ev) = (Inr res, s1)" "P s1"
    using ml_attempt_shape [of sha s "delivery_input (ih_Config h) ev"] rows [OF assms(4)] by metis
  with loop_preserves [OF assms(1,2) out a(2)] show ?thesis by (simp add: dispatch_def run_with_retry_def Let_def)
qed

lemma run_handlers_preserves:
  assumes "\<And>h s. h \<in> set hs \<Longrightarrow> P s \<Longrightarrow> P (snd (dispatch_one T store h ev s))" and "P s"
  shows "P (snd (run_handlers T store ev hs n s))"
  using assms
proof (induction hs arbitrary: n s)
  case (Cons h hs)
  obtain e s1 where d: "dispatch_one T store h ev s = (e, s1)" by fastforce
  then have "P s1" using Cons.prems(1) [of h s] Cons.prems(2) by simp
  with Cons d show ?case by (auto split: option.splits)
qed simp

text \<open>The state after a sequence of requests, and what all of them keep.\<close>

fun serve :: "'w mem_ledger_scheme runtime \<Rightarrow> 'w mem_ledger_scheme receiver_config \<Rightarrow> webhook_request list
    \<Rightarrow> 'w mem_ledger_scheme \<Rightarrow> 'w mem_ledger_scheme" where
  "serve T cfg [] s = s"
| "serve T cfg (r # rs) s = serve T cfg rs (snd (make_router T cfg r s))"

lemma router_runs:
  "snd (make_router T cfg r s) = s
   \<or> (\<exists>ev t. snd (make_router T cfg r s) = snd (run_handlers T (rv_LedgerStore cfg) ev (handlers_of (rv_Registry cfg) t) 0 s))"
  unfolding make_router_def by (simp add: Let_def split: option.split prod.split) (metis snd_conv)

lemma serve_preserves:
  assumes "\<And>t h ev s. h \<in> set (handlers_of (rv_Registry cfg) t) \<Longrightarrow> P s \<Longrightarrow> P (snd (dispatch_one T (rv_LedgerStore cfg) h ev s))"
    and "P s"
  shows "P (serve T cfg rs s)"
  using assms(2)
proof (induction rs arbitrary: s)
  case (Cons r rs)
  have "P (snd (run_handlers T (rv_LedgerStore cfg) ev (handlers_of (rv_Registry cfg) t) n s))" for ev t n
    using assms(1) Cons.prems by (intro run_handlers_preserves [where P = P])
  then have "P (snd (make_router T cfg r s))" using router_runs [of T cfg r s] Cons.prems by (elim disjE exE) simp_all
  with Cons.IH show ?case by simp
qed simp

text \<open>A receiver whose registry holds the default handler, on its in-memory ledger.\<close>

definition default_receiver ::
  "('p, 'w) credit_state runtime \<Rightarrow> ('p, 'w) credit_deps \<Rightarrow> ('p, 'w) credit_state receiver_config \<Rightarrow> bool" where
  "default_receiver T deps cfg \<longleftrightarrow>
     (let L = mem_ledger_store (rn_sha T) in
      rv_LedgerStore cfg = Some L
      \<and> (\<exists>addr. register_default_credit_grant_handler (rn_sha T) L addr deps [] = Inr (rv_Registry cfg)))"

lemma default_registry:
  assumes "default_receiver T deps cfg" and "h \<in> set (handlers_of (rv_Registry cfg) t)"
  shows "\<exists>c tp granter P. cd_Config deps = Some c \<and> cd_TierProvider deps = Some tp \<and> cd_Granter deps = Some granter
    \<and> P = (case cd_PinStore deps of None \<Rightarrow> noop_pin_store | Some P \<Rightarrow> P)
    \<and> hd_Body h = HIdempotent credit_handler_config (credit_inner (rn_sha T) (mem_ledger_store (rn_sha T)) c tp P granter)"
proof -
  let ?L = "mem_ledger_store (rn_sha T)"
  obtain addr where reg: "register_default_credit_grant_handler (rn_sha T) ?L addr deps [] = Inr (rv_Registry cfg)"
    using assms(1) by (auto simp: default_receiver_def Let_def)
  then obtain h' where b: "build_default_credit_grant_handler (rn_sha T) ?L addr deps = Inr h'"
    and r: "rv_Registry cfg = on_auth_event (on_auth_event [] ''org.created'' h') ''user.org_assigned'' h'"
    by (cases "build_default_credit_grant_handler (rn_sha T) ?L addr deps") (auto simp: register_default_credit_grant_handler_def)
  have "h = h'" using assms(2) unfolding r by (auto simp: on_auth_event_def handlers_of_def split: if_splits)
  with b show ?thesis by (auto simp: build_default_credit_grant_handler_def Let_def split: option.split_asm)
qed

lemma default_serve_preserves:
  assumes "default_receiver T deps cfg"
    and "\<And>c tp granter P ev he hc s. cd_Config deps = Some c \<Longrightarrow> cd_TierProvider deps = Some tp \<Longrightarrow> cd_Granter deps = Some granter \<Longrightarrow>
       P = (case cd_PinStore deps of None \<Rightarrow> noop_pin_store | Some P \<Rightarrow> P) \<Longrightarrow> Q s \<Longrightarrow>
       Q (snd (credit_inner (rn_sha T) (mem_ledger_store (rn_sha T)) c tp P granter ev he hc s))"
    and "\<And>d s. Q s \<Longrightarrow> Q (snd (rn_wait T d s))" and "\<And>s rs. Q s \<Longrightarrow> Q (s\<lparr>ml_rows := rs\<rparr>)" and "Q s"
  shows "Q (serve T cfg rs s)"
proof (rule serve_preserves [where P = Q])
  fix t h ev s assume "h \<in> set (handlers_of (rv_Registry cfg) t)" and Q: "Q s"
  from default_registry [OF assms(1) this(1)] obtain c tp granter P
    where d: "cd_Config deps = Some c" "cd_TierProvider deps = Some tp" "cd_Granter deps = Some granter"
      "P = (case cd_PinStore deps of None \<Rightarrow> noop_pin_store | Some P \<Rightarrow> P)"
      and h: "hd_Body h = HIdempotent credit_handler_config (credit_inner (rn_sha T) (mem_ledger_store (rn_sha T)) c tp P granter)"
    by blast
  have L: "rv_LedgerStore cfg = Some (mem_ledger_store (rn_sha T))" using assms(1) by (simp add: default_receiver_def Let_def)
  show "Q (snd (dispatch_one T (rv_LedgerStore cfg) h ev s))"
    unfolding dispatch_one_def h L handler_body.case option.case Let_def
    using assms(2) [OF d] by (intro dispatch_preserves [where P = Q] assms(3,4) Q) (simp add: idempotent_def Let_def)
qed (rule assms(5))

section \<open>One grant\<close>

abbreviation granted :: "string \<Rightarrow> ('p, 'w) credit_state \<Rightarrow> (credit_request \<times> herr option) list" where
  "granted k s \<equiv> filter (\<lambda>(req, e). e = None \<and> cq_DedupKey req = k) (cr_calls s)"

text \<open>Every grant that succeeded left its mark, and no key has two.\<close>

definition granted_once :: "(string \<Rightarrow> string) \<Rightarrow> ('p, 'w) credit_state \<Rightarrow> bool" where
  "granted_once sha s \<longleftrightarrow> (\<forall>k. length (granted k s) \<le> (if sha k \<in> set (ml_bizdedup s) then 1 else 0))"

lemma granted_once_le: "granted_once sha s \<Longrightarrow> length (granted k s) \<le> 1"
  by (auto simp: granted_once_def split: if_splits dest!: spec [of _ k])

lemma granted_once_unmarked: "granted_once sha s \<Longrightarrow> sha k \<notin> set (ml_bizdedup s) \<Longrightarrow> granted k s = []"
  by (auto simp: granted_once_def dest!: spec [of _ k])

lemma granted_once_mark:
  assumes "granted_once sha s" and "sha (cq_DedupKey req) \<notin> set (ml_bizdedup s)"
  shows "granted_once sha (s\<lparr>ml_bizdedup := List.insert (sha (cq_DedupKey req)) (ml_bizdedup s), cr_calls := cr_calls s @ [(req, None)]\<rparr>)"
  using granted_once_le [OF assms(1)] granted_once_unmarked [OF assms(1)] assms(2)
  unfolding granted_once_def by (auto simp: not_le)

lemma dedup_key_nonempty [simp]: "compose_credit_dedup_key p u orgID t \<noteq> []"
  by (simp add: compose_credit_dedup_key_def Let_def)

lemma grant_request_simps [simp]:
  "cq_DedupKey (grant_request sha ev u orgID t g p) = compose_credit_dedup_key p u orgID t"
  "cq_IdempotencyKey (grant_request sha ev u orgID t g p) = billing_idempotency_key p u orgID t"
  "cq_TierID (grant_request sha ev u orgID t g p) = t" "cq_Amount (grant_request sha ev u orgID t g p) = cg_AmountPerPeriod g"
  "cq_UserID (grant_request sha ev u orgID t g p) = u" "cq_OrgID (grant_request sha ev u orgID t g p) = orgID"
  "cq_Trigger (grant_request sha ev u orgID t g p) = trigger_text (cg_Trigger g)"
  by (simp_all add: grant_request_def)

text \<open>What the body of the handler can do to the process: record hooks, pin an org, ask the tier
  provider, and at most run \<open>grant_once\<close> for a tier with a sign-up grant.\<close>

definition signup_grant :: "config \<Rightarrow> string \<Rightarrow> credit_grant \<Rightarrow> bool" where
  "signup_grant c tierID g \<longleftrightarrow> (\<exists>tier. tier_by_id c tierID = Some tier \<and> t_CreditGrant tier = Some g \<and> 0 < cg_AmountPerPeriod g
     \<and> (trigger_text (cg_Trigger g) = ''signup'' \<or> trigger_text (cg_Trigger g) = []))"

lemma credit_inner_effect:
  assumes "credit_inner sha L c tp P granter ev he hc s = (r, s')"
  shows "\<exists>s1 hs. (s1 = s \<or> (\<exists>orgID w. s1 = s\<lparr>cr_pins := snd (ps_Set P (cr_pins s) (get_user_id ev) orgID ''auto''), cr_world := w\<rparr>)
        \<or> (\<exists>w. s1 = s\<lparr>cr_world := w\<rparr>))
     \<and> (s' = s1\<lparr>cr_hooks := hs\<rparr>
        \<or> (\<exists>u orgID t g p. signup_grant c t g \<and> (r, s') = grant_once sha L granter ev (grant_request sha ev u orgID t g p) hc s1))"
proof (cases "get_user_id ev = []")
  case True
  with assms show ?thesis by (auto simp: credit_inner_def skipped_def)
next
  case False
  obtain orgID s0 where ro: "resolve_org P (get_user_id ev) (get_org_id ev) s = (orgID, s0)" by fastforce
  then have s0: "s0 = s \<or> s0 = s\<lparr>cr_pins := snd (ps_Set P (cr_pins s) (get_user_id ev) orgID ''auto'')\<rparr>"
    by (auto simp: resolve_org_def Let_def split: if_splits)
  obtain tr w where tp: "tp (get_user_id ev) orgID (cr_world s0) = (tr, w)" by fastforce
  define s1 where "s1 = s0\<lparr>cr_world := w\<rparr>"
  have s1: "(\<exists>orgID w. s1 = s\<lparr>cr_pins := snd (ps_Set P (cr_pins s) (get_user_id ev) orgID ''auto''), cr_world := w\<rparr>)
        \<or> (\<exists>w. s1 = s\<lparr>cr_world := w\<rparr>)"
    using s0 by (auto simp: s1_def)
  have "(\<exists>hs. s' = s1\<lparr>cr_hooks := hs\<rparr>)
     \<or> (\<exists>u orgID t g p. signup_grant c t g \<and> (r, s') = grant_once sha L granter ev (grant_request sha ev u orgID t g p) hc s1)"
  proof (cases tr)
    case (Inl e)
    with assms False ro tp show ?thesis by (auto simp: credit_inner_def s1_def Let_def)
  next
    case (Inr t)
    define rest where "rest = (if t = [] then skipped ''tier_provider returned empty tier_id'' ''no tier for user'' ev s1
      else case tier_by_id c t of
         None \<Rightarrow> skipped (''tier not in config: '' @ t) (''tier not in config: '' @ t) ev s1
       | Some tier \<Rightarrow>
          (case t_CreditGrant tier of
             None \<Rightarrow> skipped (''no credit_grant for tier: '' @ t) ''no credit_grant for tier'' ev s1
           | Some g \<Rightarrow>
               if cg_AmountPerPeriod g \<le> 0 then skipped (''no credit_grant for tier: '' @ t) ''no credit_grant for tier'' ev s1
               else if trigger_text (cg_Trigger g) \<noteq> ''signup'' \<and> trigger_text (cg_Trigger g) \<noteq> []
               then skipped (''credit_grant trigger is '' @ trigger_text (cg_Trigger g) @ '', not signup: '' @ t)
                 (''credit_grant trigger is '' @ trigger_text (cg_Trigger g) @ '', not signup: '' @ t) ev s1
               else grant_once sha L granter ev (grant_request sha ev (get_user_id ev) orgID t g
                 (if dedup_text (cg_Dedup g) = [] then ''per_user_per_tier'' else dedup_text (cg_Dedup g))) hc s1))"
    have "(r, s') = rest"
      using assms False ro tp Inr unfolding rest_def s1_def credit_inner_def Let_def by simp
    moreover have "(\<exists>n m. rest = skipped n m ev s1) \<or> (\<exists>g p. signup_grant c t g
        \<and> rest = grant_once sha L granter ev (grant_request sha ev (get_user_id ev) orgID t g p) hc s1)"
    proof (cases "t = [] \<or> tier_by_id c t = None")
      case True
      then show ?thesis unfolding rest_def
        by (cases "t = []") (simp_all only: option.case if_True if_False simp_thms, blast+)
    next
      case False
      then obtain tier where t: "t \<noteq> []" "tier_by_id c t = Some tier" by auto
      show ?thesis
      proof (cases "t_CreditGrant tier")
        case None
        with t show ?thesis unfolding rest_def by (simp_all only: option.case if_False, blast)
      next
        case (Some g)
        have "\<not> cg_AmountPerPeriod g \<le> 0 \<Longrightarrow> 0 < cg_AmountPerPeriod g" by simp
        with t Some show ?thesis unfolding rest_def signup_grant_def
          by (cases "cg_AmountPerPeriod g \<le> 0"; cases "trigger_text (cg_Trigger g) \<noteq> ''signup'' \<and> trigger_text (cg_Trigger g) \<noteq> []")
             (simp_all only: option.case if_True if_False simp_thms, blast+)
      qed
    qed
    ultimately show ?thesis unfolding skipped_def by (metis Pair_inject)
  qed
  with s1 show ?thesis by blast
qed

lemma grant_once_effect:
  assumes "(r, s') = grant_once sha (mem_ledger_store sha) granter ev req hc s" and "cq_DedupKey req \<noteq> []"
  shows "(\<exists>hs. s' = s\<lparr>cr_hooks := hs\<rparr>)
    \<or> sha (cq_DedupKey req) \<notin> set (ml_bizdedup s)
      \<and> (\<exists>e w hs. s' = s\<lparr>cr_world := w, cr_calls := cr_calls s @ [(req, Some e)], cr_hooks := hs\<rparr>
         \<or> s' = s\<lparr>ml_bizdedup := List.insert (sha (cq_DedupKey req)) (ml_bizdedup s), cr_world := w,
                  cr_calls := cr_calls s @ [(req, None)], cr_hooks := hs\<rparr>)"
proof (cases "sha (cq_DedupKey req) \<in> set (ml_bizdedup s)")
  case True
  with assms show ?thesis
    by (auto simp: grant_once_def ctx_already_done_def mem_ledger_store_def ml_already_done_def skipped_def Let_def)
next
  case False
  obtain e w where g: "granter req (cr_world s) = (e, w)" by fastforce
  show ?thesis
  proof (cases e)
    case None
    with assms False g show ?thesis
      by (intro disjI2 conjI exI [of _ undefined] exI [of _ w] exI [of _ "cr_hooks s @ [OnGranted req]"])
         (simp_all add: grant_once_def ctx_already_done_def ctx_mark_done_def mem_ledger_store_def ml_already_done_def ml_mark_done_def Let_def)
  next
    case (Some x)
    with assms False g
    have "s' = s\<lparr>cr_world := w, cr_calls := cr_calls s @ [(req, Some x)], cr_hooks := cr_hooks s @ [OnFailed x ev]\<rparr>"
      by (simp add: grant_once_def ctx_already_done_def mem_ledger_store_def ml_already_done_def Let_def)
    with False show ?thesis by blast
  qed
qed

text \<open>A property of the process that only looks at the calls, the marks and the pins is kept by the
  handler's body once it is kept by pinning and by the two ends of a grant.\<close>

lemma credit_inner_preserves:
  assumes "Q s"
    and pin: "\<And>s u orgID. Q s \<Longrightarrow> Q (s\<lparr>cr_pins := snd (ps_Set P (cr_pins s) u orgID ''auto'')\<rparr>)"
    and other: "\<And>s w hs. Q s \<Longrightarrow> Q (s\<lparr>cr_world := w\<rparr>) \<and> Q (s\<lparr>cr_hooks := hs\<rparr>)"
    and failed: "\<And>s u orgID t g p e. Q s \<Longrightarrow> signup_grant c t g \<Longrightarrow>
        Q (s\<lparr>cr_calls := cr_calls s @ [(grant_request sha ev u orgID t g p, Some e)]\<rparr>)"
    and dn: "\<And>s u orgID t g p. Q s \<Longrightarrow> signup_grant c t g \<Longrightarrow> sha (compose_credit_dedup_key p u orgID t) \<notin> set (ml_bizdedup s) \<Longrightarrow>
        Q (s\<lparr>ml_bizdedup := List.insert (sha (compose_credit_dedup_key p u orgID t)) (ml_bizdedup s),
             cr_calls := cr_calls s @ [(grant_request sha ev u orgID t g p, None)]\<rparr>)"
  shows "Q (snd (credit_inner sha (mem_ledger_store sha) c tp P granter ev he hc s))"
proof -
  obtain r s' where i: "credit_inner sha (mem_ledger_store sha) c tp P granter ev he hc s = (r, s')" by fastforce
  from credit_inner_effect [OF i] obtain s1 hs where s1: "s1 = s \<or> (\<exists>orgID w. s1 = s\<lparr>cr_pins := snd (ps_Set P (cr_pins s) (get_user_id ev) orgID ''auto''), cr_world := w\<rparr>)
        \<or> (\<exists>w. s1 = s\<lparr>cr_world := w\<rparr>)"
    and s': "s' = s1\<lparr>cr_hooks := hs\<rparr>
        \<or> (\<exists>u orgID t g p. signup_grant c t g \<and> (r, s') = grant_once sha (mem_ledger_store sha) granter ev (grant_request sha ev u orgID t g p) hc s1)"
    by blast
  have Q1: "Q s1" using s1 pin [OF assms(1), THEN other, THEN conjunct1] other [OF assms(1)] assms(1) by auto
  from s' show ?thesis
  proof (elim disjE exE conjE)
    assume "s' = s1\<lparr>cr_hooks := hs\<rparr>"
    with other [OF Q1] i show ?thesis by simp
  next
    fix u orgID t g p assume sg: "signup_grant c t g" and g: "(r, s') = grant_once sha (mem_ledger_store sha) granter ev (grant_request sha ev u orgID t g p) hc s1"
    let ?req = "grant_request sha ev u orgID t g p" and ?k = "compose_credit_dedup_key p u orgID t"
    have f: "Q (s1\<lparr>cr_world := w, cr_calls := cr_calls s1 @ [(?req, Some e)], cr_hooks := hs\<rparr>)" for e w hs
      using other [OF failed [OF other [OF Q1, THEN conjunct1, of w] sg, of u orgID p e], THEN conjunct2, of hs] by simp
    have d: "Q (s1\<lparr>ml_bizdedup := List.insert (sha ?k) (ml_bizdedup s1), cr_world := w, cr_calls := cr_calls s1 @ [(?req, None)], cr_hooks := hs\<rparr>)"
      if "sha ?k \<notin> set (ml_bizdedup s1)" for w hs
    proof -
      have "Q (s1\<lparr>ml_bizdedup := List.insert (sha ?k) (ml_bizdedup s1), cr_calls := cr_calls s1 @ [(?req, None)], cr_world := w, cr_hooks := hs\<rparr>)"
        using other [OF other [OF dn [OF Q1 sg that], THEN conjunct1, of w], THEN conjunct2, of hs] by simp
      moreover have "s1\<lparr>ml_bizdedup := b, cr_calls := x, cr_world := w, cr_hooks := hs\<rparr>
          = s1\<lparr>ml_bizdedup := b, cr_world := w, cr_calls := x, cr_hooks := hs\<rparr>" for b x by simp
      ultimately show ?thesis by simp
    qed
    show ?thesis using grant_once_effect [OF g] other [OF Q1] f d i by auto
  qed
qed

text \<open>
  C23. A sign-up is credited once. A receiver that was given the in-memory ledger, with the default handler
  registered over it, serves any sequence of requests one after another, authentic or forged, new or
  repeated, with any retries in between, starting without earlier grants. (Without a ledger the
  receiver remembers nothing, see \<open>nil_ledger_grants_again\<close>.) Then for every business key the
  granter succeeded at most once, whatever the tier provider
  and the granter answer and however many event ids the same sign-up arrives under; and every
  success is marked. The wait between retries is assumed to leave the marks and the calls alone.
\<close>

theorem signup_credited_once:
  assumes "default_receiver T deps cfg" and "cr_calls s = []"
    and "\<And>d s. cr_calls (snd (rn_wait T d s)) = cr_calls s \<and> ml_bizdedup (snd (rn_wait T d s)) = ml_bizdedup s"
  shows "length (granted k (serve T cfg rs s)) \<le> 1
    \<and> (granted k (serve T cfg rs s) \<noteq> [] \<longrightarrow> rn_sha T k \<in> set (ml_bizdedup (serve T cfg rs s)))"
proof -
  have "granted_once (rn_sha T) (serve T cfg rs s)"
  proof (rule default_serve_preserves [where Q = "granted_once (rn_sha T)", OF assms(1)])
    show "granted_once (rn_sha T) (snd (credit_inner (rn_sha T) (mem_ledger_store (rn_sha T)) c tp P granter ev he hc s))"
      if "granted_once (rn_sha T) s" for c tp P granter ev he hc s
    proof (rule credit_inner_preserves [where Q = "granted_once (rn_sha T)", OF that])
      fix s u orgID t g p
      assume "granted_once (rn_sha T) s" and "signup_grant c t g" and "rn_sha T (compose_credit_dedup_key p u orgID t) \<notin> set (ml_bizdedup s)"
      then show "granted_once (rn_sha T) (s\<lparr>ml_bizdedup := List.insert (rn_sha T (compose_credit_dedup_key p u orgID t)) (ml_bizdedup s),
          cr_calls := cr_calls s @ [(grant_request (rn_sha T) ev u orgID t g p, None)]\<rparr>)"
        using granted_once_mark [of "rn_sha T" s "grant_request (rn_sha T) ev u orgID t g p"] by simp
    qed (simp_all add: granted_once_def)
  qed (use assms in \<open>auto simp: granted_once_def\<close>)
  then show ?thesis using granted_once_le granted_once_unmarked by blast
qed

text \<open>
  Only a sign-up grant of the configuration is ever paid out, under the key of its own scope. Every
  call of the granter that any sequence of requests causes is for a tier that the configuration
  declares with a positive amount and with the trigger \<open>signup\<close> or none, for exactly that amount, and
  its billing key and its dedup key are the two keys of one policy, user, org and tier.
\<close>

theorem only_signup_grants:
  assumes "default_receiver T deps cfg" and "cr_calls s = []"
    and "\<And>d s. cr_calls (snd (rn_wait T d s)) = cr_calls s"
    and "cd_Config deps = Some c" and "(req, e) \<in> set (cr_calls (serve T cfg rs s))"
  shows "\<exists>g p. signup_grant c (cq_TierID req) g \<and> cq_Amount req = cg_AmountPerPeriod g
    \<and> cq_IdempotencyKey req = billing_idempotency_key p (cq_UserID req) (cq_OrgID req) (cq_TierID req)
    \<and> cq_DedupKey req = compose_credit_dedup_key p (cq_UserID req) (cq_OrgID req) (cq_TierID req)"
proof -
  define ok where "ok req \<longleftrightarrow> (\<exists>g p. signup_grant c (cq_TierID req) g \<and> cq_Amount req = cg_AmountPerPeriod g
    \<and> cq_IdempotencyKey req = billing_idempotency_key p (cq_UserID req) (cq_OrgID req) (cq_TierID req)
    \<and> cq_DedupKey req = compose_credit_dedup_key p (cq_UserID req) (cq_OrgID req) (cq_TierID req))" for req :: credit_request
  define Q :: "('a, 'b) credit_state \<Rightarrow> bool" where "Q s \<longleftrightarrow> (\<forall>(req, e) \<in> set (cr_calls s). ok req)" for s
  have new: "ok (grant_request sha ev u orgID t g p)" if "signup_grant c t g" for sha ev u orgID t g p
    unfolding ok_def grant_request_simps using that by blast
  have "Q (serve T cfg rs s)"
  proof (rule default_serve_preserves [where Q = Q, OF assms(1)])
    show "Q (snd (credit_inner (rn_sha T) (mem_ledger_store (rn_sha T)) c' tp P granter ev he hc s))"
      if "cd_Config deps = Some c'" "Q s" for c' tp P granter ev he hc s
      using that assms(4) new by (intro credit_inner_preserves [where Q = Q]) (auto simp: Q_def)
  qed (use assms in \<open>auto simp: Q_def\<close>)
  with assms(5) have "ok req" by (auto simp: Q_def)
  then show ?thesis unfolding ok_def .
qed

text \<open>
  What an operator pinned stays pinned. With the in-memory pin store, no sequence of events moves a
  user whose org was set by an operator, nor turns the pin into an automatic one.
\<close>

theorem operator_pin_kept:
  assumes "default_receiver T deps cfg" and "cd_PinStore deps = Some memory_pin_store"
    and "\<And>d s. cr_pins (snd (rn_wait T d s)) = cr_pins s" and "pn_source (cr_pins s) u = ''operator''"
  shows "pn_values (cr_pins (serve T cfg rs s)) u = pn_values (cr_pins s) u \<and> pn_source (cr_pins (serve T cfg rs s)) u = ''operator''"
proof -
  define Q where "Q t \<longleftrightarrow> pn_values (cr_pins t) u = pn_values (cr_pins s) u \<and> pn_source (cr_pins t) u = ''operator''" for t :: "(pins, 'a) credit_state"
  have "Q (serve T cfg rs s)"
  proof (rule default_serve_preserves [where Q = Q, OF assms(1)])
    show "Q (snd (credit_inner (rn_sha T) (mem_ledger_store (rn_sha T)) c tp P granter ev he hc t))"
      if "P = (case cd_PinStore deps of None \<Rightarrow> noop_pin_store | Some P \<Rightarrow> P)" "Q t" for c tp P granter ev he hc t
      using that assms(2) by (intro credit_inner_preserves [where Q = Q]) (auto simp: Q_def memory_pin_store_def mp_set_def)
  qed (use assms in \<open>auto simp: Q_def\<close>)
  then show ?thesis by (simp add: Q_def)
qed

section \<open>A first sign-up\<close>

definition policy_of :: "credit_grant \<Rightarrow> string" where
  "policy_of g = (if dedup_text (cg_Dedup g) = [] then ''per_user_per_tier'' else dedup_text (cg_Dedup g))"

lemma credit_inner_grants:
  assumes "get_user_id ev = u" and "u \<noteq> []" and "get_org_id ev = orgID" and "orgID \<noteq> []"
    and "tp u orgID (cr_world s) = (Inr t, w1)" and "t \<noteq> []" and "signup_grant c t g"
    and "sha (compose_credit_dedup_key (policy_of g) u orgID t) \<notin> set (ml_bizdedup s)"
    and "granter (grant_request sha ev u orgID t g (policy_of g)) w1 = (None, w2)"
  shows "\<exists>s'. credit_inner sha (mem_ledger_store sha) c tp P granter ev he hc s = (Some (SuccessError (get_event_id sha ev)), s')
    \<and> cr_calls s' = cr_calls s @ [(grant_request sha ev u orgID t g (policy_of g), None)]
    \<and> sha (compose_credit_dedup_key (policy_of g) u orgID t) \<in> set (ml_bizdedup s')"
proof -
  obtain tier where t: "tier_by_id c t = Some tier" "t_CreditGrant tier = Some g" "\<not> cg_AmountPerPeriod g \<le> 0"
    "\<not> (trigger_text (cg_Trigger g) \<noteq> ''signup'' \<and> trigger_text (cg_Trigger g) \<noteq> [])"
    using assms(7) by (auto simp: signup_grant_def)
  let ?req = "grant_request sha ev u orgID t g (policy_of g)"
  let ?s1 = "s\<lparr>cr_pins := snd (ps_Set P (cr_pins s) u orgID ''auto''), cr_world := w1\<rparr>"
  have "credit_inner sha (mem_ledger_store sha) c tp P granter ev he hc s = grant_once sha (mem_ledger_store sha) granter ev ?req hc ?s1"
    using assms(1-6) t by (simp add: credit_inner_def resolve_org_def policy_of_def Let_def del: de_Morgan_conj)
  then show ?thesis
    using assms(8,9) by (simp add: grant_once_def ctx_already_done_def ctx_mark_done_def mem_ledger_store_def ml_already_done_def
        ml_mark_done_def grant_request_def Let_def)
qed

lemma dispatch_succeeds:
  assumes "ls_RecordAttempt (mem_ledger_store sha) s (delivery_input (ih_Config h) ev) = (Inr res, s0)" and "atr_Proceed res"
    and "ih_Inner h ev (delivery_context (ih_Config h) ev) s0 = (Some (SuccessError i), s1)"
  shows "\<exists>rs. dispatch wait h ev (mem_ledger_store sha) s = (None, s1\<lparr>ml_rows := rs\<rparr>)"
  using assms
  by (auto simp: dispatch_def run_with_retry_def attempts_loop.simps [of wait] finish_def mem_ledger_store_def ml_record_outcome_def Let_def
      split: option.splits intro: exI [of _ "ml_rows s1"])

text \<open>A well-formed request that is signed under a configured secret and holds the event \<open>ev\<close>.\<close>

definition authentic :: "'s runtime \<Rightarrow> 's receiver_config \<Rightarrow> webhook_request \<Rightarrow> aevent \<Rightarrow> bool" where
  "authentic T cfg r ev \<longleftrightarrow>
     is_webhook_path (wr_Path r) \<and> wr_Method r = ''POST'' \<and> int (length (wr_Body r)) \<le> max_body cfg \<and> \<not> wr_Broken r
     \<and> list_ex (\<lambda>k. verify_hmac (rn_mac T) (wr_Body r) (request_signature r) k) (receiver_secrets cfg)
     \<and> map_option (\<lambda>e. e\<lparr>ae_raw := wr_Body r\<rparr>) (rn_decode T (wr_Body r)) = Some ev"

text \<open>A sign-up of a user on tier \<open>t\<close> with the sign-up grant \<open>g\<close> that neither the ledger nor the business marks know;
  the tier provider leaves the world \<open>w\<close>.\<close>

definition new_signup ::
  "(string \<Rightarrow> string) \<Rightarrow> ('p, 'w) credit_deps \<Rightarrow> aevent \<Rightarrow> string \<Rightarrow> credit_grant \<Rightarrow> 'w \<Rightarrow> ('p, 'w) credit_state \<Rightarrow> bool" where
  "new_signup sha deps ev t g w s \<longleftrightarrow>
     get_event_type ev \<in> {''org.created'', ''user.org_assigned''} \<and> get_user_id ev \<noteq> [] \<and> get_org_id ev \<noteq> [] \<and> t \<noteq> []
     \<and> (\<exists>c tp. cd_Config deps = Some c \<and> cd_TierProvider deps = Some tp \<and> signup_grant c t g
          \<and> tp (get_user_id ev) (get_org_id ev) (cr_world s) = (Inr t, w))
     \<and> sha (compose_credit_dedup_key (policy_of g) (get_user_id ev) (get_org_id ev) t) \<notin> set (ml_bizdedup s)
     \<and> \<not> blocked (ml_now s) (map_of (ml_rows s) (''default_credit_grant'', get_event_id sha ev))"

abbreviation signup_request :: "(string \<Rightarrow> string) \<Rightarrow> aevent \<Rightarrow> string \<Rightarrow> credit_grant \<Rightarrow> credit_request" where
  "signup_request sha ev t g \<equiv> grant_request sha ev (get_user_id ev) (get_org_id ev) t g (policy_of g)"

abbreviation default_body :: "(string \<Rightarrow> string) \<Rightarrow> ('p, 'w) credit_deps \<Rightarrow> aevent \<Rightarrow> ('p, 'w) credit_state inner_handler" where
  "default_body sha deps \<equiv> credit_inner sha (mem_ledger_store sha) (the (cd_Config deps)) (the (cd_TierProvider deps))
     (case cd_PinStore deps of None \<Rightarrow> noop_pin_store | Some P \<Rightarrow> P) (the (cd_Granter deps))"

lemma signup_dispatched:
  assumes "new_signup sha deps ev t g w1 s" and "cd_Granter deps = Some granter"
    and "granter (signup_request sha ev t g) w1 = (None, w2)"
  shows "\<exists>s'. dispatch wait (idempotent credit_handler_config (default_body sha deps ev)) (ledger_event sha ev) (mem_ledger_store sha) s = (None, s')
    \<and> cr_calls s' = cr_calls s @ [(signup_request sha ev t g, None)]
    \<and> sha (compose_credit_dedup_key (policy_of g) (get_user_id ev) (get_org_id ev) t) \<in> set (ml_bizdedup s')"
proof -
  define u orgID where u: "u = get_user_id ev" and org: "orgID = get_org_id ev"
  obtain c tp where n: "u \<noteq> []" "orgID \<noteq> []" "t \<noteq> []" "cd_Config deps = Some c" "cd_TierProvider deps = Some tp"
    "signup_grant c t g" "tp u orgID (cr_world s) = (Inr t, w1)"
    "sha (compose_credit_dedup_key (policy_of g) u orgID t) \<notin> set (ml_bizdedup s)"
    "\<not> blocked (ml_now s) (map_of (ml_rows s) (''default_credit_grant'', get_event_id sha ev))"
    using assms(1) by (auto simp: new_signup_def u org)
  let ?L = "mem_ledger_store sha" and ?P = "case cd_PinStore deps of None \<Rightarrow> noop_pin_store | Some P \<Rightarrow> P"
  let ?ih = "idempotent credit_handler_config (default_body sha deps ev)" and ?le = "ledger_event sha ev"
  have cfgs: "ic_Handler (ih_Config ?ih) = ''default_credit_grant''" "ih_Inner ?ih = credit_inner sha ?L c tp ?P granter ev"
    by (simp_all add: idempotent_def credit_handler_config_def n(4,5) assms(2))
  have key: "delivery_key ?ih ?le = (''default_credit_grant'', get_event_id sha ev)" by (simp add: cfgs ledger_event_def)
  obtain res rs where a: "ls_RecordAttempt ?L s (delivery_input (ih_Config ?ih) ?le) = (Inr res, s\<lparr>ml_rows := rs\<rparr>)"
    using ml_attempt_shape by blast
  have proceed: "atr_Proceed res" using ml.attempt_opens [OF a] n(9) key by simp
  obtain s1 where i: "ih_Inner ?ih ?le (delivery_context (ih_Config ?ih) ?le) (s\<lparr>ml_rows := rs\<rparr>) = (Some (SuccessError (get_event_id sha ev)), s1)"
    and s1: "cr_calls s1 = cr_calls s @ [(grant_request sha ev u orgID t g (policy_of g), None)]"
      "sha (compose_credit_dedup_key (policy_of g) u orgID t) \<in> set (ml_bizdedup s1)"
    unfolding cfgs(2)
    using credit_inner_grants [where s = "s\<lparr>ml_rows := rs\<rparr>" and tp = tp and granter = granter and sha = sha and P = ?P
        and he = ?le and hc = "delivery_context (ih_Config ?ih) ?le",
        OF u [symmetric] n(1) org [symmetric] n(2) _ n(3,6) _ assms(3) [folded u org]] n(7,8) by auto
  obtain rs' where "dispatch wait ?ih ?le ?L s = (None, s1\<lparr>ml_rows := rs'\<rparr>)"
    using dispatch_succeeds [OF a proceed i] by blast
  with s1 show ?thesis unfolding u org by simp
qed

text \<open>The only handler of both event types, and an authentic event that is passed to it.\<close>

lemma default_handled:
  assumes "register_default_credit_grant_handler (rn_sha T) (mem_ledger_store (rn_sha T)) addr deps [] = Inr (rv_Registry cfg)"
    and "authentic T cfg r ev" and "get_event_type ev \<in> {''org.created'', ''user.org_assigned''}"
    and "\<And>h. hd_Body h = HIdempotent credit_handler_config (default_body (rn_sha T) deps) \<Longrightarrow>
       dispatch_one T (rv_LedgerStore cfg) h ev s = (None, s')"
  shows "make_router T cfg r s = (write_json 200 [(''status'', JStr ''ok''), (''ran'', JNum (Fin 1)), (''event_type'', JStr (get_event_type ev))], s')"
proof -
  obtain h where b: "build_default_credit_grant_handler (rn_sha T) (mem_ledger_store (rn_sha T)) addr deps = Inr h"
    and r: "rv_Registry cfg = on_auth_event (on_auth_event [] ''org.created'' h) ''user.org_assigned'' h"
    using assms(1) by (cases "build_default_credit_grant_handler (rn_sha T) (mem_ledger_store (rn_sha T)) addr deps")
      (auto simp: register_default_credit_grant_handler_def)
  have "handlers_of (rv_Registry cfg) (get_event_type ev) = [h]" using assms(3) unfolding r by (auto simp: on_auth_event_def handlers_of_def)
  moreover have "hd_Body h = HIdempotent credit_handler_config (default_body (rn_sha T) deps)"
    using b by (auto simp: build_default_credit_grant_handler_def Let_def split: option.split_asm)
  ultimately show ?thesis using assms(2,4) by (auto simp: authentic_def make_router_def Let_def)
qed

lemma signup_delivered:
  assumes "default_receiver T deps cfg" and "authentic T cfg r ev" and "new_signup (rn_sha T) deps ev t g w1 s"
    and "cd_Granter deps = Some granter" and "granter (signup_request (rn_sha T) ev t g) w1 = (None, w2)"
  shows "\<exists>s'. make_router T cfg r s = (write_json 200 [(''status'', JStr ''ok''), (''ran'', JNum (Fin 1)), (''event_type'', JStr (get_event_type ev))], s')
    \<and> cr_calls s' = cr_calls s @ [(signup_request (rn_sha T) ev t g, None)]
    \<and> rn_sha T (compose_credit_dedup_key (policy_of g) (get_user_id ev) (get_org_id ev) t) \<in> set (ml_bizdedup s')"
proof -
  from signup_dispatched [OF assms(3-5)] obtain s'
    where s': "dispatch (rn_wait T) (idempotent credit_handler_config (default_body (rn_sha T) deps ev)) (ledger_event (rn_sha T) ev) (mem_ledger_store (rn_sha T)) s = (None, s')"
      "cr_calls s' = cr_calls s @ [(signup_request (rn_sha T) ev t g, None)]"
      "rn_sha T (compose_credit_dedup_key (policy_of g) (get_user_id ev) (get_org_id ev) t) \<in> set (ml_bizdedup s')" by blast
  obtain addr where "register_default_credit_grant_handler (rn_sha T) (mem_ledger_store (rn_sha T)) addr deps [] = Inr (rv_Registry cfg)"
    and L: "rv_LedgerStore cfg = Some (mem_ledger_store (rn_sha T))" using assms(1) by (auto simp: default_receiver_def Let_def)
  from default_handled [OF this(1) assms(2), of s s'] assms(3) L s' show ?thesis
    by (auto simp: new_signup_def dispatch_one_def Let_def)
qed

text \<open>
  A first sign-up is credited. An authentic, well-formed delivery of a sign-up event, for a user whose
  tier has a sign-up grant, that the ledger has not handled and whose business key is not marked,
  leads to exactly one further call of the granter, for that grant; when the granter succeeds the
  answer is 200 with one handler run and the key is marked.
\<close>

theorem signup_gets_credit:
  assumes "default_receiver T deps cfg" and "authentic T cfg r ev" and "new_signup (rn_sha T) deps ev t g w1 s"
    and "cd_Granter deps = Some granter" and "granter (signup_request (rn_sha T) ev t g) w1 = (None, w2)"
  shows "\<exists>s'. make_router T cfg r s = (write_json 200 [(''status'', JStr ''ok''), (''ran'', JNum (Fin 1)), (''event_type'', JStr (get_event_type ev))], s')
    \<and> cr_calls s' = cr_calls s @ [(signup_request (rn_sha T) ev t g, None)]
    \<and> rn_sha T (compose_credit_dedup_key (policy_of g) (get_user_id ev) (get_org_id ev) t) \<in> set (ml_bizdedup s')"
  using assms by (rule signup_delivered)

section \<open>Without a ledger\<close>

text \<open>
  A receiver without a configured ledger remembers nothing: \<open>Dispatch\<close> replaces the nil store by a new
  in-memory one per call, not by one that is kept, so every delivery of a sign-up calls the granter
  again, however often its event was handled and its key marked before, and the process keeps no row
  and no mark of it. Only billing's own dedup on the idempotency key is then between a redelivery and
  a second credit.
\<close>

theorem nil_ledger_grants_again:
  assumes "register_default_credit_grant_handler (rn_sha T) (mem_ledger_store (rn_sha T)) addr deps [] = Inr (rv_Registry cfg)"
    and "rv_LedgerStore cfg = None" and "authentic T cfg r ev"
    and "new_signup (rn_sha T) deps ev t g w1 (s\<lparr>ml_rows := [], ml_bizdedup := []\<rparr>)"
    and "cd_Granter deps = Some granter" and "granter (signup_request (rn_sha T) ev t g) w1 = (None, w2)"
  shows "\<exists>resp s'. make_router T cfg r s = (resp, s') \<and> cr_calls s' = cr_calls s @ [(signup_request (rn_sha T) ev t g, None)]
    \<and> ml_rows s' = ml_rows s \<and> ml_bizdedup s' = ml_bizdedup s"
proof -
  from signup_dispatched [OF assms(4-6)] obtain s'
    where s': "dispatch (rn_wait T) (idempotent credit_handler_config (default_body (rn_sha T) deps ev)) (ledger_event (rn_sha T) ev)
        (mem_ledger_store (rn_sha T)) (s\<lparr>ml_rows := [], ml_bizdedup := []\<rparr>) = (None, s')"
      "cr_calls s' = cr_calls s @ [(signup_request (rn_sha T) ev t g, None)]" by auto
  let ?s = "s'\<lparr>ml_rows := ml_rows s, ml_bizdedup := ml_bizdedup s\<rparr>"
  have "dispatch_one T (rv_LedgerStore cfg) h ev s = (None, ?s)"
    if "hd_Body h = HIdempotent credit_handler_config (default_body (rn_sha T) deps)" for h
    using that assms(2) s'(1) by (simp add: dispatch_one_def dispatch_nil_def Let_def)
  with default_handled [OF assms(1,3), of s ?s] assms(4) s'(2) show ?thesis by (auto simp: new_signup_def)
qed

section \<open>The two keys of a grant\<close>

text \<open>The scope of a policy: whose grant it is, and the tier unless the policy is global. Both keys are its
  segments joined by colons.\<close>

definition grant_scope :: "string \<Rightarrow> string \<Rightarrow> string \<Rightarrow> string \<Rightarrow> string \<times> string \<times> string list" where
  "grant_scope p u orgID t =
     (if p = ''per_org_per_tier'' then (''org'', orgID, [t]) else if p = ''per_user_global'' then (''user'', u, [])
      else if p = ''per_org_global'' then (''org'', orgID, []) else (''user'', u, [t]))"

lemma scope_keys:
  assumes "grant_scope p u orgID t = (kind, i, tier)"
  shows "compose_credit_dedup_key p u orgID t = join_with '':'' ([''credit_granted'', kind, i] @ tier)"
    "billing_idempotency_key p u orgID t = join_with '':'' ([kind, i, ''initial_credit''] @ tier)"
  using assms by (auto simp: grant_scope_def compose_credit_dedup_key_def billing_idempotency_key_def Let_def split: if_splits)

lemma join_inj:
  assumes "ws \<noteq> []" and "vs \<noteq> []" and "\<forall>w \<in> set ws \<union> set vs. c \<notin> set w"
  shows "join_with [c] ws = join_with [c] vs \<longleftrightarrow> ws = vs"
  using join_split [of ws c] join_split [of vs c] assms by (metis UnCI)

text \<open>
  The key the library marks and the key it sends to billing name the same scope. For ids without a
  colon, two grants have the same dedup key exactly when they have the same billing key, whatever
  their policies: what billing refuses as a repeat is what the library takes for one, and a grant
  that the library's ledger has forgotten is still recognised there.
\<close>

theorem credit_keys_agree:
  assumes "CHR '':'' \<notin> set u \<union> set orgID \<union> set t" and "CHR '':'' \<notin> set u' \<union> set orgID' \<union> set t'"
  shows "compose_credit_dedup_key p u orgID t = compose_credit_dedup_key p' u' orgID' t'
    \<longleftrightarrow> billing_idempotency_key p u orgID t = billing_idempotency_key p' u' orgID' t'"
proof -
  obtain kind i tier where k: "grant_scope p u orgID t = (kind, i, tier)" using prod_cases3 by blast
  obtain kind' i' tier' where k': "grant_scope p' u' orgID' t' = (kind', i', tier')" using prod_cases3 by blast
  have c: "\<forall>w \<in> {kind, i, kind', i'} \<union> set tier \<union> set tier'. CHR '':'' \<notin> set w"
    using k k' assms by (auto simp: grant_scope_def split: if_splits)
  show ?thesis
    unfolding scope_keys [OF k] scope_keys [OF k'] using c by (subst (1 2) join_inj) auto
qed

section \<open>A deployment\<close>

text \<open>A tier with a gift of 5, a granter that counts the grants it makes, and an auth service signs with \<open>key\<close> and
  sends one sign-up under several event ids.\<close>

definition gift :: credit_grant where
  "gift = \<lparr>cg_Trigger = TriggerSignup, cg_AmountPerPeriod = 5, cg_Currency = ''USD'', cg_Lifecycle = LifecyclePersistent,
     cg_RolloverMaxPeriods = None, cg_Destination = DestCreditBalance, cg_ResetOnDowngrade = False, cg_ResetOnUpgrade = False,
     cg_Dedup = DedupPerUserPerTier\<rparr>"

definition gift_config :: config where
  "gift_config = small_config\<lparr>c_Tiers := [(plain_tier ''free'' [])\<lparr>t_CreditGrant := Some gift\<rparr>]\<rparr>"

definition signup :: "string \<Rightarrow> aevent" where
  "signup eid = \<lparr>ae_EventType = ''org.created'', ae_EventID = eid, ae_Type = [], ae_ID = [], ae_OccurredAt = 0, ae_Timestamp = 0,
     ae_Data = [(''user_id'', JStr ''u1''), (''org_id'', JStr ''o1'')], ae_TenantID = [], ae_UserIDTop = [], ae_ActorID = [],
     ae_ResourceID = [], ae_ResourceType = [], ae_Metadata = [], ae_CorrelationID = [], ae_CausationID = [], ae_raw = []\<rparr>"

definition gift_deps :: "(pins, nat) credit_deps" where
  "gift_deps = \<lparr>cd_Config = Some gift_config, cd_TierProvider = Some (\<lambda>_ _ w. (Inr ''free'', w)), cd_PinStore = Some memory_pin_store,
     cd_Granter = Some (\<lambda>_ w. (None, Suc w))\<rparr>"

definition gift_runtime :: "(pins, nat) credit_state runtime" where
  "gift_runtime = \<lparr>rn_mac = (\<lambda>k b. k @ b), rn_sha = id, rn_decode = (\<lambda>b. Some (signup b)), rn_wait = (\<lambda>_ s. (None, s))\<rparr>"

definition gift_handler :: "(pins, nat) credit_state handler" where
  "gift_handler = \<lparr>hd_Kind = KindPtr, hd_Ptr = 7, hd_Body = HIdempotent credit_handler_config
     (credit_inner id (mem_ledger_store id) gift_config (\<lambda>_ _ w. (Inr ''free'', w)) memory_pin_store
        (\<lambda>_ w. (None, Suc w)))\<rparr>"

definition gift_receiver :: "(pins, nat) credit_state receiver_config" where
  "gift_receiver = \<lparr>rv_Secret = ''key'', rv_Registry = [(''org.created'', [gift_handler]), (''user.org_assigned'', [gift_handler])],
     rv_LedgerStore = Some (mem_ledger_store id), rv_PreviousSecrets = [], rv_MaxBodyBytes = 0\<rparr>"

definition post :: "string \<Rightarrow> webhook_request" where
  "post body = \<lparr>wr_Path = ''/api/quotas/_webhooks/auth'', wr_Method = ''POST'',
     wr_Header = (\<lambda>h. if h = ''X-Event-Signature'' then sign_body (\<lambda>k b. k @ b) body ''key'' else []), wr_Body = body, wr_Broken = False\<rparr>"

definition gift_state :: "(pins, nat) credit_state" where
  "gift_state = \<lparr>ml_rows = [], ml_bizdedup = [], ml_now = 0, cr_pins = new_memory_pin_store, cr_world = 0, cr_calls = [], cr_hooks = []\<rparr>"

lemma gift_default: "default_receiver gift_runtime gift_deps gift_receiver"
  unfolding default_receiver_def Let_def
  by (intro conjI exI [of _ 7])
     (simp_all add: gift_receiver_def gift_runtime_def register_default_credit_grant_handler_def build_default_credit_grant_handler_def
       gift_deps_def on_auth_event_def handlers_of_def handlers_equal_def gift_handler_def)

lemma gift_authentic: "authentic gift_runtime gift_receiver (post ''e1'') ((signup ''e1'')\<lparr>ae_raw := ''e1''\<rparr>)"
proof -
  have "verify_hmac (\<lambda>k b. k @ b) ''e1'' (sign_body (\<lambda>k b. k @ b) ''e1'' ''key'') ''key''"
    by (rule signed_body_verifies(1)) simp_all
  then show ?thesis
    by (simp add: authentic_def gift_runtime_def gift_receiver_def post_def is_webhook_path_def has_suffix_def webhook_path_def
        request_signature_def receiver_secrets_def max_body_def sign_body_def hex_text_def hex_encode_def)
qed

lemma gift_grant: "signup_grant gift_config ''free'' gift"
  by (simp add: signup_grant_def gift_config_def tier_by_id_def plain_tier_def gift_def)

lemma gift_signup: "get_event_type ((signup e)\<lparr>ae_raw := b\<rparr>) = ''org.created''" "get_user_id ((signup e)\<lparr>ae_raw := b\<rparr>) = ''u1''"
  "get_org_id ((signup e)\<lparr>ae_raw := b\<rparr>) = ''o1''" "e \<noteq> [] \<Longrightarrow> get_event_id sha ((signup e)\<lparr>ae_raw := b\<rparr>) = e"
  by (simp_all add: signup_def get_event_type_def get_user_id_def get_org_id_def get_event_id_def)

lemma gift_new: "new_signup id gift_deps ((signup ''e1'')\<lparr>ae_raw := ''e1''\<rparr>) ''free'' gift 0 gift_state"
  using gift_grant by (simp add: new_signup_def gift_signup gift_deps_def gift_state_def blocked_def)

lemma gift_simps: "cd_Granter gift_deps = Some (\<lambda>_ w. (None, Suc w))" "rn_sha gift_runtime = id" "cr_calls gift_state = []"
  by (simp_all add: gift_deps_def gift_runtime_def gift_state_def)

lemma gift_new': "new_signup (rn_sha gift_runtime) gift_deps ((signup ''e1'')\<lparr>ae_raw := ''e1''\<rparr>) ''free'' gift 0 gift_state"
  unfolding gift_simps by (rule gift_new)

lemma gift_once: "\<exists>resp s'. make_router gift_runtime gift_receiver (post ''e1'') gift_state = (resp, s') \<and> length (cr_calls s') = 1"
  using signup_delivered [OF gift_default gift_authentic gift_new' gift_simps(1) refl] unfolding gift_simps by auto

theorem signup_gets_credit_witness:
  "\<exists>resp s'. make_router gift_runtime gift_receiver (post ''e1'') gift_state = (resp, s') \<and> wp_Code resp = 200 \<and> map snd (cr_calls s') = [None]
     \<and> map (cq_IdempotencyKey \<circ> fst) (cr_calls s') = [''user:u1:initial_credit:free'']"
  using signup_gets_credit [OF gift_default gift_authentic gift_new' gift_simps(1) refl] unfolding gift_simps gift_signup
  by (auto simp: policy_of_def gift_def billing_idempotency_key_def write_json_def)

theorem signup_credited_once_witness:
  "length (granted ''credit_granted:user:u1:free'' (serve gift_runtime gift_receiver [post ''e1'', post ''e2'', post ''e1''] gift_state)) \<le> 1"
proof -
  have w: "cr_calls (snd (rn_wait gift_runtime d s)) = cr_calls s \<and> ml_bizdedup (snd (rn_wait gift_runtime d s)) = ml_bizdedup s" for d s
    by (simp add: gift_runtime_def)
  have "cr_calls gift_state = []" by (simp add: gift_state_def)
  from signup_credited_once [OF gift_default this w] show ?thesis by blast
qed

theorem only_signup_grants_witness:
  "\<exists>req e g. cr_calls (serve gift_runtime gift_receiver [post ''e1''] gift_state) = [(req, e)] \<and> signup_grant gift_config (cq_TierID req) g"
proof -
  have w: "cr_calls (snd (rn_wait gift_runtime d s)) = cr_calls s" for d s by (simp add: gift_runtime_def)
  have z: "cr_calls gift_state = []" "cd_Config gift_deps = Some gift_config" by (simp_all add: gift_state_def gift_deps_def)
  obtain req e where c: "cr_calls (serve gift_runtime gift_receiver [post ''e1''] gift_state) = [(req, e)]"
    using gift_once by (auto simp: length_Suc_conv)
  then have "(req, e) \<in> set (cr_calls (serve gift_runtime gift_receiver [post ''e1''] gift_state))" by simp
  from only_signup_grants [OF gift_default z(1) w z(2) this] c show ?thesis by blast
qed

theorem operator_pin_kept_witness:
  "pn_values (cr_pins (serve gift_runtime gift_receiver [post ''e1''] (gift_state\<lparr>cr_pins := snd (mp_set new_memory_pin_store ''u1'' ''hq'' ''operator'')\<rparr>))) ''u1'' = ''hq''"
proof -
  let ?s = "gift_state\<lparr>cr_pins := snd (mp_set new_memory_pin_store ''u1'' ''hq'' ''operator'')\<rparr>"
  have w: "cr_pins (snd (rn_wait gift_runtime d s)) = cr_pins s" for d s by (simp add: gift_runtime_def)
  have p: "pn_source (cr_pins ?s) ''u1'' = ''operator''" "cd_PinStore gift_deps = Some memory_pin_store"
    by (simp_all add: mp_set_def new_memory_pin_store_def gift_deps_def)
  from operator_pin_kept [OF gift_default p(2) w p(1), of "[post ''e1'']"] show ?thesis by (simp add: mp_set_def new_memory_pin_store_def)
qed

theorem forged_event_changes_nothing_witness:
  "snd (make_router gift_runtime gift_receiver ((post ''e1'')\<lparr>wr_Body := ''e2''\<rparr>) gift_state) = gift_state"
proof -
  have "request_signature ((post ''e1'')\<lparr>wr_Body := ''e2''\<rparr>) = hex_text ''keye1''" by (simp add: request_signature_def post_def sign_body_def hex_text_def hex_encode_def)
  moreover have "\<not> has_prefix (hex_text ''keye1'') ''sha256=''" by code_simp
  ultimately have "signature_bytes (request_signature ((post ''e1'')\<lparr>wr_Body := ''e2''\<rparr>)) = Some ''keye1''"
    by (simp add: signature_bytes_def hex_decode_text)
  then show ?thesis
    using forged_event_changes_nothing [of gift_receiver "(post ''e1'')\<lparr>wr_Body := ''e2''\<rparr>" gift_runtime gift_state]
    by (simp add: gift_receiver_def gift_runtime_def)
qed

lemma nil_ledger_simps:
  "max_body (cfg\<lparr>rv_LedgerStore := l\<rparr>) = max_body cfg" "receiver_secrets (cfg\<lparr>rv_LedgerStore := l\<rparr>) = receiver_secrets cfg"
  by (simp_all add: max_body_def receiver_secrets_def)

theorem nil_ledger_grants_again_witness:
  "\<exists>resp s'. make_router gift_runtime (gift_receiver\<lparr>rv_LedgerStore := None\<rparr>) (post ''e1'')
      (gift_state\<lparr>ml_bizdedup := [''credit_granted:user:u1:free'']\<rparr>) = (resp, s') \<and> map snd (cr_calls s') = [None]"
proof -
  let ?cfg = "gift_receiver\<lparr>rv_LedgerStore := None\<rparr>" and ?s = "gift_state\<lparr>ml_bizdedup := [''credit_granted:user:u1:free'']\<rparr>"
  have r: "register_default_credit_grant_handler (rn_sha gift_runtime) (mem_ledger_store (rn_sha gift_runtime)) 7 gift_deps [] = Inr (rv_Registry ?cfg)"
    by (simp add: gift_receiver_def gift_runtime_def register_default_credit_grant_handler_def build_default_credit_grant_handler_def
       gift_deps_def on_auth_event_def handlers_of_def handlers_equal_def gift_handler_def)
  have a: "authentic gift_runtime ?cfg (post ''e1'') ((signup ''e1'')\<lparr>ae_raw := ''e1''\<rparr>)"
    using gift_authentic by (simp add: authentic_def nil_ledger_simps)
  have "?s\<lparr>ml_rows := [], ml_bizdedup := []\<rparr> = gift_state" by (simp add: gift_state_def)
  with gift_new have n: "new_signup (rn_sha gift_runtime) gift_deps ((signup ''e1'')\<lparr>ae_raw := ''e1''\<rparr>) ''free'' gift 0 (?s\<lparr>ml_rows := [], ml_bizdedup := []\<rparr>)"
    by (simp add: gift_runtime_def)
  have l: "rv_LedgerStore ?cfg = None" by simp
  from nil_ledger_grants_again [OF r l a n gift_simps(1) refl] show ?thesis by (auto simp: gift_simps)
qed

theorem credit_keys_agree_witness:
  "compose_credit_dedup_key ''per_org_per_tier'' ''u1'' ''o1'' ''pro'' \<noteq> compose_credit_dedup_key ''per_org_global'' ''u2'' ''o1'' ''pro''"
  using credit_keys_agree [of "''u1''" "''o1''" "''pro''" "''u2''" "''o1''" "''pro''" "''per_org_per_tier''" "''per_org_global''"]
  by (simp add: billing_idempotency_key_def)

end
