(* ===== verification/Billing.thy ===== *)
theory Billing
  imports HttpClient Outbox
begin

text \<open>
  The typed clients of the billing and payment services (\<open>billing/client.go\<close>, \<open>models.go\<close>,
  \<open>heartbeat.go\<close>, \<open>lifecycle.go\<close>, \<open>payment/client.go\<close>, \<open>models.go\<close>), the resolution of their URLs
  (\<open>mesh/urls.go\<close>) and the settler of the outbox over the billing client (\<open>quota/settler.go\<close>). A
  client is an \<open>httpx\<close> client with the JSON codec of its bodies and replies, which is an argument;
  money is an exact rational.
\<close>

section \<open>Where the services are\<close>

record mesh_urls =
  mu_Billing :: string
  mu_Payment :: string
  mu_Token :: string
  mu_BillingToken :: string
  mu_PaymentToken :: string

definition trim_right :: "char \<Rightarrow> string \<Rightarrow> string" where
  "trim_right c s = rev (dropWhile (\<lambda>x. x = c) (rev s))"

fun first_non_empty :: "string list \<Rightarrow> string" where
  "first_non_empty [] = []"
| "first_non_empty (v # vs) = (if v \<noteq> [] then v else first_non_empty vs)"

definition mesh_resolve :: "(string \<Rightarrow> string) \<Rightarrow> mesh_urls" where
  "mesh_resolve getenv =
     (let shared = getenv ''AB0T_QUOTA_SERVICE_TOKEN'' in
      \<lparr>mu_Billing = trim_right (CHR ''/'') (getenv ''AB0T_QUOTA_BILLING_URL''),
       mu_Payment = trim_right (CHR ''/'') (getenv ''AB0T_QUOTA_PAYMENT_URL''),
       mu_Token = shared,
       mu_BillingToken = first_non_empty [getenv ''AB0T_QUOTA_BILLING_TOKEN'', shared],
       mu_PaymentToken = first_non_empty [getenv ''AB0T_QUOTA_PAYMENT_TOKEN'', shared]\<rparr>)"

section \<open>Bodies and replies\<close>

record promotional_credit_request =
  pc_Amount :: rat
  pc_Reason :: string
  pc_IdempotencyKey :: string

record apply_credit_grant_request =
  ag_Amount :: rat
  ag_Destination :: string
  ag_Lifecycle :: string
  ag_RolloverMax :: "rat option"
  ag_Source :: string
  ag_SourceTier :: string
  ag_IdempotencyKey :: string
  ag_Reason :: string

record settle_activation_request =
  sq_SettlementKey :: string
  sq_StartedAt :: string
  sq_StoppedAt :: string
  sq_HourlyRate :: string
  sq_AllocationFee :: string
  sq_ReservationID :: string
  sq_UsageRecordID :: string

record heartbeat_request =
  hb_ServiceName :: string
  hb_Version :: string
  hb_Capability :: string

record quota_check_request =
  qr_UserID :: string
  qr_OrgID :: string
  qr_ResourceKey :: string
  qr_Cost :: f64

record record_usage_request =
  ur_OrgID :: string
  ur_UserID :: string
  ur_ToolID :: string
  ur_SessionID :: string
  ur_RequestID :: string
  ur_InputTokens :: int
  ur_OutputTokens :: int
  ur_ComputeTime :: f64
  ur_ResourceType :: string
  ur_ReservationID :: string
  ur_Cost :: string
  ur_PlatformFee :: string
  ur_Timestamp :: string
  ur_Metadata :: "(string \<times> json) list"

datatype billing_body = BPromo promotional_credit_request | BGrant apply_credit_grant_request
  | BSettle settle_activation_request | BHeartbeat heartbeat_request | BCheck quota_check_request
  | BUsage record_usage_request

record update_balance_response =
  ub_OrgID :: string
  ub_OldBalance :: rat
  ub_NewBalance :: rat
  ub_Amount :: rat
  ub_Operation :: string
  ub_AvailableBalance :: rat
  ub_PaymentID :: string
  ub_PaymentMethod :: string
  ub_Description :: string
  ub_FundingSource :: string
  ub_AdminUserID :: string
  ub_Metadata :: "(string \<times> json) list"

record settle_activation_response =
  sa_Status :: string
  sa_SettlementKey :: string
  sa_OrgID :: string
  sa_ActualCost :: string
  sa_NewBalance :: string
  sa_SpentFromSubscriptionCredit :: string
  sa_SpentFromCreditBalance :: string
  sa_SpentFromBalance :: string
  sa_SettledAt :: string
  sa_Replayed :: bool

record quota_check_response =
  qp_Allowed :: bool
  qp_Limit :: "f64 option"
  qp_Used :: f64
  qp_Reason :: string
  qp_Detail :: string
  qp_UpgradeURL :: string

record subscription =
  sb_SubscriptionID :: string
  sb_OrgID :: string
  sb_TierID :: string
  sb_Status :: string
  sb_CurrentPeriodStart :: string
  sb_CurrentPeriodEnd :: string
  sb_CancelAtPeriodEnd :: bool

record usage =
  us_Used :: f64
  us_Limit :: "f64 option"

record usage_summary =
  um_OrgID :: string
  um_Period :: string
  um_Resources :: "(string \<times> usage) list"
  um_Spend :: rat
  um_GeneratedAt :: string
  um_StartDate :: string
  um_EndDate :: string
  um_Summary :: "(string \<times> json) list"
  um_GroupBy :: "string list"

record 'w billing_client =
  bl_HTTP :: "'w httpx_client"
  bl_Encode :: "billing_body \<Rightarrow> string option"
  bl_Balance :: "string \<Rightarrow> update_balance_response option"
  bl_Settle :: "string \<Rightarrow> settle_activation_response option"
  bl_Check :: "string \<Rightarrow> quota_check_response option"
  bl_Subscription :: "string \<Rightarrow> subscription option"
  bl_Summary :: "string \<Rightarrow> usage_summary option"

definition balance_zero :: update_balance_response where
  "balance_zero = \<lparr>ub_OrgID = [], ub_OldBalance = 0, ub_NewBalance = 0, ub_Amount = 0, ub_Operation = [],
     ub_AvailableBalance = 0, ub_PaymentID = [], ub_PaymentMethod = [], ub_Description = [], ub_FundingSource = [],
     ub_AdminUserID = [], ub_Metadata = []\<rparr>"

definition settle_zero :: settle_activation_response where
  "settle_zero = \<lparr>sa_Status = [], sa_SettlementKey = [], sa_OrgID = [], sa_ActualCost = [], sa_NewBalance = [],
     sa_SpentFromSubscriptionCredit = [], sa_SpentFromCreditBalance = [], sa_SpentFromBalance = [], sa_SettledAt = [],
     sa_Replayed = False\<rparr>"

definition check_zero :: quota_check_response where
  "check_zero = \<lparr>qp_Allowed = False, qp_Limit = None, qp_Used = Fin 0, qp_Reason = [], qp_Detail = [], qp_UpgradeURL = []\<rparr>"

definition subscription_zero :: subscription where
  "subscription_zero = \<lparr>sb_SubscriptionID = [], sb_OrgID = [], sb_TierID = [], sb_Status = [],
     sb_CurrentPeriodStart = [], sb_CurrentPeriodEnd = [], sb_CancelAtPeriodEnd = False\<rparr>"

definition summary_zero :: usage_summary where
  "summary_zero = \<lparr>um_OrgID = [], um_Period = [], um_Resources = [], um_Spend = 0, um_GeneratedAt = [], um_StartDate = [],
     um_EndDate = [], um_Summary = [], um_GroupBy = []\<rparr>"

section \<open>The billing client\<close>

definition new_billing :: "mesh_urls \<Rightarrow> 'w billing_client \<Rightarrow> client_err + 'w billing_client" where
  "new_billing u c =
     (if mu_Billing u = [] then Inl (ClientErr ''billing'' ''AB0T_QUOTA_BILLING_URL not set'')
      else Inr (c\<lparr>bl_HTTP := (bl_HTTP c)\<lparr>hx_BaseURL := mu_Billing u, hx_Token := mu_BillingToken u\<rparr>\<rparr>))"

definition seg :: "string \<Rightarrow> string \<Rightarrow> string \<Rightarrow> client_err + string" where
  "seg op what s = (case path_segment what s of Inl e \<Rightarrow> Inl (ClientWrap op e) | Inr v \<Rightarrow> Inr v)"

definition check_grant :: "string \<Rightarrow> string \<Rightarrow> rat \<Rightarrow> string \<Rightarrow> client_err option" where
  "check_grant op orgID amount key =
     (if trim_space orgID = [] then Some (ClientErr op ''org id is required'')
      else if amount \<le> 0 then Some (ClientErr op ''amount must be > 0'')
      else if trim_space key = [] then Some (ClientErr op ''idempotency key is required'')
      else None)"

definition check_quota ::
  "'w billing_client \<Rightarrow> quota_check_request \<Rightarrow> 'w \<Rightarrow> (client_err + quota_check_response) \<times> 'w" where
  "check_quota c inp w =
     httpx_POST (bl_HTTP c) ''/billing/quota/check'' (bl_Encode c (BCheck inp)) check_zero (Some (bl_Check c)) w"

definition get_usage_summary :: "'w billing_client \<Rightarrow> string \<Rightarrow> 'w \<Rightarrow> (client_err + usage_summary) \<times> 'w" where
  "get_usage_summary c orgID w =
     (case seg ''GetUsageSummary'' ''org id'' orgID of
        Inl e \<Rightarrow> (Inl e, w)
      | Inr org \<Rightarrow> httpx_GET (bl_HTTP c) (''/billing/usage/'' @ org @ ''/summary'') summary_zero (Some (bl_Summary c)) w)"

definition grant_promotional_credit ::
  "'w billing_client \<Rightarrow> string \<Rightarrow> promotional_credit_request \<Rightarrow> 'w \<Rightarrow> (client_err + update_balance_response) \<times> 'w" where
  "grant_promotional_credit c orgID inp w =
     (let op = ''GrantPromotionalCredit'' in
      case check_grant op orgID (pc_Amount inp) (pc_IdempotencyKey inp) of
        Some e \<Rightarrow> (Inl e, w)
      | None \<Rightarrow>
         (case seg op ''org id'' orgID of
            Inl e \<Rightarrow> (Inl e, w)
          | Inr org \<Rightarrow> httpx_POST (bl_HTTP c) (''/billing/'' @ org @ ''/promotional-credit'') (bl_Encode c (BPromo inp))
                        balance_zero (Some (bl_Balance c)) w))"

definition apply_credit_grant ::
  "'w billing_client \<Rightarrow> string \<Rightarrow> apply_credit_grant_request \<Rightarrow> 'w \<Rightarrow> (client_err + update_balance_response) \<times> 'w" where
  "apply_credit_grant c orgID inp w =
     (let op = ''ApplyCreditGrant'' in
      case check_grant op orgID (ag_Amount inp) (ag_IdempotencyKey inp) of
        Some e \<Rightarrow> (Inl e, w)
      | None \<Rightarrow>
         if ag_Destination inp = [] \<or> ag_Lifecycle inp = []
         then (Inl (ClientErr op ''Destination and Lifecycle are required''), w)
         else if (ag_Lifecycle inp = ''rollover_capped'') \<noteq> (ag_RolloverMax inp \<noteq> None)
         then (Inl (ClientErr op ''RolloverMax is required for lifecycle rollover_capped and must be absent otherwise''), w)
         else (case seg op ''org id'' orgID of
            Inl e \<Rightarrow> (Inl e, w)
          | Inr org \<Rightarrow> httpx_POST (bl_HTTP c) (''/billing/'' @ org @ ''/apply-credit-grant'') (bl_Encode c (BGrant inp))
                        balance_zero (Some (bl_Balance c)) w))"

text \<open>\<open>GrantCredit\<close>: the key falls back to the grant's own ids, never to the attempt.\<close>

record billing_grant_request =
  bg_UserID :: string
  bg_OrgID :: string
  bg_TierID :: string
  bg_Amount :: rat
  bg_EventID :: string
  bg_Reason :: string
  bg_IdempotencyKey :: string

record billing_grant_response =
  br_GrantID :: string
  br_Balance :: rat
  br_Result :: update_balance_response

definition client_grant_credit ::
  "'w billing_client \<Rightarrow> billing_grant_request \<Rightarrow> 'w \<Rightarrow> (client_err + billing_grant_response) \<times> 'w" where
  "client_grant_credit c inp w =
     (let op = ''GrantCredit'' in
      if trim_space (bg_OrgID inp) = [] then (Inl (ClientErr op ''OrgID is required''), w)
      else
        let key = (if trim_space (bg_IdempotencyKey inp) \<noteq> [] then Some (bg_IdempotencyKey inp)
                   else if bg_UserID inp \<noteq> [] \<and> bg_TierID inp \<noteq> []
                   then Some (''user:'' @ bg_UserID inp @ '':initial_credit:'' @ bg_TierID inp)
                   else if bg_EventID inp \<noteq> [] then Some (''event:'' @ bg_EventID inp) else None);
            reason = (if bg_Reason inp = [] \<and> bg_TierID inp \<noteq> [] then ''initial_credit_'' @ bg_TierID inp else bg_Reason inp)
        in case key of
             None \<Rightarrow> (Inl (ClientErr op ''no stable idempotency key''), w)
           | Some key \<Rightarrow>
              (case grant_promotional_credit c (bg_OrgID inp)
                      \<lparr>pc_Amount = bg_Amount inp, pc_Reason = reason, pc_IdempotencyKey = key\<rparr> w of
                 (Inl e, w) \<Rightarrow> (Inl e, w)
               | (Inr res, w) \<Rightarrow>
                   (Inr \<lparr>br_GrantID = ub_PaymentID res, br_Balance = ub_NewBalance res, br_Result = res\<rparr>, w)))"

definition get_subscription :: "'w billing_client \<Rightarrow> string \<Rightarrow> 'w \<Rightarrow> (client_err + subscription) \<times> 'w" where
  "get_subscription c orgID w =
     (case seg ''GetSubscription'' ''org id'' orgID of
        Inl e \<Rightarrow> (Inl e, w)
      | Inr org \<Rightarrow> httpx_GET (bl_HTTP c) (''/subscriptions/'' @ org) subscription_zero (Some (bl_Subscription c)) w)"

definition cancel_subscription :: "'w billing_client \<Rightarrow> string \<Rightarrow> string \<Rightarrow> 'w \<Rightarrow> client_err option \<times> 'w" where
  "cancel_subscription c orgID subID w =
     (case seg ''CancelSubscription'' ''org id'' orgID of
        Inl e \<Rightarrow> (Some e, w)
      | Inr org \<Rightarrow>
         (case seg ''CancelSubscription'' ''subscription id'' subID of
            Inl e \<Rightarrow> (Some e, w)
          | Inr sub \<Rightarrow>
             (case httpx_DELETE (bl_HTTP c) (''/subscriptions/'' @ org @ ''/'' @ sub) () None w of
                (Inl e, w) \<Rightarrow> (Some e, w) | (Inr _, w) \<Rightarrow> (None, w))))"

definition heartbeat :: "'w billing_client \<Rightarrow> heartbeat_request \<Rightarrow> 'w \<Rightarrow> client_err option \<times> 'w" where
  "heartbeat c inp w =
     (case httpx_POST (bl_HTTP c) ''/billing/heartbeat'' (bl_Encode c (BHeartbeat inp)) () None w of
        (Inl e, w) \<Rightarrow> (Some e, w) | (Inr _, w) \<Rightarrow> (None, w))"

text \<open>\<open>RecordUsage\<close> swallows every failure.\<close>

definition record_usage :: "'w billing_client \<Rightarrow> record_usage_request \<Rightarrow> 'w \<Rightarrow> client_err option \<times> 'w" where
  "record_usage c inp w =
     (case seg ''RecordUsage'' ''org id'' (ur_OrgID inp) of
        Inl e \<Rightarrow> (None, w)
      | Inr org \<Rightarrow>
         (case httpx_POST (bl_HTTP c) (''/billing/usage/'' @ org @ ''/'') (bl_Encode c (BUsage inp)) () None w of
            (_, w) \<Rightarrow> (None, w)))"

definition settle_activation ::
  "'w billing_client \<Rightarrow> string \<Rightarrow> settle_activation_request \<Rightarrow> 'w \<Rightarrow> (client_err + settle_activation_response) \<times> 'w" where
  "settle_activation c orgID inp w =
     (case seg ''SettleActivation'' ''org id'' orgID of
        Inl e \<Rightarrow> (Inl e, w)
      | Inr org \<Rightarrow> httpx_POST (bl_HTTP c) (''/billing/'' @ org @ ''/settle'') (bl_Encode c (BSettle inp))
                    settle_zero (Some (bl_Settle c)) w)"

section \<open>The settler\<close>

record settlement_payload =
  sp_StartedAt :: string
  sp_StoppedAt :: string
  sp_HourlyRate :: string
  sp_AllocationFee :: string

definition payload :: "codec \<Rightarrow> observation \<Rightarrow> settlement_payload" where
  "payload K obs = \<lparr>sp_StartedAt = k_FormatTime K (o_StartedAt obs), sp_StoppedAt = k_FormatTime K (o_StoppedAt obs),
     sp_HourlyRate = o_HourlyRate obs, sp_AllocationFee = o_AllocationFee obs\<rparr>"

text \<open>\<open>errors.As\<close> into an \<open>*httpx.Error\<close>, \<open>strings.Contains\<close>, and \<open>classifySettleError\<close> on the client's
  error.\<close>

fun as_http_error :: "client_err \<Rightarrow> (int \<times> string) option" where
  "as_http_error (HttpError s u b) = Some (s, b)"
| "as_http_error (ClientWrap _ e) = as_http_error e"
| "as_http_error _ = None"

definition contains :: "string \<Rightarrow> string \<Rightarrow> bool" where
  "contains s sub \<longleftrightarrow> list_ex (\<lambda>t. has_prefix t sub) (suffixes_of s)"

definition classify_client_error :: "client_err \<Rightarrow> goerr" where
  "classify_client_error e =
     (case as_http_error e of
        None \<Rightarrow> classify_settle_error None False
      | Some (s, b) \<Rightarrow> classify_settle_error (Some (nat s)) (contains b ''Billing account not found''))"

definition billing_settler ::
  "codec \<Rightarrow> 'w billing_client \<Rightarrow> 'w \<Rightarrow> settle_request \<Rightarrow> (goerr + string \<times> bool) \<times> 'w" where
  "billing_settler K c w inp =
     (let pl = payload K (sr_Observation inp) in
      case settle_activation c (sr_OrgID inp)
             \<lparr>sq_SettlementKey = sr_SettlementKey inp, sq_StartedAt = sp_StartedAt pl, sq_StoppedAt = sp_StoppedAt pl,
              sq_HourlyRate = sp_HourlyRate pl, sq_AllocationFee = sp_AllocationFee pl,
              sq_ReservationID = sr_ReservationID inp, sq_UsageRecordID = sr_UsageRecordID inp\<rparr> w of
        (Inl e, w) \<Rightarrow> (Inl (classify_client_error e), w)
      | (Inr resp, w) \<Rightarrow> (Inr (sa_ActualCost resp, sa_Replayed resp), w))"

section \<open>Lifecycle\<close>

text \<open>\<open>HeartbeatLoop.run\<close> over the ticks that arrive before it is stopped; the loop ends by itself on a
  404 or 405. The answer says whether it still runs.\<close>

record heartbeat_loop =
  hl_ServiceName :: string
  hl_Version :: string
  hl_Interval :: duration

definition heartbeat_start :: "heartbeat_loop \<Rightarrow> heartbeat_loop" where
  "heartbeat_start h = (if hl_Interval h = 0 then h\<lparr>hl_Interval := 60 * second\<rparr> else h)"

definition heartbeat_tick :: "'w billing_client \<Rightarrow> heartbeat_loop \<Rightarrow> 'w \<Rightarrow> bool \<times> 'w" where
  "heartbeat_tick c h w =
     (case heartbeat c \<lparr>hb_ServiceName = hl_ServiceName h, hb_Version = hl_Version h, hb_Capability = []\<rparr> w of
        (None, w) \<Rightarrow> (True, w)
      | (Some e, w) \<Rightarrow> (\<not> (is_status e 404 \<or> is_status e 405), w))"

fun heartbeat_run :: "'w billing_client \<Rightarrow> heartbeat_loop \<Rightarrow> nat \<Rightarrow> 'w \<Rightarrow> bool \<times> 'w" where
  "heartbeat_run c h 0 w = (True, w)"
| "heartbeat_run c h (Suc ticks) w =
     (case heartbeat_tick c h w of (True, w) \<Rightarrow> heartbeat_run c h ticks w | (False, w) \<Rightarrow> (False, w))"

definition lifecycle_register :: "'w billing_client \<Rightarrow> heartbeat_request \<Rightarrow> 'w \<Rightarrow> 'w" where
  "lifecycle_register c l w = snd (heartbeat c l w)"

section \<open>The payment client\<close>

record checkout_session =
  cs_SessionID :: string
  cs_URL :: string
  cs_Status :: string
  cs_PaymentStatus :: string
  cs_AmountTotal :: "rat option"

record topup_amount =
  tu_Amount :: rat
  tu_Currency :: string

record checkout_session_request =
  cr_OrgID :: string
  cr_PriceID :: string
  cr_SuccessURL :: string
  cr_CancelURL :: string
  cr_Quantity :: int
  cr_Topup :: "topup_amount option"

record portal_session =
  po_URL :: string
  po_ID :: string

record payment_method =
  pm_ID :: string
  pm_Brand :: string
  pm_Last4 :: string
  pm_ExpMonth :: int
  pm_ExpYear :: int
  pm_IsDefault :: bool
  pm_Type :: string

datatype payment_body = PCheckout checkout_session_request | PPortal string

text \<open>A list of the reply of \<open>ListPaymentMethods\<close> is \<open>None\<close> when the key is absent.\<close>

record 'w payment_client =
  py_HTTP :: "'w httpx_client"
  py_Encode :: "payment_body \<Rightarrow> string option"
  py_Session :: "string \<Rightarrow> checkout_session option"
  py_Portal :: "string \<Rightarrow> portal_session option"
  py_Methods :: "string \<Rightarrow> (payment_method list option \<times> payment_method list option) option"

definition session_zero :: checkout_session where
  "session_zero = \<lparr>cs_SessionID = [], cs_URL = [], cs_Status = [], cs_PaymentStatus = [], cs_AmountTotal = None\<rparr>"

definition new_payment :: "mesh_urls \<Rightarrow> 'w payment_client \<Rightarrow> client_err + 'w payment_client" where
  "new_payment u c =
     (if mu_Payment u = [] then Inl (ClientErr ''payment'' ''AB0T_QUOTA_PAYMENT_URL not set'')
      else Inr (c\<lparr>py_HTTP := (py_HTTP c)\<lparr>hx_BaseURL := mu_Payment u, hx_Token := mu_PaymentToken u\<rparr>\<rparr>))"

definition create_checkout_session ::
  "'w payment_client \<Rightarrow> checkout_session_request \<Rightarrow> 'w \<Rightarrow> (client_err + checkout_session) \<times> 'w" where
  "create_checkout_session c inp w =
     httpx_POST (py_HTTP c) ''/checkout/sessions'' (py_Encode c (PCheckout inp)) session_zero (Some (py_Session c)) w"

definition verify_checkout_session :: "'w payment_client \<Rightarrow> string \<Rightarrow> 'w \<Rightarrow> (client_err + checkout_session) \<times> 'w" where
  "verify_checkout_session c sessionID w =
     (case seg ''VerifyCheckoutSession'' ''session id'' sessionID of
        Inl e \<Rightarrow> (Inl e, w)
      | Inr sid \<Rightarrow> httpx_GET (py_HTTP c) (''/checkout/sessions/'' @ sid @ ''/verify'') session_zero (Some (py_Session c)) w)"

definition create_portal_session ::
  "'w payment_client \<Rightarrow> string \<Rightarrow> string \<Rightarrow> 'w \<Rightarrow> (client_err + portal_session) \<times> 'w" where
  "create_portal_session c orgID returnURL w =
     (case seg ''CreatePortalSession'' ''org id'' orgID of
        Inl e \<Rightarrow> (Inl e, w)
      | Inr org \<Rightarrow> httpx_POST (py_HTTP c) (''/portal/'' @ org @ ''/session'') (py_Encode c (PPortal returnURL))
                    \<lparr>po_URL = [], po_ID = []\<rparr> (Some (py_Portal c)) w)"

definition list_payment_methods :: "'w payment_client \<Rightarrow> string \<Rightarrow> 'w \<Rightarrow> (client_err + payment_method list) \<times> 'w" where
  "list_payment_methods c orgID w =
     (case seg ''ListPaymentMethods'' ''org id'' orgID of
        Inl e \<Rightarrow> (Inl e, w)
      | Inr org \<Rightarrow>
         (case httpx_GET (py_HTTP c) (''/payment-methods/'' @ org) (None, None) (Some (py_Methods c)) w of
            (Inl e, w) \<Rightarrow> (Inl e, w)
          | (Inr (Some ms, _), w) \<Rightarrow> (Inr ms, w)
          | (Inr (None, items), w) \<Rightarrow> (Inr (case items of None \<Rightarrow> [] | Some xs \<Rightarrow> xs), w)))"

section \<open>An outage of billing\<close>

text \<open>Answers that are no verdict on a settlement: none at all, one that broke off, or an error status
  other than 400, 404 and 422.\<close>

definition no_verdict :: "http_response option \<Rightarrow> bool" where
  "no_verdict a \<longleftrightarrow> (case a of None \<Rightarrow> True
     | Some r \<Rightarrow> hr_Body r = None \<or> hr_Status r \<ge> 400 \<and> hr_Status r \<notin> {400, 404, 422})"

lemma send_no_verdict:
  assumes "\<forall>req w. no_verdict (fst (hx_Do c req w))" and "send_json c meth path body out d w = (r, w')"
  shows "\<exists>e. r = Inl e \<and> (\<forall>s b. as_http_error e = Some (s, b) \<longrightarrow> s \<notin> {400, 404, 422} \<and> 400 \<le> s)"
proof (cases "body = None \<or> \<not> hx_Build c meth (hx_BaseURL c @ path)")
  case True
  with assms(2) show ?thesis by (auto simp: send_json_def send_request_def Let_def split: option.splits)
next
  case False
  then obtain b where b: "body = Some b" "hx_Build c meth (hx_BaseURL c @ path)" by auto
  let ?req = "authorize (hx_Token c) \<lparr>hq_Method = meth, hq_URL = hx_BaseURL c @ path, hq_Body = Some b,
    hq_Header = [''Content-Type'' \<mapsto> ''application/json'']\<rparr>"
  obtain a w1 where a: "hx_Do c ?req w = (a, w1)" by fastforce
  then have "no_verdict a" using assms(1) by (metis fst_conv)
  with a b assms(2) show ?thesis
    by (auto simp: send_json_def send_request_def do_request_def no_verdict_def Let_def split: option.splits if_splits)
qed

lemma billing_settler_no_verdict:
  assumes "\<forall>req w. no_verdict (fst (hx_Do (bl_HTTP c) req w))"
  shows "\<exists>e w'. billing_settler K c w inp = (Inl e, w') \<and> settle_failure e = Retry"
proof -
  obtain r w' where r: "settle_activation c (sr_OrgID inp)
      \<lparr>sq_SettlementKey = sr_SettlementKey inp, sq_StartedAt = sp_StartedAt (payload K (sr_Observation inp)),
       sq_StoppedAt = sp_StoppedAt (payload K (sr_Observation inp)), sq_HourlyRate = sp_HourlyRate (payload K (sr_Observation inp)),
       sq_AllocationFee = sp_AllocationFee (payload K (sr_Observation inp)), sq_ReservationID = sr_ReservationID inp,
       sq_UsageRecordID = sr_UsageRecordID inp\<rparr> w = (r, w')" by fastforce
  then have "\<exists>e. r = Inl e \<and> (\<forall>s b. as_http_error e = Some (s, b) \<longrightarrow> s \<notin> {400, 404, 422} \<and> 400 \<le> s)"
    using send_no_verdict [OF assms]
    by (auto simp: settle_activation_def seg_def path_segment_def httpx_POST_def Let_def split: sum.splits if_splits)
  then obtain e where e: "r = Inl e" "\<forall>s b. as_http_error e = Some (s, b) \<longrightarrow> s \<notin> {400, 404, 422} \<and> 400 \<le> s" by blast
  then have "settle_failure (classify_client_error e) = Retry"
    unfolding classify_client_error_def by (auto simp: nat_eq_iff intro!: retry_answers split: option.splits)
  with e(1) r show ?thesis by (simp add: billing_settler_def Let_def)
qed

text \<open>
  An outage of billing costs no money. The emitter settles through the billing client. While billing
  cannot be reached, breaks off its answers or answers with any error but 400, 404 and 422, a
  closing event past its horizon is pending after a pass, its claim unchanged: neither a rotated
  key nor a broken proxy voids it, and a request that could not be built or encoded does not either.
\<close>

theorem billing_outage_voids_nothing:
  assumes "em_Store M = mem_outbox_store" and "outbox_ok (mt_store st)" and "map_of (mt_store st) (ob_Key r) = Some r"
    and "ob_Status r = Some StatusPending" and "past_horizon M nowEpoch r" and "terminal_cost_event (ob_EventType r)"
    and "\<not> is_blank (ob_ReservationID r)" and "k_ParseEvent (em_Codec M) (ob_Event r) = Some ev" and "e_ReservationID ev \<noteq> []"
    and "observe (em_Codec M) now (stamp_stopped (em_Codec M) r ev) = Inr obs"
    and "em_Settler M = Some (billing_settler (em_Codec M) c)" and "\<forall>req w. no_verdict (fst (hx_Do (bl_HTTP c) req w))"
    and "drain M nowEpoch now n st = (res, st')"
  shows "\<exists>r'. map_of (mt_store st') (ob_Key r) = Some r' \<and> ob_Status r' = Some StatusPending \<and> same_claim r r'"
proof -
  have "fst (try_settle M now r st0) = Retry" for st0
  proof -
    obtain e w' where "billing_settler (em_Codec M) c (mt_world st0) (settle_request_of r obs) = (Inl e, w')"
      "settle_failure e = Retry" using billing_settler_no_verdict [OF assms(12)] by blast
    with assms(6-11) show ?thesis by (simp add: try_settle_def with_world_def)
  qed
  with mo.drain_retry_keeps [OF assms(1-3) _ assms(5) _ assms(13)] assms(4) show ?thesis by (simp add: is_pending_def)
qed

text \<open>A billing service that refuses every key with 401 and counts the requests.\<close>

definition locked_client :: "nat billing_client" where
  "locked_client = \<lparr>bl_HTTP = \<lparr>hx_BaseURL = ''https://billing'', hx_Token = ''ab0t_sk_1'', hx_Build = (\<lambda>_ _. True),
       hx_Do = (\<lambda>_ w. (Some \<lparr>hr_Status = 401, hr_Body = Some ''denied''\<rparr>, Suc w))\<rparr>,
     bl_Encode = (\<lambda>_. Some ''{}''), bl_Balance = (\<lambda>_. None), bl_Settle = (\<lambda>_. None), bl_Check = (\<lambda>_. None),
     bl_Subscription = (\<lambda>_. None), bl_Summary = (\<lambda>_. None)\<rparr>"

definition locked_emitter :: "(mem_outbox, nat) emitter" where
  "locked_emitter = refused_emitter\<lparr>em_Settler := Some (billing_settler tiny_codec locked_client)\<rparr>"

theorem billing_outage_voids_nothing_witness:
  "\<exists>r'. map_of (mt_store (snd (drain locked_emitter (Fin 2000) 5 0 pending_state))) ''k1'' = Some r' \<and> ob_Status r' = Some StatusPending"
proof -
  let ?M = locked_emitter
  obtain res st' where d: "drain ?M (Fin 2000) 5 0 pending_state = (res, st')" by (metis surj_pair)
  have s: "em_Store ?M = mem_outbox_store" "em_Codec ?M = tiny_codec" by (simp_all add: locked_emitter_def refused_emitter_def)
  have p: "past_horizon ?M (Fin 2000) stopped_rec"
    using fsub_int [of 2000 1] by (simp add: past_horizon_def locked_emitter_def refused_emitter_def stopped_rec_def)
  have t: "terminal_cost_event (ob_EventType stopped_rec)" "\<not> is_blank (ob_ReservationID stopped_rec)" by code_simp+
  obtain ev where ev: "k_ParseEvent (em_Codec ?M) (ob_Event stopped_rec) = Some ev" "e_ReservationID ev \<noteq> []"
    "\<exists>obs. observe (em_Codec ?M) 5 (stamp_stopped (em_Codec ?M) stopped_rec ev) = Inr obs"
    by (simp add: s tiny_codec_def observe_def parse_time_def stamp_stopped_def)
  then obtain obs where o: "observe (em_Codec ?M) 5 (stamp_stopped (em_Codec ?M) stopped_rec ev) = Inr obs" by blast
  have f: "em_Settler ?M = Some (billing_settler (em_Codec ?M) locked_client)" by (simp add: locked_emitter_def s(2) [unfolded locked_emitter_def])
  have v: "\<forall>req w. no_verdict (fst (hx_Do (bl_HTTP locked_client) req w))" by (simp add: locked_client_def no_verdict_def)
  from billing_outage_voids_nothing [OF s(1) pending_state_ok p t ev(1,2) o f v d] d
  show ?thesis by (force simp: stopped_rec_def)
qed

section \<open>One request per call\<close>

text \<open>
  A credit call makes no request at all when it is refused locally, and otherwise exactly one, a
  \<open>POST\<close> to the route of its own org: neither client repeats a request that moves money.
\<close>

definition made_one :: "'w httpx_client \<Rightarrow> string \<Rightarrow> string \<Rightarrow> 'w \<Rightarrow> 'w \<Rightarrow> bool" where
  "made_one h meth path w w' \<longleftrightarrow> (\<exists>req. w' = snd (hx_Do h req w) \<and> hq_Method req = meth \<and> hq_URL req = hx_BaseURL h @ path)"

lemma authorize_simps [simp]: "hq_Method (authorize t req) = hq_Method req" "hq_URL (authorize t req) = hq_URL req"
  by (simp_all add: authorize_def)

lemma send_json_one: "send_json h meth path body out d w = (r, w') \<Longrightarrow> w' = w \<or> made_one h meth path w w'"
proof (cases "body = None \<or> \<not> hx_Build h meth (hx_BaseURL h @ path)")
  case True
  moreover assume "send_json h meth path body out d w = (r, w')"
  ultimately show ?thesis by (auto simp: send_json_def send_request_def Let_def split: option.splits)
next
  case False
  then obtain b where b: "body = Some b" "hx_Build h meth (hx_BaseURL h @ path)" by auto
  let ?req = "authorize (hx_Token h) \<lparr>hq_Method = meth, hq_URL = hx_BaseURL h @ path, hq_Body = Some b,
    hq_Header = [''Content-Type'' \<mapsto> ''application/json'']\<rparr>"
  assume s: "send_json h meth path body out d w = (r, w')"
  have "w' = snd (hx_Do h ?req w)"
    using s b by (auto simp: send_json_def send_request_def do_request_def Let_def split: option.splits if_splits prod.splits)
  then show ?thesis unfolding made_one_def by (intro disjI2 exI [of _ ?req]) simp
qed

lemma credit_call_makes_one_request:
  assumes "grant_promotional_credit c org inp w = (r, w')"
  shows "w' = w \<or> (\<exists>s. path_segment ''org id'' org = Inr s \<and> 0 < pc_Amount inp \<and> trim_space (pc_IdempotencyKey inp) \<noteq> []
     \<and> made_one (bl_HTTP c) ''POST'' (''/billing/'' @ s @ ''/promotional-credit'') w w')"
  using assms send_json_one
  by (force simp: grant_promotional_credit_def check_grant_def seg_def httpx_POST_def Let_def split: option.splits sum.splits if_splits)

end
