(* ===== verification/CreditGrants.thy ===== *)
theory CreditGrants
  imports AuthEvents Billing
begin

text \<open>
  The built-in credit granter (\<open>quota/credit_granter.go\<close>): a grant of the default handler, sent to the
  billing client on the route its destination and lifecycle ask for. The errors of the client are
  rendered as handler errors by an argument.
\<close>

section \<open>The granter\<close>

text \<open>The error of a call whose result is dropped.\<close>

definition err_of :: "(client_err + 'a) \<times> 'w \<Rightarrow> client_err option \<times> 'w" where
  "err_of x = (case fst x of Inl e \<Rightarrow> Some e | Inr _ \<Rightarrow> None, snd x)"

definition granter_grant_credit :: "'w billing_client option \<Rightarrow> credit_request \<Rightarrow> 'w \<Rightarrow> client_err option \<times> 'w" where
  "granter_grant_credit c inp w =
     (case c of
        None \<Rightarrow> (Some (ClientErr ''quota.BillingCreditGranter(nil)'' ''no billing client''), w)
      | Some c \<Rightarrow>
          if cq_IdempotencyKey inp = [] \<and> (cq_UserID inp = [] \<or> cq_TierID inp = [])
          then (Some (ClientErr ''quota.BillingCreditGranter'' ''no idempotency key and no user/tier to derive one''), w)
          else
            let key = (if cq_IdempotencyKey inp = []
                       then billing_idempotency_key ''per_user_per_tier'' (cq_UserID inp) (cq_OrgID inp) (cq_TierID inp)
                       else cq_IdempotencyKey inp);
                dest = cq_Destination inp; life = cq_Lifecycle inp
            in if (dest = [] \<or> dest = ''credit_balance'') \<and> (life = [] \<or> life = ''persistent'')
               then err_of (grant_promotional_credit c (cq_OrgID inp)
                      \<lparr>pc_Amount = cq_Amount inp, pc_Reason = ''initial_credit_'' @ cq_TierID inp, pc_IdempotencyKey = key\<rparr> w)
               else
                 let dest = (if dest = [] then ''subscription_credit'' else dest);
                     life = (if life = [] then ''use_it_or_lose_it'' else life)
                 in err_of (apply_credit_grant c (cq_OrgID inp)
                      \<lparr>ag_Amount = cq_Amount inp, ag_Destination = dest, ag_Lifecycle = life, ag_RolloverMax = cq_RolloverMax inp,
                       ag_Source = [], ag_SourceTier = cq_TierID inp, ag_IdempotencyKey = key,
                       ag_Reason = ''signup_grant_'' @ cq_TierID inp\<rparr> w))"

text \<open>The granter as the default handler calls it.\<close>

definition billing_credit_granter ::
  "(client_err \<Rightarrow> herr) \<Rightarrow> 'w billing_client option \<Rightarrow> credit_request \<Rightarrow> 'w \<Rightarrow> herr option \<times> 'w" where
  "billing_credit_granter render c inp w = (case granter_grant_credit c inp w of (e, w) \<Rightarrow> (map_option render e, w))"

section \<open>A validated grant reaches billing\<close>

text \<open>A lifecycle or destination outside the declared constants has a text of its own.\<close>

definition decoded_grant :: "credit_grant \<Rightarrow> bool" where
  "decoded_grant g \<longleftrightarrow> (case cg_Lifecycle g of LifecycleOther s \<Rightarrow> s \<notin> {''persistent'', ''use_it_or_lose_it'', ''rollover_capped''} | _ \<Rightarrow> True)
     \<and> (case cg_Destination g of DestOther s \<Rightarrow> s \<notin> {''credit_balance'', ''subscription_credit''} | _ \<Rightarrow> True)"

definition grant_route :: "credit_grant \<Rightarrow> string" where
  "grant_route g = (if cg_Destination g = DestCreditBalance \<and> cg_Lifecycle g = LifecyclePersistent
     then ''/promotional-credit'' else ''/apply-credit-grant'')"

lemma send_json_makes_one:
  assumes "hx_Build h meth (hx_BaseURL h @ path)"
  shows "made_one h meth path w (snd (send_json h meth path (Some b) out d w))"
proof -
  let ?req = "authorize (hx_Token h) \<lparr>hq_Method = meth, hq_URL = hx_BaseURL h @ path, hq_Body = Some b,
    hq_Header = [''Content-Type'' \<mapsto> ''application/json'']\<rparr>"
  have "snd (send_json h meth path (Some b) out d w) = snd (hx_Do h ?req w)"
    using assms by (auto simp: send_json_def send_request_def do_request_def Let_def split: option.splits prod.splits)
  then show ?thesis unfolding made_one_def by (intro exI [of _ ?req]) simp
qed

lemma trim_space_prefix: "\<not> is_space c \<Longrightarrow> trim_space (c # s) \<noteq> []"
  by (auto simp: trim_space_def dropWhile_eq_Nil_conv)

lemma billing_key_not_blank: "trim_space (billing_idempotency_key p u orgID t) \<noteq> []"
  by (simp add: billing_idempotency_key_def trim_space_prefix is_space_def)

lemma segment_not_blank: "path_segment what s = Inr v \<Longrightarrow> trim_space s \<noteq> []"
  by (auto simp: path_segment_def Let_def split: if_splits)

text \<open>
  A grant that the configuration validator accepts is never refused on this side of the wire. For a
  validated credit grant and an org id that can stand in a path, the request of the default handler
  passes every check of the granter and the billing client, whatever its policy and ids, and leads to
  exactly one POST, on the promotional route for persistent credit-balance gifts and on the grant
  route otherwise; in particular the cap of a capped rollover is sent exactly when it is required.
\<close>

theorem validated_grant_reaches_billing:
  assumes "grant_ok g" and "decoded_grant g" and "path_segment ''org id'' orgID = Inr s"
    and "\<forall>b. bl_Encode c b \<noteq> None" and "\<forall>m u. hx_Build (bl_HTTP c) m u"
  shows "made_one (bl_HTTP c) ''POST'' (''/billing/'' @ s @ grant_route g) w
      (snd (granter_grant_credit (Some c) (grant_request sha ev u orgID t g p) w))"
proof -
  let ?req = "grant_request sha ev u orgID t g p"
  have key: "cq_IdempotencyKey ?req \<noteq> []" "trim_space (cq_IdempotencyKey ?req) \<noteq> []"
    using billing_key_not_blank [of p u orgID t] by (auto simp: trim_space_def)
  have amt: "\<not> cq_Amount ?req \<le> 0" "trim_space orgID \<noteq> []" using assms(1) segment_not_blank [OF assms(3)] by (auto simp: grant_ok_def)
  have enc: "\<exists>b. bl_Encode c x = Some b" for x using assms(4) by auto
  show ?thesis
  proof (cases "cg_Destination g = DestCreditBalance \<and> cg_Lifecycle g = LifecyclePersistent")
    case True
    then have d: "cq_Destination ?req = ''credit_balance''" "cq_Lifecycle ?req = ''persistent''" by (simp_all add: grant_request_def)
    let ?b = "BPromo \<lparr>pc_Amount = cq_Amount ?req, pc_Reason = ''initial_credit_'' @ t, pc_IdempotencyKey = cq_IdempotencyKey ?req\<rparr>"
    obtain b where b: "bl_Encode c ?b = Some b" using enc by blast
    have "snd (granter_grant_credit (Some c) ?req w) = snd (send_json (bl_HTTP c) ''POST'' (''/billing/'' @ s @ ''/promotional-credit'') (Some b) balance_zero (Some (bl_Balance c)) w)"
      using key amt d b assms(3)
      by (simp add: granter_grant_credit_def grant_promotional_credit_def check_grant_def seg_def httpx_POST_def err_of_def Let_def)
    with True send_json_makes_one [of "bl_HTTP c" "''POST''"] assms(5) show ?thesis by (simp add: grant_route_def)
  next
    case False
    have d: "\<not> ((cq_Destination ?req = [] \<or> cq_Destination ?req = ''credit_balance'') \<and> (cq_Lifecycle ?req = [] \<or> cq_Lifecycle ?req = ''persistent''))"
      using False assms(1,2) by (cases "cg_Destination g"; cases "cg_Lifecycle g") (auto simp: grant_request_def grant_ok_def decoded_grant_def)
    have ne: "cq_Destination ?req \<noteq> []" "cq_Lifecycle ?req \<noteq> []"
      using assms(1) by (cases "cg_Destination g"; cases "cg_Lifecycle g"; auto simp: grant_request_def grant_ok_def)+
    have cap: "(cq_Lifecycle ?req = ''rollover_capped'') = (cq_RolloverMax ?req \<noteq> None)"
      using assms(1,2) by (cases "cg_Lifecycle g") (auto simp: grant_request_def grant_ok_def decoded_grant_def)
    let ?b = "BGrant \<lparr>ag_Amount = cq_Amount ?req, ag_Destination = cq_Destination ?req, ag_Lifecycle = cq_Lifecycle ?req, ag_RolloverMax = cq_RolloverMax ?req,
       ag_Source = [], ag_SourceTier = t, ag_IdempotencyKey = cq_IdempotencyKey ?req, ag_Reason = ''signup_grant_'' @ t\<rparr>"
    obtain b where b: "bl_Encode c ?b = Some b" using enc by blast
    have "snd (granter_grant_credit (Some c) ?req w) = snd (send_json (bl_HTTP c) ''POST'' (''/billing/'' @ s @ ''/apply-credit-grant'') (Some b) balance_zero (Some (bl_Balance c)) w)"
      using key amt d ne cap b assms(3)
      by (auto simp: granter_grant_credit_def apply_credit_grant_def check_grant_def seg_def httpx_POST_def err_of_def Let_def)
    moreover have "grant_route g = ''/apply-credit-grant''" using False unfolding grant_route_def by (rule if_not_P)
    ultimately show ?thesis using send_json_makes_one [of "bl_HTTP c" "''POST''"] assms(5) by simp
  qed
qed

theorem validated_grant_reaches_billing_witness:
  "snd (granter_grant_credit (Some locked_client) (grant_request id ((signup ''e1'')\<lparr>ae_raw := ''e1''\<rparr>) ''u1'' ''o1'' ''free'' gift ''per_user_per_tier'') 0) = 1"
proof -
  have g: "grant_ok gift" "decoded_grant gift" by (simp_all add: grant_ok_def decoded_grant_def gift_def)
  have s: "path_segment ''org id'' ''o1'' = Inr ''o1''" by code_simp
  have c: "\<forall>b. bl_Encode locked_client b \<noteq> None" "\<forall>m u. hx_Build (bl_HTTP locked_client) m u" by (simp_all add: locked_client_def)
  from validated_grant_reaches_billing [OF g s c, of 0 id "(signup ''e1'')\<lparr>ae_raw := ''e1''\<rparr>" "''u1''" "''free''" "''per_user_per_tier''"]
  show ?thesis by (auto simp: made_one_def locked_client_def)
qed

end
