(* ===== verification/Subscribe.thy ===== *)
theory Subscribe
  imports AuthEvents "HOL-Library.Multiset"
begin

text \<open>
  \<open>authevents/subscribe.go\<close>: registering the receiver's endpoint with the auth service, strictly for
  operators (\<open>Subscribe\<close>) and best effort at boot (\<open>SubscribeOnStartup\<close>). The HTTP client, the URL check
  of \<open>http.NewRequest\<close>, the JSON codec and the environment are arguments. The text of an error is a
  datatype with the values the message names. A nil request makes \<open>http.Client.Do\<close> panic, which is
  \<open>None\<close> where it can happen.
\<close>

section \<open>Inputs and results\<close>

record subscribe_input =
  si_AuthURL :: string
  si_AdminToken :: string
  si_PublicURL :: string
  si_Secret :: string
  si_EventTypes :: "string list"
  si_WatchOrgSlug :: string
  si_WatchOrgID :: string
  si_Name :: string
  si_MountPrefix :: string
  si_RotateSecret :: bool

record subscribe_result =
  su_SubscriptionID :: string
  su_Action :: string
  su_Endpoint :: string
  su_EventTypes :: "string list"
  su_ReplacedID :: string
  su_SecretVerified :: bool

datatype sub_problem = ListensTo "string list" "string list" | DifferentSecret | IsDisabled

datatype sub_msg =
    NotSet "string list"
  | NoEventTypes
  | SlugNotResolved string
  | NotBuilt
  | NotSent
  | Answered string string
  | Unreadable
  | HasNoID string
  | TooManyPages
  | ExistsBut string string "sub_problem list"
  | NotDeleted string string string
  | NoSubscriptionID
  | OldWasDeleted sub_msg string

record subscribe_error =
  sx_Op :: string
  sx_Status :: int
  sx_Msg :: sub_msg

record existing_sub =
  xs_id :: string
  xs_eventTypes :: "string list"
  xs_secret :: string
  xs_inactive :: bool

text \<open>The client with what the standard library decodes: a page is its items and the next token.\<close>

record 'w sub_client =
  sc_Build :: "string \<Rightarrow> string \<Rightarrow> bool"
  sc_Do :: "http_request \<Rightarrow> 'w \<Rightarrow> http_response option \<times> 'w"
  sc_Page :: "string \<Rightarrow> ((string \<times> json) list list \<times> string option) option"
  sc_Object :: "string \<Rightarrow> (string \<times> json) list"
  sc_Encode :: "json \<Rightarrow> string"

section \<open>Defaults\<close>

text \<open>\<open>strings.TrimRight\<close> of slashes.\<close>

definition trim_slashes :: "string \<Rightarrow> string" where
  "trim_slashes s = rev (dropWhile (\<lambda>x. x = CHR ''/'') (rev s))"

definition sub_resolve :: "(string \<Rightarrow> string) \<Rightarrow> string list \<Rightarrow> subscribe_input \<Rightarrow> subscribe_input" where
  "sub_resolve getenv registered inp =
     (let def = (\<lambda>v d. if v = [] then d else v) in
      inp\<lparr>si_AuthURL := def (si_AuthURL inp) (getenv ''AB0T_AUTH_AUTH_URL''),
          si_AdminToken := def (si_AdminToken inp) (getenv ''AB0T_AUTH_ADMIN_TOKEN''),
          si_PublicURL := def (si_PublicURL inp) (getenv ''AB0T_AUTH_WEBHOOK_PUBLIC_URL''),
          si_Secret := def (si_Secret inp) (getenv ''AB0T_AUTH_WEBHOOK_SECRET''),
          si_MountPrefix := def (si_MountPrefix inp) ''/api'',
          si_Name := def (si_Name inp) ''ab0t-quota-credit-grant'',
          si_EventTypes := (if si_EventTypes inp = [] then registered else si_EventTypes inp)\<rparr>)"

definition sub_endpoint :: "subscribe_input \<Rightarrow> string" where
  "sub_endpoint inp = trim_slashes (si_PublicURL inp) @ si_MountPrefix inp @ ''/quotas'' @ webhook_path"

section \<open>Requests to auth\<close>

text \<open>\<open>url.QueryEscape\<close>.\<close>

definition query_escape :: "string \<Rightarrow> string" where
  "query_escape s = concat (map (\<lambda>c. if c = CHR '' '' then ''+''
     else if (CHR ''a'' \<le> c \<and> c \<le> CHR ''z'') \<or> (CHR ''A'' \<le> c \<and> c \<le> CHR ''Z'') \<or> is_digit c \<or> c \<in> set ''-_.~'' then [c]
     else [CHR ''%'', upper_hex (of_char c div 16), upper_hex (of_char c mod 16)]) s)"

definition truncate :: "string \<Rightarrow> string" where
  "truncate s = (if length s \<le> 200 then s else take 200 s @ [CHR 0xE2, CHR 0x80, CHR 0xA6])"

text \<open>A read that breaks off is not reported by these calls; it leaves no bytes here.\<close>

definition reply_body :: "nat \<Rightarrow> http_response \<Rightarrow> string" where
  "reply_body limit resp = take limit (case hr_Body resp of None \<Rightarrow> [] | Some b \<Rightarrow> b)"

definition auth_request :: "subscribe_input \<Rightarrow> string \<Rightarrow> string \<Rightarrow> string option \<Rightarrow> http_request" where
  "auth_request inp meth u body =
     \<lparr>hq_Method = meth, hq_URL = u, hq_Body = body,
      hq_Header = (if body = None then [''Authorization'' \<mapsto> ''Bearer '' @ si_AdminToken inp]
         else [''Authorization'' \<mapsto> ''Bearer '' @ si_AdminToken inp, ''Content-Type'' \<mapsto> ''application/json''])\<rparr>"

abbreviation em_dash :: string where
  "em_dash \<equiv> [CHR '' '', CHR 0xE2, CHR 0x80, CHR 0x94, CHR '' '']"

definition auth_hint :: "int \<Rightarrow> string \<Rightarrow> string" where
  "auth_hint status perm =
     (if status = 401 then ''the admin token was rejected (expired? auth tokens last 15 minutes)'' @ em_dash
      else if status = 403 then ''the admin token lacks '' @ perm @ em_dash else [])"

definition item_str :: "(string \<times> json) list \<Rightarrow> string \<Rightarrow> string" where
  "item_str item k = (case json_str (map_of item k) of Some s \<Rightarrow> s | None \<Rightarrow> [])"

definition item_id :: "(string \<times> json) list \<Rightarrow> string" where
  "item_id item = (if item_str item ''subscription_id'' \<noteq> [] then item_str item ''subscription_id'' else item_str item ''id'')"

definition existing_of :: "(string \<times> json) list \<Rightarrow> existing_sub" where
  "existing_of item =
     \<lparr>xs_id = item_id item,
      xs_eventTypes = (case map_of item ''event_types'' of
         Some (JArr raw) \<Rightarrow> List.map_filter (\<lambda>v. json_str (Some v)) raw | _ \<Rightarrow> []),
      xs_secret = item_str item ''secret'',
      xs_inactive = (map_of item ''is_active'' = Some (JBool False))\<rparr>"

text \<open>\<open>listByEndpoint\<close> from a page token on, with the pages it may still read.\<close>

fun list_pages ::
  "'w sub_client \<Rightarrow> subscribe_input \<Rightarrow> string \<Rightarrow> nat \<Rightarrow> string \<Rightarrow> 'w \<Rightarrow> (subscribe_error + existing_sub option) \<times> 'w" where
  "list_pages c inp endpoint 0 tok w = (Inl \<lparr>sx_Op = ''list'', sx_Status = 0, sx_Msg = TooManyPages\<rparr>, w)"
| "list_pages c inp endpoint (Suc pages) tok w =
     (let u = trim_slashes (si_AuthURL inp) @ ''/events/subscriptions?limit=100''
              @ (if tok \<noteq> [] then ''&next_token='' @ query_escape tok else []) in
      if \<not> sc_Build c ''GET'' u then (Inl \<lparr>sx_Op = ''list'', sx_Status = 0, sx_Msg = NotBuilt\<rparr>, w)
      else case sc_Do c (auth_request inp ''GET'' u None) w of
        (None, w) \<Rightarrow> (Inl \<lparr>sx_Op = ''list'', sx_Status = 0, sx_Msg = NotSent\<rparr>, w)
      | (Some resp, w) \<Rightarrow>
          let b = reply_body (8 * 2 ^ 20) resp in
          if hr_Status resp \<noteq> 200
          then (Inl \<lparr>sx_Op = ''list'', sx_Status = hr_Status resp, sx_Msg = Answered (auth_hint (hr_Status resp) ''events.read'') (truncate b)\<rparr>, w)
          else case sc_Page c b of
            None \<Rightarrow> (Inl \<lparr>sx_Op = ''list'', sx_Status = 0, sx_Msg = Unreadable\<rparr>, w)
          | Some (items, next) \<Rightarrow>
             (case find (\<lambda>item. item_str item ''endpoint'' = endpoint) items of
                Some item \<Rightarrow>
                  if item_id item = [] then (Inl \<lparr>sx_Op = ''list'', sx_Status = 0, sx_Msg = HasNoID endpoint\<rparr>, w)
                  else (Inr (Some (existing_of item)), w)
              | None \<Rightarrow>
                 (case next of
                    None \<Rightarrow> (Inr None, w)
                  | Some next \<Rightarrow> if next = [] then (Inr None, w) else list_pages c inp endpoint pages next w)))"

definition list_by_endpoint ::
  "'w sub_client \<Rightarrow> subscribe_input \<Rightarrow> string \<Rightarrow> 'w \<Rightarrow> (subscribe_error + existing_sub option) \<times> 'w" where
  "list_by_endpoint c inp endpoint w = list_pages c inp endpoint 1000 [] w"

definition delete_subscription ::
  "'w sub_client \<Rightarrow> subscribe_input \<Rightarrow> string \<Rightarrow> 'w \<Rightarrow> subscribe_error option \<times> 'w" where
  "delete_subscription c inp i w =
     (let u = trim_slashes (si_AuthURL inp) @ ''/events/subscriptions/'' @ path_escape i in
      if \<not> sc_Build c ''DELETE'' u then (Some \<lparr>sx_Op = ''delete'', sx_Status = 0, sx_Msg = NotBuilt\<rparr>, w)
      else case sc_Do c (auth_request inp ''DELETE'' u None) w of
        (None, w) \<Rightarrow> (Some \<lparr>sx_Op = ''delete'', sx_Status = 0, sx_Msg = NotSent\<rparr>, w)
      | (Some resp, w) \<Rightarrow>
          if hr_Status resp \<in> {200, 204, 404} then (None, w)
          else (Some \<lparr>sx_Op = ''delete'', sx_Status = hr_Status resp,
                  sx_Msg = NotDeleted (auth_hint (hr_Status resp) ''events.delete'') i (truncate (reply_body (2 ^ 20) resp))\<rparr>, w))"

text \<open>\<open>sameSet\<close>: a counter per element, over the elements of both lists.\<close>

definition same_set :: "string list \<Rightarrow> string list \<Rightarrow> bool" where
  "same_set a b \<longleftrightarrow>
     (let m = foldl (\<lambda>m x. m(x := m x - 1)) (foldl (\<lambda>m x. m(x := m x + 1)) (\<lambda>_. 0 :: int) a) b
      in list_all (\<lambda>x. m x = 0) (a @ b))"

definition create_subscription_status ::
  "'w sub_client \<Rightarrow> subscribe_input \<Rightarrow> json \<Rightarrow> 'w \<Rightarrow> (sub_msg + string) \<times> int \<times> 'w" where
  "create_subscription_status c inp body w =
     (let u = trim_slashes (si_AuthURL inp) @ ''/events/subscriptions'' in
      if \<not> sc_Build c ''POST'' u then (Inl NotBuilt, 0, w)
      else case sc_Do c (auth_request inp ''POST'' u (Some (sc_Encode c body))) w of
        (None, w) \<Rightarrow> (Inl NotSent, 0, w)
      | (Some resp, w) \<Rightarrow>
          let b = reply_body (2 ^ 20) resp; st = hr_Status resp in
          if st \<noteq> 200 \<and> st \<noteq> 201
          then (Inl (Answered (if st = 409 then ''auth already has a subscription whose endpoint starts with this one'' @ em_dash
                               else auth_hint st ''events.subscribe'') (truncate b)), st, w)
          else (Inr (item_id (sc_Object c b)), st, w))"

definition subscription_body :: "subscribe_input \<Rightarrow> string \<Rightarrow> string \<Rightarrow> json" where
  "subscription_body inp endpoint orgID =
     JObj ([(''name'', JStr (si_Name inp)), (''event_types'', JArr (map JStr (si_EventTypes inp))),
            (''endpoint'', JStr endpoint), (''secret'', JStr (si_Secret inp))]
           @ (if orgID \<noteq> [] then [(''filters'', JArr [JObj [(''field'', JStr ''org_id''), (''value'', JStr orgID)]])] else []))"

text \<open>\<open>bytes.Index\<close>: what follows the first occurrence.\<close>

fun after_first :: "string \<Rightarrow> string \<Rightarrow> string option" where
  "after_first needle [] = (if needle = [] then Some [] else None)"
| "after_first needle (c # s) = (if has_prefix (c # s) needle then Some (drop (length needle) (c # s)) else after_first needle s)"

definition org_id_of_page :: "string \<Rightarrow> string option" where
  "org_id_of_page b =
     (case after_first ([CHR 0x22] @ ''orgId'' @ [CHR 0x22] @ '':'' @ [CHR 0x22]) b of
        None \<Rightarrow> None
      | Some rest \<Rightarrow> if CHR 0x22 \<in> set rest then Some (takeWhile (\<lambda>x. x \<noteq> CHR 0x22) rest) else None)"

text \<open>\<open>resolveOrgIDFromSlug\<close>; it does not look at the error of \<open>http.NewRequest\<close>.\<close>

definition resolve_org_id_from_slug ::
  "'w sub_client \<Rightarrow> string \<Rightarrow> string \<Rightarrow> 'w \<Rightarrow> string option option \<times> 'w" where
  "resolve_org_id_from_slug c authURL slug w =
     (let u = trim_slashes authURL @ ''/login/'' @ slug in
      if \<not> sc_Build c ''GET'' u then (None, w)
      else case sc_Do c \<lparr>hq_Method = ''GET'', hq_URL = u, hq_Body = None, hq_Header = Map.empty\<rparr> w of
        (None, w) \<Rightarrow> (Some None, w)
      | (Some resp, w) \<Rightarrow>
          if hr_Status resp \<noteq> 200 then (Some None, w)
          else (Some (org_id_of_page (case hr_Body resp of None \<Rightarrow> [] | Some b \<Rightarrow> b)), w))"

section \<open>Subscribing\<close>

definition missing_env :: "subscribe_input \<Rightarrow> string list" where
  "missing_env inp = map fst (filter (\<lambda>kv. snd kv = [])
     [(''AB0T_AUTH_AUTH_URL'', si_AuthURL inp), (''AB0T_AUTH_ADMIN_TOKEN'', si_AdminToken inp),
      (''AB0T_AUTH_WEBHOOK_PUBLIC_URL'', si_PublicURL inp), (''AB0T_AUTH_WEBHOOK_SECRET'', si_Secret inp)])"

definition sub_problems :: "subscribe_input \<Rightarrow> existing_sub \<Rightarrow> sub_problem list" where
  "sub_problems inp x =
     (if \<not> same_set (xs_eventTypes x) (si_EventTypes inp) then [ListensTo (xs_eventTypes x) (si_EventTypes inp)] else [])
     @ (if xs_secret x \<noteq> [] \<and> xs_secret x \<noteq> si_Secret inp then [DifferentSecret] else [])
     @ (if xs_inactive x then [IsDisabled] else [])"

text \<open>From the create call on; \<open>replaced\<close> is the id of a deleted subscription.\<close>

definition sub_create ::
  "'w sub_client \<Rightarrow> subscribe_input \<Rightarrow> string \<Rightarrow> string \<Rightarrow> string \<Rightarrow> 'w \<Rightarrow> (subscribe_error + subscribe_result) \<times> 'w" where
  "sub_create c inp endpoint orgID replaced w =
     (case create_subscription_status c inp (subscription_body inp endpoint orgID) w of
        (r, status, w) \<Rightarrow>
          let fail = (\<lambda>msg. (Inl \<lparr>sx_Op = ''create'', sx_Status = status,
                        sx_Msg = (if replaced \<noteq> [] then OldWasDeleted msg replaced else msg)\<rparr>, w))
          in case r of
               Inl msg \<Rightarrow> fail msg
             | Inr i \<Rightarrow>
                 if i = [] then fail NoSubscriptionID
                 else (Inr \<lparr>su_SubscriptionID = i, su_Action = (if replaced \<noteq> [] then ''rotated'' else ''created''),
                            su_Endpoint = endpoint, su_EventTypes = si_EventTypes inp, su_ReplacedID = replaced,
                            su_SecretVerified = True\<rparr>, w))"

definition sub_after_list ::
  "'w sub_client \<Rightarrow> subscribe_input \<Rightarrow> string \<Rightarrow> string \<Rightarrow> existing_sub option \<Rightarrow> 'w
   \<Rightarrow> (subscribe_error + subscribe_result) \<times> 'w" where
  "sub_after_list c inp endpoint orgID existing w =
     (case existing of
        None \<Rightarrow> sub_create c inp endpoint orgID [] w
      | Some x \<Rightarrow>
          if \<not> si_RotateSecret inp then
            (if sub_problems inp x \<noteq> []
             then (Inl \<lparr>sx_Op = ''existing'', sx_Status = 0, sx_Msg = ExistsBut (xs_id x) endpoint (sub_problems inp x)\<rparr>, w)
             else (Inr \<lparr>su_SubscriptionID = xs_id x, su_Action = ''existing'', su_Endpoint = endpoint,
                        su_EventTypes = si_EventTypes inp, su_ReplacedID = [], su_SecretVerified = (xs_secret x \<noteq> [])\<rparr>, w))
          else
            (case delete_subscription c inp (xs_id x) w of
               (Some e, w) \<Rightarrow> (Inl e, w)
             | (None, w) \<Rightarrow> sub_create c inp endpoint orgID (xs_id x) w))"

definition config_error :: "sub_msg \<Rightarrow> subscribe_error" where
  "config_error m = \<lparr>sx_Op = ''config'', sx_Status = 0, sx_Msg = m\<rparr>"

definition subscribe_go ::
  "'w sub_client \<Rightarrow> subscribe_input \<Rightarrow> string \<Rightarrow> 'w \<Rightarrow> (subscribe_error + subscribe_result) \<times> 'w" where
  "subscribe_go c inp orgID w =
     (case list_by_endpoint c inp (sub_endpoint inp) w of
        (Inl e, w) \<Rightarrow> (Inl e, w)
      | (Inr existing, w) \<Rightarrow> sub_after_list c inp (sub_endpoint inp) orgID existing w)"

definition subscribe ::
  "'w sub_client \<Rightarrow> (string \<Rightarrow> string) \<Rightarrow> string list \<Rightarrow> subscribe_input \<Rightarrow> 'w
   \<Rightarrow> (subscribe_error + subscribe_result) option \<times> 'w" where
  "subscribe c getenv registered inp w =
     (let inp = sub_resolve getenv registered inp in
      if missing_env inp \<noteq> [] then (Some (Inl (config_error (NotSet (missing_env inp)))), w)
      else if si_EventTypes inp = [] then (Some (Inl (config_error NoEventTypes)), w)
      else if si_WatchOrgID inp = [] \<and> si_WatchOrgSlug inp \<noteq> [] then
        (case resolve_org_id_from_slug c (si_AuthURL inp) (si_WatchOrgSlug inp) w of
           (None, w) \<Rightarrow> (None, w)
         | (Some None, w) \<Rightarrow> (Some (Inl (config_error (SlugNotResolved (si_WatchOrgSlug inp)))), w)
         | (Some (Some v), w) \<Rightarrow> map_prod Some id (subscribe_go c inp v w))
      else map_prod Some id (subscribe_go c inp (si_WatchOrgID inp) w))"

text \<open>The part of \<open>SubscribeOnStartup\<close> after the org is known.\<close>

definition startup_go :: "'w sub_client \<Rightarrow> subscribe_input \<Rightarrow> string \<Rightarrow> 'w \<Rightarrow> string option \<times> 'w" where
  "startup_go c inp orgID w =
     (case list_by_endpoint c inp (sub_endpoint inp) w of
        (Inr (Some x), w) \<Rightarrow> (Some (xs_id x), w)
      | (_, w) \<Rightarrow>
         (case create_subscription_status c inp (subscription_body inp (sub_endpoint inp) orgID) w of
            (Inl _, _, w) \<Rightarrow> (Some [], w) | (Inr i, _, w) \<Rightarrow> (Some i, w)))"

definition subscribe_on_startup ::
  "'w sub_client \<Rightarrow> (string \<Rightarrow> string) \<Rightarrow> string list \<Rightarrow> subscribe_input \<Rightarrow> 'w \<Rightarrow> string option \<times> 'w" where
  "subscribe_on_startup c getenv registered inp w =
     (let inp = sub_resolve getenv registered inp in
      if si_EventTypes inp = [] \<or> missing_env inp \<noteq> [] then (Some [], w)
      else if si_WatchOrgID inp = [] \<and> si_WatchOrgSlug inp \<noteq> [] then
        (case resolve_org_id_from_slug c (si_AuthURL inp) (si_WatchOrgSlug inp) w of
           (None, w) \<Rightarrow> (None, w)
         | (Some None, w) \<Rightarrow> startup_go c inp (si_WatchOrgID inp) w
         | (Some (Some v), w) \<Rightarrow> startup_go c inp v w)
      else startup_go c inp (si_WatchOrgID inp) w)"

section \<open>The same events\<close>

lemma count_fold: "foldl (\<lambda>m x. m(x := m x + d)) m xs y = m y + d * int (count (mset xs) y)"
  by (induction xs arbitrary: m) (auto simp: algebra_simps)

text \<open>\<open>sameSet\<close> compares the lists as multisets.\<close>

lemma same_set_iff: "same_set a b \<longleftrightarrow> mset a = mset b"
proof -
  have f: "foldl (\<lambda>m x. m(x := m x - 1)) (foldl (\<lambda>m x. m(x := m x + 1)) (\<lambda>_. 0 :: int) a) b y
      = int (count (mset a) y) - int (count (mset b) y)" for y
    using count_fold [of "-1" _ b y] count_fold [of 1 "\<lambda>_. 0" a y] by simp
  have "same_set a b \<longleftrightarrow> (\<forall>y \<in> set a \<union> set b. count (mset a) y = count (mset b) y)"
    by (auto simp: same_set_def f list_all_iff Let_def)
  also have "\<dots> \<longleftrightarrow> mset a = mset b" by (metis UnCI count_mset_0_iff multiset_eqI)
  finally show ?thesis .
qed

section \<open>What is sent\<close>

text \<open>The same client with the requests it makes recorded, oldest first.\<close>

definition logging :: "'v sub_client \<Rightarrow> (http_request list \<times> 'v) sub_client" where
  "logging c = \<lparr>sc_Build = sc_Build c,
     sc_Do = (\<lambda>req (l, v). case sc_Do c req v of (r, v') \<Rightarrow> (r, (l @ [req], v'))),
     sc_Page = sc_Page c, sc_Object = sc_Object c, sc_Encode = sc_Encode c\<rparr>"

lemma logging_simps [simp]:
  "sc_Build (logging c) = sc_Build c" "sc_Page (logging c) = sc_Page c" "sc_Object (logging c) = sc_Object c" "sc_Encode (logging c) = sc_Encode c"
  "sc_Do (logging c) req (l, v) = (case sc_Do c req v of (r, v') \<Rightarrow> (r, (l @ [req], v')))"
  by (simp_all add: logging_def)

text \<open>At most \<open>n\<close> requests were added, all with the method \<open>m\<close>.\<close>

definition sent :: "string \<Rightarrow> nat \<Rightarrow> http_request list \<times> 'v \<Rightarrow> http_request list \<times> 'v \<Rightarrow> bool" where
  "sent m n w w' \<longleftrightarrow> (\<exists>l. fst w' = fst w @ l \<and> length l \<le> n \<and> (\<forall>req \<in> set l. hq_Method req = m))"

lemma sentI: "fst w' = fst w @ l \<Longrightarrow> length l \<le> n \<Longrightarrow> \<forall>req \<in> set l. hq_Method req = m \<Longrightarrow> sent m n w w'"
  by (auto simp: sent_def)

lemma sent_refl [simp]: "sent m n w w"
  by (rule sentI [of _ _ "[]"]) simp_all

lemma sent_step: "sent m n w1 w2 \<Longrightarrow> fst w1 = fst w @ [req] \<Longrightarrow> hq_Method req = m \<Longrightarrow> sent m (Suc n) w w2"
  unfolding sent_def by (elim exE conjE, rule exI [of _ "req # _"]) simp

lemma list_pages_sends: "sent ''GET'' n w (snd (list_pages (logging c) inp endpoint n tok w))"
proof (induction n arbitrary: tok w)
  case (Suc n)
  obtain l v where w: "w = (l, v)" by fastforce
  define u where "u = trim_slashes (si_AuthURL inp) @ ''/events/subscriptions?limit=100'' @ (if tok \<noteq> [] then ''&next_token='' @ query_escape tok else [])"
  define req where "req = auth_request inp ''GET'' u None"
  obtain r v' where d: "sc_Do c req v = (r, v')" by fastforce
  have m: "hq_Method req = ''GET''" by (simp add: req_def auth_request_def)
  have one: "sent ''GET'' (Suc n) w (l @ [req], v')" using sent_step [of "''GET''" n "(l @ [req], v')" "(l @ [req], v')" w req] m w by simp
  have more: "sent ''GET'' (Suc n) w (snd (list_pages (logging c) inp endpoint n nt (l @ [req], v')))" for nt
    using sent_step [OF Suc.IH [of "(l @ [req], v')" nt], of w req] m w by simp
  have d': "sc_Do (logging c) req w = (r, (l @ [req], v'))" using d w by simp
  show ?case
    unfolding list_pages.simps Let_def u_def [symmetric] req_def [symmetric] d' logging_simps
    using one more by (auto split: option.split prod.split)
qed simp

lemma resolve_sends: "sent ''GET'' 1 w (snd (resolve_org_id_from_slug (logging c) a slug w))"
proof -
  obtain l v where w: "w = (l, v)" by fastforce
  have "sent ''GET'' 1 (l, v) (l @ [req], v')" if "hq_Method req = ''GET''" for req v' using that by (intro sentI [of _ _ "[req]"]) simp_all
  then show ?thesis by (auto simp: resolve_org_id_from_slug_def w Let_def split: option.split prod.split)
qed

text \<open>What a create call sends and how it was answered when it reports an id.\<close>

abbreviation create_request :: "'v sub_client \<Rightarrow> subscribe_input \<Rightarrow> json \<Rightarrow> http_request" where
  "create_request c inp body \<equiv> auth_request inp ''POST'' (trim_slashes (si_AuthURL inp) @ ''/events/subscriptions'') (Some (sc_Encode c body))"

lemma create_sends:
  assumes "create_subscription_status (logging c) inp body (l, v) = (r, st, (l', v'))"
  shows "l' = l \<and> (\<exists>m. r = Inl m) \<or> l' = l @ [create_request c inp body]
    \<and> (\<forall>i. r = Inr i \<longrightarrow> (\<exists>resp. sc_Do c (create_request c inp body) v = (Some resp, v') \<and> hr_Status resp \<in> {200, 201}))"
proof (cases "sc_Build c ''POST'' (trim_slashes (si_AuthURL inp) @ ''/events/subscriptions'')")
  case False
  with assms show ?thesis by (auto simp: create_subscription_status_def Let_def)
next
  case True
  obtain a v1 where d: "sc_Do c (create_request c inp body) v = (a, v1)" by fastforce
  with True assms show ?thesis
    by (cases a) (auto simp: create_subscription_status_def Let_def split: if_split_asm)
qed

lemma delete_sends:
  assumes "delete_subscription (logging c) inp i (l, v) = (r, (l', v'))"
  shows "sent ''DELETE'' 1 (l, v) (l', v')"
proof -
  have "sent ''DELETE'' 1 (l, v) (l @ [req], v')" if "hq_Method req = ''DELETE''" for req v' using that by (intro sentI [of _ _ "[req]"]) simp_all
  then have "sent ''DELETE'' 1 (l, v) (snd (delete_subscription (logging c) inp i (l, v)))"
    by (auto simp: delete_subscription_def auth_request_def Let_def split: option.split prod.split)
  with assms show ?thesis by simp
qed

lemma sent_trans: "sent m n w1 w2 \<Longrightarrow> sent m k w2 w3 \<Longrightarrow> sent m (n + k) w1 w3"
  unfolding sent_def by (elim exE conjE, rule exI [of _ "_ @ _"]) auto

section \<open>Boot\<close>

lemma startup_go_sends:
  "\<exists>w1 posts. sent ''GET'' 1000 w w1 \<and> fst (snd (startup_go (logging c) inp orgID w)) = fst w1 @ posts
    \<and> (posts = [] \<or> posts = [create_request c inp (subscription_body inp (sub_endpoint inp) orgID)]
         \<and> (\<forall>x. fst (list_by_endpoint (logging c) inp (sub_endpoint inp) w) \<noteq> Inr (Some x)))"
proof -
  obtain r w1 where l: "list_by_endpoint (logging c) inp (sub_endpoint inp) w = (r, w1)" by (metis surj_pair)
  then have s: "sent ''GET'' 1000 w w1" using list_pages_sends [of 1000 w c inp "sub_endpoint inp" "[]"] by (simp add: list_by_endpoint_def)
  obtain r2 st w2 where cr: "create_subscription_status (logging c) inp (subscription_body inp (sub_endpoint inp) orgID) w1 = (r2, st, w2)"
    using prod_cases3 by blast
  then have "fst w2 = fst w1 \<or> fst w2 = fst w1 @ [create_request c inp (subscription_body inp (sub_endpoint inp) orgID)]"
    using create_sends [of c inp _ "fst w1" "snd w1" r2 st "fst w2" "snd w2"] by auto
  with s l cr show ?thesis
    by (intro exI [of _ w1]) (auto simp: startup_go_def split: sum.split option.split)
qed

text \<open>
  Boot never removes a subscription. Whatever auth answers, \<open>SubscribeOnStartup\<close> sends nothing but
  \<open>GET\<close>s, at most 1001 of them, followed by at most one \<open>POST\<close> that creates a subscription for its own
  endpoint and secret; it never sends a \<open>DELETE\<close>, also when asked to rotate the secret.
\<close>

theorem startup_never_deletes:
  "\<exists>gets posts. fst (snd (subscribe_on_startup (logging c) getenv registered inp ([], v))) = gets @ posts
     \<and> length gets \<le> 1001 \<and> (\<forall>req \<in> set gets. hq_Method req = ''GET'')
     \<and> (posts = [] \<or> (\<exists>orgID. let inp' = sub_resolve getenv registered inp in
           posts = [create_request c inp' (subscription_body inp' (sub_endpoint inp') orgID)]))"
proof -
  let ?inp = "sub_resolve getenv registered inp"
  let ?P = "\<lambda>w'. \<exists>gets posts. fst w' = gets @ posts \<and> length gets \<le> 1001 \<and> (\<forall>req \<in> set gets. hq_Method req = ''GET'')
     \<and> (posts = [] \<or> (\<exists>orgID. posts = [create_request c ?inp (subscription_body ?inp (sub_endpoint ?inp) orgID)]))"
  have stop: "?P w1" if "sent ''GET'' 1 ([], v) w1" for w1 :: "http_request list \<times> 'a"
    using that unfolding sent_def by (elim exE conjE, intro exI [of _ "fst w1"] exI [of _ "[]"]) auto
  have go: "?P (snd (startup_go (logging c) ?inp orgID w1))" if "sent ''GET'' 1 ([], v) w1" for orgID w1
  proof -
    obtain w2 posts where w2: "sent ''GET'' 1000 w1 w2" "fst (snd (startup_go (logging c) ?inp orgID w1)) = fst w2 @ posts"
      "posts = [] \<or> posts = [create_request c ?inp (subscription_body ?inp (sub_endpoint ?inp) orgID)]"
      using startup_go_sends by blast
    from sent_trans [OF that w2(1)] obtain gets where "fst w2 = gets" "length gets \<le> 1001" "\<forall>req \<in> set gets. hq_Method req = ''GET''"
      by (auto simp: sent_def)
    with w2 show ?thesis by (intro exI [of _ gets] exI [of _ posts]) auto
  qed
  obtain r w1 where rs: "resolve_org_id_from_slug (logging c) (si_AuthURL ?inp) (si_WatchOrgSlug ?inp) ([], v) = (r, w1)" by (metis surj_pair)
  have s1: "sent ''GET'' 1 ([], v) w1" using resolve_sends [of "([], v)" c] rs by (metis snd_conv)
  have "?P (snd (subscribe_on_startup (logging c) getenv registered inp ([], v)))"
    unfolding subscribe_on_startup_def Let_def rs using stop [OF s1] stop [OF sent_refl] go [OF s1] go [OF sent_refl]
    by (auto split: option.split)
  then show ?thesis by (simp add: Let_def)
qed

section \<open>The strict call\<close>

text \<open>The subscription \<open>x\<close> is an item of the page auth has just answered, and it is of this endpoint.\<close>

definition shown :: "'v sub_client \<Rightarrow> string \<Rightarrow> existing_sub \<Rightarrow> http_request list \<times> 'v \<Rightarrow> bool" where
  "shown c endpoint x w \<longleftrightarrow> (\<exists>v0 resp items tok. \<exists>item \<in> set items. fst w \<noteq> [] \<and> sc_Do c (last (fst w)) v0 = (Some resp, snd w)
     \<and> hr_Status resp = 200 \<and> sc_Page c (reply_body (8 * 2 ^ 20) resp) = Some (items, tok)
     \<and> item_str item ''endpoint'' = endpoint \<and> item_id item \<noteq> [] \<and> x = existing_of item)"

lemma list_pages_found:
  assumes "list_pages (logging c) inp endpoint n tok w = (Inr (Some x), w')"
  shows "shown c endpoint x w'"
  using assms
proof (induction n arbitrary: tok w)
  case (Suc n)
  obtain l v where w: "w = (l, v)" by fastforce
  define u where "u = trim_slashes (si_AuthURL inp) @ ''/events/subscriptions?limit=100'' @ (if tok \<noteq> [] then ''&next_token='' @ query_escape tok else [])"
  define req where "req = auth_request inp ''GET'' u None"
  obtain r v' where d: "sc_Do c req v = (r, v')" by fastforce
  have d': "sc_Do (logging c) req w = (r, (l @ [req], v'))" using d w by simp
  have found: "shown c endpoint (existing_of item) (l @ [req], v')"
    if "r = Some resp" "hr_Status resp = 200" "sc_Page c (reply_body (8 * 2 ^ 20) resp) = Some (items, tok')"
      "find (\<lambda>item. item_str item ''endpoint'' = endpoint) items = Some item" "item_id item \<noteq> []" for resp items tok' item
  proof -
    from that(4) have "item \<in> set items" "item_str item ''endpoint'' = endpoint" by (auto simp: find_Some_iff)
    with that d show ?thesis unfolding shown_def by force
  qed
  from Suc.prems show ?case
    unfolding list_pages.simps Let_def u_def [symmetric] req_def [symmetric] d' logging_simps
    using found Suc.IH by (auto split: option.split_asm if_split_asm)
qed simp

lemma sub_create_sends:
  assumes "sub_create (logging c) inp endpoint orgID replaced w = (Inr res, w')"
  shows "su_SubscriptionID res \<noteq> [] \<and> su_Endpoint res = endpoint \<and> su_EventTypes res = si_EventTypes inp \<and> su_ReplacedID res = replaced
    \<and> su_Action res = (if replaced \<noteq> [] then ''rotated'' else ''created'')
    \<and> fst w' = fst w @ [create_request c inp (subscription_body inp endpoint orgID)]
    \<and> (\<exists>resp. sc_Do c (create_request c inp (subscription_body inp endpoint orgID)) (snd w) = (Some resp, snd w') \<and> hr_Status resp \<in> {200, 201})"
proof -
  obtain r st l v where cr: "create_subscription_status (logging c) inp (subscription_body inp endpoint orgID) (fst w, snd w) = (r, st, (l, v))"
    by (metis prod_cases3 surj_pair)
  then obtain i where i: "r = Inr i" "i \<noteq> []" and w': "w' = (l, v)"
    and res: "res = \<lparr>su_SubscriptionID = i, su_Action = (if replaced \<noteq> [] then ''rotated'' else ''created''),
       su_Endpoint = endpoint, su_EventTypes = si_EventTypes inp, su_ReplacedID = replaced, su_SecretVerified = True\<rparr>"
    using assms by (auto simp: sub_create_def Let_def split: sum.split_asm if_split_asm)
  from create_sends [OF cr] i w' res show ?thesis by auto
qed

text \<open>
  \<open>Subscribe\<close> never succeeds with nothing registered. When it reports success, an id is known and either
  auth has just accepted, with 200 or 201, a subscription for exactly the receiver's endpoint, the
  asked event types and the current secret, as the last request made; or nothing but \<open>GET\<close>s was sent
  and the last page auth answered shows an active subscription of that endpoint with exactly these event types, whose
  secret, where auth shows it, is the current one.
\<close>

theorem subscribe_success_is_registered:
  assumes "subscribe (logging c) getenv registered inp ([], v) = (Some (Inr res), (l, v'))"
  shows "let inp' = sub_resolve getenv registered inp; endpoint = sub_endpoint inp' in
    su_SubscriptionID res \<noteq> [] \<and> su_Endpoint res = endpoint \<and>
    (su_Action res \<in> {''created'', ''rotated''}
       \<and> (\<exists>orgID v0 resp. l \<noteq> [] \<and> last l = create_request c inp' (subscription_body inp' endpoint orgID)
            \<and> sc_Do c (last l) v0 = (Some resp, v') \<and> hr_Status resp \<in> {200, 201})
     \<or> su_Action res = ''existing'' \<and> (\<forall>req \<in> set l. hq_Method req = ''GET'')
       \<and> (\<exists>x. shown c endpoint x (l, v') \<and> xs_id x = su_SubscriptionID res \<and> mset (xs_eventTypes x) = mset (si_EventTypes inp') \<and> \<not> xs_inactive x
            \<and> (xs_secret x = [] \<or> xs_secret x = si_Secret inp')))"
proof -
  define inp' where "inp' = sub_resolve getenv registered inp"
  obtain r0 w0 where rs: "resolve_org_id_from_slug (logging c) (si_AuthURL inp') (si_WatchOrgSlug inp') ([], v) = (r0, w0)" by (metis surj_pair)
  have g0: "sent ''GET'' 1 ([], v) w0" using resolve_sends [of "([], v)" c] rs by (metis snd_conv)
  obtain orgID w where go: "subscribe_go (logging c) inp' orgID w = (Inr res, (l, v'))" and w: "sent ''GET'' 1 ([], v) w"
    using assms rs g0 unfolding subscribe_def inp'_def [symmetric] Let_def
    by (auto split: if_split_asm option.split_asm prod.split_asm simp: map_prod_def)
  obtain lr w1 where ls: "list_by_endpoint (logging c) inp' (sub_endpoint inp') w = (lr, w1)" by (metis surj_pair)
  obtain ex where ex: "lr = Inr ex" and al: "sub_after_list (logging c) inp' (sub_endpoint inp') orgID ex w1 = (Inr res, (l, v'))"
    using go ls by (auto simp: subscribe_go_def split: sum.split_asm)
  have gets: "sent ''GET'' 1001 ([], v) w1"
    using sent_trans [OF w, of 1000 w1] list_pages_sends [of 1000 w c inp' "sub_endpoint inp'" "[]"] ls
    by (simp add: list_by_endpoint_def)
  have created: ?thesis if "sub_create (logging c) inp' (sub_endpoint inp') orgID replaced w2 = (Inr res, (l, v'))" for replaced w2
    using sub_create_sends [OF that] unfolding inp'_def [symmetric] Let_def by (auto split: if_split_asm)
  show ?thesis
  proof (cases ex)
    case None
    with al created show ?thesis by (simp add: sub_after_list_def)
  next
    case (Some x)
    have sh: "shown c (sub_endpoint inp') x w1" using ls ex Some by (intro list_pages_found [of c inp' "sub_endpoint inp'" 1000 "[]" w x w1]) (simp add: list_by_endpoint_def)
    then have x: "xs_id x \<noteq> []" by (auto simp: shown_def existing_of_def)
    show ?thesis
    proof (cases "si_RotateSecret inp'")
      case True
      with al Some created show ?thesis by (auto simp: sub_after_list_def split: prod.split_asm option.split_asm)
    next
      case False
      then have p: "sub_problems inp' x = []" and w1: "w1 = (l, v')"
        and res: "su_SubscriptionID res = xs_id x" "su_Action res = ''existing''" "su_Endpoint res = sub_endpoint inp'"
        using al Some by (auto simp: sub_after_list_def split: if_split_asm)
      have "\<forall>req \<in> set l. hq_Method req = ''GET''" using gets w1 by (auto simp: sent_def)
      moreover have "\<exists>x. shown c (sub_endpoint inp') x (l, v') \<and> xs_id x = su_SubscriptionID res \<and> mset (xs_eventTypes x) = mset (si_EventTypes inp') \<and> \<not> xs_inactive x
          \<and> (xs_secret x = [] \<or> xs_secret x = si_Secret inp')"
        using p res sh w1 by (auto simp: sub_problems_def same_set_iff split: if_split_asm intro!: exI [of _ x])
      ultimately show ?thesis using x res unfolding inp'_def [symmetric] Let_def by simp
    qed
  qed
qed

text \<open>An auth service without subscriptions that accepts every new one as \<open>sub-1\<close>; its login page shows
  an empty org id.\<close>

definition empty_auth :: "unit sub_client" where
  "empty_auth = \<lparr>sc_Build = (\<lambda>_ _. True),
     sc_Do = (\<lambda>req w. (Some \<lparr>hr_Status = (if hq_Method req = ''POST'' then 201 else 200),
        hr_Body = Some ([CHR 0x22] @ ''orgId'' @ [CHR 0x22] @ '':'' @ [CHR 0x22, CHR 0x22])\<rparr>, w)),
     sc_Page = (\<lambda>_. Some ([], None)), sc_Object = (\<lambda>_. [(''id'', JStr ''sub-1'')]), sc_Encode = (\<lambda>_. ''{}'')\<rparr>"

definition quota_input :: subscribe_input where
  "quota_input = \<lparr>si_AuthURL = ''https://auth/'', si_AdminToken = ''t'', si_PublicURL = ''https://me'', si_Secret = ''key'',
     si_EventTypes = [''org.created''], si_WatchOrgSlug = [], si_WatchOrgID = [], si_Name = [], si_MountPrefix = [], si_RotateSecret = False\<rparr>"

lemma quota_input_resolved: "sub_resolve (\<lambda>_. []) [] (quota_input\<lparr>si_WatchOrgSlug := slug\<rparr>) =
    quota_input\<lparr>si_WatchOrgSlug := slug, si_Name := ''ab0t-quota-credit-grant'', si_MountPrefix := ''/api''\<rparr>"
  by (simp add: sub_resolve_def quota_input_def)

lemma empty_auth_page: "list_pages (logging empty_auth) inp endpoint (Suc n) [] w = (Inr None, (fst w @ [auth_request inp ''GET''
    (trim_slashes (si_AuthURL inp) @ ''/events/subscriptions?limit=100'') None], ()))"
  by (cases w) (simp add: empty_auth_def Let_def auth_request_def)

lemma empty_auth_lists: "list_by_endpoint (logging empty_auth) inp endpoint w = (Inr None, (fst w @ [auth_request inp ''GET''
    (trim_slashes (si_AuthURL inp) @ ''/events/subscriptions?limit=100'') None], ()))"
  using empty_auth_page [of inp endpoint 999 w] by (simp add: list_by_endpoint_def)

lemma empty_auth_creates: "sub_create (logging empty_auth) inp endpoint orgID [] w =
   (Inr \<lparr>su_SubscriptionID = ''sub-1'', su_Action = ''created'', su_Endpoint = endpoint, su_EventTypes = si_EventTypes inp,
         su_ReplacedID = [], su_SecretVerified = True\<rparr>, (fst w @ [create_request empty_auth inp (subscription_body inp endpoint orgID)], ()))"
  by (cases w) (simp add: sub_create_def create_subscription_status_def empty_auth_def auth_request_def item_id_def item_str_def Let_def)

theorem subscribe_success_is_registered_witness:
  "\<exists>res l. subscribe (logging empty_auth) (\<lambda>_. []) [] quota_input ([], ()) = (Some (Inr res), (l, ())) \<and> su_SubscriptionID res \<noteq> []
     \<and> su_Endpoint res = ''https://me/api/quotas/_webhooks/auth''"
proof -
  have r: "sub_resolve (\<lambda>_. []) [] quota_input = quota_input\<lparr>si_Name := ''ab0t-quota-credit-grant'', si_MountPrefix := ''/api''\<rparr>"
    by (simp add: sub_resolve_def quota_input_def)
  obtain res l where s: "subscribe (logging empty_auth) (\<lambda>_. []) [] quota_input ([], ()) = (Some (Inr res), (l, ()))"
    unfolding subscribe_def r Let_def subscribe_go_def empty_auth_lists
    by (simp add: quota_input_def missing_env_def sub_after_list_def empty_auth_creates)
  from subscribe_success_is_registered [OF s] have "su_SubscriptionID res \<noteq> []" "su_Endpoint res = sub_endpoint (sub_resolve (\<lambda>_. []) [] quota_input)"
    unfolding Let_def by blast+
  with s r show ?thesis
    by (intro exI [of _ res] exI [of _ l]) (simp add: quota_input_def sub_endpoint_def trim_slashes_def webhook_path_def)
qed

text \<open>
  A subscription that was asked to watch one org can watch all of them. \<open>Subscribe\<close> refuses a slug that
  does not resolve, so as never to widen the subscription, but takes a login page with an empty org
  id for a resolved one: it then creates a subscription without any filter and reports success.
\<close>

theorem empty_org_id_widens:
  assumes "si_WatchOrgID inp' = []" and "si_WatchOrgSlug inp' \<noteq> []" and "inp' = sub_resolve getenv registered inp"
    and "missing_env inp' = []" and "si_EventTypes inp' \<noteq> []"
    and "resolve_org_id_from_slug (logging c) (si_AuthURL inp') (si_WatchOrgSlug inp') w = (Some (Some []), w0)"
    and "list_by_endpoint (logging c) inp' (sub_endpoint inp') w0 = (Inr None, w1)"
    and "sub_create (logging c) inp' (sub_endpoint inp') [] [] w1 = (Inr res, w2)"
  shows "subscribe (logging c) getenv registered inp w = (Some (Inr res), w2)
    \<and> last (fst w2) = create_request c inp' (JObj [(''name'', JStr (si_Name inp')), (''event_types'', JArr (map JStr (si_EventTypes inp'))),
         (''endpoint'', JStr (sub_endpoint inp')), (''secret'', JStr (si_Secret inp'))])"
  using sub_create_sends [OF assms(8)] assms
  by (simp add: subscribe_def Let_def subscribe_go_def sub_after_list_def subscription_body_def)

theorem empty_org_id_widens_witness:
  "\<exists>res l. subscribe (logging empty_auth) (\<lambda>_. []) [] (quota_input\<lparr>si_WatchOrgSlug := ''acme''\<rparr>) ([], ()) = (Some (Inr res), (l, ()))
     \<and> hq_Method (last l) = ''POST''"
proof -
  let ?i = "quota_input\<lparr>si_WatchOrgSlug := ''acme'', si_Name := ''ab0t-quota-credit-grant'', si_MountPrefix := ''/api''\<rparr>"
  have i: "si_WatchOrgID ?i = []" "si_WatchOrgSlug ?i \<noteq> []" "missing_env ?i = []" "si_EventTypes ?i \<noteq> []"
    by (simp_all add: quota_input_def missing_env_def)
  obtain w0 where rs: "resolve_org_id_from_slug (logging empty_auth) (si_AuthURL ?i) (si_WatchOrgSlug ?i) ([], ()) = (Some (Some []), w0)"
    by (simp add: resolve_org_id_from_slug_def empty_auth_def org_id_of_page_def)
  note all = empty_org_id_widens [OF i(1,2) quota_input_resolved [symmetric] i(3,4) rs empty_auth_lists empty_auth_creates]
  then show ?thesis by (auto simp: auth_request_def)
qed

theorem startup_never_deletes_witness:
  "filter (\<lambda>req. hq_Method req = ''DELETE'')
     (fst (snd (subscribe_on_startup (logging empty_auth) (\<lambda>_. []) [] (quota_input\<lparr>si_RotateSecret := True\<rparr>) ([], ())))) = []"
proof -
  let ?l = "fst (snd (subscribe_on_startup (logging empty_auth) (\<lambda>_. []) [] (quota_input\<lparr>si_RotateSecret := True\<rparr>) ([], ())))"
  from startup_never_deletes [of empty_auth "\<lambda>_. []" "[]" "quota_input\<lparr>si_RotateSecret := True\<rparr>" "()"] obtain gets posts
    where "?l = gets @ posts" "\<forall>req \<in> set gets. hq_Method req = ''GET''" "\<forall>req \<in> set posts. hq_Method req = ''POST''"
    unfolding Let_def by (auto simp: auth_request_def)
  then show ?thesis by (auto simp: filter_empty_conv)
qed

end
