(* ===== verification/RedisLedger.thy ===== *)
theory RedisLedger
  imports HandlerLedger RedisStore
begin

text \<open>
  The Redis handler ledger (\<open>handlerledger/redis_store.go\<close>). A transaction is a \<open>WATCH\<close>, reads, and one
  \<open>EXEC\<close> of queued commands, repeated while the server answers that a watched key was touched. The
  commands of the client act on a threaded world in which other replicas may act at any command;
  the JSON codec, the clock and SHA-256 are fields of the client.
\<close>

section \<open>The client\<close>

datatype pipe_cmd = PSet string string duration | PZAdd string f64 string | PExpire string duration | PZRem string string

text \<open>What \<open>EXEC\<close> answers when it does not fail: \<open>Aborted\<close> is \<open>redis.TxFailedErr\<close>.\<close>

datatype exec_reply = Committed | Aborted

record 'w ledger_redis =
  lk_CanWatch :: bool
  lk_Watch :: "string \<Rightarrow> ('w, unit) script"
  lk_Close :: "'w \<Rightarrow> 'w"
  lk_Exec :: "pipe_cmd list \<Rightarrow> ('w, exec_reply) script"
  lk_Get :: "string \<Rightarrow> ('w, string option) script"
  lk_Exists :: "string \<Rightarrow> ('w, int) script"
  lk_Set :: "string \<Rightarrow> string \<Rightarrow> duration \<Rightarrow> ('w, unit) script"
  lk_ZRange :: "string \<Rightarrow> ('w, string list) script"
  lk_ZRevRange :: "string \<Rightarrow> ('w, string list) script"
  lk_ZRem :: "string \<Rightarrow> string \<Rightarrow> ('w, unit) script"
  lk_Del :: "string \<Rightarrow> ('w, unit) script"
  lk_Now :: "'w \<Rightarrow> instant \<times> 'w"
  lk_EncRow :: "ledger_row \<Rightarrow> goerr + string"
  lk_DecRow :: "string \<Rightarrow> goerr + ledger_row"
  lk_EncMark :: "mark_done_input \<Rightarrow> goerr + string"
  lk_sha :: "string \<Rightarrow> string"

definition pure :: "goerr + 'a \<Rightarrow> ('w, 'a) script" where
  "pure r w = (r, w)"

definition tell :: "'w ledger_redis \<Rightarrow> ('w, instant) script" where
  "tell R w = (case lk_Now R w of (t, w) \<Rightarrow> (Inr t, w))"

section \<open>Keys\<close>

definition row_ttl :: duration where
  "row_ttl = 72 * 3600 * second"

definition row_key :: "string \<Rightarrow> string \<Rightarrow> string" where
  "row_key handler eventID = ''ledger:row:'' @ handler @ '':'' @ eventID"

definition by_user_key :: "string \<Rightarrow> string" where
  "by_user_key userID = ''ledger:by_user:'' @ userID"

definition by_status_key :: "ledger_status \<Rightarrow> string" where
  "by_status_key s = ''ledger:by_status:'' @ status_text s"

definition biz_dedup_key :: "string \<Rightarrow> string" where
  "biz_dedup_key h = ''ledger:bizdedup:'' @ h"

section \<open>Transactions\<close>

definition rl_load_row :: "'w ledger_redis \<Rightarrow> string \<Rightarrow> string \<Rightarrow> ('w, ledger_row option) script" where
  "rl_load_row R handler eventID =
     sbind (lk_Get R (row_key handler eventID)) (\<lambda>raw. case raw of
       None \<Rightarrow> sret None
     | Some raw \<Rightarrow> sbind (pure (lk_DecRow R raw)) (\<lambda>row. sret (Some row)))"

text \<open>The result of one run of a transaction: \<open>None\<close> when the server aborted it.\<close>

definition watch_once :: "'w ledger_redis \<Rightarrow> ('w, 'a option) script \<Rightarrow> string \<Rightarrow> ('w, 'a option) script" where
  "watch_once R txf key w =
     (case sseq (lk_Watch R key) txf w of (r, w) \<Rightarrow> (r, lk_Close R w))"

fun watch_tries :: "'w ledger_redis \<Rightarrow> ('w, 'a option) script \<Rightarrow> string \<Rightarrow> nat \<Rightarrow> ('w, 'a) script" where
  "watch_tries R txf key 0 = sfail ''handler ledger redis backend: WATCH contention exceeded 20 retries''"
| "watch_tries R txf key (Suc n) =
     sbind (watch_once R txf key) (\<lambda>r. case r of Some a \<Rightarrow> sret a | None \<Rightarrow> watch_tries R txf key n)"

definition watch_retry :: "'w ledger_redis \<Rightarrow> ('w, 'a option) script \<Rightarrow> string \<Rightarrow> ('w, 'a) script" where
  "watch_retry R txf key =
     (if \<not> lk_CanWatch R then sfail ''handler ledger redis backend: client does not support WATCH transactions''
      else watch_tries R txf key 20)"

definition commit :: "'w ledger_redis \<Rightarrow> pipe_cmd list \<Rightarrow> 'a \<Rightarrow> ('w, 'a option) script" where
  "commit R cmds a = sbind (lk_Exec R cmds) (\<lambda>r. sret (case r of Committed \<Rightarrow> Some a | Aborted \<Rightarrow> None))"

section \<open>Operations\<close>

definition unix :: "instant \<Rightarrow> int" where
  "unix t = t div second"

text \<open>The clock is only read when the row is in progress and has a lease.\<close>

definition rl_refuses :: "'w ledger_redis \<Rightarrow> ledger_row \<Rightarrow> ('w, bool) script" where
  "rl_refuses R r =
     (if is_terminal (lr_Status r) then sret True
      else if lr_Status r = StatusInProgress then
        (case lr_LeaseExpiresAt r of None \<Rightarrow> sret False | Some e \<Rightarrow> sbind (tell R) (\<lambda>t. sret (e > t)))
      else sret False)"

definition rl_attempt_cmds :: "attempt_input \<Rightarrow> instant \<Rightarrow> string \<Rightarrow> pipe_cmd list" where
  "rl_attempt_cmds inp now blob =
     (let rk = row_key (rai_HandlerName inp) (rai_EventID inp); score = of_go_int (unix now) in
      [PSet rk blob row_ttl]
      @ (if rai_UserID inp \<noteq> [] then [PZAdd (by_user_key (rai_UserID inp)) score rk, PExpire (by_user_key (rai_UserID inp)) row_ttl] else [])
      @ [PZAdd (by_status_key StatusInProgress) score rk, PExpire (by_status_key StatusInProgress) row_ttl])"

definition rl_attempt_open :: "'w ledger_redis \<Rightarrow> attempt_input \<Rightarrow> ledger_row option \<Rightarrow> ('w, attempt_result option) script" where
  "rl_attempt_open R inp existing =
     sbind (tell R) (\<lambda>now. sbind (pure (lk_EncRow R (attempt_row now existing inp))) (\<lambda>blob.
       commit R (rl_attempt_cmds inp now blob) \<lparr>atr_Proceed = True, atr_CachedRow = None\<rparr>))"

definition rl_attempt_tx :: "'w ledger_redis \<Rightarrow> attempt_input \<Rightarrow> ('w, attempt_result option) script" where
  "rl_attempt_tx R inp =
     sbind (rl_load_row R (rai_HandlerName inp) (rai_EventID inp)) (\<lambda>existing. case existing of
       None \<Rightarrow> rl_attempt_open R inp None
     | Some r \<Rightarrow> sbind (rl_refuses R r) (\<lambda>no.
         if no then sret (Some \<lparr>atr_Proceed = False, atr_CachedRow = Some r\<rparr>) else rl_attempt_open R inp (Some r)))"

definition rl_record_attempt :: "'w ledger_redis \<Rightarrow> attempt_input \<Rightarrow> ('w, attempt_result) script" where
  "rl_record_attempt R inp = watch_retry R (rl_attempt_tx R inp) (row_key (rai_HandlerName inp) (rai_EventID inp))"

definition rl_outcome_cmds :: "outcome_input \<Rightarrow> ledger_row \<Rightarrow> ledger_row \<Rightarrow> string \<Rightarrow> pipe_cmd list" where
  "rl_outcome_cmds inp r r' blob =
     (let rk = row_key (oi_HandlerName inp) (oi_EventID inp) in
      [PSet rk blob row_ttl]
      @ (if lr_Status r \<noteq> oi_Status inp then [PZRem (by_status_key (lr_Status r)) rk] else [])
      @ [PZAdd (by_status_key (oi_Status inp)) (of_go_int (unix (lr_AttemptedAt r'))) rk, PExpire (by_status_key (oi_Status inp)) row_ttl])"

definition rl_outcome_tx :: "'w ledger_redis \<Rightarrow> outcome_input \<Rightarrow> ('w, unit option) script" where
  "rl_outcome_tx R inp =
     sbind (rl_load_row R (oi_HandlerName inp) (oi_EventID inp)) (\<lambda>row. case row of
       None \<Rightarrow> sret (Some ())
     | Some r \<Rightarrow> sbind (tell R) (\<lambda>now. sbind (pure (lk_EncRow R (outcome_row now inp r))) (\<lambda>blob.
         commit R (rl_outcome_cmds inp r (outcome_row now inp r) blob) ())))"

definition rl_record_outcome :: "'w ledger_redis \<Rightarrow> outcome_input \<Rightarrow> ('w, unit) script" where
  "rl_record_outcome R inp = watch_retry R (rl_outcome_tx R inp) (row_key (oi_HandlerName inp) (oi_EventID inp))"

definition rl_get_row :: "'w ledger_redis \<Rightarrow> string \<Rightarrow> string \<Rightarrow> ('w, ledger_row option) script" where
  "rl_get_row R handler eventID = rl_load_row R handler eventID"

definition rl_already_done :: "'w ledger_redis \<Rightarrow> string \<Rightarrow> ('w, bool) script" where
  "rl_already_done R dedupKey = sbind (lk_Exists R (biz_dedup_key (lk_sha R dedupKey))) (\<lambda>n. sret (n > 0))"

definition rl_mark_done :: "'w ledger_redis \<Rightarrow> mark_done_input \<Rightarrow> ('w, unit) script" where
  "rl_mark_done R inp =
     sbind (pure (lk_EncMark R inp)) (\<lambda>blob. lk_Set R (biz_dedup_key (lk_sha R (md_DedupKey inp))) blob 0)"

text \<open>The loop of \<open>queryIndex\<close> over the members that are left.\<close>

fun rl_collect :: "'w ledger_redis \<Rightarrow> query_options \<Rightarrow> string list \<Rightarrow> ledger_row list \<Rightarrow> ('w, ledger_row list) script" where
  "rl_collect R opt [] out = sret out"
| "rl_collect R opt (m # ms) out =
     sbind (lk_Get R m) (\<lambda>raw. case raw of
       None \<Rightarrow> rl_collect R opt ms out
     | Some raw \<Rightarrow> sbind (pure (lk_DecRow R raw)) (\<lambda>row.
         if \<not> in_since opt row then rl_collect R opt ms out
         else let out = out @ [row] in
           if qo_Limit opt > 0 \<and> int (length out) \<ge> qo_Limit opt then sret out else rl_collect R opt ms out))"

definition rl_query_index :: "'w ledger_redis \<Rightarrow> string \<Rightarrow> query_options \<Rightarrow> ('w, ledger_row list) script" where
  "rl_query_index R indexKey opt = sbind (lk_ZRevRange R indexKey) (\<lambda>ms. rl_collect R opt ms [])"

definition rl_query_by_user :: "'w ledger_redis \<Rightarrow> string \<Rightarrow> query_options \<Rightarrow> ('w, ledger_row list) script" where
  "rl_query_by_user R userID opt = rl_query_index R (by_user_key userID) opt"

definition rl_query_by_status :: "'w ledger_redis \<Rightarrow> ledger_status \<Rightarrow> query_options \<Rightarrow> ('w, ledger_row list) script" where
  "rl_query_by_status R st opt = rl_query_index R (by_status_key st) opt"

text \<open>The loop of \<open>DeleteUser\<close>: the number of rows deleted and the error it stopped with, if any.\<close>

fun rl_delete_rows :: "'w ledger_redis \<Rightarrow> string list \<Rightarrow> nat \<Rightarrow> 'w \<Rightarrow> nat \<times> goerr option \<times> 'w" where
  "rl_delete_rows R [] n w = (n, None, w)"
| "rl_delete_rows R (m # ms) n w =
     (let w = (case lk_Get R m w of
           (Inr (Some raw), w) \<Rightarrow> (case lk_DecRow R raw of Inr row \<Rightarrow> snd (lk_ZRem R (by_status_key (lr_Status row)) m w) | Inl e \<Rightarrow> w)
         | (_, w) \<Rightarrow> w) in
      case lk_Del R m w of
        (Inl e, w) \<Rightarrow> (n, Some e, w)
      | (Inr _, w) \<Rightarrow> rl_delete_rows R ms (Suc n) w)"

definition rl_delete_user :: "'w ledger_redis \<Rightarrow> string \<Rightarrow> 'w \<Rightarrow> nat \<times> goerr option \<times> 'w" where
  "rl_delete_user R userID w =
     (case lk_ZRange R (by_user_key userID) w of
        (Inl e, w) \<Rightarrow> (0, Some e, w)
      | (Inr ms, w) \<Rightarrow>
         (case rl_delete_rows R ms 0 w of
            (n, Some e, w) \<Rightarrow> (n, Some e, w)
          | (n, None, w) \<Rightarrow> (case lk_Del R (by_user_key userID) w of (Inl e, w) \<Rightarrow> (n, Some e, w) | (Inr _, w) \<Rightarrow> (n, None, w))))"

section \<open>What a shared server promises\<close>

text \<open>How a key stands in the open transaction.\<close>

datatype guard_state = Unwatched | Intact | Touched

text \<open>The string values after queued commands; the sorted sets are not part of this view.\<close>

fun after_cmd :: "pipe_cmd \<Rightarrow> (string \<rightharpoonup> string) \<Rightarrow> (string \<rightharpoonup> string)" where
  "after_cmd (PSet k v ttl) m = m(k \<mapsto> v)"
| "after_cmd _ m = m"

text \<open>
  A server that other clients use at the same time. \<open>val\<close> is its string keys, \<open>G\<close> what the others may
  do to them in any number of steps, \<open>clock\<close> a lower bound of the next clock reading. A read shows
  one state on the way; a transaction that commits does so in one step, at a moment when no watched
  key was touched since its \<open>WATCH\<close>.
\<close>

locale shared_redis =
  fixes R :: "'w ledger_redis" and val :: "'w \<Rightarrow> string \<rightharpoonup> string" and clock :: "'w \<Rightarrow> instant"
    and guard :: "'w \<Rightarrow> string \<Rightarrow> guard_state" and G :: "(string \<rightharpoonup> string) \<Rightarrow> (string \<rightharpoonup> string) \<Rightarrow> bool"
  assumes others_refl: "G m m"
    and others_trans: "G m m' \<Longrightarrow> G m' m'' \<Longrightarrow> G m m''"
    and watch_law: "lk_Watch R k w = (r, w') \<Longrightarrow> G (val w) (val w') \<and> clock w \<le> clock w' \<and> (r = Inr () \<longrightarrow> guard w' k \<noteq> Unwatched)"
    and close_law: "G (val w) (val (lk_Close R w)) \<and> clock w \<le> clock (lk_Close R w)"
    and get_law: "lk_Get R k w = (Inr v, w') \<Longrightarrow>
      (\<exists>m. G (val w) m \<and> m k = v \<and> G m (val w')) \<and> clock w \<le> clock w'"
    and get_guard: "lk_Get R k w = (Inr v, w') \<Longrightarrow> guard w k \<noteq> Unwatched \<Longrightarrow>
      guard w' k \<noteq> Unwatched \<and> (guard w' k = Intact \<longrightarrow> guard w k = Intact \<and> v = val w' k)"
    and now_law: "lk_Now R w = (t, w') \<Longrightarrow> G (val w) (val w') \<and> clock w \<le> t \<and> t \<le> clock w'"
    and now_guard: "lk_Now R w = (t, w') \<Longrightarrow> guard w k \<noteq> Unwatched \<Longrightarrow>
      guard w' k \<noteq> Unwatched \<and> (guard w' k = Intact \<longrightarrow> guard w k = Intact \<and> val w' k = val w k)"
    and exec_law: "lk_Exec R cmds w = (Inr Committed, w') \<Longrightarrow> guard w k \<noteq> Unwatched \<Longrightarrow>
      guard w k = Intact \<and> (\<exists>m. G (val w) m \<and> m k = val w k \<and> G (fold after_cmd cmds m) (val w')) \<and> clock w \<le> clock w'"
    and abort_law: "lk_Exec R cmds w = (Inr Aborted, w') \<Longrightarrow> G (val w) (val w') \<and> clock w \<le> clock w'"
begin

text \<open>The operation took effect in one step, from \<open>m\<close> to \<open>m'\<close>, between its call and its return.\<close>

definition took_effect ::
  "('a \<Rightarrow> instant \<Rightarrow> instant \<Rightarrow> (string \<rightharpoonup> string) \<Rightarrow> (string \<rightharpoonup> string) \<Rightarrow> bool) \<Rightarrow> 'a \<Rightarrow> 'w \<Rightarrow> 'w \<Rightarrow> bool" where
  "took_effect P a w w' \<longleftrightarrow> clock w \<le> clock w' \<and> (\<exists>m m'. G (val w) m \<and> P a (clock w) (clock w') m m' \<and> G m' (val w'))"

text \<open>\<open>P\<close> does not depend on how narrow the interval of instants is known.\<close>

definition widens :: "('a \<Rightarrow> instant \<Rightarrow> instant \<Rightarrow> (string \<rightharpoonup> string) \<Rightarrow> (string \<rightharpoonup> string) \<Rightarrow> bool) \<Rightarrow> bool" where
  "widens P \<longleftrightarrow> (\<forall>a lo hi lo' hi' m m'. P a lo hi m m' \<longrightarrow> lo' \<le> lo \<longrightarrow> hi \<le> hi' \<longrightarrow> P a lo' hi' m m')"

lemma took_effect_wider:
  assumes "took_effect P a w1 w2" and "widens P"
    and "G (val w) (val w1)" "clock w \<le> clock w1" and "G (val w2) (val w3)" "clock w2 \<le> clock w3"
  shows "took_effect P a w w3"
proof -
  from assms(1) obtain m m' where m: "G (val w1) m" "P a (clock w1) (clock w2) m m'" "G m' (val w2)" and c: "clock w1 \<le> clock w2"
    by (auto simp: took_effect_def)
  have "P a (clock w) (clock w3) m m'" using m(2) assms(2,4,6) unfolding widens_def by blast
  moreover have "G (val w) m" "G m' (val w3)" using others_trans m assms(3,5) by blast+
  ultimately show ?thesis using c assms(4,6) unfolding took_effect_def by auto
qed

text \<open>A transaction that takes effect when it commits does so under the retries as well, whatever
  number of runs the server aborts.\<close>

lemma tries_take_effect:
  assumes "widens P"
    and commit: "\<And>w a w'. guard w k \<noteq> Unwatched \<Longrightarrow> txf w = (Inr (Some a), w') \<Longrightarrow> took_effect P a w w'"
    and abort: "\<And>w w'. guard w k \<noteq> Unwatched \<Longrightarrow> txf w = (Inr None, w') \<Longrightarrow> G (val w) (val w') \<and> clock w \<le> clock w'"
    and "watch_tries R txf k n w = (Inr a, w')"
  shows "took_effect P a w w'"
  using assms(4)
proof (induction n arbitrary: w)
  case 0
  then show ?case by (simp add: sfail_def)
next
  case (Suc n)
  obtain u w1 where wt: "lk_Watch R k w = (u, w1)" by fastforce
  from Suc.prems obtain r w2 where tx: "u = Inr ()" "txf w1 = (Inr r, w2)"
    and go: "(case r of Some a \<Rightarrow> sret a | None \<Rightarrow> watch_tries R txf k n) (lk_Close R w2) = (Inr a, w')"
    using wt by (auto simp: sbind_def sseq_def watch_once_def split: sum.split_asm prod.split_asm)
  have l: "G (val w) (val w1)" "clock w \<le> clock w1" "guard w1 k \<noteq> Unwatched" using watch_law [OF wt] tx(1) by auto
  note c = close_law [of w2]
  show ?case
  proof (cases r)
    case (Some b)
    with go have "b = a" "w' = lk_Close R w2" by (simp_all add: sret_def)
    with commit [OF l(3)] tx(2) Some show ?thesis using took_effect_wider [OF _ assms(1) l(1,2), of a w2 w'] c by auto
  next
    case None
    with go have "took_effect P a (lk_Close R w2) w'" using Suc.IH by simp
    moreover from abort [OF l(3)] tx(2) None have "G (val w1) (val w2) \<and> clock w1 \<le> clock w2" by simp
    ultimately show ?thesis
      using took_effect_wider [of P a "lk_Close R w2" w' w w'] assms(1) l c others_trans others_refl by (meson order_trans order_refl)
  qed
qed

lemma retry_takes_effect:
  assumes "widens P"
    and "\<And>w a w'. guard w k \<noteq> Unwatched \<Longrightarrow> txf w = (Inr (Some a), w') \<Longrightarrow> took_effect P a w w'"
    and "\<And>w w'. guard w k \<noteq> Unwatched \<Longrightarrow> txf w = (Inr None, w') \<Longrightarrow> G (val w) (val w') \<and> clock w \<le> clock w'"
    and "watch_retry R txf k w = (Inr a, w')"
  shows "took_effect P a w w'"
  using tries_take_effect [OF assms(1-3)] assms(4) by (auto simp: watch_retry_def sfail_def split: if_split_asm)

end

section \<open>Operations as single steps\<close>

definition row_of :: "'w ledger_redis \<Rightarrow> (string \<rightharpoonup> string) \<Rightarrow> string \<Rightarrow> string \<Rightarrow> goerr + ledger_row option" where
  "row_of R m handler eventID =
     (case m (row_key handler eventID) of None \<Rightarrow> Inr None | Some raw \<Rightarrow> map_sum id Some (lk_DecRow R raw))"

text \<open>
  \<open>RecordAttempt\<close> in one step: judged by the row that is there, at an instant between \<open>lo\<close> and \<open>hi\<close>, it is
  refused and changes nothing, or it writes the next attempt's row and no other key.
\<close>

definition atomic_attempt ::
  "'w ledger_redis \<Rightarrow> attempt_input \<Rightarrow> attempt_result \<Rightarrow> instant \<Rightarrow> instant \<Rightarrow> (string \<rightharpoonup> string) \<Rightarrow> (string \<rightharpoonup> string) \<Rightarrow> bool" where
  "atomic_attempt R inp res lo hi m m' \<longleftrightarrow>
     (\<exists>ex t t'. row_of R m (rai_HandlerName inp) (rai_EventID inp) = Inr ex \<and> lo \<le> t \<and> t \<le> t' \<and> t' \<le> hi \<and>
        (if blocked t ex then res = \<lparr>atr_Proceed = False, atr_CachedRow = ex\<rparr> \<and> m' = m
         else res = \<lparr>atr_Proceed = True, atr_CachedRow = None\<rparr> \<and>
           (\<exists>blob. lk_EncRow R (attempt_row t' ex inp) = Inr blob \<and> m' = m(row_key (rai_HandlerName inp) (rai_EventID inp) \<mapsto> blob))))"

text \<open>\<open>RecordOutcome\<close> in one step: it closes the row that is there, and writes nothing where there is none.\<close>

definition atomic_outcome ::
  "'w ledger_redis \<Rightarrow> outcome_input \<Rightarrow> unit \<Rightarrow> instant \<Rightarrow> instant \<Rightarrow> (string \<rightharpoonup> string) \<Rightarrow> (string \<rightharpoonup> string) \<Rightarrow> bool" where
  "atomic_outcome R inp u lo hi m m' \<longleftrightarrow>
     (\<exists>ex t. row_of R m (oi_HandlerName inp) (oi_EventID inp) = Inr ex \<and> lo \<le> t \<and> t \<le> hi \<and>
        (case ex of
           None \<Rightarrow> m' = m
         | Some r \<Rightarrow> \<exists>blob. lk_EncRow R (outcome_row t inp r) = Inr blob
             \<and> m' = m(row_key (oi_HandlerName inp) (oi_EventID inp) \<mapsto> blob)))"

lemma sbind_Inr: "sbind m f w = (Inr b, w') \<longleftrightarrow> (\<exists>a w1. m w = (Inr a, w1) \<and> f a w1 = (Inr b, w'))"
  by (auto simp: sbind_def split: sum.split prod.split)

lemma sret_Inr: "sret a w = (Inr b, w') \<longleftrightarrow> b = a \<and> w' = w"
  by (auto simp: sret_def)

lemma pure_Inr: "pure r w = (Inr b, w') \<longleftrightarrow> r = Inr b \<and> w' = w"
  by (auto simp: pure_def)

lemma tell_Inr: "tell R w = (Inr t, w') \<longleftrightarrow> lk_Now R w = (t, w')"
  by (auto simp: tell_def split: prod.split)

lemma ex_exec_reply: "(\<exists>r. P r) \<longleftrightarrow> P Committed \<or> P Aborted"
  by (metis exec_reply.exhaust)

lemma commit_Inr:
  "commit R cmds a w = (Inr r, w') \<longleftrightarrow>
     lk_Exec R cmds w = (Inr Committed, w') \<and> r = Some a \<or> lk_Exec R cmds w = (Inr Aborted, w') \<and> r = None"
  by (auto simp: commit_def sbind_Inr sret_Inr ex_exec_reply)

lemmas script_inv = sbind_Inr sret_Inr pure_Inr tell_Inr

lemma rl_load_row_inv:
  assumes "rl_load_row R handler ev w = (Inr ex, w')"
  obtains raw where "lk_Get R (row_key handler ev) w = (Inr raw, w')" "\<And>m. m (row_key handler ev) = raw \<Longrightarrow> row_of R m handler ev = Inr ex"
proof -
  from assms obtain raw where g: "lk_Get R (row_key handler ev) w = (Inr raw, w')"
    and c: "ex = None \<and> raw = None \<or> (\<exists>t r. raw = Some t \<and> lk_DecRow R t = Inr r \<and> ex = Some r)"
    by (auto simp: rl_load_row_def script_inv split: option.split_asm)
  from c have "row_of R m handler ev = Inr ex" if "m (row_key handler ev) = raw" for m
    using that by (auto simp: row_of_def)
  with g that show ?thesis by blast
qed

lemma after_attempt_cmds: "fold after_cmd (rl_attempt_cmds inp t blob) m = m(row_key (rai_HandlerName inp) (rai_EventID inp) \<mapsto> blob)"
  by (simp add: rl_attempt_cmds_def Let_def)

lemma after_outcome_cmds: "fold after_cmd (rl_outcome_cmds inp r r' blob) m = m(row_key (oi_HandlerName inp) (oi_EventID inp) \<mapsto> blob)"
  by (simp add: rl_outcome_cmds_def Let_def)

lemma rl_outcome_tx_inv:
  assumes "rl_outcome_tx R inp w = (Inr r, w')"
  obtains (absent) w1 where "rl_load_row R (oi_HandlerName inp) (oi_EventID inp) w = (Inr None, w1)" "r = Some ()" "w' = w1"
  | (closed) row w1 t w2 blob where "rl_load_row R (oi_HandlerName inp) (oi_EventID inp) w = (Inr (Some row), w1)" "lk_Now R w1 = (t, w2)"
      "lk_EncRow R (outcome_row t inp row) = Inr blob" "commit R (rl_outcome_cmds inp row (outcome_row t inp row) blob) () w2 = (Inr r, w')"
proof -
  from assms obtain ex w1 where l: "rl_load_row R (oi_HandlerName inp) (oi_EventID inp) w = (Inr ex, w1)"
    and c: "(case ex of None \<Rightarrow> sret (Some ())
      | Some row \<Rightarrow> sbind (tell R) (\<lambda>now. sbind (pure (lk_EncRow R (outcome_row now inp row))) (\<lambda>blob.
          commit R (rl_outcome_cmds inp row (outcome_row now inp row) blob) ()))) w1 = (Inr r, w')"
    unfolding rl_outcome_tx_def script_inv by blast
  show ?thesis
  proof (cases ex)
    case None
    with l c show ?thesis by (intro absent) (simp_all add: sret_Inr)
  next
    case (Some row)
    with l c show ?thesis by (auto simp: script_inv intro: closed)
  qed
qed

context shared_redis
begin

lemma commit_inv:
  assumes "commit R cmds a w = (Inr (Some b), w')" and "guard w k \<noteq> Unwatched"
  obtains m where "b = a" "guard w k = Intact" "G (val w) m" "m k = val w k" "G (fold after_cmd cmds m) (val w')" "clock w \<le> clock w'"
  using assms exec_law [of cmds w w' k] by (auto simp: commit_Inr)

lemma commit_abort: "commit R cmds a w = (Inr None, w') \<Longrightarrow> G (val w) (val w') \<and> clock w \<le> clock w'"
  using abort_law by (auto simp: commit_Inr)

lemma refuses_inv:
  assumes "rl_refuses R r w = (Inr b, w')" and "guard w k \<noteq> Unwatched"
  obtains t where "clock w \<le> t" "t \<le> clock w'" "b = blocks t r" "G (val w) (val w')" "guard w' k \<noteq> Unwatched"
    "guard w' k = Intact \<longrightarrow> guard w k = Intact \<and> val w' k = val w k"
proof (cases "\<not> is_terminal (lr_Status r) \<and> lr_Status r = StatusInProgress \<and> lr_LeaseExpiresAt r \<noteq> None")
  case True
  then obtain e t where "lr_LeaseExpiresAt r = Some e" "lk_Now R w = (t, w')" "b = (e > t)"
    using assms(1) by (auto simp: rl_refuses_def script_inv)
  with True now_law [of w t w'] now_guard [of w t w' k] assms(2) show ?thesis
    by (intro that [of t]) (auto simp: blocks_def)
next
  case False
  then have "w' = w" "b = blocks (clock w) r"
    using assms(1) by (auto simp: rl_refuses_def blocks_def script_inv split: if_split_asm option.split_asm)
  with assms(2) others_refl show ?thesis by (intro that [of "clock w"]) auto
qed

lemma open_inv:
  assumes "rl_attempt_open R inp ex w = (Inr (Some res), w')" and "guard w (row_key (rai_HandlerName inp) (rai_EventID inp)) \<noteq> Unwatched"
  obtains t blob m where "clock w \<le> t" "t \<le> clock w'" "lk_EncRow R (attempt_row t ex inp) = Inr blob"
    "res = \<lparr>atr_Proceed = True, atr_CachedRow = None\<rparr>" "guard w (row_key (rai_HandlerName inp) (rai_EventID inp)) = Intact"
    "G (val w) m" "m (row_key (rai_HandlerName inp) (rai_EventID inp)) = val w (row_key (rai_HandlerName inp) (rai_EventID inp))"
    "G (m(row_key (rai_HandlerName inp) (rai_EventID inp) \<mapsto> blob)) (val w')"
proof -
  let ?k = "row_key (rai_HandlerName inp) (rai_EventID inp)"
  from assms(1) obtain t w1 blob where n: "lk_Now R w = (t, w1)" and b: "lk_EncRow R (attempt_row t ex inp) = Inr blob"
    and c: "commit R (rl_attempt_cmds inp t blob) \<lparr>atr_Proceed = True, atr_CachedRow = None\<rparr> w1 = (Inr (Some res), w')"
    by (auto simp: rl_attempt_open_def script_inv)
  note n1 = now_law [OF n] now_guard [OF n assms(2)]
  from n1(2) have g1: "guard w1 ?k \<noteq> Unwatched" by blast
  obtain m where m: "res = \<lparr>atr_Proceed = True, atr_CachedRow = None\<rparr>" "guard w1 ?k = Intact" "G (val w1) m" "m ?k = val w1 ?k"
    "G (fold after_cmd (rl_attempt_cmds inp t blob) m) (val w')" "clock w1 \<le> clock w'"
    using commit_inv [OF c g1] by blast
  show ?thesis
    using m n1 others_trans by (intro that [OF _ _ b m(1), of m]) (auto simp: after_attempt_cmds)
qed

lemma open_abort:
  assumes "rl_attempt_open R inp ex w = (Inr None, w')"
  shows "G (val w) (val w') \<and> clock w \<le> clock w'"
proof -
  from assms obtain t w1 blob where n: "lk_Now R w = (t, w1)"
    and c: "commit R (rl_attempt_cmds inp t blob) \<lparr>atr_Proceed = True, atr_CachedRow = None\<rparr> w1 = (Inr None, w')"
    by (auto simp: rl_attempt_open_def script_inv)
  from now_law [OF n] commit_abort [OF c] others_trans show ?thesis by (meson order_trans)
qed

end

context shared_redis
begin

lemma attempt_widens: "widens (atomic_attempt R inp)"
  unfolding widens_def atomic_attempt_def by (meson order_trans)

lemma outcome_widens: "widens (atomic_outcome R inp)"
  unfolding widens_def atomic_outcome_def by (meson order_trans)

lemma attempt_tx_effect:
  assumes g: "guard w (row_key (rai_HandlerName inp) (rai_EventID inp)) \<noteq> Unwatched"
    and tx: "rl_attempt_tx R inp w = (Inr (Some res), w')"
  shows "took_effect (atomic_attempt R inp) res w w'"
proof -
  let ?k = "row_key (rai_HandlerName inp) (rai_EventID inp)"
  from tx obtain ex w1 where l: "rl_load_row R (rai_HandlerName inp) (rai_EventID inp) w = (Inr ex, w1)"
    and c: "(case ex of None \<Rightarrow> rl_attempt_open R inp None | Some r \<Rightarrow> sbind (rl_refuses R r) (\<lambda>no.
         if no then sret (Some \<lparr>atr_Proceed = False, atr_CachedRow = Some r\<rparr>) else rl_attempt_open R inp (Some r))) w1 = (Inr (Some res), w')"
    by (auto simp: rl_attempt_tx_def script_inv)
  obtain raw where raw: "lk_Get R ?k w = (Inr raw, w1)" "\<And>m. m ?k = raw \<Longrightarrow> row_of R m (rai_HandlerName inp) (rai_EventID inp) = Inr ex"
    using rl_load_row_inv [OF l] by blast
  note get = get_law [OF raw(1)] get_guard [OF raw(1) g]
  have opened: "took_effect (atomic_attempt R inp) res w w'"
    if o: "rl_attempt_open R inp ex w2 = (Inr (Some res), w')" and t: "clock w1 \<le> t" "t \<le> clock w2" "\<not> blocked t ex" and G2: "G (val w1) (val w2)"
      and g2: "guard w2 ?k \<noteq> Unwatched" "guard w2 ?k = Intact \<longrightarrow> guard w1 ?k = Intact \<and> val w2 ?k = val w1 ?k" for w2 t
  proof -
    obtain t' blob m where m: "clock w2 \<le> t'" "t' \<le> clock w'" "lk_EncRow R (attempt_row t' ex inp) = Inr blob"
      "res = \<lparr>atr_Proceed = True, atr_CachedRow = None\<rparr>" "guard w2 ?k = Intact" "G (val w2) m" "m ?k = val w2 ?k" "G (m(?k \<mapsto> blob)) (val w')"
      using open_inv [OF o g2(1)] by metis
    have "m ?k = raw" using m g2 get by auto
    then have "row_of R m (rai_HandlerName inp) (rai_EventID inp) = Inr ex" by (rule raw(2))
    moreover have "clock w \<le> t" "t \<le> t'" using get t m by auto
    ultimately have "atomic_attempt R inp res (clock w) (clock w') m (m(?k \<mapsto> blob))"
      unfolding atomic_attempt_def using t(3) m(2-4) by auto
    moreover have "G (val w) m" using get(1) G2 m(6) others_trans by meson
    ultimately show ?thesis using m(8) \<open>clock w \<le> t\<close> \<open>t \<le> t'\<close> m(2) unfolding took_effect_def by (meson order_trans)
  qed
  have refused: "took_effect (atomic_attempt R inp) res w w'"
    if t: "clock w1 \<le> t" "t \<le> clock w'" "blocked t ex" and r: "res = \<lparr>atr_Proceed = False, atr_CachedRow = ex\<rparr>" and G2: "G (val w1) (val w')" for t
  proof -
    from get(1) obtain m where m: "G (val w) m" "m ?k = raw" "G m (val w1)" by blast
    have "atomic_attempt R inp res (clock w) (clock w') m m"
      unfolding atomic_attempt_def using raw(2) [of m, OF m(2)] t r get(1) by (intro exI [of _ ex] exI [of _ t]) auto
    moreover have "G m (val w')" using m(3) G2 others_trans by blast
    ultimately show ?thesis using m(1) t get(1) unfolding took_effect_def by auto
  qed
  show ?thesis
  proof (cases ex)
    case None
    with c opened [of w1 "clock w1"] get others_refl show ?thesis by (simp add: blocked_def)
  next
    case (Some r)
    with c obtain no w2 where rf: "rl_refuses R r w1 = (Inr no, w2)"
      and c2: "(if no then sret (Some \<lparr>atr_Proceed = False, atr_CachedRow = Some r\<rparr>) else rl_attempt_open R inp (Some r)) w2 = (Inr (Some res), w')"
      by (auto simp: script_inv)
    have "guard w1 ?k \<noteq> Unwatched" using get by blast
    from refuses_inv [OF rf this] obtain t where t: "clock w1 \<le> t" "t \<le> clock w2" "no = blocks t r" "G (val w1) (val w2)" "guard w2 ?k \<noteq> Unwatched"
      "guard w2 ?k = Intact \<longrightarrow> guard w1 ?k = Intact \<and> val w2 ?k = val w1 ?k" by metis
    show ?thesis
    proof (cases no)
      case True
      with c2 have "w' = w2" "res = \<lparr>atr_Proceed = False, atr_CachedRow = Some r\<rparr>" by (auto simp: sret_def)
      with refused [of t] t True Some show ?thesis by (simp add: blocked_def)
    next
      case False
      with opened [of w2 t] c2 t Some show ?thesis by (simp add: blocked_def)
    qed
  qed
qed

lemma attempt_tx_abort:
  assumes "rl_attempt_tx R inp w = (Inr None, w')" and "guard w (row_key (rai_HandlerName inp) (rai_EventID inp)) \<noteq> Unwatched"
  shows "G (val w) (val w') \<and> clock w \<le> clock w'"
proof -
  let ?k = "row_key (rai_HandlerName inp) (rai_EventID inp)"
  from assms(1) obtain ex w1 where l: "rl_load_row R (rai_HandlerName inp) (rai_EventID inp) w = (Inr ex, w1)"
    and c: "(case ex of None \<Rightarrow> rl_attempt_open R inp None | Some r \<Rightarrow> sbind (rl_refuses R r) (\<lambda>no.
         if no then sret (Some \<lparr>atr_Proceed = False, atr_CachedRow = Some r\<rparr>) else rl_attempt_open R inp (Some r))) w1 = (Inr None, w')"
    by (auto simp: rl_attempt_tx_def script_inv)
  obtain raw where raw: "lk_Get R ?k w = (Inr raw, w1)" using rl_load_row_inv [OF l] by blast
  note get = get_law [OF raw] get_guard [OF raw assms(2)]
  have "G (val w1) (val w') \<and> clock w1 \<le> clock w'"
  proof (cases ex)
    case None
    with c open_abort show ?thesis by simp
  next
    case (Some r)
    with c obtain w2 where rf: "rl_refuses R r w1 = (Inr False, w2)" and o: "rl_attempt_open R inp (Some r) w2 = (Inr None, w')"
      by (auto simp: script_inv split: if_split_asm)
    have "guard w1 ?k \<noteq> Unwatched" using get by blast
    from refuses_inv [OF rf this] have "G (val w1) (val w2) \<and> clock w1 \<le> clock w2" by (meson order_trans)
    with open_abort [OF o] others_trans show ?thesis by (meson order_trans)
  qed
  with get(1) others_trans show ?thesis by (meson order_trans)
qed

lemma attempt_is_atomic:
  assumes "rl_record_attempt R inp w = (Inr res, w')"
  shows "took_effect (atomic_attempt R inp) res w w'"
  using assms unfolding rl_record_attempt_def
  by (rule retry_takes_effect [OF attempt_widens attempt_tx_effect attempt_tx_abort, rotated -1])

end

context shared_redis
begin

lemma outcome_tx_effect:
  assumes g: "guard w (row_key (oi_HandlerName inp) (oi_EventID inp)) \<noteq> Unwatched"
    and tx: "rl_outcome_tx R inp w = (Inr (Some u), w')"
  shows "took_effect (atomic_outcome R inp) u w w'"
proof -
  let ?k = "row_key (oi_HandlerName inp) (oi_EventID inp)"
  have read: "\<exists>raw. lk_Get R ?k w = (Inr raw, w1) \<and> (\<forall>m. m ?k = raw \<longrightarrow> row_of R m (oi_HandlerName inp) (oi_EventID inp) = Inr ex)"
    if "rl_load_row R (oi_HandlerName inp) (oi_EventID inp) w = (Inr ex, w1)" for ex w1
    by (rule rl_load_row_inv [OF that]) blast
  from tx show ?thesis
  proof (cases rule: rl_outcome_tx_inv)
    case (absent w1)
    then obtain raw where raw: "lk_Get R ?k w = (Inr raw, w1)" "\<forall>m. m ?k = raw \<longrightarrow> row_of R m (oi_HandlerName inp) (oi_EventID inp) = Inr None"
      using read by blast
    from get_law [OF raw(1)] obtain m where m: "G (val w) m" "m ?k = raw" "G m (val w1)" and le: "clock w \<le> clock w1" by blast
    have "atomic_outcome R inp u (clock w) (clock w1) m m"
      unfolding atomic_outcome_def using raw(2) m(2) le by (intro exI [of _ None] exI [of _ "clock w"]) auto
    with m absent le show ?thesis unfolding took_effect_def by blast
  next
    case (closed row w1 t w2 blob)
    then obtain raw where raw: "lk_Get R ?k w = (Inr raw, w1)" "\<forall>m. m ?k = raw \<longrightarrow> row_of R m (oi_HandlerName inp) (oi_EventID inp) = Inr (Some row)"
      using read by blast
    note get = get_law [OF raw(1)] get_guard [OF raw(1) g]
    from get(2) have "guard w1 ?k \<noteq> Unwatched" by blast
    note now = now_law [OF closed(2)] now_guard [OF closed(2) this]
    have g2: "guard w2 ?k \<noteq> Unwatched" using now by blast
    obtain m where m: "guard w2 ?k = Intact" "G (val w2) m" "m ?k = val w2 ?k" "G (m(?k \<mapsto> blob)) (val w')" "clock w2 \<le> clock w'"
      using commit_inv [OF closed(4) g2] unfolding after_outcome_cmds by blast
    have "m ?k = raw" using m now get by auto
    then have "atomic_outcome R inp u (clock w) (clock w') m (m(?k \<mapsto> blob))"
      unfolding atomic_outcome_def using raw(2) closed(3) now m get(1) by (intro exI [of _ "Some row"] exI [of _ t]) auto
    moreover have "G (val w) m" using get(1) now m others_trans by meson
    ultimately show ?thesis using m get(1) now unfolding took_effect_def by (meson order_trans)
  qed
qed

lemma outcome_tx_abort:
  assumes "rl_outcome_tx R inp w = (Inr None, w')"
  shows "G (val w) (val w') \<and> clock w \<le> clock w'"
  using assms
proof (cases rule: rl_outcome_tx_inv)
  case (closed row w1 t w2 blob)
  obtain raw where "lk_Get R (row_key (oi_HandlerName inp) (oi_EventID inp)) w = (Inr raw, w1)" using rl_load_row_inv [OF closed(1)] by blast
  from get_law [OF this] now_law [OF closed(2)] commit_abort [OF closed(4)] others_trans show ?thesis by (meson order_trans)
qed simp

lemma outcome_is_atomic:
  assumes "rl_record_outcome R inp w = (Inr u, w')"
  shows "took_effect (atomic_outcome R inp) u w w'"
  using assms unfolding rl_record_outcome_def
  by (rule retry_takes_effect [OF outcome_widens outcome_tx_effect outcome_tx_abort, rotated -1])

end

section \<open>A contended server\<close>

text \<open>
  A server on which the other clients act before every command, by a plan that picks among their
  actions; it notes whether the watched key was changed.
\<close>

record server =
  sr_val :: "string \<rightharpoonup> string"
  sr_clock :: instant
  sr_watch :: "(string \<times> bool) option"
  sr_plan :: "nat list"

definition disturb :: "(nat \<Rightarrow> (string \<rightharpoonup> string) \<Rightarrow> (string \<rightharpoonup> string)) \<Rightarrow> server \<Rightarrow> server" where
  "disturb acts s =
     (case sr_plan s of
        [] \<Rightarrow> s\<lparr>sr_clock := sr_clock s + 1\<rparr>
      | i # is \<Rightarrow> s\<lparr>sr_val := acts i (sr_val s), sr_clock := sr_clock s + 1, sr_plan := is,
           sr_watch := map_option (\<lambda>(k, t). (k, t \<or> acts i (sr_val s) k \<noteq> sr_val s k)) (sr_watch s)\<rparr>)"

definition contended ::
  "(nat \<Rightarrow> (string \<rightharpoonup> string) \<Rightarrow> (string \<rightharpoonup> string)) \<Rightarrow> (ledger_row \<Rightarrow> goerr + string) \<Rightarrow> (string \<Rightarrow> goerr + ledger_row) \<Rightarrow> server ledger_redis" where
  "contended acts enc unenc =
     \<lparr>lk_CanWatch = True,
      lk_Watch = (\<lambda>k s. (Inr (), (disturb acts s)\<lparr>sr_watch := Some (k, False)\<rparr>)),
      lk_Close = (\<lambda>s. s\<lparr>sr_watch := None\<rparr>),
      lk_Exec = (\<lambda>cmds s. let s = disturb acts s in
         if (case sr_watch s of None \<Rightarrow> False | Some (k, t) \<Rightarrow> t) then (Inr Aborted, s\<lparr>sr_watch := None\<rparr>)
         else (Inr Committed, s\<lparr>sr_val := fold after_cmd cmds (sr_val s), sr_watch := None\<rparr>)),
      lk_Get = (\<lambda>k s. let s = disturb acts s in (Inr (sr_val s k), s)),
      lk_Exists = (\<lambda>k s. let s = disturb acts s in (Inr (if sr_val s k = None then 0 else 1), s)),
      lk_Set = (\<lambda>k v ttl s. let s = disturb acts s in (Inr (), s\<lparr>sr_val := (sr_val s)(k \<mapsto> v)\<rparr>)),
      lk_ZRange = (\<lambda>k s. (Inr [], s)), lk_ZRevRange = (\<lambda>k s. (Inr [], s)), lk_ZRem = (\<lambda>k m s. (Inr (), s)),
      lk_Del = (\<lambda>k s. let s = disturb acts s in (Inr (), s\<lparr>sr_val := (sr_val s)(k := None)\<rparr>)),
      lk_Now = (\<lambda>s. let s = disturb acts s in (sr_clock s, s)),
      lk_EncRow = enc, lk_DecRow = unenc, lk_EncMark = (\<lambda>_. Inr []), lk_sha = id\<rparr>"

definition sr_guard :: "server \<Rightarrow> string \<Rightarrow> guard_state" where
  "sr_guard s k = (case sr_watch s of
     Some (k', t) \<Rightarrow> if k' = k then (if t then Touched else Intact) else Unwatched | None \<Rightarrow> Unwatched)"

definition others_may :: "(nat \<Rightarrow> (string \<rightharpoonup> string) \<Rightarrow> (string \<rightharpoonup> string)) \<Rightarrow> (string \<rightharpoonup> string) \<Rightarrow> (string \<rightharpoonup> string) \<Rightarrow> bool" where
  "others_may acts = (\<lambda>m m'. \<exists>i. m' = acts i m)\<^sup>*\<^sup>*"

lemma disturb_steps: "others_may acts (sr_val s) (sr_val (disturb acts s)) \<and> sr_clock (disturb acts s) = sr_clock s + 1"
proof (cases "sr_plan s")
  case (Cons i js)
  have "others_may acts (sr_val s) (acts i (sr_val s))" unfolding others_may_def by (rule r_into_rtranclp) blast
  with Cons show ?thesis by (simp add: disturb_def)
qed (simp add: disturb_def others_may_def)

lemma disturb_guard:
  assumes "sr_guard s k \<noteq> Unwatched"
  shows "sr_guard (disturb acts s) k \<noteq> Unwatched
    \<and> (sr_guard (disturb acts s) k = Intact \<longrightarrow> sr_guard s k = Intact \<and> sr_val (disturb acts s) k = sr_val s k)"
  using assms by (auto simp: sr_guard_def disturb_def split: list.split option.split_asm if_split_asm)

lemma others_may_refl [simp]: "others_may acts m m"
  by (simp add: others_may_def)

lemma others_may_trans: "others_may acts m m' \<Longrightarrow> others_may acts m' m'' \<Longrightarrow> others_may acts m m''"
  unfolding others_may_def by (rule rtranclp_trans)

lemma contended_shared: "shared_redis (contended acts enc unenc) sr_val sr_clock sr_guard (others_may acts)"
proof
  fix cmds s s' k
  assume e: "lk_Exec (contended acts enc unenc) cmds s = (Inr Committed, s')" and g: "sr_guard s k \<noteq> Unwatched"
  let ?d = "disturb acts s"
  from e have nt: "\<not> (case sr_watch ?d of None \<Rightarrow> False | Some (k, t) \<Rightarrow> t)" and s': "s' = ?d\<lparr>sr_val := fold after_cmd cmds (sr_val ?d), sr_watch := None\<rparr>"
    by (auto simp: contended_def Let_def split: if_split_asm)
  from disturb_guard [OF g, of acts] nt have "sr_guard ?d k = Intact" by (auto simp: sr_guard_def split: option.splits if_splits)
  with disturb_guard [OF g, of acts] disturb_steps [of acts s] s'
  show "sr_guard s k = Intact \<and> (\<exists>m. others_may acts (sr_val s) m \<and> m k = sr_val s k \<and> others_may acts (fold after_cmd cmds m) (sr_val s'))
      \<and> sr_clock s \<le> sr_clock s'" by (auto intro: exI [of _ "sr_val ?d"])
next
  fix k s v s'
  assume e: "lk_Get (contended acts enc unenc) k s = (Inr v, s')"
  then have v: "s' = disturb acts s" "v = sr_val s' k" by (auto simp: contended_def Let_def)
  then show "(\<exists>m. others_may acts (sr_val s) m \<and> m k = v \<and> others_may acts m (sr_val s')) \<and> sr_clock s \<le> sr_clock s'"
    using disturb_steps [of acts s] by (auto intro: exI [of _ "sr_val s'"])
  show "sr_guard s k \<noteq> Unwatched \<Longrightarrow> sr_guard s' k \<noteq> Unwatched \<and> (sr_guard s' k = Intact \<longrightarrow> sr_guard s k = Intact \<and> v = sr_val s' k)"
    using disturb_guard [of s k acts] v by auto
qed (use disturb_steps disturb_guard others_may_trans in \<open>auto simp: contended_def Let_def sr_guard_def split: if_split_asm\<close>)

interpretation ctd: shared_redis "contended acts enc unenc" sr_val sr_clock sr_guard "others_may acts"
  by (rule contended_shared)

text \<open>
  C27. The Redis ledger is atomic under contention. Whatever other replicas do to the keys at any of its
  commands, a \<open>RecordAttempt\<close> or \<open>RecordOutcome\<close> that returns without an error took effect in a single
  step between its call and its return: an attempt was judged by the row that stood there at that
  step, so two replicas that race for one event are never both let through, and an outcome closed
  the row that stood there and wrote nothing where there was none.
\<close>

theorem redis_ledger_is_atomic:
  assumes "shared_redis R val clock guard G"
  shows "(rl_record_attempt R inp w = (Inr res, w') \<longrightarrow>
      (\<exists>m m'. G (val w) m \<and> atomic_attempt R inp res (clock w) (clock w') m m' \<and> G m' (val w')))
    \<and> (rl_record_outcome R out w = (Inr u, w') \<longrightarrow>
      (\<exists>m m'. G (val w) m \<and> atomic_outcome R out u (clock w) (clock w') m m' \<and> G m' (val w')))"
  using shared_redis.attempt_is_atomic [OF assms, of inp w res w'] shared_redis.outcome_is_atomic [OF assms, of out w u w']
  by (auto simp: shared_redis.took_effect_def [OF assms])

text \<open>Another replica that writes a row for the event in the middle of the first transaction.\<close>

definition rival_row :: ledger_row where
  "rival_row = attempt_row 0 None plain_attempt"

definition rival :: "nat \<Rightarrow> (string \<rightharpoonup> string) \<Rightarrow> (string \<rightharpoonup> string)" where
  "rival i m = (if i = 1 then m(row_key ''h'' ''e'' \<mapsto> ''rival'') else m)"

definition raced :: "server ledger_redis" where
  "raced = contended rival (\<lambda>_. Inr ''mine'') (\<lambda>_. Inr rival_row)"

definition raced_server :: server where
  "raced_server = \<lparr>sr_val = Map.empty, sr_clock = 0, sr_watch = None, sr_plan = [0, 0, 1]\<rparr>"

lemma raced_refused: "fst (rl_record_attempt raced plain_attempt raced_server) = Inr \<lparr>atr_Proceed = False, atr_CachedRow = Some rival_row\<rparr>"
  by code_simp

theorem redis_ledger_is_atomic_witness:
  "\<exists>w' m. rl_record_attempt raced plain_attempt raced_server = (Inr \<lparr>atr_Proceed = False, atr_CachedRow = Some rival_row\<rparr>, w')
     \<and> others_may rival Map.empty m \<and> m (row_key ''h'' ''e'') \<noteq> None"
proof -
  obtain w' where w': "rl_record_attempt raced plain_attempt raced_server = (Inr \<lparr>atr_Proceed = False, atr_CachedRow = Some rival_row\<rparr>, w')"
    using raced_refused by (metis prod.collapse)
  from redis_ledger_is_atomic [OF contended_shared [of rival "\<lambda>_. Inr ''mine''" "\<lambda>_. Inr rival_row"], of plain_attempt raced_server] w'
  obtain m m' where "others_may rival (sr_val raced_server) m"
    "atomic_attempt raced plain_attempt \<lparr>atr_Proceed = False, atr_CachedRow = Some rival_row\<rparr> (sr_clock raced_server) (sr_clock w') m m'"
    unfolding raced_def by blast
  with w' show ?thesis
    by (intro exI [of _ w'] exI [of _ m])
       (auto simp: atomic_attempt_def row_of_def raced_server_def plain_attempt_def split: if_split_asm option.split_asm)
qed

end
