(* ===== verification/Dynamo.thy ===== *)
theory Dynamo
  imports Prelude
begin

text \<open>
  What the DynamoDB stores of the packages \<open>handlerledger\<close>, \<open>activations\<close> and \<open>outbox\<close> use of the AWS client: one
  method of the record per call, on a threaded world in which other replicas may act at any call;
  a \<open>nil\<close> pointer is \<open>None\<close>. The loop in which their \<open>EnsureTable\<close> waits for a table is here once, with
  its readiness test and its pause as arguments.
\<close>

section \<open>The client\<close>

datatype attr = AttrS string | AttrN string | AttrOther string

type_synonym item = "string \<rightharpoonup> attr"

datatype cond = Unconditional | NotExists | AttrEq string attr

datatype ddb_err = ConditionalCheckFailed | ResourceNotFound | DdbErr goerr | DdbWrap string ddb_err

type_synonym ('w, 'a) ddb = "'w \<Rightarrow> (ddb_err + 'a) \<times> 'w"

record table_desc =
  td_Active :: bool
  td_Indexes :: "(string option \<times> bool) list"

record table_schema =
  ts_Hash :: string
  ts_Range :: string
  ts_Attributes :: "(string \<times> char) list"
  ts_Indexes :: "(string \<times> string \<times> string) list"

record query =
  qr_Index :: string
  qr_Attr :: string
  qr_Value :: string
  qr_Limit :: "int option"
  qr_Forward :: bool

datatype ttl_status = TtlEnabled | TtlEnabling | TtlOther

record 'w dynamo =
  dd_GetItem :: "string \<Rightarrow> string \<times> string \<Rightarrow> ('w, item option) ddb"
  dd_PutItem :: "string \<Rightarrow> item \<Rightarrow> cond \<Rightarrow> ('w, unit) ddb"
  dd_DeleteItem :: "string \<Rightarrow> string \<times> string \<Rightarrow> ('w, unit) ddb"
  dd_Query :: "string \<Rightarrow> query \<Rightarrow> ('w, item list) ddb"
  dd_DescribeTable :: "string \<Rightarrow> ('w, table_desc option) ddb"
  dd_CreateTable :: "string \<Rightarrow> table_schema \<Rightarrow> ('w, unit) ddb"
  dd_DescribeTTL :: "string \<Rightarrow> ('w, ttl_status option) ddb"
  dd_UpdateTTL :: "string \<Rightarrow> string \<Rightarrow> ('w, unit) ddb"
  dd_Now :: "'w \<Rightarrow> instant \<times> 'w"
  dd_Sleep :: "duration \<Rightarrow> 'w \<Rightarrow> 'w"

section \<open>Sequencing\<close>

definition dret :: "'a \<Rightarrow> ('w, 'a) ddb" where
  "dret a w = (Inr a, w)"

definition dfail :: "ddb_err \<Rightarrow> ('w, 'a) ddb" where
  "dfail e w = (Inl e, w)"

definition dbind :: "('w, 'a) ddb \<Rightarrow> ('a \<Rightarrow> ('w, 'b) ddb) \<Rightarrow> ('w, 'b) ddb" where
  "dbind m f w = (case m w of (Inl e, w) \<Rightarrow> (Inl e, w) | (Inr a, w) \<Rightarrow> f a w)"

definition dnow :: "'w dynamo \<Rightarrow> ('w, instant) ddb" where
  "dnow C w = (case dd_Now C w of (t, w) \<Rightarrow> (Inr t, w))"

definition dlift :: "goerr + 'a \<Rightarrow> ('w, 'a) ddb" where
  "dlift r w = (map_sum DdbErr id r, w)"

text \<open>A call whose error the code inspects.\<close>

definition dtry :: "('w, 'a) ddb \<Rightarrow> (ddb_err \<Rightarrow> ('w, 'b) ddb) \<Rightarrow> ('a \<Rightarrow> ('w, 'b) ddb) \<Rightarrow> ('w, 'b) ddb" where
  "dtry m h f w = (case m w of (Inl e, w) \<Rightarrow> h e w | (Inr a, w) \<Rightarrow> f a w)"

lemma dbind_Inr: "dbind m f w = (Inr b, w') \<longleftrightarrow> (\<exists>a w1. m w = (Inr a, w1) \<and> f a w1 = (Inr b, w'))"
  by (auto simp: dbind_def split: sum.split prod.split)

lemma dret_Inr: "dret a w = (Inr b, w') \<longleftrightarrow> b = a \<and> w' = w"
  by (auto simp: dret_def)

lemma dnow_Inr: "dnow C w = (Inr t, w') \<longleftrightarrow> dd_Now C w = (t, w')"
  by (auto simp: dnow_def split: prod.split)

lemma dlift_Inr: "dlift r w = (Inr b, w') \<longleftrightarrow> r = Inr b \<and> w' = w"
  by (cases r) (auto simp: dlift_def)

lemma dtry_Inr:
  "dtry m h f w = (Inr b, w') \<longleftrightarrow>
     (\<exists>e w1. m w = (Inl e, w1) \<and> h e w1 = (Inr b, w')) \<or> (\<exists>a w1. m w = (Inr a, w1) \<and> f a w1 = (Inr b, w'))"
  by (auto simp: dtry_def split: sum.split prod.split)

lemmas ddb_inv = dbind_Inr dret_Inr dnow_Inr dlift_Inr dtry_Inr

text \<open>Whether a condition holds of the item that is there.\<close>

definition cond_holds :: "cond \<Rightarrow> item option \<Rightarrow> bool" where
  "cond_holds c it = (case c of
     Unconditional \<Rightarrow> True
   | NotExists \<Rightarrow> (case it of None \<Rightarrow> True | Some i \<Rightarrow> False)
   | AttrEq a v \<Rightarrow> (case it of None \<Rightarrow> False | Some i \<Rightarrow> i a = Some v))"

lemma cond_holds_iff [simp]:
  "cond_holds Unconditional it" "cond_holds NotExists it \<longleftrightarrow> it = None" "cond_holds (AttrEq a v) it \<longleftrightarrow> (\<exists>i. it = Some i \<and> i a = Some v)"
  by (auto simp: cond_holds_def split: option.split)

text \<open>The key of an item in a table with the keys \<open>PK\<close> and \<open>SK\<close>.\<close>

definition item_key :: "item \<Rightarrow> (string \<times> string) option" where
  "item_key it = (case (it ''PK'', it ''SK'') of (Some (AttrS pk), Some (AttrS sk)) \<Rightarrow> Some (pk, sk) | _ \<Rightarrow> None)"

section \<open>Waiting for a table\<close>

text \<open>\<open>True\<close> when the table became ready, \<open>False\<close> when the deadline passed; no value when it never returns.\<close>

partial_function (option) await_table ::
  "'w dynamo \<Rightarrow> (table_desc option \<Rightarrow> bool) \<Rightarrow> string \<Rightarrow> duration \<Rightarrow> instant \<Rightarrow> 'w \<Rightarrow> (bool \<times> 'w) option" where
  "await_table C ready tbl pause deadline w =
     (case dd_DescribeTable C tbl w of
        (r, w) \<Rightarrow>
          if (case r of Inl e \<Rightarrow> False | Inr d \<Rightarrow> ready d) then Some (True, w)
          else (case dd_Now C w of
            (t, w) \<Rightarrow> if t > deadline then Some (False, w) else await_table C ready tbl pause deadline (dd_Sleep C pause w)))"

definition wait_for :: "'w dynamo \<Rightarrow> (table_desc option \<Rightarrow> bool) \<Rightarrow> string \<Rightarrow> duration \<Rightarrow> duration \<Rightarrow> 'w \<Rightarrow> (bool \<times> 'w) option" where
  "wait_for C ready tbl pause timeout w = (case dd_Now C w of (t, w) \<Rightarrow> await_table C ready tbl pause (t + timeout) w)"

text \<open>
  Time passes: the clock a reading shows lies between what it was before and after, the other calls
  do not turn it back, and a sleep lasts at least as long as asked.
\<close>

locale dynamo_clock =
  fixes C :: "'w dynamo" and clock :: "'w \<Rightarrow> instant"
  assumes describe_clock: "dd_DescribeTable C tbl w = (r, w') \<Longrightarrow> clock w \<le> clock w'"
    and now_clock: "dd_Now C w = (t, w') \<Longrightarrow> clock w \<le> t \<and> t \<le> clock w'"
    and sleep_clock: "clock w + d \<le> clock (dd_Sleep C d w)"
begin

lemma await_returns:
  assumes "0 < pause"
  shows "\<exists>r w'. await_table C ready tbl pause deadline w = Some (r, w') \<and> clock w \<le> clock w'
    \<and> (if r then \<exists>w0 d. dd_DescribeTable C tbl w0 = (Inr d, w') \<and> ready d else deadline < clock w')"
proof (induction "nat (deadline - clock w + 1)" arbitrary: w rule: less_induct)
  case less
  obtain r w1 where d: "dd_DescribeTable C tbl w = (r, w1)" by fastforce
  obtain t w2 where n: "dd_Now C w1 = (t, w2)" by fastforce
  note le = describe_clock [OF d] now_clock [OF n] sleep_clock [of w2 pause]
  show ?case
  proof (cases "(case r of Inl e \<Rightarrow> False | Inr d \<Rightarrow> ready d) \<or> t > deadline")
    case True
    then show ?thesis using le d by (subst await_table.simps) (auto simp: n split: sum.split_asm)
  next
    case False
    then have "nat (deadline - clock (dd_Sleep C pause w2) + 1) < nat (deadline - clock w + 1)" using le assms by linarith
    from less [OF this] obtain r' w' where "await_table C ready tbl pause deadline (dd_Sleep C pause w2) = Some (r', w')"
      "clock (dd_Sleep C pause w2) \<le> clock w'" "if r' then \<exists>w0 d. dd_DescribeTable C tbl w0 = (Inr d, w') \<and> ready d else deadline < clock w'" by blast
    with False le assms show ?thesis by (subst await_table.simps) (auto simp: d n)
  qed
qed

lemma wait_returns:
  assumes "0 < pause"
  obtains r w' where "wait_for C ready tbl pause timeout w = Some (r, w')"
    "r \<Longrightarrow> \<exists>w0 d. dd_DescribeTable C tbl w0 = (Inr d, w') \<and> ready d" "\<not> r \<Longrightarrow> clock w + timeout < clock w'"
proof -
  obtain t w1 where n: "dd_Now C w = (t, w1)" by fastforce
  from await_returns [OF assms, of ready tbl "t + timeout" w1] now_clock [OF n] n that show ?thesis
    by (fastforce simp: wait_for_def split: if_split_asm)
qed

end

section \<open>A shared table\<close>

text \<open>
  A table that other replicas use at the same time: a consistent read shows one state on the way, and a
  conditional put takes effect in one step, at a moment when its condition holds. \<open>G\<close> is what the
  others may do in any number of steps.
\<close>

locale shared_table =
  fixes C :: "'w dynamo" and tbl :: string and items :: "'w \<Rightarrow> (string \<times> string) \<rightharpoonup> item" and clock :: "'w \<Rightarrow> instant"
    and G :: "((string \<times> string) \<rightharpoonup> item) \<Rightarrow> ((string \<times> string) \<rightharpoonup> item) \<Rightarrow> bool"
  assumes others_refl: "G m m"
    and others_trans: "G m m' \<Longrightarrow> G m' m'' \<Longrightarrow> G m m''"
    and get_law: "dd_GetItem C tbl k w = (Inr v, w') \<Longrightarrow>
      (\<exists>m. G (items w) m \<and> m k = v \<and> G m (items w')) \<and> clock w \<le> clock w'"
    and put_law: "dd_PutItem C tbl it c w = (Inr u, w') \<Longrightarrow> item_key it = Some k \<Longrightarrow>
      (\<exists>m. G (items w) m \<and> cond_holds c (m k) \<and> G (m(k \<mapsto> it)) (items w')) \<and> clock w \<le> clock w'"
    and put_lost: "dd_PutItem C tbl it c w = (Inl ConditionalCheckFailed, w') \<Longrightarrow> item_key it = Some k \<Longrightarrow>
      (\<exists>m. G (items w) m \<and> \<not> cond_holds c (m k) \<and> G m (items w')) \<and> clock w \<le> clock w'"
    and now_law: "dd_Now C w = (t, w') \<Longrightarrow> G (items w) (items w') \<and> clock w \<le> t \<and> t \<le> clock w'"

section \<open>A contended table\<close>

record dtable =
  dt_items :: "(string \<times> string) \<rightharpoonup> item"
  dt_clock :: instant
  dt_plan :: "nat list"

text \<open>Before every call one action of the other replicas takes place, picked by the plan.\<close>

definition dt_disturb :: "(nat \<Rightarrow> ((string \<times> string) \<rightharpoonup> item) \<Rightarrow> ((string \<times> string) \<rightharpoonup> item)) \<Rightarrow> dtable \<Rightarrow> dtable" where
  "dt_disturb acts s =
     (case dt_plan s of
        [] \<Rightarrow> s\<lparr>dt_clock := dt_clock s + 1\<rparr>
      | i # is \<Rightarrow> s\<lparr>dt_items := acts i (dt_items s), dt_clock := dt_clock s + 1, dt_plan := is\<rparr>)"

definition contended_table :: "(nat \<Rightarrow> ((string \<times> string) \<rightharpoonup> item) \<Rightarrow> ((string \<times> string) \<rightharpoonup> item)) \<Rightarrow> dtable dynamo" where
  "contended_table acts =
     \<lparr>dd_GetItem = (\<lambda>tbl k s. let s = dt_disturb acts s in (Inr (dt_items s k), s)),
      dd_PutItem = (\<lambda>tbl it c s. let s = dt_disturb acts s in
         case item_key it of
           None \<Rightarrow> (Inl (DdbErr (ErrBackend ''ValidationException'')), s)
         | Some k \<Rightarrow> if cond_holds c (dt_items s k) then (Inr (), s\<lparr>dt_items := (dt_items s)(k \<mapsto> it)\<rparr>) else (Inl ConditionalCheckFailed, s)),
      dd_DeleteItem = (\<lambda>tbl k s. let s = dt_disturb acts s in (Inr (), s\<lparr>dt_items := (dt_items s)(k := None)\<rparr>)),
      dd_Query = (\<lambda>tbl q s. (Inr [], dt_disturb acts s)),
      dd_DescribeTable = (\<lambda>tbl s. (Inr (Some \<lparr>td_Active = True, td_Indexes = []\<rparr>), dt_disturb acts s)),
      dd_CreateTable = (\<lambda>tbl sc s. (Inr (), dt_disturb acts s)),
      dd_DescribeTTL = (\<lambda>tbl s. (Inr (Some TtlOther), dt_disturb acts s)),
      dd_UpdateTTL = (\<lambda>tbl a s. (Inr (), dt_disturb acts s)),
      dd_Now = (\<lambda>s. let s = dt_disturb acts s in (dt_clock s, s)),
      dd_Sleep = (\<lambda>d s. s\<lparr>dt_clock := dt_clock s + max 0 d\<rparr>)\<rparr>"

definition others_do ::
  "(nat \<Rightarrow> ((string \<times> string) \<rightharpoonup> item) \<Rightarrow> ((string \<times> string) \<rightharpoonup> item)) \<Rightarrow> ((string \<times> string) \<rightharpoonup> item) \<Rightarrow> ((string \<times> string) \<rightharpoonup> item) \<Rightarrow> bool" where
  "others_do acts = (\<lambda>m m'. \<exists>i. m' = acts i m)\<^sup>*\<^sup>*"

lemma dt_disturb_steps: "others_do acts (dt_items s) (dt_items (dt_disturb acts s)) \<and> dt_clock (dt_disturb acts s) = dt_clock s + 1"
proof (cases "dt_plan s")
  case (Cons i js)
  have "others_do acts (dt_items s) (acts i (dt_items s))" unfolding others_do_def by (rule r_into_rtranclp) blast
  with Cons show ?thesis by (simp add: dt_disturb_def)
qed (simp add: dt_disturb_def others_do_def)

lemma others_do_refl [simp]: "others_do acts m m"
  by (simp add: others_do_def)

lemma others_do_trans: "others_do acts m m' \<Longrightarrow> others_do acts m' m'' \<Longrightarrow> others_do acts m m''"
  unfolding others_do_def by (rule rtranclp_trans)

lemma contended_table_shared: "shared_table (contended_table acts) tbl dt_items dt_clock (others_do acts)"
proof
  fix it c s u s' k
  assume p: "dd_PutItem (contended_table acts) tbl it c s = (Inr u, s')" and k: "item_key it = Some k"
  let ?d = "dt_disturb acts s"
  from p k have "cond_holds c (dt_items ?d k)" "s' = ?d\<lparr>dt_items := (dt_items ?d)(k \<mapsto> it)\<rparr>"
    by (auto simp: contended_table_def Let_def split: if_split_asm)
  with dt_disturb_steps [of acts s]
  show "(\<exists>m. others_do acts (dt_items s) m \<and> cond_holds c (m k) \<and> others_do acts (m(k \<mapsto> it)) (dt_items s')) \<and> dt_clock s \<le> dt_clock s'"
    by (auto intro: exI [of _ "dt_items ?d"])
next
  fix it c s s' k
  assume p: "dd_PutItem (contended_table acts) tbl it c s = (Inl ConditionalCheckFailed, s')" and k: "item_key it = Some k"
  then have "\<not> cond_holds c (dt_items s' k)" "s' = dt_disturb acts s"
    by (auto simp: contended_table_def Let_def split: if_split_asm)
  with dt_disturb_steps [of acts s]
  show "(\<exists>m. others_do acts (dt_items s) m \<and> \<not> cond_holds c (m k) \<and> others_do acts m (dt_items s')) \<and> dt_clock s \<le> dt_clock s'"
    by (auto intro: exI [of _ "dt_items s'"])
next
  fix k s v s'
  assume "dd_GetItem (contended_table acts) tbl k s = (Inr v, s')"
  then have "s' = dt_disturb acts s" "v = dt_items s' k" by (auto simp: contended_table_def Let_def)
  then show "(\<exists>m. others_do acts (dt_items s) m \<and> m k = v \<and> others_do acts m (dt_items s')) \<and> dt_clock s \<le> dt_clock s'"
    using dt_disturb_steps [of acts s] by (auto intro: exI [of _ "dt_items s'"])
qed (use dt_disturb_steps others_do_trans in \<open>auto simp: contended_table_def Let_def split: if_split_asm option.split_asm\<close>)

interpretation ct: shared_table "contended_table acts" tbl dt_items dt_clock "others_do acts"
  by (rule contended_table_shared)

lemma contended_table_clock: "dynamo_clock (contended_table acts) dt_clock"
  by unfold_locales (use dt_disturb_steps in \<open>auto simp: contended_table_def Let_def\<close>)

interpretation ctc: dynamo_clock "contended_table acts" dt_clock
  by (rule contended_table_clock)

lemma table_simps:
  "dd_GetItem (contended_table acts) tbl k s = (Inr (dt_items (dt_disturb acts s) k), dt_disturb acts s)"
  "dd_Now (contended_table acts) s = (dt_clock (dt_disturb acts s), dt_disturb acts s)"
  "item_key it = Some k \<Longrightarrow> dd_PutItem (contended_table acts) tbl it c s =
     (if cond_holds c (dt_items (dt_disturb acts s) k)
      then (Inr (), (dt_disturb acts s)\<lparr>dt_items := (dt_items (dt_disturb acts s))(k \<mapsto> it)\<rparr>) else (Inl ConditionalCheckFailed, dt_disturb acts s))"
  by (simp_all add: contended_table_def Let_def)

lemma disturb_idle: "dt_plan s = [] \<Longrightarrow> dt_disturb acts s = s\<lparr>dt_clock := dt_clock s + 1\<rparr>"
  by (simp add: dt_disturb_def)

lemma disturb_next: "dt_plan s = i # js \<Longrightarrow> dt_disturb acts s = s\<lparr>dt_items := acts i (dt_items s), dt_clock := dt_clock s + 1, dt_plan := js\<rparr>"
  by (simp add: dt_disturb_def)

end
