(* ===== verification/DdbLedger.thy ===== *)
theory DdbLedger
  imports HandlerLedger Dynamo GoText
begin

text \<open>
  The DynamoDB handler ledger (\<open>handlerledger/dynamodb_store.go\<close>). The attribute codec of the AWS SDK,
  the RFC 3339 text of an instant and SHA-256 are fields of a codec record; the client is the record
  of \<open>Dynamo\<close>. Log lines are left out.
\<close>

section \<open>Items\<close>

record ledger_codec =
  lc_Marshal :: "ledger_row \<Rightarrow> goerr + item"
  lc_Unmarshal :: "item \<Rightarrow> goerr + ledger_row"
  lc_MarshalMark :: "mark_done_input \<Rightarrow> goerr + item"
  lc_ISO :: "instant \<Rightarrow> string"
  lc_sha :: "string \<Rightarrow> string"

definition ddb_row_ttl :: duration where
  "ddb_row_ttl = 90 * 24 * 3600 * second"

definition ddb_row_pk :: "string \<Rightarrow> string \<Rightarrow> string" where
  "ddb_row_pk handler eventID = ''HANDLER#'' @ handler @ ''#'' @ eventID"

definition ddb_mark_pk :: "string \<Rightarrow> string" where
  "ddb_mark_pk h = ''BIZDEDUP#'' @ h"

definition dl_marshal_row :: "ledger_codec \<Rightarrow> ledger_row \<Rightarrow> goerr + item" where
  "dl_marshal_row K row =
     (case lc_Marshal K row of
        Inl e \<Rightarrow> Inl e
      | Inr item \<Rightarrow>
         (let iso = lc_ISO K (lr_AttemptedAt row);
              item = item(''PK'' \<mapsto> AttrS (ddb_row_pk (lr_HandlerName row) (lr_EventID row)), ''SK'' \<mapsto> AttrS ''META'');
              item = (if lr_UserID row \<noteq> []
                then item(''GSI1PK'' \<mapsto> AttrS (''USER#'' @ lr_UserID row), ''GSI1SK'' \<mapsto> AttrS iso) else item)
          in Inr (item(''GSI2PK'' \<mapsto> AttrS (''STATUS#'' @ status_text (lr_Status row)), ''GSI2SK'' \<mapsto> AttrS iso,
                ''ttl'' \<mapsto> AttrN (itoa ((lr_AttemptedAt row + ddb_row_ttl) div second))))))"

section \<open>Operations\<close>

definition dl_get_row :: "'w dynamo \<Rightarrow> ledger_codec \<Rightarrow> string \<Rightarrow> string \<Rightarrow> string \<Rightarrow> ('w, ledger_row option) ddb" where
  "dl_get_row C K tbl handler eventID =
     dbind (dd_GetItem C tbl (ddb_row_pk handler eventID, ''META'')) (\<lambda>out. case out of
       None \<Rightarrow> dret None
     | Some item \<Rightarrow> dbind (dlift (lc_Unmarshal K item)) (\<lambda>row. dret (Some row)))"

definition dl_refuses :: "'w dynamo \<Rightarrow> ledger_row option \<Rightarrow> ('w, bool) ddb" where
  "dl_refuses C existing = (case existing of
     None \<Rightarrow> dret False
   | Some r \<Rightarrow>
      if is_terminal (lr_Status r) then dret True
      else if lr_Status r = StatusInProgress then
        (case lr_LeaseExpiresAt r of None \<Rightarrow> dret False | Some e \<Rightarrow> dbind (dnow C) (\<lambda>t. dret (e > t)))
      else dret False)"

definition attempt_cond :: "ledger_row option \<Rightarrow> cond" where
  "attempt_cond existing = (case existing of None \<Rightarrow> NotExists | Some r \<Rightarrow> AttrEq ''Attempts'' (AttrN (itoa (lr_Attempts r))))"

text \<open>One round of the loop: \<open>None\<close> when another replica was faster.\<close>

definition dl_attempt_once :: "'w dynamo \<Rightarrow> ledger_codec \<Rightarrow> string \<Rightarrow> attempt_input \<Rightarrow> ('w, attempt_result option) ddb" where
  "dl_attempt_once C K tbl inp =
     dbind (dl_get_row C K tbl (rai_HandlerName inp) (rai_EventID inp)) (\<lambda>existing.
     dbind (dl_refuses C existing) (\<lambda>no.
       if no then dret (Some \<lparr>atr_Proceed = False, atr_CachedRow = existing\<rparr>)
       else dbind (dnow C) (\<lambda>now. dbind (dlift (dl_marshal_row K (attempt_row now existing inp))) (\<lambda>item.
         dtry (dd_PutItem C tbl item (attempt_cond existing))
           (\<lambda>e. if e = ConditionalCheckFailed then dret None else dfail e)
           (\<lambda>_. dret (Some \<lparr>atr_Proceed = True, atr_CachedRow = None\<rparr>))))))"

fun dl_attempt_tries :: "'w dynamo \<Rightarrow> ledger_codec \<Rightarrow> string \<Rightarrow> attempt_input \<Rightarrow> nat \<Rightarrow> ('w, attempt_result) ddb" where
  "dl_attempt_tries C K tbl inp 0 = dfail (DdbErr (ErrBackend ''handler ledger ddb: write contention exceeded 20 retries''))"
| "dl_attempt_tries C K tbl inp (Suc n) =
     dbind (dl_attempt_once C K tbl inp) (\<lambda>r. case r of Some res \<Rightarrow> dret res | None \<Rightarrow> dl_attempt_tries C K tbl inp n)"

definition dl_record_attempt :: "'w dynamo \<Rightarrow> ledger_codec \<Rightarrow> string \<Rightarrow> attempt_input \<Rightarrow> ('w, attempt_result) ddb" where
  "dl_record_attempt C K tbl inp = dl_attempt_tries C K tbl inp 20"

definition dl_record_outcome :: "'w dynamo \<Rightarrow> ledger_codec \<Rightarrow> string \<Rightarrow> outcome_input \<Rightarrow> ('w, unit) ddb" where
  "dl_record_outcome C K tbl inp =
     dbind (dl_get_row C K tbl (oi_HandlerName inp) (oi_EventID inp)) (\<lambda>row. case row of
       None \<Rightarrow> dret ()
     | Some r \<Rightarrow> dbind (dnow C) (\<lambda>now. dbind (dlift (dl_marshal_row K (outcome_row now inp r))) (\<lambda>item.
         dd_PutItem C tbl item Unconditional)))"

definition dl_already_done :: "'w dynamo \<Rightarrow> ledger_codec \<Rightarrow> string \<Rightarrow> string \<Rightarrow> ('w, bool) ddb" where
  "dl_already_done C K tbl dedupKey =
     dbind (dd_GetItem C tbl (ddb_mark_pk (lc_sha K dedupKey), ''META'')) (\<lambda>out. dret (out \<noteq> None))"

definition dl_mark_done :: "'w dynamo \<Rightarrow> ledger_codec \<Rightarrow> string \<Rightarrow> mark_done_input \<Rightarrow> ('w, unit) ddb" where
  "dl_mark_done C K tbl inp =
     dbind (dlift (lc_MarshalMark K inp)) (\<lambda>item.
       dd_PutItem C tbl (item(''PK'' \<mapsto> AttrS (ddb_mark_pk (lc_sha K (md_DedupKey inp))), ''SK'' \<mapsto> AttrS ''META'')) Unconditional)"

fun dl_collect :: "ledger_codec \<Rightarrow> query_options \<Rightarrow> item list \<Rightarrow> ledger_row list \<Rightarrow> goerr + ledger_row list" where
  "dl_collect K opt [] rows = Inr rows"
| "dl_collect K opt (it # its) rows =
     (case lc_Unmarshal K it of
        Inl e \<Rightarrow> Inl e
      | Inr row \<Rightarrow>
          if \<not> in_since opt row then dl_collect K opt its rows
          else let rows = rows @ [row] in
            if qo_Limit opt > 0 \<and> int (length rows) \<ge> qo_Limit opt then Inr rows else dl_collect K opt its rows)"

definition dl_query_gsi :: "'w dynamo \<Rightarrow> ledger_codec \<Rightarrow> string \<Rightarrow> string \<Rightarrow> string \<Rightarrow> string \<Rightarrow> query_options \<Rightarrow> ('w, ledger_row list) ddb" where
  "dl_query_gsi C K tbl index pkAttr pkVal opt =
     dbind (dd_Query C tbl \<lparr>qr_Index = index, qr_Attr = pkAttr, qr_Value = pkVal, qr_Limit = None, qr_Forward = False\<rparr>)
       (\<lambda>its. dlift (dl_collect K opt its []))"

definition dl_query_by_user :: "'w dynamo \<Rightarrow> ledger_codec \<Rightarrow> string \<Rightarrow> string \<Rightarrow> query_options \<Rightarrow> ('w, ledger_row list) ddb" where
  "dl_query_by_user C K tbl userID opt = dl_query_gsi C K tbl ''GSI1'' ''GSI1PK'' (''USER#'' @ userID) opt"

definition dl_query_by_status :: "'w dynamo \<Rightarrow> ledger_codec \<Rightarrow> string \<Rightarrow> ledger_status \<Rightarrow> query_options \<Rightarrow> ('w, ledger_row list) ddb" where
  "dl_query_by_status C K tbl st opt = dl_query_gsi C K tbl ''GSI2'' ''GSI2PK'' (''STATUS#'' @ status_text st) opt"

fun dl_delete_rows :: "'w dynamo \<Rightarrow> string \<Rightarrow> ledger_row list \<Rightarrow> nat \<Rightarrow> 'w \<Rightarrow> nat \<times> ddb_err option \<times> 'w" where
  "dl_delete_rows C tbl [] n w = (n, None, w)"
| "dl_delete_rows C tbl (r # rs) n w =
     (case dd_DeleteItem C tbl (ddb_row_pk (lr_HandlerName r) (lr_EventID r), ''META'') w of
        (Inl e, w) \<Rightarrow> (n, Some e, w)
      | (Inr _, w) \<Rightarrow> dl_delete_rows C tbl rs (Suc n) w)"

definition dl_delete_user :: "'w dynamo \<Rightarrow> ledger_codec \<Rightarrow> string \<Rightarrow> string \<Rightarrow> 'w \<Rightarrow> nat \<times> ddb_err option \<times> 'w" where
  "dl_delete_user C K tbl userID w =
     (case dl_query_by_user C K tbl userID \<lparr>qo_Limit = 0, qo_Since = None\<rparr> w of
        (Inl e, w) \<Rightarrow> (0, Some e, w)
      | (Inr rows, w) \<Rightarrow> dl_delete_rows C tbl rows 0 w)"

section \<open>The table\<close>

definition ledger_schema :: table_schema where
  "ledger_schema = \<lparr>ts_Hash = ''PK'', ts_Range = ''SK'',
     ts_Attributes = [(''PK'', CHR ''S''), (''SK'', CHR ''S''), (''GSI1PK'', CHR ''S''), (''GSI1SK'', CHR ''S''), (''GSI2PK'', CHR ''S''), (''GSI2SK'', CHR ''S'')],
     ts_Indexes = [(''GSI1'', ''GSI1PK'', ''GSI1SK''), (''GSI2'', ''GSI2PK'', ''GSI2SK'')]\<rparr>"

definition table_active :: "table_desc option \<Rightarrow> bool" where
  "table_active d = (case d of None \<Rightarrow> False | Some d \<Rightarrow> td_Active d)"

definition dl_create_missing :: "'w dynamo \<Rightarrow> string \<Rightarrow> ('w, unit) ddb" where
  "dl_create_missing C tbl =
     dtry (dd_DescribeTable C tbl)
       (\<lambda>e. if e \<noteq> ResourceNotFound then dfail (DdbWrap ''handler-ledger describe_table'' e)
            else dtry (dd_CreateTable C tbl ledger_schema) (\<lambda>e. dfail (DdbWrap ''handler-ledger create_table'' e)) dret)
       (\<lambda>_. dret ())"

text \<open>The best-effort end of \<open>EnsureTable\<close>.\<close>

definition dl_enable_ttl :: "'w dynamo \<Rightarrow> string \<Rightarrow> 'w \<Rightarrow> 'w" where
  "dl_enable_ttl C tbl w =
     (case dd_DescribeTTL C tbl w of
        (Inr (Some TtlOther), w) \<Rightarrow> snd (dd_UpdateTTL C tbl ''ttl'' w)
      | (_, w) \<Rightarrow> w)"

definition dl_ensure_table :: "bool \<Rightarrow> 'w dynamo \<Rightarrow> string \<Rightarrow> duration \<Rightarrow> 'w \<Rightarrow> (ddb_err option \<times> 'w) option" where
  "dl_ensure_table admin C tbl activeTimeout w =
     (if \<not> admin then Some (None, w)
      else case dl_create_missing C tbl w of
        (Inl e, w) \<Rightarrow> Some (Some e, w)
      | (Inr _, w) \<Rightarrow>
         (let activeTimeout = (if activeTimeout \<le> 0 then 60 * second else activeTimeout);
              w = snd (dd_DescribeTable C tbl w) in
          case wait_for C table_active tbl (second div 2) activeTimeout w of
            None \<Rightarrow> None
          | Some (active, w) \<Rightarrow>
              if active then Some (None, dl_enable_ttl C tbl w)
              else Some (Some (DdbErr (ErrBackend ''handler-ledger table did not become ACTIVE'')), w)))"

definition new_ddb_ledger :: "string \<Rightarrow> string" where
  "new_ddb_ledger tbl = (if tbl = [] then ''ab0t_quota_handler_ledger'' else tbl)"

section \<open>Attempts on a shared table\<close>

abbreviation ledger_item_key :: "attempt_input \<Rightarrow> string \<times> string" where
  "ledger_item_key inp \<equiv> (ddb_row_pk (rai_HandlerName inp) (rai_EventID inp), ''META'')"

definition dl_row :: "ledger_codec \<Rightarrow> ((string \<times> string) \<rightharpoonup> item) \<Rightarrow> string \<Rightarrow> string \<Rightarrow> goerr + ledger_row option" where
  "dl_row K m handler eventID =
     (case m (ddb_row_pk handler eventID, ''META'') of None \<Rightarrow> Inr None | Some it \<Rightarrow> map_sum id Some (lc_Unmarshal K it))"

text \<open>
  What a \<open>RecordAttempt\<close> of this store did: it judged the row of one moment, \<open>m1\<close>, and wrote at a later
  one, \<open>m2\<close>, at which its condition held.
\<close>

definition judged_then_put ::
  "(((string \<times> string) \<rightharpoonup> item) \<Rightarrow> ((string \<times> string) \<rightharpoonup> item) \<Rightarrow> bool) \<Rightarrow> ledger_codec \<Rightarrow> attempt_input \<Rightarrow> attempt_result
   \<Rightarrow> instant \<Rightarrow> instant \<Rightarrow> ((string \<times> string) \<rightharpoonup> item) \<Rightarrow> ((string \<times> string) \<rightharpoonup> item) \<Rightarrow> bool" where
  "judged_then_put G K inp res lo hi m0 m3 \<longleftrightarrow>
     (\<exists>m1 ex t. G m0 m1 \<and> dl_row K m1 (rai_HandlerName inp) (rai_EventID inp) = Inr ex \<and> lo \<le> t \<and> t \<le> hi \<and>
        (if blocked t ex then res = \<lparr>atr_Proceed = False, atr_CachedRow = ex\<rparr> \<and> G m1 m3
         else \<exists>m2 t' it. t \<le> t' \<and> t' \<le> hi \<and> G m1 m2 \<and> cond_holds (attempt_cond ex) (m2 (ledger_item_key inp))
           \<and> dl_marshal_row K (attempt_row t' ex inp) = Inr it \<and> res = \<lparr>atr_Proceed = True, atr_CachedRow = None\<rparr>
           \<and> G (m2(ledger_item_key inp \<mapsto> it)) m3))"

lemma marshal_row_key:
  assumes "dl_marshal_row K row = Inr it"
  shows "item_key it = Some (ddb_row_pk (lr_HandlerName row) (lr_EventID row), ''META'')"
  using assms by (auto simp: dl_marshal_row_def item_key_def Let_def split: sum.split_asm)

lemma attempt_row_key:
  "dl_marshal_row K (attempt_row t ex inp) = Inr it \<Longrightarrow> item_key it = Some (ledger_item_key inp)"
  by (drule marshal_row_key) (simp add: attempt_row_def Let_def)

lemma dl_get_row_inv:
  assumes "dl_get_row C K tbl handler ev w = (Inr ex, w')"
  obtains v where "dd_GetItem C tbl (ddb_row_pk handler ev, ''META'') w = (Inr v, w')"
    "\<And>m. m (ddb_row_pk handler ev, ''META'') = v \<Longrightarrow> dl_row K m handler ev = Inr ex"
proof -
  from assms obtain v where g: "dd_GetItem C tbl (ddb_row_pk handler ev, ''META'') w = (Inr v, w')"
    and c: "ex = None \<and> v = None \<or> (\<exists>it r. v = Some it \<and> lc_Unmarshal K it = Inr r \<and> ex = Some r)"
    by (auto simp: dl_get_row_def ddb_inv split: option.split_asm)
  from c have "dl_row K m handler ev = Inr ex" if "m (ddb_row_pk handler ev, ''META'') = v" for m
    using that by (auto simp: dl_row_def)
  with g that show ?thesis by blast
qed

lemma dl_refuses_inv:
  assumes "dl_refuses C ex w = (Inr b, w')"
  shows "w' = w \<and> (\<forall>t. b = blocked t ex) \<or> (\<exists>t. dd_Now C w = (t, w') \<and> b = blocked t ex)"
  using assms by (auto simp: dl_refuses_def blocked_def blocks_def ddb_inv split: option.split_asm if_split_asm)

context shared_table
begin

lemma refused_steps:
  assumes "dl_refuses C ex w = (Inr b, w')"
  obtains t where "clock w \<le> t" "t \<le> clock w'" "b = blocked t ex" "G (items w) (items w')"
  using dl_refuses_inv [OF assms] now_law [of w _ w'] others_refl by (metis order_refl)

lemma attempt_once_steps:
  assumes "dl_attempt_once C K tbl inp w = (Inr r, w')"
  shows "case r of Some res \<Rightarrow> judged_then_put G K inp res (clock w) (clock w') (items w) (items w') \<and> clock w \<le> clock w'
    | None \<Rightarrow> G (items w) (items w') \<and> clock w \<le> clock w'"
proof -
  from assms obtain ex w1 no w2 where l: "dl_get_row C K tbl (rai_HandlerName inp) (rai_EventID inp) w = (Inr ex, w1)"
    and rf: "dl_refuses C ex w1 = (Inr no, w2)"
    and c: "(if no then dret (Some \<lparr>atr_Proceed = False, atr_CachedRow = ex\<rparr>)
       else dbind (dnow C) (\<lambda>now. dbind (dlift (dl_marshal_row K (attempt_row now ex inp))) (\<lambda>item.
         dtry (dd_PutItem C tbl item (attempt_cond ex)) (\<lambda>e. if e = ConditionalCheckFailed then dret None else dfail e)
           (\<lambda>_. dret (Some \<lparr>atr_Proceed = True, atr_CachedRow = None\<rparr>))))) w2 = (Inr r, w')"
    unfolding dl_attempt_once_def dbind_Inr [of "dl_get_row _ _ _ _ _"] dbind_Inr [of "dl_refuses _ _"] by blast
  obtain v where v: "dd_GetItem C tbl (ledger_item_key inp) w = (Inr v, w1)"
    "\<And>m. m (ledger_item_key inp) = v \<Longrightarrow> dl_row K m (rai_HandlerName inp) (rai_EventID inp) = Inr ex"
    using dl_get_row_inv [OF l] by blast
  from get_law [OF v(1)] obtain m1 where m1: "G (items w) m1" "m1 (ledger_item_key inp) = v" "G m1 (items w1)" and c1: "clock w \<le> clock w1" by blast
  note row = v(2) [of m1, OF m1(2)]
  obtain t where t: "clock w1 \<le> t" "t \<le> clock w2" "no = blocked t ex" "G (items w1) (items w2)" by (rule refused_steps [OF rf])
  show ?thesis
  proof (cases no)
    case True
    with c have r: "r = Some \<lparr>atr_Proceed = False, atr_CachedRow = ex\<rparr>" "w' = w2" by (auto simp: dret_def)
    have "judged_then_put G K inp \<lparr>atr_Proceed = False, atr_CachedRow = ex\<rparr> (clock w) (clock w') (items w) (items w')"
      unfolding judged_then_put_def using m1 row t c1 True r others_trans by (intro exI [of _ m1] exI [of _ ex] exI [of _ t]) auto
    with r c1 t show ?thesis by simp
  next
    case False
    with c obtain t' w3 it where n: "dd_Now C w2 = (t', w3)" and it: "dl_marshal_row K (attempt_row t' ex inp) = Inr it"
      and p: "dd_PutItem C tbl it (attempt_cond ex) w3 = (Inl ConditionalCheckFailed, w') \<and> r = None
        \<or> dd_PutItem C tbl it (attempt_cond ex) w3 = (Inr (), w') \<and> r = Some \<lparr>atr_Proceed = True, atr_CachedRow = None\<rparr>"
      by (auto simp: ddb_inv dfail_def split: if_split_asm)
    note now = now_law [OF n]
    have w3: "G m1 (items w3)" using m1 t now others_trans by meson
    from p show ?thesis
    proof (elim disjE conjE)
      assume u: "dd_PutItem C tbl it (attempt_cond ex) w3 = (Inl ConditionalCheckFailed, w')" and r: "r = None"
      from put_lost [OF u attempt_row_key [OF it]] others_trans have "G (items w3) (items w')" "clock w3 \<le> clock w'" by blast+
      with r w3 m1(1) now t c1 others_trans show ?thesis by (auto intro: order_trans)
    next
      assume u: "dd_PutItem C tbl it (attempt_cond ex) w3 = (Inr (), w')" and r: "r = Some \<lparr>atr_Proceed = True, atr_CachedRow = None\<rparr>"
      from put_law [OF u attempt_row_key [OF it]] obtain m2 where m2: "G (items w3) m2" "cond_holds (attempt_cond ex) (m2 (ledger_item_key inp))"
        "G (m2(ledger_item_key inp \<mapsto> it)) (items w')" and c3: "clock w3 \<le> clock w'" by blast
      have "judged_then_put G K inp \<lparr>atr_Proceed = True, atr_CachedRow = None\<rparr> (clock w) (clock w') (items w) (items w')"
        unfolding judged_then_put_def using m1 row t c1 False now m2 c3 it others_trans [OF w3 m2(1)]
        by (intro exI [of _ m1] exI [of _ ex] exI [of _ t]) (auto intro!: exI [of _ m2] exI [of _ t'] exI [of _ it])
      with r c1 t now c3 show ?thesis by simp
    qed
  qed
qed

lemma judged_earlier:
  assumes "judged_then_put G K inp res lo hi m m3" and "G m0 m" and "lo' \<le> lo" and "hi \<le> hi'"
  shows "judged_then_put G K inp res lo' hi' m0 m3"
  using assms unfolding judged_then_put_def by (smt (verit) others_trans order_trans)

lemma attempt_judged:
  assumes "dl_record_attempt C K tbl inp w = (Inr res, w')"
  shows "judged_then_put G K inp res (clock w) (clock w') (items w) (items w')"
proof -
  have "judged_then_put G K inp res (clock w) (clock w') (items w) (items w')"
    if "dl_attempt_tries C K tbl inp n w = (Inr res, w')" for n w
    using that
  proof (induction n arbitrary: w)
    case 0
    then show ?case by (simp add: dfail_def)
  next
    case (Suc n)
    then obtain r w1 where o: "dl_attempt_once C K tbl inp w = (Inr r, w1)"
      and c: "(case r of Some res \<Rightarrow> dret res | None \<Rightarrow> dl_attempt_tries C K tbl inp n) w1 = (Inr res, w')"
      by (auto simp: dbind_Inr)
    note s = attempt_once_steps [OF o]
    show ?case
    proof (cases r)
      case None
      with c Suc.IH have j: "judged_then_put G K inp res (clock w1) (clock w') (items w1) (items w')" by simp
      from s None judged_earlier [OF j] show ?thesis by simp
    qed (use s c in \<open>simp add: dret_Inr\<close>)
  qed
  with assms show ?thesis by (simp add: dl_record_attempt_def)
qed

end

text \<open>What the store relies on of the attribute codec.\<close>

definition codec_ok :: "ledger_codec \<Rightarrow> bool" where
  "codec_ok K \<longleftrightarrow>
     (\<forall>r. \<exists>it. lc_Marshal K r = Inr it)
     \<and> (\<forall>r it. dl_marshal_row K r = Inr it \<longrightarrow> lc_Unmarshal K it = Inr r)
     \<and> (\<forall>r it. dl_marshal_row K r = Inr it \<longrightarrow> it ''Attempts'' = Some (AttrN (itoa (lr_Attempts r))))"

text \<open>Whatever the others do, the item of the event is one that the ledger wrote.\<close>

definition only_rows ::
  "ledger_codec \<Rightarrow> (((string \<times> string) \<rightharpoonup> item) \<Rightarrow> ((string \<times> string) \<rightharpoonup> item) \<Rightarrow> bool) \<Rightarrow> ((string \<times> string) \<rightharpoonup> item) \<Rightarrow> string \<times> string \<Rightarrow> bool" where
  "only_rows K G m0 k \<longleftrightarrow> (\<forall>m i. G m0 m \<longrightarrow> m k = Some i \<longrightarrow> (\<exists>r. dl_marshal_row K r = Inr i))"

text \<open>The others change a row that is there only together with its attempt number, and never remove it.\<close>

definition counts_every_change :: "(((string \<times> string) \<rightharpoonup> item) \<Rightarrow> ((string \<times> string) \<rightharpoonup> item) \<Rightarrow> bool) \<Rightarrow> string \<times> string \<Rightarrow> bool" where
  "counts_every_change G k \<longleftrightarrow>
     (\<forall>m m' i i'. G m m' \<longrightarrow> m k = Some i \<longrightarrow> m' k = Some i' \<longrightarrow> i' ''Attempts'' = i ''Attempts'' \<longrightarrow> i' = i)"

definition dl_atomic_attempt ::
  "ledger_codec \<Rightarrow> attempt_input \<Rightarrow> attempt_result \<Rightarrow> instant \<Rightarrow> instant \<Rightarrow> ((string \<times> string) \<rightharpoonup> item) \<Rightarrow> ((string \<times> string) \<rightharpoonup> item) \<Rightarrow> bool" where
  "dl_atomic_attempt K inp res lo hi m m' \<longleftrightarrow>
     (\<exists>ex t t'. dl_row K m (rai_HandlerName inp) (rai_EventID inp) = Inr ex \<and> lo \<le> t \<and> t \<le> t' \<and> t' \<le> hi \<and>
        (if blocked t ex then res = \<lparr>atr_Proceed = False, atr_CachedRow = ex\<rparr> \<and> m' = m
         else res = \<lparr>atr_Proceed = True, atr_CachedRow = None\<rparr> \<and>
           (\<exists>it. dl_marshal_row K (attempt_row t' ex inp) = Inr it \<and> m' = m(ledger_item_key inp \<mapsto> it))))"

text \<open>
  C28. Attempts that race each other on DynamoDB are atomic. As long as what other replicas do to the row
  of an event changes its attempt number whenever it changes the row, as a \<open>RecordAttempt\<close> does, an
  attempt that returns was judged by the very row it replaced: of two replicas that race for one
  event at most one is let through. The conditional put guards on the attempt number alone, so this
  is also what it needs (see the next theorem for an outcome that comes in between).
\<close>

theorem ddb_attempts_are_atomic:
  assumes "shared_table C tbl items clock G" and "codec_ok K" and "counts_every_change G (ledger_item_key inp)"
    and "only_rows K G (items w) (ledger_item_key inp)" and "dl_record_attempt C K tbl inp w = (Inr res, w')"
  shows "\<exists>m m'. G (items w) m \<and> dl_atomic_attempt K inp res (clock w) (clock w') m m' \<and> G m' (items w')"
proof -
  let ?k = "ledger_item_key inp"
  note trans = shared_table.others_trans [OF assms(1)] and refl = shared_table.others_refl [OF assms(1)]
  from shared_table.attempt_judged [OF assms(1,5)] obtain m1 ex t where m1: "G (items w) m1"
    and ex: "dl_row K m1 (rai_HandlerName inp) (rai_EventID inp) = Inr ex" and t: "clock w \<le> t" "t \<le> clock w'"
    and c: "if blocked t ex then res = \<lparr>atr_Proceed = False, atr_CachedRow = ex\<rparr> \<and> G m1 (items w')
         else \<exists>m2 t' it. t \<le> t' \<and> t' \<le> clock w' \<and> G m1 m2 \<and> cond_holds (attempt_cond ex) (m2 ?k)
           \<and> dl_marshal_row K (attempt_row t' ex inp) = Inr it \<and> res = \<lparr>atr_Proceed = True, atr_CachedRow = None\<rparr>
           \<and> G (m2(?k \<mapsto> it)) (items w')"
    unfolding judged_then_put_def by blast
  show ?thesis
  proof (cases "blocked t ex")
    case True
    with c m1 ex t show ?thesis by (intro exI [of _ m1]) (auto simp: dl_atomic_attempt_def)
  next
    case False
    with c obtain m2 t' it where m2: "t \<le> t'" "t' \<le> clock w'" "G m1 m2" "cond_holds (attempt_cond ex) (m2 ?k)"
      "dl_marshal_row K (attempt_row t' ex inp) = Inr it" "res = \<lparr>atr_Proceed = True, atr_CachedRow = None\<rparr>" "G (m2(?k \<mapsto> it)) (items w')" by auto
    have "m2 ?k = m1 ?k"
    proof (cases "m1 ?k")
      case None
      with ex m2(4) show ?thesis by (auto simp: dl_row_def attempt_cond_def)
    next
      case (Some i1)
      with m1 assms(4) obtain r where i1: "dl_marshal_row K r = Inr i1" by (auto simp: only_rows_def)
      with assms(2) have u: "lc_Unmarshal K i1 = Inr r" "i1 ''Attempts'' = Some (AttrN (itoa (lr_Attempts r)))" by (auto simp: codec_ok_def)
      with ex Some have r: "ex = Some r" by (simp add: dl_row_def)
      with r u m2(3,4) Some assms(3) show ?thesis by (auto simp: attempt_cond_def counts_every_change_def)
    qed
    then have "dl_row K m2 (rai_HandlerName inp) (rai_EventID inp) = Inr ex" using ex by (simp add: dl_row_def)
    with False t m2 have "dl_atomic_attempt K inp res (clock w) (clock w') m2 (m2(?k \<mapsto> it))" unfolding dl_atomic_attempt_def by auto
    with m2 trans [OF m1] show ?thesis by blast
  qed
qed

section \<open>An outcome that comes in between\<close>

text \<open>The table after another replica, at the instant \<open>t\<close>, ran \<open>RecordOutcome\<close> on it.\<close>

definition meanwhile :: "ledger_codec \<Rightarrow> string \<Rightarrow> outcome_input \<Rightarrow> instant \<Rightarrow> ((string \<times> string) \<rightharpoonup> item) \<Rightarrow> ((string \<times> string) \<rightharpoonup> item)" where
  "meanwhile K tbl out t m = dt_items (snd (dl_record_outcome (contended_table (\<lambda>_ m. m)) K tbl out \<lparr>dt_items = m, dt_clock = t, dt_plan = []\<rparr>))"

definition finisher :: "ledger_codec \<Rightarrow> string \<Rightarrow> outcome_input \<Rightarrow> instant \<Rightarrow> nat \<Rightarrow> ((string \<times> string) \<rightharpoonup> item) \<Rightarrow> ((string \<times> string) \<rightharpoonup> item)" where
  "finisher K tbl out t i m = (if i = 1 then meanwhile K tbl out t m else m)"

lemma marshal_row_total:
  assumes "codec_ok K"
  obtains it where "dl_marshal_row K r = Inr it"
proof -
  from assms obtain b where "lc_Marshal K r = Inr b" unfolding codec_ok_def by blast
  then have "\<exists>it. dl_marshal_row K r = Inr it" by (simp add: dl_marshal_row_def Let_def)
  with that show ?thesis by blast
qed

lemma attempt_first:
  assumes "dl_attempt_once C K tbl inp w = (Inr (Some res), w')"
  shows "dl_record_attempt C K tbl inp w = (Inr res, w')"
proof -
  have "dl_attempt_tries C K tbl inp (Suc 19) w = (Inr res, w')" using assms by (simp only: dl_attempt_tries.simps dbind_def) (simp add: dret_def)
  then show ?thesis by (simp only: dl_record_attempt_def eval_nat_numeral BitM.simps One_nat_def)
qed

lemma meanwhile_closes:
  assumes "codec_ok K" and "m (ddb_row_pk (oi_HandlerName out) (oi_EventID out), ''META'') = Some it" and "dl_marshal_row K r = Inr it"
    and "lr_HandlerName r = oi_HandlerName out" "lr_EventID r = oi_EventID out"
  obtains it' where "dl_marshal_row K (outcome_row (2 + t) out r) = Inr it'"
    "meanwhile K tbl out t m = m((ddb_row_pk (oi_HandlerName out) (oi_EventID out), ''META'') \<mapsto> it')"
proof -
  obtain it' where it': "dl_marshal_row K (outcome_row (2 + t) out r) = Inr it'" by (rule marshal_row_total [OF assms(1)])
  have u: "lc_Unmarshal K it = Inr r" using assms(1,3) by (simp add: codec_ok_def)
  have k: "item_key it' = Some (ddb_row_pk (oi_HandlerName out) (oi_EventID out), ''META'')"
    using marshal_row_key [OF it'] assms(4,5) by (simp add: outcome_row_def)
  have "meanwhile K tbl out t m = m((ddb_row_pk (oi_HandlerName out) (oi_EventID out), ''META'') \<mapsto> it')"
    by (simp add: meanwhile_def dl_record_outcome_def dl_get_row_def dbind_def dlift_def dret_def dnow_def table_simps disturb_idle assms(2) u it' k)
  with it' that show ?thesis by blast
qed

text \<open>
  A finished event can be handled again. The put of an attempt is conditional on the attempt number
  only. When the worker whose lease has run out finishes after another replica has read its row and
  before that replica writes, the row's attempt number is unchanged, the put replaces the finished row
  by a new attempt, and the handler body runs a second time for an event whose success is on record;
  the record of that success is lost.
\<close>

theorem ddb_reopens_finished_event:
  assumes "codec_ok K" and "dl_marshal_row K r = Inr it" and "dt_items s (ledger_item_key inp) = Some it"
    and "(lr_HandlerName r, lr_EventID r) = attempt_key inp" and "outcome_key out = attempt_key inp"
    and "lr_Status r = StatusInProgress" and "lr_LeaseExpiresAt r = Some e" and "e \<le> dt_clock s"
    and "is_terminal (oi_Status out)" and "oi_Attempts out \<in> {0, lr_Attempts r}" and "dt_plan s = [0, 0, 0, 1]"
  shows "(\<exists>x. dl_row K (meanwhile K tbl out t (dt_items s)) (rai_HandlerName inp) (rai_EventID inp) = Inr (Some x) \<and> is_terminal (lr_Status x))
    \<and> (\<exists>s' x. dl_record_attempt (contended_table (finisher K tbl out t)) K tbl inp s = (Inr \<lparr>atr_Proceed = True, atr_CachedRow = None\<rparr>, s')
        \<and> dl_row K (dt_items s') (rai_HandlerName inp) (rai_EventID inp) = Inr (Some x) \<and> lr_Status x = StatusInProgress)"
proof -
  let ?k = "ledger_item_key inp" and ?m = "meanwhile K tbl out t (dt_items s)"
  have keys: "oi_HandlerName out = rai_HandlerName inp" "oi_EventID out = rai_EventID inp" "lr_HandlerName r = oi_HandlerName out" "lr_EventID r = oi_EventID out"
    using assms(4,5) by auto
  obtain it' where it': "dl_marshal_row K (outcome_row (2 + t) out r) = Inr it'" and m: "?m = (dt_items s)(?k \<mapsto> it')"
    using meanwhile_closes [OF assms(1) _ assms(2), of "dt_items s" out t tbl] assms(3) keys by auto
  have un: "lc_Unmarshal K it = Inr r" "lc_Unmarshal K it' = Inr (outcome_row (2 + t) out r)" using assms(1,2) it' by (auto simp: codec_ok_def)
  have "it' ''Attempts'' = Some (AttrN (itoa (lr_Attempts (outcome_row (2 + t) out r))))" using assms(1) it' by (simp add: codec_ok_def)
  with assms(10) have att: "it' ''Attempts'' = Some (AttrN (itoa (lr_Attempts r)))" by (auto simp: outcome_row_def)
  define now where "now = 3 + dt_clock s"
  obtain it2 where it2: "dl_marshal_row K (attempt_row now (Some r) inp) = Inr it2" by (rule marshal_row_total [OF assms(1)])
  have un2: "lc_Unmarshal K it2 = Inr (attempt_row now (Some r) inp)" using assms(1) it2 by (simp add: codec_ok_def)
  let ?s = "s\<lparr>dt_items := ?m(?k \<mapsto> it2), dt_clock := 4 + dt_clock s, dt_plan := []\<rparr>"
  have "dl_attempt_once (contended_table (finisher K tbl out t)) K tbl inp s = (Inr (Some \<lparr>atr_Proceed = True, atr_CachedRow = None\<rparr>), ?s)"
    using assms(3,6-8,11) un att it2 attempt_row_key [OF it2]
    by (simp add: dl_attempt_once_def dl_get_row_def dbind_def dlift_def dret_def dnow_def dtry_def table_simps disturb_next finisher_def
        dl_refuses_def is_terminal_def attempt_cond_def m now_def)
  then have "dl_record_attempt (contended_table (finisher K tbl out t)) K tbl inp s = (Inr \<lparr>atr_Proceed = True, atr_CachedRow = None\<rparr>, ?s)"
    by (rule attempt_first)
  moreover have "dl_row K (dt_items ?s) (rai_HandlerName inp) (rai_EventID inp) = Inr (Some (attempt_row now (Some r) inp))"
    using un2 by (simp add: dl_row_def)
  moreover have "dl_row K ?m (rai_HandlerName inp) (rai_EventID inp) = Inr (Some (outcome_row (2 + t) out r))"
    using un m by (simp add: dl_row_def)
  ultimately show ?thesis using assms(9) by (auto simp: attempt_row_def Let_def outcome_row_def)
qed

text \<open>
  \<open>EnsureTable\<close> returns: with a clock that does not stand still while it sleeps, it ends whatever the
  service answers, and when it reports success a description of the table has just said that it is
  active.
\<close>

theorem ensure_ledger_table_returns:
  assumes "dynamo_clock C clock"
  shows "\<exists>e w'. dl_ensure_table True C tbl d w = Some (e, w')
    \<and> (e = None \<longrightarrow> (\<exists>w0 w1 desc. dd_DescribeTable C tbl w0 = (Inr (Some desc), w1) \<and> td_Active desc \<and> w' = dl_enable_ttl C tbl w1))"
proof -
  obtain r w1 where c: "dl_create_missing C tbl w = (r, w1)" by fastforce
  obtain b w2 where b: "wait_for C table_active tbl (second div 2) (if d \<le> 0 then 60 * second else d) (snd (dd_DescribeTable C tbl w1)) = Some (b, w2)"
    and q: "b \<Longrightarrow> \<exists>w0 d. dd_DescribeTable C tbl w0 = (Inr d, w2) \<and> table_active d"
    by (rule dynamo_clock.wait_returns [OF assms, of "second div 2" table_active tbl
          "if d \<le> 0 then 60 * second else d" "snd (dd_DescribeTable C tbl w1)"]) simp_all
  have act: "b \<Longrightarrow> \<exists>w0 desc. dd_DescribeTable C tbl w0 = (Inr (Some desc), w2) \<and> td_Active desc"
    using q by (fastforce simp: table_active_def split: option.split_asm)
  show ?thesis
  proof (cases r)
    case (Inl e)
    with c show ?thesis by (simp add: dl_ensure_table_def)
  next
    case (Inr u)
    then show ?thesis unfolding dl_ensure_table_def c Let_def prod.case sum.case b option.case using act by (cases b) auto
  qed
qed

section \<open>A codec and examples\<close>

text \<open>One attribute per field, integers and instants as decimal text.\<close>

definition status_of_text :: "string \<Rightarrow> ledger_status" where
  "status_of_text s = (if s = ''success'' then StatusSuccess else if s = ''skipped'' then StatusSkipped else if s = ''failed'' then StatusFailed
     else if s = ''failed_permanent'' then StatusFailedPermanent else StatusInProgress)"

lemma status_of_text [simp]: "status_of_text (status_text st) = st"
  by (cases st) (simp_all add: status_of_text_def)

definition attr_string :: "attr option \<Rightarrow> string" where
  "attr_string a = (case a of Some (AttrS s) \<Rightarrow> s | _ \<Rightarrow> [])"

definition attr_int :: "attr option \<Rightarrow> int option" where
  "attr_int a = (case a of Some (AttrN s) \<Rightarrow> Some (text_int s) | _ \<Rightarrow> None)"

definition field_codec :: ledger_codec where
  "field_codec = \<lparr>lc_Marshal = (\<lambda>r. Inr [''HandlerName'' \<mapsto> AttrS (lr_HandlerName r), ''EventID'' \<mapsto> AttrS (lr_EventID r),
        ''EventType'' \<mapsto> AttrS (lr_EventType r), ''Status'' \<mapsto> AttrS (status_text (lr_Status r)), ''UserID'' \<mapsto> AttrS (lr_UserID r),
        ''OrgID'' \<mapsto> AttrS (lr_OrgID r), ''Reason'' \<mapsto> AttrS (lr_Reason r), ''SideEffectID'' \<mapsto> AttrS (lr_SideEffectID r),
        ''Attempts'' \<mapsto> AttrN (itoa (lr_Attempts r)), ''AttemptedAt'' \<mapsto> AttrN (itoa (lr_AttemptedAt r)),
        ''CompletedAt'' \<mapsto> (case lr_CompletedAt r of None \<Rightarrow> AttrS [] | Some t \<Rightarrow> AttrN (itoa t)),
        ''LeaseExpiresAt'' \<mapsto> (case lr_LeaseExpiresAt r of None \<Rightarrow> AttrS [] | Some t \<Rightarrow> AttrN (itoa t)),
        ''Error'' \<mapsto> AttrS (lr_Error r), ''EventPayload'' \<mapsto> AttrS (lr_EventPayload r)]),
     lc_Unmarshal = (\<lambda>it. Inr \<lparr>lr_HandlerName = attr_string (it ''HandlerName''), lr_EventID = attr_string (it ''EventID''),
        lr_EventType = attr_string (it ''EventType''), lr_Status = status_of_text (attr_string (it ''Status'')), lr_UserID = attr_string (it ''UserID''),
        lr_OrgID = attr_string (it ''OrgID''), lr_Reason = attr_string (it ''Reason''), lr_SideEffectID = attr_string (it ''SideEffectID''),
        lr_Attempts = (case attr_int (it ''Attempts'') of None \<Rightarrow> 0 | Some n \<Rightarrow> n), lr_AttemptedAt = (case attr_int (it ''AttemptedAt'') of None \<Rightarrow> 0 | Some n \<Rightarrow> n),
        lr_CompletedAt = attr_int (it ''CompletedAt''), lr_LeaseExpiresAt = attr_int (it ''LeaseExpiresAt''),
        lr_Error = attr_string (it ''Error''), lr_EventPayload = attr_string (it ''EventPayload'')\<rparr>),
     lc_MarshalMark = (\<lambda>_. Inr Map.empty), lc_ISO = itoa, lc_sha = id\<rparr>"

lemma field_codec_ok: "codec_ok field_codec"
  unfolding codec_ok_def
proof (intro conjI allI impI)
  fix r it assume "dl_marshal_row field_codec r = Inr it"
  then show "lc_Unmarshal field_codec it = Inr r" "it ''Attempts'' = Some (AttrN (itoa (lr_Attempts r)))"
    by (cases "lr_UserID r = []"; cases "lr_CompletedAt r"; cases "lr_LeaseExpiresAt r";
        auto simp: dl_marshal_row_def field_codec_def Let_def attr_string_def attr_int_def)+
qed (simp add: field_codec_def)

text \<open>A rival that records its attempt while the table holds no row of the event.\<close>

definition first_item :: item where
  "first_item = (case dl_marshal_row field_codec (attempt_row 0 None plain_attempt) of Inr it \<Rightarrow> it | Inl e \<Rightarrow> Map.empty)"

definition rival_attempt :: "nat \<Rightarrow> ((string \<times> string) \<rightharpoonup> item) \<Rightarrow> ((string \<times> string) \<rightharpoonup> item)" where
  "rival_attempt i m = (case m (ledger_item_key plain_attempt) of
     None \<Rightarrow> if i = 1 then m(ledger_item_key plain_attempt \<mapsto> first_item) else m | Some it \<Rightarrow> m)"

definition empty_table :: dtable where
  "empty_table = \<lparr>dt_items = Map.empty, dt_clock = 0, dt_plan = [0, 0, 1]\<rparr>"

lemma rival_attempts: "others_do rival_attempt m m' \<Longrightarrow>
   m' = m \<or> m (ledger_item_key plain_attempt) = None \<and> m' = m(ledger_item_key plain_attempt \<mapsto> first_item)"
  unfolding others_do_def
  by (induction rule: rtranclp_induct) (auto simp: rival_attempt_def split: option.splits)

lemma first_item: "dl_marshal_row field_codec (attempt_row 0 None plain_attempt) = Inr first_item"
  using marshal_row_total [OF field_codec_ok] by (metis first_item_def sum.simps(6))

lemma attempt_second:
  assumes "dl_attempt_once C K tbl inp w = (Inr None, w1)" and "dl_attempt_once C K tbl inp w1 = (Inr (Some res), w')"
  shows "dl_record_attempt C K tbl inp w = (Inr res, w')"
proof -
  have "dl_attempt_tries C K tbl inp (Suc (Suc 18)) w = (Inr res, w')"
    using assms by (simp only: dl_attempt_tries.simps dbind_def) (simp add: dret_def dbind_def)
  then show ?thesis by (simp only: dl_record_attempt_def eval_nat_numeral BitM.simps One_nat_def)
qed

definition met_table :: dtable where
  "met_table = \<lparr>dt_items = [ledger_item_key plain_attempt \<mapsto> first_item], dt_clock = 3, dt_plan = []\<rparr>"

lemma rival_first: "dl_attempt_once (contended_table rival_attempt) field_codec ''t'' plain_attempt empty_table = (Inr None, met_table)"
proof -
  obtain it where it: "dl_marshal_row field_codec (attempt_row 2 None plain_attempt) = Inr it" by (rule marshal_row_total [OF field_codec_ok])
  show ?thesis
    using it attempt_row_key [OF it]
    by (simp add: dl_attempt_once_def dl_get_row_def dbind_def dlift_def dret_def dnow_def dtry_def table_simps disturb_next rival_attempt_def
        dl_refuses_def attempt_cond_def empty_table_def met_table_def)
qed

lemma rival_second: "dl_attempt_once (contended_table rival_attempt) field_codec ''t'' plain_attempt met_table
   = (Inr (Some \<lparr>atr_Proceed = False, atr_CachedRow = Some (attempt_row 0 None plain_attempt)\<rparr>), met_table\<lparr>dt_clock := 5\<rparr>)"
proof -
  have u: "lc_Unmarshal field_codec first_item = Inr (attempt_row 0 None plain_attempt)" using field_codec_ok first_item by (simp add: codec_ok_def)
  have r: "lr_Status (attempt_row 0 None plain_attempt) = StatusInProgress" "lr_LeaseExpiresAt (attempt_row 0 None plain_attempt) = Some (60 * second)"
    by (simp_all add: attempt_row_def Let_def plain_attempt_def wrap64_def)
  show ?thesis
    using u r
    by (simp add: dl_attempt_once_def dl_get_row_def dbind_def dlift_def dret_def dnow_def table_simps disturb_idle rival_attempt_def
        dl_refuses_def is_terminal_def met_table_def)
qed

theorem ddb_attempts_are_atomic_witness:
  "\<exists>w' m m'. dl_record_attempt (contended_table rival_attempt) field_codec ''t'' plain_attempt empty_table
       = (Inr \<lparr>atr_Proceed = False, atr_CachedRow = Some (attempt_row 0 None plain_attempt)\<rparr>, w')
     \<and> dl_atomic_attempt field_codec plain_attempt \<lparr>atr_Proceed = False, atr_CachedRow = Some (attempt_row 0 None plain_attempt)\<rparr> 0 (dt_clock w') m m'"
proof -
  let ?C = "contended_table rival_attempt" and ?res = "\<lparr>atr_Proceed = False, atr_CachedRow = Some (attempt_row 0 None plain_attempt)\<rparr>"
  have c: "counts_every_change (others_do rival_attempt) (ledger_item_key plain_attempt)"
    unfolding counts_every_change_def using rival_attempts by fastforce
  have "\<exists>r. dl_marshal_row field_codec r = Inr i" if "others_do rival_attempt Map.empty m" "m (ledger_item_key plain_attempt) = Some i" for m i
    using rival_attempts [OF that(1)] that(2) first_item by auto
  then have o: "only_rows field_codec (others_do rival_attempt) (dt_items empty_table) (ledger_item_key plain_attempt)"
    by (simp add: only_rows_def empty_table_def)
  obtain w' where w': "dl_record_attempt ?C field_codec ''t'' plain_attempt empty_table = (Inr ?res, w')"
    using attempt_second [OF rival_first rival_second] by blast
  from ddb_attempts_are_atomic [OF contended_table_shared field_codec_ok c o w'] w' show ?thesis by (auto simp: empty_table_def)
qed

text \<open>The row of a worker whose lease of 60 s has run out, and the success it records late.\<close>

definition late_success :: outcome_input where
  "late_success = outcome ''h'' ''e'' StatusSuccess [] [] [] 1"

definition expired_table :: dtable where
  "expired_table = \<lparr>dt_items = [ledger_item_key plain_attempt \<mapsto> first_item], dt_clock = 61 * second, dt_plan = [0, 0, 0, 1]\<rparr>"

theorem ddb_reopens_finished_event_witness:
  "\<exists>s'. dl_record_attempt (contended_table (finisher field_codec ''t'' late_success (61 * second))) field_codec ''t'' plain_attempt expired_table
     = (Inr \<lparr>atr_Proceed = True, atr_CachedRow = None\<rparr>, s')"
proof -
  have k: "dt_items expired_table (ledger_item_key plain_attempt) = Some first_item" "dt_plan expired_table = [0, 0, 0, 1]" by (simp_all add: expired_table_def)
  have r: "(lr_HandlerName (attempt_row 0 None plain_attempt), lr_EventID (attempt_row 0 None plain_attempt)) = attempt_key plain_attempt"
    "lr_Status (attempt_row 0 None plain_attempt) = StatusInProgress" "lr_LeaseExpiresAt (attempt_row 0 None plain_attempt) = Some (60 * second)"
    "oi_Attempts late_success \<in> {0, lr_Attempts (attempt_row 0 None plain_attempt)}"
    by (simp_all add: attempt_row_def Let_def plain_attempt_def wrap64_def late_success_def outcome_def)
  have o: "outcome_key late_success = attempt_key plain_attempt" "is_terminal (oi_Status late_success)" "60 * second \<le> dt_clock expired_table"
    by (simp_all add: late_success_def outcome_def plain_attempt_def is_terminal_def expired_table_def)
  from ddb_reopens_finished_event [OF field_codec_ok first_item k(1) r(1) o(1) r(2,3) o(3,2) r(4) k(2)] show ?thesis by blast
qed

theorem ensure_ledger_table_returns_witness:
  "\<exists>e w'. dl_ensure_table True (contended_table rival_attempt) ''t'' 0 empty_table = Some (e, w')"
  using ensure_ledger_table_returns [OF contended_table_clock [of rival_attempt], of "''t''" 0 empty_table] by blast

end
