(* ===== verification/ActivationStores.thy ===== *)
theory ActivationStores
  imports Activations Dynamo HttpClient RedisStore
begin

text \<open>
  The durable activation stores: DynamoDB (\<open>activations/ddb.go\<close>) and Redis (the second half of
  \<open>activations/activations.go\<close>). The clients are records of calls on a threaded world in which other
  replicas may act at any call; JSON and RFC 3339 text are fields of a codec.
\<close>

section \<open>DynamoDB\<close>

fun state_text :: "act_state \<Rightarrow> string" where
  "state_text StateOpen = ''open''"
| "state_text StateReleased = ''released''"
| "state_text StateSettled = ''settled''"

record act_codec =
  av_Encode :: "activation \<Rightarrow> string"
  av_Decode :: "string \<Rightarrow> goerr + activation"
  av_ISO :: "instant \<Rightarrow> string"

record ddb_acts =
  da_table :: string
  da_ttl :: duration

definition default_released_ttl :: duration where
  "default_released_ttl = 14 * 24 * 3600 * second"

definition new_ddb_acts :: "string \<Rightarrow> duration \<Rightarrow> ddb_acts" where
  "new_ddb_acts tbl ttl = \<lparr>da_table = (if tbl = [] then ''ab0t_quota_activations'' else tbl), da_ttl = (if ttl \<le> 0 then default_released_ttl else ttl)\<rparr>"

definition act_key :: "string \<Rightarrow> string \<times> string" where
  "act_key i = (''ACT#'' @ i, ''META'')"

definition acts_schema :: table_schema where
  "acts_schema = \<lparr>ts_Hash = ''PK'', ts_Range = ''SK'',
     ts_Attributes = [(''PK'', CHR ''S''), (''SK'', CHR ''S''), (''GSI1PK'', CHR ''S''), (''GSI1SK'', CHR ''S'')],
     ts_Indexes = [(''GSI1'', ''GSI1PK'', ''GSI1SK'')]\<rparr>"

text \<open>Active, with an active index of that name.\<close>

definition index_active :: "string \<Rightarrow> table_desc option \<Rightarrow> bool" where
  "index_active name d = (case d of None \<Rightarrow> False | Some d \<Rightarrow> td_Active d \<and> (Some name, True) \<in> set (td_Indexes d))"

definition da_ensure_table :: "'w dynamo \<Rightarrow> ddb_acts \<Rightarrow> duration \<Rightarrow> 'w \<Rightarrow> (ddb_err option \<times> 'w) option" where
  "da_ensure_table C S timeout w =
     (case dtry (dd_DescribeTable C (da_table S))
         (\<lambda>e. if e \<noteq> ResourceNotFound then dfail e else dd_CreateTable C (da_table S) acts_schema) (\<lambda>_. dret ()) w of
        (Inl e, w) \<Rightarrow> Some (Some e, w)
      | (Inr _, w) \<Rightarrow>
         (case wait_for C (index_active ''GSI1'') (da_table S) (300 * (second div 1000)) timeout w of
            None \<Rightarrow> None
          | Some (active, w) \<Rightarrow>
              if active then Some (None, w)
              else Some (Some (DdbErr (ErrBackend ''activation table not ready before timeout (GSI1 must be ACTIVE before ListOpen)'')), w)))"

text \<open>The clock is read for the TTL of rows that are no longer open.\<close>

definition da_base_item :: "act_codec \<Rightarrow> activation \<Rightarrow> item" where
  "da_base_item K a =
     [''PK'' \<mapsto> AttrS (''ACT#'' @ ac_ActivationID a), ''SK'' \<mapsto> AttrS ''META'',
      ''GSI1PK'' \<mapsto> AttrS ((if ac_State a \<noteq> StateOpen then ''CLOSED#'' else ''ORGOPEN#'') @ ac_OrgID a),
      ''GSI1SK'' \<mapsto> AttrS (ac_OpenedAt a), ''state'' \<mapsto> AttrS (state_text (ac_State a)), ''row'' \<mapsto> AttrS (av_Encode K a)]"

definition da_item :: "'w dynamo \<Rightarrow> act_codec \<Rightarrow> ddb_acts \<Rightarrow> activation \<Rightarrow> ('w, item) ddb" where
  "da_item C K S a =
     (if ac_State a \<noteq> StateOpen \<and> da_ttl S > 0
      then dbind (dnow C) (\<lambda>now. dret ((da_base_item K a)(''ttl'' \<mapsto> AttrN (itoa ((now + da_ttl S) div second)))))
      else dret (da_base_item K a))"

definition da_row_from_item :: "act_codec \<Rightarrow> item \<Rightarrow> goerr + activation option" where
  "da_row_from_item K it = (case it ''row'' of Some (AttrS v) \<Rightarrow> map_sum id Some (av_Decode K v) | _ \<Rightarrow> Inr None)"

definition da_put_open :: "'w dynamo \<Rightarrow> act_codec \<Rightarrow> ddb_acts \<Rightarrow> activation \<Rightarrow> ('w, unit) ddb" where
  "da_put_open C K S a =
     dbind (da_item C K S a) (\<lambda>it.
       dtry (dd_PutItem C (da_table S) it NotExists) (\<lambda>e. if e = ConditionalCheckFailed then dret () else dfail e) dret)"

definition da_get :: "'w dynamo \<Rightarrow> act_codec \<Rightarrow> ddb_acts \<Rightarrow> string \<Rightarrow> ('w, activation option) ddb" where
  "da_get C K S i =
     dbind (dd_GetItem C (da_table S) (act_key i)) (\<lambda>out. case out of
       None \<Rightarrow> dret None | Some it \<Rightarrow> dlift (da_row_from_item K it))"

definition da_transition ::
  "'w dynamo \<Rightarrow> act_codec \<Rightarrow> ddb_acts \<Rightarrow> string \<Rightarrow> act_state \<Rightarrow> act_state \<Rightarrow> (string \<Rightarrow> activation \<Rightarrow> activation) \<Rightarrow> ('w, activation option) ddb" where
  "da_transition C K S i from to_state mutate =
     dbind (da_get C K S i) (\<lambda>cur. case cur of
       None \<Rightarrow> dret None
     | Some a \<Rightarrow>
         if ac_State a \<noteq> from then dret None
         else dbind (dnow C) (\<lambda>now.
           let a' = mutate (av_ISO K now) (a\<lparr>ac_State := to_state\<rparr>) in
           dbind (da_item C K S a') (\<lambda>it.
             dtry (dd_PutItem C (da_table S) it (AttrEq ''state'' (AttrS (state_text from))))
               (\<lambda>e. if e = ConditionalCheckFailed then dret None else dfail e) (\<lambda>_. dret (Some a')))))"

definition da_mark_released :: "'w dynamo \<Rightarrow> act_codec \<Rightarrow> ddb_acts \<Rightarrow> string \<Rightarrow> ('w, activation option) ddb" where
  "da_mark_released C K S i = da_transition C K S i StateOpen StateReleased (\<lambda>t a. a\<lparr>ac_ReleasedAt := Some t\<rparr>)"

definition settled_at :: "string \<Rightarrow> string \<Rightarrow> activation \<Rightarrow> activation" where
  "settled_at cost t a = a\<lparr>ac_SettledAt := Some t, ac_Cost := Some cost\<rparr>"

definition da_mark_settled :: "'w dynamo \<Rightarrow> act_codec \<Rightarrow> ddb_acts \<Rightarrow> string \<Rightarrow> string \<Rightarrow> ('w, activation option) ddb" where
  "da_mark_settled C K S i cost =
     dbind (da_transition C K S i StateReleased StateSettled (settled_at cost)) (\<lambda>row. case row of
       Some a \<Rightarrow> dret (Some a)
     | None \<Rightarrow> da_transition C K S i StateOpen StateSettled (settled_at cost))"

fun rows_of_items :: "act_codec \<Rightarrow> item list \<Rightarrow> activation list \<Rightarrow> goerr + activation list" where
  "rows_of_items K [] res = Inr res"
| "rows_of_items K (it # its) res =
     (case da_row_from_item K it of
        Inl e \<Rightarrow> Inl e
      | Inr None \<Rightarrow> rows_of_items K its res
      | Inr (Some a) \<Rightarrow> rows_of_items K its (if ac_State a = StateOpen then res @ [a] else res))"

definition wrap32 :: "int \<Rightarrow> int" where
  "wrap32 n = (n + 2 ^ 31) mod 2 ^ 32 - 2 ^ 31"

definition da_list_open :: "'w dynamo \<Rightarrow> act_codec \<Rightarrow> ddb_acts \<Rightarrow> string \<Rightarrow> int \<Rightarrow> ('w, activation list) ddb" where
  "da_list_open C K S orgID limit =
     dbind (dd_Query C (da_table S) \<lparr>qr_Index = ''GSI1'', qr_Attr = ''GSI1PK'', qr_Value = ''ORGOPEN#'' @ orgID,
         qr_Limit = Some (wrap32 (if limit \<le> 0 then 100 else limit)), qr_Forward = True\<rparr>)
       (\<lambda>its. dlift (rows_of_items K its []))"

definition da_count_open :: "'w dynamo \<Rightarrow> act_codec \<Rightarrow> ddb_acts \<Rightarrow> string \<Rightarrow> ('w, nat) ddb" where
  "da_count_open C K S orgID = dbind (da_list_open C K S orgID 10000) (\<lambda>opens. dret (length opens))"

section \<open>Redis\<close>

record 'w act_redis =
  rk_SetNX :: "string \<Rightarrow> string \<Rightarrow> duration \<Rightarrow> ('w, bool) script"
  rk_Get :: "string \<Rightarrow> ('w, string option) script"
  rk_SAdd :: "string \<Rightarrow> string \<Rightarrow> ('w, unit) script"
  rk_SRem :: "string \<Rightarrow> string \<Rightarrow> ('w, unit) script"
  rk_SMembers :: "string \<Rightarrow> ('w, string list) script"
  rk_SCard :: "string \<Rightarrow> ('w, int) script"
  rk_Run :: "('w, reply) script \<Rightarrow> ('w, reply) script"
  rk_sGET :: "string \<Rightarrow> ('w, string option) script"
  rk_sSET :: "string \<Rightarrow> string \<Rightarrow> ('w, unit) script"
  rk_sEXPIRE :: "string \<Rightarrow> string \<Rightarrow> ('w, unit) script"
  rk_cjson_decode :: "string \<Rightarrow> (string \<times> json) list option"
  rk_cjson_encode :: "(string \<times> json) list \<Rightarrow> string"
  rk_tonumber :: "string \<Rightarrow> f64 option"
  rk_Now :: "'w \<Rightarrow> instant \<times> 'w"
  rk_Marshal :: "activation \<Rightarrow> goerr + string"
  rk_MarshalExtra :: "(string \<times> json) list \<Rightarrow> goerr + string"
  rk_Unmarshal :: "string \<Rightarrow> goerr + activation"
  rk_ISO :: "instant \<Rightarrow> string"

record redis_acts =
  ra_prefix :: string
  ra_ttl :: duration

definition new_redis_acts :: "string \<Rightarrow> duration \<Rightarrow> redis_acts" where
  "new_redis_acts prefix ttl = \<lparr>ra_prefix = (if prefix = [] then ''activation'' else prefix), ra_ttl = (if ttl \<le> 0 then default_released_ttl else ttl)\<rparr>"

definition ra_row_key :: "redis_acts \<Rightarrow> string \<Rightarrow> string" where
  "ra_row_key S i = ra_prefix S @ '':row:'' @ i"

definition ra_open_index_key :: "redis_acts \<Rightarrow> string \<Rightarrow> string" where
  "ra_open_index_key S org = ra_prefix S @ '':open:org:'' @ org"

definition lift_sum :: "goerr + 'a \<Rightarrow> ('w, 'a) script" where
  "lift_sum r w = (r, w)"

definition ra_put_open :: "'w act_redis \<Rightarrow> redis_acts \<Rightarrow> activation \<Rightarrow> ('w, unit) script" where
  "ra_put_open R S a =
     sbind (lift_sum (rk_Marshal R a)) (\<lambda>blob.
     sbind (rk_SetNX R (ra_row_key S (ac_ActivationID a)) blob 0) (\<lambda>ok.
       if ok then rk_SAdd R (ra_open_index_key S (ac_OrgID a)) (ac_ActivationID a) else sret ()))"

definition ra_get :: "'w act_redis \<Rightarrow> redis_acts \<Rightarrow> string \<Rightarrow> ('w, activation option) script" where
  "ra_get R S i =
     sbind (rk_Get R (ra_row_key S i)) (\<lambda>raw. case raw of
       None \<Rightarrow> sret None | Some raw \<Rightarrow> sbind (lift_sum (rk_Unmarshal R raw)) (\<lambda>a. sret (Some a)))"

text \<open>\<open>row[k] = v\<close> on a decoded object.\<close>

definition set_field :: "string \<Rightarrow> json \<Rightarrow> (string \<times> json) list \<Rightarrow> (string \<times> json) list" where
  "set_field k v row = AList.update k v row"

text \<open>The transition script on its key and its four arguments; Lua fails on text that is not an object
  or a number.\<close>

definition transition_script :: "'w act_redis \<Rightarrow> string \<Rightarrow> string \<Rightarrow> string \<Rightarrow> string \<Rightarrow> string \<Rightarrow> ('w, reply) script" where
  "transition_script R key from to_state ttl extra =
     sbind (rk_sGET R key) (\<lambda>raw. case raw of
       None \<Rightarrow> sret (RStr [])
     | Some raw \<Rightarrow>
        (case rk_cjson_decode R raw of
           None \<Rightarrow> sfail ''cjson.decode''
         | Some row \<Rightarrow>
             if map_of row ''state'' \<noteq> Some (JStr from) then sret (RStr [])
             else (case rk_cjson_decode R extra of
                 None \<Rightarrow> sfail ''cjson.decode''
               | Some ex \<Rightarrow>
                   let row = fold (\<lambda>(k, v). set_field k v) ex (set_field ''state'' (JStr to_state) row);
                       out = rk_cjson_encode R row in
                   sbind (rk_sSET R key out) (\<lambda>_.
                     case rk_tonumber R ttl of
                       None \<Rightarrow> sfail ''attempt to compare nil with number''
                     | Some n \<Rightarrow> if flt (Fin 0) n then sbind (rk_sEXPIRE R key ttl) (\<lambda>_. sret (RStr out)) else sret (RStr out)))))"

definition ra_transition :: "'w act_redis \<Rightarrow> redis_acts \<Rightarrow> string \<Rightarrow> act_state \<Rightarrow> act_state \<Rightarrow> (string \<times> json) list \<Rightarrow> ('w, activation option) script" where
  "ra_transition R S i from to_state extra =
     sbind (lift_sum (rk_MarshalExtra R extra)) (\<lambda>extraJSON.
     sbind (rk_Run R (transition_script R (ra_row_key S i) (state_text from) (state_text to_state) (itoa (ra_ttl S div second)) extraJSON)) (\<lambda>out.
       case out of
         RStr str \<Rightarrow>
           if str = [] then sret None
           else sbind (lift_sum (rk_Unmarshal R str)) (\<lambda>a.
             (\<lambda>w. (Inr (Some a), snd (rk_SRem R (ra_open_index_key S (ac_OrgID a)) i w))))
       | _ \<Rightarrow> sret None))"

definition ra_now_iso :: "'w act_redis \<Rightarrow> ('w, string) script" where
  "ra_now_iso R w = (case rk_Now R w of (t, w) \<Rightarrow> (Inr (rk_ISO R t), w))"

definition ra_mark_released :: "'w act_redis \<Rightarrow> redis_acts \<Rightarrow> string \<Rightarrow> ('w, activation option) script" where
  "ra_mark_released R S i =
     sbind (ra_now_iso R) (\<lambda>t. ra_transition R S i StateOpen StateReleased [(''released_at'', JStr t)])"

definition ra_settle_from :: "'w act_redis \<Rightarrow> redis_acts \<Rightarrow> string \<Rightarrow> string \<Rightarrow> act_state \<Rightarrow> ('w, activation option) script" where
  "ra_settle_from R S i cost from =
     sbind (ra_now_iso R) (\<lambda>t. ra_transition R S i from StateSettled [(''settled_at'', JStr t), (''cost'', JStr cost)])"

definition ra_mark_settled :: "'w act_redis \<Rightarrow> redis_acts \<Rightarrow> string \<Rightarrow> string \<Rightarrow> ('w, activation option) script" where
  "ra_mark_settled R S i cost =
     sbind (ra_settle_from R S i cost StateReleased) (\<lambda>row. case row of
       Some a \<Rightarrow> sret (Some a) | None \<Rightarrow> ra_settle_from R S i cost StateOpen)"

fun ra_collect :: "'w act_redis \<Rightarrow> redis_acts \<Rightarrow> int \<Rightarrow> string list \<Rightarrow> activation list \<Rightarrow> ('w, activation list) script" where
  "ra_collect R S limit [] out = sret out"
| "ra_collect R S limit (i # is) out =
     sbind (ra_get R S i) (\<lambda>a.
       let out = (case a of Some x \<Rightarrow> if ac_State x = StateOpen then out @ [x] else out | None \<Rightarrow> out) in
       if limit > 0 \<and> int (length out) \<ge> limit then sret out else ra_collect R S limit is out)"

definition ra_list_open :: "'w act_redis \<Rightarrow> redis_acts \<Rightarrow> string \<Rightarrow> int \<Rightarrow> ('w, activation list) script" where
  "ra_list_open R S orgID limit =
     sbind (rk_SMembers R (ra_open_index_key S orgID)) (\<lambda>ids.
     sbind (ra_collect R S limit ids []) (\<lambda>out. sret (sort_key ac_OpenedAt out)))"

definition ra_count_open :: "'w act_redis \<Rightarrow> redis_acts \<Rightarrow> string \<Rightarrow> ('w, int) script" where
  "ra_count_open R S orgID = rk_SCard R (ra_open_index_key S orgID)"

section \<open>Transitions on a shared table\<close>

definition act_row :: "act_codec \<Rightarrow> ((string \<times> string) \<rightharpoonup> item) \<Rightarrow> string \<Rightarrow> goerr + activation option" where
  "act_row K m i = (case m (act_key i) of None \<Rightarrow> Inr None | Some it \<Rightarrow> da_row_from_item K it)"

text \<open>The item stores this activation: the row and the attribute the conditions look at agree.\<close>

definition stores :: "act_codec \<Rightarrow> string \<Rightarrow> activation \<Rightarrow> item \<Rightarrow> bool" where
  "stores K i a it \<longleftrightarrow> ac_ActivationID a = i \<and> it ''row'' = Some (AttrS (av_Encode K a)) \<and> it ''state'' = Some (AttrS (state_text (ac_State a)))"

text \<open>
  What the stores of the replicas keep up together: an item under the key of an id stores an
  activation of that id, and an open row is never rewritten while it is open.
\<close>

definition acts_kept ::
  "act_codec \<Rightarrow> (((string \<times> string) \<rightharpoonup> item) \<Rightarrow> ((string \<times> string) \<rightharpoonup> item) \<Rightarrow> bool) \<Rightarrow> ((string \<times> string) \<rightharpoonup> item) \<Rightarrow> string \<Rightarrow> bool" where
  "acts_kept K G m0 i \<longleftrightarrow>
     (\<forall>m it. G m0 m \<longrightarrow> m (act_key i) = Some it \<longrightarrow> (\<exists>a. stores K i a it))
     \<and> (\<forall>m m' it it'. G m m' \<longrightarrow> m (act_key i) = Some it \<longrightarrow> m' (act_key i) = Some it' \<longrightarrow> it' ''state'' = Some (AttrS ''open'') \<longrightarrow> it' = it)"

lemma stores_row:
  assumes "\<forall>a. av_Decode K (av_Encode K a) = Inr a" and "stores K i a it"
  shows "da_row_from_item K it = Inr (Some a)"
  using assms by (simp add: da_row_from_item_def stores_def)

lemma da_item_stores:
  assumes "da_item C K S a w = (Inr it, w')"
  shows "stores K (ac_ActivationID a) a it \<and> item_key it = Some (act_key (ac_ActivationID a))
    \<and> (w' = w \<or> (\<exists>t. dd_Now C w = (t, w')))"
  using assms by (auto simp: da_item_def da_base_item_def stores_def item_key_def act_key_def ddb_inv split: if_split_asm)

lemma state_text_inj [simp]: "state_text s = state_text t \<longleftrightarrow> s = t"
  by (cases s; cases t) simp_all

lemma closed_at_put:
  assumes "\<forall>a. av_Decode K (av_Encode K a) = Inr a" and "acts_kept K G m0 i" and "G m0 m"
    and "\<not> cond_holds (AttrEq ''state'' (AttrS ''open'')) (m (act_key i))" and "act_row K m i = Inr (Some x)"
  shows "ac_State x \<noteq> StateOpen"
proof (cases "m (act_key i)")
  case (Some it)
  with assms(2,3) obtain y where y: "stores K i y it" unfolding acts_kept_def by blast
  with stores_row [OF assms(1) y] assms(5) Some have "y = x" by (simp add: act_row_def)
  with y Some assms(4) show ?thesis by (auto simp: stores_def)
qed (use assms(5) in \<open>simp add: act_row_def\<close>)

lemma same_open_item:
  assumes "acts_kept K G m0 i" and "G m1 m" and "m1 (act_key i) = Some it" and "cond_holds (AttrEq ''state'' (AttrS ''open'')) (m (act_key i))"
  shows "m (act_key i) = Some it"
  using assms unfolding acts_kept_def by auto

text \<open>The two ways a release goes: the row that was read is not open, or a conditional put follows.\<close>

lemma mark_released_inv:
  assumes "da_mark_released C K S i w = (Inr r, w')"
  obtains (closed) v where "dd_GetItem C (da_table S) (act_key i) w = (Inr v, w')" "r = None"
      "\<And>it a. v = Some it \<Longrightarrow> da_row_from_item K it = Inr (Some a) \<Longrightarrow> ac_State a \<noteq> StateOpen"
  | (opened) it a t w1 w2 w3 it2 a' where "dd_GetItem C (da_table S) (act_key i) w = (Inr (Some it), w1)" "da_row_from_item K it = Inr (Some a)"
      "ac_State a = StateOpen" "dd_Now C w1 = (t, w2)" "a' = a\<lparr>ac_State := StateReleased, ac_ReleasedAt := Some (av_ISO K t)\<rparr>"
      "da_item C K S a' w2 = (Inr it2, w3)"
      "dd_PutItem C (da_table S) it2 (AttrEq ''state'' (AttrS ''open'')) w3 = (Inl ConditionalCheckFailed, w') \<and> r = None
       \<or> dd_PutItem C (da_table S) it2 (AttrEq ''state'' (AttrS ''open'')) w3 = (Inr (), w') \<and> r = Some a'"
proof -
  from assms obtain v w1 where g: "dd_GetItem C (da_table S) (act_key i) w = (Inr v, w1)"
    and c: "dbind (case v of None \<Rightarrow> dret None | Some it \<Rightarrow> dlift (da_row_from_item K it)) (\<lambda>cur. case cur of
       None \<Rightarrow> dret None
     | Some a \<Rightarrow>
         if ac_State a \<noteq> StateOpen then dret None
         else dbind (dnow C) (\<lambda>now.
           let a' = (a\<lparr>ac_State := StateReleased\<rparr>)\<lparr>ac_ReleasedAt := Some (av_ISO K now)\<rparr> in
           dbind (da_item C K S a') (\<lambda>it.
             dtry (dd_PutItem C (da_table S) it (AttrEq ''state'' (AttrS (state_text StateOpen))))
               (\<lambda>e. if e = ConditionalCheckFailed then dret None else dfail e) (\<lambda>_. dret (Some a'))))) w1 = (Inr r, w')"
    unfolding da_mark_released_def da_transition_def da_get_def dbind_Inr by blast
  show ?thesis
  proof (cases "\<exists>it a. v = Some it \<and> da_row_from_item K it = Inr (Some a) \<and> ac_State a = StateOpen")
    case True
    then obtain it a where "v = Some it" "da_row_from_item K it = Inr (Some a)" "ac_State a = StateOpen" by blast
    with g c show ?thesis by (auto simp: ddb_inv Let_def dfail_def split: if_split_asm intro: opened)
  next
    case False
    with c have "r = None" "w' = w1" by (auto simp: ddb_inv split: option.split_asm if_split_asm)
    with g False show ?thesis by (intro closed) auto
  qed
qed

text \<open>The release took the row from open to released in one step, which nobody else did.\<close>

definition released_here ::
  "act_codec \<Rightarrow> (((string \<times> string) \<rightharpoonup> item) \<Rightarrow> ((string \<times> string) \<rightharpoonup> item) \<Rightarrow> bool) \<Rightarrow> string \<Rightarrow> activation \<Rightarrow> instant \<Rightarrow> instant
   \<Rightarrow> ((string \<times> string) \<rightharpoonup> item) \<Rightarrow> ((string \<times> string) \<rightharpoonup> item) \<Rightarrow> bool" where
  "released_here K G i a' lo hi m0 m3 \<longleftrightarrow>
     (\<exists>m a t it. G m0 m \<and> act_row K m i = Inr (Some a) \<and> ac_State a = StateOpen \<and> lo \<le> t \<and> t \<le> hi
        \<and> a' = a\<lparr>ac_State := StateReleased, ac_ReleasedAt := Some (av_ISO K t)\<rparr> \<and> stores K i a' it \<and> G (m(act_key i \<mapsto> it)) m3)"

text \<open>There was a moment at which the row was not open.\<close>

definition seen_closed ::
  "act_codec \<Rightarrow> (((string \<times> string) \<rightharpoonup> item) \<Rightarrow> ((string \<times> string) \<rightharpoonup> item) \<Rightarrow> bool) \<Rightarrow> string
   \<Rightarrow> ((string \<times> string) \<rightharpoonup> item) \<Rightarrow> ((string \<times> string) \<rightharpoonup> item) \<Rightarrow> bool" where
  "seen_closed K G i m0 m3 \<longleftrightarrow> (\<exists>m. G m0 m \<and> G m m3 \<and> (\<forall>a. act_row K m i = Inr (Some a) \<longrightarrow> ac_State a \<noteq> StateOpen))"

text \<open>
  C29. A release on DynamoDB has one winner. Whatever the other replicas do at any call of it, as long as they
  keep the rows as this store does, a \<open>MarkReleased\<close> that returns a row took it from open to released
  in one step between its call and its return, so the caller that decrements the gauges is the only
  one; and one that returns no row found, at some moment, the row absent or already closed, so a
  release is never skipped on both sides.
\<close>

theorem ddb_release_has_one_winner:
  assumes "shared_table C (da_table S) items clock G" and "\<forall>a. av_Decode K (av_Encode K a) = Inr a"
    and "acts_kept K G (items w) i" and "da_mark_released C K S i w = (Inr r, w')"
  shows "case r of
      Some a' \<Rightarrow> released_here K G i a' (clock w) (clock w') (items w) (items w')
    | None \<Rightarrow> seen_closed K G i (items w) (items w')"
proof -
  note trans = shared_table.others_trans [OF assms(1)] and refl = shared_table.others_refl [OF assms(1)]
    and now = shared_table.now_law [OF assms(1)]
  let ?k = "act_key i"
  from assms(4) show ?thesis
  proof (cases rule: mark_released_inv)
    case (closed v)
    from shared_table.get_law [OF assms(1) closed(1)] obtain m where m: "G (items w) m" "m ?k = v" "G m (items w')" by blast
    have "ac_State a \<noteq> StateOpen" if "act_row K m i = Inr (Some a)" for a
      using that m(2) closed(3) by (cases v) (auto simp: act_row_def)
    with m closed(2) show ?thesis unfolding seen_closed_def by auto
  next
    case (opened it a t w1 w2 w3 it2 a')
    from shared_table.get_law [OF assms(1) opened(1)] obtain m1 where m1: "G (items w) m1" "m1 ?k = Some it" "G m1 (items w1)" and c1: "clock w \<le> clock w1" by blast
    with assms(3) obtain x where x: "stores K i x it" unfolding acts_kept_def by blast
    with stores_row [OF assms(2) x] opened(2,5) have i: "ac_ActivationID a' = i" by (auto simp: stores_def)
    from da_item_stores [OF opened(6)] i have s2: "stores K i a' it2" "item_key it2 = Some ?k" and s3: "w3 = w2 \<or> (\<exists>t. dd_Now C w2 = (t, w3))" by auto
    have w3: "G (items w1) (items w3)" "t \<le> clock w3" using now [OF opened(4)] s3 now trans refl by (blast, meson order_trans order_refl now)
    then have G3: "G m1 (items w3)" using m1 trans by blast
    from opened(7) show ?thesis
    proof (elim disjE conjE)
      assume u: "dd_PutItem C (da_table S) it2 (AttrEq ''state'' (AttrS ''open'')) w3 = (Inl ConditionalCheckFailed, w')" and r: "r = None"
      from shared_table.put_lost [OF assms(1) u s2(2)] obtain m where m: "G (items w3) m" "\<not> cond_holds (AttrEq ''state'' (AttrS ''open'')) (m ?k)" "G m (items w')" by blast
      have Gm: "G (items w) m" using m1 G3 m trans by meson
      with r m closed_at_put [OF assms(2,3) Gm m(2)] show ?thesis unfolding seen_closed_def by auto
    next
      assume u: "dd_PutItem C (da_table S) it2 (AttrEq ''state'' (AttrS ''open'')) w3 = (Inr (), w')" and r: "r = Some a'"
      from shared_table.put_law [OF assms(1) u s2(2)] obtain m where m: "G (items w3) m" "cond_holds (AttrEq ''state'' (AttrS ''open'')) (m ?k)"
        "G (m(?k \<mapsto> it2)) (items w')" and c3: "clock w3 \<le> clock w'" by blast
      have Gm: "G m1 m" using G3 m trans by blast
      from same_open_item [OF assms(3) Gm m1(2) m(2)] opened(2) have "act_row K m i = Inr (Some a)" by (simp add: act_row_def)
      with opened(3,5) s2 m(3) now [OF opened(4)] c1 w3 c3 trans [OF m1(1) Gm] have "released_here K G i a' (clock w) (clock w') (items w) (items w')"
        unfolding released_here_def by (intro exI [of _ m] exI [of _ a] exI [of _ t] exI [of _ it2]) auto
      with r show ?thesis by simp
    qed
  qed
qed

section \<open>A release that comes in between\<close>

text \<open>The table after another replica, at the instant \<open>t\<close>, ran \<open>MarkReleased\<close> on it.\<close>

definition released_meanwhile :: "act_codec \<Rightarrow> ddb_acts \<Rightarrow> string \<Rightarrow> instant \<Rightarrow> ((string \<times> string) \<rightharpoonup> item) \<Rightarrow> ((string \<times> string) \<rightharpoonup> item)" where
  "released_meanwhile K S i t m = dt_items (snd (da_mark_released (contended_table (\<lambda>_ m. m)) K S i \<lparr>dt_items = m, dt_clock = t, dt_plan = []\<rparr>))"

definition releaser :: "act_codec \<Rightarrow> ddb_acts \<Rightarrow> string \<Rightarrow> instant \<Rightarrow> nat \<Rightarrow> ((string \<times> string) \<rightharpoonup> item) \<Rightarrow> ((string \<times> string) \<rightharpoonup> item)" where
  "releaser K S i t n m = (if n = 1 then released_meanwhile K S i t m else m)"

lemma da_item_idle:
  assumes "dt_plan s = []"
  shows "\<exists>it n. da_item (contended_table acts) K S a s = (Inr it, s\<lparr>dt_clock := n\<rparr>)"
proof (cases "ac_State a \<noteq> StateOpen \<and> da_ttl S > 0")
  case True
  with assms show ?thesis by (auto simp: da_item_def dbind_def dnow_def dret_def table_simps disturb_idle)
next
  case False
  then have "da_item (contended_table acts) K S a s = (Inr (da_base_item K a), s\<lparr>dt_clock := dt_clock s\<rparr>)" by (auto simp: da_item_def dret_def)
  then show ?thesis by blast
qed

lemma released_meanwhile_closes:
  assumes "\<forall>a. av_Decode K (av_Encode K a) = Inr a" and "m (act_key i) = Some it" and "stores K i a it" and "ac_State a = StateOpen"
  obtains it' t' where "released_meanwhile K S i t m = m(act_key i \<mapsto> it')"
    "stores K i (a\<lparr>ac_State := StateReleased, ac_ReleasedAt := Some t'\<rparr>) it'"
proof -
  define a' where "a' = a\<lparr>ac_State := StateReleased, ac_ReleasedAt := Some (av_ISO K (2 + t))\<rparr>"
  let ?C = "contended_table (\<lambda>_ m. m)"
  let ?s = "\<lambda>n. \<lparr>dt_items = m, dt_clock = n, dt_plan = []\<rparr>"
  obtain it' n where it': "da_item ?C K S a' (?s (2 + t)) = (Inr it', ?s n)"
    using da_item_idle [of "?s (2 + t)" "\<lambda>_ m. m" K S a'] by auto
  have s: "stores K i a' it'" "item_key it' = Some (act_key i)" using da_item_stores [OF it'] assms(3) by (auto simp: a'_def stores_def)
  have "it ''state'' = Some (AttrS ''open'')" using assms(3,4) by (simp add: stores_def)
  then have "da_mark_released ?C K S i (?s t) = (Inr (Some a'), \<lparr>dt_items = m(act_key i \<mapsto> it'), dt_clock = n + 1, dt_plan = []\<rparr>)"
    using stores_row [OF assms(1,3)] assms(2,4) s(2) it'
    by (simp add: da_mark_released_def da_transition_def da_get_def dbind_def dlift_def dret_def dnow_def dtry_def table_simps disturb_idle Let_def a'_def)
  then show ?thesis using that [of it' "av_ISO K (2 + t)"] s(1) by (simp add: released_meanwhile_def a'_def)
qed

text \<open>
  A settlement can get lost to a release. \<open>MarkSettled\<close> first tries to settle a released row and then an
  open one. When another replica releases the activation between the two tries, the row is neither when
  it is looked at: the call returns no row and no error, which its callers take for "already
  settled", while the row stays released and without a cost. The Redis store has the same two tries.
\<close>

theorem settlement_lost_to_release:
  assumes "\<forall>a. av_Decode K (av_Encode K a) = Inr a" and "dt_items s (act_key i) = Some it" and "stores K i a it"
    and "ac_State a = StateOpen" and "dt_plan s = [0, 1]"
  shows "\<exists>s' x. da_mark_settled (contended_table (releaser K S i t)) K S i cost s = (Inr None, s')
    \<and> act_row K (dt_items s') i = Inr (Some x) \<and> ac_State x = StateReleased \<and> ac_Cost x = ac_Cost a"
proof -
  let ?C = "contended_table (releaser K S i t)"
  obtain it' t' where m: "released_meanwhile K S i t (dt_items s) = (dt_items s)(act_key i \<mapsto> it')"
    and it': "stores K i (a\<lparr>ac_State := StateReleased, ac_ReleasedAt := Some t'\<rparr>) it'"
    by (rule released_meanwhile_closes [of K "dt_items s" i it a S t]) (use assms in auto)
  note row = stores_row [OF assms(1,3)] stores_row [OF assms(1) it']
  let ?s1 = "s\<lparr>dt_clock := dt_clock s + 1, dt_plan := [1]\<rparr>"
  let ?s2 = "s\<lparr>dt_items := (dt_items s)(act_key i \<mapsto> it'), dt_clock := 2 + dt_clock s, dt_plan := []\<rparr>"
  have first: "da_transition ?C K S i StateReleased StateSettled (settled_at cost) s = (Inr None, ?s1)"
    using assms(2,4,5) row(1) by (simp add: da_transition_def da_get_def dbind_def dlift_def dret_def table_simps disturb_next releaser_def)
  have second: "da_transition ?C K S i StateOpen StateSettled (settled_at cost) ?s1 = (Inr None, ?s2)"
    using row(2) m by (simp add: da_transition_def da_get_def dbind_def dlift_def dret_def table_simps disturb_next releaser_def)
  have "da_mark_settled ?C K S i cost s = (Inr None, ?s2)"
    unfolding da_mark_settled_def dbind_def first prod.case sum.case option.case by (rule second)
  moreover have "act_row K (dt_items ?s2) i = Inr (Some (a\<lparr>ac_State := StateReleased, ac_ReleasedAt := Some t'\<rparr>))"
    using row(2) by (simp add: act_row_def)
  ultimately show ?thesis by (intro exI [of _ ?s2] exI [of _ "a\<lparr>ac_State := StateReleased, ac_ReleasedAt := Some t'\<rparr>"]) simp
qed

section \<open>Examples\<close>

instance act_state :: countable
  by countable_datatype

instance activation_ext :: (countable) countable
proof
  show "\<exists>f :: 'a activation_ext \<Rightarrow> nat. inj f"
    by (intro exI [of _ "\<lambda>a. to_nat ((ac_ActivationID a, ac_OrgID a, ac_UserID a, ac_ResourceKey a, ac_Cost a), (ac_OpenedAt a, ac_State a, ac_Spend a),
        ac_ReleasedAt a, ac_SettledAt a, activation.more a)"] injI) (simp add: activation.equality)
qed

definition number_codec :: act_codec where
  "number_codec = \<lparr>av_Encode = (\<lambda>a. nat_text (to_nat a)), av_Decode = (\<lambda>s. Inr (from_nat (digits_value s))), av_ISO = itoa\<rparr>"

lemma number_codec_ok: "\<forall>a. av_Decode number_codec (av_Encode number_codec a) = Inr a"
  by (simp add: number_codec_def nat_text_value)

definition an_activation :: activation where
  "an_activation = \<lparr>ac_ActivationID = ''a1'', ac_OrgID = ''o'', ac_UserID = None, ac_ResourceKey = ''r.x'', ac_Cost = None, ac_OpenedAt = ''t0'',
     ac_State = StateOpen, ac_Spend = [], ac_ReleasedAt = None, ac_SettledAt = None\<rparr>"

definition one_act :: "nat list \<Rightarrow> dtable" where
  "one_act plan = \<lparr>dt_items = [act_key ''a1'' \<mapsto> da_base_item number_codec an_activation], dt_clock = 0, dt_plan = plan\<rparr>"

lemma one_act_stores: "stores number_codec ''a1'' an_activation (da_base_item number_codec an_activation)"
  by (simp add: stores_def da_base_item_def an_activation_def)

theorem settlement_lost_to_release_witness:
  "\<exists>s'. da_mark_settled (contended_table (releaser number_codec (new_ddb_acts [] 0) ''a1'' 0)) number_codec (new_ddb_acts [] 0) ''a1'' ''5.00'' (one_act [0, 1])
     = (Inr None, s')"
proof -
  have k: "dt_items (one_act [0, 1]) (act_key ''a1'') = Some (da_base_item number_codec an_activation)" "dt_plan (one_act [0, 1]) = [0, 1]"
    "ac_State an_activation = StateOpen" by (simp_all add: one_act_def an_activation_def)
  from settlement_lost_to_release [OF number_codec_ok k(1) one_act_stores k(3,2)] show ?thesis by blast
qed

theorem ddb_release_has_one_winner_witness:
  "\<exists>a' s'. da_mark_released (contended_table (\<lambda>_ m. m)) number_codec (new_ddb_acts [] 0) ''a1'' (one_act []) = (Inr (Some a'), s')
     \<and> released_here number_codec (others_do (\<lambda>_ m. m)) ''a1'' a' 0 (dt_clock s') (dt_items (one_act [])) (dt_items s')"
proof -
  let ?C = "contended_table (\<lambda>_ m. m)" and ?S = "new_ddb_acts [] 0"
  have quiet: "others_do (\<lambda>_ m. m) m m' \<Longrightarrow> m' = m" for m m'
    unfolding others_do_def by (induction rule: rtranclp_induct) auto
  have kept: "acts_kept number_codec (others_do (\<lambda>_ m. m)) (dt_items (one_act [])) ''a1''"
    unfolding acts_kept_def using quiet one_act_stores by (fastforce simp: one_act_def)
  note row = stores_row [OF number_codec_ok one_act_stores]
  have "\<exists>a' s'. da_mark_released ?C number_codec ?S ''a1'' (one_act []) = (Inr (Some a'), s')"
  proof -
    let ?a = "an_activation\<lparr>ac_State := StateReleased, ac_ReleasedAt := Some (itoa 2)\<rparr>"
    obtain it n where it: "da_item ?C number_codec ?S ?a ((one_act [])\<lparr>dt_clock := 2\<rparr>) = (Inr it, (one_act [])\<lparr>dt_clock := n\<rparr>)"
      using da_item_idle [of "(one_act [])\<lparr>dt_clock := 2\<rparr>" "\<lambda>_ m. m" number_codec ?S ?a] by (auto simp: one_act_def)
    have "item_key it = Some (act_key ''a1'')" using da_item_stores [OF it] by (simp add: an_activation_def)
    with row it show ?thesis
      by (simp add: da_mark_released_def da_transition_def da_get_def dbind_def dlift_def dret_def dnow_def dtry_def table_simps disturb_idle Let_def
          one_act_def an_activation_def number_codec_def da_base_item_def)
  qed
  then obtain a' s' where r: "da_mark_released ?C number_codec ?S ''a1'' (one_act []) = (Inr (Some a'), s')" by blast
  from ddb_release_has_one_winner [OF contended_table_shared number_codec_ok kept r] r show ?thesis by (auto simp: one_act_def)
qed

end
