(* ===== verification/OutboxStores.thy ===== *)
theory OutboxStores
  imports Outbox Dynamo RedisStore
begin

text \<open>
  The SNS publisher (\<open>outbox/sns.go\<close>) and the durable outbox stores: DynamoDB (\<open>outbox/ddb.go\<close>) and Redis (the second half of
  \<open>outbox/store.go\<close>). A void reason is stored as its text; read back it is that text. Text of floats,
  JSON and the clients are parameters.
\<close>

section \<open>Attributes\<close>

record outbox_codec =
  oc_FormatFloat :: "f64 \<Rightarrow> string"
  oc_ParseFloat :: "string \<Rightarrow> f64"
  oc_ReasonText :: "void_reason \<Rightarrow> string"

fun status_name :: "status option \<Rightarrow> string" where
  "status_name None = []"
| "status_name (Some StatusPending) = ''pending''"
| "status_name (Some StatusDelivered) = ''delivered''"
| "status_name (Some StatusVoided) = ''voided''"

text \<open>A status text that the library does not write is kept apart by \<open>None\<close>.\<close>

definition status_named :: "string \<Rightarrow> status option" where
  "status_named s = (if s = ''pending'' then Some StatusPending else if s = ''delivered'' then Some StatusDelivered
     else if s = ''voided'' then Some StatusVoided else None)"

lemma status_named [simp]: "status_named (status_name st) = st"
  by (cases st rule: status_name.cases) (simp_all add: status_named_def)

definition outbox_key :: "string \<Rightarrow> string \<times> string" where
  "outbox_key k = (''OUTBOX#'' @ k, ''META'')"

definition do_item :: "outbox_codec \<Rightarrow> orec \<Rightarrow> item" where
  "do_item K r =
     (let m = [''PK'' \<mapsto> AttrS (''OUTBOX#'' @ ob_Key r), ''SK'' \<mapsto> AttrS ''META'', ''okey'' \<mapsto> AttrS (ob_Key r),
               ''event'' \<mapsto> AttrS (ob_Event r), ''event_type'' \<mapsto> AttrS (ob_EventType r), ''resource_type'' \<mapsto> AttrS (ob_ResourceType r),
               ''reservationid'' \<mapsto> AttrS (ob_ReservationID r), ''status'' \<mapsto> AttrS (status_name (ob_Status r)),
               ''first_ts'' \<mapsto> AttrN (oc_FormatFloat K (ob_FirstTS r)), ''attempts'' \<mapsto> AttrN (itoa (ob_Attempts r)),
               ''gsi_status_pk'' \<mapsto> AttrS (''OUTBOXSTATUS#'' @ status_name (ob_Status r)),
               ''gsi_status_sk'' \<mapsto> AttrN (oc_FormatFloat K (ob_FirstTS r))]
      in if oc_ReasonText K (ob_Reason r) \<noteq> [] then m(''reason'' \<mapsto> AttrS (oc_ReasonText K (ob_Reason r))) else m)"

definition do_str :: "item \<Rightarrow> string \<Rightarrow> string" where
  "do_str it k = (case it k of Some (AttrS v) \<Rightarrow> v | _ \<Rightarrow> [])"

definition do_num :: "outbox_codec \<Rightarrow> item \<Rightarrow> string \<Rightarrow> f64" where
  "do_num K it k = (case it k of Some (AttrN v) \<Rightarrow> oc_ParseFloat K v | _ \<Rightarrow> Fin 0)"

definition do_rec :: "outbox_codec \<Rightarrow> item \<Rightarrow> orec" where
  "do_rec K it =
     \<lparr>ob_Key = do_str it ''okey'', ob_Event = do_str it ''event'', ob_EventType = do_str it ''event_type'',
      ob_ResourceType = do_str it ''resource_type'', ob_ReservationID = do_str it ''reservationid'', ob_Status = status_named (do_str it ''status''),
      ob_FirstTS = do_num K it ''first_ts'', ob_Attempts = to_go_int (do_num K it ''attempts''),
      ob_Reason = (if do_str it ''reason'' = [] then NoReason else Reason (do_str it ''reason''))\<rparr>"

section \<open>The DynamoDB store\<close>

definition new_ddb_outbox :: "string \<Rightarrow> string" where
  "new_ddb_outbox tbl = (if tbl = [] then ''ab0t_quota_outbox'' else tbl)"

definition do_get :: "'w dynamo \<Rightarrow> outbox_codec \<Rightarrow> string \<Rightarrow> string \<Rightarrow> ('w, orec option) ddb" where
  "do_get C K tbl key = dbind (dd_GetItem C tbl (outbox_key key)) (\<lambda>out. dret (map_option (do_rec K) out))"

definition do_put_intent :: "'w dynamo \<Rightarrow> outbox_codec \<Rightarrow> string \<Rightarrow> orec \<Rightarrow> ('w, orec) ddb" where
  "do_put_intent C K tbl r =
     (let r = (if ob_Status r = None then r\<lparr>ob_Status := Some StatusPending\<rparr> else r) in
      dtry (dd_PutItem C tbl (do_item K r) NotExists)
        (\<lambda>e. if e = ConditionalCheckFailed
             then dbind (do_get C K tbl (ob_Key r)) (\<lambda>ex. dret (case ex of Some x \<Rightarrow> x | None \<Rightarrow> r))
             else dfail e)
        (\<lambda>_. dret r))"

definition do_mark_delivered :: "'w dynamo \<Rightarrow> string \<Rightarrow> string \<Rightarrow> ('w, unit) ddb" where
  "do_mark_delivered C tbl key = dd_DeleteItem C tbl (outbox_key key)"

definition do_rewrite :: "'w dynamo \<Rightarrow> outbox_codec \<Rightarrow> string \<Rightarrow> string \<Rightarrow> (orec \<Rightarrow> orec) \<Rightarrow> ('w, unit) ddb" where
  "do_rewrite C K tbl key f =
     dbind (do_get C K tbl key) (\<lambda>r. case r of None \<Rightarrow> dret () | Some r \<Rightarrow> dd_PutItem C tbl (do_item K (f r)) Unconditional)"

definition do_mark_voided :: "'w dynamo \<Rightarrow> outbox_codec \<Rightarrow> string \<Rightarrow> string \<Rightarrow> void_reason \<Rightarrow> ('w, unit) ddb" where
  "do_mark_voided C K tbl key reason = do_rewrite C K tbl key (voided reason)"

definition do_bump_attempt :: "'w dynamo \<Rightarrow> outbox_codec \<Rightarrow> string \<Rightarrow> string \<Rightarrow> ('w, unit) ddb" where
  "do_bump_attempt C K tbl key = do_rewrite C K tbl key (\<lambda>r. r\<lparr>ob_Attempts := ob_Attempts r + 1\<rparr>)"

definition page_limit :: "int \<Rightarrow> int" where
  "page_limit limit = (let n = (if limit \<le> 0 then 100 else limit) in (n + 2 ^ 31) mod 2 ^ 32 - 2 ^ 31)"

definition do_list_pending :: "'w dynamo \<Rightarrow> outbox_codec \<Rightarrow> string \<Rightarrow> int \<Rightarrow> ('w, orec list) ddb" where
  "do_list_pending C K tbl limit =
     dbind (dd_Query C tbl \<lparr>qr_Index = ''gsi_status'', qr_Attr = ''gsi_status_pk'', qr_Value = ''OUTBOXSTATUS#pending'',
         qr_Limit = Some (page_limit limit), qr_Forward = True\<rparr>) (\<lambda>its. dret (map (do_rec K) its))"

definition outbox_schema :: table_schema where
  "outbox_schema = \<lparr>ts_Hash = ''PK'', ts_Range = ''SK'',
     ts_Attributes = [(''PK'', CHR ''S''), (''SK'', CHR ''S''), (''gsi_status_pk'', CHR ''S''), (''gsi_status_sk'', CHR ''N'')],
     ts_Indexes = [(''gsi_status'', ''gsi_status_pk'', ''gsi_status_sk'')]\<rparr>"

definition status_index_active :: "table_desc option \<Rightarrow> bool" where
  "status_index_active d = (case d of None \<Rightarrow> False | Some d \<Rightarrow> td_Active d \<and> (Some ''gsi_status'', True) \<in> set (td_Indexes d))"

definition do_ensure_table :: "'w dynamo \<Rightarrow> string \<Rightarrow> duration \<Rightarrow> 'w \<Rightarrow> (ddb_err option \<times> 'w) option" where
  "do_ensure_table C tbl timeout w =
     (case dtry (dd_DescribeTable C tbl) (\<lambda>e. if e \<noteq> ResourceNotFound then dfail e else dd_CreateTable C tbl outbox_schema) (\<lambda>_. dret ()) w of
        (Inl e, w) \<Rightarrow> Some (Some e, w)
      | (Inr _, w) \<Rightarrow>
         (case wait_for C status_index_active tbl (300 * (second div 1000)) timeout w of
            None \<Rightarrow> None
          | Some (active, w) \<Rightarrow>
              if active then Some (None, w)
              else Some (Some (DdbErr (ErrBackend ''outbox table not ready (money events must not drain against a backfilling index)'')), w)))"

section \<open>The Redis store\<close>

record 'w outbox_redis =
  ork_SetNX :: "string \<Rightarrow> string \<Rightarrow> duration \<Rightarrow> ('w, bool) script"
  ork_Set :: "string \<Rightarrow> string \<Rightarrow> duration \<Rightarrow> ('w, unit) script"
  ork_Get :: "string \<Rightarrow> ('w, string option) script"
  ork_ZAdd :: "string \<Rightarrow> f64 \<Rightarrow> string \<Rightarrow> ('w, unit) script"
  ork_ZRem :: "string \<Rightarrow> string \<Rightarrow> ('w, unit) script"
  ork_ZRange :: "string \<Rightarrow> int \<Rightarrow> int \<Rightarrow> ('w, string list) script"
  ork_DelZRem :: "string \<Rightarrow> string \<Rightarrow> string \<Rightarrow> ('w, unit) script"
  ork_Marshal :: "orec \<Rightarrow> goerr + string"
  ork_Unmarshal :: "string \<Rightarrow> orec option"

definition new_redis_outbox :: "string \<Rightarrow> string" where
  "new_redis_outbox prefix = (if prefix = [] then ''outbox'' else prefix)"

definition intent_key :: "string \<Rightarrow> string \<Rightarrow> string" where
  "intent_key prefix key = prefix @ '':intent:'' @ key"

definition pending_idx :: "string \<Rightarrow> string" where
  "pending_idx prefix = prefix @ '':pending''"

text \<open>An existing intent that cannot be read is reported as the new one.\<close>

definition ro_put_intent :: "'w outbox_redis \<Rightarrow> string \<Rightarrow> orec \<Rightarrow> ('w, orec) script" where
  "ro_put_intent R prefix r w =
     (let r = (if ob_Status r = None then r\<lparr>ob_Status := Some StatusPending\<rparr> else r) in
      case ork_Marshal R r of
        Inl e \<Rightarrow> (Inl e, w)
      | Inr blob \<Rightarrow>
         (case ork_SetNX R (intent_key prefix (ob_Key r)) blob 0 w of
            (Inl e, w) \<Rightarrow> (Inl e, w)
          | (Inr True, w) \<Rightarrow> sbind (ork_ZAdd R (pending_idx prefix) (ob_FirstTS r) (ob_Key r)) (\<lambda>_. sret r) w
          | (Inr False, w) \<Rightarrow>
             (case ork_Get R (intent_key prefix (ob_Key r)) w of
                (Inr (Some raw), w) \<Rightarrow> (Inr (case ork_Unmarshal R raw of Some ex \<Rightarrow> ex | None \<Rightarrow> r), w)
              | (_, w) \<Rightarrow> (Inr r, w))))"

definition ro_mark_delivered :: "'w outbox_redis \<Rightarrow> string \<Rightarrow> string \<Rightarrow> ('w, unit) script" where
  "ro_mark_delivered R prefix key = ork_DelZRem R (intent_key prefix key) (pending_idx prefix) key"

text \<open>The rewrite is best effort: whatever fails in it, the key leaves the pending index.\<close>

definition ro_mark_voided :: "'w outbox_redis \<Rightarrow> string \<Rightarrow> string \<Rightarrow> void_reason \<Rightarrow> ('w, unit) script" where
  "ro_mark_voided R prefix key reason w =
     (let w = (case ork_Get R (intent_key prefix key) w of
           (Inr (Some raw), w) \<Rightarrow>
             (case ork_Unmarshal R raw of
                None \<Rightarrow> w
              | Some r \<Rightarrow> (case ork_Marshal R (voided reason r) of Inl e \<Rightarrow> w | Inr b \<Rightarrow> snd (ork_Set R (intent_key prefix key) b 0 w)))
         | (_, w) \<Rightarrow> w)
      in ork_ZRem R (pending_idx prefix) key w)"

text \<open>An encoding error is dropped and leaves no bytes.\<close>

definition ro_bump_attempt :: "'w outbox_redis \<Rightarrow> string \<Rightarrow> string \<Rightarrow> ('w, unit) script" where
  "ro_bump_attempt R prefix key w =
     (case ork_Get R (intent_key prefix key) w of
        (Inr (Some raw), w) \<Rightarrow>
          (case ork_Unmarshal R raw of
             None \<Rightarrow> (Inr (), w)
           | Some r \<Rightarrow>
               ork_Set R (intent_key prefix key)
                 (case ork_Marshal R (r\<lparr>ob_Attempts := ob_Attempts r + 1\<rparr>) of Inl e \<Rightarrow> [] | Inr b \<Rightarrow> b) 0 w)
      | (_, w) \<Rightarrow> (Inr (), w))"

fun ro_collect :: "'w outbox_redis \<Rightarrow> string \<Rightarrow> string list \<Rightarrow> orec list \<Rightarrow> ('w, orec list) script" where
  "ro_collect R prefix [] out = sret out"
| "ro_collect R prefix (k # ks) out =
     sbind (ork_Get R (intent_key prefix k)) (\<lambda>raw. ro_collect R prefix ks
       (case Option.bind raw (ork_Unmarshal R) of
          Some r \<Rightarrow> if ob_Status r = Some StatusPending then out @ [r] else out | None \<Rightarrow> out))"

definition ro_list_pending :: "'w outbox_redis \<Rightarrow> string \<Rightarrow> int \<Rightarrow> ('w, orec list) script" where
  "ro_list_pending R prefix limit =
     (let limit = (if limit \<le> 0 then 100 else limit) in
      sbind (ork_ZRange R (pending_idx prefix) 0 (limit - 1)) (\<lambda>ks. ro_collect R prefix ks []))"

text \<open>\<open>AutoSelect\<close>: the store that was wired for DynamoDB, else Redis, else none.\<close>

definition auto_select :: "'c option \<Rightarrow> 's option \<Rightarrow> ('c \<Rightarrow> string \<Rightarrow> 's) \<Rightarrow> 's option" where
  "auto_select redisClient ddb mk_redis =
     (case ddb of Some s \<Rightarrow> Some s | None \<Rightarrow> map_option (\<lambda>c. mk_redis c ''outbox'') redisClient)"

section \<open>The SNS publisher\<close>

text \<open>
  \<open>outbox/sns.go\<close>: the publisher the emitter is given. \<open>api\<close> is \<open>Publish\<close> of the SDK's client, \<open>marshal\<close> the
  JSON of a record. The attributes are strings a subscriber filters by.
\<close>

record publish_input =
  pi_TopicArn :: string
  pi_Message :: string
  pi_Attributes :: "(string \<times> string) list"

definition sns_publish ::
  "('w \<Rightarrow> publish_input \<Rightarrow> goerr option \<times> 'w) \<Rightarrow> (orec \<Rightarrow> goerr + string) \<Rightarrow> string \<Rightarrow> 'w \<Rightarrow> orec \<Rightarrow> goerr option \<times> 'w" where
  "sns_publish api marshal topicARN w r =
     (case (if ob_Event r = [] then marshal r else Inr (ob_Event r)) of
        Inl e \<Rightarrow> (Some e, w)
      | Inr msg \<Rightarrow>
          api w \<lparr>pi_TopicArn = topicARN, pi_Message = msg,
                 pi_Attributes = [(''event_type'', ob_EventType r), (''resource_type'', ob_ResourceType r)]\<rparr>)"

text \<open>
  An intent is delivered only when the topic took a message with its event, and it is marked so in the
  store afterwards. A record without an event travels as a whole.
\<close>

lemma sns_delivers_event:
  assumes "em_Pub M = Some (sns_publish api marshal arn)" and "drain_one M nowEpoch now r st = (Suc k, st')"
  shows "\<exists>msg w. (if ob_Event r = [] then marshal r = Inr msg else msg = ob_Event r)
    \<and> api (mt_world st) \<lparr>pi_TopicArn = arn, pi_Message = msg,
        pi_Attributes = [(''event_type'', ob_EventType r), (''resource_type'', ob_ResourceType r)]\<rparr> = (None, w)
    \<and> fst (os_MarkDelivered (em_Store M) (mt_store st) (ob_Key r)) = None"
  using assms
  by (auto simp: drain_one_def sns_publish_def with_world_def with_store_def split: if_split_asm sum.split_asm prod.split_asm option.split_asm)

lemma sns_refusal_keeps_intent:
  assumes "em_Pub M = Some (sns_publish api marshal arn)" and "ob_Event r = []" and "marshal r = Inl e"
    and "\<not> fgt (fsub nowEpoch (ob_FirstTS r)) (em_MaxRetryHorizon M)"
  shows "drain_one M nowEpoch now r st = (0, snd (with_store (\<lambda>s. os_BumpAttempt (em_Store M) s (ob_Key r)) st))"
  using assms by (simp add: drain_one_def sns_publish_def with_world_def)

section \<open>What is stored is read back\<close>

text \<open>\<open>strconv\<close> reads back the shortest text of a float, and the text of an integer as the float next to it.\<close>

definition outbox_codec_ok :: "outbox_codec \<Rightarrow> bool" where
  "outbox_codec_ok K \<longleftrightarrow> (\<forall>f. oc_ParseFloat K (oc_FormatFloat K f) = f) \<and> (\<forall>n. oc_ParseFloat K (itoa n) = of_go_int n)
     \<and> oc_ReasonText K NoReason = []"

text \<open>
  An intent reads back as it was written: key, event, reservation, status, horizon anchor and attempt
  count (up to \<open>2^53\<close>) are those of the record, a void reason comes back as its text. So what a new
  process drains from the table is what the old one emitted.
\<close>

theorem stored_intent_reads_back:
  assumes "outbox_codec_ok K" and "\<bar>ob_Attempts r\<bar> \<le> 2 ^ 53"
  shows "do_rec K (do_item K r) = r\<lparr>ob_Reason := (if oc_ReasonText K (ob_Reason r) = [] then NoReason else Reason (oc_ReasonText K (ob_Reason r)))\<rparr>"
proof -
  have a: "to_go_int (of_go_int (ob_Attempts r)) = ob_Attempts r"
    using assms(2) by (simp add: of_go_int_small Let_def abs_le_iff)
  have "do_str (do_item K r) ''okey'' = ob_Key r" "do_str (do_item K r) ''event'' = ob_Event r" "do_str (do_item K r) ''event_type'' = ob_EventType r"
    "do_str (do_item K r) ''resource_type'' = ob_ResourceType r" "do_str (do_item K r) ''reservationid'' = ob_ReservationID r"
    "do_str (do_item K r) ''status'' = status_name (ob_Status r)" "do_str (do_item K r) ''reason'' = oc_ReasonText K (ob_Reason r)"
    by (simp_all add: do_str_def do_item_def Let_def)
  moreover have "do_num K (do_item K r) ''first_ts'' = ob_FirstTS r" "do_num K (do_item K r) ''attempts'' = of_go_int (ob_Attempts r)"
    using assms(1) by (simp_all add: do_num_def do_item_def Let_def outbox_codec_ok_def)
  ultimately show ?thesis using a by (simp add: do_rec_def)
qed

section \<open>Intents on a shared table\<close>

lemma do_item_key: "item_key (do_item K r) = Some (outbox_key (ob_Key r))"
  by (simp add: item_key_def do_item_def outbox_key_def Let_def)

text \<open>
  A re-emit never moves the horizon. Whatever other replicas do at any call, a \<open>PutIntent\<close> that returns
  without an error either created the intent, in one step and at a moment when no intent of that key
  stood there, or wrote nothing and returned what it then found. So the first anchor, attempt count
  and event of a key stay those of the first writer, also when several emit it at once.
\<close>

theorem put_intent_never_overwrites:
  assumes "shared_table C tbl items clock G" and "do_put_intent C K tbl r w = (Inr y, w')"
  shows "let r' = (if ob_Status r = None then r\<lparr>ob_Status := Some StatusPending\<rparr> else r); k = outbox_key (ob_Key r) in
    (\<exists>m. G (items w) m \<and> m k = None \<and> y = r' \<and> G (m(k \<mapsto> do_item K r')) (items w'))
    \<or> (\<exists>m m'. G (items w) m \<and> m k \<noteq> None \<and> G m m' \<and> G m' (items w') \<and> y = (case m' k of Some it \<Rightarrow> do_rec K it | None \<Rightarrow> r'))"
proof -
  note trans = shared_table.others_trans [OF assms(1)]
  define r' where "r' = (if ob_Status r = None then r\<lparr>ob_Status := Some StatusPending\<rparr> else r)"
  have kr: "ob_Key r' = ob_Key r" by (simp add: r'_def)
  then have k: "item_key (do_item K r') = Some (outbox_key (ob_Key r))" by (simp add: do_item_key)
  have "(dd_PutItem C tbl (do_item K r') NotExists w = (Inr (), w') \<and> y = r')
    \<or> (\<exists>w1 v. dd_PutItem C tbl (do_item K r') NotExists w = (Inl ConditionalCheckFailed, w1)
        \<and> dd_GetItem C tbl (outbox_key (ob_Key r)) w1 = (Inr v, w') \<and> y = (case v of Some it \<Rightarrow> do_rec K it | None \<Rightarrow> r'))"
    using assms(2) unfolding do_put_intent_def r'_def [symmetric] Let_def
    by (auto simp: ddb_inv dfail_def do_get_def kr split: if_split_asm) (auto split: option.split)
  then show ?thesis
  proof (elim disjE exE conjE)
    assume u: "dd_PutItem C tbl (do_item K r') NotExists w = (Inr (), w')" and y: "y = r'"
    from shared_table.put_law [OF assms(1) u k] y show ?thesis unfolding r'_def [symmetric] Let_def by auto
  next
    fix w1 v
    assume u: "dd_PutItem C tbl (do_item K r') NotExists w = (Inl ConditionalCheckFailed, w1)"
      and g: "dd_GetItem C tbl (outbox_key (ob_Key r)) w1 = (Inr v, w')" and y: "y = (case v of Some it \<Rightarrow> do_rec K it | None \<Rightarrow> r')"
    from shared_table.put_lost [OF assms(1) u k] obtain m where m: "G (items w) m" "m (outbox_key (ob_Key r)) \<noteq> None" "G m (items w1)" by auto
    from shared_table.get_law [OF assms(1) g] obtain m' where m': "G (items w1) m'" "m' (outbox_key (ob_Key r)) = v" "G m' (items w')" by blast
    with m y trans [OF m(3) m'(1)] show ?thesis unfolding r'_def [symmetric] Let_def by blast
  qed
qed

section \<open>A delivery that comes in between\<close>

definition delivered_meanwhile :: "string \<Rightarrow> string \<Rightarrow> nat \<Rightarrow> ((string \<times> string) \<rightharpoonup> item) \<Rightarrow> ((string \<times> string) \<rightharpoonup> item)" where
  "delivered_meanwhile tbl key n m =
     (if n = 1 then dt_items (snd (do_mark_delivered (contended_table (\<lambda>_ m. m)) tbl key \<lparr>dt_items = m, dt_clock = 0, dt_plan = []\<rparr>)) else m)"

text \<open>
  A delivered intent can come back. \<open>BumpAttempt\<close> reads the intent and puts it back without a condition.
  When another replica delivers it in between, the put creates it again, as pending: the next drain
  of any replica delivers it a second time.
\<close>

theorem bump_revives_delivered_intent:
  assumes "dt_items s (outbox_key key) = Some it" and "ob_Key (do_rec K it) = key" and "ob_Status (do_rec K it) = Some StatusPending"
    and "dt_plan s = [0, 1]"
  shows "delivered_meanwhile tbl key 1 (dt_items s) (outbox_key key) = None
    \<and> (\<exists>s' x. do_bump_attempt (contended_table (delivered_meanwhile tbl key)) K tbl key s = (Inr (), s')
        \<and> dt_items s' (outbox_key key) = Some (do_item K x) \<and> ob_Status x = Some StatusPending)"
proof -
  have m: "delivered_meanwhile tbl key 1 m = m(outbox_key key := None)" "delivered_meanwhile tbl key 0 m = m" for m
    by (simp_all add: delivered_meanwhile_def do_mark_delivered_def contended_table_def disturb_idle Let_def)
  let ?x = "(do_rec K it)\<lparr>ob_Attempts := ob_Attempts (do_rec K it) + 1\<rparr>"
  have k: "item_key (do_item K ?x) = Some (outbox_key key)" using assms(2) by (simp add: do_item_key)
  have "do_bump_attempt (contended_table (delivered_meanwhile tbl key)) K tbl key s
    = (Inr (), s\<lparr>dt_items := (dt_items s)(outbox_key key \<mapsto> do_item K ?x), dt_clock := 2 + dt_clock s, dt_plan := []\<rparr>)"
    using assms(1,4) k m
    by (simp add: do_bump_attempt_def do_rewrite_def do_get_def dbind_def dret_def table_simps disturb_next)
  then show ?thesis using m assms(3) by (auto intro!: exI [of _ ?x])
qed

section \<open>Examples\<close>

text \<open>Floats as marked numerals, anything else as an integer.\<close>

definition exact_codec :: outbox_codec where
  "exact_codec = \<lparr>oc_FormatFloat = (\<lambda>f. CHR ''x'' # nat_text (to_nat f)),
     oc_ParseFloat = (\<lambda>s. case s of c # t \<Rightarrow> if c = CHR ''x'' then from_nat (digits_value t) else of_go_int (text_int s) | [] \<Rightarrow> Fin 0),
     oc_ReasonText = (\<lambda>r. case r of NoReason \<Rightarrow> [] | _ \<Rightarrow> ''voided'')\<rparr>"

lemma itoa_first: "\<exists>c cs. itoa n = c # cs \<and> c \<noteq> CHR ''x''"
proof (cases "n < 0")
  case False
  obtain c cs where "nat_text (nat n) = c # cs" "is_digit c" using nat_text_first by blast
  with False show ?thesis by (auto simp: itoa_def is_digit_def)
qed (simp add: itoa_def)

lemma exact_codec_ok: "outbox_codec_ok exact_codec"
  unfolding outbox_codec_ok_def
proof (intro conjI allI)
  fix n
  obtain c cs where c: "itoa n = c # cs" "c \<noteq> CHR ''x''" using itoa_first by blast
  have "text_int (c # cs) = n" using text_int_itoa [of n] c(1) by simp
  with c show "oc_ParseFloat exact_codec (itoa n) = of_go_int n" by (simp add: exact_codec_def)
qed (simp_all add: exact_codec_def nat_text_value)

theorem stored_intent_reads_back_witness:
  "do_rec exact_codec (do_item exact_codec (voided (Reason ''late'') stopped_rec)) = (voided (Reason ''late'') stopped_rec)\<lparr>ob_Reason := Reason ''voided''\<rparr>"
proof -
  have "\<bar>ob_Attempts (voided (Reason ''late'') stopped_rec)\<bar> \<le> 2 ^ 53" by (simp add: voided_def stopped_rec_def)
  from stored_intent_reads_back [OF exact_codec_ok this] show ?thesis by (simp add: exact_codec_def voided_def)
qed

definition text_codec :: outbox_codec where
  "text_codec = \<lparr>oc_FormatFloat = (\<lambda>f. if f = Fin 1 then ''1'' else []), oc_ParseFloat = (\<lambda>s. if s = ''1'' then Fin 1 else Fin 0), oc_ReasonText = (\<lambda>_. [])\<rparr>"

definition an_intent :: orec where
  "an_intent = \<lparr>ob_Key = ''k'', ob_Event = ''{}'', ob_EventType = ''t'', ob_ResourceType = ''r'', ob_ReservationID = ''v'', ob_Status = Some StatusPending,
     ob_FirstTS = Fin 1, ob_Attempts = 0, ob_Reason = NoReason\<rparr>"

definition intent_table :: "nat list \<Rightarrow> dtable" where
  "intent_table plan = \<lparr>dt_items = [outbox_key ''k'' \<mapsto> do_item text_codec an_intent], dt_clock = 0, dt_plan = plan\<rparr>"

theorem put_intent_never_overwrites_witness:
  "\<exists>y w'. do_put_intent (contended_table (\<lambda>_ m. m)) text_codec ''t'' (an_intent\<lparr>ob_FirstTS := Fin 9\<rparr>) (intent_table []) = (Inr y, w') \<and> ob_FirstTS y = Fin 1"
proof -
  let ?C = "contended_table (\<lambda>_ m. m)" and ?r = "an_intent\<lparr>ob_FirstTS := Fin 9\<rparr>"
  have quiet: "others_do (\<lambda>_ m. m) m m' \<Longrightarrow> m' = m" for m m' :: "(string \<times> string) \<rightharpoonup> item"
    unfolding others_do_def by (induction rule: rtranclp_induct) auto
  have k: "item_key (do_item text_codec ?r) = Some (outbox_key ''k'')" "ob_Status ?r = Some StatusPending" "ob_Key ?r = ''k''"
    by (simp_all add: do_item_key an_intent_def)
  obtain y w' where p: "do_put_intent ?C text_codec ''t'' ?r (intent_table []) = (Inr y, w')"
    using k by (auto simp: do_put_intent_def Let_def dtry_def dbind_def dret_def do_get_def table_simps disturb_idle intent_table_def)
  have i: "dt_items (intent_table []) (outbox_key ''k'') = Some (do_item text_codec an_intent)" by (simp add: intent_table_def)
  from put_intent_never_overwrites [OF contended_table_shared p] i k have "y = do_rec text_codec (do_item text_codec an_intent)"
    by (auto simp: Let_def dest!: quiet)
  moreover have "ob_FirstTS (do_rec text_codec (do_item text_codec an_intent)) = Fin 1" by (simp add: do_rec_def do_num_def do_item_def Let_def text_codec_def an_intent_def)
  ultimately show ?thesis using p by blast
qed

theorem bump_revives_delivered_intent_witness:
  "\<exists>s'. do_bump_attempt (contended_table (delivered_meanwhile ''t'' ''k'')) text_codec ''t'' ''k'' (intent_table [0, 1]) = (Inr (), s')
     \<and> dt_items s' (outbox_key ''k'') \<noteq> None"
proof -
  have i: "dt_items (intent_table [0, 1]) (outbox_key ''k'') = Some (do_item text_codec an_intent)" "dt_plan (intent_table [0, 1]) = [0, 1]"
    by (simp_all add: intent_table_def)
  have r: "ob_Key (do_rec text_codec (do_item text_codec an_intent)) = ''k''" "ob_Status (do_rec text_codec (do_item text_codec an_intent)) = Some StatusPending"
    by (simp_all add: do_rec_def do_str_def do_item_def Let_def an_intent_def text_codec_def status_named_def)
  from bump_revives_delivered_intent [OF i(1) r i(2)] show ?thesis by blast
qed

end
