(* ===== verification/RedisGuard.thy ===== *)
theory RedisGuard
  imports Config GoText Idempotency Billing
begin

text \<open>
  The checks the library makes of its Redis (\<open>redisguard/redisguard.go\<close>,
  \<open>redisguard/reachability_20260721.go\<close>): eviction policy, durability, scripting, version, memory
  headroom, evictions and persistence failures that already happened, and the classification of
  connection errors. Every verdict carries the text the code publishes, because the health
  predicates read these texts again; bytes outside ASCII are written out.
\<close>

section \<open>Text\<close>

abbreviation em_dash :: string where "em_dash \<equiv> [CHR 0xE2, CHR 0x80, CHR 0x94]"
abbreviation arrow :: string where "arrow \<equiv> [CHR 0xE2, CHR 0x86, CHR 0x92]"
abbreviation ellipsis :: string where "ellipsis \<equiv> [CHR 0xE2, CHR 0x80, CHR 0xA6]"

text \<open>\<open>strings.Split(strings.ReplaceAll(raw, "\r\n", "\n"), "\n")\<close>.\<close>

fun drop_cr :: "string \<Rightarrow> string" where
  "drop_cr (a # b # s) =
     (if a = CHR 0x0D \<and> b = CHR 0x0A then CHR 0x0A # drop_cr s else a # drop_cr (b # s))"
| "drop_cr s = s"

definition info_lines :: "string \<Rightarrow> string list" where
  "info_lines raw = split_on (CHR 0x0A) (drop_cr raw)"

text \<open>\<open>strings.CutPrefix\<close> and \<open>strings.Cut\<close> at a colon.\<close>

definition cut_prefix :: "string \<Rightarrow> string \<Rightarrow> string option" where
  "cut_prefix s p = (if has_prefix s p then Some (drop (length p) s) else None)"

definition cut_colon :: "string \<Rightarrow> (string \<times> string) option" where
  "cut_colon s = (if CHR '':'' \<in> set s
     then Some (takeWhile (\<lambda>c. c \<noteq> CHR '':'') s, tl (dropWhile (\<lambda>c. c \<noteq> CHR '':'') s)) else None)"

text \<open>The first line of an INFO payload that carries a field, and its value.\<close>

fun first_field :: "string \<Rightarrow> string list \<Rightarrow> string option" where
  "first_field k [] = None"
| "first_field k (l # ls) =
     (case cut_prefix (trim_space l) (k @ '':'') of Some v \<Rightarrow> Some (trim_space v) | None \<Rightarrow> first_field k ls)"

definition nz :: "string \<Rightarrow> string" where
  "nz s = (if s = [] then ''unset'' else s)"

section \<open>The server\<close>

text \<open>
  The text of a client error, and whether it is a \<open>net.Error\<close> or \<open>context.DeadlineExceeded\<close>.
\<close>

record redis_err =
  re_text :: string
  re_net :: bool

text \<open>
  The answers of one server during one check. A check issues each of these commands at most once,
  so that the answers are functions of the arguments. \<open>SCRIPT LOAD\<close> is only called with the source of
  the acquire script. \<open>pb_Exists\<close> is \<open>None\<close> for a prober without the data-plane command.
\<close>

record prober =
  pb_ConfigGet :: "string \<Rightarrow> redis_err + (string \<rightharpoonup> string)"
  pb_ScriptLoad :: "redis_err + string"
  pb_Info :: "string \<Rightarrow> redis_err + string"
  pb_ClusterInfo :: "redis_err + string"
  pb_Exists :: "(string list \<Rightarrow> redis_err option) option"

definition evicting_policies :: "string list" where
  "evicting_policies = [''allkeys-lru'', ''allkeys-lfu'', ''allkeys-random'']"

definition version_floor :: "int \<times> int \<times> int" where
  "version_floor = (6, 0, 0)"

text \<open>The refusals a caller can tell apart with \<open>errors.Is\<close>, each with its detail.\<close>

datatype refusal =
    CounterEviction string
  | ScriptingUnsupported string
  | RedisVersion string
  | ClusterTopology string string
  | Unreachable string string string string f64
  | DDBPreflight string string

definition affirmed :: "string \<Rightarrow> bool" where
  "affirmed v \<longleftrightarrow> to_lower (trim_space v) \<in> {''1'', ''true'', ''yes''}"

definition env_durability_confirmed :: "(string \<Rightarrow> string) \<Rightarrow> bool" where
  "env_durability_confirmed getenv \<longleftrightarrow> affirmed (getenv ''AB0T_QUOTA_REDIS_DURABILITY_CONFIRMED'')"

section \<open>Eviction and durability\<close>

definition config_value :: "prober \<Rightarrow> string \<Rightarrow> redis_err + string" where
  "config_value c k =
     (case pb_ConfigGet c k of Inl e \<Rightarrow> Inl e | Inr m \<Rightarrow> Inr (to_lower (trim_space (map_get [] m k))))"

definition or_empty :: "redis_err + string \<Rightarrow> string" where
  "or_empty r = (case r of Inl e \<Rightarrow> [] | Inr v \<Rightarrow> v)"

definition read_policy :: "prober \<Rightarrow> string \<times> string \<times> string \<times> bool" where
  "read_policy c =
     (let policy = config_value c ''maxmemory-policy''; appendonly = config_value c ''appendonly''; save = config_value c ''save''
      in (or_empty policy, or_empty appendonly, or_empty save, isl policy \<or> isl appendonly \<or> isl save))"

definition evaluate_eviction :: "string \<Rightarrow> bool \<Rightarrow> bool \<Rightarrow> bool \<times> string" where
  "evaluate_eviction policy0 configUnavailable confirmed =
     (let policy = to_lower (trim_space policy0) in
      if configUnavailable
      then (if confirmed
            then (True, ''CONFIG unavailable (e.g. ElastiCache); a non-evicting policy is asserted by the operator (storage.redis_durability_confirmed=true)'')
            else (False, ''Redis CONFIG is unavailable and storage.redis_durability_confirmed is not set '' @ em_dash @
              '' the counter's eviction policy cannot be verified, and an unverified counter store is not a safe one''))
      else if policy \<in> set evicting_policies
      then (False, ''maxmemory-policy='' @ policy @ '' can EVICT a live gauge key '' @ em_dash @
             '' the counter would read zero for a resource that is still running (under-count '' @ arrow @ '' phantom headroom '' @ arrow @
             '' over-admission). Use noeviction (or a volatile-* policy: the counter keys carry no TTL)'')
      else (True, nz policy))"

definition evaluate_durability :: "string \<Rightarrow> string \<Rightarrow> string \<Rightarrow> bool \<Rightarrow> bool \<Rightarrow> bool \<times> string" where
  "evaluate_durability policy0 appendonly0 save0 configUnavailable confirmed =
     (let policy = to_lower (trim_space policy0); appendonly = to_lower (trim_space appendonly0); save = trim_space save0 in
      if \<not> fst (evaluate_eviction policy configUnavailable confirmed)
      then (if configUnavailable
            then (False, ''Redis CONFIG unavailable and redis_durability_confirmed not set '' @ em_dash @
              '' cannot verify persistence/eviction; treated as NON-durable'')
            else (False, ''maxmemory-policy='' @ policy @
              '' can silently evict pending money events; use noeviction (or a volatile-* policy with no TTL on outbox keys)''))
      else if configUnavailable
      then (True, ''Redis CONFIG unavailable (e.g. ElastiCache); durability asserted by operator (redis_durability_confirmed=true)'')
      else if \<not> (appendonly = ''yes'' \<or> save \<noteq> [] \<or> confirmed)
      then (False, ''no Redis persistence (appendonly=no and no save points) '' @ em_dash @
             '' a restart/failover loses pending events; enable appendonly or RDB save'')
      else (True, ''maxmemory-policy='' @ nz policy @ '', appendonly='' @ nz appendonly))"

definition check_counter_eviction :: "prober \<Rightarrow> bool \<Rightarrow> bool \<times> string" where
  "check_counter_eviction c confirmed =
     (let (policy, _, _, unavailable) = read_policy c in evaluate_eviction policy unavailable confirmed)"

section \<open>Scripting and version\<close>

definition check_script_capability :: "prober \<Rightarrow> bool \<times> string" where
  "check_script_capability c =
     (case pb_ScriptLoad c of
        Inl e \<Rightarrow> (False, ''SCRIPT LOAD of the counter's acquire script failed ('' @ re_text e @ '') '' @ em_dash @
                   '' this Redis cannot run the atomic counter'')
      | Inr sha \<Rightarrow> (True, ''on (EVAL verified, acquire sha='' @ (if length sha > 12 then take 12 sha else sha) @ ellipsis @ '')''))"

text \<open>
  The leftmost match of \<open>(\d+)\.(\d+)\.?(\d+)?\<close>. Each repetition takes its whole run of digits: a
  shorter first run is not followed by a dot, and nothing after the second run can fail.
\<close>

definition match_version_here :: "string \<Rightarrow> (string \<times> string \<times> string) option" where
  "match_version_here s =
     (let a = takeWhile is_digit s; r = dropWhile is_digit s in
      if a = [] \<or> r = [] \<or> hd r \<noteq> CHR ''.'' then None
      else let b = takeWhile is_digit (tl r); r2 = dropWhile is_digit (tl r) in
           if b = [] then None
           else Some (a, b, takeWhile is_digit (if r2 \<noteq> [] \<and> hd r2 = CHR ''.'' then tl r2 else r2)))"

fun match_version :: "string \<Rightarrow> (string \<times> string \<times> string) option" where
  "match_version [] = None"
| "match_version (c # s) = (case match_version_here (c # s) of Some m \<Rightarrow> Some m | None \<Rightarrow> match_version s)"

text \<open>\<open>strconv.Atoi\<close> of digits with its error dropped: out of range gives the greatest \<open>int\<close>.\<close>

definition version_part :: "string \<Rightarrow> int" where
  "version_part s = (if s = [] then 0 else min (int (digits_value s)) (2 ^ 63 - 1))"

fun version_less :: "int \<times> int \<times> int \<Rightarrow> int \<times> int \<times> int \<Rightarrow> bool" where
  "version_less (a, b, c) (a', b', c') = (if a \<noteq> a' then a < a' else if b \<noteq> b' then b < b' else c < c')"

definition version_text :: "int \<times> int \<times> int \<Rightarrow> string" where
  "version_text v = (case v of (a, b, c) \<Rightarrow> itoa a @ ''.'' @ itoa b @ ''.'' @ itoa c)"

datatype version_status = VersionOk | VersionBelowFloor | VersionUnknown

text \<open>The text of an unparseable version stands in quotes, as \<open>%q\<close> prints plain text.\<close>

definition evaluate_version :: "string \<Rightarrow> int \<times> int \<times> int \<Rightarrow> version_status \<times> string" where
  "evaluate_version version least =
     (if trim_space version = []
      then (VersionUnknown, ''Redis version could not be read (INFO unavailable) '' @ em_dash @ '' the supported floor could not be verified'')
      else case match_version version of
        None \<Rightarrow> (VersionUnknown, ''unparseable Redis version '' @ [CHR 0x22] @ version @ [CHR 0x22])
      | Some (a, b, c) \<Rightarrow>
          if version_less (version_part a, version_part b, version_part c) least
          then (VersionBelowFloor, ''Redis '' @ version @ '' is below ab0t-quota's supported floor '' @ version_text least)
          else (VersionOk, version))"

definition check_version :: "prober \<Rightarrow> int \<times> int \<times> int \<Rightarrow> version_status \<times> string" where
  "check_version c least =
     (case pb_Info c ''server'' of
        Inl e \<Rightarrow> evaluate_version [] least
      | Inr raw \<Rightarrow>
          (case first_field ''redis_version'' (info_lines raw) of
             Some v \<Rightarrow> evaluate_version v least
           | None \<Rightarrow> evaluate_version [] least))"

section \<open>Memory headroom\<close>

datatype memory_status = MemoryOk | LowHeadroom | MemoryUnbounded | MemoryUnknown

definition memory_warn_ratio :: f64 where
  "memory_warn_ratio = fround (9 / 10)"

text \<open>\<open>int(ratio*100 + 0.5)\<close>; the share used is printed with the two counts.\<close>

definition memory_share :: "int \<Rightarrow> int \<Rightarrow> string" where
  "memory_share maxmemory used =
     itoa (to_go_int (fadd (fmul (fdiv (of_go_int used) (of_go_int maxmemory)) (Fin 100)) (Fin (1 / 2)))) @ ''% of maxmemory used (''
       @ itoa used @ ''/'' @ itoa maxmemory @ '')''"

definition evaluate_memory_headroom :: "int \<Rightarrow> int \<Rightarrow> bool \<Rightarrow> memory_status \<times> string" where
  "evaluate_memory_headroom maxmemory used found =
     (if \<not> found then (MemoryUnknown, ''Redis INFO memory unavailable '' @ em_dash @ '' headroom cannot be computed'')
      else if maxmemory = 0 then (MemoryUnbounded, ''maxmemory=0 (no eviction/OOM cliff configured)'')
      else if fge (fdiv (of_go_int used) (of_go_int maxmemory)) memory_warn_ratio
      then (LowHeadroom, memory_share maxmemory used @ '' '' @ em_dash @
             '' with a non-evicting policy Redis will start REFUSING WRITES at the cliff, and the counter's admission path '' @
             ''fails closed (safe, but the service is down). Raise maxmemory or reduce load.'')
      else (MemoryOk, memory_share maxmemory used))"

text \<open>The loop over the lines keeps the last value of each field that parses.\<close>

definition last_number :: "string \<Rightarrow> string list \<Rightarrow> int option" where
  "last_number k ls =
     fold (\<lambda>l acc. case cut_prefix (trim_space l) (k @ '':'') of
              None \<Rightarrow> acc
            | Some v \<Rightarrow> (case atoi (trim_space v) of Some n \<Rightarrow> Some n | None \<Rightarrow> acc)) ls None"

definition check_memory_headroom :: "prober \<Rightarrow> memory_status \<times> string" where
  "check_memory_headroom c =
     (case pb_Info c ''memory'' of
        Inl e \<Rightarrow> evaluate_memory_headroom 0 0 False
      | Inr raw \<Rightarrow>
          (case (last_number ''maxmemory'' (info_lines raw), last_number ''used_memory'' (info_lines raw)) of
             (Some m, Some u) \<Rightarrow> evaluate_memory_headroom m u True
           | _ \<Rightarrow> evaluate_memory_headroom 0 0 False))"

definition memory_headroom_ok :: "string \<Rightarrow> bool" where
  "memory_headroom_ok v \<longleftrightarrow> \<not> has_prefix (to_lower (trim_space v)) ''low_headroom''"

section \<open>Evictions that happened\<close>

datatype fact_status = FactOk | FactViolated | FactUnknown

definition evaluate_eviction_facts :: "int \<Rightarrow> bool \<Rightarrow> fact_status \<times> string" where
  "evaluate_eviction_facts evicted found =
     (if \<not> found
      then (FactUnknown, ''Redis INFO stats unavailable '' @ em_dash @ '' cannot tell whether this server has ALREADY evicted keys'')
      else if evicted > 0
      then (FactViolated, ''this Redis has EVICTED '' @ itoa evicted @ '' key(s) (INFO stats.evicted_keys). Any one of them may have been a '' @
             ''live gauge: an evicted gauge reads LOW, so the counter now UNDER-counts resources that still exist (phantom headroom '' @ arrow @
             '' over-admission). The eviction policy may since have been corrected '' @ em_dash @ '' the damage is already in the counter. '' @
             ''The counter must be reconciled, and the Redis must never evict again (maxmemory-policy noeviction).'')
      else (FactOk, ''0 (no keys evicted on this server)''))"

fun first_number :: "string \<Rightarrow> string list \<Rightarrow> int option" where
  "first_number k [] = None"
| "first_number k (l # ls) =
     (case cut_prefix (trim_space l) (k @ '':'') of
        None \<Rightarrow> first_number k ls
      | Some v \<Rightarrow> (case atoi (trim_space v) of Some n \<Rightarrow> Some n | None \<Rightarrow> first_number k ls))"

definition check_evicted_keys :: "prober \<Rightarrow> int \<times> bool" where
  "check_evicted_keys c =
     (case pb_Info c ''stats'' of
        Inl e \<Rightarrow> (0, False)
      | Inr raw \<Rightarrow> (case first_number ''evicted_keys'' (info_lines raw) of Some n \<Rightarrow> (n, True) | None \<Rightarrow> (0, False)))"

definition eviction_facts_ok :: "string \<Rightarrow> bool" where
  "eviction_facts_ok v \<longleftrightarrow> \<not> has_prefix (to_lower (trim_space v)) ''evictions_observed''"

section \<open>Persistence that fails\<close>

record persist_facts =
  pf_AOFEnabled :: string
  pf_AOFWriteStatus :: string
  pf_AOFRewriteState :: string
  pf_RDBBgsaveStatus :: string
  pf_Found :: bool

definition no_facts :: persist_facts where
  "no_facts = \<lparr>pf_AOFEnabled = [], pf_AOFWriteStatus = [], pf_AOFRewriteState = [], pf_RDBBgsaveStatus = [], pf_Found = False\<rparr>"

definition read_fact :: "string \<Rightarrow> persist_facts \<Rightarrow> persist_facts" where
  "read_fact line f =
     (case cut_colon (trim_space line) of
        None \<Rightarrow> f
      | Some (k, v0) \<Rightarrow>
          let v = to_lower (trim_space v0) in
          if k = ''aof_enabled'' then f\<lparr>pf_AOFEnabled := v, pf_Found := True\<rparr>
          else if k = ''aof_last_write_status'' then f\<lparr>pf_AOFWriteStatus := v, pf_Found := True\<rparr>
          else if k = ''aof_last_bgrewrite_status'' then f\<lparr>pf_AOFRewriteState := v, pf_Found := True\<rparr>
          else if k = ''rdb_last_bgsave_status'' then f\<lparr>pf_RDBBgsaveStatus := v, pf_Found := True\<rparr>
          else f)"

definition check_persist_facts :: "prober \<Rightarrow> persist_facts" where
  "check_persist_facts c =
     (case pb_Info c ''persistence'' of Inl e \<Rightarrow> no_facts | Inr raw \<Rightarrow> fold read_fact (info_lines raw) no_facts)"

text \<open>
  The failing fields, in the order of \<open>sort.Strings\<close>: their names, and so the texts that begin with
  them, sort as \<open>aof_last_bgrewrite_status\<close>, \<open>aof_last_write_status\<close>, \<open>rdb_last_bgsave_status\<close>.
\<close>

definition failing_facts :: "persist_facts \<Rightarrow> string list" where
  "failing_facts f =
     concat (map (\<lambda>(k, v). if v \<noteq> [] \<and> v \<noteq> ''ok'' then [k @ ''='' @ v] else [])
       [(''aof_last_bgrewrite_status'', pf_AOFRewriteState f), (''aof_last_write_status'', pf_AOFWriteStatus f),
        (''rdb_last_bgsave_status'', pf_RDBBgsaveStatus f)])"

definition evaluate_persist_facts :: "persist_facts \<Rightarrow> fact_status \<times> string" where
  "evaluate_persist_facts f =
     (if \<not> pf_Found f
      then (FactUnknown, ''Redis INFO persistence unavailable '' @ em_dash @ '' cannot tell whether this server's persistence is actually WORKING'')
      else if failing_facts f \<noteq> []
      then (FactViolated, ''Redis reports FAILED persistence: '' @ join_with '', '' (failing_facts f) @ ''. The configuration says it persists '' @
             ''(appendonly='' @ nz (pf_AOFEnabled f) @ ''); the SERVER says the writes are not landing '' @ em_dash @ '' a full disk, a '' @
             ''permissions error, a failing volume. The outbox holds MONEY events that nobody can reconstruct: '' @
             ''a pending settlement written here is lost on the next restart/failover. Free the disk / fix the '' @
             ''volume, then verify aof_last_write_status=ok.'')
      else (FactOk, ''persistence verified working (aof_last_write_status='' @ nz (pf_AOFWriteStatus f) @
             '', rdb_last_bgsave_status='' @ nz (pf_RDBBgsaveStatus f) @ '')''))"

definition to_upper :: "string \<Rightarrow> string" where
  "to_upper s = map (\<lambda>c. if CHR ''a'' \<le> c \<and> c \<le> CHR ''z'' then char_of ((of_char c :: nat) - 32) else c) s"

definition persist_facts_ok :: "string \<Rightarrow> bool" where
  "persist_facts_ok v \<longleftrightarrow> \<not> has_prefix (to_upper (trim_space v)) ''FAILING''"

definition check_durability :: "prober \<Rightarrow> bool \<Rightarrow> bool \<times> string" where
  "check_durability c confirmed =
     (let (policy, appendonly, save, unavailable) = read_policy c;
          (durable, reason) = evaluate_durability policy appendonly save unavailable confirmed;
          (status, detail) = evaluate_persist_facts (check_persist_facts c)
      in if \<not> durable then (durable, reason) else if status = FactViolated then (False, detail) else (True, reason))"

section \<open>Reachability\<close>

datatype err_kind = KindOther | KindAcl | KindAuth | KindUnreachable

definition auth_tokens :: "string list" where
  "auth_tokens = [''noauth'', ''wrongpass'', ''invalid password'', ''invalid username-password'', ''authentication required'']"

definition network_tokens :: "string list" where
  "network_tokens = [''connection refused'', ''connection reset'', ''broken pipe'', ''timed out'', ''i/o timeout'', ''no route to host'',
     ''network is unreachable'', ''no such host'', ''name or service not known'', ''dial tcp'', ''eof'', ''closed network connection'',
     ''context deadline exceeded'']"

definition classify_redis_error :: "redis_err option \<Rightarrow> err_kind" where
  "classify_redis_error err =
     (case err of
        None \<Rightarrow> KindOther
      | Some e \<Rightarrow>
          let s = to_lower (re_text e) in
          if contains s ''noperm'' then KindAcl
          else if list_ex (contains s) auth_tokens then KindAuth
          else if re_net e then KindUnreachable
          else if list_ex (contains s) network_tokens then KindUnreachable
          else KindOther)"

fun kind_text :: "err_kind \<Rightarrow> string" where
  "kind_text KindOther = []"
| "kind_text KindAcl = ''acl''"
| "kind_text KindAuth = ''auth''"
| "kind_text KindUnreachable = ''unreachable''"

end
