(* ===== verification/Preflight.thy ===== *)
theory Preflight
  imports RedisGuard Alerts
begin

text \<open>
  The judgements about the infrastructure at boot and at run time: the DynamoDB tables
  (\<open>ddbguard/ddbguard.go\<close>), the topology of the Redis, the gate on the counter store and the periodic
  re-verification with its alerts (\<open>quota/topology.go\<close>).
\<close>

section \<open>DynamoDB tables\<close>

text \<open>
  The answers of the control plane about one table: an error text, or what is described. \<open>None\<close> is
  a nil part of the answer.
\<close>

record table_answer =
  ta_Status :: string
  ta_Indexes :: "(string option \<times> string) list"

record describer =
  ds_Table :: "string \<Rightarrow> string + table_answer option"
  ds_TTL :: "string \<Rightarrow> string + (string \<times> string option) option"
  ds_PITR :: "string \<Rightarrow> string + string option"

definition env_pitr_confirmed :: "(string \<Rightarrow> string) \<Rightarrow> bool" where
  "env_pitr_confirmed getenv \<longleftrightarrow> affirmed (getenv ''AB0T_QUOTA_DDB_PITR_CONFIRMED'')"

text \<open>\<open>%q\<close> of plain text.\<close>

definition quoted :: "string \<Rightarrow> string" where
  "quoted s = [CHR 0x22] @ s @ [CHR 0x22]"

definition unsafe :: "string \<Rightarrow> string" where
  "unsafe detail = ''UNSAFE ('' @ detail @ '')''"

text \<open>The table and its indexes, \<open>Some\<close> detail when they are not usable.\<close>

definition table_fault :: "describer \<Rightarrow> string \<Rightarrow> string option" where
  "table_fault c table =
     (case ds_Table c table of
        Inl e \<Rightarrow> Some (''table '' @ quoted table @ '' not found or not describable'' @ '' ('' @ e @ '')'')
      | Inr None \<Rightarrow> Some (''table '' @ quoted table @ '' not found or not describable'')
      | Inr (Some t) \<Rightarrow>
          if ta_Status t \<noteq> ''ACTIVE'' then Some (''table '' @ quoted table @ '' is '' @ ta_Status t @ '', not ACTIVE'')
          else map_option (\<lambda>(name, st). ''GSI '' @ quoted (case name of Some n \<Rightarrow> n | None \<Rightarrow> []) @ '' is '' @ st @ '', not ACTIVE '' @ em_dash
                   @ '' queries against a backfilling index silently MISS rows (D-32)'')
                 (List.find (\<lambda>(name, st). st \<noteq> ''ACTIVE'') (ta_Indexes t)))"

text \<open>The expiry attribute: a fault, or the note and the warning.\<close>

definition ttl_verdict :: "describer \<Rightarrow> string \<Rightarrow> string \<Rightarrow> string + (string \<times> string)" where
  "ttl_verdict c table ttlAttribute =
     (case ds_TTL c table of
        Inr (Some (st, attr0)) \<Rightarrow>
          if st = ''ENABLED'' \<or> st = ''ENABLING''
          then let attr = (case attr0 of Some a \<Rightarrow> a | None \<Rightarrow> []) in
               if attr \<noteq> ttlAttribute
               then Inl (''TTL is enabled on attribute '' @ quoted attr @ '', but this library writes its expiry to '' @ quoted ttlAttribute @ '' ''
                      @ em_dash @ '' DynamoDB may DELETE rows the library never marked for expiry (including OPEN activations)'')
               else Inr (''ttl='' @ attr, [])
          else Inr (''ttl=DISABLED'', ''TTL is DISABLED on '' @ quoted table @ '': rows the library marks with '' @ quoted ttlAttribute @ '' will never reap ''
                 @ ''(unbounded growth and cost '' @ em_dash @ '' nothing is lost). Enable TTL on '' @ quoted ttlAttribute @ ''.'')
      | _ \<Rightarrow> Inr (''ttl=unverified'', ''TTL could not be verified on '' @ quoted table))"

text \<open>\<open>VerifyTable\<close>: the capability value, the fatal detail and the warning.\<close>

definition verify_table :: "describer \<Rightarrow> string \<Rightarrow> string \<Rightarrow> bool \<Rightarrow> string \<times> string \<times> string" where
  "verify_table c table ttlAttribute pitrConfirmed =
     (case table_fault c table of
        Some detail \<Rightarrow> (unsafe detail, detail, [])
      | None \<Rightarrow>
          (case ttl_verdict c table ttlAttribute of
             Inl detail \<Rightarrow> (unsafe detail, detail, [])
           | Inr (ttlNote, warn) \<Rightarrow>
               (case ds_PITR c table of
                  Inr (Some pitr) \<Rightarrow>
                    if pitr \<noteq> ''ENABLED''
                    then if pitrConfirmed then (''ACTIVE ('' @ ttlNote @ '', pitr='' @ pitr @ '' '' @ em_dash @ '' WAIVED by operator)'', [], warn)
                         else let detail = ''PITR (point-in-time recovery) is '' @ pitr @ '' on '' @ quoted table @ '' '' @ em_dash
                                    @ '' this table holds money/ledger state that cannot be reconstructed''
                              in (unsafe detail, detail, warn)
                    else (''ACTIVE ('' @ ttlNote @ '', pitr=ENABLED)'', [], warn)
                | _ \<Rightarrow>
                    if pitrConfirmed
                    then (''ACTIVE ('' @ ttlNote @ '', pitr=asserted by operator '' @ em_dash @ '' control plane cannot report it)'', [], warn)
                    else let detail = ''point-in-time recovery could not be verified on '' @ quoted table @ '' and storage.ddb_pitr_confirmed is not set ''
                               @ em_dash @ '' an unverified backup posture on a money store is not a safe one''
                         in (unsafe detail, detail, warn))))"

definition table_ok :: "string \<Rightarrow> bool" where
  "table_ok v \<longleftrightarrow> has_prefix (to_upper (trim_space v)) ''ACTIVE''"

section \<open>Topology\<close>

abbreviation topology_single_node :: string where "topology_single_node \<equiv> ''single-node''"
abbreviation topology_cluster :: string where "topology_cluster \<equiv> ''CLUSTER (unsupported)''"
abbreviation topology_unknown :: string where "topology_unknown \<equiv> ''unknown''"
abbreviation topology_na :: string where "topology_na \<equiv> ''n/a (no redis counter store)''"
abbreviation topology_probe_failed :: string where
  "topology_probe_failed \<equiv> ''PROBE FAILED (reachability/credentials '' @ em_dash @ '' not a topology verdict)''"

definition classify_probe_err :: "redis_err \<Rightarrow> err_kind" where
  "classify_probe_err err = (case classify_redis_error (Some err) of KindAcl \<Rightarrow> KindOther | k \<Rightarrow> k)"

definition parse_cluster_enabled :: "string \<Rightarrow> bool option" where
  "parse_cluster_enabled raw = map_option (\<lambda>v. v = ''1'') (first_field ''cluster_enabled'' (info_lines raw))"

definition probe_failure :: "string \<Rightarrow> redis_err \<Rightarrow> string" where
  "probe_failure what err = what @ '' probe failed ('' @ kind_text (classify_probe_err err) @ ''): '' @ re_text err @ '' '' @ em_dash
     @ '' a reachability/credential condition, not a topology signal''"

text \<open>
  \<open>probeClusterEnabledClassified\<close>: \<open>Inl\<close> when the probe could not run, otherwise the signal (\<open>None\<close>
  when there was none) and the probe it came from.
\<close>

definition cluster_info_signal :: "prober \<Rightarrow> string \<Rightarrow> string + (bool option \<times> string)" where
  "cluster_info_signal c infoWhy =
     (case pb_ClusterInfo c of
        Inl err \<Rightarrow>
          if contains (to_lower (re_text err)) ''cluster support disabled'' then Inr (Some False, ''CLUSTER INFO (server: cluster support disabled)'')
          else if classify_probe_err err \<noteq> KindOther then Inl (probe_failure ''CLUSTER INFO'' err)
          else Inr (None, ''INFO cluster ['' @ infoWhy @ '']; CLUSTER INFO ['' @ re_text err @ '']'')
      | Inr raw \<Rightarrow>
          (case parse_cluster_enabled raw of
             Some v \<Rightarrow> Inr (Some v, ''CLUSTER INFO'')
           | None \<Rightarrow> if contains raw ''cluster_state''
                     then Inr (Some True, ''CLUSTER INFO (answered '' @ [CHR 0xE2, CHR 0x87, CHR 0x92] @ '' cluster mode)'')
                     else Inr (None, ''INFO cluster ['' @ infoWhy @ '']; CLUSTER INFO [unparseable]'')))"

definition probe_cluster_enabled_classified :: "prober \<Rightarrow> string + (bool option \<times> string)" where
  "probe_cluster_enabled_classified c =
     (case pb_Info c ''cluster'' of
        Inl err \<Rightarrow> if classify_probe_err err \<noteq> KindOther then Inl (probe_failure ''INFO cluster'' err)
                   else cluster_info_signal c (re_text err)
      | Inr raw \<Rightarrow>
          (case parse_cluster_enabled raw of
             Some v \<Rightarrow> Inr (Some v, ''INFO cluster'')
           | None \<Rightarrow> cluster_info_signal c ''no cluster_enabled field''))"

definition probe_cluster_enabled :: "prober \<Rightarrow> bool option \<times> string" where
  "probe_cluster_enabled c =
     (case probe_cluster_enabled_classified c of Inl perr \<Rightarrow> (None, ''probe failed: '' @ perr) | Inr v \<Rightarrow> v)"

definition probe_data_plane_crossslot :: "(string list \<Rightarrow> redis_err option) \<Rightarrow> string + string" where
  "probe_data_plane_crossslot exists =
     (case exists [''quota:topology-probe:{foo}'', ''quota:topology-probe:{bar}''] of
        None \<Rightarrow> Inr []
      | Some err \<Rightarrow>
          if contains (to_upper (re_text err)) ''CROSSSLOT''
          then Inr (''data-plane probe: multi-key EXISTS across slots failed with CROSSSLOT '' @ em_dash
                 @ '' this Redis IS a cluster (no admin command was needed to know it)'')
          else if classify_probe_err err \<noteq> KindOther then Inl (probe_failure ''data-plane'' err)
          else Inr [])"

definition evaluate_topology :: "bool option \<Rightarrow> bool \<Rightarrow> string \<Rightarrow> string \<times> string" where
  "evaluate_topology signal confirmedDisabled probe0 =
     (let probe = (if probe0 = [] then ''topology probe'' else probe0) in
      case signal of
        Some True \<Rightarrow> (topology_cluster, probe @ '' reports cluster_enabled:1'')
      | Some False \<Rightarrow> (topology_single_node, probe @ '' reports cluster_enabled:0'')
      | None \<Rightarrow>
          if confirmedDisabled
          then (topology_single_node, topology_single_node @ '' (topology unverifiable '' @ em_dash @ '' '' @ probe
                 @ ''; non-clustered asserted by the operator: storage.redis_cluster_confirmed_disabled=true)'')
          else (topology_unknown, ''topology unverifiable ('' @ probe @ '') and storage.redis_cluster_confirmed_disabled is not set ''
                 @ em_dash @ '' an unverified topology is not a safe one''))"

definition admin_topology :: "prober \<Rightarrow> bool \<Rightarrow> string \<times> string" where
  "admin_topology c confirmedDisabled =
     (case probe_cluster_enabled_classified c of
        Inl perr \<Rightarrow> (topology_probe_failed, perr)
      | Inr (signal, probe) \<Rightarrow> evaluate_topology signal confirmedDisabled probe)"

definition check_redis_cluster_topology :: "prober \<Rightarrow> bool \<Rightarrow> string \<times> string" where
  "check_redis_cluster_topology c confirmedDisabled =
     (case pb_Exists c of
        None \<Rightarrow> admin_topology c confirmedDisabled
      | Some exists \<Rightarrow>
          (case probe_data_plane_crossslot exists of
             Inl perr \<Rightarrow> (topology_probe_failed, perr)
           | Inr verdict \<Rightarrow> if verdict \<noteq> [] then (topology_cluster, verdict) else admin_topology c confirmedDisabled))"

definition env_cluster_confirmed :: "(string \<Rightarrow> string) \<Rightarrow> bool" where
  "env_cluster_confirmed getenv \<longleftrightarrow> affirmed (getenv ''AB0T_QUOTA_REDIS_CLUSTER_CONFIRMED_DISABLED'')"

definition topology_capability_value :: "string \<Rightarrow> string \<Rightarrow> string" where
  "topology_capability_value topology detail =
     (if topology = topology_single_node then if has_prefix detail topology_single_node then detail else topology_single_node
      else topology)"

definition topology_ok :: "string \<Rightarrow> bool" where
  "topology_ok v \<longleftrightarrow> (let s = to_lower (trim_space v) in has_prefix s topology_single_node \<or> has_prefix s ''n/a'')"

definition counter_store_ok :: "string \<Rightarrow> bool" where
  "counter_store_ok v \<longleftrightarrow>
     (let s = to_lower (trim_space v) in
      s \<noteq> [] \<and> \<not> has_prefix s ''unknown'' \<and> \<not> has_prefix s ''evicting'' \<and> \<not> list_ex (contains s) evicting_policies)"

definition scripting_ok :: "string \<Rightarrow> bool" where
  "scripting_ok v \<longleftrightarrow> has_prefix (to_lower (trim_space v)) ''on''"

section \<open>Capabilities\<close>

text \<open>
  The report of what is wired, \<open>Capabilities\<close> of \<open>quota/setup.go\<close>; the provenance of the resolved
  settings (\<open>Resolved\<close>) is left out.
\<close>

record resolved_entry =
  en_Value :: string
  en_Source :: string

record capabilities =
  cp_Engine :: bool
  cp_Enforcement :: bool
  cp_ShadowMode :: bool
  cp_Billing :: bool
  cp_Payment :: bool
  cp_Alerts :: bool
  cp_AlertsWebhook :: bool
  cp_AuthEvents :: bool
  cp_CreditGrant :: bool
  cp_AutoSubscribe :: bool
  cp_LedgerBackend :: string
  cp_FloatStore :: string
  cp_Outbox :: string
  cp_BillingStatus :: string
  cp_Reconciler :: string
  cp_RedisTopology :: string
  cp_CounterEvictionPolicy :: string
  cp_RedisScripting :: string
  cp_RedisVersion :: string
  cp_DDBHandlerLedger :: string
  cp_RedisPersistStatus :: string
  cp_CounterEvictionsObserved :: string
  cp_PreflightReverification :: string
  cp_MemoryHeadroom :: string
  cp_RedisReachable :: string
  cp_Keyspace :: string
  cp_WhyOff :: "string \<rightharpoonup> string"
  cp_ConfigWarnings :: "config_warning list"
  cp_Resolved :: "string \<rightharpoonup> resolved_entry"

definition start_capabilities :: capabilities where
  "start_capabilities = \<lparr>cp_Engine = True, cp_Enforcement = False, cp_ShadowMode = False, cp_Billing = False, cp_Payment = False, cp_Alerts = False,
     cp_AlertsWebhook = False, cp_AuthEvents = False, cp_CreditGrant = False, cp_AutoSubscribe = False, cp_LedgerBackend = [], cp_FloatStore = [],
     cp_Outbox = [], cp_BillingStatus = [], cp_Reconciler = [], cp_RedisTopology = [], cp_CounterEvictionPolicy = [], cp_RedisScripting = [],
     cp_RedisVersion = [], cp_DDBHandlerLedger = [], cp_RedisPersistStatus = [], cp_CounterEvictionsObserved = [], cp_PreflightReverification = [],
     cp_MemoryHeadroom = [], cp_RedisReachable = [], cp_Keyspace = [], cp_WhyOff = Map.empty, cp_ConfigWarnings = [], cp_Resolved = Map.empty\<rparr>"

text \<open>The fields of \<open>config.StorageConfig\<close> that only the wiring reads.\<close>

record storage_flags =
  sf_RedisPassword :: string
  sf_RedisClusterConfirmedDisabled :: bool
  sf_RedisDurabilityConfirmed :: bool
  sf_DDBPITRConfirmed :: bool
  sf_ConnectRetrySeconds :: "f64 option"
  sf_DynamoDBTable :: string
  sf_DynamoDBRegion :: string

definition cluster_confirmed_disabled :: "(string \<Rightarrow> string) \<Rightarrow> storage_flags \<Rightarrow> bool" where
  "cluster_confirmed_disabled getenv sc \<longleftrightarrow> sf_RedisClusterConfirmedDisabled sc \<or> env_cluster_confirmed getenv"

definition eviction_capability :: "bool \<times> string \<Rightarrow> string" where
  "eviction_capability v = (if fst v then snd v else ''EVICTING/UNVERIFIED ('' @ snd v @ '')'')"

definition scripting_capability :: "bool \<times> string \<Rightarrow> string" where
  "scripting_capability v = (if fst v then snd v else ''OFF ('' @ snd v @ '')'')"

definition version_capability :: "version_status \<times> string \<Rightarrow> string" where
  "version_capability v =
     (case fst v of VersionOk \<Rightarrow> snd v | VersionBelowFloor \<Rightarrow> ''below_floor ('' @ snd v @ '')'' | VersionUnknown \<Rightarrow> ''unknown ('' @ snd v @ '')'')"

fun memory_status_text :: "memory_status \<Rightarrow> string" where
  "memory_status_text MemoryOk = ''ok''"
| "memory_status_text LowHeadroom = ''low_headroom''"
| "memory_status_text MemoryUnbounded = ''unbounded''"
| "memory_status_text MemoryUnknown = ''unknown''"

definition memory_capability :: "memory_status \<times> string \<Rightarrow> string" where
  "memory_capability v =
     (case fst v of LowHeadroom \<Rightarrow> ''low_headroom ('' @ snd v @ '')'' | MemoryOk \<Rightarrow> snd v | st \<Rightarrow> memory_status_text st)"

section \<open>The gate on the counter store\<close>

text \<open>The capabilities as far as they are written, and the refusal if there is one.\<close>

definition gate_counter_store :: "(string \<Rightarrow> string) \<Rightarrow> prober \<Rightarrow> storage_flags \<Rightarrow> capabilities \<Rightarrow> refusal option \<times> capabilities" where
  "gate_counter_store getenv c sc cap =
     (let ev = check_counter_eviction c (sf_RedisDurabilityConfirmed sc \<or> env_durability_confirmed getenv);
          cap = cap\<lparr>cp_CounterEvictionPolicy := eviction_capability ev\<rparr>
      in if \<not> fst ev then (Some (CounterEviction (snd ev)), cap)
      else let sp = check_script_capability c; cap = cap\<lparr>cp_RedisScripting := scripting_capability sp\<rparr>
      in if \<not> fst sp then (Some (ScriptingUnsupported (snd sp)), cap)
      else let vs = check_version c version_floor; cap = cap\<lparr>cp_RedisVersion := version_capability vs\<rparr>
      in if fst vs = VersionBelowFloor then (Some (RedisVersion (snd vs)), cap)
      else (None, cap\<lparr>cp_MemoryHeadroom := memory_capability (check_memory_headroom c)\<rparr>))"

text \<open>The two gates \<open>Setup\<close> runs on a connected Redis, the topology first.\<close>

definition boot_preflight :: "(string \<Rightarrow> string) \<Rightarrow> prober \<Rightarrow> storage_flags \<Rightarrow> capabilities \<Rightarrow> refusal option \<times> capabilities" where
  "boot_preflight getenv c sc cap =
     (let (topo, detail) = check_redis_cluster_topology c (cluster_confirmed_disabled getenv sc);
          cap = cap\<lparr>cp_RedisTopology := topology_capability_value topo detail\<rparr>
      in if topo \<noteq> topology_single_node then (Some (ClusterTopology topo detail), cap) else gate_counter_store getenv c sc cap)"

section \<open>Re-verification at run time\<close>

definition evictions_capability :: "fact_status \<times> string \<Rightarrow> string" where
  "evictions_capability v =
     (case fst v of FactViolated \<Rightarrow> ''evictions_observed ('' @ snd v @ '')'' | FactOk \<Rightarrow> snd v | FactUnknown \<Rightarrow> ''unknown'')"

definition persist_capability :: "bool \<Rightarrow> fact_status \<times> string \<Rightarrow> string" where
  "persist_capability outboxOnRedis v =
     (case fst v of
        FactViolated \<Rightarrow> if outboxOnRedis then ''FAILING ('' @ snd v @ '')''
          else ''persistence failing, but the OUTBOX is not on this Redis '' @ em_dash @ '' the counter heals (reconciler '' @ arrow @ '' ''
                 @ [CHR 0xCE, CHR 0xA3] @ '' open activations). Fix it anyway: '' @ snd v
      | FactOk \<Rightarrow> snd v
      | FactUnknown \<Rightarrow> ''unknown'')"

text \<open>
  \<open>verifyRedisInvariants\<close>: the values to publish, in the record's own fields, and the invariants that
  do not hold, each with its detail.
\<close>

definition verify_redis_invariants ::
  "(string \<Rightarrow> string) \<Rightarrow> prober \<Rightarrow> storage_flags \<Rightarrow> bool \<Rightarrow> capabilities \<Rightarrow> capabilities \<times> (string \<times> string) list" where
  "verify_redis_invariants getenv c sc outboxOnRedis cap =
     (let (topo, topoDetail) = check_redis_cluster_topology c (sf_RedisClusterConfirmedDisabled sc \<or> env_cluster_confirmed getenv);
          ev = check_counter_eviction c (sf_RedisDurabilityConfirmed sc \<or> env_durability_confirmed getenv);
          sp = check_script_capability c;
          vs = check_version c version_floor;
          fe = (case check_evicted_keys c of (evicted, found) \<Rightarrow> evaluate_eviction_facts evicted found);
          pe = evaluate_persist_facts (check_persist_facts c);
          me = check_memory_headroom c
      in (cap\<lparr>cp_RedisTopology := topology_capability_value topo topoDetail, cp_CounterEvictionPolicy := eviction_capability ev,
             cp_RedisScripting := scripting_capability sp, cp_RedisVersion := version_capability vs,
             cp_MemoryHeadroom := memory_capability me, cp_CounterEvictionsObserved := evictions_capability fe,
             cp_RedisPersistStatus := persist_capability outboxOnRedis pe\<rparr>,
          (if topo \<noteq> topology_single_node then [(''redis_topology'', topoDetail)] else [])
          @ (if fst ev then [] else [(''counter_eviction_policy'', snd ev)])
          @ (if fst sp then [] else [(''redis_scripting'', snd sp)])
          @ (if fst vs = VersionBelowFloor then [(''redis_version'', snd vs)] else [])
          @ (if fst fe = FactViolated then [(''counter_evictions_observed'', snd fe)] else [])
          @ (if fst pe = FactViolated \<and> outboxOnRedis then [(''redis_persist_status'', snd pe)] else [])
          @ (if fst me = LowHeadroom then [(''memory_headroom'', snd me)] else [])))"

text \<open>What the running library keeps of the last verification, and its alert manager.\<close>

record revalidation =
  rv_capability :: capabilities
  rv_unsafeInvariants :: "string list"
  rv_counterUntrusted :: bool
  rv_outboxOnRedis :: bool
  rv_alerts :: "manager option"

definition revalidate :: "(string \<Rightarrow> string) \<Rightarrow> prober \<Rightarrow> storage_flags \<Rightarrow> revalidation \<Rightarrow> revalidation" where
  "revalidate getenv c sc q =
     (let (caps, found) = verify_redis_invariants getenv c sc (rv_outboxOnRedis q) (rv_capability q);
          nowUnsafe = map fst found;
          healed = filter (\<lambda>n. n \<notin> set nowUnsafe) (rv_unsafeInvariants q)
      in q\<lparr>rv_capability := caps, rv_counterUntrusted := (''counter_evictions_observed'' \<in> set nowUnsafe), rv_unsafeInvariants := nowUnsafe,
            rv_alerts := map_option (fold notify_invariant_restored healed \<circ> fold (\<lambda>(n, d). notify_invariant_violated n d) found) (rv_alerts q)\<rparr>)"

section \<open>The two judgements agree\<close>

abbreviation boot_invariants :: "string set" where
  "boot_invariants \<equiv> {''redis_topology'', ''counter_eviction_policy'', ''redis_scripting'', ''redis_version''}"

lemma boot_passes:
  "fst (boot_preflight getenv c sc cap) = None \<longleftrightarrow>
     fst (check_redis_cluster_topology c (cluster_confirmed_disabled getenv sc)) = topology_single_node
     \<and> fst (check_counter_eviction c (sf_RedisDurabilityConfirmed sc \<or> env_durability_confirmed getenv))
     \<and> fst (check_script_capability c) \<and> fst (check_version c version_floor) \<noteq> VersionBelowFloor"
  by (auto simp: boot_preflight_def gate_counter_store_def Let_def split: prod.split)

lemma boot_publishes:
  assumes "fst (boot_preflight getenv c sc cap) = None"
  shows "snd (boot_preflight getenv c sc cap) =
     cap\<lparr>cp_RedisTopology := (case check_redis_cluster_topology c (cluster_confirmed_disabled getenv sc) of (t, d) \<Rightarrow> topology_capability_value t d),
       cp_CounterEvictionPolicy := eviction_capability (check_counter_eviction c (sf_RedisDurabilityConfirmed sc \<or> env_durability_confirmed getenv)),
       cp_RedisScripting := scripting_capability (check_script_capability c),
       cp_RedisVersion := version_capability (check_version c version_floor),
       cp_MemoryHeadroom := memory_capability (check_memory_headroom c)\<rparr>"
  using assms by (auto simp: boot_passes) (auto simp: boot_preflight_def gate_counter_store_def Let_def split: prod.split)

lemma flagged: "n \<in> fst ` set (if b then [(m, d)] else []) \<longleftrightarrow> b \<and> n = m" "n \<in> fst ` set (if b then [] else [(m, d)]) \<longleftrightarrow> \<not> b \<and> n = m"
  by auto

lemma reported:
  "''redis_topology'' \<in> fst ` set (snd (verify_redis_invariants getenv c sc onRedis cap)) \<longleftrightarrow>
     fst (check_redis_cluster_topology c (cluster_confirmed_disabled getenv sc)) \<noteq> topology_single_node"
  "''counter_eviction_policy'' \<in> fst ` set (snd (verify_redis_invariants getenv c sc onRedis cap)) \<longleftrightarrow>
     \<not> fst (check_counter_eviction c (sf_RedisDurabilityConfirmed sc \<or> env_durability_confirmed getenv))"
  "''redis_scripting'' \<in> fst ` set (snd (verify_redis_invariants getenv c sc onRedis cap)) \<longleftrightarrow> \<not> fst (check_script_capability c)"
  "''redis_version'' \<in> fst ` set (snd (verify_redis_invariants getenv c sc onRedis cap)) \<longleftrightarrow> fst (check_version c version_floor) = VersionBelowFloor"
  "''counter_evictions_observed'' \<in> fst ` set (snd (verify_redis_invariants getenv c sc onRedis cap)) \<longleftrightarrow>
     fst (case check_evicted_keys c of (n, found) \<Rightarrow> evaluate_eviction_facts n found) = FactViolated"
  "''redis_persist_status'' \<in> fst ` set (snd (verify_redis_invariants getenv c sc onRedis cap)) \<longleftrightarrow>
     fst (evaluate_persist_facts (check_persist_facts c)) = FactViolated \<and> onRedis"
  "''memory_headroom'' \<in> fst ` set (snd (verify_redis_invariants getenv c sc onRedis cap)) \<longleftrightarrow> fst (check_memory_headroom c) = LowHeadroom"
  unfolding verify_redis_invariants_def Let_def cluster_confirmed_disabled_def case_prod_unfold snd_conv set_append image_Un Un_iff flagged
  by (simp_all del: fst_conv)

lemma reported_names:
  "n \<in> fst ` set (snd (verify_redis_invariants getenv c sc onRedis cap)) \<Longrightarrow>
   n = ''redis_topology'' \<or> n = ''counter_eviction_policy'' \<or> n = ''redis_scripting'' \<or> n = ''redis_version'' \<or> n = ''counter_evictions_observed''
     \<or> n = ''redis_persist_status'' \<or> n = ''memory_headroom''"
  unfolding verify_redis_invariants_def Let_def case_prod_unfold snd_conv set_append image_Un Un_iff flagged
  by (elim disjE conjE) (simp_all only: simp_thms)

text \<open>
  C21. The re-verification at run time judges a Redis as the gates at boot do: on the same answers, the
  boot is refused exactly when the re-verification reports the topology, the eviction policy, the
  scripting or the version, and a boot that passes published the very values it publishes.
\<close>

theorem recheck_judges_as_boot:
  "(fst (boot_preflight getenv c sc cap) = None \<longleftrightarrow>
      boot_invariants \<inter> set (map fst (snd (verify_redis_invariants getenv c sc onRedis cap))) = {})
   \<and> (fst (boot_preflight getenv c sc cap) = None \<longrightarrow>
      snd (boot_preflight getenv c sc cap) =
        (fst (verify_redis_invariants getenv c sc onRedis cap))
          \<lparr>cp_CounterEvictionsObserved := cp_CounterEvictionsObserved cap, cp_RedisPersistStatus := cp_RedisPersistStatus cap\<rparr>)"
proof (intro conjI impI)
  show "fst (boot_preflight getenv c sc cap) = None \<longleftrightarrow>
      boot_invariants \<inter> set (map fst (snd (verify_redis_invariants getenv c sc onRedis cap))) = {}"
    by (simp add: boot_passes disjoint_insert reported cluster_confirmed_disabled_def)
next
  assume "fst (boot_preflight getenv c sc cap) = None"
  then show "snd (boot_preflight getenv c sc cap) =
        (fst (verify_redis_invariants getenv c sc onRedis cap))
          \<lparr>cp_CounterEvictionsObserved := cp_CounterEvictionsObserved cap, cp_RedisPersistStatus := cp_RedisPersistStatus cap\<rparr>"
    unfolding boot_publishes [OF \<open>fst (boot_preflight getenv c sc cap) = None\<close>]
    by (unfold verify_redis_invariants_def cluster_confirmed_disabled_def Let_def case_prod_unfold fst_conv) (rule capabilities.equality; simp)
qed

section \<open>What a boot that passes has seen\<close>

lemma evaluate_topology_single:
  "fst (evaluate_topology signal conf probe) = topology_single_node \<longleftrightarrow> signal = Some False \<or> (signal = None \<and> conf)"
  by (auto simp: evaluate_topology_def Let_def split: option.split bool.split)

lemma single_node_seen:
  assumes "fst (check_redis_cluster_topology c conf) = topology_single_node"
  shows "\<exists>signal probe. probe_cluster_enabled_classified c = Inr (signal, probe) \<and> (signal = Some False \<or> (signal = None \<and> conf))"
    and "pb_Exists c = Some ex \<Longrightarrow> ex [''quota:topology-probe:{foo}'', ''quota:topology-probe:{bar}''] = Some e \<Longrightarrow>
      \<not> contains (to_upper (re_text e)) ''CROSSSLOT''"
  using assms
  by (auto simp: check_redis_cluster_topology_def admin_topology_def evaluate_topology_single probe_data_plane_crossslot_def
      split: option.split_asm sum.split_asm if_split_asm)

text \<open>What the two admin probes answered: the field \<open>cluster_enabled\<close> of each, when there is one.\<close>

definition info_field :: "prober \<Rightarrow> string option" where
  "info_field c = (case pb_Info c ''cluster'' of Inl e \<Rightarrow> None | Inr raw \<Rightarrow> first_field ''cluster_enabled'' (info_lines raw))"

definition cluster_field :: "prober \<Rightarrow> string option" where
  "cluster_field c = (case pb_ClusterInfo c of Inl e \<Rightarrow> None | Inr raw \<Rightarrow> first_field ''cluster_enabled'' (info_lines raw))"

lemma signal_read:
  assumes "probe_cluster_enabled_classified c = Inr (signal, probe)" and "signal \<noteq> Some True"
  shows "info_field c \<noteq> Some ''1''"
    and "info_field c = None \<Longrightarrow> cluster_field c \<noteq> Some ''1''"
    and "info_field c = None \<Longrightarrow> cluster_field c = None \<Longrightarrow> pb_ClusterInfo c = Inr raw \<Longrightarrow> \<not> contains raw ''cluster_state''"
    and "info_field c = None \<Longrightarrow> cluster_field c = None \<Longrightarrow>
      (\<And>e. pb_ClusterInfo c = Inl e \<Longrightarrow> \<not> contains (to_lower (re_text e)) ''cluster support disabled'') \<Longrightarrow> signal = None"
  using assms
  by (auto simp: probe_cluster_enabled_classified_def cluster_info_signal_def parse_cluster_enabled_def info_field_def cluster_field_def
      split: sum.split_asm option.split_asm if_split_asm)

lemma evicting_normal: "p \<in> set evicting_policies \<Longrightarrow> to_lower (trim_space p) = p"
  unfolding evicting_policies_def by (auto simp: to_lower_def trim_space_def is_space_def)

lemma eviction_verdict: "fst (evaluate_eviction p u conf) \<longleftrightarrow> (if u then conf else to_lower (trim_space p) \<notin> set evicting_policies)"
  by (simp add: evaluate_eviction_def Let_def)

lemma counter_eviction_verdict:
  "fst (check_counter_eviction c conf) \<longleftrightarrow>
     (if isl (config_value c ''maxmemory-policy'') \<or> isl (config_value c ''appendonly'') \<or> isl (config_value c ''save'') then conf
      else to_lower (trim_space (or_empty (config_value c ''maxmemory-policy''))) \<notin> set evicting_policies)"
  by (simp add: check_counter_eviction_def read_policy_def eviction_verdict Let_def)

lemma policy_read:
  assumes "fst (check_counter_eviction c conf)"
  shows "config_value c ''maxmemory-policy'' = Inr p \<Longrightarrow> \<not> isl (config_value c ''appendonly'') \<Longrightarrow> \<not> isl (config_value c ''save'') \<Longrightarrow> p \<notin> set evicting_policies"
    and "isl (config_value c ''maxmemory-policy'') \<or> isl (config_value c ''appendonly'') \<or> isl (config_value c ''save'') \<Longrightarrow> conf"
proof -
  assume a: "config_value c ''maxmemory-policy'' = Inr p" and b: "\<not> isl (config_value c ''appendonly'')" "\<not> isl (config_value c ''save'')"
  from assms have "to_lower (trim_space p) \<notin> set evicting_policies" unfolding counter_eviction_verdict by (simp only: a b) (simp add: or_empty_def)
  then show "p \<notin> set evicting_policies" by (rule contrapos_nn) (simp only: evicting_normal)
next
  assume "isl (config_value c ''maxmemory-policy'') \<or> isl (config_value c ''appendonly'') \<or> isl (config_value c ''save'')"
  with assms show conf unfolding counter_eviction_verdict by (simp only: if_True)
qed

lemma blank_has_no_version: "trim_space v = [] \<Longrightarrow> match_version v = None"
proof -
  assume "trim_space v = []"
  then have all: "\<forall>x \<in> set (dropWhile is_space v). is_space x" by (simp add: trim_space_def dropWhile_eq_Nil_conv)
  have "dropWhile is_space v = []"
  proof (rule ccontr)
    assume ne: "dropWhile is_space v \<noteq> []"
    from hd_dropWhile [OF ne] hd_in_set [OF ne] all show False by blast
  qed
  then have "list_all is_space v" by (simp add: dropWhile_eq_Nil_conv list_all_iff)
  then show ?thesis
  proof (induction v)
    case (Cons x v)
    then have "\<not> is_digit x" by (auto simp: is_space_def is_digit_def)
    with Cons show ?case by (simp add: match_version_here_def Let_def)
  qed simp
qed

lemma version_read:
  assumes "fst (check_version c least) \<noteq> VersionBelowFloor" and "pb_Info c ''server'' = Inr raw"
    and "first_field ''redis_version'' (info_lines raw) = Some v" and "match_version v = Some (x, y, z)"
  shows "\<not> version_less (version_part x, version_part y, version_part z) least"
  using assms blank_has_no_version [of v] by (auto simp: check_version_def evaluate_version_def split: if_split_asm)


text \<open>A server that answers every probe well, and one whose configuration can be read only in part.\<close>

definition line :: "string \<Rightarrow> string" where
  "line s = s @ [CHR 0x0D, CHR 0x0A]"

definition good_redis :: prober where
  "good_redis = \<lparr>pb_ConfigGet = (\<lambda>k. Inr [k \<mapsto> (if k = ''maxmemory-policy'' then ''noeviction'' else ''yes'')]),
     pb_ScriptLoad = Inr ''0123456789abcdef'',
     pb_Info = (\<lambda>section. Inr (if section = ''cluster'' then line ''cluster_enabled:0'' else if section = ''server'' then line ''redis_version:7.2.4'' else [])),
     pb_ClusterInfo = Inl \<lparr>re_text = ''ERR This instance has cluster support disabled'', re_net = False\<rparr>,
     pb_Exists = Some (\<lambda>ks. None)\<rparr>"

definition no_assertions :: storage_flags where
  "no_assertions = \<lparr>sf_RedisPassword = [], sf_RedisClusterConfirmedDisabled = False, sf_RedisDurabilityConfirmed = False, sf_DDBPITRConfirmed = False,
     sf_ConnectRetrySeconds = None, sf_DynamoDBTable = [], sf_DynamoDBRegion = []\<rparr>"

lemma good_redis_topology: "fst (check_redis_cluster_topology good_redis conf) = topology_single_node"
  by (simp add: check_redis_cluster_topology_def good_redis_def probe_data_plane_crossslot_def admin_topology_def probe_cluster_enabled_classified_def
      parse_cluster_enabled_def info_lines_def line_def cut_prefix_def trim_space_def is_space_def evaluate_topology_single)

lemma good_redis_eviction: "fst (check_counter_eviction good_redis conf)"
  by (simp add: counter_eviction_verdict config_value_def good_redis_def or_empty_def evicting_policies_def to_lower_def trim_space_def is_space_def)

lemma good_redis_version: "fst (check_version good_redis version_floor) = VersionOk"
  by (simp add: check_version_def good_redis_def info_lines_def line_def cut_prefix_def trim_space_def is_space_def evaluate_version_def
      match_version_here_def is_digit_def version_part_def digits_value_def version_floor_def Let_def)

lemma good_redis_boots: "fst (boot_preflight getenv good_redis sc cap) = None"
  unfolding boot_passes using good_redis_topology good_redis_eviction good_redis_version
  by (simp add: check_script_capability_def good_redis_def)


theorem recheck_judges_as_boot_witness:
  "boot_invariants \<inter> set (map fst (snd (verify_redis_invariants (\<lambda>_. []) good_redis no_assertions True start_capabilities))) = {}"
  by (rule recheck_judges_as_boot [THEN conjunct1, THEN iffD1, OF good_redis_boots])

text \<open>
  The operator's assertion about an unreadable configuration hides a policy that was read: when
  \<open>CONFIG GET\<close> answered an evicting policy and failed only for another setting, the counter's Redis is
  accepted with the assertion, which the same answers with that setting readable would not allow.
\<close>

theorem assertion_masks_evicting_policy:
  assumes "config_value c ''maxmemory-policy'' = Inr p" and "p \<in> set evicting_policies" and "pb_ConfigGet c ''save'' = Inl e"
  shows "fst (check_counter_eviction c True)
    \<and> \<not> fst (check_counter_eviction (c\<lparr>pb_ConfigGet := (pb_ConfigGet c)(''appendonly'' := Inr m, ''save'' := Inr m')\<rparr>) True)"
proof
  have "isl (config_value c ''save'')" using assms(3) by (simp add: config_value_def)
  then show "fst (check_counter_eviction c True)" unfolding counter_eviction_verdict by (simp only: simp_thms if_True)
next
  let ?c = "c\<lparr>pb_ConfigGet := (pb_ConfigGet c)(''appendonly'' := Inr m, ''save'' := Inr m')\<rparr>"
  have a: "config_value ?c ''maxmemory-policy'' = Inr p" using assms(1) by (simp add: config_value_def)
  have b: "\<not> isl (config_value ?c ''appendonly'')" "\<not> isl (config_value ?c ''save'')" by (simp_all add: config_value_def)
  show "\<not> fst (check_counter_eviction ?c True)" using policy_read(1) [OF _ a b] assms(2) by blast
qed

theorem assertion_masks_evicting_policy_witness:
  "fst (check_counter_eviction (good_redis\<lparr>pb_ConfigGet := (\<lambda>k. if k = ''save'' then Inl \<lparr>re_text = ''NOPERM'', re_net = False\<rparr>
     else Inr [k \<mapsto> ''allkeys-lru''])\<rparr>) True)"
proof -
  let ?c = "good_redis\<lparr>pb_ConfigGet := (\<lambda>k. if k = ''save'' then Inl \<lparr>re_text = ''NOPERM'', re_net = False\<rparr> else Inr [k \<mapsto> ''allkeys-lru''])\<rparr>"
  have "config_value ?c ''maxmemory-policy'' = Inr ''allkeys-lru''" by (simp add: config_value_def to_lower_def trim_space_def is_space_def)
  moreover have "''allkeys-lru'' \<in> set evicting_policies" by (simp add: evicting_policies_def)
  moreover have "pb_ConfigGet ?c ''save'' = Inl \<lparr>re_text = ''NOPERM'', re_net = False\<rparr>" by simp
  ultimately show ?thesis using assertion_masks_evicting_policy by blast
qed

section \<open>The health predicates read the verdicts\<close>

lemma trimmed_prefix:
  assumes "p \<noteq> []" and "\<not> is_space (hd p)" and "\<not> is_space (last p)"
  obtains t where "trim_space (p @ s) = p @ t"
proof -
  have "dropWhile is_space (p @ s) = p @ s" using assms(1,2) by (cases p) auto
  moreover have "\<exists>t. rev (dropWhile is_space (rev s @ rev p)) = p @ t"
  proof (cases "list_all is_space s")
    case True
    then have "dropWhile is_space (rev s @ rev p) = dropWhile is_space (rev p)"
      by (simp add: dropWhile_append list_all_iff)
    also have "\<dots> = rev p" using assms(1,3) by (cases p rule: rev_cases) auto
    finally show ?thesis by simp
  next
    case False
    then obtain x where x: "x \<in> set (rev s)" "\<not> is_space x" by (auto simp: list_all_iff)
    from dropWhile_append1 [of x "rev s" is_space "rev p", OF x] show ?thesis by simp
  qed
  ultimately show ?thesis using that by (auto simp: trim_space_def)
qed

lemma has_prefix_long: "length q \<le> length p \<Longrightarrow> has_prefix (p @ t) q \<longleftrightarrow> has_prefix p q"
  by (induction p q rule: has_prefix.induct) auto

lemma folded_prefix:
  assumes "p \<noteq> []" and "\<not> is_space (hd p)" and "\<not> is_space (last p)" and "length q \<le> length p"
  shows "has_prefix (to_lower (trim_space (p @ s))) q \<longleftrightarrow> has_prefix (to_lower p) q"
    and "has_prefix (to_upper (trim_space (p @ s))) q \<longleftrightarrow> has_prefix (to_upper p) q"
proof -
  obtain t where "trim_space (p @ s) = p @ t" by (rule trimmed_prefix [OF assms(1-3)])
  then show "has_prefix (to_lower (trim_space (p @ s))) q \<longleftrightarrow> has_prefix (to_lower p) q"
    "has_prefix (to_upper (trim_space (p @ s))) q \<longleftrightarrow> has_prefix (to_upper p) q"
    using assms(4) by (simp_all add: to_lower_def to_upper_def has_prefix_long)
qed

lemma folded_words:
  "to_lower ''EVICTING'' = ''evicting''" "to_lower ''OFF'' = ''off''" "to_lower ''evictions_observed'' = ''evictions_observed''"
  "to_upper ''FAILING'' = ''FAILING''" "to_lower ''low_headroom'' = ''low_headroom''" "to_upper ''ACTIVE'' = ''ACTIVE''" "to_upper ''UNSAFE'' = ''UNSAFE''"
  by code_simp+

lemma evicting_is_unhealthy: "\<not> fst ev \<Longrightarrow> \<not> counter_store_ok (eviction_capability ev)"
  using folded_prefix(1) [of "''EVICTING''" "''evicting''" "''/UNVERIFIED ('' @ snd ev @ '')''"]
  by (simp add: eviction_capability_def counter_store_ok_def is_space_def folded_words Let_def)

lemma scriptless_is_unhealthy: "\<not> fst sp \<Longrightarrow> \<not> scripting_ok (scripting_capability sp)"
  using folded_prefix(1) [of "''OFF''" "''on''" "'' ('' @ snd sp @ '')''"]
  by (simp add: scripting_capability_def scripting_ok_def is_space_def folded_words)

lemma evicted_is_unhealthy: "fst fe = FactViolated \<Longrightarrow> \<not> eviction_facts_ok (evictions_capability fe)"
  using folded_prefix(1) [of "''evictions_observed''" "''evictions_observed''" "'' ('' @ snd fe @ '')''"]
  by (simp add: evictions_capability_def eviction_facts_ok_def is_space_def folded_words)

lemma failing_is_unhealthy: "fst pe = FactViolated \<Longrightarrow> \<not> persist_facts_ok (persist_capability True pe)"
  using folded_prefix(2) [of "''FAILING''" "''FAILING''" "'' ('' @ snd pe @ '')''"]
  by (simp add: persist_capability_def persist_facts_ok_def is_space_def folded_words)

lemma crowded_is_unhealthy: "fst me = LowHeadroom \<Longrightarrow> \<not> memory_headroom_ok (memory_capability me)"
  using folded_prefix(1) [of "''low_headroom''" "''low_headroom''" "'' ('' @ snd me @ '')''"]
  by (simp add: memory_capability_def memory_headroom_ok_def is_space_def folded_words)

lemma topology_values: "fst (check_redis_cluster_topology c conf) \<in> {topology_single_node, topology_cluster, topology_unknown, topology_probe_failed}"
  by (simp add: check_redis_cluster_topology_def admin_topology_def evaluate_topology_def Let_def split: option.split sum.split bool.split)

lemma clustered_is_unhealthy:
  assumes "t \<in> {topology_single_node, topology_cluster, topology_unknown, topology_probe_failed}" and "t \<noteq> topology_single_node"
  shows "\<not> topology_ok (topology_capability_value t d)"
proof -
  have "t = topology_cluster \<or> t = topology_unknown \<or> t = topology_probe_failed" using assms by blast
  moreover have "\<not> topology_ok topology_cluster" "\<not> topology_ok topology_unknown" "\<not> topology_ok topology_probe_failed" by code_simp+
  ultimately show ?thesis using assms(2) by (auto simp: topology_capability_value_def)
qed

lemma table_ok_active: "table_ok (CHR ''A'' # CHR ''C'' # CHR ''T'' # CHR ''I'' # CHR ''V'' # CHR ''E'' # s)"
  using folded_prefix(2) [of "''ACTIVE''" "''ACTIVE''" s] by (simp add: table_ok_def is_space_def folded_words)

lemma table_ok_verdict: "fst (snd (verify_table c table attr conf)) = [] \<longleftrightarrow> table_ok (fst (verify_table c table attr conf))"
proof -
  have bad: "\<not> table_ok (unsafe s)" for s
    using folded_prefix(2) [of "''UNSAFE''" "''ACTIVE''" "'' ('' @ s @ '')''"] by (simp add: unsafe_def table_ok_def is_space_def folded_words)
  have f: "table_fault c table \<noteq> Some []" "ttl_verdict c table attr \<noteq> Inl []"
    by (simp_all add: table_fault_def ttl_verdict_def Let_def split: sum.split option.split prod.split)
  show ?thesis
  proof (cases "table_fault c table")
    case (Some d)
    with f(1) bad show ?thesis by (simp add: verify_table_def)
  next
    case None
    note nf = this
    show ?thesis
    proof (cases "ttl_verdict c table attr")
      case (Inl d)
      with nf f(2) bad show ?thesis by (simp add: verify_table_def)
    next
      case (Inr n)
      obtain hint warn where n: "n = (hint, warn)" by fastforce
      show ?thesis
        by (cases "ds_PITR c table")
          (simp_all add: verify_table_def nf Inr n bad table_ok_active Let_def split: option.split)
    qed
  qed
qed

end
