(* ===== verification/Middleware.thy ===== *)
theory Middleware
  imports Alerts RedisGuard
begin

text \<open>
  Package \<open>middleware\<close>: the headers, the denial and the guard that runs \<open>Engine.Check\<close> before a handler,
  and \<open>Quota.Check\<close> and \<open>Quota.Middleware\<close> of \<open>quota/quota_context.go\<close>. A response is its headers, its
  status and its body; the wrapped handler, the identity and the router are the caller's. The engine is
  a function of the bearer token in the request's context, which only its tier provider reads.
\<close>

section \<open>Requests and responses\<close>

record request =
  rq_Path :: string
  rq_Authorization :: string

datatype body = NoBody | PlainError string | DenialBody string string string string f64 "f64 option" "string option" | OtherBody string

record response =
  rp_Headers :: "string \<rightharpoonup> string"
  rp_Status :: "int option"
  rp_Body :: body

definition set_header :: "string \<Rightarrow> string \<Rightarrow> response \<Rightarrow> response" where
  "set_header k v w = w\<lparr>rp_Headers := (rp_Headers w)(k \<mapsto> v)\<rparr>"

definition set_header_if :: "bool \<Rightarrow> string \<Rightarrow> string \<Rightarrow> response \<Rightarrow> response" where
  "set_header_if b k v w = (if b then set_header k v w else w)"

text \<open>\<open>http.Error\<close>.\<close>

definition http_error :: "string \<Rightarrow> int \<Rightarrow> response \<Rightarrow> response" where
  "http_error msg code w = (set_header ''X-Content-Type-Options'' ''nosniff'' (set_header ''Content-Type'' ''text/plain; charset=utf-8'' w))
       \<lparr>rp_Status := Some code, rp_Body := PlainError msg\<rparr>"

section \<open>Headers\<close>

text \<open>
  \<open>fmt\<close> is \<open>strconv.FormatFloat\<close> in the shortest plain form. No code of the library sets \<open>RetryAfter\<close> of a
  result, so that its branch never runs and the record has no such field.
\<close>

definition write_headers :: "(f64 \<Rightarrow> string) \<Rightarrow> result \<Rightarrow> response \<Rightarrow> response" where
  "write_headers fmt r w0 =
     (let w = set_header_if (r_Resource r \<noteq> []) ''X-Quota-Resource'' (r_Resource r) w0;
          w = set_header_if (r_TierID r \<noteq> []) ''X-Quota-Tier'' (r_TierID r) w;
          w = set_header_if (r_Reason r \<noteq> []) ''X-Quota-Reason'' (r_Reason r) w;
          w = (case r_Limit r of
                 None \<Rightarrow> w
               | Some l \<Rightarrow> (let d = fsub l (r_Used r); left = (if flt d (Fin 0) then Fin 0 else d) in
                           set_header ''X-Quota-Remaining'' (fmt left) (set_header ''X-Quota-Limit'' (fmt l) w)))
      in set_header ''X-Quota-Used'' (fmt (r_Used r)) w)"

definition write_denial :: "(f64 \<Rightarrow> string) \<Rightarrow> result \<Rightarrow> response \<Rightarrow> response" where
  "write_denial fmt r w =
     (set_header ''Content-Type'' ''application/json'' (write_headers fmt r w))
       \<lparr>rp_Status := Some 429,
        rp_Body := DenialBody (r_Message r) (r_Reason r) (r_Resource r) (r_TierID r) (r_Used r) (r_Limit r)
                     (if r_UpgradeURL r \<noteq> [] then Some (r_UpgradeURL r) else None)\<rparr>"

definition write_warn :: "(f64 \<Rightarrow> string) \<Rightarrow> result \<Rightarrow> response \<Rightarrow> response" where
  "write_warn fmt r w = set_header_if (r_Message r \<noteq> []) ''X-Quota-Warning'' (r_Message r) (write_headers fmt r w)"

section \<open>The guard\<close>

definition is_exempt :: "string \<Rightarrow> string list \<Rightarrow> bool" where
  "is_exempt path prefixes \<longleftrightarrow> list_ex (\<lambda>p. p \<noteq> [] \<and> has_prefix path p) prefixes"

text \<open>The scheme is compared with \<open>strings.EqualFold\<close>, which folds the letters of its ASCII text.\<close>

definition bearer_token :: "request \<Rightarrow> string" where
  "bearer_token r =
     (let h = rq_Authorization r in
      if h = [] \<or> length h \<le> 7 \<or> to_lower (take 7 h) \<noteq> ''bearer '' then [] else trim_space (drop 7 h))"

record ('f, 'r, 'a) guard_config =
  gc_Engine :: "string option \<Rightarrow> ('f, 'r, 'a) engine"
  gc_Identity :: "request \<Rightarrow> goerr + string \<times> string"
  gc_Router :: "request \<Rightarrow> string \<times> f64"
  gc_Exempt :: "string list"
  gc_FailOpen :: bool
  gc_HasOnWarn :: bool
  gc_HasOnDecision :: bool

text \<open>
  What a request acts on: the engine's state, what the wrapped handler acts on, and the calls of the
  two callbacks.
\<close>

record ('f, 'r, 'a, 'n) guard_world =
  gw_engine :: "('f, 'r, 'a) estate"
  gw_next :: 'n
  gw_decisions :: "result list"
  gw_warns :: "result list"

type_synonym 'n handler = "request \<Rightarrow> string option \<Rightarrow> response \<times> 'n \<Rightarrow> response \<times> 'n"

definition serve :: "'n handler \<Rightarrow> request \<Rightarrow> string option \<Rightarrow> response \<Rightarrow> ('f, 'r, 'a, 'n) guard_world \<Rightarrow> response \<times> ('f, 'r, 'a, 'n) guard_world" where
  "serve next_h req ctx w gw = (case next_h req ctx (w, gw_next gw) of (w, n) \<Rightarrow> (w, gw\<lparr>gw_next := n\<rparr>))"

definition near_limit :: "result \<Rightarrow> bool" where
  "near_limit r \<longleftrightarrow> r_Decision r = Warn \<or> r_Decision r = Critical"

definition report :: "('f, 'r, 'a) guard_config \<Rightarrow> (f64 \<Rightarrow> string) \<Rightarrow> result \<Rightarrow> response \<Rightarrow> ('f, 'r, 'a, 'n) guard_world \<Rightarrow> response \<times> ('f, 'r, 'a, 'n) guard_world" where
  "report G fmt r w gw =
     (let gw = (if gc_HasOnDecision G then gw\<lparr>gw_decisions := gw_decisions gw @ [r]\<rparr> else gw) in
      if near_limit r
      then (write_warn fmt r w, if gc_HasOnWarn G then gw\<lparr>gw_warns := gw_warns gw @ [r]\<rparr> else gw)
      else (w, gw))"

text \<open>The context of the request is passed on without the token where the guard steps aside.\<close>

definition guard ::
  "('f, 'r, 'a) guard_config \<Rightarrow> (f64 \<Rightarrow> string) \<Rightarrow> 'n handler \<Rightarrow> request \<Rightarrow> string option \<Rightarrow> response \<Rightarrow> ('f, 'r, 'a, 'n) guard_world
   \<Rightarrow> response \<times> ('f, 'r, 'a, 'n) guard_world" where
  "guard G fmt next_h req ctx0 w gw =
     (if is_exempt (rq_Path req) (gc_Exempt G) then serve next_h req ctx0 w gw
      else let (resourceKey, cost) = gc_Router G req in
      if resourceKey = [] then serve next_h req ctx0 w gw
      else let tok = bearer_token req; ctx = (if tok \<noteq> [] then Some tok else ctx0) in
      case gc_Identity G req of
        Inl e \<Rightarrow> if gc_FailOpen G then serve next_h req ctx0 w gw else (http_error ''{\"detail\":\"identity required\"}'' 401 w, gw)
      | Inr (userID, orgID) \<Rightarrow>
          (case check (gc_Engine G ctx) (gw_engine gw) \<lparr>ci_UserID = userID, ci_OrgID = orgID, ci_ResourceKey = resourceKey, ci_Cost = cost\<rparr> of
             (Inl e, st) \<Rightarrow>
               if gc_FailOpen G then serve next_h req ctx0 w (gw\<lparr>gw_engine := st\<rparr>)
               else (http_error ''{\"detail\":\"quota engine error\"}'' 503 w, gw\<lparr>gw_engine := st\<rparr>)
           | (Inr r, st) \<Rightarrow>
               (case report G fmt r w (gw\<lparr>gw_engine := st\<rparr>) of
                  (w, gw) \<Rightarrow>
                    if \<not> allowed r then (write_denial fmt r w, gw)
                    else serve next_h req ctx (write_headers fmt r w) gw)))"

section \<open>The handle\<close>

text \<open>\<open>Quota.Check\<close> tells the alert manager of every result; \<open>Quota.Middleware\<close> guards with the engine.\<close>

definition quota_check ::
  "('f, 'r, 'a) engine \<Rightarrow> ('f, 'r, 'a) estate \<Rightarrow> manager option \<Rightarrow> check_input \<Rightarrow> (goerr + result) \<times> ('f, 'r, 'a) estate \<times> manager option" where
  "quota_check E st alerts inp =
     (case check E st inp of
        (Inl e, st) \<Rightarrow> (Inl e, st, alerts)
      | (Inr r, st) \<Rightarrow> (Inr r, st, map_option (notify r) alerts))"

section \<open>What the guard lets through\<close>

text \<open>A request the guard looks at, with what the router and the identity say of it.\<close>

definition guarded :: "('f, 'r, 'a) guard_config \<Rightarrow> request \<Rightarrow> check_input option" where
  "guarded G req =
     (if is_exempt (rq_Path req) (gc_Exempt G) \<or> fst (gc_Router G req) = [] then None
      else case gc_Identity G req of
        Inl e \<Rightarrow> None
      | Inr (u, org) \<Rightarrow> Some \<lparr>ci_UserID = u, ci_OrgID = org, ci_ResourceKey = fst (gc_Router G req), ci_Cost = snd (gc_Router G req)\<rparr>)"

definition seen_context :: "request \<Rightarrow> string option \<Rightarrow> string option" where
  "seen_context req ctx = (if bearer_token req \<noteq> [] then Some (bearer_token req) else ctx)"

lemma guard_guarded:
  assumes "guarded G req = Some inp"
  shows "guard G fmt next_h req ctx w gw =
     (case check (gc_Engine G (seen_context req ctx)) (gw_engine gw) inp of
        (Inl e, st) \<Rightarrow>
          if gc_FailOpen G then serve next_h req ctx w (gw\<lparr>gw_engine := st\<rparr>)
          else (http_error ''{\"detail\":\"quota engine error\"}'' 503 w, gw\<lparr>gw_engine := st\<rparr>)
      | (Inr r, st) \<Rightarrow>
          (case report G fmt r w (gw\<lparr>gw_engine := st\<rparr>) of
             (w, gw) \<Rightarrow> if \<not> allowed r then (write_denial fmt r w, gw) else serve next_h req (seen_context req ctx) (write_headers fmt r w) gw))"
proof -
  obtain rk cost where rt: "gc_Router G req = (rk, cost)" by fastforce
  from assms show ?thesis
    by (cases "bearer_token req = []"; cases "gc_Identity G req")
       (auto simp: guarded_def guard_def seen_context_def Let_def rt split: if_split_asm prod.split_asm prod.split sum.split)
qed

lemma report_keeps [simp]: "gw_next (snd (report G fmt r w gw)) = gw_next gw" "gw_engine (snd (report G fmt r w gw)) = gw_engine gw"
  by (simp_all add: report_def Let_def)

lemma write_denial_status [simp]: "rp_Status (write_denial fmt r w) = Some 429"
  by (simp add: write_denial_def)

lemma http_error_status [simp]: "rp_Status (http_error m c w) = Some c"
  by (simp add: http_error_def)

text \<open>
  A guard that fails closed hands a guarded request on exactly when the engine answered and did not
  deny. Otherwise the wrapped handler is not called and the reply is a refusal: 429 on a denial, 503
  when the engine failed.
\<close>

theorem guard_serves_only_allowed:
  assumes "guarded G req = Some inp" and "\<not> gc_FailOpen G"
    and "check (gc_Engine G (seen_context req ctx)) (gw_engine gw) inp = (answer, st)"
    and "guard G fmt next_h req ctx w gw = (w', gw')"
  shows "gw_engine gw' = st \<and>
    (case answer of
       Inr r \<Rightarrow> if allowed r then \<exists>w1. (w', gw_next gw') = next_h req (seen_context req ctx) (w1, gw_next gw)
               else rp_Status w' = Some 429 \<and> gw_next gw' = gw_next gw
     | Inl e \<Rightarrow> rp_Status w' = Some 503 \<and> gw_next gw' = gw_next gw)"
proof (cases answer)
  case (Inl e)
  with assms show ?thesis by (auto simp: guard_guarded)
next
  case (Inr r)
  obtain w1 gw1 where rep: "report G fmt r w (gw\<lparr>gw_engine := st\<rparr>) = (w1, gw1)" by fastforce
  then have k: "gw_next gw1 = gw_next gw" "gw_engine gw1 = st"
    using report_keeps [of G fmt r w "gw\<lparr>gw_engine := st\<rparr>"] by simp_all
  from assms(3,4) have "(if \<not> allowed r then (write_denial fmt r w1, gw1) else serve next_h req (seen_context req ctx) (write_headers fmt r w1) gw1) = (w', gw')"
    by (simp add: guard_guarded [OF assms(1)] Inr rep)
  then show ?thesis using k by (auto simp: Inr serve_def split: if_split_asm prod.split_asm intro!: exI [of _ "write_headers fmt r w1"])
qed

text \<open>
  C20. With the in-memory store, a gauge under a finite limit, no shadow mode, no fail-open and an engine that
  has no truth source (so that a denial is not preceded by a recount, which may repair the counter and
  admit the request), the guard refuses with 429 exactly the requests that would pass the user's or the
  organisation's limit, without running the handler, and serves the others; no counter changes.
\<close>

theorem guard_enforces_gauge_limit:
  fixes gw :: "(mem_store, 'r, 'a, 'n) guard_world"
  assumes "guarded G req = Some inp" and "\<not> gc_FailOpen G" and "gc_Engine G (seen_context req ctx) = E"
    and "en_Floats E = mem_float_store" and "limit_in_force E inp = Some (res, t, limit, cap, tid)"
    and "rd_CounterType res = CounterGauge" and "en_ObservedUsage E = None" and "\<not> shadow_mode E"
    and "guard G fmt next_h req ctx w gw = (w', gw')"
  shows "mem_level (es_floats (gw_engine gw')) = mem_level (es_floats (gw_engine gw)) \<and>
    (if user_over E (charged inp) res t limit (org_of inp) (mem_level (es_floats (gw_engine gw)))
        \<or> org_over E (charged inp) res limit cap (mem_level (es_floats (gw_engine gw)))
     then rp_Status w' = Some 429 \<and> gw_next gw' = gw_next gw
     else \<exists>w1. (w', gw_next gw') = next_h req (seen_context req ctx) (w1, gw_next gw))"
proof -
  from check_gauge_verdict [OF assms(4-7), of "gw_engine gw"] obtain r s' where
    c: "check E (gw_engine gw) inp = (Inr r, (gw_engine gw)\<lparr>es_floats := s'\<rparr>)" and l: "mem_level s' = mem_level (es_floats (gw_engine gw))"
    and a: "allowed r \<longleftrightarrow> shadow_mode E \<or> \<not> user_over E (charged inp) res t limit (org_of inp) (mem_level (es_floats (gw_engine gw)))
         \<and> \<not> org_over E (charged inp) res limit cap (mem_level (es_floats (gw_engine gw)))" by blast
  have "gw_engine gw' = (gw_engine gw)\<lparr>es_floats := s'\<rparr> \<and>
      (if allowed r then \<exists>w1. (w', gw_next gw') = next_h req (seen_context req ctx) (w1, gw_next gw)
       else rp_Status w' = Some 429 \<and> gw_next gw' = gw_next gw)"
    using guard_serves_only_allowed [OF assms(1,2) c [folded assms(3)] assms(9)] by simp
  with a l assms(8) show ?thesis by auto
qed

definition small_guard :: "(mem_store, mem_rates, mem_acts) guard_config" where
  "small_guard = \<lparr>gc_Engine = (\<lambda>_. small_engine), gc_Identity = (\<lambda>_. Inr ([], ''o1'')), gc_Router = (\<lambda>_. (''box.live'', Fin 3)),
     gc_Exempt = [''/healthz''], gc_FailOpen = False, gc_HasOnWarn = False, gc_HasOnDecision = False\<rparr>"

definition boxes_request :: request where
  "boxes_request = \<lparr>rq_Path = ''/api/boxes'', rq_Authorization = ''Bearer t0ken''\<rparr>"

definition counting :: "nat handler" where
  "counting req ctx = (\<lambda>(w, n). (w\<lparr>rp_Status := Some 200\<rparr>, n + 1))"

lemma small_guarded: "guarded small_guard boxes_request = Some (small_input\<lparr>ci_Cost := Fin 3\<rparr>)"
  by (simp add: guarded_def small_guard_def boxes_request_def is_exempt_def small_input_def)

theorem guard_enforces_gauge_limit_witness:
  "\<exists>w' gw'. guard small_guard (\<lambda>_. ''n'') counting boxes_request None \<lparr>rp_Headers = Map.empty, rp_Status = None, rp_Body = NoBody\<rparr>
       \<lparr>gw_engine = small_state, gw_next = 0, gw_decisions = [], gw_warns = []\<rparr> = (w', gw') \<and> rp_Status w' = Some 429 \<and> gw_next gw' = 0"
proof -
  let ?gw = "\<lparr>gw_engine = small_state, gw_next = 0 :: nat, gw_decisions = [], gw_warns = []\<rparr>"
  let ?w = "\<lparr>rp_Headers = Map.empty, rp_Status = None, rp_Body = NoBody\<rparr>"
  obtain w' gw' where g: "guard small_guard (\<lambda>_. ''n'') counting boxes_request None ?w ?gw = (w', gw')" by fastforce
  have over: "org_over small_engine (charged (small_input\<lparr>ci_Cost := Fin 3\<rparr>)) (gauge_resource ''box.live'') (plain_limit (Fin 2)) (Fin 2)
      (mem_level (es_floats small_state))"
    by (simp add: org_over_def charged_def small_input_def small_state_def store_simps map_get_def plain_limit_def unmarshal_tier_limit_def)
  have e: "\<not> gc_FailOpen small_guard" "gc_Engine small_guard (seen_context boxes_request None) = small_engine" by (simp_all add: small_guard_def)
  have r: "rd_CounterType (gauge_resource ''box.live'') = CounterGauge" by (simp add: gauge_resource_def)
  from guard_enforces_gauge_limit [OF small_guarded e _ small_limit r _ _ g] over g show ?thesis by simp
qed

end
