(* ===== verification/Setup.thy ===== *)
theory Setup
  imports Preflight Migration Providers DdbLedger ActivationStores OutboxStores
begin

text \<open>
  The wiring of the library (\<open>quota/setup.go\<close>): \<open>Setup\<close> with the connection to the declared Redis, the
  gates, the choice of the stores and the fail-closed billing chain, the health report and \<open>Close\<close>.
  The parts themselves are the other theories; here a part is a note that it is wired. What \<open>Setup\<close>
  starts or opens is a list of effects, which stays when \<open>Setup\<close> fails. The environment, the clients of
  the AWS SDK and of Redis, and the clock are parameters. Where a reason in the report ends in the text
  of an error the model keeps the reason only.
\<close>

section \<open>Configuration and options\<close>

record outbox_config =
  obc_Enabled :: "bool option"
  obc_Store :: string
  obc_AllowEphemeral :: bool
  obc_RedisDurabilityConfirmed :: bool
  obc_DDBTable :: string
  obc_MaxRetryHorizonSeconds :: f64
  obc_PastHorizon :: string
  obc_ProvisionRetryAttempts :: int
  obc_SNSTopicARN :: string
  obc_SNSRegion :: string

definition outbox_enabled :: "outbox_config \<Rightarrow> bool" where
  "outbox_enabled o' \<longleftrightarrow> (case obc_Enabled o' of None \<Rightarrow> True | Some b \<Rightarrow> b)"

text \<open>The whole document: the part the engine reads and the parts only the wiring reads.\<close>

record setup_config =
  su_Config :: config
  su_Storage :: storage_flags
  su_Outbox :: outbox_config
  su_EnablePaid :: bool
  su_Alerts :: alerts_config
  su_TierProvider :: tier_provider_config

datatype granter = BillingGranter bool | CustomGranter

record options =
  op_ConfigOverride :: "setup_config option"
  op_AutoSubscribeAuthEvents :: bool
  op_CreditGranter :: "granter option"
  op_EnablePaid :: "bool option"
  op_SettlementPublisher :: bool
  op_ReconcileOrgs :: bool
  op_SkipBackgroundLoops :: bool

section \<open>The platform\<close>

text \<open>
  \<open>pf_ParseURL\<close> is \<open>redis.ParseURL\<close>, with the password in the URL; \<open>pf_Ping\<close> a PING with a URL and a
  password; \<open>pf_Prober\<close> what the server answers at that moment. \<open>pf_AwsRegion\<close> is the region the SDK
  resolves for a declared one. \<open>pf_UrlParse\<close> is \<open>url.Parse\<close>: the URL without its userinfo, if it has one.
  \<open>pf_Wait\<close> waits for a duration or until the context ends, which it tells.
\<close>

record 'w platform =
  pf_getenv :: "string \<Rightarrow> string"
  pf_LoadConfig :: "goerr + setup_config"
  pf_JWT :: jwt_codec
  pf_Scheme :: "string \<Rightarrow> string option"
  pf_UrlParse :: "string \<Rightarrow> string option option"
  pf_ParseURL :: "string \<Rightarrow> string option"
  pf_Ping :: "string \<Rightarrow> string \<Rightarrow> 'w \<Rightarrow> redis_err option \<times> 'w"
  pf_Prober :: "'w \<Rightarrow> prober"
  pf_Marker :: marker_codec
  pf_Db :: "'w redis_db"
  pf_Scan :: "'w \<Rightarrow> (goerr + string list) list"
  pf_AwsRegion :: "string \<Rightarrow> goerr + string"
  pf_Dynamo :: "string \<Rightarrow> string \<Rightarrow> 'w dynamo"
  pf_Describer :: "string \<Rightarrow> 'w \<Rightarrow> describer"
  pf_Now :: "'w \<Rightarrow> instant \<times> 'w"
  pf_Wait :: "duration \<Rightarrow> 'w \<Rightarrow> bool \<times> 'w"
  pf_Sleep :: "duration \<Rightarrow> 'w \<Rightarrow> 'w"

text \<open>\<open>config.RedactURL\<close>.\<close>

fun last_at :: "string \<Rightarrow> string option" where
  "last_at [] = None"
| "last_at (c # s) = (case last_at s of Some t \<Rightarrow> Some t | None \<Rightarrow> if c = CHR ''@'' then Some s else None)"

fun split_scheme :: "string \<Rightarrow> (string \<times> string) option" where
  "split_scheme [] = None"
| "split_scheme (c # s) =
     (if has_prefix (c # s) ''://'' then Some (''://'', drop 3 (c # s))
      else map_option (\<lambda>(a, b). (c # a, b)) (split_scheme s))"

definition redact_url :: "(string \<Rightarrow> string option option) \<Rightarrow> string \<Rightarrow> string" where
  "redact_url parse raw =
     (case parse raw of
        Some None \<Rightarrow> raw
      | Some (Some bare) \<Rightarrow> bare @ '' (userinfo redacted)''
      | None \<Rightarrow>
          (let (scheme, rest) = (case split_scheme raw of Some x \<Rightarrow> x | None \<Rightarrow> ([], raw)) in
           case last_at rest of
             Some host \<Rightarrow> scheme @ ''[redacted]@'' @ host @ '' (unparseable URL; userinfo redacted)''
           | None \<Rightarrow> if CHR '':'' \<in> set rest then scheme @ ''[unparseable URL redacted]'' else raw @ '' (unparseable URL)''))"

text \<open>Of a URL that does not parse, nothing between the scheme and the last \<open>@\<close> is shown.\<close>

lemma split_scheme_found: "CHR '':'' \<notin> set s \<Longrightarrow> split_scheme (s @ ''://'' @ r) = Some (s @ ''://'', r)"
  by (induction s) auto

lemma last_at_found: "CHR ''@'' \<notin> set h \<Longrightarrow> last_at (u @ CHR ''@'' # h) = Some h"
proof (induction u)
  case Nil
  then have "last_at h = None" by (induction h) auto
  then show ?case by simp
qed simp

lemma redact_hides_userinfo:
  "parse (s @ ''://'' @ u @ CHR ''@'' # h) = None \<Longrightarrow> CHR '':'' \<notin> set s \<Longrightarrow> CHR ''@'' \<notin> set h \<Longrightarrow>
   redact_url parse (s @ ''://'' @ u @ CHR ''@'' # h) = s @ ''://[redacted]@'' @ h @ '' (unparseable URL; userinfo redacted)''"
  using split_scheme_found [of s "u @ CHR ''@'' # h"] by (simp add: redact_url_def last_at_found)

section \<open>Connecting to the declared Redis\<close>

text \<open>\<open>newRedisClient\<close>: the error, or nothing when the PING was answered.\<close>

definition new_redis_client :: "'w platform \<Rightarrow> string \<Rightarrow> string \<Rightarrow> 'w \<Rightarrow> redis_err option \<times> 'w" where
  "new_redis_client P url password w =
     (case pf_ParseURL P url of
        None \<Rightarrow> (Some \<lparr>re_text = ''parse redis_url '' @ redact_url (pf_UrlParse P) url @ '': not a valid redis URL '' @ em_dash
                   @ '' percent-encode reserved characters in the password (/ ? # @ :) or move it to storage.redis_password'', re_net = False\<rparr>, w)
      | Some urlPassword \<Rightarrow>
          (case pf_Ping P url (if password \<noteq> [] then password else urlPassword) w of
             (None, w) \<Rightarrow> (None, w)
           | (Some e, w) \<Rightarrow> (Some (e\<lparr>re_text := ''redis ping: '' @ re_text e\<rparr>), w)))"

definition connect_backoff_initial :: duration where
  "connect_backoff_initial = second div 2"

definition connect_backoff_cap :: duration where
  "connect_backoff_cap = 5 * second"

text \<open>\<open>None\<close> when a PING was answered, otherwise the last error with its kind.\<close>

partial_function (option) connect_loop ::
  "'w platform \<Rightarrow> string \<Rightarrow> string \<Rightarrow> instant \<Rightarrow> duration \<Rightarrow> 'w \<Rightarrow> ((err_kind \<times> redis_err) option \<times> 'w) option" where
  "connect_loop P url password deadline delay w =
     (case new_redis_client P url password w of
        (r, w) \<Rightarrow>
          (case r of
             None \<Rightarrow> Some (None, w)
           | Some err \<Rightarrow>
               (let kind = classify_redis_error (Some err) in
                if kind \<noteq> KindUnreachable then Some (Some (kind, err), w)
                else case pf_Now P w of
                  (t, w) \<Rightarrow>
                    if \<not> t + delay < deadline then Some (Some (kind, err), w)
                    else (case pf_Wait P delay w of
                            (ended, w) \<Rightarrow>
                              if ended then Some (Some (kind, err), w)
                              else connect_loop P url password deadline (min (delay * 2) connect_backoff_cap) w))))"

definition retry_budget :: "f64 option \<Rightarrow> f64" where
  "retry_budget retrySeconds = (case retrySeconds of None \<Rightarrow> Fin 30 | Some b \<Rightarrow> if flt b (Fin 0) then Fin 0 else b)"

definition kind_label :: "err_kind \<Rightarrow> string" where
  "kind_label k = (if k = KindOther then ''error'' else kind_text k)"

definition source_text :: "source \<Rightarrow> string" where
  "source_text src =
     (case src of SrcConfig k \<Rightarrow> ''config '' @ k | SrcEnv n \<Rightarrow> ''env '' @ n | SrcOffNull \<Rightarrow> ''off (declared null)'' | SrcUnset \<Rightarrow> ''unset'')"

definition connect_declared_redis ::
  "'w platform \<Rightarrow> string \<Rightarrow> string \<Rightarrow> source \<Rightarrow> f64 option \<Rightarrow> capabilities \<Rightarrow> 'w \<Rightarrow> (refusal option \<times> capabilities \<times> 'w) option" where
  "connect_declared_redis P url password source retrySeconds cap w =
     (let budget = retry_budget retrySeconds in
      case pf_Now P w of
        (t, w) \<Rightarrow>
          (case connect_loop P url password (t + to_go_int (fmul budget (Fin (of_int second)))) connect_backoff_initial w of
             None \<Rightarrow> None
           | Some (None, w) \<Rightarrow> Some (None, cap\<lparr>cp_RedisReachable := ''on (PING verified)''\<rparr>, w)
           | Some (Some (kind, err), w) \<Rightarrow>
               Some (Some (Unreachable (kind_label kind) (re_text err) (redact_url (pf_UrlParse P) url) (source_text source) budget),
                     cap\<lparr>cp_RedisReachable := topology_probe_failed @ '' ['' @ kind_label kind @ '': '' @ re_text err @ '']''\<rparr>, w)))"

section \<open>Clients of the cloud\<close>

definition resolve_aws_region :: "'w platform \<Rightarrow> string \<Rightarrow> string \<Rightarrow> goerr + string" where
  "resolve_aws_region P declared code =
     (case pf_AwsRegion P declared of
        Inl e \<Rightarrow> Inl (ErrWrap ''load aws config'' e)
      | Inr r \<Rightarrow> if r = [] then Inl (ErrUndeclared code ''key absent; the AWS SDK chain resolved no region'') else Inr r)"

definition new_ddb_client :: "'w platform \<Rightarrow> storage_flags \<Rightarrow> goerr + string \<times> 'w dynamo" where
  "new_ddb_client P sc =
     (case resolve_aws_region P (sf_DynamoDBRegion sc) ''QUOTA-CFG-009'' of
        Inl e \<Rightarrow> Inl e
      | Inr r \<Rightarrow> Inr (r, pf_Dynamo P r (pf_getenv P ''AWS_ENDPOINT_URL'')))"

definition new_sns_client :: "'w platform \<Rightarrow> outbox_config \<Rightarrow> goerr + string" where
  "new_sns_client P oc = resolve_aws_region P (obc_SNSRegion oc) ''QUOTA-CFG-010''"

definition ddb_signal_present :: "setup_config \<Rightarrow> bool" where
  "ddb_signal_present cfg \<longleftrightarrow>
     to_lower (obc_Store (su_Outbox cfg)) = ''ddb'' \<or> sf_DynamoDBTable (su_Storage cfg) \<noteq> [] \<or> obc_DDBTable (su_Outbox cfg) \<noteq> []"

definition pitr_confirmed :: "'w platform \<Rightarrow> setup_config \<Rightarrow> bool" where
  "pitr_confirmed P cfg \<longleftrightarrow> sf_DDBPITRConfirmed (su_Storage cfg) \<or> env_pitr_confirmed (pf_getenv P)"

section \<open>The durable outbox\<close>

datatype durable_store = OutboxDDB string | OutboxRedis

text \<open>
  The attempts to provision the table, from the \<open>i\<close>-th on: \<open>Some\<close> the verdict when the table was
  ensured and judged, \<open>None\<close> when every attempt failed.
\<close>

fun provision_outbox ::
  "'w platform \<Rightarrow> setup_config \<Rightarrow> string \<Rightarrow> nat \<Rightarrow> nat \<Rightarrow> 'w \<Rightarrow> ((durable_store option \<times> bool \<times> string) option \<times> 'w) option" where
  "provision_outbox P cfg table i 0 w = Some (None, w)"
| "provision_outbox P cfg table i (Suc left) w =
     (let again = (\<lambda>w. provision_outbox P cfg table (Suc i) left (if left = 0 then w else pf_Sleep P (int i * (300 * (second div 1000))) w)) in
      case new_ddb_client P (su_Storage cfg) of
        Inl e \<Rightarrow> again w
      | Inr (region, C) \<Rightarrow>
          (case do_ensure_table C table (60 * second) w of
             None \<Rightarrow> None
           | Some (Some e, w) \<Rightarrow> again w
           | Some (None, w) \<Rightarrow>
               (case verify_table (pf_Describer P region w) table ''ttl'' (pitr_confirmed P cfg) of
                  (v, fatal, warn) \<Rightarrow>
                    if fatal \<noteq> [] then Some (Some (None, False, ''DDB UNSAFE ('' @ fatal @ '')''), w)
                    else Some (Some (Some (OutboxDDB table), True, ''DDB''), w))))"

definition outbox_table :: "outbox_config \<Rightarrow> string" where
  "outbox_table oc = (if obc_DDBTable oc = [] then ''ab0t_quota_outbox'' else obc_DDBTable oc)"

definition provision_attempts :: "outbox_config \<Rightarrow> nat" where
  "provision_attempts oc = (if obc_ProvisionRetryAttempts oc \<le> 0 then 3 else nat (obc_ProvisionRetryAttempts oc))"

definition redis_outbox :: "'w platform \<Rightarrow> setup_config \<Rightarrow> bool \<Rightarrow> 'w \<Rightarrow> durable_store option \<times> bool \<times> string" where
  "redis_outbox P cfg redis w =
     (if redis then (case check_durability (pf_Prober P w) (obc_RedisDurabilityConfirmed (su_Outbox cfg)) of
                       (durable, detail) \<Rightarrow> (Some OutboxRedis, durable, detail))
      else (None, False, ''none''))"

definition resolve_durable_outbox :: "'w platform \<Rightarrow> setup_config \<Rightarrow> bool \<Rightarrow> 'w \<Rightarrow> ((durable_store option \<times> bool \<times> string) \<times> 'w) option" where
  "resolve_durable_outbox P cfg redis w =
     (if to_lower (obc_Store (su_Outbox cfg)) \<noteq> ''redis'' \<and> ddb_signal_present cfg
      then (case provision_outbox P cfg (outbox_table (su_Outbox cfg)) 1 (provision_attempts (su_Outbox cfg)) w of
              None \<Rightarrow> None
            | Some (Some v, w) \<Rightarrow> Some (v, w)
            | Some (None, w) \<Rightarrow> Some (redis_outbox P cfg redis w, w))
      else Some (redis_outbox P cfg redis w, w))"

section \<open>The handle\<close>

datatype backend = BackendMemory | BackendRedis | BackendDDB

fun backend_name :: "backend \<Rightarrow> string" where
  "backend_name BackendMemory = ''memory''"
| "backend_name BackendRedis = ''redis''"
| "backend_name BackendDDB = ''ddb''"

record emitter_wiring =
  ew_Store :: durable_store
  ew_MaxRetryHorizon :: f64
  ew_PastHorizon :: string
  ew_OnVoid :: bool
  ew_Settler :: bool

datatype closer = CloseRedis | UnregisterCreditHandler | CancelReconciler | CancelDrain

text \<open>
  \<open>Quota\<close>: the parts that are wired. \<open>qu_Reconciler\<close> tells whether a running reconciler carries the
  re-verification.
\<close>

record quota =
  qu_Cfg :: setup_config
  qu_Keyspace :: keyspace
  qu_TierCache :: bool
  qu_DurableLKG :: bool
  qu_Redis :: bool
  qu_Billing :: "mesh_urls option"
  qu_Payment :: "mesh_urls option"
  qu_Heartbeat :: bool
  qu_Alerts :: bool
  qu_Ledger :: backend
  qu_Secret :: string
  qu_PreviousSecrets :: "string list"
  qu_DurableActivations :: bool
  qu_Reconciler :: "bool option"
  qu_Outbox :: "emitter_wiring option"
  qu_outboxOnRedis :: bool
  qu_capability :: capabilities
  qu_closers :: "closer list"

definition new_quota :: "setup_config \<Rightarrow> keyspace \<Rightarrow> quota" where
  "new_quota cfg k = \<lparr>qu_Cfg = cfg, qu_Keyspace = k, qu_TierCache = (tp_CacheTTLSec (su_TierProvider cfg) > 0), qu_DurableLKG = False, qu_Redis = False,
     qu_Billing = None, qu_Payment = None, qu_Heartbeat = False, qu_Alerts = False, qu_Ledger = BackendMemory, qu_Secret = [], qu_PreviousSecrets = [],
     qu_DurableActivations = False, qu_Reconciler = None, qu_Outbox = None, qu_outboxOnRedis = False, qu_capability = start_capabilities, qu_closers = []\<rparr>"

datatype effect =
    OpenedRedis | ClosedRedis | StartedHeartbeat | RegisteredCreditHandler | SpawnedSubscribe | StartedReconciler | StartedDrain

datatype setup_err =
    SetupErr string goerr
  | PrefixRefused string
  | Refused refusal
  | KeyspaceRefused mig_error
  | LedgerTable ddb_err
  | GranterUnwired
  | BillingChain string string

record 'w boot_state =
  bs_world :: 'w
  bs_cap :: capabilities
  bs_q :: quota
  bs_effects :: "effect list"

section \<open>Steps of the boot\<close>

text \<open>A step returns a value or an error and the state it leaves; no value at all when it never returns.\<close>

type_synonym ('w, 'a) boot = "'w boot_state \<Rightarrow> ((setup_err + 'a) \<times> 'w boot_state) option"

definition bret :: "'a \<Rightarrow> ('w, 'a) boot" where
  "bret x s = Some (Inr x, s)"

definition bfail :: "setup_err \<Rightarrow> ('w, 'a) boot" where
  "bfail e s = Some (Inl e, s)"

definition bbind :: "('w, 'a) boot \<Rightarrow> ('a \<Rightarrow> ('w, 'b) boot) \<Rightarrow> ('w, 'b) boot" where
  "bbind m f s = (case m s of None \<Rightarrow> None | Some (Inl e, s) \<Rightarrow> Some (Inl e, s) | Some (Inr x, s) \<Rightarrow> f x s)"

definition bthen :: "('w, 'a) boot \<Rightarrow> ('w, 'b) boot \<Rightarrow> ('w, 'b) boot" where
  "bthen m n = bbind m (\<lambda>_. n)"

definition effect :: "effect \<Rightarrow> 'w boot_state \<Rightarrow> 'w boot_state" where
  "effect e s = s\<lparr>bs_effects := bs_effects s @ [e]\<rparr>"

definition cap :: "(capabilities \<Rightarrow> capabilities) \<Rightarrow> 'w boot_state \<Rightarrow> 'w boot_state" where
  "cap f s = s\<lparr>bs_cap := f (bs_cap s)\<rparr>"

definition why_off :: "string \<Rightarrow> string \<Rightarrow> 'w boot_state \<Rightarrow> 'w boot_state" where
  "why_off k v = cap (\<lambda>c. c\<lparr>cp_WhyOff := (cp_WhyOff c)(k \<mapsto> v)\<rparr>)"

definition entry :: "string \<Rightarrow> resolved_entry \<Rightarrow> 'w boot_state \<Rightarrow> 'w boot_state" where
  "entry k e = cap (\<lambda>c. c\<lparr>cp_Resolved := (cp_Resolved c)(k \<mapsto> e)\<rparr>)"

definition wire :: "(quota \<Rightarrow> quota) \<Rightarrow> 'w boot_state \<Rightarrow> 'w boot_state" where
  "wire f s = s\<lparr>bs_q := f (bs_q s)\<rparr>"

definition closing :: "closer \<Rightarrow> 'w boot_state \<Rightarrow> 'w boot_state" where
  "closing c = wire (\<lambda>q. q\<lparr>qu_closers := qu_closers q @ [c]\<rparr>)"

text \<open>A step that cannot fail.\<close>

definition bdo :: "('w boot_state \<Rightarrow> 'w boot_state) \<Rightarrow> ('w, unit) boot" where
  "bdo f s = Some (Inr (), f s)"

text \<open>Rows of the resolved plan.\<close>

definition presence_entry :: "bool \<Rightarrow> string \<Rightarrow> resolved_entry" where
  "presence_entry is_set src =
     (if is_set then \<lparr>en_Value = ''present (value never shown)'', en_Source = src\<rparr> else \<lparr>en_Value = ''not present'', en_Source = ''unset''\<rparr>)"

definition declared_entry :: "string \<Rightarrow> string \<Rightarrow> resolved_entry" where
  "declared_entry v src = (if v \<noteq> [] then \<lparr>en_Value = v, en_Source = src\<rparr> else \<lparr>en_Value = [], en_Source = ''unset''\<rparr>)"

definition region_entry :: "string \<Rightarrow> string \<Rightarrow> resolved_entry" where
  "region_entry v key =
     (if v \<noteq> [] then \<lparr>en_Value = v, en_Source = ''config '' @ key\<rparr>
      else \<lparr>en_Value = ''(resolved by the AWS SDK chain at client build; error if it resolves nothing)'', en_Source = ''aws-sdk default chain''\<rparr>)"

definition load_step :: "'w platform \<Rightarrow> options \<Rightarrow> ('w, setup_config) boot" where
  "load_step P opts =
     (case (case op_ConfigOverride opts of Some c \<Rightarrow> Inr c | None \<Rightarrow> pf_LoadConfig P) of
        Inl e \<Rightarrow> bfail (SetupErr ''load config'' e)
      | Inr cfg \<Rightarrow>
          (case validate_config (env_bool (pf_getenv P ''AB0T_QUOTA_ALLOW_EXPERIMENTAL_BILLING_MODELS'') False) (su_Config cfg) of
             Inl e \<Rightarrow> bfail (SetupErr ''validate config'' e)
           | Inr c \<Rightarrow> bthen (bdo (cap (\<lambda>k. k\<lparr>cp_ConfigWarnings := config_warnings c\<rparr>))) (bret (cfg\<lparr>su_Config := c\<rparr>))))"

definition keyspace_step :: "setup_config \<Rightarrow> ('w, keyspace) boot" where
  "keyspace_step cfg =
     (let st = c_Storage (su_Config cfg);
          label = (if st_KeyspaceVersion st = 0 then ''v1'' else ''v'' @ itoa (st_KeyspaceVersion st))
      in case (case new_keyspace (c_ServiceName (su_Config cfg)) (st_KeyspaceVersion st) (st_KeyspaceDualWrite st) of
                 Inl e \<Rightarrow> if st_KeyspaceVersion st = 2 \<or> st_KeyspaceDualWrite st then Inl e
                          else Inr \<lparr>ks_Service = [], ks_Version = 0, ks_DualWrite = False\<rparr>
               | Inr k \<Rightarrow> Inr k) of
        Inl e \<Rightarrow> bfail (SetupErr ''keyspace declaration'' e)
      | Inr k \<Rightarrow> bthen (bdo (cap (\<lambda>c. c\<lparr>cp_Keyspace := label @ (if ks_DualWrite k then ''+dual'' else [])\<rparr>))) (bret k))"

definition provider_step :: "'w platform \<Rightarrow> setup_config \<Rightarrow> ('w, unit) boot" where
  "provider_step P cfg =
     (case (new_provider (pf_JWT P) (su_TierProvider cfg) :: goerr + 'w provider) of
        Inl e \<Rightarrow> bfail (SetupErr ''tier provider'' e)
      | Inr _ \<Rightarrow> bret ())"

definition prefix_step :: "setup_config \<Rightarrow> ('w, unit) boot" where
  "prefix_step cfg =
     (let p = st_RedisKeyPrefix (c_Storage (su_Config cfg)) in if p \<noteq> [] \<and> p \<noteq> ''quota'' then bfail (PrefixRefused p) else bret ())"

definition redis_url_spec :: spec where
  "redis_url_spec = \<lparr>sp_ConfigKey = ''storage.redis_url'', sp_Env = [''QUOTA_REDIS_URL''], sp_Requirement = Required, sp_Code = ''QUOTA-CFG-001''\<rparr>"

definition store_url_step :: "'w platform \<Rightarrow> setup_config \<Rightarrow> ('w, resolved) boot" where
  "store_url_step P cfg =
     (case resolve_string (pf_getenv P) (st_RedisURL (c_Storage (su_Config cfg))) redis_url_spec of
        Inl e \<Rightarrow> bfail (SetupErr ''counter store'' e)
      | Inr r \<Rightarrow> bret r)"

definition plan_step :: "'w platform \<Rightarrow> setup_config \<Rightarrow> resolved \<Rightarrow> ('w, unit) boot" where
  "plan_step P cfg store =
     bdo (entry ''sns_region'' (region_entry (obc_SNSRegion (su_Outbox cfg)) ''outbox.sns_region'')
        \<circ> entry ''sns_topic_arn'' (declared_entry (obc_SNSTopicARN (su_Outbox cfg)) ''config outbox.sns_topic_arn'')
        \<circ> entry ''dynamodb_region'' (region_entry (sf_DynamoDBRegion (su_Storage cfg)) ''storage.dynamodb_region'')
        \<circ> entry ''dynamodb_table'' (declared_entry (sf_DynamoDBTable (su_Storage cfg)) ''config storage.dynamodb_table'')
        \<circ> entry ''redis_password'' (presence_entry (sf_RedisPassword (su_Storage cfg) \<noteq> []) ''config storage.redis_password'')
        \<circ> entry ''redis_url'' \<lparr>en_Value = redact_url (pf_UrlParse P) (rs_Value store), en_Source = source_text (rs_Source store)\<rparr>)"

text \<open>The declared Redis: reachable, of a topology and configuration the counter can live on, and of the right keyspace.\<close>

definition redis_step :: "'w platform \<Rightarrow> setup_config \<Rightarrow> keyspace \<Rightarrow> resolved \<Rightarrow> ('w, unit) boot" where
  "redis_step P cfg k store s =
     (case connect_declared_redis P (rs_Value store) (sf_RedisPassword (su_Storage cfg)) (rs_Source store)
             (sf_ConnectRetrySeconds (su_Storage cfg)) (bs_cap s) (bs_world s) of
        None \<Rightarrow> None
      | Some (Some r, c, w) \<Rightarrow> bfail (Refused r) (s\<lparr>bs_cap := c, bs_world := w\<rparr>)
      | Some (None, c, w) \<Rightarrow>
          (let s = effect OpenedRedis (s\<lparr>bs_world := w\<rparr>) in
           case boot_preflight (pf_getenv P) (pf_Prober P w) (su_Storage cfg) c of
             (Some r, c) \<Rightarrow> bfail (Refused r) (effect ClosedRedis (s\<lparr>bs_cap := c\<rparr>))
           | (None, c) \<Rightarrow>
               (case check_boot_keyspace (pf_Marker P) (pf_Db P) k (pf_Scan P w) w of
                  Inl e \<Rightarrow> bfail (KeyspaceRefused e) (effect ClosedRedis (s\<lparr>bs_cap := c\<rparr>))
                | Inr m \<Rightarrow>
                    (let phase = (case m of Some x \<Rightarrow> if mk_Phase x \<noteq> [] then mk_Phase x else ''none'' | None \<Rightarrow> ''none'') in
                     bret () (s\<lparr>bs_cap := c\<lparr>cp_Keyspace := cp_Keyspace c @ ''(phase='' @ phase @ '')'', cp_FloatStore := ''redis''\<rparr>\<rparr>)))))"

definition memory_step :: "('w, unit) boot" where
  "memory_step = bdo (cap (\<lambda>c. c\<lparr>cp_FloatStore := ''memory'', cp_RedisTopology := topology_na, cp_RedisReachable := topology_na\<rparr>))"

definition counter_step :: "'w platform \<Rightarrow> setup_config \<Rightarrow> keyspace \<Rightarrow> resolved \<Rightarrow> ('w, bool) boot" where
  "counter_step P cfg k store =
     (let declared = (rs_Value store \<noteq> ''memory://'') in
      bthen (if declared then redis_step P cfg k store else memory_step)
        (bthen (bdo (wire (\<lambda>_. (new_quota cfg k)\<lparr>qu_Redis := declared, qu_DurableLKG := declared \<and> tp_CacheTTLSec (su_TierProvider cfg) > 0\<rparr>)
                     \<circ> cap (\<lambda>c. c\<lparr>cp_Enforcement := ef_Enabled (c_Enforcement (su_Config cfg)), cp_ShadowMode := ef_ShadowMode (c_Enforcement (su_Config cfg))\<rparr>)))
          (bthen (if declared then bdo (closing CloseRedis) else bret ())
            (bthen (if ef_Enabled (c_Enforcement (su_Config cfg)) then bret () else bdo (why_off ''enforcement'' ''config.enforcement.enabled = false''))
              (bret declared)))))"

text \<open>The clients of the mesh; their constructors fail only on an empty URL.\<close>

definition mesh_step :: "'w platform \<Rightarrow> options \<Rightarrow> ('w, unit) boot" where
  "mesh_step P opts =
     (let mu = mesh_resolve (pf_getenv P) in
      bthen (bdo (entry ''payment_url'' (declared_entry (mu_Payment mu) ''env AB0T_QUOTA_PAYMENT_URL'')
               \<circ> entry ''billing_url'' (declared_entry (mu_Billing mu) ''env AB0T_QUOTA_BILLING_URL'')))
      (bthen
        (if mu_Billing mu \<noteq> []
         then bthen (bdo (wire (\<lambda>q. q\<lparr>qu_Billing := Some mu\<rparr>) \<circ> cap (\<lambda>c. c\<lparr>cp_Billing := True\<rparr>)))
                (if op_SkipBackgroundLoops opts then bret () else bdo (effect StartedHeartbeat \<circ> wire (\<lambda>q. q\<lparr>qu_Heartbeat := True\<rparr>)))
         else bdo (why_off ''billing'' ''AB0T_QUOTA_BILLING_URL not set''))
        (if mu_Payment mu \<noteq> []
         then bdo (wire (\<lambda>q. q\<lparr>qu_Payment := Some mu\<rparr>) \<circ> cap (\<lambda>c. c\<lparr>cp_Payment := True\<rparr>))
         else bdo (why_off ''payment'' ''AB0T_QUOTA_PAYMENT_URL not set''))))"

definition alerts_step :: "'w platform \<Rightarrow> setup_config \<Rightarrow> ('w, unit) boot" where
  "alerts_step P cfg =
     (let ac = su_Alerts cfg in
      if al_Enabled ac
      then bthen (if al_WebhookURL ac = [] then bret ()
                  else case new_webhook_dispatcher (pf_Scheme P) (al_WebhookURL ac) of
                    Some e \<Rightarrow> bdo (why_off ''alerts_webhook'' ''webhook refused'')
                  | None \<Rightarrow> bdo (cap (\<lambda>c. c\<lparr>cp_AlertsWebhook := True\<rparr>)))
             (bdo (wire (\<lambda>q. q\<lparr>qu_Alerts := True\<rparr>) \<circ> cap (\<lambda>c. c\<lparr>cp_Alerts := True\<rparr>)))
      else bdo (why_off ''alerts'' ''config.alerts.enabled = false''))"

text \<open>
  The handler ledger: DynamoDB when its client can be built, else Redis, else memory. A DynamoDB table
  is ensured and judged before it is used.
\<close>

definition ledger_table_step :: "'w platform \<Rightarrow> setup_config \<Rightarrow> string \<times> 'w dynamo \<Rightarrow> ('w, unit) boot" where
  "ledger_table_step P cfg client s =
     (let table = sf_DynamoDBTable (su_Storage cfg) in
      case dl_ensure_table True (snd client) table (60 * second) (bs_world s) of
        None \<Rightarrow> None
      | Some (Some e, w) \<Rightarrow> bfail (LedgerTable e) (s\<lparr>bs_world := w\<rparr>)
      | Some (None, w) \<Rightarrow>
          (case verify_table (pf_Describer P (fst client) w) table ''ttl'' (pitr_confirmed P cfg) of
             (v, fatal, warn) \<Rightarrow>
               if fatal \<noteq> [] then bfail (Refused (DDBPreflight ''handler_ledger'' fatal)) (s\<lparr>bs_world := w\<rparr>)
               else bret () (cap (\<lambda>c. c\<lparr>cp_DDBHandlerLedger := v\<rparr>) (s\<lparr>bs_world := w\<rparr>))))"

definition handler_ledger_step :: "'w platform \<Rightarrow> setup_config \<Rightarrow> bool \<Rightarrow> ('w, unit) boot" where
  "handler_ledger_step P cfg redis =
     (let wanted = (sf_DynamoDBTable (su_Storage cfg) \<noteq> []);
          client = (if wanted then new_ddb_client P (su_Storage cfg) else Inl ErrNoTier);
          b = (case client of Inr _ \<Rightarrow> BackendDDB | Inl _ \<Rightarrow> if redis then BackendRedis else BackendMemory)
      in bthen (case client of
                  Inr c \<Rightarrow> ledger_table_step P cfg c
                | Inl e \<Rightarrow> if wanted then bdo (why_off ''ledger_ddb'' ''dynamodb_table set but client build failed'') else bret ())
          (bthen (bdo (wire (\<lambda>q. q\<lparr>qu_Ledger := b\<rparr>) \<circ> cap (\<lambda>c. c\<lparr>cp_LedgerBackend := backend_name b\<rparr>)))
            (if b = BackendMemory \<and> wanted
             then bdo (why_off ''ledger_persistent'' ''ddb configured but unavailable; ledger degraded to in-memory (see ledger_ddb WhyOff)'')
             else bret ())))"

definition previous_secrets :: "string \<Rightarrow> string list" where
  "previous_secrets v = filter (\<lambda>s. s \<noteq> []) (map trim_space (split_on (CHR '','') v))"

definition receiver_step :: "'w platform \<Rightarrow> ('w, unit) boot" where
  "receiver_step P =
     (let secret = pf_getenv P ''AB0T_AUTH_WEBHOOK_SECRET''; previous = previous_secrets (pf_getenv P ''AB0T_AUTH_WEBHOOK_SECRET_PREVIOUS'') in
      bthen (bdo (wire (\<lambda>q. q\<lparr>qu_Secret := secret, qu_PreviousSecrets := previous\<rparr>)
               \<circ> (if previous \<noteq> [] then entry ''auth_webhook_secret_previous'' (presence_entry True ''env AB0T_AUTH_WEBHOOK_SECRET_PREVIOUS'') else id)
               \<circ> entry ''auth_webhook_secret'' (presence_entry (secret \<noteq> []) ''env AB0T_AUTH_WEBHOOK_SECRET'')
               \<circ> cap (\<lambda>c. c\<lparr>cp_AuthEvents := True\<rparr>)))
        (if secret \<noteq> [] then bret ()
         else bdo (why_off ''auth_events_signed''
           (if previous \<noteq> []
            then ''AB0T_AUTH_WEBHOOK_SECRET not set '' @ em_dash @ '' receiver accepts only events signed with the previous secret(s) in ''
                   @ ''AB0T_AUTH_WEBHOOK_SECRET_PREVIOUS and rejects the rest with 401; set the current secret''
            else ''AB0T_AUTH_WEBHOOK_SECRET not set '' @ em_dash @ '' receiver will reject all events with 401''))))"

text \<open>The handler is registered with all of its dependencies, so that building it does not fail.\<close>

definition credit_step :: "options \<Rightarrow> ('w, unit) boot" where
  "credit_step opts s =
     (case op_CreditGranter opts of
        None \<Rightarrow> bdo (why_off ''credit_grant'' ''no CreditGranter supplied; default handler not registered'') s
      | Some g \<Rightarrow>
          if g = BillingGranter False \<and> qu_Billing (bs_q s) = None then bfail GranterUnwired s
          else bdo (closing UnregisterCreditHandler \<circ> effect RegisteredCreditHandler \<circ> cap (\<lambda>c. c\<lparr>cp_CreditGrant := True\<rparr>)) s)"

definition subscribe_step :: "options \<Rightarrow> ('w, unit) boot" where
  "subscribe_step opts =
     (if op_AutoSubscribeAuthEvents opts then bdo (effect SpawnedSubscribe \<circ> cap (\<lambda>c. c\<lparr>cp_AutoSubscribe := True\<rparr>)) else bret ())"

definition activations_step :: "'w platform \<Rightarrow> setup_config \<Rightarrow> ('w, unit) boot" where
  "activations_step P cfg s =
     (if \<not> ddb_signal_present cfg then bret () s
      else case new_ddb_client P (su_Storage cfg) of
        Inl e \<Rightarrow> bret () s
      | Inr (region, C) \<Rightarrow>
          (case da_ensure_table C (new_ddb_acts [] 0) (60 * second) (bs_world s) of
             None \<Rightarrow> None
           | Some (None, w) \<Rightarrow> bdo (why_off ''activation_store'' [] \<circ> wire (\<lambda>q. q\<lparr>qu_DurableActivations := True\<rparr>)) (s\<lparr>bs_world := w\<rparr>)
           | Some (Some e, w) \<Rightarrow>
               bdo (why_off ''activation_store'' (''ddb configured but unavailable; in-memory (NOT durable '' @ em_dash @ '' D-39)'')) (s\<lparr>bs_world := w\<rparr>)))"

definition wire_reconciler :: "options \<Rightarrow> ('w, unit) boot" where
  "wire_reconciler opts s =
     (if \<not> op_ReconcileOrgs opts then bdo (cap (\<lambda>c. c\<lparr>cp_Reconciler := ''OFF '' @ em_dash @ '' not requested''\<rparr>)) s
      else if \<not> qu_DurableActivations (bs_q s)
      then bdo (cap (\<lambda>c. c\<lparr>cp_Reconciler := ''OFF '' @ em_dash @ '' activation store not durable (D-39); wire a durable (DDB) activation store''\<rparr>)) s
      else bdo (effect StartedReconciler \<circ> closing CancelReconciler \<circ> wire (\<lambda>q. q\<lparr>qu_Reconciler := Some (qu_Redis q)\<rparr>)
                \<circ> cap (\<lambda>c. c\<lparr>cp_Reconciler := ''ON''\<rparr>)) s)"

definition reverification_step :: "bool \<Rightarrow> ('w, unit) boot" where
  "reverification_step redis s =
     (if redis \<and> cp_FloatStore (bs_cap s) = ''redis''
      then (case qu_Reconciler (bs_q s) of
              None \<Rightarrow> bdo (why_off ''preflight_reverification'' ''reconciler not running''
                        \<circ> cap (\<lambda>c. c\<lparr>cp_PreflightReverification := ''OFF '' @ em_dash @ '' no reconciler loop, so the Redis invariants ''
                             @ ''(topology/eviction/scripting/version/headroom) are NEVER re-verified after boot (D-75/D-79)''\<rparr>)) s
            | Some False \<Rightarrow> bdo (why_off ''preflight_reverification'' ''no preflight wired onto the reconciler''
                        \<circ> cap (\<lambda>c. c\<lparr>cp_PreflightReverification := ''OFF '' @ em_dash @ '' the reconciler loop runs but carries no preflight (D-79)''\<rparr>)) s
            | Some True \<Rightarrow> bdo (cap (\<lambda>c. c\<lparr>cp_PreflightReverification := ''on (rides the reconciler loop)''\<rparr>)) s)
      else bdo (cap (\<lambda>c. c\<lparr>cp_PreflightReverification := ''n/a (no redis counter store)''\<rparr>)) s)"

section \<open>The billing chain\<close>

definition enable_paid :: "setup_config \<Rightarrow> options \<Rightarrow> quota \<Rightarrow> bool" where
  "enable_paid cfg opts q =
     (case op_EnablePaid opts of Some b \<Rightarrow> b | None \<Rightarrow> su_EnablePaid cfg \<or> qu_Billing q \<noteq> None)"

definition paid_why :: "setup_config \<Rightarrow> options \<Rightarrow> quota \<Rightarrow> string" where
  "paid_why cfg opts q =
     (if op_EnablePaid opts \<noteq> None then ''Options.EnablePaid=true''
      else if \<not> su_EnablePaid cfg \<and> qu_Billing q \<noteq> None then ''AB0T_QUOTA_BILLING_URL is set (wiring billing asserts paid mode)''
      else ''billing.enable_paid=true in the config'')"

definition has_publisher :: "'w platform \<Rightarrow> setup_config \<Rightarrow> options \<Rightarrow> bool" where
  "has_publisher P cfg opts \<longleftrightarrow>
     op_SettlementPublisher opts \<or> (obc_SNSTopicARN (su_Outbox cfg) \<noteq> [] \<and> \<not> isl (new_sns_client P (su_Outbox cfg)))"

text \<open>The reason of the first link that is missing.\<close>

definition weakest_link :: "bool \<Rightarrow> string \<Rightarrow> bool \<Rightarrow> bool \<Rightarrow> string" where
  "weakest_link durable detail publisher billing =
     (if \<not> durable then ''no durable outbox ('' @ detail @ '')''
      else if \<not> publisher then ''no settlement publisher wired (Options.SettlementPublisher)''
      else if \<not> billing then ''no billing sink (AB0T_QUOTA_BILLING_URL not set)''
      else [])"

definition emitter_for :: "outbox_config \<Rightarrow> quota \<Rightarrow> durable_store \<Rightarrow> emitter_wiring" where
  "emitter_for oc q store = \<lparr>ew_Store = store, ew_MaxRetryHorizon = effective_horizon (obc_MaxRetryHorizonSeconds oc),
     ew_PastHorizon = (if obc_PastHorizon oc = [] then ''void_and_alert'' else obc_PastHorizon oc),
     ew_OnVoid = qu_Alerts q, ew_Settler = (qu_Billing q \<noteq> None)\<rparr>"

text \<open>What the chain comes to once its links are known.\<close>

definition judge_chain ::
  "setup_config \<Rightarrow> bool \<Rightarrow> bool \<Rightarrow> bool \<Rightarrow> durable_store option \<times> bool \<times> string \<Rightarrow> ('w, unit) boot" where
  "judge_chain cfg publisher paid skipLoops found s =
     (case found of (store, durable, detail) \<Rightarrow>
        let s = cap (\<lambda>c. c\<lparr>cp_Outbox := (if durable then detail else ''NON-DURABLE ('' @ detail @ '')'')\<rparr>) s;
            weakest = weakest_link durable detail publisher (qu_Billing (bs_q s) \<noteq> None)
        in
        if weakest = []
        then let s = wire (\<lambda>q. q\<lparr>qu_Outbox := map_option (emitter_for (su_Outbox cfg) q) store\<rparr>) s in
             if skipLoops
             then bdo (cap (\<lambda>c. c\<lparr>cp_BillingStatus := ''ON (chain complete: outbox='' @ detail @ ''; drain loop OFF '' @ em_dash @ '' smoke run)''\<rparr>)) s
             else bdo (cap (\<lambda>c. c\<lparr>cp_BillingStatus := ''ON (chain complete: outbox='' @ detail @ '')''\<rparr>)
                       \<circ> effect StartedDrain \<circ> closing CancelDrain) s
        else if \<not> paid then bdo (cap (\<lambda>c. c\<lparr>cp_BillingStatus := ''OFF (paid disabled)''\<rparr>)) s
        else if obc_AllowEphemeral (su_Outbox cfg)
        then bdo (why_off ''billing'' (weakest @ ''; allow_ephemeral=true (DEV) '' @ em_dash @ '' billing DISABLED'')
                  \<circ> cap (\<lambda>c. c\<lparr>cp_BillingStatus := ''OFF '' @ em_dash @ '' '' @ weakest @ '' (allow_ephemeral=true)''\<rparr>)) s
        else bfail (BillingChain weakest []) (cap (\<lambda>c. c\<lparr>cp_BillingStatus := ''OFF '' @ em_dash @ '' '' @ weakest\<rparr>) s))"

definition gate_billing_chain :: "'w platform \<Rightarrow> setup_config \<Rightarrow> bool \<Rightarrow> bool \<Rightarrow> bool \<Rightarrow> bool \<Rightarrow> ('w, unit) boot" where
  "gate_billing_chain P cfg redis publisher paid skipLoops s =
     (if outbox_enabled (su_Outbox cfg)
      then (case resolve_durable_outbox P cfg redis (bs_world s) of
              None \<Rightarrow> None
            | Some (found, w) \<Rightarrow>
                (let s = s\<lparr>bs_world := w\<rparr>;
                     s = (if redis \<and> \<not> has_prefix (snd (snd found)) ''DDB'' then wire (\<lambda>q. q\<lparr>qu_outboxOnRedis := True\<rparr>) s else s)
                 in judge_chain cfg publisher paid skipLoops found s))
      else judge_chain cfg publisher paid skipLoops (None, False, ''outbox.enabled=false'') s)"

text \<open>The gate's refusal is wrapped with the reason why paid mode is on.\<close>

definition billing_step :: "'w platform \<Rightarrow> setup_config \<Rightarrow> options \<Rightarrow> bool \<Rightarrow> ('w, unit) boot" where
  "billing_step P cfg opts redis s =
     (case gate_billing_chain P cfg redis (has_publisher P cfg opts) (enable_paid cfg opts (bs_q s)) (op_SkipBackgroundLoops opts) s of
        Some (Inl (BillingChain weakest _), s') \<Rightarrow> Some (Inl (BillingChain weakest (paid_why cfg opts (bs_q s))), s')
      | r \<Rightarrow> r)"

section \<open>Setup\<close>

definition wiring_steps :: "'w platform \<Rightarrow> options \<Rightarrow> setup_config \<Rightarrow> bool \<Rightarrow> ('w, unit) boot" where
  "wiring_steps P opts cfg redis =
     bthen (mesh_step P opts) (bthen (alerts_step P cfg) (bthen (handler_ledger_step P cfg redis) (bthen (receiver_step P) (bthen (credit_step opts)
       (bthen (subscribe_step opts) (bthen (activations_step P cfg) (bthen (wire_reconciler opts) (bthen (reverification_step redis)
         (billing_step P cfg opts redis)))))))))"

definition boot_steps :: "'w platform \<Rightarrow> options \<Rightarrow> ('w, quota) boot" where
  "boot_steps P opts =
     bbind (load_step P opts) (\<lambda>cfg. bbind (keyspace_step cfg) (\<lambda>k.
       bthen (provider_step P cfg) (bthen (prefix_step cfg) (bbind (store_url_step P cfg) (\<lambda>store.
         bthen (plan_step P cfg store) (bbind (counter_step P cfg k store) (\<lambda>redis. bthen (wiring_steps P opts cfg redis)
           (\<lambda>s. bret ((bs_q s)\<lparr>qu_capability := bs_cap s\<rparr>) s))))))))"

text \<open>The handle before anything is wired is never read: \<open>counter_step\<close> builds it.\<close>

definition boot_start :: "setup_config \<Rightarrow> 'w \<Rightarrow> 'w boot_state" where
  "boot_start cfg w = \<lparr>bs_world = w, bs_cap = start_capabilities, bs_q = new_quota cfg \<lparr>ks_Service = [], ks_Version = 0, ks_DualWrite = False\<rparr>, bs_effects = []\<rparr>"

definition quota_setup :: "'w platform \<Rightarrow> options \<Rightarrow> setup_config \<Rightarrow> 'w \<Rightarrow> ((setup_err + quota) \<times> 'w boot_state) option" where
  "quota_setup P opts blank w = boot_steps P opts (boot_start blank w)"

section \<open>Health and closing\<close>

definition billing_healthy :: "capabilities \<Rightarrow> bool" where
  "billing_healthy c \<longleftrightarrow> has_prefix (cp_BillingStatus c) ''ON''"

definition healthy :: "capabilities \<Rightarrow> bool" where
  "healthy c \<longleftrightarrow>
     (has_prefix (cp_BillingStatus c) ''ON'' \<or> cp_BillingStatus c = ''OFF (paid disabled)'')
     \<and> (cp_Reconciler c = ''ON'' \<or> cp_Reconciler c = ''OFF '' @ em_dash @ '' not requested'')
     \<and> (cp_FloatStore c \<noteq> ''redis'' \<or> has_prefix (cp_RedisReachable c) ''on'')
     \<and> topology_ok (cp_RedisTopology c)
     \<and> (cp_FloatStore c \<noteq> ''redis'' \<or> counter_store_ok (cp_CounterEvictionPolicy c))
     \<and> (cp_FloatStore c \<noteq> ''redis'' \<or> scripting_ok (cp_RedisScripting c))
     \<and> memory_headroom_ok (cp_MemoryHeadroom c)
     \<and> (cp_FloatStore c \<noteq> ''redis'' \<or> eviction_facts_ok (cp_CounterEvictionsObserved c))
     \<and> (cp_FloatStore c \<noteq> ''redis'' \<or> has_prefix (cp_PreflightReverification c) ''on'' \<or> has_prefix (cp_PreflightReverification c) ''n/a'')
     \<and> persist_facts_ok (cp_RedisPersistStatus c)"

text \<open>\<open>Close\<close> runs every closer in order and returns the first error.\<close>

fun run_closers :: "(closer \<Rightarrow> 'w \<Rightarrow> goerr option \<times> 'w) \<Rightarrow> closer list \<Rightarrow> goerr option \<Rightarrow> 'w \<Rightarrow> goerr option \<times> 'w" where
  "run_closers run [] firstErr w = (firstErr, w)"
| "run_closers run (c # cs) firstErr w =
     (case run c w of (e, w) \<Rightarrow> run_closers run cs (if firstErr = None then e else firstErr) w)"

definition quota_close :: "('w \<Rightarrow> 'w) \<Rightarrow> (closer \<Rightarrow> 'w \<Rightarrow> goerr option \<times> 'w) \<Rightarrow> quota \<Rightarrow> 'w \<Rightarrow> goerr option \<times> 'w" where
  "quota_close stopHeartbeat run q w = run_closers run (qu_closers q) None (if qu_Heartbeat q then stopHeartbeat w else w)"

section \<open>Reading a boot backwards\<close>

lemma bbind_success: "bbind m f s = Some (Inr y, s') \<longleftrightarrow> (\<exists>x s1. m s = Some (Inr x, s1) \<and> f x s1 = Some (Inr y, s'))"
  by (auto simp: bbind_def split: option.split_asm sum.split_asm prod.split_asm)

lemma bbind_failure:
  "bbind m f s = Some (Inl e, s') \<longleftrightarrow> m s = Some (Inl e, s') \<or> (\<exists>x s1. m s = Some (Inr x, s1) \<and> f x s1 = Some (Inl e, s'))"
  by (auto simp: bbind_def split: option.split_asm sum.split_asm prod.split_asm)

lemma bthen_success: "bthen m n s = Some (Inr y, s') \<longleftrightarrow> (\<exists>x s1. m s = Some (Inr x, s1) \<and> n s1 = Some (Inr y, s'))"
  by (simp add: bthen_def bbind_success)

lemma bthen_failure:
  "bthen m n s = Some (Inl e, s') \<longleftrightarrow> m s = Some (Inl e, s') \<or> (\<exists>x s1. m s = Some (Inr x, s1) \<and> n s1 = Some (Inl e, s'))"
  by (simp add: bthen_def bbind_failure)

lemmas boot_inv = bbind_success bthen_success bbind_failure bthen_failure

lemma step_results [simp]:
  "bret x s = Some (r, s') \<longleftrightarrow> r = Inr x \<and> s' = s" "bfail e s = Some (r, s') \<longleftrightarrow> r = Inl e \<and> s' = s"
  "bdo f s = Some (q, s') \<longleftrightarrow> q = Inr () \<and> s' = f s"
  by (auto simp: bret_def bfail_def bdo_def)

lemma state_updates [simp]:
  "bs_world (effect e s) = bs_world s" "bs_cap (effect e s) = bs_cap s" "bs_q (effect e s) = bs_q s" "bs_effects (effect e s) = bs_effects s @ [e]"
  "bs_world (cap f s) = bs_world s" "bs_cap (cap f s) = f (bs_cap s)" "bs_q (cap f s) = bs_q s" "bs_effects (cap f s) = bs_effects s"
  "bs_world (wire g s) = bs_world s" "bs_cap (wire g s) = bs_cap s" "bs_q (wire g s) = g (bs_q s)" "bs_effects (wire g s) = bs_effects s"
  "bs_world (closing c s) = bs_world s" "bs_cap (closing c s) = bs_cap s" "bs_q (closing c s) = (bs_q s)\<lparr>qu_closers := qu_closers (bs_q s) @ [c]\<rparr>"
  "bs_effects (closing c s) = bs_effects s" "bs_world (why_off k v s) = bs_world s" "bs_q (why_off k v s) = bs_q s" "bs_effects (why_off k v s) = bs_effects s"
  "bs_cap (why_off k v s) = (bs_cap s)\<lparr>cp_WhyOff := (cp_WhyOff (bs_cap s))(k \<mapsto> v)\<rparr>"
  "bs_world (entry k re s) = bs_world s" "bs_q (entry k re s) = bs_q s" "bs_effects (entry k re s) = bs_effects s"
  "bs_cap (entry k re s) = (bs_cap s)\<lparr>cp_Resolved := (cp_Resolved (bs_cap s))(k \<mapsto> re)\<rparr>"
  by (simp_all add: effect_def cap_def wire_def closing_def why_off_def entry_def)

text \<open>
  What the steps after the counter store never undo: the configuration, the kind of counter store, and
  what was started or opened. None of them writes what only the re-verification finds out.
\<close>

definition unobserved :: "capabilities \<Rightarrow> string \<times> string \<times> resolved_entry option" where
  "unobserved c = (cp_CounterEvictionsObserved c, cp_RedisPersistStatus c, cp_Resolved c ''storage.redis_url'')"

definition wired :: "'w boot_state \<Rightarrow> 'w boot_state \<Rightarrow> bool" where
  "wired s s' \<longleftrightarrow> qu_Cfg (bs_q s') = qu_Cfg (bs_q s) \<and> qu_Keyspace (bs_q s') = qu_Keyspace (bs_q s) \<and> qu_Redis (bs_q s') = qu_Redis (bs_q s) \<and> cp_FloatStore (bs_cap s') = cp_FloatStore (bs_cap s)
     \<and> set (bs_effects s) \<subseteq> set (bs_effects s') \<and> (ClosedRedis \<in> set (bs_effects s') \<longrightarrow> ClosedRedis \<in> set (bs_effects s))
     \<and> unobserved (bs_cap s') = unobserved (bs_cap s)"

definition leads :: "('w, 'a) boot \<Rightarrow> bool" where
  "leads m \<longleftrightarrow> (\<forall>s r s'. m s = Some (r, s') \<longrightarrow> wired s s')"

lemma wired_trans: "wired s s' \<Longrightarrow> wired s' s'' \<Longrightarrow> wired s s''"
  unfolding wired_def by (metis subset_trans)

lemma leads_bthen: "leads m \<Longrightarrow> leads n \<Longrightarrow> leads (bthen m n)"
  unfolding leads_def bthen_def bbind_def by (fastforce split: option.split_asm sum.split_asm intro: wired_trans)

lemma leads_basic: "leads (bret x)" "leads (bfail e)"
  by (simp_all add: leads_def wired_def unobserved_def)

lemma leads_bdo: "(\<And>s. wired s (f s)) \<Longrightarrow> leads (bdo f)"
  by (simp add: leads_def)

lemma leads_steps:
  "leads (mesh_step P opts)" "leads (alerts_step P cfg)" "leads (receiver_step P)" "leads (subscribe_step opts)"
  unfolding mesh_step_def alerts_step_def receiver_step_def subscribe_step_def Let_def
  by (auto intro!: leads_bthen leads_basic leads_bdo simp: wired_def unobserved_def split: option.split)

lemma leads_credit: "leads (credit_step opts)"
  by (auto simp: leads_def credit_step_def wired_def unobserved_def split: option.split_asm if_split_asm)

lemma leads_ledger_table: "leads (ledger_table_step P cfg c)"
  by (auto simp: leads_def ledger_table_step_def wired_def unobserved_def Let_def split: option.split_asm if_split_asm prod.split_asm)

lemma leads_why_off: "leads (bdo (why_off k v))"
  by (rule leads_bdo) (simp add: wired_def unobserved_def)

lemma leads_backend: "leads (bdo (wire (\<lambda>q. q\<lparr>qu_Ledger := x\<rparr>) \<circ> cap (\<lambda>c. c\<lparr>cp_LedgerBackend := y\<rparr>)))"
  by (rule leads_bdo) (simp add: wired_def unobserved_def)

lemma leads_ledger: "leads (handler_ledger_step P cfg redis)"
proof -
  have c: "leads (case r of Inr c \<Rightarrow> ledger_table_step P cfg c | Inl e \<Rightarrow> if wanted then bdo (why_off k v) else bret ())" for r wanted k v
    by (simp add: leads_why_off leads_basic(1) leads_ledger_table split: sum.split)
  show ?thesis unfolding handler_ledger_step_def Let_def
    by (intro leads_bthen leads_backend c) (simp add: leads_why_off leads_basic(1))
qed

lemma leads_activations: "leads (activations_step P cfg)"
  by (auto simp: leads_def activations_step_def wired_def unobserved_def split: option.split_asm if_split_asm sum.split_asm prod.split_asm)

lemma leads_reconciler: "leads (wire_reconciler opts)"
  by (auto simp: leads_def wire_reconciler_def wired_def unobserved_def split: if_split_asm)

lemma leads_reverification: "leads (reverification_step redis)"
  by (auto simp: leads_def reverification_step_def wired_def unobserved_def split: if_split_asm option.split_asm bool.split_asm)

lemma leads_judge: "leads (judge_chain cfg pub paid skip v)"
  by (auto simp: leads_def judge_chain_def wired_def unobserved_def Let_def split: if_split_asm prod.split_asm)

text \<open>The gate judges the chain with an outbox it resolved, or without one.\<close>

lemma gate_judges:
  assumes "gate_billing_chain P cfg redis pub paid skip s = Some (r, s')"
  obtains v s1 where "judge_chain cfg pub paid skip v s1 = Some (r, s')" "wired s s1" "qu_Billing (bs_q s1) = qu_Billing (bs_q s)"
    "v = (None, False, ''outbox.enabled=false'') \<or> (\<exists>w w'. resolve_durable_outbox P cfg redis w = Some (v, w'))"
proof (cases "outbox_enabled (su_Outbox cfg)")
  case True
  with assms obtain v w where res: "resolve_durable_outbox P cfg redis (bs_world s) = Some (v, w)"
    by (auto simp: gate_billing_chain_def split: option.split_asm)
  define s1 where "s1 = (if redis \<and> \<not> has_prefix (snd (snd v)) ''DDB'' then wire (\<lambda>q. q\<lparr>qu_outboxOnRedis := True\<rparr>) (s\<lparr>bs_world := w\<rparr>) else s\<lparr>bs_world := w\<rparr>)"
  show ?thesis
  proof (rule that [of v s1])
    show "judge_chain cfg pub paid skip v s1 = Some (r, s')" using assms True res by (simp add: gate_billing_chain_def s1_def Let_def)
    show "wired s s1" "qu_Billing (bs_q s1) = qu_Billing (bs_q s)" by (simp_all add: s1_def wired_def unobserved_def)
  qed (use res in blast)
next
  case False
  with assms show ?thesis by (intro that [of "(None, False, ''outbox.enabled=false'')" s]) (simp_all add: gate_billing_chain_def wired_def unobserved_def)
qed

lemma leads_gate: "leads (gate_billing_chain P cfg redis pub paid skip)"
  unfolding leads_def
proof (intro allI impI)
  fix s r s'
  assume "gate_billing_chain P cfg redis pub paid skip s = Some (r, s')"
  then obtain v s1 where "judge_chain cfg pub paid skip v s1 = Some (r, s')" "wired s s1" by (rule gate_judges)
  then show "wired s s'" using leads_judge wired_trans unfolding leads_def by blast
qed

lemma leads_billing: "leads (billing_step P cfg opts redis)"
  unfolding leads_def
proof (intro allI impI)
  fix s r s'
  assume "billing_step P cfg opts redis s = Some (r, s')"
  then obtain r1 where "gate_billing_chain P cfg redis (has_publisher P cfg opts) (enable_paid cfg opts (bs_q s)) (op_SkipBackgroundLoops opts) s = Some (r1, s')"
    by (auto simp: billing_step_def split: option.split_asm sum.split_asm setup_err.split_asm prod.split_asm)
  with leads_gate show "wired s s'" unfolding leads_def by blast
qed

lemmas leads_all = leads_steps leads_credit leads_ledger leads_activations leads_reconciler leads_reverification leads_billing

lemma leads_wiring: "leads (wiring_steps P opts cfg redis)"
  unfolding wiring_steps_def by (intro leads_bthen leads_all)

section \<open>The counter store\<close>

lemma preflight_unobserved: "unobserved (snd (boot_preflight getenv c sc k)) = unobserved k"
  by (simp add: boot_preflight_def gate_counter_store_def unobserved_def Let_def case_prod_unfold)

lemma preflight_verdict: "fst (boot_preflight getenv c sc k) = fst (boot_preflight getenv c sc k')"
  by (simp add: boot_preflight_def gate_counter_store_def Let_def case_prod_unfold)

text \<open>
  A Redis that was verified: a PING sent to the URL, with the declared password or that of the URL, was
  answered, and the server as it was then passed the gates and held the counters of keyspace \<open>k\<close>.
\<close>

definition pinged :: "'w platform \<Rightarrow> string \<Rightarrow> string \<Rightarrow> 'w \<Rightarrow> bool" where
  "pinged P url password w \<longleftrightarrow>
     (\<exists>urlPassword w0. pf_ParseURL P url = Some urlPassword \<and> pf_Ping P url (if password \<noteq> [] then password else urlPassword) w0 = (None, w))"

definition verified_redis :: "'w platform \<Rightarrow> setup_config \<Rightarrow> keyspace \<Rightarrow> string \<Rightarrow> bool" where
  "verified_redis P cfg k url \<longleftrightarrow>
     (\<exists>w. pinged P url (sf_RedisPassword (su_Storage cfg)) w
        \<and> (\<forall>c. fst (boot_preflight (pf_getenv P) (pf_Prober P w) (su_Storage cfg) c) = None)
        \<and> (\<exists>m. check_boot_keyspace (pf_Marker P) (pf_Db P) k (pf_Scan P w) w = Inr m))"

lemma client_pinged: "new_redis_client P url pw w = (None, w') \<Longrightarrow> pinged P url pw w'"
  unfolding new_redis_client_def pinged_def by (fastforce split: prod.split_asm option.split_asm)

lemma connect_loop_pinged:
  assumes "connect_loop P url pw deadline delay w = Some (None, w')"
  shows "pinged P url pw w'"
proof -
  have "(\<lambda>(((((P, url), pw), deadline), delay), w) y. fst y = None \<longrightarrow> pinged P url pw (snd y))
      (((((P, url), pw), deadline), delay), w) (None :: (err_kind \<times> redis_err) option, w')"
    by (rule connect_loop.raw_induct [OF _ assms])
      (auto simp: Let_def dest: client_pinged split: prod.split_asm option.split_asm if_split_asm)
  then show ?thesis by simp
qed

lemma redis_step_success:
  assumes "redis_step P cfg k store s = Some (Inr u, s')"
  shows "cp_FloatStore (bs_cap s') = ''redis'' \<and> bs_effects s' = bs_effects s @ [OpenedRedis]
    \<and> verified_redis P cfg k (rs_Value store) \<and> unobserved (bs_cap s') = unobserved (bs_cap s)"
proof -
  from assms obtain c w where con: "connect_declared_redis P (rs_Value store) (sf_RedisPassword (su_Storage cfg)) (rs_Source store)
      (sf_ConnectRetrySeconds (su_Storage cfg)) (bs_cap s) (bs_world s) = Some (None, c, w)"
    by (auto simp: redis_step_def Let_def split: option.split_asm)
  obtain r c' where pre: "boot_preflight (pf_getenv P) (pf_Prober P w) (su_Storage cfg) c = (r, c')" by fastforce
  have ping: "pinged P (rs_Value store) (sf_RedisPassword (su_Storage cfg)) w"
    using con by (auto simp: connect_declared_redis_def Let_def dest: connect_loop_pinged split: prod.split_asm option.split_asm)
  have reach: "unobserved c = unobserved (bs_cap s)"
    using con by (auto simp: connect_declared_redis_def unobserved_def Let_def split: prod.split_asm option.split_asm)
  have keep: "unobserved c' = unobserved c" using preflight_unobserved [of "pf_getenv P" "pf_Prober P w" "su_Storage cfg" c] pre by simp
  from assms have r: "r = None" by (auto simp: redis_step_def con pre Let_def split: option.split_asm)
  from assms obtain m where m: "check_boot_keyspace (pf_Marker P) (pf_Db P) k (pf_Scan P w) w = Inr m"
    by (auto simp: redis_step_def con pre r Let_def split: sum.split_asm)
  with assms have s': "s' = (effect OpenedRedis (s\<lparr>bs_world := w\<rparr>))\<lparr>bs_cap := c'\<lparr>cp_Keyspace := cp_Keyspace c' @ ''(phase=''
      @ (case m of Some x \<Rightarrow> if mk_Phase x \<noteq> [] then mk_Phase x else ''none'' | None \<Rightarrow> ''none'') @ '')'', cp_FloatStore := ''redis''\<rparr>\<rparr>"
    by (simp add: redis_step_def con pre r Let_def)
  have "\<forall>c. fst (boot_preflight (pf_getenv P) (pf_Prober P w) (su_Storage cfg) c) = None"
    using pre r preflight_verdict by (metis fst_conv)
  with ping m have "verified_redis P cfg k (rs_Value store)" unfolding verified_redis_def by blast
  with s' reach keep show ?thesis by (auto simp: unobserved_def)
qed

lemma redis_step_fails_closed:
  "redis_step P cfg k store s = Some (Inl e, s') \<Longrightarrow> e \<noteq> BillingChain a b"
  by (auto simp: redis_step_def Let_def split: option.split_asm prod.split_asm sum.split_asm)

lemma counter_step_success:
  assumes "counter_step P cfg k store s = Some (Inr b, s')"
  shows "b = (rs_Value store \<noteq> ''memory://'') \<and> qu_Cfg (bs_q s') = cfg \<and> qu_Redis (bs_q s') = b
    \<and> cp_FloatStore (bs_cap s') = (if b then ''redis'' else ''memory'') \<and> bs_effects s' = bs_effects s @ (if b then [OpenedRedis] else [])
    \<and> (b \<longrightarrow> verified_redis P cfg k (rs_Value store)) \<and> qu_Keyspace (bs_q s') = k
    \<and> unobserved (bs_cap s') = unobserved (bs_cap s)"
proof (cases "rs_Value store \<noteq> ''memory://''")
  case True
  with assms obtain u s1 where r: "redis_step P cfg k store s = Some (Inr u, s1)"
    and rest: "b"
      "qu_Cfg (bs_q s') = cfg" "qu_Keyspace (bs_q s') = k" "qu_Redis (bs_q s')" "cp_FloatStore (bs_cap s') = cp_FloatStore (bs_cap s1)" "bs_effects s' = bs_effects s1"
      "unobserved (bs_cap s') = unobserved (bs_cap s1)"
    by (auto simp: counter_step_def boot_inv new_quota_def unobserved_def split: if_split_asm)
  from redis_step_success [OF r] rest True show ?thesis by simp
next
  case False
  with assms show ?thesis
    by (auto simp: counter_step_def memory_step_def boot_inv new_quota_def unobserved_def split: if_split_asm)
qed

lemma early_steps:
  "load_step P opts s = Some (r, s') \<Longrightarrow> bs_effects s' = bs_effects s"
  "keyspace_step cfg s = Some (r2, s') \<Longrightarrow> bs_effects s' = bs_effects s"
  "provider_step P cfg s = Some (r3, s') \<Longrightarrow> s' = s" "prefix_step cfg s = Some (r3, s') \<Longrightarrow> s' = s" "store_url_step P cfg s = Some (r4, s') \<Longrightarrow> s' = s"
  "plan_step P cfg store s = Some (r3, s') \<Longrightarrow> bs_effects s' = bs_effects s"
  by (auto simp: load_step_def keyspace_step_def provider_step_def prefix_step_def store_url_step_def plan_step_def bthen_def bbind_def bret_def bfail_def bdo_def Let_def
      split: sum.split_asm if_split_asm option.split_asm)

lemma early_unobserved:
  "load_step P opts s = Some (r, s') \<Longrightarrow> unobserved (bs_cap s') = unobserved (bs_cap s)"
  "keyspace_step cfg s = Some (r2, s') \<Longrightarrow> unobserved (bs_cap s') = unobserved (bs_cap s)"
  "plan_step P cfg store s = Some (r3, s') \<Longrightarrow> unobserved (bs_cap s') = unobserved (bs_cap s)"
  by (auto simp: load_step_def keyspace_step_def plan_step_def unobserved_def bthen_def bbind_def bret_def bfail_def bdo_def Let_def
      split: sum.split_asm if_split_asm option.split_asm)

lemma early_start:
  assumes "load_step P opts (boot_start blank w) = Some (r, s0)" and "keyspace_step cfg s0 = Some (r2, s1)" and "plan_step P cfg store s1 = Some (r3, s2)"
  shows "bs_effects s2 = []" "unobserved (bs_cap s2) = ([], [], None)"
  using assms(1) [THEN early_unobserved(1)] assms(2) [THEN early_unobserved(2)] assms(3) [THEN early_unobserved(3)]
    assms(1) [THEN early_steps(1)] assms(2) [THEN early_steps(2)] assms(3) [THEN early_steps(6)]
  by (simp_all add: boot_start_def unobserved_def start_capabilities_def)

text \<open>A boot that reached its last steps, or ended there.\<close>

lemma setup_success:
  assumes "quota_setup P opts blank w = Some (Inr q, s)"
  obtains cfg k store b s1 s2 where "resolve_string (pf_getenv P) (st_RedisURL (c_Storage (su_Config cfg))) redis_url_spec = Inr store"
    "counter_step P cfg k store s1 = Some (Inr b, s2)" "bs_effects s1 = []" "unobserved (bs_cap s1) = ([], [], None)"
    "wiring_steps P opts cfg b s2 = Some (Inr (), s)" "q = (bs_q s)\<lparr>qu_capability := bs_cap s\<rparr>"
proof -
  from assms obtain cfg k store b s0 s1 s1' s2 where l: "load_step P opts (boot_start blank w) = Some (Inr cfg, s0)" "keyspace_step cfg s0 = Some (Inr k, s1)"
    "provider_step P cfg s1 = Some (Inr (), s1)" "prefix_step cfg s1 = Some (Inr (), s1)" "store_url_step P cfg s1 = Some (Inr store, s1)"
    "plan_step P cfg store s1 = Some (Inr (), s1')"
    "counter_step P cfg k store s1' = Some (Inr b, s2)" "wiring_steps P opts cfg b s2 = Some (Inr (), s)" "q = (bs_q s)\<lparr>qu_capability := bs_cap s\<rparr>"
    unfolding quota_setup_def boot_steps_def boot_inv step_results using early_steps(3-5) by fastforce
  moreover note early_start [OF l(1,2,6)]
  moreover have "resolve_string (pf_getenv P) (st_RedisURL (c_Storage (su_Config cfg))) redis_url_spec = Inr store"
    using l(5) by (simp add: store_url_step_def split: sum.split_asm)
  ultimately show ?thesis using that by blast
qed

text \<open>
  C16. The counter store is what the deployment declared. When \<open>Setup\<close> succeeds, a store URL was declared,
  and the counters are in memory only if that URL is \<open>memory://\<close>; otherwise they are on the declared
  Redis, whose client is open: a PING to the declared URL with the declared password was answered, and
  the server passed every gate of the boot and the check that it holds the keyspace of the handle.
\<close>

theorem declared_store_never_degrades:
  assumes "quota_setup P opts blank w = Some (Inr q, s)"
  shows "\<exists>store. resolve_string (pf_getenv P) (st_RedisURL (c_Storage (su_Config (qu_Cfg q)))) redis_url_spec = Inr store \<and>
    (if rs_Value store = ''memory://'' then cp_FloatStore (qu_capability q) = ''memory'' \<and> \<not> qu_Redis q
     else cp_FloatStore (qu_capability q) = ''redis'' \<and> qu_Redis q \<and> OpenedRedis \<in> set (bs_effects s) \<and> ClosedRedis \<notin> set (bs_effects s)
       \<and> verified_redis P (qu_Cfg q) (qu_Keyspace q) (rs_Value store))"
proof -
  obtain cfg k store b s1 s2 where st: "resolve_string (pf_getenv P) (st_RedisURL (c_Storage (su_Config cfg))) redis_url_spec = Inr store"
    and c: "counter_step P cfg k store s1 = Some (Inr b, s2)" and e: "bs_effects s1 = []" and wi: "wiring_steps P opts cfg b s2 = Some (Inr (), s)"
    and q: "q = (bs_q s)\<lparr>qu_capability := bs_cap s\<rparr>" using assms by (rule setup_success)
  from leads_wiring wi have "wired s2 s" unfolding leads_def by blast
  with counter_step_success [OF c] e q st show ?thesis
    by (intro exI [of _ store]) (auto simp: wired_def unobserved_def)
qed

section \<open>The billing chain\<close>

text \<open>A durable outbox: a DynamoDB table that was judged usable, or a Redis that was judged durable.\<close>

fun judged_durable :: "'w platform \<Rightarrow> setup_config \<Rightarrow> durable_store \<Rightarrow> bool" where
  "judged_durable P cfg (OutboxDDB table) = (\<exists>region w. fst (snd (verify_table (pf_Describer P region w) table ''ttl'' (pitr_confirmed P cfg))) = [])"
| "judged_durable P cfg OutboxRedis = (\<exists>w. fst (check_durability (pf_Prober P w) (obc_RedisDurabilityConfirmed (su_Outbox cfg))))"

lemma provision_durable:
  "provision_outbox P cfg table i left w = Some (Some (store, True, detail), w') \<Longrightarrow> \<exists>x. store = Some x \<and> judged_durable P cfg x"
proof (induction left arbitrary: i w)
  case (Suc left)
  show ?case
  proof (cases "new_ddb_client P (su_Storage cfg)")
    case (Inl e)
    with Suc show ?thesis by (auto simp: Let_def)
  next
    case (Inr rc)
    obtain region C where rc: "rc = (region, C)" by fastforce
    from Suc.prems obtain e w1 where en: "do_ensure_table C table (60 * second) w = Some (e, w1)"
      by (auto simp: Inr rc Let_def split: option.split_asm)
    note en = en [simplified]
    show ?thesis
    proof (cases e)
      case (Some x)
      with Suc.prems Suc.IH show ?thesis by (auto simp: Inr rc en Let_def)
    next
      case None
      obtain v fatal warn where ver: "verify_table (pf_Describer P region w1) table ''ttl'' (pitr_confirmed P cfg) = (v, fatal, warn)" by (metis surj_pair)
      with Suc.prems have "fatal = []" "store = Some (OutboxDDB table)" by (simp_all add: Inr rc en None Let_def split: if_split_asm)
      moreover from this(1) ver have "judged_durable P cfg (OutboxDDB table)" by (auto intro!: exI [of _ region] exI [of _ w1])
      ultimately show ?thesis by blast
    qed
  qed
qed simp

lemma redis_outbox_durable: "redis_outbox P cfg redis w = (store, True, detail) \<Longrightarrow> \<exists>x. store = Some x \<and> judged_durable P cfg x"
  by (auto simp: redis_outbox_def split: if_split_asm prod.split_asm intro!: exI [of _ w])

lemma resolved_durable:
  assumes "resolve_durable_outbox P cfg redis w = Some ((store, True, detail), w')"
  shows "\<exists>x. store = Some x \<and> judged_durable P cfg x"
proof (cases "to_lower (obc_Store (su_Outbox cfg)) \<noteq> ''redis'' \<and> ddb_signal_present cfg")
  case True
  with assms obtain r w1 where p: "provision_outbox P cfg (outbox_table (su_Outbox cfg)) 1 (provision_attempts (su_Outbox cfg)) w = Some (r, w1)"
    by (auto simp: resolve_durable_outbox_def split: option.split_asm)
  with True assms show ?thesis
    by (cases r) (auto simp: resolve_durable_outbox_def dest: provision_durable intro: redis_outbox_durable)
next
  case False
  with assms show ?thesis by (intro redis_outbox_durable) (auto simp: resolve_durable_outbox_def)
qed

lemma weakest_link_none: "weakest_link d detail p b = [] \<longleftrightarrow> d \<and> p \<and> b"
  by (simp add: weakest_link_def)

lemma judge_chain_paid:
  assumes "judge_chain cfg publisher True skip (store, durable, detail) s = Some (Inr u, s')" and "\<not> obc_AllowEphemeral (su_Outbox cfg)"
  shows "durable \<and> publisher \<and> qu_Billing (bs_q s) \<noteq> None \<and> qu_Billing (bs_q s') = qu_Billing (bs_q s)
    \<and> qu_Outbox (bs_q s') = map_option (emitter_for (su_Outbox cfg) (bs_q s)) store \<and> billing_healthy (bs_cap s')
    \<and> (skip \<or> StartedDrain \<in> set (bs_effects s'))"
proof -
  have w: "weakest_link durable detail publisher (qu_Billing (bs_q s) \<noteq> None) = []"
    using assms by (auto simp: judge_chain_def Let_def split: if_split_asm)
  show ?thesis
    using assms w w [unfolded weakest_link_none] by (auto simp: judge_chain_def billing_healthy_def Let_def split: if_split_asm)
qed

lemma gate_paid:
  assumes "gate_billing_chain P cfg redis publisher True skip s = Some (Inr u, s')" and "\<not> obc_AllowEphemeral (su_Outbox cfg)"
  shows "publisher \<and> qu_Billing (bs_q s) \<noteq> None \<and> qu_Billing (bs_q s') = qu_Billing (bs_q s) \<and> billing_healthy (bs_cap s')
    \<and> (skip \<or> StartedDrain \<in> set (bs_effects s')) \<and> (\<exists>e. qu_Outbox (bs_q s') = Some e \<and> ew_Settler e \<and> judged_durable P cfg (ew_Store e))"
proof -
  obtain v s1 where j: "judge_chain cfg publisher True skip v s1 = Some (Inr u, s')" and b: "qu_Billing (bs_q s1) = qu_Billing (bs_q s)"
    and v: "v = (None, False, ''outbox.enabled=false'') \<or> (\<exists>w w'. resolve_durable_outbox P cfg redis w = Some (v, w'))"
    using assms(1) by (rule gate_judges)
  obtain store durable detail where vv: "v = (store, durable, detail)" by (metis surj_pair)
  note c = judge_chain_paid [OF j [unfolded vv] assms(2)]
  then have "durable" by blast
  with v vv obtain w w' where "resolve_durable_outbox P cfg redis w = Some ((store, True, detail), w')" by (elim disjE exE) simp_all
  from resolved_durable [OF this] obtain x where x: "store = Some x" "judged_durable P cfg x" by (elim exE conjE)
  have "qu_Outbox (bs_q s') = Some (emitter_for (su_Outbox cfg) (bs_q s1) x)" using c x(1) by simp
  moreover have "ew_Settler (emitter_for (su_Outbox cfg) (bs_q s1) x)" "ew_Store (emitter_for (su_Outbox cfg) (bs_q s1) x) = x"
    using c by (simp_all add: emitter_for_def)
  ultimately have "\<exists>e. qu_Outbox (bs_q s') = Some e \<and> ew_Settler e \<and> judged_durable P cfg (ew_Store e)" using x(2) by (metis (lifting))
  with c b show ?thesis by simp
qed

lemma billing_step_success:
  "billing_step P cfg opts redis s = Some (Inr u, s') \<Longrightarrow>
   gate_billing_chain P cfg redis (has_publisher P cfg opts) (enable_paid cfg opts (bs_q s)) (op_SkipBackgroundLoops opts) s = Some (Inr u, s')"
  by (auto simp: billing_step_def split: option.split_asm sum.split_asm setup_err.split_asm prod.split_asm)

lemma gate_keeps_billing:
  assumes "gate_billing_chain P cfg redis publisher paid skip s = Some (r, s')"
  shows "qu_Billing (bs_q s') = qu_Billing (bs_q s)"
proof -
  obtain v s1 where j: "judge_chain cfg publisher paid skip v s1 = Some (r, s')" and b: "qu_Billing (bs_q s1) = qu_Billing (bs_q s)"
    using assms by (rule gate_judges)
  then show ?thesis by (auto simp: judge_chain_def Let_def split: if_split_asm prod.split_asm)
qed

text \<open>
  C15. A paid service that cannot bill does not come up. When \<open>Setup\<close> succeeds in paid mode without the
  development escape, every link from the intent to billing is there: an outbox that was judged
  durable, with the settlement fallback, a publisher, a billing client, and a drain loop that runs
  (unless the loops are switched off for a diagnostic run).
\<close>

theorem paid_setup_bills:
  assumes "quota_setup P opts blank w = Some (Inr q, s)" and "enable_paid (qu_Cfg q) opts q" and "\<not> obc_AllowEphemeral (su_Outbox (qu_Cfg q))"
  shows "has_publisher P (qu_Cfg q) opts \<and> qu_Billing q \<noteq> None \<and> billing_healthy (qu_capability q)
    \<and> (op_SkipBackgroundLoops opts \<or> StartedDrain \<in> set (bs_effects s))
    \<and> (\<exists>e. qu_Outbox q = Some e \<and> ew_Settler e \<and> judged_durable P (qu_Cfg q) (ew_Store e))"
proof -
  obtain cfg k store b s1 s2 where c: "counter_step P cfg k store s1 = Some (Inr b, s2)" and wi: "wiring_steps P opts cfg b s2 = Some (Inr (), s)"
    and q: "q = (bs_q s)\<lparr>qu_capability := bs_cap s\<rparr>" using assms(1) by (rule setup_success)
  from leads_wiring wi have "wired s2 s" unfolding leads_def by blast
  with counter_step_success [OF c] q have cfg: "qu_Cfg q = cfg" by (simp add: wired_def unobserved_def)
  from wi obtain s3 where "billing_step P cfg opts b s3 = Some (Inr (), s)" unfolding wiring_steps_def bthen_success by blast
  from billing_step_success [OF this] have g: "gate_billing_chain P cfg b (has_publisher P cfg opts) (enable_paid cfg opts (bs_q s3)) (op_SkipBackgroundLoops opts) s3 = Some (Inr (), s)" .
  have "enable_paid cfg opts (bs_q s3)" using assms(2) gate_keeps_billing [OF g] q cfg by (simp add: enable_paid_def split: option.split_asm)
  with gate_paid [of P cfg b] g assms(3) cfg q show ?thesis by fastforce
qed

section \<open>A refused boot\<close>

text \<open>The steps before the billing chain fail with other errors than a severed chain.\<close>

definition never_severed :: "('w, 'a) boot \<Rightarrow> bool" where
  "never_severed m \<longleftrightarrow> (\<forall>s a b s'. m s \<noteq> Some (Inl (BillingChain a b), s'))"

lemma never_severed_bthen: "never_severed m \<Longrightarrow> never_severed n \<Longrightarrow> never_severed (bthen m n)"
  by (simp add: never_severed_def bthen_failure)

lemma never_severed_basic: "never_severed (bret x)" "never_severed (bdo f)" "(\<And>a b. e \<noteq> BillingChain a b) \<Longrightarrow> never_severed (bfail e)"
  by (auto simp: never_severed_def)

lemma never_severed_early:
  "never_severed (load_step P opts)" "never_severed (keyspace_step cfg)" "never_severed (provider_step P cfg)" "never_severed (prefix_step cfg)"
  "never_severed (store_url_step P cfg)" "never_severed (plan_step P cfg store)"
  unfolding load_step_def keyspace_step_def provider_step_def prefix_step_def store_url_step_def plan_step_def Let_def
  by (auto intro!: never_severed_bthen never_severed_basic split: sum.split option.split)

lemma never_severed_counter: "never_severed (counter_step P cfg k store)"
proof -
  have "never_severed (redis_step P cfg k store)" using redis_step_fails_closed unfolding never_severed_def by blast
  then show ?thesis unfolding counter_step_def memory_step_def Let_def
    by (auto intro!: never_severed_bthen never_severed_basic)
qed

lemma never_severed_wiring:
  "never_severed (mesh_step P opts)" "never_severed (alerts_step P cfg)" "never_severed (handler_ledger_step P cfg redis)" "never_severed (receiver_step P)"
  "never_severed (credit_step opts)"
proof -
  have "never_severed (ledger_table_step P cfg c)" for c
    by (auto simp: never_severed_def ledger_table_step_def Let_def split: option.split_asm prod.split_asm if_split_asm)
  then show "never_severed (handler_ledger_step P cfg redis)" unfolding handler_ledger_step_def Let_def
    by (intro never_severed_bthen) (auto intro!: never_severed_basic split: sum.split)
  show "never_severed (mesh_step P opts)" "never_severed (alerts_step P cfg)" "never_severed (receiver_step P)"
    unfolding mesh_step_def alerts_step_def receiver_step_def Let_def
    by (auto intro!: never_severed_bthen never_severed_basic split: option.split)
  show "never_severed (credit_step opts)"
    by (auto simp: never_severed_def credit_step_def split: option.split_asm if_split_asm)
qed

lemma bthen_assoc: "bthen (bthen a b) c = bthen a (bthen b c)"
  by (rule ext) (auto simp: bthen_def bbind_def split: option.split sum.split)

lemma severed_wiring:
  assumes "wiring_steps P opts cfg redis s = Some (Inl (BillingChain a b), s')" and "op_CreditGranter opts \<noteq> None"
  shows "RegisteredCreditHandler \<in> set (bs_effects s')"
proof -
  let ?pre = "bthen (mesh_step P opts) (bthen (alerts_step P cfg) (bthen (handler_ledger_step P cfg redis) (receiver_step P)))"
  let ?post = "bthen (subscribe_step opts) (bthen (activations_step P cfg) (bthen (wire_reconciler opts) (bthen (reverification_step redis)
    (billing_step P cfg opts redis)))) :: ('a, unit) boot"
  have "wiring_steps P opts cfg redis = bthen ?pre (bthen (credit_step opts) ?post)" by (simp add: wiring_steps_def bthen_assoc)
  with assms(1) have f: "bthen ?pre (bthen (credit_step opts) ?post) s = Some (Inl (BillingChain a b), s')" by simp
  have "never_severed ?pre" by (intro never_severed_bthen never_severed_wiring)
  with f obtain s1 where c: "bthen (credit_step opts) ?post s1 = Some (Inl (BillingChain a b), s')"
    unfolding bthen_failure [of ?pre] never_severed_def by blast
  then obtain s2 where g: "credit_step opts s1 = Some (Inr (), s2)" and p: "?post s2 = Some (Inl (BillingChain a b), s')"
    using never_severed_wiring(5) unfolding bthen_failure [of "credit_step opts"] never_severed_def by fastforce
  have "RegisteredCreditHandler \<in> set (bs_effects s2)"
    using g assms(2) by (auto simp: credit_step_def split: option.split_asm if_split_asm)
  moreover have "leads ?post" by (intro leads_bthen leads_all)
  with p have "wired s2 s'" unfolding leads_def by blast
  ultimately show ?thesis by (auto simp: wired_def unobserved_def)
qed

text \<open>
  C37. A boot refused for its billing chain is not undone. \<open>Setup\<close> returns the error and no handle, but the
  credit handler it registered stays registered and the Redis client it opened is never closed: the
  closers are on the handle that is thrown away.
\<close>

theorem refused_boot_leaves_handler:
  assumes "quota_setup P opts blank w = Some (Inl (BillingChain a b), s)" and "op_CreditGranter opts \<noteq> None"
  shows "RegisteredCreditHandler \<in> set (bs_effects s) \<and> ClosedRedis \<notin> set (bs_effects s)"
proof -
  note early = never_severed_early [unfolded never_severed_def] never_severed_counter [unfolded never_severed_def]
  from assms(1) obtain cfg k store redis s0 s1 p1 p2 p3 s1' s2 where l: "load_step P opts (boot_start blank w) = Some (Inr cfg, s0)" "keyspace_step cfg s0 = Some (Inr k, s1)"
    and "provider_step P cfg s1 = Some (Inr (), p1)" "prefix_step cfg p1 = Some (Inr (), p2)" "store_url_step P cfg p2 = Some (Inr store, p3)"
    and p': "plan_step P cfg store p3 = Some (Inr (), s1')"
    and c: "counter_step P cfg k store s1' = Some (Inr redis, s2)" and wi: "wiring_steps P opts cfg redis s2 = Some (Inl (BillingChain a b), s)"
    unfolding quota_setup_def boot_steps_def boot_inv by (auto simp: early)
  then have "p3 = s1" using early_steps(3-5) by metis
  with p' have "bs_effects s1' = []" using early_start(1) [OF l] by blast
  with counter_step_success [OF c] have "ClosedRedis \<notin> set (bs_effects s2)" by simp
  moreover from leads_wiring wi have "wired s2 s" unfolding leads_def by blast
  ultimately show ?thesis using severed_wiring [OF wi assms(2)] by (auto simp: wired_def unobserved_def)
qed

section \<open>Health\<close>

text \<open>
  C18. A violated invariant is never green. Whatever the re-verification of a Redis counter store finds
  unsafe fails the health report at once, except the version, which is recorded only.
\<close>

theorem violated_invariant_fails_health:
  assumes "cp_FloatStore (rv_capability q) = ''redis''" and "n \<in> set (rv_unsafeInvariants (revalidate getenv c sc q))" and "n \<noteq> ''redis_version''"
  shows "\<not> healthy (rv_capability (revalidate getenv c sc q))"
proof -
  let ?v = "verify_redis_invariants getenv c sc (rv_outboxOnRedis q) (rv_capability q)"
  let ?topo = "check_redis_cluster_topology c (cluster_confirmed_disabled getenv sc)"
  let ?ev = "check_counter_eviction c (sf_RedisDurabilityConfirmed sc \<or> env_durability_confirmed getenv)"
  let ?fe = "case check_evicted_keys c of (n, found) \<Rightarrow> evaluate_eviction_facts n found"
  have caps: "rv_capability (revalidate getenv c sc q) = fst ?v" and names: "n \<in> fst ` set (snd ?v)"
    using assms(2) by (simp_all add: revalidate_def Let_def case_prod_unfold)
  have f: "cp_FloatStore (fst ?v) = ''redis''" "cp_RedisTopology (fst ?v) = topology_capability_value (fst ?topo) (snd ?topo)"
    "cp_CounterEvictionPolicy (fst ?v) = eviction_capability ?ev" "cp_RedisScripting (fst ?v) = scripting_capability (check_script_capability c)"
    "cp_MemoryHeadroom (fst ?v) = memory_capability (check_memory_headroom c)" "cp_CounterEvictionsObserved (fst ?v) = evictions_capability ?fe"
    "cp_RedisPersistStatus (fst ?v) = persist_capability (rv_outboxOnRedis q) (evaluate_persist_facts (check_persist_facts c))"
    using assms(1) by (simp_all add: verify_redis_invariants_def cluster_confirmed_disabled_def Let_def case_prod_unfold)
  from names reported_names consider "n = ''redis_topology''" | "n = ''counter_eviction_policy''" | "n = ''redis_scripting''" | "n = ''counter_evictions_observed''"
    | "n = ''redis_persist_status''" | "n = ''memory_headroom''" using assms(3) by blast
  then have "\<not> topology_ok (cp_RedisTopology (fst ?v)) \<or> \<not> counter_store_ok (cp_CounterEvictionPolicy (fst ?v)) \<or> \<not> scripting_ok (cp_RedisScripting (fst ?v))
      \<or> \<not> memory_headroom_ok (cp_MemoryHeadroom (fst ?v)) \<or> \<not> eviction_facts_ok (cp_CounterEvictionsObserved (fst ?v)) \<or> \<not> persist_facts_ok (cp_RedisPersistStatus (fst ?v))"
  proof cases
    case 1
    with names have "fst ?topo \<noteq> topology_single_node" by (simp only: reported simp_thms)
    from clustered_is_unhealthy [OF topology_values this] show ?thesis unfolding f by blast
  next
    case 2
    with names have "\<not> fst ?ev" by (simp only: reported simp_thms)
    then show ?thesis unfolding f using evicting_is_unhealthy by blast
  next
    case 3
    with names have "\<not> fst (check_script_capability c)" by (simp only: reported simp_thms)
    then show ?thesis unfolding f using scriptless_is_unhealthy by blast
  next
    case 4
    with names have "fst ?fe = FactViolated" by (simp only: reported simp_thms)
    then show ?thesis unfolding f using evicted_is_unhealthy by blast
  next
    case 5
    with names have "fst (evaluate_persist_facts (check_persist_facts c)) = FactViolated \<and> rv_outboxOnRedis q" by (simp only: reported simp_thms)
    then show ?thesis unfolding f using failing_is_unhealthy by simp
  next
    case 6
    with names have "fst (check_memory_headroom c) = LowHeadroom" by (simp only: reported simp_thms)
    then show ?thesis unfolding f using crowded_is_unhealthy by blast
  qed
  with f(1) show ?thesis unfolding caps healthy_def by blast
qed

definition running_redis :: revalidation where
  "running_redis = \<lparr>rv_capability = start_capabilities\<lparr>cp_FloatStore := ''redis''\<rparr>, rv_unsafeInvariants = [], rv_counterUntrusted = False,
     rv_outboxOnRedis = False, rv_alerts = None\<rparr>"

theorem violated_invariant_fails_health_witness:
  "\<not> healthy (rv_capability (revalidate (\<lambda>_. []) (good_redis\<lparr>pb_ScriptLoad := Inl \<lparr>re_text = ''ERR unknown command'', re_net = False\<rparr>\<rparr>) no_assertions running_redis))"
proof (rule violated_invariant_fails_health)
  let ?c = "good_redis\<lparr>pb_ScriptLoad := Inl \<lparr>re_text = ''ERR unknown command'', re_net = False\<rparr>\<rparr>"
  have "''redis_scripting'' \<in> fst ` set (snd (verify_redis_invariants (\<lambda>_. []) ?c no_assertions False (rv_capability running_redis)))"
    unfolding reported by (simp add: check_script_capability_def)
  then show "''redis_scripting'' \<in> set (rv_unsafeInvariants (revalidate (\<lambda>_. []) ?c no_assertions running_redis))"
    by (simp add: revalidate_def Let_def case_prod_unfold running_redis_def)
qed (simp_all add: running_redis_def)

section \<open>The boot ends\<close>

definition returns :: "('w, 'a) boot \<Rightarrow> bool" where
  "returns m \<longleftrightarrow> (\<forall>s. m s \<noteq> None)"

lemma returns_basic [simp]: "returns (bret x)" "returns (bfail e)" "returns (bdo f)"
  by (simp_all add: returns_def bret_def bfail_def bdo_def)

lemma returns_bbind: "returns m \<Longrightarrow> (\<And>x. returns (f x)) \<Longrightarrow> returns (bbind m f)"
  by (auto simp: returns_def bbind_def split: option.split sum.split)

lemma returns_bthen: "returns m \<Longrightarrow> returns n \<Longrightarrow> returns (bthen m n)"
  by (simp add: bthen_def returns_bbind)

lemma returns_plain:
  "returns (load_step P opts)" "returns (keyspace_step cfg)" "returns (provider_step P cfg)" "returns (prefix_step cfg)" "returns (store_url_step P cfg)"
  "returns memory_step" "returns (mesh_step P opts)" "returns (alerts_step P cfg)" "returns (receiver_step P)" "returns (subscribe_step opts)"
  unfolding load_step_def keyspace_step_def provider_step_def prefix_step_def store_url_step_def memory_step_def mesh_step_def alerts_step_def
    receiver_step_def subscribe_step_def Let_def
  by (auto intro!: returns_bthen split: sum.split option.split)

lemma plan_returns: "returns (plan_step P cfg store)"
  by (simp add: plan_step_def)

lemma returns_pure:
  "returns (credit_step opts)" "returns (wire_reconciler opts)" "returns (reverification_step redis)" "returns (judge_chain cfg p paid skip v)"
  by (simp_all add: returns_def credit_step_def wire_reconciler_def reverification_step_def judge_chain_def bdo_def bfail_def Let_def
      split: option.split prod.split bool.split)

text \<open>
  Time passes: a PING and a reading of the clock do not turn it back, a wait that was not cut short
  lasts as long as asked, and the clients of DynamoDB see the same clock.
\<close>

locale boot_clock =
  fixes P :: "'w platform" and clock :: "'w \<Rightarrow> instant"
  assumes ping_clock: "pf_Ping P url pw w = (r, w') \<Longrightarrow> clock w \<le> clock w'"
    and now_clock: "pf_Now P w = (t, w') \<Longrightarrow> clock w \<le> t \<and> t \<le> clock w'"
    and wait_clock: "pf_Wait P d w = (False, w') \<Longrightarrow> clock w + d \<le> clock w'"
    and dynamo: "dynamo_clock (pf_Dynamo P region endpoint) clock"
begin

lemma client_clock: "new_redis_client P url pw w = (r, w') \<Longrightarrow> clock w \<le> clock w'"
  by (auto simp: new_redis_client_def split: option.split_asm prod.split_asm dest: ping_clock)

lemma connect_loop_returns:
  assumes "0 < delay"
  shows "\<exists>r w'. connect_loop P url pw deadline delay w = Some (r, w')"
  using assms
proof (induction "nat (deadline - clock w)" arbitrary: w delay rule: less_induct)
  case less
  obtain r w1 where c: "new_redis_client P url pw w = (r, w1)" by fastforce
  obtain t w2 where n: "pf_Now P w1 = (t, w2)" by fastforce
  obtain ended w3 where wt: "pf_Wait P delay w2 = (ended, w3)" by fastforce
  show ?case
  proof (cases "t + delay < deadline \<and> \<not> ended")
    case True
    then have le: "clock w + delay \<le> clock w3" using client_clock [OF c] now_clock [OF n] wait_clock [of delay w2 w3] wt by auto
    have "nat (deadline - clock w3) < nat (deadline - clock w)"
      using True le less.prems client_clock [OF c] now_clock [OF n] by linarith
    from less.hyps [OF this, of "min (delay * 2) connect_backoff_cap"] less.prems
    have "\<exists>r w'. connect_loop P url pw deadline (min (delay * 2) connect_backoff_cap) w3 = Some (r, w')" by (simp add: connect_backoff_cap_def)
    with True show ?thesis by (subst connect_loop.simps) (simp add: c n wt Let_def split: option.split)
  next
    case False
    then show ?thesis by (subst connect_loop.simps) (auto simp: c n wt Let_def split: option.split)
  qed
qed

lemma connect_returns: "\<exists>r. connect_declared_redis P url pw source retry c w = Some r"
proof -
  obtain t w1 where n: "pf_Now P w = (t, w1)" by fastforce
  have "0 < connect_backoff_initial" by (simp add: connect_backoff_initial_def)
  from connect_loop_returns [OF this, of url pw "t + to_go_int (fmul (retry_budget retry) (Fin (of_int second)))" w1] n
  show ?thesis by (auto simp: connect_declared_redis_def Let_def split: option.split)
qed

lemma redis_step_returns: "returns (redis_step P cfg k store)"
  unfolding returns_def
proof
  fix s :: "'w boot_state"
  obtain r where c: "connect_declared_redis P (rs_Value store) (sf_RedisPassword (su_Storage cfg)) (rs_Source store)
      (sf_ConnectRetrySeconds (su_Storage cfg)) (bs_cap s) (bs_world s) = Some r" using connect_returns by blast
  obtain x cp w where r: "r = (x, cp, w)" by (metis surj_pair)
  show "redis_step P cfg k store s \<noteq> None"
    by (cases x) (simp_all add: redis_step_def c r bret_def bfail_def Let_def split: option.split prod.split sum.split)
qed

lemma counter_step_returns: "returns (counter_step P cfg k store)"
  unfolding counter_step_def Let_def
  by (intro returns_bthen returns_basic) (auto simp: redis_step_returns returns_plain(6))

lemma client_of: "new_ddb_client P sc = Inr (region, C) \<Longrightarrow> dynamo_clock C clock"
  by (auto simp: new_ddb_client_def dynamo split: sum.split_asm)

lemma outbox_table_returns:
  assumes "dynamo_clock C clock"
  shows "\<exists>r. do_ensure_table C tbl d w = Some r"
proof -
  obtain x w1 where x: "dtry (dd_DescribeTable C tbl) (\<lambda>e. if e \<noteq> ResourceNotFound then dfail e else dd_CreateTable C tbl outbox_schema) (\<lambda>_. dret ()) w = (x, w1)" by fastforce
  have p: "0 < 300 * (second div 1000)" by simp
  obtain b w2 where "wait_for C status_index_active tbl (300 * (second div 1000)) d w1 = Some (b, w2)"
    by (rule dynamo_clock.wait_returns [OF assms p, of status_index_active tbl d w1]) blast
  with x show ?thesis by (cases x) (simp_all add: do_ensure_table_def)
qed

lemma acts_table_returns:
  assumes "dynamo_clock C clock"
  shows "\<exists>r. da_ensure_table C S d w = Some r"
proof -
  obtain x w1 where x: "dtry (dd_DescribeTable C (da_table S)) (\<lambda>e. if e \<noteq> ResourceNotFound then dfail e else dd_CreateTable C (da_table S) acts_schema)
      (\<lambda>_. dret ()) w = (x, w1)" by fastforce
  have p: "0 < 300 * (second div 1000)" by simp
  obtain b w2 where "wait_for C (index_active ''GSI1'') (da_table S) (300 * (second div 1000)) d w1 = Some (b, w2)"
    by (rule dynamo_clock.wait_returns [OF assms p, of "index_active ''GSI1''" "da_table S" d w1]) blast
  with x show ?thesis by (cases x) (simp_all add: da_ensure_table_def)
qed

lemma ledger_step_returns: "returns (handler_ledger_step P cfg redis)"
proof -
  have t: "returns (ledger_table_step P cfg c)" if d: "dynamo_clock (snd c) clock" for c
    unfolding returns_def
  proof
    fix s :: "'w boot_state"
    obtain e w' where "dl_ensure_table True (snd c) (sf_DynamoDBTable (su_Storage cfg)) (60 * second) (bs_world s) = Some (e, w')"
      using ensure_ledger_table_returns [OF d] by blast
    then show "ledger_table_step P cfg c s \<noteq> None"
      by (cases e) (simp_all add: ledger_table_step_def bret_def bfail_def Let_def split: prod.split)
  qed
  show ?thesis unfolding handler_ledger_step_def Let_def
    by (intro returns_bthen) (auto intro!: t simp: client_of split: sum.split)
qed

lemma activations_step_returns: "returns (activations_step P cfg)"
  unfolding returns_def
proof
  fix s :: "'w boot_state"
  show "activations_step P cfg s \<noteq> None"
  proof (cases "new_ddb_client P (su_Storage cfg)")
    case (Inr rc)
    obtain region C where rc: "rc = (region, C)" by fastforce
    obtain e w' where "da_ensure_table C (new_ddb_acts [] 0) (60 * second) (bs_world s) = Some (e, w')"
      using acts_table_returns [OF client_of [OF Inr [unfolded rc]]] by (metis surj_pair)
    then show ?thesis by (cases e) (simp_all add: activations_step_def Inr rc bret_def bdo_def)
  qed (simp add: activations_step_def bret_def)
qed

lemma provision_returns: "\<exists>r. provision_outbox P cfg table i left w = Some r"
proof (induction left arbitrary: i w)
  case (Suc left)
  show ?case
  proof (cases "new_ddb_client P (su_Storage cfg)")
    case (Inl e)
    with Suc show ?thesis by (simp add: Let_def)
  next
    case (Inr rc)
    obtain region C where rc: "rc = (region, C)" by fastforce
    obtain e w' where en: "do_ensure_table C table (60 * second) w = Some (e, w')"
      using outbox_table_returns [OF client_of [OF Inr [unfolded rc]]] by (metis surj_pair)
    note en = en [simplified]
    show ?thesis using Suc by (cases e) (simp_all add: Inr rc en Let_def split: prod.split)
  qed
qed simp

lemma billing_step_returns: "returns (billing_step P cfg opts redis)"
  unfolding returns_def
proof
  fix s :: "'w boot_state"
  obtain r w' where p: "provision_outbox P cfg (outbox_table (su_Outbox cfg)) 1 (provision_attempts (su_Outbox cfg)) (bs_world s) = Some (r, w')"
    using provision_returns by (metis surj_pair)
  have "resolve_durable_outbox P cfg redis (bs_world s) \<noteq> None"
    by (cases r) (simp_all add: resolve_durable_outbox_def p [simplified] del: not_None_eq)
  then have "gate_billing_chain P cfg redis a b c s \<noteq> None" for a b c
    using returns_pure(4) unfolding returns_def by (fastforce simp: gate_billing_chain_def Let_def split: option.split)
  then show "billing_step P cfg opts redis s \<noteq> None"
    by (auto simp: billing_step_def split: option.split sum.split setup_err.split prod.split)
qed

lemma boot_returns: "returns (boot_steps P opts)"
proof -
  have "returns (\<lambda>s. bret ((bs_q s)\<lparr>qu_capability := bs_cap s\<rparr>) s)" by (simp add: returns_def bret_def)
  then show ?thesis unfolding boot_steps_def wiring_steps_def
    by (intro returns_bbind returns_bthen returns_plain returns_pure plan_returns counter_step_returns ledger_step_returns activations_step_returns billing_step_returns)
qed

end

text \<open>
  C17. \<open>Setup\<close> always returns, although it polls an unreachable Redis and the tables of three stores: on a
  clock that moves, with any configuration and any answers of the services, there is a result.
\<close>

theorem setup_returns:
  assumes "boot_clock P clock"
  shows "\<exists>r s. quota_setup P opts blank w = Some (r, s)"
  using boot_clock.boot_returns [OF assms, of opts] by (auto simp: quota_setup_def returns_def)

section \<open>A deployment\<close>

definition shop_config :: setup_config where
  "shop_config = \<lparr>su_Config = small_config\<lparr>c_Storage := (c_Storage small_config)\<lparr>st_RedisURL := d_declare ''redis://db:6379''\<rparr>\<rparr>, su_Storage = no_assertions,
     su_Outbox = \<lparr>obc_Enabled = None, obc_Store = ''redis'', obc_AllowEphemeral = False, obc_RedisDurabilityConfirmed = False, obc_DDBTable = [],
       obc_MaxRetryHorizonSeconds = Fin 0, obc_PastHorizon = [], obc_ProvisionRetryAttempts = 0, obc_SNSTopicARN = [], obc_SNSRegion = []\<rparr>,
     su_EnablePaid = True, su_Alerts = \<lparr>al_Enabled = False, al_CooldownSeconds = 0, al_WebhookURL = [], al_WarningThreshold = Fin 0, al_CriticalThreshold = Fin 0,
       al_DriftSustainedThreshold = 0\<rparr>,
     su_TierProvider = \<lparr>tp_Type = ''static'', tp_JWTClaimKey = [], tp_DefaultTier = ''free'', tp_Mapping = Map.empty, tp_CacheTTLSec = 60\<rparr>\<rparr>"

definition shop_env :: "string \<Rightarrow> string" where
  "shop_env k = (if k = ''AB0T_QUOTA_BILLING_URL'' then ''http://billing'' else [])"

definition quiet_db :: "dtable redis_db" where
  "quiet_db = \<lparr>db_Get = (\<lambda>w k. Inr None), db_Set = (\<lambda>w k v. (None, w)), db_Exists = (\<lambda>w k. Inr False), db_PTTL = (\<lambda>w k. Inr 0),
     db_PExpire = (\<lambda>w k n. (None, w)), db_Del = (\<lambda>w k. (Inr 0, w))\<rparr>"

definition shop :: "dtable platform" where
  "shop = \<lparr>pf_getenv = shop_env, pf_LoadConfig = Inr shop_config, pf_JWT = no_codec, pf_Scheme = (\<lambda>_. None), pf_UrlParse = (\<lambda>_. Some None),
     pf_ParseURL = (\<lambda>_. Some []), pf_Ping = (\<lambda>_ _ w. (None, w)), pf_Prober = (\<lambda>_. good_redis),
     pf_Marker = \<lparr>mc_Marshal = (\<lambda>_. []), mc_Unmarshal = (\<lambda>_. None)\<rparr>, pf_Db = quiet_db, pf_Scan = (\<lambda>_. []),
     pf_AwsRegion = (\<lambda>_. Inr ''eu-west-1''), pf_Dynamo = (\<lambda>_ _. contended_table (\<lambda>_ m. m)),
     pf_Describer = (\<lambda>_ _. \<lparr>ds_Table = (\<lambda>_. Inr None), ds_TTL = (\<lambda>_. Inr None), ds_PITR = (\<lambda>_. Inr None)\<rparr>),
     pf_Now = (\<lambda>w. (dt_clock w, w)), pf_Wait = (\<lambda>d w. (False, w\<lparr>dt_clock := dt_clock w + max 0 d\<rparr>)),
     pf_Sleep = (\<lambda>d w. w\<lparr>dt_clock := dt_clock w + max 0 d\<rparr>)\<rparr>"

definition shop_options :: "bool \<Rightarrow> options" where
  "shop_options publisher = \<lparr>op_ConfigOverride = None, op_AutoSubscribeAuthEvents = False, op_CreditGranter = Some CustomGranter, op_EnablePaid = None,
     op_SettlementPublisher = publisher, op_ReconcileOrgs = False, op_SkipBackgroundLoops = False\<rparr>"

lemma shop_clock: "boot_clock shop dt_clock"
  by (rule boot_clock.intro) (auto simp: shop_def contended_table_clock)

interpretation shop: boot_clock shop dt_clock
  by (rule shop_clock)

theorem setup_returns_witness: "\<exists>r s. quota_setup shop (shop_options True) shop_config empty_table = Some (r, s)"
  by (rule setup_returns [OF shop_clock])

lemma shop_valid: "validate_config False (su_Config shop_config) = Inr (su_Config shop_config)"
  by (simp add: shop_config_def validate_config_def small_config_def plain_tier_def gauge_resource_def validate_tier_def
      validate_billing_model_def synthesize_grant_def validate_resource_def plain_limit_def unmarshal_tier_limit_def)

lemma shop_load: "load_step shop (shop_options p) s = Some (Inr shop_config, cap (\<lambda>k. k\<lparr>cp_ConfigWarnings := config_warnings (su_Config shop_config)\<rparr>) s)"
  using shop_valid by (simp add: load_step_def shop_def shop_options_def shop_env_def env_bool_def bthen_def bbind_def bdo_def bret_def)

definition shop_keyspace :: keyspace where
  "shop_keyspace = \<lparr>ks_Service = ''svc'', ks_Version = 1, ks_DualWrite = False\<rparr>"

lemma shop_keyspace_step: "\<exists>s'. keyspace_step shop_config s = Some (Inr shop_keyspace, s')"
proof -
  have "new_keyspace ''svc'' 1 False = Inr shop_keyspace" unfolding shop_keyspace_def by code_simp
  then show ?thesis by (simp add: keyspace_step_def shop_config_def small_config_def bthen_def bbind_def bdo_def bret_def Let_def)
qed

lemma shop_early:
  "provider_step shop shop_config s = Some (Inr (), s)" "prefix_step shop_config s = Some (Inr (), s)"
  "store_url_step shop shop_config s = Some (Inr \<lparr>rs_Value = ''redis://db:6379'', rs_Source = SrcConfig ''storage.redis_url''\<rparr>, s)"
  by (simp_all add: provider_step_def new_provider_def prefix_step_def store_url_step_def shop_config_def small_config_def resolve_string_def d_get_def
      d_declare_def redis_url_spec_def bret_def Let_def)

lemma shop_counter: "\<exists>s'. counter_step shop shop_config shop_keyspace \<lparr>rs_Value = ''redis://db:6379'', rs_Source = src\<rparr> s = Some (Inr True, s')"
proof -
  have con: "\<exists>c w. connect_declared_redis shop url pw source retry c0 w0 = Some (None, c, w)" for url pw source retry c0 w0
    by (simp add: connect_declared_redis_def connect_loop.simps new_redis_client_def shop_def Let_def)
  have key: "check_boot_keyspace (pf_Marker shop) (pf_Db shop) shop_keyspace (pf_Scan shop w) w = Inr None" for w
    by (simp add: check_boot_keyspace_def shop_keyspace_def read_marker_def shop_def quiet_db_def ks_version_def is_final_def)
  have "\<exists>s'. redis_step shop shop_config shop_keyspace \<lparr>rs_Value = ''redis://db:6379'', rs_Source = src\<rparr> s = Some (Inr (), s')"
  proof -
    obtain c w where c: "connect_declared_redis shop ''redis://db:6379'' (sf_RedisPassword (su_Storage shop_config)) src
        (sf_ConnectRetrySeconds (su_Storage shop_config)) (bs_cap s) (bs_world s) = Some (None, c, w)" using con by blast
    obtain c' where "boot_preflight (pf_getenv shop) (pf_Prober shop w) (su_Storage shop_config) c = (None, c')"
      using good_redis_boots [of "pf_getenv shop" "su_Storage shop_config" c] by (simp add: shop_def) (metis prod.collapse)
    with c key [of w] show ?thesis by (simp add: redis_step_def bret_def Let_def)
  qed
  then show ?thesis by (auto simp: counter_step_def bthen_def bbind_def bdo_def bret_def)
qed

lemma shop_outbox: "resolve_durable_outbox shop shop_config True w = Some ((Some OutboxRedis, True, ''maxmemory-policy=noeviction, appendonly=yes''), w)"
proof -
  have "check_durability good_redis False = (True, ''maxmemory-policy=noeviction, appendonly=yes'')" by code_simp
  moreover have "to_lower ''redis'' = ''redis''" by code_simp
  ultimately show ?thesis by (simp add: resolve_durable_outbox_def redis_outbox_def shop_config_def shop_def)
qed

lemma shop_no_ddb: "\<not> ddb_signal_present shop_config" "sf_DynamoDBTable (su_Storage shop_config) = []"
proof -
  have "to_lower ''redis'' = ''redis''" by code_simp
  then show "\<not> ddb_signal_present shop_config" "sf_DynamoDBTable (su_Storage shop_config) = []"
    by (simp_all add: ddb_signal_present_def shop_config_def no_assertions_def)
qed

lemma shop_mesh: "\<exists>s'. mesh_step shop (shop_options p) s = Some (Inr (), s') \<and> qu_Billing (bs_q s') \<noteq> None"
proof -
  have "mu_Billing (mesh_resolve shop_env) \<noteq> []" by code_simp
  then show ?thesis by (simp add: mesh_step_def shop_def shop_options_def bthen_def bbind_def bdo_def bret_def Let_def)
qed

text \<open>A step that succeeds, keeps the billing client and forgets no effect.\<close>

definition passes :: "(dtable boot_state \<Rightarrow> ((setup_err + unit) \<times> dtable boot_state) option) \<Rightarrow> bool" where
  "passes m \<longleftrightarrow> (\<forall>s. \<exists>s'. m s = Some (Inr (), s') \<and> qu_Billing (bs_q s') = qu_Billing (bs_q s) \<and> set (bs_effects s) \<subseteq> set (bs_effects s'))"

lemma passes_bthen: "passes a \<Longrightarrow> passes b \<Longrightarrow> passes (bthen a b)"
  unfolding passes_def
proof
  fix s
  assume a: "\<forall>s. \<exists>s'. a s = Some (Inr (), s') \<and> qu_Billing (bs_q s') = qu_Billing (bs_q s) \<and> set (bs_effects s) \<subseteq> set (bs_effects s')"
    and b: "\<forall>s. \<exists>s'. b s = Some (Inr (), s') \<and> qu_Billing (bs_q s') = qu_Billing (bs_q s) \<and> set (bs_effects s) \<subseteq> set (bs_effects s')"
  from a obtain s1 where "a s = Some (Inr (), s1)" "qu_Billing (bs_q s1) = qu_Billing (bs_q s)" "set (bs_effects s) \<subseteq> set (bs_effects s1)" by blast
  moreover from b obtain s2 where "b s1 = Some (Inr (), s2)" "qu_Billing (bs_q s2) = qu_Billing (bs_q s1)" "set (bs_effects s1) \<subseteq> set (bs_effects s2)" by blast
  ultimately show "\<exists>s'. bthen a b s = Some (Inr (), s') \<and> qu_Billing (bs_q s') = qu_Billing (bs_q s) \<and> set (bs_effects s) \<subseteq> set (bs_effects s')"
    by (auto simp: bthen_def bbind_def)
qed

lemma shop_passes:
  "passes (alerts_step shop shop_config)" "passes (handler_ledger_step shop shop_config True)" "passes (receiver_step shop)"
  "passes (subscribe_step (shop_options p))" "passes (activations_step shop shop_config)" "passes (wire_reconciler (shop_options p))"
  "passes (reverification_step True)"
proof -
  have al: "\<not> al_Enabled (su_Alerts shop_config)" by (simp add: shop_config_def)
  show "passes (alerts_step shop shop_config)" by (simp add: passes_def alerts_step_def al bret_def bdo_def bthen_def bbind_def Let_def)
  show "passes (handler_ledger_step shop shop_config True)"
    by (simp add: passes_def handler_ledger_step_def shop_no_ddb bret_def bdo_def bthen_def bbind_def Let_def)
  have env: "pf_getenv shop ''AB0T_AUTH_WEBHOOK_SECRET'' = []" "pf_getenv shop ''AB0T_AUTH_WEBHOOK_SECRET_PREVIOUS'' = []"
    by (simp_all add: shop_def shop_env_def)
  show "passes (receiver_step shop)" by (simp add: passes_def receiver_step_def env bret_def bdo_def bthen_def bbind_def Let_def)
  show "passes (subscribe_step (shop_options p))"
    by (simp add: passes_def subscribe_step_def shop_options_def bret_def bdo_def bthen_def bbind_def Let_def)
  show "passes (activations_step shop shop_config)"
    by (simp add: passes_def activations_step_def shop_no_ddb bret_def bdo_def bthen_def bbind_def Let_def)
  show "passes (wire_reconciler (shop_options p))"
    by (simp add: passes_def wire_reconciler_def shop_options_def bret_def bdo_def bthen_def bbind_def Let_def)
  show "passes (reverification_step True)"
    by (auto simp: passes_def reverification_step_def bdo_def split: option.split bool.split)
qed

lemma shop_middle:
  "\<exists>s'. bthen (alerts_step shop shop_config) (bthen (handler_ledger_step shop shop_config True) (bthen (receiver_step shop) (bthen (credit_step (shop_options p))
     (bthen (subscribe_step (shop_options p)) (bthen (activations_step shop shop_config) (bthen (wire_reconciler (shop_options p)) (reverification_step True))))))) s
     = Some (Inr (), s') \<and> qu_Billing (bs_q s') = qu_Billing (bs_q s)"
proof -
  have "passes (credit_step (shop_options p))"
    by (auto simp: passes_def credit_step_def shop_options_def bret_def bdo_def bthen_def bbind_def Let_def)
  then have "passes (bthen (alerts_step shop shop_config) (bthen (handler_ledger_step shop shop_config True) (bthen (receiver_step shop) (bthen (credit_step (shop_options p))
     (bthen (subscribe_step (shop_options p)) (bthen (activations_step shop shop_config) (bthen (wire_reconciler (shop_options p)) (reverification_step True))))))))"
    by (intro passes_bthen shop_passes)
  then show ?thesis unfolding passes_def by blast
qed

text \<open>The steps before the billing chain, regrouped.\<close>

lemma wiring_regrouped:
  "wiring_steps P opts cfg redis = bthen (mesh_step P opts) (bthen (bthen (alerts_step P cfg) (bthen (handler_ledger_step P cfg redis) (bthen (receiver_step P)
     (bthen (credit_step opts) (bthen (subscribe_step opts) (bthen (activations_step P cfg) (bthen (wire_reconciler opts) (reverification_step redis))))))))
     (billing_step P cfg opts redis))"
  by (simp add: wiring_steps_def bthen_assoc)

lemma shop_billing:
  assumes "qu_Billing (bs_q s) \<noteq> None"
  shows "\<exists>r s'. billing_step shop shop_config (shop_options p) True s = Some (r, s') \<and> bs_effects s' = bs_effects s @ (if p then [StartedDrain] else [])
    \<and> r = (if p then Inr () else Inl (BillingChain ''no settlement publisher wired (Options.SettlementPublisher)'' ''billing.enable_paid=true in the config''))"
proof -
  have "outbox_enabled (su_Outbox shop_config)" "enable_paid shop_config (shop_options p) q" "has_publisher shop shop_config (shop_options p) = p"
    "\<not> obc_AllowEphemeral (su_Outbox shop_config)" "paid_why shop_config (shop_options p) q = ''billing.enable_paid=true in the config''" for q
    by (simp_all add: outbox_enabled_def shop_config_def enable_paid_def shop_options_def has_publisher_def paid_why_def)
  with assms show ?thesis
    by (auto simp: billing_step_def gate_billing_chain_def shop_outbox judge_chain_def weakest_link_def shop_options_def bdo_def bfail_def Let_def)
qed

lemma shop_wiring:
  "\<exists>r s'. wiring_steps shop (shop_options p) shop_config True s = Some (r, s')
    \<and> r = (if p then Inr () else Inl (BillingChain ''no settlement publisher wired (Options.SettlementPublisher)'' ''billing.enable_paid=true in the config''))"
proof -
  obtain s1 where m: "mesh_step shop (shop_options p) s = Some (Inr (), s1)" "qu_Billing (bs_q s1) \<noteq> None" using shop_mesh by blast
  obtain s2 where mid: "bthen (alerts_step shop shop_config) (bthen (handler_ledger_step shop shop_config True) (bthen (receiver_step shop) (bthen (credit_step (shop_options p))
     (bthen (subscribe_step (shop_options p)) (bthen (activations_step shop shop_config) (bthen (wire_reconciler (shop_options p)) (reverification_step True))))))) s1
     = Some (Inr (), s2)" and b: "qu_Billing (bs_q s2) = qu_Billing (bs_q s1)" using shop_middle by blast
  from b m(2) have "qu_Billing (bs_q s2) \<noteq> None" by simp
  from shop_billing [OF this, of p] mid m(1) show ?thesis unfolding wiring_regrouped by (auto simp: bthen_def [of "mesh_step _ _"] bthen_def [of _ "billing_step _ _ _ _"] bbind_def)
qed

lemma shop_setup:
  "\<exists>r s'. quota_setup shop (shop_options p) shop_config empty_table = Some (r, s')
    \<and> (if p then \<exists>q. r = Inr q else r = Inl (BillingChain ''no settlement publisher wired (Options.SettlementPublisher)'' ''billing.enable_paid=true in the config''))"
proof -
  let ?store = "\<lparr>rs_Value = ''redis://db:6379'', rs_Source = SrcConfig ''storage.redis_url''\<rparr>"
  define s0 where "s0 = cap (\<lambda>k. k\<lparr>cp_ConfigWarnings := config_warnings (su_Config shop_config)\<rparr>) (boot_start shop_config empty_table)"
  obtain s1 where k: "keyspace_step shop_config s0 = Some (Inr shop_keyspace, s1)" using shop_keyspace_step by blast
  obtain s1' where pl: "plan_step shop shop_config ?store s1 = Some (Inr (), s1')" by (simp add: plan_step_def)
  obtain s2 where c: "counter_step shop shop_config shop_keyspace ?store s1' = Some (Inr True, s2)" using shop_counter by blast
  obtain r s3 where w: "wiring_steps shop (shop_options p) shop_config True s2 = Some (r, s3)"
    and r: "r = (if p then Inr () else Inl (BillingChain ''no settlement publisher wired (Options.SettlementPublisher)'' ''billing.enable_paid=true in the config''))"
    using shop_wiring by blast
  show ?thesis
    using k pl c w r by (cases p) (simp_all add: quota_setup_def boot_steps_def bthen_def bbind_def shop_load shop_early s0_def bret_def)
qed

lemma shop_cfg:
  assumes "quota_setup shop (shop_options True) shop_config empty_table = Some (Inr q, s)"
  shows "qu_Cfg q = shop_config"
proof -
  from assms obtain k store b s1 s2 where c: "counter_step shop shop_config k store s1 = Some (Inr b, s2)"
    and wi: "wiring_steps shop (shop_options True) shop_config b s2 = Some (Inr (), s)" and q: "q = (bs_q s)\<lparr>qu_capability := bs_cap s\<rparr>"
    unfolding quota_setup_def boot_steps_def boot_inv step_results shop_load by auto
  from leads_wiring wi have "wired s2 s" unfolding leads_def by blast
  with counter_step_success [OF c] q show ?thesis by (simp add: wired_def unobserved_def)
qed

theorem paid_setup_bills_witness:
  "\<exists>q s. quota_setup shop (shop_options True) shop_config empty_table = Some (Inr q, s) \<and> StartedDrain \<in> set (bs_effects s) \<and> qu_Outbox q \<noteq> None"
proof -
  obtain q s where q: "quota_setup shop (shop_options True) shop_config empty_table = Some (Inr q, s)" using shop_setup [of True] by auto
  have "enable_paid (qu_Cfg q) (shop_options True) q" "\<not> obc_AllowEphemeral (su_Outbox (qu_Cfg q))"
    unfolding shop_cfg [OF q] by (simp_all add: enable_paid_def shop_options_def shop_config_def)
  from paid_setup_bills [OF q this] q show ?thesis by (auto simp: shop_options_def)
qed

theorem declared_store_never_degrades_witness:
  "\<exists>q s. quota_setup shop (shop_options True) shop_config empty_table = Some (Inr q, s) \<and> cp_FloatStore (qu_capability q) = ''redis''
    \<and> verified_redis shop (qu_Cfg q) (qu_Keyspace q) ''redis://db:6379''"
proof -
  obtain q s where q: "quota_setup shop (shop_options True) shop_config empty_table = Some (Inr q, s)" using shop_setup [of True] by auto
  have "resolve_string (pf_getenv shop) (st_RedisURL (c_Storage (su_Config (qu_Cfg q)))) redis_url_spec
      = Inr \<lparr>rs_Value = ''redis://db:6379'', rs_Source = SrcConfig ''storage.redis_url''\<rparr>"
    using shop_early(3) [of undefined] unfolding shop_cfg [OF q] by (simp add: store_url_step_def split: sum.split_asm)
  with declared_store_never_degrades [OF q] q show ?thesis by auto
qed

theorem refused_boot_leaves_handler_witness:
  "\<exists>e s. quota_setup shop (shop_options False) shop_config empty_table = Some (Inl e, s) \<and> RegisteredCreditHandler \<in> set (bs_effects s)
    \<and> ClosedRedis \<notin> set (bs_effects s)"
proof -
  obtain a b s where f: "quota_setup shop (shop_options False) shop_config empty_table = Some (Inl (BillingChain a b), s)" using shop_setup [of False] by auto
  have "op_CreditGranter (shop_options False) \<noteq> None" by (simp add: shop_options_def)
  from refused_boot_leaves_handler [OF f this] f show ?thesis by blast
qed

end
