(* ===== verification/Counters.thy ===== *)
theory Counters
  imports RedisStore
begin

text \<open>
  The plain counters and the factory of package \<open>counters\<close> (\<open>counter.go\<close>, the older methods of
  \<open>accumulator.go\<close>, \<open>rate.go\<close> and \<open>gauge.go\<close>, \<open>factory.go\<close>): they count under the keys from before the
  keyspace, which the engine no longer uses.
\<close>

section \<open>The factory\<close>

record ('s, 'r) factory =
  fa_Floats :: "'s float_store"
  fa_Rates :: "'r rate_store"
  fa_Prefix :: string
  fa_Keyspace :: keyspace

definition new_memory_factory :: "string \<Rightarrow> (mem_store, mem_rates) factory" where
  "new_memory_factory prefix = \<lparr>fa_Floats = mem_float_store, fa_Rates = mem_rate_store, fa_Prefix = prefix, fa_Keyspace = ks_zero\<rparr>"

definition fa_ref :: "('s, 'r) factory \<Rightarrow> string \<Rightarrow> counter_ref" where
  "fa_ref f resourceKey = \<lparr>cr_Prefix = fa_Prefix f, cr_ResourceKey = resourceKey, cr_Keyspace = fa_Keyspace f\<rparr>"

definition fa_rate_window :: "resource_def \<Rightarrow> duration" where
  "fa_rate_window r = rd_WindowSeconds r * second"

section \<open>Counter\<close>

definition counter_period_key :: "counter_ref \<Rightarrow> string \<Rightarrow> string \<Rightarrow> string" where
  "counter_period_key c scope period = deprecated_scope_key (cr_Prefix c) ''counter'' [cr_ResourceKey c, scope, period]"

definition counter_increment :: "'s float_store \<Rightarrow> 's \<Rightarrow> counter_ref \<Rightarrow> string \<Rightarrow> string \<Rightarrow> f64 \<Rightarrow> (goerr + f64) \<times> 's" where
  "counter_increment F s c scope period delta = fs_IncrByFloat F s (counter_period_key c scope period) delta"

definition counter_get :: "'s float_store \<Rightarrow> 's \<Rightarrow> counter_ref \<Rightarrow> string \<Rightarrow> string \<Rightarrow> (goerr + f64) \<times> 's" where
  "counter_get F s c scope period = (case fs_GetFloat F s (counter_period_key c scope period) of (r, s) \<Rightarrow> (map_sum id fst r, s))"

definition counter_set_ttl :: "'s float_store \<Rightarrow> 's \<Rightarrow> counter_ref \<Rightarrow> string \<Rightarrow> string \<Rightarrow> duration \<Rightarrow> goerr option \<times> 's" where
  "counter_set_ttl F s c scope period ttl = fs_Expire F s (counter_period_key c scope period) ttl"

definition counter_reset :: "'s float_store \<Rightarrow> 's \<Rightarrow> counter_ref \<Rightarrow> string \<Rightarrow> string \<Rightarrow> goerr option \<times> 's" where
  "counter_reset F s c scope period = fs_Delete F s [counter_period_key c scope period]"

section \<open>Accumulator\<close>

definition acc_old_key :: "counter_ref \<Rightarrow> reset_period \<Rightarrow> string \<Rightarrow> instant \<Rightarrow> string" where
  "acc_old_key a reset scope now = deprecated_scope_key (cr_Prefix a) ''accumulator'' [cr_ResourceKey a, scope, current_period reset now]"

definition acc_add :: "'s float_store \<Rightarrow> 's \<Rightarrow> counter_ref \<Rightarrow> reset_period \<Rightarrow> string \<Rightarrow> instant \<Rightarrow> f64 \<Rightarrow> (goerr + f64) \<times> 's" where
  "acc_add F s a reset scope now delta =
     (case accumulator_delta delta of
        Inl e \<Rightarrow> (Inl e, s)
      | Inr delta \<Rightarrow>
          (case fs_IncrByFloat F s (acc_old_key a reset scope now) delta of
             (Inl e, s) \<Rightarrow> (Inl e, s)
           | (Inr v, s) \<Rightarrow> (Inr v, if period_ttl reset > 0 then snd (fs_Expire F s (acc_old_key a reset scope now) (period_ttl reset)) else s)))"

definition acc_get :: "'s float_store \<Rightarrow> 's \<Rightarrow> counter_ref \<Rightarrow> reset_period \<Rightarrow> string \<Rightarrow> instant \<Rightarrow> (goerr + f64) \<times> 's" where
  "acc_get F s a reset scope now = (case fs_GetFloat F s (acc_old_key a reset scope now) of (r, s) \<Rightarrow> (map_sum id fst r, s))"

definition acc_reset_period :: "'s float_store \<Rightarrow> 's \<Rightarrow> counter_ref \<Rightarrow> reset_period \<Rightarrow> string \<Rightarrow> instant \<Rightarrow> goerr option \<times> 's" where
  "acc_reset_period F s a reset scope now = fs_Delete F s [acc_old_key a reset scope now]"

section \<open>Rate and gauge\<close>

definition rate_old_key :: "counter_ref \<Rightarrow> string \<Rightarrow> string" where
  "rate_old_key r scope = deprecated_scope_key (cr_Prefix r) ''rate'' [cr_ResourceKey r, scope]"

definition rate_record :: "'r rate_store \<Rightarrow> 'r \<Rightarrow> counter_ref \<Rightarrow> duration \<Rightarrow> string \<Rightarrow> instant \<Rightarrow> string \<Rightarrow> goerr option \<times> 'r" where
  "rate_record R s r window scope now member = rt_Record R s (rate_old_key r scope) now window member"

definition rate_count :: "'r rate_store \<Rightarrow> 'r \<Rightarrow> counter_ref \<Rightarrow> duration \<Rightarrow> string \<Rightarrow> instant \<Rightarrow> (goerr + int) \<times> 'r" where
  "rate_count R s r window scope now = rt_Count R s (rate_old_key r scope) now window"

definition gauge_old_key :: "counter_ref \<Rightarrow> string \<Rightarrow> string" where
  "gauge_old_key g scope = deprecated_scope_key (cr_Prefix g) ''gauge'' [cr_ResourceKey g, scope]"

section \<open>What they count\<close>

text \<open>With a store that is up, a counter and an accumulator give back what was counted in the period.\<close>

context reliable_store
begin

lemma counted_back:
  assumes "counter_increment F s c scope period d = (r, s1)"
  shows "\<exists>v s2. r = Inr v \<and> counter_get F s1 c scope period = (Inr v, s2) \<and> v = fadd (map_get (Fin 0) (level s) (counter_period_key c scope period)) d"
proof -
  let ?k = "counter_period_key c scope period"
  obtain s' where i: "fs_IncrByFloat F s ?k d = (Inr (fadd (map_get (Fin 0) (level s) ?k) d), s')"
    and l: "level s' = (level s)(?k \<mapsto> fadd (map_get (Fin 0) (level s) ?k) d)" by (rule incr_eq [of s ?k d])
  obtain s2 where g: "fs_GetFloat F s' ?k = (Inr (map_get (Fin 0) (level s') ?k, level s' ?k \<noteq> None), s2)" by (rule get_eq [of s' ?k])
  from assms i have "r = Inr (fadd (map_get (Fin 0) (level s) ?k) d)" "s1 = s'" by (simp_all add: counter_increment_def)
  then show ?thesis using g l by (simp add: counter_get_def map_get_def)
qed

text \<open>An accumulator never loses what was spent: a delta of either sign adds its size, an infinite one is refused.\<close>

lemma accumulated:
  assumes "acc_add F s a reset scope now d = (r, s')"
  shows "if finite_f d then r = Inr (fadd (map_get (Fin 0) (level s) (acc_old_key a reset scope now)) (fabs d)) else s' = s \<and> isl r"
proof (cases "finite_f d")
  case True
  let ?k = "acc_old_key a reset scope now"
  obtain s1 where "fs_IncrByFloat F s ?k (fabs d) = (Inr (fadd (map_get (Fin 0) (level s) ?k) (fabs d)), s1)" by (rule incr_eq [of s ?k "fabs d"])
  with True assms show ?thesis by (auto simp: acc_add_def accumulator_delta_def)
qed (use assms in \<open>auto simp: acc_add_def accumulator_delta_def\<close>)

end

lemma memory_counter_counted_back:
  "counter_increment mem_float_store s c scope period d = (r, s1) \<Longrightarrow> \<exists>v s2. r = Inr v \<and> counter_get mem_float_store s1 c scope period = (Inr v, s2)"
  using ms.counted_back by blast

lemma memory_accumulator_accumulates:
  "acc_add mem_float_store s a reset scope now d = (Inr v, s') \<Longrightarrow>
   v = fadd (map_get (Fin 0) (mem_level s) (acc_old_key a reset scope now)) (fabs d)"
  using ms.accumulated [of s a reset scope now d "Inr v" s'] by (auto split: if_split_asm)

end
