(* ===== verification/Messages.thy ===== *)
theory Messages
  imports Engine Billing
begin

text \<open>
  Package \<open>messages\<close>: the templates a consumer may override, the defaults of the blank ones, and the
  rendering. \<open>text/template\<close> is a parameter: the text, or nothing when the template does not parse or
  execute.
\<close>

record templates =
  tm_Denied :: string
  tm_OverBurst :: string
  tm_Warning :: string
  tm_Critical :: string
  tm_UpgradePrompt :: string
  tm_UnknownTier :: string
  tm_ShadowAllowed :: string

definition or_default :: "string \<Rightarrow> string \<Rightarrow> string" where
  "or_default v d = (if v = [] then d else v)"

definition new_builder :: "templates \<Rightarrow> templates" where
  "new_builder t = \<lparr>
     tm_Denied = or_default (tm_Denied t) ''Quota exceeded for {{.Resource}}: {{.Used}}/{{.Limit}} (tier: {{.Tier}}).'',
     tm_OverBurst = or_default (tm_OverBurst t) ''Burst allowance exceeded for {{.Resource}} (tier: {{.Tier}}).'',
     tm_Warning = or_default (tm_Warning t) ''Approaching quota for {{.Resource}}: {{.Used}}/{{.Limit}}.'',
     tm_Critical = or_default (tm_Critical t) ''Quota critical for {{.Resource}}: {{.Used}}/{{.Limit}}.'',
     tm_UpgradePrompt = or_default (tm_UpgradePrompt t) ''Upgrade your plan to increase this limit: {{.UpgradeURL}}.'',
     tm_UnknownTier = or_default (tm_UnknownTier t)
       (''Cannot resolve tier for this request (tier '' @ [CHR 0x22] @ ''{{.Tier}}'' @ [CHR 0x22] @ '' unknown).''),
     tm_ShadowAllowed = or_default (tm_ShadowAllowed t) ''Shadow mode: would-deny {{.Resource}} ({{.Used}}/{{.Limit}}) but allowing.''\<rparr>"

definition render :: "(string \<Rightarrow> vars \<Rightarrow> string option) \<Rightarrow> string \<Rightarrow> vars \<Rightarrow> string" where
  "render template tmpl v =
     (if \<not> contains tmpl ''{{'' then tmpl else case template tmpl v of None \<Rightarrow> tmpl | Some s \<Rightarrow> s)"

text \<open>The methods of a builder, as the engine calls them.\<close>

definition builder_messages :: "(string \<Rightarrow> vars \<Rightarrow> string option) \<Rightarrow> templates \<Rightarrow> messages" where
  "builder_messages template t = \<lparr>
     m_Denied = render template (tm_Denied t), m_OverBurst = render template (tm_OverBurst t), m_Warning = render template (tm_Warning t),
     m_Critical = render template (tm_Critical t), m_UnknownTier = render template (tm_UnknownTier t), m_ShadowAllowed = render template (tm_ShadowAllowed t)\<rparr>"

definition upgrade_prompt :: "(string \<Rightarrow> vars \<Rightarrow> string option) \<Rightarrow> templates \<Rightarrow> vars \<Rightarrow> string" where
  "upgrade_prompt template t = render template (tm_UpgradePrompt t)"

text \<open>
  A denial always says something: with a template engine that returns a text or fails, no message of a
  builder is empty unless the engine rendered a template to nothing, and a broken template is shown as
  it is.
\<close>

lemma new_builder_filled:
  "tm_Denied (new_builder t) \<noteq> []" "tm_OverBurst (new_builder t) \<noteq> []" "tm_Warning (new_builder t) \<noteq> []" "tm_Critical (new_builder t) \<noteq> []"
  "tm_UpgradePrompt (new_builder t) \<noteq> []" "tm_UnknownTier (new_builder t) \<noteq> []" "tm_ShadowAllowed (new_builder t) \<noteq> []"
  by (simp_all add: new_builder_def or_default_def)

lemma new_builder_idem: "new_builder (new_builder t) = new_builder t"
  by (simp add: new_builder_def or_default_def)

lemma denial_not_empty:
  assumes "\<And>s v. template s v \<noteq> Some []"
  shows "m_Denied (builder_messages template (new_builder t)) v \<noteq> []"
  using new_builder_filled(1) [of t] assms by (auto simp: builder_messages_def render_def split: option.split)

lemma broken_template_shown: "template tmpl v = None \<Longrightarrow> render template tmpl v = tmpl"
  by (simp add: render_def)

end
