(* ===== verification/LoadConfig.thy ===== *)
theory LoadConfig
  imports Setup
begin

text \<open>
  Loading of the configuration (\<open>config/load.go\<close>) and its decimal values (\<open>config/decimal.go\<close>). The file
  system, the environment, \<open>encoding/json\<close> and the parser of decimals are parameters; a raw JSON value is
  of any type.
\<close>

section \<open>Decimals\<close>

text \<open>\<open>js\<close> and \<open>jn\<close> read a JSON string and a JSON number as a text, \<open>parse\<close> is \<open>decimal.NewFromString\<close>.\<close>

definition unmarshal_decimal ::
  "(string \<Rightarrow> goerr + string) \<Rightarrow> (string \<Rightarrow> goerr + string) \<Rightarrow> (string \<Rightarrow> goerr + rat) \<Rightarrow> string \<Rightarrow> goerr + rat" where
  "unmarshal_decimal js jn parse b =
     (if b = [] \<or> b = ''null'' then Inr 0
      else if hd b = CHR 0x22 then
        (case js b of
           Inl e \<Rightarrow> Inl e
         | Inr s \<Rightarrow> (case parse s of Inl e \<Rightarrow> Inl (ErrWrap ''config.Decimal'' e) | Inr v \<Rightarrow> Inr v))
      else
        (case jn b of
           Inl e \<Rightarrow> Inl (ErrWrap ''config.Decimal'' e)
         | Inr s \<Rightarrow> (case parse s of Inl e \<Rightarrow> Inl (ErrWrap ''config.Decimal'' e) | Inr v \<Rightarrow> Inr v)))"

definition marshal_decimal :: "(rat \<Rightarrow> string) \<Rightarrow> rat \<Rightarrow> string" where
  "marshal_decimal text d = [CHR 0x22] @ text d @ [CHR 0x22]"

text \<open>A decimal is read back as it was, and a number as exactly the decimal of its literal.\<close>

lemma decimal_round_trip:
  assumes "js ([CHR 0x22] @ text d @ [CHR 0x22]) = Inr (text d)" and "parse (text d) = Inr d"
  shows "unmarshal_decimal js jn parse (marshal_decimal text d) = Inr d"
  using assms by (simp add: unmarshal_decimal_def marshal_decimal_def)

lemma decimal_number_exact:
  assumes "b \<noteq> []" and "b \<noteq> ''null''" and "hd b \<noteq> CHR 0x22" and "jn b = Inr b"
  shows "unmarshal_decimal js jn parse b = (case parse b of Inl e \<Rightarrow> Inl (ErrWrap ''config.Decimal'' e) | Inr v \<Rightarrow> Inr v)"
  using assms by (simp add: unmarshal_decimal_def)

section \<open>The file\<close>

record 'raw loader =
  ld_getenv :: "string \<Rightarrow> string"
  ld_LookupEnv :: "string \<Rightarrow> string option"
  ld_Exists :: "string \<Rightarrow> bool"
  ld_ReadFile :: "string \<Rightarrow> goerr + string"
  ld_ParseObject :: "string \<Rightarrow> goerr + (string \<times> 'raw) list"
  ld_Decode :: "(string \<times> 'raw) list \<Rightarrow> goerr + setup_config"

definition search_paths :: "string list" where
  "search_paths = [''./quota-config.json'', ''/etc/ab0t/quota-config.json'']"

definition config_path :: "'raw loader \<Rightarrow> string \<Rightarrow> string" where
  "config_path L path =
     (let path = (if path = [] then ld_getenv L ''QUOTA_CONFIG_PATH'' else path) in
      if path = [] then (case List.find (ld_Exists L) search_paths of None \<Rightarrow> [] | Some p \<Rightarrow> p) else path)"

text \<open>The configuration and its unknown keys. Keys that start with a dollar sign are dropped.\<close>

definition load_config :: "'raw loader \<Rightarrow> string \<Rightarrow> goerr + setup_config \<times> (string \<times> 'raw) list" where
  "load_config L path0 =
     (let path = config_path L path0 in
      if path = [] then Inl (ErrConfig ''no config file found'' [])
      else case ld_ReadFile L path of
        Inl e \<Rightarrow> Inl (ErrWrap (''config: read '' @ path) e)
      | Inr raw \<Rightarrow>
          (case ld_ParseObject L (interpolate_env (ld_LookupEnv L) raw) of
             Inl e \<Rightarrow> Inl (ErrWrap (''config: '' @ path) e)
           | Inr all \<Rightarrow>
               (let loose = filter (\<lambda>(k, v). \<not> has_prefix k ''$'') all in
                case ld_Decode L loose of
                  Inl e \<Rightarrow> Inl (ErrWrap (''config: '' @ path @ '' decode'') e)
                | Inr cfg \<Rightarrow>
                    (case validate_config (env_bool (ld_getenv L ''AB0T_QUOTA_ALLOW_EXPERIMENTAL_BILLING_MODELS'') False) (su_Config cfg) of
                       Inl e \<Rightarrow> Inl (ErrWrap (''config: '' @ path) e)
                     | Inr c \<Rightarrow> Inr (cfg\<lparr>su_Config := c\<rparr>, filter (\<lambda>(k, v). k \<notin> set known_top_level_keys) loose)))))"

text \<open>\<open>MustLoadConfig\<close>: no value is its panic.\<close>

definition must_load_config :: "'raw loader \<Rightarrow> string \<Rightarrow> setup_config option" where
  "must_load_config L path = (case load_config L path of Inl e \<Rightarrow> None | Inr (c, _) \<Rightarrow> Some c)"

lemma load_config_Inr:
  "load_config L path = Inr (cfg, extra) \<longleftrightarrow>
   (\<exists>raw all c0 c. config_path L path \<noteq> [] \<and> ld_ReadFile L (config_path L path) = Inr raw
      \<and> ld_ParseObject L (interpolate_env (ld_LookupEnv L) raw) = Inr all
      \<and> ld_Decode L (filter (\<lambda>(k, v). \<not> has_prefix k ''$'') all) = Inr c0
      \<and> validate_config (env_bool (ld_getenv L ''AB0T_QUOTA_ALLOW_EXPERIMENTAL_BILLING_MODELS'') False) (su_Config c0) = Inr c
      \<and> cfg = c0\<lparr>su_Config := c\<rparr> \<and> extra = filter (\<lambda>(k, v). k \<notin> set known_top_level_keys) (filter (\<lambda>(k, v). \<not> has_prefix k ''$'') all))"
  unfolding load_config_def Let_def by (auto split: if_split_asm sum.split_asm)

text \<open>An explicit path and the variable come before the search, whose first hit wins.\<close>

lemma config_path_order:
  "path \<noteq> [] \<Longrightarrow> config_path L path = path"
  "ld_getenv L ''QUOTA_CONFIG_PATH'' \<noteq> [] \<Longrightarrow> config_path L [] = ld_getenv L ''QUOTA_CONFIG_PATH''"
  "ld_getenv L ''QUOTA_CONFIG_PATH'' = [] \<Longrightarrow> ld_Exists L ''./quota-config.json'' \<Longrightarrow> config_path L [] = ''./quota-config.json''"
  by (simp_all add: config_path_def search_paths_def Let_def)

section \<open>A document that loads and does not boot\<close>

text \<open>A tier that unlocks only and carries a legacy credit.\<close>

definition legacy_unlock :: "tier \<Rightarrow> bool" where
  "legacy_unlock t \<longleftrightarrow> t_BillingModel t = SubscriptionUnlockOnly \<and> t_CreditGrant t = None \<and> (\<exists>a. t_InitialCredit t = Some a)"

lemma legacy_tier_turns:
  assumes "validate_tier ex t = Inr t'" and "legacy_unlock t"
  shows "\<exists>e. validate_tier ex' t' = Inl e"
proof -
  from assms have "t_BillingModel t' = SubscriptionUnlockOnly" "t_CreditGrant t' \<noteq> None" "t_TierID t' \<noteq> []"
    by (auto simp: validate_tier_def validate_billing_model_def synthesize_grant_def legacy_unlock_def Let_def
        split: if_split_asm option.split_asm sum.split_asm)
  then show ?thesis by (auto simp: validate_tier_def validate_billing_model_def is_experimental_def Let_def split: option.split)
qed

lemma legacy_tiers_turn:
  assumes "validate_tiers ex seen ts = Inr ts'" and "\<exists>t \<in> set ts. legacy_unlock t"
  shows "\<exists>e. validate_tiers ex' seen' ts' = Inl e"
  using assms
proof (induction ts arbitrary: seen seen' ts')
  case (Cons t ts)
  from Cons.prems(1) obtain t1 ts1 where v: "validate_tier ex t = Inr t1" "validate_tiers ex (t_TierID t1 # seen) ts = Inr ts1" "ts' = t1 # ts1"
    by (auto split: sum.split_asm if_split_asm)
  show ?case
  proof (cases "legacy_unlock t")
    case True
    from legacy_tier_turns [OF v(1) True, of ex'] obtain e where "validate_tier ex' t1 = Inl e" by blast
    then show ?thesis by (simp add: v(3))
  next
    case False
    with Cons.prems(2) have "\<exists>t \<in> set ts. legacy_unlock t" by simp
    from Cons.IH [OF v(2) this] have "\<And>seen'. \<exists>e. validate_tiers ex' seen' ts1 = Inl e" .
    then have "\<And>seen' r. validate_tiers ex' seen' ts1 \<noteq> Inr r" by (metis sum.distinct(1))
    then show ?thesis by (auto simp: v(3) split: sum.split)
  qed
qed simp

lemma legacy_config_turns:
  assumes "validate_config ex c = Inr c'" and "\<exists>t \<in> set (c_Tiers c). legacy_unlock t"
  shows "\<exists>e. validate_config ex' c' = Inl e"
proof -
  obtain ts rs where ts: "validate_tiers ex [] (c_Tiers c) = Inr ts" and c': "c_Tiers c' = ts"
    using assms(1) by (auto simp: validate_config_def Let_def split: if_split_asm sum.split_asm option.split_asm)
  from legacy_tiers_turn [OF ts assms(2)] obtain e where "validate_tiers ex' [] ts = Inl e" by blast
  then show ?thesis unfolding validate_config_def Let_def by (simp add: c')
qed

text \<open>
  C38. A document that loads does not always boot. \<open>LoadConfig\<close> validates the document and \<open>Setup\<close> validates
  what it was given again; the first pass rewrites a tier that unlocks only and carries a legacy
  \<open>initial_credit\<close> into one that the second pass forbids. Such a document is loaded, and every
  \<open>Setup\<close> with the loaded configuration is refused before anything is opened.
\<close>

theorem loaded_document_does_not_boot:
  assumes "load_config L path = Inr (cfg, extra)" and "ld_ReadFile L (config_path L path) = Inr raw"
    and "ld_ParseObject L (interpolate_env (ld_LookupEnv L) raw) = Inr all"
    and "ld_Decode L (filter (\<lambda>(k, v). \<not> has_prefix k ''$'') all) = Inr c0"
    and "\<exists>t \<in> set (c_Tiers (su_Config c0)). legacy_unlock t"
    and "op_ConfigOverride opts = Some cfg"
  shows "\<exists>e s. quota_setup P opts blank w = Some (Inl (SetupErr ''validate config'' e), s) \<and> bs_effects s = []"
proof -
  from assms(1-4) obtain ex c where v: "validate_config ex (su_Config c0) = Inr c" and cfg: "su_Config cfg = c"
    unfolding load_config_Inr by fastforce
  from legacy_config_turns [OF v assms(5)] obtain e
    where "validate_config (env_bool (pf_getenv P ''AB0T_QUOTA_ALLOW_EXPERIMENTAL_BILLING_MODELS'') False) (su_Config cfg) = Inl e" unfolding cfg by blast
  with assms(6) show ?thesis
    by (simp add: quota_setup_def boot_steps_def bbind_def load_step_def bfail_def boot_start_def)
qed

text \<open>A configuration file with one such tier.\<close>

definition legacy_document :: setup_config where
  "legacy_document = shop_config\<lparr>su_Config := (su_Config shop_config)\<lparr>c_Tiers :=
     [(plain_tier ''free'' [])\<lparr>t_BillingModel := SubscriptionUnlockOnly, t_InitialCredit := Some 10\<rparr>]\<rparr>\<rparr>"

definition one_file :: "unit loader" where
  "one_file = \<lparr>ld_getenv = (\<lambda>_. []), ld_LookupEnv = (\<lambda>_. None), ld_Exists = (\<lambda>p. p = ''./quota-config.json''), ld_ReadFile = (\<lambda>_. Inr ''{}''),
     ld_ParseObject = (\<lambda>_. Inr [(''$schema'', ()), (''tiers'', ()), (''colour'', ())]), ld_Decode = (\<lambda>_. Inr legacy_document)\<rparr>"

lemma legacy_document_valid: "\<exists>c. validate_config False (su_Config legacy_document) = Inr c"
  by (simp add: legacy_document_def shop_config_def validate_config_def small_config_def plain_tier_def gauge_resource_def validate_tier_def
      validate_billing_model_def synthesize_grant_def validate_resource_def is_experimental_def apply_defaults_def validate_credit_grant_def Let_def)

lemma one_file_path: "config_path one_file [] = ''./quota-config.json''"
  by (simp add: config_path_def search_paths_def one_file_def)

lemma one_file_loads: "\<exists>cfg. load_config one_file [] = Inr (cfg, [(''colour'', ())])"
proof -
  obtain c where "validate_config False (su_Config legacy_document) = Inr c" using legacy_document_valid by blast
  then show ?thesis
    unfolding load_config_Inr one_file_path by (simp add: one_file_def env_bool_def known_top_level_keys_def)
qed

theorem loaded_document_does_not_boot_witness:
  "\<exists>cfg e s. load_config one_file [] = Inr (cfg, [(''colour'', ())])
    \<and> quota_setup shop ((shop_options False)\<lparr>op_ConfigOverride := Some cfg\<rparr>) shop_config empty_table = Some (Inl (SetupErr ''validate config'' e), s)
    \<and> bs_effects s = []"
proof -
  obtain cfg where l: "load_config one_file [] = Inr (cfg, [(''colour'', ())])" using one_file_loads by blast
  from loaded_document_does_not_boot [OF l, of "''{}''" _ _ "(shop_options False)\<lparr>op_ConfigOverride := Some cfg\<rparr>" shop]
  show ?thesis using l by (auto simp: one_file_def legacy_document_def legacy_unlock_def plain_tier_def)
qed

end
