(* ===== verification/Provision.thy ===== *)
theory Provision
  imports RedisGuard OutboxStores ActivationStores DdbLedger
begin

text \<open>
  The artifacts of \<open>quotactl provision\<close> (\<open>cmd/quotactl/provision.go\<close>): the registry they are generated
  from, the four texts, the conformance check on them and the command of the local Redis. The variables
  of the registry that the tests replace are a record.
\<close>

section \<open>The registry\<close>

record registry_vars =
  pv_MaxmemoryPolicy :: string
  pv_Appendonly :: string
  pv_Image :: string

definition shipped :: registry_vars where
  "shipped = \<lparr>pv_MaxmemoryPolicy = ''noeviction'', pv_Appendonly = ''yes'', pv_Image = ''redis:7-alpine''\<rparr>"

definition keyspace_pattern :: string where
  "keyspace_pattern = ''quota:*''"

definition default_local_port :: int where
  "default_local_port = 6399"

definition local_container_name :: string where
  "local_container_name = ''ab0t-quota-dev-redis''"

definition acl_required_rules :: "string list" where
  "acl_required_rules = [''+@read'', ''+@write'', ''+@scripting'', ''+ping'']"

definition acl_optional_rules :: "string list" where
  "acl_optional_rules = [''+info'', ''+config|get'', ''+cluster|info'']"

definition iam_runtime_actions :: "string list" where
  "iam_runtime_actions = [''dynamodb:DescribeTable'', ''dynamodb:DescribeTimeToLive'', ''dynamodb:DescribeContinuousBackups'', ''dynamodb:GetItem'',
     ''dynamodb:PutItem'', ''dynamodb:UpdateItem'', ''dynamodb:DeleteItem'', ''dynamodb:Query'', ''dynamodb:Scan'']"

definition iam_create_actions :: "string list" where
  "iam_create_actions = [''dynamodb:CreateTable'', ''dynamodb:UpdateTimeToLive'', ''dynamodb:TagResource'']"

record gsi_spec =
  gs_Name :: string
  gs_HashKey :: string
  gs_HashType :: string
  gs_RangeKey :: string
  gs_RangeType :: string
  gs_Projection :: string

record table_spec =
  tb_CapKey :: string
  tb_DefaultName :: string
  tb_TTLAttr :: string
  tb_GSIs :: "gsi_spec list"
  tb_Purpose :: string

definition gsi :: "string \<Rightarrow> string \<Rightarrow> string \<Rightarrow> string \<Rightarrow> string \<Rightarrow> gsi_spec" where
  "gsi n h ht r rt = \<lparr>gs_Name = n, gs_HashKey = h, gs_HashType = ht, gs_RangeKey = r, gs_RangeType = rt, gs_Projection = ''ALL''\<rparr>"

definition table_specs :: "table_spec list" where
  "table_specs =
     [\<lparr>tb_CapKey = ''ddb_state'', tb_DefaultName = ''ab0t_quota_state'', tb_TTLAttr = ''ttl'',
        tb_GSIs = [gsi ''GSI1'' ''GSI1PK'' ''S'' ''GSI1SK'' ''S''], tb_Purpose = ''counter snapshots, org tiers, overrides''\<rparr>,
      \<lparr>tb_CapKey = ''ddb_outbox'', tb_DefaultName = ''ab0t_quota_outbox'', tb_TTLAttr = ''ttl'',
        tb_GSIs = [gsi ''gsi_status'' ''gsi_status_pk'' ''S'' ''gsi_status_sk'' ''N''],
        tb_Purpose = ''durable outbox '' @ em_dash @ '' money lifecycle events nothing can reconstruct''\<rparr>,
      \<lparr>tb_CapKey = ''ddb_activations'', tb_DefaultName = ''ab0t_quota_activations'', tb_TTLAttr = ''ttl'',
        tb_GSIs = [gsi ''GSI1'' ''GSI1PK'' ''S'' ''GSI1SK'' ''S''], tb_Purpose = ''activation ledger '' @ em_dash @ '' authoritative for identity + cost''\<rparr>,
      \<lparr>tb_CapKey = ''ddb_handler_ledger'', tb_DefaultName = ''ab0t_quota_handler_ledger'', tb_TTLAttr = ''ttl'',
        tb_GSIs = [gsi ''gsi1'' ''gsi1_pk'' ''S'' ''gsi1_sk'' ''S'', gsi ''gsi2'' ''gsi2_pk'' ''S'' ''gsi2_sk'' ''S''],
        tb_Purpose = ''idempotent-handler ledger (opt-in wiring)''\<rparr>]"

section \<open>The self check\<close>

text \<open>\<open>strings.SplitN(s, sep, 2)\<close>: what stands before the separator and, if it occurs, after it.\<close>

fun split_n2 :: "char \<Rightarrow> string \<Rightarrow> string \<times> string option" where
  "split_n2 d [] = ([], None)"
| "split_n2 d (c # s) = (if c = d then ([], Some s) else (case split_n2 d s of (a, b) \<Rightarrow> (c # a, b)))"

text \<open>The major of an image; an image without a colon has no second part, on which the index panics.\<close>

definition image_major :: "string \<Rightarrow> int option" where
  "image_major img = (case snd (split_n2 (CHR '':'') img) of None \<Rightarrow> None | Some tag \<Rightarrow> atoi (fst (split_n2 (CHR ''-'') tag)))"

datatype provision_err = RefusedPolicy string | ImageBelowFloor string | UnknownKind string | NotConforming string "string list"

definition provision_self_check :: "registry_vars \<Rightarrow> provision_err option" where
  "provision_self_check R =
     (if pv_MaxmemoryPolicy R \<in> set evicting_policies then Some (RefusedPolicy (pv_MaxmemoryPolicy R))
      else case image_major (pv_Image R) of
        None \<Rightarrow> Some (ImageBelowFloor (pv_Image R))
      | Some m \<Rightarrow> if m < fst version_floor then Some (ImageBelowFloor (pv_Image R)) else None)"

section \<open>The texts\<close>

abbreviation nl :: string where "nl \<equiv> [CHR 0x0A]"
abbreviation squote :: string where "squote \<equiv> [CHR 0x27]"

definition lines_of :: "string list \<Rightarrow> string" where
  "lines_of ls = concat (map (\<lambda>l. l @ nl) ls)"

definition floor_text :: string where
  "floor_text = (case version_floor of (a, b, c) \<Rightarrow> itoa a @ ''.'' @ itoa b @ ''.'' @ itoa c)"

definition emit_header :: "registry_vars \<Rightarrow> string \<Rightarrow> string" where
  "emit_header R kind = lines_of
     [''# GENERATED by '' @ squote @ ''quotactl provision --emit '' @ kind @ squote @ '' '' @ em_dash @ '' from the enforcing gate'',
      ''# registry (D-71/72/73/74 Redis contract, D-76 tables). Regenerate rather than'',
      ''# hand-edit; the gates and this artifact share one source.'',
      ''# Contract: non-clustered Redis >= '' @ floor_text @ '', maxmemory-policy '' @ pv_MaxmemoryPolicy R @ '', Lua'',
      ''# scripting enabled; keyspace '' @ keyspace_pattern @ ''; four DynamoDB tables with GSIs, TTL'',
      ''# attribute '' @ squote @ ''ttl'' @ squote @ '', PITR.'']"

text \<open>\<open>%q\<close> on the names of the registry, which need no escape.\<close>

definition quoted :: "string \<Rightarrow> string" where
  "quoted s = [CHR 0x22] @ s @ [CHR 0x22]"

definition emit_compose :: "registry_vars \<Rightarrow> string" where
  "emit_compose R = emit_header R ''compose'' @ lines_of
     [''services:'',
      ''  quota-redis:'',
      ''    image: '' @ pv_Image R,
      ''    container_name: '' @ local_container_name,
      ''    # D-72 (never an evicting policy) + D-32/D-81 (outbox durability):'',
      ''    command: ['' @ quoted ''redis-server'' @ '', '' @ quoted ''--maxmemory-policy'' @ '', '' @ quoted (pv_MaxmemoryPolicy R) @ '', ''
        @ quoted ''--appendonly'' @ '', '' @ quoted (pv_Appendonly R) @ '']'',
      ''    ports:'',
      ''      - '' @ quoted (itoa default_local_port @ '':6379''),
      ''    healthcheck:'',
      ''      test: ['' @ quoted ''CMD'' @ '', '' @ quoted ''redis-cli'' @ '', '' @ quoted ''ping'' @ '']'',
      ''      interval: 5s'',
      ''      timeout: 3s'',
      ''      retries: 20'',
      ''  quota-dynamodb:'',
      ''    image: amazon/dynamodb-local'',
      ''    ports:'',
      ''      - '' @ quoted ''8000:8000'',
      [],
      ''# DECLARE the stores (never discovered '' @ em_dash @ '' the library reads no generic env var):'',
      ''#   QUOTA_REDIS_URL=redis://localhost:'' @ itoa default_local_port @ ''/0'',
      ''#   AB0T_QUOTA_DDB_PITR_CONFIRMED=true  # DynamoDB Local cannot report PITR'',
      ''# Then verify: quotactl capabilities (runs Setup '' @ em_dash @ '' its help text states the side effects)'']"

definition emit_acl :: "registry_vars \<Rightarrow> string" where
  "emit_acl R = emit_header R ''acl'' @ lines_of
     [''# Minimal least-privilege user (Redis >= 6 ACL syntax). Replace CHANGE_ME.'',
      ''ACL SETUSER ab0t-quota on >CHANGE_ME ~'' @ keyspace_pattern @ '' '' @ join_with '' '' acl_required_rules,
      [],
      ''# OPTIONAL '' @ em_dash @ '' grants full machine-verification at boot/doctor. WITHOUT these'',
      ''# the library cannot READ topology/policy/version and you must put the'',
      ''# assertions on the record instead (storage.redis_cluster_confirmed_disabled,'',
      ''# storage.redis_durability_confirmed):'',
      ''#   ACL SETUSER ab0t-quota '' @ join_with '' '' acl_optional_rules]"

text \<open>The attributes a table declares: its own key and the keys of its indexes.\<close>

definition spec_attributes :: "table_spec \<Rightarrow> (string \<times> string) list" where
  "spec_attributes t = [(''PK'', ''S''), (''SK'', ''S'')] @ concat (map (\<lambda>g. [(gs_HashKey g, gs_HashType g), (gs_RangeKey g, gs_RangeType g)]) (tb_GSIs t))"

definition emit_attribute :: "string \<times> string \<Rightarrow> string" where
  "emit_attribute a = lines_of [''  attribute {'', ''    name = '' @ quoted (fst a), ''    type = '' @ quoted (snd a), ''  }'']"

definition emit_gsi :: "gsi_spec \<Rightarrow> string" where
  "emit_gsi g = lines_of [''  global_secondary_index {'', ''    name            = '' @ quoted (gs_Name g), ''    hash_key        = '' @ quoted (gs_HashKey g),
     ''    range_key       = '' @ quoted (gs_RangeKey g), ''    projection_type = '' @ quoted (gs_Projection g), ''  }'']"

definition emit_table :: "table_spec \<Rightarrow> string" where
  "emit_table t =
     lines_of [''# '' @ tb_Purpose t, ''resource '' @ quoted ''aws_dynamodb_table'' @ '' '' @ quoted (tb_CapKey t) @ '' {'',
       ''  name         = '' @ quoted (tb_DefaultName t), ''  billing_mode = '' @ quoted ''PAY_PER_REQUEST'',
       ''  hash_key     = '' @ quoted ''PK'', ''  range_key    = '' @ quoted ''SK'', []]
     @ concat (map emit_attribute (spec_attributes t))
     @ concat (map emit_gsi (tb_GSIs t))
     @ lines_of [''  ttl {'', ''    attribute_name = '' @ quoted (tb_TTLAttr t), ''    enabled        = true'', ''  }'',
       ''  point_in_time_recovery {'', ''    enabled = true'', ''  }'', ''  server_side_encryption {'', ''    enabled = true'', ''  }'',
       ''  tags = {'', ''    Service   = '' @ quoted ''ab0t-quota'', ''    ManagedBy = '' @ quoted ''ab0t-quota-library'', ''  }'', ''}'', []]"

definition emit_terraform :: "registry_vars \<Rightarrow> string" where
  "emit_terraform R = emit_header R ''terraform''
     @ lines_of [''# Emit-and-let-them-apply: this module CREATES NOTHING when printed '' @ em_dash @ '' apply'',
         ''# it with your own tooling and credentials (provision never touches your cloud).'', []]
     @ concat (map emit_table table_specs)"

text \<open>\<open>json.MarshalIndent\<close> of the policy: the keys of an object in their order, two blanks per level.\<close>

definition json_strings :: "string \<Rightarrow> string list \<Rightarrow> string" where
  "json_strings ind xs = ''['' @ nl @ join_with ('','' @ nl) (map (\<lambda>x. ind @ ''  '' @ quoted x) xs) @ nl @ ind @ '']''"

definition iam_statement :: "string \<Rightarrow> string list \<Rightarrow> string list \<Rightarrow> string" where
  "iam_statement sid actions resources =
     ''    {'' @ nl
     @ ''      '' @ quoted ''Action'' @ '': '' @ json_strings ''      '' actions @ '','' @ nl
     @ ''      '' @ quoted ''Effect'' @ '': '' @ quoted ''Allow'' @ '','' @ nl
     @ ''      '' @ quoted ''Resource'' @ '': '' @ json_strings ''      '' resources @ '','' @ nl
     @ ''      '' @ quoted ''Sid'' @ '': '' @ quoted sid @ nl
     @ ''    }''"

definition iam_resources :: "string list" where
  "iam_resources = concat (map (\<lambda>t. let base = ''arn:aws:dynamodb:REGION:ACCOUNT:table/'' @ tb_DefaultName t in [base, base @ ''/index/*'']) table_specs)"

definition emit_iam :: "registry_vars \<Rightarrow> bool \<Rightarrow> string" where
  "emit_iam R includeCreate =
     concat (map (\<lambda>c. if c = CHR ''#'' then ''//'' else [c]) (emit_header R ''iam''))
     @ (if includeCreate then []
        else lines_of [''// Self-provisioning actions are NOT included '' @ em_dash @ '' add them only with'', ''// storage.auto_create_tables (re-run with --include-create).''])
     @ ''{'' @ nl @ ''  '' @ quoted ''Statement'' @ '': ['' @ nl
     @ join_with ('','' @ nl) (iam_statement ''Ab0tQuotaRuntime'' iam_runtime_actions iam_resources
         # (if includeCreate then [iam_statement ''Ab0tQuotaSelfProvision'' iam_create_actions iam_resources] else [])) @ nl
     @ ''  ],'' @ nl @ ''  '' @ quoted ''Version'' @ '': '' @ quoted ''2012-10-17'' @ nl @ ''}'' @ nl"

section \<open>Conformance\<close>

definition missing :: "string \<Rightarrow> string \<Rightarrow> string list \<Rightarrow> string list" where
  "missing text what tokens = map (\<lambda>x. what @ x) (filter (\<lambda>x. \<not> contains text x) tokens)"

definition check_artifact_conformance :: "registry_vars \<Rightarrow> string \<Rightarrow> string \<Rightarrow> string list" where
  "check_artifact_conformance R kind text =
     (if kind = ''compose'' then
        missing text ''missing maxmemory-policy '' [pv_MaxmemoryPolicy R]
        @ map (\<lambda>p. ''contains D-72-refused policy '' @ p) (filter (contains text) evicting_policies)
        @ (if contains text ''--appendonly'' then [] else [''missing appendonly persistence (D-32/D-81)''])
      else if kind = ''acl'' then
        (if contains text (''~'' @ keyspace_pattern) then [] else [''ACL not scoped to ~'' @ keyspace_pattern])
        @ missing text ''ACL missing '' acl_required_rules
        @ (if contains text ''+@all'' \<or> contains text ''~* '' then [''ACL is over-broad''] else [])
      else if kind = ''terraform'' \<or> kind = ''iam'' then
        missing text ''missing table '' (map tb_DefaultName table_specs)
        @ (if kind = ''terraform''
           then missing text ''missing GSI '' (concat (map (map gs_Name \<circ> tb_GSIs) table_specs))
                @ (if contains text ''point_in_time_recovery'' then [] else [''missing PITR block''])
           else [])
        @ (if kind = ''iam'' then missing text ''missing IAM action '' iam_runtime_actions else [])
      else [''unknown artifact kind '' @ kind])"

definition emit_artifact :: "registry_vars \<Rightarrow> string \<Rightarrow> bool \<Rightarrow> provision_err + string" where
  "emit_artifact R kind includeCreate =
     (case provision_self_check R of
        Some e \<Rightarrow> Inl e
      | None \<Rightarrow>
          (case (if kind = ''compose'' then Some (emit_compose R)
                 else if kind = ''terraform'' then Some (emit_terraform R)
                 else if kind = ''acl'' then Some (emit_acl R)
                 else if kind = ''iam'' then Some (emit_iam R includeCreate)
                 else None) of
             None \<Rightarrow> Inl (UnknownKind kind)
           | Some text \<Rightarrow>
               (let problems = check_artifact_conformance R kind text in
                if problems \<noteq> [] then Inl (NotConforming kind problems) else Inr text)))"

definition local_docker_args :: "registry_vars \<Rightarrow> int \<Rightarrow> string \<Rightarrow> string list" where
  "local_docker_args R port name = [''run'', ''-d'', ''--name'', name, ''-p'', itoa port @ '':6379'', pv_Image R, ''redis-server'',
     ''--maxmemory-policy'', pv_MaxmemoryPolicy R, ''--appendonly'', pv_Appendonly R]"

section \<open>What the artifacts are worth\<close>

lemma contains_iff: "contains s t \<longleftrightarrow> (\<exists>a b. s = a @ t @ b)"
proof (induction s)
  case Nil
  then show ?case by (cases t) (auto simp: contains_def)
next
  case (Cons c s)
  have "contains (c # s) t \<longleftrightarrow> has_prefix (c # s) t \<or> contains s t" by (simp add: contains_def)
  also have "\<dots> \<longleftrightarrow> (\<exists>b. c # s = t @ b) \<or> (\<exists>a b. s = a @ t @ b)" using Cons by (simp add: has_prefix_iff)
  also have "\<dots> \<longleftrightarrow> (\<exists>a b. c # s = a @ t @ b)" by (auto simp: Cons_eq_append_conv)
  finally show ?case .
qed

lemma contains_left: "contains s t \<Longrightarrow> contains (s @ b) t"
  unfolding contains_iff by (metis append.assoc)

lemma contains_right: "contains s t \<Longrightarrow> contains (a @ s) t"
  unfolding contains_iff by (metis append.assoc)

lemma contains_self: "contains t t"
  unfolding contains_iff by (intro exI [of _ "[]"]) simp

lemma contains_in_concat: "x \<in> set xs \<Longrightarrow> contains x t \<Longrightarrow> contains (concat xs) t"
  by (induction xs) (auto intro: contains_left contains_right)

lemma contains_in_join: "x \<in> set xs \<Longrightarrow> contains x t \<Longrightarrow> contains (join_with d xs) t"
  by (induction d xs rule: join_with.induct) (auto intro: contains_left contains_right)

text \<open>A token without a line break lies in one of the lines.\<close>

lemma contains_break:
  assumes "CHR 0x0A \<notin> set t"
  shows "contains (l @ CHR 0x0A # r) t \<longleftrightarrow> contains l t \<or> contains r t"
proof
  assume "contains (l @ CHR 0x0A # r) t"
  then obtain a b where "l @ CHR 0x0A # r = a @ t @ b" unfolding contains_iff by blast
  then consider u where "l = a @ u" "u @ CHR 0x0A # r = t @ b" | u where "a = l @ u" "CHR 0x0A # r = u @ t @ b"
    by (auto simp: append_eq_append_conv2)
  then show "contains l t \<or> contains r t"
  proof cases
    case 1
    then consider v where "u = t @ v" | v where "t = u @ v" "CHR 0x0A # r = v @ b" by (auto simp: append_eq_append_conv2)
    then show ?thesis
    proof cases
      case 2
      with assms have "v = []" by (cases v) auto
      with 2 1 show ?thesis unfolding contains_iff by (metis append.right_neutral)
    qed (use 1 in \<open>auto simp: contains_iff\<close>)
  next
    case 2
    show ?thesis
    proof (cases u)
      case Nil
      with 2 have "CHR 0x0A # r = t @ b" by simp
      with assms have "t = []" by (cases t) auto
      then have "contains l t" unfolding contains_iff by (metis append_Nil)
      then show ?thesis ..
    qed (use 2 in \<open>auto simp: contains_iff\<close>)
  qed
qed (auto intro: contains_left contains_right [of r t "l @ nl", simplified])

lemma contains_lines:
  assumes "CHR 0x0A \<notin> set t"
  shows "contains (lines_of ls @ r) t \<longleftrightarrow> list_ex (\<lambda>l. contains l t) ls \<or> contains r t"
  by (induction ls) (simp_all add: lines_of_def contains_break [OF assms])


lemma contains_line: "l \<in> set ls \<Longrightarrow> contains l t \<Longrightarrow> contains (lines_of ls) t"
  unfolding lines_of_def by (rule contains_in_concat [of "l @ nl"]) (auto intro: contains_left)

lemma missing_none: "missing text what tokens = [] \<longleftrightarrow> (\<forall>x \<in> set tokens. contains text x)"
  by (auto simp: missing_def filter_empty_conv)

lemma terraform_conforms: "check_artifact_conformance R ''terraform'' (emit_terraform R) = []"
proof -
  have q: "contains (s @ quoted x) x" for s x unfolding quoted_def by (intro contains_right contains_left contains_self)
  have t: "contains (emit_terraform R) x" if "t \<in> set table_specs" "contains (emit_table t) x" for t x
    unfolding emit_terraform_def using that by (intro contains_right contains_in_concat [of "emit_table t"]) auto
  have n: "contains (emit_table t) (tb_DefaultName t)" for t
    unfolding emit_table_def by (rule contains_left, rule contains_line [OF _ q [of "''  name         = ''"]]) simp
  have g: "contains (emit_table t) (gs_Name g)" if "g \<in> set (tb_GSIs t)" for t g
  proof -
    have "contains (emit_gsi g) (gs_Name g)" unfolding emit_gsi_def by (rule contains_line [OF _ q [of "''    name            = ''"]]) simp
    then have "contains (concat (map emit_gsi (tb_GSIs t))) (gs_Name g)" using that by (intro contains_in_concat [of "emit_gsi g"]) auto
    then show ?thesis unfolding emit_table_def by (intro contains_right contains_left)
  qed
  have p: "contains (emit_table t) ''point_in_time_recovery''" for t
  proof -
    have "contains ''  point_in_time_recovery {'' ''point_in_time_recovery''" by code_simp
    then have "contains (lines_of [''  ttl {'', ''    attribute_name = '' @ quoted (tb_TTLAttr t), ''    enabled        = true'', ''  }'',
       ''  point_in_time_recovery {'', ''    enabled = true'', ''  }'', ''  server_side_encryption {'', ''    enabled = true'', ''  }'',
       ''  tags = {'', ''    Service   = '' @ quoted ''ab0t-quota'', ''    ManagedBy = '' @ quoted ''ab0t-quota-library'', ''  }'', ''}'', []]) ''point_in_time_recovery''"
      by (intro contains_line [of "''  point_in_time_recovery {''"]) simp_all
    then show ?thesis unfolding emit_table_def by (intro contains_right)
  qed
  have "table_specs \<noteq> []" by (simp add: table_specs_def)
  then obtain t0 where "t0 \<in> set table_specs" by (meson last_in_set)
  with t p have "contains (emit_terraform R) ''point_in_time_recovery''" by blast
  moreover have "missing (emit_terraform R) what (map tb_DefaultName table_specs) = []" for what unfolding missing_none using t n by auto
  moreover have "missing (emit_terraform R) what (concat (map (map gs_Name \<circ> tb_GSIs) table_specs)) = []" for what
    unfolding missing_none using t g by auto
  ultimately show ?thesis by (simp add: check_artifact_conformance_def)
qed

lemma iam_conforms: "check_artifact_conformance R ''iam'' (emit_iam R b) = []"
proof -
  have j: "contains (json_strings ind xs) x" if "y \<in> set xs" "contains y x" for ind xs x y
  proof -
    have "contains (ind @ ''  '' @ quoted y) x" unfolding quoted_def using that(2) by (intro contains_right contains_left)
    then have "contains (join_with ('','' @ nl) (map (\<lambda>x. ind @ ''  '' @ quoted x) xs)) x"
      using that(1) by (intro contains_in_join [of "ind @ ''  '' @ quoted y"]) auto
    then show ?thesis unfolding json_strings_def by (intro contains_right contains_left)
  qed
  have e: "contains (emit_iam R b) x" if "contains (iam_statement ''Ab0tQuotaRuntime'' iam_runtime_actions iam_resources) x" for x
  proof -
    have "contains (join_with ('','' @ nl) (iam_statement ''Ab0tQuotaRuntime'' iam_runtime_actions iam_resources
         # (if b then [iam_statement ''Ab0tQuotaSelfProvision'' iam_create_actions iam_resources] else []))) x"
      using that by (intro contains_in_join [of "iam_statement ''Ab0tQuotaRuntime'' iam_runtime_actions iam_resources"]) auto
    then show ?thesis unfolding emit_iam_def by (intro contains_right contains_left)
  qed
  have "contains (emit_iam R b) a" if "a \<in> set iam_runtime_actions" for a
  proof (rule e)
    have "contains (json_strings ''      '' iam_runtime_actions) a" by (rule j [OF that contains_self])
    then show "contains (iam_statement ''Ab0tQuotaRuntime'' iam_runtime_actions iam_resources) a" unfolding iam_statement_def by (intro contains_right contains_left)
  qed
  moreover have "contains (emit_iam R b) (tb_DefaultName t)" if "t \<in> set table_specs" for t
  proof (rule e)
    let ?arn = "''arn:aws:dynamodb:REGION:ACCOUNT:table/'' @ tb_DefaultName t"
    have "?arn \<in> set iam_resources" using that unfolding iam_resources_def Let_def by auto
    then have "contains (json_strings ''      '' iam_resources) (tb_DefaultName t)" by (rule j) (intro contains_right contains_self)
    then show "contains (iam_statement ''Ab0tQuotaRuntime'' iam_runtime_actions iam_resources) (tb_DefaultName t)"
      unfolding iam_statement_def by (intro contains_right contains_left)
  qed
  ultimately have "missing (emit_iam R b) what iam_runtime_actions = []" "missing (emit_iam R b) what (map tb_DefaultName table_specs) = []" for what
    by (auto simp: missing_none)
  then show ?thesis by (simp add: check_artifact_conformance_def)
qed


text \<open>A token is not in a text that does not have two of its letters side by side.\<close>

fun side_by_side :: "char \<Rightarrow> char \<Rightarrow> string \<Rightarrow> bool" where
  "side_by_side a b (c # d # s) = (c = a \<and> d = b \<or> side_by_side a b (d # s))"
| "side_by_side a b _ = False"

lemma side_by_side_append: "side_by_side a b (u @ a # b # v)"
proof (induction u)
  case (Cons x u)
  then show ?case by (cases u) auto
qed simp

lemma not_contains: "\<not> side_by_side a b s \<Longrightarrow> \<not> contains s (u @ a # b # v)"
  using side_by_side_append [of a b] unfolding contains_iff by (metis append.assoc append_Cons)

lemma side_by_side_lines:
  assumes "a \<noteq> CHR 0x0A" and "b \<noteq> CHR 0x0A"
  shows "side_by_side a b (lines_of ls) \<longleftrightarrow> list_ex (side_by_side a b) ls"
    "side_by_side a b (lines_of ls @ lines_of ks) \<longleftrightarrow> list_ex (side_by_side a b) ls \<or> list_ex (side_by_side a b) ks"
proof -
  have c: "side_by_side a b (CHR 0x0A # r) \<longleftrightarrow> side_by_side a b r" for r using assms by (cases r) auto
  have l: "side_by_side a b (l @ CHR 0x0A # r) \<longleftrightarrow> side_by_side a b l \<or> side_by_side a b r" for l r
  proof (induction l)
    case (Cons x l)
    then show ?case using assms c by (cases l) auto
  qed (simp add: c)
  show one: "side_by_side a b (lines_of ls) \<longleftrightarrow> list_ex (side_by_side a b) ls" for ls
    by (induction ls) (simp_all add: lines_of_def l)
  have "lines_of ls @ lines_of ks = lines_of (ls @ ks)" by (simp add: lines_of_def)
  then show "side_by_side a b (lines_of ls @ lines_of ks) \<longleftrightarrow> list_ex (side_by_side a b) ls \<or> list_ex (side_by_side a b) ks"
    using one [of "ls @ ks"] by simp
qed

lemma itoa_texts: "itoa 6 = ''6''" "itoa 0 = ''0''" "itoa 6399 = ''6399''"
proof -
  have "char_of (48 :: nat) = CHR ''0''" "char_of (51 :: nat) = CHR ''3''" "char_of (54 :: nat) = CHR ''6''" "char_of (57 :: nat) = CHR ''9''" by code_simp+
  then show "itoa 6 = ''6''" "itoa 0 = ''0''" "itoa 6399 = ''6399''" by (simp_all add: itoa_def nat_text.simps digit_def)
qed

lemma compose_conforms: "check_artifact_conformance shipped ''compose'' (emit_compose shipped) = []"
proof -
  note n = itoa_texts
  have "\<not> side_by_side (CHR ''l'') (CHR ''k'') (emit_compose shipped)"
    by (simp add: n emit_compose_def emit_header_def side_by_side_lines shipped_def floor_text_def keyspace_pattern_def local_container_name_def
        default_local_port_def quoted_def version_floor_def)
  from not_contains [OF this, of "''al''"] have neg: "\<not> contains (emit_compose shipped) (''al'' @ ''lk'' @ v)" for v by simp
  have q: "contains (quoted x) x" for x unfolding quoted_def by (intro contains_right contains_left contains_self)
  have line: "contains (emit_compose R) x" if "contains (''    command: ['' @ quoted ''redis-server'' @ '', '' @ quoted ''--maxmemory-policy'' @ '', ''
      @ quoted (pv_MaxmemoryPolicy R) @ '', '' @ quoted ''--appendonly'' @ '', '' @ quoted (pv_Appendonly R) @ '']'') x" for R x
    unfolding emit_compose_def by (rule contains_right, rule contains_line [OF _ that]) (simp only: list.set insert_iff simp_thms)
  have "contains (emit_compose shipped) (pv_MaxmemoryPolicy shipped)" by (rule line) (intro contains_right contains_left q)
  moreover have "contains (emit_compose shipped) ''--appendonly''"
  proof (rule line)
    have "contains ((''    command: ['' @ quoted ''redis-server'' @ '', '' @ quoted ''--maxmemory-policy'' @ '', '' @ quoted p @ '', '')
        @ quoted ''--appendonly'' @ '', '' @ quoted y @ '']'') ''--appendonly''" for p y by (rule contains_right, rule contains_left, rule q)
    then show "contains (''    command: ['' @ quoted ''redis-server'' @ '', '' @ quoted ''--maxmemory-policy'' @ '', '' @ quoted (pv_MaxmemoryPolicy shipped) @ '', ''
        @ quoted ''--appendonly'' @ '', '' @ quoted (pv_Appendonly shipped) @ '']'') ''--appendonly''" by (simp only: append.assoc)
  qed
  ultimately show ?thesis
    using neg [of "''eys-lru''"] neg [of "''eys-lfu''"] neg [of "''eys-random''"] by (simp add: check_artifact_conformance_def missing_def evicting_policies_def)
qed


lemma acl_conforms: "check_artifact_conformance shipped ''acl'' (emit_acl shipped) = []"
proof -
  note n = itoa_texts
  have "\<not> side_by_side (CHR ''@'') (CHR ''a'') (emit_acl shipped)" "\<not> side_by_side (CHR ''~'') (CHR ''*'') (emit_acl shipped)"
    by (simp_all add: n emit_acl_def emit_header_def side_by_side_lines shipped_def floor_text_def keyspace_pattern_def acl_required_rules_def
        acl_optional_rules_def version_floor_def)
  from not_contains [OF this(1), of "''+''" "''ll''"] not_contains [OF this(2), of "[]" "'' ''"]
  have "\<not> contains (emit_acl shipped) ''+@all''" "\<not> contains (emit_acl shipped) ''~* ''" by simp_all
  moreover have line: "contains (emit_acl R) x"
    if "contains (''ACL SETUSER ab0t-quota on >CHANGE_ME ~'' @ keyspace_pattern @ '' '' @ join_with '' '' acl_required_rules) x" for R x
    unfolding emit_acl_def by (rule contains_right, rule contains_line [OF _ that]) (simp only: list.set insert_iff simp_thms)
  have "contains (emit_acl shipped) x" if "x \<in> set acl_required_rules" for x
    by (rule line) (intro contains_right contains_in_join [OF that contains_self])
  then have "missing (emit_acl shipped) what acl_required_rules = []" for what by (simp add: missing_none)
  moreover have "contains (emit_acl shipped) (''~'' @ keyspace_pattern)"
  proof (rule line)
    have "''ACL SETUSER ab0t-quota on >CHANGE_ME ~'' @ keyspace_pattern @ '' '' @ join_with '' '' acl_required_rules
        = ''ACL SETUSER ab0t-quota on >CHANGE_ME '' @ (''~'' @ keyspace_pattern) @ '' '' @ join_with '' '' acl_required_rules" by simp
    then show "contains (''ACL SETUSER ab0t-quota on >CHANGE_ME ~'' @ keyspace_pattern @ '' '' @ join_with '' '' acl_required_rules) (''~'' @ keyspace_pattern)"
      unfolding contains_iff by blast
  qed
  ultimately show ?thesis by (simp add: check_artifact_conformance_def)
qed

text \<open>The shipped registry passes its check, and each of the four artifacts is printed.\<close>

lemma shipped_artifacts_emit:
  "(\<exists>text. emit_artifact shipped kind includeCreate = Inr text) \<longleftrightarrow> kind \<in> {''compose'', ''terraform'', ''acl'', ''iam''}"
proof -
  have "provision_self_check shipped = None" by code_simp
  then show ?thesis
    by (auto simp: emit_artifact_def compose_conforms acl_conforms terraform_conforms iam_conforms Let_def)
qed

text \<open>The table a specification describes, and the names of its indexes.\<close>

definition spec_schema :: "table_spec \<Rightarrow> table_schema" where
  "spec_schema t = \<lparr>ts_Hash = ''PK'', ts_Range = ''SK'', ts_Attributes = map (\<lambda>(n, k). (n, hd k)) (spec_attributes t),
     ts_Indexes = map (\<lambda>g. (gs_Name g, gs_HashKey g, gs_RangeKey g)) (tb_GSIs t)\<rparr>"

definition spec_of :: "string \<Rightarrow> table_spec option" where
  "spec_of cap = List.find (\<lambda>t. tb_CapKey t = cap) table_specs"

definition provisioned_indexes :: "string \<Rightarrow> string list" where
  "provisioned_indexes cap = (case spec_of cap of None \<Rightarrow> [] | Some t \<Rightarrow> map gs_Name (tb_GSIs t))"

lemma provisioned_schemas:
  "map_option spec_schema (spec_of ''ddb_outbox'') = Some outbox_schema"
  "map_option spec_schema (spec_of ''ddb_activations'') = Some acts_schema"
  by (simp_all add: spec_of_def table_specs_def spec_schema_def spec_attributes_def gsi_def outbox_schema_def acts_schema_def)

lemma ledger_indexes: "provisioned_indexes ''ddb_handler_ledger'' = [''gsi1'', ''gsi2'']"
  by (simp add: provisioned_indexes_def spec_of_def table_specs_def gsi_def)

text \<open>
  C39. The provisioned handler ledger cannot forget a user. The tables \<open>provision\<close> describes for the outbox
  and the activations are the ones their stores create; the handler ledger's has two indexes whose
  names and keys are not those its store queries. On such a table, which refuses a query on an index it
  does not have, deleting a user and listing a user's or a status's rows fail.
\<close>

theorem provisioned_ledger_cannot_delete:
  assumes "\<And>q s. qr_Index q \<notin> set (provisioned_indexes ''ddb_handler_ledger'') \<Longrightarrow> dd_Query C tbl q s = (Inl e, s)"
  shows "dl_delete_user C K tbl user w = (0, Some e, w)
    \<and> dl_query_by_user C K tbl user opt w = (Inl e, w) \<and> dl_query_by_status C K tbl st opt w = (Inl e, w)
    \<and> map_option spec_schema (spec_of ''ddb_outbox'') = Some outbox_schema \<and> map_option spec_schema (spec_of ''ddb_activations'') = Some acts_schema"
  using assms unfolding ledger_indexes
  by (simp add: dl_delete_user_def dl_query_by_user_def dl_query_by_status_def dl_query_gsi_def dbind_def provisioned_schemas)

definition provisioned_ledger :: "dtable dynamo" where
  "provisioned_ledger = (contended_table (\<lambda>_ m. m))\<lparr>dd_Query := (\<lambda>tbl q s.
     if qr_Index q \<in> set (provisioned_indexes ''ddb_handler_ledger'') then (Inr [], s)
     else (Inl (DdbErr (ErrBackend ''ValidationException'')), s))\<rparr>"

theorem provisioned_ledger_cannot_delete_witness:
  "dl_delete_user provisioned_ledger field_codec ''ab0t_quota_handler_ledger'' ''u1'' empty_table = (0, Some (DdbErr (ErrBackend ''ValidationException'')), empty_table)"
proof -
  have "dd_Query provisioned_ledger ''ab0t_quota_handler_ledger'' q s = (Inl (DdbErr (ErrBackend ''ValidationException'')), s)"
    if "qr_Index q \<notin> set (provisioned_indexes ''ddb_handler_ledger'')" for q s
    using that by (simp add: provisioned_ledger_def)
  from provisioned_ledger_cannot_delete [OF this] show ?thesis by blast
qed

text \<open>The value an option of the Redis server is started with.\<close>

fun option_value :: "string list \<Rightarrow> string \<Rightarrow> string option" where
  "option_value (a # v # rest) k = (if a = ''--'' @ k then Some v else option_value (v # rest) k)"
| "option_value _ k = None"

lemma started_options:
  "option_value (drop 8 (local_docker_args R port name)) ''maxmemory-policy'' = Some (pv_MaxmemoryPolicy R)"
  "pv_MaxmemoryPolicy R \<noteq> ''--appendonly'' \<Longrightarrow> option_value (drop 8 (local_docker_args R port name)) ''appendonly'' = Some (pv_Appendonly R)"
  by (simp_all add: local_docker_args_def)

end
