(* ===== verification/Doctor.thy ===== *)
theory Doctor
  imports Setup
begin

text \<open>
  \<open>quotactl doctor\<close> and \<open>quotactl capabilities\<close> (\<open>cmd/quotactl/doctor.go\<close>, \<open>capabilities.go\<close>): both run
  \<open>Setup\<close> without its loops; \<open>doctor\<close> derives a gate ledger and posture findings from the published
  capabilities and ends with an exit code. What the commands print is left out.
\<close>

section \<open>Findings and gates\<close>

record posture_finding =
  fi_ID :: string
  fi_Name :: string
  fi_Grade :: string
  fi_Detail :: string
  fi_Remedy :: string
  fi_Checked :: bool

record gate_line =
  gl_ID :: string
  gl_Name :: string
  gl_Status :: string
  gl_Detail :: string

definition finding :: "string \<Rightarrow> string \<Rightarrow> string \<Rightarrow> string \<Rightarrow> string \<Rightarrow> posture_finding" where
  "finding i n g d r = \<lparr>fi_ID = i, fi_Name = n, fi_Grade = g, fi_Detail = d, fi_Remedy = r, fi_Checked = True\<rparr>"

definition nc :: "string \<Rightarrow> string \<Rightarrow> string \<Rightarrow> posture_finding" where
  "nc i n reason = \<lparr>fi_ID = i, fi_Name = n, fi_Grade = ''not_checked'', fi_Detail = reason, fi_Remedy = [], fi_Checked = False\<rparr>"

definition gate_status :: "string \<Rightarrow> string list \<Rightarrow> string" where
  "gate_status v badPrefixes =
     (let lv = to_lower v in
      if list_ex (\<lambda>p. has_prefix lv (to_lower p)) badPrefixes then ''warn'' else if has_prefix lv ''unknown'' then ''warn'' else ''pass'')"

definition gate_row :: "string \<Rightarrow> string \<Rightarrow> string list \<Rightarrow> string \<Rightarrow> gate_line" where
  "gate_row i n bad v = \<lparr>gl_ID = i, gl_Name = n, gl_Status = gate_status v bad, gl_Detail = v\<rparr>"

definition gates_from_capabilities :: "capabilities \<Rightarrow> gate_line list" where
  "gates_from_capabilities c =
     [gate_row ''D-71'' ''redis_topology'' [''cluster''] (cp_RedisTopology c),
      gate_row ''D-72'' ''counter_eviction_policy'' [''EVICTING''] (cp_CounterEvictionPolicy c),
      gate_row ''D-73'' ''redis_scripting'' [''OFF''] (cp_RedisScripting c),
      gate_row ''D-74'' ''redis_version'' [''below_floor''] (cp_RedisVersion c),
      gate_row ''D-80'' ''counter_evictions_observed'' [''evictions_observed''] (cp_CounterEvictionsObserved c),
      gate_row ''D-81'' ''redis_persist_status'' [''FAILING''] (cp_RedisPersistStatus c),
      gate_row ''D-77'' ''memory_headroom'' [''low_headroom'', ''unbounded''] (cp_MemoryHeadroom c)]"

definition grade_persistence :: "capabilities \<Rightarrow> posture_finding" where
  "grade_persistence c =
     (let persist = cp_RedisPersistStatus c in
      if has_prefix persist ''FAILING''
      then finding ''P-PERSIST'' ''redis_persistence'' ''risk'' (''persistence configured but FAILING: '' @ persist)
        ''free the disk / fix the volume; verify aof_last_write_status=ok''
      else if contains (cp_Outbox c) ''NON-DURABLE''
      then finding ''P-PERSIST'' ''redis_persistence'' ''risk''
        (''the outbox resolves to a NON-durable store: it boots and loses money events on restart ('' @ cp_Outbox c @ '')'')
        ''enable Redis persistence or move the outbox to DynamoDB''
      else if has_prefix persist ''unknown'' \<or> persist = []
      then nc ''P-PERSIST'' ''redis_persistence''
        (''persistence facts unavailable (INFO persistence unreadable or no Redis counter store) '' @ em_dash @ '' posture unknown'')
      else if contains (cp_Outbox c) ''Redis''
      then finding ''P-PERSIST'' ''redis_persistence'' ''attention''
        (''outbox rides this Redis ('' @ cp_Outbox c @ ''); persistence facts: '' @ persist
           @ ''. If durability rests on an operator assertion, it is a promise, not an observation.'')
        ''prefer the DynamoDB outbox for money events''
      else finding ''P-PERSIST'' ''redis_persistence'' ''good'' (''persist facts: '' @ persist @ ''; outbox: '' @ cp_Outbox c) [])"

definition grade_evictions :: "capabilities \<Rightarrow> posture_finding" where
  "grade_evictions c =
     (let ev = cp_CounterEvictionsObserved c in
      if has_prefix ev ''evictions_observed''
      then finding ''P-EVICT'' ''eviction_facts'' ''risk''
        (''this Redis has ALREADY evicted keys '' @ em_dash @ '' the counter may be WRONG RIGHT NOW (an evicted gauge reads low: phantom headroom, over-admission). '' @ ev)
        ''reconcile the counter and set maxmemory-policy noeviction''
      else if has_prefix ev ''unknown'' \<or> ev = []
      then nc ''P-EVICT'' ''eviction_facts''
        (''INFO stats unavailable '' @ em_dash @ '' cannot tell whether this server has already evicted (a visibility answer, not a verdict)'')
      else finding ''P-EVICT'' ''eviction_facts'' ''good'' ev [])"

definition grade_pitr :: "capabilities \<Rightarrow> posture_finding" where
  "grade_pitr c =
     (let hl = cp_DDBHandlerLedger c in
      if contains hl ''pitr=asserted''
      then finding ''P-PITR'' ''ddb_pitr'' ''attention''
        (''handler-ledger PITR rests on the operator assertion '' @ em_dash @ '' an assertion is a promise, not a backup ('' @ hl @ '')'')
        ''on real AWS, verify: aws dynamodb describe-continuous-backups''
      else if contains hl ''pitr=ENABLED'' then finding ''P-PITR'' ''ddb_pitr'' ''good'' hl []
      else nc ''P-PITR'' ''ddb_pitr''
        (''table backup posture beyond the handler ledger is not separately verified by this runtime'' @ [CHR 0x27] @ ''s doctor '' @ em_dash
          @ '' stated, not implied. Verify PITR per table out-of-band (provision --emit terraform enables it)''))"

definition acl_unprobed :: posture_finding where
  "acl_unprobed = nc ''P-ACL'' ''redis_acl_breadth''
     (''NOT probed in the Go runtime version '' @ em_dash @ '' compare the server ACL out-of-band with '' @ [CHR 0x27] @ ''quotactl provision --emit acl'' @ [CHR 0x27]
       @ ''. A NOPERM on any probe above is a permission answer, never a breadth verdict (D-8)'')"

definition iam_unprobed :: posture_finding where
  "iam_unprobed = nc ''P-IAM'' ''iam_breadth''
     (''NOT verified: IAM policy breadth requires iam:Get*/SimulatePrincipalPolicy, which the runtime credential need not hold. Compare out-of-band with ''
       @ [CHR 0x27] @ ''quotactl provision --emit iam'' @ [CHR 0x27] @ ''. AccessDenied is a permission answer, never missing infrastructure (D-8)'')"

definition grade_tls :: "capabilities \<Rightarrow> posture_finding" where
  "grade_tls c =
     (case cp_Resolved c ''storage.redis_url'' of
        None \<Rightarrow> nc ''P-TLS'' ''encryption_in_transit'' (''no resolved redis_url row '' @ em_dash @ '' nothing to grade'')
      | Some row \<Rightarrow>
          if en_Value row = [] then nc ''P-TLS'' ''encryption_in_transit'' (''no resolved redis_url row '' @ em_dash @ '' nothing to grade'')
          else if has_prefix (en_Value row) ''rediss://'' then finding ''P-TLS'' ''encryption_in_transit'' ''good'' ''Redis over TLS (rediss://)'' []
          else if has_prefix (en_Value row) ''redis://''
          then finding ''P-TLS'' ''encryption_in_transit'' ''attention''
            (''Redis over PLAINTEXT (redis://). Whether that is acceptable depends on the network boundary, which doctor cannot see; ''
              @ ''most compliance regimes require TLS in transit.'') ''use rediss:// (supported unchanged)''
          else nc ''P-TLS'' ''encryption_in_transit'' (''no Redis URL in the resolved plan ('' @ en_Value row @ '')''))"

definition rest_unprobed :: posture_finding where
  "rest_unprobed = nc ''P-REST'' ''encryption_at_rest''
     (''NOT verified: Redis at-rest encryption is not observable over the protocol; DynamoDB SSE was not probed in this version '' @ em_dash
       @ '' check SSEDescription via DescribeTable for the audit record'')"

definition grade_posture :: "capabilities \<Rightarrow> posture_finding list" where
  "grade_posture c =
     [grade_persistence c, grade_evictions c, grade_pitr c, acl_unprobed, iam_unprobed, grade_tls c, rest_unprobed]
     @ (if has_prefix (cp_MemoryHeadroom c) ''low_headroom''
        then [finding ''P-MEM'' ''memory_headroom'' ''attention'' (cp_MemoryHeadroom c) ''raise maxmemory or reduce load''] else [])"

section \<open>The commands\<close>

definition exit_ok :: int where "exit_ok = 0"
definition exit_gate :: int where "exit_gate = 1"
definition exit_config :: int where "exit_config = 2"
definition exit_reach :: int where "exit_reach = 3"

record doctor_report =
  dr_ResolvedPlan :: "string \<rightharpoonup> resolved_entry"
  dr_Gates :: "gate_line list"
  dr_Capabilities :: capabilities
  dr_Findings :: "posture_finding list"
  dr_NotChecked :: "(string \<times> string) list"
  dr_Boot :: string
  dr_ExitCode :: int

definition smoke_options :: "setup_config \<Rightarrow> options" where
  "smoke_options cfg = \<lparr>op_ConfigOverride = Some cfg, op_AutoSubscribeAuthEvents = False, op_CreditGranter = None, op_EnablePaid = None,
     op_SettlementPublisher = False, op_ReconcileOrgs = False, op_SkipBackgroundLoops = True\<rparr>"

definition doctor_report_of :: "bool \<Rightarrow> capabilities \<Rightarrow> doctor_report" where
  "doctor_report_of failOnRisk caps =
     (let findings = grade_posture caps;
          code = (if failOnRisk \<and> list_ex (\<lambda>f. fi_Grade f = ''risk'') findings then exit_gate else exit_ok)
      in \<lparr>dr_ResolvedPlan = cp_Resolved caps, dr_Gates = gates_from_capabilities caps, dr_Capabilities = caps, dr_Findings = findings,
          dr_NotChecked = map (\<lambda>f. (fi_Name f, fi_Detail f)) (filter (\<lambda>f. fi_Grade f = ''not_checked'') findings),
          dr_Boot = ''would_start'', dr_ExitCode = code\<rparr>)"

text \<open>The exit code, the report if there is one, and what the run left started; no value when \<open>Setup\<close> never returns.\<close>

definition doctor ::
  "'w platform \<Rightarrow> setup_config \<Rightarrow> bool \<Rightarrow> 'w \<Rightarrow> (int \<times> doctor_report option \<times> effect list) option" where
  "doctor P blank failOnRisk w =
     (case pf_LoadConfig P of
        Inl e \<Rightarrow> Some (exit_config, None, [])
      | Inr cfg \<Rightarrow>
          (case quota_setup P (smoke_options cfg) blank w of
             None \<Rightarrow> None
           | Some (Inl (Refused (Unreachable k m u src budget)), s) \<Rightarrow> Some (exit_reach, None, bs_effects s)
           | Some (Inl e, s) \<Rightarrow> Some (exit_gate, None, bs_effects s)
           | Some (Inr q, s) \<Rightarrow>
               (let r = doctor_report_of failOnRisk (qu_capability q) in Some (dr_ExitCode r, Some r, bs_effects s))))"

datatype cli_err = CliLoad goerr | CliSetup setup_err

definition capabilities_cmd :: "'w platform \<Rightarrow> setup_config \<Rightarrow> 'w \<Rightarrow> ((cli_err + capabilities) \<times> effect list) option" where
  "capabilities_cmd P blank w =
     (case pf_LoadConfig P of
        Inl e \<Rightarrow> Some (Inl (CliLoad e), [])
      | Inr cfg \<Rightarrow>
          (case quota_setup P (smoke_options cfg) blank w of
             None \<Rightarrow> None
           | Some (Inl e, s) \<Rightarrow> Some (Inl (CliSetup e), bs_effects s)
           | Some (Inr q, s) \<Rightarrow> Some (Inr (qu_capability q), bs_effects s)))"

section \<open>What the doctor cannot see\<close>

lemma setup_unobserved:
  assumes "quota_setup P opts blank w = Some (Inr q, s)"
  shows "unobserved (qu_capability q) = ([], [], None)"
proof -
  obtain cfg k store b s1 s2 where c: "counter_step P cfg k store s1 = Some (Inr b, s2)" and u: "unobserved (bs_cap s1) = ([], [], None)"
    and wi: "wiring_steps P opts cfg b s2 = Some (Inr (), s)" and q: "q = (bs_q s)\<lparr>qu_capability := bs_cap s\<rparr>" using assms by (rule setup_success)
  from leads_wiring wi have "wired s2 s" unfolding leads_def by blast
  with counter_step_success [OF c] u q show ?thesis by (simp add: wired_def)
qed

text \<open>
  C40. The doctor passes what it never checked. Whatever Redis it is run against, its report lists the
  gates on evicted keys (D-80) and on failing persistence (D-81) as passed with an empty detail, and
  grades neither evictions nor the encryption of the connection: nothing in \<open>Setup\<close> reads those facts,
  and the row of the plan it looks up has another name.
\<close>

theorem doctor_passes_unchecked_gates:
  assumes "doctor P blank failOnRisk w = Some (code, Some r, es)"
  shows "\<lparr>gl_ID = ''D-80'', gl_Name = ''counter_evictions_observed'', gl_Status = ''pass'', gl_Detail = []\<rparr> \<in> set (dr_Gates r)
    \<and> \<lparr>gl_ID = ''D-81'', gl_Name = ''redis_persist_status'', gl_Status = ''pass'', gl_Detail = []\<rparr> \<in> set (dr_Gates r)
    \<and> ''eviction_facts'' \<in> fst ` set (dr_NotChecked r) \<and> ''encryption_in_transit'' \<in> fst ` set (dr_NotChecked r)"
proof -
  from assms obtain cfg q s where q: "quota_setup P (smoke_options cfg) blank w = Some (Inr q, s)" and r: "r = doctor_report_of failOnRisk (qu_capability q)"
    by (auto simp: doctor_def Let_def split: sum.split_asm option.split_asm setup_err.split_asm refusal.split_asm prod.split_asm)
  from setup_unobserved [OF q] have u: "cp_CounterEvictionsObserved (qu_capability q) = []" "cp_RedisPersistStatus (qu_capability q) = []"
    "cp_Resolved (qu_capability q) ''storage.redis_url'' = None" by (simp_all add: unobserved_def)
  have g: "gate_status [] [p # ps] = ''pass''" for p ps by (simp add: gate_status_def to_lower_def)
  have "grade_evictions (qu_capability q) = nc ''P-EVICT'' ''eviction_facts''
        (''INFO stats unavailable '' @ em_dash @ '' cannot tell whether this server has already evicted (a visibility answer, not a verdict)'')"
    "grade_tls (qu_capability q) = nc ''P-TLS'' ''encryption_in_transit'' (''no resolved redis_url row '' @ em_dash @ '' nothing to grade'')"
    by (simp_all add: grade_evictions_def grade_tls_def u)
  then have "''eviction_facts'' \<in> fst ` set (dr_NotChecked r)" "''encryption_in_transit'' \<in> fst ` set (dr_NotChecked r)"
    by (simp_all add: r doctor_report_of_def grade_posture_def nc_def Let_def)
  moreover have "gate_row ''D-80'' ''counter_evictions_observed'' [''evictions_observed''] [] \<in> set (dr_Gates r)"
    "gate_row ''D-81'' ''redis_persist_status'' [''FAILING''] [] \<in> set (dr_Gates r)"
    by (simp_all add: r doctor_report_of_def gates_from_capabilities_def u Let_def)
  ultimately show ?thesis by (simp add: gate_row_def g)
qed

section \<open>What the commands leave running\<close>

text \<open>A step that starts nothing; a Redis client may be opened and closed.\<close>

definition quiet :: "('w, 'a) boot \<Rightarrow> bool" where
  "quiet m \<longleftrightarrow> (\<forall>s r s'. m s = Some (r, s') \<longrightarrow> set (bs_effects s') \<subseteq> set (bs_effects s) \<union> {OpenedRedis, ClosedRedis})"

lemma quiet_bbind: "quiet m \<Longrightarrow> (\<And>x. quiet (f x)) \<Longrightarrow> quiet (bbind m f)"
  unfolding quiet_def bbind_def by (fastforce split: option.split_asm sum.split_asm)

lemma quiet_bthen: "quiet m \<Longrightarrow> quiet n \<Longrightarrow> quiet (bthen m n)"
  unfolding bthen_def by (rule quiet_bbind)

lemma quiet_basic: "quiet (bret x)" "quiet (bfail e)" "(\<And>s. bs_effects (f s) = bs_effects s) \<Longrightarrow> quiet (bdo f)"
  by (auto simp: quiet_def)

lemma quiet_early:
  "quiet (load_step P opts)" "quiet (keyspace_step cfg)" "quiet (provider_step P cfg)" "quiet (prefix_step cfg)" "quiet (store_url_step P cfg)"
  "quiet (plan_step P cfg store)"
  by (auto simp: quiet_def dest: early_steps)

lemma quiet_redis: "quiet (redis_step P cfg k store)"
  by (auto simp: quiet_def redis_step_def Let_def split: option.split_asm prod.split_asm sum.split_asm)

lemma quiet_counter: "quiet (counter_step P cfg k store)"
  unfolding counter_step_def memory_step_def Let_def by (auto intro!: quiet_bthen quiet_basic quiet_redis)

lemma quiet_ledger: "quiet (handler_ledger_step P cfg redis)"
proof -
  have "quiet (ledger_table_step P cfg c)" for c
    by (auto simp: quiet_def ledger_table_step_def Let_def split: option.split_asm prod.split_asm if_split_asm)
  then show ?thesis unfolding handler_ledger_step_def Let_def
    by (intro quiet_bthen) (auto intro!: quiet_basic split: sum.split)
qed

lemma quiet_steps:
  "op_SkipBackgroundLoops opts \<Longrightarrow> quiet (mesh_step P opts)" "quiet (alerts_step P cfg)" "quiet (receiver_step P)"
  "\<not> op_AutoSubscribeAuthEvents opts \<Longrightarrow> quiet (subscribe_step opts)"
  unfolding mesh_step_def alerts_step_def receiver_step_def subscribe_step_def Let_def
  by (auto intro!: quiet_bthen quiet_basic split: option.split)

lemma quiet_flat:
  "op_CreditGranter opts = None \<Longrightarrow> quiet (credit_step opts)" "quiet (activations_step P cfg)" "\<not> op_ReconcileOrgs opts \<Longrightarrow> quiet (wire_reconciler opts)"
  "quiet (reverification_step redis)"
  by (auto simp: quiet_def credit_step_def activations_step_def wire_reconciler_def reverification_step_def
      split: option.split_asm if_split_asm sum.split_asm prod.split_asm bool.split_asm)

lemma quiet_billing:
  assumes "op_SkipBackgroundLoops opts"
  shows "quiet (billing_step P cfg opts redis)"
  unfolding quiet_def
proof (intro allI impI)
  fix s r s'
  assume "billing_step P cfg opts redis s = Some (r, s')"
  then obtain r1 where "gate_billing_chain P cfg redis (has_publisher P cfg opts) (enable_paid cfg opts (bs_q s)) True s = Some (r1, s')"
    using assms by (auto simp: billing_step_def split: option.split_asm sum.split_asm setup_err.split_asm prod.split_asm)
  then have "bs_effects s' = bs_effects s"
    by (auto simp: gate_billing_chain_def judge_chain_def Let_def split: option.split_asm if_split_asm prod.split_asm)
  then show "set (bs_effects s') \<subseteq> set (bs_effects s) \<union> {OpenedRedis, ClosedRedis}" by auto
qed

lemma quiet_setup:
  assumes "quota_setup P (smoke_options cfg) blank w = Some (r, s)"
  shows "set (bs_effects s) \<subseteq> {OpenedRedis, ClosedRedis}"
proof -
  let ?o = "smoke_options cfg"
  have o: "op_SkipBackgroundLoops ?o" "\<not> op_AutoSubscribeAuthEvents ?o" "op_CreditGranter ?o = None" "\<not> op_ReconcileOrgs ?o"
    by (simp_all add: smoke_options_def)
  have w: "quiet (wiring_steps P ?o c b)" for c b
    unfolding wiring_steps_def by (intro quiet_bthen quiet_steps quiet_flat quiet_ledger quiet_billing o)
  have e: "quiet (\<lambda>s. bret ((bs_q s)\<lparr>qu_capability := bs_cap s\<rparr>) s)" by (auto simp: quiet_def)
  have "quiet (boot_steps P ?o)" unfolding boot_steps_def by (intro quiet_bbind quiet_bthen quiet_early quiet_counter w e)
  with assms show ?thesis unfolding quota_setup_def quiet_def by (fastforce simp: boot_start_def)
qed

lemma capabilities_start_nothing: "capabilities_cmd P blank w = Some (res, es) \<Longrightarrow> set es \<subseteq> {OpenedRedis, ClosedRedis}"
  by (auto simp: capabilities_cmd_def dest: quiet_setup split: sum.split_asm option.split_asm prod.split_asm)

text \<open>
  C19. A check before a deployment moves no money. Whatever the configuration and the answers of the
  services, and whether \<open>Setup\<close> succeeds or not, \<open>doctor\<close> starts no heartbeat, no drain and no
  reconciler, registers no handler and subscribes to nothing; the effects it leaves are those of a
  Redis client. What it writes to the stores, tables included, is in the world and not bounded here.
\<close>

theorem doctor_starts_nothing:
  assumes "doctor P blank failOnRisk w = Some (code, rep, es)"
  shows "set es \<subseteq> {OpenedRedis, ClosedRedis}"
  using assms by (auto simp: doctor_def Let_def dest: quiet_setup
      split: sum.split_asm option.split_asm setup_err.split_asm refusal.split_asm prod.split_asm)

section \<open>A run of the doctor\<close>

definition booth_config :: setup_config where
  "booth_config = shop_config\<lparr>su_Config := (su_Config shop_config)\<lparr>c_Storage := (c_Storage small_config)\<lparr>st_RedisURL := d_declare ''memory://''\<rparr>\<rparr>, su_EnablePaid := False\<rparr>"

definition booth :: "dtable platform" where
  "booth = shop\<lparr>pf_getenv := (\<lambda>_. []), pf_LoadConfig := Inr booth_config\<rparr>"

lemma booth_valid: "validate_config False (su_Config booth_config) = Inr (su_Config booth_config)"
  by (simp add: booth_config_def shop_config_def validate_config_def small_config_def plain_tier_def gauge_resource_def validate_tier_def
      validate_billing_model_def synthesize_grant_def validate_resource_def plain_limit_def unmarshal_tier_limit_def)

lemma booth_load: "\<exists>s'. load_step booth (smoke_options booth_config) s = Some (Inr booth_config, s')"
  using booth_valid by (simp add: load_step_def booth_def smoke_options_def env_bool_def bthen_def bbind_def bdo_def bret_def)

lemma booth_keyspace: "\<exists>s'. keyspace_step booth_config s = Some (Inr shop_keyspace, s')"
proof -
  have "new_keyspace ''svc'' 1 False = Inr shop_keyspace" unfolding shop_keyspace_def by code_simp
  then show ?thesis by (simp add: keyspace_step_def booth_config_def shop_config_def small_config_def bthen_def bbind_def bdo_def bret_def Let_def)
qed

lemma booth_early:
  "provider_step booth booth_config s = Some (Inr (), s)" "prefix_step booth_config s = Some (Inr (), s)"
  "store_url_step booth booth_config s = Some (Inr \<lparr>rs_Value = ''memory://'', rs_Source = SrcConfig ''storage.redis_url''\<rparr>, s)"
  by (simp_all add: provider_step_def new_provider_def prefix_step_def store_url_step_def booth_config_def shop_config_def small_config_def resolve_string_def
      d_get_def d_declare_def redis_url_spec_def bret_def Let_def)

lemma booth_counter: "\<exists>s'. counter_step booth booth_config shop_keyspace \<lparr>rs_Value = ''memory://'', rs_Source = src\<rparr> s = Some (Inr False, s')
    \<and> qu_Billing (bs_q s') = None"
  by (simp add: counter_step_def memory_step_def new_quota_def bthen_def bbind_def bdo_def bret_def)

lemma booth_passes:
  "passes (mesh_step booth (smoke_options booth_config))" "passes (alerts_step booth booth_config)" "passes (handler_ledger_step booth booth_config False)"
  "passes (receiver_step booth)" "passes (credit_step (smoke_options booth_config))" "passes (subscribe_step (smoke_options booth_config))"
  "passes (activations_step booth booth_config)" "passes (wire_reconciler (smoke_options booth_config))" "passes (reverification_step False)"
proof -
  note step = passes_def bret_def bdo_def bthen_def bbind_def Let_def
  have m: "mu_Billing (mesh_resolve (\<lambda>_. [])) = []" "mu_Payment (mesh_resolve (\<lambda>_. [])) = []" by code_simp+
  show "passes (mesh_step booth (smoke_options booth_config))" by (simp add: step mesh_step_def booth_def m)
  have c: "\<not> al_Enabled (su_Alerts booth_config)" "\<not> ddb_signal_present booth_config" "sf_DynamoDBTable (su_Storage booth_config) = []"
    using shop_no_ddb by (simp_all add: booth_config_def ddb_signal_present_def) (simp add: shop_config_def)
  show "passes (alerts_step booth booth_config)" by (simp add: step alerts_step_def c)
  show "passes (handler_ledger_step booth booth_config False)" by (simp add: step handler_ledger_step_def c)
  show "passes (receiver_step booth)" by (simp add: step receiver_step_def booth_def)
  show "passes (credit_step (smoke_options booth_config))" "passes (subscribe_step (smoke_options booth_config))" "passes (wire_reconciler (smoke_options booth_config))"
    by (simp_all add: step credit_step_def subscribe_step_def wire_reconciler_def smoke_options_def)
  show "passes (activations_step booth booth_config)" by (simp add: step activations_step_def c)
  show "passes (reverification_step False)" by (simp add: step reverification_step_def)
qed

lemma booth_billing:
  assumes "qu_Billing (bs_q s) = None"
  shows "\<exists>s'. billing_step booth booth_config (smoke_options booth_config) False s = Some (Inr (), s')"
proof -
  have "\<not> enable_paid booth_config (smoke_options booth_config) (bs_q s)" "outbox_enabled (su_Outbox booth_config)"
    using assms by (simp_all add: enable_paid_def smoke_options_def booth_config_def shop_config_def outbox_enabled_def)
  moreover have "resolve_durable_outbox booth booth_config False w = Some ((None, False, ''none''), w)" for w
    using shop_no_ddb(1) by (simp add: resolve_durable_outbox_def redis_outbox_def ddb_signal_present_def booth_config_def)
  ultimately show ?thesis
    by (simp add: billing_step_def gate_billing_chain_def judge_chain_def weakest_link_def bdo_def Let_def)
qed

lemma booth_wiring:
  assumes "qu_Billing (bs_q s) = None"
  shows "\<exists>s'. wiring_steps booth (smoke_options booth_config) booth_config False s = Some (Inr (), s')"
proof -
  let ?o = "smoke_options booth_config"
  let ?pre = "bthen (mesh_step booth ?o) (bthen (alerts_step booth booth_config) (bthen (handler_ledger_step booth booth_config False) (bthen (receiver_step booth)
    (bthen (credit_step ?o) (bthen (subscribe_step ?o) (bthen (activations_step booth booth_config) (bthen (wire_reconciler ?o) (reverification_step False))))))))"
  have "passes ?pre" by (intro passes_bthen booth_passes)
  then obtain s1 where p: "?pre s = Some (Inr (), s1)" "qu_Billing (bs_q s1) = qu_Billing (bs_q s)" unfolding passes_def by blast
  from p(2) assms have "qu_Billing (bs_q s1) = None" by simp
  from booth_billing [OF this] obtain s2 where b: "billing_step booth booth_config ?o False s1 = Some (Inr (), s2)" by blast
  have "wiring_steps booth ?o booth_config False = bthen ?pre (billing_step booth booth_config ?o False)" by (simp add: wiring_steps_def bthen_assoc)
  then show ?thesis using p(1) b by (simp add: bthen_def [of ?pre] bbind_def)
qed

lemma booth_doctor: "\<exists>code r es. doctor booth shop_config failOnRisk empty_table = Some (code, Some r, es)"
proof -
  let ?o = "smoke_options booth_config" and ?store = "\<lparr>rs_Value = ''memory://'', rs_Source = SrcConfig ''storage.redis_url''\<rparr>"
  obtain s0 where l: "load_step booth ?o (boot_start shop_config empty_table) = Some (Inr booth_config, s0)" using booth_load by blast
  obtain s1 where k: "keyspace_step booth_config s0 = Some (Inr shop_keyspace, s1)" using booth_keyspace by blast
  obtain s2 where pl: "plan_step booth booth_config ?store s1 = Some (Inr (), s2)" by (simp add: plan_step_def)
  obtain s3 where c: "counter_step booth booth_config shop_keyspace ?store s2 = Some (Inr False, s3)" "qu_Billing (bs_q s3) = None" using booth_counter by blast
  obtain s4 where w: "wiring_steps booth ?o booth_config False s3 = Some (Inr (), s4)" using booth_wiring [OF c(2)] by blast
  have "\<exists>q s. quota_setup booth ?o shop_config empty_table = Some (Inr q, s)"
    using l k pl c(1) w by (simp add: quota_setup_def boot_steps_def bthen_def bbind_def booth_early bret_def)
  moreover have "pf_LoadConfig booth = Inr booth_config" by (simp add: booth_def)
  ultimately show ?thesis by (auto simp: doctor_def Let_def)
qed

theorem doctor_passes_unchecked_gates_witness:
  "\<exists>code r es. doctor booth shop_config False empty_table = Some (code, Some r, es)
    \<and> \<lparr>gl_ID = ''D-80'', gl_Name = ''counter_evictions_observed'', gl_Status = ''pass'', gl_Detail = []\<rparr> \<in> set (dr_Gates r)"
  using booth_doctor [of False] doctor_passes_unchecked_gates [of booth shop_config False empty_table] by blast

theorem doctor_starts_nothing_witness:
  "\<exists>code rep es. doctor booth shop_config True empty_table = Some (code, rep, es) \<and> set es \<subseteq> {OpenedRedis, ClosedRedis}"
  using booth_doctor [of True] doctor_starts_nothing [of booth shop_config True empty_table] by blast

end
