(* ===== verification/Quotactl.thy ===== *)
theory Quotactl
  imports AuthEvents Subscribe Provision
begin

text \<open>
  The other verbs of \<open>quotactl\<close> (\<open>cmd/quotactl/\<close>): \<open>replay\<close> and \<open>backfill\<close>, which sign events and post them to
  a receiver, \<open>subscribe-events\<close>, the ledger verbs that refuse, \<open>provision\<close>'s command and the version.
  The flags are arguments; files, the clock, JSON and the HTTP transport are parameters. What a verb
  prints is a list of lines as data.
\<close>

section \<open>Posting signed events\<close>

text \<open>
  \<open>ct_Post\<close> posts a body with a signature to a URL and returns the status and the body of the answer;
  \<open>ct_DecodeArray\<close> splits a JSON array into the texts of its elements.
\<close>

record backfill_event =
  bf_EventID :: string
  bf_OccurredAt :: string
  bf_UserID :: string
  bf_OrgID :: string

record 'w cli =
  ct_Post :: "string \<Rightarrow> string \<Rightarrow> string \<Rightarrow> 'w \<Rightarrow> (goerr + nat \<times> string) \<times> 'w"
  ct_mac :: "string \<Rightarrow> string \<Rightarrow> string"
  ct_DecodeArray :: "string \<Rightarrow> goerr + string list"
  ct_Marshal :: "backfill_event \<Rightarrow> string"
  ct_Now :: "'w \<Rightarrow> instant \<times> 'w"
  ct_RFC3339 :: "instant \<Rightarrow> string"

datatype cli_error =
    FlagsRequired | FileUnreadable goerr | EmptyInput | DecodeArrayFailed goerr | EventFailed nat goerr
  | NotAccepted nat nat string | NoLedgerAccess | ChooseKind | InternalError provision_err | SubscribeFailed subscribe_error

definition truncate_text :: "string \<Rightarrow> nat \<Rightarrow> string" where
  "truncate_text s n =
     (let s = map (\<lambda>c. if c = CHR 0x0A then CHR '' '' else c) s in if length s \<le> n then s else take n s @ [CHR 0xE2, CHR 0x80, CHR 0xA6])"

definition event_signature :: "'w cli \<Rightarrow> bool \<Rightarrow> string \<Rightarrow> string \<Rightarrow> string" where
  "event_signature C bareSig secret body = (let sig = sign_body (ct_mac C) body secret in if bareSig then sig else ''sha256='' @ sig)"

definition refused :: "nat \<Rightarrow> bool" where
  "refused status \<longleftrightarrow> status < 200 \<or> status > 299"

section \<open>Replay\<close>

definition split_events :: "'w cli \<Rightarrow> string \<Rightarrow> cli_error + string list" where
  "split_events C raw =
     (case trim_space raw of
        [] \<Rightarrow> Inl EmptyInput
      | c # cs \<Rightarrow>
          if c = CHR ''['' then (case ct_DecodeArray C (c # cs) of Inl e \<Rightarrow> Inl (DecodeArrayFailed e) | Inr arr \<Rightarrow> Inr arr)
          else Inr (filter (\<lambda>l. l \<noteq> []) (map trim_space (split_on (CHR 0x0A) (c # cs)))))"

text \<open>The events from the \<open>i\<close>-th on: the error, the lines printed, the refused events and the world.\<close>

fun replay_loop ::
  "'w cli \<Rightarrow> string \<Rightarrow> string \<Rightarrow> bool \<Rightarrow> nat \<Rightarrow> string list \<Rightarrow> 'w \<Rightarrow> cli_error option \<times> (nat \<times> nat \<times> string) list \<times> nat \<times> 'w" where
  "replay_loop C secret target bareSig i [] w = (None, [], 0, w)"
| "replay_loop C secret target bareSig i (ev # evs) w =
     (case ct_Post C target ev (event_signature C bareSig secret ev) w of
        (Inl e, w) \<Rightarrow> (Some (EventFailed i e), [], 0, w)
      | (Inr (status, body), w) \<Rightarrow>
          (case replay_loop C secret target bareSig (Suc i) evs w of
             (err, lns, failed, w) \<Rightarrow>
               (err, (i, status, truncate_text (take (2 ^ 20) body) 120) # lns, (if refused status then Suc failed else failed), w)))"

record replay_flags =
  rf_File :: string
  rf_Secret :: string
  rf_Target :: string
  rf_Bare :: bool

definition replay :: "'w cli \<Rightarrow> (string \<Rightarrow> string) \<Rightarrow> (string \<Rightarrow> goerr + string) \<Rightarrow> replay_flags \<Rightarrow> 'w
    \<Rightarrow> cli_error option \<times> (nat \<times> nat \<times> string) list \<times> 'w" where
  "replay C getenv readFile f w =
     (let secret = (if rf_Secret f = [] then getenv ''AB0T_AUTH_WEBHOOK_SECRET'' else rf_Secret f) in
      if rf_File f = [] \<or> rf_Target f = [] \<or> secret = [] then (Some FlagsRequired, [], w)
      else case readFile (rf_File f) of
        Inl e \<Rightarrow> (Some (FileUnreadable e), [], w)
      | Inr raw \<Rightarrow>
          (case split_events C raw of
             Inl e \<Rightarrow> (Some e, [], w)
           | Inr events \<Rightarrow>
               (case replay_loop C secret (rf_Target f) (rf_Bare f) 0 events w of
                  (Some e, lns, failed, w) \<Rightarrow> (Some e, lns, w)
                | (None, lns, failed, w) \<Rightarrow>
                    (if failed > 0 then Some (NotAccepted failed (length events) (rf_Target f)) else None, lns, w))))"

section \<open>Backfill\<close>

datatype backfill_line = BfDry string | BfFailed nat string goerr | BfPosted nat string nat string

text \<open>A row of the input; no value for a blank row or a comment.\<close>

definition backfill_row :: "string \<Rightarrow> (string \<times> string) option" where
  "backfill_row row0 =
     (let row = trim_space row0 in
      if row = [] \<or> has_prefix row ''#'' then None
      else case split_n2 (CHR '','') row of
        (u, None) \<Rightarrow> Some (trim_space u, [])
      | (u, Some rest) \<Rightarrow> Some (trim_space u, trim_space rest))"

record backfill_flags =
  bk_Input :: string
  bk_Secret :: string
  bk_Target :: string
  bk_DryRun :: bool
  bk_Bare :: bool

text \<open>\<open>time.Now\<close> is read for the id and again for the time of the event.\<close>

definition backfill_body :: "'w cli \<Rightarrow> string \<Rightarrow> string \<Rightarrow> 'w \<Rightarrow> string \<times> 'w" where
  "backfill_body C userID orgID w =
     (case ct_Now C w of
        (t1, w) \<Rightarrow>
          (case ct_Now C w of
             (t2, w) \<Rightarrow>
               (ct_Marshal C \<lparr>bf_EventID = ''backfill-'' @ userID @ ''-'' @ itoa t1, bf_OccurredAt = ct_RFC3339 C t2, bf_UserID = userID, bf_OrgID = orgID\<rparr>, w)))"

fun backfill_loop ::
  "'w cli \<Rightarrow> string \<Rightarrow> backfill_flags \<Rightarrow> nat \<Rightarrow> string list \<Rightarrow> nat \<Rightarrow> nat \<Rightarrow> 'w \<Rightarrow> nat \<times> nat \<times> backfill_line list \<times> 'w" where
  "backfill_loop C secret f i [] posted failed w = (posted, failed, [], w)"
| "backfill_loop C secret f i (row # rows) posted failed w =
     (case backfill_row row of
        None \<Rightarrow> backfill_loop C secret f (Suc i) rows posted failed w
      | Some (userID, orgID) \<Rightarrow>
          (case backfill_body C userID orgID w of
             (body, w) \<Rightarrow>
               if bk_DryRun f
               then (case backfill_loop C secret f (Suc i) rows posted failed w of (posted, failed, lns, w) \<Rightarrow> (posted, failed, BfDry body # lns, w))
               else (case ct_Post C (bk_Target f) body (event_signature C (bk_Bare f) secret body) w of
                       (Inl e, w) \<Rightarrow>
                         (case backfill_loop C secret f (Suc i) rows (Suc posted) (Suc failed) w of
                            (posted, failed, lns, w) \<Rightarrow> (posted, failed, BfFailed i userID e # lns, w))
                     | (Inr (status, resp), w) \<Rightarrow>
                         (case backfill_loop C secret f (Suc i) rows (Suc posted) (if refused status then Suc failed else failed) w of
                            (posted, failed, lns, w) \<Rightarrow> (posted, failed, BfPosted i userID status (truncate_text (take (2 ^ 20) resp) 80) # lns, w)))))"

definition backfill :: "'w cli \<Rightarrow> (string \<Rightarrow> string) \<Rightarrow> (string \<Rightarrow> goerr + string) \<Rightarrow> backfill_flags \<Rightarrow> 'w
    \<Rightarrow> cli_error option \<times> backfill_line list \<times> 'w" where
  "backfill C getenv readFile f w =
     (let secret = (if bk_Secret f = [] then getenv ''AB0T_AUTH_WEBHOOK_SECRET'' else bk_Secret f) in
      if bk_Input f = [] then (Some FlagsRequired, [], w)
      else if \<not> bk_DryRun f \<and> (bk_Target f = [] \<or> secret = []) then (Some FlagsRequired, [], w)
      else case readFile (bk_Input f) of
        Inl e \<Rightarrow> (Some (FileUnreadable e), [], w)
      | Inr raw \<Rightarrow>
          (case backfill_loop C secret f 0 (split_on (CHR 0x0A) raw) 0 0 w of
             (posted, failed, lns, w) \<Rightarrow> (if failed > 0 then Some (NotAccepted failed posted (bk_Target f)) else None, lns, w)))"

section \<open>The other verbs\<close>

text \<open>\<open>storeFromEnv\<close> never returns a store, so the verbs on the ledger end there.\<close>

definition store_from_env :: "cli_error + unit" where
  "store_from_env = Inl NoLedgerAccess"

definition events_cmd :: "string \<Rightarrow> string \<Rightarrow> cli_error option" where
  "events_cmd userID status =
     (if userID = [] \<and> status = [] then Some FlagsRequired else case store_from_env of Inl e \<Rightarrow> Some e | Inr _ \<Rightarrow> None)"

definition delete_user_cmd :: "string \<Rightarrow> cli_error option" where
  "delete_user_cmd userID = (if userID = [] then Some FlagsRequired else case store_from_env of Inl e \<Rightarrow> Some e | Inr _ \<Rightarrow> None)"

record subscribe_flags =
  sb_Events :: string
  sb_OrgSlug :: string
  sb_OrgID :: string
  sb_Prefix :: string
  sb_Name :: string
  sb_RotateSecret :: bool

definition flag_event_types :: "string \<Rightarrow> string list" where
  "flag_event_types s = filter (\<lambda>t. t \<noteq> []) (map trim_space (split_on (CHR '','') s))"

definition subscribe_lines :: "subscribe_result \<Rightarrow> string list" where
  "subscribe_lines res =
     [''subscription_id: '' @ su_SubscriptionID res, ''action: '' @ su_Action res, ''endpoint: '' @ su_Endpoint res,
      ''events: '' @ join_with '','' (su_EventTypes res)]
     @ (if su_ReplacedID res \<noteq> []
        then [''replaced: '' @ su_ReplacedID res @ '' (backfill sign-ups since the delete; remove AB0T_AUTH_WEBHOOK_SECRET_PREVIOUS once deliveries verify)''] else [])
     @ (if su_SecretVerified res then []
        else [''secret: not verified (auth does not disclose the stored secret); if events fail with 401 invalid signature, re-run with --rotate-secret''])"

text \<open>No value where \<open>Subscribe\<close> has none.\<close>

definition subscribe_cmd :: "'w sub_client \<Rightarrow> (string \<Rightarrow> string) \<Rightarrow> string list \<Rightarrow> subscribe_flags \<Rightarrow> 'w \<Rightarrow> (cli_error + string list) option \<times> 'w" where
  "subscribe_cmd c getenv registered f w =
     (case subscribe c getenv registered
             \<lparr>si_AuthURL = [], si_AdminToken = [], si_PublicURL = [], si_Secret = [], si_EventTypes = flag_event_types (sb_Events f),
              si_WatchOrgSlug = sb_OrgSlug f, si_WatchOrgID = sb_OrgID f, si_Name = sb_Name f, si_MountPrefix = sb_Prefix f,
              si_RotateSecret = sb_RotateSecret f\<rparr> w of
        (r, w) \<Rightarrow> (map_option (map_sum SubscribeFailed subscribe_lines) r, w))"

datatype provision_out = RanDocker "string list" | DryDocker "string list" | DockerFailed | Printed string

definition provision_cmd :: "(string list \<Rightarrow> bool) \<Rightarrow> registry_vars \<Rightarrow> bool \<Rightarrow> bool \<Rightarrow> int \<Rightarrow> string \<Rightarrow> string \<Rightarrow> bool \<Rightarrow> cli_error + provision_out" where
  "provision_cmd docker R local_redis dryRun port name emitKind includeCreate =
     (if local_redis
      then let argv = local_docker_args R port name in
           if dryRun then Inr (DryDocker argv) else if docker argv then Inr (RanDocker argv) else Inr DockerFailed
      else if emitKind = [] then Inl ChooseKind
      else case emit_artifact R emitKind includeCreate of Inl e \<Rightarrow> Inl (InternalError e) | Inr text \<Rightarrow> Inr (Printed text))"

text \<open>The version: what the linker set wins over what the toolchain recorded.\<close>

record build_info =
  bi_MainVersion :: string
  bi_Settings :: "(string \<times> string) list"

fun build_settings :: "(string \<times> string) list \<Rightarrow> string \<Rightarrow> string \<Rightarrow> string \<times> string" where
  "build_settings [] c t = (c, t)"
| "build_settings ((k, v) # ss) c t =
     (if k = ''vcs.revision'' then build_settings ss (if c = ''unknown'' \<and> v \<noteq> [] then take 12 v else c) t
      else if k = ''vcs.time'' then build_settings ss c (if t = ''unknown'' \<and> v \<noteq> [] then v else t)
      else build_settings ss c t)"

definition resolve_build_info :: "string \<Rightarrow> string \<Rightarrow> string \<Rightarrow> build_info option \<Rightarrow> string \<times> string \<times> string" where
  "resolve_build_info v c t bi =
     (case bi of
        None \<Rightarrow> (v, c, t)
      | Some b \<Rightarrow>
          (let v = (if v = ''dev'' \<and> bi_MainVersion b \<noteq> [] \<and> bi_MainVersion b \<noteq> ''(devel)'' then bi_MainVersion b else v) in
           (v, build_settings (bi_Settings b) c t)))"

section \<open>Replaying to a receiver\<close>

text \<open>The receiver as the transport, mounted under a path.\<close>

definition signed_request :: "string \<Rightarrow> string \<Rightarrow> string \<Rightarrow> webhook_request" where
  "signed_request path body sig = \<lparr>wr_Path = path, wr_Method = ''POST'',
     wr_Header = (\<lambda>h. if h = ''X-Event-Signature'' then sig else if h = ''Content-Type'' then ''application/json'' else []), wr_Body = body, wr_Broken = False\<rparr>"

definition receiver_post ::
  "'w mem_ledger_scheme runtime \<Rightarrow> 'w mem_ledger_scheme receiver_config \<Rightarrow> string \<Rightarrow> string \<Rightarrow> string \<Rightarrow> string \<Rightarrow> 'w mem_ledger_scheme
   \<Rightarrow> (goerr + nat \<times> string) \<times> 'w mem_ledger_scheme" where
  "receiver_post T cfg path target body sig s = (case make_router T cfg (signed_request path body sig) s of (resp, s) \<Rightarrow> (Inr (wp_Code resp, []), s))"

lemma signature_accepted:
  assumes "is_webhook_path path" and "int (length body) \<le> max_body cfg" and "k \<in> set (receiver_secrets cfg)" and "k \<noteq> []"
    and "ct_mac C = rn_mac T" and "rn_mac T k body \<noteq> []" and "rn_decode T body \<noteq> None"
  shows "wp_Code (fst (make_router T cfg (signed_request path body (event_signature C bare k body)) s)) = 200"
proof -
  let ?r = "signed_request path body (event_signature C bare k body)"
  have "request_signature ?r = event_signature C bare k body"
    by (simp add: request_signature_def signed_request_def event_signature_def sign_body_def Let_def)
  moreover have "verify_hmac (rn_mac T) body (event_signature C bare k body) k"
    using signed_body_verifies [where mac = "rn_mac T", OF assms(4,6)] assms(5) by (simp add: event_signature_def Let_def)
  ultimately have "list_ex (\<lambda>k. verify_hmac (rn_mac T) (wr_Body ?r) (request_signature ?r) k) (receiver_secrets cfg)"
    using assms(3) by (auto simp: list_ex_iff signed_request_def)
  then show ?thesis using assms(1,2,7)
    by (auto simp: make_router_def signed_request_def write_json_def Let_def split: option.splits prod.splits)
qed

lemma replay_loop_delivers:
  assumes "\<And>ev. ev \<in> set evs \<Longrightarrow> int (length ev) \<le> max_body cfg \<and> rn_mac T k ev \<noteq> [] \<and> rn_decode T ev \<noteq> None"
    and "is_webhook_path path" and "k \<in> set (receiver_secrets cfg)" and "k \<noteq> []" and "ct_mac C = rn_mac T" and "ct_Post C = receiver_post T cfg path"
  shows "\<exists>lns. replay_loop C k target bare i evs s = (None, lns, 0, serve T cfg (map (\<lambda>ev. signed_request path ev (event_signature C bare k ev)) evs) s)
    \<and> length lns = length evs"
  using assms(1)
proof (induction evs arbitrary: i s)
  case (Cons ev evs)
  let ?r = "signed_request path ev (event_signature C bare k ev)"
  obtain resp s1 where r: "make_router T cfg ?r s = (resp, s1)" by fastforce
  have "wp_Code resp = 200"
    using signature_accepted [OF assms(2) _ assms(3-5), of ev bare s] Cons.prems [of ev] r by simp
  then have p: "ct_Post C target ev (event_signature C bare k ev) s = (Inr (200, []), s1)" by (simp add: assms(6) receiver_post_def r)
  obtain lns where "replay_loop C k target bare (Suc i) evs s1
      = (None, lns, 0, serve T cfg (map (\<lambda>ev. signed_request path ev (event_signature C bare k ev)) evs) s1)" "length lns = length evs"
    using Cons.IH [of "Suc i" s1] Cons.prems by (metis list.set_intros(2))
  then show ?case by (simp add: p r refused_def)
qed simp

text \<open>
  What is replayed is received. \<open>replay\<close> against a receiver that holds the same secret, as the current or
  a previous one, with or without the prefix of the signature, posts every event of the file in its
  order, each of which passes the receiver's checks, and succeeds: the receiver ends as if the events had
  been delivered to it one by one.
\<close>

theorem replay_reaches_receiver:
  assumes "rf_File f \<noteq> []" and "rf_Target f \<noteq> []" and "rf_Secret f \<noteq> []" and "readFile (rf_File f) = Inr raw" and "split_events C raw = Inr evs"
    and "\<And>ev. ev \<in> set evs \<Longrightarrow> int (length ev) \<le> max_body cfg \<and> rn_mac T (rf_Secret f) ev \<noteq> [] \<and> rn_decode T ev \<noteq> None"
    and "is_webhook_path path" and "rf_Secret f \<in> set (receiver_secrets cfg)" and "ct_mac C = rn_mac T" and "ct_Post C = receiver_post T cfg path"
  shows "\<exists>lns. replay C getenv readFile f s
      = (None, lns, serve T cfg (map (\<lambda>ev. signed_request path ev (event_signature C (rf_Bare f) (rf_Secret f) ev)) evs) s) \<and> length lns = length evs"
proof -
  obtain lns where "replay_loop C (rf_Secret f) (rf_Target f) (rf_Bare f) 0 evs s
      = (None, lns, 0, serve T cfg (map (\<lambda>ev. signed_request path ev (event_signature C (rf_Bare f) (rf_Secret f) ev)) evs) s)" "length lns = length evs"
    using replay_loop_delivers [where target = "rf_Target f" and bare = "rf_Bare f" and i = 0 and s = s, OF assms(6,7,8) assms(3,9,10)] by blast
  then show ?thesis using assms(1-5) by (simp add: replay_def)
qed

text \<open>A replay that reports success has had every event of the file accepted.\<close>

lemma replay_loop_accepted:
  "replay_loop C secret target bare i evs w = (None, lns, 0, w') \<Longrightarrow> length lns = length evs \<and> (\<forall>(j, status, x) \<in> set lns. 200 \<le> status \<and> status \<le> 299)"
proof (induction evs arbitrary: i w lns)
  case (Cons ev evs)
  obtain r w1 where p: "ct_Post C target ev (event_signature C bare secret ev) w = (r, w1)" by fastforce
  with Cons.prems obtain status body where r: "r = Inr (status, body)" by (cases r) auto
  obtain err l n w2 where l: "replay_loop C secret target bare (Suc i) evs w1 = (err, l, n, w2)" by (metis surj_pair)
  with Cons.prems p r have "err = None" "n = 0" "\<not> refused status" "lns = (i, status, truncate_text (take (2 ^ 20) body) 120) # l" "w2 = w'"
    by (auto split: if_split_asm)
  with Cons.IH [of "Suc i" w1 l] l show ?case by (auto simp: refused_def)
qed simp

lemma replay_success:
  assumes "replay C getenv readFile f w = (None, lns, w')"
  obtains raw evs where "readFile (rf_File f) = Inr raw" "split_events C raw = Inr evs" "length lns = length evs"
    "\<forall>(j, status, x) \<in> set lns. 200 \<le> status \<and> status \<le> 299"
proof -
  from assms obtain raw evs where e: "readFile (rf_File f) = Inr raw" "split_events C raw = Inr evs"
    by (auto simp: replay_def Let_def split: if_split_asm sum.split_asm)
  from assms e obtain secret where "replay_loop C secret (rf_Target f) (rf_Bare f) 0 evs w = (None, lns, 0, w')"
    by (auto simp: replay_def Let_def split: if_split_asm prod.split_asm option.split_asm)
  from replay_loop_accepted [OF this] e that show ?thesis by blast
qed

section \<open>Backfilling\<close>

text \<open>A dry run posts nothing: its outcome does not depend on the transport.\<close>

lemma dry_run_posts_nothing:
  assumes "bk_DryRun f"
  shows "backfill (C\<lparr>ct_Post := p\<rparr>) getenv readFile f w = backfill C getenv readFile f w"
proof -
  have b: "backfill_body (C\<lparr>ct_Post := p\<rparr>) u g v = backfill_body C u g v" for u g v by (simp add: backfill_body_def)
  have l: "backfill_loop (C\<lparr>ct_Post := p\<rparr>) secret f i rows a b' v = backfill_loop C secret f i rows a b' v" for secret i rows a b' v
    using assms by (induction rows arbitrary: i v) (simp_all add: b split: option.split prod.split)
  show ?thesis unfolding backfill_def l ..
qed

text \<open>The documented third column of the input, the tier, becomes a part of the organisation's id.\<close>

lemma split_n2_found: "d \<notin> set a \<Longrightarrow> split_n2 d (a @ d # b) = (a, Some b)"
  by (induction a) auto

lemma trim_space_kept: "s \<noteq> [] \<Longrightarrow> \<not> is_space (hd s) \<Longrightarrow> \<not> is_space (last s) \<Longrightarrow> trim_space s = s"
proof -
  assume s: "s \<noteq> []" "\<not> is_space (hd s)" "\<not> is_space (last s)"
  then have "dropWhile is_space s = s" "dropWhile is_space (rev s) = rev s" by (auto simp: dropWhile_eq_self_iff hd_rev)
  then show ?thesis by (simp add: trim_space_def)
qed

lemma backfill_tier_column:
  assumes "CHR '','' \<notin> set u" and "u \<noteq> []" and "t \<noteq> []" and "\<not> is_space (hd u)" and "\<not> is_space (last u)" and "hd u \<noteq> CHR ''#''"
    and "og \<noteq> []" and "\<not> is_space (hd og)" and "\<not> is_space (last t)"
  shows "backfill_row (u @ '','' @ og @ '','' @ t) = Some (u, og @ '','' @ t)"
proof -
  have "trim_space (u @ '','' @ og @ '','' @ t) = u @ '','' @ og @ '','' @ t" using assms by (intro trim_space_kept) auto
  moreover have "\<not> has_prefix (u @ '','' @ og @ '','' @ t) ''#''" using assms(2,6) by (cases u) auto
  moreover have "trim_space (og @ '','' @ t) = og @ '','' @ t" "trim_space u = u" using assms by (auto intro!: trim_space_kept)
  ultimately show ?thesis using split_n2_found [OF assms(1), of "og @ '','' @ t"] by (simp add: backfill_row_def)
qed

text \<open>A deletion request is never answered with success by this tool.\<close>

lemma delete_user_refuses: "delete_user_cmd userID \<noteq> None"
  by (simp add: delete_user_cmd_def store_from_env_def)

section \<open>A replayed sign-up\<close>

definition gift_cli :: "(pins, nat) credit_state cli" where
  "gift_cli = \<lparr>ct_Post = receiver_post gift_runtime gift_receiver ''/api/quotas/_webhooks/auth'', ct_mac = (\<lambda>k b. k @ b), ct_DecodeArray = (\<lambda>_. Inr []),
     ct_Marshal = bf_UserID, ct_Now = (\<lambda>s. (0, s)), ct_RFC3339 = (\<lambda>_. [])\<rparr>"

theorem replay_reaches_receiver_witness:
  "\<exists>lns s. replay gift_cli (\<lambda>_. []) (\<lambda>_. Inr ''e1'') \<lparr>rf_File = ''f'', rf_Secret = ''key'', rf_Target = ''http://svc'', rf_Bare = False\<rparr> gift_state = (None, lns, s)
    \<and> length lns = 1"
proof -
  let ?f = "\<lparr>rf_File = ''f'', rf_Secret = ''key'', rf_Target = ''http://svc'', rf_Bare = False\<rparr>"
  have e: "split_events gift_cli ''e1'' = Inr [''e1'']" by (simp add: split_events_def trim_space_def is_space_def)
  have p: "is_webhook_path ''/api/quotas/_webhooks/auth''" by (simp add: is_webhook_path_def has_suffix_def webhook_path_def)
  have s: "rf_Secret ?f \<in> set (receiver_secrets gift_receiver)" by (simp add: receiver_secrets_def gift_receiver_def)
  have c: "ct_mac gift_cli = rn_mac gift_runtime" "ct_Post gift_cli = receiver_post gift_runtime gift_receiver ''/api/quotas/_webhooks/auth''"
    by (simp_all add: gift_cli_def gift_runtime_def)
  have b: "int (length ev) \<le> max_body gift_receiver \<and> rn_mac gift_runtime (rf_Secret ?f) ev \<noteq> [] \<and> rn_decode gift_runtime ev \<noteq> None" if "ev \<in> set [''e1'']" for ev
    using that by (simp add: max_body_def gift_receiver_def gift_runtime_def)
  show ?thesis using replay_reaches_receiver [where f = ?f and readFile = "\<lambda>_. Inr ''e1''", OF _ _ _ refl e b p s c] by fastforce
qed

end
