(* ===== verification/Spec2Isabelle.thy ===== *)
theory Spec2Isabelle
  imports Reconcile Outbox Idempotency HandlerLedger Providers Alerts Migration RedisRefine AuthEvents Billing CreditGrants Subscribe
    RedisLedger DdbLedger ActivationStores OutboxStores RedisGuard Preflight Middleware Setup
    Counters Messages LoadConfig Provision Doctor Quotactl
begin

text \<open>
  Verification of \<open>ab0t-quota-go\<close>, a library that enforces per-tier quotas for a Go service.

  \<^bold>\<open>The program.\<close> A configuration document (\<open>config/\<close>) declares resources, tiers with limits per
  resource, and bundles of resources; \<open>registry/\<close> indexes it. Usage is counted in keyed floats
  (\<open>counters/\<close>): gauges (what is live now), accumulators (what was used in a period) and rates (what
  happened in a sliding window), in memory or on a Redis shared by replicas, under keys built from a
  prefix or from a versioned keyspace that is written in two shapes during a migration. The engine
  (\<open>engine/\<close>) answers \<open>Check\<close>, counts with \<open>Spend\<close> and \<open>Release\<close>, and gates whole bundles with
  \<open>Acquire\<close>, which writes an open activation to a ledger (\<open>activations/\<close>) that \<open>ReleaseActivation\<close> and
  \<open>Settle\<close> close. Before it denies on a cached gauge it asks a truth source; \<open>ReconcileOrg\<close> does the
  same on demand and the background reconciler (\<open>reconcile/\<close>) on a schedule. The tier of a caller comes
  from a provider behind a cache (\<open>providers/\<close>). Billing events leave through a durable outbox
  (\<open>outbox/\<close>, \<open>observation/\<close>, \<open>quota/settler.go\<close>) over the mesh clients (\<open>billing/\<close>, \<open>payment/\<close>,
  \<open>internal/httpx/\<close>). Sign-ups arrive as signed events (\<open>authevents/\<close>), whose handlers run at most once
  by way of a handler ledger (\<open>handlerledger/\<close>) and grant credit (\<open>quota/credit_granter.go\<close>). \<open>Setup\<close>
  (\<open>quota/setup.go\<close>) wires all of it, after guards have judged the Redis and the DynamoDB tables
  (\<open>redisguard/\<close>, \<open>ddbguard/\<close>, \<open>quota/topology.go\<close>), and the HTTP guard (\<open>middleware/\<close>) puts \<open>Check\<close> before
  a handler. Alerts (\<open>alerts/\<close>) report what the parts observe. The command \<open>quotactl\<close> (\<open>cmd/quotactl/\<close>) emits
  the infrastructure a deployment needs, grades a deployment by a boot that starts nothing, and posts
  saved or synthetic sign-ups to a receiver.

  \<^bold>\<open>The theories\<close>, each importing those above it that it calls.
  \<^item> \<open>Prelude\<close>: errors as values, instants and durations (nanoseconds), lemmas on strings and lists.
    \<open>GoFloat\<close>: \<open>float64\<close> as rationals, infinities and NaN with binary64 rounding written out. \<open>GoText\<close>:
    the functions of \<open>strings\<close> and \<open>strconv\<close> the sources call.
  \<^item> \<open>Config\<close>: \<open>config/*.go\<close>; the schema as records, \<open>Validate\<close> of every part, warnings, the
    resolution of declared settings, the interpolation of environment references. \<open>LoadConfig\<close>:
    \<open>config/load.go\<close> and \<open>decimal.go\<close>. \<open>Messages\<close>: \<open>messages/builder.go\<close>.
  \<^item> \<open>Registry\<close>: \<open>registry/registry.go\<close>. \<open>Periods\<close>: \<open>CurrentPeriod\<close> and \<open>PeriodTTL\<close> of
    \<open>counters/counter.go\<close> with the calendar they use. \<open>Keyspace\<close>: \<open>counters/keyspace.go\<close> and the
    key builders of the counters. \<open>Idempotency\<close>: \<open>counters/idempotency.go\<close> and \<open>idempotency_guard.go\<close>.
  \<^item> \<open>CounterStore\<close>: the store interfaces as records of functions, the in-memory store with
    \<open>AtomicAcquire\<close> (\<open>counters/acquire.go\<close>) and the dual-shape operations (\<open>counters/dual.go\<close>), the
    rate store, and the accumulator and rate counters. \<open>RedisStore\<close>: \<open>counters/store_redis.go\<close> and the
    scripts of \<open>acquire.go\<close> and \<open>dual.go\<close> over the commands of a Redis; \<open>RedisRefine\<close>: that it is the
    in-memory store. \<open>Counters\<close>: the plain counter of \<open>counter.go\<close>, the older methods of the other
    counters and \<open>counters/factory.go\<close>.
  \<^item> \<open>Activations\<close>: \<open>activations/activations.go\<close>. \<open>Engine\<close>: \<open>engine/engine.go\<close>, \<open>events.go\<close>, \<open>result.go\<close> and
    the recount before a denial; \<open>EngineActivation\<close>: \<open>engine/activation.go\<close> and the reconciliation entry
    points of \<open>engine/recount_20260810.go\<close>. \<open>Reconcile\<close>: \<open>reconcile/reconcile.go\<close>. \<open>Migration\<close>:
    \<open>counters/keyspace_migration.go\<close>. \<open>Providers\<close>: \<open>providers/*.go\<close>. \<open>Alerts\<close>: \<open>alerts/*.go\<close>.
  \<^item> \<open>Outbox\<close>: \<open>outbox/emitter.go\<close>, \<open>settle.go\<close>, \<open>store.go\<close>, \<open>observation/observation.go\<close>. \<open>HttpClient\<close>:
    \<open>internal/httpx/client.go\<close>. \<open>Billing\<close>: \<open>billing/*.go\<close>, \<open>payment/*.go\<close>, \<open>mesh/urls.go\<close>,
    \<open>quota/settler.go\<close>. \<open>CreditGrants\<close>: \<open>quota/credit_granter.go\<close>.
  \<^item> \<open>HandlerLedger\<close>: the contract, the in-memory store and the dispatch of \<open>handlerledger/\<close>;
    \<open>RedisLedger\<close>: its Redis store. \<open>AuthEvents\<close>: the receiver, the registry and the credit handler of
    \<open>authevents/\<close>; \<open>Subscribe\<close>: \<open>authevents/subscribe.go\<close>.
  \<^item> \<open>Dynamo\<close>: the calls of the AWS SDK the stores make and their polling loops; \<open>DdbLedger\<close>,
    \<open>ActivationStores\<close>, \<open>OutboxStores\<close>: the DynamoDB and Redis stores of the handler ledger, the
    activations and the outbox, with its SNS publisher (\<open>outbox/sns.go\<close>).
  \<^item> \<open>RedisGuard\<close>: \<open>redisguard/*.go\<close>. \<open>Preflight\<close>: \<open>ddbguard/ddbguard.go\<close> and \<open>quota/topology.go\<close>.
    \<open>Middleware\<close>: \<open>middleware/*.go\<close> and \<open>quota/quota_context.go\<close>. \<open>Setup\<close>: \<open>quota/setup.go\<close>.
  \<^item> \<open>Provision\<close>: \<open>cmd/quotactl/provision.go\<close>, the emitted artifacts as their texts. \<open>Doctor\<close>: \<open>doctor.go\<close> and
    \<open>capabilities.go\<close> over \<open>Setup\<close>. \<open>Quotactl\<close>: \<open>replay.go\<close>, \<open>backfill.go\<close> and the other verbs.

  \<^bold>\<open>State and effects.\<close> A Go struct is a record, a method a function from the state to its results and
  the new state; an error return is \<open>Inl\<close> or \<open>Some\<close> of an error value. An interface is a record of
  functions over a type of store states, so that the definitions of its clients hold for every
  implementation, including those of which only the contract is known. A method that holds its mutex
  for the whole body is one step, and interleavings of clients are sequences of such steps
  (\<open>store_step\<close>, \<open>gate_step\<close>, \<open>dual_step\<close>, \<open>ledger_step\<close>, \<open>cache_step\<close>, \<open>deliveries\<close>, \<open>followed\<close>). A method
  that talks to a shared server is a sequence of commands over a threaded world, which other
  replicas may change between any two of them. \<open>Setup\<close> is a sequence of steps that may fail; what they
  start or open is a list of effects that a failure leaves behind. Log lines are left out, events and
  callbacks are lists in the state.

  \<^bold>\<open>Parameters\<close> stand for what is not in the sources or not determined by them: the commands of a Redis
  and the answers of its probes, the replies of \<open>SCAN\<close>, the DynamoDB client, the HTTP transport and
  the resolution of names, the tier lookup, the truth sources (a timeout is an error answer), the
  bodies of event handlers, message templates, SHA-256 and HMAC, number, time and JSON codecs, the
  parsing of URLs, random bytes, the environment, and the clock with its waits. A Go map that the code
  ranges over is an association list; where its order could matter the statement does not depend on it.

  \<^bold>\<open>Interfaces.\<close> \<open>float_store_laws\<close>, \<open>reliable_store\<close> and \<open>acquiring_store\<close> state what the engine and the
  reconciler rely on of a counter store, through the levels a caller can observe; \<open>ledger\<close> and
  \<open>outbox_laws\<close> do so for the activation store and the outbox, and \<open>handler_ledger\<close> for the ledger behind
  the event handlers. The interpretations \<open>ms\<close>, \<open>ma\<close>, \<open>mo\<close> and \<open>ml\<close> discharge these laws for the in-memory
  implementations. \<open>shared_redis\<close> and \<open>shared_table\<close> say what one command does while others change the
  same data, \<open>dynamo_clock\<close> and \<open>boot_clock\<close> that time passes; they are interpreted on a table and a
  deployment whose other clients act between any two commands (\<open>ctc\<close>, \<open>ct\<close>, \<open>ctd\<close>, \<open>shop\<close>).
  Statements about any store at all need no law.

  \<^bold>\<open>What is shown.\<close>
  \<^item> Counters: the atomic acquire refines an abstract all-or-nothing, at-most-once acquire; under any
    interleaving of requests that name a gauge once no gauge passes its limit, and no counter is negative
    or NaN; dual writes keep both shapes of a counter without expiry equal; the sliding window counts exactly; the Redis store with its scripts answers and
    counts as the in-memory store does.
  \<^item> Keys: distinct scopes never share a v2 key, the two shapes never collide, the v1 classifier
    inverts the v1 builder; a migration copies every value and its reaper deletes no gauge and no
    accumulator whose twin does not hold its value.
  \<^item> Engine: the verdict of \<open>Check\<close> for gauges, its recount by the truth source, shadow mode and the
    kill switch; \<open>Spend\<close> counts exactly and \<open>Release\<close> undoes it; \<open>Acquire\<close> is all or nothing, leaves a
    receipt, admits what fits, and \<open>ReleaseActivation\<close> restores the levels; reconciling converges in
    one pass and is idempotent. Without a truth source the HTTP guard serves exactly what
    the limits admit. In the registry of a validated configuration every lookup finds what was declared.
  \<^item> Ledgers and outbox: an activation is released once, also by replicas on one table, and its first
    cost is final; a drain pass loses no money event; a settlement that was not refused for good stays
    owed; one lease per event, no rerun of a finished one, and attempts on Redis and DynamoDB that are
    atomic while other replicas write.
  \<^item> Events and money: a sign-up is credited once by a receiver with its ledger, a forged event changes nothing, a key never leaves
    its origin on a redirect, an outage of the tier service never downgrades a caller.
  \<^item> Boot: a Redis that shows a sign of being unsafe is refused, a declared store never degrades to memory, a paid service comes
    up only with every link to billing, the re-verification judges as the boot did, a violated
    invariant fails the health report, and \<open>Setup\<close> returns.
  \<^item> Tools: every emitted artifact conforms to the constants of the gates, the doctor starts nothing,
    and what is replayed to a receiver with the same secret is delivered, in order.
  \<^item> Across components: the reconciler's guard protects what the engine just acquired.
  \<^item> Deviations of the code from its intent are stated as theorems too: a legacy credit that escapes
    the unlock-only rule, a bundle that names a gauge twice, org-less acquires that checks do not
    see, settlement before release or lost to one, a finished event reopened on DynamoDB, a receiver
    without a ledger that grants again, an assertion that hides an evicting policy, a refused boot that
    leaves its handler behind, a document that loads and does not boot, a provisioned ledger that cannot
    forget a user, and a doctor that passes gates it never checked.

  \<^bold>\<open>Bounds and loops.\<close> Whole levels up to \<open>2^52\<close> are exact in \<open>float64\<close>, which the round-trip statements
  assume of the levels they restore; the equality of the Redis and the in-memory store is for whole
  counts up to \<open>2^53\<close> and histories in which no key expires. Statements over gauge keys assume keys
  without expiry where a \<open>Set\<close> without TTL is relied on, since the in-memory \<open>Set\<close> keeps an older
  expiry. Bounded retries (20 optimistic transactions, 20 conditional puts, 1000 pages of a listing,
  ten redirects, the configured attempts) are the code's own numbers and structural recursions. The
  loops that wait for a table or for a Redis until a deadline are partial functions, proved to return
  on a clock that moves. Case folding is that of ASCII, where the sources fold configuration words,
  header schemes and server answers.

  \<^bold>\<open>Not modelled\<close>: the dispatcher that only logs and every other log line; JSON, which is a parameter,
  and so the shape of a document before it is decoded; tickers around a pass, timeouts and the lifetime
  of goroutines; the flags and the printing of \<open>quotactl\<close>; the documentation linter (\<open>internal/doclint/\<close>),
  which only tests use, the examples and the archived packages, which are not part of the library.
\<close>

section \<open>Properties that span components\<close>

text \<open>
  C10. A fresh acquire survives the reconciler. The engine and the reconciler share the counter store,
  the keyspace and the registry, and the reconciler's guard is the engine's \<open>RecentlyTouched\<close>. Then a
  pass over the org made less than the guard's window after an admitted acquire, whatever the
  provider and the ledger say by then, leaves every gauge the acquire raised at its level: a
  provider that lags behind the creation cannot drive the counter down.
\<close>

theorem fresh_acquire_survives_reconcile:
  assumes "acquire E st inp aid ts = ((e, res), st1)" and "ar_Admitted res" and "(rk, sp) \<in> set (asked E inp)"
    and "en_Reg E = reg_new cfg" and "rc_Reg R = en_Reg E" and "rc_Prefix R = en_Prefix E" and "rc_Keyspace R = en_Keyspace E"
    and "rc_Floats R = mem_float_store" and "later - es_now st < window"
    and "rc_RecentlyTouched R = Some (\<lambda>org rk. recently_touched (st1\<lparr>es_now := later\<rparr>) org rk window)"
    and "distinct (concat (map (\<lambda>res. pair_keys (rc_key_pair R (ai_OrgID inp) res)) (filter is_gauge_res (reg_all_resources (rc_Reg R)))))"
    and "gauges_lasting mem_lasting R (ai_OrgID inp) (reg_all_resources (rc_Reg R)) (rs_floats rst)"
  shows "mem_level (rs_floats (snd (rc_reconcile_org R (ai_OrgID inp) rst))) (as_OrgKey sp) = mem_level (rs_floats rst) (as_OrgKey sp)"
proof -
  have sp: "sp = gauge_spec E inp rk" "is_gauge E rk"
    using assms(3) by (auto simp: asked_def gauge_specs_def split: option.splits if_splits)
  then obtain rd where rd: "reg_resource (reg_new cfg) rk = Some rd" "rd_CounterType rd = CounterGauge"
    using assms(4) by (auto simp: is_gauge_def split: option.splits)
  note key = reg_new_resource [OF rd(1)]
  have "as_OrgKey sp = dp_P (rc_key_pair R (ai_OrgID inp) rd)"
    using sp(1) key(1) assms(6,7)
    by (simp add: gauge_spec_def spend_spec_def rc_key_pair_def rc_pair_def counter_of_def Let_def split: prod.splits)
  then have k: "as_OrgKey sp \<in> set (pair_keys (rc_key_pair R (ai_OrgID inp) rd))" by (simp add: pair_keys_def)
  have "recently_touched (st1\<lparr>es_now := later\<rparr>) (ai_OrgID inp) rk window"
    using acquire_touches [OF assms(1-3)] assms(9) by (simp add: recently_touched_def touch_key_def)
  with ms.touched_gauge_kept [OF assms(8,12,11) _ _ assms(10) _ k] key rd(2) assms(4,5) show ?thesis
    by (simp add: is_gauge_res_def)
qed

text \<open>A provider that has not seen the acquire of \<open>live_acquired\<close> yet and reports nothing running.\<close>

definition lagging_reconciler :: "(mem_store, mem_rates, mem_acts) estate \<Rightarrow> (mem_store, mem_acts) reconciler" where
  "lagging_reconciler st1 = \<lparr>rc_Store = mem_act_store\<lparr>at_Durable := Some True\<rparr>, rc_Floats = mem_float_store, rc_Prefix = ''quota'',
     rc_Keyspace = ks_zero, rc_Reg = reg_new small_config, rc_Provider = Some (\<lambda>_. Inr [''box.live'' \<mapsto> 0]),
     rc_RecentlyTouched = Some (\<lambda>org rk. recently_touched (st1\<lparr>es_now := 5\<rparr>) org rk 10)\<rparr>"

theorem fresh_acquire_survives_reconcile_witness:
  "\<exists>res st1. acquire small_engine small_state live_input ''act_1'' ''t'' = ((None, res), st1)
     \<and> mem_level (rs_floats (snd (rc_reconcile_org (lagging_reconciler st1) ''o1''
           \<lparr>rs_floats = mem_put (mem_empty 0) ''quota:o1:box.live:gauge'' (Fin 1), rs_acts = es_acts st1, rs_alerts = [], rs_clean = []\<rparr>)))
         ''quota:o1:box.live:gauge'' = Some (Fin 1)"
proof -
  obtain res st1 where a: "acquire small_engine small_state live_input ''act_1'' ''t'' = ((None, res), st1)" "ar_Admitted res"
    using acquire_admits [OF small_mem_engine live_ready] by blast
  let ?R = "lagging_reconciler st1"
  let ?rst = "\<lparr>rs_floats = mem_put (mem_empty 0) ''quota:o1:box.live:gauge'' (Fin 1), rs_acts = es_acts st1, rs_alerts = [], rs_clean = []\<rparr>"
  have m: "(''box.live'', live_spec) \<in> set (asked small_engine live_input)" by (simp add: live_asked)
  have reg: "en_Reg small_engine = reg_new small_config" by (simp add: small_engine_def)
  have o: "ai_OrgID live_input = ''o1''" by (simp add: live_input_def)
  have R: "rc_Reg ?R = en_Reg small_engine" "rc_Prefix ?R = en_Prefix small_engine" "rc_Keyspace ?R = en_Keyspace small_engine"
    "rc_Floats ?R = mem_float_store" "rc_RecentlyTouched ?R = Some (\<lambda>org rk. recently_touched (st1\<lparr>es_now := 5\<rparr>) org rk 10)"
    by (simp_all add: lagging_reconciler_def reg)
  have n: "5 - es_now small_state < 10" by (simp add: small_state_def)
  have all: "reg_all_resources (rc_Reg ?R) = [gauge_resource ''box.live'']"
    unfolding R(1) reg by (simp add: reg_all_resources_def reg_new_def index_by_def small_config_def)
  have p: "rc_key_pair ?R ''o1'' (gauge_resource ''box.live'') = single ''quota:o1:box.live:gauge''"
    using small_ks by (simp add: rc_key_pair_def rc_pair_def lagging_reconciler_def gauge_resource_def gauge_org_pair_def key_prefix_build_def)
  have d: "distinct (concat (map (\<lambda>res. pair_keys (rc_key_pair ?R (ai_OrgID live_input) res))
      (filter is_gauge_res (reg_all_resources (rc_Reg ?R)))))"
    unfolding all o by (simp add: p pair_keys_def)
  have l: "gauges_lasting mem_lasting ?R (ai_OrgID live_input) (reg_all_resources (rc_Reg ?R)) (rs_floats ?rst)"
    unfolding all o by (simp add: gauges_lasting_def pair_lasting_def p mem_lasting_def mem_empty_def)
  have v: "mem_level (rs_floats ?rst) ''quota:o1:box.live:gauge'' = Some (Fin 1)"
    by (simp add: store_simps)
  from fresh_acquire_survives_reconcile [OF a m reg R(1,2,3,4) n R(5) d l] v o a(1) show ?thesis by auto
qed

end
